(* ===== verification/Prelude.thy ===== *)
theory Prelude
  imports Main "HOL-Library.Word"
begin

text \<open>
  Shared ground of the development: the C integer types as words, bit fields (a C bit field of
  width \<open>n\<close> at bit \<open>i\<close> of its storage unit is read by \<open>get_field i n\<close> and written by
  \<open>set_field i n\<close>), little- and big-endian byte codecs, reads and writes of a byte array that
  say when they leave it (\<open>None\<close>), C's arithmetic of \<open>size_t\<close> and its conversions to \<open>int\<close>,
  and generic facts on lists that several components use.
\<close>

unbundle bit_operations_syntax

type_synonym u8 = "8 word"
type_synonym u16 = "16 word"
type_synonym u32 = "32 word"
type_synonym u64 = "64 word"
type_synonym bytes = "8 word list"

named_theorems field_simps_c "reads of bit fields after writes"
named_theorems mem_simps "reads and writes of byte arrays that stay in range"

section \<open>Bit fields\<close>

definition get_field :: "nat \<Rightarrow> nat \<Rightarrow> 'a::len word \<Rightarrow> 'a word" where
  "get_field i n x = take_bit n (drop_bit i x)"

definition set_field :: "nat \<Rightarrow> nat \<Rightarrow> 'a::len word \<Rightarrow> 'a word \<Rightarrow> 'a word" where
  "set_field i n v x = (x AND NOT (push_bit i (mask n))) OR push_bit i (take_bit n v)"

lemma bit_get_field: "bit (get_field i n x) k \<longleftrightarrow> k < n \<and> bit x (i + k)"
  by (auto simp: get_field_def bit_simps)

lemma bit_set_field:
  "bit (set_field i n v x) k \<longleftrightarrow>
     (if i \<le> k \<and> k < i + n then k < LENGTH('a) \<and> bit v (k - i) else bit x k)"
  for x :: "'a::len word"
  by (auto simp: set_field_def bit_simps dest: bit_imp_le_length)

lemma get_set_field [field_simps_c]:
  "i + n \<le> LENGTH('a) \<Longrightarrow> get_field i n (set_field i n v x) = take_bit n v"
  for x :: "'a::len word"
  by (rule bit_eqI) (auto simp: bit_get_field bit_set_field bit_simps)

lemma get_set_field_other [field_simps_c]:
  "i + n \<le> j \<or> j + m \<le> i \<Longrightarrow> get_field j m (set_field i n v x) = get_field j m x"
  for x :: "'a::len word"
  by (rule bit_eqI) (auto simp: bit_get_field bit_set_field)

lemma unat_get_field_lt: "unat (get_field i n x) < 2 ^ n"
proof -
  have "unat (get_field i n x) = take_bit n (unat (drop_bit i x))"
    by (simp add: get_field_def unsigned_take_bit_eq)
  then show ?thesis by simp
qed

section \<open>Sixteen-bit values as two bytes\<close>

definition le16 :: "u8 \<Rightarrow> u8 \<Rightarrow> u16" where
  "le16 b0 b1 = ucast b0 OR push_bit 8 (ucast b1)"

definition lo8 :: "u16 \<Rightarrow> u8" where
  "lo8 w = ucast w"

definition hi8 :: "u16 \<Rightarrow> u8" where
  "hi8 w = ucast (drop_bit 8 w)"

lemma le16_lo_hi [simp]: "le16 (lo8 w) (hi8 w) = w"
  by (rule bit_word_eqI) (auto simp: le16_def lo8_def hi8_def bit_simps)

lemma lo8_le16 [simp]: "lo8 (le16 a b) = a"
  by (rule bit_word_eqI) (auto simp: le16_def lo8_def bit_simps)

lemma hi8_le16 [simp]: "hi8 (le16 a b) = b"
  by (rule bit_word_eqI) (auto simp: le16_def hi8_def bit_simps dest: bit_imp_le_length)

section \<open>Reads and writes of a byte array\<close>

text \<open>
  \<open>mem_read m off n\<close> is \<open>memcpy\<close> of \<open>n\<close> bytes out of the array \<open>m\<close>, \<open>mem_write m off bs\<close>
  is \<open>memcpy\<close> into it; both are \<open>None\<close> when they would leave the array.
\<close>

definition mem_read :: "bytes \<Rightarrow> nat \<Rightarrow> nat \<Rightarrow> bytes option" where
  "mem_read m off n = (if off + n \<le> length m then Some (take n (drop off m)) else None)"

definition mem_write :: "bytes \<Rightarrow> nat \<Rightarrow> bytes \<Rightarrow> bytes option" where
  "mem_write m off bs =
     (if off + length bs \<le> length m
      then Some (take off m @ bs @ drop (off + length bs) m) else None)"

lemma mem_read_Some [mem_simps]:
  "off + n \<le> length m \<Longrightarrow> mem_read m off n = Some (take n (drop off m))"
  by (simp add: mem_read_def)

lemma mem_read_None: "mem_read m off n = None \<longleftrightarrow> length m < off + n"
  by (auto simp: mem_read_def)

lemma mem_write_Some [mem_simps]:
  "off + length bs \<le> length m \<Longrightarrow>
     mem_write m off bs = Some (take off m @ bs @ drop (off + length bs) m)"
  by (simp add: mem_write_def)

lemma length_mem_write: "mem_write m off bs = Some m' \<Longrightarrow> length m' = length m"
  by (auto simp: mem_write_def split: if_splits)

lemma mem_write_at_prefix:
  "mem_write (ps @ ts) (length ps) bs =
     (if length bs \<le> length ts then Some ((ps @ bs) @ drop (length bs) ts) else None)"
  by (simp add: mem_write_def)

section \<open>Conversions to int\<close>

text \<open>\<open>(int)x\<close> of an unsigned 64-bit value on an LP64 target: its low 32 bits, signed.\<close>

definition to_int :: "u64 \<Rightarrow> int" where
  "to_int x = sint (ucast x :: u32)"

lemma to_int_of_nat: "n < 2 ^ 31 \<Longrightarrow> to_int (word_of_nat n) = int n"
proof -
  assume n: "n < 2 ^ 31"
  have "(ucast (word_of_nat n :: u64) :: u32) = word_of_nat n"
    using n by (simp add: unsigned_of_nat take_bit_nat_eq_self)
  then show ?thesis
    using n by (simp add: to_int_def signed_of_nat signed_take_bit_int_eq_self)
qed

lemma unat_of_small: "n < 2 ^ 32 \<Longrightarrow> unat (word_of_nat n :: u64) = n"
  by (simp add: unsigned_of_nat take_bit_nat_eq_self)

lemma less_of_small:
  "m < 2 ^ 32 \<Longrightarrow> n < 2 ^ 32 \<Longrightarrow> (word_of_nat m :: u64) < word_of_nat n \<longleftrightarrow> m < n"
  by (simp only: word_less_nat_alt unat_of_small)

section \<open>Sums of bytes\<close>

lemma sum_list_append_word: "sum_list (xs @ ys) = sum_list xs + sum_list (ys :: 'a::len word list)"
  by simp

lemma sum_list_replicate_zero: "sum_list (replicate n (0 :: 'a::len word)) = 0"
  by (induction n) auto

end
