(* ===== verification/AfnProto.thy ===== *)
theory AfnProto
  imports Prelude
begin

text \<open>
  The link and application layers of the concentrator protocol: \<open>AFN/src/proto.h\<close>,
  \<open>proto.cpp\<close> and \<open>AFNPackage.cpp\<close>. The classes are records with the source's members,
  every method is a function of the object and of the memory it reads or writes. A read or
  write outside the memory the code was given, and a member access through a null pointer,
  is \<open>None\<close>. \<open>DWORD\<close> is \<open>unsigned long\<close>, 64 bits on the LP64 target of the makefile.
\<close>

section \<open>The data of a frame\<close>

text \<open>\<open>Pkg_Header\<close>: the two length words hold a 2-bit tag and a 14-bit length.\<close>

record pkg_header =
  S1 :: u8
  L_l :: u16
  L1_l1 :: u16
  S2 :: u8

definition L_TAG :: "u16 \<Rightarrow> u16" where "L_TAG l = get_field 0 2 l"
definition L_LEN :: "u16 \<Rightarrow> u16" where "L_LEN l = get_field 2 14 l"
definition set_L_TAG :: "u16 \<Rightarrow> u16 \<Rightarrow> u16" where "set_L_TAG v l = set_field 0 2 v l"
definition set_L_LEN :: "u16 \<Rightarrow> u16 \<Rightarrow> u16" where "set_L_LEN v l = set_field 2 14 v l"

text \<open>\<open>Pkg_User_Header\<close>: the control byte C, the addresses A1, A2 and A3.\<close>

record pkg_user_header =
  C_c :: u8
  A1 :: u16
  A2 :: u16
  A3_a3 :: u8

definition C_FUN :: "u8 \<Rightarrow> u8" where "C_FUN c = get_field 0 4 c"
definition C_PRM :: "u8 \<Rightarrow> u8" where "C_PRM c = get_field 6 1 c"
definition A3_TAG :: "u8 \<Rightarrow> u8" where "A3_TAG a = get_field 0 1 a"

definition set_C_FUN :: "u8 \<Rightarrow> u8 \<Rightarrow> u8" where "set_C_FUN v c = set_field 0 4 v c"
definition set_C_FCV :: "u8 \<Rightarrow> u8 \<Rightarrow> u8" where "set_C_FCV v c = set_field 4 1 v c"
definition set_C_FCB :: "u8 \<Rightarrow> u8 \<Rightarrow> u8" where "set_C_FCB v c = set_field 5 1 v c"
definition set_C_PRM :: "u8 \<Rightarrow> u8 \<Rightarrow> u8" where "set_C_PRM v c = set_field 6 1 v c"
definition set_C_DIR :: "u8 \<Rightarrow> u8 \<Rightarrow> u8" where "set_C_DIR v c = set_field 7 1 v c"
definition set_A3_TAG :: "u8 \<Rightarrow> u8 \<Rightarrow> u8" where "set_A3_TAG v a = set_field 0 1 v a"
definition set_A3_MSA :: "u8 \<Rightarrow> u8 \<Rightarrow> u8" where "set_A3_MSA v a = set_field 1 7 v a"

record pkg_tail =
  CS :: u8
  E_end :: u8

text \<open>\<open>Pkg_Afn_Header\<close>: the function code and the sequence byte.\<close>

record pkg_afn_header =
  AFN :: u8
  SEQ_seq :: u8

definition SEQ_PRSEQ :: "u8 \<Rightarrow> u8" where "SEQ_PRSEQ s = get_field 0 4 s"
definition SEQ_CON :: "u8 \<Rightarrow> u8" where "SEQ_CON s = get_field 4 1 s"
definition SEQ_FIN :: "u8 \<Rightarrow> u8" where "SEQ_FIN s = get_field 5 1 s"
definition SEQ_FIR :: "u8 \<Rightarrow> u8" where "SEQ_FIR s = get_field 6 1 s"

definition set_SEQ_PRSEQ :: "u8 \<Rightarrow> u8 \<Rightarrow> u8" where "set_SEQ_PRSEQ v s = set_field 0 4 v s"
definition set_SEQ_CON :: "u8 \<Rightarrow> u8 \<Rightarrow> u8" where "set_SEQ_CON v s = set_field 4 1 v s"
definition set_SEQ_FIN :: "u8 \<Rightarrow> u8 \<Rightarrow> u8" where "set_SEQ_FIN v s = set_field 5 1 v s"
definition set_SEQ_FIR :: "u8 \<Rightarrow> u8 \<Rightarrow> u8" where "set_SEQ_FIR v s = set_field 6 1 v s"
definition set_SEQ_TPV :: "u8 \<Rightarrow> u8 \<Rightarrow> u8" where "set_SEQ_TPV v s = set_field 7 1 v s"

record data_tag =
  DA1 :: u8
  DA2 :: u8
  DT1 :: u8
  DT2 :: u8

text \<open>
  \<open>Pkg_Afn_Data\<close>: the four-byte tag and the data; \<open>m_nLen\<close> is the length of \<open>m_pData\<close>, and a
  null \<open>m_pData\<close> is the empty list.
\<close>

record pkg_afn_data =
  m_Tag :: data_tag
  m_pData :: bytes

text \<open>
  The additional information \<open>Pkg_Afn_Aux\<close> in its two classes, upwards and downwards: the
  time stamp TP (\<open>PFC\<close>, the four \<open>TM\<close> bytes, \<open>DELAY\<close>) with its presence flag, and the event
  counters EC or the password PW.
\<close>

record aux_tp =
  PFC :: u8
  TM :: bytes
  DELAY :: u8

datatype pkg_afn_aux =
  Aux_Up (hasTp: bool) (aux_TP: aux_tp) (EC1: u8) (EC2: u8)
| Aux_Down (hasTp: bool) (aux_TP: aux_tp) (hasPW: bool) (PW: bytes)

record pkg_afn =
  afnHeader :: pkg_afn_header
  pAfnData :: "pkg_afn_data option"
  pAux :: "pkg_afn_aux option"

record pkg =
  pkgHeader :: pkg_header
  userHeader :: pkg_user_header
  pAfn :: pkg_afn
  pkgTail :: pkg_tail
  Fn :: u16
  pn :: u16

definition PKG_HEADLEN :: nat where "PKG_HEADLEN = 6"
definition PKG_USER_HEADLEN :: nat where "PKG_USER_HEADLEN = 6"
definition PKG_TAILLEN :: nat where "PKG_TAILLEN = 2"
definition PKG_AFN_HEADLEN :: nat where "PKG_AFN_HEADLEN = 2"
definition PKG_AFN_DATATAGLEN :: nat where "PKG_AFN_DATATAGLEN = 4"

lemmas pkg_len_defs = PKG_HEADLEN_def PKG_USER_HEADLEN_def PKG_TAILLEN_def
  PKG_AFN_HEADLEN_def PKG_AFN_DATATAGLEN_def

definition YQER_OK :: int where "YQER_OK = 0"
definition YQER_PKG_Err :: "int \<Rightarrow> int" where "YQER_PKG_Err x = - 300 - x"

section \<open>Byte layout of the packed classes\<close>

definition header_bytes :: "pkg_header \<Rightarrow> bytes" where
  "header_bytes h = [S1 h, lo8 (L_l h), hi8 (L_l h), lo8 (L1_l1 h), hi8 (L1_l1 h), S2 h]"

definition header_of :: "bytes \<Rightarrow> pkg_header" where
  "header_of b = \<lparr>S1 = b ! 0, L_l = le16 (b ! 1) (b ! 2), L1_l1 = le16 (b ! 3) (b ! 4),
     S2 = b ! 5\<rparr>"

definition user_bytes :: "pkg_user_header \<Rightarrow> bytes" where
  "user_bytes u = [C_c u, lo8 (A1 u), hi8 (A1 u), lo8 (A2 u), hi8 (A2 u), A3_a3 u]"

definition user_of :: "bytes \<Rightarrow> pkg_user_header" where
  "user_of b = \<lparr>C_c = b ! 0, A1 = le16 (b ! 1) (b ! 2), A2 = le16 (b ! 3) (b ! 4),
     A3_a3 = b ! 5\<rparr>"

definition tail_bytes :: "pkg_tail \<Rightarrow> bytes" where
  "tail_bytes t = [CS t, E_end t]"

definition tail_of :: "bytes \<Rightarrow> pkg_tail" where
  "tail_of b = \<lparr>CS = b ! 0, E_end = b ! 1\<rparr>"

definition afn_header_bytes :: "pkg_afn_header \<Rightarrow> bytes" where
  "afn_header_bytes h = [AFN h, SEQ_seq h]"

definition afn_header_of :: "bytes \<Rightarrow> pkg_afn_header" where
  "afn_header_of b = \<lparr>AFN = b ! 0, SEQ_seq = b ! 1\<rparr>"

definition tag_bytes :: "data_tag \<Rightarrow> bytes" where
  "tag_bytes t = [DA1 t, DA2 t, DT1 t, DT2 t]"

definition tag_of :: "bytes \<Rightarrow> data_tag" where
  "tag_of b = \<lparr>DA1 = b ! 0, DA2 = b ! 1, DT1 = b ! 2, DT2 = b ! 3\<rparr>"

lemmas layout_defs = header_bytes_def header_of_def user_bytes_def user_of_def tail_bytes_def
  tail_of_def afn_header_bytes_def afn_header_of_def tag_bytes_def tag_of_def

lemma layout_roundtrip [simp]:
  "header_of (header_bytes h) = h" "user_of (user_bytes u) = u" "tail_of (tail_bytes t) = t"
  "afn_header_of (afn_header_bytes a) = a" "tag_of (tag_bytes g) = g"
  by (simp_all add: layout_defs)

lemma layout_length [simp]:
  "length (header_bytes h) = 6" "length (user_bytes u) = 6" "length (tail_bytes t) = 2"
  "length (afn_header_bytes a) = 2" "length (tag_bytes g) = 4"
  by (simp_all add: layout_defs)

end
