(* ===== verification/AfnCodec.thy ===== *)
theory AfnCodec
  imports AfnProto
begin

text \<open>
  \<open>AFN/src/proto.cpp\<close>: packing and unpacking of the application data. A packer takes the
  buffer, the offset of its \<open>_data\<close> pointer and its \<open>_len\<close> argument, and returns the written
  buffer with the method's result, or \<open>None\<close> when a write leaves the buffer. An unpacker
  takes the received bytes, the offset and \<open>_len\<close>, and is \<open>None\<close> when a read leaves them.
\<close>

section \<open>Pkg_Afn_Data\<close>

definition m_nLen :: "pkg_afn_data \<Rightarrow> u64" where
  "m_nLen d = word_of_nat (length (m_pData d))"

definition Pkg_Afn_Data_GetDataLen :: "pkg_afn_data \<Rightarrow> u64" where
  "Pkg_Afn_Data_GetDataLen d = word_of_nat PKG_AFN_DATATAGLEN + m_nLen d"

definition Pkg_Afn_Data_PackData ::
  "pkg_afn_data \<Rightarrow> bytes \<Rightarrow> nat \<Rightarrow> u64 \<Rightarrow> (bytes \<times> u64) option" where
  "Pkg_Afn_Data_PackData d mem off len =
     (if m_nLen d + word_of_nat PKG_AFN_DATATAGLEN \<le> len then
        (case mem_write mem off (tag_bytes (m_Tag d)) of
           None \<Rightarrow> None
         | Some mem1 \<Rightarrow>
             (case mem_write mem1 (off + PKG_AFN_DATATAGLEN) (m_pData d) of
                None \<Rightarrow> None
              | Some mem2 \<Rightarrow> Some (mem2, m_nLen d + word_of_nat PKG_AFN_DATATAGLEN)))
      else Some (mem, 0))"

definition Pkg_Afn_Data_unPackData ::
  "pkg_afn_data \<Rightarrow> bytes \<Rightarrow> nat \<Rightarrow> u64 \<Rightarrow> pkg_afn_data option" where
  "Pkg_Afn_Data_unPackData d data off len =
     (case (if word_of_nat PKG_AFN_DATATAGLEN \<le> len then
              (case mem_read data off PKG_AFN_DATATAGLEN of
                 None \<Rightarrow> None
               | Some t \<Rightarrow> Some (d\<lparr>m_Tag := tag_of t\<rparr>, off + PKG_AFN_DATATAGLEN,
                                 len - word_of_nat PKG_AFN_DATATAGLEN))
            else Some (d, off, len)) of
        None \<Rightarrow> None
      | Some (d1, off1, len1) \<Rightarrow>
          (if len1 > 0 then
             (case mem_read data off1 (unat len1) of
                None \<Rightarrow> None
              | Some bs \<Rightarrow> Some (d1\<lparr>m_pData := bs\<rparr>))
           else Some d1))"

text \<open>
  The constructor \<open>Pkg_Afn_Data(_data,_len)\<close>: a null \<open>m_pData\<close>, then \<open>unPackData\<close>. The tag
  is uninitialised before it (the argument \<open>junk\<close>).
\<close>

definition Pkg_Afn_Data_new ::
  "data_tag \<Rightarrow> bytes \<Rightarrow> nat \<Rightarrow> u64 \<Rightarrow> pkg_afn_data option" where
  "Pkg_Afn_Data_new junk data off len =
     Pkg_Afn_Data_unPackData \<lparr>m_Tag = junk, m_pData = []\<rparr> data off len"

section \<open>Pkg_Afn_Aux and its two classes\<close>

definition tp_bytes :: "aux_tp \<Rightarrow> bytes" where
  "tp_bytes t = [PFC t, TM t ! 0, TM t ! 1, TM t ! 2, TM t ! 3, DELAY t]"

definition tp_of :: "bytes \<Rightarrow> aux_tp" where
  "tp_of b = \<lparr>PFC = b ! 0, TM = [b ! 1, b ! 2, b ! 3, b ! 4], DELAY = b ! 5\<rparr>"

definition Pkg_Afn_Aux_GetDataLen :: "pkg_afn_aux \<Rightarrow> u64" where
  "Pkg_Afn_Aux_GetDataLen a = (if hasTp a then 6 else 0)"

definition Pkg_Afn_Aux_PackData ::
  "pkg_afn_aux \<Rightarrow> bytes \<Rightarrow> nat \<Rightarrow> u64 \<Rightarrow> bytes option" where
  "Pkg_Afn_Aux_PackData a mem off len =
     (if Pkg_Afn_Aux_GetDataLen a \<le> len \<and> hasTp a
      then mem_write mem off (tp_bytes (aux_TP a)) else Some mem)"

fun aux_GetDataLen :: "pkg_afn_aux \<Rightarrow> u64" where
  "aux_GetDataLen (Aux_Up tp TP e1 e2) = 2 + Pkg_Afn_Aux_GetDataLen (Aux_Up tp TP e1 e2)"
| "aux_GetDataLen (Aux_Down tp TP pw pwd) =
     (if pw then 16 + Pkg_Afn_Aux_GetDataLen (Aux_Down tp TP pw pwd)
      else Pkg_Afn_Aux_GetDataLen (Aux_Down tp TP pw pwd))"

text \<open>
  The time stamp of a downward block goes to \<open>_data+16\<close> with or without a password, although
  \<open>GetDataLen\<close> reserves 16 bytes only with one.
\<close>

fun aux_PackData :: "pkg_afn_aux \<Rightarrow> bytes \<Rightarrow> nat \<Rightarrow> u64 \<Rightarrow> (bytes \<times> u64) option" where
  "aux_PackData (Aux_Up tp TP e1 e2) mem off len =
     (let a = Aux_Up tp TP e1 e2; myLen = aux_GetDataLen a in
      if myLen \<le> len then
        (case mem_write mem off [e1, e2] of
           None \<Rightarrow> None
         | Some mem1 \<Rightarrow>
             map_option (\<lambda>mem2. (mem2, myLen))
               (Pkg_Afn_Aux_PackData a mem1 (off + 2) (len - 2)))
      else Some (mem, myLen))"
| "aux_PackData (Aux_Down tp TP pw pwd) mem off len =
     (let a = Aux_Down tp TP pw pwd; myLen = aux_GetDataLen a in
      if myLen \<le> len then
        (case (if pw then mem_write mem off (take 16 pwd) else Some mem) of
           None \<Rightarrow> None
         | Some mem1 \<Rightarrow>
             map_option (\<lambda>mem2. (mem2, myLen))
               (Pkg_Afn_Aux_PackData a mem1 (off + 16) (len - 16)))
      else Some (mem, myLen))"

definition Pkg_Afn_Aux_unPackData ::
  "pkg_afn_aux \<Rightarrow> bytes \<Rightarrow> nat \<Rightarrow> u64 \<Rightarrow> aux_tp option" where
  "Pkg_Afn_Aux_unPackData a data off len =
     (if Pkg_Afn_Aux_GetDataLen a \<le> len \<and> hasTp a
      then map_option tp_of (mem_read data off 6) else Some (aux_TP a))"

fun aux_unPackData :: "pkg_afn_aux \<Rightarrow> bytes \<Rightarrow> nat \<Rightarrow> u64 \<Rightarrow> pkg_afn_aux option" where
  "aux_unPackData (Aux_Up tp TP e1 e2) data off len =
     (if aux_GetDataLen (Aux_Up tp TP e1 e2) \<le> len then
        (case mem_read data off 2 of
           None \<Rightarrow> None
         | Some b \<Rightarrow>
             map_option (\<lambda>TP'. Aux_Up tp TP' (b ! 0) (b ! 1))
               (Pkg_Afn_Aux_unPackData (Aux_Up tp TP e1 e2) data (off + 2) (len - 2)))
      else Some (Aux_Up tp TP e1 e2))"
| "aux_unPackData (Aux_Down tp TP pw pwd) data off len =
     (if aux_GetDataLen (Aux_Down tp TP pw pwd) \<le> len then
        (case mem_read data off 16 of
           None \<Rightarrow> None
         | Some b \<Rightarrow>
             map_option (\<lambda>TP'. Aux_Down tp TP' pw b)
               (Pkg_Afn_Aux_unPackData (Aux_Down tp TP pw pwd) data (off + 16) (len - 16)))
      else Some (Aux_Down tp TP pw pwd))"

section \<open>Pkg_Afn\<close>

definition Pkg_Afn_GetDataLen :: "pkg_afn \<Rightarrow> u64" where
  "Pkg_Afn_GetDataLen a =
     word_of_nat PKG_AFN_HEADLEN
     + (case pAfnData a of None \<Rightarrow> 0 | Some d \<Rightarrow> Pkg_Afn_Data_GetDataLen d)
     + (case pAux a of None \<Rightarrow> 0 | Some x \<Rightarrow> aux_GetDataLen x)"

text \<open>
  \<open>PackData\<close>: the result of each part goes through an \<open>int\<close>; the guard \<open>_len < 0\<close> of the
  source is on an unsigned value and never holds, so it has no branch here. \<open>_len\<close> is not
  reduced by the data before it is handed to the additional information.
\<close>

definition ptr_add :: "nat \<Rightarrow> int \<Rightarrow> nat" where
  "ptr_add off k = nat (int off + k)"

definition Pkg_Afn_PackData :: "pkg_afn \<Rightarrow> bytes \<Rightarrow> nat \<Rightarrow> u64 \<Rightarrow> (bytes \<times> u64) option" where
  "Pkg_Afn_PackData a mem off len =
     (let len1 = len - word_of_nat PKG_AFN_HEADLEN in
      case mem_write mem off (afn_header_bytes (afnHeader a)) of
        None \<Rightarrow> None
      | Some mem1 \<Rightarrow>
          (case (case pAfnData a of
                   None \<Rightarrow> Some (mem1, off + PKG_AFN_HEADLEN, word_of_nat PKG_AFN_HEADLEN)
                 | Some d \<Rightarrow>
                     map_option
                       (\<lambda>(m, n). (m, ptr_add (off + PKG_AFN_HEADLEN) (to_int n),
                          word_of_nat PKG_AFN_HEADLEN + word_of_int (to_int n)))
                       (Pkg_Afn_Data_PackData d mem1 (off + PKG_AFN_HEADLEN) len1)) of
             None \<Rightarrow> None
           | Some (mem2, off2, pkLen) \<Rightarrow>
               (case pAux a of
                  None \<Rightarrow> Some (mem2, pkLen)
                | Some x \<Rightarrow>
                    map_option (\<lambda>(m, n). (m, pkLen + word_of_int (to_int n)))
                      (aux_PackData x mem2 off2 len1))))"

definition Pkg_Afn_unPackData ::
  "data_tag \<Rightarrow> pkg_afn \<Rightarrow> bytes \<Rightarrow> nat \<Rightarrow> u64 \<Rightarrow> pkg_afn option" where
  "Pkg_Afn_unPackData junk a data off len =
     (if word_of_nat PKG_AFN_HEADLEN \<le> len then
        (case mem_read data off PKG_AFN_HEADLEN of
           None \<Rightarrow> None
         | Some h \<Rightarrow>
             (let a1 = a\<lparr>afnHeader := afn_header_of h\<rparr>;
                  len1 = len - word_of_nat PKG_AFN_HEADLEN;
                  off1 = off + PKG_AFN_HEADLEN in
              if word_of_nat PKG_AFN_DATATAGLEN \<le> len1 then
                map_option (\<lambda>d. a1\<lparr>pAfnData := Some d\<rparr>) (Pkg_Afn_Data_new junk data off1 len1)
              else Some a1))
      else Some a)"

section \<open>What the packers write\<close>

text \<open>
  The bytes each part occupies on the wire, and the lemma that its packer writes exactly
  these bytes at its pointer and returns their number. A downward block with a time stamp
  and no password is excluded: its time stamp would be written 16 bytes too far.
\<close>

definition data_bytes :: "pkg_afn_data \<Rightarrow> bytes" where
  "data_bytes d = tag_bytes (m_Tag d) @ m_pData d"

fun aux_bytes :: "pkg_afn_aux \<Rightarrow> bytes" where
  "aux_bytes (Aux_Up tp TP e1 e2) = [e1, e2] @ (if tp then tp_bytes TP else [])"
| "aux_bytes (Aux_Down tp TP pw pwd) =
     (if pw then take 16 pwd else []) @ (if tp then tp_bytes TP else [])"

fun aux_ok :: "pkg_afn_aux \<Rightarrow> bool" where
  "aux_ok (Aux_Up tp TP e1 e2) \<longleftrightarrow> True"
| "aux_ok (Aux_Down tp TP pw pwd) \<longleftrightarrow> (if pw then length pwd = 16 else \<not> tp)"

definition opt_bytes :: "('a \<Rightarrow> bytes) \<Rightarrow> 'a option \<Rightarrow> bytes" where
  "opt_bytes f x = (case x of None \<Rightarrow> [] | Some y \<Rightarrow> f y)"

definition afn_bytes :: "pkg_afn \<Rightarrow> bytes" where
  "afn_bytes a = afn_header_bytes (afnHeader a) @ opt_bytes data_bytes (pAfnData a) @
     opt_bytes aux_bytes (pAux a)"

lemma length_tp_bytes [simp]: "length (tp_bytes t) = 6"
  by (simp add: tp_bytes_def)

lemma aux_len: "aux_ok a \<Longrightarrow> aux_GetDataLen a = word_of_nat (length (aux_bytes a))"
  by (cases a) (auto simp: Pkg_Afn_Aux_GetDataLen_def)

lemma length_aux_bytes: "length (aux_bytes a) \<le> 22"
  by (cases a) auto

lemma data_len: "Pkg_Afn_Data_GetDataLen d = word_of_nat (length (data_bytes d))"
  by (simp add: Pkg_Afn_Data_GetDataLen_def m_nLen_def data_bytes_def PKG_AFN_DATATAGLEN_def)

lemma mem_write_pre:
  "off = length ps \<Longrightarrow> length bs \<le> length ts \<Longrightarrow>
     mem_write (ps @ ts) off bs = Some (ps @ bs @ drop (length bs) ts)"
  by (simp add: mem_write_def)

lemma mem_write_pre2:
  "off = length ps + length qs \<Longrightarrow> length bs \<le> length ts \<Longrightarrow>
     mem_write (ps @ qs @ ts) off bs = Some (ps @ qs @ bs @ drop (length bs) ts)"
  using mem_write_pre [of off "ps @ qs" bs ts] by simp

lemma mem_read_mid:
  "off = length ps \<Longrightarrow> n = length bs \<Longrightarrow> mem_read (ps @ bs @ ts) off n = Some bs"
  by (simp add: mem_read_def)

lemma le_word_of_nat: "n \<le> unat len \<Longrightarrow> (word_of_nat n :: u64) \<le> len"
  by (simp add: word_le_nat_alt unat_of_nat)

lemma aux_PackData_writes:
  assumes "aux_ok a" "length (aux_bytes a) \<le> length ts" "aux_GetDataLen a \<le> len"
    and off: "off = length ps"
  shows "aux_PackData a (ps @ ts) off len =
           Some (ps @ aux_bytes a @ drop (length (aux_bytes a)) ts, aux_GetDataLen a)"
proof (cases a)
  case (Aux_Up tp TP e1 e2)
  have "6 \<le> len - 2" if "8 \<le> len" for len :: u64
    using that by (simp add: word_le_nat_alt unat_sub)
  then show ?thesis
    using assms Aux_Up
    by (auto simp: Let_def mem_write_pre mem_write_pre2 [where qs = "[e1, e2]", simplified]
        Pkg_Afn_Aux_PackData_def Pkg_Afn_Aux_GetDataLen_def)
next
  case (Aux_Down tp TP pw pwd)
  have "6 \<le> len - 16" if "22 \<le> len" for len :: u64
    using that by (simp add: word_le_nat_alt unat_sub)
  then show ?thesis
    using assms Aux_Down
    by (auto simp: Let_def mem_write_pre mem_write_pre2 Pkg_Afn_Aux_PackData_def
        Pkg_Afn_Aux_GetDataLen_def)
qed

lemma Pkg_Afn_Data_PackData_writes:
  assumes "length (data_bytes d) \<le> length ts" "length (data_bytes d) \<le> unat len"
    and off: "off = length ps"
  shows "Pkg_Afn_Data_PackData d (ps @ ts) off len =
           Some (ps @ data_bytes d @ drop (length (data_bytes d)) ts,
                 word_of_nat (length (data_bytes d)))"
proof -
  have n: "m_nLen d + word_of_nat PKG_AFN_DATATAGLEN = word_of_nat (length (data_bytes d))"
    by (simp add: m_nLen_def data_bytes_def PKG_AFN_DATATAGLEN_def)
  have len: "word_of_nat (length (data_bytes d)) \<le> len"
    using assms(2) by (rule le_word_of_nat)
  have l: "length (data_bytes d) = 4 + length (m_pData d)"
    by (simp add: data_bytes_def)
  show ?thesis
    using assms len l
    unfolding Pkg_Afn_Data_PackData_def n
    by (simp add: mem_write_pre mem_write_pre2 data_bytes_def PKG_AFN_DATATAGLEN_def add.commute)
qed

lemma Pkg_Afn_GetDataLen_bytes:
  assumes "case pAux a of None \<Rightarrow> True | Some x \<Rightarrow> aux_ok x"
  shows "Pkg_Afn_GetDataLen a = word_of_nat (length (afn_bytes a))"
  using assms
  by (auto simp: Pkg_Afn_GetDataLen_def afn_bytes_def opt_bytes_def aux_len data_len pkg_len_defs
      split: option.splits)

lemma Pkg_Afn_PackData_writes:
  assumes aux: "case pAux a of None \<Rightarrow> True | Some x \<Rightarrow> aux_ok x"
    and ts: "length (afn_bytes a) \<le> length ts"
    and len: "length (afn_bytes a) \<le> unat len"
    and small: "length (afn_bytes a) < 2 ^ 31"
    and off: "off = length ps"
  shows "Pkg_Afn_PackData a (ps @ ts) off len =
           Some (ps @ afn_bytes a @ drop (length (afn_bytes a)) ts,
                 word_of_nat (length (afn_bytes a)))"
proof -
  let ?h = "afn_header_bytes (afnHeader a)"
  let ?d = "opt_bytes data_bytes (pAfnData a)"
  let ?x = "opt_bytes aux_bytes (pAux a)"
  have l: "length (afn_bytes a) = 2 + length ?d + length ?x"
    by (simp add: afn_bytes_def)
  have "unat (len - word_of_nat PKG_AFN_HEADLEN) = unat len - 2"
    using len l by (simp add: pkg_len_defs unat_sub word_le_nat_alt)
  then have len1: "length ?d + length ?x \<le> unat (len - word_of_nat PKG_AFN_HEADLEN)"
    using len l by simp
  have dn: "to_int (word_of_nat (length ?d)) = int (length ?d)"
    and xn: "to_int (word_of_nat (length ?x)) = int (length ?x)"
    using small l by (simp_all add: to_int_of_nat)
  have w1: "mem_write (ps @ ts) off ?h = Some (ps @ ?h @ drop 2 ts)"
    using off ts l by (simp add: mem_write_pre)
  have w2: "(case pAfnData a of
        None \<Rightarrow> Some (ps @ ?h @ drop 2 ts, off + PKG_AFN_HEADLEN, word_of_nat PKG_AFN_HEADLEN)
      | Some d \<Rightarrow>
          map_option (\<lambda>(m, n). (m, ptr_add (off + PKG_AFN_HEADLEN) (to_int n),
              word_of_nat PKG_AFN_HEADLEN + word_of_int (to_int n)))
            (Pkg_Afn_Data_PackData d (ps @ ?h @ drop 2 ts) (off + PKG_AFN_HEADLEN)
              (len - word_of_nat PKG_AFN_HEADLEN))) =
      Some (ps @ ?h @ ?d @ drop (2 + length ?d) ts, off + 2 + length ?d,
            word_of_nat (2 + length ?d))"
  proof (cases "pAfnData a")
    case None
    then show ?thesis by (simp add: opt_bytes_def pkg_len_defs)
  next
    case (Some d)
    have "Pkg_Afn_Data_PackData d ((ps @ ?h) @ drop 2 ts) (off + 2)
            (len - word_of_nat PKG_AFN_HEADLEN) =
          Some ((ps @ ?h) @ data_bytes d @ drop (length (data_bytes d)) (drop 2 ts),
                word_of_nat (length (data_bytes d)))"
      using Some len1 ts l off
      by (intro Pkg_Afn_Data_PackData_writes) (auto simp: opt_bytes_def)
    then show ?thesis
      using Some dn off by (simp add: opt_bytes_def pkg_len_defs ptr_add_def nat_add_distrib add.commute)
  qed
  have w3: "(case pAux a of
        None \<Rightarrow> Some (ps @ ?h @ ?d @ drop (2 + length ?d) ts, word_of_nat (2 + length ?d))
      | Some x \<Rightarrow>
          map_option (\<lambda>(m, n). (m, word_of_nat (2 + length ?d) + word_of_int (to_int n)))
            (aux_PackData x (ps @ ?h @ ?d @ drop (2 + length ?d) ts) (off + 2 + length ?d)
              (len - word_of_nat PKG_AFN_HEADLEN))) =
      Some (ps @ ?h @ ?d @ ?x @ drop (length (afn_bytes a)) ts,
            word_of_nat (length (afn_bytes a)))"
  proof (cases "pAux a")
    case None
    then show ?thesis using l by (simp add: opt_bytes_def)
  next
    case (Some x)
    have "aux_GetDataLen x \<le> len - word_of_nat PKG_AFN_HEADLEN"
      using Some aux len1 by (simp add: aux_len opt_bytes_def le_word_of_nat)
    then have "aux_PackData x ((ps @ ?h @ ?d) @ drop (2 + length ?d) ts) (off + 2 + length ?d)
            (len - word_of_nat PKG_AFN_HEADLEN) =
          Some ((ps @ ?h @ ?d) @ aux_bytes x @ drop (length (aux_bytes x)) (drop (2 + length ?d) ts),
                aux_GetDataLen x)"
      using Some aux ts l off by (intro aux_PackData_writes) (auto simp: opt_bytes_def)
    then show ?thesis
      using Some aux xn l by (simp add: opt_bytes_def aux_len add.commute add.assoc)
  qed
  show ?thesis
    unfolding Pkg_Afn_PackData_def Let_def w1 option.case w2 prod.case w3
    by (simp add: afn_bytes_def)
qed

section \<open>What the unpackers read\<close>

lemma Pkg_Afn_Data_new_reads:
  assumes "off = length ps" "len = word_of_nat (4 + length bs)" "length bs < 2 ^ 31"
  shows "Pkg_Afn_Data_new junk (ps @ tag_bytes t @ bs @ ts) off len =
           Some \<lparr>m_Tag = t, m_pData = bs\<rparr>"
proof -
  have u: "unat (word_of_nat (length bs) :: u64) = length bs"
    using assms(3) by (simp add: unat_of_nat)
  have "(4 :: u64) \<le> 4 + word_of_nat (length bs)"
    using assms(3) by (simp add: word_le_nat_alt unat_word_ariths unat_of_nat)
  moreover have "mem_read (ps @ tag_bytes t @ bs @ ts) off 4 = Some (tag_bytes t)"
    using assms(1) by (intro mem_read_mid) auto
  moreover have "mem_read ((ps @ tag_bytes t) @ bs @ ts) (off + 4) (length bs) = Some bs"
    using assms(1) by (intro mem_read_mid) auto
  moreover have "(word_of_nat (length bs) :: u64) > 0 \<longleftrightarrow> bs \<noteq> []"
    using u by (metis length_0_conv unat_eq_zero word_neq_0_conv)
  ultimately show ?thesis
    using assms(2) u
    by (auto simp: Pkg_Afn_Data_new_def Pkg_Afn_Data_unPackData_def PKG_AFN_DATATAGLEN_def)
qed

lemma Pkg_Afn_unPackData_reads:
  assumes "off = length ps" "len = word_of_nat (6 + length bs)" "length bs < 2 ^ 31"
  shows "Pkg_Afn_unPackData junk a (ps @ afn_header_bytes h @ tag_bytes t @ bs @ ts) off len =
           Some (a\<lparr>afnHeader := h, pAfnData := Some \<lparr>m_Tag = t, m_pData = bs\<rparr>\<rparr>)"
proof -
  have "(2 :: u64) \<le> 6 + word_of_nat (length bs)" "(4 :: u64) \<le> 4 + word_of_nat (length bs)"
    using assms(3) by (simp_all add: word_le_nat_alt unat_word_ariths unat_of_nat)
  moreover have "mem_read (ps @ afn_header_bytes h @ tag_bytes t @ bs @ ts) off 2 =
      Some (afn_header_bytes h)"
    using assms(1) by (intro mem_read_mid) auto
  moreover have "Pkg_Afn_Data_new junk ((ps @ afn_header_bytes h) @ tag_bytes t @ bs @ ts)
      (off + 2) (4 + word_of_nat (length bs)) = Some \<lparr>m_Tag = t, m_pData = bs\<rparr>"
    using assms by (intro Pkg_Afn_Data_new_reads) auto
  ultimately show ?thesis
    using assms(2) by (simp add: Pkg_Afn_unPackData_def Let_def pkg_len_defs)
qed

end
