(* ===== verification/AfnPackage.thy ===== *)
theory AfnPackage
  imports AfnCodec "HOL-Library.Monad_Syntax"
begin

text \<open>
  \<open>AFN/src/AFNPackage.cpp\<close>: a frame object, its construction, check sum, serialisation and
  parsing, and the addressing of measurement points (pn) and information types (Fn).
  \<open>None\<close> is a memory fault: an access outside the given bytes, or through a null pointer.
\<close>

section \<open>Measurement points and information types\<close>

definition GetDA :: "u16 \<Rightarrow> u8 \<Rightarrow> u8 \<Rightarrow> u8 \<times> u8" where
  "GetDA n d1 d2 =
     (if n = 0 then (0, 0)
      else if n = 2041 then (0xff, 0)
      else if n \<le> 2040 then
        (push_bit (unat ((n - 1) AND 7)) 1, ucast (drop_bit 3 (n - 1) + 1))
      else (d1, d2))"

definition low_bit :: "u8 \<Rightarrow> nat option" where
  "low_bit d = find (\<lambda>k. d AND push_bit k 1 \<noteq> 0) [0..<8]"

definition Getpn :: "u8 \<Rightarrow> u8 \<Rightarrow> u16" where
  "Getpn d1 d2 =
     (if d1 = 0 \<and> d2 = 0 then 0
      else if d1 = 0xff \<and> d2 = 0 then 2041
      else (let p = word_of_int ((uint d2 - 1) * 8) in
            case low_bit d1 of None \<Rightarrow> p | Some k \<Rightarrow> p + word_of_nat (k + 1)))"

definition GetDT :: "u16 \<Rightarrow> u8 \<Rightarrow> u8 \<Rightarrow> u8 \<times> u8" where
  "GetDT n d1 d2 =
     (if n \<le> 248 \<and> n > 0 then
        (push_bit (unat ((n - 1) AND 7)) 1, ucast (drop_bit 3 (n - 1)))
      else (d1, d2))"

definition GetFn :: "u8 \<Rightarrow> u8 \<Rightarrow> u16" where
  "GetFn d1 d2 =
     (if d2 \<le> 30 then
        (let p = push_bit 3 (ucast d2) in
         case low_bit d1 of None \<Rightarrow> p | Some k \<Rightarrow> p + word_of_nat (k + 1))
      else 0)"

section \<open>The frame object\<close>

definition AFNPackage_new :: "pkg \<Rightarrow> pkg" where
  "AFNPackage_new junk = junk\<lparr>
     pkgHeader := (pkgHeader junk)\<lparr>S1 := 0x68, S2 := 0x68,
        L_l := set_L_TAG 1 (L_l (pkgHeader junk)),
        L1_l1 := set_L_TAG 1 (L1_l1 (pkgHeader junk))\<rparr>,
     pAfn := (pAfn junk)\<lparr>pAfnData := None, pAux := None\<rparr>,
     pkgTail := (pkgTail junk)\<lparr>E_end := 0x16\<rparr>, Fn := 0, pn := 0\<rparr>"

definition pkg_LEN :: "pkg \<Rightarrow> nat" where
  "pkg_LEN p = unat (L_LEN (L_l (pkgHeader p)))"

definition GetFrameL :: "pkg \<Rightarrow> int" where
  "GetFrameL p = int PKG_HEADLEN + int (pkg_LEN p) + int PKG_TAILLEN"

definition valid :: "pkg \<Rightarrow> bool" where
  "valid p \<longleftrightarrow> S1 (pkgHeader p) = 0x68 \<and> S2 (pkgHeader p) = 0x68 \<and> E_end (pkgTail p) = 0x16"

definition isRequest :: "pkg \<Rightarrow> bool" where
  "isRequest p \<longleftrightarrow> C_PRM (C_c (userHeader p)) = 1"

definition GetCode :: "pkg \<Rightarrow> int" where
  "GetCode p = uint (AFN (afnHeader (pAfn p)))"

definition GetCS :: "bytes \<Rightarrow> nat \<Rightarrow> nat \<Rightarrow> u8 option" where
  "GetCS data off len = map_option (foldl (+) 0) (mem_read data off len)"

definition SetL :: "pkg \<Rightarrow> pkg" where
  "SetL p =
     (let n = ucast (word_of_nat PKG_USER_HEADLEN + Pkg_Afn_GetDataLen (pAfn p)) :: u16 in
      p\<lparr>pkgHeader := (pkgHeader p)\<lparr>L_l := set_L_LEN n (L_l (pkgHeader p)),
                                  L1_l1 := set_L_LEN n (L1_l1 (pkgHeader p))\<rparr>\<rparr>)"

definition CreateCS :: "pkg \<Rightarrow> pkg option" where
  "CreateCS p =
     (let u = userHeader p; h = afnHeader (pAfn p);
          c0 = C_c u + ucast (A1 u) + ucast (drop_bit 8 (A1 u))
                 + ucast (A2 u) + ucast (drop_bit 8 (A2 u)) + A3_a3 u + AFN h + SEQ_seq h in
      case pAfnData (pAfn p) of
        None \<Rightarrow> None
      | Some d \<Rightarrow>
          (let t = m_Tag d; c1 = c0 + DA1 t + DA2 t + DT1 t + DT2 t in
           Some (p\<lparr>pkgTail := (pkgTail p)\<lparr>CS := foldl (+) c1 (m_pData d)\<rparr>\<rparr>)))"

definition okPkg :: "pkg \<Rightarrow> pkg option" where
  "okPkg p = CreateCS (SetL p)"

text \<open>
  \<open>Serialize\<close>: the three guards \<open>bufLen < 0\<close> of the source are on an unsigned value and never
  hold; the subtractions wrap.
\<close>

definition Serialize :: "pkg \<Rightarrow> bytes \<Rightarrow> u64 \<Rightarrow> (bytes \<times> int) option" where
  "Serialize p buf bufLen = do {
     b1 \<leftarrow> mem_write buf 0 (header_bytes (pkgHeader p));
     b2 \<leftarrow> mem_write b1 PKG_HEADLEN (user_bytes (userHeader p));
     (b3, n) \<leftarrow> Pkg_Afn_PackData (pAfn p) b2 (PKG_HEADLEN + PKG_USER_HEADLEN)
                  (bufLen - word_of_nat PKG_HEADLEN - word_of_nat PKG_USER_HEADLEN);
     let afnLen = to_int n;
     if afnLen \<le> 0 then Some (b3, YQER_PKG_Err 99)
     else do {
       b4 \<leftarrow> mem_write b3 (ptr_add (PKG_HEADLEN + PKG_USER_HEADLEN) afnLen)
               (tail_bytes (pkgTail p));
       Some (b4, int PKG_HEADLEN + int PKG_USER_HEADLEN + afnLen + int PKG_TAILLEN)
     }
   }"

text \<open>
  \<open>ParseProto\<close> on the object \<open>this\<close>: the result code, \<open>eatLen\<close> and the object afterwards.
  \<open>junk\<close> is the uninitialised tag of the data object it allocates.
\<close>

definition ParseProto ::
  "pkg \<Rightarrow> data_tag \<Rightarrow> bytes \<Rightarrow> u64 \<Rightarrow> (int \<times> u64 \<times> pkg) option" where
  "ParseProto this junk data dataLen =
     (if dataLen < word_of_nat (PKG_HEADLEN + PKG_USER_HEADLEN + PKG_TAILLEN)
      then Some (YQER_PKG_Err 1, 0, this)
      else do {
        h \<leftarrow> mem_read data 0 PKG_HEADLEN;
        let p1 = this\<lparr>pkgHeader := header_of h\<rparr>;
        if to_int dataLen < int (pkg_LEN p1) + int PKG_HEADLEN + int PKG_TAILLEN
        then Some (YQER_PKG_Err 1, 0, p1)
        else do {
          t \<leftarrow> mem_read data (PKG_HEADLEN + pkg_LEN p1) PKG_TAILLEN;
          let p2 = p1\<lparr>pkgTail := tail_of t\<rparr>;
          let eatLen = word_of_int (GetFrameL p2);
          if \<not> valid p2 then Some (YQER_PKG_Err 2, eatLen, p2)
          else do {
            cs \<leftarrow> GetCS data PKG_HEADLEN (pkg_LEN p2);
            if cs \<noteq> CS (pkgTail p2) then Some (YQER_PKG_Err 4, eatLen, p2)
            else do {
              u \<leftarrow> mem_read data PKG_HEADLEN PKG_USER_HEADLEN;
              a \<leftarrow> Pkg_Afn_unPackData junk (pAfn p2) data (PKG_HEADLEN + PKG_USER_HEADLEN)
                     (word_of_int (int (pkg_LEN p2) - int PKG_USER_HEADLEN));
              d \<leftarrow> pAfnData a;
              Some (YQER_OK, eatLen,
                    p2\<lparr>userHeader := user_of u, pAfn := a,
                       pn := Getpn (DA1 (m_Tag d)) (DA2 (m_Tag d)),
                       Fn := GetFn (DT1 (m_Tag d)) (DT2 (m_Tag d))\<rparr>)
            }
          }
        }
      })"

end
