(* ===== verification/AfnPackageProofs.thy ===== *)
theory AfnPackageProofs
  imports AfnPackage
begin

text \<open>
  Correctness of the frame layer: what \<open>Serialize\<close> writes, that a completed frame parses back
  to its fields, the classification of every outcome of \<open>ParseProto\<close>, and the frames that
  make it fault.
\<close>

section \<open>Points and types\<close>

lemma low_bit_push [simp]:
  assumes "k < 8"
  shows "low_bit (2 ^ k) = Some k"
proof -
  have "list_all (\<lambda>k. low_bit (2 ^ k) = Some k) [0..<8]" by code_simp
  with assms show ?thesis by (simp add: list_all_iff)
qed

lemma and_7: "w AND 7 = take_bit 3 w" for w :: u16
  by (simp add: take_bit_eq_mask mask_eq_exp_minus_1)

lemma unat_and_7_lt: "unat (w AND 7) < 8" for w :: u16
proof -
  have "unat (w AND 7) = take_bit 3 (unat w)"
    unfolding and_7 by (rule unsigned_take_bit_eq)
  then show ?thesis by (simp add: take_bit_eq_mod)
qed

lemma split_8: "push_bit 3 (drop_bit 3 m) + word_of_nat (unat (m AND 7)) = m" for m :: u16
  using bits_ident [of 3 m] by (simp add: and_7)

lemma unat_ucast_u8_u16: "unat (ucast x :: u16) = unat x" for x :: u8
proof -
  have "unat x < 2 ^ 16" using unsigned_less [of x, where ?'a = nat] by simp
  then show ?thesis by (simp add: unsigned_ucast_eq take_bit_nat_eq_self)
qed

lemma unat_drop3: "unat (drop_bit 3 m) = unat m div 8" for m :: u16
  by (subst unat_drop_bit_eq) (simp add: drop_bit_eq_div)

lemma group_no:
  fixes m :: u16
  assumes "unat m < 2040"
  shows "uint (ucast (drop_bit 3 m + 1) :: u8) = uint (drop_bit 3 m) + 1"
    and "unat (ucast (drop_bit 3 m) :: u8) = unat m div 8"
proof -
  note u = unat_drop3 [of m]
  have l: "unat m div 8 < 255" using assms by simp
  have "unat (drop_bit 3 m + 1) = unat m div 8 + 1"
    using u l by (simp add: unat_word_ariths)
  then show "uint (ucast (drop_bit 3 m + 1) :: u8) = uint (drop_bit 3 m) + 1"
    using u l by (simp add: uint_nat unsigned_ucast_eq take_bit_nat_eq_self)
  show "unat (ucast (drop_bit 3 m) :: u8) = unat m div 8"
    using u l by (simp add: unsigned_ucast_eq take_bit_nat_eq_self)
qed

lemma Getpn_GetDA:
  assumes "n \<le> 2041"
  shows "(case GetDA n d1 d2 of (a, b) \<Rightarrow> Getpn a b) = n"
proof (cases "n = 0 \<or> n = 2041")
  case True
  then show ?thesis by (auto simp: GetDA_def Getpn_def)
next
  case False
  define m where "m = n - 1"
  have n: "n = m + 1" by (simp add: m_def)
  have n0: "n \<noteq> 0" and "unat n \<noteq> unat (2041 :: u16)" "unat n \<le> 2041"
    using False assms by (auto simp: word_le_nat_alt word_unat_eq_iff)
  then have "unat n \<le> 2040" by simp
  then have ml: "unat m < 2040" and n2040: "n \<le> 2040"
    using unat_minus_one [OF n0] n0 by (auto simp: m_def word_le_nat_alt unat_gt_0)
  have "uint (ucast (drop_bit 3 m + 1) :: u8) \<noteq> 0"
    unfolding group_no(1) [OF ml] using uint_ge_0 [of "drop_bit 3 m"] by linarith
  then have nz: "(ucast (drop_bit 3 m + 1) :: u8) \<noteq> 0" by auto
  have p: "word_of_int ((uint (ucast (drop_bit 3 m + 1) :: u8) - 1) * 8) = push_bit 3 (drop_bit 3 m)"
    by (simp add: group_no(1) [OF ml] push_bit_eq_mult)
  have "push_bit 3 (drop_bit 3 m) + word_of_nat (Suc (unat (m AND 7))) = n"
    using split_8 [of m] n by (simp add: algebra_simps)
  then show ?thesis
    using False n2040 nz p unat_and_7_lt [of m]
    by (simp add: GetDA_def Getpn_def Let_def m_def [symmetric])
qed
lemma GetFn_GetDT:
  assumes "0 < n" "n \<le> 248"
  shows "(case GetDT n d1 d2 of (a, b) \<Rightarrow> GetFn a b) = n"
proof -
  define m where "m = n - 1"
  have n: "n = m + 1" by (simp add: m_def)
  have n0: "n \<noteq> 0" and "unat n \<le> 248"
    using assms by (auto simp: word_le_nat_alt)
  then have ml: "unat m < 248"
    using unat_minus_one [OF n0] by (simp add: m_def unat_gt_0)
  have le: "(ucast (drop_bit 3 m) :: u8) \<le> 30"
    using ml group_no(2) [of m] by (simp add: word_le_nat_alt)
  have "unat (ucast (ucast (drop_bit 3 m) :: u8) :: u16) = unat (ucast (drop_bit 3 m) :: u8)"
    by (rule unat_ucast_u8_u16)
  also have "\<dots> = unat (drop_bit 3 m)"
    using ml group_no(2) [of m] unat_drop3 [of m] by linarith
  finally have p: "ucast (ucast (drop_bit 3 m) :: u8) = drop_bit 3 m"
    by (rule word_unat_eq_iff [THEN iffD2])
  have "push_bit 3 (drop_bit 3 m) + word_of_nat (Suc (unat (m AND 7))) = n"
    using split_8 [of m] n by (simp add: algebra_simps)
  then show ?thesis
    using assms le p unat_and_7_lt [of m]
    by (simp add: GetDT_def GetFn_def Let_def m_def [symmetric])
qed
section \<open>The bytes of a frame\<close>

definition frame_bytes :: "pkg \<Rightarrow> bytes" where
  "frame_bytes p = header_bytes (pkgHeader p) @ user_bytes (userHeader p) @
     afn_bytes (pAfn p) @ tail_bytes (pkgTail p)"

definition aux_wf :: "pkg_afn \<Rightarrow> bool" where
  "aux_wf a \<longleftrightarrow> (case pAux a of None \<Rightarrow> True | Some x \<Rightarrow> aux_ok x)"

lemma length_frame_bytes: "length (frame_bytes p) = 14 + length (afn_bytes (pAfn p))"
  by (simp add: frame_bytes_def)

lemma length_afn_bytes: "2 \<le> length (afn_bytes a)"
  by (simp add: afn_bytes_def)

lemma Serialize_writes:
  assumes aux: "aux_wf (pAfn p)"
    and buf: "length (frame_bytes p) \<le> length buf"
    and len: "length (frame_bytes p) \<le> unat bufLen + 2"
    and small: "length (frame_bytes p) < 2 ^ 31"
  shows "Serialize p buf bufLen =
           Some (frame_bytes p @ drop (length (frame_bytes p)) buf, int (length (frame_bytes p)))"
proof -
  let ?h = "header_bytes (pkgHeader p)" and ?u = "user_bytes (userHeader p)"
  let ?a = "afn_bytes (pAfn p)" and ?t = "tail_bytes (pkgTail p)"
  let ?len = "bufLen - word_of_nat PKG_HEADLEN - word_of_nat PKG_USER_HEADLEN"
  note l = length_frame_bytes [of p] and l2 = length_afn_bytes [of "pAfn p"]
  have w1: "mem_write buf 0 ?h = Some (?h @ drop 6 buf)"
    using buf l by (simp add: mem_write_def)
  have w2: "mem_write (?h @ drop 6 buf) PKG_HEADLEN ?u = Some (?h @ ?u @ drop 12 buf)"
    using buf l by (simp add: mem_write_pre pkg_len_defs)
  have "unat ?len = unat bufLen - 12"
    using len l l2 by (simp add: pkg_len_defs unat_sub word_le_nat_alt diff_diff_eq)
  then have "length ?a \<le> unat ?len" using len l by simp
  then have w3: "Pkg_Afn_PackData (pAfn p) ((?h @ ?u) @ drop 12 buf)
        (PKG_HEADLEN + PKG_USER_HEADLEN) ?len =
      Some ((?h @ ?u) @ ?a @ drop (length ?a) (drop 12 buf), word_of_nat (length ?a))"
    using aux buf small l
    by (intro Pkg_Afn_PackData_writes) (auto simp: aux_wf_def pkg_len_defs)
  have n: "to_int (word_of_nat (length ?a)) = int (length ?a)"
    using small l by (simp add: to_int_of_nat)
  have off: "ptr_add (PKG_HEADLEN + PKG_USER_HEADLEN) (int (length ?a)) =
      length (?h @ ?u @ ?a)"
    by (simp add: ptr_add_def pkg_len_defs nat_add_distrib)
  have w4: "mem_write ((?h @ ?u @ ?a) @ drop (12 + length ?a) buf) (length (?h @ ?u @ ?a)) ?t =
      Some ((?h @ ?u @ ?a) @ ?t @ drop 2 (drop (12 + length ?a) buf))"
    using buf l by (subst mem_write_pre) auto
  show ?thesis
    using w1 w2 w3 w4 n off l2 l
    by (auto simp: Serialize_def frame_bytes_def pkg_len_defs Let_def add.commute add.left_commute)
qed

lemma Serialize_small_buffer_faults:
  assumes "length buf < 12"
  shows "Serialize p buf bufLen = None"
proof -
  have "mem_write b PKG_HEADLEN (user_bytes (userHeader p)) = None"
    if "mem_write buf 0 (header_bytes (pkgHeader p)) = Some b" for b
    using length_mem_write [OF that] assms by (simp add: mem_write_def pkg_len_defs)
  then show ?thesis
    by (cases "mem_write buf 0 (header_bytes (pkgHeader p))") (simp_all add: Serialize_def)
qed

section \<open>Completing a frame\<close>

lemma foldl_add: "foldl (+) c bs = c + sum_list bs" for c :: u8
  by (induction bs arbitrary: c) (simp_all add: add.assoc)

lemma GetCS_mid:
  "off = length ps \<Longrightarrow> n = length bs \<Longrightarrow> GetCS (ps @ bs @ ts) off n = Some (sum_list bs)"
  by (simp add: GetCS_def mem_read_mid foldl_add)

definition cs_of :: "pkg \<Rightarrow> u8" where
  "cs_of p = sum_list (user_bytes (userHeader p)) + sum_list (afn_header_bytes (afnHeader (pAfn p)))
     + sum_list (opt_bytes data_bytes (pAfnData (pAfn p)))"

lemma CreateCS_sum:
  "pAfnData (pAfn p) = Some d \<Longrightarrow>
     CreateCS p = Some (p\<lparr>pkgTail := (pkgTail p)\<lparr>CS := cs_of p\<rparr>\<rparr>)"
  by (simp add: CreateCS_def cs_of_def foldl_add layout_defs opt_bytes_def data_bytes_def
      lo8_def hi8_def add.assoc Let_def)

lemma set_LEN_value:
  assumes "n < 2 ^ 14"
  shows "unat (L_LEN (set_L_LEN (ucast (word_of_nat n :: u64)) l)) = n"
proof -
  have "L_LEN (set_L_LEN (ucast (word_of_nat n :: u64)) l) = take_bit 14 (ucast (word_of_nat n :: u64))"
    by (simp add: L_LEN_def set_L_LEN_def get_set_field)
  then show ?thesis
    using assms
    by (simp add: unsigned_take_bit_eq unsigned_ucast_eq unsigned_of_nat take_bit_nat_eq_self)
qed

text \<open>\<open>completed p d q\<close>: \<open>okPkg\<close> has turned the frame \<open>p\<close> with data \<open>d\<close> into \<open>q\<close>.\<close>

lemma okPkg_Some:
  assumes d: "pAfnData (pAfn p) = Some d" and aux: "aux_wf (pAfn p)"
    and len: "6 + length (afn_bytes (pAfn p)) < 2 ^ 14"
  obtains q where "okPkg p = Some q" "userHeader q = userHeader p" "pAfn q = pAfn p"
    "S1 (pkgHeader q) = S1 (pkgHeader p)" "S2 (pkgHeader q) = S2 (pkgHeader p)"
    "E_end (pkgTail q) = E_end (pkgTail p)" "CS (pkgTail q) = cs_of p"
    "pkg_LEN q = 6 + length (afn_bytes (pAfn p))"
proof
  let ?q = "(SetL p)\<lparr>pkgTail := (pkgTail p)\<lparr>CS := cs_of p\<rparr>\<rparr>"
  have sel: "userHeader (SetL p) = userHeader p" "pAfn (SetL p) = pAfn p"
    "pkgTail (SetL p) = pkgTail p"
    by (simp_all add: SetL_def Let_def)
  have c: "cs_of (SetL p) = cs_of p"
    by (simp add: cs_of_def sel)
  show "okPkg p = Some ?q"
    using d by (simp add: okPkg_def sel c CreateCS_sum)
  show "userHeader ?q = userHeader p" "pAfn ?q = pAfn p"
    "S1 (pkgHeader ?q) = S1 (pkgHeader p)" "S2 (pkgHeader ?q) = S2 (pkgHeader p)"
    "E_end (pkgTail ?q) = E_end (pkgTail p)" "CS (pkgTail ?q) = cs_of p"
    by (simp_all add: SetL_def Let_def)
  have "Pkg_Afn_GetDataLen (pAfn p) = word_of_nat (length (afn_bytes (pAfn p)))"
    using aux by (intro Pkg_Afn_GetDataLen_bytes) (simp add: aux_wf_def)
  then show "pkg_LEN ?q = 6 + length (afn_bytes (pAfn p))"
    using set_LEN_value [OF len, of "L_l (pkgHeader p)"]
    by (simp add: pkg_LEN_def SetL_def Let_def pkg_len_defs)
qed

section \<open>Parsing a completed frame\<close>

definition aux_sum :: "pkg_afn \<Rightarrow> u8" where
  "aux_sum a = sum_list (opt_bytes aux_bytes (pAux a))"

definition parsed :: "pkg \<Rightarrow> pkg \<Rightarrow> pkg_afn_data \<Rightarrow> pkg" where
  "parsed this q d = this\<lparr>pkgHeader := pkgHeader q, pkgTail := pkgTail q,
     userHeader := userHeader q,
     pAfn := (pAfn this)\<lparr>afnHeader := afnHeader (pAfn q),
        pAfnData := Some (d\<lparr>m_pData := m_pData d @ opt_bytes aux_bytes (pAux (pAfn q))\<rparr>)\<rparr>,
     pn := Getpn (DA1 (m_Tag d)) (DA2 (m_Tag d)),
     Fn := GetFn (DT1 (m_Tag d)) (DT2 (m_Tag d))\<rparr>"

lemma ParseProto_frame:
  assumes d: "pAfnData (pAfn q) = Some d" and v: "valid q"
    and len: "pkg_LEN q = 6 + length (afn_bytes (pAfn q))"
    and small: "length (frame_bytes q @ rest) < 2 ^ 31"
  shows "ParseProto this junk (frame_bytes q @ rest) (word_of_nat (length (frame_bytes q @ rest))) =
      (if CS (pkgTail q) = cs_of q + aux_sum (pAfn q)
       then Some (YQER_OK, word_of_nat (length (frame_bytes q)), parsed this q d)
       else Some (YQER_PKG_Err 4, word_of_nat (length (frame_bytes q)),
                  this\<lparr>pkgHeader := pkgHeader q, pkgTail := pkgTail q\<rparr>))"
proof -
  let ?h = "header_bytes (pkgHeader q)" and ?u = "user_bytes (userHeader q)"
  let ?a = "afn_bytes (pAfn q)" and ?t = "tail_bytes (pkgTail q)"
  let ?x = "opt_bytes aux_bytes (pAux (pAfn q))"
  let ?data = "frame_bytes q @ rest" and ?n = "length (frame_bytes q @ rest)"
  let ?p1 = "this\<lparr>pkgHeader := pkgHeader q\<rparr>"
  let ?p2 = "?p1\<lparr>pkgTail := pkgTail q\<rparr>"
  have a: "?a = afn_header_bytes (afnHeader (pAfn q)) @ tag_bytes (m_Tag d) @ m_pData d @ ?x"
    using d by (simp add: afn_bytes_def opt_bytes_def data_bytes_def)
  have fl: "length (frame_bytes q) = 14 + length ?a" by (rule length_frame_bytes)
  have n14: "\<not> (word_of_nat ?n :: u64) < word_of_nat (PKG_HEADLEN + PKG_USER_HEADLEN + PKG_TAILLEN)"
    using small fl by (subst less_of_small) (simp_all add: pkg_len_defs)
  have r1: "mem_read ?data 0 PKG_HEADLEN = Some ?h"
    by (simp add: mem_read_def frame_bytes_def pkg_len_defs)
  have LEN [simp]: "pkg_LEN ?p1 = pkg_LEN q" "pkg_LEN ?p2 = pkg_LEN q"
    by (simp_all add: pkg_LEN_def)
  have i: "\<not> to_int (word_of_nat ?n) < int (pkg_LEN ?p1) + int PKG_HEADLEN + int PKG_TAILLEN"
    using small fl len by (subst to_int_of_nat) (simp_all add: pkg_len_defs)
  have r2: "mem_read ?data (PKG_HEADLEN + pkg_LEN ?p1) PKG_TAILLEN = Some ?t"
    using mem_read_mid [of "PKG_HEADLEN + pkg_LEN q" "?h @ ?u @ ?a" PKG_TAILLEN ?t rest] len
    by (simp add: frame_bytes_def pkg_len_defs)
  have v2: "valid ?p2" using v by (simp add: valid_def)
  have cs: "GetCS ?data PKG_HEADLEN (pkg_LEN ?p2) = Some (sum_list (?u @ ?a))"
    using GetCS_mid [of PKG_HEADLEN ?h "pkg_LEN q" "?u @ ?a" "?t @ rest"] len
    by (simp add: frame_bytes_def pkg_len_defs)
  have sum: "sum_list (?u @ ?a) = cs_of q + aux_sum (pAfn q)"
    using d by (simp add: afn_bytes_def cs_of_def aux_sum_def)
  have r3: "mem_read ?data PKG_HEADLEN PKG_USER_HEADLEN = Some ?u"
    using mem_read_mid [of PKG_HEADLEN ?h PKG_USER_HEADLEN ?u "?a @ ?t @ rest"]
    by (simp add: frame_bytes_def pkg_len_defs)
  have up: "Pkg_Afn_unPackData junk (pAfn ?p2) ?data (PKG_HEADLEN + PKG_USER_HEADLEN)
        (word_of_int (int (pkg_LEN ?p2) - int PKG_USER_HEADLEN)) =
      Some ((pAfn this)\<lparr>afnHeader := afnHeader (pAfn q),
        pAfnData := Some \<lparr>m_Tag = m_Tag d, m_pData = m_pData d @ ?x\<rparr>\<rparr>)"
    using Pkg_Afn_unPackData_reads [of 12 "?h @ ?u" _ "m_pData d @ ?x" junk "pAfn this"
        "afnHeader (pAfn q)" "m_Tag d" "?t @ rest"] a len small fl
    by (simp add: frame_bytes_def pkg_len_defs)
  have eat: "(word_of_int (GetFrameL ?p2) :: u64) = word_of_nat (length (frame_bytes q))"
    using len fl by (simp add: GetFrameL_def pkg_len_defs)
  have d': "d\<lparr>m_pData := m_pData d @ ?x\<rparr> = \<lparr>m_Tag = m_Tag d, m_pData = m_pData d @ ?x\<rparr>"
    by simp
  show ?thesis
    unfolding ParseProto_def if_not_P [OF n14] r1 bind.bind_lunit layout_roundtrip Let_def
      if_not_P [OF i] r2 cs sum r3 up eat
    using v2 by (simp add: parsed_def d')
qed

section \<open>The outcomes of ParseProto\<close>

text \<open>
  \<open>header_in\<close> and \<open>tail_in\<close> are the header and trailer \<open>ParseProto\<close> takes out of the received
  bytes; \<open>complete\<close> says that the bytes hold the whole frame its header announces.
\<close>

definition header_in :: "bytes \<Rightarrow> pkg_header" where
  "header_in data = header_of (take 6 data)"

definition LEN_in :: "bytes \<Rightarrow> nat" where
  "LEN_in data = unat (L_LEN (L_l (header_in data)))"

definition complete :: "bytes \<Rightarrow> bool" where
  "complete data \<longleftrightarrow> 14 \<le> length data \<and> LEN_in data + 8 \<le> length data"

definition tail_in :: "bytes \<Rightarrow> pkg_tail" where
  "tail_in data = tail_of (take 2 (drop (6 + LEN_in data) data))"

definition marked :: "bytes \<Rightarrow> bool" where
  "marked data \<longleftrightarrow> S1 (header_in data) = 0x68 \<and> S2 (header_in data) = 0x68
     \<and> E_end (tail_in data) = 0x16"

definition summed :: "bytes \<Rightarrow> bool" where
  "summed data \<longleftrightarrow> CS (tail_in data) = sum_list (take (LEN_in data) (drop 6 data))"

lemma ParseProto_unfold:
  assumes small: "length data < 2 ^ 31"
  shows "ParseProto this junk data (word_of_nat (length data)) =
    (if length data < 14 then Some (YQER_PKG_Err 1, 0, this)
     else if \<not> complete data
     then Some (YQER_PKG_Err 1, 0, this\<lparr>pkgHeader := header_in data\<rparr>)
     else (let p2 = this\<lparr>pkgHeader := header_in data, pkgTail := tail_in data\<rparr>;
               eat = word_of_nat (LEN_in data + 8) in
       if \<not> marked data then Some (YQER_PKG_Err 2, eat, p2)
       else if \<not> summed data then Some (YQER_PKG_Err 4, eat, p2)
       else do {
         a \<leftarrow> Pkg_Afn_unPackData junk (pAfn this) data 12 (word_of_int (int (LEN_in data) - 6));
         d \<leftarrow> pAfnData a;
         Some (YQER_OK, eat, p2\<lparr>userHeader := user_of (take 6 (drop 6 data)), pAfn := a,
           pn := Getpn (DA1 (m_Tag d)) (DA2 (m_Tag d)),
           Fn := GetFn (DT1 (m_Tag d)) (DT2 (m_Tag d))\<rparr>) }))"
proof -
  have n14: "(word_of_nat (length data) :: u64)
      < word_of_nat (PKG_HEADLEN + PKG_USER_HEADLEN + PKG_TAILLEN) \<longleftrightarrow> length data < 14"
    using small by (subst less_of_small) (simp_all add: pkg_len_defs)
  have L: "pkg_LEN (this\<lparr>pkgHeader := header_in data\<rparr>) = LEN_in data"
    "pkg_LEN (this\<lparr>pkgHeader := header_in data, pkgTail := tail_in data\<rparr>) = LEN_in data"
    by (simp_all add: pkg_LEN_def LEN_in_def)
  have i: "to_int (word_of_nat (length data)) < int (LEN_in data) + int PKG_HEADLEN + int PKG_TAILLEN
      \<longleftrightarrow> length data < LEN_in data + 8"
    using small by (subst to_int_of_nat) (auto simp: pkg_len_defs)
  show ?thesis
  proof (cases "complete data")
    case False
    then show ?thesis
      using n14 i L
      by (auto simp: ParseProto_def complete_def mem_read_def pkg_len_defs header_in_def [symmetric])
  next
    case True
    then have c: "14 \<le> length data" "LEN_in data + 8 \<le> length data"
      by (simp_all add: complete_def)
    have r1: "mem_read data 0 PKG_HEADLEN = Some (take 6 data)"
      using c by (simp add: mem_read_def pkg_len_defs)
    have r2: "mem_read data (PKG_HEADLEN + LEN_in data) PKG_TAILLEN =
        Some (take 2 (drop (6 + LEN_in data) data))"
      using c by (simp add: mem_read_def pkg_len_defs)
    have r3: "mem_read data PKG_HEADLEN PKG_USER_HEADLEN = Some (take 6 (drop 6 data))"
      using c by (simp add: mem_read_def pkg_len_defs)
    have r4: "GetCS data PKG_HEADLEN (LEN_in data) =
        Some (sum_list (take (LEN_in data) (drop 6 data)))"
      using c by (simp add: GetCS_def mem_read_def pkg_len_defs foldl_add)
    have v: "valid (this\<lparr>pkgHeader := header_in data, pkgTail := tail_in data\<rparr>) = marked data"
      by (simp add: valid_def marked_def)
    have eat: "(word_of_int (GetFrameL (this\<lparr>pkgHeader := header_in data,
        pkgTail := tail_in data\<rparr>)) :: u64) = word_of_nat (LEN_in data + 8)"
      by (simp add: GetFrameL_def L pkg_len_defs)
    have off: "PKG_HEADLEN + PKG_USER_HEADLEN = 12" "int PKG_USER_HEADLEN = 6"
      by (simp_all add: pkg_len_defs)
    have nc: "\<not> length data < 14" "\<not> length data < LEN_in data + 8" using c by simp_all
    have s: "(sum_list (take (LEN_in data) (drop 6 data)) \<noteq>
         CS (pkgTail (this\<lparr>pkgHeader := header_in data, pkgTail := tail_in data\<rparr>))) =
        (\<not> summed data)"
      by (auto simp: summed_def)
    show ?thesis
      unfolding ParseProto_def n14 if_not_P [OF nc(1)] r1 bind.bind_lunit Let_def
        header_in_def [symmetric] L i if_not_P [OF nc(2)] r2 tail_in_def [symmetric] v eat r4 r3 s
      unfolding off using True nc by simp
  qed
qed

lemma LEN_in_lt: "LEN_in data < 16384"
  using unat_get_field_lt [of 2 14 "L_l (header_in data)"] by (simp add: LEN_in_def L_LEN_def)

text \<open>
  A length word below 12 announces fewer bytes than a user header, a function header and a
  data tag: then the data object is either not built (and the tag read through a null pointer)
  or built with a length that wrapped around.
\<close>

lemma unat_len_small: "n < 6 \<Longrightarrow> unat (word_of_int (int n - 6) :: u64) = 2 ^ 64 - (6 - n)"
proof -
  assume "n < 6"
  then have "n \<in> {0, 1, 2, 3, 4, 5}" by auto
  moreover have "unat (- 1 :: u64) = 2 ^ 64 - 1" by (simp add: unsigned_minus_1_eq_mask mask_eq_exp_minus_1)
  ultimately show ?thesis by auto
qed

lemma unat_sub_2_4:
  "2 \<le> unat w \<Longrightarrow> unat (w - 2) = unat w - 2"
  "6 \<le> unat w \<Longrightarrow> unat (w - 2 - 4) = unat w - 6" for w :: u64
  by (simp_all add: unat_sub word_le_nat_alt)

lemma unPack_null_iff:
  assumes fresh: "pAfnData a = None" and c: "complete data" and small: "length data < 2 ^ 31"
  shows "(\<exists>a' d. Pkg_Afn_unPackData junk a data 12 (word_of_int (int (LEN_in data) - 6)) = Some a'
           \<and> pAfnData a' = Some d) \<longleftrightarrow> 12 \<le> LEN_in data"
proof -
  let ?n = "LEN_in data"
  let ?len = "word_of_int (int ?n - 6) :: u64"
  have n: "?n < 16384" by (rule LEN_in_lt)
  have c14: "14 \<le> length data" "?n + 8 \<le> length data" using c by (simp_all add: complete_def)
  consider "?n < 6" | "6 \<le> ?n" "?n < 12" | "12 \<le> ?n" by linarith
  then show ?thesis
  proof cases
    case 1
    then have u: "unat ?len = 2 ^ 64 - (6 - ?n)" by (rule unat_len_small)
    have u1: "unat (?len - 2) = 2 ^ 64 - (8 - ?n)" and u2: "unat (?len - 2 - 4) = 2 ^ 64 - (12 - ?n)"
      using unat_sub_2_4 [of ?len] unfolding u using 1 by simp_all
    have "mem_read data 18 (2 ^ 64 - (12 - ?n)) = None"
      using small 1 by (simp add: mem_read_def)
    moreover have "(4 :: u64) \<le> ?len - 2" "0 < ?len - 2 - 4" "(2 :: u64) \<le> ?len"
      using u u1 u2 1 by (simp_all add: word_le_nat_alt word_less_nat_alt)
    ultimately show ?thesis
      using 1 c14 u2
      by (auto simp: Pkg_Afn_unPackData_def Pkg_Afn_Data_new_def Pkg_Afn_Data_unPackData_def
          pkg_len_defs Let_def split: option.splits)
  next
    case 2
    then have len: "?len = word_of_nat (?n - 6)" by (simp add: of_nat_diff)
    have u: "unat ?len = ?n - 6" unfolding len using n by (subst unat_of_small) auto
    have "\<not> (4 :: u64) \<le> ?len - 2" if "(2 :: u64) \<le> ?len"
      using that 2 unat_sub_2_4(1) [of ?len] unfolding word_le_nat_alt u by simp
    then show ?thesis
      using 2 fresh
      by (auto simp: Pkg_Afn_unPackData_def pkg_len_defs Let_def split: option.splits if_splits)
  next
    case 3
    then have len: "?len = word_of_nat (?n - 6)" by (simp add: of_nat_diff)
    have u: "unat ?len = ?n - 6" unfolding len using n by (subst unat_of_small) auto
    have u1: "unat (?len - 2) = ?n - 8" and u2: "unat (?len - 2 - 4) = ?n - 12"
      using unat_sub_2_4 [of ?len] unfolding u using 3 by simp_all
    have "(4 :: u64) \<le> ?len - 2" "(2 :: u64) \<le> ?len"
      using u u1 3 by (simp_all add: word_le_nat_alt)
    then show ?thesis
      using 3 c14 u2
      by (auto simp: Pkg_Afn_unPackData_def Pkg_Afn_Data_new_def Pkg_Afn_Data_unPackData_def
          pkg_len_defs Let_def mem_read_def split: option.splits)
  qed
qed

text \<open>The parser consumes nothing exactly when it waits, and otherwise a whole frame.\<close>

lemma ParseProto_code_eat:
  assumes small: "length data < 2 ^ 31"
    and r: "ParseProto this junk data (word_of_nat (length data)) = Some (code, eat, p)"
  shows "code \<in> {YQER_OK, YQER_PKG_Err 1, YQER_PKG_Err 2, YQER_PKG_Err 4} \<and>
     (code = YQER_PKG_Err 1 \<longleftrightarrow> \<not> complete data) \<and>
     unat eat = (if complete data then LEN_in data + 8 else 0)"
proof -
  have e: "unat (word_of_nat (LEN_in data) + 8 :: u64) = LEN_in data + 8"
    using LEN_in_lt [of data] unat_of_small [of "LEN_in data + 8"] by simp
  have "length data < 14 \<Longrightarrow> \<not> complete data" by (simp add: complete_def)
  then show ?thesis
    using r e unfolding ParseProto_unfold [OF small]
    by (auto simp: YQER_PKG_Err_def YQER_OK_def Let_def bind_eq_Some_conv split: if_splits)
qed

section \<open>Properties\<close>

text \<open>
  Property C1: frame round trip. A frame with data, well-formed additional information and
  the fixed markers, whose user part fits the 14-bit length field, is completed by \<open>okPkg\<close>
  and written by \<open>Serialize\<close> at its announced length; followed by any further bytes, the
  parser consumes exactly that frame. It returns every field of it, the additional
  information left at the end of the data, if the bytes of the additional information sum
  to 0, and refuses the frame with the check-sum code otherwise (\<open>CreateCS\<close> does not add
  them).
\<close>

theorem frame_roundtrip:
  assumes "pAfnData (pAfn p) = Some d" "aux_wf (pAfn p)"
    and "S1 (pkgHeader p) = 0x68" "S2 (pkgHeader p) = 0x68" "E_end (pkgTail p) = 0x16"
    and "6 + length (afn_bytes (pAfn p)) < 2 ^ 14"
    and "14 + length (afn_bytes (pAfn p)) \<le> length buf" "length buf \<le> unat bufLen"
    and "length rest < 2 ^ 30"
  shows "\<exists>q. okPkg p = Some q \<and> pkg_LEN q = 6 + length (afn_bytes (pAfn p)) \<and>
    Serialize q buf bufLen =
      Some (frame_bytes q @ drop (length (frame_bytes q)) buf, GetFrameL q) \<and>
    ParseProto this junk (frame_bytes q @ rest) (word_of_nat (length (frame_bytes q @ rest))) =
      (if aux_sum (pAfn p) = 0
       then Some (YQER_OK, word_of_nat (length (frame_bytes q)), parsed this q d)
       else Some (YQER_PKG_Err 4, word_of_nat (length (frame_bytes q)),
                  this\<lparr>pkgHeader := pkgHeader q, pkgTail := pkgTail q\<rparr>))"
proof -
  obtain q where q: "okPkg p = Some q" "userHeader q = userHeader p" "pAfn q = pAfn p"
    "S1 (pkgHeader q) = S1 (pkgHeader p)" "S2 (pkgHeader q) = S2 (pkgHeader p)"
    "E_end (pkgTail q) = E_end (pkgTail p)" "CS (pkgTail q) = cs_of p"
    "pkg_LEN q = 6 + length (afn_bytes (pAfn p))"
    using okPkg_Some [OF assms(1,2,6)] by blast
  have l: "length (frame_bytes q) = 14 + length (afn_bytes (pAfn p))"
    by (simp add: length_frame_bytes q)
  have "Serialize q buf bufLen =
      Some (frame_bytes q @ drop (length (frame_bytes q)) buf, int (length (frame_bytes q)))"
    using assms l q by (intro Serialize_writes) auto
  moreover have "int (length (frame_bytes q)) = GetFrameL q"
    using l q by (simp add: GetFrameL_def pkg_len_defs)
  moreover have "cs_of q = cs_of p" by (simp add: cs_of_def q)
  ultimately show ?thesis
    using q assms l ParseProto_frame [of q d rest this junk] by (auto simp: valid_def)
qed

text \<open>
  Property C2: outcome of the parser on any received bytes that it survives. It returns one of
  the four documented codes; it asks for more data (code 1 of the package errors) exactly when
  the announced frame is not there yet, and then consumes nothing; otherwise it consumes the
  announced frame, at least 8 bytes and never more than was received.
\<close>

theorem parse_outcome:
  assumes "length data < 2 ^ 31"
    and "ParseProto this junk data (word_of_nat (length data)) = Some (code, eat, p)"
  shows "code \<in> {YQER_OK, YQER_PKG_Err 1, YQER_PKG_Err 2, YQER_PKG_Err 4} \<and>
     (code = YQER_PKG_Err 1 \<longleftrightarrow> \<not> complete data) \<and>
     (complete data \<longrightarrow> unat eat = LEN_in data + 8 \<and> unat eat \<le> length data) \<and>
     (\<not> complete data \<longrightarrow> eat = 0)"
  using ParseProto_code_eat [OF assms] by (auto simp: complete_def unat_eq_zero split: if_splits)


text \<open>
  addressing round trip. Every measurement point 0 to 2041 (2041 stands for all
  points) and every information type 1 to 248 is recovered from its two-byte code.
\<close>

lemma point_and_type_roundtrip:
  "(n \<le> 2041 \<longrightarrow> (case GetDA n d1 d2 of (a, b) \<Rightarrow> Getpn a b) = n) \<and>
   (0 < n \<and> n \<le> 248 \<longrightarrow> (case GetDT n d1 d2 of (a, b) \<Rightarrow> GetFn a b) = n)"
  by (simp add: Getpn_GetDA GetFn_GetDT)

text \<open>
  The size checks of \<open>Serialize\<close> are dead. A buffer that cannot hold the two headers
  is overrun, whatever \<open>bufLen\<close> says; the error code 99 is never returned for it.
\<close>

lemma serialize_small_buffer:
  "length buf < 12 \<Longrightarrow> Serialize p buf bufLen = None"
  by (rule Serialize_small_buffer_faults)

section \<open>Witnesses\<close>

text \<open>
  \<open>login_frame\<close> is the log-in frame of a terminal recorded in the comment at the top of
  \<open>proto.h\<close>; \<open>blank_pkg\<close> is a frame object over zeroed memory; \<open>clock_request\<close> asks for the
  terminal's clock with a zero password.
\<close>

definition login_frame :: bytes where
  "login_frame = [0x68, 0x32, 0x00, 0x32, 0x00, 0x68, 0xc9, 0x00, 0x10, 0x4d, 0x04, 0x00,
     0x02, 0x75, 0x00, 0x00, 0x01, 0x00, 0xa2, 0x16]"

definition crash_frame :: bytes where
  "crash_frame = [0x68, 0x01, 0x00, 0x01, 0x00, 0x68, 0x00, 0x16, 0, 0, 0, 0, 0, 0]"

definition blank_pkg :: pkg where
  "blank_pkg = AFNPackage_new \<lparr>pkgHeader = \<lparr>S1 = 0, L_l = 0, L1_l1 = 0, S2 = 0\<rparr>,
     userHeader = \<lparr>C_c = 0, A1 = 0, A2 = 0, A3_a3 = 0\<rparr>,
     pAfn = \<lparr>afnHeader = \<lparr>AFN = 0, SEQ_seq = 0\<rparr>, pAfnData = None, pAux = None\<rparr>,
     pkgTail = \<lparr>CS = 0, E_end = 0\<rparr>, Fn = 0, pn = 0\<rparr>"

definition clock_data :: pkg_afn_data where
  "clock_data = \<lparr>m_Tag = \<lparr>DA1 = 0, DA2 = 0, DT1 = 2, DT2 = 0\<rparr>, m_pData = []\<rparr>"

definition clock_request :: pkg where
  "clock_request = blank_pkg\<lparr>pAfn := (pAfn blank_pkg)\<lparr>pAfnData := Some clock_data,
     pAux := Some (Aux_Down False \<lparr>PFC = 0, TM = [], DELAY = 0\<rparr> True (replicate 16 0))\<rparr>\<rparr>"

lemma login_frame_parses:
  "case ParseProto blank_pkg (m_Tag clock_data) login_frame (word_of_nat (length login_frame)) of
     None \<Rightarrow> False
   | Some (code, eat, p) \<Rightarrow> code = YQER_OK \<and> eat = 20 \<and> Fn p = 1 \<and> pn p = 0 \<and> isRequest p"
  by code_simp

lemma clock_request_facts:
  "pAfnData (pAfn clock_request) = Some clock_data" "aux_wf (pAfn clock_request)"
  "S1 (pkgHeader clock_request) = 0x68" "S2 (pkgHeader clock_request) = 0x68"
  "E_end (pkgTail clock_request) = 0x16" "length (afn_bytes (pAfn clock_request)) = 22"
  "aux_sum (pAfn clock_request) = 0"
  by code_simp+

theorem frame_roundtrip_witness:
  "\<exists>q. okPkg clock_request = Some q \<and> pkg_LEN q = 28 \<and>
     Serialize q (replicate 4000 0) 4000 =
       Some (frame_bytes q @ drop (length (frame_bytes q)) (replicate 4000 0), GetFrameL q) \<and>
     ParseProto blank_pkg (m_Tag clock_data) (frame_bytes q @ login_frame)
       (word_of_nat (length (frame_bytes q @ login_frame))) =
       Some (YQER_OK, word_of_nat (length (frame_bytes q)), parsed blank_pkg q clock_data)"
  using frame_roundtrip [of clock_request clock_data "replicate 4000 0" 4000 login_frame
      blank_pkg "m_Tag clock_data"]
  by (auto simp: clock_request_facts) (simp add: login_frame_def)

theorem parse_outcome_witness:
  "case ParseProto blank_pkg (m_Tag clock_data) login_frame (word_of_nat (length login_frame)) of
     None \<Rightarrow> False
   | Some (code, eat, p) \<Rightarrow> code \<noteq> YQER_PKG_Err 1 \<and> unat eat = LEN_in login_frame + 8"
proof -
  have "length login_frame < 2 ^ 31" by (simp add: login_frame_def)
  moreover have "complete login_frame" by code_simp
  ultimately show ?thesis
    using login_frame_parses parse_outcome [of login_frame blank_pkg "m_Tag clock_data"]
    by (fastforce split: option.splits prod.splits)
qed


lemma point_and_type_roundtrip_witness:
  "(case GetDA 2040 0 0 of (a, b) \<Rightarrow> Getpn a b) = 2040"
  using point_and_type_roundtrip [of 2040 0 0] by simp

theorem serialize_small_buffer_witness: "Serialize clock_request [0, 0, 0] 3 = None"
  by (rule serialize_small_buffer) simp

end
