(* ===== verification/AfnConnection.thy ===== *)
theory AfnConnection
  imports AfnPackageProofs
begin

text \<open>
  \<open>AFN/src/EventConnection.cpp\<close>: the receive side of a connection. \<open>RecBuf\<close> cuts the received
  bytes into frames, hands each to \<open>handlePackage\<close> and keeps the half frame at the end in
  \<open>m_buffer\<close> until the next read. What \<open>handlePackage\<close> does is a parameter here (a virtual
  method of the source); theory \<open>AfnStation\<close> defines it for the power concentrators.
\<close>

section \<open>The connection and its buffer\<close>

text \<open>\<open>m_buffer\<close> with its allocation (a null pointer is \<open>None\<close>) and \<open>m_buffer_size\<close>.\<close>

record conn =
  m_buffer :: "bytes option"
  m_buffer_size :: nat

definition EventConnection_new :: conn where
  "EventConnection_new = \<lparr>m_buffer = None, m_buffer_size = 0\<rparr>"

text \<open>
  \<open>appendData2Buffer\<close>: the size is increased first, and both copies use the increased size:
  the old buffer is read that far, and the message is written from there on.
\<close>

definition appendData2Buffer :: "conn \<Rightarrow> bytes \<Rightarrow> bytes \<Rightarrow> conn option" where
  "appendData2Buffer c old msg = do {
     let size' = m_buffer_size c + length msg;
     bs \<leftarrow> mem_read old 0 size';
     nBuffer \<leftarrow> mem_write (replicate size' 0) 0 bs;
     nBuffer' \<leftarrow> mem_write nBuffer size' msg;
     Some (c\<lparr>m_buffer := Some nBuffer', m_buffer_size := size'\<rparr>)
   }"

text \<open>
  The loop of \<open>RecBuf\<close> over the bytes at \<open>pMsg\<close>. It returns the state of the receiver, the
  last error code and the bytes of the half frame if it met one. \<open>junk\<close> is the memory a new
  package object is built over. A memory fault in the parser is \<open>Rec_fault\<close>; \<open>Rec_fuel\<close> says
  that \<open>fuel\<close> rounds were not enough (\<open>length data\<close> rounds are, lemma \<open>rec_loop_fuel\<close>).
\<close>

datatype 'st rec_result =
  Rec_done (rec_state: 'st) (rec_code: int) (rec_left: "bytes option")
| Rec_fault
| Rec_fuel

fun rec_loop ::
  "pkg \<Rightarrow> data_tag \<Rightarrow> ('st \<Rightarrow> pkg \<Rightarrow> 'st \<times> int) \<Rightarrow> nat \<Rightarrow> 'st \<Rightarrow> int \<Rightarrow> bytes \<Rightarrow> 'st rec_result" where
  "rec_loop junk tag handle fuel st err [] = Rec_done st err None"
| "rec_loop junk tag handle 0 st err (b # bs) = Rec_fuel"
| "rec_loop junk tag handle (Suc fuel) st err (b # bs) =
     (case ParseProto (AFNPackage_new junk) tag (b # bs) (word_of_nat (length (b # bs))) of
        None \<Rightarrow> Rec_fault
      | Some (code, eat, p) \<Rightarrow>
          (if code = YQER_OK then
             (case handle st p of (st', code') \<Rightarrow>
                rec_loop junk tag handle fuel st' code' (drop (unat eat) (b # bs)))
           else if code = YQER_PKG_Err 1
             then Rec_done st code (Some (drop (unat eat) (b # bs)))
           else rec_loop junk tag handle fuel st code (drop (unat eat) (b # bs))))"

text \<open>
  \<open>RecBuf\<close> for a read of the bytes \<open>msg\<close>. When the half frame came out of \<open>m_buffer\<close> it is
  moved to its front, and the allocation stays.
\<close>

definition store_half :: "conn \<Rightarrow> bytes option \<Rightarrow> bytes \<Rightarrow> conn" where
  "store_half c old left =
     (case old of
        None \<Rightarrow> c\<lparr>m_buffer := Some left, m_buffer_size := length left\<rparr>
      | Some mem \<Rightarrow> c\<lparr>m_buffer := Some (left @ drop (length left) mem),
                      m_buffer_size := length left\<rparr>)"

definition RecBuf ::
  "pkg \<Rightarrow> data_tag \<Rightarrow> ('st \<Rightarrow> pkg \<Rightarrow> 'st \<times> int) \<Rightarrow> conn \<Rightarrow> 'st \<Rightarrow> bytes \<Rightarrow> (conn \<times> 'st \<times> int) option"
  where
  "RecBuf junk tag handle c st msg =
     (case (case m_buffer c of
              None \<Rightarrow> Some (c, msg)
            | Some old \<Rightarrow>
                map_option (\<lambda>c'. (c', take (m_buffer_size c') (the (m_buffer c'))))
                  (appendData2Buffer c old msg)) of
        None \<Rightarrow> None
      | Some (c1, data) \<Rightarrow>
          (case rec_loop junk tag handle (length data) st YQER_OK data of
             Rec_done st' code (Some left) \<Rightarrow> Some (store_half c1 (m_buffer c1) left, st', code)
           | Rec_done st' code None \<Rightarrow>
               Some (c1\<lparr>m_buffer := None, m_buffer_size := 0\<rparr>, st', code)
           | _ \<Rightarrow> None))"

section \<open>The loop ends\<close>

lemma fresh_AFNPackage_new [simp]: "pAfnData (pAfn (AFNPackage_new junk)) = None"
  by (simp add: AFNPackage_new_def)

lemma ParseProto_progress:
  assumes "length data < 2 ^ 31"
    and "ParseProto this junk data (word_of_nat (length data)) = Some (code, eat, p)"
    and "code \<noteq> YQER_PKG_Err 1"
  shows "8 \<le> unat eat \<and> unat eat \<le> length data"
  using ParseProto_code_eat [OF assms(1,2)] assms(3) by (auto simp: complete_def split: if_splits)

lemma rec_loop_fuel:
  "length data \<le> fuel \<Longrightarrow> length data < 2 ^ 31 \<Longrightarrow>
     rec_loop junk tag handle fuel st err data \<noteq> Rec_fuel"
proof (induction fuel arbitrary: st err data)
  case 0
  then show ?case by simp
next
  case (Suc fuel)
  show ?case
  proof (cases data)
    case Nil
    then show ?thesis by simp
  next
    case (Cons b bs)
    let ?r = "ParseProto (AFNPackage_new junk) tag data (word_of_nat (length data))"
    have IH: "rec_loop junk tag handle fuel st' err' (drop (unat eat) data) \<noteq> Rec_fuel"
      if "?r = Some (code, eat, p)" "code \<noteq> YQER_PKG_Err 1" for code eat p st' err'
      using ParseProto_progress [OF Suc.prems(2) that] Suc.prems by (intro Suc.IH) auto
    have ne: "YQER_OK \<noteq> YQER_PKG_Err 1" by (simp add: YQER_OK_def YQER_PKG_Err_def)
    show ?thesis
      using IH ne unfolding Cons by (auto simp: ne [symmetric] split: option.splits prod.splits)
  qed
qed

text \<open>
  A frame the parser accepts: complete with nothing behind it, marked, summed, and long enough
  for a data tag.
\<close>

definition good_frame :: "bytes \<Rightarrow> bool" where
  "good_frame f \<longleftrightarrow> length f = LEN_in f + 8 \<and> 12 \<le> LEN_in f \<and> marked f \<and> summed f"

text \<open>The object the parser fills from an accepted frame.\<close>

definition frame_pkg :: "pkg \<Rightarrow> bytes \<Rightarrow> pkg" where
  "frame_pkg this f =
     (let t = tag_of (take 4 (drop 14 f)) in
      this\<lparr>pkgHeader := header_in f, pkgTail := tail_in f, userHeader := user_of (take 6 (drop 6 f)),
        pAfn := (pAfn this)\<lparr>afnHeader := afn_header_of (take 2 (drop 12 f)),
          pAfnData := Some \<lparr>m_Tag = t, m_pData = take (LEN_in f - 12) (drop 18 f)\<rparr>\<rparr>,
        pn := Getpn (DA1 t) (DA2 t), Fn := GetFn (DT1 t) (DT2 t)\<rparr>)"

lemma in_append:
  assumes f: "good_frame f"
  shows "header_in (f @ r) = header_in f" "LEN_in (f @ r) = LEN_in f" "tail_in (f @ r) = tail_in f"
    "marked (f @ r)" "summed (f @ r)" "complete (f @ r)"
proof -
  have n: "20 \<le> length f" "6 + LEN_in f + 2 = length f" "14 \<le> length f" "6 \<le> length f"
    using f by (auto simp: good_frame_def)
  show h: "header_in (f @ r) = header_in f" using n(4) by (simp add: header_in_def)
  show l: "LEN_in (f @ r) = LEN_in f" by (simp add: LEN_in_def h)
  have "take 2 (drop (6 + LEN_in f) (f @ r)) = take 2 (drop (6 + LEN_in f) f)"
    unfolding n(2) [symmetric] using n(2) by auto
  then show t: "tail_in (f @ r) = tail_in f" unfolding tail_in_def l by (simp only:)
  show "marked (f @ r)" using f by (simp add: marked_def h t good_frame_def)
  have "take (LEN_in f) (drop 6 (f @ r)) = take (LEN_in f) (drop 6 f)"
    using n(2) by simp
  then show "summed (f @ r)" using f by (simp add: summed_def l t good_frame_def)
  show "complete (f @ r)" using n(2,3) by (simp add: complete_def l)
qed

lemma afn_header_bytes_of: "length b = 2 \<Longrightarrow> afn_header_bytes (afn_header_of b) = b"
  by (auto simp: layout_defs length_Suc_conv numeral_2_eq_2)

lemma tag_bytes_of: "length b = 4 \<Longrightarrow> tag_bytes (tag_of b) = b"
  by (auto simp: layout_defs length_Suc_conv eval_nat_numeral)

lemma cut: "a + k \<le> length f \<Longrightarrow> drop a f = take k (drop a f) @ drop (a + k) f"
  by (metis append_take_drop_id drop_drop add.commute)

lemma good_frame_split:
  assumes "good_frame f"
  shows "f = take 12 f @ afn_header_bytes (afn_header_of (take 2 (drop 12 f)))
     @ tag_bytes (tag_of (take 4 (drop 14 f))) @ take (LEN_in f - 12) (drop 18 f)
     @ drop (LEN_in f + 6) f"
proof -
  have n: "20 \<le> length f" "LEN_in f + 8 = length f" "12 \<le> LEN_in f"
    using assms by (auto simp: good_frame_def)
  have "f = take 12 f @ drop 12 f" by simp
  also have "drop 12 f = take 2 (drop 12 f) @ drop 14 f" using n(1) cut [of 12 2 f] by simp
  also have "drop 14 f = take 4 (drop 14 f) @ drop 18 f" using n(1) cut [of 14 4 f] by simp
  also have "drop 18 f = take (LEN_in f - 12) (drop 18 f) @ drop (LEN_in f + 6) f"
    using n cut [of 18 "LEN_in f - 12" f] by (simp add: add.commute)
  finally show ?thesis using n(1) by (simp add: afn_header_bytes_of tag_bytes_of)
qed

lemma ParseProto_good:
  assumes f: "good_frame f" and small: "length (f @ r) < 2 ^ 31"
  shows "ParseProto this tag (f @ r) (word_of_nat (length (f @ r))) =
         Some (YQER_OK, word_of_nat (length f), frame_pkg this f)"
proof -
  note n = f [unfolded good_frame_def]
  let ?h = "afn_header_of (take 2 (drop 12 f))" and ?t = "tag_of (take 4 (drop 14 f))"
  let ?bs = "take (LEN_in f - 12) (drop 18 f)"
  have lbs: "length ?bs = LEN_in f - 12" using n by simp
  have l: "(word_of_int (int (LEN_in f) - 6) :: u64) = word_of_nat (6 + length ?bs)"
    using n unfolding lbs by (simp add: of_nat_diff)
  have "Pkg_Afn_unPackData tag (pAfn this)
      (take 12 f @ afn_header_bytes ?h @ tag_bytes ?t @ ?bs @ (drop (LEN_in f + 6) f @ r)) 12
      (word_of_nat (6 + length ?bs)) =
    Some ((pAfn this)\<lparr>afnHeader := ?h, pAfnData := Some \<lparr>m_Tag = ?t, m_pData = ?bs\<rparr>\<rparr>)"
    using n small lbs by (intro Pkg_Afn_unPackData_reads) auto
  moreover have "take 12 f @ afn_header_bytes ?h @ tag_bytes ?t @ ?bs @ (drop (LEN_in f + 6) f @ r)
      = f @ r"
    using good_frame_split [OF f] by (metis append.assoc)
  ultimately have up: "Pkg_Afn_unPackData tag (pAfn this) (f @ r) 12
      (word_of_int (int (LEN_in f) - 6)) =
    Some ((pAfn this)\<lparr>afnHeader := ?h, pAfnData := Some \<lparr>m_Tag = ?t, m_pData = ?bs\<rparr>\<rparr>)"
    unfolding l by simp
  have n14: "\<not> length (f @ r) < 14" using n by simp
  have u: "take 6 (drop 6 (f @ r)) = take 6 (drop 6 f)" using n by simp
  have "length f = LEN_in f + 8" using n by simp
  then show ?thesis
    unfolding ParseProto_unfold [OF small] if_not_P [OF n14]
    using in_append [OF f, of r] u up n by (simp add: frame_pkg_def Let_def)
qed

text \<open>
  The frames of one read reach the handler in order, as if each had been parsed alone.
\<close>

fun handle_all :: "('st \<Rightarrow> pkg \<Rightarrow> 'st \<times> int) \<Rightarrow> 'st \<Rightarrow> int \<Rightarrow> pkg list \<Rightarrow> 'st \<times> int" where
  "handle_all handle st err [] = (st, err)"
| "handle_all handle st err (p # ps) = (case handle st p of (st', err') \<Rightarrow> handle_all handle st' err' ps)"

lemma rec_loop_frames:
  assumes "\<forall>f \<in> set fs. good_frame f" "length (concat fs @ r) < 2 ^ 31" "length fs \<le> fuel"
  shows "rec_loop junk tag handle fuel st err (concat fs @ r) =
     (case handle_all handle st err (map (frame_pkg (AFNPackage_new junk)) fs) of
        (st', err') \<Rightarrow> rec_loop junk tag handle (fuel - length fs) st' err' r)"
  using assms
proof (induction fs arbitrary: fuel st err)
  case Nil
  then show ?case by simp
next
  case (Cons f fs)
  have f: "good_frame f" using Cons.prems(1) by simp
  obtain b bs where c: "concat (f # fs) @ r = b # bs" and l: "b # bs = f @ (concat fs @ r)"
    using f by (cases f) (auto simp: good_frame_def)
  obtain fuel' where fuel: "fuel = Suc fuel'" using Cons.prems(3) by (cases fuel) auto
  have small: "length (f @ (concat fs @ r)) < 2 ^ 31" using Cons.prems(2) by simp
  have "unat (word_of_nat (length f) :: u64) = length f"
    using small by (intro unat_of_small) simp
  moreover have "ParseProto (AFNPackage_new junk) tag (b # bs) (word_of_nat (length (b # bs))) =
      Some (YQER_OK, word_of_nat (length f), frame_pkg (AFNPackage_new junk) f)"
    unfolding l by (rule ParseProto_good [OF f small])
  ultimately have "rec_loop junk tag handle fuel st err (b # bs) =
     (case handle st (frame_pkg (AFNPackage_new junk) f) of
        (st', err') \<Rightarrow> rec_loop junk tag handle fuel' st' err' (drop (length f) (b # bs)))"
    unfolding fuel by simp
  also have "drop (length f) (b # bs) = concat fs @ r" unfolding l by simp
  finally show ?case
    unfolding c using Cons.IH [of fuel'] Cons.prems fuel by (auto split: prod.splits)
qed

lemma rec_loop_half:
  assumes "r \<noteq> []" "\<not> complete r" "length r < 2 ^ 31"
  shows "rec_loop junk tag handle (Suc fuel) st err r = Rec_done st (YQER_PKG_Err 1) (Some r)"
proof -
  obtain b bs where r: "r = b # bs" using assms(1) by (cases r) auto
  have "\<exists>p. ParseProto (AFNPackage_new junk) tag r (word_of_nat (length r)) = Some (YQER_PKG_Err 1, 0, p)"
    using assms(2) unfolding ParseProto_unfold [OF assms(3)] by (auto simp: complete_def)
  moreover have "YQER_PKG_Err 1 \<noteq> YQER_OK" by (simp add: YQER_OK_def YQER_PKG_Err_def)
  ultimately show ?thesis unfolding r by auto
qed

lemma length_concat_frames:
  "\<forall>f \<in> set fs. good_frame f \<Longrightarrow> length fs \<le> length (concat fs)"
  by (induction fs) (auto simp: good_frame_def)

section \<open>Properties\<close>

text \<open>
  Property C28: reception of a stream. A read on a connection with no half frame pending, whose
  bytes are complete frames followed by a rest that is not yet a frame, hands exactly these
  frames to the handler, in order, and keeps exactly the rest for the next read.
\<close>

theorem RecBuf_stream:
  assumes "m_buffer c = None" "\<forall>f \<in> set fs. good_frame f" "\<not> complete r"
    and "length (concat fs @ r) < 2 ^ 31"
  shows "RecBuf junk tag handle c st (concat fs @ r) =
     (case handle_all handle st YQER_OK (map (frame_pkg (AFNPackage_new junk)) fs) of
        (st', err') \<Rightarrow>
          Some (if r = [] then (c\<lparr>m_buffer := None, m_buffer_size := 0\<rparr>, st', err')
                else (c\<lparr>m_buffer := Some r, m_buffer_size := length r\<rparr>, st', YQER_PKG_Err 1)))"
proof -
  let ?n = "length (concat fs @ r)"
  obtain st' err' where h:
    "handle_all handle st YQER_OK (map (frame_pkg (AFNPackage_new junk)) fs) = (st', err')"
    by fastforce
  have n: "length fs \<le> ?n" using length_concat_frames [OF assms(2)] by simp
  have loop: "rec_loop junk tag handle ?n st YQER_OK (concat fs @ r) =
      rec_loop junk tag handle (?n - length fs) st' err' r"
    by (subst rec_loop_frames [OF assms(2,4) n]) (simp add: h)
  show ?thesis
  proof (cases "r = []")
    case True
    then show ?thesis using loop h assms(1) by (simp add: RecBuf_def)
  next
    case False
    then obtain k where "?n - length fs = Suc k"
      using length_concat_frames [OF assms(2)] by (cases "?n - length fs") (auto simp: length_greater_0_conv [symmetric] simp del: length_greater_0_conv)
    then have "rec_loop junk tag handle ?n st YQER_OK (concat fs @ r) =
        Rec_done st' (YQER_PKG_Err 1) (Some r)"
      using loop rec_loop_half [OF False assms(3)] assms(4) by simp
    then show ?thesis using False h assms(1) by (simp add: RecBuf_def store_half_def)
  qed
qed

text \<open>
  A pending half frame makes the next read fault. \<open>appendData2Buffer\<close> copies behind
  the end of the buffer it has just allocated, for every non-empty message.
\<close>

lemma RecBuf_after_half_faults:
  assumes "m_buffer c = Some old" "msg \<noteq> []"
  shows "RecBuf junk tag handle c st msg = None"
proof -
  have "appendData2Buffer c old msg = None"
  proof (cases "mem_read old 0 (m_buffer_size c + length msg)")
    case (Some bs)
    then have l: "length bs = m_buffer_size c + length msg"
      by (auto simp: mem_read_def split: if_splits)
    then have "mem_write (replicate (m_buffer_size c + length msg) 0) 0 bs = Some bs"
      by (simp add: mem_write_def)
    moreover have "mem_write bs (m_buffer_size c + length msg) msg = None"
      using l assms(2) by (simp add: mem_write_def)
    ultimately show ?thesis using Some by (simp add: appendData2Buffer_def)
  qed (simp add: appendData2Buffer_def)
  then show ?thesis using assms(1) by (simp add: RecBuf_def)
qed

text \<open>
  Property C40: the receive loop ends on every input: a read on a connection without a pending
  half frame never runs out of its rounds, so the only way it fails to return is a memory fault
  of the parser on one of the frames it meets.
\<close>

theorem rec_loop_terminates:
  "length data < 2 ^ 31 \<Longrightarrow>
     rec_loop junk tag handle (length data) st err data = Rec_fault \<or>
     (\<exists>st' code left. rec_loop junk tag handle (length data) st err data = Rec_done st' code left)"
  using rec_loop_fuel [of data "length data" junk tag handle st err]
  by (cases "rec_loop junk tag handle (length data) st err data") auto

section \<open>Witnesses\<close>

definition log_handler :: "pkg list \<Rightarrow> pkg \<Rightarrow> pkg list \<times> int" where
  "log_handler ps p = (ps @ [p], YQER_OK)"

lemma login_good: "good_frame login_frame" "\<not> complete (take 9 login_frame)"
  by code_simp+

theorem RecBuf_stream_witness:
  "\<exists>p c. RecBuf blank_pkg (m_Tag clock_data) log_handler EventConnection_new []
       (login_frame @ take 9 login_frame) = Some (c, [p], YQER_PKG_Err 1) \<and>
     m_buffer c = Some (take 9 login_frame)"
  using RecBuf_stream [of EventConnection_new "[login_frame]" "take 9 login_frame" blank_pkg
      "m_Tag clock_data" log_handler "[]"] login_good
  by (simp add: EventConnection_new_def log_handler_def login_frame_def)

lemma RecBuf_after_half_faults_witness:
  "RecBuf blank_pkg (m_Tag clock_data) log_handler
     \<lparr>m_buffer = Some (take 9 login_frame), m_buffer_size = 9\<rparr> [] (drop 9 login_frame) = None"
  by (rule RecBuf_after_half_faults) (simp_all add: login_frame_def)

theorem rec_loop_terminates_witness:
  "rec_loop blank_pkg (m_Tag clock_data) log_handler (length crash_frame) [] YQER_OK crash_frame = Rec_fault \<or>
   (\<exists>st' code left. rec_loop blank_pkg (m_Tag clock_data) log_handler (length crash_frame) []
      YQER_OK crash_frame = Rec_done st' code left)"
  by (rule rec_loop_terminates) (simp add: crash_frame_def)

end
