(* ===== verification/AfnStation.thy ===== *)
theory AfnStation
  imports AfnConnection
begin

text \<open>
  The master station: the concentrators and their sequence numbers (\<open>AFN/src/Jzq.cpp\<close>,
  \<open>ConnectionList.cpp\<close>), the frames it builds (\<open>AFN0C.cpp\<close>, \<open>AFN02.cpp\<close>, \<open>AFNAck.cpp\<close>,
  \<open>AFNPackageBuilder.cpp\<close>), the dispatch of received frames (\<open>PackageBuilder.cpp\<close>) and the
  single- and multi-frame logic of a connection (\<open>ConnectionPower.cpp\<close>). Clock readings are
  arguments, and memory a package object is built over is the argument \<open>junk\<close>.
\<close>

section \<open>Timers\<close>

definition TimeElapse :: "u64 \<Rightarrow> u64 \<Rightarrow> u64" where
  "TimeElapse tick start =
     (let MaxVal = NOT 0 in
      if tick < start then (MaxVal - start) + 1 + tick else tick - start)"

lemma TimeElapse_eq: "TimeElapse tick start = tick - start"
  by (simp add: TimeElapse_def)

section \<open>A concentrator\<close>

record jzq =
  m_areacode :: u16
  m_number :: u16
  m_name :: string
  m_tag :: u8
  m_RSEQ :: u8
  m_PSEQ :: u8
  m_PFC :: u8
  m_heartTimer :: u64
  m_getTimer :: u64
  eleLst :: "(int \<times> int) list"

definition Jzq_new :: "string \<Rightarrow> u16 \<Rightarrow> u16 \<Rightarrow> u8 \<Rightarrow> jzq" where
  "Jzq_new name area number tag = \<lparr>m_areacode = area, m_number = number, m_name = name,
     m_tag = tag, m_RSEQ = 0, m_PSEQ = 0, m_PFC = 0, m_heartTimer = 0, m_getTimer = 0,
     eleLst = []\<rparr>"

definition LoginState :: "u64 \<Rightarrow> jzq \<Rightarrow> u16 \<Rightarrow> u8 \<Rightarrow> jzq" where
  "LoginState now j ft pseq =
     (if ft = 1 then j\<lparr>m_tag := m_tag j OR push_bit 1 1, m_RSEQ := pseq\<rparr>
      else if ft = 2 then j\<lparr>m_tag := m_tag j AND NOT (push_bit 1 1)\<rparr>
      else if ft = 3 then j\<lparr>m_tag := m_tag j OR push_bit 1 1, m_heartTimer := now\<rparr>
      else j)"

definition CheckTimeout :: "u64 \<Rightarrow> jzq \<Rightarrow> jzq \<times> bool" where
  "CheckTimeout now j =
     (if TimeElapse now (m_heartTimer j) > 180000
      then (LoginState now (j\<lparr>m_heartTimer := now\<rparr>) 2 0, True) else (j, False))"

definition online :: "jzq \<Rightarrow> bool" where
  "online j \<longleftrightarrow> m_tag j AND 2 \<noteq> 0"

section \<open>The list of concentrators\<close>

definition is_jzq :: "u16 \<Rightarrow> u16 \<Rightarrow> jzq \<Rightarrow> bool" where
  "is_jzq area number j \<longleftrightarrow> m_areacode j = area \<and> m_number j = number"

definition getJzq :: "jzq list \<Rightarrow> u16 \<Rightarrow> u16 \<Rightarrow> jzq option" where
  "getJzq js area number = find (is_jzq area number) js"

definition getJzq_name :: "jzq list \<Rightarrow> string \<Rightarrow> jzq option" where
  "getJzq_name js name = find (\<lambda>j. m_name j = name) js"

text \<open>A change through the pointer \<open>getJzq\<close> returns is a change of the first match in the list.\<close>

fun update_first :: "('a \<Rightarrow> bool) \<Rightarrow> ('a \<Rightarrow> 'a) \<Rightarrow> 'a list \<Rightarrow> 'a list" where
  "update_first P f [] = []"
| "update_first P f (x # xs) = (if P x then f x # xs else x # update_first P f xs)"

text \<open>
  The list with the function-static counter \<open>noneTag\<close> of \<open>ReportLoginState\<close>; the static and the
  list live as long as the process. \<open>os\<close> prints the counter as an \<open>int\<close>.
\<close>

record jzq_list =
  m_jzqList :: "jzq list"
  noneTag :: int

definition ReportLoginState ::
  "(int \<Rightarrow> string) \<Rightarrow> u64 \<Rightarrow> jzq_list \<Rightarrow> u16 \<Rightarrow> u16 \<Rightarrow> u16 \<Rightarrow> u8 \<Rightarrow> bool \<Rightarrow> jzq_list" where
  "ReportLoginState show_int now jl area number ft pseq add =
     (let jl' = (if getJzq (m_jzqList jl) area number = None \<and> add
                 then jl\<lparr>m_jzqList := m_jzqList jl
                           @ [Jzq_new (''none'' @ show_int (noneTag jl)) area number 0],
                         noneTag := noneTag jl + 1\<rparr>
                 else jl) in
      jl'\<lparr>m_jzqList := update_first (is_jzq area number) (\<lambda>j. LoginState now j ft pseq)
                        (m_jzqList jl')\<rparr>)"

definition bump_RSEQ :: "jzq \<Rightarrow> jzq" where
  "bump_RSEQ j = (let r = m_RSEQ j + 1 in j\<lparr>m_RSEQ := (if r > 15 then 0 else r)\<rparr>)"

definition GetRSEQ :: "jzq_list \<Rightarrow> u16 \<Rightarrow> u16 \<Rightarrow> bool \<Rightarrow> jzq_list \<times> u8" where
  "GetRSEQ jl area number increase =
     (case getJzq (m_jzqList jl) area number of
        None \<Rightarrow> (jl, 0)
      | Some j \<Rightarrow>
          (if increase
           then jl\<lparr>m_jzqList := update_first (is_jzq area number) bump_RSEQ (m_jzqList jl)\<rparr>
           else jl, m_RSEQ j))"

definition GetPSEQ :: "jzq_list \<Rightarrow> u16 \<Rightarrow> u16 \<Rightarrow> bool \<Rightarrow> jzq_list \<times> u8" where
  "GetPSEQ jl area number increase =
     (case getJzq (m_jzqList jl) area number of
        None \<Rightarrow> (jl, 0)
      | Some j \<Rightarrow>
          (if increase
           then jl\<lparr>m_jzqList := update_first (is_jzq area number)
                                  (\<lambda>j. j\<lparr>m_PFC := m_PFC j + 1\<rparr>) (m_jzqList jl)\<rparr>
           else jl, m_PFC j AND 0x0f))"

text \<open>
  \<open>GetEleID\<close> goes on to the next concentrator with the same address when the first has no meter
  with this number. An element is its point number with its database id.
\<close>

fun GetEleID :: "jzq list \<Rightarrow> u16 \<Rightarrow> u16 \<Rightarrow> u16 \<Rightarrow> int" where
  "GetEleID [] area addr n = -1"
| "GetEleID (j # js) area addr n =
     (if is_jzq area addr j then
        (case find (\<lambda>e. fst e = uint n) (eleLst j) of
           Some e \<Rightarrow> snd e
         | None \<Rightarrow> GetEleID js area addr n)
      else GetEleID js area addr n)"

section \<open>The frames the station builds\<close>

definition SEQ_single :: "u8 \<Rightarrow> u8 \<Rightarrow> u8" where
  "SEQ_single con s = set_SEQ_TPV 0 (set_SEQ_FIR 1 (set_SEQ_FIN 1 (set_SEQ_CON con s)))"

text \<open>\<open>AFN0C::Create\<close>, on an object over the memory \<open>junk\<close>; \<open>dtag\<close> is the fresh data's tag.\<close>

definition AFN0C_Create :: "pkg_afn \<Rightarrow> data_tag \<Rightarrow> u16 \<Rightarrow> u16 \<Rightarrow> pkg_afn" where
  "AFN0C_Create junk dtag n f =
     (let (da1, da2) = GetDA n (DA1 dtag) (DA2 dtag);
          (dt1, dt2) = GetDT f (DT1 dtag) (DT2 dtag) in
      junk\<lparr>afnHeader := \<lparr>AFN = 0x0C, SEQ_seq = SEQ_single 1 (SEQ_seq (afnHeader junk))\<rparr>,
        pAfnData := Some \<lparr>m_Tag = \<lparr>DA1 = da1, DA2 = da2, DT1 = dt1, DT2 = dt2\<rparr>, m_pData = []\<rparr>,
        pAux := Some (Aux_Down False \<lparr>PFC = 0, TM = replicate 4 0, DELAY = 0\<rparr> True (replicate 16 0))\<rparr>)"

definition s_MSA :: u8 where "s_MSA = 1"

text \<open>
  \<open>AFNAck_Data\<close> and \<open>AFN02Ack_Data\<close>: the data of an acknowledgement. \<open>GetDT\<close> always sets
  both bytes for types 1 and 3.
\<close>

definition AFNAck_Data :: "data_tag \<Rightarrow> pkg_afn_data" where
  "AFNAck_Data dtag = (case GetDT 1 (DT1 dtag) (DT2 dtag) of (a, b) \<Rightarrow>
     \<lparr>m_Tag = \<lparr>DA1 = 0, DA2 = 0, DT1 = a, DT2 = b\<rparr>, m_pData = []\<rparr>)"

definition AFN02Ack_Data :: "data_tag \<Rightarrow> data_tag \<Rightarrow> pkg_afn_data" where
  "AFN02Ack_Data dtag what = (case GetDT 3 (DT1 dtag) (DT2 dtag) of (a, b) \<Rightarrow>
     \<lparr>m_Tag = \<lparr>DA1 = 0, DA2 = 0, DT1 = a, DT2 = b\<rparr>, m_pData = [0x02] @ tag_bytes what @ [0x00]\<rparr>)"

definition CreateAck ::
  "pkg \<Rightarrow> data_tag \<Rightarrow> jzq_list \<Rightarrow> pkg \<Rightarrow> pkg_afn_data option \<Rightarrow> jzq_list \<times> pkg option" where
  "CreateAck junk dtag jl req data =
     (let k = AFNPackage_new junk; u = userHeader k; h = afnHeader (pAfn k);
          c = set_C_FUN 11 (set_C_FCB 0 (set_C_FCV 0 (set_C_PRM 0 (set_C_DIR 0 (C_c u)))));
          a3 = set_A3_MSA s_MSA (set_A3_TAG 0 (A3_a3 u));
          (jl', rseq) = GetRSEQ jl (A1 (userHeader req)) (A2 (userHeader req)) True;
          d = (case data of None \<Rightarrow> AFNAck_Data dtag | Some d \<Rightarrow> d) in
      (jl', okPkg (k\<lparr>userHeader := \<lparr>C_c = c, A1 = A1 (userHeader req), A2 = A2 (userHeader req),
                                   A3_a3 = a3\<rparr>,
                     pAfn := (pAfn k)\<lparr>afnHeader := \<lparr>AFN = 0,
                         SEQ_seq = set_SEQ_PRSEQ rseq (SEQ_single 0 (SEQ_seq h))\<rparr>,
                       pAfnData := Some d\<rparr>\<rparr>)))"

text \<open>
  The macro \<open>REQUEST_DATA\<close> up to \<open>SendPkg\<close>: the frame with function \<open>n\<close> around the application
  data \<open>a\<close>. The new package's own \<open>Pkg_Afn\<close> is replaced.
\<close>

definition REQUEST_DATA ::
  "pkg \<Rightarrow> jzq_list \<Rightarrow> u16 \<Rightarrow> u16 \<Rightarrow> pkg_afn \<Rightarrow> u8 \<Rightarrow> jzq_list \<times> pkg option" where
  "REQUEST_DATA junk jl area number a n =
     (let k = AFNPackage_new junk; u = userHeader k;
          c = set_C_FUN n (set_C_FCB 0 (set_C_FCV 0 (set_C_PRM 1 (set_C_DIR 0 (C_c u)))));
          a3 = set_A3_MSA s_MSA (set_A3_TAG 0 (A3_a3 u));
          (jl', pseq) = GetPSEQ jl area number True;
          h = afnHeader a in
      (jl', okPkg (k\<lparr>userHeader := \<lparr>C_c = c, A1 = area, A2 = number, A3_a3 = a3\<rparr>,
                     pAfn := a\<lparr>afnHeader := h\<lparr>SEQ_seq := set_SEQ_PRSEQ pseq (SEQ_seq h)\<rparr>\<rparr>\<rparr>)))"

end
