(* ===== verification/AfnDispatch.thy ===== *)
theory AfnDispatch
  imports AfnStation
begin

text \<open>
  What the station does with a received frame: the table of handlers and its use
  (\<open>AFN/src/PackageBuilder.cpp\<close>, \<open>Api.cpp\<close>), the login handler (\<open>AFN02.cpp\<close>), sending
  (\<open>EventConnection.cpp\<close>) and the frame logic of a power connection (\<open>ConnectionPower.cpp\<close>).
  A handler is a function of the list of concentrators and the received frames; it returns the
  new list, the answers it queued and its code, or \<open>None\<close> for an access through a null pointer.
\<close>

section \<open>The login handler\<close>

text \<open>
  What the handlers take from outside: the counter printed by an output stream, the clock, the
  memory new objects are built over, and the bytes \<open>SendPkg\<close> has in its buffer.
\<close>

record surroundings =
  show_int :: "int \<Rightarrow> string"
  clock :: u64
  junk_pkg :: pkg
  junk_tag :: data_tag
  junk_buf :: bytes

type_synonym req_handler =
  "surroundings \<Rightarrow> jzq_list \<Rightarrow> pkg list \<Rightarrow> (jzq_list \<times> pkg list \<times> int) option"

definition AFN02_HandleRequest :: req_handler where
  "AFN02_HandleRequest env jl reqLst =
     (case reqLst of
        [] \<Rightarrow> Some (jl, [], YQER_OK)
      | p # _ \<Rightarrow>
          if C_FUN (C_c (userHeader p)) = 9 \<and> pn p = 0 \<and> (Fn p = 1 \<or> Fn p = 2 \<or> Fn p = 3)
          then
            (let s = SEQ_seq (afnHeader (pAfn p));
                 jl' = ReportLoginState (show_int env) (clock env) jl
                         (A1 (userHeader p)) (A2 (userHeader p)) (Fn p) (SEQ_PRSEQ s) True in
             if SEQ_CON s \<noteq> 1 then Some (jl', [], YQER_OK)
             else do {
               d \<leftarrow> pAfnData (pAfn p);
               let (jl'', ack) = CreateAck (junk_pkg env) (junk_tag env) jl' p
                                   (Some (AFN02Ack_Data (junk_tag env) (m_Tag d)));
               k \<leftarrow> ack;
               Some (jl'', [k], YQER_OK)
             })
          else Some (jl, [], - 1))"

section \<open>The table of handlers\<close>

text \<open>\<open>std::map<int, PkgHandler>\<close> as an association list in the order of its keys.\<close>

record ('a) pkg_handler =
  reqHander :: "req_handler option"
  ackHandler :: "'a option"

fun map_insert :: "int \<Rightarrow> 'h \<Rightarrow> (int \<times> 'h) list \<Rightarrow> (int \<times> 'h) list" where
  "map_insert k h [] = [(k, h)]"
| "map_insert k h ((k', h') # m) =
     (if k < k' then (k, h) # (k', h') # m
      else if k = k' then (k, h) # m
      else (k', h') # map_insert k h m)"

definition Register ::
  "int \<Rightarrow> req_handler option \<Rightarrow> 'a option \<Rightarrow> (int \<times> 'a pkg_handler) list \<Rightarrow>
     (int \<times> 'a pkg_handler) list" where
  "Register code req ack m = map_insert code \<lparr>reqHander = req, ackHandler = ack\<rparr> m"

text \<open>The registrations of \<open>Api.cpp\<close>; \<open>ack0C\<close> is \<open>AFN0C::HandleAck\<close>.\<close>

definition power_handlers :: "'a \<Rightarrow> (int \<times> 'a pkg_handler) list" where
  "power_handlers ack0C =
     Register 0x0C None (Some ack0C) (Register 0x02 (Some AFN02_HandleRequest) None [])"

text \<open>
  \<open>DoHandleRequest\<close>: both branches of the loop's body return, so the loop looks at the first
  handler only.
\<close>

definition DoHandleRequest ::
  "(int \<times> 'a pkg_handler) list \<Rightarrow> surroundings \<Rightarrow> jzq_list \<Rightarrow> pkg list \<Rightarrow>
     (jzq_list \<times> pkg list \<times> int) option" where
  "DoHandleRequest m env jl reqLst =
     (case m of
        [] \<Rightarrow> Some (jl, [], - 1)
      | (code, h) # _ \<Rightarrow>
          (case (reqHander h, code = GetCode (hd reqLst)) of
             (Some f, True) \<Rightarrow> f env jl reqLst
           | _ \<Rightarrow>
               (case CreateAck (junk_pkg env) (junk_tag env) jl (hd reqLst) None of
                  (_, None) \<Rightarrow> None
                | (jl', Some k) \<Rightarrow> Some (jl', [k], YQER_OK))))"

text \<open>\<open>PackageBuilder::DoHandleAck\<close>, the one \<open>HandlePkg\<close> calls: the method is not virtual.\<close>

definition DoHandleAck :: "pkg list \<Rightarrow> int" where
  "DoHandleAck ackLst = (if length ackLst = 0 then - 1 else YQER_OK)"

definition YQER_PARAMERR :: int where "YQER_PARAMERR = - 98"

definition HandlePkg ::
  "(int \<times> 'a pkg_handler) list \<Rightarrow> surroundings \<Rightarrow> jzq_list \<Rightarrow> pkg list \<Rightarrow>
     (jzq_list \<times> pkg list \<times> int) option" where
  "HandlePkg m env jl reqLst =
     (case reqLst of
        [] \<Rightarrow> Some (jl, [], YQER_PARAMERR)
      | p # _ \<Rightarrow>
          if isRequest p then DoHandleRequest m env jl reqLst
          else Some (jl, [], DoHandleAck reqLst))"

section \<open>Sending\<close>

definition BUF_SIZE :: nat where "BUF_SIZE = 4000"

text \<open>
  \<open>SendPkg\<close> of one frame: the bytes it gives to \<open>bufferevent_write\<close>, none when \<open>Serialize\<close>
  returned an error.
\<close>

definition SendPkg :: "surroundings \<Rightarrow> pkg \<Rightarrow> bytes list option" where
  "SendPkg env p =
     (case Serialize p (junk_buf env) (word_of_nat BUF_SIZE) of
        None \<Rightarrow> None
      | Some (b, n) \<Rightarrow>
          Some (if 0 < n \<and> n < int BUF_SIZE then [take (nat n) b] else []))"

fun SendPkgs :: "surroundings \<Rightarrow> pkg list \<Rightarrow> bytes list option" where
  "SendPkgs env [] = Some []"
| "SendPkgs env (p # ps) = do {
     a \<leftarrow> SendPkg env p;
     b \<leftarrow> SendPkgs env ps;
     Some (a @ b)
   }"

section \<open>A power connection\<close>

text \<open>
  The connection's own address and pending frames, and two traces: what was written to the
  socket and which frame objects were deleted. A frame object is the identity of its
  allocation with its contents.
\<close>

record power =
  con_area :: u16
  con_number :: u16
  m_pkgList :: "(nat \<times> pkg) list"
  stations :: jzq_list
  written :: "bytes list"
  deleted :: "nat list"

definition ClearPkgList :: "power \<Rightarrow> power" where
  "ClearPkgList c = c\<lparr>m_pkgList := [], deleted := deleted c @ map fst (m_pkgList c)\<rparr>"

text \<open>\<open>HandlePkg\<close> on some frames and the sending of the answers, as every branch does it.\<close>

definition handle_and_answer ::
  "(int \<times> 'a pkg_handler) list \<Rightarrow> surroundings \<Rightarrow> power \<Rightarrow> pkg list \<Rightarrow> power option" where
  "handle_and_answer m env c ps = do {
     (jl, acks, ret) \<leftarrow> HandlePkg m env (stations c) ps;
     out \<leftarrow> (if ret = YQER_OK then SendPkgs env acks else Some []);
     Some (c\<lparr>stations := jl, written := written c @ out\<rparr>)
   }"

definition handlePackage ::
  "(int \<times> 'a pkg_handler) list \<Rightarrow> surroundings \<Rightarrow> power \<Rightarrow> nat \<times> pkg \<Rightarrow> (power \<times> int) option"
  where
  "handlePackage m env c0 pk =
     (let p = snd pk; s = SEQ_seq (afnHeader (pAfn p));
          c = (if A3_TAG (A3_a3 (userHeader p)) = 0
               then c0\<lparr>con_area := A1 (userHeader p), con_number := A2 (userHeader p)\<rparr> else c0) in
      if SEQ_FIN s = 1 \<and> SEQ_FIR s = 1 then do {
        c1 \<leftarrow> handle_and_answer m env c [p];
        Some (c1\<lparr>deleted := deleted c1 @ [fst pk]\<rparr>, YQER_OK)
      }
      else if SEQ_FIN s = 0 \<and> SEQ_FIR s = 1 then do {
        let c1 = ClearPkgList c;
        let c2 = c1\<lparr>m_pkgList := m_pkgList c1 @ [pk]\<rparr>;
        c3 \<leftarrow> handle_and_answer m env c2 (map snd (m_pkgList c2));
        let c4 = ClearPkgList c3;
        Some (c4\<lparr>deleted := deleted c4 @ [fst pk]\<rparr>, YQER_OK)
      }
      else if SEQ_FIR s = 0 then do {
        let c2 = c\<lparr>m_pkgList := m_pkgList c @ [pk]\<rparr>;
        if SEQ_FIN s = 0 then Some (c2, YQER_OK)
        else do {
          c3 \<leftarrow> handle_and_answer m env c2 (map snd (m_pkgList c2));
          let c4 = ClearPkgList c3;
          Some (c4\<lparr>deleted := deleted c4 @ [fst pk]\<rparr>, YQER_OK)
        }
      }
      else Some (c, YQER_OK))"

text \<open>The destructor logs the concentrator out.\<close>

definition ConnectionPower_delete :: "surroundings \<Rightarrow> power \<Rightarrow> power" where
  "ConnectionPower_delete env c =
     c\<lparr>stations := (stations c)\<lparr>m_jzqList :=
         update_first (is_jzq (con_area c) (con_number c)) (\<lambda>j. LoginState (clock env) j 2 0)
           (m_jzqList (stations c))\<rparr>\<rparr>"

end
