(* ===== verification/AfnDispatchProofs.thy ===== *)
theory AfnDispatchProofs
  imports AfnDispatch
begin

text \<open>
  Correctness of the station: the sequence numbers it gives to answers and requests, the login
  exchange from the received frame to the bytes on the wire, the answer to requests it does not
  know, and the life of frame objects.
\<close>

section \<open>Concentrators found and changed\<close>

lemma find_update_first:
  assumes "\<And>x. P (f x) = P x"
  shows "find P (update_first P f xs) = map_option f (find P xs)"
  by (induction xs) (auto simp: assms)

lemma is_jzq_updates [simp]:
  "is_jzq a n (LoginState now j ft s) = is_jzq a n j" "is_jzq a n (bump_RSEQ j) = is_jzq a n j"
  "is_jzq a n (j\<lparr>m_PFC := v\<rparr>) = is_jzq a n j"
  by (simp_all add: is_jzq_def LoginState_def bump_RSEQ_def Let_def)

lemma find_append: "find P (xs @ ys) = (case find P xs of None \<Rightarrow> find P ys | Some x \<Rightarrow> Some x)"
  by (induction xs) auto

lemma is_jzq_new [simp]: "is_jzq a n (Jzq_new nm a n t)"
  by (simp add: is_jzq_def Jzq_new_def)

lemma getJzq_Report:
  "getJzq (m_jzqList (ReportLoginState sh now jl a n ft s True)) a n =
     Some (LoginState now
       (case getJzq (m_jzqList jl) a n of
          Some j \<Rightarrow> j
        | None \<Rightarrow> Jzq_new (''none'' @ sh (noneTag jl)) a n 0) ft s)"
  by (auto simp: ReportLoginState_def getJzq_def find_update_first find_append Let_def
      split: option.splits)

lemma getJzq_GetRSEQ:
  assumes "getJzq (m_jzqList jl) a n = Some j"
  shows "GetRSEQ jl a n True =
      (jl\<lparr>m_jzqList := update_first (is_jzq a n) bump_RSEQ (m_jzqList jl)\<rparr>, m_RSEQ j)"
    and "getJzq (m_jzqList (fst (GetRSEQ jl a n True))) a n = Some (bump_RSEQ j)"
  using assms by (simp_all add: GetRSEQ_def getJzq_def find_update_first)

lemma getJzq_GetPSEQ:
  assumes "getJzq (m_jzqList jl) a n = Some j"
  shows "snd (GetPSEQ jl a n True) = m_PFC j AND 0x0f"
    and "getJzq (m_jzqList (fst (GetPSEQ jl a n True))) a n = Some (j\<lparr>m_PFC := m_PFC j + 1\<rparr>)"
  using assms by (simp_all add: GetPSEQ_def getJzq_def find_update_first)

section \<open>Sequence numbers\<close>

text \<open>The numbers \<open>k\<close> calls hand out.\<close>

fun numbers :: "('s \<Rightarrow> 's \<times> u8) \<Rightarrow> nat \<Rightarrow> 's \<Rightarrow> u8 list" where
  "numbers get 0 s = []"
| "numbers get (Suc k) s = (case get s of (s', r) \<Rightarrow> r # numbers get k s')"

lemma unat_AND_15: "unat (w AND 15) = unat w mod 16" for w :: u8
proof -
  have "w AND 15 = take_bit 4 w" by (simp add: take_bit_eq_mask mask_eq_exp_minus_1)
  then have "unat (w AND 15) = take_bit 4 (unat w)"
    by (simp only: unsigned_take_bit_eq)
  then show ?thesis by (simp add: take_bit_eq_mod)
qed

lemma bump_RSEQ_mod:
  assumes "unat (m_RSEQ j) < 16"
  shows "unat (m_RSEQ (bump_RSEQ j)) = (unat (m_RSEQ j) + 1) mod 16"
proof -
  have "unat (m_RSEQ j + 1) = unat (m_RSEQ j) + 1"
    using assms by (simp add: unat_word_ariths)
  then show ?thesis
    using assms
    by (cases "unat (m_RSEQ j) = 15") (auto simp: bump_RSEQ_def word_less_nat_alt Let_def)
qed

lemma map_unat_Cons_shift:
  "(m + 0) mod 16 # map (\<lambda>i. (Suc m + i) mod 16) [0..<k] = map (\<lambda>i. (m + i) mod 16) [0..<Suc k]"
  for m :: nat
  by (subst upt_rec) (simp add: map_Suc_upt [symmetric] del: upt_Suc)

lemma rseq_run:
  assumes "getJzq (m_jzqList jl) a n = Some j" "unat (m_RSEQ j) < 16"
  shows "map unat (numbers (\<lambda>jl. GetRSEQ jl a n True) k jl) =
           map (\<lambda>i. (unat (m_RSEQ j) + i) mod 16) [0..<k]"
  using assms
proof (induction k arbitrary: jl j)
  case (Suc k)
  let ?jl = "fst (GetRSEQ jl a n True)" and ?r = "unat (m_RSEQ j)"
  have m: "unat (m_RSEQ (bump_RSEQ j)) = (?r + 1) mod 16" using bump_RSEQ_mod Suc.prems(2) .
  have "map unat (numbers (\<lambda>jl. GetRSEQ jl a n True) k ?jl) =
      map (\<lambda>i. ((?r + 1) mod 16 + i) mod 16) [0..<k]"
    using Suc.IH [OF getJzq_GetRSEQ(2) [OF Suc.prems(1)]] m by simp
  also have "\<dots> = map (\<lambda>i. (Suc ?r + i) mod 16) [0..<k]"
    by (simp add: mod_add_left_eq)
  finally show ?case
    using getJzq_GetRSEQ(1) [OF Suc.prems(1)] Suc.prems(2) map_unat_Cons_shift [of ?r k]
    by (simp del: upt_Suc)
qed simp

lemma pseq_run:
  assumes "getJzq (m_jzqList jl) a n = Some j"
  shows "map unat (numbers (\<lambda>jl. GetPSEQ jl a n True) k jl) =
           map (\<lambda>i. (unat (m_PFC j) + i) mod 16) [0..<k]"
  using assms
proof (induction k arbitrary: jl j)
  case (Suc k)
  let ?jl = "fst (GetPSEQ jl a n True)" and ?r = "unat (m_PFC j)"
  have m: "unat (m_PFC j + 1) mod 16 = (?r + 1) mod 16"
    by (simp add: unat_word_ariths mod_mod_cancel)
  have "map unat (numbers (\<lambda>jl. GetPSEQ jl a n True) k ?jl) =
      map (\<lambda>i. (unat (m_PFC j + 1) + i) mod 16) [0..<k]"
    using Suc.IH [OF getJzq_GetPSEQ(2) [OF Suc.prems]] by simp
  also have "\<dots> = map (\<lambda>i. (Suc ?r + i) mod 16) [0..<k]"
    using m by (intro map_cong refl) (metis Suc_eq_plus1 mod_add_left_eq)
  finally show ?case
    using getJzq_GetPSEQ(1) [OF Suc.prems] map_unat_Cons_shift [of ?r k]
    by (simp add: case_prod_beta unat_AND_15 del: upt_Suc)
qed simp

text \<open>
  answer sequence numbers. After a login with sequence number s (four bits) the
  successive answers to that terminal, known or new, carry s, s + 1, ... modulo 16.
\<close>

lemma answer_numbers_after_login:
  assumes "s < 16"
  shows "map unat (numbers (\<lambda>jl. GetRSEQ jl a n True) k (ReportLoginState sh now jl a n 1 s True)) =
           map (\<lambda>i. (unat s + i) mod 16) [0..<k]"
proof -
  have "m_RSEQ (LoginState now j 1 s) = s" for j by (simp add: LoginState_def)
  moreover have "unat s < 16" using assms by (simp add: word_less_nat_alt)
  ultimately show ?thesis
    using rseq_run [OF getJzq_Report] by simp
qed

text \<open>
  Request sequence numbers. The requests to a terminal carry consecutive numbers
  modulo 16, starting at its frame counter, over every wrap of the 8-bit counter.
\<close>

lemma request_numbers_cycle:
  assumes "getJzq (m_jzqList jl) a n = Some j"
  shows "map unat (numbers (\<lambda>jl. GetPSEQ jl a n True) k jl) =
           map (\<lambda>i. (unat (m_PFC j) + i) mod 16) [0..<k]"
  using assms by (rule pseq_run)

section \<open>The answer frame\<close>

lemma take_bit_get_field [simp]: "take_bit n (get_field i n x) = get_field i n x"
  by (simp add: get_field_def)

lemma ack_fields:
  "C_PRM (set_C_FUN v (set_C_FCB x (set_C_FCV y (set_C_PRM 0 c)))) = 0"
  "SEQ_PRSEQ (set_SEQ_PRSEQ (SEQ_PRSEQ s) t) = SEQ_PRSEQ s"
  by (simp_all add: C_PRM_def set_C_FUN_def set_C_FCB_def set_C_FCV_def set_C_PRM_def
      SEQ_PRSEQ_def set_SEQ_PRSEQ_def field_simps_c)

lemma CreateAck_frame:
  assumes D: "D = (case data of None \<Rightarrow> AFNAck_Data dtag | Some d \<Rightarrow> d)"
    and len: "length (m_pData D) < 1000"
  obtains q where
    "CreateAck junk dtag jl req data =
       (fst (GetRSEQ jl (A1 (userHeader req)) (A2 (userHeader req)) True), Some q)"
    "valid q" "pAfnData (pAfn q) = Some D" "pAux (pAfn q) = None" "CS (pkgTail q) = cs_of q"
    "pkg_LEN q = 6 + length (afn_bytes (pAfn q))" "C_PRM (C_c (userHeader q)) = 0"
    "A1 (userHeader q) = A1 (userHeader req)" "A2 (userHeader q) = A2 (userHeader req)"
    "AFN (afnHeader (pAfn q)) = 0"
    "\<exists>t. SEQ_seq (afnHeader (pAfn q)) =
       set_SEQ_PRSEQ (snd (GetRSEQ jl (A1 (userHeader req)) (A2 (userHeader req)) True)) t"
proof -
  obtain jl' r where r: "GetRSEQ jl (A1 (userHeader req)) (A2 (userHeader req)) True = (jl', r)"
    by fastforce
  let ?k = "AFNPackage_new junk"
  let ?c = "set_C_FUN 11 (set_C_FCB 0 (set_C_FCV 0 (set_C_PRM 0 (set_C_DIR 0 (C_c (userHeader ?k))))))"
  let ?a3 = "set_A3_MSA s_MSA (set_A3_TAG 0 (A3_a3 (userHeader ?k)))"
  let ?p = "?k\<lparr>userHeader := \<lparr>C_c = ?c, A1 = A1 (userHeader req), A2 = A2 (userHeader req),
              A3_a3 = ?a3\<rparr>,
            pAfn := (pAfn ?k)\<lparr>afnHeader := \<lparr>AFN = 0,
               SEQ_seq = set_SEQ_PRSEQ r (SEQ_single 0 (SEQ_seq (afnHeader (pAfn ?k))))\<rparr>,
              pAfnData := Some D\<rparr>\<rparr>"
  have p: "pAux (pAfn ?p) = None" "pAfnData (pAfn ?p) = Some D" "S1 (pkgHeader ?p) = 0x68"
    "S2 (pkgHeader ?p) = 0x68" "E_end (pkgTail ?p) = 0x16"
    by (simp_all add: AFNPackage_new_def)
  have l: "6 + length (afn_bytes (pAfn ?p)) < 2 ^ 14"
    using len p(1) by (simp add: afn_bytes_def opt_bytes_def data_bytes_def)
  have aux: "aux_wf (pAfn ?p)" using p(1) by (simp add: aux_wf_def)
  obtain q where q: "okPkg ?p = Some q" "userHeader q = userHeader ?p" "pAfn q = pAfn ?p"
    "S1 (pkgHeader q) = S1 (pkgHeader ?p)" "S2 (pkgHeader q) = S2 (pkgHeader ?p)"
    "E_end (pkgTail q) = E_end (pkgTail ?p)" "CS (pkgTail q) = cs_of ?p"
    "pkg_LEN q = 6 + length (afn_bytes (pAfn ?p))"
    by (rule okPkg_Some [OF p(2) aux l])
  show thesis
  proof (rule that)
    show "CreateAck junk dtag jl req data =
       (fst (GetRSEQ jl (A1 (userHeader req)) (A2 (userHeader req)) True), Some q)"
      using q(1) by (simp add: CreateAck_def Let_def r D)
    show "\<exists>t. SEQ_seq (afnHeader (pAfn q)) =
       set_SEQ_PRSEQ (snd (GetRSEQ jl (A1 (userHeader req)) (A2 (userHeader req)) True)) t"
      unfolding r by (rule exI [of _ "SEQ_single 0 (SEQ_seq (afnHeader (pAfn ?k)))"]) (simp add: q(3))
    show "CS (pkgTail q) = cs_of q" by (simp add: q cs_of_def)
  qed (use p in \<open>simp_all add: q valid_def ack_fields\<close>)
qed

text \<open>A completed frame without additional information goes out as its bytes.\<close>

lemma SendPkg_frame:
  assumes "pAux (pAfn q) = None" "length (frame_bytes q) < 4000" "length (junk_buf env) = 4000"
  shows "SendPkg env q = Some [frame_bytes q]"
proof -
  have "Serialize q (junk_buf env) (word_of_nat BUF_SIZE) =
      Some (frame_bytes q @ drop (length (frame_bytes q)) (junk_buf env),
            int (length (frame_bytes q)))"
    using assms by (intro Serialize_writes) (auto simp: aux_wf_def BUF_SIZE_def)
  moreover have "0 < length (frame_bytes q)" by (simp add: length_frame_bytes)
  ultimately show ?thesis using assms(2) by (simp add: SendPkg_def BUF_SIZE_def)
qed

lemma ParseProto_ack:
  assumes "pAfnData (pAfn q) = Some d" "pAux (pAfn q) = None" "valid q"
    "CS (pkgTail q) = cs_of q" "pkg_LEN q = 6 + length (afn_bytes (pAfn q))"
    "length (frame_bytes q) < 4000"
  shows "ParseProto this junk (frame_bytes q) (word_of_nat (length (frame_bytes q))) =
      Some (YQER_OK, word_of_nat (length (frame_bytes q)), parsed this q d)"
  using ParseProto_frame [of q d "[]" this junk] assms by (simp add: aux_sum_def opt_bytes_def)

section \<open>Received frames\<close>

lemma power_handlers_eq:
  "power_handlers ack = [(2, \<lparr>reqHander = Some AFN02_HandleRequest, ackHandler = None\<rparr>),
     (12, \<lparr>reqHander = None, ackHandler = Some ack\<rparr>)]"
  by (simp add: power_handlers_def Register_def)

lemma AFN02_login:
  assumes "C_FUN (C_c (userHeader p)) = 9" "pn p = 0" "Fn p = 1"
    "SEQ_CON (SEQ_seq (afnHeader (pAfn p))) = 1" "pAfnData (pAfn p) = Some d"
    and "CreateAck (junk_pkg env) (junk_tag env)
        (ReportLoginState (show_int env) (clock env) jl (A1 (userHeader p)) (A2 (userHeader p)) 1
           (SEQ_PRSEQ (SEQ_seq (afnHeader (pAfn p)))) True) p
        (Some (AFN02Ack_Data (junk_tag env) (m_Tag d))) = (jl', Some k)"
  shows "AFN02_HandleRequest env jl (p # ps) = Some (jl', [k], YQER_OK)"
  using assms by (simp add: AFN02_HandleRequest_def Let_def)

lemma AFN02Ack_tag:
  "m_Tag (AFN02Ack_Data dtag t) = \<lparr>DA1 = 0, DA2 = 0, DT1 = 4, DT2 = 0\<rparr>"
  "m_pData (AFN02Ack_Data dtag t) = 0x02 # tag_bytes t @ [0]"
proof -
  have "GetDT 3 a b = (4, 0)" for a b
    unfolding GetDT_def by (subst if_P) (simp_all add: push_bit_eq_mult)
  then show "m_Tag (AFN02Ack_Data dtag t) = \<lparr>DA1 = 0, DA2 = 0, DT1 = 4, DT2 = 0\<rparr>"
    "m_pData (AFN02Ack_Data dtag t) = 0x02 # tag_bytes t @ [0]"
    by (simp_all add: AFN02Ack_Data_def)
qed

lemma AFNAck_tag: "m_Tag (AFNAck_Data dtag) = \<lparr>DA1 = 0, DA2 = 0, DT1 = 1, DT2 = 0\<rparr>"
  "m_pData (AFNAck_Data dtag) = []"
  by (simp_all add: AFNAck_Data_def GetDT_def)

lemma tag_points: "Getpn 0 0 = 0" "GetFn 4 0 = 3" "GetFn 1 0 = 1"
  by (code_simp)+

lemma length_ack_frame:
  assumes "pAfnData (pAfn q) = Some d" "pAux (pAfn q) = None"
  shows "length (frame_bytes q) = 20 + length (m_pData d)"
  using assms by (simp add: length_frame_bytes afn_bytes_def opt_bytes_def data_bytes_def)

lemma SEQ_PRSEQ_lt: "unat (SEQ_PRSEQ s) < 16"
  using unat_get_field_lt [of 0 4 s] by (simp add: SEQ_PRSEQ_def)

lemma online_login: "online (LoginState now j 1 s)"
proof -
  have "bit ((m_tag j OR push_bit 1 1) AND 2) 1" by (simp add: bit_simps)
  then have "(m_tag j OR push_bit 1 1) AND 2 \<noteq> 0" by force
  then show ?thesis by (simp add: online_def LoginState_def)
qed

text \<open>
  Property C35: the login exchange, end to end. On a single login frame (function 9, type F1
  of point 0, confirmation asked) from a terminal, the connection takes over the terminal's
  address, the terminal is known and online afterwards with the next answer number, the frame
  object is deleted once, and exactly one frame is written to the socket. The protocol's own
  parser accepts that frame completely: it is an answer with function code 0, to the same
  address, type F3 of point 0, with the login's sequence number and with data 2, the tag of the
  login, 0.
\<close>

theorem login_exchange:
  assumes "length (junk_buf env) = 4000"
    and "isRequest p" "GetCode p = 2" "C_FUN (C_c (userHeader p)) = 9" "pn p = 0" "Fn p = 1"
    and "A3_TAG (A3_a3 (userHeader p)) = 0" "SEQ_CON (SEQ_seq (afnHeader (pAfn p))) = 1"
    and "SEQ_FIN (SEQ_seq (afnHeader (pAfn p))) = 1" "SEQ_FIR (SEQ_seq (afnHeader (pAfn p))) = 1"
    and "pAfnData (pAfn p) = Some d"
  shows "\<exists>c' out j q. handlePackage (power_handlers ack) env c (i, p) = Some (c', YQER_OK) \<and>
    written c' = written c @ [out] \<and> deleted c' = deleted c @ [i] \<and>
    con_area c' = A1 (userHeader p) \<and> con_number c' = A2 (userHeader p) \<and>
    getJzq (m_jzqList (stations c')) (A1 (userHeader p)) (A2 (userHeader p)) = Some j \<and>
    online j \<and>
    unat (m_RSEQ j) = (unat (SEQ_PRSEQ (SEQ_seq (afnHeader (pAfn p)))) + 1) mod 16 \<and>
    ParseProto this junk out (word_of_nat (length out)) =
      Some (YQER_OK, word_of_nat (length out), q) \<and>
    \<not> isRequest q \<and> GetCode q = 0 \<and> pn q = 0 \<and> Fn q = 3 \<and>
    A1 (userHeader q) = A1 (userHeader p) \<and> A2 (userHeader q) = A2 (userHeader p) \<and>
    SEQ_PRSEQ (SEQ_seq (afnHeader (pAfn q))) = SEQ_PRSEQ (SEQ_seq (afnHeader (pAfn p))) \<and>
    map_option m_pData (pAfnData (pAfn q)) = Some (0x02 # tag_bytes (m_Tag d) @ [0])"
proof -
  let ?a = "A1 (userHeader p)" and ?n = "A2 (userHeader p)"
  let ?s = "SEQ_PRSEQ (SEQ_seq (afnHeader (pAfn p)))"
  let ?D = "AFN02Ack_Data (junk_tag env) (m_Tag d)"
  let ?jl = "ReportLoginState (show_int env) (clock env) (stations c) ?a ?n 1 ?s True"
  obtain j0 where j0: "getJzq (m_jzqList ?jl) ?a ?n = Some (LoginState (clock env) j0 1 ?s)"
    using getJzq_Report by blast
  let ?j = "LoginState (clock env) j0 1 ?s"
  have rs: "m_RSEQ ?j = ?s" by (simp add: LoginState_def)
  obtain q where q: "CreateAck (junk_pkg env) (junk_tag env) ?jl p (Some ?D) =
      (fst (GetRSEQ ?jl ?a ?n True), Some q)"
    "valid q" "pAfnData (pAfn q) = Some ?D" "pAux (pAfn q) = None" "CS (pkgTail q) = cs_of q"
    "pkg_LEN q = 6 + length (afn_bytes (pAfn q))" "C_PRM (C_c (userHeader q)) = 0"
    "A1 (userHeader q) = ?a" "A2 (userHeader q) = ?n" "AFN (afnHeader (pAfn q)) = 0"
    "\<exists>t. SEQ_seq (afnHeader (pAfn q)) = set_SEQ_PRSEQ (snd (GetRSEQ ?jl ?a ?n True)) t"
    by (rule CreateAck_frame [where data = "Some ?D" and D = ?D and junk = "junk_pkg env"
          and dtag = "junk_tag env" and jl = ?jl and req = p]) (simp_all add: AFN02Ack_tag)
  have len: "length (frame_bytes q) < 4000"
    using q(3,4) by (simp add: length_ack_frame AFN02Ack_tag)
  note send = SendPkg_frame [OF q(4) len assms(1)]
  note req = AFN02_login [OF assms(4-6,8,11), of env "stations c", OF q(1)]
  have pkg: "HandlePkg (power_handlers ack) env (stations c) [p] =
      Some (fst (GetRSEQ ?jl ?a ?n True), [q], YQER_OK)"
    using assms(2,3) req by (simp add: HandlePkg_def DoHandleRequest_def power_handlers_eq)
  let ?c = "c\<lparr>con_area := ?a, con_number := ?n, stations := fst (GetRSEQ ?jl ?a ?n True),
              written := written c @ [frame_bytes q], deleted := deleted c @ [i]\<rparr>"
  have handle: "handlePackage (power_handlers ack) env c (i, p) = Some (?c, YQER_OK)"
    using assms(7,9,10) pkg send by (simp add: handlePackage_def handle_and_answer_def)
  have seq: "SEQ_PRSEQ (SEQ_seq (afnHeader (pAfn q))) = ?s"
    using q(11) getJzq_GetRSEQ(1) [OF j0] rs ack_fields(2) by auto
  have parse: "ParseProto this junk (frame_bytes q) (word_of_nat (length (frame_bytes q))) =
      Some (YQER_OK, word_of_nat (length (frame_bytes q)), parsed this q ?D)"
    using q len by (intro ParseProto_ack) simp_all
  have j: "getJzq (m_jzqList (stations ?c)) ?a ?n = Some (bump_RSEQ ?j)"
    using getJzq_GetRSEQ(2) [OF j0] by simp
  have on: "online (bump_RSEQ ?j)"
    using online_login [of "clock env" j0 ?s] by (simp add: online_def bump_RSEQ_def Let_def)
  have "unat (m_RSEQ (bump_RSEQ ?j)) = (unat ?s + 1) mod 16"
    using bump_RSEQ_mod [of ?j] rs SEQ_PRSEQ_lt by simp
  with handle j on parse show ?thesis
    by (intro exI [of _ ?c] exI [of _ "frame_bytes q"] exI [of _ "bump_RSEQ ?j"]
        exI [of _ "parsed this q ?D"])
      (simp add: parsed_def isRequest_def GetCode_def q seq AFN02Ack_tag tag_points opt_bytes_def)
qed

text \<open>
  Requests with an unknown function code. A request frame with any code but 2 is
  never refused: exactly one answer is queued, the code is OK, and the answer parses as an
  all-confirmed frame (function code 0, type F1 of point 0) to the same address.
\<close>

lemma unknown_request_ack:
  assumes "isRequest p" "GetCode p \<noteq> 2"
  shows "\<exists>k q. HandlePkg (power_handlers ack) env jl (p # ps) =
      Some (fst (GetRSEQ jl (A1 (userHeader p)) (A2 (userHeader p)) True), [k], YQER_OK) \<and>
    ParseProto this junk (frame_bytes k) (word_of_nat (length (frame_bytes k))) =
      Some (YQER_OK, word_of_nat (length (frame_bytes k)), q) \<and>
    \<not> isRequest q \<and> GetCode q = 0 \<and> pn q = 0 \<and> Fn q = 1 \<and>
    A1 (userHeader q) = A1 (userHeader p) \<and> A2 (userHeader q) = A2 (userHeader p)"
proof -
  let ?D = "AFNAck_Data (junk_tag env)"
  let ?jl = "fst (GetRSEQ jl (A1 (userHeader p)) (A2 (userHeader p)) True)"
  obtain q where q: "CreateAck (junk_pkg env) (junk_tag env) jl p None = (?jl, Some q)"
    "valid q" "pAfnData (pAfn q) = Some ?D" "pAux (pAfn q) = None" "CS (pkgTail q) = cs_of q"
    "pkg_LEN q = 6 + length (afn_bytes (pAfn q))" "C_PRM (C_c (userHeader q)) = 0"
    "A1 (userHeader q) = A1 (userHeader p)" "A2 (userHeader q) = A2 (userHeader p)"
    "AFN (afnHeader (pAfn q)) = 0"
    by (rule CreateAck_frame [where data = None and D = ?D and junk = "junk_pkg env"
          and dtag = "junk_tag env" and jl = jl and req = p]) (simp_all add: AFNAck_tag)
  have "HandlePkg (power_handlers ack) env jl (p # ps) = Some (?jl, [q], YQER_OK)"
    using assms q(1) by (simp add: HandlePkg_def DoHandleRequest_def power_handlers_eq)
  moreover have "ParseProto this junk (frame_bytes q) (word_of_nat (length (frame_bytes q))) =
      Some (YQER_OK, word_of_nat (length (frame_bytes q)), parsed this q ?D)"
    using q by (intro ParseProto_ack) (simp_all add: length_ack_frame AFNAck_tag)
  ultimately show ?thesis
    by (intro exI [of _ q] exI [of _ "parsed this q ?D"])
      (simp add: parsed_def isRequest_def GetCode_def q AFNAck_tag tag_points)
qed

section \<open>The life of frame objects\<close>

lemma handle_and_answer_keeps:
  "handle_and_answer m env c ps = Some c' \<Longrightarrow>
     deleted c' = deleted c \<and> m_pkgList c' = m_pkgList c"
  by (auto simp: handle_and_answer_def split: Option.bind_splits prod.splits if_splits)

text \<open>
  Which frame objects a received frame deletes. A single frame is deleted once; a
  middle frame is kept; the first and the last frame of a series are deleted twice, once with
  the list of pending frames they were put into and once by themselves.
\<close>

lemma frame_objects_deleted:
  assumes "handlePackage m env c (i, p) = Some (c', r)"
  shows "(deleted c', map fst (m_pkgList c')) =
    (let fin = SEQ_FIN (SEQ_seq (afnHeader (pAfn p))) = 1;
         fir = SEQ_FIR (SEQ_seq (afnHeader (pAfn p))) = 1; ids = map fst (m_pkgList c) in
     if fin \<and> fir then (deleted c @ [i], ids)
     else if fir then (deleted c @ ids @ [i, i], [])
     else if fin then (deleted c @ ids @ [i, i], [])
     else (deleted c, ids @ [i]))"
proof -
  let ?s = "SEQ_seq (afnHeader (pAfn p))"
  have bit: "get_field k 1 x = 0 \<or> get_field k 1 x = 1" for k and x :: u8
    using unat_get_field_lt [of k 1 x] by (auto simp: less_2_cases_iff word_unat_eq_iff)
  have "SEQ_FIN ?s = 0 \<or> SEQ_FIN ?s = 1" "SEQ_FIR ?s = 0 \<or> SEQ_FIR ?s = 1"
    using bit by (simp_all add: SEQ_FIN_def SEQ_FIR_def)
  then show ?thesis
    using assms
    by (elim disjE)
      (auto simp: handlePackage_def ClearPkgList_def Let_def split: Option.bind_splits if_splits
        dest!: handle_and_answer_keeps)
qed

section \<open>Concrete runs\<close>

text \<open>
  \<open>login_pkg\<close> is the login frame of the protocol text as parsed; the station starts with no
  concentrators; \<open>middle_pkg\<close> and \<open>first_pkg\<close> carry the bits of a series.
\<close>

definition login_pkg :: pkg where
  "login_pkg = frame_pkg blank_pkg login_frame"

definition here :: surroundings where
  "here = \<lparr>show_int = (\<lambda>_. ''1''), clock = 1000, junk_pkg = blank_pkg,
     junk_tag = m_Tag clock_data, junk_buf = replicate 4000 0\<rparr>"

definition con0 :: power where
  "con0 = \<lparr>con_area = 0, con_number = 0, m_pkgList = [],
     stations = \<lparr>m_jzqList = [], noneTag = 1\<rparr>, written = [], deleted = []\<rparr>"

definition reset_pkg :: pkg where
  "reset_pkg = login_pkg\<lparr>pAfn := (pAfn login_pkg)\<lparr>afnHeader := \<lparr>AFN = 1, SEQ_seq = 0x70\<rparr>\<rparr>\<rparr>"

definition first_pkg :: pkg where
  "first_pkg = login_pkg\<lparr>pAfn := (pAfn login_pkg)\<lparr>afnHeader := \<lparr>AFN = 2, SEQ_seq = 0x40\<rparr>\<rparr>\<rparr>"

lemma login_pkg_facts:
  "isRequest login_pkg" "GetCode login_pkg = 2" "C_FUN (C_c (userHeader login_pkg)) = 9"
  "pn login_pkg = 0" "Fn login_pkg = 1" "A3_TAG (A3_a3 (userHeader login_pkg)) = 0"
  "SEQ_CON (SEQ_seq (afnHeader (pAfn login_pkg))) = 1"
  "SEQ_FIN (SEQ_seq (afnHeader (pAfn login_pkg))) = 1"
  "SEQ_FIR (SEQ_seq (afnHeader (pAfn login_pkg))) = 1"
  "pAfnData (pAfn login_pkg) = Some \<lparr>m_Tag = \<lparr>DA1 = 0, DA2 = 0, DT1 = 1, DT2 = 0\<rparr>, m_pData = []\<rparr>"
  "isRequest reset_pkg" "GetCode reset_pkg = 1"
  by code_simp+

lemma answer_numbers_after_login_witness:
  "map unat (numbers (\<lambda>jl. GetRSEQ jl 1 2 True) 4
     (ReportLoginState (\<lambda>_. ''1'') 0 (stations con0) 1 2 1 14 True)) = [14, 15, 0, 1]"
proof -
  have "[0..<4] = [0, 1, 2, 3 :: nat]" by (simp add: upt_rec)
  then show ?thesis by (subst answer_numbers_after_login) simp_all
qed

theorem request_numbers_cycle_witness:
  "map unat (numbers (\<lambda>jl. GetPSEQ jl 1 2 True) 3
     \<lparr>m_jzqList = [Jzq_new ''a'' 1 2 1\<lparr>m_PFC := 255\<rparr>], noneTag = 1\<rparr>) = [15, 0, 1]"
proof -
  have "[0..<3] = [0, 1, 2 :: nat]" by (simp add: upt_rec)
  then show ?thesis
    by (subst request_numbers_cycle [where j = "Jzq_new ''a'' 1 2 1\<lparr>m_PFC := 255\<rparr>"])
      (simp_all add: getJzq_def)
qed

theorem login_exchange_witness:
  "\<exists>c' out j. handlePackage (power_handlers ()) here con0 (7, login_pkg) = Some (c', YQER_OK) \<and>
     written c' = [out] \<and> deleted c' = [7] \<and>
     getJzq (m_jzqList (stations c')) (A1 (userHeader login_pkg)) (A2 (userHeader login_pkg)) =
       Some j \<and> online j"
proof -
  have "length (junk_buf here) = 4000" by (simp add: here_def)
  from login_exchange [OF this login_pkg_facts(1-10), of "()" con0 7 blank_pkg "m_Tag clock_data"]
  show ?thesis by (fastforce simp: con0_def)
qed

lemma unknown_request_ack_witness:
  "\<exists>jl k. HandlePkg (power_handlers ()) here (stations con0) [reset_pkg] = Some (jl, [k], YQER_OK)"
  using unknown_request_ack [of reset_pkg "()" here "stations con0" "[]" blank_pkg "m_Tag clock_data"]
  by (auto simp: login_pkg_facts)

lemma frame_objects_deleted_witness:
  "case handlePackage (power_handlers ()) here con0 (3, first_pkg) of
     None \<Rightarrow> False | Some (c', r) \<Rightarrow> deleted c' = [3, 3]"
proof -
  have "handlePackage (power_handlers ()) here con0 (3, first_pkg) \<noteq> None" by code_simp
  then obtain c' r where h: "handlePackage (power_handlers ()) here con0 (3, first_pkg) = Some (c', r)"
    by auto
  have "SEQ_FIN (SEQ_seq (afnHeader (pAfn first_pkg))) = 0"
    "SEQ_FIR (SEQ_seq (afnHeader (pAfn first_pkg))) = 1" by code_simp+
  then show ?thesis using frame_objects_deleted [OF h] h by (simp add: con0_def)
qed

end
