(* ===== verification/Evbuffer.thy ===== *)
theory Evbuffer
  imports Prelude "HOL-Library.Monad_Syntax"
begin

text \<open>
  \<open>libevent-2.0.22-stable/buffer.c\<close>, the data and the internal operations of an evbuffer:
  chains and their allocation and release, where the last chain with data is, the insertion of
  a chain, and the callbacks on changes. A \<open>size_t\<close> is a natural number below \<open>2 ^ 64\<close>, its
  wrap-around is written \<open>SZ\<close>. The linked list of chains is a list; a pointer to a \<open>next\<close>
  pointer is the index of the chain it points to, so \<open>last_with_datap\<close> is an index, and
  \<open>last\<close> is the last element. What an operation does to the outside (memory released, clean-up
  functions and callbacks called) is appended to \<open>events\<close>; a callback does not change the
  buffer it is called for. A failed assertion and an access through a null pointer or outside
  the memory of a chain is \<open>None\<close>.
\<close>

section \<open>Sizes\<close>

definition SIZE_MAX :: nat where "SIZE_MAX = 2 ^ 64 - 1"
definition SZ :: "nat \<Rightarrow> nat" where "SZ n = n mod 2 ^ 64"
definition EVBUFFER_CHAIN_MAX :: nat where "EVBUFFER_CHAIN_MAX = 2 ^ 63 - 1"
definition EVBUFFER_CHAIN_SIZE :: nat where "EVBUFFER_CHAIN_SIZE = 48"
definition MIN_BUFFER_SIZE :: nat where "MIN_BUFFER_SIZE = 1024"

lemma SZ_small [simp]: "n \<le> SIZE_MAX \<Longrightarrow> SZ n = n"
  by (simp add: SZ_def SIZE_MAX_def)

section \<open>Chains\<close>

definition EVBUFFER_MMAP :: u32 where "EVBUFFER_MMAP = 0x0001"
definition EVBUFFER_SENDFILE :: u32 where "EVBUFFER_SENDFILE = 0x0002"
definition EVBUFFER_REFERENCE :: u32 where "EVBUFFER_REFERENCE = 0x0004"
definition EVBUFFER_IMMUTABLE :: u32 where "EVBUFFER_IMMUTABLE = 0x0008"
definition EVBUFFER_MEM_PINNED_R :: u32 where "EVBUFFER_MEM_PINNED_R = 0x0010"
definition EVBUFFER_MEM_PINNED_W :: u32 where "EVBUFFER_MEM_PINNED_W = 0x0020"
definition EVBUFFER_MEM_PINNED_ANY :: u32 where
  "EVBUFFER_MEM_PINNED_ANY = EVBUFFER_MEM_PINNED_R OR EVBUFFER_MEM_PINNED_W"
definition EVBUFFER_DANGLING :: u32 where "EVBUFFER_DANGLING = 0x0040"

text \<open>
  A chain: the address \<open>buffer\<close> of its memory, the sizes, the flags, the memory itself (none for
  a sendfile chain, whose \<open>buffer\<close> is null), and the data behind the chain header: the clean-up
  function of a reference and the descriptor of a mapped or sent file.
\<close>

record chain =
  buffer :: nat
  buffer_len :: nat
  misalign :: nat
  off :: nat
  ch_flags :: u32
  ch_mem :: bytes
  cleanupfn :: "nat option"
  ch_fd :: int

definition has_flag :: "chain \<Rightarrow> u32 \<Rightarrow> bool" where
  "has_flag c f \<longleftrightarrow> ch_flags c AND f \<noteq> 0"

definition CHAIN_SPACE_PTR :: "chain \<Rightarrow> nat" where
  "CHAIN_SPACE_PTR c = buffer c + misalign c + off c"

definition CHAIN_SPACE_LEN :: "chain \<Rightarrow> nat" where
  "CHAIN_SPACE_LEN c =
     (if has_flag c EVBUFFER_IMMUTABLE then 0 else buffer_len c - (misalign c + off c))"

definition CHAIN_PINNED :: "chain \<Rightarrow> bool" where
  "CHAIN_PINNED c \<longleftrightarrow> has_flag c EVBUFFER_MEM_PINNED_ANY"

definition CHAIN_PINNED_R :: "chain \<Rightarrow> bool" where
  "CHAIN_PINNED_R c \<longleftrightarrow> has_flag c EVBUFFER_MEM_PINNED_R"

text \<open>
  The allocator is a parameter: for a size, the address and the bytes \<open>mm_malloc\<close> returns at
  this call, or \<open>None\<close> for a null pointer.
\<close>

type_synonym malloc = "nat \<Rightarrow> (nat \<times> bytes) option"

text \<open>The next size from \<open>a\<close> on by doubling that holds \<open>n\<close> bytes.\<close>

function grow :: "nat \<Rightarrow> nat \<Rightarrow> nat" where
  "grow a n = (if 0 < a \<and> a < n then grow (2 * a) n else a)"
  by auto
termination by (relation "measure (\<lambda>(a, n). n - a)") auto

declare grow.simps [simp del]

definition chain_alloc_size :: "nat \<Rightarrow> nat" where
  "chain_alloc_size n =
     (if n < EVBUFFER_CHAIN_MAX div 2 then grow MIN_BUFFER_SIZE n else n)"

definition evbuffer_chain_new :: "malloc \<Rightarrow> nat \<Rightarrow> chain option" where
  "evbuffer_chain_new m n =
     (if n > EVBUFFER_CHAIN_MAX - EVBUFFER_CHAIN_SIZE then None
      else (let to_alloc = chain_alloc_size (n + EVBUFFER_CHAIN_SIZE) in
        case m to_alloc of
          None \<Rightarrow> None
        | Some (a, bs) \<Rightarrow>
            Some \<lparr>buffer = a + EVBUFFER_CHAIN_SIZE, buffer_len = to_alloc - EVBUFFER_CHAIN_SIZE,
              misalign = 0, off = 0, ch_flags = 0, ch_mem = drop EVBUFFER_CHAIN_SIZE bs,
              cleanupfn = None, ch_fd = 0\<rparr>))"

text \<open>Effects on the outside.\<close>

record cb_info =
  orig_size :: nat
  n_added :: nat
  n_deleted :: nat

datatype ev_event =
  Ev_free chain
| Ev_dangling chain
| Ev_cleanup nat nat nat
| Ev_munmap nat nat
| Ev_close int
| Ev_callback nat cb_info nat
| Ev_callback_obsolete nat nat nat nat
| Ev_schedule
| Ev_cancel
| Ev_incref_parent nat
| Ev_decref_parent nat
| Ev_free_callback nat
| Ev_free_evbuffer

definition evbuffer_chain_free :: "chain \<Rightarrow> ev_event list" where
  "evbuffer_chain_free c =
     (if CHAIN_PINNED c then [Ev_dangling (c\<lparr>ch_flags := ch_flags c OR EVBUFFER_DANGLING\<rparr>)]
      else
        (if has_flag c EVBUFFER_REFERENCE
         then (case cleanupfn c of None \<Rightarrow> []
               | Some f \<Rightarrow> [Ev_cleanup f (buffer c) (buffer_len c)]) else [])
        @ (if has_flag c EVBUFFER_MMAP
           then [Ev_munmap (buffer c) (buffer_len c), Ev_close (ch_fd c)] else [])
        @ (if has_flag c EVBUFFER_SENDFILE then [Ev_close (ch_fd c)] else [])
        @ [Ev_free c])"

fun evbuffer_free_all_chains :: "chain list \<Rightarrow> ev_event list" where
  "evbuffer_free_all_chains [] = []"
| "evbuffer_free_all_chains (c # cs) = evbuffer_chain_free c @ evbuffer_free_all_chains cs"

fun evbuffer_chains_all_empty :: "chain list \<Rightarrow> bool" where
  "evbuffer_chains_all_empty [] = True"
| "evbuffer_chains_all_empty (c # cs) = (if off c \<noteq> 0 then False else evbuffer_chains_all_empty cs)"

definition evbuffer_chain_pin :: "chain \<Rightarrow> u32 \<Rightarrow> chain option" where
  "evbuffer_chain_pin c f =
     (if ch_flags c AND f = 0 then Some (c\<lparr>ch_flags := ch_flags c OR f\<rparr>) else None)"

definition evbuffer_chain_unpin :: "chain \<Rightarrow> u32 \<Rightarrow> (chain \<times> ev_event list) option" where
  "evbuffer_chain_unpin c f =
     (if ch_flags c AND f \<noteq> 0 then
        (let c' = c\<lparr>ch_flags := ch_flags c AND NOT f\<rparr> in
         Some (c', if has_flag c' EVBUFFER_DANGLING then evbuffer_chain_free c' else []))
      else None)"

section \<open>The buffer\<close>

definition EVBUFFER_CB_ENABLED :: u32 where "EVBUFFER_CB_ENABLED = 1"
definition EVBUFFER_CB_NODEFER :: u32 where "EVBUFFER_CB_NODEFER = 2"
definition EVBUFFER_CB_OBSOLETE :: u32 where "EVBUFFER_CB_OBSOLETE = 0x00040000"
definition EVBUFFER_CB_INTERNAL_FLAGS :: u32 where "EVBUFFER_CB_INTERNAL_FLAGS = 0xffff0000"

text \<open>A callback entry; \<open>cb_id\<close> is its address, \<open>cb_func\<close> the function pointer.\<close>

record cb_entry =
  cb_id :: nat
  cb_func :: nat
  cbarg :: nat
  cb_flags :: u32

record evbuffer =
  chains :: "chain list"
  last_with_datap :: nat
  total_len :: nat
  n_add_for_cb :: nat
  n_del_for_cb :: nat
  freeze_start :: bool
  freeze_end :: bool
  deferred_cbs :: bool
  ev_flags :: u32
  refcnt :: int
  queued :: bool
  callbacks :: "cb_entry list"
  parent :: "nat option"
  events :: "ev_event list"

definition evbuffer_new :: evbuffer where
  "evbuffer_new = \<lparr>chains = [], last_with_datap = 0, total_len = 0, n_add_for_cb = 0,
     n_del_for_cb = 0, freeze_start = False, freeze_end = False, deferred_cbs = False,
     ev_flags = 0, refcnt = 1, queued = False, callbacks = [], parent = None, events = []\<rparr>"

definition emit :: "ev_event list \<Rightarrow> evbuffer \<Rightarrow> evbuffer" where
  "emit es b = b\<lparr>events := events b @ es\<rparr>"

definition the_last :: "evbuffer \<Rightarrow> chain option" where
  "the_last b = (if chains b = [] then None else Some (last (chains b)))"

text \<open>The chain a \<open>next\<close> pointer of the list points to, and the index one further.\<close>

definition slot :: "chain list \<Rightarrow> nat \<Rightarrow> chain option" where
  "slot cs i = (if i < length cs then Some (cs ! i) else None)"

definition evbuffer_set_flags :: "evbuffer \<Rightarrow> u64 \<Rightarrow> evbuffer" where
  "evbuffer_set_flags b f = b\<lparr>ev_flags := ev_flags b OR ucast f\<rparr>"

definition evbuffer_clear_flags :: "evbuffer \<Rightarrow> u64 \<Rightarrow> evbuffer" where
  "evbuffer_clear_flags b f = b\<lparr>ev_flags := ev_flags b AND NOT (ucast f)\<rparr>"

definition evbuffer_incref :: "evbuffer \<Rightarrow> evbuffer" where
  "evbuffer_incref b = b\<lparr>refcnt := refcnt b + 1\<rparr>"

definition evbuffer_defer_callbacks :: "evbuffer \<Rightarrow> evbuffer" where
  "evbuffer_defer_callbacks b = b\<lparr>deferred_cbs := True, queued := False\<rparr>"

definition evbuffer_set_parent :: "evbuffer \<Rightarrow> nat option \<Rightarrow> evbuffer" where
  "evbuffer_set_parent b p = b\<lparr>parent := p\<rparr>"

definition evbuffer_get_length :: "evbuffer \<Rightarrow> nat" where
  "evbuffer_get_length b = total_len b"

definition evbuffer_get_contiguous_space :: "evbuffer \<Rightarrow> nat" where
  "evbuffer_get_contiguous_space b = (case chains b of [] \<Rightarrow> 0 | c # _ \<Rightarrow> off c)"

definition evbuffer_freeze :: "evbuffer \<Rightarrow> bool \<Rightarrow> evbuffer" where
  "evbuffer_freeze b at_start =
     (if at_start then b\<lparr>freeze_start := True\<rparr> else b\<lparr>freeze_end := True\<rparr>)"

definition evbuffer_unfreeze :: "evbuffer \<Rightarrow> bool \<Rightarrow> evbuffer" where
  "evbuffer_unfreeze b at_start =
     (if at_start then b\<lparr>freeze_start := False\<rparr> else b\<lparr>freeze_end := False\<rparr>)"

section \<open>Callbacks\<close>

definition run_one :: "cb_info \<Rightarrow> nat \<Rightarrow> cb_entry \<Rightarrow> ev_event" where
  "run_one info new_size e =
     (if cb_flags e AND EVBUFFER_CB_OBSOLETE \<noteq> 0
      then Ev_callback_obsolete (cb_func e) (orig_size info) new_size (cbarg e)
      else Ev_callback (cb_func e) info (cbarg e))"

definition evbuffer_run_callbacks :: "evbuffer \<Rightarrow> bool \<Rightarrow> evbuffer" where
  "evbuffer_run_callbacks b running_deferred =
     (let (mask, masked_val, clear) =
        (if running_deferred
         then (EVBUFFER_CB_NODEFER OR EVBUFFER_CB_ENABLED, EVBUFFER_CB_ENABLED, True)
         else if deferred_cbs b
         then (EVBUFFER_CB_NODEFER OR EVBUFFER_CB_ENABLED,
               EVBUFFER_CB_NODEFER OR EVBUFFER_CB_ENABLED, False)
         else (EVBUFFER_CB_ENABLED, EVBUFFER_CB_ENABLED, True)) in
      if callbacks b = [] then b\<lparr>n_add_for_cb := 0, n_del_for_cb := 0\<rparr>
      else if n_add_for_cb b = 0 \<and> n_del_for_cb b = 0 then b
      else
        (let new_size = total_len b;
             info = \<lparr>orig_size = SZ (SZ (new_size + n_del_for_cb b) + 2 ^ 64 - n_add_for_cb b),
                     n_added = n_add_for_cb b, n_deleted = n_del_for_cb b\<rparr>;
             b1 = (if clear then b\<lparr>n_add_for_cb := 0, n_del_for_cb := 0\<rparr> else b) in
         emit (map (run_one info new_size)
                 (filter (\<lambda>e. cb_flags e AND mask = masked_val) (callbacks b))) b1))"

definition evbuffer_invoke_callbacks :: "evbuffer \<Rightarrow> evbuffer" where
  "evbuffer_invoke_callbacks b =
     (if callbacks b = [] then b\<lparr>n_add_for_cb := 0, n_del_for_cb := 0\<rparr>
      else if deferred_cbs b \<and> queued b then b
      else
        (let b1 = (if deferred_cbs b
                   then emit ((case parent b of None \<Rightarrow> [] | Some p \<Rightarrow> [Ev_incref_parent p])
                              @ [Ev_schedule]) (evbuffer_incref b\<lparr>queued := True\<rparr>)
                   else b) in
         evbuffer_run_callbacks b1 False))"

definition evbuffer_remove_all_callbacks :: "evbuffer \<Rightarrow> evbuffer" where
  "evbuffer_remove_all_callbacks b =
     emit (map (\<lambda>e. Ev_free_callback (cb_id e)) (callbacks b)) (b\<lparr>callbacks := []\<rparr>)"

text \<open>
  Dropping a reference. The freed buffer keeps its last state in the model, with the event that
  frees it.
\<close>

definition evbuffer_decref_and_unlock :: "evbuffer \<Rightarrow> evbuffer option" where
  "evbuffer_decref_and_unlock b =
     (if refcnt b > 0 then
        (let b1 = b\<lparr>refcnt := refcnt b - 1\<rparr> in
         if refcnt b1 > 0 then Some b1
         else
           (let b2 = evbuffer_remove_all_callbacks
                       (emit (evbuffer_free_all_chains (chains b1)) b1);
                b3 = (if deferred_cbs b2 then emit [Ev_cancel] (b2\<lparr>queued := False\<rparr>) else b2) in
            Some (emit [Ev_free_evbuffer] b3)))
      else None)"

definition evbuffer_free :: "evbuffer \<Rightarrow> evbuffer option" where
  "evbuffer_free b = evbuffer_decref_and_unlock b"

text \<open>
  The deferred callback, run by the event loop: it takes itself off the queue first
  (\<open>event_process_deferred_callbacks\<close> of \<open>event.c\<close>).
\<close>

definition evbuffer_deferred_callback :: "evbuffer \<Rightarrow> evbuffer option" where
  "evbuffer_deferred_callback b =
     map_option (emit (case parent b of None \<Rightarrow> [] | Some p \<Rightarrow> [Ev_decref_parent p]))
       (evbuffer_decref_and_unlock (evbuffer_run_callbacks b True))"

definition evbuffer_add_cb :: "evbuffer \<Rightarrow> nat \<Rightarrow> nat \<Rightarrow> nat option \<Rightarrow> evbuffer" where
  "evbuffer_add_cb b f arg mem =
     (case mem of
        None \<Rightarrow> b
      | Some a \<Rightarrow> b\<lparr>callbacks := \<lparr>cb_id = a, cb_func = f, cbarg = arg,
                                  cb_flags = EVBUFFER_CB_ENABLED\<rparr> # callbacks b\<rparr>)"

definition evbuffer_setcb :: "evbuffer \<Rightarrow> nat option \<Rightarrow> nat \<Rightarrow> nat option \<Rightarrow> evbuffer option" where
  "evbuffer_setcb b f arg mem =
     (let b1 = (if callbacks b \<noteq> [] then evbuffer_remove_all_callbacks b else b) in
      case f of
        None \<Rightarrow> Some b1
      | Some g \<Rightarrow>
          (case mem of
             None \<Rightarrow> None
           | Some a \<Rightarrow> Some (b1\<lparr>callbacks := [\<lparr>cb_id = a, cb_func = g, cbarg = arg,
               cb_flags = EVBUFFER_CB_ENABLED OR EVBUFFER_CB_OBSOLETE\<rparr>]\<rparr>)))"

definition evbuffer_remove_cb_entry :: "evbuffer \<Rightarrow> nat \<Rightarrow> evbuffer" where
  "evbuffer_remove_cb_entry b i =
     emit [Ev_free_callback i] (b\<lparr>callbacks := filter (\<lambda>e. cb_id e \<noteq> i) (callbacks b)\<rparr>)"

definition evbuffer_remove_cb :: "evbuffer \<Rightarrow> nat \<Rightarrow> nat \<Rightarrow> evbuffer \<times> int" where
  "evbuffer_remove_cb b f arg =
     (case find (\<lambda>e. cb_func e = f \<and> cbarg e = arg) (callbacks b) of
        None \<Rightarrow> (b, - 1)
      | Some e \<Rightarrow> (evbuffer_remove_cb_entry b (cb_id e), 0))"

definition evbuffer_cb_set_flags :: "cb_entry \<Rightarrow> u32 \<Rightarrow> cb_entry" where
  "evbuffer_cb_set_flags e f =
     e\<lparr>cb_flags := cb_flags e OR (f AND NOT EVBUFFER_CB_INTERNAL_FLAGS)\<rparr>"

definition evbuffer_cb_clear_flags :: "cb_entry \<Rightarrow> u32 \<Rightarrow> cb_entry" where
  "evbuffer_cb_clear_flags e f =
     e\<lparr>cb_flags := cb_flags e AND NOT (f AND NOT EVBUFFER_CB_INTERNAL_FLAGS)\<rparr>"

section \<open>Inserting and dropping chains\<close>

definition ZERO_CHAIN :: "evbuffer \<Rightarrow> evbuffer" where
  "ZERO_CHAIN b = b\<lparr>chains := [], last_with_datap := 0, total_len := 0\<rparr>"

text \<open>From \<open>i\<close> on, the first index without data and without a pin.\<close>

fun first_victim :: "chain list \<Rightarrow> nat" where
  "first_victim [] = 0"
| "first_victim (c # cs) = (if off c \<noteq> 0 \<or> CHAIN_PINNED c then Suc (first_victim cs) else 0)"

definition evbuffer_free_trailing_empty_chains :: "evbuffer \<Rightarrow> (evbuffer \<times> nat) option" where
  "evbuffer_free_trailing_empty_chains b =
     (let i = last_with_datap b + first_victim (drop (last_with_datap b) (chains b)) in
      if i < length (chains b) then
        (if evbuffer_chains_all_empty (drop i (chains b))
         then Some (emit (evbuffer_free_all_chains (drop i (chains b)))
                      (b\<lparr>chains := take i (chains b)\<rparr>), i)
         else None)
      else Some (b, i))"

definition evbuffer_chain_insert :: "evbuffer \<Rightarrow> chain \<Rightarrow> evbuffer option" where
  "evbuffer_chain_insert b c =
     (if slot (chains b) (last_with_datap b) = None then
        (if last_with_datap b = 0 \<and> chains b = []
         then Some (b\<lparr>chains := [c], total_len := SZ (total_len b + off c)\<rparr>) else None)
      else
        (let i = last_with_datap b + first_victim (drop (last_with_datap b) (chains b)) in
         if length (chains b) \<le> i then
           Some (b\<lparr>chains := chains b @ [c],
                   last_with_datap := (if off c \<noteq> 0 then length (chains b) else last_with_datap b),
                   total_len := SZ (total_len b + off c)\<rparr>)
         else if evbuffer_chains_all_empty (drop i (chains b)) then
           Some (emit (evbuffer_free_all_chains (drop i (chains b)))
                  (b\<lparr>chains := take i (chains b) @ [c], total_len := SZ (total_len b + off c)\<rparr>))
         else None))"

definition evbuffer_chain_insert_new :: "malloc \<Rightarrow> evbuffer \<Rightarrow> nat \<Rightarrow> (evbuffer \<times> bool) option" where
  "evbuffer_chain_insert_new m b n =
     (case evbuffer_chain_new m n of
        None \<Rightarrow> Some (b, False)
      | Some c \<Rightarrow> map_option (\<lambda>b'. (b', True)) (evbuffer_chain_insert b c))"

text \<open>The new index, after following \<open>next\<close> pointers to chains with data.\<close>

fun advance_from :: "chain list \<Rightarrow> nat" where
  "advance_from (c # d # cs) = (if off d \<noteq> 0 then Suc (advance_from (d # cs)) else 0)"
| "advance_from cs = 0"

definition advance_last_with_data :: "evbuffer \<Rightarrow> evbuffer \<times> nat" where
  "advance_last_with_data b =
     (let n = advance_from (drop (last_with_datap b) (chains b)) in
      (b\<lparr>last_with_datap := last_with_datap b + n\<rparr>, n))"

definition HAS_PINNED_R :: "evbuffer \<Rightarrow> bool" where
  "HAS_PINNED_R b \<longleftrightarrow> (case the_last b of None \<Rightarrow> False | Some c \<Rightarrow> CHAIN_PINNED_R c)"

end
