(* ===== verification/EvbufferOps.thy ===== *)
theory EvbufferOps
  imports Evbuffer
begin

text \<open>
  \<open>buffer.c\<close>, the operations that move bytes: appending, prepending, draining, copying out,
  moving whole buffers and parts of one, making bytes contiguous, and reserving and committing
  space. Each returns the buffer and the C result, or \<open>None\<close> for a failed assertion or a memory
  fault. \<open>m\<close> is the allocator at the one allocation an operation makes.
\<close>

definition c_int :: "int \<Rightarrow> int" where "c_int x = signed_take_bit 31 x"

definition set_last :: "evbuffer \<Rightarrow> chain \<Rightarrow> evbuffer" where
  "set_last b c = b\<lparr>chains := butlast (chains b) @ [c]\<rparr>"

section \<open>Adding at the end\<close>

definition evbuffer_chain_align :: "chain \<Rightarrow> chain option" where
  "evbuffer_chain_align c =
     (if has_flag c EVBUFFER_IMMUTABLE \<or> CHAIN_PINNED c then None
      else do {
        bs \<leftarrow> mem_read (ch_mem c) (misalign c) (off c);
        mem' \<leftarrow> mem_write (ch_mem c) 0 bs;
        Some (c\<lparr>ch_mem := mem', misalign := 0\<rparr>)
      })"

definition MAX_TO_REALIGN_IN_EXPAND :: nat where "MAX_TO_REALIGN_IN_EXPAND = 2048"
definition MAX_TO_COPY_IN_EXPAND :: nat where "MAX_TO_COPY_IN_EXPAND = 4096"
definition EVBUFFER_CHAIN_MAX_AUTO_SIZE :: nat where "EVBUFFER_CHAIN_MAX_AUTO_SIZE = 4096"

definition evbuffer_chain_should_realign :: "chain \<Rightarrow> nat \<Rightarrow> bool" where
  "evbuffer_chain_should_realign c datlen \<longleftrightarrow>
     buffer_len c - off c \<ge> datlen \<and> off c < buffer_len c div 2 \<and>
     off c \<le> MAX_TO_REALIGN_IN_EXPAND"

text \<open>Writing bytes behind the data of a chain.\<close>

definition chain_append :: "chain \<Rightarrow> bytes \<Rightarrow> chain option" where
  "chain_append c d =
     map_option (\<lambda>mem'. c\<lparr>ch_mem := mem', off := off c + length d\<rparr>)
       (mem_write (ch_mem c) (misalign c + off c) d)"

definition added :: "nat \<Rightarrow> evbuffer \<Rightarrow> evbuffer" where
  "added n b = b\<lparr>n_add_for_cb := SZ (n_add_for_cb b + n)\<rparr>"

definition deleted_n :: "nat \<Rightarrow> evbuffer \<Rightarrow> evbuffer" where
  "deleted_n n b = b\<lparr>n_del_for_cb := SZ (n_del_for_cb b + n)\<rparr>"

definition grown :: "nat \<Rightarrow> evbuffer \<Rightarrow> evbuffer" where
  "grown n b = added n (b\<lparr>total_len := SZ (total_len b + n)\<rparr>)"

text \<open>\<open>evbuffer_add\<close> once there is a last chain \<open>c\<close>.\<close>

definition add_to_last :: "malloc \<Rightarrow> evbuffer \<Rightarrow> chain \<Rightarrow> bytes \<Rightarrow> (evbuffer \<times> int) option" where
  "add_to_last m b c d =
     (let datlen = length d; mutable = \<not> has_flag c EVBUFFER_IMMUTABLE;
          remain = (if mutable then buffer_len c - misalign c - off c else 0) in
      if mutable \<and> \<not> misalign c \<le> EVBUFFER_CHAIN_MAX then None
      else if mutable \<and> remain \<ge> datlen then do {
        c' \<leftarrow> chain_append c d;
        Some (evbuffer_invoke_callbacks (grown datlen (set_last b c')), 0)
      }
      else if mutable \<and> \<not> CHAIN_PINNED c \<and> evbuffer_chain_should_realign c datlen then do {
        c1 \<leftarrow> evbuffer_chain_align c;
        c' \<leftarrow> chain_append c1 d;
        Some (evbuffer_invoke_callbacks (grown datlen (set_last b c')), 0)
      }
      else
        (let to_alloc0 = (if buffer_len c \<le> EVBUFFER_CHAIN_MAX_AUTO_SIZE div 2
                          then 2 * buffer_len c else buffer_len c);
             to_alloc = (if datlen > to_alloc0 then datlen else to_alloc0) in
         case evbuffer_chain_new m to_alloc of
           None \<Rightarrow> Some (b, - 1)
         | Some tmp \<Rightarrow> do {
             b1 \<leftarrow> (if remain \<noteq> 0 then do {
                       c' \<leftarrow> chain_append c (take remain d);
                       Some (grown remain (set_last b c'))
                     } else Some b);
             tmp' \<leftarrow> chain_append tmp (drop remain d);
             b2 \<leftarrow> evbuffer_chain_insert b1 tmp';
             Some (evbuffer_invoke_callbacks (added (datlen - remain) b2), 0)
           }))"

definition evbuffer_add :: "malloc \<Rightarrow> evbuffer \<Rightarrow> bytes \<Rightarrow> (evbuffer \<times> int) option" where
  "evbuffer_add m b d =
     (if freeze_end b then Some (b, - 1)
      else if length d > SIZE_MAX - total_len b then Some (b, - 1)
      else (case the_last b of
              Some c \<Rightarrow> add_to_last m b c d
            | None \<Rightarrow>
                (case evbuffer_chain_new m (length d) of
                   None \<Rightarrow> Some (b, - 1)
                 | Some c \<Rightarrow> do {
                     b1 \<leftarrow> evbuffer_chain_insert b c;
                     add_to_last m b1 c d
                   })))"

section \<open>Adding at the front\<close>

definition set_first :: "evbuffer \<Rightarrow> chain \<Rightarrow> evbuffer" where
  "set_first b c = b\<lparr>chains := c # tl (chains b)\<rparr>"

text \<open>
  \<open>evbuffer_prepend\<close> once there is a first chain \<open>c\<close>. After a partial fit \<open>datlen\<close> is the
  number of bytes still to add, the front part of \<open>d\<close>.
\<close>

definition prepend_new :: "malloc \<Rightarrow> evbuffer \<Rightarrow> chain \<Rightarrow> bytes \<Rightarrow> (evbuffer \<times> int) option" where
  "prepend_new m b c d =
     (case evbuffer_chain_new m (length d) of
        None \<Rightarrow> Some (b, - 1)
      | Some tmp \<Rightarrow>
          if \<not> length d \<le> buffer_len tmp then None
          else do {
            mem' \<leftarrow> mem_write (ch_mem tmp) (buffer_len tmp - length d) d;
            let tmp' = tmp\<lparr>off := length d, misalign := buffer_len tmp - length d, ch_mem := mem'\<rparr>;
            let b1 = b\<lparr>chains := tmp' # chains b, last_with_datap := Suc (last_with_datap b),
                       total_len := SZ (total_len b + length d)\<rparr>;
            Some (evbuffer_invoke_callbacks (added (misalign c) b1), 0)
          })"

definition prepend_to_first :: "malloc \<Rightarrow> evbuffer \<Rightarrow> chain \<Rightarrow> bytes \<Rightarrow> (evbuffer \<times> int) option" where
  "prepend_to_first m b c0 d =
     (if has_flag c0 EVBUFFER_IMMUTABLE then prepend_new m b c0 d
      else if \<not> misalign c0 \<le> EVBUFFER_CHAIN_MAX then None
      else
        (let c = (if off c0 = 0 then c0\<lparr>misalign := buffer_len c0\<rparr> else c0);
             n = misalign c; datlen = length d in
         if n \<ge> datlen then do {
           mem' \<leftarrow> mem_write (ch_mem c) (n - datlen) d;
           let c' = c\<lparr>ch_mem := mem', off := off c + datlen, misalign := n - datlen\<rparr>;
           Some (evbuffer_invoke_callbacks (grown datlen (set_first b c')), 0)
         }
         else if n \<noteq> 0 then do {
           mem' \<leftarrow> mem_write (ch_mem c) 0 (drop (datlen - n) d);
           let c' = c\<lparr>ch_mem := mem', off := off c + n, misalign := 0\<rparr>;
           prepend_new m (grown n (set_first b c')) c' (take (datlen - n) d)
         }
         else prepend_new m (set_first b c) c d))"

definition evbuffer_prepend :: "malloc \<Rightarrow> evbuffer \<Rightarrow> bytes \<Rightarrow> (evbuffer \<times> int) option" where
  "evbuffer_prepend m b d =
     (if freeze_start b then Some (b, - 1)
      else if length d > SIZE_MAX - total_len b then Some (b, - 1)
      else (case chains b of
              c # _ \<Rightarrow> prepend_to_first m b c d
            | [] \<Rightarrow>
                (case evbuffer_chain_new m (length d) of
                   None \<Rightarrow> Some (b, - 1)
                 | Some c \<Rightarrow> do {
                     b1 \<leftarrow> evbuffer_chain_insert b c;
                     prepend_to_first m b1 c d
                   })))"

section \<open>Draining and copying out\<close>

text \<open>
  The loop of \<open>evbuffer_drain\<close> over the chains from the current one on, with the bytes left to
  drain and the index of \<open>last_with_datap\<close> relative to the current chain.
\<close>

fun drain_loop ::
  "chain list \<Rightarrow> nat \<Rightarrow> nat \<Rightarrow> (chain list \<times> nat \<times> nat \<times> ev_event list) option" where
  "drain_loop [] n k = None"
| "drain_loop (c # cs) n k =
     (if n \<ge> off c then
        (if CHAIN_PINNED_R c then
           (if n - off c = 0
            then Some (c\<lparr>misalign := misalign c + off c, off := 0\<rparr> # cs, 0,
                       if k \<le> 1 then 0 else k, [])
            else None)
         else map_option (\<lambda>(cs', n', k', es). (cs', n', k', evbuffer_chain_free c @ es))
                (drain_loop cs (n - off c) (k - 1)))
      else Some (c # cs, n, k, []))"

definition drain_head :: "chain list \<Rightarrow> nat \<Rightarrow> chain list option" where
  "drain_head cs n =
     (case cs of
        [] \<Rightarrow> Some []
      | c # cs' \<Rightarrow>
          if n \<le> off c then Some (c\<lparr>misalign := misalign c + n, off := off c - n\<rparr> # cs') else None)"

definition evbuffer_drain :: "evbuffer \<Rightarrow> nat \<Rightarrow> (evbuffer \<times> int) option" where
  "evbuffer_drain b len =
     (let old_len = total_len b in
      if old_len = 0 then Some (b, 0)
      else if freeze_start b then Some (b, - 1)
      else if len \<ge> old_len \<and> \<not> HAS_PINNED_R b then
        Some (evbuffer_invoke_callbacks (deleted_n old_len
                (ZERO_CHAIN (emit (evbuffer_free_all_chains (chains b)) b))), 0)
      else
        (let n = (if len \<ge> old_len then old_len else len) in do {
           (cs, n', k, es) \<leftarrow> drain_loop (chains b) n (last_with_datap b);
           cs' \<leftarrow> drain_head cs n';
           Some (evbuffer_invoke_callbacks (deleted_n n
                   (emit es (b\<lparr>chains := cs', last_with_datap := k, total_len := old_len - n\<rparr>))), 0)
         }))"

fun copyout_loop :: "chain list \<Rightarrow> nat \<Rightarrow> bytes option" where
  "copyout_loop [] n = (if n = 0 then Some [] else None)"
| "copyout_loop (c # cs) n =
     (if n = 0 then Some []
      else if n \<ge> off c then do {
        a \<leftarrow> mem_read (ch_mem c) (misalign c) (off c);
        r \<leftarrow> copyout_loop cs (n - off c);
        Some (a @ r)
      }
      else mem_read (ch_mem c) (misalign c) n)"

text \<open>\<open>evbuffer_copyout\<close>: the bytes written to \<open>data_out\<close> and the result.\<close>

definition evbuffer_copyout :: "evbuffer \<Rightarrow> nat \<Rightarrow> (bytes \<times> int) option" where
  "evbuffer_copyout b datlen =
     (let n = (if datlen \<ge> total_len b then total_len b else datlen) in
      if n = 0 then Some ([], 0)
      else if freeze_start b then Some ([], - 1)
      else map_option (\<lambda>d. (d, int n)) (copyout_loop (chains b) n))"

definition evbuffer_remove :: "evbuffer \<Rightarrow> nat \<Rightarrow> (evbuffer \<times> bytes \<times> int) option" where
  "evbuffer_remove b datlen = do {
     (d, n) \<leftarrow> evbuffer_copyout b datlen;
     if n > 0 then do {
       (b', r) \<leftarrow> evbuffer_drain b (nat n);
       Some (b', d, c_int (if r < 0 then - 1 else n))
     }
     else Some (b, d, c_int n)
   }"

section \<open>Moving between buffers\<close>

text \<open>
  \<open>PRESERVE_PINNED\<close>: the buffer without its pinned chains, and these; \<open>Inl\<close> is the failed
  allocation. \<open>pinned\<close> is the index of the first pinned chain.
\<close>

definition PRESERVE_PINNED :: "malloc \<Rightarrow> evbuffer \<Rightarrow> (unit + evbuffer \<times> chain list) option" where
  "PRESERVE_PINNED m src =
     (if \<not> HAS_PINNED_R src then Some (Inr (src, []))
      else do {
        l \<leftarrow> slot (chains src) (last_with_datap src);
        let i = (if CHAIN_PINNED_R l then last_with_datap src else Suc (last_with_datap src));
        c \<leftarrow> slot (chains src) i;
        if \<not> CHAIN_PINNED_R c then None
        else if off c \<noteq> 0 then
          (if i \<noteq> last_with_datap src then None
           else (case evbuffer_chain_new m (off c) of
                   None \<Rightarrow> Some (Inl ())
                 | Some tmp \<Rightarrow> do {
                     d \<leftarrow> mem_read (ch_mem c) (misalign c) (off c);
                     tmp' \<leftarrow> chain_append tmp d;
                     Some (Inr (src\<lparr>chains := take i (chains src) @ [tmp']\<rparr>,
                                c\<lparr>misalign := misalign c + off c, off := 0\<rparr>
                                  # drop (Suc i) (chains src)))
                   }))
        else Some (Inr (src\<lparr>chains := take i (chains src)\<rparr>, drop i (chains src)))
      })"

definition RESTORE_PINNED :: "evbuffer \<Rightarrow> chain list \<Rightarrow> evbuffer" where
  "RESTORE_PINNED src pinned = src\<lparr>chains := pinned, last_with_datap := 0, total_len := 0\<rparr>"

definition COPY_CHAIN :: "evbuffer \<Rightarrow> evbuffer \<Rightarrow> evbuffer" where
  "COPY_CHAIN dst src =
     dst\<lparr>chains := chains src, last_with_datap := last_with_datap src, total_len := total_len src\<rparr>"

definition APPEND_CHAIN :: "evbuffer \<Rightarrow> evbuffer \<Rightarrow> evbuffer option" where
  "APPEND_CHAIN dst src =
     (if chains dst = [] then None
      else Some (dst\<lparr>chains := chains dst @ chains src,
                     last_with_datap := length (chains dst) + last_with_datap src,
                     total_len := SZ (total_len dst + total_len src)\<rparr>))"

text \<open>
  \<open>PREPEND_CHAIN\<close>: pointers into the destination's chains keep their chain, so their index
  moves by the number of chains in front.
\<close>

definition PREPEND_CHAIN :: "evbuffer \<Rightarrow> evbuffer \<Rightarrow> evbuffer option" where
  "PREPEND_CHAIN dst src =
     (if chains src = [] then None
      else
        (let b = dst\<lparr>chains := chains src @ chains dst,
                     total_len := SZ (total_len dst + total_len src)\<rparr> in
         Some (if slot (chains src @ chains dst)
                    (if last_with_datap dst = 0 then 0
                     else length (chains src) + last_with_datap dst) = None
               then b\<lparr>last_with_datap := last_with_datap src\<rparr>
               else b\<lparr>last_with_datap := length (chains src) + last_with_datap dst\<rparr>)))"

text \<open>\<open>same\<close> is the comparison of the two pointers.\<close>

definition evbuffer_add_buffer ::
  "malloc \<Rightarrow> bool \<Rightarrow> evbuffer \<Rightarrow> evbuffer \<Rightarrow> (evbuffer \<times> evbuffer \<times> int) option" where
  "evbuffer_add_buffer m same outbuf inbuf =
     (let in_total_len = total_len inbuf; out_total_len = total_len outbuf in
      if in_total_len = 0 \<or> same then Some (outbuf, inbuf, 0)
      else if freeze_end outbuf \<or> freeze_start inbuf then Some (outbuf, inbuf, - 1)
      else do {
        r \<leftarrow> PRESERVE_PINNED m inbuf;
        case r of
          Inl _ \<Rightarrow> Some (outbuf, inbuf, - 1)
        | Inr (in1, pinned) \<Rightarrow> do {
            out1 \<leftarrow> (if out_total_len = 0
                      then Some (COPY_CHAIN (emit (evbuffer_free_all_chains (chains outbuf)) outbuf) in1)
                      else APPEND_CHAIN outbuf in1);
            let in2 = RESTORE_PINNED in1 pinned;
            Some (evbuffer_invoke_callbacks (added in_total_len out1),
                  evbuffer_invoke_callbacks (deleted_n in_total_len in2), 0)
          }
      })"

definition evbuffer_prepend_buffer ::
  "malloc \<Rightarrow> bool \<Rightarrow> evbuffer \<Rightarrow> evbuffer \<Rightarrow> (evbuffer \<times> evbuffer \<times> int) option" where
  "evbuffer_prepend_buffer m same outbuf inbuf =
     (let in_total_len = total_len inbuf; out_total_len = total_len outbuf in
      if in_total_len = 0 \<or> same then Some (outbuf, inbuf, 0)
      else if freeze_start outbuf \<or> freeze_start inbuf then Some (outbuf, inbuf, - 1)
      else do {
        r \<leftarrow> PRESERVE_PINNED m inbuf;
        case r of
          Inl _ \<Rightarrow> Some (outbuf, inbuf, - 1)
        | Inr (in1, pinned) \<Rightarrow> do {
            out1 \<leftarrow> (if out_total_len = 0
                      then Some (COPY_CHAIN (emit (evbuffer_free_all_chains (chains outbuf)) outbuf) in1)
                      else PREPEND_CHAIN outbuf in1);
            let in2 = RESTORE_PINNED in1 pinned;
            Some (evbuffer_invoke_callbacks (added in_total_len out1),
                  evbuffer_invoke_callbacks (deleted_n in_total_len in2), 0)
          }
      })"

text \<open>
  The loop of \<open>evbuffer_remove_buffer\<close> that takes whole chains: the chains taken, the rest, the
  bytes left to take. \<open>k\<close> is the index of \<open>last_with_datap\<close> relative to the current chain, and
  \<open>None\<close> once it was set to \<open>&src->first\<close>.
\<close>

fun take_chains ::
  "chain list \<Rightarrow> nat \<Rightarrow> nat option \<Rightarrow> (chain list \<times> chain list \<times> nat \<times> nat option) option" where
  "take_chains [] n k = None"
| "take_chains (c # cs) n k =
     (if off c \<le> n then
        (if k = Some 0 then None
         else map_option (\<lambda>(t, r, n', k'). (c # t, r, n', k'))
                (take_chains cs (n - off c)
                   (case k of None \<Rightarrow> None | Some j \<Rightarrow> if j = 1 then None else Some (j - 1))))
      else Some ([], c # cs, n, k))"

text \<open>Linking the chains taken into the destination, when they held bytes.\<close>

definition move_chains ::
  "evbuffer \<Rightarrow> evbuffer \<Rightarrow> chain list \<Rightarrow> chain list \<Rightarrow> nat \<Rightarrow> nat option \<Rightarrow> (evbuffer \<times> evbuffer) option"
  where
  "move_chains src dst t rest nread k =
     (if nread \<noteq> 0 then do {
        (d1, i) \<leftarrow> evbuffer_free_trailing_empty_chains dst;
        let d2 = fst (advance_last_with_data (d1\<lparr>chains := chains d1 @ t\<rparr>));
        Some (src\<lparr>chains := rest, last_with_datap := (case k of None \<Rightarrow> 0 | Some j \<Rightarrow> j)\<rparr>,
              added nread (d2\<lparr>total_len := SZ (total_len d2 + nread)\<rparr>))
      }
      else Some (src\<lparr>last_with_datap := (case k of None \<Rightarrow> 0 | Some j \<Rightarrow> length t + j)\<rparr>, dst))"

definition evbuffer_remove_buffer ::
  "malloc \<Rightarrow> malloc \<Rightarrow> bool \<Rightarrow> evbuffer \<Rightarrow> evbuffer \<Rightarrow> nat \<Rightarrow> (evbuffer \<times> evbuffer \<times> int) option"
  where
  "evbuffer_remove_buffer m m2 same src dst datlen =
     (if datlen = 0 \<or> same then Some (src, dst, 0)
      else if freeze_end dst \<or> freeze_start src then Some (src, dst, - 1)
      else if datlen \<ge> total_len src then
        map_option (\<lambda>(dst', src', r). (src', dst', c_int (int (total_len src))))
          (evbuffer_add_buffer m2 same dst src)
      else do {
        (t, rest, n, k) \<leftarrow> take_chains (chains src) datlen (Some (last_with_datap src));
        let nread = datlen - n;
        (src1, dst1) \<leftarrow> move_chains src dst t rest nread k;
        c \<leftarrow> (case rest of [] \<Rightarrow> None | c # _ \<Rightarrow> Some c);
        d \<leftarrow> mem_read (ch_mem c) (misalign c) n;
        (dst2, _) \<leftarrow> evbuffer_add m dst1 d;
        let c' = c\<lparr>misalign := misalign c + n, off := off c - n\<rparr>;
        let cs' = (if nread \<noteq> 0 then c' # tl rest else t @ c' # tl rest);
        let src2 = deleted_n datlen (src1\<lparr>chains := cs', total_len := total_len src - datlen\<rparr>);
        Some (evbuffer_invoke_callbacks src2, evbuffer_invoke_callbacks dst2, c_int (int datlen))
      })"

end
