(* ===== verification/EvbufferSpace.thy ===== *)
theory EvbufferSpace
  imports EvbufferOps
begin

text \<open>
  \<open>buffer.c\<close>, continued: making the first bytes contiguous, room at the end of a buffer and the
  two-phase write into it, reads from and writes to a descriptor, and chains whose memory
  belongs to somebody else. The system calls are parameters: \<open>readv\<close> is the result with the
  bytes it stored, \<open>writev\<close> and \<open>sendfile\<close> are the results.
\<close>

section \<open>Making the first bytes contiguous\<close>

text \<open>Whether none of the chains a pull-up would copy from is pinned.\<close>

fun pullup_unpinned :: "chain list \<Rightarrow> nat \<Rightarrow> bool" where
  "pullup_unpinned [] n = True"
| "pullup_unpinned (c # cs) n =
     (if CHAIN_PINNED c then False
      else if off c \<ge> n then True
      else pullup_unpinned cs (n - off c))"

text \<open>
  The copying loop and the copy after it: the bytes copied, the chains left, how many were
  freed, and the events.
\<close>

fun pullup_loop :: "chain list \<Rightarrow> nat \<Rightarrow> (bytes \<times> chain list \<times> nat \<times> ev_event list) option" where
  "pullup_loop [] n = Some ([], [], 0, [])"
| "pullup_loop (c # cs) n =
     (if n \<ge> off c then do {
        a \<leftarrow> mem_read (ch_mem c) (misalign c) (off c);
        (bs, rest, j, es) \<leftarrow> pullup_loop cs (n - off c);
        Some (a @ bs, rest, Suc j, evbuffer_chain_free c @ es)
      }
      else do {
        a \<leftarrow> mem_read (ch_mem c) (misalign c) n;
        Some (a, c\<lparr>misalign := misalign c + n, off := off c - n\<rparr> # cs, 0, [])
      })"

text \<open>
  The new \<open>last_with_datap\<close> when \<open>j\<close> chains were removed: \<open>fresh\<close> says that a new chain took
  the front (then the first chains are gone), otherwise the chains behind the first are gone.
\<close>

definition pullup_lwd :: "bool \<Rightarrow> nat \<Rightarrow> nat \<Rightarrow> chain list \<Rightarrow> nat" where
  "pullup_lwd fresh j l rest =
     (let gone = (\<lambda>i. if fresh then i < j else 1 \<le> i \<and> i \<le> j) in
      if gone l \<and> \<not> (fresh \<and> l = 0) then 0
      else if 1 \<le> l \<and> gone (l - 1) then
        (case rest of [] \<Rightarrow> 0 | c # _ \<Rightarrow> if off c \<noteq> 0 then 1 else 0)
      else if l = 0 then 0
      else if fresh then l - j + 1 else l - j)"

definition evbuffer_pullup ::
  "malloc \<Rightarrow> evbuffer \<Rightarrow> int \<Rightarrow> (evbuffer \<times> nat option) option" where
  "evbuffer_pullup m b size0 =
     (let size = (if size0 < 0 then total_len b else nat size0) in
      if size = 0 \<or> size > total_len b then Some (b, None)
      else
        (case chains b of
           [] \<Rightarrow> None
         | c # cs \<Rightarrow>
             if off c \<ge> size then Some (b, Some (buffer c + misalign c))
             else if \<not> pullup_unpinned cs (size - off c) then Some (b, None)
             else if CHAIN_PINNED c \<and> CHAIN_SPACE_LEN c < size - off c then Some (b, None)
             else if CHAIN_PINNED c \<or> buffer_len c - misalign c \<ge> size then do {
               (bs, rest, j, es) \<leftarrow> pullup_loop cs (size - off c);
               mem' \<leftarrow> mem_write (ch_mem c) (misalign c + off c) bs;
               let tmp = c\<lparr>ch_mem := mem', off := size\<rparr>;
               Some (emit es (b\<lparr>chains := tmp # rest,
                                last_with_datap := pullup_lwd False j (last_with_datap b) rest\<rparr>),
                     Some (buffer tmp + misalign tmp))
             }
             else
               (case evbuffer_chain_new m size of
                  None \<Rightarrow> Some (b, None)
                | Some tmp0 \<Rightarrow> do {
                    (bs, rest, j, es) \<leftarrow> pullup_loop (c # cs) size;
                    mem' \<leftarrow> mem_write (ch_mem tmp0) 0 bs;
                    let tmp = tmp0\<lparr>ch_mem := mem', off := size\<rparr>;
                    Some (emit es (b\<lparr>chains := tmp # rest,
                                     last_with_datap := pullup_lwd True j (last_with_datap b) rest\<rparr>),
                          Some (buffer tmp + misalign tmp))
                  })))"

section \<open>Room at the end\<close>

text \<open>The index of the chain with room for \<open>datlen\<close> bytes, or \<open>None\<close> if there is no memory.\<close>

definition expand_done :: "nat \<Rightarrow> evbuffer \<Rightarrow> nat \<Rightarrow> (evbuffer \<times> nat option) option" where
  "expand_done datlen b i =
     (if i < length (chains b) \<and> CHAIN_SPACE_LEN (chains b ! i) \<ge> datlen
      then Some (b, Some i) else None)"

definition expand_insert_new ::
  "malloc \<Rightarrow> evbuffer \<Rightarrow> nat \<Rightarrow> (evbuffer \<times> nat option) option" where
  "expand_insert_new m b datlen = do {
     (b', ok) \<leftarrow> evbuffer_chain_insert_new m b datlen;
     if ok then expand_done datlen b' (length (chains b') - 1) else Some (b', None)
   }"

definition evbuffer_expand_singlechain ::
  "malloc \<Rightarrow> evbuffer \<Rightarrow> nat \<Rightarrow> (evbuffer \<times> nat option) option" where
  "evbuffer_expand_singlechain m b datlen =
     (let l = last_with_datap b;
          i = (case slot (chains b) l of
                 None \<Rightarrow> l | Some c \<Rightarrow> if CHAIN_SPACE_LEN c = 0 then Suc l else l) in
      case slot (chains b) i of
        None \<Rightarrow> expand_insert_new m b datlen
      | Some c \<Rightarrow>
          if has_flag c (EVBUFFER_IMMUTABLE OR EVBUFFER_MEM_PINNED_ANY)
            then expand_insert_new m b datlen
          else if CHAIN_SPACE_LEN c \<ge> datlen then expand_done datlen b i
          else if off c = 0 then expand_insert_new m b datlen
          else if evbuffer_chain_should_realign c datlen then do {
            c' \<leftarrow> evbuffer_chain_align c;
            expand_done datlen (b\<lparr>chains := (chains b)[i := c']\<rparr>) i
          }
          else if CHAIN_SPACE_LEN c < buffer_len c div 8 \<or> off c > MAX_TO_COPY_IN_EXPAND \<or>
                  (datlen < EVBUFFER_CHAIN_MAX \<and> EVBUFFER_CHAIN_MAX - datlen \<ge> off c) then
            (case slot (chains b) (Suc i) of
               Some d \<Rightarrow> if CHAIN_SPACE_LEN d \<ge> datlen then expand_done datlen b (Suc i)
                         else expand_insert_new m b datlen
             | None \<Rightarrow> expand_insert_new m b datlen)
          else
            (case evbuffer_chain_new m (off c + datlen) of
               None \<Rightarrow> Some (b, None)
             | Some tmp \<Rightarrow> do {
                 d \<leftarrow> mem_read (ch_mem c) (misalign c) (off c);
                 tmp' \<leftarrow> chain_append tmp d;
                 expand_done datlen
                   (emit (evbuffer_chain_free c) (b\<lparr>chains := (chains b)[i := tmp']\<rparr>)) i
               }))"

definition evbuffer_expand :: "malloc \<Rightarrow> evbuffer \<Rightarrow> nat \<Rightarrow> (evbuffer \<times> int) option" where
  "evbuffer_expand m b datlen =
     map_option (\<lambda>(b', r). (b', if r = None then - 1 else 0)) (evbuffer_expand_singlechain m b datlen)"

text \<open>
  The first loop of \<open>_evbuffer_expand_fast\<close>, over the chains from \<open>last_with_datap\<close> on: it sets
  the misalignment of empty chains to 0 and stops when there is enough room or \<open>n\<close> chains were
  counted. The first chain is the only one that may hold data.
\<close>

datatype scan = Enough "chain list" | Short "chain list" nat nat

fun expand_scan ::
  "bool \<Rightarrow> chain list \<Rightarrow> nat \<Rightarrow> nat \<Rightarrow> nat \<Rightarrow> nat \<Rightarrow> scan option" where
  "expand_scan is_first [] datlen n used avail = Some (Short [] used avail)"
| "expand_scan is_first (c # cs) datlen n used avail =
     (if off c \<noteq> 0 \<and> \<not> is_first then None
      else
        (let space = CHAIN_SPACE_LEN c;
             c' = (if off c \<noteq> 0 then c else c\<lparr>misalign := 0\<rparr>);
             avail' = (if off c \<noteq> 0 then avail + space else avail + buffer_len c);
             used' = (if off c \<noteq> 0 then (if space \<noteq> 0 then Suc used else used) else Suc used) in
         if avail' \<ge> datlen then Some (Enough (c' # cs))
         else if used' = n then Some (Short (c' # cs) used' avail')
         else (case expand_scan False cs datlen n used' avail' of
                 None \<Rightarrow> None
               | Some (Enough cs') \<Rightarrow> Some (Enough (c' # cs'))
               | Some (Short cs' u a) \<Rightarrow> Some (Short (c' # cs') u a))))"

definition evbuffer_expand_fast :: "malloc \<Rightarrow> evbuffer \<Rightarrow> nat \<Rightarrow> nat \<Rightarrow> (evbuffer \<times> int) option" where
  "evbuffer_expand_fast m b datlen n =
     (if n < 2 then None
      else if (case the_last b of None \<Rightarrow> True | Some c \<Rightarrow> has_flag c EVBUFFER_IMMUTABLE) then
        (case evbuffer_chain_new m datlen of
           None \<Rightarrow> Some (b, - 1)
         | Some c \<Rightarrow> map_option (\<lambda>b'. (b', 0)) (evbuffer_chain_insert b c))
      else
        (let l = last_with_datap b; front = take l (chains b) in
         case expand_scan True (drop l (chains b)) datlen n 0 0 of
           None \<Rightarrow> None
         | Some (Enough cs) \<Rightarrow> Some (b\<lparr>chains := front @ cs\<rparr>, 0)
         | Some (Short cs used avail) \<Rightarrow>
             (let b1 = b\<lparr>chains := front @ cs\<rparr> in
              if used < n then
                (case evbuffer_chain_new m (datlen - avail) of
                   None \<Rightarrow> Some (b1, - 1)
                 | Some tmp \<Rightarrow> Some (b1\<lparr>chains := chains b1 @ [tmp]\<rparr>, 0))
              else
                (case cs of
                   [] \<Rightarrow> None
                 | c # rest \<Rightarrow>
                     (let rmv_all = (off c = 0);
                          avail' = (if rmv_all then 0 else CHAIN_SPACE_LEN c);
                          dead = (if rmv_all then cs else rest) in
                      if rmv_all \<and> l \<noteq> 0 then None
                      else if \<not> evbuffer_chains_all_empty dead \<or> \<not> datlen \<ge> avail' then None
                      else
                        (let b2 = emit (evbuffer_free_all_chains dead) b1 in
                         case evbuffer_chain_new m (datlen - avail') of
                           None \<Rightarrow>
                             Some (if rmv_all then ZERO_CHAIN b2
                                   else b2\<lparr>chains := front @ [c]\<rparr>, - 1)
                         | Some tmp \<Rightarrow>
                             Some (if rmv_all then b2\<lparr>chains := [tmp], last_with_datap := 0\<rparr>
                                   else b2\<lparr>chains := front @ [c, tmp]\<rparr>, 0)))))))"

section \<open>Reserving and committing\<close>

record evbuffer_iovec =
  iov_base :: nat
  iov_len :: nat

fun setup_vecs_loop ::
  "chain list \<Rightarrow> nat \<Rightarrow> nat \<Rightarrow> nat \<Rightarrow> bool \<Rightarrow> evbuffer_iovec list option" where
  "setup_vecs_loop cs 0 so_far howmuch exact = Some []"
| "setup_vecs_loop cs (Suc n) so_far howmuch exact =
     (if \<not> so_far < howmuch then Some []
      else (case cs of
              [] \<Rightarrow> None
            | c # cs' \<Rightarrow>
                (let avail0 = CHAIN_SPACE_LEN c;
                     avail = (if avail0 > howmuch - so_far \<and> exact then howmuch - so_far else avail0)
                 in map_option (Cons \<lparr>iov_base = CHAIN_SPACE_PTR c, iov_len = avail\<rparr>)
                      (setup_vecs_loop cs' n (so_far + avail) howmuch exact))))"

text \<open>The vectors and the index of the first chain they point into.\<close>

definition evbuffer_read_setup_vecs ::
  "evbuffer \<Rightarrow> int \<Rightarrow> nat \<Rightarrow> bool \<Rightarrow> (int \<times> evbuffer_iovec list \<times> nat) option" where
  "evbuffer_read_setup_vecs b howmuch n_vecs exact =
     (if howmuch < 0 then Some (- 1, [], 0)
      else do {
        c \<leftarrow> slot (chains b) (last_with_datap b);
        let i = (if CHAIN_SPACE_LEN c = 0 then Suc (last_with_datap b) else last_with_datap b);
        vs \<leftarrow> setup_vecs_loop (drop i (chains b)) n_vecs 0 (nat howmuch) exact;
        Some (int (length vs), vs, i)
      })"

text \<open>A negative size converts to a huge \<open>size_t\<close>.\<close>

definition size_of_ssize :: "int \<Rightarrow> nat" where
  "size_of_ssize n = nat (n mod 2 ^ 64)"

definition evbuffer_reserve_space ::
  "malloc \<Rightarrow> evbuffer \<Rightarrow> int \<Rightarrow> nat \<Rightarrow> (evbuffer \<times> int \<times> evbuffer_iovec list) option" where
  "evbuffer_reserve_space m b want n_vecs =
     (if freeze_end b \<or> n_vecs < 1 then Some (b, - 1, [])
      else if n_vecs = 1 then do {
        (b1, r) \<leftarrow> evbuffer_expand_singlechain m b (size_of_ssize want);
        case r of
          None \<Rightarrow> Some (b1, - 1, [])
        | Some i \<Rightarrow>
            (let c = chains b1 ! i in
             if want < 0 \<or> CHAIN_SPACE_LEN c \<ge> nat want
             then Some (b1, 1, [\<lparr>iov_base = CHAIN_SPACE_PTR c, iov_len = CHAIN_SPACE_LEN c\<rparr>])
             else None)
      }
      else do {
        (b1, r) \<leftarrow> evbuffer_expand_fast m b (size_of_ssize want) n_vecs;
        if r < 0 then Some (b1, - 1, [])
        else do {
          (n, vs, _) \<leftarrow> evbuffer_read_setup_vecs b1 want n_vecs False;
          Some (b1, n, vs)
        }
      })"

text \<open>Pass 1 and pass 2 of \<open>evbuffer_commit_space\<close>; pass 2 also gives the last index with bytes.\<close>

fun commit_check :: "chain list \<Rightarrow> evbuffer_iovec list \<Rightarrow> bool" where
  "commit_check cs [] = True"
| "commit_check [] (v # vs) = False"
| "commit_check (c # cs) (v # vs) =
     (iov_base v = CHAIN_SPACE_PTR c \<and> iov_len v \<le> CHAIN_SPACE_LEN c \<and> commit_check cs vs)"

fun commit_apply :: "nat \<Rightarrow> chain list \<Rightarrow> evbuffer_iovec list \<Rightarrow> nat \<Rightarrow> chain list \<times> nat" where
  "commit_apply i (c # cs) (v # vs) l =
     (case commit_apply (Suc i) cs vs (if iov_len v \<noteq> 0 then i else l) of
        (cs', l') \<Rightarrow> (c\<lparr>off := off c + iov_len v\<rparr> # cs', l'))"
| "commit_apply i cs vs l = (cs, l)"

definition evbuffer_commit_space ::
  "evbuffer \<Rightarrow> evbuffer_iovec list \<Rightarrow> (evbuffer \<times> int) option" where
  "evbuffer_commit_space b vec =
     (if freeze_end b then Some (b, - 1)
      else if vec = [] then Some (b, 0)
      else if length vec = 1 \<and>
              (case the_last b of None \<Rightarrow> False | Some c \<Rightarrow> iov_base (hd vec) = CHAIN_SPACE_PTR c) then
        (let c = last (chains b); n = iov_len (hd vec) in
         if n > CHAIN_SPACE_LEN c then Some (b, - 1)
         else
           (let b1 = set_last b (c\<lparr>off := off c + n\<rparr>);
                b2 = (if n \<noteq> 0 then fst (advance_last_with_data b1) else b1) in
            Some (evbuffer_invoke_callbacks (grown n b2), 0)))
      else
        (case slot (chains b) (last_with_datap b) of
           None \<Rightarrow> Some (b, - 1)
         | Some c \<Rightarrow>
             (let i = (if CHAIN_SPACE_LEN c = 0 then Suc (last_with_datap b) else last_with_datap b) in
              if \<not> commit_check (drop i (chains b)) vec then Some (b, - 1)
              else
                (case commit_apply i (drop i (chains b)) vec (last_with_datap b) of
                   (cs, l) \<Rightarrow>
                     Some (evbuffer_invoke_callbacks
                             (grown (sum_list (map iov_len vec))
                               (b\<lparr>chains := take i (chains b) @ cs, last_with_datap := l\<rparr>)), 0)))))"

section \<open>Reading from a descriptor\<close>

definition EVBUFFER_MAX_READ :: int where "EVBUFFER_MAX_READ = 4096"
definition NUM_READ_IOVEC :: nat where "NUM_READ_IOVEC = 4"

text \<open>
  The bytes \<open>readv\<close> stored go into the free memory of the chains of the vectors, in order; then
  the chains are extended by what they took.
\<close>

fun store_read :: "chain list \<Rightarrow> evbuffer_iovec list \<Rightarrow> bytes \<Rightarrow> chain list option" where
  "store_read (c # cs) (v # vs) d = do {
     mem' \<leftarrow> mem_write (ch_mem c) (misalign c + off c) (take (iov_len v) d);
     cs' \<leftarrow> store_read cs vs (drop (iov_len v) d);
     Some (c\<lparr>ch_mem := mem'\<rparr> # cs')
   }"
| "store_read cs vs d = Some cs"

fun read_extend :: "nat \<Rightarrow> chain list \<Rightarrow> nat \<Rightarrow> nat \<Rightarrow> nat \<Rightarrow> chain list \<times> nat" where
  "read_extend i (c # cs) (Suc nvecs) remaining l =
     (let space = min (CHAIN_SPACE_LEN c) EVBUFFER_CHAIN_MAX in
      if space < remaining then
        (case read_extend (Suc i) cs nvecs (remaining - space) l of
           (cs', l') \<Rightarrow> (c\<lparr>off := off c + space\<rparr> # cs', l'))
      else (c\<lparr>off := off c + remaining\<rparr> # cs, i))"
| "read_extend i cs nvecs remaining l = (cs, l)"

definition evbuffer_read ::
  "malloc \<Rightarrow> int \<Rightarrow> (evbuffer_iovec list \<Rightarrow> bytes option) \<Rightarrow> evbuffer \<Rightarrow> int \<Rightarrow> (evbuffer \<times> int) option"
  where
  "evbuffer_read m readable readv b howmuch0 =
     (if freeze_end b then Some (b, - 1)
      else
        (let n = (if readable \<le> 0 \<or> readable > EVBUFFER_MAX_READ then EVBUFFER_MAX_READ else readable);
             howmuch = (if howmuch0 < 0 \<or> howmuch0 > n then n else howmuch0) in do {
         (b1, r) \<leftarrow> evbuffer_expand_fast m b (nat howmuch) NUM_READ_IOVEC;
         if r = - 1 then Some (b1, - 1)
         else do {
           (nvecs, vs, i) \<leftarrow> evbuffer_read_setup_vecs b1 howmuch NUM_READ_IOVEC True;
           case readv vs of
             None \<Rightarrow> Some (b1, - 1)
           | Some d \<Rightarrow>
               if d = [] then Some (b1, 0)
               else do {
                 cs \<leftarrow> store_read (drop i (chains b1)) vs d;
                 let (cs', l) = read_extend i cs (nat nvecs) (length d) (last_with_datap b1);
                 Some (evbuffer_invoke_callbacks
                         (grown (length d)
                           (b1\<lparr>chains := take i (chains b1) @ cs', last_with_datap := l\<rparr>)),
                       int (length d))
               }
         }
        }))"

section \<open>Writing to a descriptor\<close>

definition NUM_WRITE_IOVEC :: nat where "NUM_WRITE_IOVEC = 128"

text \<open>The vectors \<open>writev\<close> gets, as the bytes they point to.\<close>

fun write_vecs :: "nat \<Rightarrow> chain list \<Rightarrow> nat \<Rightarrow> bytes list option" where
  "write_vecs (Suc k) (c # cs) howmuch =
     (if howmuch = 0 \<or> has_flag c EVBUFFER_SENDFILE then Some []
      else if howmuch \<ge> off c then do {
        a \<leftarrow> mem_read (ch_mem c) (misalign c) (off c);
        map_option (Cons a) (write_vecs k cs (howmuch - off c))
      }
      else map_option (\<lambda>a. [a]) (mem_read (ch_mem c) (misalign c) howmuch))"
| "write_vecs k cs howmuch = Some []"

definition evbuffer_write_iovec ::
  "(bytes list \<Rightarrow> int) \<Rightarrow> evbuffer \<Rightarrow> int \<Rightarrow> int option" where
  "evbuffer_write_iovec writev b howmuch =
     (if howmuch < 0 then Some (- 1)
      else map_option (\<lambda>vs. if vs = [] then 0 else writev vs)
             (write_vecs NUM_WRITE_IOVEC (chains b) (nat howmuch)))"

text \<open>\<open>sendfile\<close> gives the number of bytes, or \<open>None\<close> with whether the error is retriable.\<close>

definition evbuffer_write_sendfile ::
  "(int \<Rightarrow> nat \<Rightarrow> nat \<Rightarrow> int) \<Rightarrow> (int \<Rightarrow> bool) \<Rightarrow> chain \<Rightarrow> int" where
  "evbuffer_write_sendfile sendfile retriable c =
     (let res = sendfile (ch_fd c) (misalign c) (off c) in
      if res = - 1 \<and> retriable (ch_fd c) then 0 else res)"

definition evbuffer_write_atmost ::
  "(bytes list \<Rightarrow> int) \<Rightarrow> (int \<Rightarrow> nat \<Rightarrow> nat \<Rightarrow> int) \<Rightarrow> (int \<Rightarrow> bool) \<Rightarrow> evbuffer \<Rightarrow> int \<Rightarrow>
     (evbuffer \<times> int) option" where
  "evbuffer_write_atmost writev sendfile retriable b howmuch0 =
     (if freeze_start b then Some (b, - 1)
      else
        (let howmuch = (if howmuch0 < 0 \<or> nat howmuch0 > total_len b then int (total_len b)
                        else howmuch0) in do {
         n \<leftarrow> (if howmuch > 0 then
                 (case chains b of
                    c # _ \<Rightarrow>
                      if has_flag c EVBUFFER_SENDFILE
                      then Some (evbuffer_write_sendfile sendfile retriable c)
                      else evbuffer_write_iovec writev b howmuch
                  | [] \<Rightarrow> evbuffer_write_iovec writev b howmuch)
               else Some (- 1));
         if n > 0 then map_option (\<lambda>(b', _). (b', n)) (evbuffer_drain b (nat n))
         else Some (b, n)
        }))"

definition evbuffer_write ::
  "(bytes list \<Rightarrow> int) \<Rightarrow> (int \<Rightarrow> nat \<Rightarrow> nat \<Rightarrow> int) \<Rightarrow> (int \<Rightarrow> bool) \<Rightarrow> evbuffer \<Rightarrow>
     (evbuffer \<times> int) option" where
  "evbuffer_write writev sendfile retriable b = evbuffer_write_atmost writev sendfile retriable b (- 1)"

section \<open>Foreign memory\<close>

text \<open>
  \<open>evbuffer_add_reference\<close>: \<open>at\<close> and \<open>d\<close> are the caller's memory. The freeze test comes after
  the allocation, and the clean-up function is not called then.
\<close>

definition evbuffer_add_reference ::
  "malloc \<Rightarrow> evbuffer \<Rightarrow> nat \<Rightarrow> bytes \<Rightarrow> nat option \<Rightarrow> (evbuffer \<times> int) option" where
  "evbuffer_add_reference m b at d cleanup =
     (case evbuffer_chain_new m 16 of
        None \<Rightarrow> Some (b, - 1)
      | Some c0 \<Rightarrow>
          (let c = c0\<lparr>ch_flags := ch_flags c0 OR (EVBUFFER_REFERENCE OR EVBUFFER_IMMUTABLE),
                      buffer := at, buffer_len := length d, off := length d, ch_mem := d,
                      cleanupfn := cleanup\<rparr> in
           if freeze_end b then Some (emit [Ev_free c] b, - 1)
           else map_option (\<lambda>b'. (evbuffer_invoke_callbacks (added (length d) b'), 0))
                  (evbuffer_chain_insert b c)))"

definition EVBUFFER_FLAG_DRAINS_TO_FD :: u32 where "EVBUFFER_FLAG_DRAINS_TO_FD = 1"

text \<open>
  \<open>evbuffer_add_file\<close> on a target with \<open>sendfile\<close> and \<open>mmap\<close>, both switched on; \<open>mapped\<close> is the
  mapping of the first \<open>length + offset\<close> bytes of the file, or \<open>None\<close> if \<open>mmap\<close> fails.
\<close>

definition evbuffer_add_file ::
  "malloc \<Rightarrow> (nat \<Rightarrow> (nat \<times> bytes) option) \<Rightarrow> evbuffer \<Rightarrow> int \<Rightarrow> int \<Rightarrow> int \<Rightarrow> (evbuffer \<times> int) option"
  where
  "evbuffer_add_file m mmap b fd offset len =
     (if offset < 0 \<or> len < 0 \<or> nat len > EVBUFFER_CHAIN_MAX \<or>
         nat offset > EVBUFFER_CHAIN_MAX - nat len then Some (b, - 1)
      else if ev_flags b AND EVBUFFER_FLAG_DRAINS_TO_FD \<noteq> 0 then
        (case evbuffer_chain_new m 4 of
           None \<Rightarrow> Some (b, - 1)
         | Some c0 \<Rightarrow>
             (let c = c0\<lparr>ch_flags := ch_flags c0 OR (EVBUFFER_SENDFILE OR EVBUFFER_IMMUTABLE),
                         buffer := 0, buffer_len := nat len + nat offset, off := nat len,
                         misalign := nat offset, ch_mem := [], ch_fd := fd\<rparr> in
              if freeze_end b then Some (emit [Ev_free c] b, - 1)
              else map_option (\<lambda>b'. (evbuffer_invoke_callbacks b', 0))
                     (evbuffer_chain_insert (added (nat len) b) c)))
      else
        (case mmap (nat len + nat offset) of
           None \<Rightarrow> Some (b, - 1)
         | Some (at, bs) \<Rightarrow>
             (case evbuffer_chain_new m 4 of
                None \<Rightarrow> Some (emit [Ev_munmap at (nat len)] b, - 1)
              | Some c0 \<Rightarrow>
                  (let c = c0\<lparr>ch_flags := ch_flags c0 OR (EVBUFFER_MMAP OR EVBUFFER_IMMUTABLE),
                              buffer := at, buffer_len := nat len + nat offset,
                              off := nat len + nat offset, ch_mem := bs, ch_fd := fd\<rparr> in
                   if freeze_end b
                   then Some (emit (evbuffer_chain_free (c\<lparr>ch_fd := - 1\<rparr>)) b, - 1)
                   else do {
                     b1 \<leftarrow> evbuffer_chain_insert (added (nat len) b) c;
                     (b2, _) \<leftarrow> evbuffer_drain b1 (nat offset);
                     Some (evbuffer_invoke_callbacks b2, 0)
                   }))))"

text \<open>
  \<open>evbuffer_add_vprintf\<close>: \<open>fmt\<close> is what \<open>evutil_vsnprintf\<close> gives for the format and its
  arguments, the text, or \<open>None\<close> for an error. It stores as much of it as fits with a final 0
  and returns the whole length. The two rounds of the loop are written out; the second one has
  the room it needs.
\<close>

definition vprintf_round :: "bytes \<Rightarrow> evbuffer \<Rightarrow> nat \<Rightarrow> (evbuffer \<times> bool) option" where
  "vprintf_round s b i =
     (let c = chains b ! i; space = CHAIN_SPACE_LEN c in do {
        mem' \<leftarrow> (if space = 0 then Some (ch_mem c)
                  else mem_write (ch_mem c) (misalign c + off c) (take (space - 1) s @ [0]));
        if length s < space then
          Some (evbuffer_invoke_callbacks
                  (fst (advance_last_with_data
                    (grown (length s)
                      (b\<lparr>chains := (chains b)[i := c\<lparr>ch_mem := mem', off := off c + length s\<rparr>]\<rparr>)))),
                True)
        else Some (b\<lparr>chains := (chains b)[i := c\<lparr>ch_mem := mem'\<rparr>]\<rparr>, False)
      })"

definition evbuffer_add_vprintf ::
  "malloc \<Rightarrow> malloc \<Rightarrow> evbuffer \<Rightarrow> bytes option \<Rightarrow> (evbuffer \<times> int) option" where
  "evbuffer_add_vprintf m m2 b fmt =
     (if freeze_end b then Some (b, - 1)
      else do {
        (b1, r) \<leftarrow> evbuffer_expand_singlechain m b 64;
        case (r, fmt) of
          (None, _) \<Rightarrow> Some (b1, - 1)
        | (Some i, None) \<Rightarrow> Some (b1, - 1)
        | (Some i, Some s) \<Rightarrow> do {
            (b2, done) \<leftarrow> vprintf_round s b1 i;
            if done then Some (b2, int (length s))
            else do {
              (b3, r3) \<leftarrow> evbuffer_expand_singlechain m2 b2 (length s + 1);
              case r3 of
                None \<Rightarrow> Some (b3, - 1)
              | Some j \<Rightarrow> do {
                  (b4, done4) \<leftarrow> vprintf_round s b3 j;
                  if done4 then Some (b4, int (length s)) else None
                }
            }
          }
      })"

end
