(* ===== verification/EvbufferSearch.thy ===== *)
theory EvbufferSearch
  imports EvbufferSpace
begin

text \<open>
  \<open>buffer.c\<close>, continued: positions in a buffer, comparing and searching its bytes over the
  borders of chains, the end of a line in the four styles, reading lines, and looking at the
  bytes in place. A position holds the index of its chain, \<open>None\<close> for a null pointer.
\<close>

record evbuffer_ptr =
  pos :: int
  in_chain :: "nat option"
  pos_in_chain :: nat

datatype ptr_how = EVBUFFER_PTR_SET | EVBUFFER_PTR_ADD

datatype evbuffer_eol_style =
  EVBUFFER_EOL_ANY | EVBUFFER_EOL_CRLF | EVBUFFER_EOL_CRLF_STRICT | EVBUFFER_EOL_LF

definition chain_data :: "chain \<Rightarrow> bytes" where
  "chain_data c = take (off c) (drop (misalign c) (ch_mem c))"

text \<open>The chains from a pointer on.\<close>

definition from_ptr :: "evbuffer \<Rightarrow> nat option \<Rightarrow> chain list" where
  "from_ptr b p = (case p of None \<Rightarrow> [] | Some i \<Rightarrow> drop i (chains b))"

definition first_ptr :: "evbuffer \<Rightarrow> evbuffer_ptr" where
  "first_ptr b = \<lparr>pos = 0, in_chain = (if chains b = [] then None else Some 0), pos_in_chain = 0\<rparr>"

section \<open>Single bytes\<close>

text \<open>\<open>memchr\<close>: the index of the first byte with a property.\<close>

fun index_of :: "(u8 \<Rightarrow> bool) \<Rightarrow> bytes \<Rightarrow> nat option" where
  "index_of P [] = None"
| "index_of P (x # xs) = (if P x then Some 0 else map_option Suc (index_of P xs))"

text \<open>
  \<open>find_eol_char\<close>: the first CR or LF, looked for with two \<open>memchr\<close> in pieces of 128 bytes.
\<close>

definition CHUNK_SZ :: nat where "CHUNK_SZ = 128"

definition eol_in_chunk :: "bytes \<Rightarrow> nat option" where
  "eol_in_chunk s =
     (case (index_of (\<lambda>x. x = 13) s, index_of (\<lambda>x. x = 10) s) of
        (Some cr, Some lf) \<Rightarrow> Some (if lf < cr then lf else cr)
      | (Some cr, None) \<Rightarrow> Some cr
      | (None, lf) \<Rightarrow> lf)"

function find_eol_char :: "bytes \<Rightarrow> nat option" where
  "find_eol_char s =
     (if s = [] then None
      else (case eol_in_chunk (take CHUNK_SZ s) of
              Some i \<Rightarrow> Some i
            | None \<Rightarrow> map_option (\<lambda>i. CHUNK_SZ + i) (find_eol_char (drop CHUNK_SZ s))))"
  by auto
termination by (relation "measure length") (auto simp: CHUNK_SZ_def)

declare find_eol_char.simps [simp del]

text \<open>
  The loop over chains of \<open>evbuffer_strchr\<close> and \<open>evbuffer_find_eol_char\<close>: \<open>f\<close> looks into one
  chain from \<open>i\<close> on. The position advances over chains without a match and stays there.
\<close>

fun chain_scan ::
  "(bytes \<Rightarrow> nat option) \<Rightarrow> nat \<Rightarrow> chain list \<Rightarrow> nat \<Rightarrow> int \<Rightarrow> (int \<times> nat \<times> nat) option" where
  "chain_scan f k [] i p = None"
| "chain_scan f k (c # cs) i p =
     (case f (drop i (chain_data c)) of
        Some j \<Rightarrow> Some (p + int j, k, i + j)
      | None \<Rightarrow> chain_scan f (Suc k) cs 0 (p + int (off c - i)))"

definition scan_ptr ::
  "(bytes \<Rightarrow> nat option) \<Rightarrow> evbuffer \<Rightarrow> evbuffer_ptr \<Rightarrow> evbuffer_ptr option" where
  "scan_ptr f b it =
     (case in_chain it of
        None \<Rightarrow> None
      | Some k \<Rightarrow>
          map_option (\<lambda>(p, k', i). \<lparr>pos = p, in_chain = Some k', pos_in_chain = i\<rparr>)
            (chain_scan f k (drop k (chains b)) (pos_in_chain it) (pos it)))"

definition evbuffer_strchr :: "evbuffer \<Rightarrow> evbuffer_ptr \<Rightarrow> u8 \<Rightarrow> evbuffer_ptr option" where
  "evbuffer_strchr b it chr = scan_ptr (index_of (\<lambda>x. x = chr)) b it"

definition evbuffer_find_eol_char :: "evbuffer \<Rightarrow> evbuffer_ptr \<Rightarrow> evbuffer_ptr option" where
  "evbuffer_find_eol_char b it = scan_ptr find_eol_char b it"

text \<open>How many bytes from the position on are in the set.\<close>

fun strspn_chains :: "bytes \<Rightarrow> chain list \<Rightarrow> nat \<Rightarrow> nat" where
  "strspn_chains chrset [] i = 0"
| "strspn_chains chrset (c # cs) i =
     (let d = drop i (chain_data c);
          n = length (takeWhile (\<lambda>x. x \<in> set chrset) d) in
      if n < length d then n else n + strspn_chains chrset cs 0)"

definition evbuffer_strspn :: "evbuffer \<Rightarrow> evbuffer_ptr \<Rightarrow> bytes \<Rightarrow> int" where
  "evbuffer_strspn b it chrset =
     (case in_chain it of
        None \<Rightarrow> - 1
      | Some k \<Rightarrow> int (strspn_chains chrset (drop k (chains b)) (pos_in_chain it)))"

definition evbuffer_getchr :: "evbuffer \<Rightarrow> evbuffer_ptr \<Rightarrow> u8 option" where
  "evbuffer_getchr b it = do {
     k \<leftarrow> in_chain it;
     c \<leftarrow> slot (chains b) k;
     if misalign c + pos_in_chain it < length (ch_mem c)
     then Some (ch_mem c ! (misalign c + pos_in_chain it)) else None
   }"

section \<open>Positions\<close>

fun ptr_walk :: "nat \<Rightarrow> chain list \<Rightarrow> nat \<Rightarrow> nat \<Rightarrow> (nat \<times> nat) option" where
  "ptr_walk k [] position left = None"
| "ptr_walk k (c # cs) position left =
     (if position + left \<ge> off c then ptr_walk (Suc k) cs 0 (left - (off c - position))
      else Some (k, position + left))"

definition evbuffer_ptr_set ::
  "evbuffer \<Rightarrow> evbuffer_ptr \<Rightarrow> nat \<Rightarrow> ptr_how \<Rightarrow> evbuffer_ptr \<times> int" where
  "evbuffer_ptr_set b p position how =
     (let place = (\<lambda>p1 k0 cs start.
            (case ptr_walk k0 cs start position of
               Some (k, i) \<Rightarrow> (p1\<lparr>in_chain := Some k, pos_in_chain := i\<rparr>, 0)
             | None \<Rightarrow> (p1\<lparr>in_chain := None, pos := - 1\<rparr>, - 1))) in
      case how of
        EVBUFFER_PTR_SET \<Rightarrow> place (p\<lparr>pos := int position\<rparr>) 0 (chains b) 0
      | EVBUFFER_PTR_ADD \<Rightarrow>
          if pos p < 0 \<or> SIZE_MAX - position < nat (pos p) then (p, - 1)
          else
            (let p1 = p\<lparr>pos := pos p + int position\<rparr> in
             case in_chain p of
               None \<Rightarrow> place p1 0 [] 0
             | Some k \<Rightarrow> place p1 k (drop k (chains b)) (pos_in_chain p)))"

section \<open>Comparing and searching\<close>

text \<open>\<open>memcmp\<close>: the sign of the first difference.\<close>

fun memcmp :: "bytes \<Rightarrow> bytes \<Rightarrow> int" where
  "memcmp (x # xs) (y # ys) = (if x < y then - 1 else if y < x then 1 else memcmp xs ys)"
| "memcmp xs ys = 0"

fun memcmp_chains :: "chain list \<Rightarrow> nat \<Rightarrow> bytes \<Rightarrow> int option" where
  "memcmp_chains [] position what = Some 0"
| "memcmp_chains (c # cs) position what =
     (if what = [] then Some 0
      else
        (let n = (if length what + position > off c then off c - position else length what) in do {
           d \<leftarrow> mem_read (ch_mem c) (misalign c + position) n;
           let r = memcmp d (take n what);
           if r \<noteq> 0 then Some r else memcmp_chains cs 0 (drop n what)
         }))"

definition evbuffer_ptr_memcmp :: "evbuffer \<Rightarrow> evbuffer_ptr \<Rightarrow> bytes \<Rightarrow> int option" where
  "evbuffer_ptr_memcmp b p what =
     (if pos p < 0 \<or> SIZE_MAX - length what < nat (pos p) \<or>
         nat (pos p) + length what > total_len b then Some (- 1)
      else memcmp_chains (from_ptr b (in_chain p)) (pos_in_chain p) what)"

definition not_found :: evbuffer_ptr where
  "not_found = \<lparr>pos = - 1, in_chain = None, pos_in_chain = 0\<rparr>"

text \<open>
  The loop of \<open>evbuffer_search_range\<close> at chain \<open>k\<close> and place \<open>i\<close> in it. Each round moves on by
  at least one byte or one chain; \<open>fuel\<close> counts the rounds, and \<open>None\<close> with enough fuel is a
  memory fault. \<open>lim\<close> is the end of the range, with its chain.
\<close>

fun search_loop ::
  "nat \<Rightarrow> evbuffer \<Rightarrow> bytes \<Rightarrow> (int \<times> nat option) option \<Rightarrow> nat \<Rightarrow> nat \<Rightarrow> int \<Rightarrow> evbuffer_ptr option"
  where
  "search_loop 0 b what lim k i p = None"
| "search_loop (Suc fuel) b what lim k i p =
     (case slot (chains b) k of
        None \<Rightarrow> Some not_found
      | Some c \<Rightarrow>
          (case index_of (\<lambda>x. x = hd what) (drop i (chain_data c)) of
             Some j \<Rightarrow>
               (let here = \<lparr>pos = p + int j, in_chain = Some k, pos_in_chain = i + j\<rparr> in
                case evbuffer_ptr_memcmp b here what of
                  None \<Rightarrow> None
                | Some r \<Rightarrow>
                    if r = 0 then
                      (case lim of
                         None \<Rightarrow> Some here
                       | Some (e, _) \<Rightarrow>
                           Some (if p + int j + int (length what) > e then not_found else here))
                    else if Suc (i + j) = off c
                      then search_loop fuel b what lim (Suc k) 0 (p + int j + 1)
                    else search_loop fuel b what lim k (Suc (i + j)) (p + int j + 1))
           | None \<Rightarrow>
               if (case lim of None \<Rightarrow> False | Some (_, l) \<Rightarrow> l = Some k) then Some not_found
               else search_loop fuel b what lim (Suc k) 0 (p + int (off c - i))))"

definition search_fuel :: "evbuffer \<Rightarrow> nat" where
  "search_fuel b = Suc (length (chains b) + sum_list (map off (chains b)))"

definition evbuffer_search_range ::
  "evbuffer \<Rightarrow> bytes \<Rightarrow> evbuffer_ptr option \<Rightarrow> evbuffer_ptr option \<Rightarrow> evbuffer_ptr option" where
  "evbuffer_search_range b what start lim =
     (let p = (case start of None \<Rightarrow> first_ptr b | Some s \<Rightarrow> s) in
      if what = [] \<or> length what > SIZE_MAX div 2 then Some p
      else (case in_chain p of
              None \<Rightarrow> Some not_found
            | Some k \<Rightarrow>
                search_loop (search_fuel b) b what
                  (map_option (\<lambda>e. (pos e, in_chain e)) lim) k (pos_in_chain p) (pos p)))"

definition evbuffer_search ::
  "evbuffer \<Rightarrow> bytes \<Rightarrow> evbuffer_ptr option \<Rightarrow> evbuffer_ptr option" where
  "evbuffer_search b what start = evbuffer_search_range b what start None"

definition evbuffer_find ::
  "malloc \<Rightarrow> evbuffer \<Rightarrow> bytes \<Rightarrow> (evbuffer \<times> nat option) option" where
  "evbuffer_find m b what = do {
     p \<leftarrow> evbuffer_search b what None;
     if pos p < 0 then Some (b, None)
     else map_option (\<lambda>(b', r). (b', map_option (\<lambda>a. a + nat (pos p)) r))
            (evbuffer_pullup m b (pos p + int (length what)))
   }"

section \<open>Lines\<close>

text \<open>
  The loop of the CRLF style: a LF, or a CR followed by a LF, ends the line; a lone CR is passed
  over. The fuel counts the CRs that are passed over.
\<close>

fun crlf_loop :: "nat \<Rightarrow> evbuffer \<Rightarrow> evbuffer_ptr \<Rightarrow> (evbuffer_ptr \<times> nat) option option" where
  "crlf_loop 0 b it = None"
| "crlf_loop (Suc fuel) b it =
     (case evbuffer_find_eol_char b it of
        None \<Rightarrow> Some None
      | Some it1 \<Rightarrow>
          (case evbuffer_getchr b it1 of
             None \<Rightarrow> None
           | Some ch \<Rightarrow>
               if ch = 10 then Some (Some (it1, 1))
               else (case evbuffer_ptr_memcmp b it1 [13, 10] of
                       None \<Rightarrow> None
                     | Some r \<Rightarrow>
                         if r = 0 then Some (Some (it1, 2))
                         else (case evbuffer_ptr_set b it1 1 EVBUFFER_PTR_ADD of
                                 (it2, e) \<Rightarrow>
                                   if e < 0 then Some None else crlf_loop fuel b it2))))"

text \<open>\<open>evbuffer_search_eol\<close>: the position and length of the end of line, if there is one.\<close>

definition evbuffer_search_eol ::
  "evbuffer \<Rightarrow> evbuffer_ptr option \<Rightarrow> evbuffer_eol_style \<Rightarrow> (evbuffer_ptr \<times> nat) option option" where
  "evbuffer_search_eol b start style =
     (let it = (case start of None \<Rightarrow> first_ptr b | Some s \<Rightarrow> s) in
      case style of
        EVBUFFER_EOL_ANY \<Rightarrow>
          Some (map_option (\<lambda>it1. (it1, nat (evbuffer_strspn b it1 [13, 10])))
                  (evbuffer_find_eol_char b it))
      | EVBUFFER_EOL_CRLF_STRICT \<Rightarrow>
          map_option (\<lambda>it1. if pos it1 < 0 then None else Some (it1, 2))
            (evbuffer_search b [13, 10] (Some it))
      | EVBUFFER_EOL_CRLF \<Rightarrow> crlf_loop (search_fuel b) b it
      | EVBUFFER_EOL_LF \<Rightarrow>
          Some (map_option (\<lambda>it1. (it1, 1)) (evbuffer_strchr b it 10)))"

text \<open>\<open>evbuffer_readln\<close>: \<open>line_mem\<close> says whether the line can be allocated.\<close>

definition evbuffer_readln ::
  "(nat \<Rightarrow> bool) \<Rightarrow> evbuffer \<Rightarrow> evbuffer_eol_style \<Rightarrow> (evbuffer \<times> bytes option \<times> nat) option" where
  "evbuffer_readln line_mem b style =
     (if freeze_start b then Some (b, None, 0)
      else do {
        r \<leftarrow> evbuffer_search_eol b None style;
        case r of
          None \<Rightarrow> Some (b, None, 0)
        | Some (it, extra_drain) \<Rightarrow>
            (let n_to_copy = nat (pos it) in
             if \<not> line_mem (n_to_copy + 1) then Some (b, None, 0)
             else do {
               (b1, line, _) \<leftarrow> evbuffer_remove b n_to_copy;
               (b2, _) \<leftarrow> evbuffer_drain b1 extra_drain;
               Some (b2, Some line, n_to_copy)
             })
      })"

definition evbuffer_readline :: "(nat \<Rightarrow> bool) \<Rightarrow> evbuffer \<Rightarrow> (evbuffer \<times> bytes option \<times> nat) option" where
  "evbuffer_readline line_mem b = evbuffer_readln line_mem b EVBUFFER_EOL_ANY"

section \<open>Looking at the bytes in place\<close>

text \<open>
  \<open>evbuffer_peek\<close>: the vectors stored and the number of vectors the bytes need. \<open>len\<close> is
  negative for everything.
\<close>

fun peek_loop ::
  "chain list \<Rightarrow> int \<Rightarrow> nat \<Rightarrow> nat \<Rightarrow> int \<Rightarrow> evbuffer_iovec list \<times> nat" where
  "peek_loop [] len idx n_vec so_far = ([], idx)"
| "peek_loop (c # cs) len idx n_vec so_far =
     (if len \<ge> 0 \<and> so_far \<ge> len then ([], idx)
      else if idx < n_vec then
        (case peek_loop cs len (Suc idx) n_vec (so_far + int (off c)) of
           (vs, n) \<Rightarrow> (\<lparr>iov_base = buffer c + misalign c, iov_len = off c\<rparr> # vs, n))
      else if len < 0 then ([], idx)
      else peek_loop cs len (Suc idx) n_vec (so_far + int (off c)))"

definition evbuffer_peek ::
  "evbuffer \<Rightarrow> int \<Rightarrow> evbuffer_ptr option \<Rightarrow> nat \<Rightarrow> (evbuffer_iovec list \<times> nat) option" where
  "evbuffer_peek b len start_at n_vec =
     (let len' = (if n_vec = 0 \<and> len < 0
                  then int (total_len b) - (case start_at of None \<Rightarrow> 0 | Some s \<Rightarrow> pos s)
                  else len) in
      case start_at of
        None \<Rightarrow> Some (peek_loop (chains b) len' 0 n_vec 0)
      | Some s \<Rightarrow> do {
          k \<leftarrow> in_chain s;
          c \<leftarrow> slot (chains b) k;
          let here = off c - pos_in_chain s;
          let (vs, n) = peek_loop (drop (Suc k) (chains b)) len' 1 n_vec (int here);
          Some ((if n_vec > 0
                 then \<lparr>iov_base = buffer c + misalign c + pos_in_chain s, iov_len = here\<rparr> # vs
                 else vs), n)
        })"

end
