(* ===== verification/EvbufferInv.thy ===== *)
theory EvbufferInv
  imports EvbufferSearch
begin

text \<open>
  What an evbuffer means and when it is well formed: its content is the data of its chains in
  order; \<open>evb_ok\<close> says that every chain stays inside its memory, that the total length is the
  length of the content and that \<open>last_with_datap\<close> is where \<open>evbuffer-internal.h\<close> says it is;
  \<open>tight\<close> that no empty chain trails the data; \<open>plain\<close> that all its memory is its own. The lemmas give the effect of the internal
  operations on the content.
\<close>

section \<open>Content and well-formedness\<close>

definition chain_ok :: "chain \<Rightarrow> bool" where
  "chain_ok c \<longleftrightarrow> misalign c + off c \<le> buffer_len c \<and> length (ch_mem c) = buffer_len c \<and>
     buffer_len c \<le> EVBUFFER_CHAIN_MAX - EVBUFFER_CHAIN_SIZE \<and>
     (buffer_len c \<noteq> 0 \<or> has_flag c EVBUFFER_IMMUTABLE) \<and> \<not> CHAIN_PINNED c \<and> \<not> CHAIN_PINNED_R c"

definition content_of :: "chain list \<Rightarrow> bytes" where
  "content_of cs = concat (map chain_data cs)"

definition content :: "evbuffer \<Rightarrow> bytes" where
  "content b = content_of (chains b)"

definition data_chains :: "chain list \<Rightarrow> chain list" where
  "data_chains cs = takeWhile (\<lambda>c. off c \<noteq> 0) cs"

definition lwd_ok :: "chain list \<Rightarrow> nat \<Rightarrow> bool" where
  "lwd_ok cs l \<longleftrightarrow> (\<forall>c \<in> set (dropWhile (\<lambda>c. off c \<noteq> 0) cs). off c = 0) \<and>
     l = length (data_chains cs) - 1"

definition evb_ok :: "evbuffer \<Rightarrow> bool" where
  "evb_ok b \<longleftrightarrow> (\<forall>c \<in> set (chains b). chain_ok c) \<and> total_len b = length (content b) \<and>
     total_len b \<le> SIZE_MAX \<and> lwd_ok (chains b) (last_with_datap b)"

definition plain :: "evbuffer \<Rightarrow> bool" where
  "plain b \<longleftrightarrow> (\<forall>c \<in> set (chains b). \<not> has_flag c EVBUFFER_IMMUTABLE)"

definition tight :: "evbuffer \<Rightarrow> bool" where
  "tight b \<longleftrightarrow> length (chains b) \<le> Suc (last_with_datap b)"

lemma chain_ok_data_length [simp]: "chain_ok c \<Longrightarrow> length (chain_data c) = off c"
  by (auto simp: chain_ok_def chain_data_def min_def)

lemma chain_data_empty [simp]: "off c = 0 \<Longrightarrow> chain_data c = []"
  by (simp add: chain_data_def)

lemma content_of_simps [simp]:
  "content_of [] = []" "content_of (c # cs) = chain_data c @ content_of cs"
  "content_of (xs @ ys) = content_of xs @ content_of ys"
  by (simp_all add: content_of_def)

lemma content_of_empties: "\<forall>c \<in> set cs. off c = 0 \<Longrightarrow> content_of cs = []"
  by (induction cs) auto

lemma length_content_of: "\<forall>c \<in> set cs. chain_ok c \<Longrightarrow> length (content_of cs) = sum_list (map off cs)"
  by (induction cs) auto

text \<open>The split of the list of chains into those with data and the empty ones behind.\<close>

lemma lwd_okE:
  assumes "lwd_ok cs l"
  obtains xs ys where "cs = xs @ ys" "\<forall>c \<in> set xs. off c \<noteq> 0" "\<forall>c \<in> set ys. off c = 0"
    "l = length xs - 1" "data_chains cs = xs"
proof (rule that)
  show "cs = data_chains cs @ dropWhile (\<lambda>c. off c \<noteq> 0) cs" by (simp add: data_chains_def)
  show "\<forall>c \<in> set (data_chains cs). off c \<noteq> 0"
    by (auto simp: data_chains_def dest: set_takeWhileD)
  show "\<forall>c \<in> set (dropWhile (\<lambda>c. off c \<noteq> 0) cs). off c = 0" "l = length (data_chains cs) - 1"
    using assms unfolding lwd_ok_def by blast+
qed (rule refl)

lemma takeWhile_split:
  "\<forall>x \<in> set xs. P x \<Longrightarrow> \<forall>y \<in> set ys. \<not> P y \<Longrightarrow> takeWhile P (xs @ ys) = xs"
  by (induction xs) (cases ys; auto)+

lemma dropWhile_split:
  "\<forall>x \<in> set xs. P x \<Longrightarrow> \<forall>y \<in> set ys. \<not> P y \<Longrightarrow> dropWhile P (xs @ ys) = ys"
  by (induction xs) (cases ys; auto)+

lemma lwd_okI:
  assumes "\<forall>c \<in> set xs. off c \<noteq> 0" "\<forall>c \<in> set ys. off c = 0" "l = length xs - 1"
  shows "lwd_ok (xs @ ys) l"
  using assms takeWhile_split [of xs "\<lambda>c. off c \<noteq> 0" ys] dropWhile_split [of xs "\<lambda>c. off c \<noteq> 0" ys]
  by (simp add: lwd_ok_def data_chains_def)

lemma lwd_okI_all: "\<forall>c \<in> set cs. off c \<noteq> 0 \<Longrightarrow> l = length cs - 1 \<Longrightarrow> lwd_ok cs l"
  using lwd_okI [of cs "[]" l] by simp

lemma lwd_ok_Nil [simp]: "lwd_ok [] l \<longleftrightarrow> l = 0"
  by (simp add: lwd_ok_def data_chains_def)

lemma lwd_ok_single: "lwd_ok [c] 0"
  by (simp add: lwd_ok_def data_chains_def)

lemma evb_okD:
  assumes "evb_ok b"
  shows "\<forall>c \<in> set (chains b). chain_ok c" "total_len b = length (content b)"
    "total_len b \<le> SIZE_MAX" "lwd_ok (chains b) (last_with_datap b)"
  using assms by (simp_all add: evb_ok_def)

text \<open>A tight buffer has one chain at most, or data in all of them.\<close>

lemma tight_cases:
  assumes "lwd_ok (chains b) (last_with_datap b)" "tight b"
  obtains "chains b = []" "last_with_datap b = 0"
  | c where "chains b = [c]" "off c = 0" "last_with_datap b = 0"
  | "\<forall>c \<in> set (chains b). off c \<noteq> 0" "chains b \<noteq> []"
      "Suc (last_with_datap b) = length (chains b)"
proof -
  obtain xs ys where s: "chains b = xs @ ys" "\<forall>c \<in> set xs. off c \<noteq> 0" "\<forall>c \<in> set ys. off c = 0"
    "last_with_datap b = length xs - 1"
    using assms(1) by (rule lwd_okE)
  show thesis
  proof (cases "xs = []")
    case True
    then have "length ys \<le> 1" using s assms(2) by (simp add: tight_def)
    then show thesis using s True that(1,2) by (cases ys) auto
  next
    case False
    then have "ys = []" using s assms(2) by (cases ys) (auto simp: tight_def)
    then show thesis using s False that(3) by auto
  qed
qed

section \<open>What the callbacks leave alone\<close>

lemma emit_simps [simp]:
  "chains (emit es b) = chains b" "last_with_datap (emit es b) = last_with_datap b"
  "total_len (emit es b) = total_len b" "freeze_start (emit es b) = freeze_start b"
  "freeze_end (emit es b) = freeze_end b" "callbacks (emit es b) = callbacks b"
  "n_add_for_cb (emit es b) = n_add_for_cb b" "n_del_for_cb (emit es b) = n_del_for_cb b"
  "deferred_cbs (emit es b) = deferred_cbs b" "events (emit es b) = events b @ es"
  by (simp_all add: emit_def)

lemma run_callbacks_simps [simp]:
  "chains (evbuffer_run_callbacks b d) = chains b"
  "last_with_datap (evbuffer_run_callbacks b d) = last_with_datap b"
  "total_len (evbuffer_run_callbacks b d) = total_len b"
  "freeze_start (evbuffer_run_callbacks b d) = freeze_start b"
  "freeze_end (evbuffer_run_callbacks b d) = freeze_end b"
  "callbacks (evbuffer_run_callbacks b d) = callbacks b"
  "deferred_cbs (evbuffer_run_callbacks b d) = deferred_cbs b"
  by (simp_all add: evbuffer_run_callbacks_def Let_def)

lemma invoke_simps [simp]:
  "chains (evbuffer_invoke_callbacks b) = chains b"
  "last_with_datap (evbuffer_invoke_callbacks b) = last_with_datap b"
  "total_len (evbuffer_invoke_callbacks b) = total_len b"
  "freeze_start (evbuffer_invoke_callbacks b) = freeze_start b"
  "freeze_end (evbuffer_invoke_callbacks b) = freeze_end b"
  "callbacks (evbuffer_invoke_callbacks b) = callbacks b"
  "deferred_cbs (evbuffer_invoke_callbacks b) = deferred_cbs b"
  by (simp_all add: evbuffer_invoke_callbacks_def Let_def evbuffer_incref_def)

lemma counts_simps [simp]:
  "chains (added n b) = chains b" "last_with_datap (added n b) = last_with_datap b"
  "total_len (added n b) = total_len b" "freeze_start (added n b) = freeze_start b"
  "freeze_end (added n b) = freeze_end b" "callbacks (added n b) = callbacks b"
  "chains (deleted_n n b) = chains b" "last_with_datap (deleted_n n b) = last_with_datap b"
  "total_len (deleted_n n b) = total_len b" "freeze_start (deleted_n n b) = freeze_start b"
  "freeze_end (deleted_n n b) = freeze_end b" "callbacks (deleted_n n b) = callbacks b"
  "chains (grown n b) = chains b" "last_with_datap (grown n b) = last_with_datap b"
  "total_len (grown n b) = SZ (total_len b + n)" "freeze_start (grown n b) = freeze_start b"
  "freeze_end (grown n b) = freeze_end b" "callbacks (grown n b) = callbacks b"
  by (simp_all add: added_def deleted_n_def grown_def)

lemma set_last_simps [simp]:
  "chains (set_last b c) = butlast (chains b) @ [c]"
  "last_with_datap (set_last b c) = last_with_datap b"
  "total_len (set_last b c) = total_len b" "freeze_start (set_last b c) = freeze_start b"
  "freeze_end (set_last b c) = freeze_end b"
  by (simp_all add: set_last_def)

section \<open>New chains\<close>

definition allocs :: "malloc \<Rightarrow> bool" where
  "allocs m \<longleftrightarrow> (\<forall>n. \<exists>a bs. m n = Some (a, bs) \<and> length bs = n)"

lemma grow_ge: "0 < a \<Longrightarrow> n \<le> grow a n"
  by (induction a n rule: grow.induct) (subst grow.simps, simp)

lemma grow_ge_start: "a \<le> grow a n"
proof (induction a n rule: grow.induct)
  case (1 a n)
  then show ?case by (subst grow.simps) (auto split: if_splits)
qed

lemma grow_le: "0 < a \<Longrightarrow> grow a n \<le> max a (2 * n)"
proof (induction a n rule: grow.induct)
  case (1 a n)
  then show ?case by (subst grow.simps) (auto simp: max_def split: if_splits)
qed

lemma chain_alloc_size_bounds:
  assumes "n \<le> EVBUFFER_CHAIN_MAX"
  shows "n \<le> chain_alloc_size n" "chain_alloc_size n \<le> EVBUFFER_CHAIN_MAX"
    "EVBUFFER_CHAIN_SIZE < chain_alloc_size n"
proof -
  show "EVBUFFER_CHAIN_SIZE < chain_alloc_size n"
    using grow_ge_start [of MIN_BUFFER_SIZE n]
    by (auto simp: chain_alloc_size_def MIN_BUFFER_SIZE_def EVBUFFER_CHAIN_SIZE_def EVBUFFER_CHAIN_MAX_def)
  show "n \<le> chain_alloc_size n"
    using grow_ge [of MIN_BUFFER_SIZE n] by (simp add: chain_alloc_size_def MIN_BUFFER_SIZE_def)
  show "chain_alloc_size n \<le> EVBUFFER_CHAIN_MAX"
    using assms grow_le [of MIN_BUFFER_SIZE n]
    by (auto simp: chain_alloc_size_def MIN_BUFFER_SIZE_def EVBUFFER_CHAIN_MAX_def max_def
        split: if_splits)
qed

definition fresh_chain :: "chain \<Rightarrow> nat \<Rightarrow> bool" where
  "fresh_chain c n \<longleftrightarrow> misalign c = 0 \<and> off c = 0 \<and> ch_flags c = 0 \<and> n \<le> buffer_len c \<and>
     length (ch_mem c) = buffer_len c \<and> buffer_len c \<noteq> 0 \<and>
     buffer_len c \<le> EVBUFFER_CHAIN_MAX - EVBUFFER_CHAIN_SIZE"

lemma chain_new_fresh:
  assumes "allocs m" "n \<le> EVBUFFER_CHAIN_MAX - EVBUFFER_CHAIN_SIZE"
  obtains c where "evbuffer_chain_new m n = Some c" "fresh_chain c n"
proof -
  let ?t = "chain_alloc_size (n + EVBUFFER_CHAIN_SIZE)"
  obtain a bs where m: "m ?t = Some (a, bs)" "length bs = ?t"
    using assms(1) by (metis allocs_def)
  have "n + EVBUFFER_CHAIN_SIZE \<le> EVBUFFER_CHAIN_MAX"
    using assms(2) by (simp add: EVBUFFER_CHAIN_MAX_def EVBUFFER_CHAIN_SIZE_def)
  note b = chain_alloc_size_bounds [OF this]
  show thesis
    by (rule that) (use m b assms(2) in \<open>auto simp: evbuffer_chain_new_def fresh_chain_def Let_def\<close>)
qed

lemma has_flag_0 [simp]: "ch_flags c = 0 \<Longrightarrow> \<not> has_flag c f"
  by (simp add: has_flag_def)

lemma fresh_chain_ok: "fresh_chain c n \<Longrightarrow> chain_ok c \<and> \<not> has_flag c f \<and> off c = 0"
  by (simp add: fresh_chain_def chain_ok_def CHAIN_PINNED_def CHAIN_PINNED_R_def)

section \<open>Writing into chains\<close>

lemma chain_data_append:
  assumes "misalign c + off c + length d \<le> length (ch_mem c)"
  shows "\<exists>mem'. chain_append c d = Some (c\<lparr>ch_mem := mem', off := off c + length d\<rparr>) \<and>
     length mem' = length (ch_mem c) \<and>
     chain_data (c\<lparr>ch_mem := mem', off := off c + length d\<rparr>) = chain_data c @ d"
proof -
  let ?i = "misalign c + off c"
  let ?mem = "take ?i (ch_mem c) @ d @ drop (?i + length d) (ch_mem c)"
  let ?A = "take (off c) (drop (misalign c) (ch_mem c))"
  have "drop (misalign c) ?mem = ?A @ d @ drop (?i + length d) (ch_mem c)"
    using assms by (simp add: drop_take)
  moreover have "length ?A = off c" using assms by simp
  ultimately have "take (off c + length d) (drop (misalign c) ?mem) = ?A @ d"
    by simp
  then show ?thesis
    using assms by (intro exI [of _ ?mem]) (simp add: chain_append_def mem_write_def chain_data_def)
qed

lemma chain_append_ok:
  assumes "chain_ok c" "misalign c + off c + length d \<le> buffer_len c"
  obtains c' where "chain_append c d = Some c'" "chain_ok c'" "off c' = off c + length d"
    "chain_data c' = chain_data c @ d" "buffer_len c' = buffer_len c" "misalign c' = misalign c"
    "ch_flags c' = ch_flags c"
proof -
  have "misalign c + off c + length d \<le> length (ch_mem c)"
    using assms by (simp add: chain_ok_def)
  from chain_data_append [OF this] obtain mem' where
    a: "chain_append c d = Some (c\<lparr>ch_mem := mem', off := off c + length d\<rparr>)"
    "length mem' = length (ch_mem c)"
    "chain_data (c\<lparr>ch_mem := mem', off := off c + length d\<rparr>) = chain_data c @ d" by blast
  show thesis
    by (rule that [OF a(1)])
      (use a(2,3) assms in \<open>simp_all add: chain_ok_def CHAIN_PINNED_def CHAIN_PINNED_R_def has_flag_def\<close>)
qed

lemma chain_read: "chain_ok c \<Longrightarrow> mem_read (ch_mem c) (misalign c) (off c) = Some (chain_data c)"
  by (simp add: chain_ok_def mem_read_def chain_data_def)

lemma chain_read_part:
  "chain_ok c \<Longrightarrow> n \<le> off c \<Longrightarrow> mem_read (ch_mem c) (misalign c) n = Some (take n (chain_data c))"
  by (simp add: chain_ok_def mem_read_def chain_data_def min_def)

lemma chain_align_ok:
  assumes "chain_ok c" "\<not> has_flag c EVBUFFER_IMMUTABLE"
  obtains c' where "evbuffer_chain_align c = Some c'" "chain_ok c'" "off c' = off c"
    "chain_data c' = chain_data c" "buffer_len c' = buffer_len c" "misalign c' = 0"
    "ch_flags c' = ch_flags c"
proof -
  let ?d = "chain_data c"
  have l: "length ?d = off c" "off c \<le> length (ch_mem c)" "\<not> CHAIN_PINNED c"
    using assms(1) chain_ok_data_length [OF assms(1)] by (auto simp: chain_ok_def)
  let ?c = "c\<lparr>ch_mem := ?d @ drop (off c) (ch_mem c), misalign := 0\<rparr>"
  have "evbuffer_chain_align c = Some ?c"
    using assms l by (simp add: evbuffer_chain_align_def chain_read mem_write_def)
  moreover have "chain_ok ?c"
    using assms(1) l by (simp add: chain_ok_def CHAIN_PINNED_def CHAIN_PINNED_R_def has_flag_def)
  moreover have "chain_data ?c = ?d" using l by (simp add: chain_data_def)
  ultimately show thesis by (intro that [of ?c]) simp_all
qed

section \<open>Inserting a chain\<close>

lemma all_empty_iff: "evbuffer_chains_all_empty cs \<longleftrightarrow> (\<forall>c \<in> set cs. off c = 0)"
  by (induction cs) auto

lemma first_victim_all: "\<forall>c \<in> set xs. off c \<noteq> 0 \<Longrightarrow> first_victim (xs @ ys) = length xs + first_victim ys"
  by (induction xs) auto

lemma first_victim_empties:
  "\<forall>c \<in> set ys. off c = 0 \<and> \<not> CHAIN_PINNED c \<Longrightarrow> first_victim ys = 0"
  by (cases ys) auto

text \<open>The victims of a well-formed buffer are exactly its trailing empty chains.\<close>

lemma victim_index:
  assumes "evb_ok b"
  shows "last_with_datap b + first_victim (drop (last_with_datap b) (chains b)) =
      length (data_chains (chains b))"
proof -
  obtain xs ys where s: "chains b = xs @ ys" "\<forall>c \<in> set xs. off c \<noteq> 0" "\<forall>c \<in> set ys. off c = 0"
    "last_with_datap b = length xs - 1" "data_chains (chains b) = xs"
    using evb_okD(4) [OF assms] by (rule lwd_okE)
  have ys: "first_victim ys = 0"
    using s evb_okD(1) [OF assms] by (intro first_victim_empties) (auto simp: chain_ok_def)
  show ?thesis
  proof (cases "xs = []")
    case True
    then show ?thesis using s ys by simp
  next
    case False
    then obtain zs z where "xs = zs @ [z]" by (cases xs rule: rev_cases) auto
    then show ?thesis
      using s ys by simp
  qed
qed

lemma chain_insert_ok:
  assumes ok: "evb_ok b" and c: "chain_ok c" and len: "total_len b + off c \<le> SIZE_MAX"
  obtains b' where "evbuffer_chain_insert b c = Some b'"
    "chains b' = data_chains (chains b) @ [c]" "content b' = content b @ chain_data c"
    "total_len b' = total_len b + off c" "freeze_start b' = freeze_start b"
    "freeze_end b' = freeze_end b" "callbacks b' = callbacks b"
    "off c = 0 \<or> tight b \<Longrightarrow> evb_ok b'"
    "off c \<noteq> 0 \<or> content b = [] \<Longrightarrow> tight b \<Longrightarrow> tight b'"
proof -
  obtain xs ys where s: "chains b = xs @ ys" "\<forall>c \<in> set xs. off c \<noteq> 0" "\<forall>c \<in> set ys. off c = 0"
    "last_with_datap b = length xs - 1" "data_chains (chains b) = xs"
    using evb_okD(4) [OF ok] by (rule lwd_okE)
  have i: "last_with_datap b + first_victim (drop (last_with_datap b) (chains b)) = length xs"
    using victim_index [OF ok] s(5) by simp
  let ?l = "if ys = [] \<and> off c \<noteq> 0 then length xs else last_with_datap b"
  let ?b = "emit (evbuffer_free_all_chains ys)
     (b\<lparr>chains := xs @ [c], last_with_datap := ?l, total_len := total_len b + off c\<rparr>)"
  have tot: "SZ (total_len b + off c) = total_len b + off c" using len by simp
  have ins: "evbuffer_chain_insert b c = Some ?b"
  proof (cases "chains b = []")
    case True
    then show ?thesis
      using s tot by (simp add: evbuffer_chain_insert_def slot_def emit_def)
  next
    case False
    then have "slot (chains b) (last_with_datap b) \<noteq> None"
      using s by (cases xs) (auto simp: slot_def)
    moreover have "evbuffer_chains_all_empty ys" using s(3) by (simp add: all_empty_iff)
    ultimately show ?thesis
      using False s i tot
      by (cases "ys = []") (auto simp: evbuffer_chain_insert_def emit_def Let_def)
  qed
  have cont: "content ?b = content b @ chain_data c"
    using s content_of_empties [OF s(3)] by (simp add: content_def)
  have ok': "evb_ok ?b" if "off c = 0 \<or> tight b"
  proof -
    have "lwd_ok (xs @ [c]) ?l"
    proof (cases "off c = 0")
      case True
      then show ?thesis using s by (intro lwd_okI) auto
    next
      case False
      then have "tight b" using that by simp
      then have "ys = [] \<or> xs = [] \<and> length ys = 1"
        using s by (cases xs; cases ys) (auto simp: tight_def)
      then show ?thesis using s False by (intro lwd_okI_all) auto
    qed
    then show ?thesis
      using ok c s len cont by (auto simp: evb_ok_def content_def)
  qed
  have "tight ?b" if "off c \<noteq> 0 \<or> content b = []" "tight b"
  proof -
    have "ys = [] \<or> xs = [] \<and> length ys = 1"
      using s that by (cases xs; cases ys) (auto simp: tight_def)
    moreover have "xs = []" if "content b = []"
    proof (rule ccontr)
      assume "xs \<noteq> []"
      then obtain x xs' where x: "xs = x # xs'" by (cases xs) auto
      then have "chain_ok x" "off x \<noteq> 0" using evb_okD(1) [OF ok] s by auto
      then have "chain_data x \<noteq> []" using chain_ok_data_length [of x] by fastforce
      then show False using that s x by (simp add: content_def)
    qed
    ultimately show ?thesis using that s by (auto simp: tight_def)
  qed
  with ins cont ok' show thesis by (intro that [of ?b]) (simp_all add: s(5))
qed

end
