(* ===== verification/EvbufferProofs.thy ===== *)
theory EvbufferProofs
  imports EvbufferInv
begin

text \<open>
  The operations of an evbuffer against its content: adding, prepending, draining, copying out,
  moving between buffers and pulling up do to the chains what they promise for the sequence of
  bytes, keep the buffer well formed, and do not fault.
\<close>

section \<open>Adding at the end\<close>

lemma plain_simps [simp]:
  "plain (emit es b) = plain b" "plain (evbuffer_invoke_callbacks b) = plain b"
  "plain (added n b) = plain b" "plain (deleted_n n b) = plain b" "plain (grown n b) = plain b"
  by (simp_all add: plain_def)

lemma content_simps [simp]:
  "content (emit es b) = content b" "content (evbuffer_invoke_callbacks b) = content b"
  "content (added n b) = content b" "content (deleted_n n b) = content b"
  "content (grown n b) = content b"
  by (simp_all add: content_def)

lemma evb_ok_simps [simp]:
  "evb_ok (emit es b) = evb_ok b" "evb_ok (evbuffer_invoke_callbacks b) = evb_ok b"
  "evb_ok (added n b) = evb_ok b" "evb_ok (deleted_n n b) = evb_ok b"
  by (simp_all add: evb_ok_def)

lemma tight_simps [simp]:
  "tight (emit es b) = tight b" "tight (evbuffer_invoke_callbacks b) = tight b"
  "tight (added n b) = tight b" "tight (deleted_n n b) = tight b" "tight (grown n b) = tight b"
  by (simp_all add: tight_def)

lemma the_last_Some: "the_last b = Some c \<longleftrightarrow> chains b \<noteq> [] \<and> c = last (chains b)"
  by (auto simp: the_last_def)

lemma empty_content_chains:
  assumes "evb_ok b" "content b = []"
  shows "\<forall>c \<in> set (chains b). off c = 0" "last_with_datap b = 0"
proof -
  obtain xs ys where s: "chains b = xs @ ys" "\<forall>c \<in> set xs. off c \<noteq> 0" "\<forall>c \<in> set ys. off c = 0"
    "last_with_datap b = length xs - 1"
    using evb_okD(4) [OF assms(1)] by (rule lwd_okE)
  have "xs = []"
  proof (cases xs)
    case (Cons x xs')
    then have "chain_ok x" "off x \<noteq> 0" using evb_okD(1) [OF assms(1)] s by auto
    then have "chain_data x \<noteq> []" using chain_ok_data_length [of x] by fastforce
    then show ?thesis using assms(2) s Cons by (simp add: content_def)
  qed
  with s show "\<forall>c \<in> set (chains b). off c = 0" "last_with_datap b = 0" by auto
qed

lemma set_last_ok:
  assumes ok: "evb_ok b" "tight b" and c: "the_last b = Some c"
    and c': "chain_ok c'" "off c' = off c + length d" "chain_data c' = chain_data c @ d"
    and len: "total_len b + length d \<le> SIZE_MAX"
  shows "content (grown (length d) (set_last b c')) = content b @ d"
    and "evb_ok (grown (length d) (set_last b c'))" and "tight (grown (length d) (set_last b c'))"
proof -
  let ?b = "grown (length d) (set_last b c')"
  have cs: "chains b = butlast (chains b) @ [c]" using c by (auto simp: the_last_Some)
  show cont: "content ?b = content b @ d"
    by (subst (2) content_def, subst cs) (simp add: content_def c')
  have "lwd_ok (chains ?b) (last_with_datap ?b) \<and> tight ?b"
    using evb_okD(4) [OF ok(1)] ok(2)
  proof (cases rule: tight_cases)
    case 1
    then show ?thesis using cs by simp
  next
    case (2 e)
    then show ?thesis by (simp add: tight_def lwd_ok_single)
  next
    case 3
    have "off c \<noteq> 0" using 3 c by (auto simp: the_last_Some)
    then have "\<forall>x \<in> set (butlast (chains b) @ [c']). off x \<noteq> 0"
      using 3 c' by (auto dest: in_set_butlastD)
    then have "lwd_ok (butlast (chains b) @ [c']) (last_with_datap b)"
      using 3 by (intro lwd_okI_all) auto
    then show ?thesis using 3 by (simp add: tight_def)
  qed
  then show "evb_ok ?b" "tight ?b"
    using ok(1) c' len cont by (auto simp: evb_ok_def dest: in_set_butlastD)
qed

lemma plain_set_last:
  "plain b \<Longrightarrow> the_last b = Some c \<Longrightarrow> ch_flags c' = ch_flags c \<Longrightarrow> plain (set_last b c')"
  by (auto simp: plain_def the_last_Some has_flag_def dest: in_set_butlastD)

lemma add_to_last_ok:
  assumes ok: "evb_ok b" "tight b" and m: "allocs m" and c: "the_last b = Some c"
    and len: "total_len b + length d \<le> EVBUFFER_CHAIN_MAX - EVBUFFER_CHAIN_SIZE"
  shows "\<exists>b'. add_to_last m b c d = Some (b', 0) \<and> content b' = content b @ d \<and> evb_ok b' \<and>
     (d \<noteq> [] \<or> plain b \<longrightarrow> tight b') \<and> (plain b \<longrightarrow> plain b') \<and>
     freeze_start b' = freeze_start b \<and> freeze_end b' = freeze_end b"
proof -
  have cok: "chain_ok c" using c evb_okD(1) [OF ok(1)] by (auto simp: the_last_Some)
  have maxs: "EVBUFFER_CHAIN_MAX - EVBUFFER_CHAIN_SIZE \<le> SIZE_MAX"
    by (simp add: EVBUFFER_CHAIN_MAX_def EVBUFFER_CHAIN_SIZE_def SIZE_MAX_def)
  have len': "total_len b + length d \<le> SIZE_MAX" using len maxs by simp
  let ?mut = "\<not> has_flag c EVBUFFER_IMMUTABLE"
  let ?remain = "if ?mut then buffer_len c - misalign c - off c else 0"
  have mis: "misalign c \<le> EVBUFFER_CHAIN_MAX"
    using cok by (auto simp: chain_ok_def EVBUFFER_CHAIN_MAX_def EVBUFFER_CHAIN_SIZE_def)
  consider (fits) "?mut" "?remain \<ge> length d"
    | (align) "?mut" "\<not> ?remain \<ge> length d" "\<not> CHAIN_PINNED c" "evbuffer_chain_should_realign c (length d)"
    | (new) "\<not> (?mut \<and> ?remain \<ge> length d)"
        "\<not> (?mut \<and> \<not> CHAIN_PINNED c \<and> evbuffer_chain_should_realign c (length d))"
    by blast
  then show ?thesis
  proof cases
    case fits
    then have "misalign c + off c + length d \<le> buffer_len c" using cok by (auto simp: chain_ok_def)
    then obtain c' where c': "chain_append c d = Some c'" "chain_ok c'" "off c' = off c + length d"
      "chain_data c' = chain_data c @ d" "ch_flags c' = ch_flags c"
      using chain_append_ok [OF cok] by blast
    then show ?thesis
      using fits mis set_last_ok [OF ok c c'(2-4) len'] plain_set_last [OF _ c c'(5)]
      by (simp add: add_to_last_def)
  next
    case align
    obtain c1 where c1: "evbuffer_chain_align c = Some c1" "chain_ok c1" "off c1 = off c"
      "chain_data c1 = chain_data c" "buffer_len c1 = buffer_len c" "misalign c1 = 0"
      "ch_flags c1 = ch_flags c"
      using chain_align_ok [OF cok] align(1) by blast
    have "misalign c1 + off c1 + length d \<le> buffer_len c1"
      using align c1 cok by (auto simp: evbuffer_chain_should_realign_def chain_ok_def)
    then obtain c' where c': "chain_append c1 d = Some c'" "chain_ok c'" "off c' = off c1 + length d"
      "chain_data c' = chain_data c1 @ d" "ch_flags c' = ch_flags c1"
      using chain_append_ok [OF c1(2)] by blast
    have "off c' = off c + length d" "chain_data c' = chain_data c @ d" "ch_flags c' = ch_flags c"
      using c1 c' by simp_all
    with align mis c1(1) c'(1) set_last_ok [OF ok c c'(2) _ _ len'] plain_set_last [OF _ c]
    show ?thesis by (simp add: add_to_last_def)
  next
    case new
    define r where "r = ?remain"
    let ?a0 = "if buffer_len c \<le> EVBUFFER_CHAIN_MAX_AUTO_SIZE div 2 then 2 * buffer_len c
               else buffer_len c"
    let ?a = "if length d > ?a0 then length d else ?a0"
    have "?a \<le> EVBUFFER_CHAIN_MAX - EVBUFFER_CHAIN_SIZE"
      using cok len by (auto simp: chain_ok_def EVBUFFER_CHAIN_MAX_AUTO_SIZE_def
          EVBUFFER_CHAIN_MAX_def EVBUFFER_CHAIN_SIZE_def)
    then obtain t where t: "evbuffer_chain_new m ?a = Some t" "fresh_chain t ?a"
      using chain_new_fresh [OF m] by blast
    note tok = fresh_chain_ok [OF t(2)]
    have rl: "r \<le> length d" "r = 0 \<or> ?mut \<and> r < length d" using new(1) by (auto simp: r_def)
    let ?b1 = "if r \<noteq> 0 then (do { c' \<leftarrow> chain_append c (take r d); Some (grown r (set_last b c')) })
               else Some b"
    have "\<exists>b1. ?b1 = Some b1 \<and> content b1 = content b @ take r d \<and> evb_ok b1 \<and> tight b1 \<and>
        (plain b \<longrightarrow> plain b1) \<and> freeze_start b1 = freeze_start b \<and> freeze_end b1 = freeze_end b \<and>
        total_len b1 = total_len b + r"
    proof (cases "r = 0")
      case True
      then show ?thesis using ok by simp
    next
      case False
      then have "misalign c + off c + length (take r d) \<le> buffer_len c"
        using cok rl by (auto simp: chain_ok_def r_def)
      then obtain c' where c': "chain_append c (take r d) = Some c'" "chain_ok c'"
        "off c' = off c + length (take r d)" "chain_data c' = chain_data c @ take r d"
        "ch_flags c' = ch_flags c"
        using chain_append_ok [OF cok] by blast
      have l: "length (take r d) = r" using rl by simp
      have l': "total_len b + length (take r d) \<le> SIZE_MAX" using len' rl by simp
      have "SZ (total_len b + r) = total_len b + r" using l' l by simp
      then show ?thesis
        using False c'(1) set_last_ok [OF ok c c'(2-4) l'] plain_set_last [OF _ c c'(5)] l by simp
    qed
    then obtain b1 where b1: "?b1 = Some b1" "content b1 = content b @ take r d" "evb_ok b1"
      "tight b1" "plain b \<longrightarrow> plain b1" "freeze_start b1 = freeze_start b"
      "freeze_end b1 = freeze_end b" "total_len b1 = total_len b + r" by blast
    have "misalign t + off t + length (drop r d) \<le> buffer_len t"
      using t(2) by (auto simp: fresh_chain_def split: if_splits)
    then obtain t' where t': "chain_append t (drop r d) = Some t'" "chain_ok t'"
      "off t' = off t + length (drop r d)" "chain_data t' = chain_data t @ drop r d"
      "ch_flags t' = ch_flags t"
      using chain_append_ok [of t "drop r d"] tok by blast
    have ot: "off t' = length d - r" "chain_data t' = drop r d"
      using t' tok by simp_all
    have "total_len b1 + off t' \<le> SIZE_MAX" using b1(8) ot rl len' by simp
    then obtain b2 where b2: "evbuffer_chain_insert b1 t' = Some b2"
      "chains b2 = data_chains (chains b1) @ [t']"
      "content b2 = content b1 @ chain_data t'" "freeze_start b2 = freeze_start b1"
      "freeze_end b2 = freeze_end b1" "off t' = 0 \<or> tight b1 \<Longrightarrow> evb_ok b2"
      "off t' \<noteq> 0 \<or> content b1 = [] \<Longrightarrow> tight b1 \<Longrightarrow> tight b2"
      by (rule chain_insert_ok [OF b1(3) t'(2)]) blast
    let ?b = "evbuffer_invoke_callbacks (added (length d - r) b2)"
    have eq: "add_to_last m b c d = Some (?b, 0)"
    proof -
      have "add_to_last m b c d = do {
             b1 \<leftarrow> ?b1;
             tmp' \<leftarrow> chain_append t (drop r d);
             b2 \<leftarrow> evbuffer_chain_insert b1 tmp';
             Some (evbuffer_invoke_callbacks (added (length d - r) b2), 0)
           }"
        using new mis t(1) unfolding add_to_last_def Let_def r_def [symmetric]
        by (auto simp: r_def [symmetric])
      then show ?thesis using b1(1) t'(1) b2(1) by simp
    qed
    have pl: "plain ?b" if "plain b"
    proof -
      have "\<not> has_flag t' EVBUFFER_IMMUTABLE" using t'(5) tok t(2) by (simp add: has_flag_def fresh_chain_def)
      then show ?thesis
        using that b1(5) b2(2) by (auto simp: plain_def data_chains_def dest: set_takeWhileD)
    qed
    have ti: "tight ?b" if "d \<noteq> [] \<or> plain b"
    proof -
      have "off t' \<noteq> 0"
      proof (rule ccontr)
        assume "\<not> off t' \<noteq> 0"
        then have "d = []" using rl ot(1) by auto
        moreover have "?mut" using that \<open>d = []\<close> c by (auto simp: plain_def the_last_Some)
        ultimately show False using new(1) by simp
      qed
      then show ?thesis using b2(7) b1(4) by simp
    qed
    show ?thesis
      using eq pl ti b1 b2 ot by (intro exI [of _ ?b]) simp
  qed
qed

lemma evbuffer_add_ok:
  assumes "evb_ok b" "tight b" "\<not> freeze_end b" "allocs m"
    and "total_len b + length d \<le> EVBUFFER_CHAIN_MAX - EVBUFFER_CHAIN_SIZE"
  shows "\<exists>b'. evbuffer_add m b d = Some (b', 0) \<and> content b' = content b @ d \<and> evb_ok b' \<and>
     (d \<noteq> [] \<or> plain b \<longrightarrow> tight b') \<and> (plain b \<longrightarrow> plain b') \<and>
     freeze_start b' = freeze_start b \<and> freeze_end b' = freeze_end b"
proof -
  have maxs: "\<not> length d > SIZE_MAX - total_len b"
    using assms(5) by (simp add: EVBUFFER_CHAIN_MAX_def EVBUFFER_CHAIN_SIZE_def SIZE_MAX_def)
  show ?thesis
  proof (cases "the_last b")
    case (Some c)
    then show ?thesis
      using add_to_last_ok [OF assms(1,2,4) Some assms(5)] assms(3) maxs
      by (simp add: evbuffer_add_def)
  next
    case None
    then have e: "chains b = []" by (simp add: the_last_def split: if_splits)
    have "length d \<le> EVBUFFER_CHAIN_MAX - EVBUFFER_CHAIN_SIZE" using assms(5) by simp
    then obtain c where c: "evbuffer_chain_new m (length d) = Some c" "fresh_chain c (length d)"
      using chain_new_fresh [OF assms(4)] by blast
    note cok = fresh_chain_ok [OF c(2)]
    have "total_len b + off c \<le> SIZE_MAX" using assms(1) cok by (simp add: evb_ok_def)
    then obtain b1 where b1: "evbuffer_chain_insert b c = Some b1"
      "chains b1 = data_chains (chains b) @ [c]" "content b1 = content b @ chain_data c"
      "total_len b1 = total_len b + off c" "freeze_start b1 = freeze_start b"
      "freeze_end b1 = freeze_end b" "off c = 0 \<or> tight b \<Longrightarrow> evb_ok b1"
      "off c \<noteq> 0 \<or> content b = [] \<Longrightarrow> tight b \<Longrightarrow> tight b1"
      using chain_insert_ok [OF assms(1)] cok by metis
    have cb: "content b = []" using e by (simp add: content_def)
    have l: "the_last b1 = Some c" using b1(2) by (simp add: the_last_def)
    have p: "plain b1" using b1(2) e cok by (simp add: plain_def data_chains_def)
    have "total_len b1 + length d \<le> EVBUFFER_CHAIN_MAX - EVBUFFER_CHAIN_SIZE"
      using b1(4) cok assms(5) by simp
    moreover have "evb_ok b1" "tight b1" using b1(7,8) cok cb assms(2) by simp_all
    ultimately have "\<exists>b'. add_to_last m b1 c d = Some (b', 0) \<and> content b' = content b1 @ d \<and>
        evb_ok b' \<and> (d \<noteq> [] \<or> plain b1 \<longrightarrow> tight b') \<and> (plain b1 \<longrightarrow> plain b') \<and>
        freeze_start b' = freeze_start b1 \<and> freeze_end b' = freeze_end b1"
      using add_to_last_ok [OF _ _ assms(4) l] by blast
    then show ?thesis
      using None c(1) b1 cok cb p assms(3) maxs by (auto simp: evbuffer_add_def)
  qed
qed

end
