(* ===== verification/EvbufferMove.thy ===== *)
theory EvbufferMove
  imports EvbufferProofs
begin

text \<open>
  Continued: taking bytes off the front of an evbuffer, copying them out, moving them between
  buffers, and adding at the front.
\<close>

section \<open>Draining\<close>

lemma drain_loop_stops:
  assumes "\<forall>c \<in> set cs. chain_ok c" "n < sum_list (map off cs)"
  shows "\<exists>pre c rest es. cs = pre @ c # rest \<and> sum_list (map off pre) \<le> n \<and>
     n - sum_list (map off pre) < off c \<and>
     drain_loop cs n k = Some (c # rest, n - sum_list (map off pre), k - length pre, es)"
  using assms
proof (induction cs arbitrary: n k)
  case (Cons c cs)
  show ?case
  proof (cases "n \<ge> off c")
    case False
    then show ?thesis by (intro exI [of _ "[]"]) auto
  next
    case True
    have "\<not> CHAIN_PINNED_R c" using Cons.prems by (simp add: chain_ok_def)
    moreover have "n - off c < sum_list (map off cs)" using Cons.prems(2) True by simp
    then obtain pre d rest es where i: "cs = pre @ d # rest" "sum_list (map off pre) \<le> n - off c"
      "n - off c - sum_list (map off pre) < off d"
      "drain_loop cs (n - off c) (k - 1) =
         Some (d # rest, n - off c - sum_list (map off pre), k - 1 - length pre, es)"
      using Cons.IH [of "n - off c" "k - 1"] Cons.prems(1) by auto
    ultimately show ?thesis
      using True by (intro exI [of _ "c # pre"] exI [of _ d] exI [of _ rest]) auto
  qed
qed simp

lemma content_of_drop:
  assumes "\<forall>c \<in> set (pre @ c # rest). chain_ok c" "sum_list (map off pre) \<le> n"
    "n - sum_list (map off pre) < off c"
  shows "drop n (content_of (pre @ c # rest)) =
     drop (n - sum_list (map off pre)) (chain_data c) @ content_of rest"
    and "take n (content_of (pre @ c # rest)) =
     content_of pre @ take (n - sum_list (map off pre)) (chain_data c)"
proof -
  have l: "length (content_of pre) = sum_list (map off pre)"
    using assms(1) by (intro length_content_of) auto
  have c: "length (chain_data c) = off c" using assms(1) by simp
  show "drop n (content_of (pre @ c # rest)) =
     drop (n - sum_list (map off pre)) (chain_data c) @ content_of rest"
    "take n (content_of (pre @ c # rest)) =
     content_of pre @ take (n - sum_list (map off pre)) (chain_data c)"
    using assms(2,3) l c by simp_all
qed

lemma no_pinned_last: "evb_ok b \<Longrightarrow> \<not> HAS_PINNED_R b"
  using evb_okD(1) [of b]
  by (auto simp: HAS_PINNED_R_def the_last_def chain_ok_def split: option.splits)

lemma split_at_data:
  assumes "lwd_ok (pre @ c # rest) l" "off c \<noteq> 0"
  shows "lwd_ok (c # rest) (l - length pre) \<and> length pre \<le> l"
proof -
  obtain xs ys where s: "pre @ c # rest = xs @ ys" "\<forall>c \<in> set xs. off c \<noteq> 0"
    "\<forall>c \<in> set ys. off c = 0" "l = length xs - 1"
    using assms(1) by (rule lwd_okE)
  have "length pre < length xs"
  proof (rule ccontr)
    assume "\<not> length pre < length xs"
    then have "c \<in> set ys"
      using s(1) by (auto simp: append_eq_append_conv2 Cons_eq_append_conv)
    then show False using s(3) assms(2) by simp
  qed
  then obtain zs where z: "xs = pre @ zs" "c # rest = zs @ ys"
    using s(1) by (auto simp: append_eq_append_conv2)
  then have "zs \<noteq> []" using \<open>length pre < length xs\<close> by auto
  moreover have "lwd_ok (zs @ ys) (length zs - 1)" using s z by (intro lwd_okI) auto
  moreover have "l - length pre = length zs - 1" "length pre \<le> l"
    using z s \<open>zs \<noteq> []\<close> by (cases zs; simp)+
  ultimately show ?thesis using z(2) by simp
qed

text \<open>Taking bytes off the chain in front keeps a buffer with more data well formed.\<close>

lemma chain_ok_shorten:
  "chain_ok c \<Longrightarrow> n \<le> off c \<Longrightarrow> chain_ok (c\<lparr>misalign := misalign c + n, off := off c - n\<rparr>)"
  by (simp add: chain_ok_def CHAIN_PINNED_def CHAIN_PINNED_R_def has_flag_def)

lemma chain_data_shorten:
  "n \<le> off c \<Longrightarrow> chain_data (c\<lparr>misalign := misalign c + n, off := off c - n\<rparr>) = drop n (chain_data c)"
  by (simp add: chain_data_def drop_take add.commute)

lemma lwd_ok_Cons:
  "off c \<noteq> 0 \<Longrightarrow> lwd_ok (c # cs) l \<longleftrightarrow>
     (\<forall>x \<in> set (dropWhile (\<lambda>c. off c \<noteq> 0) cs). off x = 0) \<and> l = length (data_chains cs)"
  unfolding lwd_ok_def data_chains_def by simp

lemma front_cut_ok:
  assumes ok: "evb_ok b" and cs: "chains b = pre @ c # rest"
    and n: "n = sum_list (map off pre) + k" "k < off c"
    and b': "chains b' = c\<lparr>misalign := misalign c + k, off := off c - k\<rparr> # rest"
      "last_with_datap b' = last_with_datap b - length pre" "total_len b' = total_len b - n"
  shows "content b' = drop n (content b)" "evb_ok b'" "tight b \<Longrightarrow> tight b'" "plain b \<Longrightarrow> plain b'"
proof -
  define c' where "c' = c\<lparr>misalign := misalign c + k, off := off c - k\<rparr>"
  have all: "\<forall>x \<in> set (pre @ c # rest). chain_ok x" using evb_okD(1) [OF ok] cs by simp
  have c': "chain_ok c'" "chain_data c' = drop k (chain_data c)" "off c' \<noteq> 0" "ch_flags c' = ch_flags c"
    using all n(2) chain_ok_shorten [of c k] chain_data_shorten [of k c]
    unfolding c'_def by simp_all
  have bc: "chains b' = c' # rest" using b'(1) by (simp only: c'_def)
  show c1: "content b' = drop n (content b)"
    using content_of_drop(1) [OF all, of n] n c'(2) by (simp add: content_def bc cs)
  have "lwd_ok (pre @ c # rest) (last_with_datap b)" using evb_okD(4) [OF ok] by (simp only: cs)
  moreover have "off c \<noteq> 0" using n(2) by simp
  note c0 = this
  ultimately have l: "lwd_ok (c # rest) (last_with_datap b - length pre)"
    "length pre \<le> last_with_datap b"
    using split_at_data by blast+
  have "lwd_ok (c' # rest) (last_with_datap b - length pre)"
    using l(1) lwd_ok_Cons [OF c'(3)] lwd_ok_Cons [OF c0] by blast
  moreover have "\<forall>x \<in> set (chains b'). chain_ok x" using all c'(1) by (simp add: bc)
  moreover have "total_len b' = length (content b')" "total_len b' \<le> SIZE_MAX"
    using c1 b'(3) evb_okD(2,3) [OF ok] by simp_all
  ultimately show "evb_ok b'" by (simp add: evb_ok_def bc b'(2))
  show "tight b \<Longrightarrow> tight b'" using l(2) by (simp add: tight_def cs bc b'(2))
  show "plain b \<Longrightarrow> plain b'" using c'(4) by (simp add: plain_def cs bc has_flag_def)
qed

lemma sum_off_total: "evb_ok b \<Longrightarrow> sum_list (map off (chains b)) = total_len b"
  using evb_okD [of b] by (simp add: content_def length_content_of)

lemma ZERO_CHAIN_ok:
  "content (ZERO_CHAIN b) = []" "evb_ok (ZERO_CHAIN b)" "tight (ZERO_CHAIN b)" "plain (ZERO_CHAIN b)"
  by (simp_all add: ZERO_CHAIN_def content_def evb_ok_def tight_def plain_def)

lemma evbuffer_drain_ok:
  assumes ok: "evb_ok b" and f: "\<not> freeze_start b"
  shows "\<exists>b'. evbuffer_drain b n = Some (b', 0) \<and> content b' = drop n (content b) \<and> evb_ok b' \<and>
     (tight b \<longrightarrow> tight b') \<and> (plain b \<longrightarrow> plain b') \<and>
     freeze_start b' = freeze_start b \<and> freeze_end b' = freeze_end b"
proof (cases "total_len b = 0")
  case True
  then have "content b = []" using evb_okD(2) [OF ok] by simp
  then show ?thesis using True ok f by (simp add: evbuffer_drain_def)
next
  case False
  note np = no_pinned_last [OF ok]
  show ?thesis
  proof (cases "n \<ge> total_len b")
    case True
    let ?b = "evbuffer_invoke_callbacks (deleted_n (total_len b)
                (ZERO_CHAIN (emit (evbuffer_free_all_chains (chains b)) b)))"
    have "evbuffer_drain b n = Some (?b, 0)"
      using False f np True by (simp add: evbuffer_drain_def Let_def)
    moreover have "drop n (content b) = []" using evb_okD(2) [OF ok] True by simp
    moreover have "freeze_start ?b = freeze_start b" "freeze_end ?b = freeze_end b"
      by (simp_all add: ZERO_CHAIN_def)
    ultimately show ?thesis using ZERO_CHAIN_ok by simp
  next
    case less: False
    have "n < sum_list (map off (chains b))" using less sum_off_total [OF ok] by simp
    then obtain pre c rest es where d: "chains b = pre @ c # rest" "sum_list (map off pre) \<le> n"
      "n - sum_list (map off pre) < off c"
      "drain_loop (chains b) n (last_with_datap b) =
         Some (c # rest, n - sum_list (map off pre), last_with_datap b - length pre, es)"
      using drain_loop_stops [OF evb_okD(1) [OF ok]] by blast
    define k where "k = n - sum_list (map off pre)"
    have k: "n = sum_list (map off pre) + k" "k < off c" using d(2,3) by (simp_all add: k_def)
    let ?b0 = "b\<lparr>chains := c\<lparr>misalign := misalign c + k, off := off c - k\<rparr> # rest,
                last_with_datap := last_with_datap b - length pre, total_len := total_len b - n\<rparr>"
    let ?b = "evbuffer_invoke_callbacks (deleted_n n (emit es ?b0))"
    have loop: "drain_loop (chains b) n (last_with_datap b) =
        Some (c # rest, k, last_with_datap b - length pre, es)"
      using d(4) by (simp only: k_def)
    have head: "drain_head (c # rest) k =
        Some (c\<lparr>misalign := misalign c + k, off := off c - k\<rparr> # rest)"
      using k(2) by (simp add: drain_head_def)
    have eq: "evbuffer_drain b n = Some (?b, 0)"
      using False f np less by (simp add: evbuffer_drain_def Let_def loop head)
    note cut = front_cut_ok [OF ok d(1) k, of ?b0]
    have "content ?b0 = drop n (content b)" "evb_ok ?b0" "tight b \<Longrightarrow> tight ?b0"
      "plain b \<Longrightarrow> plain ?b0"
      using cut by simp_all
    with eq show ?thesis by simp
  qed
qed

section \<open>Copying out and removing\<close>

lemma copyout_loop_take:
  assumes "\<forall>c \<in> set cs. chain_ok c" "n \<le> sum_list (map off cs)"
  shows "copyout_loop cs n = Some (take n (content_of cs))"
  using assms
proof (induction cs arbitrary: n)
  case (Cons c cs)
  have c: "length (chain_data c) = off c" "chain_ok c" using Cons.prems by simp_all
  show ?case
  proof (cases "n \<ge> off c")
    case True
    then have "copyout_loop cs (n - off c) = Some (take (n - off c) (content_of cs))"
      using Cons.IH [of "n - off c"] Cons.prems by auto
    then show ?thesis using True c by (simp add: chain_read)
  next
    case False
    then show ?thesis using c by (simp add: chain_read_part)
  qed
qed simp

lemma evbuffer_copyout_ok:
  assumes ok: "evb_ok b" and f: "\<not> freeze_start b"
  shows "evbuffer_copyout b n = Some (take n (content b), int (min n (total_len b)))"
proof -
  let ?k = "if n \<ge> total_len b then total_len b else n"
  have "?k \<le> sum_list (map off (chains b))" using sum_off_total [OF ok] by simp
  from copyout_loop_take [OF evb_okD(1) [OF ok] this]
  have "copyout_loop (chains b) ?k = Some (take ?k (content b))" by (simp add: content_def)
  moreover have "take ?k (content b) = take n (content b)" using evb_okD(2) [OF ok] by simp
  moreover have "content b = [] \<longleftrightarrow> total_len b = 0" using evb_okD(2) [OF ok] by auto
  ultimately show ?thesis using f by (auto simp: evbuffer_copyout_def Let_def min_def)
qed

lemma c_int_small: "0 \<le> x \<Longrightarrow> x < 2 ^ 31 \<Longrightarrow> c_int x = x"
  by (simp add: c_int_def signed_take_bit_int_eq_self)

lemma evbuffer_remove_ok:
  assumes "evb_ok b" "\<not> freeze_start b"
  shows "\<exists>b'. evbuffer_remove b n =
       Some (b', take n (content b), c_int (int (min n (length (content b))))) \<and>
     content b' = drop n (content b) \<and> evb_ok b' \<and> (tight b \<longrightarrow> tight b') \<and>
     (plain b \<longrightarrow> plain b') \<and> freeze_start b' = freeze_start b \<and> freeze_end b' = freeze_end b"
proof -
  let ?k = "min n (total_len b)"
  have tot: "total_len b = length (content b)" using evb_okD(2) [OF assms(1)] .
  obtain b' where b': "evbuffer_drain b ?k = Some (b', 0)" "content b' = drop ?k (content b)"
    "evb_ok b'" "tight b \<longrightarrow> tight b'" "plain b \<longrightarrow> plain b'" "freeze_start b' = freeze_start b"
    "freeze_end b' = freeze_end b"
    using evbuffer_drain_ok [OF assms] by blast
  have d: "drop ?k (content b) = drop n (content b)" using tot by (simp add: min_def)
  show ?thesis
  proof (cases "?k = 0")
    case True
    then have "n = 0 \<or> content b = []" using tot by (auto simp: min_def split: if_splits)
    then have "drop n (content b) = content b" "take n (content b) = []" by auto
    then show ?thesis
      using True evbuffer_copyout_ok [OF assms] assms tot by (simp add: evbuffer_remove_def)
  next
    case False
    then show ?thesis
      using evbuffer_copyout_ok [OF assms, of n] b' d tot
      by (intro exI [of _ b']) (simp add: evbuffer_remove_def)
  qed
qed

section \<open>Moving whole buffers\<close>

lemma PRESERVE_none: "evb_ok b \<Longrightarrow> PRESERVE_PINNED m b = Some (Inr (b, []))"
  using no_pinned_last [of b] by (simp add: PRESERVE_PINNED_def)

lemma RESTORE_none: "RESTORE_PINNED b [] = ZERO_CHAIN b"
  by (simp add: RESTORE_PINNED_def ZERO_CHAIN_def)

lemma data_all_tight:
  assumes "evb_ok b" "tight b" "content b \<noteq> []"
  shows "\<forall>c \<in> set (chains b). off c \<noteq> 0" "chains b \<noteq> []"
    "Suc (last_with_datap b) = length (chains b)"
  using evb_okD(4) [OF assms(1)] assms(2)
  by (cases rule: tight_cases; use assms(3) in \<open>simp add: content_def\<close>)+

text \<open>Chains of two tight buffers with data, one behind the other.\<close>

lemma joined_ok:
  assumes a: "evb_ok a" "tight a" "content a \<noteq> []" and b: "evb_ok b" "tight b" "content b \<noteq> []"
    and len: "total_len a + total_len b \<le> SIZE_MAX"
    and c: "chains c = chains a @ chains b"
      "last_with_datap c = length (chains a) + last_with_datap b"
      "total_len c = total_len a + total_len b"
  shows "content c = content a @ content b" "evb_ok c" "tight c" "plain a \<Longrightarrow> plain b \<Longrightarrow> plain c"
proof -
  note ta = data_all_tight [OF a] and tb = data_all_tight [OF b]
  show cc: "content c = content a @ content b" by (simp add: content_def c)
  have "lwd_ok (chains a @ chains b) (length (chains a) + last_with_datap b)"
    using ta tb by (intro lwd_okI_all) auto
  then show "evb_ok c"
    using a(1) b(1) c cc len by (auto simp: evb_ok_def)
  show "tight c" using c tb by (simp add: tight_def)
  show "plain a \<Longrightarrow> plain b \<Longrightarrow> plain c" by (auto simp: plain_def c)
qed

lemma evbuffer_add_buffer_ok:
  assumes out: "evb_ok out" "tight out" "\<not> freeze_end out"
    and inb: "evb_ok inb" "tight inb" "\<not> freeze_start inb"
    and len: "total_len out + total_len inb \<le> SIZE_MAX"
  shows "\<exists>out' inb'. evbuffer_add_buffer m False out inb = Some (out', inb', 0) \<and>
     content out' = content out @ content inb \<and> content inb' = [] \<and>
     evb_ok out' \<and> tight out' \<and> evb_ok inb' \<and> tight inb' \<and>
     (plain out \<and> plain inb \<longrightarrow> plain out' \<and> plain inb') \<and>
     freeze_end out' = freeze_end out \<and> freeze_start inb' = freeze_start inb"
proof (cases "total_len inb = 0")
  case True
  then have "content inb = []" using evb_okD(2) [OF inb(1)] by simp
  then show ?thesis using True assms by (simp add: evbuffer_add_buffer_def Let_def)
next
  case nz: False
  then have ci: "content inb \<noteq> []" using evb_okD(2) [OF inb(1)] by auto
  note pre = PRESERVE_none [OF inb(1), of m]
  let ?in = "evbuffer_invoke_callbacks (deleted_n (total_len inb) (ZERO_CHAIN inb))"
  have fi: "freeze_start ?in = freeze_start inb" by (simp add: ZERO_CHAIN_def)
  show ?thesis
  proof (cases "total_len out = 0")
    case True
    then have co: "content out = []" using evb_okD(2) [OF out(1)] by simp
    let ?c = "COPY_CHAIN (emit (evbuffer_free_all_chains (chains out)) out) inb"
    have c: "content ?c = content inb" "evb_ok ?c" "tight ?c" "plain inb \<Longrightarrow> plain ?c"
      using inb by (simp_all add: COPY_CHAIN_def content_def evb_ok_def tight_def plain_def)
    have "evbuffer_add_buffer m False out inb =
        Some (evbuffer_invoke_callbacks (added (total_len inb) ?c), ?in, 0)"
      using nz True out inb pre by (simp add: evbuffer_add_buffer_def RESTORE_none Let_def)
    then show ?thesis
      using c co fi ZERO_CHAIN_ok by (simp add: COPY_CHAIN_def)
  next
    case False
    then have co: "content out \<noteq> []" using evb_okD(2) [OF out(1)] by auto
    then have "chains out \<noteq> []" by (auto simp: content_def)
    moreover have "SZ (total_len out + total_len inb) = total_len out + total_len inb"
      using len by simp
    ultimately obtain c where c: "APPEND_CHAIN out inb = Some c"
      "chains c = chains out @ chains inb"
      "last_with_datap c = length (chains out) + last_with_datap inb"
      "total_len c = total_len out + total_len inb" "freeze_end c = freeze_end out"
      by (simp add: APPEND_CHAIN_def)
    note j = joined_ok [OF out(1,2) co inb(1,2) ci len c(2-4)]
    have "evbuffer_add_buffer m False out inb =
        Some (evbuffer_invoke_callbacks (added (total_len inb) c), ?in, 0)"
      using nz False out inb pre c(1) by (simp add: evbuffer_add_buffer_def RESTORE_none Let_def)
    then show ?thesis
      using j c fi ZERO_CHAIN_ok by simp
  qed
qed

lemma evbuffer_prepend_buffer_ok:
  assumes out: "evb_ok out" "tight out" "\<not> freeze_start out"
    and inb: "evb_ok inb" "tight inb" "\<not> freeze_start inb"
    and len: "total_len out + total_len inb \<le> SIZE_MAX"
  shows "\<exists>out' inb'. evbuffer_prepend_buffer m False out inb = Some (out', inb', 0) \<and>
     content out' = content inb @ content out \<and> content inb' = [] \<and>
     evb_ok out' \<and> tight out' \<and> evb_ok inb' \<and> tight inb'"
proof (cases "total_len inb = 0")
  case True
  then have "content inb = []" using evb_okD(2) [OF inb(1)] by simp
  then show ?thesis using True assms by (simp add: evbuffer_prepend_buffer_def Let_def)
next
  case nz: False
  then have ci: "content inb \<noteq> []" using evb_okD(2) [OF inb(1)] by auto
  note pre = PRESERVE_none [OF inb(1), of m]
  let ?in = "evbuffer_invoke_callbacks (deleted_n (total_len inb) (ZERO_CHAIN inb))"
  show ?thesis
  proof (cases "total_len out = 0")
    case True
    then have co: "content out = []" using evb_okD(2) [OF out(1)] by simp
    let ?c = "COPY_CHAIN (emit (evbuffer_free_all_chains (chains out)) out) inb"
    have c: "content ?c = content inb" "evb_ok ?c" "tight ?c"
      using inb by (simp_all add: COPY_CHAIN_def content_def evb_ok_def tight_def)
    have "evbuffer_prepend_buffer m False out inb =
        Some (evbuffer_invoke_callbacks (added (total_len inb) ?c), ?in, 0)"
      using nz True out inb pre by (simp add: evbuffer_prepend_buffer_def RESTORE_none Let_def)
    then show ?thesis
      using c co ZERO_CHAIN_ok by simp
  next
    case False
    then have co: "content out \<noteq> []" using evb_okD(2) [OF out(1)] by auto
    have ne: "chains out \<noteq> []" "chains inb \<noteq> []" using co ci by (auto simp: content_def)
    note t = data_all_tight [OF out(1,2) co]
    have s: "slot (chains inb @ chains out) (if last_with_datap out = 0 then 0
               else length (chains inb) + last_with_datap out) \<noteq> None"
      using t ne by (auto simp: slot_def)
    have sz: "SZ (total_len out + total_len inb) = total_len inb + total_len out"
      using len by (simp add: add.commute)
    obtain c where c: "PREPEND_CHAIN out inb = Some c"
      "chains c = chains inb @ chains out"
      "last_with_datap c = length (chains inb) + last_with_datap out"
      "total_len c = total_len inb + total_len out"
      using s sz ne by (simp add: PREPEND_CHAIN_def)
    have len': "total_len inb + total_len out \<le> SIZE_MAX" using len by simp
    note j = joined_ok [OF inb(1,2) ci out(1,2) co len' c(2-4)]
    have "evbuffer_prepend_buffer m False out inb =
        Some (evbuffer_invoke_callbacks (added (total_len inb) c), ?in, 0)"
      using nz False out inb pre c(1) by (simp add: evbuffer_prepend_buffer_def RESTORE_none Let_def)
    then show ?thesis using j ZERO_CHAIN_ok by simp
  qed
qed

section \<open>Moving a part of a buffer\<close>

lemma take_chains_stops:
  assumes "sum_list (map off pre) \<le> n" "n - sum_list (map off pre) < off c" "length pre \<le> l"
  shows "take_chains (pre @ c # rest) n (Some l) =
     Some (pre, c # rest, n - sum_list (map off pre),
           if pre \<noteq> [] \<and> length pre = l then None else Some (l - length pre))"
  using assms
proof (induction pre arbitrary: n l)
  case (Cons p ps)
  have "off p \<le> n" "l \<noteq> 0" using Cons.prems by auto
  moreover have "sum_list (map off ps) \<le> n - off p" "n - off p - sum_list (map off ps) < off c"
    using Cons.prems by auto
  ultimately show ?case
    using Cons.IH [of "n - off p" "l - 1"] Cons.prems by (cases ps) (auto simp: diff_diff_eq)
qed simp

lemma advance_from_all: "\<forall>c \<in> set cs. off c \<noteq> 0 \<Longrightarrow> advance_from cs = length cs - 1"
  by (induction cs rule: advance_from.induct) auto

text \<open>The destination after taking over the chains \<open>t\<close>, all with data.\<close>

lemma take_over_ok:
  assumes ok: "evb_ok dst" "tight dst" and t: "\<forall>c \<in> set t. off c \<noteq> 0 \<and> chain_ok c" "t \<noteq> []"
    and len: "total_len dst + sum_list (map off t) \<le> SIZE_MAX"
  obtains d1 i where "evbuffer_free_trailing_empty_chains dst = Some (d1, i)"
    "\<And>d3. d3 = (fst (advance_last_with_data (d1\<lparr>chains := chains d1 @ t\<rparr>)))
        \<lparr>total_len := SZ (total_len (fst (advance_last_with_data (d1\<lparr>chains := chains d1 @ t\<rparr>)))
                          + sum_list (map off t))\<rparr> \<Longrightarrow>
       content d3 = content dst @ content_of t \<and> evb_ok d3 \<and> tight d3 \<and>
       (plain dst \<and> (\<forall>c \<in> set t. \<not> has_flag c EVBUFFER_IMMUTABLE) \<longrightarrow> plain d3) \<and>
       freeze_start d3 = freeze_start dst \<and> freeze_end d3 = freeze_end dst \<and>
       total_len d3 = total_len dst + sum_list (map off t)"
proof -
  obtain xs ys where s: "chains dst = xs @ ys" "\<forall>c \<in> set xs. off c \<noteq> 0" "\<forall>c \<in> set ys. off c = 0"
    "last_with_datap dst = length xs - 1" "data_chains (chains dst) = xs"
    using evb_okD(4) [OF ok(1)] by (rule lwd_okE)
  have i: "last_with_datap dst + first_victim (drop (last_with_datap dst) (chains dst)) = length xs"
    using victim_index [OF ok(1)] s(5) by simp
  obtain es where free: "evbuffer_free_trailing_empty_chains dst =
      Some (emit es (dst\<lparr>chains := xs\<rparr>), length xs)"
  proof (cases "ys = []")
    case True
    then show thesis
      using s i that [of "[]"]
      by (simp add: evbuffer_free_trailing_empty_chains_def Let_def emit_def)
  next
    case False
    moreover have "evbuffer_chains_all_empty ys" using s(3) by (simp add: all_empty_iff)
    ultimately show thesis
      using s i that [of "evbuffer_free_all_chains ys"]
      by (simp add: evbuffer_free_trailing_empty_chains_def Let_def emit_def)
  qed
  let ?d1 = "emit es (dst\<lparr>chains := xs\<rparr>)"
  let ?L = "last_with_datap dst"
  let ?d2 = "fst (advance_last_with_data (?d1\<lparr>chains := chains ?d1 @ t\<rparr>))"
  let ?d3 = "?d2\<lparr>total_len := SZ (total_len ?d2 + sum_list (map off t))\<rparr>"
  have all: "\<forall>c \<in> set (xs @ t). off c \<noteq> 0" using s(2) t(1) by auto
  have "advance_from (drop ?L (xs @ t)) = length (drop ?L (xs @ t)) - 1"
    using all by (intro advance_from_all) (meson in_set_dropD)
  moreover have "?L < length (xs @ t)" using s(4) t(2) by (cases xs) auto
  ultimately have L: "last_with_datap ?d2 = length (xs @ t) - 1"
    by (simp add: advance_last_with_data_def Let_def)
  have ch: "chains ?d2 = xs @ t" "total_len ?d2 = total_len dst" "freeze_start ?d2 = freeze_start dst"
    "freeze_end ?d2 = freeze_end dst"
    by (simp_all add: advance_last_with_data_def Let_def)
  have tot: "total_len ?d3 = total_len dst + sum_list (map off t)" using ch len by simp
  have cont: "content ?d3 = content dst @ content_of t"
    using ch s content_of_empties [OF s(3)] by (simp add: content_def)
  have ct: "length (content_of t) = sum_list (map off t)"
    using t(1) by (intro length_content_of) simp
  have "lwd_ok (chains ?d3) (last_with_datap ?d3)"
    using all L ch by (simp add: lwd_okI_all del: set_append)
  moreover have "\<forall>c \<in> set (chains ?d3). chain_ok c"
    using ch t(1) s(1) evb_okD(1) [OF ok(1)] by auto
  moreover have "total_len ?d3 = length (content ?d3)"
    using tot cont ct evb_okD(2) [OF ok(1)] by simp
  ultimately have "evb_ok ?d3" using tot len by (simp add: evb_ok_def)
  moreover have "tight ?d3" using L ch t(2) by (simp add: tight_def)
  moreover have "plain dst \<and> (\<forall>c \<in> set t. \<not> has_flag c EVBUFFER_IMMUTABLE) \<longrightarrow> plain ?d3"
    using ch s(1) by (auto simp: plain_def)
  ultimately show thesis
    using free cont tot ch by (intro that [OF free]) simp
qed

lemma evbuffer_remove_buffer_ok:
  assumes src: "evb_ok src" "tight src" "plain src" "\<not> freeze_start src"
    and dst: "evb_ok dst" "tight dst" "plain dst" "\<not> freeze_end dst" and m: "allocs m"
    and len: "total_len src + total_len dst \<le> EVBUFFER_CHAIN_MAX - EVBUFFER_CHAIN_SIZE"
  shows "\<exists>src' dst'. evbuffer_remove_buffer m m2 False src dst n =
       Some (src', dst', c_int (int (min n (length (content src))))) \<and>
     content dst' = content dst @ take n (content src) \<and> content src' = drop n (content src) \<and>
     evb_ok src' \<and> tight src' \<and> plain src' \<and> evb_ok dst' \<and> tight dst' \<and> plain dst'"
proof -
  have tot: "total_len src = length (content src)" using evb_okD(2) [OF src(1)] .
  have maxs: "EVBUFFER_CHAIN_MAX - EVBUFFER_CHAIN_SIZE \<le> SIZE_MAX"
    by (simp add: EVBUFFER_CHAIN_MAX_def EVBUFFER_CHAIN_SIZE_def SIZE_MAX_def)
  consider (zero) "n = 0" | (all) "n \<noteq> 0" "n \<ge> total_len src" | (part) "n \<noteq> 0" "n < total_len src"
    by linarith
  then show ?thesis
  proof cases
    case zero
    then show ?thesis using src dst by (simp add: evbuffer_remove_buffer_def c_int_def)
  next
    case all
    have "total_len dst + total_len src \<le> SIZE_MAX" using len maxs by simp
    from evbuffer_add_buffer_ok [OF dst(1,2,4) src(1,2,4) this, of m2] obtain d' s' where
      a: "evbuffer_add_buffer m2 False dst src = Some (d', s', 0)"
      "content d' = content dst @ content src" "content s' = []" "evb_ok d'" "tight d'" "evb_ok s'"
      "tight s'" "plain d'" "plain s'"
      using src(3) dst(3) by blast
    have "min n (length (content src)) = total_len src" using all(2) tot by simp
    then show ?thesis
      using all a src(4) dst(4) tot by (simp add: evbuffer_remove_buffer_def)
  next
    case part
    have "n < sum_list (map off (chains src))" using part(2) sum_off_total [OF src(1)] by simp
    then obtain pre c rest es where d: "chains src = pre @ c # rest" "sum_list (map off pre) \<le> n"
      "n - sum_list (map off pre) < off c"
      using drain_loop_stops [OF evb_okD(1) [OF src(1)], of n 0] by blast
    define k where "k = n - sum_list (map off pre)"
    have k: "n = sum_list (map off pre) + k" "k < off c" using d(2,3) by (simp_all add: k_def)
    let ?L = "last_with_datap src"
    have "lwd_ok (pre @ c # rest) ?L" using evb_okD(4) [OF src(1)] by (simp only: d(1))
    then have L: "length pre \<le> ?L" using split_at_data [of pre c rest ?L] k(2) by simp
    have tk: "take_chains (chains src) n (Some ?L) = Some (pre, c # rest, k,
        if pre \<noteq> [] \<and> length pre = ?L then None else Some (?L - length pre))"
      unfolding d(1) k_def by (rule take_chains_stops [OF d(2,3) L])
    have cs: "content src \<noteq> []" using part tot by auto
    note td = data_all_tight [OF src(1,2) cs]
    have preok: "\<forall>x \<in> set pre. off x \<noteq> 0 \<and> chain_ok x \<and> \<not> has_flag x EVBUFFER_IMMUTABLE"
      using td(1) evb_okD(1) [OF src(1)] src(3) d(1) by (auto simp: plain_def)
    have cok: "chain_ok c" using evb_okD(1) [OF src(1)] d(1) by simp
    have lpre: "length (content_of pre) = sum_list (map off pre)"
      using preok by (intro length_content_of) simp
    have nread: "n - k = sum_list (map off pre)" using k(1) by simp
    have pre0: "pre = [] \<longleftrightarrow> n - k = 0"
      using preok by (cases pre) (auto simp: nread)
    have all_ok: "\<forall>x \<in> set (pre @ c # rest). chain_ok x" using evb_okD(1) [OF src(1)] d(1) by simp
    note split = content_of_drop [OF all_ok d(2,3), folded k_def]
    have tn: "take n (content src) = content_of pre @ take k (chain_data c)"
      using split(2) by (simp only: content_def d(1))
    have rd: "mem_read (ch_mem c) (misalign c) k = Some (take k (chain_data c))"
      using chain_read_part [OF cok] k(2) by simp
    let ?src1 = "src\<lparr>chains := c # rest, last_with_datap := ?L - length pre\<rparr>"
    let ?c' = "c\<lparr>misalign := misalign c + k, off := off c - k\<rparr>"
    let ?src2 = "?src1\<lparr>chains := ?c' # rest, total_len := total_len src - n\<rparr>"
    have s2: "content ?src2 = drop n (content src)" "evb_ok ?src2" "tight ?src2" "plain ?src2"
      using front_cut_ok [OF src(1) d(1) k, of ?src2] src(2,3) by simp_all
    have lsum: "total_len dst + sum_list (map off pre) \<le> SIZE_MAX"
      using len maxs k(1) part(2) by simp
    let ?k = "if pre \<noteq> [] \<and> length pre = ?L then None else Some (?L - length pre)"
    let ?moved = "move_chains src dst pre (c # rest) (n - k) ?k"
    have "\<exists>dst1. ?moved = Some (?src1, dst1) \<and> content dst1 = content dst @ content_of pre \<and>
        evb_ok dst1 \<and> tight dst1 \<and> plain dst1 \<and> freeze_end dst1 = freeze_end dst \<and>
        total_len dst1 = total_len dst + sum_list (map off pre)"
    proof (cases "pre = []")
      case True
      have "src\<lparr>last_with_datap := ?L\<rparr> = ?src1" using d(1) True by simp
      then show ?thesis using dst pre0 True by (simp add: move_chains_def)
    next
      case False
      have "\<forall>x \<in> set pre. off x \<noteq> 0 \<and> chain_ok x" using preok by simp
      then obtain d1 i where f: "evbuffer_free_trailing_empty_chains dst = Some (d1, i)"
        "\<And>d3. d3 = (fst (advance_last_with_data (d1\<lparr>chains := chains d1 @ pre\<rparr>)))
            \<lparr>total_len := SZ (total_len (fst (advance_last_with_data (d1\<lparr>chains := chains d1 @ pre\<rparr>)))
                              + sum_list (map off pre))\<rparr> \<Longrightarrow>
           content d3 = content dst @ content_of pre \<and> evb_ok d3 \<and> tight d3 \<and>
           (plain dst \<and> (\<forall>c \<in> set pre. \<not> has_flag c EVBUFFER_IMMUTABLE) \<longrightarrow> plain d3) \<and>
           freeze_start d3 = freeze_start dst \<and> freeze_end d3 = freeze_end dst \<and>
           total_len d3 = total_len dst + sum_list (map off pre)"
        using take_over_ok [OF dst(1,2) _ False lsum] by blast
      let ?d2 = "fst (advance_last_with_data (d1\<lparr>chains := chains d1 @ pre\<rparr>))"
      let ?d3 = "?d2\<lparr>total_len := SZ (total_len ?d2 + (n - k))\<rparr>"
      have eq: "?moved = Some (?src1, added (n - k) ?d3)"
        using False pre0 unfolding move_chains_def f(1) by (auto simp: Let_def)
      have "content ?d3 = content dst @ content_of pre \<and> evb_ok ?d3 \<and> tight ?d3 \<and> plain ?d3 \<and>
           freeze_end ?d3 = freeze_end dst \<and> total_len ?d3 = total_len dst + sum_list (map off pre)"
        using f(2) [OF refl, folded nread] preok dst(3) by (simp only: nread) blast
      with eq show ?thesis
        by (intro exI [of _ "added (n - k) ?d3"]) (simp only: evb_ok_simps tight_simps
            plain_simps content_simps counts_simps simp_thms)
    qed
    then obtain dst1 where d1: "?moved = Some (?src1, dst1)"
      "content dst1 = content dst @ content_of pre" "evb_ok dst1" "tight dst1" "plain dst1"
      "freeze_end dst1 = freeze_end dst" "total_len dst1 = total_len dst + sum_list (map off pre)"
      by blast
    have "total_len dst1 + length (take k (chain_data c)) \<le> EVBUFFER_CHAIN_MAX - EVBUFFER_CHAIN_SIZE"
      using d1(7) len part(2) k(1) by (simp add: min_def)
    then obtain dst2 where d2: "evbuffer_add m dst1 (take k (chain_data c)) = Some (dst2, 0)"
      "content dst2 = content dst1 @ take k (chain_data c)" "evb_ok dst2" "tight dst2" "plain dst2"
      using evbuffer_add_ok [OF d1(3,4) _ m] d1(5,6) dst(4) by blast
    let ?S = "evbuffer_invoke_callbacks (deleted_n n ?src2)"
    have pre_if: "(if n - k \<noteq> 0 then x else pre @ x) = x" for x :: "chain list"
      using pre0 by auto
    have guards: "\<not> n \<ge> total_len src" "n \<noteq> 0" "\<not> (freeze_end dst \<or> freeze_start src)"
      using part src(4) dst(4) by simp_all
    have "evbuffer_remove_buffer m m2 False src dst n =
        Some (?S, evbuffer_invoke_callbacks dst2, c_int (int n))"
      unfolding evbuffer_remove_buffer_def tk Let_def bind.bind_lunit
      using guards by (simp only: simp_thms if_False bind.bind_lunit prod.case d1(1) list.case
          rd d2(1) list.sel pre_if)
    moreover have "content ?S = drop n (content src)" "evb_ok ?S" "tight ?S" "plain ?S"
      using s2 by simp_all
    moreover have "min n (length (content src)) = n" using part(2) tot by simp
    moreover have "content dst2 = content dst @ take n (content src)"
      using d2(2) d1(2) tn by simp
    ultimately show ?thesis using d2 by simp
  qed
qed

lemma content_split: "content b = content_of (take k (chains b)) @ content_of (drop k (chains b))"
  unfolding content_def content_of_def concat_append [symmetric] map_append [symmetric] by simp

end
