(* ===== verification/EvbufferLines.thy ===== *)
theory EvbufferLines
  imports EvbufferMove
begin

text \<open>
  Positions, searching and lines: what the operations over chains compute, on the bytes the
  buffer holds. \<open>at_pos b it n\<close> says that the position \<open>it\<close> stands before byte \<open>n\<close> of \<open>b\<close>;
  \<open>find_sub\<close> and \<open>line_end\<close> say on a list of bytes where a string occurs first and where the
  first line ends.
\<close>

section \<open>The first byte with a property\<close>

lemma index_of_append:
  "index_of P (xs @ ys) =
     (case index_of P xs of Some i \<Rightarrow> Some i | None \<Rightarrow> map_option ((+) (length xs)) (index_of P ys))"
proof (induction xs)
  case Nil
  then show ?case by (cases "index_of P ys") auto
next
  case (Cons x xs)
  then show ?case by (cases "index_of P xs"; cases "index_of P ys") auto
qed

lemma index_of_Some: "index_of P xs = Some i \<longleftrightarrow> i < length xs \<and> P (xs ! i) \<and> (\<forall>j < i. \<not> P (xs ! j))"
  by (induction xs arbitrary: i) (auto simp: nth_Cons less_Suc_eq_0_disj split: nat.splits)

lemma index_of_None: "index_of P xs = None \<longleftrightarrow> (\<forall>x \<in> set xs. \<not> P x)"
  by (induction xs) auto

lemma eol_in_chunk_eq: "eol_in_chunk s = index_of (\<lambda>x. x = 13 \<or> x = 10) s"
proof (induction s)
  case (Cons a s)
  from this [symmetric] show ?case by (auto simp: eol_in_chunk_def split: option.splits)
qed (simp add: eol_in_chunk_def)

text \<open>Two scans over pieces of 128 bytes find what one scan over everything finds.\<close>

lemma find_eol_char_eq: "find_eol_char s = index_of (\<lambda>x. x = 13 \<or> x = 10) s"
proof (induction s rule: find_eol_char.induct)
  case (1 s)
  have s: "index_of P s = index_of P (take CHUNK_SZ s @ drop CHUNK_SZ s)" for P by simp
  show ?case
  proof (cases "s = [] \<or> eol_in_chunk (take CHUNK_SZ s) \<noteq> None")
    case True
    then show ?thesis
      by (subst find_eol_char.simps, subst s, subst index_of_append) (auto simp: eol_in_chunk_eq)
  next
    case False
    then have l: "drop CHUNK_SZ s = [] \<or> length (take CHUNK_SZ s) = CHUNK_SZ" by auto
    have i: "find_eol_char (drop CHUNK_SZ s) = index_of (\<lambda>x. x = 13 \<or> x = 10) (drop CHUNK_SZ s)"
      using 1 False by auto
    show ?thesis
      using False l
      by (subst find_eol_char.simps, subst s, subst index_of_append)
        (auto simp: eol_in_chunk_eq i min_def split: option.splits)
  qed
qed

section \<open>Positions\<close>

definition at_pos :: "evbuffer \<Rightarrow> evbuffer_ptr \<Rightarrow> nat \<Rightarrow> bool" where
  "at_pos b it n \<longleftrightarrow> pos it = int n \<and>
     (\<exists>k. in_chain it = Some k \<and> k < length (chains b) \<and> pos_in_chain it \<le> off (chains b ! k) \<and>
        n = length (content_of (take k (chains b))) + pos_in_chain it)"

text \<open>A position at a byte, not behind the last one of its chain.\<close>

definition at_byte :: "evbuffer \<Rightarrow> evbuffer_ptr \<Rightarrow> nat \<Rightarrow> bool" where
  "at_byte b it n \<longleftrightarrow> at_pos b it n \<and> (\<forall>k. in_chain it = Some k \<longrightarrow> pos_in_chain it < off (chains b ! k))"

lemma at_byte_at_pos: "at_byte b it n \<Longrightarrow> at_pos b it n"
  by (simp add: at_byte_def)

lemma drop_content:
  "n = length (content_of (take k (chains b))) + i \<Longrightarrow>
     drop n (content b) = drop i (content_of (drop k (chains b)))"
  by (subst content_split [of b k]) simp

lemma at_byte_less:
  assumes "evb_ok b" "at_byte b it n"
  shows "n < length (content b)"
proof -
  obtain k where k: "in_chain it = Some k" "k < length (chains b)" "pos_in_chain it < off (chains b ! k)"
    "n = length (content_of (take k (chains b))) + pos_in_chain it"
    using assms(2) by (auto simp: at_byte_def at_pos_def)
  have "chains b ! k \<in> set (chains b)" using k(2) by simp
  then have "length (chain_data (chains b ! k)) = off (chains b ! k)"
    using evb_okD(1) [OF assms(1)] by simp
  moreover have "content_of (drop k (chains b)) =
      chain_data (chains b ! k) @ content_of (drop (Suc k) (chains b))"
    by (simp add: Cons_nth_drop_Suc [OF k(2), symmetric])
  ultimately show ?thesis using k by (subst content_split [of b k]) simp
qed

lemma first_ptr_at: "chains b \<noteq> [] \<Longrightarrow> at_pos b (first_ptr b) 0"
  by (simp add: at_pos_def first_ptr_def)

section \<open>Scanning chains\<close>

lemma chain_scan_ok:
  assumes "\<forall>c \<in> set cs. chain_ok c" "cs \<noteq> [] \<Longrightarrow> i \<le> off (hd cs)"
  shows "index_of P (drop i (content_of cs)) = None \<Longrightarrow> chain_scan (index_of P) k cs i p = None"
    "index_of P (drop i (content_of cs)) = Some q \<Longrightarrow>
       \<exists>k' i'. chain_scan (index_of P) k cs i p = Some (p + int q, k + k', i') \<and> k' < length cs \<and>
         i' < off (cs ! k') \<and> i + q = length (content_of (take k' cs)) + i'"
  using assms
proof (induction cs arbitrary: i k p q)
  case Nil
  { case 1 then show ?case by simp
  next
    case 2 then show ?case by simp }
next
  case (Cons c cs)
  have IH: "i = 0 \<Longrightarrow> \<forall>c \<in> set cs. chain_ok c \<Longrightarrow> index_of P (drop i (content_of cs)) = None \<Longrightarrow>
      chain_scan (index_of P) k cs i p = None"
    "i = 0 \<Longrightarrow> \<forall>c \<in> set cs. chain_ok c \<Longrightarrow> index_of P (drop i (content_of cs)) = Some q \<Longrightarrow>
       \<exists>k' i'. chain_scan (index_of P) k cs i p = Some (p + int q, k + k', i') \<and> k' < length cs \<and>
         i' < off (cs ! k') \<and> i + q = length (content_of (take k' cs)) + i'" for i k p q
    using Cons.IH [of i] by auto
  {
    case 1
    then show ?case using IH(1) [of 0]
      by (auto simp: index_of_append split: option.splits)
  next
    case 2
    then have c: "length (chain_data c) = off c" "i \<le> off c" "\<forall>c \<in> set cs. chain_ok c" by simp_all
    show ?case
    proof (cases "index_of P (drop i (chain_data c))")
      case (Some j)
      then have "j < off c - i" using c by (simp add: index_of_Some)
      then show ?thesis
        using 2(1) c Some by (intro exI [of _ 0] exI [of _ "i + j"]) (simp add: index_of_append)
    next
      case None
      then obtain q' where q: "index_of P (content_of cs) = Some q'" "q = off c - i + q'"
        using 2(1) c by (auto simp: index_of_append)
      from IH(2) [of 0 q' "Suc k" "p + int (off c - i)"] q(1) c(3) obtain k' i' where
        r: "chain_scan (index_of P) (Suc k) cs 0 (p + int (off c - i)) =
            Some (p + int (off c - i) + int q', Suc k + k', i')" "k' < length cs" "i' < off (cs ! k')"
          "q' = length (content_of (take k' cs)) + i'" by auto
      show ?thesis
        using r None q(2) c by (intro exI [of _ "Suc k'"] exI [of _ i']) simp
    qed
  }
qed

lemma at_posE:
  assumes "evb_ok b" "at_pos b it n"
  obtains k where "in_chain it = Some k" "k < length (chains b)" "pos it = int n"
    "n = length (content_of (take k (chains b))) + pos_in_chain it"
    "\<forall>c \<in> set (drop k (chains b)). chain_ok c" "pos_in_chain it \<le> off (hd (drop k (chains b)))"
    "drop n (content b) = drop (pos_in_chain it) (content_of (drop k (chains b)))"
    "drop k (chains b) \<noteq> []"
proof -
  obtain k where k: "in_chain it = Some k" "k < length (chains b)" "pos it = int n"
    "pos_in_chain it \<le> off (chains b ! k)"
    "n = length (content_of (take k (chains b))) + pos_in_chain it"
    using assms(2) by (auto simp: at_pos_def)
  show thesis
    by (rule that [OF k(1,2,3,5)])
      (use k evb_okD(1) [OF assms(1)] in \<open>auto simp: drop_content hd_drop_conv_nth dest: in_set_dropD\<close>)
qed

lemma at_pos_le:
  assumes "evb_ok b" "at_pos b it n"
  shows "n \<le> length (content b)"
proof -
  obtain k where k: "k < length (chains b)" "pos_in_chain it \<le> off (chains b ! k)"
    "n = length (content_of (take k (chains b))) + pos_in_chain it"
    using assms(2) by (auto simp: at_pos_def)
  have "length (chain_data (chains b ! k)) = off (chains b ! k)"
    using evb_okD(1) [OF assms(1)] k(1) by simp
  moreover have "content_of (drop k (chains b)) =
      chain_data (chains b ! k) @ content_of (drop (Suc k) (chains b))"
    by (simp add: Cons_nth_drop_Suc [OF k(1), symmetric])
  ultimately show ?thesis using k by (subst content_split [of b k]) simp
qed

text \<open>A position a number of chains and bytes further on.\<close>

lemma at_byte_further:
  assumes "evb_ok b" "in_chain it = Some k" "k < length (chains b)"
    and n: "n = length (content_of (take k (chains b))) + i"
    and k': "k' < length (drop k (chains b))" "i' < off (drop k (chains b) ! k')"
      "i + q = length (content_of (take k' (drop k (chains b)))) + i'"
    and it': "in_chain it' = Some (k + k')" "pos_in_chain it' = i'" "pos it' = int (n + q)"
  shows "at_byte b it' (n + q)"
proof -
  have "take (k + k') (chains b) = take k (chains b) @ take k' (drop k (chains b))"
    by (simp add: take_add)
  then have "content_of (take (k + k') (chains b)) =
      content_of (take k (chains b)) @ content_of (take k' (drop k (chains b)))"
    by simp
  then show ?thesis
    using assms by (auto simp: at_byte_def at_pos_def)
qed

lemma scan_ptr_ok:
  assumes "evb_ok b" "at_pos b it n"
  shows "index_of P (drop n (content b)) = None \<Longrightarrow> scan_ptr (index_of P) b it = None"
    "index_of P (drop n (content b)) = Some q \<Longrightarrow>
       \<exists>it'. scan_ptr (index_of P) b it = Some it' \<and> at_byte b it' (n + q)"
proof -
  obtain k where k: "in_chain it = Some k" "k < length (chains b)" "pos it = int n"
    "n = length (content_of (take k (chains b))) + pos_in_chain it"
    "\<forall>c \<in> set (drop k (chains b)). chain_ok c" "pos_in_chain it \<le> off (hd (drop k (chains b)))"
    "drop n (content b) = drop (pos_in_chain it) (content_of (drop k (chains b)))"
    using assms by (rule at_posE)
  show "scan_ptr (index_of P) b it = None" if "index_of P (drop n (content b)) = None"
    using that k chain_scan_ok(1) [OF k(5,6), of P k] by (simp add: scan_ptr_def)
  show "\<exists>it'. scan_ptr (index_of P) b it = Some it' \<and> at_byte b it' (n + q)"
    if q: "index_of P (drop n (content b)) = Some q"
  proof -
    obtain k' i' where r: "chain_scan (index_of P) k (drop k (chains b)) (pos_in_chain it) (pos it) =
        Some (pos it + int q, k + k', i')" "k' < length (drop k (chains b))"
      "i' < off (drop k (chains b) ! k')"
      "pos_in_chain it + q = length (content_of (take k' (drop k (chains b)))) + i'"
      using chain_scan_ok(2) [OF k(5,6), of P q k "pos it"] q k(7) by auto
    let ?it = "\<lparr>pos = pos it + int q, in_chain = Some (k + k'), pos_in_chain = i'\<rparr>"
    have "at_byte b ?it (n + q)"
      by (rule at_byte_further [OF assms(1) k(1,2,4) r(2,3,4)]) (use k(3) in simp_all)
    then show ?thesis using r(1) k(1) by (simp add: scan_ptr_def)
  qed
qed

section \<open>Reading and comparing at a position\<close>

lemma getchr_ok:
  assumes "evb_ok b" "at_byte b it n"
  shows "evbuffer_getchr b it = Some (content b ! n)"
proof -
  obtain k where k: "in_chain it = Some k" "k < length (chains b)"
    "n = length (content_of (take k (chains b))) + pos_in_chain it"
    "drop n (content b) = drop (pos_in_chain it) (content_of (drop k (chains b)))"
    by (rule at_posE [OF assms(1) at_byte_at_pos [OF assms(2)]]) blast
  have i: "pos_in_chain it < off (chains b ! k)" using assms(2) k(1) by (simp add: at_byte_def)
  let ?c = "chains b ! k"
  have c: "chain_ok ?c" using evb_okD(1) [OF assms(1)] k(2) by simp
  have "content_of (drop k (chains b)) = chain_data ?c @ content_of (drop (Suc k) (chains b))"
    by (simp add: Cons_nth_drop_Suc [OF k(2), symmetric])
  then have "hd (drop n (content b)) = chain_data ?c ! pos_in_chain it"
    using k(4) i c by (simp add: hd_drop_conv_nth nth_append)
  moreover have "chain_data ?c ! pos_in_chain it = ch_mem ?c ! (misalign ?c + pos_in_chain it)"
    using i c by (simp add: chain_data_def chain_ok_def)
  moreover have "misalign ?c + pos_in_chain it < length (ch_mem ?c)"
    using i c by (auto simp: chain_ok_def)
  ultimately show ?thesis
    using k(1,2) at_byte_less [OF assms]
    by (simp add: evbuffer_getchr_def slot_def hd_drop_conv_nth)
qed

lemma memcmp_zero: "length xs = length ys \<Longrightarrow> memcmp xs ys = 0 \<longleftrightarrow> xs = ys"
  by (induction xs ys rule: memcmp.induct) auto

lemma memcmp_append:
  "length xs = length ys \<Longrightarrow>
     memcmp (xs @ xs') (ys @ ys') = (if memcmp xs ys \<noteq> 0 then memcmp xs ys else memcmp xs' ys')"
  by (induction xs ys rule: memcmp.induct) auto

lemma memcmp_chains_ok:
  assumes "\<forall>c \<in> set cs. chain_ok c" "cs \<noteq> [] \<Longrightarrow> i \<le> off (hd cs)"
    "i + length what \<le> length (content_of cs)"
  shows "memcmp_chains cs i what = Some (memcmp (take (length what) (drop i (content_of cs))) what)"
  using assms
proof (induction cs arbitrary: i what)
  case Nil
  then show ?case by simp
next
  case (Cons c cs)
  then have c: "chain_ok c" "i \<le> off c" "length (chain_data c) = off c" "\<forall>c \<in> set cs. chain_ok c"
    by simp_all
  let ?n = "if length what + i > off c then off c - i else length what"
  let ?d = "take ?n (drop i (chain_data c))"
  have r: "mem_read (ch_mem c) (misalign c + i) ?n = Some ?d"
    using c(1,2) by (auto simp: mem_read_def chain_ok_def chain_data_def drop_take min_def add.commute)
  have d: "length ?d = ?n" "?n \<le> length what" using c by auto
  have t: "take (length what) (drop i (content_of (c # cs))) =
      ?d @ take (length what - ?n) (content_of cs)"
    using c by (auto simp: take_drop)
  have e: "memcmp (take (length what) (drop i (content_of (c # cs)))) what =
      (if memcmp ?d (take ?n what) \<noteq> 0 then memcmp ?d (take ?n what)
       else memcmp (take (length what - ?n) (content_of cs)) (drop ?n what))"
    unfolding t using memcmp_append [of ?d "take ?n what" _ "drop ?n what"] d by simp
  have "memcmp_chains cs 0 (drop ?n what) =
      Some (memcmp (take (length (drop ?n what)) (drop 0 (content_of cs))) (drop ?n what))"
    by (rule Cons.IH) (use Cons.prems(3) c in auto)
  then show ?case
    using r e by (cases "what = []") (simp_all add: Let_def)
qed

lemma ptr_memcmp_ok:
  assumes "evb_ok b" "at_pos b it n"
  shows "\<exists>r. evbuffer_ptr_memcmp b it what = Some r \<and>
     (r = 0 \<longleftrightarrow> take (length what) (drop n (content b)) = what)"
proof -
  obtain k where k: "in_chain it = Some k" "k < length (chains b)" "pos it = int n"
    "n = length (content_of (take k (chains b))) + pos_in_chain it"
    "\<forall>c \<in> set (drop k (chains b)). chain_ok c" "pos_in_chain it \<le> off (hd (drop k (chains b)))"
    "drop n (content b) = drop (pos_in_chain it) (content_of (drop k (chains b)))"
    using assms by (rule at_posE)
  have t: "total_len b = length (content b)" "total_len b \<le> SIZE_MAX"
    using assms(1) by (simp_all add: evb_ok_def)
  have lc: "length (content b) = length (content_of (take k (chains b))) + length (content_of (drop k (chains b)))"
    by (subst content_split [of b k]) simp
  show ?thesis
  proof (cases "n + length what \<le> total_len b")
    case True
    have "memcmp_chains (drop k (chains b)) (pos_in_chain it) what =
        Some (memcmp (take (length what) (drop n (content b))) what)"
      using memcmp_chains_ok [OF k(5,6)] k(4,7) lc True t(1) by simp
    moreover have lim: "\<not> SIZE_MAX - length what < n" using True t by linarith
    moreover have "length (take (length what) (drop n (content b))) = length what"
      using True t(1) by simp
    ultimately show ?thesis
      using k(1,3) True t lim memcmp_zero [of "take (length what) (drop n (content b))" what]
      by (simp add: evbuffer_ptr_memcmp_def from_ptr_def)
  next
    case False
    then have "take (length what) (drop n (content b)) \<noteq> what"
    proof -
      have "n \<le> length (content b)" by (rule at_pos_le [OF assms])
      then have "length (take (length what) (drop n (content b))) < length what"
        using False t(1) by simp
      then show ?thesis by force
    qed
    moreover have "evbuffer_ptr_memcmp b it what = Some (- 1)"
      using False k(3) by (simp add: evbuffer_ptr_memcmp_def)
    ultimately show ?thesis by auto
  qed
qed

section \<open>Searching\<close>

fun find_sub :: "bytes \<Rightarrow> bytes \<Rightarrow> nat option" where
  "find_sub what s =
     (if take (length what) s = what then Some 0
      else (case s of [] \<Rightarrow> None | _ # xs \<Rightarrow> map_option Suc (find_sub what xs)))"

declare find_sub.simps [simp del]

text \<open>\<open>find_sub\<close> is the first occurrence.\<close>

lemma find_sub_Some:
  "find_sub what s = Some q \<longleftrightarrow> q \<le> length s \<and> take (length what) (drop q s) = what \<and>
     (\<forall>j < q. take (length what) (drop j s) \<noteq> what)"
proof (induction s arbitrary: q)
  case Nil
  then show ?case by (auto simp: find_sub.simps)
next
  case (Cons x s)
  then show ?case
    by (subst find_sub.simps) (cases q, auto simp: less_Suc_eq_0_disj)
qed

lemma find_sub_None: "find_sub what s = None \<longleftrightarrow> (\<forall>j \<le> length s. take (length what) (drop j s) \<noteq> what)"
proof (induction s)
  case Nil
  then show ?case by (auto simp: find_sub.simps)
next
  case (Cons x s)
  then show ?case by (subst find_sub.simps) (simp add: less_Suc_eq_le [symmetric] All_less_Suc2)
qed

lemma find_sub_shift:
  assumes "n \<le> length s" "\<forall>j < n. take (length what) (drop j s) \<noteq> what"
  shows "find_sub what s = map_option ((+) n) (find_sub what (drop n s))"
  using assms
proof (induction n arbitrary: s)
  case 0
  then show ?case by (simp add: option.map_ident)
next
  case (Suc n)
  then obtain x xs where s: "s = x # xs" by (cases s) auto
  have "find_sub what xs = map_option ((+) n) (find_sub what (drop n xs))"
    by (rule Suc.IH) (use Suc.prems s in auto)
  then show ?case
    using Suc.prems(2) s
    by (subst find_sub.simps) (cases "find_sub what (drop n xs)", auto dest: spec [of _ 0])
qed

text \<open>No occurrence starts before the first byte that equals the first of \<open>what\<close>.\<close>

lemma no_sub_before:
  assumes "what \<noteq> []" "\<forall>j < q. s ! j \<noteq> hd what" "q \<le> length s"
  shows "\<forall>j < q. take (length what) (drop j s) \<noteq> what"
proof (intro allI impI notI)
  fix j assume j: "j < q" "take (length what) (drop j s) = what"
  then have "drop j s = s ! j # drop (Suc j) s" using assms(3) by (simp add: Cons_nth_drop_Suc)
  then have "hd what = s ! j" using j(2) assms(1) by (cases what) auto
  then show False using j assms(2) by metis
qed

lemma search_loop_ok:
  assumes ok: "evb_ok b" and w: "what \<noteq> []"
    and "length (chains b) - k + (length (content b) - n) < fuel"
    and "n = length (content_of (take k (chains b))) + i"
    and "if k < length (chains b) then i \<le> off (chains b ! k) else i = 0"
  shows "\<exists>it. search_loop fuel b what None k i (int n) = Some it \<and>
     (case find_sub what (drop n (content b)) of None \<Rightarrow> it = not_found | Some q \<Rightarrow> at_byte b it (n + q))"
  using assms(3-)
proof (induction fuel arbitrary: k i n)
  case 0
  then show ?case by simp
next
  case (Suc fuel)
  show ?case
  proof (cases "k < length (chains b)")
    case False
    then have "n = length (content b)" using Suc.prems(2,3) by (simp add: content_def)
    then show ?thesis using False w by (simp add: slot_def find_sub.simps)
  next
    case True
    define c where "c = chains b ! k"
    let ?s = "drop n (content b)" and ?t = "content_of (drop (Suc k) (chains b))"
    have c: "slot (chains b) k = Some c" "chain_ok c" "length (chain_data c) = off c" "i \<le> off c"
      using True Suc.prems(3) evb_okD(1) [OF ok] by (simp_all add: slot_def c_def)
    have "content_of (drop k (chains b)) = chain_data c @ ?t"
      by (simp add: Cons_nth_drop_Suc [OF True, symmetric] c_def)
    then have s: "?s = drop i (chain_data c) @ ?t"
      using drop_content [OF Suc.prems(2)] c(3,4) by simp
    have tk: "length (content_of (take (Suc k) (chains b))) = n + (off c - i)"
      using Suc.prems(2) c(3,4) by (simp add: take_Suc_conv_app_nth [OF True] c_def)
    have lc: "length (content b) = n + (off c - i) + length ?t"
      using tk content_split [of b "Suc k"] by simp
    have next_chain: "\<exists>it. search_loop fuel b what None (Suc k) 0 (int (n + (off c - i))) = Some it \<and>
       (case find_sub what (drop (n + (off c - i)) (content b)) of None \<Rightarrow> it = not_found
        | Some q \<Rightarrow> at_byte b it (n + (off c - i) + q))"
      by (rule Suc.IH) (use Suc.prems(1) True tk in auto)
    have shift: "find_sub what ?s = map_option ((+) j) (find_sub what (drop (n + j) (content b)))"
      if "j \<le> length ?s" "\<forall>x < j. take (length what) (drop x ?s) \<noteq> what" for j
      using find_sub_shift [OF that] by (simp add: add.commute)
    show ?thesis
    proof (cases "index_of (\<lambda>x. x = hd what) (drop i (chain_data c))")
      case None
      have "\<forall>x < off c - i. take (length what) (drop x ?s) \<noteq> what"
      proof (rule no_sub_before [OF w])
        show "\<forall>j < off c - i. ?s ! j \<noteq> hd what"
          using None c(3) by (auto simp: s nth_append index_of_None in_set_conv_nth)
      qed (simp add: lc)
      then have "find_sub what ?s =
          map_option ((+) (off c - i)) (find_sub what (drop (n + (off c - i)) (content b)))"
        by (intro shift) (simp_all add: lc)
      then show ?thesis
        using next_chain c(1) None by (auto simp: add.assoc split: option.splits)
    next
      case (Some j)
      then have j: "i + j < off c" "\<forall>x < j. ?s ! x \<noteq> hd what"
        using c(3,4) by (auto simp: index_of_Some s nth_append)
      let ?here = "\<lparr>pos = int n + int j, in_chain = Some k, pos_in_chain = i + j\<rparr>"
      have here: "at_byte b ?here (n + j)"
        using j(1) True Suc.prems(2) by (simp add: at_byte_def at_pos_def c_def)
      obtain r where r: "evbuffer_ptr_memcmp b ?here what = Some r"
        "r = 0 \<longleftrightarrow> take (length what) (drop (n + j) (content b)) = what"
        using ptr_memcmp_ok [OF ok at_byte_at_pos [OF here]] by blast
      have before: "\<forall>x < j. take (length what) (drop x ?s) \<noteq> what"
        by (rule no_sub_before [OF w j(2)]) (use j(1) lc in simp)
      show ?thesis
      proof (cases "r = 0")
        case True
        then have "find_sub what ?s = Some j"
          using before r(2) j(1) lc by (simp add: find_sub_Some add.commute)
        then show ?thesis using c(1) Some r(1) True here by simp
      next
        case False
        then have "take (length what) (drop j ?s) \<noteq> what" using r(2) by (simp add: add.commute)
        then have "\<forall>x < Suc j. take (length what) (drop x ?s) \<noteq> what"
          using before by (simp add: All_less_Suc)
        then have sh: "find_sub what ?s =
            map_option ((+) (Suc j)) (find_sub what (drop (n + Suc j) (content b)))"
          by (intro shift) (use j(1) lc in simp_all)
        have "\<exists>it. search_loop fuel b what None (if Suc (i + j) = off c then Suc k else k)
            (if Suc (i + j) = off c then 0 else Suc (i + j)) (int (n + Suc j)) = Some it \<and>
            (case find_sub what (drop (n + Suc j) (content b)) of None \<Rightarrow> it = not_found
             | Some q \<Rightarrow> at_byte b it (n + Suc j + q))"
          by (rule Suc.IH) (use Suc.prems j(1) lc True tk c_def in auto)
        then show ?thesis
          using c(1) Some r(1) False sh by (auto simp: algebra_simps split: option.splits if_splits)
      qed
    qed
  qed
qed

lemma find_sub_Nil: "what \<noteq> [] \<Longrightarrow> find_sub what [] = None"
  by (simp add: find_sub.simps)

lemma evbuffer_search_ok:
  assumes ok: "evb_ok b" and w: "what \<noteq> []" "length what \<le> SIZE_MAX div 2"
    and "case start of None \<Rightarrow> n = 0 | Some it \<Rightarrow> at_pos b it n"
  shows "\<exists>it. evbuffer_search b what start = Some it \<and>
     (case find_sub what (drop n (content b)) of None \<Rightarrow> it = not_found | Some q \<Rightarrow> at_byte b it (n + q))"
proof (cases "start = None \<and> chains b = []")
  case True
  then show ?thesis
    using w by (simp add: evbuffer_search_def evbuffer_search_range_def first_ptr_def content_def find_sub_Nil)
next
  case False
  define it where "it = (case start of None \<Rightarrow> first_ptr b | Some s \<Rightarrow> s)"
  have "at_pos b it n" using assms(4) False first_ptr_at [of b] by (auto simp: it_def split: option.splits)
  then obtain k where k: "in_chain it = Some k" "k < length (chains b)" "pos it = int n"
    "pos_in_chain it \<le> off (chains b ! k)"
    "n = length (content_of (take k (chains b))) + pos_in_chain it"
    by (auto simp: at_pos_def)
  have "length (content b) = sum_list (map off (chains b))"
    using evb_okD(1) [OF ok] by (simp add: content_def length_content_of)
  then have "length (chains b) - k + (length (content b) - n) < search_fuel b"
    by (simp add: search_fuel_def)
  from search_loop_ok [OF ok w(1) this k(5)] k show ?thesis
    using w by (simp add: evbuffer_search_def evbuffer_search_range_def it_def [symmetric])
qed

section \<open>Moving a position\<close>

lemma ptr_walk_ok:
  assumes "\<forall>c \<in> set cs. chain_ok c" "cs \<noteq> [] \<Longrightarrow> i \<le> off (hd cs)"
  shows "i + d \<ge> length (content_of cs) \<Longrightarrow> ptr_walk k cs i d = None"
    "i + d < length (content_of cs) \<Longrightarrow>
       \<exists>k' i'. ptr_walk k cs i d = Some (k + k', i') \<and> k' < length cs \<and>
         i' < off (cs ! k') \<and> i + d = length (content_of (take k' cs)) + i'"
  using assms
proof (induction cs arbitrary: i k d)
  case Nil
  { case 1 then show ?case by simp
  next
    case 2 then show ?case by simp }
next
  case (Cons c cs)
  {
    case 1
    then have "length (chain_data c) = off c" "i \<le> off c" by simp_all
    then show ?case using 1 Cons.IH(1) [of 0 "d - (off c - i)" "Suc k"] by simp
  next
    case 2
    then have c: "length (chain_data c) = off c" "i \<le> off c" "\<forall>c \<in> set cs. chain_ok c" by simp_all
    show ?case
    proof (cases "i + d < off c")
      case True
      then show ?thesis by (intro exI [of _ 0] exI [of _ "i + d"]) simp
    next
      case False
      then have "0 + (d - (off c - i)) < length (content_of cs)" using 2(1) c by simp
      from Cons.IH(2) [OF this c(3), of "Suc k"] obtain k' i' where
        "ptr_walk (Suc k) cs 0 (d - (off c - i)) = Some (Suc k + k', i')" "k' < length cs"
        "i' < off (cs ! k')" "d - (off c - i) = length (content_of (take k' cs)) + i'"
        by auto
      then show ?thesis
        using False c by (intro exI [of _ "Suc k'"] exI [of _ i']) auto
    qed
  }
qed

lemma ptr_add_ok:
  assumes ok: "evb_ok b" and "at_pos b it n" and "d \<le> SIZE_MAX - length (content b)"
  shows "n + d < length (content b) \<Longrightarrow>
      \<exists>it'. evbuffer_ptr_set b it d EVBUFFER_PTR_ADD = (it', 0) \<and> at_byte b it' (n + d)"
    "n + d \<ge> length (content b) \<Longrightarrow> snd (evbuffer_ptr_set b it d EVBUFFER_PTR_ADD) = - 1"
proof -
  obtain k where k: "in_chain it = Some k" "k < length (chains b)" "pos it = int n"
    "n = length (content_of (take k (chains b))) + pos_in_chain it"
    "\<forall>c \<in> set (drop k (chains b)). chain_ok c" "pos_in_chain it \<le> off (hd (drop k (chains b)))"
    using assms(1,2) by (rule at_posE) blast
  have lc: "length (content b) = length (content_of (take k (chains b))) + length (content_of (drop k (chains b)))"
    by (subst content_split [of b k]) simp
  have sz: "\<not> SIZE_MAX - d < n" using assms(3) at_pos_le [OF ok assms(2)] evb_okD(2,3) [OF ok] by linarith
  show "snd (evbuffer_ptr_set b it d EVBUFFER_PTR_ADD) = - 1" if "n + d \<ge> length (content b)"
    using that k sz lc ptr_walk_ok(1) [OF k(5,6), of d k]
    by (simp add: evbuffer_ptr_set_def)
  show "\<exists>it'. evbuffer_ptr_set b it d EVBUFFER_PTR_ADD = (it', 0) \<and> at_byte b it' (n + d)"
    if nd: "n + d < length (content b)"
  proof -
    obtain k' i' where r: "ptr_walk k (drop k (chains b)) (pos_in_chain it) d = Some (k + k', i')"
      "k' < length (drop k (chains b))" "i' < off (drop k (chains b) ! k')"
      "pos_in_chain it + d = length (content_of (take k' (drop k (chains b)))) + i'"
    proof -
      have "pos_in_chain it + d < length (content_of (drop k (chains b)))" using nd k(4) lc by simp
      from ptr_walk_ok(2) [OF k(5,6) this, of k] show thesis using that by blast
    qed
    let ?it = "it\<lparr>pos := pos it + int d, in_chain := Some (k + k'), pos_in_chain := i'\<rparr>"
    have "at_byte b ?it (n + d)"
      by (rule at_byte_further [OF ok k(1,2,4) r(2,3,4)]) (use k(3) in simp_all)
    then show ?thesis using r(1) k(1,3) sz by (simp add: evbuffer_ptr_set_def)
  qed
qed

lemma strspn_chains_ok:
  assumes "\<forall>c \<in> set cs. chain_ok c" "cs \<noteq> [] \<Longrightarrow> i \<le> off (hd cs)"
  shows "strspn_chains S cs i = length (takeWhile (\<lambda>x. x \<in> set S) (drop i (content_of cs)))"
  using assms
proof (induction cs arbitrary: i)
  case Nil
  then show ?case by simp
next
  case (Cons c cs)
  then have c: "length (chain_data c) = off c" "i \<le> off c" "\<forall>c \<in> set cs. chain_ok c" by simp_all
  let ?d = "drop i (chain_data c)" and ?P = "\<lambda>x. x \<in> set S"
  have IH: "strspn_chains S cs 0 = length (takeWhile ?P (content_of cs))"
    using Cons.IH [of 0] c(3) by simp
  show ?case
  proof (cases "\<forall>x \<in> set ?d. ?P x")
    case True
    then have "length (takeWhile ?P ?d) = length ?d" by (simp only: takeWhile_eq_all_conv [THEN iffD2])
    moreover have "takeWhile ?P (?d @ content_of cs) = ?d @ takeWhile ?P (content_of cs)"
      using True by (simp add: takeWhile_append2)
    ultimately show ?thesis using IH c by (simp add: Let_def)
  next
    case False
    then have "takeWhile ?P (?d @ content_of cs) = takeWhile ?P ?d" by (auto simp: takeWhile_append1)
    moreover have "length (takeWhile ?P ?d) < length ?d"
    proof (rule ccontr)
      assume "\<not> ?thesis"
      then have "takeWhile ?P ?d = ?d"
        by (metis length_takeWhile_le nat_less_le takeWhile_eq_take take_all_iff)
      then show False using False by (simp only: takeWhile_eq_all_conv)
    qed
    ultimately show ?thesis using c by (simp add: Let_def)
  qed
qed

section \<open>Lines\<close>

text \<open>Where the first line of \<open>s\<close> ends and how long the end is.\<close>

fun crlf_end :: "bytes \<Rightarrow> (nat \<times> nat) option" where
  "crlf_end [] = None"
| "crlf_end (x # s) =
     (if x = 10 then Some (0, 1)
      else if x = 13 \<and> take 1 s = [10] then Some (0, 2)
      else map_option (\<lambda>(n, e). (Suc n, e)) (crlf_end s))"

definition line_end :: "evbuffer_eol_style \<Rightarrow> bytes \<Rightarrow> (nat \<times> nat) option" where
  "line_end style s =
     (case style of
        EVBUFFER_EOL_ANY \<Rightarrow>
          map_option (\<lambda>n. (n, length (takeWhile (\<lambda>x. x = 13 \<or> x = 10) (drop n s))))
            (index_of (\<lambda>x. x = 13 \<or> x = 10) s)
      | EVBUFFER_EOL_CRLF \<Rightarrow> crlf_end s
      | EVBUFFER_EOL_CRLF_STRICT \<Rightarrow> map_option (\<lambda>n. (n, 2)) (find_sub [13, 10] s)
      | EVBUFFER_EOL_LF \<Rightarrow> map_option (\<lambda>n. (n, 1)) (index_of (\<lambda>x. x = 10) s))"

text \<open>The style CRLF, from the first CR or LF on.\<close>

lemma crlf_end_unfold:
  "crlf_end s =
     (case index_of (\<lambda>x. x = 13 \<or> x = 10) s of
        None \<Rightarrow> None
      | Some q \<Rightarrow>
          if s ! q = 10 then Some (q, 1)
          else if take 2 (drop q s) = [13, 10] then Some (q, 2)
          else map_option (\<lambda>(n, e). (Suc q + n, e)) (crlf_end (drop (Suc q) s)))"
proof (induction s)
  case Nil
  then show ?case by simp
next
  case (Cons x s)
  show ?case
  proof (cases "x = 13 \<or> x = 10")
    case True
    then show ?thesis by (cases s) auto
  next
    case False
    have c: "crlf_end (x # s) = map_option (\<lambda>(n, e). (Suc n, e)) (crlf_end s)" using False by simp
    show ?thesis
      unfolding c
      by (subst Cons.IH) (use False in \<open>auto simp: option.map_comp comp_def split_def split: option.splits\<close>)
  qed
qed

lemma crlf_loop_ok:
  assumes ok: "evb_ok b" and "length (content b) < SIZE_MAX"
    and "at_pos b it n" and "length (content b) - n < fuel"
  shows "\<exists>r. crlf_loop fuel b it = Some r \<and>
     (case crlf_end (drop n (content b)) of
        None \<Rightarrow> r = None
      | Some (q, e) \<Rightarrow> \<exists>it'. r = Some (it', e) \<and> at_byte b it' (n + q))"
  using assms(3,4)
proof (induction fuel arbitrary: n it)
  case 0
  then show ?case by simp
next
  case (Suc fuel)
  let ?s = "drop n (content b)" and ?P = "\<lambda>x :: u8. x = 13 \<or> x = 10"
  have fe: "find_eol_char = index_of ?P" by (rule ext) (rule find_eol_char_eq)
  note scan = scan_ptr_ok [OF ok Suc.prems(1), of ?P]
  show ?case
  proof (cases "index_of ?P ?s")
    case None
    then show ?thesis
      using scan(1) by (subst crlf_end_unfold) (simp add: evbuffer_find_eol_char_def fe)
  next
    case (Some q)
    obtain it1 where it1: "evbuffer_find_eol_char b it = Some it1" "at_byte b it1 (n + q)"
      using scan(2) [OF Some] by (auto simp: evbuffer_find_eol_char_def fe)
    note at1 = at_byte_at_pos [OF it1(2)]
    have nq: "n + q < length (content b)" by (rule at_byte_less [OF ok it1(2)])
    have g: "evbuffer_getchr b it1 = Some (?s ! q)" using getchr_ok [OF ok it1(2)] nq by simp
    obtain r where r: "evbuffer_ptr_memcmp b it1 [13, 10] = Some r"
      "r = 0 \<longleftrightarrow> take 2 (drop q ?s) = [13, 10]"
      using ptr_memcmp_ok [OF ok at1, of "[13, 10]"] by (auto simp: add.commute numeral_2_eq_2)
    show ?thesis
    proof (cases "?s ! q = 10 \<or> r = 0")
      case True
      then show ?thesis
        using it1 g r Some by (subst crlf_end_unfold) auto
    next
      case False
      have sz: "1 \<le> SIZE_MAX - length (content b)" using assms(2) by simp
      have e: "crlf_end ?s = map_option (\<lambda>(k, e). (Suc q + k, e)) (crlf_end (drop (n + q + 1) (content b)))"
        using False r(2) Some by (subst crlf_end_unfold) (simp add: add.commute add.left_commute)
      show ?thesis
      proof (cases "n + q + 1 < length (content b)")
        case True
        obtain it2 where it2: "evbuffer_ptr_set b it1 1 EVBUFFER_PTR_ADD = (it2, 0)" "at_byte b it2 (n + q + 1)"
          using ptr_add_ok(1) [OF ok at1 sz] True by auto
        have "length (content b) - (n + q + 1) < fuel" using Suc.prems(2) nq by linarith
        from Suc.IH [OF at_byte_at_pos [OF it2(2)] this] show ?thesis
          using it1 g r False it2(1) e
          by (cases "crlf_end (drop (Suc (n + q)) (content b))") (auto simp: add.assoc)
      next
        case F: False
        then have "drop (n + q + 1) (content b) = []" by simp
        moreover have "snd (evbuffer_ptr_set b it1 1 EVBUFFER_PTR_ADD) = - 1"
          using ptr_add_ok(2) [OF ok at1 sz] F by simp
        ultimately show ?thesis
          using it1 g r False e by (auto split: prod.split)
      qed
    qed
  qed
qed

lemma search_eol_ok:
  assumes ok: "evb_ok b" and sz: "length (content b) < SIZE_MAX"
    and start: "case start of None \<Rightarrow> n = 0 | Some it \<Rightarrow> at_pos b it n"
  shows "\<exists>r. evbuffer_search_eol b start style = Some r \<and>
     (case line_end style (drop n (content b)) of
        None \<Rightarrow> r = None
      | Some (q, e) \<Rightarrow> \<exists>it'. r = Some (it', e) \<and> at_byte b it' (n + q))"
proof (cases "start = None \<and> chains b = []")
  case True
  have "line_end style [] = None" by (cases style) (simp_all add: line_end_def find_sub_Nil)
  moreover have "content b = []" using True by (simp add: content_def)
  moreover have "evbuffer_search b [13, 10] (Some (first_ptr b)) = Some not_found"
    using True by (simp add: evbuffer_search_def evbuffer_search_range_def first_ptr_def SIZE_MAX_def)
  ultimately show ?thesis
    using True
    by (cases style) (simp_all add: evbuffer_search_eol_def scan_ptr_def first_ptr_def not_found_def
        evbuffer_find_eol_char_def evbuffer_strchr_def search_fuel_def)
next
  case False
  define it where "it = (case start of None \<Rightarrow> first_ptr b | Some s \<Rightarrow> s)"
  have it: "at_pos b it n" using start False first_ptr_at [of b] by (auto simp: it_def split: option.splits)
  have eol: "evbuffer_search_eol b start style = evbuffer_search_eol b (Some it) style"
    by (simp add: evbuffer_search_eol_def it_def)
  have fe: "find_eol_char = index_of (\<lambda>x. x = 13 \<or> x = 10)" by (rule ext) (rule find_eol_char_eq)
  show ?thesis
  proof (cases style)
    case EVBUFFER_EOL_ANY
    note scan = scan_ptr_ok [OF ok it, of "\<lambda>x. x = 13 \<or> x = 10"]
    show ?thesis
    proof (cases "index_of (\<lambda>x. x = 13 \<or> x = 10) (drop n (content b))")
      case None
      then show ?thesis
        using scan(1) EVBUFFER_EOL_ANY eol
        by (simp add: evbuffer_search_eol_def evbuffer_find_eol_char_def fe line_end_def)
    next
      case (Some q)
      obtain it1 where it1: "scan_ptr find_eol_char b it = Some it1" "at_byte b it1 (n + q)"
        using scan(2) [OF Some] by (auto simp: fe)
      obtain k where k: "in_chain it1 = Some k" "\<forall>c \<in> set (drop k (chains b)). chain_ok c"
        "pos_in_chain it1 \<le> off (hd (drop k (chains b)))"
        "drop (n + q) (content b) = drop (pos_in_chain it1) (content_of (drop k (chains b)))"
        by (rule at_posE [OF ok at_byte_at_pos [OF it1(2)]]) blast
      have "evbuffer_strspn b it1 [13, 10] =
          int (length (takeWhile (\<lambda>x. x = 13 \<or> x = 10) (drop (n + q) (content b))))"
        using strspn_chains_ok [OF k(2,3), of "[13, 10]"] k(1,4) by (simp add: evbuffer_strspn_def)
      then show ?thesis
        using it1 EVBUFFER_EOL_ANY eol Some
        by (simp add: evbuffer_search_eol_def evbuffer_find_eol_char_def line_end_def add.commute)
    qed
  next
    case EVBUFFER_EOL_CRLF
    have "length (content b) - n < search_fuel b"
      using evb_okD(1) [OF ok] by (simp add: search_fuel_def content_def length_content_of)
    from crlf_loop_ok [OF ok sz it this] show ?thesis
      using EVBUFFER_EOL_CRLF eol by (simp add: evbuffer_search_eol_def line_end_def)
  next
    case EVBUFFER_EOL_CRLF_STRICT
    obtain r where r: "evbuffer_search b [13, 10] (Some it) = Some r"
      "case find_sub [13, 10] (drop n (content b)) of None \<Rightarrow> r = not_found | Some q \<Rightarrow> at_byte b r (n + q)"
      using evbuffer_search_ok [OF ok, of "[13, 10]" n "Some it"] it by (auto simp: SIZE_MAX_def)
    have e: "evbuffer_search_eol b start style = Some (if pos r < 0 then None else Some (r, 2))"
      using EVBUFFER_EOL_CRLF_STRICT r(1) unfolding eol by (simp add: evbuffer_search_eol_def)
    show ?thesis
    proof (cases "find_sub [13, 10] (drop n (content b))")
      case None
      then show ?thesis using r(2) e EVBUFFER_EOL_CRLF_STRICT by (simp add: line_end_def not_found_def)
    next
      case (Some q)
      then have "at_byte b r (n + q)" "pos r = int (n + q)"
        using r(2) by (simp_all add: at_byte_def at_pos_def)
      then show ?thesis using e Some EVBUFFER_EOL_CRLF_STRICT by (simp add: line_end_def)
    qed
  next
    case EVBUFFER_EOL_LF
    show ?thesis
      using scan_ptr_ok [OF ok it, of "\<lambda>x. x = 10"] EVBUFFER_EOL_LF eol
      by (cases "index_of (\<lambda>x. x = 10) (drop n (content b))")
        (auto simp: evbuffer_search_eol_def line_end_def evbuffer_strchr_def)
  qed
qed

lemma evbuffer_readln_ok:
  assumes ok: "evb_ok b" and sz: "length (content b) < SIZE_MAX" and f: "\<not> freeze_start b"
    and mem: "\<forall>n. line_mem n"
  shows "case line_end style (content b) of
       None \<Rightarrow> evbuffer_readln line_mem b style = Some (b, None, 0)
     | Some (n, e) \<Rightarrow>
         \<exists>b'. evbuffer_readln line_mem b style = Some (b', Some (take n (content b)), n) \<and>
           content b' = drop (n + e) (content b) \<and> evb_ok b' \<and> (tight b \<longrightarrow> tight b') \<and>
           (plain b \<longrightarrow> plain b') \<and> freeze_start b' = freeze_start b \<and> freeze_end b' = freeze_end b"
proof -
  obtain r where r: "evbuffer_search_eol b None style = Some r"
    "case line_end style (content b) of
        None \<Rightarrow> r = None
      | Some (q, e) \<Rightarrow> \<exists>it'. r = Some (it', e) \<and> at_byte b it' q"
    using search_eol_ok [OF ok sz, of 0 None style] unfolding add_0 drop_0 by (force split: option.splits)
  show ?thesis
  proof (cases "line_end style (content b)")
    case None
    then show ?thesis using r f by (simp add: evbuffer_readln_def)
  next
    case (Some p)
    obtain n e where p: "p = (n, e)" by (cases p)
    obtain it where it: "r = Some (it, e)" "at_byte b it n" using r(2) Some p by auto
    then have n: "pos it = int n" by (auto simp: at_byte_def at_pos_def)
    obtain b1 where b1: "evbuffer_remove b n =
        Some (b1, take n (content b), c_int (int (min n (length (content b)))))"
      "content b1 = drop n (content b)" "evb_ok b1" "tight b \<longrightarrow> tight b1" "plain b \<longrightarrow> plain b1"
      "freeze_start b1 = freeze_start b" "freeze_end b1 = freeze_end b"
      using evbuffer_remove_ok [OF ok f, of n] by blast
    have f1: "\<not> freeze_start b1" using f b1(6) by simp
    obtain b2 where b2: "evbuffer_drain b1 e = Some (b2, 0)" "content b2 = drop e (content b1)"
      "evb_ok b2" "tight b1 \<longrightarrow> tight b2" "plain b1 \<longrightarrow> plain b2"
      "freeze_start b2 = freeze_start b1" "freeze_end b2 = freeze_end b1"
      using evbuffer_drain_ok [OF b1(3) f1, of e] by blast
    show ?thesis
      using Some p r(1) it(1) n f mem b1 b2 by (simp add: evbuffer_readln_def add.commute)
  qed
qed

end
