(* ===== verification/EvbufferFront.thy ===== *)
theory EvbufferFront
  imports EvbufferMove
begin

text \<open>
  Continued: adding at the front, making the first bytes contiguous, foreign memory, and the
  two-phase write of reserving and committing space.
\<close>

section \<open>Adding at the front\<close>

lemma set_first_simps [simp]:
  "chains (set_first b c) = c # tl (chains b)"
  "last_with_datap (set_first b c) = last_with_datap b"
  "total_len (set_first b c) = total_len b" "freeze_start (set_first b c) = freeze_start b"
  "freeze_end (set_first b c) = freeze_end b"
  by (simp_all add: set_first_def)

lemma prepend_new_ok:
  assumes ok: "evb_ok b" "tight b" "content b \<noteq> []" and m: "allocs m" and d: "d \<noteq> []"
    and len: "total_len b + length d \<le> EVBUFFER_CHAIN_MAX - EVBUFFER_CHAIN_SIZE"
  shows "\<exists>b'. prepend_new m b c d = Some (b', 0) \<and> content b' = d @ content b \<and> evb_ok b' \<and>
     tight b' \<and> (plain b \<longrightarrow> plain b') \<and> freeze_start b' = freeze_start b \<and>
     freeze_end b' = freeze_end b"
proof -
  have "length d \<le> EVBUFFER_CHAIN_MAX - EVBUFFER_CHAIN_SIZE" using len by simp
  then obtain t where t: "evbuffer_chain_new m (length d) = Some t" "fresh_chain t (length d)"
    using chain_new_fresh [OF m] by blast
  note tok = fresh_chain_ok [OF t(2)]
  have tl: "length d \<le> buffer_len t" "length (ch_mem t) = buffer_len t"
    using t(2) by (simp_all add: fresh_chain_def)
  let ?mem = "take (buffer_len t - length d) (ch_mem t) @ d"
  define t' where "t' = t\<lparr>off := length d, misalign := buffer_len t - length d, ch_mem := ?mem\<rparr>"
  have w: "mem_write (ch_mem t) (buffer_len t - length d) d = Some ?mem"
    using tl by (simp add: mem_write_def)
  have t'ok: "chain_ok t'" "chain_data t' = d" "off t' \<noteq> 0" "ch_flags t' = 0"
    using t(2) tl d by (simp_all add: t'_def fresh_chain_def chain_ok_def chain_data_def
        CHAIN_PINNED_def CHAIN_PINNED_R_def)
  let ?b1 = "b\<lparr>chains := t' # chains b, last_with_datap := Suc (last_with_datap b),
               total_len := SZ (total_len b + length d)\<rparr>"
  have sz: "total_len b + length d \<le> SIZE_MAX"
    using len by (simp add: EVBUFFER_CHAIN_MAX_def EVBUFFER_CHAIN_SIZE_def SIZE_MAX_def)
  have eq: "prepend_new m b c d = Some (evbuffer_invoke_callbacks (added (misalign c) ?b1), 0)"
    using t(1) tl(1) w by (simp add: prepend_new_def t'_def Let_def)
  note td = data_all_tight [OF ok]
  have cont: "content ?b1 = d @ content b" by (simp add: content_def t'ok(2))
  have "lwd_ok (t' # chains b) (Suc (last_with_datap b))"
    using td t'ok(3) by (intro lwd_okI_all) auto
  then have "evb_ok ?b1"
    using ok(1) t'ok(1) cont sz by (simp add: evb_ok_def)
  moreover have "tight ?b1" using td(3) by (simp add: tight_def)
  moreover have "plain b \<longrightarrow> plain ?b1" using t'ok(4) by (simp add: plain_def)
  ultimately show ?thesis using eq cont by simp
qed

lemma set_first_ok:
  assumes ok: "evb_ok b" "tight b" and c: "chains b = c # cs"
    and c': "chain_ok c'" "off c' = off c + length d" "chain_data c' = d @ chain_data c"
    and len: "total_len b + length d \<le> SIZE_MAX"
  shows "content (grown (length d) (set_first b c')) = d @ content b"
    "evb_ok (grown (length d) (set_first b c'))" "tight (grown (length d) (set_first b c'))"
proof -
  let ?b = "grown (length d) (set_first b c')"
  show cont: "content ?b = d @ content b" using c c' by (simp add: content_def)
  have "lwd_ok (c' # cs) (last_with_datap b) \<and> length (c' # cs) \<le> Suc (last_with_datap b)"
    using evb_okD(4) [OF ok(1)] ok(2)
  proof (cases rule: tight_cases)
    case 3
    then have "lwd_ok (c' # cs) (last_with_datap b)"
      using c c'(2) by (intro lwd_okI_all) auto
    then show ?thesis using 3 c by simp
  qed (use c lwd_ok_single in auto)
  then show "evb_ok ?b" "tight ?b"
    using ok(1) c c'(1) len cont by (auto simp: evb_ok_def tight_def)
qed

lemma plain_set_first:
  "plain b \<Longrightarrow> chains b = c # cs \<Longrightarrow> ch_flags c' = ch_flags c \<Longrightarrow> plain (set_first b c')"
  by (simp add: plain_def has_flag_def)

text \<open>Writing in front of the data of a chain.\<close>

lemma chain_write_front:
  assumes "chain_ok c" "length d \<le> misalign c"
  shows "\<exists>mem'. mem_write (ch_mem c) (misalign c - length d) d = Some mem' \<and>
     chain_ok (c\<lparr>ch_mem := mem', off := off c + length d, misalign := misalign c - length d\<rparr>) \<and>
     chain_data (c\<lparr>ch_mem := mem', off := off c + length d, misalign := misalign c - length d\<rparr>) =
       d @ chain_data c"
proof -
  let ?i = "misalign c - length d"
  have l: "misalign c + off c \<le> length (ch_mem c)" using assms(1) by (simp add: chain_ok_def)
  let ?mem = "take ?i (ch_mem c) @ d @ drop (misalign c) (ch_mem c)"
  have "drop ?i ?mem = d @ drop (misalign c) (ch_mem c)" using l assms(2) by simp
  moreover have "mem_write (ch_mem c) ?i d = Some ?mem" using l assms(2) by (simp add: mem_write_def)
  moreover have "length ?mem = length (ch_mem c)" using l assms(2) by simp
  ultimately show ?thesis
    using assms
    by (intro exI [of _ ?mem]) (simp add: chain_ok_def chain_data_def CHAIN_PINNED_def CHAIN_PINNED_R_def has_flag_def)
qed

lemma prepend_to_first_ok:
  assumes ok: "evb_ok b" "tight b" and c0: "chains b = c0 # cs" and m: "allocs m"
    and p: "plain b \<or> content b \<noteq> [] \<and> d \<noteq> []"
    and len: "total_len b + length d \<le> EVBUFFER_CHAIN_MAX - EVBUFFER_CHAIN_SIZE"
  shows "\<exists>b'. prepend_to_first m b c0 d = Some (b', 0) \<and> content b' = d @ content b \<and> evb_ok b' \<and>
     tight b' \<and> (plain b \<longrightarrow> plain b') \<and> freeze_start b' = freeze_start b \<and>
     freeze_end b' = freeze_end b"
proof -
  have cok: "chain_ok c0" using evb_okD(1) [OF ok(1)] c0 by simp
  have sz: "total_len b + length d \<le> SIZE_MAX"
    using len by (simp add: EVBUFFER_CHAIN_MAX_def EVBUFFER_CHAIN_SIZE_def SIZE_MAX_def)
  show ?thesis
  proof (cases "has_flag c0 EVBUFFER_IMMUTABLE")
    case True
    then have "content b \<noteq> [] \<and> d \<noteq> []" using p c0 by (auto simp: plain_def)
    then show ?thesis
      using True prepend_new_ok [OF ok _ m _ len] by (simp add: prepend_to_first_def)
  next
    case mut: False
    have mis: "misalign c0 \<le> EVBUFFER_CHAIN_MAX"
      using cok by (auto simp: chain_ok_def EVBUFFER_CHAIN_MAX_def EVBUFFER_CHAIN_SIZE_def)
    define c where "c = (if off c0 = 0 then c0\<lparr>misalign := buffer_len c0\<rparr> else c0)"
    have c: "chain_ok c" "off c = off c0" "chain_data c = chain_data c0" "ch_flags c = ch_flags c0"
      "buffer_len c = buffer_len c0" "off c0 = 0 \<Longrightarrow> misalign c = buffer_len c0"
      using cok by (auto simp: c_def chain_ok_def CHAIN_PINNED_def CHAIN_PINNED_R_def has_flag_def)
    let ?n = "misalign c"
    consider (fits) "?n \<ge> length d" | (some) "?n < length d" "?n \<noteq> 0" | (none) "?n < length d" "?n = 0"
      by linarith
    then show ?thesis
    proof cases
      case fits
      then obtain mem' where w: "mem_write (ch_mem c) (?n - length d) d = Some mem'"
        "chain_ok (c\<lparr>ch_mem := mem', off := off c + length d, misalign := ?n - length d\<rparr>)"
        "chain_data (c\<lparr>ch_mem := mem', off := off c + length d, misalign := ?n - length d\<rparr>) =
           d @ chain_data c"
        using chain_write_front [OF c(1)] by blast
      define c' where "c' = c\<lparr>ch_mem := mem', off := off c + length d, misalign := ?n - length d\<rparr>"
      have "prepend_to_first m b c0 d =
          Some (evbuffer_invoke_callbacks (grown (length d) (set_first b c')), 0)"
        using mut mis fits w(1) by (simp add: prepend_to_first_def c_def [symmetric] c'_def Let_def)
      moreover have "off c' = off c0 + length d" "ch_flags c' = ch_flags c0"
        using c by (simp_all add: c'_def)
      moreover have "chain_ok c'" "chain_data c' = d @ chain_data c0"
        using w(2,3) c(3) by (simp_all add: c'_def)
      ultimately show ?thesis
        using set_first_ok [OF ok c0 _ _ _ sz, of c'] plain_set_first [OF _ c0, of c'] by simp
    next
      case some
      let ?k = "length d - ?n"
      let ?e = "drop ?k d"
      have le: "length ?e = ?n" using some by simp
      then obtain mem' where w: "mem_write (ch_mem c) (?n - length ?e) ?e = Some mem'"
        "chain_ok (c\<lparr>ch_mem := mem', off := off c + length ?e, misalign := ?n - length ?e\<rparr>)"
        "chain_data (c\<lparr>ch_mem := mem', off := off c + length ?e, misalign := ?n - length ?e\<rparr>) =
           ?e @ chain_data c"
        using chain_write_front [OF c(1), of ?e] by auto
      define c' where "c' = c\<lparr>ch_mem := mem', off := off c + ?n, misalign := 0\<rparr>"
      have c': "off c' = off c0 + length ?e" "ch_flags c' = ch_flags c0" "chain_ok c'"
        "chain_data c' = ?e @ chain_data c0"
        using w(2,3) c le by (simp_all add: c'_def)
      have sz': "total_len b + length ?e \<le> SIZE_MAX" using sz by simp
      let ?b1 = "grown ?n (set_first b c')"
      note f = set_first_ok [OF ok c0 c'(3,1,4) sz', unfolded le]
      have eq: "prepend_to_first m b c0 d = prepend_new m ?b1 c' (take ?k d)"
        using mut mis some w(1) le by (simp add: prepend_to_first_def c_def [symmetric] c'_def Let_def)
      have "content ?b1 \<noteq> []" using f(1) some le by auto
      moreover have "take ?k d \<noteq> []" using some by (cases d) auto
      moreover have "total_len ?b1 + length (take ?k d) \<le> EVBUFFER_CHAIN_MAX - EVBUFFER_CHAIN_SIZE"
        using len some sz' le by simp
      ultimately obtain b' where b': "prepend_new m ?b1 c' (take ?k d) = Some (b', 0)"
        "content b' = take ?k d @ content ?b1" "evb_ok b'" "tight b'" "plain ?b1 \<longrightarrow> plain b'"
        "freeze_start b' = freeze_start ?b1" "freeze_end b' = freeze_end ?b1"
        using prepend_new_ok [OF f(2,3) _ m] by blast
      have "content b' = d @ content b"
        using b'(2) f(1) by (simp only: append_assoc [symmetric] append_take_drop_id)
      then show ?thesis
        using eq b' plain_set_first [OF _ c0 c'(2)] by simp
    next
      case none
      then have off0: "off c0 \<noteq> 0" using c(6) cok mut by (auto simp: chain_ok_def)
      have dn: "d \<noteq> []" using none by auto
      have cc: "c = c0" using off0 by (simp add: c_def)
      have eq: "prepend_to_first m b c0 d = prepend_new m (set_first b c) c d"
        using mut mis none by (simp add: prepend_to_first_def c_def [symmetric] Let_def)
      have sf: "set_first b c = b" using c0 cc by (simp add: set_first_def)
      have "content b \<noteq> []" using empty_content_chains(1) [OF ok(1)] c0 off0 by auto
      then show ?thesis using prepend_new_ok [OF ok _ m dn len, of c] eq sf by simp
    qed
  qed
qed

lemma evbuffer_prepend_ok:
  assumes "evb_ok b" "tight b" "\<not> freeze_start b" and m: "allocs m"
    and p: "plain b \<or> content b \<noteq> [] \<and> d \<noteq> []"
    and len: "total_len b + length d \<le> EVBUFFER_CHAIN_MAX - EVBUFFER_CHAIN_SIZE"
  shows "\<exists>b'. evbuffer_prepend m b d = Some (b', 0) \<and> content b' = d @ content b \<and> evb_ok b' \<and>
     tight b' \<and> (plain b \<longrightarrow> plain b') \<and> freeze_start b' = freeze_start b \<and>
     freeze_end b' = freeze_end b"
proof -
  have maxs: "\<not> length d > SIZE_MAX - total_len b"
    using len by (simp add: EVBUFFER_CHAIN_MAX_def EVBUFFER_CHAIN_SIZE_def SIZE_MAX_def)
  show ?thesis
  proof (cases "chains b")
    case (Cons c cs)
    then show ?thesis
      using prepend_to_first_ok [OF assms(1,2) Cons m p len] assms(3) maxs
      by (simp add: evbuffer_prepend_def)
  next
    case Nil
    have "length d \<le> EVBUFFER_CHAIN_MAX - EVBUFFER_CHAIN_SIZE" using len by simp
    then obtain c where c: "evbuffer_chain_new m (length d) = Some c" "fresh_chain c (length d)"
      using chain_new_fresh [OF m] by blast
    note cok = fresh_chain_ok [OF c(2)]
    have "total_len b + off c \<le> SIZE_MAX" using assms(1) cok by (simp add: evb_ok_def)
    then obtain b1 where b1: "evbuffer_chain_insert b c = Some b1"
      "chains b1 = data_chains (chains b) @ [c]" "content b1 = content b @ chain_data c"
      "total_len b1 = total_len b + off c" "freeze_start b1 = freeze_start b"
      "freeze_end b1 = freeze_end b" "off c = 0 \<or> tight b \<Longrightarrow> evb_ok b1"
      "off c \<noteq> 0 \<or> content b = [] \<Longrightarrow> tight b \<Longrightarrow> tight b1"
      using chain_insert_ok [OF assms(1)] cok by metis
    have cb: "content b = []" using Nil by (simp add: content_def)
    have l: "chains b1 = c # []" using b1(2) Nil by (simp add: data_chains_def)
    have pl: "plain b1" using l cok by (simp add: plain_def)
    have "total_len b1 + length d \<le> EVBUFFER_CHAIN_MAX - EVBUFFER_CHAIN_SIZE"
      using b1(4) cok len by simp
    moreover have "evb_ok b1" "tight b1" using b1(7,8) cok cb assms(2) by simp_all
    ultimately obtain b' where b': "prepend_to_first m b1 c d = Some (b', 0)"
      "content b' = d @ content b1" "evb_ok b'" "tight b'" "plain b1 \<longrightarrow> plain b'"
      "freeze_start b' = freeze_start b1" "freeze_end b' = freeze_end b1"
      using prepend_to_first_ok [OF _ _ l m disjI1 [OF pl]] by blast
    then show ?thesis
      using Nil c(1) b1 cok cb pl assms(3) maxs by (simp add: evbuffer_prepend_def)
  qed
qed

section \<open>Making the first bytes contiguous\<close>

text \<open>What the copying loop takes: whole chains \<open>pre\<close>, and \<open>k\<close> bytes of the next one.\<close>

definition cut_front :: "chain list \<Rightarrow> nat \<Rightarrow> chain list" where
  "cut_front cs k =
     (case cs of [] \<Rightarrow> []
      | c # cs' \<Rightarrow> c\<lparr>misalign := misalign c + k, off := off c - k\<rparr> # cs')"

lemma pullup_loop_takes:
  assumes "\<forall>c \<in> set cs. chain_ok c" "n \<le> sum_list (map off cs)"
  shows "\<exists>pre rest k es. cs = pre @ rest \<and> n = sum_list (map off pre) + k \<and>
     (case rest of [] \<Rightarrow> k = 0 | c # _ \<Rightarrow> k < off c) \<and>
     pullup_loop cs n = Some (take n (content_of cs), cut_front rest k, length pre, es)"
  using assms
proof (induction cs arbitrary: n)
  case Nil
  then show ?case by (simp add: cut_front_def)
next
  case (Cons c cs)
  have c: "chain_ok c" "length (chain_data c) = off c" using Cons.prems by simp_all
  show ?case
  proof (cases "n \<ge> off c")
    case False
    then have "pullup_loop (c # cs) n = Some (take n (content_of (c # cs)), cut_front (c # cs) n, 0, [])"
      using c by (simp add: chain_read_part cut_front_def)
    then show ?thesis using False by (intro exI [of _ "[]"] exI [of _ "c # cs"] exI [of _ n]) auto
  next
    case True
    have "n - off c \<le> sum_list (map off cs)" using Cons.prems(2) by simp
    then obtain pre rest k es where i: "cs = pre @ rest" "n - off c = sum_list (map off pre) + k"
      "case rest of [] \<Rightarrow> k = 0 | c # _ \<Rightarrow> k < off c"
      "pullup_loop cs (n - off c) = Some (take (n - off c) (content_of cs), cut_front rest k, length pre, es)"
      using Cons.IH [of "n - off c"] Cons.prems(1) by auto
    have "pullup_loop (c # cs) n =
        Some (take n (content_of (c # cs)), cut_front rest k, length (c # pre), evbuffer_chain_free c @ es)"
      using True c i(4) by (simp add: chain_read)
    then show ?thesis using i True
      by (intro exI [of _ "c # pre"] exI [of _ rest] exI [of _ k]) auto
  qed
qed

lemma pullup_unpinned_ok: "\<forall>c \<in> set cs. chain_ok c \<Longrightarrow> pullup_unpinned cs n"
  by (induction cs n rule: pullup_unpinned.induct) (auto simp: chain_ok_def)

text \<open>The buffer with the first \<open>n\<close> bytes, those of the chains \<open>pre\<close> and \<open>k\<close> more, in \<open>t\<close>.\<close>

lemma lwd_ok_front:
  assumes c: "off c \<noteq> 0" and d: "off d \<noteq> 0" and t: "off t \<noteq> 0" and l: "lwd_ok (c # cs) i"
  shows "lwd_ok (t # d # cs) (Suc i)"
proof -
  have "dropWhile (\<lambda>c. off c \<noteq> 0) (d # cs) = dropWhile (\<lambda>c. off c \<noteq> 0) cs"
    "length (data_chains (d # cs)) = Suc (length (data_chains cs))"
    using d by (simp_all add: data_chains_def)
  then show ?thesis
    using l unfolding lwd_ok_Cons [OF c] lwd_ok_Cons [OF t] by metis
qed

lemma pulled_ok:
  assumes ok: "evb_ok b" and cs: "chains b = pre @ rest"
    and n: "n = sum_list (map off pre) + k" "case rest of [] \<Rightarrow> k = 0 | c # _ \<Rightarrow> k < off c" "n \<noteq> 0"
    and t: "chain_ok t" "chain_data t = take n (content b)" "off t = n"
    and b': "chains b' = t # cut_front rest k" "total_len b' = total_len b"
      "last_with_datap b' = (if rest = [] then 0 else Suc (last_with_datap b - length pre))"
  shows "content b' = content b" "evb_ok b'" "tight b \<Longrightarrow> tight b'"
    "plain b \<Longrightarrow> \<not> has_flag t EVBUFFER_IMMUTABLE \<Longrightarrow> plain b'"
proof -
  have all: "\<forall>c \<in> set (pre @ rest). chain_ok c" using evb_okD(1) [OF ok] cs by simp
  have lp: "length (content_of pre) = sum_list (map off pre)"
    using all by (intro length_content_of) simp
  have "content b' = content b \<and> (\<forall>c \<in> set (cut_front rest k). chain_ok c) \<and>
      lwd_ok (t # cut_front rest k) (last_with_datap b') \<and> (tight b \<longrightarrow> tight b') \<and>
      (plain b \<longrightarrow> (\<forall>c \<in> set (cut_front rest k). \<not> has_flag c EVBUFFER_IMMUTABLE))"
  proof (cases rest)
    case Nil
    then show ?thesis
      using n t b' lp cs t(3) n(3) by (simp add: cut_front_def content_def lwd_ok_Cons data_chains_def tight_def)
  next
    case (Cons c cs')
    define c' where "c' = c\<lparr>misalign := misalign c + k, off := off c - k\<rparr>"
    have k: "k < off c" using n(2) Cons by simp
    have c': "chain_ok c'" "chain_data c' = drop k (chain_data c)" "off c' \<noteq> 0" "ch_flags c' = ch_flags c"
      using all Cons k chain_ok_shorten [of c k] chain_data_shorten [of k c]
      unfolding c'_def by simp_all
    have cf: "cut_front rest k = c' # cs'" by (simp add: cut_front_def Cons c'_def)
    have all': "\<forall>x \<in> set (pre @ c # cs'). chain_ok x" using all Cons by simp
    have "take n (content b) = content_of pre @ take k (chain_data c)"
      using content_of_drop(2) [OF all', of n] n(1) k cs Cons by (simp add: content_def)
    then have "content b' = content b"
      using cf b'(1) t(2) c'(2) cs Cons by (simp add: content_def)
    moreover have c0: "off c \<noteq> 0" using k by simp
    have "lwd_ok (pre @ c # cs') (last_with_datap b)"
      using evb_okD(4) [OF ok] cs Cons by (simp only:)
    then have l: "lwd_ok (c # cs') (last_with_datap b - length pre)" "length pre \<le> last_with_datap b"
      using split_at_data [OF _ c0] by blast+
    have "off t \<noteq> 0" using t(3) n(3) by simp
    moreover have "data_chains (c' # cs') = c' # data_chains cs'" using c'(3) by (simp add: data_chains_def)
    moreover have "lwd_ok (t # c' # cs') (Suc (last_with_datap b - length pre))"
      by (rule lwd_ok_front [OF c0 c'(3) _ l(1)]) (use t(3) n(3) in simp)
    moreover have "tight b \<longrightarrow> tight b'"
      using l(2) cs Cons b' cf by (simp add: tight_def) linarith
    moreover have "plain b \<longrightarrow> (\<forall>c \<in> set (c' # cs'). \<not> has_flag c EVBUFFER_IMMUTABLE)"
      using cs Cons c'(4) by (simp add: plain_def has_flag_def)
    ultimately show ?thesis
      using c'(1) all Cons cf b'(3) by simp
  qed
  then show "content b' = content b" "evb_ok b'" "tight b \<Longrightarrow> tight b'"
    "plain b \<Longrightarrow> \<not> has_flag t EVBUFFER_IMMUTABLE \<Longrightarrow> plain b'"
    using b' t(1) evb_okD(2,3) [OF ok] by (auto simp: evb_ok_def plain_def)
qed

lemma pullup_lwd_new:
  assumes "p = (if fresh then j else Suc j)" "p \<noteq> 0"
    and "rest = [] \<Longrightarrow> l < p" "rest \<noteq> [] \<Longrightarrow> p \<le> l \<and> off (hd rest) \<noteq> 0"
  shows "pullup_lwd fresh j l rest = (if rest = [] then 0 else Suc (l - p))"
proof (cases rest)
  case Nil
  then show ?thesis using assms(1-3) by (auto simp: pullup_lwd_def)
next
  case (Cons c cs)
  then have "p \<le> l" "off c \<noteq> 0" using assms(4) by auto
  then show ?thesis using assms(1,2) Cons by (cases fresh) (auto simp: pullup_lwd_def Let_def)
qed

text \<open>Where \<open>last_with_datap\<close> points, relative to the chains taken.\<close>

lemma lwd_after_takes:
  assumes ok: "evb_ok b" and cs: "chains b = pre @ rest" "pre \<noteq> []"
    and k: "case rest of [] \<Rightarrow> k = 0 | c # _ \<Rightarrow> k < off c"
  shows "cut_front rest k = [] \<Longrightarrow> last_with_datap b < length pre"
    "cut_front rest k \<noteq> [] \<Longrightarrow> length pre \<le> last_with_datap b \<and> off (hd (cut_front rest k)) \<noteq> 0"
    "cut_front rest k = [] \<longleftrightarrow> rest = []"
proof -
  show nil: "cut_front rest k = [] \<longleftrightarrow> rest = []"
    by (simp add: cut_front_def split: list.split)
  have l: "lwd_ok (pre @ rest) (last_with_datap b)" using evb_okD(4) [OF ok] cs by simp
  show "last_with_datap b < length pre" if "cut_front rest k = []"
  proof -
    have "length (data_chains pre) \<le> length pre"
      unfolding data_chains_def by (rule length_takeWhile_le)
    moreover have "last_with_datap b = length (data_chains pre) - 1"
      using l that nil by (simp add: lwd_ok_def)
    moreover have "0 < length pre" using cs(2) by simp
    ultimately show ?thesis by linarith
  qed
  show "length pre \<le> last_with_datap b \<and> off (hd (cut_front rest k)) \<noteq> 0" if "cut_front rest k \<noteq> []"
  proof -
    from that nil have "rest \<noteq> []" by simp
    then obtain c cs' where r: "rest = c # cs'" by (cases rest) blast+
    then have "k < off c" using k by simp
    then show ?thesis using split_at_data [of pre c cs' "last_with_datap b"] l r by (simp add: cut_front_def)
  qed
qed

text \<open>What a pull-up of \<open>n\<close> bytes promises of the buffer and the address it returns.\<close>

definition pulled :: "evbuffer \<Rightarrow> nat \<Rightarrow> evbuffer \<Rightarrow> nat \<Rightarrow> bool" where
  "pulled b n b' a \<longleftrightarrow> content b' = content b \<and> evb_ok b' \<and> plain b' \<and> (tight b \<longrightarrow> tight b') \<and>
     freeze_start b' = freeze_start b \<and> freeze_end b' = freeze_end b \<and>
     (case chains b' of [] \<Rightarrow> False
      | c # _ \<Rightarrow> a = buffer c + misalign c \<and> n \<le> off c \<and> take n (chain_data c) = take n (content b))"

lemma pulled_into:
  assumes "evb_ok b" "plain b" "chains b = pre @ rest" "pre \<noteq> []"
    "n = sum_list (map off pre) + k" "case rest of [] \<Rightarrow> k = 0 | c # _ \<Rightarrow> k < off c" "n \<noteq> 0"
    and t: "chain_ok t" "chain_data t = take n (content b)" "off t = n" "\<not> has_flag t EVBUFFER_IMMUTABLE"
    and p: "length pre = (if fresh then j else Suc j)"
  shows "pulled b n (emit es (b\<lparr>chains := t # cut_front rest k,
      last_with_datap := pullup_lwd fresh j (last_with_datap b) (cut_front rest k)\<rparr>)) (buffer t + misalign t)"
proof -
  note w = lwd_after_takes [OF assms(1,3,4,6)]
  have l: "pullup_lwd fresh j (last_with_datap b) (cut_front rest k) =
      (if rest = [] then 0 else Suc (last_with_datap b - length pre))"
    using pullup_lwd_new [OF p _ w(1,2)] assms(4) unfolding w(3) by simp
  let ?b = "b\<lparr>chains := t # cut_front rest k,
      last_with_datap := pullup_lwd fresh j (last_with_datap b) (cut_front rest k)\<rparr>"
  note q = pulled_ok [OF assms(1,3,5,6,7) t(1-3), of ?b]
  show ?thesis using q l t assms(2) by (simp add: pulled_def)
qed

lemma evbuffer_pullup_ok:
  assumes ok: "evb_ok b" and pl: "plain b" and m: "allocs m"
    and n: "n = (if sz < 0 then total_len b else nat sz)"
    and len: "n \<le> EVBUFFER_CHAIN_MAX - EVBUFFER_CHAIN_SIZE" and "0 < n" "n \<le> total_len b"
  shows "\<exists>b' a. evbuffer_pullup m b sz = Some (b', Some a) \<and> pulled b n b' a"
proof (cases "chains b")
  case Nil
  then show ?thesis using assms by (simp add: evb_ok_def content_def)
next
  case (Cons c cs)
  have all: "\<forall>x \<in> set (c # cs). chain_ok x" using evb_okD(1) [OF ok] Cons by simp
  then have c: "chain_ok c" "\<forall>x \<in> set cs. chain_ok x" "\<not> CHAIN_PINNED c"
    by (simp_all add: chain_ok_def)
  have tot: "total_len b = sum_list (map off (c # cs))"
    using ok length_content_of [OF all] Cons by (simp only: evb_ok_def content_def)
  have im: "\<not> has_flag c EVBUFFER_IMMUTABLE" using pl Cons by (simp add: plain_def)
  consider "n \<le> off c" | "off c < n" "n \<le> buffer_len c - misalign c"
    | "off c < n" "buffer_len c - misalign c < n" by linarith
  then show ?thesis
  proof cases
    case 1
    then have "evbuffer_pullup m b sz = Some (b, Some (buffer c + misalign c))"
      using assms(6,7) n Cons by (simp add: evbuffer_pullup_def Let_def)
    moreover have "pulled b n b (buffer c + misalign c)"
      using ok pl Cons 1 c by (simp add: pulled_def content_def)
    ultimately show ?thesis by blast
  next
    case 2
    then obtain pre rest k es where l: "cs = pre @ rest" "n - off c = sum_list (map off pre) + k"
      "case rest of [] \<Rightarrow> k = 0 | c # _ \<Rightarrow> k < off c"
      "pullup_loop cs (n - off c) = Some (take (n - off c) (content_of cs), cut_front rest k, length pre, es)"
    proof -
      have "n - off c \<le> sum_list (map off cs)" using tot assms(7) by simp
      from pullup_loop_takes [OF c(2) this] show thesis using that by blast
    qed
    let ?d = "take (n - off c) (content_of cs)"
    have d: "length ?d = n - off c" using length_content_of [OF c(2)] tot assms(7) by simp
    have mo: "misalign c + off c + (n - off c) \<le> buffer_len c" using 2 c(1) by (auto simp: chain_ok_def)
    then obtain t where t: "chain_append c ?d = Some t" "chain_ok t" "off t = off c + length ?d"
      "chain_data t = chain_data c @ ?d" "ch_flags t = ch_flags c"
      using chain_append_ok [OF c(1), of ?d] d by metis
    from t(1) obtain mem' where mem': "mem_write (ch_mem c) (misalign c + off c) ?d = Some mem'"
      "t = c\<lparr>ch_mem := mem', off := n\<rparr>"
      using d 2 by (auto simp: chain_append_def)
    have "pullup_unpinned cs (n - off c)" by (rule pullup_unpinned_ok [OF c(2)])
    then have r: "evbuffer_pullup m b sz = Some (emit es (b\<lparr>chains := t # cut_front rest k,
        last_with_datap := pullup_lwd False (length pre) (last_with_datap b) (cut_front rest k)\<rparr>),
        Some (buffer t + misalign t))"
      using 2 assms(6,7) n Cons l(4) mem' c(3) by (simp add: evbuffer_pullup_def Let_def)
    have f: "chains b = (c # pre) @ rest" "c # pre \<noteq> []" "n = sum_list (map off (c # pre)) + k"
      "n \<noteq> 0" "off t = n" "\<not> has_flag t EVBUFFER_IMMUTABLE"
      using Cons l(1,2) 2(1) assms(6) t(3,5) d im by (simp_all add: has_flag_def)
    have ct: "chain_data t = take n (content b)"
      using t(4) 2(1) c(1) Cons by (simp add: content_def)
    have "length (c # pre) = (if False then length pre else Suc (length pre))" by simp
    from pulled_into [OF ok pl f(1,2,3) l(3) f(4) t(2) ct f(5,6) this, of es] r show ?thesis by blast
  next
    case 3
    then have np: "pullup_unpinned cs (n - off c)" by (intro pullup_unpinned_ok [OF c(2)])
    obtain pre rest k es where l: "c # cs = pre @ rest" "n = sum_list (map off pre) + k"
      "case rest of [] \<Rightarrow> k = 0 | c # _ \<Rightarrow> k < off c"
      "pullup_loop (c # cs) n = Some (take n (content_of (c # cs)), cut_front rest k, length pre, es)"
    proof -
      have "n \<le> sum_list (map off (c # cs))" using tot assms(7) by simp
      from pullup_loop_takes [OF all this] show thesis using that by blast
    qed
    have "pre \<noteq> []" using l 3(1) by auto
    let ?d = "take n (content b)"
    have d: "length ?d = n" using ok assms(7) by (simp add: evb_ok_def)
    obtain t0 where t0: "evbuffer_chain_new m n = Some t0" "fresh_chain t0 n"
      using chain_new_fresh [OF m len] by blast
    note tok = fresh_chain_ok [OF t0(2)]
    have z: "misalign t0 = 0" "off t0 = 0" "n \<le> buffer_len t0" using t0(2) by (simp_all add: fresh_chain_def)
    then obtain t where t: "chain_append t0 ?d = Some t" "chain_ok t" "off t = n"
      "chain_data t = ?d" "ch_flags t = ch_flags t0"
      using chain_append_ok [of t0 ?d] tok d by (metis add_0 append_Nil chain_data_empty)
    from t(1) obtain mem' where mem': "mem_write (ch_mem t0) 0 ?d = Some mem'"
      "t = t0\<lparr>ch_mem := mem', off := n\<rparr>"
      using d z by (auto simp: chain_append_def)
    have r: "evbuffer_pullup m b sz = Some (emit es (b\<lparr>chains := t # cut_front rest k,
        last_with_datap := pullup_lwd True (length pre) (last_with_datap b) (cut_front rest k)\<rparr>),
        Some (buffer t + misalign t))"
      using 3 np assms(6,7) n Cons l(4) mem' c(3) t0(1)
      by (simp add: evbuffer_pullup_def Let_def content_def)
    have "\<not> has_flag t EVBUFFER_IMMUTABLE" using t(5) tok by (auto simp: has_flag_def)
    note im = this
    have f: "chains b = pre @ rest" "n \<noteq> 0" using Cons l(1) assms(6) by simp_all
    have "length pre = (if True then length pre else Suc (length pre))" by simp
    from pulled_into [OF ok pl f(1) \<open>pre \<noteq> []\<close> l(2,3) f(2) t(2,4,3) im this, of es] r show ?thesis by blast
  qed
qed

end
