(* ===== verification/EvbufferRoom.thy ===== *)
theory EvbufferRoom
  imports EvbufferFront
begin

text \<open>
  Room at the end of a buffer: \<open>_evbuffer_expand_fast\<close> makes it in at most the number of chains
  it is given without touching the content; a read from a descriptor appends exactly the bytes
  it got.
\<close>

section \<open>Making room in several chains\<close>

abbreviation own :: "chain \<Rightarrow> bool" where
  "own c \<equiv> chain_ok c \<and> \<not> has_flag c EVBUFFER_IMMUTABLE"

definition usable :: "chain list \<Rightarrow> chain list" where
  "usable cs = (case cs of [] \<Rightarrow> [] | c # es \<Rightarrow> if CHAIN_SPACE_LEN c = 0 then es else cs)"

definition spaces :: "chain list \<Rightarrow> nat" where
  "spaces cs = sum_list (map CHAIN_SPACE_LEN cs)"

lemma spaces_simps [simp]:
  "spaces [] = 0" "spaces (c # cs) = CHAIN_SPACE_LEN c + spaces cs" "spaces (xs @ ys) = spaces xs + spaces ys"
  by (simp_all add: spaces_def)

text \<open>Room for \<open>k\<close> bytes in the first \<open>n\<close> chains, all of those used having some.\<close>

definition room :: "chain list \<Rightarrow> nat \<Rightarrow> nat \<Rightarrow> bool" where
  "room cs k n \<longleftrightarrow>
     (\<exists>us vs. cs = us @ vs \<and> length us \<le> n \<and> (\<forall>c \<in> set us. 0 < CHAIN_SPACE_LEN c) \<and> k \<le> spaces us)"

lemma roomI:
  "cs = us @ vs \<Longrightarrow> length us \<le> n \<Longrightarrow> \<forall>c \<in> set us. 0 < CHAIN_SPACE_LEN c \<Longrightarrow> k \<le> spaces us \<Longrightarrow> room cs k n"
  by (auto simp: room_def)

lemma room_Cons: "room cs (k - CHAIN_SPACE_LEN c) n \<Longrightarrow> 0 < CHAIN_SPACE_LEN c \<Longrightarrow> room (c # cs) k (Suc n)"
proof -
  assume "room cs (k - CHAIN_SPACE_LEN c) n" and c: "0 < CHAIN_SPACE_LEN c"
  then obtain us vs where "cs = us @ vs" "length us \<le> n" "\<forall>c \<in> set us. 0 < CHAIN_SPACE_LEN c"
    "k - CHAIN_SPACE_LEN c \<le> spaces us"
    by (auto simp: room_def)
  then show ?thesis using c by (intro roomI [of _ "c # us" vs]) auto
qed

abbreviation same_or_blank :: "chain \<Rightarrow> chain \<Rightarrow> bool" where
  "same_or_blank c c' \<equiv> c' = c \<or> off c = 0 \<and> c' = c\<lparr>misalign := 0\<rparr>"

lemma same_or_blank_keeps1:
  assumes "same_or_blank c c'" "own c"
  shows "own c' \<and> off c' = off c \<and> chain_data c' = chain_data c"
proof (cases "c' = c")
  case False
  then have "off c = 0" "c' = c\<lparr>misalign := 0\<rparr>" using assms(1) by blast+
  then show ?thesis
    using assms(2)
    by (auto simp: chain_ok_def has_flag_def CHAIN_PINNED_def CHAIN_PINNED_R_def chain_data_def)
qed (use assms in simp)

lemma same_or_blank_keeps:
  assumes "list_all2 same_or_blank cs cs'" "\<forall>c \<in> set cs. own c"
  shows "(\<forall>c \<in> set cs'. own c) \<and> content_of cs' = content_of cs \<and> map off cs' = map off cs"
  using assms
proof (induction rule: list_all2_induct)
  case Nil
  then show ?case by simp
next
  case (Cons c cs c' cs')
  have "own c" using Cons.prems by simp
  from same_or_blank_keeps1 [OF Cons.hyps(1) this]
  have c: "own c'" "off c' = off c" "chain_data c' = chain_data c" by blast+
  have "(\<forall>c \<in> set cs'. own c) \<and> content_of cs' = content_of cs \<and> map off cs' = map off cs"
    using Cons.IH Cons.prems by simp
  with c show ?case by simp
qed

text \<open>The scan of empty chains that are not the first.\<close>

lemma expand_scan_empties:
  assumes "\<forall>c \<in> set es. own c \<and> off c = 0" "used < n" "avail < datlen"
  shows "\<exists>r. expand_scan False es datlen n used avail = Some r \<and>
     (case r of
        Enough es' \<Rightarrow> list_all2 same_or_blank es es' \<and> room es' (datlen - avail) (n - used)
      | Short es' u a \<Rightarrow> list_all2 same_or_blank es es' \<and> u \<le> n \<and> a < datlen \<and>
          (u < n \<longrightarrow> u = used + length es \<and> a = avail + spaces es' \<and>
             (\<forall>c \<in> set es'. 0 < CHAIN_SPACE_LEN c)))"
  using assms
proof (induction es arbitrary: used avail)
  case Nil
  then show ?case by simp
next
  case (Cons c cs)
  let ?c = "c\<lparr>misalign := 0\<rparr>"
  have c: "off c = 0" "CHAIN_SPACE_LEN ?c = buffer_len c" "0 < buffer_len c"
    "same_or_blank c ?c"
    using Cons.prems(1) by (auto simp: CHAIN_SPACE_LEN_def has_flag_def chain_ok_def)
  have refl: "list_all2 same_or_blank cs cs" by (simp add: list_all2_refl)
  show ?case
  proof (cases "avail + buffer_len c \<ge> datlen")
    case True
    have "room (?c # cs) (datlen - avail) (n - used)"
      by (rule roomI [of _ "[?c]" cs]) (use True c Cons.prems(2) in auto)
    then show ?thesis using True c refl by simp
  next
    case False
    show ?thesis
    proof (cases "Suc used = n")
      case True
      then show ?thesis using False c refl by simp
    next
      case nf: False
      then have "Suc used < n" "avail + buffer_len c < datlen" using Cons.prems(2) False by auto
      from Cons.IH [OF _ this] Cons.prems(1) obtain r where
        r: "expand_scan False cs datlen n (Suc used) (avail + buffer_len c) = Some r"
        "case r of
           Enough es' \<Rightarrow> list_all2 same_or_blank cs es' \<and> room es' (datlen - (avail + buffer_len c)) (n - Suc used)
         | Short es' u a \<Rightarrow> list_all2 same_or_blank cs es' \<and> u \<le> n \<and> a < datlen \<and>
             (u < n \<longrightarrow> u = Suc used + length cs \<and> a = avail + buffer_len c + spaces es' \<and>
                (\<forall>c \<in> set es'. 0 < CHAIN_SPACE_LEN c))"
        by auto
      show ?thesis
      proof (cases r)
        case (Enough es')
        have "room (?c # es') (datlen - avail) (Suc (n - Suc used))"
          by (rule room_Cons) (use r(2) Enough c in auto)
        moreover have "Suc (n - Suc used) = n - used" using \<open>Suc used < n\<close> by simp
        ultimately show ?thesis using r Enough False nf c by simp
      next
        case (Short es' u a)
        then show ?thesis using r False nf c by auto
      qed
    qed
  qed
qed

text \<open>An empty chain has room.\<close>

abbreviation spacious :: "chain \<Rightarrow> bool" where
  "spacious c \<equiv> off c = 0 \<longrightarrow> 0 < CHAIN_SPACE_LEN c"

text \<open>The whole scan, of a first chain that may hold data and empty ones behind.\<close>

lemma usable_Cons: "usable (c # es) = (if CHAIN_SPACE_LEN c = 0 then es else c # es)"
  by (simp add: usable_def)

lemma expand_scan_first:
  assumes "own c" "\<forall>c \<in> set es. own c \<and> off c = 0" "2 \<le> n" "0 < datlen"
  shows "\<exists>r. expand_scan True (c # es) datlen n 0 0 = Some r \<and>
     (case r of
        Enough cs' \<Rightarrow> list_all2 same_or_blank (c # es) cs' \<and> room (usable cs') datlen n \<and> spacious (hd cs')
      | Short cs' u a \<Rightarrow> list_all2 same_or_blank (c # es) cs' \<and> u \<le> n \<and> a < datlen \<and>
          CHAIN_SPACE_LEN (hd cs') < datlen \<and> spacious (hd cs') \<and>
          (u < n \<longrightarrow> length (usable cs') = u \<and> a = spaces (usable cs') \<and>
             (\<forall>c \<in> set (usable cs'). 0 < CHAIN_SPACE_LEN c)))"
proof -
  define c' where "c' = (if off c \<noteq> 0 then c else c\<lparr>misalign := 0\<rparr>)"
  define a where "a = CHAIN_SPACE_LEN c'"
  define u where "u = (if a = 0 then 0 else Suc 0)"
  have sb: "same_or_blank c c'" by (simp add: c'_def)
  have pos: "off c = 0 \<Longrightarrow> a = buffer_len c \<and> 0 < a"
    using assms(1) by (auto simp: a_def c'_def CHAIN_SPACE_LEN_def chain_ok_def has_flag_def)
  have sp: "spacious c'" using pos by (auto simp: a_def c'_def)
  have scan: "expand_scan True (c # es) datlen n 0 0 =
      (if a \<ge> datlen then Some (Enough (c' # es))
       else (case expand_scan False es datlen n u a of
               None \<Rightarrow> None
             | Some (Enough cs') \<Rightarrow> Some (Enough (c' # cs'))
             | Some (Short cs' u a) \<Rightarrow> Some (Short (c' # cs') u a)))"
  proof (cases "off c = 0")
    case True
    then have e: "c' = c\<lparr>misalign := 0\<rparr>" by (simp add: c'_def)
    show ?thesis unfolding e using True pos assms(3) by (simp add: u_def Let_def)
  next
    case False
    then have e: "c' = c" by (simp add: c'_def)
    show ?thesis unfolding e using False assms(3) e by (simp add: u_def a_def Let_def)
  qed
  have refl: "list_all2 same_or_blank es es" by (simp add: list_all2_refl)
  have us: "usable (c' # xs) = (if a = 0 then xs else c' # xs)" for xs
    by (simp add: usable_Cons a_def)
  show ?thesis
  proof (cases "a \<ge> datlen")
    case True
    have "room (usable (c' # es)) datlen n"
      by (rule roomI [of _ "[c']" es]) (use True assms(3,4) us a_def in auto)
    then show ?thesis using True scan sb sp refl by simp
  next
    case False
    have un: "u < n" "a < datlen" using assms(3) False by (auto simp: u_def)
    from expand_scan_empties [OF assms(2) this] obtain r where
      r: "expand_scan False es datlen n u a = Some r"
      "case r of
         Enough es' \<Rightarrow> list_all2 same_or_blank es es' \<and> room es' (datlen - a) (n - u)
       | Short es' v b \<Rightarrow> list_all2 same_or_blank es es' \<and> v \<le> n \<and> b < datlen \<and>
           (v < n \<longrightarrow> v = u + length es \<and> b = a + spaces es' \<and> (\<forall>c \<in> set es'. 0 < CHAIN_SPACE_LEN c))"
      by blast
    show ?thesis
    proof (cases r)
      case (Enough es')
      have "room (usable (c' # es')) datlen n"
      proof (cases "a = 0")
        case True
        then show ?thesis using r(2) Enough us by (simp add: u_def)
      next
        case F: False
        have "room (c' # es') datlen (Suc (n - 1))"
          by (rule room_Cons) (use r(2) Enough F a_def in \<open>auto simp: u_def\<close>)
        then show ?thesis using F us un by (simp add: u_def)
      qed
      then show ?thesis using r Enough scan False sb sp by simp
    next
      case (Short es' v b)
      then have s: "list_all2 same_or_blank es es'" "v \<le> n" "b < datlen"
        "v < n \<longrightarrow> v = u + length es \<and> b = a + spaces es' \<and> (\<forall>c \<in> set es'. 0 < CHAIN_SPACE_LEN c)"
        using r(2) by simp_all
      have "length es' = length es" using s(1) by (simp add: list_all2_lengthD)
      then have "v < n \<longrightarrow> length (usable (c' # es')) = v \<and> b = spaces (usable (c' # es')) \<and>
          (\<forall>c \<in> set (usable (c' # es')). 0 < CHAIN_SPACE_LEN c)"
        using s(4) us a_def by (auto simp: u_def)
      then show ?thesis using r(1) Short scan False sb sp s a_def un by simp
    qed
  qed
qed

lemma lwd_split:
  assumes "lwd_ok cs l" "cs \<noteq> []"
  obtains front c es where "cs = front @ c # es" "l = length front" "\<forall>x \<in> set front. off x \<noteq> 0"
    "\<forall>x \<in> set es. off x = 0" "off c \<noteq> 0 \<or> front = []"
proof -
  obtain xs ys where s: "cs = xs @ ys" "\<forall>c \<in> set xs. off c \<noteq> 0" "\<forall>c \<in> set ys. off c = 0"
    "l = length xs - 1"
    using assms(1) by (rule lwd_okE)
  show thesis
  proof (cases xs rule: rev_cases)
    case Nil
    then obtain c es where "ys = c # es" using s(1) assms(2) by (cases ys) auto
    then show thesis using that [of "[]" c es] s Nil by simp
  next
    case (snoc front c)
    then show thesis using that [of front c ys] s by simp
  qed
qed

lemma lwd_join:
  assumes "\<forall>x \<in> set front. off x \<noteq> 0" "\<forall>x \<in> set es. off x = 0" "off c \<noteq> 0 \<or> front = []"
  shows "lwd_ok (front @ c # es) (length front)"
proof (cases "off c = 0")
  case True
  then show ?thesis using assms lwd_okI [of "[]" "c # es" 0] by simp
next
  case False
  then show ?thesis using assms lwd_okI [of "front @ [c]" es "length front"] by simp
qed

text \<open>The chains behind some in front may be exchanged for ones with the same content.\<close>

lemma exchange_ok:
  assumes ok: "evb_ok b" and pl: "plain b" and ch: "chains b = front @ c # es"
    and l: "last_with_datap b = length front" "\<forall>x \<in> set front. off x \<noteq> 0"
    and e: "\<forall>x \<in> set es'. off x = 0" "off c' \<noteq> 0 \<or> front = []"
    and o: "\<forall>x \<in> set (c' # es'). own x" "content_of (c' # es') = content_of (c # es)"
    and b': "chains b' = front @ c' # es'" "last_with_datap b' = length front"
      "total_len b' = total_len b"
  shows "evb_ok b' \<and> plain b' \<and> content b' = content b"
proof -
  have "content b' = content b" using b'(1) ch o(2) by (simp add: content_def)
  moreover have "lwd_ok (chains b') (last_with_datap b')"
    unfolding b' by (rule lwd_join [OF l(2) e])
  moreover have "\<forall>x \<in> set (chains b'). own x"
    using b'(1) ch o(1) evb_okD(1) [OF ok] pl by (auto simp: plain_def)
  ultimately show ?thesis
    using b'(3) evb_okD(2,3) [OF ok] unfolding evb_ok_def plain_def by simp
qed

lemma fresh_own: "fresh_chain c k \<Longrightarrow> own c \<and> off c = 0 \<and> k \<le> CHAIN_SPACE_LEN c \<and> 0 < CHAIN_SPACE_LEN c"
  using fresh_chain_ok [of c k] by (auto simp: fresh_chain_def CHAIN_SPACE_LEN_def)

text \<open>What an expansion promises.\<close>

definition expanded :: "evbuffer \<Rightarrow> nat \<Rightarrow> nat \<Rightarrow> evbuffer \<Rightarrow> bool" where
  "expanded b datlen n b' \<longleftrightarrow> content b' = content b \<and> total_len b' = total_len b \<and> evb_ok b' \<and> plain b' \<and>
     freeze_start b' = freeze_start b \<and> freeze_end b' = freeze_end b \<and>
     last_with_datap b' < length (chains b') \<and> spacious (chains b' ! last_with_datap b') \<and>
     room (usable (drop (last_with_datap b') (chains b'))) datlen n"

lemma evbuffer_expand_fast_ok:
  assumes ok: "evb_ok b" and pl: "plain b" and m: "allocs m" and n: "2 \<le> n" "0 < datlen"
    and len: "datlen \<le> EVBUFFER_CHAIN_MAX - EVBUFFER_CHAIN_SIZE"
  shows "\<exists>b'. evbuffer_expand_fast m b datlen n = Some (b', 0) \<and> expanded b datlen n b'"
proof (cases "chains b = []")
  case True
  obtain c where c: "evbuffer_chain_new m datlen = Some c" "fresh_chain c datlen"
    using chain_new_fresh [OF m len] by blast
  note cok = fresh_own [OF c(2)]
  have c1: "chain_ok c" "total_len b + off c \<le> SIZE_MAX" using cok ok by (simp_all add: evb_ok_def)
  obtain b' where b': "evbuffer_chain_insert b c = Some b'"
    "chains b' = data_chains (chains b) @ [c]" "content b' = content b @ chain_data c"
    "total_len b' = total_len b + off c" "freeze_start b' = freeze_start b"
    "freeze_end b' = freeze_end b" "off c = 0 \<or> tight b \<Longrightarrow> evb_ok b'"
    by (rule chain_insert_ok [OF ok c1]) blast
  have ch: "chains b' = [c]" using b'(2) True by (simp add: data_chains_def)
  have ok': "evb_ok b'" using b'(7) cok by simp
  have "last_with_datap b' = 0" using evb_okD(4) [OF ok'] ch cok by (simp add: lwd_ok_def data_chains_def)
  moreover have "room [c] datlen n" by (rule roomI [of _ "[c]" "[]"]) (use cok n in auto)
  ultimately have "expanded b datlen n b'"
    using b' ch ok' cok by (simp add: expanded_def usable_Cons plain_def)
  then show ?thesis using c(1) b'(1) True n by (simp add: evbuffer_expand_fast_def the_last_def)
next
  case False
  obtain front c es where s: "chains b = front @ c # es" "last_with_datap b = length front"
    "\<forall>x \<in> set front. off x \<noteq> 0" "\<forall>x \<in> set es. off x = 0" "off c \<noteq> 0 \<or> front = []"
    using evb_okD(4) [OF ok] False by (rule lwd_split)
  have own: "\<forall>x \<in> set (c # es). own x" using evb_okD(1) [OF ok] pl s(1) by (auto simp: plain_def)
  have last: "\<not> (case the_last b of None \<Rightarrow> True | Some c \<Rightarrow> has_flag c EVBUFFER_IMMUTABLE)"
    using own s(1) by (auto simp: the_last_def)
  have es: "\<forall>x \<in> set es. own x \<and> off x = 0" using own s(4) by simp
  obtain r where r: "expand_scan True (c # es) datlen n 0 0 = Some r"
    "case r of
        Enough cs' \<Rightarrow> list_all2 same_or_blank (c # es) cs' \<and> room (usable cs') datlen n \<and> spacious (hd cs')
      | Short cs' u a \<Rightarrow> list_all2 same_or_blank (c # es) cs' \<and> u \<le> n \<and> a < datlen \<and>
          CHAIN_SPACE_LEN (hd cs') < datlen \<and> spacious (hd cs') \<and>
          (u < n \<longrightarrow> length (usable cs') = u \<and> a = spaces (usable cs') \<and>
             (\<forall>c \<in> set (usable cs'). 0 < CHAIN_SPACE_LEN c))"
    using expand_scan_first [OF _ es n] own by auto
  have keeps: "\<exists>c' es'. cs' = c' # es' \<and> (\<forall>x \<in> set es'. off x = 0) \<and> off c' = off c \<and>
      (\<forall>x \<in> set (c' # es'). own x) \<and> content_of (c' # es') = content_of (c # es)"
    if "list_all2 same_or_blank (c # es) cs'" for cs'
  proof -
    from same_or_blank_keeps [OF that own] have k: "\<forall>c \<in> set cs'. own c"
      "content_of cs' = content_of (c # es)" "map off cs' = off c # map off es" by simp_all
    from k(3) obtain c' es' where c': "cs' = c' # es'" "off c' = off c" "map off es' = map off es" by auto
    have "off ` set es' = off ` set es" using c'(3) by (metis set_map)
    then have "\<forall>x \<in> set es'. off x = 0" using s(4) by (metis imageE imageI)
    then show ?thesis using k c' by simp
  qed
  note ex = exchange_ok [OF ok pl s(1-3)]
  show ?thesis
  proof (cases r)
    case (Enough cs')
    then have e: "list_all2 same_or_blank (c # es) cs'" "room (usable cs') datlen n" "spacious (hd cs')"
      using r(2) by simp_all
    obtain c' es' where c': "cs' = c' # es'" "\<forall>x \<in> set es'. off x = 0" "off c' = off c"
      "\<forall>x \<in> set (c' # es'). own x" "content_of (c' # es') = content_of (c # es)"
      using keeps [OF e(1)] by blast
    let ?b = "b\<lparr>chains := front @ c' # es'\<rparr>"
    have "evb_ok ?b \<and> plain ?b \<and> content ?b = content b"
      by (rule ex [OF c'(2) _ c'(4,5)]) (use s(2,5) c'(3) in simp_all)
    then have "expanded b datlen n ?b" using e(2,3) s(2) c'(1) by (simp add: expanded_def)
    moreover have "evbuffer_expand_fast m b datlen n = Some (?b, 0)"
      using last n(1) r(1) Enough s(1,2) c'(1) by (simp add: evbuffer_expand_fast_def)
    ultimately show ?thesis by blast
  next
    case (Short cs' u a)
    then have e: "list_all2 same_or_blank (c # es) cs'" "u \<le> n" "a < datlen" "CHAIN_SPACE_LEN (hd cs') < datlen"
      "spacious (hd cs')"
      "u < n \<longrightarrow> length (usable cs') = u \<and> a = spaces (usable cs') \<and> (\<forall>c \<in> set (usable cs'). 0 < CHAIN_SPACE_LEN c)"
      using r(2) by simp_all
    obtain c' es' where c': "cs' = c' # es'" "\<forall>x \<in> set es'. off x = 0" "off c' = off c"
      "\<forall>x \<in> set (c' # es'). own x" "content_of (c' # es') = content_of (c # es)"
      using keeps [OF e(1)] by blast
    have fr: "off c' \<noteq> 0 \<or> front = []" using s(5) c'(3) by simp
    have small: "k \<le> datlen \<Longrightarrow> k \<le> EVBUFFER_CHAIN_MAX - EVBUFFER_CHAIN_SIZE" for k using len by simp
    show ?thesis
    proof (cases "u < n")
      case True
      obtain t where t: "evbuffer_chain_new m (datlen - a) = Some t" "fresh_chain t (datlen - a)"
        using chain_new_fresh [OF m small [of "datlen - a"]] by auto
      note tok = fresh_own [OF t(2)]
      let ?b = "b\<lparr>chains := front @ c' # (es' @ [t])\<rparr>"
      have "content_of (c' # es' @ [t]) = content_of (c # es)" using c'(5) tok by simp
      then have "evb_ok ?b \<and> plain ?b \<and> content ?b = content b"
        by (intro ex [OF _ fr]) (use c'(2,4) s(2) tok in auto)
      moreover have "room (usable (c' # es' @ [t])) datlen n"
        by (rule roomI [of _ "usable cs' @ [t]" "[]"])
          (use e(6) True tok c'(1) in \<open>auto simp: usable_Cons\<close>)
      ultimately have "expanded b datlen n ?b" using s(2) e(5) c'(1) by (simp add: expanded_def)
      moreover have "evbuffer_expand_fast m b datlen n = Some (?b, 0)"
        using last n(1) r(1) Short s(1,2) c'(1) True t(1) by (simp add: evbuffer_expand_fast_def)
      ultimately show ?thesis by blast
    next
      case False
      then have un: "u = n" using e(2) by simp
      show ?thesis
      proof (cases "off c' = 0")
        case True
        obtain t where t: "evbuffer_chain_new m datlen = Some t" "fresh_chain t datlen"
          using chain_new_fresh [OF m small [of datlen]] by auto
        note tok = fresh_own [OF t(2)]
        have f: "front = []" using fr True by simp
        have z: "content_of (c # es) = []" using c'(2,5) True by (simp add: content_of_empties)
        let ?b = "emit (evbuffer_free_all_chains cs') (b\<lparr>chains := [t], last_with_datap := 0\<rparr>)"
        have "evb_ok ?b \<and> plain ?b \<and> content ?b = content b"
          by (rule ex [of "[]" t]) (use tok f z in simp_all)
        moreover have "room [t] datlen n" by (rule roomI [of _ "[t]" "[]"]) (use tok n in auto)
        ultimately have "expanded b datlen n ?b" using tok by (simp add: expanded_def usable_Cons)
        moreover have "evbuffer_expand_fast m b datlen n = Some (?b, 0)"
          using last n(1) r(1) Short s(1,2) c'(1,2) un True f t(1)
          by (simp add: evbuffer_expand_fast_def all_empty_iff emit_def)
        ultimately show ?thesis by blast
      next
        case nz: False
        let ?k = "datlen - CHAIN_SPACE_LEN c'"
        obtain t where t: "evbuffer_chain_new m ?k = Some t" "fresh_chain t ?k"
          using chain_new_fresh [OF m small [of ?k]] by auto
        note tok = fresh_own [OF t(2)]
        have z: "content_of es' = []" using c'(2) by (simp add: content_of_empties)
        let ?b = "emit (evbuffer_free_all_chains es') (b\<lparr>chains := front @ [c', t]\<rparr>)"
        have "content_of [c', t] = content_of (c # es)" using c'(5) tok z by simp
        then have "evb_ok ?b \<and> plain ?b \<and> content ?b = content b"
          by (intro ex [of "[t]" c']) (use c'(4) s(2) fr tok in auto)
        moreover have "room (usable [c', t]) datlen n"
          by (rule roomI [of _ "usable [c', t]" "[]"]) (use tok n in \<open>auto simp: usable_Cons\<close>)
        ultimately have "expanded b datlen n ?b" using s(2) e(5) c'(1) by (simp add: expanded_def)
        moreover have "evbuffer_expand_fast m b datlen n = Some (?b, 0)"
          using last n(1) r(1) Short s(1,2) c'(1,2) un nz e(4) t(1)
          by (simp add: evbuffer_expand_fast_def all_empty_iff emit_def)
        ultimately show ?thesis by blast
      qed
    qed
  qed
qed

section \<open>Reading into the room\<close>

lemma store_read_Nil: "\<forall>c \<in> set cs. chain_ok c \<Longrightarrow> store_read cs vs [] = Some cs"
  by (induction cs vs "[] :: bytes" rule: store_read.induct) (auto simp: mem_write_def chain_ok_def)

lemma own_space: "own c \<Longrightarrow> CHAIN_SPACE_LEN c = buffer_len c - (misalign c + off c) \<and> misalign c + off c \<le> buffer_len c"
  by (simp add: CHAIN_SPACE_LEN_def chain_ok_def)

text \<open>Bytes stored in the free space of one chain, and the chain extended by them.\<close>

lemma store_and_extend:
  assumes "own c" "length d \<le> CHAIN_SPACE_LEN c"
  obtains mem' where "mem_write (ch_mem c) (misalign c + off c) d = Some mem'"
    "own (c\<lparr>ch_mem := mem', off := off c + length d\<rparr>)"
    "chain_data (c\<lparr>ch_mem := mem', off := off c + length d\<rparr>) = chain_data c @ d"
    "CHAIN_SPACE_LEN (c\<lparr>ch_mem := mem'\<rparr>) = CHAIN_SPACE_LEN c"
    "CHAIN_SPACE_LEN (c\<lparr>ch_mem := mem'\<rparr>) \<le> EVBUFFER_CHAIN_MAX"
proof -
  have le: "misalign c + off c + length d \<le> buffer_len c" using own_space [of c] assms by auto
  obtain c' where c': "chain_append c d = Some c'" "chain_ok c'" "chain_data c' = chain_data c @ d"
    "ch_flags c' = ch_flags c"
    using chain_append_ok [OF _ le] assms(1) by metis
  then obtain mem' where m: "mem_write (ch_mem c) (misalign c + off c) d = Some mem'"
    "c' = c\<lparr>ch_mem := mem', off := off c + length d\<rparr>"
    by (auto simp: chain_append_def)
  have "CHAIN_SPACE_LEN (c\<lparr>ch_mem := mem'\<rparr>) = CHAIN_SPACE_LEN c"
    by (simp add: CHAIN_SPACE_LEN_def has_flag_def)
  moreover have "CHAIN_SPACE_LEN c \<le> EVBUFFER_CHAIN_MAX"
    using own_space [OF assms(1)] assms(1) unfolding chain_ok_def by linarith
  ultimately show thesis
    using that [of mem'] m c' assms(1) by (simp add: has_flag_def)
qed

definition filled_with :: "chain list \<Rightarrow> bytes \<Rightarrow> chain list \<Rightarrow> nat \<Rightarrow> bool" where
  "filled_with U d cs j \<longleftrightarrow>
     (\<exists>pre c post. cs = pre @ c # post \<and> length pre = j \<and> (\<forall>x \<in> set (pre @ [c]). off x \<noteq> 0) \<and>
        (\<forall>x \<in> set cs. own x) \<and> (\<forall>x \<in> set post. off x = 0) \<and> content_of cs = content_of U @ d)"

lemma read_into:
  assumes "room U k n" "\<forall>c \<in> set U. own c" "\<forall>c \<in> set (tl U). off c = 0" "0 < k"
  shows "\<exists>vs. setup_vecs_loop U n so (so + k) True = Some vs \<and> sum_list (map iov_len vs) = k \<and>
     (\<forall>d. d \<noteq> [] \<and> length d \<le> k \<longrightarrow>
        (\<exists>cs cs' j. store_read U vs d = Some cs \<and>
           read_extend i cs (length vs) (length d) l = (cs', i + j) \<and> filled_with U d cs' j))"
  using assms
proof (induction U arbitrary: k n so i)
  case Nil
  then show ?case by (simp add: room_def)
next
  case (Cons c es)
  have own: "own c" "\<forall>x \<in> set es. own x" "\<forall>x \<in> set es. off x = 0" using Cons.prems(2,3) by simp_all
  obtain us ws where us: "c # es = us @ ws" "length us \<le> n" "\<forall>c \<in> set us. 0 < CHAIN_SPACE_LEN c" "k \<le> spaces us"
    using Cons.prems(1) by (auto simp: room_def)
  then obtain us' where us': "us = c # us'" "es = us' @ ws" using Cons.prems(4) by (cases us) auto
  then obtain n' where n: "n = Suc n'" "length us' \<le> n'" using us(2) by (cases n) auto
  let ?s = "CHAIN_SPACE_LEN c"
  have s: "0 < ?s" using us(3) us'(1) by simp
  have one: "\<exists>cs cs' j. store_read (c # es) (v # vs) d = Some cs \<and>
        read_extend i cs (Suc (length vs)) (length d) l = (cs', i + j) \<and> filled_with (c # es) d cs' j"
    if d: "d \<noteq> []" "length d \<le> iov_len v" "length d \<le> ?s" for v vs d
  proof -
    obtain mem' where mem': "mem_write (ch_mem c) (misalign c + off c) d = Some mem'"
      "own (c\<lparr>ch_mem := mem', off := off c + length d\<rparr>)"
      "chain_data (c\<lparr>ch_mem := mem', off := off c + length d\<rparr>) = chain_data c @ d"
      "CHAIN_SPACE_LEN (c\<lparr>ch_mem := mem'\<rparr>) = ?s"
      "CHAIN_SPACE_LEN (c\<lparr>ch_mem := mem'\<rparr>) \<le> EVBUFFER_CHAIN_MAX"
      using store_and_extend [OF own(1) d(3)] by blast
    let ?c = "c\<lparr>ch_mem := mem', off := off c + length d\<rparr>"
    have "store_read (c # es) (v # vs) d = Some (c\<lparr>ch_mem := mem'\<rparr> # es)"
      using mem'(1) d(2) own(2) by (simp add: store_read_Nil)
    moreover have "read_extend i (c\<lparr>ch_mem := mem'\<rparr> # es) (Suc (length vs)) (length d) l = (?c # es, i + 0)"
      using mem'(4,5) d(3) by (simp add: Let_def)
    moreover have "filled_with (c # es) d (?c # es) 0"
      unfolding filled_with_def
      by (intro exI [of _ "[]"] exI [of _ ?c] exI [of _ es])
        (use mem'(2,3) d(1) own content_of_empties [OF own(3)] in simp)
    ultimately show ?thesis by blast
  qed
  show ?case
  proof (cases "k \<le> ?s")
    case True
    let ?v = "\<lparr>iov_base = CHAIN_SPACE_PTR c, iov_len = k\<rparr>"
    have "setup_vecs_loop es n' (so + k) (so + k) True = Some []" by (cases n') simp_all
    then have "setup_vecs_loop (c # es) n so (so + k) True = Some [?v]"
      using True Cons.prems(4) n by (auto simp: Let_def)
    then show ?thesis using one [of _ ?v "[]"] True by (intro exI [of _ "[?v]"]) auto
  next
    case False
    let ?v = "\<lparr>iov_base = CHAIN_SPACE_PTR c, iov_len = ?s\<rparr>"
    have "room es (k - ?s) n'" by (rule roomI [OF us'(2) n(2)]) (use us(3,4) us'(1) in auto)
    moreover have "\<forall>c \<in> set (tl es). off c = 0" using own(3) by (cases es) auto
    ultimately obtain vs where vs: "setup_vecs_loop es n' (so + ?s) (so + ?s + (k - ?s)) True = Some vs"
      "sum_list (map iov_len vs) = k - ?s"
      "\<forall>d. d \<noteq> [] \<and> length d \<le> k - ?s \<longrightarrow>
        (\<exists>cs cs' j. store_read es vs d = Some cs \<and>
           read_extend (Suc i) cs (length vs) (length d) l = (cs', Suc i + j) \<and> filled_with es d cs' j)"
      using Cons.IH [of "k - ?s" n' "so + ?s" "Suc i"] own(2) False by auto
    have sum: "so + ?s + (k - ?s) = so + k" using False by simp
    have set: "setup_vecs_loop (c # es) n so (so + k) True = Some (?v # vs)"
      using vs(1) sum False Cons.prems(4) n by (simp add: Let_def)
    have "\<exists>cs cs' j. store_read (c # es) (?v # vs) d = Some cs \<and>
        read_extend i cs (length (?v # vs)) (length d) l = (cs', i + j) \<and> filled_with (c # es) d cs' j"
      if d: "d \<noteq> []" "length d \<le> k" for d
    proof (cases "length d \<le> ?s")
      case True
      then show ?thesis using one [of d ?v vs] d(1) by simp
    next
      case F: False
      let ?d = "take ?s d"
      have ld: "length ?d = ?s" using F by simp
      then have "length ?d \<le> CHAIN_SPACE_LEN c" by simp
      then obtain mem' where mem': "mem_write (ch_mem c) (misalign c + off c) ?d = Some mem'"
        "own (c\<lparr>ch_mem := mem', off := off c + length ?d\<rparr>)"
        "chain_data (c\<lparr>ch_mem := mem', off := off c + length ?d\<rparr>) = chain_data c @ ?d"
        "CHAIN_SPACE_LEN (c\<lparr>ch_mem := mem'\<rparr>) = ?s"
        "CHAIN_SPACE_LEN (c\<lparr>ch_mem := mem'\<rparr>) \<le> EVBUFFER_CHAIN_MAX"
        using store_and_extend [OF own(1)] by blast
      let ?c = "c\<lparr>ch_mem := mem', off := off c + ?s\<rparr>"
      have "drop ?s d \<noteq> [] \<and> length (drop ?s d) \<le> k - ?s" using F d by simp
      then obtain cs cs' j where r: "store_read es vs (drop ?s d) = Some cs"
        "read_extend (Suc i) cs (length vs) (length (drop ?s d)) l = (cs', Suc i + j)"
        "filled_with es (drop ?s d) cs' j"
        using vs(3) by blast
      have "store_read (c # es) (?v # vs) d = Some (c\<lparr>ch_mem := mem'\<rparr> # cs)"
        using mem'(1) r(1) by simp
      moreover have "read_extend i (c\<lparr>ch_mem := mem'\<rparr> # cs) (length (?v # vs)) (length d) l =
          (?c # cs', i + Suc j)"
        using mem'(4,5) F r(2) by (simp add: Let_def)
      moreover have "filled_with (c # es) d (?c # cs') (Suc j)"
      proof -
        obtain pre x post where f: "cs' = pre @ x # post" "length pre = j" "\<forall>y \<in> set (pre @ [x]). off y \<noteq> 0"
          "\<forall>y \<in> set cs'. own y" "\<forall>y \<in> set post. off y = 0" "content_of cs' = content_of es @ drop ?s d"
          using r(3) unfolding filled_with_def by blast
        have "chain_data ?c = chain_data c @ ?d" "own ?c" using mem'(2,3) ld by simp_all
        then have "content_of (?c # cs') = content_of (c # es) @ d"
          using f(6) content_of_empties [OF own(3)] by simp
        then show ?thesis
          unfolding filled_with_def
          by (intro exI [of _ "?c # pre"] exI [of _ x] exI [of _ post])
            (use f \<open>own ?c\<close> s in simp)
      qed
      ultimately show ?thesis by blast
    qed
    then show ?thesis using set vs(2) False by (intro exI [of _ "?v # vs"]) simp
  qed
qed

text \<open>
  What a read promises: nothing happens to the content on an error or at the end of the file,
  otherwise the bytes read are at its end; \<open>readv\<close> was offered exactly \<open>k\<close> bytes.
\<close>

definition read_outcome ::
  "(evbuffer_iovec list \<Rightarrow> bytes option) \<Rightarrow> evbuffer \<Rightarrow> nat \<Rightarrow> evbuffer \<Rightarrow> int \<Rightarrow> bool" where
  "read_outcome readv b k b' r \<longleftrightarrow> evb_ok b' \<and> plain b' \<and>
     (\<exists>vs. sum_list (map iov_len vs) = k \<and>
        (case readv vs of
           None \<Rightarrow> r = - 1 \<and> content b' = content b
         | Some d \<Rightarrow> r = int (length d) \<and> content b' = content b @ d))"

lemma iov_drop:
  assumes "l < length cs"
  shows "drop (if CHAIN_SPACE_LEN (cs ! l) = 0 then Suc l else l) cs = usable (drop l cs)"
proof -
  have "drop l cs = cs ! l # drop (Suc l) cs" using assms by (simp add: Cons_nth_drop_Suc)
  then show ?thesis by (simp add: usable_Cons)
qed

lemma setup_vecs_eq:
  assumes "last_with_datap b < length (chains b)"
    and "i = (if CHAIN_SPACE_LEN (chains b ! last_with_datap b) = 0 then Suc (last_with_datap b)
              else last_with_datap b)"
  shows "evbuffer_read_setup_vecs b (int k) n exact =
    map_option (\<lambda>vs. (int (length vs), vs, i)) (setup_vecs_loop (drop i (chains b)) n 0 k exact)"
  using assms
  by (cases "setup_vecs_loop (drop i (chains b)) n 0 k exact")
    (auto simp: evbuffer_read_setup_vecs_def slot_def Let_def)

lemma evbuffer_read_ok:
  assumes ok: "evb_ok b" and pl: "plain b" and m: "allocs m" and f: "\<not> freeze_end b"
    and r: "\<forall>vs d. readv vs = Some d \<longrightarrow> length d \<le> sum_list (map iov_len vs)"
    and len: "total_len b + 4096 \<le> SIZE_MAX"
    and k: "k = (let n = (if readable \<le> 0 \<or> readable > 4096 then 4096 else readable) in
                 nat (if howmuch < 0 \<or> howmuch > n then n else howmuch))" "0 < k"
  shows "\<exists>b' r. evbuffer_read m readable readv b howmuch = Some (b', r) \<and> read_outcome readv b k b' r"
proof -
  define h where "h = (let n = (if readable \<le> 0 \<or> readable > EVBUFFER_MAX_READ then EVBUFFER_MAX_READ else readable)
                       in (if howmuch < 0 \<or> howmuch > n then n else howmuch))"
  have h: "nat h = k" "k \<le> 4096" "h = int k"
    using k by (auto simp: h_def EVBUFFER_MAX_READ_def Let_def split: if_splits)
  have "k \<le> EVBUFFER_CHAIN_MAX - EVBUFFER_CHAIN_SIZE"
    using h(2) by (simp add: EVBUFFER_CHAIN_MAX_def EVBUFFER_CHAIN_SIZE_def)
  then obtain b1 where b1: "evbuffer_expand_fast m b k NUM_READ_IOVEC = Some (b1, 0)"
    "expanded b k NUM_READ_IOVEC b1"
    using evbuffer_expand_fast_ok [OF ok pl m _ k(2), of NUM_READ_IOVEC] by (auto simp: NUM_READ_IOVEC_def)
  define l where "l = last_with_datap b1"
  define U where "U = usable (drop l (chains b1))"
  define i where "i = (if CHAIN_SPACE_LEN (chains b1 ! l) = 0 then Suc l else l)"
  have e: "content b1 = content b" "total_len b1 = total_len b" "evb_ok b1" "plain b1"
    "l < length (chains b1)" "room U k NUM_READ_IOVEC" "spacious (chains b1 ! l)"
    using b1(2) by (simp_all add: expanded_def l_def U_def)
  have U: "drop i (chains b1) = U" unfolding i_def U_def by (rule iov_drop [OF e(5)])
  have own: "\<forall>c \<in> set (chains b1). own c" using evb_okD(1) [OF e(3)] e(4) by (auto simp: plain_def)
  have ne: "chains b1 \<noteq> []" using e(5) by force
  obtain front c es where s: "chains b1 = front @ c # es" "l = length front"
    "\<forall>x \<in> set front. off x \<noteq> 0" "\<forall>x \<in> set es. off x = 0" "off c \<noteq> 0 \<or> front = []"
    unfolding l_def by (rule lwd_split [OF evb_okD(4) [OF e(3)] ne])
  have Us: "U = usable (c # es)" "chains b1 ! l = c" using s(1,2) by (simp_all add: U_def)
  have Uown: "\<forall>c \<in> set U. own c" using own U by (metis in_set_dropD)
  have Utl: "\<forall>c \<in> set (tl U). off c = 0"
    using s(4) Us(1) by (cases es) (auto simp: usable_Cons)
  obtain vs where vs: "setup_vecs_loop U NUM_READ_IOVEC 0 (0 + k) True = Some vs"
    "sum_list (map iov_len vs) = k"
    "\<forall>d. d \<noteq> [] \<and> length d \<le> k \<longrightarrow>
        (\<exists>cs cs' j. store_read U vs d = Some cs \<and>
           read_extend i cs (length vs) (length d) l = (cs', i + j) \<and> filled_with U d cs' j)"
    using read_into [OF e(6) Uown Utl k(2), of 0 i l] by blast
  have vecs: "evbuffer_read_setup_vecs b1 h NUM_READ_IOVEC True = Some (int (length vs), vs, i)"
  proof -
    have il: "i = (if CHAIN_SPACE_LEN (chains b1 ! last_with_datap b1) = 0 then Suc (last_with_datap b1)
        else last_with_datap b1)" unfolding i_def l_def ..
    show ?thesis
      unfolding h(3) setup_vecs_eq [OF e(5) [unfolded l_def] il] U using vs(1) by simp
  qed
  have run: "evbuffer_read m readable readv b howmuch =
      (case readv vs of
         None \<Rightarrow> Some (b1, - 1)
       | Some d \<Rightarrow>
           if d = [] then Some (b1, 0)
           else do {
             cs \<leftarrow> store_read U vs d;
             let (cs', l') = read_extend i cs (length vs) (length d) l;
             Some (evbuffer_invoke_callbacks
                     (grown (length d)
                       (b1\<lparr>chains := take i (chains b1) @ cs', last_with_datap := l'\<rparr>)),
                   int (length d))
           })"
    using f b1(1) vecs h(1) U
    by (simp add: evbuffer_read_def Let_def h_def [unfolded Let_def, symmetric] l_def cong: option.case_cong if_cong)
  show ?thesis
  proof (cases "readv vs")
    case None
    then show ?thesis using run e vs(2) by (auto simp: read_outcome_def intro!: exI [of _ vs])
  next
    case (Some d)
    show ?thesis
    proof (cases "d = []")
      case True
      then show ?thesis using run e vs(2) Some by (auto simp: read_outcome_def intro!: exI [of _ vs])
    next
      case False
      have ld: "length d \<le> k" using r Some vs(2) by metis
      then obtain cs cs' j where c: "store_read U vs d = Some cs"
        "read_extend i cs (length vs) (length d) l = (cs', i + j)" "filled_with U d cs' j"
        using vs(3) False by blast
      let ?b = "evbuffer_invoke_callbacks (grown (length d)
          (b1\<lparr>chains := take i (chains b1) @ cs', last_with_datap := i + j\<rparr>))"
      obtain pre x post where p: "cs' = pre @ x # post" "length pre = j" "\<forall>y \<in> set (pre @ [x]). off y \<noteq> 0"
        "\<forall>y \<in> set cs'. own y" "\<forall>y \<in> set post. off y = 0" "content_of cs' = content_of U @ d"
        using c(3) unfolding filled_with_def by blast
      have t: "\<forall>y \<in> set (take i (chains b1)). off y \<noteq> 0 \<and> own y" "length (take i (chains b1)) = i"
        using s Us(2) e(7) own by (auto simp: i_def)
      have "content_of (take i (chains b1) @ cs') = content b1 @ d"
        using p(6) U content_split [of b1 i] by simp
      moreover have "lwd_ok ((take i (chains b1) @ pre) @ x # post) (length (take i (chains b1) @ pre))"
        by (rule lwd_join) (use t p in auto)
      moreover have "total_len b1 + length d \<le> SIZE_MAX" using len ld h(2) e(2) by linarith
      ultimately have "evb_ok ?b \<and> plain ?b \<and> content ?b = content b @ d"
        using p(1,2,4) t e(1) evb_okD(2) [OF e(3)] by (auto simp: evb_ok_def plain_def content_def)
      then show ?thesis
        using run c(1,2) Some False vs(2) by (auto simp: read_outcome_def intro!: exI [of _ vs])
    qed
  qed
qed

end
