(* ===== verification/EvbufferContract.thy ===== *)
theory EvbufferContract
  imports EvbufferLines EvbufferRoom
begin

text \<open>
  What the clients of an evbuffer rely on, as an interface: \<open>byte_buffer\<close> fixes the operations
  and a reading of the state as a list of bytes, and assumes that adding appends, that draining
  and removing take from the front, and that pulled-up bytes are the first ones. The lemmas in it
  are the ones a client that encodes and decodes data uses; the evbuffer of \<open>buffer.c\<close> is
  shown to provide the interface.
\<close>

text \<open>A list of pieces added one after the other; the results of the calls are not looked at.\<close>

primrec add_all ::
  "('m \<Rightarrow> 'b \<Rightarrow> bytes \<Rightarrow> ('b \<times> int) option) \<Rightarrow> 'm \<Rightarrow> 'b \<Rightarrow> bytes list \<Rightarrow> 'b option" where
  "add_all add m b [] = Some b"
| "add_all add m b (d # ds) = do { (b', _) \<leftarrow> add m b d; add_all add m b' ds }"

locale byte_buffer =
  fixes inv :: "'b \<Rightarrow> bool"
    and cont :: "'b \<Rightarrow> bytes"
    and len :: "'b \<Rightarrow> nat"
    and cap :: nat
    and good :: "'m \<Rightarrow> bool"
    and add :: "'m \<Rightarrow> 'b \<Rightarrow> bytes \<Rightarrow> ('b \<times> int) option"
    and drain :: "'b \<Rightarrow> nat \<Rightarrow> ('b \<times> int) option"
    and remove :: "'b \<Rightarrow> nat \<Rightarrow> ('b \<times> bytes \<times> int) option"
    and pullup :: "'m \<Rightarrow> 'b \<Rightarrow> int \<Rightarrow> ('b \<times> nat option) option"
    and front :: "'b \<Rightarrow> nat \<Rightarrow> u8 option"
  assumes len_law: "inv b \<Longrightarrow> len b = length (cont b)"
    and add_law: "inv b \<Longrightarrow> good m \<Longrightarrow> length (cont b) + length d \<le> cap \<Longrightarrow>
        \<exists>b'. add m b d = Some (b', 0) \<and> inv b' \<and> cont b' = cont b @ d"
    and drain_law: "inv b \<Longrightarrow> \<exists>b'. drain b n = Some (b', 0) \<and> inv b' \<and> cont b' = drop n (cont b)"
    and remove_law: "inv b \<Longrightarrow>
        \<exists>b' r. remove b n = Some (b', take n (cont b), r) \<and> inv b' \<and> cont b' = drop n (cont b)"
    and pullup_law: "inv b \<Longrightarrow> good m \<Longrightarrow> 0 < n \<Longrightarrow> n \<le> length (cont b) \<Longrightarrow> length (cont b) \<le> cap \<Longrightarrow>
        \<exists>b' a. pullup m b (int n) = Some (b', Some a) \<and> inv b' \<and> cont b' = cont b \<and>
          (\<forall>i < n. front b' i = Some (cont b ! i))"
    and pullup_nothing: "inv b \<Longrightarrow> pullup m b 0 = Some (b, None)"
begin

lemma add_all_law:
  "inv b \<Longrightarrow> good m \<Longrightarrow> length (cont b) + length (concat ds) \<le> cap \<Longrightarrow>
     \<exists>b'. add_all add m b ds = Some b' \<and> inv b' \<and> cont b' = cont b @ concat ds"
proof (induction ds arbitrary: b)
  case Nil
  then show ?case by simp
next
  case (Cons d ds)
  then obtain b1 where b1: "add m b d = Some (b1, 0)" "inv b1" "cont b1 = cont b @ d"
    using add_law [of b m d] by auto
  then obtain b2 where "add_all add m b1 ds = Some b2" "inv b2" "cont b2 = cont b1 @ concat ds"
    using Cons.IH [of b1] Cons.prems by auto
  then show ?case using b1 by simp
qed

text \<open>Taking a known prefix off.\<close>

lemma drain_prefix: "inv b \<Longrightarrow> cont b = d @ s \<Longrightarrow> \<exists>b'. drain b (length d) = Some (b', 0) \<and> inv b' \<and> cont b' = s"
  using drain_law [of b "length d"] by auto

lemma remove_prefix:
  "inv b \<Longrightarrow> cont b = d @ s \<Longrightarrow> \<exists>b' r. remove b (length d) = Some (b', d, r) \<and> inv b' \<and> cont b' = s"
  using remove_law [of b "length d"] by auto

text \<open>What was added to an empty buffer comes out again.\<close>

lemma add_remove:
  assumes "inv b" "cont b = []" "good m" "length d \<le> cap"
  shows "\<exists>b1 b2 r. add m b d = Some (b1, 0) \<and> remove b1 (length d) = Some (b2, d, r) \<and> inv b2 \<and> cont b2 = []"
proof -
  obtain b1 where b1: "add m b d = Some (b1, 0)" "inv b1" "cont b1 = d"
    using add_law [OF assms(1,3), of d] assms(2,4) by auto
  then show ?thesis using remove_prefix [of b1 d "[]"] by auto
qed

end

section \<open>The evbuffer as a byte buffer\<close>

definition sound :: "evbuffer \<Rightarrow> bool" where
  "sound b \<longleftrightarrow> evb_ok b \<and> tight b \<and> plain b \<and> \<not> freeze_start b \<and> \<not> freeze_end b"

definition evb_cap :: nat where
  "evb_cap = EVBUFFER_CHAIN_MAX - EVBUFFER_CHAIN_SIZE"

text \<open>Byte \<open>i\<close> behind the address a pull-up returned; \<open>None\<close> outside the memory of the chain.\<close>

definition pulled_at :: "evbuffer \<Rightarrow> nat \<Rightarrow> u8 option" where
  "pulled_at b i =
     (case chains b of
        [] \<Rightarrow> None
      | c # _ \<Rightarrow> if misalign c + i < length (ch_mem c) then Some (ch_mem c ! (misalign c + i)) else None)"

lemma pulled_pulled_at:
  assumes "pulled b n b' a" "i < n" "evb_ok b" "n \<le> length (content b)"
  shows "pulled_at b' i = Some (content b ! i)"
proof -
  obtain c cs where c: "chains b' = c # cs" "n \<le> off c" "take n (chain_data c) = take n (content b)" "evb_ok b'"
    using assms(1) by (auto simp: pulled_def split: list.splits)
  have ok: "chain_ok c" using evb_okD(1) [OF c(4)] c(1) by simp
  have "chain_data c ! i = content b ! i"
    using arg_cong [OF c(3), of "\<lambda>x. x ! i"] assms(2) by simp
  then show ?thesis
    using c(1,2) ok assms(2) by (auto simp: pulled_at_def chain_ok_def chain_data_def)
qed

interpretation evb: byte_buffer sound content evbuffer_get_length evb_cap allocs evbuffer_add
  evbuffer_drain evbuffer_remove evbuffer_pullup pulled_at
proof (unfold_locales, goal_cases)
  case (1 b)
  then show ?case by (simp add: sound_def evb_ok_def evbuffer_get_length_def)
next
  case (2 b m d)
  then show ?case
    using evbuffer_add_ok [of b m d] by (auto simp: sound_def evb_cap_def evb_ok_def)
next
  case (3 b n)
  then show ?case using evbuffer_drain_ok [of b n] by (auto simp: sound_def)
next
  case (4 b n)
  then show ?case using evbuffer_remove_ok [of b n] by (auto simp: sound_def)
next
  case (5 b m n)
  then have ok: "evb_ok b" "plain b" "total_len b = length (content b)" by (simp_all add: sound_def evb_ok_def)
  obtain b' a where b': "evbuffer_pullup m b (int n) = Some (b', Some a)" "pulled b n b' a"
    using evbuffer_pullup_ok [OF ok(1,2) 5(2), of n "int n"] 5 ok(3) by (auto simp: evb_cap_def)
  moreover have "sound b'" "content b' = content b" using b'(2) 5(1) by (simp_all add: sound_def pulled_def)
  ultimately show ?case using pulled_pulled_at [OF b'(2) _ ok(1)] 5(4) by blast
next
  case (6 b m)
  then show ?case by (simp add: evbuffer_pullup_def)
qed

end
