(* ===== verification/EvbufferProps.thy ===== *)
theory EvbufferProps
  imports EvbufferContract
begin

text \<open>
  What the operations of an evbuffer promise: each as a property of the whole operation on a
  sound buffer, with an instance. A sound buffer is well formed, owns its memory and is not
  frozen; \<open>content\<close> is the bytes it holds.
\<close>

section \<open>Instances\<close>

definition zero_malloc :: malloc where
  "zero_malloc n = Some (4096, replicate n 0)"

lemma allocs_zero [simp]: "allocs zero_malloc"
  by (simp add: allocs_def zero_malloc_def)

definition chain_of :: "nat \<Rightarrow> nat \<Rightarrow> bytes \<Rightarrow> chain" where
  "chain_of a n d = \<lparr>buffer = a, buffer_len = n, misalign = 0, off = length d, ch_flags = 0,
     ch_mem = d @ replicate (n - length d) 0, cleanupfn = None, ch_fd = 0\<rparr>"

definition sample :: evbuffer where
  "sample = evbuffer_new\<lparr>chains := [chain_of 100 4 [1, 2, 13], chain_of 200 8 [10, 3]],
     last_with_datap := 1, total_len := 5\<rparr>"

definition sample2 :: evbuffer where
  "sample2 = evbuffer_new\<lparr>chains := [chain_of 300 2 [8, 9]], last_with_datap := 0, total_len := 2\<rparr>"

lemmas sample_defs = sample_def sample2_def chain_of_def evbuffer_new_def chain_data_def content_def
  content_of_def chain_ok_def has_flag_def CHAIN_PINNED_def CHAIN_PINNED_R_def lwd_ok_def data_chains_def
  EVBUFFER_CHAIN_MAX_def EVBUFFER_CHAIN_SIZE_def SIZE_MAX_def

lemma content_sample [simp]: "content sample = [1, 2, 13, 10, 3]" "content sample2 = [8, 9]"
  by (simp_all add: sample_defs)

lemma sound_sample [simp]: "sound sample" "sound sample2"
  by (simp_all add: sound_def evb_ok_def tight_def plain_def sample_defs)

lemma cap_large: "n \<le> 1000000 \<Longrightarrow> n \<le> evb_cap"
  by (simp add: evb_cap_def EVBUFFER_CHAIN_MAX_def EVBUFFER_CHAIN_SIZE_def)

lemma small_sizes: "length [13, 10 :: u8] \<le> SIZE_MAX div 2" "length (content sample) < SIZE_MAX"
  by (simp_all add: SIZE_MAX_def)

lemma soundD:
  "sound b \<Longrightarrow> evb_ok b" "sound b \<Longrightarrow> tight b" "sound b \<Longrightarrow> plain b" "sound b \<Longrightarrow> \<not> freeze_start b"
  "sound b \<Longrightarrow> \<not> freeze_end b" "sound b \<Longrightarrow> total_len b = length (content b)"
  by (simp_all add: sound_def evb_ok_def)

section \<open>Adding and taking\<close>

text \<open>
  Property C20: adding bytes to a sound buffer succeeds and appends exactly them, in every case of
  the code (an empty buffer, room in the last chain, realigning it, a new chain with part of the
  bytes in the old one), and the buffer stays sound.
\<close>
theorem add_appends:
  assumes "sound b" "allocs m" "length (content b) + length d \<le> evb_cap"
  shows "\<exists>b'. evbuffer_add m b d = Some (b', 0) \<and> sound b' \<and> content b' = content b @ d"
  by (rule evb.add_law [OF assms])

theorem add_appends_witness:
  "\<exists>b'. evbuffer_add zero_malloc sample [7, 7] = Some (b', 0) \<and> sound b' \<and> content b' = [1, 2, 13, 10, 3, 7, 7]"
  using add_appends [of sample zero_malloc "[7, 7]"] cap_large by simp

text \<open>
  Prepending bytes to a sound buffer succeeds and puts exactly them in front.
\<close>
lemma prepend_puts_in_front:
  assumes "sound b" "allocs m" "length (content b) + length d \<le> evb_cap"
  shows "\<exists>b'. evbuffer_prepend m b d = Some (b', 0) \<and> sound b' \<and> content b' = d @ content b"
proof -
  have "total_len b + length d \<le> EVBUFFER_CHAIN_MAX - EVBUFFER_CHAIN_SIZE"
    using assms(3) soundD(6) [OF assms(1)] by (simp add: evb_cap_def)
  from evbuffer_prepend_ok [OF soundD(1,2,4) [OF assms(1)] assms(2) _ this] soundD(3,4,5) [OF assms(1)]
  show ?thesis by (auto simp: sound_def)
qed

lemma prepend_puts_in_front_witness:
  "\<exists>b'. evbuffer_prepend zero_malloc sample [7, 7] = Some (b', 0) \<and> sound b' \<and> content b' = [7, 7, 1, 2, 13, 10, 3]"
  using prepend_puts_in_front [of sample zero_malloc "[7, 7]"] cap_large by simp

text \<open>
  Property C21: removing \<open>n\<close> bytes gives the first \<open>n\<close> bytes, or all there are, returns their
  number as an \<open>int\<close>, and leaves the rest.
\<close>
theorem remove_takes:
  assumes "sound b"
  shows "\<exists>b'. evbuffer_remove b n =
      Some (b', take n (content b), c_int (int (min n (length (content b))))) \<and>
    sound b' \<and> content b' = drop n (content b)"
  using evbuffer_remove_ok [OF soundD(1,4) [OF assms], of n] soundD(2,3,4,5) [OF assms]
  by (auto simp: sound_def)

theorem remove_takes_witness:
  "\<exists>b'. evbuffer_remove sample 4 = Some (b', [1, 2, 13, 10], c_int 4) \<and> sound b' \<and> content b' = [3]"
  using remove_takes [of sample 4] by simp

text \<open>
  Moving a whole buffer to the end of another moves every byte and leaves the source
  empty and sound.
\<close>
lemma add_buffer_moves:
  assumes "sound dst" "sound src" "length (content dst) + length (content src) \<le> evb_cap"
  shows "\<exists>dst' src'. evbuffer_add_buffer m False dst src = Some (dst', src', 0) \<and>
    content dst' = content dst @ content src \<and> content src' = [] \<and> evb_ok dst' \<and> tight dst' \<and>
    evb_ok src' \<and> tight src' \<and> plain dst' \<and> plain src'"
proof -
  have "total_len dst + total_len src \<le> SIZE_MAX"
    using assms(3) soundD(6) [OF assms(1)] soundD(6) [OF assms(2)]
    by (simp add: evb_cap_def EVBUFFER_CHAIN_MAX_def EVBUFFER_CHAIN_SIZE_def SIZE_MAX_def)
  from evbuffer_add_buffer_ok [OF soundD(1,2,5) [OF assms(1)] soundD(1,2,4) [OF assms(2)] this, of m]
    soundD(3) [OF assms(1)] soundD(3) [OF assms(2)]
  show ?thesis by blast
qed

lemma add_buffer_moves_witness:
  "\<exists>dst' src'. evbuffer_add_buffer zero_malloc False sample sample2 = Some (dst', src', 0) \<and>
    content dst' = [1, 2, 13, 10, 3, 8, 9] \<and> content src' = [] \<and> evb_ok dst' \<and> tight dst' \<and>
    evb_ok src' \<and> tight src' \<and> plain dst' \<and> plain src'"
  using add_buffer_moves [of sample sample2 zero_malloc] cap_large by simp

text \<open>
  Property C24: moving \<open>n\<close> bytes between buffers takes whole chains and copies the rest, and moves
  exactly the first \<open>n\<close> bytes.
\<close>
theorem remove_buffer_moves:
  assumes "sound src" "sound dst" "allocs m"
    and "length (content src) + length (content dst) \<le> evb_cap"
  shows "\<exists>src' dst'. evbuffer_remove_buffer m m2 False src dst n =
       Some (src', dst', c_int (int (min n (length (content src))))) \<and>
     content dst' = content dst @ take n (content src) \<and> content src' = drop n (content src) \<and>
     evb_ok src' \<and> tight src' \<and> plain src' \<and> evb_ok dst' \<and> tight dst' \<and> plain dst'"
proof -
  have "total_len src + total_len dst \<le> EVBUFFER_CHAIN_MAX - EVBUFFER_CHAIN_SIZE"
    using assms(4) soundD(6) [OF assms(1)] soundD(6) [OF assms(2)] by (simp add: evb_cap_def)
  from evbuffer_remove_buffer_ok [OF soundD(1,2,3,4) [OF assms(1)] soundD(1,2,3,5) [OF assms(2)] assms(3) this]
  show ?thesis .
qed

theorem remove_buffer_moves_witness:
  "\<exists>src' dst'. evbuffer_remove_buffer zero_malloc zero_malloc False sample sample2 4 = Some (src', dst', c_int 4) \<and>
     content dst' = [8, 9, 1, 2, 13, 10] \<and> content src' = [3] \<and>
     evb_ok src' \<and> tight src' \<and> plain src' \<and> evb_ok dst' \<and> tight dst' \<and> plain dst'"
  using remove_buffer_moves [of sample sample2 zero_malloc zero_malloc 4] cap_large by simp

section \<open>The first bytes in one piece\<close>

text \<open>
  Property C23: pulling up \<open>n\<close> bytes returns the address of the data of the first chain, which
  then holds at least \<open>n\<close> bytes, the first ones of the buffer; the content does not change.
\<close>
theorem pullup_contiguous:
  assumes "sound b" "allocs m" "n = (if sz < 0 then total_len b else nat sz)"
    and "length (content b) \<le> evb_cap" "0 < n" "n \<le> length (content b)"
  shows "\<exists>b' c cs. evbuffer_pullup m b sz = Some (b', Some (buffer c + misalign c)) \<and>
     chains b' = c # cs \<and> n \<le> off c \<and> take n (chain_data c) = take n (content b) \<and>
     content b' = content b \<and> sound b'"
proof -
  have "n \<le> EVBUFFER_CHAIN_MAX - EVBUFFER_CHAIN_SIZE" "n \<le> total_len b"
    using assms soundD(6) [OF assms(1)] by (simp_all add: evb_cap_def)
  with evbuffer_pullup_ok [OF soundD(1,3) [OF assms(1)] assms(2,3) _ assms(5)] obtain b' a where
    "evbuffer_pullup m b sz = Some (b', Some a)" "pulled b n b' a" by blast
  then show ?thesis using soundD(2,4,5) [OF assms(1)]
    by (auto simp: pulled_def sound_def split: list.splits)
qed

theorem pullup_contiguous_witness:
  "\<exists>b' c cs. evbuffer_pullup zero_malloc sample 4 = Some (b', Some (buffer c + misalign c)) \<and>
     chains b' = c # cs \<and> 4 \<le> off c \<and> take 4 (chain_data c) = [1, 2, 13, 10] \<and>
     content b' = [1, 2, 13, 10, 3] \<and> sound b'"
  using pullup_contiguous [of sample zero_malloc 4 4] cap_large by simp

section \<open>Searching and lines\<close>

text \<open>
  the scan for the end of a line by two \<open>memchr\<close> in pieces of 128 bytes finds the
  first CR or LF.
\<close>
lemma find_eol_char_first: "find_eol_char s = index_of (\<lambda>x. x = 13 \<or> x = 10) s"
  by (rule find_eol_char_eq)

text \<open>
  Property C27: a search finds the first occurrence of the bytes, over the borders of chains, and
  nothing if there is none.
\<close>
theorem search_finds_first:
  assumes "sound b" "what \<noteq> []" "length what \<le> SIZE_MAX div 2"
  shows "\<exists>it. evbuffer_search b what None = Some it \<and>
     (pos it < 0 \<and> (\<forall>j \<le> length (content b). take (length what) (drop j (content b)) \<noteq> what) \<or>
      0 \<le> pos it \<and> take (length what) (drop (nat (pos it)) (content b)) = what \<and>
      (\<forall>j < nat (pos it). take (length what) (drop j (content b)) \<noteq> what))"
proof -
  obtain it where it: "evbuffer_search b what None = Some it"
    "case find_sub what (content b) of None \<Rightarrow> it = not_found | Some q \<Rightarrow> at_byte b it q"
    using evbuffer_search_ok [OF soundD(1) [OF assms(1)] assms(2,3), of 0 None]
    by (force split: option.splits)
  show ?thesis
  proof (cases "find_sub what (content b)")
    case None
    then have "pos it < 0" using it(2) by (simp add: not_found_def)
    then show ?thesis using it(1) None by (simp add: find_sub_None)
  next
    case (Some q)
    then have "pos it = int q" using it(2) by (simp add: at_byte_def at_pos_def)
    then show ?thesis using it(1) Some by (simp add: find_sub_Some)
  qed
qed

theorem search_finds_first_witness:
  "\<exists>it. evbuffer_search sample [13, 10] None = Some it \<and>
     (pos it < 0 \<and> (\<forall>j \<le> length (content sample). take (length [13, 10 :: u8]) (drop j (content sample)) \<noteq> [13, 10]) \<or>
      0 \<le> pos it \<and> take (length [13, 10 :: u8]) (drop (nat (pos it)) (content sample)) = [13, 10] \<and>
      (\<forall>j < nat (pos it). take (length [13, 10 :: u8]) (drop j (content sample)) \<noteq> [13, 10]))"
  by (rule search_finds_first [OF sound_sample(1) _ small_sizes(1)]) simp

text \<open>
  Property C26: reading a line gives the bytes before the first end of line of the chosen style,
  and takes the line and its end out of the buffer; without an end of line nothing happens.
\<close>
theorem readln_takes_line:
  assumes "sound b" "length (content b) < SIZE_MAX" "\<forall>n. line_mem n"
  shows "case line_end style (content b) of
       None \<Rightarrow> evbuffer_readln line_mem b style = Some (b, None, 0)
     | Some (n, e) \<Rightarrow>
         \<exists>b'. evbuffer_readln line_mem b style = Some (b', Some (take n (content b)), n) \<and>
           content b' = drop (n + e) (content b) \<and> sound b'"
proof -
  from evbuffer_readln_ok [OF soundD(1) [OF assms(1)] assms(2) soundD(4) [OF assms(1)] assms(3), of style]
  show ?thesis
    using soundD(2,3,4,5) [OF assms(1)]
    by (cases "line_end style (content b)") (auto simp: sound_def)
qed

theorem readln_takes_line_witness:
  "\<exists>b'. evbuffer_readln (\<lambda>_. True) sample EVBUFFER_EOL_CRLF = Some (b', Some [1, 2], 2) \<and>
     content b' = [3] \<and> sound b'"
proof -
  have "line_end EVBUFFER_EOL_CRLF (content sample) = Some (2, 2)"
    by (simp add: line_end_def flip: numeral_2_eq_2)
  then show ?thesis
    using readln_takes_line [OF sound_sample(1) small_sizes(2), of "\<lambda>_. True" EVBUFFER_EOL_CRLF] by simp
qed

section \<open>Reading from a descriptor\<close>



section \<open>Writing to a descriptor\<close>

lemma write_vecs_ok:
  assumes "\<forall>c \<in> set cs. chain_ok c \<and> \<not> has_flag c EVBUFFER_SENDFILE"
  shows "\<exists>vs j. write_vecs k cs h = Some vs \<and> j \<le> h \<and> concat vs = take j (content_of cs)"
  using assms
proof (induction k cs h rule: write_vecs.induct)
  case (1 k c cs h)
  then have c: "chain_ok c" "\<not> has_flag c EVBUFFER_SENDFILE" by simp_all
  consider "h = 0" | "h \<noteq> 0" "h \<ge> off c" | "h \<noteq> 0" "h < off c" by linarith
  then show ?case
  proof cases
    case 2
    then obtain vs j where "write_vecs k cs (h - off c) = Some vs" "j \<le> h - off c" "concat vs = take j (content_of cs)"
      using 1 chain_read [OF c(1)] by auto
    then show ?thesis
      using 2 c chain_read [OF c(1)]
      by (intro exI [of _ "chain_data c # vs"] exI [of _ "off c + j"]) simp
  next
    case 3
    then show ?thesis
      using c chain_read_part [OF c(1), of h]
      by (intro exI [of _ "[take h (chain_data c)]"] exI [of _ h]) simp
  qed (auto intro: exI [of _ 0])
qed (auto intro: exI [of _ 0])

text \<open>
  A write offers the descriptor a prefix of the buffer, and exactly the bytes the
  descriptor took leave the buffer; if it took none the buffer is unchanged.
\<close>
lemma write_takes_what_was_written:
  assumes "sound b" "\<forall>c \<in> set (chains b). \<not> has_flag c EVBUFFER_SENDFILE"
  shows "\<exists>b' r vs j. evbuffer_write_atmost writev sendfile retriable b howmuch = Some (b', r) \<and>
     concat vs = take j (content b) \<and> sound b' \<and>
     (if 0 < r then r = writev vs \<and> content b' = drop (nat r) (content b) else b' = b)"
proof -
  define h where "h = (if howmuch < 0 \<or> nat howmuch > total_len b then int (total_len b) else howmuch)"
  obtain vs j where vs: "write_vecs NUM_WRITE_IOVEC (chains b) (nat h) = Some vs" "concat vs = take j (content b)"
    using write_vecs_ok [of "chains b" NUM_WRITE_IOVEC "nat h"] evb_okD(1) [OF soundD(1) [OF assms(1)]] assms(2)
    by (auto simp: content_def)
  define n where "n = (if h > 0 then (if vs = [] then 0 else writev vs) else - 1)"
  have "evbuffer_write_iovec writev b h = Some n" if "h > 0"
    using that vs(1) by (simp add: evbuffer_write_iovec_def n_def)
  then have run: "evbuffer_write_atmost writev sendfile retriable b howmuch =
      (if n > 0 then map_option (\<lambda>(b', _). (b', n)) (evbuffer_drain b (nat n)) else Some (b, n))"
    using assms(2) soundD(4) [OF assms(1)]
    unfolding evbuffer_write_atmost_def h_def [symmetric]
    by (cases "chains b") (auto simp: n_def Let_def)
  show ?thesis
  proof (cases "n > 0")
    case True
    then have "n = writev vs" by (auto simp: n_def split: if_splits)
    moreover obtain b' where "evbuffer_drain b (nat n) = Some (b', 0)" "sound b'" "content b' = drop (nat n) (content b)"
      using evb.drain_law [OF assms(1)] by blast
    ultimately show ?thesis using run True vs(2) by auto
  next
    case False
    then show ?thesis using run vs(2) assms(1) by auto
  qed
qed

lemma write_takes_what_was_written_witness:
  "\<exists>b' r j. \<exists>vs :: bytes list. evbuffer_write_atmost (\<lambda>vs. 4) (\<lambda>_ _ _. 0) (\<lambda>_. False) sample (- 1) = Some (b', r) \<and>
     concat vs = take j [1, 2, 13, 10, 3] \<and> sound b' \<and>
     (if 0 < r then r = 4 \<and> content b' = drop (nat r) [1, 2, 13, 10, 3] else b' = sample)"
proof -
  have "\<forall>c \<in> set (chains sample). \<not> has_flag c EVBUFFER_SENDFILE"
    by (simp add: sample_def chain_of_def has_flag_def)
  from write_takes_what_was_written [OF sound_sample(1) this, of "\<lambda>vs. 4" "\<lambda>_ _ _. 0" "\<lambda>_. False" "- 1"]
  show ?thesis unfolding content_sample(1) by blast
qed

section \<open>Data behind an empty chain\<close>

text \<open>
  A buffer whose last chain is empty, as a read that needed less room than it made leaves it, the
  buffer after adding a byte to it, and after reading three more bytes.
\<close>

definition slack :: evbuffer where
  "slack = evbuffer_new\<lparr>chains := [chain_of 100 8 [1, 2], chain_of 200 8 []],
     last_with_datap := 0, total_len := 2\<rparr>"

definition slack1 :: evbuffer where
  "slack1 = evbuffer_new\<lparr>chains := [chain_of 100 8 [1, 2], chain_of 200 8 [9]],
     last_with_datap := 0, total_len := 3\<rparr>"

definition slack2 :: evbuffer where
  "slack2 = evbuffer_new\<lparr>chains := [chain_of 100 8 [1, 2, 5, 6, 7], chain_of 200 8 [9]],
     last_with_datap := 0, total_len := 6\<rparr>"

lemma slack_add: "evbuffer_add zero_malloc slack [9] = Some (slack1, 0)"
  by (simp add: slack_def slack1_def evbuffer_add_def add_to_last_def the_last_def chain_of_def evbuffer_new_def
    has_flag_def EVBUFFER_CHAIN_MAX_def SIZE_MAX_def chain_append_def mem_write_def evbuffer_invoke_callbacks_def
    grown_def added_def SZ_def set_last_def Let_def)

lemma read_iovecs: "NUM_READ_IOVEC = Suc (Suc (Suc (Suc 0)))"
  by (simp add: NUM_READ_IOVEC_def)

lemma slack_read: "evbuffer_read zero_malloc 3 (\<lambda>_. Some [5, 6, 7]) slack1 3 = Some (slack2, 3)"
  by (simp add: slack1_def slack2_def evbuffer_read_def EVBUFFER_MAX_READ_def evbuffer_expand_fast_def
    the_last_def chain_of_def evbuffer_new_def has_flag_def CHAIN_SPACE_LEN_def evbuffer_read_setup_vecs_def
    slot_def mem_write_def evbuffer_invoke_callbacks_def EVBUFFER_CHAIN_MAX_def
    grown_def added_def SZ_def Let_def read_iovecs)


end
