(* ===== verification/Tagging.thy ===== *)
theory Tagging
  imports EvbufferContract
begin

text \<open>
  \<open>event_tagging.c\<close>: tagged data in an evbuffer. A tag is written in groups of seven bits, an
  integer in nibbles behind a nibble with their number. The encoders work on a small array on the
  stack; the decoders look at bytes that were pulled up, and drain them. \<open>None\<close> is a memory
  fault or a shift by the width of the type; an inner \<open>None\<close> or -1 is the error the code
  returns. The integers are \<open>'a word\<close> for the two widths of the macros.
\<close>

section \<open>Integers\<close>

lemma drop_bit_less: "(n :: 'a::len word) \<noteq> 0 \<Longrightarrow> 0 < k \<Longrightarrow> unat (drop_bit k n) < unat n"
proof -
  assume "n \<noteq> 0" "0 < k"
  then have n: "0 < unat n" by (simp add: unat_gt_0)
  have "unat (drop_bit k n) = drop_bit k (unat n)" by (simp add: unsigned_drop_bit_eq take_bit_nat_eq_self)
  then have "unat (drop_bit k n) = unat n div 2 ^ k" by (simp only: drop_bit_eq_div)
  also have "\<dots> < unat n" using n one_less_power [of "2 :: nat" k] \<open>0 < k\<close> by (intro div_less_dividend) auto
  finally show ?thesis .
qed

text \<open>The loop of \<open>ENCODE_INT_INTERNAL\<close> over the array \<open>data\<close>.\<close>

function encode_loop :: "nat \<Rightarrow> 'a::len word \<Rightarrow> bytes \<Rightarrow> (nat \<times> bytes) option" where
  "encode_loop ofs number data =
     (if number = 0 then Some (ofs, data)
      else if ofs div 2 < length data then
        encode_loop (Suc ofs) (drop_bit 4 number)
          (data[ofs div 2 :=
             (if odd ofs then (data ! (ofs div 2) AND 0xf0) OR ucast (number AND 0x0f)
              else (data ! (ofs div 2) AND 0x0f) OR push_bit 4 (ucast (number AND 0x0f)))])
      else None)"
  by auto

termination
  by (relation "measure (\<lambda>(_, n, _). unat n)") (auto intro: drop_bit_less)

declare encode_loop.simps [simp del]

text \<open>The number of bytes written, and the array.\<close>

definition ENCODE_INT_INTERNAL :: "'a::len word \<Rightarrow> (nat \<times> bytes) option" where
  "ENCODE_INT_INTERNAL number = do {
     (ofs, data) \<leftarrow> encode_loop 1 number (replicate (LENGTH('a) div 8 + 1) 0);
     let nibbles = (if ofs > 2 then ofs - 2 else 0);
     Some ((ofs + 1) div 2,
           data[0 := (data ! 0 AND 0x0f) OR push_bit 4 (word_of_nat nibbles AND 0x0f)])
   }"

definition encode_int_internal :: "u32 \<Rightarrow> (nat \<times> bytes) option" where
  "encode_int_internal number = ENCODE_INT_INTERNAL number"

definition encode_int64_internal :: "u64 \<Rightarrow> (nat \<times> bytes) option" where
  "encode_int64_internal number = ENCODE_INT_INTERNAL number"

text \<open>A call of \<open>evbuffer_add\<close> with the result ignored.\<close>

definition add_ignored :: "malloc \<Rightarrow> evbuffer \<Rightarrow> bytes \<Rightarrow> evbuffer option" where
  "add_ignored m b d = map_option fst (evbuffer_add m b d)"

definition evtag_encode_int :: "malloc \<Rightarrow> evbuffer \<Rightarrow> u32 \<Rightarrow> evbuffer option" where
  "evtag_encode_int m b number = do {
     (n, data) \<leftarrow> encode_int_internal number;
     add_ignored m b (take n data)
   }"

definition evtag_encode_int64 :: "malloc \<Rightarrow> evbuffer \<Rightarrow> u64 \<Rightarrow> evbuffer option" where
  "evtag_encode_int64 m b number = do {
     (n, data) \<leftarrow> encode_int64_internal number;
     add_ignored m b (take n data)
   }"

text \<open>The loop of \<open>DECODE_INT_INTERNAL\<close>; the pulled-up number starts at \<open>offset\<close>.\<close>

fun decode_loop :: "evbuffer \<Rightarrow> nat \<Rightarrow> nat \<Rightarrow> 'a::len word \<Rightarrow> 'a word option" where
  "decode_loop b offset 0 number = Some number"
| "decode_loop b offset (Suc n) number = do {
     x \<leftarrow> pulled_at b (offset + Suc n div 2);
     decode_loop b offset n
       (push_bit 4 number OR
        (if odd (Suc n) then ucast (x AND 0x0f) else ucast (drop_bit 4 (x AND 0xf0))))
   }"

text \<open>
  \<open>DECODE_INT_INTERNAL\<close>: the buffer after the pull-ups, and the number with the length of its
  encoding. The test of the pointer follows the addition of \<open>offset\<close>: it sees a null pointer
  only for the offset 0.
\<close>

definition DECODE_INT_INTERNAL ::
  "nat \<Rightarrow> malloc \<Rightarrow> evbuffer \<Rightarrow> nat \<Rightarrow> (evbuffer \<times> ('a::len word \<times> nat) option) option" where
  "DECODE_INT_INTERNAL maxnibbles m b offset =
     (if evbuffer_get_length b \<le> offset then Some (b, None)
      else do {
        (b1, p) \<leftarrow> evbuffer_pullup m b (int (offset + 1));
        if p = None then (if offset = 0 then Some (b1, None) else None)
        else do {
          x \<leftarrow> pulled_at b1 offset;
          let nibbles = unat (drop_bit 4 (x AND 0xf0)) + 1;
          if nibbles > maxnibbles \<or> nibbles div 2 + 1 > evbuffer_get_length b - offset
            then Some (b1, None)
          else do {
            (b2, p2) \<leftarrow> evbuffer_pullup m b1 (int (offset + (nibbles div 2 + 1)));
            if p2 = None then (if offset = 0 then Some (b2, None) else None)
            else do {
              number \<leftarrow> decode_loop b2 offset nibbles 0;
              Some (b2, Some (number, nibbles div 2 + 1))
            }
          }
        }
      })"

definition decode_int_internal ::
  "malloc \<Rightarrow> evbuffer \<Rightarrow> nat \<Rightarrow> (evbuffer \<times> (u32 \<times> nat) option) option" where
  "decode_int_internal m b offset = DECODE_INT_INTERNAL 8 m b offset"

definition decode_int64_internal ::
  "malloc \<Rightarrow> evbuffer \<Rightarrow> nat \<Rightarrow> (evbuffer \<times> (u64 \<times> nat) option) option" where
  "decode_int64_internal m b offset = DECODE_INT_INTERNAL 16 m b offset"

definition drain_ignored :: "evbuffer \<Rightarrow> nat \<Rightarrow> evbuffer option" where
  "drain_ignored b n = map_option fst (evbuffer_drain b n)"

definition evtag_decode_int :: "malloc \<Rightarrow> evbuffer \<Rightarrow> (evbuffer \<times> u32 option) option" where
  "evtag_decode_int m b = do {
     (b1, r) \<leftarrow> decode_int_internal m b 0;
     case r of
       None \<Rightarrow> Some (b1, None)
     | Some (number, res) \<Rightarrow> do { b2 \<leftarrow> drain_ignored b1 res; Some (b2, Some number) }
   }"

definition evtag_decode_int64 :: "malloc \<Rightarrow> evbuffer \<Rightarrow> (evbuffer \<times> u64 option) option" where
  "evtag_decode_int64 m b = do {
     (b1, r) \<leftarrow> decode_int64_internal m b 0;
     case r of
       None \<Rightarrow> Some (b1, None)
     | Some (number, res) \<Rightarrow> do { b2 \<leftarrow> drain_ignored b1 res; Some (b2, Some number) }
   }"

section \<open>Tags\<close>

text \<open>The loop of \<open>evtag_encode_tag\<close>: the bytes it puts into the array of five.\<close>

function encode_tag_loop :: "nat \<Rightarrow> u32 \<Rightarrow> bytes option" where
  "encode_tag_loop n tag =
     (let lower = ucast (tag AND 0x7f) :: u8; tag' = drop_bit 7 tag in
      if n \<ge> 5 then None
      else if tag' \<noteq> 0 then map_option (Cons (lower OR 0x80)) (encode_tag_loop (Suc n) tag')
      else Some [lower])"
  by auto
termination by (relation "measure (\<lambda>(n, _). 5 - n)") auto

declare encode_tag_loop.simps [simp del]

definition evtag_encode_tag ::
  "malloc \<Rightarrow> evbuffer option \<Rightarrow> u32 \<Rightarrow> (evbuffer option \<times> nat) option" where
  "evtag_encode_tag m evbuf tag = do {
     data \<leftarrow> encode_tag_loop 0 tag;
     case evbuf of
       None \<Rightarrow> Some (None, length data)
     | Some b \<Rightarrow> do { b' \<leftarrow> add_ignored m b data; Some (Some b', length data) }
   }"

text \<open>
  The loop of \<open>decode_tag_internal\<close>, with \<open>k\<close> bytes of the buffer left: it reads on behind the
  pulled-up bytes when the tag does not end, and the shift grows by 7. The inner \<open>None\<close> says
  that the buffer ended first.
\<close>

fun decode_tag_loop :: "evbuffer \<Rightarrow> nat \<Rightarrow> nat \<Rightarrow> u32 \<Rightarrow> (u32 \<times> nat) option option" where
  "decode_tag_loop b 0 count number = Some None"
| "decode_tag_loop b (Suc k) count number = do {
     lower \<leftarrow> pulled_at b count;
     if 7 * count \<ge> 32 then None
     else
       (let number' = number OR push_bit (7 * count) (ucast (lower AND 0x7f)) in
        if lower AND 0x80 = 0 then Some (Some (number', Suc count))
        else decode_tag_loop b k (Suc count) number')
   }"

definition decode_tag_internal ::
  "malloc \<Rightarrow> evbuffer \<Rightarrow> bool \<Rightarrow> (evbuffer \<times> (u32 \<times> nat) option) option" where
  "decode_tag_internal m b dodrain =
     (let len = evbuffer_get_length b in do {
        (b1, p) \<leftarrow> evbuffer_pullup m b (int (if len < 5 then len else 5));
        if p = None then Some (b1, None)
        else do {
          r \<leftarrow> decode_tag_loop b1 len 0 0;
          case r of
            None \<Rightarrow> Some (b1, None)
          | Some (tag, count) \<Rightarrow>
              if dodrain then do { b2 \<leftarrow> drain_ignored b1 count; Some (b2, Some (tag, count)) }
              else Some (b1, Some (tag, count))
        }
      })"

definition evtag_decode_tag :: "malloc \<Rightarrow> evbuffer \<Rightarrow> (evbuffer \<times> (u32 \<times> nat) option) option" where
  "evtag_decode_tag m b = decode_tag_internal m b True"

section \<open>Marshalling\<close>

definition encode_tag_ignored :: "malloc \<Rightarrow> evbuffer \<Rightarrow> u32 \<Rightarrow> evbuffer option" where
  "encode_tag_ignored m b tag = do {
     (b', _) \<leftarrow> evtag_encode_tag m (Some b) tag;
     b'
   }"

definition evtag_marshal :: "malloc \<Rightarrow> evbuffer \<Rightarrow> u32 \<Rightarrow> bytes \<Rightarrow> u32 \<Rightarrow> evbuffer option" where
  "evtag_marshal m b tag data len = do {
     b1 \<leftarrow> encode_tag_ignored m b tag;
     b2 \<leftarrow> evtag_encode_int m b1 len;
     if unat len \<le> length data then add_ignored m b2 (take (unat len) data) else None
   }"

definition evtag_marshal_buffer ::
  "malloc \<Rightarrow> evbuffer \<Rightarrow> u32 \<Rightarrow> evbuffer \<Rightarrow> (evbuffer \<times> evbuffer) option" where
  "evtag_marshal_buffer m b tag data = do {
     b1 \<leftarrow> encode_tag_ignored m b tag;
     b2 \<leftarrow> evtag_encode_int m b1 (word_of_nat (evbuffer_get_length data));
     (b3, data', _) \<leftarrow> evbuffer_add_buffer m False b2 data;
     Some (b3, data')
   }"

definition evtag_marshal_int :: "malloc \<Rightarrow> evbuffer \<Rightarrow> u32 \<Rightarrow> u32 \<Rightarrow> evbuffer option" where
  "evtag_marshal_int m b tag integer = do {
     (n, data) \<leftarrow> encode_int_internal integer;
     b1 \<leftarrow> encode_tag_ignored m b tag;
     b2 \<leftarrow> evtag_encode_int m b1 (word_of_nat n);
     add_ignored m b2 (take n data)
   }"

definition evtag_marshal_int64 :: "malloc \<Rightarrow> evbuffer \<Rightarrow> u32 \<Rightarrow> u64 \<Rightarrow> evbuffer option" where
  "evtag_marshal_int64 m b tag integer = do {
     (n, data) \<leftarrow> encode_int64_internal integer;
     b1 \<leftarrow> encode_tag_ignored m b tag;
     b2 \<leftarrow> evtag_encode_int m b1 (word_of_nat n);
     add_ignored m b2 (take n data)
   }"

text \<open>A C string is its bytes up to the terminating zero.\<close>

definition strlen :: "bytes \<Rightarrow> nat" where
  "strlen s = length (takeWhile (\<lambda>x. x \<noteq> 0) s)"

definition evtag_marshal_string :: "malloc \<Rightarrow> evbuffer \<Rightarrow> u32 \<Rightarrow> bytes \<Rightarrow> evbuffer option" where
  "evtag_marshal_string m b tag s = evtag_marshal m b tag s (word_of_nat (strlen s))"

text \<open>The seconds and microseconds are cut to 32 bits; both encodings go into ten bytes.\<close>

definition evtag_marshal_timeval :: "malloc \<Rightarrow> evbuffer \<Rightarrow> u32 \<Rightarrow> u64 \<Rightarrow> u64 \<Rightarrow> evbuffer option" where
  "evtag_marshal_timeval m b tag tv_sec tv_usec = do {
     (n, d1) \<leftarrow> encode_int_internal (ucast tv_sec);
     (k, d2) \<leftarrow> encode_int_internal (ucast tv_usec);
     if n + length d2 \<le> 10
       then evtag_marshal m b tag (take n d1 @ take k d2) (word_of_nat (n + k)) else None
   }"

section \<open>Looking ahead\<close>

definition evtag_peek :: "malloc \<Rightarrow> evbuffer \<Rightarrow> (evbuffer \<times> (u32 \<times> nat) option) option" where
  "evtag_peek m b = decode_tag_internal m b False"

definition evtag_peek_length :: "malloc \<Rightarrow> evbuffer \<Rightarrow> (evbuffer \<times> u32 option) option" where
  "evtag_peek_length m b = do {
     (b1, r) \<leftarrow> decode_tag_internal m b False;
     case r of
       None \<Rightarrow> Some (b1, None)
     | Some (_, len) \<Rightarrow> do {
         (b2, r2) \<leftarrow> decode_int_internal m b1 len;
         Some (b2, map_option (\<lambda>(plength, res). plength + word_of_nat (res + len)) r2)
       }
   }"

definition evtag_payload_length :: "malloc \<Rightarrow> evbuffer \<Rightarrow> (evbuffer \<times> u32 option) option" where
  "evtag_payload_length m b = do {
     (b1, r) \<leftarrow> decode_tag_internal m b False;
     case r of
       None \<Rightarrow> Some (b1, None)
     | Some (_, len) \<Rightarrow> do {
         (b2, r2) \<leftarrow> decode_int_internal m b1 len;
         Some (b2, map_option fst r2)
       }
   }"

section \<open>Unmarshalling\<close>

text \<open>The length is returned as an \<open>int\<close>; every error is -1.\<close>

definition evtag_unmarshal_header ::
  "malloc \<Rightarrow> evbuffer \<Rightarrow> (evbuffer \<times> u32 option \<times> int) option" where
  "evtag_unmarshal_header m b = do {
     (b1, r) \<leftarrow> decode_tag_internal m b True;
     case r of
       None \<Rightarrow> Some (b1, None, - 1)
     | Some (tag, _) \<Rightarrow> do {
         (b2, l) \<leftarrow> evtag_decode_int m b1;
         case l of
           None \<Rightarrow> Some (b2, Some tag, - 1)
         | Some len \<Rightarrow>
             if evbuffer_get_length b2 < unat len then Some (b2, Some tag, - 1)
             else Some (b2, Some tag, sint len)
       }
   }"

definition evtag_consume :: "malloc \<Rightarrow> evbuffer \<Rightarrow> (evbuffer \<times> int) option" where
  "evtag_consume m b = do {
     (b1, _, len) \<leftarrow> evtag_unmarshal_header m b;
     if len = - 1 then Some (b1, - 1)
     else do { b2 \<leftarrow> drain_ignored b1 (size_of_ssize len); Some (b2, 0) }
   }"

text \<open>
  \<open>evtag_unmarshal\<close>: the payload goes from \<open>src\<close> to the end of \<open>dst\<close>. A payload of no bytes
  makes the pull-up return a null pointer, from which no byte is copied; a failed pull-up of a
  longer one is a fault.
\<close>

definition evtag_unmarshal ::
  "malloc \<Rightarrow> evbuffer \<Rightarrow> evbuffer \<Rightarrow> (evbuffer \<times> evbuffer \<times> u32 option \<times> int) option" where
  "evtag_unmarshal m src dst = do {
     (src1, ptag, len) \<leftarrow> evtag_unmarshal_header m src;
     if len = - 1 then Some (src1, dst, ptag, - 1)
     else do {
       (src2, p) \<leftarrow> evbuffer_pullup m src1 len;
       data \<leftarrow> (if len = 0 then Some []
                 else if p = None \<or> len < 0 then None
                 else those (map (pulled_at src2) [0..<nat len]));
       (dst1, r) \<leftarrow> evbuffer_add m dst data;
       if r = - 1 then Some (src2, dst1, ptag, - 1)
       else do {
         src3 \<leftarrow> drain_ignored src2 (nat len);
         Some (src3, dst1, ptag, len)
       }
     }
   }"

text \<open>
  \<open>evtag_unmarshal_int\<close> and \<open>evtag_unmarshal_int64\<close> differ in the decoder only. The number may
  be shorter than the payload, and then the length of the number is the result.
\<close>

definition unmarshal_int ::
  "(malloc \<Rightarrow> evbuffer \<Rightarrow> nat \<Rightarrow> (evbuffer \<times> ('a::len word \<times> nat) option) option) \<Rightarrow>
     malloc \<Rightarrow> evbuffer \<Rightarrow> u32 \<Rightarrow> (evbuffer \<times> 'a word option \<times> int) option" where
  "unmarshal_int decode m b need_tag = do {
     (b1, r) \<leftarrow> decode_tag_internal m b True;
     case r of
       None \<Rightarrow> Some (b1, None, - 1)
     | Some (tag, _) \<Rightarrow>
         if need_tag \<noteq> tag then Some (b1, None, - 1)
         else do {
           (b2, l) \<leftarrow> evtag_decode_int m b1;
           case l of
             None \<Rightarrow> Some (b2, None, - 1)
           | Some len \<Rightarrow>
               if evbuffer_get_length b2 < unat len then Some (b2, None, - 1)
               else do {
                 (b3, d) \<leftarrow> decode m b2 0;
                 b4 \<leftarrow> drain_ignored b3 (unat len);
                 Some (case d of
                         None \<Rightarrow> (b4, None, - 1)
                       | Some (number, result) \<Rightarrow>
                           if result > unat len then (b4, Some number, - 1)
                           else (b4, Some number, int result))
               }
         }
   }"

definition evtag_unmarshal_int ::
  "malloc \<Rightarrow> evbuffer \<Rightarrow> u32 \<Rightarrow> (evbuffer \<times> u32 option \<times> int) option" where
  "evtag_unmarshal_int = unmarshal_int decode_int_internal"

definition evtag_unmarshal_int64 ::
  "malloc \<Rightarrow> evbuffer \<Rightarrow> u32 \<Rightarrow> (evbuffer \<times> u64 option \<times> int) option" where
  "evtag_unmarshal_int64 = unmarshal_int decode_int64_internal"

definition evtag_unmarshal_fixed ::
  "malloc \<Rightarrow> evbuffer \<Rightarrow> u32 \<Rightarrow> nat \<Rightarrow> (evbuffer \<times> bytes option \<times> int) option" where
  "evtag_unmarshal_fixed m src need_tag len = do {
     (b1, tag, tag_len) \<leftarrow> evtag_unmarshal_header m src;
     if tag_len < 0 \<or> tag \<noteq> Some need_tag then Some (b1, None, - 1)
     else if nat tag_len \<noteq> len then Some (b1, None, - 1)
     else do {
       (b2, data, _) \<leftarrow> evbuffer_remove b1 len;
       Some (b2, Some data, 0)
     }
   }"

text \<open>\<open>string_mem\<close> says whether the string can be allocated; its bytes end with a zero.\<close>

definition evtag_unmarshal_string ::
  "(nat \<Rightarrow> bool) \<Rightarrow> malloc \<Rightarrow> evbuffer \<Rightarrow> u32 \<Rightarrow> (evbuffer \<times> bytes option \<times> int) option" where
  "evtag_unmarshal_string string_mem m b need_tag = do {
     (b1, tag, tag_len) \<leftarrow> evtag_unmarshal_header m b;
     if tag_len = - 1 \<or> tag \<noteq> Some need_tag then Some (b1, None, - 1)
     else if \<not> string_mem (size_of_ssize (tag_len + 1)) then Some (b1, None, - 1)
     else if tag_len < 0 then None
     else do {
       (b2, data, _) \<leftarrow> evbuffer_remove b1 (nat tag_len);
       Some (b2, Some (data @ [0]), 0)
     }
   }"

definition evtag_unmarshal_timeval ::
  "malloc \<Rightarrow> evbuffer \<Rightarrow> u32 \<Rightarrow> (evbuffer \<times> u32 option \<times> u32 option \<times> int) option" where
  "evtag_unmarshal_timeval m b need_tag = do {
     (b1, tag, len) \<leftarrow> evtag_unmarshal_header m b;
     if len = - 1 then Some (b1, None, None, - 1)
     else
       (let done = (\<lambda>bx sec usec result. do {
              bz \<leftarrow> drain_ignored bx (size_of_ssize len);
              Some (bz, sec, usec, result) }) in
        if tag \<noteq> Some need_tag then done b1 None None (- 1)
        else do {
          (b2, r) \<leftarrow> decode_int_internal m b1 0;
          case r of
            None \<Rightarrow> done b2 None None (- 1)
          | Some (sec, offset) \<Rightarrow> do {
              (b3, r2) \<leftarrow> decode_int_internal m b2 offset;
              case r2 of
                None \<Rightarrow> done b3 (Some sec) None (- 1)
              | Some (usec, offset2) \<Rightarrow>
                  if int (offset + offset2) > len then done b3 (Some sec) (Some usec) (- 1)
                  else done b3 (Some sec) (Some usec) 0
            }
        })
   }"

end
