(* ===== verification/TaggingProofs.thy ===== *)
theory TaggingProofs
  imports Tagging
begin

text \<open>
  Tagged data on lists of bytes: the encoding of integers and tags as functions, that the loops
  compute them, that decoding undoes encoding, and the marshalling functions as what they do to
  the content of an evbuffer.
\<close>

section \<open>Nibbles\<close>

text \<open>Nibble \<open>p\<close> of an encoded integer: the high half of its byte if \<open>p\<close> is even.\<close>

definition nib :: "bytes \<Rightarrow> nat \<Rightarrow> u8" where
  "nib data p = (if odd p then data ! (p div 2) AND 0x0f else drop_bit 4 (data ! (p div 2) AND 0xf0))"

definition nib_of :: "'a::len word \<Rightarrow> nat \<Rightarrow> u8" where
  "nib_of n j = ucast (drop_bit (4 * j) n AND 0x0f)"

lemma and_f: "(x :: 'a::len word) AND 0x0f = take_bit 4 x"
proof -
  have "(0x0f :: 'a word) = mask 4" by (simp add: mask_eq_exp_minus_1)
  then show ?thesis by (simp add: take_bit_eq_mask)
qed

lemma bit_f0: "bit (0xf0 :: u8) k \<longleftrightarrow> 4 \<le> k \<and> k < 8"
proof -
  have e: "(0xf0 :: u8) = push_bit 4 (mask 4)" by (simp add: mask_eq_exp_minus_1 push_bit_eq_mult)
  show ?thesis unfolding e bit_push_bit_iff bit_mask_iff by (auto dest: less_imp_diff_less)
qed

lemma bit_0f: "bit (0x0f :: 'a::len word) k \<longleftrightarrow> k < 4 \<and> k < LENGTH('a)"
proof -
  have e: "(0x0f :: 'a word) = mask 4" by (simp add: mask_eq_exp_minus_1)
  show ?thesis unfolding e bit_mask_iff by auto
qed

lemmas nib_bits = bit_simps bit_f0 bit_0f

lemma nib_update_odd:
  assumes "odd i" "i div 2 < length data" "v = v AND 0x0f"
  shows "nib (data[i div 2 := (data ! (i div 2) AND 0xf0) OR v]) p = (if p = i then v else nib data p)"
proof (cases "p div 2 = i div 2")
  case False
  then have "p \<noteq> i" by auto
  with False show ?thesis by (simp add: nib_def)
next
  case True
  have v: "bit v k \<Longrightarrow> k < 4" for k
    using assms(3) by (metis bit_and_iff bit_0f)
  show ?thesis
  proof (cases "odd p")
    case o: True
    then have "p = i" using True assms(1) by (metis odd_two_times_div_two_succ)
    then show ?thesis using True o assms(2) v by (auto simp: nib_def nib_bits simp del: bit_numeral_word_iff intro!: bit_word_eqI)
  next
    case False
    then have "p \<noteq> i" using assms(1) by auto
    then show ?thesis using True False assms(2) v
      by (auto simp: nib_def nib_bits simp del: bit_numeral_word_iff intro!: bit_word_eqI dest: v)
  qed
qed

lemma nib_update_even:
  assumes "even i" "i div 2 < length data" "v = v AND 0x0f"
  shows "nib (data[i div 2 := (data ! (i div 2) AND 0x0f) OR push_bit 4 v]) p = (if p = i then v else nib data p)"
proof (cases "p div 2 = i div 2")
  case False
  then have "p \<noteq> i" by auto
  with False show ?thesis by (simp add: nib_def)
next
  case True
  have v: "bit v k \<Longrightarrow> k < 4" for k
    using assms(3) by (metis bit_and_iff bit_0f)
  show ?thesis
  proof (cases "odd p")
    case o: True
    then have "p \<noteq> i" using assms(1) by auto
    then show ?thesis using True o assms(2) v by (auto simp: nib_def nib_bits simp del: bit_numeral_word_iff intro!: bit_word_eqI)
  next
    case False
    then have "p = i" using True assms(1) by (metis dvd_mult_div_cancel)
    then show ?thesis using True False assms(2) v
      by (auto simp: nib_def nib_bits simp del: bit_numeral_word_iff intro!: bit_word_eqI dest: v)
  qed
qed

section \<open>The loops\<close>

lemma nib_of_f: "nib_of n j = nib_of n j AND 0x0f"
  by (rule bit_word_eqI) (auto simp: nib_of_def nib_bits simp del: bit_numeral_word_iff)

lemma nib_of_0: "ucast (n AND 0x0f) = nib_of n 0"
  by (simp add: nib_of_def)

lemma nib_of_drop: "nib_of (drop_bit 4 n) j = nib_of n (Suc j)"
  by (simp add: nib_of_def add.commute)

text \<open>The number of nibbles of a number.\<close>

function nibbles :: "'a::len word \<Rightarrow> nat" where
  "nibbles n = (if n = 0 then 0 else Suc (nibbles (drop_bit 4 n)))"
  by auto
termination by (relation "measure unat") (auto intro: drop_bit_less)

declare nibbles.simps [simp del]

lemma nibbles_le: "drop_bit (4 * k) n = 0 \<Longrightarrow> nibbles n \<le> k"
proof (induction k arbitrary: n)
  case 0
  then show ?case by (simp add: nibbles.simps)
next
  case (Suc k)
  have "drop_bit (4 * k) (drop_bit 4 n) = 0" using Suc.prems by (simp add: add.commute)
  then show ?case using Suc.IH by (subst nibbles.simps) auto
qed

lemma nibbles_bound: "4 dvd LENGTH('a) \<Longrightarrow> nibbles (n :: 'a::len word) \<le> LENGTH('a) div 4"
proof (rule nibbles_le)
  assume "4 dvd LENGTH('a)"
  then have "4 * (LENGTH('a) div 4) = LENGTH('a)" by simp
  then show "drop_bit (4 * (LENGTH('a) div 4)) n = 0"
    by (simp only:) (auto intro!: bit_word_eqI simp: bit_simps dest: bit_imp_le_length)
qed

lemma drop_nibbles: "drop_bit (4 * nibbles n) n = 0"
proof (induction n rule: nibbles.induct)
  case (1 n)
  show ?case
  proof (cases "n = 0")
    case False
    then have "drop_bit (4 * nibbles (drop_bit 4 n)) (drop_bit 4 n) = 0" using 1 by simp
    then show ?thesis using False by (subst nibbles.simps) (simp add: add.commute)
  qed simp
qed

text \<open>The encoding loop writes the nibbles of the number from nibble \<open>i\<close> on, least first.\<close>

lemma encode_loop_ok:
  assumes "i + nibbles n \<le> 2 * length data"
  shows "\<exists>data'. encode_loop i n data = Some (i + nibbles n, data') \<and> length data' = length data \<and>
     (\<forall>p. nib data' p = (if i \<le> p \<and> p < i + nibbles n then nib_of n (p - i) else nib data p))"
  using assms
proof (induction i n data rule: encode_loop.induct)
  case (1 i n data)
  show ?case
  proof (cases "n = 0")
    case True
    then show ?thesis by (auto simp: encode_loop.simps nibbles.simps)
  next
    case False
    have k: "nibbles n = Suc (nibbles (drop_bit 4 n))" using False by (subst nibbles.simps) simp
    have i: "i div 2 < length data" using "1.prems" k by linarith
    define data1 where "data1 = data[i div 2 :=
       (if odd i then (data ! (i div 2) AND 0xf0) OR ucast (n AND 0x0f)
        else (data ! (i div 2) AND 0x0f) OR push_bit 4 (ucast (n AND 0x0f)))]"
    have nib1: "nib data1 p = (if p = i then nib_of n 0 else nib data p)" for p
      using nib_update_odd [OF _ i nib_of_f [of n 0]] nib_update_even [OF _ i nib_of_f [of n 0]]
      by (cases "odd i") (simp_all add: data1_def nib_of_0)
    have "Suc i + nibbles (drop_bit 4 n) \<le> 2 * length data1" using "1.prems" k by (simp add: data1_def)
    from "1.IH" [OF False i, folded data1_def, OF this] obtain data' where
      d: "encode_loop (Suc i) (drop_bit 4 n) data1 = Some (Suc i + nibbles (drop_bit 4 n), data')"
      "length data' = length data1"
      "\<forall>p. nib data' p = (if Suc i \<le> p \<and> p < Suc i + nibbles (drop_bit 4 n)
          then nib_of (drop_bit 4 n) (p - Suc i) else nib data1 p)"
      by blast
    have "encode_loop i n data = Some (i + nibbles n, data')"
      using d(1) False i k by (subst encode_loop.simps) (simp add: data1_def)
    moreover have "nib data' p = (if i \<le> p \<and> p < i + nibbles n then nib_of n (p - i) else nib data p)" for p
      using d(3) nib1 k by (auto simp: nib_of_drop Suc_diff_Suc)
    ultimately show ?thesis using d(2) by (auto simp: data1_def)
  qed
qed

text \<open>The decoding loop reads them back, from the greatest on.\<close>

lemma push_nib: "push_bit 4 (drop_bit (4 * Suc k) n) OR ucast (nib_of n k) = drop_bit (4 * k) n"
proof (rule bit_word_eqI)
  fix i assume "i < LENGTH('a)"
  then show "bit (push_bit 4 (drop_bit (4 * Suc k) n) OR ucast (nib_of n k)) i \<longleftrightarrow> bit (drop_bit (4 * k) n) i"
    by (cases "i < 4") (auto simp: nib_of_def nib_bits simp del: bit_numeral_word_iff dest: bit_imp_le_length)
qed

fun nib_val :: "bytes \<Rightarrow> nat \<Rightarrow> 'a::len word \<Rightarrow> 'a word" where
  "nib_val s 0 acc = acc"
| "nib_val s (Suc k) acc = nib_val s k (push_bit 4 acc OR ucast (nib s (Suc k)))"

lemma nib_val_ok:
  assumes "\<forall>p. 1 \<le> p \<and> p \<le> k \<longrightarrow> nib s p = nib_of n (p - 1)" "acc = drop_bit (4 * k) n"
  shows "nib_val s k acc = n"
  using assms
proof (induction k arbitrary: acc)
  case (Suc k)
  have "nib_val s k (push_bit 4 acc OR ucast (nib_of n k)) = n"
    by (rule Suc.IH) (use Suc.prems push_nib [of k n] in auto)
  then show ?case using Suc.prems(1) by simp
qed simp

lemma decode_loop_val:
  assumes "\<forall>i \<le> k div 2. pulled_at b (offset + i) = Some (s ! i)"
  shows "decode_loop b offset k acc = Some (nib_val s k acc)"
  using assms
proof (induction k arbitrary: acc)
  case (Suc k)
  let ?x = "s ! (Suc k div 2)"
  have x: "pulled_at b (offset + Suc k div 2) = Some ?x" using Suc.prems by simp
  have c: "(if odd (Suc k) then ucast (?x AND 0x0f) else ucast (drop_bit 4 (?x AND 0xf0)) :: 'a word) = ucast (nib s (Suc k))"
    by (simp add: nib_def)
  have "\<forall>i \<le> k div 2. pulled_at b (offset + i) = Some (s ! i)"
    using Suc.prems by (meson Suc_div_le_mono le_trans)
  then show ?case by (simp only: decode_loop.simps x Option.bind.simps c Suc.IH nib_val.simps)
qed simp

section \<open>Encoding and decoding lists of bytes\<close>

definition enc_int :: "'a::len word \<Rightarrow> bytes" where
  "enc_int n = (case ENCODE_INT_INTERNAL n of Some (k, data) \<Rightarrow> take k data | None \<Rightarrow> [])"

definition dec_int :: "nat \<Rightarrow> bytes \<Rightarrow> ('a::len word \<times> nat) option" where
  "dec_int maxnibbles s =
     (if s = [] then None
      else (let k = unat (nib s 0) + 1 in
            if k > maxnibbles \<or> k div 2 + 1 > length s then None
            else Some (nib_val s k 0, k div 2 + 1)))"

lemma unat_and_f: "n < 16 \<Longrightarrow> unat (word_of_nat n AND 0x0f :: u8) = n"
  by (simp add: and_f unsigned_take_bit_eq unsigned_of_nat take_bit_nat_eq_self)

lemma ENCODE_ok:
  fixes n :: "'a::len word"
  assumes L: "8 dvd LENGTH('a)" "LENGTH('a) \<le> 64"
  shows "\<exists>data. ENCODE_INT_INTERNAL n = Some (nibbles n div 2 + 1, data) \<and>
     length data = LENGTH('a) div 8 + 1 \<and> nibbles n div 2 + 1 \<le> length data \<and>
     unat (nib data 0) = max 1 (nibbles n) - 1 \<and>
     (\<forall>p. 1 \<le> p \<and> p \<le> max 1 (nibbles n) \<longrightarrow> nib data p = nib_of n (p - 1))"
proof -
  let ?k = "nibbles n" and ?d0 = "replicate (LENGTH('a) div 8 + 1) (0 :: u8)"
  have d: "4 dvd LENGTH('a)" by (rule dvd_trans [OF _ L(1)]) simp
  have k: "?k \<le> LENGTH('a) div 4" by (rule nibbles_bound [OF d])
  then have k2: "?k div 2 \<le> LENGTH('a) div 8" "?k \<le> 16" using L(2) by linarith+
  have lz: "1 + ?k \<le> 2 * length ?d0" using k by simp
  obtain data where data: "encode_loop 1 n ?d0 = Some (1 + ?k, data)" "length data = length ?d0"
    "\<forall>p. nib data p = (if 1 \<le> p \<and> p < 1 + ?k then nib_of n (p - 1) else nib ?d0 p)"
    using encode_loop_ok [OF lz] by blast
  define nb where "nb = (if 1 + ?k > 2 then 1 + ?k - 2 else 0)"
  have nb: "nb = max 1 ?k - 1" "nb < 16" using k2 by (auto simp: nb_def max_def)
  let ?h = "word_of_nat nb AND 0x0f :: u8"
  let ?data = "data[0 := (data ! 0 AND 0x0f) OR push_bit 4 ?h]"
  have upd: "nib ?data p = (if p = 0 then ?h else nib data p)" for p
    using nib_update_even [of 0 data ?h] data(2) by (simp add: and.assoc)
  have "ENCODE_INT_INTERNAL n = Some (?k div 2 + 1, ?data)"
    using data(1) by (simp add: ENCODE_INT_INTERNAL_def nb_def)
  moreover have "length ?data = LENGTH('a) div 8 + 1" using data(2) by simp
  moreover have "unat (nib ?data 0) = max 1 ?k - 1" using upd nb unat_and_f [OF nb(2)] by simp
  moreover have "nib ?data p = nib_of n (p - 1)" if p: "1 \<le> p" "p \<le> max 1 ?k" for p
  proof (cases "?k = 0")
    case True
    then have "n = 0" using drop_nibbles [of n] by simp
    moreover have "p = 1" using p True by simp
    moreover have "nib ?d0 1 = 0" by (simp add: nib_def)
    then have "nib data 1 = 0" using data(3) True by simp
    moreover have "nib_of 0 0 = 0" by (simp add: nib_of_def)
    ultimately show ?thesis using upd [of p] by simp
  next
    case False
    then show ?thesis using upd [of p] data(3) p by (simp add: max_def split: if_splits)
  qed
  ultimately show ?thesis using k2(1) by auto
qed

lemma enc_int_ENCODE:
  fixes n :: "'a::len word"
  assumes "8 dvd LENGTH('a)" "LENGTH('a) \<le> 64"
  shows "\<exists>data. ENCODE_INT_INTERNAL n = Some (length (enc_int n), data) \<and> enc_int n = take (length (enc_int n)) data \<and>
     length data = LENGTH('a) div 8 + 1"
    and "length (enc_int n) = nibbles n div 2 + 1"
proof -
  obtain data where d: "ENCODE_INT_INTERNAL n = Some (nibbles n div 2 + 1, data)"
    "nibbles n div 2 + 1 \<le> length data" "length data = LENGTH('a) div 8 + 1"
    using ENCODE_ok [OF assms, of n] by blast
  then have e: "enc_int n = take (nibbles n div 2 + 1) data" by (simp add: enc_int_def)
  then show l: "length (enc_int n) = nibbles n div 2 + 1" using d(2) by simp
  show "\<exists>data. ENCODE_INT_INTERNAL n = Some (length (enc_int n), data) \<and> enc_int n = take (length (enc_int n)) data \<and>
     length data = LENGTH('a) div 8 + 1"
    using d e l by (intro exI [of _ data]) simp
qed

lemma nib_append: "p div 2 < length s \<Longrightarrow> nib (s @ t) p = nib s p"
  by (simp add: nib_def nth_append)

lemma nib_take: "p div 2 < k \<Longrightarrow> nib (take k s) p = nib s p"
  by (simp add: nib_def)

text \<open>Decoding undoes encoding, whatever follows.\<close>

lemma dec_enc_int:
  fixes n :: "'a::len word"
  assumes "8 dvd LENGTH('a)" "LENGTH('a) \<le> 64" "LENGTH('a) div 4 \<le> maxn"
  shows "dec_int maxn (enc_int n @ rest) = Some (n, length (enc_int n))"
proof -
  let ?k = "max 1 (nibbles n)"
  obtain data where d: "ENCODE_INT_INTERNAL n = Some (nibbles n div 2 + 1, data)"
    "nibbles n div 2 + 1 \<le> length data" "unat (nib data 0) = ?k - 1"
    "\<forall>p. 1 \<le> p \<and> p \<le> ?k \<longrightarrow> nib data p = nib_of n (p - 1)"
    using ENCODE_ok [OF assms(1,2), of n] by blast
  then have e: "enc_int n = take (nibbles n div 2 + 1) data" by (simp add: enc_int_def)
  have l: "length (enc_int n) = nibbles n div 2 + 1" by (rule enc_int_ENCODE(2) [OF assms(1,2)])
  have kd: "?k div 2 = nibbles n div 2" by (auto simp: max_def)
  have nb: "nib (enc_int n @ rest) p = nib data p" if "p \<le> ?k" for p
  proof -
    have "p div 2 \<le> ?k div 2" using that by (rule div_le_mono)
    then have "p div 2 < nibbles n div 2 + 1" unfolding kd by simp
    then show ?thesis using l by (simp add: nib_append) (simp add: e nib_take)
  qed
  have "4 dvd LENGTH('a)" by (rule dvd_trans [OF _ assms(1)]) simp
  then have "nibbles n \<le> maxn" using nibbles_bound [of n] assms(3) by simp
  moreover have "1 \<le> maxn"
  proof -
    have "8 \<le> LENGTH('a)" using assms(1) len_gt_0 by (auto dest: dvd_imp_le)
    then show ?thesis using assms(3) by simp
  qed
  ultimately have k: "?k \<le> maxn" by simp
  have u: "unat (nib (enc_int n @ rest) 0) + 1 = ?k" using nb [of 0] d(3) by simp
  have v: "nib_val (enc_int n @ rest) ?k 0 = n"
  proof (rule nib_val_ok)
    show "\<forall>p. 1 \<le> p \<and> p \<le> ?k \<longrightarrow> nib (enc_int n @ rest) p = nib_of n (p - 1)" using nb d(4) by simp
    show "0 = drop_bit (4 * ?k) n" using drop_nibbles [of n] by (cases "nibbles n = 0") (auto simp: max_def)
  qed
  have "enc_int n \<noteq> []" using l by auto
  then show ?thesis unfolding dec_int_def Let_def u v using k l kd by (auto simp: max_def split: if_splits)
qed

section \<open>Tags\<close>

function evtag_tag_bytes :: "u32 \<Rightarrow> bytes" where
  "evtag_tag_bytes tag =
     (if drop_bit 7 tag = 0 then [ucast (tag AND 0x7f)]
      else (ucast (tag AND 0x7f) OR 0x80) # evtag_tag_bytes (drop_bit 7 tag))"
  by auto
termination
  by (relation "measure unat") (auto intro!: drop_bit_less)

declare evtag_tag_bytes.simps [simp del]

lemma encode_tag_loop_ok:
  assumes "drop_bit (7 * (5 - n)) tag = 0" "n < 5"
  shows "encode_tag_loop n tag = Some (evtag_tag_bytes tag) \<and> n + length (evtag_tag_bytes tag) \<le> 5"
  using assms
proof (induction n tag rule: encode_tag_loop.induct)
  case (1 n tag)
  show ?case
  proof (cases "drop_bit 7 tag = 0")
    case True
    then show ?thesis
      using "1.prems" by (simp add: encode_tag_loop.simps [of n] evtag_tag_bytes.simps [of tag])
  next
    case False
    have "7 * (5 - n) = 7 + 7 * (5 - Suc n)" using "1.prems"(2) by simp
    then have d: "drop_bit (7 * (5 - Suc n)) (drop_bit 7 tag) = 0" using "1.prems"(1) by (simp add: add.commute)
    have "Suc n < 5"
    proof (rule ccontr)
      assume "\<not> Suc n < 5"
      then show False using d False "1.prems"(2) by simp
    qed
    then have "encode_tag_loop (Suc n) (drop_bit 7 tag) = Some (evtag_tag_bytes (drop_bit 7 tag)) \<and>
        Suc n + length (evtag_tag_bytes (drop_bit 7 tag)) \<le> 5"
      using "1.IH" [OF refl refl _ False d] "1.prems"(2) by simp
    then show ?thesis
      using False "1.prems"(2) by (simp add: encode_tag_loop.simps [of n] evtag_tag_bytes.simps [of tag] Let_def)
  qed
qed

lemma encode_tag_ok: "encode_tag_loop 0 tag = Some (evtag_tag_bytes tag) \<and> length (evtag_tag_bytes tag) \<le> 5"
proof -
  have "drop_bit 35 tag = 0" by (rule bit_word_eqI) (auto simp: bit_simps dest: bit_imp_le_length)
  then show ?thesis using encode_tag_loop_ok [of 0 tag] by simp
qed

text \<open>Reading a tag from a list of bytes: \<open>None\<close> is a shift by 32 or more, \<open>Some None\<close> no end.\<close>

fun dec_tag_from :: "nat \<Rightarrow> bytes \<Rightarrow> u32 \<Rightarrow> (u32 \<times> nat) option option" where
  "dec_tag_from count [] number = Some None"
| "dec_tag_from count (x # s) number =
     (if 7 * count \<ge> 32 then None
      else (let number' = number OR push_bit (7 * count) (ucast (x AND 0x7f)) in
            if x AND 0x80 = 0 then Some (Some (number', Suc count))
            else dec_tag_from (Suc count) s number'))"

definition dec_tag :: "bytes \<Rightarrow> (u32 \<times> nat) option option" where
  "dec_tag s = dec_tag_from 0 s 0"

lemma decode_tag_loop_dec:
  assumes "\<forall>i < min 5 (length s). pulled_at b i = Some (s ! i)" "count + k = length s"
  shows "decode_tag_loop b k count number = dec_tag_from count (drop count s) number"
  using assms(2)
proof (induction k arbitrary: count number)
  case 0
  then show ?case by simp
next
  case (Suc k)
  then have d: "drop count s = s ! count # drop (Suc count) s" by (simp add: Cons_nth_drop_Suc)
  show ?case
  proof (cases "count < 5")
    case True
    then have "pulled_at b count = Some (s ! count)" using assms(1) Suc.prems by simp
    then show ?thesis using Suc.IH [of "Suc count"] Suc.prems True unfolding d by (simp add: Let_def)
  next
    case False
    then show ?thesis unfolding d by (cases "pulled_at b count") simp_all
  qed
qed

lemma bit_7f: "bit (0x7f :: 'a::len word) k \<longleftrightarrow> k < 7 \<and> k < LENGTH('a)"
proof -
  have e: "(0x7f :: 'a word) = mask 7" by (simp add: mask_eq_exp_minus_1)
  show ?thesis unfolding e bit_mask_iff by auto
qed

lemma bit_80: "bit (0x80 :: u8) k \<longleftrightarrow> k = 7"
proof -
  have e: "(0x80 :: u8) = push_bit 7 1" by (simp add: push_bit_eq_mult)
  show ?thesis unfolding e bit_push_bit_iff by (auto simp: bit_1_iff)
qed

lemmas tag_bits = bit_simps bit_7f bit_80

lemma tag_last: "(ucast (t AND 0x7f) :: u8) AND 0x80 = 0" "ucast ((ucast (t AND 0x7f) :: u8) AND 0x7f) = (t :: u32) AND 0x7f"
  by (auto intro!: bit_word_eqI simp: tag_bits simp del: bit_numeral_word_iff)

lemma tag_more:
  "(ucast (t AND 0x7f) OR 0x80 :: u8) AND 0x80 \<noteq> 0"
  "ucast ((ucast (t AND 0x7f) OR 0x80 :: u8) AND 0x7f) = (t :: u32) AND 0x7f"
proof -
  have "bit ((ucast (t AND 0x7f) OR 0x80 :: u8) AND 0x80) 7"
    by (simp add: tag_bits del: bit_numeral_word_iff)
  then show "(ucast (t AND 0x7f) OR 0x80 :: u8) AND 0x80 \<noteq> 0" by force
qed (auto intro!: bit_word_eqI simp: tag_bits simp del: bit_numeral_word_iff)

lemma tag_join:
  "push_bit n (t AND 0x7f) OR push_bit (n + 7) (drop_bit 7 t) = push_bit n (t :: u32)"
proof (rule bit_word_eqI)
  fix i assume "i < LENGTH(32)"
  then show "bit (push_bit n (t AND 0x7f) OR push_bit (n + 7) (drop_bit 7 t)) i \<longleftrightarrow> bit (push_bit n t) i"
    by (cases "i < n"; cases "i < n + 7") (auto simp: tag_bits simp del: bit_numeral_word_iff)
qed

lemma dec_tag_from_ok:
  assumes "drop_bit (32 - 7 * count) t = 0" "count \<le> 4"
  shows "dec_tag_from count (evtag_tag_bytes t @ rest) number =
    Some (Some (number OR push_bit (7 * count) t, count + length (evtag_tag_bytes t)))"
  using assms
proof (induction t arbitrary: count number rule: evtag_tag_bytes.induct)
  case (1 t)
  have c: "\<not> 32 \<le> 7 * count" using "1.prems"(2) by simp
  show ?case
  proof (cases "drop_bit 7 t = 0")
    case True
    have "push_bit (7 * count) (t AND 0x7f) = push_bit (7 * count) t"
      using tag_join [of "7 * count" t] True by simp
    then show ?thesis using True c by (simp add: evtag_tag_bytes.simps [of t] tag_last)
  next
    case False
    have c3: "count \<le> 3"
    proof (rule ccontr)
      assume "\<not> count \<le> 3"
      then have "count = 4" using "1.prems"(2) by simp
      then have "drop_bit 3 (drop_bit 4 t) = 0" using "1.prems"(1) by simp
      then show False using False by simp
    qed
    then have e: "32 - 7 * count = 32 - 7 * Suc count + 7" by simp
    have d: "drop_bit (32 - 7 * Suc count) (drop_bit 7 t) = 0"
      using "1.prems"(1) unfolding e drop_bit_drop_bit .
    have "dec_tag_from (Suc count) (evtag_tag_bytes (drop_bit 7 t) @ rest) (number OR push_bit (7 * count) (t AND 0x7f)) =
        Some (Some ((number OR push_bit (7 * count) (t AND 0x7f)) OR push_bit (7 * Suc count) (drop_bit 7 t),
          Suc count + length (evtag_tag_bytes (drop_bit 7 t))))"
      by (rule "1.IH" [OF False d]) (use c3 in simp)
    moreover have "push_bit (7 * count) (t AND 0x7f) OR push_bit (7 * Suc count) (drop_bit 7 t) = push_bit (7 * count) t"
      using tag_join [of "7 * count" t] by (simp add: add.commute)
    moreover have tb: "evtag_tag_bytes t = (ucast (t AND 0x7f) OR 0x80) # evtag_tag_bytes (drop_bit 7 t)"
      using False by (simp add: evtag_tag_bytes.simps [of t])
    ultimately show ?thesis
      using c tag_more [of t] unfolding tb
      by (simp only: if_False append_Cons dec_tag_from.simps Let_def or.assoc list.size add_Suc_right add_Suc add_0_right)
  qed
qed

lemma dec_tag_ok: "dec_tag (evtag_tag_bytes t @ rest) = Some (Some (t, length (evtag_tag_bytes t)))"
proof -
  have "drop_bit 32 t = 0" by (rule bit_word_eqI) (auto simp: bit_simps dest: bit_imp_le_length)
  then show ?thesis using dec_tag_from_ok [of 0 t rest 0] by (simp add: dec_tag_def)
qed

section \<open>On the evbuffer\<close>

text \<open>\<open>ready m b\<close>: the buffer is sound, memory can be allocated and no size overflows.\<close>

definition ready :: "malloc \<Rightarrow> evbuffer \<Rightarrow> bool" where
  "ready m b \<longleftrightarrow> sound b \<and> allocs m \<and> length (content b) \<le> evb_cap"

lemma readyD: "ready m b \<Longrightarrow> sound b" "ready m b \<Longrightarrow> allocs m"
    "ready m b \<Longrightarrow> length (content b) \<le> evb_cap"
  by (simp_all add: ready_def)

lemma add_ignored_ok:
  assumes "ready m b" "length (content b) + length d \<le> evb_cap"
  shows "\<exists>b'. add_ignored m b d = Some b' \<and> ready m b' \<and> content b' = content b @ d"
  using evb.add_law [OF readyD(1,2) [OF assms(1)] assms(2)] assms
  by (auto simp: add_ignored_def ready_def)

lemma drain_ignored_ok:
  assumes "ready m b"
  shows "\<exists>b'. drain_ignored b n = Some b' \<and> ready m b' \<and> content b' = drop n (content b)"
  using evb.drain_law [OF readyD(1) [OF assms], of n] assms
  by (auto simp: drain_ignored_def ready_def)

lemma length_ready: "ready m b \<Longrightarrow> evbuffer_get_length b = length (content b)"
  by (rule evb.len_law [OF readyD(1)])

lemma pullup_ready:
  assumes "ready m b" "0 < n" "n \<le> length (content b)"
  shows "\<exists>b' a. evbuffer_pullup m b (int n) = Some (b', Some a) \<and> ready m b' \<and> content b' = content b \<and>
    (\<forall>i < n. pulled_at b' i = Some (content b ! i))"
proof -
  note r = readyD [OF assms(1)]
  from evb.pullup_law [OF r(1,2) assms(2,3) r(3)] obtain b' a where
    "evbuffer_pullup m b (int n) = Some (b', Some a)" "sound b'" "content b' = content b"
    "\<forall>i < n. pulled_at b' i = Some (content b ! i)" by blast
  moreover have "ready m b'" using calculation(2,3) r by (simp add: ready_def)
  ultimately show ?thesis by blast
qed

lemma DECODE_INT_ok:
  assumes "ready m b"
  shows "\<exists>b'. DECODE_INT_INTERNAL maxn m b offset =
      Some (b', dec_int maxn (drop offset (content b)) :: ('a::len word \<times> nat) option) \<and>
    ready m b' \<and> content b' = content b"
proof (cases "offset < length (content b)")
  case False
  then show ?thesis using assms length_ready [OF assms] by (simp add: DECODE_INT_INTERNAL_def dec_int_def)
next
  case True
  let ?s = "drop offset (content b)"
  have len: "evbuffer_get_length b = length (content b)" by (rule length_ready [OF assms])
  obtain b1 a where b1: "evbuffer_pullup m b (int (offset + 1)) = Some (b1, Some a)" "ready m b1"
    "content b1 = content b" "\<forall>i < offset + 1. pulled_at b1 i = Some (content b ! i)"
    using pullup_ready [OF assms, of "offset + 1"] True by auto
  have x: "pulled_at b1 offset = Some (?s ! 0)" using b1(4) True by simp
  have n0: "drop_bit 4 (?s ! 0 AND 0xf0) = nib ?s 0" by (simp add: nib_def)
  let ?k = "unat (nib ?s 0) + 1"
  have ne: "?s \<noteq> []" using True by simp
  show ?thesis
  proof (cases "?k > maxn \<or> ?k div 2 + 1 > length (content b) - offset")
    case bad: True
    have "DECODE_INT_INTERNAL maxn m b offset = Some (b1, None :: ('a word \<times> nat) option)"
      unfolding DECODE_INT_INTERNAL_def len using True b1(1) x bad n0 by (simp add: Let_def)
    moreover have "(dec_int maxn ?s :: ('a word \<times> nat) option) = None" using bad ne by (auto simp: dec_int_def Let_def)
    ultimately show ?thesis using b1 by simp
  next
    case False
    let ?n = "offset + (?k div 2 + 1)"
    have nle: "?n \<le> length (content b1)" using False True unfolding b1(3) by linarith
    obtain b2 a2 where b2: "evbuffer_pullup m b1 (int ?n) = Some (b2, Some a2)" "ready m b2"
      "content b2 = content b1" "\<forall>i < ?n. pulled_at b2 i = Some (content b1 ! i)"
      using pullup_ready [OF b1(2) _ nle] by auto
    have "\<forall>i \<le> ?k div 2. pulled_at b2 (offset + i) = Some (?s ! i)"
      using b2(4) b1(3) nle by auto
    from decode_loop_val [OF this] have l: "decode_loop b2 offset ?k 0 = Some (nib_val ?s ?k (0 :: 'a word))" .
    have "DECODE_INT_INTERNAL maxn m b offset = Some (b2, Some (nib_val ?s ?k (0 :: 'a word), ?k div 2 + 1))"
      unfolding DECODE_INT_INTERNAL_def len using True b1(1) x False n0 b2(1) l
      by (simp add: Let_def del: decode_loop.simps nib_val.simps)
    moreover have "dec_int maxn ?s = Some (nib_val ?s ?k (0 :: 'a word), ?k div 2 + 1)"
      unfolding dec_int_def Let_def using False ne by simp
    ultimately show ?thesis using b1(3) b2(2,3) by simp
  qed
qed

lemma decode_tag_ok:
  assumes "ready m b"
  shows "case dec_tag (content b) of
      None \<Rightarrow> decode_tag_internal m b dodrain = None
    | Some None \<Rightarrow> \<exists>b'. decode_tag_internal m b dodrain = Some (b', None) \<and> ready m b' \<and> content b' = content b
    | Some (Some (tag, n)) \<Rightarrow>
        \<exists>b'. decode_tag_internal m b dodrain = Some (b', Some (tag, n)) \<and> ready m b' \<and>
          content b' = (if dodrain then drop n (content b) else content b)"
proof (cases "content b = []")
  case True
  then show ?thesis
    using assms length_ready [OF assms] evb.pullup_nothing [OF readyD(1) [OF assms]]
    by (simp add: dec_tag_def decode_tag_internal_def)
next
  case False
  let ?n = "min 5 (length (content b))"
  have len: "evbuffer_get_length b = length (content b)" by (rule length_ready [OF assms])
  obtain b1 a where b1: "evbuffer_pullup m b (int ?n) = Some (b1, Some a)" "ready m b1"
    "content b1 = content b" "\<forall>i < ?n. pulled_at b1 i = Some (content b ! i)"
    using pullup_ready [OF assms, of ?n] False by auto
  have n: "(if length (content b) < 5 then length (content b) else 5) = ?n" by simp
  have l: "decode_tag_loop b1 (length (content b)) 0 0 = dec_tag (content b)"
    using decode_tag_loop_dec [OF b1(4), of 0] by (simp add: dec_tag_def)
  have e: "decode_tag_internal m b dodrain =
      (case dec_tag (content b) of
         None \<Rightarrow> None
       | Some None \<Rightarrow> Some (b1, None)
       | Some (Some (tag, count)) \<Rightarrow>
           if dodrain then do { b2 \<leftarrow> drain_ignored b1 count; Some (b2, Some (tag, count)) }
           else Some (b1, Some (tag, count)))"
    unfolding decode_tag_internal_def len Let_def n using b1(1) l
    by (simp split: option.split)
  show ?thesis
  proof (cases "dec_tag (content b)")
    case (Some r)
    show ?thesis
    proof (cases r)
      case (Some p)
      obtain b2 where "drain_ignored b1 (snd p) = Some b2" "ready m b2" "content b2 = drop (snd p) (content b1)"
        using drain_ignored_ok [OF b1(2)] by blast
      then show ?thesis unfolding e using \<open>dec_tag (content b) = Some r\<close> Some b1(2,3) by (cases p) simp
    qed (use e b1(2,3) Some in simp)
  qed (use e in simp)
qed

section \<open>Marshalling and unmarshalling\<close>

text \<open>The bytes of one tagged item.\<close>

definition item :: "u32 \<Rightarrow> bytes \<Rightarrow> bytes" where
  "item tag d = evtag_tag_bytes tag @ enc_int (word_of_nat (length d) :: u32) @ d"

lemma length_evtag_tag_bytes: "length (evtag_tag_bytes t) \<le> 5"
  using encode_tag_ok [of t] by blast

lemma length_enc_int32: "length (enc_int (n :: u32)) \<le> 5"
proof -
  have "nibbles n \<le> 8" using nibbles_bound [of n] by simp
  then show ?thesis using enc_int_ENCODE(2) [of n] by simp
qed

lemma length_enc_int64: "length (enc_int (n :: u64)) \<le> 9"
proof -
  have "nibbles n \<le> 16" using nibbles_bound [of n] by simp
  then show ?thesis using enc_int_ENCODE(2) [of n] by simp
qed

lemma encode_tag_ignored_ok:
  assumes "ready m b" "length (content b) + 5 \<le> evb_cap"
  shows "\<exists>b'. encode_tag_ignored m b tag = Some b' \<and> ready m b' \<and> content b' = content b @ evtag_tag_bytes tag"
proof -
  have "length (content b) + length (evtag_tag_bytes tag) \<le> evb_cap"
    using assms(2) length_evtag_tag_bytes [of tag] by simp
  from add_ignored_ok [OF assms(1) this] show ?thesis
    using encode_tag_ok [of tag] by (auto simp: encode_tag_ignored_def evtag_encode_tag_def)
qed

lemma evtag_encode_int_ok:
  assumes "ready m b" "length (content b) + 5 \<le> evb_cap"
  shows "\<exists>b'. evtag_encode_int m b n = Some b' \<and> ready m b' \<and> content b' = content b @ enc_int n"
proof -
  obtain data where d: "ENCODE_INT_INTERNAL n = Some (length (enc_int n), data)"
    "enc_int n = take (length (enc_int n)) data"
    using enc_int_ENCODE(1) [of n] by auto
  have "length (content b) + length (enc_int n) \<le> evb_cap"
    using assms(2) length_enc_int32 [of n] by simp
  from add_ignored_ok [OF assms(1) this] obtain b' where
    "add_ignored m b (enc_int n) = Some b'" "ready m b'" "content b' = content b @ enc_int n" by blast
  then show ?thesis
    using d by (simp add: evtag_encode_int_def encode_int_internal_def)
qed

lemma evtag_marshal_ok:
  assumes "ready m b" "length d < 2 ^ 32" "length (content b) + length d + 10 \<le> evb_cap"
  shows "\<exists>b'. evtag_marshal m b tag d (word_of_nat (length d)) = Some b' \<and> ready m b' \<and>
    content b' = content b @ item tag d"
proof -
  have u: "unat (word_of_nat (length d) :: u32) = length d"
    using assms(2) by (simp add: unsigned_of_nat take_bit_nat_eq_self)
  obtain b1 where b1: "encode_tag_ignored m b tag = Some b1" "ready m b1" "content b1 = content b @ evtag_tag_bytes tag"
    using encode_tag_ignored_ok [OF assms(1)] assms(3) by force
  have l1: "length (content b1) + 5 \<le> evb_cap" using b1(3) assms(3) length_evtag_tag_bytes [of tag] by simp
  obtain b2 where b2: "evtag_encode_int m b1 (word_of_nat (length d)) = Some b2" "ready m b2"
    "content b2 = content b1 @ enc_int (word_of_nat (length d) :: u32)"
    using evtag_encode_int_ok [OF b1(2) l1] by blast
  have "length (content b2) + length d \<le> evb_cap"
    using b2(3) b1(3) assms(3) length_evtag_tag_bytes [of tag] length_enc_int32 [of "word_of_nat (length d)"] by simp
  from add_ignored_ok [OF b2(2) this] obtain b3 where "add_ignored m b2 d = Some b3" "ready m b3"
    "content b3 = content b2 @ d" by blast
  then show ?thesis using b1 b2 u by (simp add: evtag_marshal_def item_def)
qed

lemma evtag_decode_int_ok:
  assumes "ready m b" "content b = enc_int n @ s"
  shows "\<exists>b'. evtag_decode_int m b = Some (b', Some n) \<and> ready m b' \<and> content b' = s"
proof -
  have d: "dec_int 8 (drop 0 (content b)) = Some (n, length (enc_int n))"
    using dec_enc_int [of 8 n s] assms(2) by simp
  obtain b1 where b1: "decode_int_internal m b 0 = Some (b1, Some (n, length (enc_int n)))" "ready m b1"
    "content b1 = content b"
    using DECODE_INT_ok [OF assms(1), of 8 0, where 'a = 32] unfolding d decode_int_internal_def by blast
  from drain_ignored_ok [OF b1(2)] obtain b2 where "drain_ignored b1 (length (enc_int n)) = Some b2"
    "ready m b2" "content b2 = drop (length (enc_int n)) (content b1)" by blast
  then show ?thesis using b1 assms(2) by (simp add: evtag_decode_int_def)
qed

lemma unmarshal_header_ok:
  assumes "ready m b" "content b = item tag d @ s" "length d < 2 ^ 31"
  shows "\<exists>b'. evtag_unmarshal_header m b = Some (b', Some tag, int (length d)) \<and> ready m b' \<and> content b' = d @ s"
proof -
  let ?w = "word_of_nat (length d) :: u32"
  have u: "unat ?w = length d" using assms(3) by (simp add: unsigned_of_nat take_bit_nat_eq_self)
  have sg: "sint ?w = int (length d)" using assms(3) by (simp add: signed_of_nat signed_take_bit_int_eq_self)
  have "dec_tag (content b) = Some (Some (tag, length (evtag_tag_bytes tag)))"
    using dec_tag_ok [of tag] assms(2) by (simp add: item_def)
  then obtain b1 where b1: "decode_tag_internal m b True = Some (b1, Some (tag, length (evtag_tag_bytes tag)))"
    "ready m b1" "content b1 = enc_int ?w @ d @ s"
    using decode_tag_ok [OF assms(1), of True] assms(2) by (auto simp: item_def)
  obtain b2 where b2: "evtag_decode_int m b1 = Some (b2, Some ?w)" "ready m b2" "content b2 = d @ s"
    using evtag_decode_int_ok [OF b1(2,3)] by blast
  then show ?thesis
    using b1(1) u sg length_ready [OF b2(2)] by (simp add: evtag_unmarshal_header_def)
qed

lemma those_pulled:
  "\<forall>i < n. pulled_at b i = Some (s ! i) \<Longrightarrow> n \<le> length s \<Longrightarrow> those (map (pulled_at b) [0..<n]) = Some (take n s)"
proof (induction n)
  case (Suc n)
  have t: "those (xs @ [Some x]) = map_option (\<lambda>ys. ys @ [x]) (those xs)" for xs :: "u8 option list" and x
    by (induction xs) (auto simp: option.map_comp comp_def split: option.split)
  show ?case using Suc t by (simp add: take_Suc_conv_app_nth)
qed simp

lemma evtag_unmarshal_ok:
  assumes src: "ready m src" "content src = item tag d @ s" "length d < 2 ^ 31"
    and dst: "ready m dst" "length (content dst) + length d \<le> evb_cap"
  shows "\<exists>src' dst'. evtag_unmarshal m src dst = Some (src', dst', Some tag, int (length d)) \<and>
    content src' = s \<and> content dst' = content dst @ d \<and> ready m src' \<and> ready m dst'"
proof -
  obtain s1 where s1: "evtag_unmarshal_header m src = Some (s1, Some tag, int (length d))" "ready m s1"
    "content s1 = d @ s"
    using unmarshal_header_ok [OF src] by blast
  obtain s2 p where s2: "evbuffer_pullup m s1 (int (length d)) = Some (s2, p)" "ready m s2" "content s2 = d @ s"
    "d \<noteq> [] \<Longrightarrow> p \<noteq> None" "\<forall>i < length d. pulled_at s2 i = Some (d ! i)"
  proof (cases "d = []")
    case True
    then show thesis using that [of s1 None] s1(2,3) evb.pullup_nothing [OF readyD(1) [OF s1(2)]] by simp
  next
    case False
    then obtain s2 a where "evbuffer_pullup m s1 (int (length d)) = Some (s2, Some a)" "ready m s2"
      "content s2 = content s1" "\<forall>i < length d. pulled_at s2 i = Some (content s1 ! i)"
      using pullup_ready [OF s1(2), of "length d"] s1(3) by auto
    then show thesis using that [of s2 "Some a"] s1(3) by (simp add: nth_append)
  qed
  obtain d1 where d1: "evbuffer_add m dst d = Some (d1, 0)" "sound d1" "content d1 = content dst @ d"
    using evb.add_law [OF readyD(1,2) [OF dst(1)] dst(2)] by blast
  have rd: "ready m d1" using d1(2,3) dst readyD(2) [OF dst(1)] by (simp add: ready_def)
  obtain s3 where s3: "drain_ignored s2 (length d) = Some s3" "ready m s3" "content s3 = s"
    using drain_ignored_ok [OF s2(2), of "length d"] s2(3) by auto
  have th: "those (map (pulled_at s2) [0..<length d]) = Some d"
    using those_pulled [OF s2(5)] by simp
  show ?thesis
    using s1(1) s2(1,4) th d1(1,3) s3 rd by (cases "d = []") (auto simp: evtag_unmarshal_def)
qed

text \<open>Integers as items: the payload is the encoding, of either width.\<close>

lemma unmarshal_int_ok:
  fixes n :: "'a::len word"
  assumes dec: "decode = DECODE_INT_INTERNAL maxn"
    and L: "8 dvd LENGTH('a)" "LENGTH('a) \<le> 64" "LENGTH('a) div 4 \<le> maxn"
    and b: "ready m b" "content b = item tag (enc_int n) @ s"
  shows "\<exists>b'. unmarshal_int decode m b tag = Some (b', Some n, int (length (enc_int n))) \<and>
    ready m b' \<and> content b' = s"
proof -
  let ?d = "enc_int n"
  let ?w = "word_of_nat (length ?d) :: u32"
  have "4 dvd LENGTH('a)" by (rule dvd_trans [OF _ L(1)]) simp
  then have "nibbles n \<le> 16" using nibbles_bound [of n] L(2) by simp
  then have l: "length ?d < 2 ^ 32" using enc_int_ENCODE(2) [OF L(1,2), of n] by simp
  have u: "unat ?w = length ?d" using l by (simp add: unsigned_of_nat take_bit_nat_eq_self)
  have "dec_tag (content b) = Some (Some (tag, length (evtag_tag_bytes tag)))"
    using dec_tag_ok [of tag] b(2) by (simp add: item_def)
  then obtain b1 where b1: "decode_tag_internal m b True = Some (b1, Some (tag, length (evtag_tag_bytes tag)))"
    "ready m b1" "content b1 = enc_int ?w @ ?d @ s"
    using decode_tag_ok [OF b(1), of True] b(2) by (auto simp: item_def)
  obtain b2 where b2: "evtag_decode_int m b1 = Some (b2, Some ?w)" "ready m b2" "content b2 = ?d @ s"
    using evtag_decode_int_ok [OF b1(2,3)] by blast
  have d: "dec_int maxn (drop 0 (content b2)) = Some (n, length ?d)"
    using dec_enc_int [OF L, of n s] b2(3) by simp
  obtain b3 where b3: "decode m b2 0 = Some (b3, Some (n, length ?d))" "ready m b3" "content b3 = content b2"
    using DECODE_INT_ok [OF b2(2), of maxn 0, where 'a = 'a] unfolding d dec by blast
  obtain b4 where b4: "drain_ignored b3 (length ?d) = Some b4" "ready m b4" "content b4 = s"
    using drain_ignored_ok [OF b3(2), of "length ?d"] b3(3) b2(3) by auto
  show ?thesis
    using b1(1) b2(1) u length_ready [OF b2(2)] b2(3) b3(1) b4 by (simp add: unmarshal_int_def)
qed

lemma evtag_marshal_int64_ok:
  assumes "ready m b" "length (content b) + 20 \<le> evb_cap"
  shows "\<exists>b'. evtag_marshal_int64 m b tag n = Some b' \<and> ready m b' \<and>
    content b' = content b @ item tag (enc_int n)"
proof -
  obtain data where d: "ENCODE_INT_INTERNAL n = Some (length (enc_int n), data)"
    "enc_int n = take (length (enc_int n)) data"
    using enc_int_ENCODE(1) [of n] by auto
  let ?w = "word_of_nat (length (enc_int n)) :: u32"
  note l = length_evtag_tag_bytes [of tag] length_enc_int32 [of ?w] length_enc_int64 [of n]
  obtain b1 where b1: "encode_tag_ignored m b tag = Some b1" "ready m b1" "content b1 = content b @ evtag_tag_bytes tag"
    using encode_tag_ignored_ok [OF assms(1)] assms(2) by force
  have l1: "length (content b1) + 5 \<le> evb_cap" using b1(3) assms(2) l by simp
  obtain b2 where b2: "evtag_encode_int m b1 ?w = Some b2" "ready m b2" "content b2 = content b1 @ enc_int ?w"
    using evtag_encode_int_ok [OF b1(2) l1] by blast
  have "length (content b2) + length (enc_int n) \<le> evb_cap" using b2(3) b1(3) assms(2) l by simp
  from add_ignored_ok [OF b2(2) this] obtain b3 where "add_ignored m b2 (enc_int n) = Some b3" "ready m b3"
    "content b3 = content b2 @ enc_int n" by blast
  then show ?thesis
    using b1 b2 d by (simp add: evtag_marshal_int64_def encode_int64_internal_def item_def)
qed

text \<open>A tag that does not end within five bytes shifts by 35.\<close>

lemma dec_tag_overlong:
  assumes "\<forall>x \<in> set (take 5 s). x AND 0x80 \<noteq> 0" "5 < length s"
  shows "dec_tag s = None"
proof -
  have "\<forall>x \<in> set (take (5 - n) t). x AND 0x80 \<noteq> 0 \<Longrightarrow> 5 - n < length t \<Longrightarrow> n \<le> 5 \<Longrightarrow>
      dec_tag_from n t number = None" for n t number
  proof (induction "5 - n" arbitrary: n t number)
    case 0
    then show ?case by (cases t) auto
  next
    case (Suc k)
    then obtain x t' where t: "t = x # t'" by (cases t) auto
    have "x AND 0x80 \<noteq> 0" using Suc.prems(1) Suc.hyps(2) t by (cases "5 - n") auto
    moreover have "dec_tag_from (Suc n) t' number' = None" for number'
      by (rule Suc.hyps(1)) (use Suc.prems Suc.hyps(2) t in \<open>auto simp: take_Cons' split: if_splits\<close>)
    ultimately show ?case using t by (simp add: Let_def)
  qed
  from this [of 0 s 0] assms show ?thesis by (simp add: dec_tag_def)
qed

end
