(* ===== verification/TaggingProps.thy ===== *)
theory TaggingProps
  imports TaggingProofs EvbufferProps
begin

text \<open>
  The properties of tagged data: that items come back as they were marshalled, with whatever
  follows left in the buffer, the wire format as it is, and the tag that leads to undefined
  behaviour.
\<close>

lemma ready_sample [simp]: "ready zero_malloc sample" "ready zero_malloc sample2"
  by (simp_all add: ready_def cap_large)

text \<open>
  Property C29: a buffer marshalled with a tag into an empty evbuffer is unmarshalled to the same
  tag and the same bytes, whatever follows it; the bytes that follow stay in the source.
\<close>
theorem marshal_unmarshal_roundtrip:
  assumes "ready m b" "content b = []" "ready m dst" "length d < 2 ^ 31"
    and "length d + length s + 10 \<le> evb_cap" "length (content dst) + length d \<le> evb_cap"
  shows "\<exists>b1 b2 src' dst'. evtag_marshal m b tag d (word_of_nat (length d)) = Some b1 \<and>
    evbuffer_add m b1 s = Some (b2, 0) \<and>
    evtag_unmarshal m b2 dst = Some (src', dst', Some tag, int (length d)) \<and>
    content src' = s \<and> content dst' = content dst @ d"
proof -
  have "length (content b) + length d + 10 \<le> evb_cap" "length d < 2 ^ 32" using assms(2,4,5) by simp_all
  from evtag_marshal_ok [OF assms(1) this(2,1)] obtain b1 where
    b1: "evtag_marshal m b tag d (word_of_nat (length d)) = Some b1" "ready m b1" "content b1 = item tag d"
    using assms(2) by auto
  have l: "length (content b1) + length s \<le> evb_cap"
    using b1(3) assms(5) length_evtag_tag_bytes [of tag] length_enc_int32 [of "word_of_nat (length d)"]
    by (simp add: item_def)
  obtain b2 where b2: "evbuffer_add m b1 s = Some (b2, 0)" "sound b2" "content b2 = item tag d @ s"
    using evb.add_law [OF readyD(1,2) [OF b1(2)] l] b1(3) by auto
  then have "ready m b2" using b1(2,3) l by (simp add: ready_def)
  from evtag_unmarshal_ok [OF this b2(3) assms(4,3,6)] b1(1) b2(1) show ?thesis by blast
qed

theorem marshal_unmarshal_roundtrip_witness:
  "\<exists>b1 b2 src' dst'. evtag_marshal zero_malloc evbuffer_new 300 [1, 2, 3] (word_of_nat 3) = Some b1 \<and>
    evbuffer_add zero_malloc b1 [7] = Some (b2, 0) \<and>
    evtag_unmarshal zero_malloc b2 sample2 = Some (src', dst', Some 300, 3) \<and>
    content src' = [7] \<and> content dst' = [8, 9, 1, 2, 3]"
proof -
  have "ready zero_malloc evbuffer_new" "content evbuffer_new = []"
    by (simp_all add: ready_def sound_def evb_ok_def tight_def plain_def sample_defs)
  from marshal_unmarshal_roundtrip [OF this ready_sample(2), of "[1, 2, 3]" "[7]" 300] show ?thesis
    by (simp add: cap_large)
qed

text \<open>
  Property C30: a 64-bit integer marshalled with a tag comes back from the unmarshalling function
  for that tag, with the length of its encoding as the result.
\<close>
theorem marshal_int64_roundtrip:
  assumes "ready m b" "content b = []" "20 \<le> evb_cap"
  shows "\<exists>b1 b2 k. evtag_marshal_int64 m b tag n = Some b1 \<and>
    evtag_unmarshal_int64 m b1 tag = Some (b2, Some n, int k) \<and> 1 \<le> k \<and> k \<le> 9 \<and> content b2 = []"
proof -
  obtain b1 where b1: "evtag_marshal_int64 m b tag n = Some b1" "ready m b1" "content b1 = item tag (enc_int n) @ []"
    using evtag_marshal_int64_ok [OF assms(1)] assms(2,3) by auto
  have "decode_int64_internal = DECODE_INT_INTERNAL 16"
    by (intro ext) (simp add: decode_int64_internal_def)
  from unmarshal_int_ok [OF this _ _ _ b1(2,3)] obtain b2 where
    "evtag_unmarshal_int64 m b1 tag = Some (b2, Some n, int (length (enc_int n)))" "content b2 = []"
    by (auto simp: evtag_unmarshal_int64_def)
  moreover have "1 \<le> length (enc_int n)" using enc_int_ENCODE(2) [of n] by simp
  ultimately show ?thesis using b1(1) length_enc_int64 [of n] by blast
qed

theorem marshal_int64_roundtrip_witness:
  "\<exists>b1 b2 k. evtag_marshal_int64 zero_malloc evbuffer_new 5 0x123456789ABCDEF0 = Some b1 \<and>
    evtag_unmarshal_int64 zero_malloc b1 5 = Some (b2, Some 0x123456789ABCDEF0, int k) \<and> 1 \<le> k \<and> k \<le> 9 \<and>
    content b2 = []"
proof -
  have "ready zero_malloc evbuffer_new" "content evbuffer_new = []"
    by (simp_all add: ready_def sound_def evb_ok_def tight_def plain_def sample_defs)
  from marshal_int64_roundtrip [OF this] show ?thesis by (simp add: cap_large)
qed

text \<open>
  Property C31: a tag of which the first five bytes all have the continuation bit, with more bytes
  behind them, makes the decoder shift a 32-bit value by 35, which C does not define.
\<close>
theorem overlong_tag_undefined:
  assumes "ready m b" "5 < length (content b)" "\<forall>x \<in> set (take 5 (content b)). x AND 0x80 \<noteq> 0"
  shows "decode_tag_internal m b dodrain = None"
  using decode_tag_ok [OF assms(1), of dodrain] dec_tag_overlong [OF assms(3,2)] by simp

definition overlong :: evbuffer where
  "overlong = evbuffer_new\<lparr>chains := [chain_of 100 8 [0x80, 0x80, 0x80, 0x80, 0x80, 1]],
     last_with_datap := 0, total_len := 6\<rparr>"

theorem overlong_tag_undefined_witness: "decode_tag_internal zero_malloc overlong True = None"
proof -
  have c: "content overlong = [0x80, 0x80, 0x80, 0x80, 0x80, 1]" by (simp add: overlong_def sample_defs)
  have r: "ready zero_malloc overlong"
    unfolding ready_def c using cap_large [of 6]
    by (simp add: sound_def evb_ok_def tight_def plain_def overlong_def sample_defs)
  show ?thesis
    by (rule overlong_tag_undefined [OF r]) (simp_all add: c)
qed

text \<open>
  On the wire the nibbles of an integer follow least first, and so do the groups of a
  tag: 0x12 is the bytes 12 10 and the tag 0x166 the bytes E6 02, where the description of the
  format in the source has them in big-endian order.
\<close>
lemma wire_order_little_endian:
  "encode_int_internal 0x12 = Some (2, [0x12, 0x10, 0, 0, 0]) \<and> encode_tag_loop 0 0x166 = Some [0xE6, 0x02]"
  by (simp add: encode_int_internal_def ENCODE_INT_INTERNAL_def encode_loop.simps encode_tag_loop.simps)
    (simp add: numeral_eq_Suc)

end
