(* ===== verification/EvStruct.thy ===== *)
theory EvStruct
  imports Prelude
begin

text \<open>
  The data of libevent's event loop: \<open>struct timeval\<close> with the comparison and arithmetic macros
  of \<open>include/event2/util.h\<close>, and \<open>struct event\<close> with its flags
  (\<open>include/event2/event_struct.h\<close>, \<open>event.h\<close>). An event is named by a number, its address;
  the store of events is a function from addresses. A \<open>timeval\<close> is a linear order, the one
  \<open>evutil_timercmp\<close> computes. The fields of the union \<open>ev_timeout_pos\<close> and of the union
  \<open>_ev\<close> are separate fields here: which one is in use is what \<open>ev_timeout\<close> and
  \<open>ev_events\<close> say, and the code asks these first.
\<close>

section \<open>Time values\<close>

datatype timeval = Timeval (tv_sec: int) (tv_usec: int)

definition timercmp :: "(int \<Rightarrow> int \<Rightarrow> bool) \<Rightarrow> timeval \<Rightarrow> timeval \<Rightarrow> bool" where
  "timercmp cmp a b =
     (if tv_sec a = tv_sec b then cmp (tv_usec a) (tv_usec b) else cmp (tv_sec a) (tv_sec b))"

definition timeradd :: "timeval \<Rightarrow> timeval \<Rightarrow> timeval" where
  "timeradd a b =
     (let s = tv_sec a + tv_sec b; u = tv_usec a + tv_usec b
      in if u \<ge> 1000000 then Timeval (s + 1) (u - 1000000) else Timeval s u)"

definition timersub :: "timeval \<Rightarrow> timeval \<Rightarrow> timeval" where
  "timersub a b =
     (let s = tv_sec a - tv_sec b; u = tv_usec a - tv_usec b
      in if u < 0 then Timeval (s - 1) (u + 1000000) else Timeval s u)"

definition timerclear :: timeval where
  "timerclear = Timeval 0 0"

definition timerisset :: "timeval \<Rightarrow> bool" where
  "timerisset a \<longleftrightarrow> tv_sec a \<noteq> 0 \<or> tv_usec a \<noteq> 0"

instantiation timeval :: linorder
begin

definition less_eq_timeval :: "timeval \<Rightarrow> timeval \<Rightarrow> bool" where
  "a \<le> b \<longleftrightarrow> tv_sec a < tv_sec b \<or> tv_sec a = tv_sec b \<and> tv_usec a \<le> tv_usec b"

definition less_timeval :: "timeval \<Rightarrow> timeval \<Rightarrow> bool" where
  "a < b \<longleftrightarrow> tv_sec a < tv_sec b \<or> tv_sec a = tv_sec b \<and> tv_usec a < tv_usec b"

instance
  by standard (auto simp: less_eq_timeval_def less_timeval_def timeval.expand)

end

named_theorems timer_simps "the comparison macro as the order of timevals"

lemma timercmp_greater [timer_simps]: "timercmp (>) a b \<longleftrightarrow> b < a"
  by (auto simp: timercmp_def less_timeval_def)

lemma timercmp_less [timer_simps]: "timercmp (<) a b \<longleftrightarrow> a < b"
  by (auto simp: timercmp_def less_timeval_def)

lemma timercmp_le [timer_simps]: "timercmp (\<le>) a b \<longleftrightarrow> a \<le> b"
  by (auto simp: timercmp_def less_eq_timeval_def)

lemma timercmp_ge [timer_simps]: "timercmp (\<ge>) a b \<longleftrightarrow> b \<le> a"
  by (auto simp: timercmp_def less_eq_timeval_def)

text \<open>A normal time value has its microseconds below a million.\<close>

definition normal_tv :: "timeval \<Rightarrow> bool" where
  "normal_tv t \<longleftrightarrow> 0 \<le> tv_usec t \<and> tv_usec t < 1000000"

lemma normal_timeradd: "normal_tv a \<Longrightarrow> normal_tv b \<Longrightarrow> normal_tv (timeradd a b)"
  by (auto simp: normal_tv_def timeradd_def Let_def)

lemma normal_timersub: "normal_tv a \<Longrightarrow> normal_tv b \<Longrightarrow> normal_tv (timersub a b)"
  by (auto simp: normal_tv_def timersub_def Let_def)

text \<open>The number of microseconds a normal time value stands for orders and adds like it.\<close>

definition usecs :: "timeval \<Rightarrow> int" where
  "usecs t = tv_sec t * 1000000 + tv_usec t"

lemma usecs_timeradd [timer_simps]: "usecs (timeradd a b) = usecs a + usecs b"
  by (simp add: usecs_def timeradd_def Let_def)

lemma usecs_timersub [timer_simps]: "usecs (timersub a b) = usecs a - usecs b"
  by (simp add: usecs_def timersub_def Let_def)

lemma usecs_less: "normal_tv a \<Longrightarrow> normal_tv b \<Longrightarrow> usecs a < usecs b \<longleftrightarrow> a < b"
  by (rule linorder_cases [of "tv_sec a" "tv_sec b"]) (simp_all add: usecs_def normal_tv_def less_timeval_def)

lemma usecs_le: "normal_tv a \<Longrightarrow> normal_tv b \<Longrightarrow> usecs a \<le> usecs b \<longleftrightarrow> a \<le> b"
  by (rule linorder_cases [of "tv_sec a" "tv_sec b"]) (simp_all add: usecs_def normal_tv_def less_eq_timeval_def)

section \<open>Events\<close>

abbreviation EVLIST_TIMEOUT :: u16 where "EVLIST_TIMEOUT \<equiv> 0x01"
abbreviation EVLIST_INSERTED :: u16 where "EVLIST_INSERTED \<equiv> 0x02"
abbreviation EVLIST_SIGNAL :: u16 where "EVLIST_SIGNAL \<equiv> 0x04"
abbreviation EVLIST_ACTIVE :: u16 where "EVLIST_ACTIVE \<equiv> 0x08"
abbreviation EVLIST_INTERNAL :: u16 where "EVLIST_INTERNAL \<equiv> 0x10"
abbreviation EVLIST_INIT :: u16 where "EVLIST_INIT \<equiv> 0x80"
abbreviation EVLIST_ALL :: u16 where "EVLIST_ALL \<equiv> 0xf09f"

abbreviation EV_TIMEOUT :: u16 where "EV_TIMEOUT \<equiv> 0x01"
abbreviation EV_READ :: u16 where "EV_READ \<equiv> 0x02"
abbreviation EV_WRITE :: u16 where "EV_WRITE \<equiv> 0x04"
abbreviation EV_SIGNAL :: u16 where "EV_SIGNAL \<equiv> 0x08"
abbreviation EV_PERSIST :: u16 where "EV_PERSIST \<equiv> 0x10"
abbreviation EV_ET :: u16 where "EV_ET \<equiv> 0x20"

datatype closure = EV_CLOSURE_NONE | EV_CLOSURE_SIGNAL | EV_CLOSURE_PERSIST

text \<open>
  A callback is one of the library's own or a user function, known by a number.
  \<open>ev_base\<close> says whether the event belongs to the base under study (the pointer is not null);
  \<open>ev_pncalls\<close>, the pointer to the local call counter of a running signal closure, is the number
  of that closure.
\<close>

datatype callback = Common_timeout_callback nat | Event_loopexit_cb | Event_once_cb callback | User nat

record event =
  min_heap_idx :: int
  ev_fd :: int
  ev_base :: bool
  ev_io_timeout :: timeval
  ev_ncalls :: int
  ev_pncalls :: "nat option"
  ev_events :: u16
  ev_res :: u16
  ev_flags :: u16
  ev_pri :: nat
  ev_closure :: closure
  ev_timeout :: timeval
  ev_callback :: callback

type_synonym events = "nat \<Rightarrow> event"

text \<open>\<open>x & f\<close> used as a condition.\<close>

abbreviation has :: "u16 \<Rightarrow> u16 \<Rightarrow> bool" where
  "has x f \<equiv> x AND f \<noteq> 0"

end
