(* ===== verification/MinHeap.thy ===== *)
theory MinHeap
  imports EvStruct "HOL-Library.Monad_Syntax"
begin

text \<open>
  The binary heap of timeouts, \<open>minheap-internal.h\<close>: an array \<open>p\<close> of \<open>a\<close> pointers to events of
  which the first \<open>n\<close> are the heap, each event remembering its index in \<open>min_heap_idx\<close>.
  A cell that was allocated and never written holds \<open>None\<close>; reading it, or reading or writing
  past the array, is \<open>None\<close>. The counters are \<open>unsigned\<close>: the places where they can wrap say so
  with \<open>mod 2 ^ 32\<close>. Whether \<open>mm_realloc\<close> succeeds for a number of bytes is the parameter
  \<open>alloc\<close>.
\<close>

record min_heap =
  hp :: "nat option list"
  hn :: nat
  ha :: nat

definition min_heap_elem_greater :: "events \<Rightarrow> nat \<Rightarrow> nat \<Rightarrow> bool" where
  "min_heap_elem_greater evs a b = timercmp (>) (ev_timeout (evs a)) (ev_timeout (evs b))"

definition min_heap_ctor :: min_heap where
  "min_heap_ctor = \<lparr>hp = [], hn = 0, ha = 0\<rparr>"

definition min_heap_elem_init :: "events \<Rightarrow> nat \<Rightarrow> events" where
  "min_heap_elem_init evs e = evs(e := (evs e)\<lparr>min_heap_idx := -1\<rparr>)"

definition min_heap_empty :: "min_heap \<Rightarrow> bool" where
  "min_heap_empty s \<longleftrightarrow> hn s = 0"

definition min_heap_size :: "min_heap \<Rightarrow> nat" where
  "min_heap_size s = hn s"

text \<open>\<open>s->p[i]\<close>.\<close>

definition p_at :: "min_heap \<Rightarrow> nat \<Rightarrow> nat option" where
  "p_at s i = (if i < length (hp s) then hp s ! i else None)"

text \<open>The top, \<open>Some None\<close> for the null pointer of an empty heap.\<close>

definition min_heap_top :: "min_heap \<Rightarrow> nat option option" where
  "min_heap_top s = (if hn s \<noteq> 0 then do { e \<leftarrow> p_at s 0; Some (Some e) } else Some None)"

definition min_heap_elt_is_top :: "event \<Rightarrow> bool" where
  "min_heap_elt_is_top e \<longleftrightarrow> min_heap_idx e = 0"

text \<open>An \<open>unsigned\<close> stored in an \<open>int\<close>, and an \<open>int\<close> passed as \<open>unsigned\<close>.\<close>

definition idx_of :: "nat \<Rightarrow> int" where
  "idx_of i = (if i < 2 ^ 31 then int i else int i - 2 ^ 32)"

definition hole_of :: "int \<Rightarrow> nat" where
  "hole_of i = nat (i mod 2 ^ 32)"

text \<open>\<open>(s->p[i] = e)->ev_timeout_pos.min_heap_idx = i\<close>.\<close>

definition p_put :: "min_heap \<Rightarrow> events \<Rightarrow> nat \<Rightarrow> nat \<Rightarrow> (min_heap \<times> events) option" where
  "p_put s evs i e =
     (if i < length (hp s)
      then Some (s\<lparr>hp := (hp s)[i := Some e]\<rparr>, evs(e := (evs e)\<lparr>min_heap_idx := idx_of i\<rparr>))
      else None)"

text \<open>\<open>min_heap_reserve\<close>: 0 or -1. A grown array keeps its cells and gains unwritten ones.\<close>

definition min_heap_reserve :: "(nat \<Rightarrow> bool) \<Rightarrow> min_heap \<Rightarrow> nat \<Rightarrow> min_heap \<times> int" where
  "min_heap_reserve alloc s n =
     (if ha s < n then
        let a = (if ha s \<noteq> 0 then (ha s * 2) mod 2 ^ 32 else 8);
            a = (if a < n then n else a)
        in if \<not> alloc (a * 8) then (s, -1)
           else (s\<lparr>hp := take a (hp s) @ replicate (a - length (hp s)) None, ha := a\<rparr>, 0)
      else (s, 0))"

definition parent_of :: "nat \<Rightarrow> nat" where
  "parent_of hole = ((hole + 2 ^ 32 - 1) mod 2 ^ 32) div 2"

lemma dec32: "0 < i \<Longrightarrow> i < 2 ^ 32 \<Longrightarrow> (i + 2 ^ 32 - 1) mod 2 ^ 32 = (i - 1 :: nat)"
proof -
  assume i: "0 < i" "i < 2 ^ 32"
  have e: "i + 2 ^ 32 - 1 = (i - 1) + 2 ^ 32" using i by simp
  show ?thesis unfolding e mod_add_self2 using i by simp
qed

lemma parent_of_less: "0 < i \<Longrightarrow> parent_of i < i"
proof (cases "i < 2 ^ 32")
  case True
  assume "0 < i"
  then show ?thesis unfolding parent_of_def using dec32 [of i] True by simp
next
  case False
  have "(i + 2 ^ 32 - 1) mod 2 ^ 32 < (2 ^ 32 :: nat)" by simp
  then show ?thesis using False unfolding parent_of_def by linarith
qed

function min_heap_shift_up ::
  "min_heap \<Rightarrow> events \<Rightarrow> nat \<Rightarrow> nat \<Rightarrow> (min_heap \<times> events) option" where
  "min_heap_shift_up s evs hole e =
     (if hole \<noteq> 0 then do {
        q \<leftarrow> p_at s (parent_of hole);
        if min_heap_elem_greater evs q e then do {
          (s', evs') \<leftarrow> p_put s evs hole q;
          min_heap_shift_up s' evs' (parent_of hole) e
        } else p_put s evs hole e
      } else p_put s evs hole e)"
  by pat_completeness auto

termination
  by (relation "measure (\<lambda>(s, evs, hole, e). hole)") (auto simp: parent_of_less)

declare min_heap_shift_up.simps [simp del]

definition down_child :: "nat \<Rightarrow> nat" where
  "down_child hole = (2 * (hole + 1)) mod 2 ^ 32"

text \<open>The choice of the smaller child; \<open>mc\<close> is the index of the right one.\<close>

definition pick_child :: "min_heap \<Rightarrow> events \<Rightarrow> nat \<Rightarrow> nat option" where
  "pick_child s evs mc =
     (if mc = hn s then Some ((mc + 2 ^ 32 - 1) mod 2 ^ 32)
      else do {
        r \<leftarrow> p_at s mc;
        l \<leftarrow> p_at s ((mc + 2 ^ 32 - 1) mod 2 ^ 32);
        Some (if min_heap_elem_greater evs r l then (mc + 2 ^ 32 - 1) mod 2 ^ 32 else mc)
      })"

partial_function (option) min_heap_shift_down ::
  "min_heap \<Rightarrow> events \<Rightarrow> nat \<Rightarrow> nat \<Rightarrow> (min_heap \<times> events) option" where
  "min_heap_shift_down s evs hole e =
     (if down_child hole \<le> hn s then do {
        c \<leftarrow> pick_child s evs (down_child hole);
        q \<leftarrow> p_at s c;
        if min_heap_elem_greater evs e q then do {
          (s', evs') \<leftarrow> p_put s evs hole q;
          min_heap_shift_down s' evs' c e
        } else p_put s evs hole e
      } else p_put s evs hole e)"

definition min_heap_push ::
  "(nat \<Rightarrow> bool) \<Rightarrow> min_heap \<Rightarrow> events \<Rightarrow> nat \<Rightarrow> (min_heap \<times> events \<times> int) option" where
  "min_heap_push alloc s evs e =
     (let (s1, r) = min_heap_reserve alloc s ((hn s + 1) mod 2 ^ 32)
      in if r \<noteq> 0 then Some (s1, evs, -1)
         else do {
           (s2, evs2) \<leftarrow> min_heap_shift_up (s1\<lparr>hn := (hn s1 + 1) mod 2 ^ 32\<rparr>) evs (hn s1) e;
           Some (s2, evs2, 0)
         })"

definition min_heap_pop :: "min_heap \<Rightarrow> events \<Rightarrow> (min_heap \<times> events \<times> nat option) option" where
  "min_heap_pop s evs =
     (if hn s \<noteq> 0 then do {
        e \<leftarrow> p_at s 0;
        last \<leftarrow> p_at s (hn s - 1);
        (s', evs') \<leftarrow> min_heap_shift_down (s\<lparr>hn := hn s - 1\<rparr>) evs 0 last;
        Some (s', min_heap_elem_init evs' e, Some e)
      } else Some (s, evs, None))"

definition min_heap_erase :: "min_heap \<Rightarrow> events \<Rightarrow> nat \<Rightarrow> (min_heap \<times> events \<times> int) option" where
  "min_heap_erase s evs e =
     (if min_heap_idx (evs e) \<noteq> -1 then do {
        let idx = min_heap_idx (evs e);
        let s1 = s\<lparr>hn := (hn s + 2 ^ 32 - 1) mod 2 ^ 32\<rparr>;
        last \<leftarrow> p_at s1 (hn s1);
        up \<leftarrow> (if idx > 0 then do {
                 q \<leftarrow> p_at s1 (nat ((idx - 1) div 2));
                 Some (min_heap_elem_greater evs q last)
               } else Some False);
        (s', evs') \<leftarrow> (if up then min_heap_shift_up s1 evs (hole_of idx) last
                       else min_heap_shift_down s1 evs (hole_of idx) last);
        Some (s', min_heap_elem_init evs' e, 0)
      } else Some (s, evs, -1))"

end
