(* ===== verification/EventBase.thy ===== *)
theory EventBase
  imports MinHeap
begin

text \<open>
  \<open>struct event_base\<close> (\<open>event-internal.h\<close>) and the maps from file descriptors and signals to
  events (\<open>evmap.c\<close>). A tail queue is a list of addresses; removing an event that is not in the
  queue is not defined (\<open>None\<close>), as is a failed \<open>EVUTIL_ASSERT\<close>, an exit by \<open>event_errx\<close> and
  an access outside an array. One thread runs the base, so there is never another thread to
  notify. What is not in the sources is a parameter, the record \<open>env\<close>: the back ends' \<open>add\<close>
  and \<open>del\<close> (on a state of their own, \<open>evbase\<close>), whether an allocation of a number of bytes
  succeeds, and the clock (\<open>None\<close> when it fails). \<open>sig_frame\<close> is the stack frame of the signal
  closure that is running, its number and its local \<open>ncalls\<close>, and \<open>sig_frames\<close> how many have been
  entered: a pointer into a frame that was left is told from one into the running frame.
\<close>

record 'b eventop =
  eo_add :: "'b \<Rightarrow> int \<Rightarrow> u16 \<Rightarrow> u16 \<Rightarrow> 'b \<times> int"
  eo_del :: "'b \<Rightarrow> int \<Rightarrow> u16 \<Rightarrow> u16 \<Rightarrow> 'b \<times> int"

record 'b env =
  evsel :: "'b eventop"
  evsigsel :: "'b eventop"
  alloc :: "nat \<Rightarrow> bool"
  clk :: "timeval option"
  use_monotonic :: bool
  debug_mode :: bool

record evmap_io =
  io_events :: "nat list"
  nread :: nat
  nwrite :: nat

record common_timeout_list =
  ctl_events :: "nat list"
  duration :: timeval
  timeout_event :: nat

record 'b event_base =
  evs :: events
  evbase :: 'b
  event_count :: int
  event_count_active :: int
  virtual_event_count :: int
  event_gotterm :: bool
  event_break :: bool
  event_continue :: bool
  event_running_priority :: int
  running_loop :: bool
  activequeues :: "nat list list"
  common_timeout_queues :: "common_timeout_list list"
  n_common_timeouts_allocated :: int
  deferred_cb_list :: "nat list"
  deferred_queued :: "nat \<Rightarrow> bool"
  deferred_active_count :: int
  io :: "evmap_io option list"
  sigmap :: "nat list option list"
  eventqueue :: "nat list"
  event_tv :: timeval
  timeheap :: min_heap
  tv_cache :: timeval
  sig_frame :: "(nat \<times> int) option"
  sig_frames :: nat

definition nactivequeues :: "'b event_base \<Rightarrow> nat" where
  "nactivequeues base = length (activequeues base)"

definition N_ACTIVE_CALLBACKS :: "'b event_base \<Rightarrow> int" where
  "N_ACTIVE_CALLBACKS base = event_count_active base + deferred_active_count base"

text \<open>Writing a field of one event; removing from a tail queue; an assertion.\<close>

definition upd_event :: "'b event_base \<Rightarrow> nat \<Rightarrow> (event \<Rightarrow> event) \<Rightarrow> 'b event_base" where
  "upd_event base ev f = base\<lparr>evs := (evs base)(ev := f (evs base ev))\<rparr>"

definition tailq_remove :: "nat list \<Rightarrow> nat \<Rightarrow> nat list option" where
  "tailq_remove q ev = (if ev \<in> set q then Some (remove1 ev q) else None)"

definition evutil_assert :: "bool \<Rightarrow> unit option" where
  "evutil_assert b = (if b then Some () else None)"

section \<open>The maps of descriptors and signals\<close>

text \<open>
  The number of entries: doubled from 32 until the slot fits. Both the doubling and the number
  of bytes asked for are computed in \<open>int\<close>; a result outside of it is undefined.
\<close>

function grow_nentries :: "int \<Rightarrow> int \<Rightarrow> int option" where
  "grow_nentries slot n =
     (if n \<le> slot then (if 0 < n \<and> n * 2 < 2 ^ 31 then grow_nentries slot (n * 2) else None) else Some n)"
  by pat_completeness auto

termination
  by (relation "measure (\<lambda>(slot, n). nat (2 ^ 31 - n))") auto

definition evmap_make_space :: "(nat \<Rightarrow> bool) \<Rightarrow> 'a option list \<Rightarrow> int \<Rightarrow> ('a option list \<times> int) option" where
  "evmap_make_space al m slot =
     (if int (length m) \<le> slot then do {
        n \<leftarrow> grow_nentries slot (if m \<noteq> [] then int (length m) else 32);
        _ \<leftarrow> evutil_assert (n * 8 < 2 ^ 31);
        if \<not> al (nat n * 8) then Some (m, -1)
        else Some (m @ replicate (nat n - length m) None, 0)
      } else Some (m, 0))"

definition evmap_io_init :: evmap_io where
  "evmap_io_init = \<lparr>io_events = [], nread = 0, nwrite = 0\<rparr>"

text \<open>
  \<open>GET_IO_SLOT_AND_CTOR\<close> and \<open>GET_SIGNAL_SLOT_AND_CTOR\<close>: the entry of a slot, made when there
  is none; \<open>Inl m\<close> is the return of -1 when its allocation fails. \<open>sz\<close> is the size of the entry
  (\<open>fdinfo_len\<close>, what the back end adds to it, is not counted).
\<close>

definition get_slot_and_ctor ::
  "(nat \<Rightarrow> bool) \<Rightarrow> nat \<Rightarrow> 'a \<Rightarrow> 'a option list \<Rightarrow> int \<Rightarrow> ('a option list + 'a option list \<times> 'a) option" where
  "get_slot_and_ctor al sz ctor m slot =
     (if 0 \<le> slot \<and> slot < int (length m) then
        (case m ! nat slot of
           Some c \<Rightarrow> Some (Inr (m, c))
         | None \<Rightarrow> if al sz then Some (Inr (m[nat slot := Some ctor], ctor)) else Some (Inl m))
      else None)"

definition get_slot :: "'a option list \<Rightarrow> int \<Rightarrow> 'a option option" where
  "get_slot m slot = (if 0 \<le> slot \<and> slot < int (length m) then Some (m ! nat slot) else None)"

abbreviation rw_flags :: "bool \<Rightarrow> bool \<Rightarrow> u16" where
  "rw_flags r w \<equiv> (if r then EV_READ else 0) OR (if w then EV_WRITE else 0)"

definition io_entry_size :: nat where "io_entry_size = 24"
definition signal_entry_size :: nat where "signal_entry_size = 16"

text \<open>
  \<open>evmap_io_add\<close>: -1 on error, 1 when the back end was told of something new, else 0. The part
  from where the entry \<open>ctx\<close> of the descriptor is known is \<open>io_register\<close>.
\<close>

definition io_register :: "'b env \<Rightarrow> 'b event_base \<Rightarrow> nat \<Rightarrow> nat \<Rightarrow> evmap_io \<Rightarrow> 'b event_base \<times> int" where
  "io_register env base ev i ctx =
     (let events = ev_events (evs base ev);
          old = rw_flags (nread ctx \<noteq> 0) (nwrite ctx \<noteq> 0);
          nr = nread ctx + (if has events EV_READ then 1 else 0);
          nw = nwrite ctx + (if has events EV_WRITE then 1 else 0);
          res = rw_flags (has events EV_READ \<and> nr = 1) (has events EV_WRITE \<and> nw = 1)
      in if nr > 0xffff \<or> nw > 0xffff then (base, -1)
         else if debug_mode env \<and> io_events ctx \<noteq> [] \<and>
                 ev_events (evs base (hd (io_events ctx))) AND EV_ET \<noteq> events AND EV_ET
         then (base, -1)
         else
           let (s, r) = (if res \<noteq> 0
                         then eo_add (evsel env) (evbase base) (ev_fd (evs base ev)) old ((events AND EV_ET) OR res)
                         else (evbase base, 0));
               base1 = base\<lparr>evbase := s\<rparr>
           in if res \<noteq> 0 \<and> r = -1 then (base1, -1)
              else (base1\<lparr>io := (io base)[i := Some \<lparr>io_events = io_events ctx @ [ev],
                                                      nread = nr, nwrite = nw\<rparr>]\<rparr>,
                    if res \<noteq> 0 then 1 else 0))"

definition evmap_io_add :: "'b env \<Rightarrow> 'b event_base \<Rightarrow> int \<Rightarrow> nat \<Rightarrow> ('b event_base \<times> int) option" where
  "evmap_io_add env base fd ev = do {
     _ \<leftarrow> evutil_assert (fd = ev_fd (evs base ev));
     if fd < 0 then Some (base, 0) else do {
       (m, r) \<leftarrow> (if fd \<ge> int (length (io base)) then evmap_make_space (alloc env) (io base) fd
                 else Some (io base, 0));
       if r = -1 then Some (base, -1) else do {
         s \<leftarrow> get_slot_and_ctor (alloc env) io_entry_size evmap_io_init m fd;
         case s of
           Inl m' \<Rightarrow> Some (base\<lparr>io := m'\<rparr>, -1)
         | Inr (m', ctx) \<Rightarrow> Some (io_register env (base\<lparr>io := m'\<rparr>) ev (nat fd) ctx)
       }
     }
   }"

definition evmap_io_del :: "'b env \<Rightarrow> 'b event_base \<Rightarrow> int \<Rightarrow> nat \<Rightarrow> ('b event_base \<times> int) option" where
  "evmap_io_del env base fd ev =
     (if fd < 0 then Some (base, 0) else do {
        _ \<leftarrow> evutil_assert (fd = ev_fd (evs base ev));
        if fd \<ge> int (length (io base)) then Some (base, -1) else do {
          s \<leftarrow> get_slot (io base) fd;
          ctx \<leftarrow> s;
          let events = ev_events (evs base ev);
          let old = rw_flags (nread ctx \<noteq> 0) (nwrite ctx \<noteq> 0);
          _ \<leftarrow> evutil_assert (has events EV_READ \<longrightarrow> nread ctx > 0);
          _ \<leftarrow> evutil_assert (has events EV_WRITE \<longrightarrow> nwrite ctx > 0);
          let nr = nread ctx - (if has events EV_READ then 1 else 0);
          let nw = nwrite ctx - (if has events EV_WRITE then 1 else 0);
          let res = rw_flags (has events EV_READ \<and> nr = 0) (has events EV_WRITE \<and> nw = 0);
          let (b, r) = (if res \<noteq> 0
                        then eo_del (evsel env) (evbase base) (ev_fd (evs base ev)) old res
                        else (evbase base, 0));
          let base1 = base\<lparr>evbase := b\<rparr>;
          if res \<noteq> 0 \<and> r = -1 then Some (base1, -1)
          else do {
            q \<leftarrow> tailq_remove (io_events ctx) ev;
            Some (base1\<lparr>io := (io base)[nat fd := Some \<lparr>io_events = q, nread = nr, nwrite = nw\<rparr>]\<rparr>,
                  if res \<noteq> 0 then 1 else 0)
          }
        }
      })"

definition evmap_signal_add :: "'b env \<Rightarrow> 'b event_base \<Rightarrow> int \<Rightarrow> nat \<Rightarrow> ('b event_base \<times> int) option" where
  "evmap_signal_add env base sig ev = do {
     (m, r) \<leftarrow> (if sig \<ge> int (length (sigmap base)) then evmap_make_space (alloc env) (sigmap base) sig
               else Some (sigmap base, 0));
     if r = -1 then Some (base, -1) else do {
       s \<leftarrow> get_slot_and_ctor (alloc env) signal_entry_size [] m sig;
       case s of Inl m' \<Rightarrow> Some (base\<lparr>sigmap := m'\<rparr>, -1)
       | Inr (m', q) \<Rightarrow>
           let (b, r) = (if q = [] then eo_add (evsigsel env) (evbase base) (ev_fd (evs base ev)) 0 EV_SIGNAL
                         else (evbase base, 0));
               base1 = base\<lparr>evbase := b, sigmap := m'\<rparr>
           in if r = -1 \<and> q = [] then Some (base1, -1)
              else Some (base1\<lparr>sigmap := m'[nat sig := Some (q @ [ev])]\<rparr>, 1)
     }
   }"

text \<open>
  \<open>evmap_signal_del\<close>. The last event of the list is looked up as its first and last element
  being the same, which an empty list also satisfies (both are null).
\<close>

definition evmap_signal_del :: "'b env \<Rightarrow> 'b event_base \<Rightarrow> int \<Rightarrow> nat \<Rightarrow> ('b event_base \<times> int) option" where
  "evmap_signal_del env base sig ev =
     (if sig \<ge> int (length (sigmap base)) then Some (base, -1) else do {
        s \<leftarrow> get_slot (sigmap base) sig;
        q \<leftarrow> s;
        let lone = (q = [] \<or> hd q = last q);
        let (b, r) = (if lone then eo_del (evsigsel env) (evbase base) (ev_fd (evs base ev)) 0 EV_SIGNAL
                      else (evbase base, 0));
        let base1 = base\<lparr>evbase := b\<rparr>;
        if lone \<and> r = -1 then Some (base1, -1)
        else do {
          q' \<leftarrow> tailq_remove q ev;
          Some (base1\<lparr>sigmap := (sigmap base)[nat sig := Some q']\<rparr>, 1)
        }
      })"

end
