(* ===== verification/EventCore.thy ===== *)
theory EventCore
  imports EventBase
begin

text \<open>
  \<open>event.c\<close>: the queues of an event base, adding, deleting and activating events, and common
  timeouts. The functions are those that run with the lock held.
\<close>

section \<open>Time\<close>

text \<open>\<open>gettime\<close>: the cached time if there is one, else the clock.\<close>

definition gettime :: "'b env \<Rightarrow> 'b event_base \<Rightarrow> timeval option" where
  "gettime env base = (if tv_sec (tv_cache base) \<noteq> 0 then Some (tv_cache base) else clk env)"

definition clear_time_cache :: "'b event_base \<Rightarrow> 'b event_base" where
  "clear_time_cache base = base\<lparr>tv_cache := Timeval 0 (tv_usec (tv_cache base))\<rparr>"

text \<open>Common timeouts carry a magic number and the index of their queue in the microseconds.\<close>

abbreviation MICROSECONDS_MASK :: int where "MICROSECONDS_MASK \<equiv> 0x000fffff"
abbreviation COMMON_TIMEOUT_IDX_MASK :: int where "COMMON_TIMEOUT_IDX_MASK \<equiv> 0x0ff00000"
abbreviation COMMON_TIMEOUT_MASK :: int where "COMMON_TIMEOUT_MASK \<equiv> 0xf0000000"
abbreviation COMMON_TIMEOUT_MAGIC :: int where "COMMON_TIMEOUT_MAGIC \<equiv> 0x50000000"

definition COMMON_TIMEOUT_IDX :: "timeval \<Rightarrow> nat" where
  "COMMON_TIMEOUT_IDX tv = nat (drop_bit 20 (tv_usec tv AND COMMON_TIMEOUT_IDX_MASK))"

definition is_common_timeout :: "timeval \<Rightarrow> 'b event_base \<Rightarrow> bool" where
  "is_common_timeout tv base \<longleftrightarrow>
     tv_usec tv AND COMMON_TIMEOUT_MASK = COMMON_TIMEOUT_MAGIC \<and>
     COMMON_TIMEOUT_IDX tv < length (common_timeout_queues base)"

definition is_same_common_timeout :: "timeval \<Rightarrow> timeval \<Rightarrow> bool" where
  "is_same_common_timeout a b \<longleftrightarrow>
     tv_usec a AND NOT MICROSECONDS_MASK = tv_usec b AND NOT MICROSECONDS_MASK"

definition mask_usec :: "timeval \<Rightarrow> timeval" where
  "mask_usec tv = Timeval (tv_sec tv) (tv_usec tv AND MICROSECONDS_MASK)"

definition get_common_timeout_list :: "'b event_base \<Rightarrow> timeval \<Rightarrow> common_timeout_list option" where
  "get_common_timeout_list base tv =
     (if COMMON_TIMEOUT_IDX tv < length (common_timeout_queues base)
      then Some (common_timeout_queues base ! COMMON_TIMEOUT_IDX tv) else None)"

definition put_common_timeout_list :: "'b event_base \<Rightarrow> timeval \<Rightarrow> nat list \<Rightarrow> 'b event_base" where
  "put_common_timeout_list base tv q =
     base\<lparr>common_timeout_queues :=
       (common_timeout_queues base)[COMMON_TIMEOUT_IDX tv :=
          (common_timeout_queues base ! COMMON_TIMEOUT_IDX tv)\<lparr>ctl_events := q\<rparr>]\<rparr>"

text \<open>
  \<open>insert_common_timeout_inorder\<close> walks from the end of the list, here over the reversed list;
  the assertion is made at every element it looks at.
\<close>

fun insert_rev :: "events \<Rightarrow> nat list \<Rightarrow> nat \<Rightarrow> nat list option" where
  "insert_rev es [] ev = Some [ev]"
| "insert_rev es (e # q) ev = do {
     _ \<leftarrow> evutil_assert (is_same_common_timeout (ev_timeout (es e)) (ev_timeout (es ev)));
     if timercmp (\<ge>) (ev_timeout (es ev)) (ev_timeout (es e)) then Some (ev # e # q)
     else do { q' \<leftarrow> insert_rev es q ev; Some (e # q') }
   }"

definition insert_common_timeout_inorder :: "events \<Rightarrow> nat list \<Rightarrow> nat \<Rightarrow> nat list option" where
  "insert_common_timeout_inorder es q ev = map_option rev (insert_rev es (rev q) ev)"

section \<open>The queues\<close>

text \<open>An active queue is chosen by the priority; there must be one.\<close>

definition active_queue :: "'b event_base \<Rightarrow> nat \<Rightarrow> nat list option" where
  "active_queue base pri = (if pri < nactivequeues base then Some (activequeues base ! pri) else None)"

definition internal :: "event \<Rightarrow> bool" where
  "internal e \<longleftrightarrow> has (ev_flags e) EVLIST_INTERNAL"

text \<open>
  \<open>event_queue_remove\<close> and \<open>event_queue_insert\<close>: one function per case of the \<open>switch\<close> (the last
  argument is a constant in every call), over the common part.
\<close>

definition queue_leave :: "'b event_base \<Rightarrow> nat \<Rightarrow> u16 \<Rightarrow> 'b event_base option" where
  "queue_leave base ev queue =
     (if \<not> has (ev_flags (evs base ev)) queue then None
      else let base1 = (if internal (evs base ev) then base else base\<lparr>event_count := event_count base - 1\<rparr>)
           in Some (upd_event base1 ev (\<lambda>e. e\<lparr>ev_flags := ev_flags e AND NOT queue\<rparr>)))"

definition event_queue_remove_inserted :: "'b event_base \<Rightarrow> nat \<Rightarrow> 'b event_base option" where
  "event_queue_remove_inserted base ev = do {
     base \<leftarrow> queue_leave base ev EVLIST_INSERTED;
     q \<leftarrow> tailq_remove (eventqueue base) ev;
     Some (base\<lparr>eventqueue := q\<rparr>)
   }"

definition event_queue_remove_active :: "'b event_base \<Rightarrow> nat \<Rightarrow> 'b event_base option" where
  "event_queue_remove_active base ev = do {
     base \<leftarrow> queue_leave base ev EVLIST_ACTIVE;
     let pri = ev_pri (evs base ev);
     q \<leftarrow> active_queue base pri;
     q \<leftarrow> tailq_remove q ev;
     Some (base\<lparr>event_count_active := event_count_active base - 1,
                activequeues := (activequeues base)[pri := q]\<rparr>)
   }"

definition event_queue_remove_timeout :: "'b event_base \<Rightarrow> nat \<Rightarrow> 'b event_base option" where
  "event_queue_remove_timeout base ev = do {
     base \<leftarrow> queue_leave base ev EVLIST_TIMEOUT;
     let tv = ev_timeout (evs base ev);
     if is_common_timeout tv base then do {
       ctl \<leftarrow> get_common_timeout_list base tv;
       q \<leftarrow> tailq_remove (ctl_events ctl) ev;
       Some (put_common_timeout_list base tv q)
     } else do {
       (h, es, _) \<leftarrow> min_heap_erase (timeheap base) (evs base) ev;
       Some (base\<lparr>timeheap := h, evs := es\<rparr>)
     }
   }"

text \<open>\<open>None\<close> of the inner option: the event is active already and the call returns.\<close>

definition queue_join :: "'b event_base \<Rightarrow> nat \<Rightarrow> u16 \<Rightarrow> 'b event_base option option" where
  "queue_join base ev queue =
     (if has (ev_flags (evs base ev)) queue then (if has queue EVLIST_ACTIVE then Some None else None)
      else let base1 = (if internal (evs base ev) then base else base\<lparr>event_count := event_count base + 1\<rparr>)
           in Some (Some (upd_event base1 ev (\<lambda>e. e\<lparr>ev_flags := ev_flags e OR queue\<rparr>))))"

definition event_queue_insert_inserted :: "'b event_base \<Rightarrow> nat \<Rightarrow> 'b event_base option" where
  "event_queue_insert_inserted base ev = do {
     r \<leftarrow> queue_join base ev EVLIST_INSERTED;
     case r of None \<Rightarrow> Some base
     | Some base \<Rightarrow> Some (base\<lparr>eventqueue := eventqueue base @ [ev]\<rparr>)
   }"

definition event_queue_insert_active :: "'b event_base \<Rightarrow> nat \<Rightarrow> 'b event_base option" where
  "event_queue_insert_active base ev = do {
     r \<leftarrow> queue_join base ev EVLIST_ACTIVE;
     case r of None \<Rightarrow> Some base
     | Some base \<Rightarrow> do {
         let pri = ev_pri (evs base ev);
         q \<leftarrow> active_queue base pri;
         Some (base\<lparr>event_count_active := event_count_active base + 1,
                    activequeues := (activequeues base)[pri := q @ [ev]]\<rparr>)
       }
   }"

text \<open>The result of \<open>min_heap_push\<close> is not looked at.\<close>

definition event_queue_insert_timeout :: "'b env \<Rightarrow> 'b event_base \<Rightarrow> nat \<Rightarrow> 'b event_base option" where
  "event_queue_insert_timeout env base ev = do {
     r \<leftarrow> queue_join base ev EVLIST_TIMEOUT;
     case r of None \<Rightarrow> Some base
     | Some base \<Rightarrow>
         let tv = ev_timeout (evs base ev)
         in if is_common_timeout tv base then do {
              ctl \<leftarrow> get_common_timeout_list base tv;
              q \<leftarrow> insert_common_timeout_inorder (evs base) (ctl_events ctl) ev;
              Some (put_common_timeout_list base tv q)
            } else do {
              (h, es, _) \<leftarrow> min_heap_push (alloc env) (timeheap base) (evs base) ev;
              Some (base\<lparr>timeheap := h, evs := es\<rparr>)
            }
   }"

section \<open>Assigning events\<close>

text \<open>
  \<open>event_assign\<close> on a base, and what it answers. The priority is stored in an \<open>ev_uint8_t\<close>.
\<close>

definition event_assign ::
  "'b event_base \<Rightarrow> nat \<Rightarrow> int \<Rightarrow> u16 \<Rightarrow> callback \<Rightarrow> 'b event_base \<times> int" where
  "event_assign base ev fd events cb =
     (let base1 = upd_event base ev (\<lambda>e. e\<lparr>ev_base := True, ev_callback := cb, ev_fd := fd,
                    ev_events := events, ev_res := 0, ev_flags := EVLIST_INIT,
                    ev_ncalls := 0, ev_pncalls := None\<rparr>)
      in if has events EV_SIGNAL \<and> has events (EV_READ OR EV_WRITE) then (base1, -1)
         else (upd_event base1 ev (\<lambda>e. e\<lparr>
                 ev_closure := (if has events EV_SIGNAL then EV_CLOSURE_SIGNAL
                                else if has events EV_PERSIST then EV_CLOSURE_PERSIST else EV_CLOSURE_NONE),
                 ev_io_timeout := (if \<not> has events EV_SIGNAL \<and> has events EV_PERSIST then timerclear
                                   else ev_io_timeout e),
                 min_heap_idx := -1,
                 ev_pri := (nactivequeues base div 2) mod 256\<rparr>), 0))"

definition event_base_set :: "'b event_base \<Rightarrow> nat \<Rightarrow> 'b event_base \<times> int" where
  "event_base_set base ev =
     (if ev_flags (evs base ev) \<noteq> EVLIST_INIT then (base, -1)
      else (upd_event base ev (\<lambda>e. e\<lparr>ev_base := True, ev_pri := (nactivequeues base div 2) mod 256\<rparr>), 0))"

definition event_priority_set :: "'b event_base \<Rightarrow> nat \<Rightarrow> int \<Rightarrow> 'b event_base \<times> int" where
  "event_priority_set base ev pri =
     (if has (ev_flags (evs base ev)) EVLIST_ACTIVE then (base, -1)
      else if pri < 0 \<or> pri \<ge> int (nactivequeues base) then (base, -1)
      else (upd_event base ev (\<lambda>e. e\<lparr>ev_pri := nat pri mod 256\<rparr>), 0))"

definition event_initialized :: "'b event_base \<Rightarrow> nat \<Rightarrow> bool" where
  "event_initialized base ev \<longleftrightarrow> has (ev_flags (evs base ev)) EVLIST_INIT"

text \<open>\<open>event_pending\<close> without the out parameter for the time.\<close>

definition event_pending :: "'b event_base \<Rightarrow> nat \<Rightarrow> u16 \<Rightarrow> u16" where
  "event_pending base ev event =
     (let e = evs base ev;
          flags = (if has (ev_flags e) EVLIST_INSERTED then ev_events e AND (EV_READ OR EV_WRITE OR EV_SIGNAL) else 0)
               OR (if has (ev_flags e) EVLIST_ACTIVE then ev_res e else 0)
               OR (if has (ev_flags e) EVLIST_TIMEOUT then EV_TIMEOUT else 0)
      in if \<not> ev_base e then 0
         else flags AND (event AND (EV_TIMEOUT OR EV_READ OR EV_WRITE OR EV_SIGNAL)))"

definition event_base_priority_init ::
  "'b env \<Rightarrow> 'b event_base \<Rightarrow> int \<Rightarrow> 'b event_base \<times> int" where
  "event_base_priority_init env base npriorities =
     (if N_ACTIVE_CALLBACKS base \<noteq> 0 \<or> npriorities < 1 \<or> npriorities \<ge> 256 then (base, -1)
      else if npriorities = int (nactivequeues base) then (base, 0)
      else if \<not> alloc env (nat npriorities * 16) then (base\<lparr>activequeues := []\<rparr>, -1)
      else (base\<lparr>activequeues := replicate (nat npriorities) []\<rparr>, 0))"

section \<open>Adding, deleting and activating\<close>

text \<open>
  \<open>*ev->ev_pncalls = 0\<close>, when the counter and the pointer of a signal event are set: the running
  closure is told to stop. A pointer into a frame that is gone is \<open>None\<close>.
\<close>

definition abort_calls :: "'b event_base \<Rightarrow> nat \<Rightarrow> 'b event_base option" where
  "abort_calls base ev =
     (if has (ev_events (evs base ev)) EV_SIGNAL \<and> ev_ncalls (evs base ev) \<noteq> 0 then
        (case ev_pncalls (evs base ev) of
           None \<Rightarrow> Some base
         | Some fr \<Rightarrow> (case sig_frame base of
             Some (fr', _) \<Rightarrow> if fr = fr' then Some (base\<lparr>sig_frame := Some (fr, 0)\<rparr>) else None
           | None \<Rightarrow> None))
      else Some base)"

text \<open>
  The part of \<open>event_add_internal\<close> that sets the timeout; it answers with the timeout that the
  queue's own event has to be given when the event is now first in a common timeout queue.
\<close>

definition add_timeout ::
  "'b env \<Rightarrow> 'b event_base \<Rightarrow> nat \<Rightarrow> timeval \<Rightarrow> bool \<Rightarrow> ('b event_base \<times> (nat \<times> timeval) option) option" where
  "add_timeout env base ev tv absolute = do {
     let base = (if ev_closure (evs base ev) = EV_CLOSURE_PERSIST \<and> \<not> absolute
                 then upd_event base ev (\<lambda>e. e\<lparr>ev_io_timeout := tv\<rparr>) else base);
     base \<leftarrow> (if has (ev_flags (evs base ev)) EVLIST_TIMEOUT then event_queue_remove_timeout base ev
             else Some base);
     base \<leftarrow> (if has (ev_flags (evs base ev)) EVLIST_ACTIVE \<and> has (ev_res (evs base ev)) EV_TIMEOUT
             then do { base \<leftarrow> abort_calls base ev; event_queue_remove_active base ev } else Some base);
     now \<leftarrow> gettime env base;
     let common = is_common_timeout tv base;
     let timeout = (if absolute then tv
                    else if common then
                      let t = timeradd now (mask_usec tv)
                      in Timeval (tv_sec t) (tv_usec t OR (tv_usec tv AND NOT MICROSECONDS_MASK))
                    else timeradd now tv);
     let base = upd_event base ev (\<lambda>e. e\<lparr>ev_timeout := timeout\<rparr>);
     base \<leftarrow> event_queue_insert_timeout env base ev;
     if common then do {
       ctl \<leftarrow> get_common_timeout_list base (ev_timeout (evs base ev));
       Some (base, if ctl_events ctl \<noteq> [] \<and> ev = hd (ctl_events ctl)
                   then Some (timeout_event ctl, mask_usec (ev_timeout (evs base ev))) else None)
     } else Some (base, None)
   }"

text \<open>
  All of \<open>event_add_internal\<close> but the call of \<open>common_timeout_schedule\<close>.
\<close>

definition add_front ::
  "'b env \<Rightarrow> 'b event_base \<Rightarrow> nat \<Rightarrow> timeval option \<Rightarrow> bool \<Rightarrow>
     ('b event_base \<times> int \<times> (nat \<times> timeval) option) option" where
  "add_front env base ev tv absolute = do {
     _ \<leftarrow> evutil_assert (ev_flags (evs base ev) AND NOT EVLIST_ALL = 0);
     let (h, r) = (if tv \<noteq> None \<and> \<not> has (ev_flags (evs base ev)) EVLIST_TIMEOUT
                   then min_heap_reserve (alloc env) (timeheap base) ((1 + min_heap_size (timeheap base)) mod 2 ^ 32)
                   else (timeheap base, 0));
     if r = -1 then Some (base, -1, None) else do {
       let base = base\<lparr>timeheap := h\<rparr>;
       let events = ev_events (evs base ev);
       (base, res) \<leftarrow>
         (if has events (EV_READ OR EV_WRITE OR EV_SIGNAL) \<and>
             \<not> has (ev_flags (evs base ev)) (EVLIST_INSERTED OR EVLIST_ACTIVE) then do {
            (base, res) \<leftarrow> (if has events (EV_READ OR EV_WRITE)
                           then evmap_io_add env base (ev_fd (evs base ev)) ev
                           else evmap_signal_add env base (ev_fd (evs base ev)) ev);
            base \<leftarrow> (if res \<noteq> -1 then event_queue_insert_inserted base ev else Some base);
            Some (base, if res = 1 then 0 else res)
          } else Some (base, 0));
       case tv of
         Some t \<Rightarrow>
           if res \<noteq> -1 then do {
             (base, sched) \<leftarrow> add_timeout env base ev t absolute;
             Some (base, res, sched)
           } else Some (base, res, None)
       | None \<Rightarrow> Some (base, res, None)
     }
   }"

partial_function (option) event_add_internal ::
  "'b env \<Rightarrow> 'b event_base \<Rightarrow> nat \<Rightarrow> timeval option \<Rightarrow> bool \<Rightarrow> ('b event_base \<times> int) option" where
  "event_add_internal env base ev tv absolute = do {
     (base, res, sched) \<leftarrow> add_front env base ev tv absolute;
     case sched of
       None \<Rightarrow> Some (base, res)
     | Some (te, t) \<Rightarrow> do {
         (base, _) \<leftarrow> event_add_internal env base te (Some t) True;
         Some (base, res)
       }
   }"

definition event_add :: "'b env \<Rightarrow> 'b event_base \<Rightarrow> nat \<Rightarrow> timeval option \<Rightarrow> ('b event_base \<times> int) option" where
  "event_add env base ev tv =
     (if \<not> ev_base (evs base ev) then Some (base, -1) else event_add_internal env base ev tv False)"

text \<open>\<open>event_del_internal\<close>.\<close>

definition event_del_internal :: "'b env \<Rightarrow> 'b event_base \<Rightarrow> nat \<Rightarrow> ('b event_base \<times> int) option" where
  "event_del_internal env base ev =
     (if \<not> ev_base (evs base ev) then Some (base, -1) else do {
        _ \<leftarrow> evutil_assert (ev_flags (evs base ev) AND NOT EVLIST_ALL = 0);
        base \<leftarrow> abort_calls base ev;
        base \<leftarrow> (if has (ev_flags (evs base ev)) EVLIST_TIMEOUT then event_queue_remove_timeout base ev
                else Some base);
        base \<leftarrow> (if has (ev_flags (evs base ev)) EVLIST_ACTIVE then event_queue_remove_active base ev
                else Some base);
        if has (ev_flags (evs base ev)) EVLIST_INSERTED then do {
          base \<leftarrow> event_queue_remove_inserted base ev;
          (base, res) \<leftarrow> (if has (ev_events (evs base ev)) (EV_READ OR EV_WRITE)
                         then evmap_io_del env base (ev_fd (evs base ev)) ev
                         else evmap_signal_del env base (ev_fd (evs base ev)) ev);
          Some (base, if res = 1 then 0 else res)
        } else Some (base, 0)
      })"

definition event_del :: "'b env \<Rightarrow> 'b event_base \<Rightarrow> nat \<Rightarrow> ('b event_base \<times> int) option" where
  "event_del env base ev =
     (if \<not> ev_base (evs base ev) then Some (base, -1) else event_del_internal env base ev)"

definition event_active_nolock :: "'b event_base \<Rightarrow> nat \<Rightarrow> u16 \<Rightarrow> int \<Rightarrow> 'b event_base option" where
  "event_active_nolock base ev res ncalls =
     (if has (ev_flags (evs base ev)) EVLIST_ACTIVE
      then Some (upd_event base ev (\<lambda>e. e\<lparr>ev_res := ev_res e OR res\<rparr>))
      else do {
        let base = upd_event base ev (\<lambda>e. e\<lparr>ev_res := res\<rparr>);
        let base = (if int (ev_pri (evs base ev)) < event_running_priority base
                    then base\<lparr>event_continue := True\<rparr> else base);
        let base = (if has (ev_events (evs base ev)) EV_SIGNAL
                    then upd_event base ev (\<lambda>e. e\<lparr>ev_ncalls := ncalls, ev_pncalls := None\<rparr>) else base);
        event_queue_insert_active base ev
      })"

definition event_active :: "'b event_base \<Rightarrow> nat \<Rightarrow> u16 \<Rightarrow> int \<Rightarrow> 'b event_base option" where
  "event_active base ev res ncalls =
     (if \<not> ev_base (evs base ev) then Some base else event_active_nolock base ev res ncalls)"

section \<open>What the back end reports\<close>

text \<open>\<open>evmap_io_active\<close> and \<open>evmap_signal_active\<close> walk the events of a descriptor or signal.\<close>

fun io_active_loop :: "'b event_base \<Rightarrow> u16 \<Rightarrow> nat list \<Rightarrow> 'b event_base option" where
  "io_active_loop base events [] = Some base"
| "io_active_loop base events (ev # q) = do {
     base' \<leftarrow> (if has (ev_events (evs base ev)) events
              then event_active_nolock base ev (ev_events (evs base ev) AND events) 1 else Some base);
     io_active_loop base' events q
   }"

definition evmap_io_active :: "'b event_base \<Rightarrow> int \<Rightarrow> u16 \<Rightarrow> 'b event_base option" where
  "evmap_io_active base fd events = do {
     _ \<leftarrow> evutil_assert (fd < int (length (io base)));
     s \<leftarrow> get_slot (io base) fd;
     ctx \<leftarrow> s;
     io_active_loop base events (io_events ctx)
   }"

fun signal_active_loop :: "'b event_base \<Rightarrow> int \<Rightarrow> nat list \<Rightarrow> 'b event_base option" where
  "signal_active_loop base ncalls [] = Some base"
| "signal_active_loop base ncalls (ev # q) = do {
     base' \<leftarrow> event_active_nolock base ev EV_SIGNAL ncalls;
     signal_active_loop base' ncalls q
   }"

definition evmap_signal_active :: "'b event_base \<Rightarrow> int \<Rightarrow> int \<Rightarrow> 'b event_base option" where
  "evmap_signal_active base sig ncalls = do {
     _ \<leftarrow> evutil_assert (sig < int (length (sigmap base)));
     s \<leftarrow> get_slot (sigmap base) sig;
     q \<leftarrow> s;
     signal_active_loop base ncalls q
   }"

end
