(* ===== verification/EventLoop.thy ===== *)
theory EventLoop
  imports EventCore
begin

text \<open>
  \<open>event.c\<close>: timers, the closures that run callbacks, and the loop. User callbacks and the
  back end's \<open>dispatch\<close> are parameters (\<open>app\<close>): functions on the base, since what they do to it
  they do through the operations of \<open>EventCore\<close>. A loop that a callback can keep going for ever
  is a \<open>partial_function\<close>.
\<close>

record 'b app =
  user :: "nat \<Rightarrow> int \<Rightarrow> u16 \<Rightarrow> 'b event_base \<Rightarrow> 'b event_base option"
  deferred :: "nat \<Rightarrow> 'b event_base \<Rightarrow> 'b event_base option"
  dispatch :: "'b event_base \<Rightarrow> timeval option \<Rightarrow> ('b event_base \<times> int) option"

section \<open>Timers\<close>

text \<open>
  \<open>timeout_next\<close>: how long to wait, \<open>None\<close> for as long as it takes. A failing clock leaves the
  caller's time untouched and its answer is not looked at, so it is \<open>None\<close> outside.
\<close>

definition timeout_next :: "'b env \<Rightarrow> 'b event_base \<Rightarrow> timeval option option" where
  "timeout_next env base = do {
     top \<leftarrow> min_heap_top (timeheap base);
     case top of
       None \<Rightarrow> Some None
     | Some ev \<Rightarrow> do {
         now \<leftarrow> gettime env base;
         if timercmp (\<le>) (ev_timeout (evs base ev)) now then Some (Some timerclear)
         else do {
           let tv = timersub (ev_timeout (evs base ev)) now;
           _ \<leftarrow> evutil_assert (tv_sec tv \<ge> 0);
           _ \<leftarrow> evutil_assert (tv_usec tv \<ge> 0);
           Some (Some tv)
         }
       }
   }"

text \<open>\<open>timeout_correct\<close>: when the wall clock ran backwards every timeout moves by the difference.\<close>

definition shift_heap :: "events \<Rightarrow> min_heap \<Rightarrow> timeval \<Rightarrow> events" where
  "shift_heap es h d =
     fold (\<lambda>c es. case c of None \<Rightarrow> es
             | Some e \<Rightarrow> es(e := (es e)\<lparr>ev_timeout := timersub (ev_timeout (es e)) d\<rparr>))
       (take (hn h) (hp h)) es"

definition shift_common :: "timeval \<Rightarrow> nat \<Rightarrow> events \<Rightarrow> nat \<Rightarrow> events" where
  "shift_common d i es e =
     (let t = timersub (mask_usec (ev_timeout (es e))) d
      in es(e := (es e)\<lparr>ev_timeout :=
             Timeval (tv_sec t) (tv_usec t OR COMMON_TIMEOUT_MAGIC OR push_bit 20 (int i))\<rparr>))"

definition shift_commons :: "events \<Rightarrow> common_timeout_list list \<Rightarrow> timeval \<Rightarrow> events" where
  "shift_commons es cs d =
     fold (\<lambda>(i, c) es. foldl (shift_common d i) es (ctl_events c)) (enumerate 0 cs) es"

definition timeout_correct :: "'b env \<Rightarrow> 'b event_base \<Rightarrow> 'b event_base option" where
  "timeout_correct env base =
     (if use_monotonic env then Some base else do {
        tv \<leftarrow> gettime env base;
        if timercmp (\<ge>) tv (event_tv base) then Some (base\<lparr>event_tv := tv\<rparr>)
        else do {
          let d = timersub (event_tv base) tv;
          let es = shift_heap (evs base) (timeheap base) d;
          Some (base\<lparr>evs := shift_commons es (common_timeout_queues base) d, event_tv := tv\<rparr>)
        }
      })"

text \<open>One turn of the loop of \<open>timeout_process\<close>, and the loop.\<close>

definition fire_timeout :: "'b env \<Rightarrow> 'b event_base \<Rightarrow> nat \<Rightarrow> 'b event_base option" where
  "fire_timeout env base ev = do {
     (base, _) \<leftarrow> event_del_internal env base ev;
     event_active_nolock base ev EV_TIMEOUT 1
   }"

partial_function (option) timeout_process_loop ::
  "'b env \<Rightarrow> timeval \<Rightarrow> 'b event_base \<Rightarrow> 'b event_base option" where
  "timeout_process_loop env now base = do {
     top \<leftarrow> min_heap_top (timeheap base);
     case top of
       None \<Rightarrow> Some base
     | Some ev \<Rightarrow>
         if timercmp (>) (ev_timeout (evs base ev)) now then Some base
         else do {
           base' \<leftarrow> fire_timeout env base ev;
           timeout_process_loop env now base'
         }
   }"

definition timeout_process :: "'b env \<Rightarrow> 'b event_base \<Rightarrow> 'b event_base option" where
  "timeout_process env base =
     (if min_heap_empty (timeheap base) then Some base else do {
        now \<leftarrow> gettime env base;
        timeout_process_loop env now base
      })"

section \<open>Common timeouts\<close>

text \<open>\<open>common_timeout_schedule\<close> and the callback of a queue.\<close>

definition common_timeout_schedule ::
  "'b env \<Rightarrow> 'b event_base \<Rightarrow> common_timeout_list \<Rightarrow> nat \<Rightarrow> 'b event_base option" where
  "common_timeout_schedule env base ctl head = do {
     (base, _) \<leftarrow> event_add_internal env base (timeout_event ctl)
                    (Some (mask_usec (ev_timeout (evs base head)))) True;
     Some base
   }"

definition queue_of :: "'b event_base \<Rightarrow> nat \<Rightarrow> common_timeout_list option" where
  "queue_of base i = (if i < length (common_timeout_queues base) then Some (common_timeout_queues base ! i) else None)"

text \<open>The first event stays when its seconds, or its masked microseconds, are later than now.\<close>

definition not_due :: "timeval \<Rightarrow> timeval \<Rightarrow> bool" where
  "not_due t now \<longleftrightarrow> tv_sec t > tv_sec now \<or>
     (tv_sec t = tv_sec now \<and> tv_usec t AND MICROSECONDS_MASK > tv_usec now)"

partial_function (option) common_timeout_loop ::
  "'b env \<Rightarrow> timeval \<Rightarrow> nat \<Rightarrow> 'b event_base \<Rightarrow> 'b event_base option" where
  "common_timeout_loop env now i base = do {
     ctl \<leftarrow> queue_of base i;
     case ctl_events ctl of
       [] \<Rightarrow> Some base
     | ev # _ \<Rightarrow>
         if not_due (ev_timeout (evs base ev)) now then common_timeout_schedule env base ctl ev
         else do {
           base' \<leftarrow> fire_timeout env base ev;
           common_timeout_loop env now i base'
         }
   }"

definition common_timeout_callback :: "'b env \<Rightarrow> 'b event_base \<Rightarrow> nat \<Rightarrow> 'b event_base option" where
  "common_timeout_callback env base i = do {
     now \<leftarrow> gettime env base;
     common_timeout_loop env now i base
   }"

text \<open>
  \<open>event_base_init_common_timeout\<close>: the queue for a duration, an old one or a new one; the
  address of the new queue's event is an argument. The answer is the magic duration, \<open>None\<close> the
  null pointer.
\<close>

definition MAX_COMMON_TIMEOUTS :: nat where "MAX_COMMON_TIMEOUTS = 256"

fun find_duration :: "timeval \<Rightarrow> common_timeout_list list \<Rightarrow> common_timeout_list option" where
  "find_duration d [] = None"
| "find_duration d (c # cs) =
     (if tv_sec d = tv_sec (duration c) \<and> tv_usec d = tv_usec (duration c) AND MICROSECONDS_MASK
      then Some c else find_duration d cs)"

definition normal_duration :: "'b event_base \<Rightarrow> timeval \<Rightarrow> timeval" where
  "normal_duration base d =
     (if tv_usec d > 1000000 then
        let u = (if is_common_timeout d base then tv_usec d AND MICROSECONDS_MASK else tv_usec d)
        in Timeval (tv_sec d + u div 1000000) (u mod 1000000)
      else d)"

definition event_base_init_common_timeout ::
  "'b env \<Rightarrow> 'b event_base \<Rightarrow> timeval \<Rightarrow> nat \<Rightarrow> ('b event_base \<times> timeval option) option" where
  "event_base_init_common_timeout env base d te =
     (let d = normal_duration base d; n = length (common_timeout_queues base) in
      case find_duration d (common_timeout_queues base) of
        Some c \<Rightarrow> do {
          _ \<leftarrow> evutil_assert (is_common_timeout (duration c) base);
          Some (base, Some (duration c))
        }
      | None \<Rightarrow>
          if n = MAX_COMMON_TIMEOUTS then Some (base, None)
          else
            let m = (if n < 16 then 16 else n * 2);
                grow = n_common_timeouts_allocated base = int n
            in if grow \<and> \<not> alloc env (m * 8) then Some (base, None)
               else if \<not> alloc env 200 then
                 Some (base\<lparr>n_common_timeouts_allocated := (if grow then int m else n_common_timeouts_allocated base)\<rparr>, None)
               else do {
                 let base1 = base\<lparr>n_common_timeouts_allocated :=
                                    (if grow then int m else n_common_timeouts_allocated base)\<rparr>;
                 let dur = Timeval (tv_sec d) (tv_usec d OR COMMON_TIMEOUT_MAGIC OR push_bit 20 (int n));
                 let (base2, _) = event_assign base1 te (-1) 0 (Common_timeout_callback n);
                 let base3 = upd_event base2 te (\<lambda>e. e\<lparr>ev_flags := ev_flags e OR EVLIST_INTERNAL\<rparr>);
                 let (base4, _) = event_priority_set base3 te 0;
                 let base5 = base4\<lparr>common_timeout_queues := common_timeout_queues base4 @
                                [\<lparr>ctl_events = [], duration = dur, timeout_event = te\<rparr>]\<rparr>;
                 _ \<leftarrow> evutil_assert (is_common_timeout dur base5);
                 Some (base5, Some dur)
               })"

section \<open>Running callbacks\<close>

text \<open>
  \<open>event_once_cb\<close> runs the callback it was given and frees the storage of the event, to which
  nothing points any more.
\<close>

primrec call :: "'b env \<Rightarrow> 'b app \<Rightarrow> callback \<Rightarrow> int \<Rightarrow> u16 \<Rightarrow> 'b event_base \<Rightarrow> 'b event_base option" where
  "call env app (User u) fd res base = user app u fd res base"
| "call env app Event_loopexit_cb fd res base = Some (base\<lparr>event_gotterm := True\<rparr>)"
| "call env app (Event_once_cb cb) fd res base = call env app cb fd res base"
| "call env app (Common_timeout_callback i) fd res base = common_timeout_callback env base i"

definition run_callback :: "'b env \<Rightarrow> 'b app \<Rightarrow> 'b event_base \<Rightarrow> nat \<Rightarrow> 'b event_base option" where
  "run_callback env app base ev =
     (let e = evs base ev in call env app (ev_callback e) (ev_fd e) (ev_res e) base)"

text \<open>
  \<open>event_signal_closure\<close>: the callback runs \<open>ncalls\<close> times, \<open>ncalls\<close> a local that a deletion
  from inside the callback sets to zero through \<open>ev_pncalls\<close>.
\<close>

definition set_frame :: "'b event_base \<Rightarrow> nat \<Rightarrow> int \<Rightarrow> 'b event_base" where
  "set_frame base fr n = base\<lparr>sig_frame := Some (fr, n)\<rparr>"

definition frame_ncalls :: "'b event_base \<Rightarrow> int" where
  "frame_ncalls base = (case sig_frame base of Some (_, n) \<Rightarrow> n | None \<Rightarrow> 0)"

partial_function (option) signal_calls ::
  "'b env \<Rightarrow> 'b app \<Rightarrow> nat \<Rightarrow> nat \<Rightarrow> 'b event_base \<Rightarrow> 'b event_base option" where
  "signal_calls env app fr ev base =
     (if frame_ncalls base = 0 then Some base
      else do {
        let n = frame_ncalls base - 1;
        let base = upd_event (set_frame base fr n) ev
                     (\<lambda>e. e\<lparr>ev_ncalls := n, ev_pncalls := (if n = 0 then None else ev_pncalls e)\<rparr>);
        base \<leftarrow> run_callback env app base ev;
        if event_break base
        then Some (if frame_ncalls base \<noteq> 0 then upd_event base ev (\<lambda>e. e\<lparr>ev_pncalls := None\<rparr>) else base)
        else signal_calls env app fr ev base
      })"

definition event_signal_closure :: "'b env \<Rightarrow> 'b app \<Rightarrow> 'b event_base \<Rightarrow> nat \<Rightarrow> 'b event_base option" where
  "event_signal_closure env app base ev = do {
     let fr = sig_frames base;
     let n = ev_ncalls (evs base ev);
     let base = (set_frame base fr n)\<lparr>sig_frames := fr + 1\<rparr>;
     let base = (if n \<noteq> 0 then upd_event base ev (\<lambda>e. e\<lparr>ev_pncalls := Some fr\<rparr>) else base);
     base \<leftarrow> signal_calls env app fr ev base;
     Some (base\<lparr>sig_frame := None\<rparr>)
   }"

text \<open>
  \<open>event_persist_closure\<close>: a persistent event with a timeout is scheduled again, relative to its
  last time if it fired because of it, to now otherwise or when that is past already.
\<close>

definition next_run :: "'b env \<Rightarrow> 'b event_base \<Rightarrow> nat \<Rightarrow> timeval option" where
  "next_run env base ev = do {
     let e = evs base ev;
     _ \<leftarrow> evutil_assert (is_same_common_timeout (ev_timeout e) (ev_io_timeout e));
     now \<leftarrow> gettime env base;
     let common = is_common_timeout (ev_timeout e) base;
     let delay = (if common then mask_usec (ev_io_timeout e) else ev_io_timeout e);
     let usec_mask = (if common then tv_usec (ev_io_timeout e) AND NOT MICROSECONDS_MASK else 0);
     let relative_to = (if has (ev_res e) EV_TIMEOUT
                        then (if common then mask_usec (ev_timeout e) else ev_timeout e) else now);
     let run_at = timeradd relative_to delay;
     let run_at = (if timercmp (<) run_at now then timeradd now delay else run_at);
     Some (Timeval (tv_sec run_at) (tv_usec run_at OR usec_mask))
   }"

definition event_persist_closure :: "'b env \<Rightarrow> 'b app \<Rightarrow> 'b event_base \<Rightarrow> nat \<Rightarrow> 'b event_base option" where
  "event_persist_closure env app base ev = do {
     base \<leftarrow> (if timerisset (ev_io_timeout (evs base ev)) then do {
                run_at \<leftarrow> next_run env base ev;
                (base, _) \<leftarrow> event_add_internal env base ev (Some run_at) True;
                Some base
              } else Some base);
     run_callback env app base ev
   }"

text \<open>
  \<open>event_process_active_single_queue\<close>: until the queue is empty, or a callback asks to stop
  (-1) or has activated something of a higher priority.
\<close>

definition take_active :: "'b env \<Rightarrow> 'b event_base \<Rightarrow> nat \<Rightarrow> 'b event_base option" where
  "take_active env base ev =
     (if has (ev_events (evs base ev)) EV_PERSIST then event_queue_remove_active base ev
      else map_option fst (event_del_internal env base ev))"

definition run_closure :: "'b env \<Rightarrow> 'b app \<Rightarrow> 'b event_base \<Rightarrow> nat \<Rightarrow> 'b event_base option" where
  "run_closure env app base ev =
     (case ev_closure (evs base ev) of
        EV_CLOSURE_SIGNAL \<Rightarrow> event_signal_closure env app base ev
      | EV_CLOSURE_PERSIST \<Rightarrow> event_persist_closure env app base ev
      | EV_CLOSURE_NONE \<Rightarrow> run_callback env app base ev)"

partial_function (option) event_process_active_single_queue ::
  "'b env \<Rightarrow> 'b app \<Rightarrow> nat \<Rightarrow> int \<Rightarrow> 'b event_base \<Rightarrow> ('b event_base \<times> int) option" where
  "event_process_active_single_queue env app pri count base = do {
     q \<leftarrow> active_queue base pri;
     case q of
       [] \<Rightarrow> Some (base, count)
     | ev # _ \<Rightarrow> do {
         base \<leftarrow> take_active env base ev;
         let count = (if internal (evs base ev) then count else count + 1);
         base \<leftarrow> run_closure env app base ev;
         if event_break base then Some (base, -1)
         else if event_continue base then Some (base, count)
         else event_process_active_single_queue env app pri count base
       }
   }"

text \<open>At most sixteen deferred callbacks run in one go; -1 when one asks to stop.\<close>

primrec deferred_loop :: "'b app \<Rightarrow> nat \<Rightarrow> int \<Rightarrow> 'b event_base \<Rightarrow> ('b event_base \<times> int) option" where
  "deferred_loop app 0 count base = Some (base, count)"
| "deferred_loop app (Suc k) count base =
     (case deferred_cb_list base of
        [] \<Rightarrow> Some (base, count)
      | cb # q \<Rightarrow> do {
          base \<leftarrow> deferred app cb (base\<lparr>deferred_queued := (deferred_queued base)(cb := False),
                                        deferred_cb_list := q,
                                        deferred_active_count := deferred_active_count base - 1\<rparr>);
          if event_break base then Some (base, -1) else deferred_loop app k (count + 1) base
        })"

definition event_process_deferred_callbacks ::
  "'b app \<Rightarrow> 'b event_base \<Rightarrow> ('b event_base \<times> int) option" where
  "event_process_deferred_callbacks app base = deferred_loop app 16 0 base"

definition event_deferred_cb_schedule :: "'b event_base \<Rightarrow> nat \<Rightarrow> 'b event_base" where
  "event_deferred_cb_schedule base cb =
     (if deferred_queued base cb then base
      else base\<lparr>deferred_queued := (deferred_queued base)(cb := True),
                deferred_cb_list := deferred_cb_list base @ [cb],
                deferred_active_count := deferred_active_count base + 1\<rparr>)"

definition event_deferred_cb_cancel :: "'b event_base \<Rightarrow> nat \<Rightarrow> 'b event_base option" where
  "event_deferred_cb_cancel base cb =
     (if deferred_queued base cb then do {
        q \<leftarrow> tailq_remove (deferred_cb_list base) cb;
        Some (base\<lparr>deferred_queued := (deferred_queued base)(cb := False),
                   deferred_cb_list := q,
                   deferred_active_count := deferred_active_count base - 1\<rparr>)
      } else Some base)"

text \<open>
  The queues are looked at from priority 0 on; the first one in which an event that is not
  internal ran is the last one.
\<close>

partial_function (option) process_queues ::
  "'b env \<Rightarrow> 'b app \<Rightarrow> nat \<Rightarrow> int \<Rightarrow> 'b event_base \<Rightarrow> ('b event_base \<times> int) option" where
  "process_queues env app i c base =
     (if i < nactivequeues base then
        (if activequeues base ! i \<noteq> [] then do {
           (base, c) \<leftarrow> event_process_active_single_queue env app i 0
                          (base\<lparr>event_running_priority := int i\<rparr>);
           if c \<noteq> 0 then Some (base, c) else process_queues env app (i + 1) c base
         } else process_queues env app (i + 1) c base)
      else Some (base, c))"

definition event_process_active :: "'b env \<Rightarrow> 'b app \<Rightarrow> 'b event_base \<Rightarrow> ('b event_base \<times> int) option" where
  "event_process_active env app base = do {
     (base, c) \<leftarrow> process_queues env app 0 0 base;
     if c < 0 then Some (base\<lparr>event_running_priority := -1\<rparr>, -1)
     else do {
       (base, _) \<leftarrow> event_process_deferred_callbacks app base;
       Some (base\<lparr>event_running_priority := -1\<rparr>, c)
     }
   }"

section \<open>The loop\<close>

definition event_haveevents :: "'b event_base \<Rightarrow> bool" where
  "event_haveevents base \<longleftrightarrow> virtual_event_count base > 0 \<or> event_count base > 0"

definition event_base_loopbreak :: "'b event_base \<Rightarrow> 'b event_base" where
  "event_base_loopbreak base = base\<lparr>event_break := True\<rparr>"

definition update_time_cache :: "'b env \<Rightarrow> bool \<Rightarrow> 'b event_base \<Rightarrow> 'b event_base option" where
  "update_time_cache env no_cache base =
     (let base = clear_time_cache base
      in if no_cache then Some base else do { tv \<leftarrow> gettime env base; Some (base\<lparr>tv_cache := tv\<rparr>) })"

record loop_flags =
  evloop_once :: bool
  evloop_nonblock :: bool
  no_cache_time :: bool

text \<open>
  One turn of \<open>event_base_loop\<close>: it goes on with a base, or ends with the value returned. The
  clock before and after waiting is that of two environments.
\<close>

definition loop_turn ::
  "'b env \<Rightarrow> 'b env \<Rightarrow> 'b app \<Rightarrow> loop_flags \<Rightarrow> 'b event_base \<Rightarrow> ('b event_base \<times> int option) option" where
  "loop_turn pre post app fl base0 = do {
     let base = base0\<lparr>event_continue := False\<rparr>;
     if event_gotterm base \<or> event_break base then Some (base, Some 0)
     else do {
       base \<leftarrow> timeout_correct pre base;
       wait \<leftarrow> (if N_ACTIVE_CALLBACKS base = 0 \<and> \<not> evloop_nonblock fl then timeout_next pre base
               else Some (Some timerclear));
       if \<not> event_haveevents base \<and> N_ACTIVE_CALLBACKS base = 0 then Some (base, Some 1)
       else do {
         now \<leftarrow> gettime pre base;
         let base = clear_time_cache (base\<lparr>event_tv := now\<rparr>);
         (base, res) \<leftarrow> dispatch app base wait;
         if res = -1 then Some (base, Some (-1))
         else do {
           base \<leftarrow> update_time_cache post (no_cache_time fl) base;
           base \<leftarrow> timeout_process post base;
           if N_ACTIVE_CALLBACKS base \<noteq> 0 then do {
             (base, n) \<leftarrow> event_process_active post app base;
             Some (base, if evloop_once fl \<and> N_ACTIVE_CALLBACKS base = 0 \<and> n \<noteq> 0 then Some 0 else None)
           } else Some (base, if evloop_nonblock fl then Some 0 else None)
         }
       }
     }
   }"

partial_function (option) loop_turns ::
  "(nat \<Rightarrow> 'b env) \<Rightarrow> (nat \<Rightarrow> 'b env) \<Rightarrow> 'b app \<Rightarrow> loop_flags \<Rightarrow> nat \<Rightarrow> 'b event_base \<Rightarrow>
     ('b event_base \<times> int) option" where
  "loop_turns pre post app fl k base = do {
     (base, r) \<leftarrow> loop_turn (pre k) (post k) app fl base;
     case r of
       Some ret \<Rightarrow> Some ((clear_time_cache base)\<lparr>running_loop := False\<rparr>, ret)
     | None \<Rightarrow> loop_turns pre post app fl (k + 1) base
   }"

definition event_base_loop ::
  "(nat \<Rightarrow> 'b env) \<Rightarrow> (nat \<Rightarrow> 'b env) \<Rightarrow> 'b app \<Rightarrow> loop_flags \<Rightarrow> 'b event_base \<Rightarrow>
     ('b event_base \<times> int) option" where
  "event_base_loop pre post app fl base =
     (if running_loop base then Some (base, -1)
      else loop_turns pre post app fl 0
             ((clear_time_cache (base\<lparr>running_loop := True\<rparr>))\<lparr>event_gotterm := False, event_break := False\<rparr>))"

end
