(* ===== verification/MinHeapProofs.thy ===== *)
theory MinHeapProofs
  imports MinHeap "HOL-Library.Multiset"
begin

text \<open>
  The heap of \<open>minheap-internal.h\<close> keeps its order, its indices and its elements. The two sifting
  loops carry a hole: the list of elements with the moving event written into the hole is a
  permutation of the events, and it is a heap except around the hole.
\<close>

section \<open>An array with a hole\<close>

definition holed :: "min_heap \<Rightarrow> events \<Rightarrow> (nat \<Rightarrow> timeval) \<Rightarrow> nat list \<Rightarrow> nat \<Rightarrow> bool" where
  "holed s evs k ys h \<longleftrightarrow>
     length ys \<le> length (hp s) \<and> length ys < 2 ^ 31 \<and> distinct ys \<and>
     (\<forall>i < length ys. i \<noteq> h \<longrightarrow> hp s ! i = Some (ys ! i) \<and> min_heap_idx (evs (ys ! i)) = int i) \<and>
     (\<forall>x. ev_timeout (evs x) = k x)"

text \<open>What sifting leaves alone: the counters, and every field of an event but its index.\<close>

definition kept :: "min_heap \<times> events \<Rightarrow> min_heap \<times> events \<Rightarrow> nat set \<Rightarrow> bool" where
  "kept a b A \<longleftrightarrow>
     hn (fst b) = hn (fst a) \<and> ha (fst b) = ha (fst a) \<and> length (hp (fst b)) = length (hp (fst a)) \<and>
     (\<forall>x. snd b x = (snd a x)\<lparr>min_heap_idx := min_heap_idx (snd b x)\<rparr>) \<and>
     (\<forall>x. x \<notin> A \<longrightarrow> snd b x = snd a x)"

lemma kept_refl: "kept a a A"
  by (simp add: kept_def)

lemma kept_trans: "kept a b A \<Longrightarrow> kept b c A \<Longrightarrow> kept a c A"
proof -
  assume ab: "kept a b A" and bc: "kept b c A"
  have "snd c x = (snd a x)\<lparr>min_heap_idx := min_heap_idx (snd c x)\<rparr>" for x
  proof -
    have "snd c x = (snd b x)\<lparr>min_heap_idx := min_heap_idx (snd c x)\<rparr>" using bc by (simp add: kept_def)
    also have "\<dots> = ((snd a x)\<lparr>min_heap_idx := min_heap_idx (snd b x)\<rparr>)\<lparr>min_heap_idx := min_heap_idx (snd c x)\<rparr>"
      using ab unfolding kept_def by metis
    finally show ?thesis by simp
  qed
  then show ?thesis using ab bc by (auto simp: kept_def)
qed

lemma holed_at:
  "holed s evs k ys h \<Longrightarrow> i < length ys \<Longrightarrow> i \<noteq> h \<Longrightarrow> p_at s i = Some (ys ! i)"
  by (auto simp: holed_def p_at_def)

lemma idx_of_small: "i < 2 ^ 31 \<Longrightarrow> idx_of i = int i"
  by (simp add: idx_of_def)

text \<open>Filling the hole from \<open>j\<close> moves it to \<open>j\<close>; filling it with its own event closes it.\<close>

lemma holed_move:
  assumes H: "holed s evs k ys h" and h: "h < length ys" and j: "j < length ys" "j \<noteq> h"
  shows "\<exists>s' evs'. p_put s evs h (ys ! j) = Some (s', evs') \<and>
           holed s' evs' k (ys[h := ys ! j, j := ys ! h]) j \<and> kept (s, evs) (s', evs') (set ys)"
proof -
  let ?ys = "ys[h := ys ! j, j := ys ! h]"
  have d: "distinct ?ys" using H h j by (simp add: holed_def distinct_swap)
  have idx: "idx_of h = int h" using H h by (simp add: holed_def idx_of_small)
  have ne: "i < length ys \<Longrightarrow> i \<noteq> j \<Longrightarrow> ys ! i \<noteq> ys ! j" for i
    using H j by (simp add: holed_def nth_eq_iff_index_eq)
  show ?thesis
    using H h j d idx ne by (auto simp: holed_def p_put_def kept_def nth_list_update)
qed

lemma holed_settle:
  assumes H: "holed s evs k ys h" and h: "h < length ys"
  shows "\<exists>s' evs'. p_put s evs h (ys ! h) = Some (s', evs') \<and>
           holed s' evs' k ys (length ys) \<and> kept (s, evs) (s', evs') (set ys)"
proof -
  have idx: "idx_of h = int h" using H h by (simp add: holed_def idx_of_small)
  have ne: "i < length ys \<Longrightarrow> i \<noteq> h \<Longrightarrow> ys ! i \<noteq> ys ! h" for i
    using H h by (simp add: holed_def nth_eq_iff_index_eq)
  show ?thesis
    using H h idx ne by (auto simp: holed_def p_put_def kept_def nth_list_update)
qed

section \<open>Heap order\<close>

definition par :: "nat \<Rightarrow> nat" where
  "par i = (i - 1) div 2"

definition heap_order :: "(nat \<Rightarrow> timeval) \<Rightarrow> nat list \<Rightarrow> bool" where
  "heap_order k ys \<longleftrightarrow> (\<forall>i < length ys. 0 < i \<longrightarrow> k (ys ! par i) \<le> k (ys ! i))"

text \<open>Order everywhere but between the hole and its parent, or the hole and its children.\<close>

definition up_order :: "(nat \<Rightarrow> timeval) \<Rightarrow> nat list \<Rightarrow> nat \<Rightarrow> bool" where
  "up_order k ys h \<longleftrightarrow>
     (\<forall>i < length ys. 0 < i \<longrightarrow> i \<noteq> h \<longrightarrow> k (ys ! par i) \<le> k (ys ! i)) \<and>
     (\<forall>i < length ys. 0 < i \<longrightarrow> par i = h \<longrightarrow> 0 < h \<longrightarrow> k (ys ! par h) \<le> k (ys ! i))"

definition down_order :: "(nat \<Rightarrow> timeval) \<Rightarrow> nat list \<Rightarrow> nat \<Rightarrow> bool" where
  "down_order k ys h \<longleftrightarrow>
     (\<forall>i < length ys. 0 < i \<longrightarrow> par i \<noteq> h \<longrightarrow> k (ys ! par i) \<le> k (ys ! i)) \<and>
     (\<forall>i < length ys. 0 < i \<longrightarrow> par i = h \<longrightarrow> 0 < h \<longrightarrow> k (ys ! par h) \<le> k (ys ! i))"

lemma par_less: "0 < i \<Longrightarrow> par i < i"
  by (simp add: par_def)

lemma par_le: "par i \<le> i"
  by (simp add: par_def)

lemma parent_of_eq: "0 < i \<Longrightarrow> i < 2 ^ 32 \<Longrightarrow> parent_of i = par i"
  unfolding parent_of_def par_def by (simp only: dec32)

lemma top_least: "heap_order k ys \<Longrightarrow> i < length ys \<Longrightarrow> k (ys ! 0) \<le> k (ys ! i)"
proof (induction i rule: less_induct)
  case (less i)
  show ?case
  proof (cases "i = 0")
    case False
    then have "k (ys ! 0) \<le> k (ys ! par i)" "k (ys ! par i) \<le> k (ys ! i)"
      using less par_less [of i] by (auto simp: heap_order_def)
    then show ?thesis by (rule order_trans)
  qed simp
qed

lemma up_step:
  assumes U: "up_order k ys h" and h: "h < length ys" "0 < h" and gt: "k (ys ! h) < k (ys ! par h)"
  shows "up_order k (ys[h := ys ! par h, par h := ys ! h]) (par h)"
proof -
  have p: "par h < h" "par h < length ys" using h par_less [of h] by auto
  have A: "k (ys ! par i) \<le> k (ys ! i)" if "i < length ys" "0 < i" "i \<noteq> h" for i
    using U that by (simp add: up_order_def)
  have B: "k (ys ! par h) \<le> k (ys ! i)" if "i < length ys" "0 < i" "par i = h" for i
    using U that h by (simp add: up_order_def)
  have pn: "par (par h) \<noteq> h" "par (par h) \<le> par h" using p par_le [of "par h"] by auto
  show ?thesis
    unfolding up_order_def
  proof (intro conjI allI impI)
    fix i assume i: "i < length (ys[h := ys ! par h, par h := ys ! h])" "0 < i" "i \<noteq> par h"
    then show "k (ys[h := ys ! par h, par h := ys ! h] ! par i) \<le> k (ys[h := ys ! par h, par h := ys ! h] ! i)"
      using A [of i] B [of i] p gt h by (auto simp: nth_list_update)
  next
    fix i assume i: "i < length (ys[h := ys ! par h, par h := ys ! h])" "0 < i" "par i = par h" "0 < par h"
    have "par (par h) < par h" using i(4) by (rule par_less)
    moreover have "k (ys ! par (par h)) \<le> k (ys ! par h)" using A [of "par h"] p i(4) by auto
    moreover have "i \<noteq> par h" using i par_less [of i] by auto
    ultimately show "k (ys[h := ys ! par h, par h := ys ! h] ! par (par h)) \<le> k (ys[h := ys ! par h, par h := ys ! h] ! i)"
      using A [of i] i p by (cases "i = h") (auto simp: nth_list_update intro: order_trans)
  qed
qed

lemma up_done: "up_order k ys h \<Longrightarrow> (0 < h \<Longrightarrow> k (ys ! par h) \<le> k (ys ! h)) \<Longrightarrow> heap_order k ys"
  by (auto simp: heap_order_def up_order_def)

lemma children: "0 < i \<Longrightarrow> par i = h \<longleftrightarrow> i = 2 * h + 1 \<or> i = 2 * h + 2"
  by (auto simp: par_def)

lemma down_step:
  assumes D: "down_order k ys h" and c: "c < length ys" "c = 2 * h + 1 \<or> c = 2 * h + 2"
    and least: "\<And>i. i < length ys \<Longrightarrow> i = 2 * h + 1 \<or> i = 2 * h + 2 \<Longrightarrow> k (ys ! c) \<le> k (ys ! i)"
    and gt: "k (ys ! c) < k (ys ! h)"
  shows "down_order k (ys[h := ys ! c, c := ys ! h]) c"
proof -
  have pc: "par c = h" "0 < c" "h < c" using c children [of c h] by auto
  have A: "k (ys ! par i) \<le> k (ys ! i)" if "i < length ys" "0 < i" "par i \<noteq> h" for i
    using D that by (simp add: down_order_def)
  have B: "k (ys ! par h) \<le> k (ys ! i)" if "i < length ys" "0 < i" "par i = h" "0 < h" for i
    using D that by (simp add: down_order_def)
  have L: "k (ys ! c) \<le> k (ys ! i)" if "i < length ys" "0 < i" "par i = h" for i
    using least [of i] that children [of i h] by auto
  show ?thesis
    unfolding down_order_def
  proof (intro conjI allI impI)
    fix i assume i: "i < length (ys[h := ys ! c, c := ys ! h])" "0 < i" "par i \<noteq> c"
    have "i = h \<Longrightarrow> k (ys ! par h) \<le> k (ys ! c)" using B [of c] c pc i by auto
    moreover have "i = h \<Longrightarrow> par h \<noteq> h \<and> par h \<noteq> c" using par_less [of h] i pc by auto
    moreover have "par i = h \<Longrightarrow> i \<noteq> h" using par_less [of i] i by auto
    ultimately show "k (ys[h := ys ! c, c := ys ! h] ! par i) \<le> k (ys[h := ys ! c, c := ys ! h] ! i)"
      using A [of i] L [of i] i pc c gt by (auto simp: nth_list_update)
  next
    fix i assume i: "i < length (ys[h := ys ! c, c := ys ! h])" "0 < i" "par i = c" "0 < c"
    have "c < i" using par_less [of i] i by auto
    then show "k (ys[h := ys ! c, c := ys ! h] ! par c) \<le> k (ys[h := ys ! c, c := ys ! h] ! i)"
      using A [of i] i pc c by (auto simp: nth_list_update)
  qed
qed

lemma down_done:
  assumes D: "down_order k ys h"
    and least: "\<And>i. i < length ys \<Longrightarrow> i = 2 * h + 1 \<or> i = 2 * h + 2 \<Longrightarrow> k (ys ! h) \<le> k (ys ! i)"
  shows "heap_order k ys"
  unfolding heap_order_def
proof (intro allI impI)
  fix i assume i: "i < length ys" "0 < i"
  show "k (ys ! par i) \<le> k (ys ! i)"
  proof (cases "par i = h")
    case True
    then show ?thesis using least [of i] i children [of i h] by auto
  next
    case False
    then show ?thesis using D i by (simp add: down_order_def)
  qed
qed

section \<open>The two sifting loops\<close>

text \<open>What sifting a permutation \<open>ys\<close> of the events arrives at.\<close>

definition sifted ::
  "min_heap \<times> events \<Rightarrow> (nat \<Rightarrow> timeval) \<Rightarrow> nat list \<Rightarrow> (min_heap \<times> events) option \<Rightarrow> bool" where
  "sifted a k ys r \<longleftrightarrow>
     (\<exists>s' evs' ys'. r = Some (s', evs') \<and> holed s' evs' k ys' (length ys') \<and> heap_order k ys' \<and>
        mset ys' = mset ys \<and> kept a (s', evs') (set ys))"

lemma sifted_settle:
  "holed s evs k ys h \<Longrightarrow> h < length ys \<Longrightarrow> heap_order k ys \<Longrightarrow> sifted (s, evs) k ys (p_put s evs h (ys ! h))"
  using holed_settle [of s evs k ys h] by (fastforce simp: sifted_def)

lemma sifted_from:
  assumes "kept a b (set ys)" "sifted b k ys' r" "mset ys' = mset ys"
  shows "sifted a k ys r"
proof -
  have "set ys' = set ys" using assms(3) by (rule mset_eq_setD)
  then show ?thesis using assms by (fastforce simp: sifted_def dest: kept_trans)
qed

lemma greater_key:
  "holed s evs k ys h \<Longrightarrow> min_heap_elem_greater evs x y \<longleftrightarrow> k y < k x"
  by (simp add: holed_def min_heap_elem_greater_def timer_simps)

lemma mset_move:
  "h < length ys \<Longrightarrow> j < length ys \<Longrightarrow> mset (ys[h := ys ! j, j := ys ! h]) = mset ys"
  by (rule mset_swap)

lemma shift_up_ok:
  "holed s evs k ys h \<Longrightarrow> h < length ys \<Longrightarrow> up_order k ys h \<Longrightarrow> e = ys ! h \<Longrightarrow>
     sifted (s, evs) k ys (min_heap_shift_up s evs h e)"
proof (induction h arbitrary: s evs ys rule: less_induct)
  case (less h)
  note H = less.prems(1) and h = less.prems(2) and U = less.prems(3) and e = less.prems(4)
  show ?case
  proof (cases "0 < h \<and> k e < k (ys ! par h)")
    case False
    then have "heap_order k ys" using up_done [OF U] e by fastforce
    moreover have "p_at s (parent_of h) = Some (ys ! par h)" if "0 < h"
      using that h H parent_of_eq [of h] par_less [of h] holed_at [OF H, of "par h"]
      by (simp add: holed_def)
    ultimately show ?thesis
      using False sifted_settle [OF H h] e greater_key [OF H] by (subst min_heap_shift_up.simps) auto
  next
    case True
    let ?ys = "ys[h := ys ! par h, par h := ys ! h]"
    have p: "par h < h" "par h < length ys" using True par_less [of h] h by auto
    then obtain s' evs' where m: "p_put s evs h (ys ! par h) = Some (s', evs')"
        "holed s' evs' k ?ys (par h)" "kept (s, evs) (s', evs') (set ys)"
      using holed_move [OF H h, of "par h"] by auto
    have "sifted (s', evs') k ?ys (min_heap_shift_up s' evs' (par h) e)"
      using less.IH [OF p(1) m(2)] up_step [OF U h] True p e by simp
    then have "sifted (s, evs) k ys (min_heap_shift_up s' evs' (par h) e)"
      using sifted_from [OF m(3)] mset_move [OF h p(2)] by blast
    moreover have "p_at s (parent_of h) = Some (ys ! par h)" "parent_of h = par h"
      using True h H parent_of_eq [of h] p holed_at [OF H, of "par h"] by (simp_all add: holed_def)
    ultimately show ?thesis
      using True m(1) greater_key [OF H] by (subst min_heap_shift_up.simps) simp
  qed
qed

lemma pick_child_ok:
  assumes H: "holed s evs k ys h" and n: "hn s = length ys" and c: "2 * h + 1 < length ys"
  shows "\<exists>c. pick_child s evs (2 * h + 2) = Some c \<and> c < length ys \<and> (c = 2 * h + 1 \<or> c = 2 * h + 2) \<and>
           (\<forall>i < length ys. i = 2 * h + 1 \<or> i = 2 * h + 2 \<longrightarrow> k (ys ! c) \<le> k (ys ! i))"
proof -
  have M: "(2 * h + 2 + 2 ^ 32 - 1) mod 2 ^ 32 = 2 * h + 1"
    using dec32 [of "2 * h + 2"] H c by (simp add: holed_def)
  have "p_at s (2 * h + 1) = Some (ys ! (2 * h + 1))" using holed_at [OF H] c by simp
  moreover have "2 * h + 2 < length ys \<Longrightarrow> p_at s (2 * h + 2) = Some (ys ! (2 * h + 2))"
    using holed_at [OF H] by simp
  ultimately show ?thesis
    unfolding pick_child_def M using c n greater_key [OF H] by (cases "2 * h + 2 = length ys") auto
qed

lemma shift_down_ok:
  "holed s evs k ys h \<Longrightarrow> hn s = length ys \<Longrightarrow> h < length ys \<Longrightarrow> down_order k ys h \<Longrightarrow> e = ys ! h \<Longrightarrow>
     sifted (s, evs) k ys (min_heap_shift_down s evs h e)"
proof (induction "length ys - h" arbitrary: s evs ys h rule: less_induct)
  case less
  note H = less.prems(1) and n = less.prems(2) and h = less.prems(3) and D = less.prems(4) and e = less.prems(5)
  have dc: "down_child h = 2 * h + 2" using H h by (simp add: holed_def down_child_def)
  show ?case
  proof (cases "2 * h + 1 < length ys")
    case False
    then have "heap_order k ys" using down_done [OF D] by auto
    then show ?thesis
      using sifted_settle [OF H h] e dc n False by (subst min_heap_shift_down.simps) simp
  next
    case True
    then obtain c where c: "pick_child s evs (2 * h + 2) = Some c" "c < length ys"
        "c = 2 * h + 1 \<or> c = 2 * h + 2"
        and least: "\<And>i. i < length ys \<Longrightarrow> i = 2 * h + 1 \<or> i = 2 * h + 2 \<Longrightarrow> k (ys ! c) \<le> k (ys ! i)"
      using pick_child_ok [OF H n] by blast
    have pc: "p_at s c = Some (ys ! c)" using holed_at [OF H c(2)] c(3) by auto
    have go: "down_child h \<le> hn s" using dc n True by simp
    show ?thesis
    proof (cases "k (ys ! c) < k (ys ! h)")
      case False
      then have "heap_order k ys" using down_done [OF D] least by (meson not_less order_trans)
      then show ?thesis
        using sifted_settle [OF H h] e dc c(1) go pc False greater_key [OF H]
        by (subst min_heap_shift_down.simps) simp
    next
      case True
      let ?ys = "ys[h := ys ! c, c := ys ! h]"
      obtain s' evs' where m: "p_put s evs h (ys ! c) = Some (s', evs')"
          "holed s' evs' k ?ys c" "kept (s, evs) (s', evs') (set ys)"
        using holed_move [OF H h c(2)] c(3) by auto
      have "sifted (s', evs') k ?ys (min_heap_shift_down s' evs' c e)"
        by (rule less.hyps) (use m n c h e down_step [OF D c(2,3) least True] in \<open>auto simp: kept_def\<close>)
      then have "sifted (s, evs) k ys (min_heap_shift_down s' evs' c e)"
        using sifted_from [OF m(3)] mset_move [OF h c(2)] by blast
      then show ?thesis
        using e dc c(1) go pc True m(1) greater_key [OF H] by (subst min_heap_shift_down.simps) simp
    qed
  qed
qed

section \<open>The operations\<close>

definition heap_elems :: "min_heap \<Rightarrow> nat list" where
  "heap_elems s = map the (take (hn s) (hp s))"

definition heap_ok :: "min_heap \<Rightarrow> events \<Rightarrow> bool" where
  "heap_ok s evs \<longleftrightarrow>
     length (hp s) = ha s \<and> hn s \<le> ha s \<and>
     holed s evs (\<lambda>x. ev_timeout (evs x)) (heap_elems s) (hn s) \<and>
     heap_order (\<lambda>x. ev_timeout (evs x)) (heap_elems s)"

lemma length_heap_elems: "heap_ok s evs \<Longrightarrow> length (heap_elems s) = hn s"
  by (simp add: heap_ok_def heap_elems_def)

lemma heap_elems_eq:
  "holed s evs k ys (length ys) \<Longrightarrow> hn s = length ys \<Longrightarrow> heap_elems s = ys"
  by (rule nth_equalityI) (auto simp: heap_elems_def holed_def)

lemma heap_okI:
  assumes "holed s evs k ys (length ys)" "heap_order k ys" "hn s = length ys" "length (hp s) = ha s"
  shows "heap_ok s evs \<and> heap_elems s = ys"
proof -
  have k: "(\<lambda>x. ev_timeout (evs x)) = k" using assms(1) by (auto simp: holed_def)
  have "heap_elems s = ys" using assms(1,3) by (rule heap_elems_eq)
  then show ?thesis using assms k by (auto simp: heap_ok_def holed_def)
qed

lemma heap_ok_ctor: "heap_ok min_heap_ctor evs \<and> heap_elems min_heap_ctor = []"
  by (simp add: heap_ok_def min_heap_ctor_def heap_elems_def holed_def heap_order_def)

lemma top_ok:
  assumes "heap_ok s evs"
  shows "min_heap_top s = Some (case heap_elems s of [] \<Rightarrow> None | e # _ \<Rightarrow> Some e)"
    "x \<in> set (heap_elems s) \<Longrightarrow> ev_timeout (evs (hd (heap_elems s))) \<le> ev_timeout (evs x)"
proof -
  have l: "length (heap_elems s) = hn s" using assms by (rule length_heap_elems)
  show "min_heap_top s = Some (case heap_elems s of [] \<Rightarrow> None | e # _ \<Rightarrow> Some e)"
  proof (cases "heap_elems s")
    case Nil
    then show ?thesis using l by (simp add: min_heap_top_def)
  next
    case (Cons e es)
    then have "p_at s 0 = Some e"
      using holed_at [of s evs _ "heap_elems s" "hn s" 0] assms l by (auto simp: heap_ok_def)
    then show ?thesis using Cons l by (auto simp: min_heap_top_def)
  qed
  show "x \<in> set (heap_elems s) \<Longrightarrow> ev_timeout (evs (hd (heap_elems s))) \<le> ev_timeout (evs x)"
    using assms top_least [of "\<lambda>x. ev_timeout (evs x)" "heap_elems s"]
    by (cases "heap_elems s") (fastforce simp: heap_ok_def in_set_conv_nth)+
qed

text \<open>Only the indices of the events in \<open>A\<close> differ.\<close>

definition reindexed :: "events \<Rightarrow> events \<Rightarrow> nat set \<Rightarrow> bool" where
  "reindexed evs evs' A \<longleftrightarrow>
     (\<forall>x. evs' x = (evs x)\<lparr>min_heap_idx := min_heap_idx (evs' x)\<rparr>) \<and> (\<forall>x. x \<notin> A \<longrightarrow> evs' x = evs x)"

lemma kept_reindexed: "kept (s, evs) (s', evs') A \<Longrightarrow> A \<subseteq> B \<Longrightarrow> reindexed evs evs' B"
  unfolding kept_def reindexed_def by auto

lemma reindexed_elem_init:
  assumes "reindexed evs evs' A" "e \<in> A"
  shows "reindexed evs (min_heap_elem_init evs' e) A"
proof -
  have *: "evs' x = (evs x)\<lparr>min_heap_idx := min_heap_idx (evs' x)\<rparr>" for x
    using assms(1) by (simp add: reindexed_def)
  have "(evs' e)\<lparr>min_heap_idx := -1\<rparr> = (evs e)\<lparr>min_heap_idx := -1\<rparr>" by (subst *) simp
  then show ?thesis
    using assms by (auto simp: reindexed_def min_heap_elem_init_def)
qed

lemma reserve_ok:
  assumes "length (hp s) = ha s" "n < 2 ^ 32"
  shows "(case min_heap_reserve alloc s n of (s1, r) \<Rightarrow>
           (r = -1 \<and> s1 = s \<or>
            r = 0 \<and> hn s1 = hn s \<and> length (hp s1) = ha s1 \<and> n \<le> ha s1 \<and> ha s \<le> ha s1 \<and>
            take (ha s) (hp s1) = hp s))"
proof (cases "ha s < n")
  case True
  let ?a = "if ha s \<noteq> 0 then (ha s * 2) mod 2 ^ 32 else 8"
  show ?thesis using True assms by (auto simp: min_heap_reserve_def Let_def)
next
  case False
  then show ?thesis using assms by (simp add: min_heap_reserve_def)
qed

lemma reserve_alloc: "(\<And>k. alloc k) \<Longrightarrow> snd (min_heap_reserve alloc s n) = 0"
  by (simp add: min_heap_reserve_def Let_def)

lemma heap_elems_at:
  assumes "heap_ok s evs" "i < hn s"
  shows "hp s ! i = Some (heap_elems s ! i)" "min_heap_idx (evs (heap_elems s ! i)) = int i"
proof -
  have "\<forall>i < length (heap_elems s). i \<noteq> hn s \<longrightarrow>
      hp s ! i = Some (heap_elems s ! i) \<and> min_heap_idx (evs (heap_elems s ! i)) = int i"
    using assms(1) unfolding heap_ok_def holed_def by blast
  then show "hp s ! i = Some (heap_elems s ! i)" "min_heap_idx (evs (heap_elems s ! i)) = int i"
    using assms(2) length_heap_elems [OF assms(1)] by simp_all
qed

lemma push_ok:
  assumes ok: "heap_ok s evs" and e: "e \<notin> set (heap_elems s)" and n: "hn s < 2 ^ 31 - 1"
    and r: "snd (min_heap_reserve alloc s (hn s + 1)) = 0"
  shows "\<exists>s' evs'. min_heap_push alloc s evs e = Some (s', evs', 0) \<and> heap_ok s' evs' \<and>
           mset (heap_elems s') = add_mset e (mset (heap_elems s)) \<and>
           reindexed evs evs' (insert e (set (heap_elems s)))"
proof -
  let ?k = "\<lambda>x. ev_timeout (evs x)" and ?ys = "heap_elems s @ [e]"
  have l: "length (heap_elems s) = hn s" using ok by (rule length_heap_elems)
  have n2: "hn s + 1 < 2 ^ 32" "(hn s + 1) mod 2 ^ 32 = hn s + 1" using n by simp_all
  obtain s1 where s1: "min_heap_reserve alloc s (hn s + 1) = (s1, 0)"
    using r by (cases "min_heap_reserve alloc s (hn s + 1)") auto
  then have R: "hn s1 = hn s" "length (hp s1) = ha s1" "hn s + 1 \<le> ha s1" "ha s \<le> ha s1"
      "take (ha s) (hp s1) = hp s"
    using reserve_ok [of s "hn s + 1" alloc] ok n2(1) by (simp_all add: heap_ok_def)
  let ?s1 = "s1\<lparr>hn := hn s + 1\<rparr>"
  have cell: "hp s1 ! i = Some (heap_elems s ! i)" if "i < hn s" for i
  proof -
    have "hp s1 ! i = take (ha s) (hp s1) ! i" using that ok by (simp add: heap_ok_def)
    then show ?thesis using R(5) heap_elems_at(1) [OF ok that] by simp
  qed
  have H: "holed ?s1 evs ?k ?ys (hn s)"
    using ok R(2,3) n l e cell heap_elems_at(2) [OF ok]
    by (auto simp: holed_def heap_ok_def nth_append less_Suc_eq)
  have U: "up_order ?k ?ys (hn s)"
    unfolding up_order_def
  proof (intro conjI allI impI)
    fix i assume "i < length ?ys" "0 < i" "i \<noteq> hn s"
    then show "?k (?ys ! par i) \<le> ?k (?ys ! i)"
      using ok l par_less [of i] by (auto simp: nth_append heap_ok_def heap_order_def)
  next
    fix i assume "i < length ?ys" "0 < i" "par i = hn s"
    then show "?k (?ys ! par (hn s)) \<le> ?k (?ys ! i)" using l par_less [of i] by auto
  qed
  have S: "sifted (?s1, evs) ?k ?ys (min_heap_shift_up ?s1 evs (hn s) e)"
    using shift_up_ok [OF H _ U, of e] l by (simp add: nth_append)
  then obtain s' evs' ys' where s': "min_heap_shift_up ?s1 evs (hn s) e = Some (s', evs')"
      "holed s' evs' ?k ys' (length ys')" "heap_order ?k ys'" "mset ys' = mset ?ys"
      "kept (?s1, evs) (s', evs') (set ?ys)"
    by (auto simp: sifted_def)
  have "length ys' = hn s + 1" using s'(4) l by (metis length_append_singleton size_mset Suc_eq_plus1)
  then have "heap_ok s' evs' \<and> heap_elems s' = ys'"
    using heap_okI [OF s'(2,3)] s'(5) R(2) by (simp add: kept_def)
  moreover have "min_heap_push alloc s evs e = Some (s', evs', 0)"
    unfolding min_heap_push_def n2(2) s1 using R(1) n2 s'(1) by simp
  ultimately show ?thesis using s'(4) kept_reindexed [OF s'(5), of "insert e (set (heap_elems s))"] by auto
qed

lemma push_fails:
  assumes "heap_ok s evs" "hn s < 2 ^ 31 - 1" "snd (min_heap_reserve alloc s (hn s + 1)) \<noteq> 0"
  shows "min_heap_push alloc s evs e = Some (s, evs, -1)"
proof -
  have n2: "hn s + 1 < 2 ^ 32" "(hn s + 1) mod 2 ^ 32 = hn s + 1" using assms(2) by simp_all
  show ?thesis
    unfolding min_heap_push_def n2(2)
    using assms(1,3) reserve_ok [of s "hn s + 1" alloc] n2(1)
    by (auto simp: heap_ok_def Let_def split: prod.splits)
qed

text \<open>
  Erasing the event at index \<open>i\<close> puts the last event in its place. What is known of the order
  then is the hypothesis of one of the two sifts.
\<close>

lemma erase_order:
  assumes ho: "heap_order k xs" and i: "i < length xs - 1"
  defines "ys \<equiv> (butlast xs)[i := last xs]"
  shows "0 < i \<Longrightarrow> k (last xs) < k (xs ! par i) \<Longrightarrow> up_order k ys i"
    and "(0 < i \<Longrightarrow> k (xs ! par i) \<le> k (last xs)) \<Longrightarrow> down_order k ys i"
proof -
  have y: "ys ! j = (if j = i then last xs else xs ! j)" if "j < length xs - 1" for j
    using that i by (simp add: ys_def nth_list_update nth_butlast)
  have l: "length ys = length xs - 1" by (simp add: ys_def)
  have O: "k (xs ! par j) \<le> k (xs ! j)" if "j < length xs - 1" "0 < j" for j
    using ho that by (simp add: heap_order_def)
  have P: "par j < length xs - 1" if "j < length xs - 1" for j using that par_le [of j] by simp
  have G: "k (ys ! par i) \<le> k (ys ! j)" if "j < length xs - 1" "0 < j" "par j = i" "0 < i" for j
    using O [of j] O [of i] that i y [of "par i"] y [of j] P [of i] par_less [of i] par_less [of j]
    by (auto intro: order_trans)
  show "up_order k ys i" if "0 < i" "k (last xs) < k (xs ! par i)"
    unfolding up_order_def l
  proof (intro conjI allI impI)
    fix j assume j: "j < length xs - 1" "0 < j" "j \<noteq> i"
    have "k (last xs) \<le> k (xs ! j)" if "par j = i"
      using O [of j] O [of i] j i that \<open>0 < i\<close> \<open>k (last xs) < k (xs ! par i)\<close> by auto
    then show "k (ys ! par j) \<le> k (ys ! j)" using O [of j] j y [of j] y [of "par j"] P [of j] by auto
  qed (use G in auto)
  show "down_order k ys i" if "0 < i \<Longrightarrow> k (xs ! par i) \<le> k (last xs)"
    unfolding down_order_def l
  proof (intro conjI allI impI)
    fix j assume j: "j < length xs - 1" "0 < j" "par j \<noteq> i"
    then show "k (ys ! par j) \<le> k (ys ! j)"
      using O [of j] j y [of j] y [of "par j"] P [of j] that by auto
  qed (use G in auto)
qed

lemma holed_elem_init:
  "holed s evs k ys h \<Longrightarrow> e \<notin> set ys \<Longrightarrow> holed s (min_heap_elem_init evs e) k ys h"
  by (auto simp: holed_def min_heap_elem_init_def)

lemma mset_erase:
  assumes "i < length xs - 1"
  shows "mset ((butlast xs)[i := last xs]) = mset xs - {#xs ! i#}"
proof -
  have "xs \<noteq> []" using assms by auto
  then have "mset xs = add_mset (last xs) (mset (butlast xs))"
    by (metis append_butlast_last_id mset_append mset.simps add_mset_add_single)
  moreover have "butlast xs ! i = xs ! i" using assms by (simp add: nth_butlast)
  moreover have "xs ! i \<in># mset (butlast xs)" using assms
    by (metis calculation(2) in_set_conv_nth length_butlast set_mset_mset)
  ultimately show ?thesis using assms by (simp add: mset_update)
qed

lemma holed_erase:
  assumes ok: "heap_ok s evs" and i: "i < hn s - 1"
  shows "holed (s\<lparr>hn := hn s - 1\<rparr>) evs (\<lambda>x. ev_timeout (evs x))
           ((butlast (heap_elems s))[i := last (heap_elems s)]) i"
proof -
  let ?xs = "heap_elems s"
  have l: "length ?xs = hn s" using ok by (rule length_heap_elems)
  have d: "distinct ?xs" using ok by (simp add: heap_ok_def holed_def)
  have "?xs \<noteq> []" using i l by auto
  then have "last ?xs \<notin> set (butlast ?xs)" "distinct (butlast ?xs)"
    using d by (metis append_butlast_last_id distinct_append not_distinct_conv_prefix, simp add: distinct_butlast)
  then have "distinct ((butlast ?xs)[i := last ?xs])" by (simp add: distinct_list_update)
  moreover have "length ?xs < 2 ^ 31" "length ?xs \<le> length (hp s)"
    using ok unfolding heap_ok_def holed_def by blast+
  ultimately show ?thesis
    using l heap_elems_at [OF ok] by (auto simp: holed_def nth_butlast)
qed

text \<open>Closing: the sifted heap with the erased event's index reset is a heap again.\<close>

lemma erase_close:
  assumes ok: "heap_ok s evs" and e: "e \<in> set (heap_elems s)"
    and S: "sifted (s\<lparr>hn := hn s - 1\<rparr>, evs) (\<lambda>x. ev_timeout (evs x)) ys r"
    and m: "mset ys = mset (heap_elems s) - {#e#}"
  shows "\<exists>s' evs'. r = Some (s', evs') \<and> heap_ok s' (min_heap_elem_init evs' e) \<and>
           mset (heap_elems s') = mset (heap_elems s) - {#e#} \<and>
           reindexed evs (min_heap_elem_init evs' e) (set (heap_elems s))"
proof -
  let ?k = "\<lambda>x. ev_timeout (evs x)"
  obtain s' evs' ys' where r: "r = Some (s', evs')" and H: "holed s' evs' ?k ys' (length ys')"
      and ho: "heap_order ?k ys'" and my: "mset ys' = mset ys"
      and K: "kept (s\<lparr>hn := hn s - 1\<rparr>, evs) (s', evs') (set ys)"
    using S by (auto simp: sifted_def)
  have d: "distinct (heap_elems s)" using ok unfolding heap_ok_def holed_def by blast
  have c1: "count (mset (heap_elems s)) e = 1" using d e unfolding distinct_count_atmost_1 by simp
  have "count (mset ys') e = 0" unfolding my m using c1 by simp
  then have "e \<notin> set ys'" by (metis count_eq_zero_iff set_mset_mset)
  then have H': "holed s' (min_heap_elem_init evs' e) ?k ys' (length ys')" by (rule holed_elem_init [OF H])
  have "size (mset ys') = hn s - 1"
    using my m e length_heap_elems [OF ok] by (simp add: size_Diff_singleton)
  then have "hn s' = length ys'" "length (hp s') = ha s'" using K ok by (simp_all add: kept_def heap_ok_def)
  then have "heap_ok s' (min_heap_elem_init evs' e) \<and> heap_elems s' = ys'"
    using heap_okI [OF H' ho] by simp
  moreover have "set ys \<subseteq> set (heap_elems s)"
    using m by (metis diff_subset_eq_self set_mset_mono set_mset_mset)
  then have "reindexed evs (min_heap_elem_init evs' e) (set (heap_elems s))"
    using reindexed_elem_init [OF kept_reindexed [OF K] e] by simp
  ultimately show ?thesis using r my m by simp
qed

lemma heap_index:
  assumes "heap_ok s evs" "e \<in> set (heap_elems s)"
  obtains i where "i < hn s" "heap_elems s ! i = e" "min_heap_idx (evs e) = int i"
  using assms heap_elems_at(2) [OF assms(1)] length_heap_elems [OF assms(1)]
  by (auto simp: in_set_conv_nth)

lemma hole_of_int: "i < 2 ^ 32 \<Longrightarrow> hole_of (int i) = i"
  by (simp add: hole_of_def)

lemma hole_of_0 [simp]: "hole_of 0 = 0"
  by (simp add: hole_of_def)

lemma settle_last:
  assumes ok: "heap_ok s evs" and i: "hn s = Suc i" and e: "e = heap_elems s ! i"
  shows "sifted (s\<lparr>hn := hn s - 1\<rparr>, evs) (\<lambda>x. ev_timeout (evs x)) (butlast (heap_elems s))
           (p_put (s\<lparr>hn := hn s - 1\<rparr>) evs i e)"
proof -
  let ?xs = "heap_elems s" and ?k = "\<lambda>x. ev_timeout (evs x)"
  have l: "length ?xs = Suc i" using length_heap_elems [OF ok] i by simp
  have H: "holed s evs ?k ?xs (hn s)" using ok by (simp add: heap_ok_def)
  then have sm: "Suc i < 2 ^ 31" "Suc i \<le> length (hp s)" "distinct ?xs" using l unfolding holed_def by simp_all
  have ne: "?xs ! j \<noteq> e" if "j < i" for j using sm(3) l that e by (simp add: nth_eq_iff_index_eq)
  have xs: "?xs = butlast ?xs @ [e]"
    using l e by (metis append_butlast_last_id last_conv_nth length_0_conv nat.simps(3) diff_Suc_1)
  have el: "e \<notin> set (butlast ?xs)" using sm(3) xs by (metis distinct_append not_distinct_conv_prefix)
  let ?s = "s\<lparr>hn := hn s - 1, hp := (hp s)[i := Some e]\<rparr>"
  let ?evs = "evs(e := (evs e)\<lparr>min_heap_idx := int i\<rparr>)"
  have put: "p_put (s\<lparr>hn := hn s - 1\<rparr>) evs i e = Some (?s, ?evs)"
    using sm by (simp add: p_put_def idx_of_def)
  have "holed ?s ?evs ?k (butlast ?xs) (length (butlast ?xs))"
    using sm l ne heap_elems_at [OF ok] i by (auto simp: holed_def nth_butlast distinct_butlast)
  moreover have "heap_order ?k (butlast ?xs)"
    using ok l par_le by (auto simp: heap_ok_def heap_order_def nth_butlast le_less_trans [OF par_le])
  moreover have "evs e = (evs e)\<lparr>min_heap_idx := int i\<rparr>"
    using heap_elems_at(2) [OF ok, of i] i e by simp
  then have "?evs = evs" by (metis fun_upd_triv)
  then have "kept (s\<lparr>hn := hn s - 1\<rparr>, evs) (?s, ?evs) (set (butlast ?xs))" by (simp add: kept_def)
  ultimately show ?thesis unfolding sifted_def put by blast
qed

lemma erase_ok:
  assumes ok: "heap_ok s evs" and e: "e \<in> set (heap_elems s)"
  shows "\<exists>s' evs'. min_heap_erase s evs e = Some (s', evs', 0) \<and> heap_ok s' evs' \<and>
           mset (heap_elems s') = mset (heap_elems s) - {#e#} \<and>
           reindexed evs evs' (set (heap_elems s))"
proof -
  let ?xs = "heap_elems s" and ?k = "\<lambda>x. ev_timeout (evs x)" and ?s1 = "s\<lparr>hn := hn s - 1\<rparr>"
  obtain i where i: "i < hn s" "?xs ! i = e" "min_heap_idx (evs e) = int i"
    using ok e by (rule heap_index)
  have l: "length ?xs = hn s" using ok by (rule length_heap_elems)
  have H: "holed s evs ?k ?xs (hn s)" using ok by (simp add: heap_ok_def)
  have n: "hn s < 2 ^ 31" using H l unfolding holed_def by simp
  have dec: "(hn s + 2 ^ 32 - 1) mod 2 ^ 32 = hn s - 1" using i n dec32 [of "hn s"] by simp
  have lst: "last ?xs = ?xs ! (hn s - 1)" using l i by (metis last_conv_nth length_0_conv less_nat_zero_code)
  have at: "p_at ?s1 j = Some (?xs ! j)" if "j < hn s" for j
    using that heap_elems_at(1) [OF ok that] ok by (auto simp: p_at_def heap_ok_def)
  have G: "min_heap_elem_greater evs x y \<longleftrightarrow> ?k y < ?k x" for x y using greater_key [OF H] .
  have pi: "nat ((int i - 1) div 2) = par i" by (simp add: par_def zdiv_int of_nat_diff)
  define up where "up \<longleftrightarrow> 0 < i \<and> ?k (last ?xs) < ?k (?xs ! par i)"
  define r where "r = (if up then min_heap_shift_up ?s1 evs i (last ?xs)
                       else min_heap_shift_down ?s1 evs i (last ?xs))"
  have E: "min_heap_erase s evs e = do { (s', evs') \<leftarrow> r; Some (s', min_heap_elem_init evs' e, 0) }"
    unfolding min_heap_erase_def dec i(3) r_def up_def
    using i at [of "hn s - 1"] at [of "par i"] par_less [of i] n
    by (auto simp: pi G lst hole_of_int Let_def)
  define ys where "ys = (if i < hn s - 1 then (butlast ?xs)[i := last ?xs] else butlast ?xs)"
  have S: "sifted (?s1, evs) ?k ys r"
  proof (cases "i < hn s - 1")
    case True
    have ho: "heap_order ?k ?xs" using ok by (simp add: heap_ok_def)
    have h: "holed ?s1 evs ?k ys i" "i < length ys" "ys ! i = last ?xs"
      using holed_erase [OF ok True] True l by (simp_all add: ys_def)
    have o1: "up \<Longrightarrow> up_order ?k ys i" and o2: "\<not> up \<Longrightarrow> down_order ?k ys i"
      using erase_order [OF ho, of i] True l by (auto simp: ys_def up_def)
    show ?thesis
      unfolding r_def using shift_up_ok [OF h(1,2) o1] shift_down_ok [OF h(1) _ h(2) o2] h(3) True l
      by (auto simp: ys_def)
  next
    case False
    then have ie: "hn s = Suc i" using i by simp
    have "\<not> up" using ok i lst ie l by (auto simp: up_def heap_ok_def heap_order_def)
    moreover have "down_child i = 2 * i + 2" using n ie by (simp add: down_child_def)
    ultimately have "r = p_put ?s1 evs i e"
      using ie lst i by (simp add: r_def) (subst min_heap_shift_down.simps, simp)
    then show ?thesis using settle_last [OF ok ie, of e] i False by (simp add: ys_def)
  qed
  have m: "mset ys = mset ?xs - {#e#}"
  proof (cases "i < hn s - 1")
    case True
    then show ?thesis using mset_erase [of i ?xs] l i by (simp add: ys_def)
  next
    case False
    then have "?xs = butlast ?xs @ [e]"
      using i l lst by (metis append_butlast_last_id diff_Suc_1 length_0_conv less_SucE less_antisym
        less_nat_zero_code not_less_eq Suc_diff_1 less_Suc_eq_0_disj)
    then have "mset ?xs = add_mset e (mset (butlast ?xs))" by (metis mset_append mset.simps add_mset_add_single)
    then show ?thesis using False by (simp add: ys_def)
  qed
  show ?thesis using erase_close [OF ok e S m] E by auto
qed

lemma pop_erase:
  assumes ok: "heap_ok s evs" and x: "heap_elems s = e # es"
  shows "min_heap_pop s evs = map_option (\<lambda>(s', evs', _). (s', evs', Some e)) (min_heap_erase s evs e)"
proof -
  have l: "length (heap_elems s) = hn s" using ok by (rule length_heap_elems)
  have n: "0 < hn s" "hn s < 2 ^ 31" using ok l x unfolding heap_ok_def holed_def by simp_all
  have dec: "(hn s + 2 ^ 32 - 1) mod 2 ^ 32 = hn s - 1" using n dec32 [of "hn s"] by simp
  have at: "p_at s 0 = Some e" "min_heap_idx (evs e) = 0"
    using heap_elems_at [OF ok, of 0] n x ok by (auto simp: p_at_def heap_ok_def)
  have pa: "p_at (s\<lparr>hn := m\<rparr>) i = p_at s i" for m i by (simp add: p_at_def)
  show ?thesis
    unfolding min_heap_pop_def min_heap_erase_def dec
    using n at by (auto simp: pa hole_of_def Let_def split: bind_splits)
qed

end
