(* ===== verification/EventInv.thy ===== *)
theory EventInv
  imports EventLoop MinHeapProofs
begin

text \<open>
  The invariant of an event base: the flags of an event say which queues it is on, the queues
  have no duplicates, common timeout queues are in order, the timeouts form a heap, and the two
  counters count. Every operation on events keeps it.
\<close>

section \<open>Flags\<close>

named_theorems flag_simps "single flags of an event"

lemma has_bit: "has x (2 ^ n) \<longleftrightarrow> bit x n" for x :: u16
  by (simp add: and_exp_eq_0_iff_not_bit)

lemma has_flags [flag_simps]:
  "has x 1 \<longleftrightarrow> bit x 0" "has x 2 \<longleftrightarrow> bit x 1" "has x 4 \<longleftrightarrow> bit x 2" "has x 8 \<longleftrightarrow> bit x 3"
  "has x 16 \<longleftrightarrow> bit x 4" for x :: u16
  using has_bit [of x 0] has_bit [of x 1] has_bit [of x 2] has_bit [of x 3] has_bit [of x 4] by simp_all

lemma bit_flag:
  "bit (1 :: u16) n \<longleftrightarrow> n = 0" "bit (2 :: u16) n \<longleftrightarrow> n = 1" "bit (8 :: u16) n \<longleftrightarrow> n = 3"
  using bit_exp_iff [where 'a = "16 word", of 0 n] bit_exp_iff [where 'a = "16 word", of 1 n]
    bit_exp_iff [where 'a = "16 word", of 3 n]
  by (auto dest: bit_imp_le_length)

lemma bit_or_flag [flag_simps]:
  "bit (x OR 1) n \<longleftrightarrow> bit x n \<or> n = 0" "bit (x OR 2) n \<longleftrightarrow> bit x n \<or> n = 1"
  "bit (x OR 8) n \<longleftrightarrow> bit x n \<or> n = 3" for x :: u16
  by (simp_all only: bit_or_iff bit_flag)

lemma bit_clear_flag [flag_simps]:
  "bit (x AND NOT 1) n \<longleftrightarrow> bit x n \<and> n \<noteq> 0" "bit (x AND NOT 2) n \<longleftrightarrow> bit x n \<and> n \<noteq> 1"
  "bit (x AND NOT 8) n \<longleftrightarrow> bit x n \<and> n \<noteq> 3" for x :: u16
  by (auto simp only: bit_and_iff bit_not_iff bit_flag dest: bit_imp_le_length) (auto dest: bit_imp_le_length simp: possible_bit_word)

lemma bit_clear_neg [flag_simps]:
  "bit (x AND - 2) n \<longleftrightarrow> bit x n \<and> n \<noteq> 0" "bit (x AND - 3) n \<longleftrightarrow> bit x n \<and> n \<noteq> 1"
  "bit (x AND - 9) n \<longleftrightarrow> bit x n \<and> n \<noteq> 3" for x :: u16
  using bit_clear_flag [of x n] by simp_all

abbreviation is_tmo :: "event \<Rightarrow> bool" where "is_tmo e \<equiv> bit (ev_flags e) 0"
abbreviation is_ins :: "event \<Rightarrow> bool" where "is_ins e \<equiv> bit (ev_flags e) 1"
abbreviation is_act :: "event \<Rightarrow> bool" where "is_act e \<equiv> bit (ev_flags e) 3"

lemma internal_bit: "internal e \<longleftrightarrow> bit (ev_flags e) 4"
  by (simp add: internal_def flag_simps)

text \<open>The assertion that no flag is set outside \<open>EVLIST_ALL\<close>.\<close>

definition flags_valid :: "u16 \<Rightarrow> bool" where
  "flags_valid f \<longleftrightarrow> f AND NOT EVLIST_ALL = 0"

lemma and_not_or_zero: "x AND NOT a = 0 \<Longrightarrow> f AND NOT a = 0 \<Longrightarrow> (x OR f) AND NOT a = 0" for x f a :: u16
  by (simp add: bit.conj_disj_distrib2)

lemma and_not_and_zero: "x AND NOT a = 0 \<Longrightarrow> (x AND f) AND NOT a = 0" for x f a :: u16
  by (metis and.assoc and.commute and.right_idem and_zero_eq)

lemma flags_valid_or [flag_simps]:
  "flags_valid x \<Longrightarrow> flags_valid (x OR 1)" "flags_valid x \<Longrightarrow> flags_valid (x OR 2)"
  "flags_valid x \<Longrightarrow> flags_valid (x OR 8)"
  unfolding flags_valid_def by (rule and_not_or_zero, assumption, simp)+

lemma flags_valid_and [flag_simps]: "flags_valid x \<Longrightarrow> flags_valid (x AND f)"
  unfolding flags_valid_def by (rule and_not_and_zero)

section \<open>The invariant\<close>

definition heap_part :: "'b event_base \<Rightarrow> bool" where
  "heap_part base \<longleftrightarrow> heap_ok (timeheap base) (evs base) \<and>
     (\<forall>e. e \<in> set (heap_elems (timeheap base)) \<longleftrightarrow>
          is_tmo (evs base e) \<and> \<not> is_common_timeout (ev_timeout (evs base e)) base)"

text \<open>A common timeout queue: in order, and all its events of its duration.\<close>

definition common_queue_ok :: "'b event_base \<Rightarrow> nat \<Rightarrow> common_timeout_list \<Rightarrow> bool" where
  "common_queue_ok base i c \<longleftrightarrow>
     distinct (ctl_events c) \<and>
     sorted_wrt (\<lambda>a b. ev_timeout (evs base a) \<le> ev_timeout (evs base b)) (ctl_events c) \<and>
     is_common_timeout (duration c) base \<and> COMMON_TIMEOUT_IDX (duration c) = i \<and>
     (\<forall>e \<in> set (ctl_events c). is_same_common_timeout (ev_timeout (evs base e)) (duration c)) \<and>
     (\<forall>e. e \<in> set (ctl_events c) \<longleftrightarrow> is_tmo (evs base e) \<and>
        is_common_timeout (ev_timeout (evs base e)) base \<and> COMMON_TIMEOUT_IDX (ev_timeout (evs base e)) = i)"

definition common_part :: "'b event_base \<Rightarrow> bool" where
  "common_part base \<longleftrightarrow>
     (\<forall>i < length (common_timeout_queues base). common_queue_ok base i (common_timeout_queues base ! i))"

definition ins_part :: "'b event_base \<Rightarrow> bool" where
  "ins_part base \<longleftrightarrow> distinct (eventqueue base) \<and> (\<forall>e. e \<in> set (eventqueue base) \<longleftrightarrow> is_ins (evs base e))"

definition act_part :: "'b event_base \<Rightarrow> bool" where
  "act_part base \<longleftrightarrow>
     (\<forall>p < nactivequeues base. distinct (activequeues base ! p) \<and>
        (\<forall>e. e \<in> set (activequeues base ! p) \<longleftrightarrow> is_act (evs base e) \<and> ev_pri (evs base e) = p)) \<and>
     (\<forall>e. is_act (evs base e) \<longrightarrow> ev_pri (evs base e) < nactivequeues base)"

text \<open>Everything that is queued, an event once for each queue it is on.\<close>

definition queued :: "'b event_base \<Rightarrow> nat multiset" where
  "queued base = mset (heap_elems (timeheap base)) +
     mset (concat (map ctl_events (common_timeout_queues base))) +
     mset (eventqueue base) + mset (concat (activequeues base))"

definition count_part :: "'b event_base \<Rightarrow> bool" where
  "count_part base \<longleftrightarrow>
     event_count base = int (size (filter_mset (\<lambda>e. \<not> internal (evs base e)) (queued base))) \<and>
     event_count_active base = int (length (concat (activequeues base)))"

definition flag_part :: "'b event_base \<Rightarrow> bool" where
  "flag_part base \<longleftrightarrow>
     (\<forall>e. flags_valid (ev_flags (evs base e)) \<and>
          (is_tmo (evs base e) \<or> is_ins (evs base e) \<or> is_act (evs base e) \<longrightarrow> ev_base (evs base e)))"

definition core_ok :: "'b event_base \<Rightarrow> bool" where
  "core_ok base \<longleftrightarrow> heap_part base \<and> common_part base \<and> ins_part base \<and> act_part base \<and>
     count_part base \<and> flag_part base"

text \<open>The maps: who listens on a descriptor or signal, and how many of them read and write.\<close>

abbreviation rw :: "event \<Rightarrow> bool" where "rw e \<equiv> has (ev_events e) (EV_READ OR EV_WRITE)"

definition io_entry_ok :: "'b event_base \<Rightarrow> int \<Rightarrow> evmap_io \<Rightarrow> bool" where
  "io_entry_ok base fd c \<longleftrightarrow>
     distinct (io_events c) \<and>
     nread c = length (filter (\<lambda>e. has (ev_events (evs base e)) EV_READ) (io_events c)) \<and>
     nwrite c = length (filter (\<lambda>e. has (ev_events (evs base e)) EV_WRITE) (io_events c)) \<and>
     (\<forall>e. e \<in> set (io_events c) \<longleftrightarrow> is_ins (evs base e) \<and> rw (evs base e) \<and> ev_fd (evs base e) = fd)"

definition io_part :: "'b event_base \<Rightarrow> bool" where
  "io_part base \<longleftrightarrow>
     (\<forall>i < length (io base). \<forall>c. io base ! i = Some c \<longrightarrow> io_entry_ok base (int i) c) \<and>
     (\<forall>e. is_ins (evs base e) \<and> rw (evs base e) \<and> 0 \<le> ev_fd (evs base e) \<longrightarrow>
          nat (ev_fd (evs base e)) < length (io base) \<and> io base ! nat (ev_fd (evs base e)) \<noteq> None)"

definition sig_part :: "'b event_base \<Rightarrow> bool" where
  "sig_part base \<longleftrightarrow>
     (\<forall>i < length (sigmap base). \<forall>q. sigmap base ! i = Some q \<longrightarrow> distinct q \<and>
        (\<forall>e. e \<in> set q \<longleftrightarrow> is_ins (evs base e) \<and> \<not> rw (evs base e) \<and> ev_fd (evs base e) = int i)) \<and>
     (\<forall>e. is_ins (evs base e) \<and> \<not> rw (evs base e) \<longrightarrow> 0 \<le> ev_fd (evs base e) \<and>
          nat (ev_fd (evs base e)) < length (sigmap base) \<and> sigmap base ! nat (ev_fd (evs base e)) \<noteq> None)"

definition base_ok :: "'b event_base \<Rightarrow> bool" where
  "base_ok base \<longleftrightarrow> core_ok base \<and> io_part base \<and> sig_part base"

section \<open>What an operation leaves alone\<close>

text \<open>
  \<open>retag b b' ev g\<close>: the flags of \<open>ev\<close> went through \<open>g\<close>; otherwise at most heap indices changed.
\<close>

definition retag :: "'b event_base \<Rightarrow> 'b event_base \<Rightarrow> nat \<Rightarrow> (u16 \<Rightarrow> u16) \<Rightarrow> bool" where
  "retag b b' ev g \<longleftrightarrow>
     (\<forall>x. evs b' x = (evs b x)\<lparr>ev_flags := (if x = ev then g (ev_flags (evs b x)) else ev_flags (evs b x)),
                               min_heap_idx := min_heap_idx (evs b' x)\<rparr>)"

lemma retagD:
  assumes "retag b b' ev g"
  shows "ev_flags (evs b' x) = (if x = ev then g (ev_flags (evs b x)) else ev_flags (evs b x))"
    "ev_timeout (evs b' x) = ev_timeout (evs b x)" "ev_pri (evs b' x) = ev_pri (evs b x)"
    "ev_fd (evs b' x) = ev_fd (evs b x)" "ev_events (evs b' x) = ev_events (evs b x)"
    "ev_base (evs b' x) = ev_base (evs b x)" "ev_res (evs b' x) = ev_res (evs b x)"
    "ev_io_timeout (evs b' x) = ev_io_timeout (evs b x)" "ev_closure (evs b' x) = ev_closure (evs b x)"
    "ev_callback (evs b' x) = ev_callback (evs b x)" "ev_ncalls (evs b' x) = ev_ncalls (evs b x)"
    "ev_pncalls (evs b' x) = ev_pncalls (evs b x)"
proof -
  have *: "evs b' x = (evs b x)\<lparr>ev_flags := (if x = ev then g (ev_flags (evs b x)) else ev_flags (evs b x)),
                               min_heap_idx := min_heap_idx (evs b' x)\<rparr>"
    using assms by (simp add: retag_def)
  show "ev_flags (evs b' x) = (if x = ev then g (ev_flags (evs b x)) else ev_flags (evs b x))"
    "ev_timeout (evs b' x) = ev_timeout (evs b x)" "ev_pri (evs b' x) = ev_pri (evs b x)"
    "ev_fd (evs b' x) = ev_fd (evs b x)" "ev_events (evs b' x) = ev_events (evs b x)"
    "ev_base (evs b' x) = ev_base (evs b x)" "ev_res (evs b' x) = ev_res (evs b x)"
    "ev_io_timeout (evs b' x) = ev_io_timeout (evs b x)" "ev_closure (evs b' x) = ev_closure (evs b x)"
    "ev_callback (evs b' x) = ev_callback (evs b x)" "ev_ncalls (evs b' x) = ev_ncalls (evs b x)"
    "ev_pncalls (evs b' x) = ev_pncalls (evs b x)"
    by (subst *, simp)+
qed

text \<open>Each part of the invariant reads few fields.\<close>

lemma heap_ok_cong:
  assumes "\<And>x. ev_timeout (evs' x) = ev_timeout (es x)" "\<And>x. min_heap_idx (evs' x) = min_heap_idx (es x)"
  shows "heap_ok s evs' = heap_ok s es"
  using assms by (simp add: heap_ok_def holed_def)

lemma is_common_cong:
  "length (common_timeout_queues b') = length (common_timeout_queues b) \<Longrightarrow>
     is_common_timeout tv b' = is_common_timeout tv b"
  by (simp add: is_common_timeout_def)

lemma ins_part_cong:
  "eventqueue b' = eventqueue b \<Longrightarrow> (\<And>x. is_ins (evs b' x) = is_ins (evs b x)) \<Longrightarrow> ins_part b' = ins_part b"
  by (simp add: ins_part_def)

lemma act_part_cong:
  "activequeues b' = activequeues b \<Longrightarrow> (\<And>x. is_act (evs b' x) = is_act (evs b x)) \<Longrightarrow>
     (\<And>x. ev_pri (evs b' x) = ev_pri (evs b x)) \<Longrightarrow> act_part b' = act_part b"
  by (simp add: act_part_def nactivequeues_def)

lemma common_part_cong:
  "common_timeout_queues b' = common_timeout_queues b \<Longrightarrow> (\<And>x. is_tmo (evs b' x) = is_tmo (evs b x)) \<Longrightarrow>
     (\<And>x. ev_timeout (evs b' x) = ev_timeout (evs b x)) \<Longrightarrow> common_part b' = common_part b"
  by (simp add: common_part_def common_queue_ok_def is_common_timeout_def)

lemma heap_part_cong:
  "timeheap b' = timeheap b \<Longrightarrow> common_timeout_queues b' = common_timeout_queues b \<Longrightarrow>
     (\<And>x. is_tmo (evs b' x) = is_tmo (evs b x)) \<Longrightarrow> (\<And>x. ev_timeout (evs b' x) = ev_timeout (evs b x)) \<Longrightarrow>
     (\<And>x. min_heap_idx (evs b' x) = min_heap_idx (evs b x)) \<Longrightarrow> heap_part b' = heap_part b"
  using heap_ok_cong [of "evs b'" "evs b" "timeheap b"] by (simp add: heap_part_def is_common_timeout_def)

lemma io_part_cong:
  "io b' = io b \<Longrightarrow> (\<And>x. is_ins (evs b' x) = is_ins (evs b x)) \<Longrightarrow>
     (\<And>x. ev_events (evs b' x) = ev_events (evs b x)) \<Longrightarrow> (\<And>x. ev_fd (evs b' x) = ev_fd (evs b x)) \<Longrightarrow>
     io_part b' = io_part b"
  by (simp add: io_part_def io_entry_ok_def)

lemma sig_part_cong:
  "sigmap b' = sigmap b \<Longrightarrow> (\<And>x. is_ins (evs b' x) = is_ins (evs b x)) \<Longrightarrow>
     (\<And>x. ev_events (evs b' x) = ev_events (evs b x)) \<Longrightarrow> (\<And>x. ev_fd (evs b' x) = ev_fd (evs b x)) \<Longrightarrow>
     sig_part b' = sig_part b"
  by (simp add: sig_part_def)

lemma mset_concat_update:
  "i < length xs \<Longrightarrow> mset (concat (xs[i := q])) + mset (xs ! i) = mset (concat xs) + mset q"
  by (induction xs arbitrary: i) (auto split: nat.split simp: ac_simps less_Suc_eq_0_disj)

lemma concat_remove1:
  assumes "i < length xs" "e \<in> set (xs ! i)"
  shows "mset (concat xs) = add_mset e (mset (concat (xs[i := remove1 e (xs ! i)])))"
proof -
  have "mset (xs ! i) = add_mset e (mset (remove1 e (xs ! i)))" using assms(2) by simp
  then have "mset (concat (xs[i := remove1 e (xs ! i)])) + add_mset e (mset (remove1 e (xs ! i))) =
      mset (concat xs) + mset (remove1 e (xs ! i))"
    using mset_concat_update [OF assms(1), of "remove1 e (xs ! i)"] by (simp only:)
  then show ?thesis by (metis add_right_cancel union_mset_add_mset_left union_mset_add_mset_right)
qed

lemma concat_insert:
  assumes "i < length xs" "mset q = add_mset e (mset (xs ! i))"
  shows "mset (concat (xs[i := q])) = add_mset e (mset (concat xs))"
  using mset_concat_update [OF assms(1), of q] assms(2) by simp

section \<open>Leaving a queue\<close>

text \<open>What \<open>event_queue_remove\<close> does before the switch, and its part of the count.\<close>

definition left :: "'b event_base \<Rightarrow> nat \<Rightarrow> u16 \<Rightarrow> 'b event_base" where
  "left b ev f = b\<lparr>event_count := (if internal (evs b ev) then event_count b else event_count b - 1),
                   evs := (evs b)(ev := (evs b ev)\<lparr>ev_flags := ev_flags (evs b ev) AND NOT f\<rparr>)\<rparr>"

lemma queue_leave_eq: "has (ev_flags (evs b ev)) f \<Longrightarrow> queue_leave b ev f = Some (left b ev f)"
  by (simp add: queue_leave_def left_def upd_event_def)

lemma left_simps [simp]:
  "eventqueue (left b ev f) = eventqueue b" "activequeues (left b ev f) = activequeues b"
  "common_timeout_queues (left b ev f) = common_timeout_queues b" "timeheap (left b ev f) = timeheap b"
  "event_count_active (left b ev f) = event_count_active b" "io (left b ev f) = io b"
  "sigmap (left b ev f) = sigmap b" "evbase (left b ev f) = evbase b"
  "nactivequeues (left b ev f) = nactivequeues b"
  by (simp_all add: left_def nactivequeues_def)

lemma is_common_left [simp]: "is_common_timeout t (left b ev f) = is_common_timeout t b"
  by (simp add: is_common_timeout_def)

lemma retag_left: "retag b (left b ev f) ev (\<lambda>x. x AND NOT f)"
  by (simp add: retag_def left_def)

lemma left_idx: "min_heap_idx (evs (left b ev f) x) = min_heap_idx (evs b x)"
  by (simp add: left_def)

lemma count_left:
  assumes "count_part b" "queued b' = queued b - {#ev#}" "ev \<in># queued b"
    "event_count b' = event_count (left b ev f)" "\<And>x. internal (evs b' x) = internal (evs b x)"
    "event_count_active b' = int (length (concat (activequeues b')))"
  shows "count_part b'"
proof -
  obtain M where M: "queued b = add_mset ev M" using assms(3) by (metis insert_DiffM)
  have "size (filter_mset (\<lambda>e. \<not> internal (evs b e)) (queued b)) =
      size (filter_mset (\<lambda>e. \<not> internal (evs b e)) (queued b - {#ev#})) + (if internal (evs b ev) then 0 else 1)"
    unfolding M by simp
  moreover have "event_count b = int (size (filter_mset (\<lambda>e. \<not> internal (evs b e)) (queued b)))"
    using assms(1) unfolding count_part_def by blast
  ultimately have "event_count b' = int (size (filter_mset (\<lambda>e. \<not> internal (evs b e)) (queued b - {#ev#})))"
    unfolding assms(4) left_def by (cases "internal (evs b ev)") simp_all
  then show ?thesis unfolding count_part_def assms(2,5) using assms(6) by simp
qed

lemma flag_part_retag:
  assumes "flag_part b" "retag b b' ev g" "\<And>x. flags_valid x \<Longrightarrow> flags_valid (g x)"
    "\<And>x n. n \<in> {0, 1, 3} \<Longrightarrow> bit (g x) n \<Longrightarrow> bit x n \<or> ev_base (evs b ev)"
  shows "flag_part b'"
  using assms(1,3,4) retagD(1,6) [OF assms(2)] by (auto simp: flag_part_def)

lemma tailq_remove_in: "ev \<in> set q \<Longrightarrow> tailq_remove q ev = Some (remove1 ev q)"
  by (simp add: tailq_remove_def)

lemma queued_parts:
  "queued b = mset (heap_elems (timeheap b)) + mset (concat (map ctl_events (common_timeout_queues b))) +
     mset (eventqueue b) + mset (concat (activequeues b))"
  by (simp add: queued_def)

lemma remove_active_ok:
  assumes ok: "core_ok b" and act: "is_act (evs b ev)"
  shows "\<exists>b'. event_queue_remove_active b ev = Some b' \<and> core_ok b' \<and> retag b b' ev (\<lambda>f. f AND NOT 8) \<and>
           b' = (left b ev 8)\<lparr>event_count_active := event_count_active b - 1,
                  activequeues := (activequeues b)[ev_pri (evs b ev) :=
                    remove1 ev (activequeues b ! ev_pri (evs b ev))]\<rparr>"
proof -
  let ?p = "ev_pri (evs b ev)"
  let ?b = "(left b ev 8)\<lparr>event_count_active := event_count_active b - 1,
                  activequeues := (activequeues b)[?p := remove1 ev (activequeues b ! ?p)]\<rparr>"
  have p: "?p < length (activequeues b)" "ev \<in> set (activequeues b ! ?p)" and A: "act_part b"
    using ok act by (auto simp: core_ok_def act_part_def nactivequeues_def)
  have R: "retag b ?b ev (\<lambda>f. f AND NOT 8)" using retag_left [of b ev 8] by (simp add: retag_def)
  note D = retagD [OF retag_left [of b ev 8]]
  have step: "event_queue_remove_active b ev = Some ?b"
    unfolding event_queue_remove_active_def
    using p by (simp add: queue_leave_eq act flag_simps active_queue_def nactivequeues_def tailq_remove_in retagD [OF retag_left] Let_def)
  have "act_part ?b"
    using A p unfolding act_part_def
    by (auto simp: nactivequeues_def nth_list_update D(1,3) flag_simps)
  moreover have "ins_part ?b = ins_part b" by (rule ins_part_cong) (simp_all add: D flag_simps)
  moreover have "common_part ?b = common_part b" by (rule common_part_cong) (simp_all add: D flag_simps)
  moreover have "heap_part ?b = heap_part b" by (rule heap_part_cong) (simp_all add: D flag_simps left_idx)
  moreover have "flag_part ?b" by (rule flag_part_retag [OF _ R]) (use ok in \<open>auto simp: core_ok_def flag_simps\<close>)
  moreover have "count_part ?b"
  proof (rule count_left)
    show "count_part b" using ok by (simp add: core_ok_def)
    have cr: "mset (concat (activequeues b)) = add_mset ev (mset (concat (activequeues ?b)))"
      using concat_remove1 [OF p] by simp
    show "queued ?b = queued b - {#ev#}" "ev \<in># queued b"
      by (simp_all add: queued_parts cr)
    have "length (concat (activequeues b)) = Suc (length (concat (activequeues ?b)))"
      using cr by (metis size_mset size_add_mset)
    then show "event_count_active ?b = int (length (concat (activequeues ?b)))"
      using ok by (simp add: core_ok_def count_part_def)
  qed (simp_all add: internal_bit D flag_simps)
  ultimately show ?thesis using step R ok by (simp add: core_ok_def)
qed

lemma remove_inserted_ok:
  assumes ok: "core_ok b" and ins: "is_ins (evs b ev)"
  shows "\<exists>b'. event_queue_remove_inserted b ev = Some b' \<and> core_ok b' \<and> retag b b' ev (\<lambda>f. f AND NOT 2) \<and>
           b' = (left b ev 2)\<lparr>eventqueue := remove1 ev (eventqueue b)\<rparr>"
proof -
  let ?b = "(left b ev 2)\<lparr>eventqueue := remove1 ev (eventqueue b)\<rparr>"
  have p: "ev \<in> set (eventqueue b)" and I: "ins_part b"
    using ok ins by (auto simp: core_ok_def ins_part_def)
  have R: "retag b ?b ev (\<lambda>f. f AND NOT 2)" using retag_left [of b ev 2] by (simp add: retag_def)
  note D = retagD [OF retag_left [of b ev 2]]
  have step: "event_queue_remove_inserted b ev = Some ?b"
    unfolding event_queue_remove_inserted_def
    using p by (simp add: queue_leave_eq ins [simplified] flag_simps tailq_remove_in)
  have "ins_part ?b" using I by (auto simp: ins_part_def D(1) flag_simps)
  moreover have "act_part ?b = act_part b" by (rule act_part_cong) (simp_all add: D flag_simps)
  moreover have "common_part ?b = common_part b" by (rule common_part_cong) (simp_all add: D flag_simps)
  moreover have "heap_part ?b = heap_part b" by (rule heap_part_cong) (simp_all add: D flag_simps left_idx)
  moreover have "flag_part ?b" by (rule flag_part_retag [OF _ R]) (use ok in \<open>auto simp: core_ok_def flag_simps\<close>)
  moreover have "count_part ?b"
  proof (rule count_left)
    show "count_part b" using ok by (simp add: core_ok_def)
    show "queued ?b = queued b - {#ev#}" "ev \<in># queued b" using p by (simp_all add: queued_parts)
    show "event_count_active ?b = int (length (concat (activequeues ?b)))"
      using ok by (simp add: core_ok_def count_part_def)
  qed (simp_all add: internal_bit D flag_simps)
  ultimately show ?thesis using step R ok by (simp add: core_ok_def)
qed

text \<open>Timeouts: on the heap, or on the queue of a common timeout.\<close>

lemma remove_heap_ok:
  assumes ok: "core_ok b" and tmo: "is_tmo (evs b ev)"
    and nc: "\<not> is_common_timeout (ev_timeout (evs b ev)) b"
  shows "\<exists>b' h es. event_queue_remove_timeout b ev = Some b' \<and> core_ok b' \<and> retag b b' ev (\<lambda>f. f AND NOT 1) \<and>
           b' = (left b ev 1)\<lparr>timeheap := h, evs := es\<rparr> \<and>
           mset (heap_elems h) = mset (heap_elems (timeheap b)) - {#ev#}"
proof -
  note D = retagD [OF retag_left [of b ev 1]]
  have H: "heap_part b" using ok by (simp add: core_ok_def)
  then have hin: "ev \<in> set (heap_elems (timeheap b))" and h0: "heap_ok (timeheap b) (evs b)"
    using tmo nc by (auto simp: heap_part_def)
  have "heap_ok (timeheap b) (evs (left b ev 1))" using h0 heap_ok_cong [of "evs (left b ev 1)" "evs b"]
    by (simp add: D left_idx)
  then obtain h es where er: "min_heap_erase (timeheap b) (evs (left b ev 1)) ev = Some (h, es, 0)"
      and ho: "heap_ok h es" and m: "mset (heap_elems h) = mset (heap_elems (timeheap b)) - {#ev#}"
      and ri: "reindexed (evs (left b ev 1)) es (set (heap_elems (timeheap b)))"
    using erase_ok hin by blast
  let ?b = "(left b ev 1)\<lparr>timeheap := h, evs := es\<rparr>"
  have es: "es x = (evs (left b ev 1) x)\<lparr>min_heap_idx := min_heap_idx (es x)\<rparr>" for x
    using ri by (simp add: reindexed_def)
  have R: "retag b ?b ev (\<lambda>f. f AND NOT 1)"
    unfolding retag_def
  proof
    fix x show "evs ?b x = (evs b x)\<lparr>ev_flags := if x = ev then ev_flags (evs b x) AND NOT 1 else ev_flags (evs b x),
        min_heap_idx := min_heap_idx (evs ?b x)\<rparr>"
      using es [of x] by (simp add: left_def split: if_splits)
  qed
  note E = retagD [OF R, simplified]
  have step: "event_queue_remove_timeout b ev = Some ?b"
    unfolding event_queue_remove_timeout_def
    using nc er by (simp add: queue_leave_eq tmo flag_simps D Let_def)
  have "distinct (heap_elems (timeheap b))" using h0 unfolding heap_ok_def holed_def by blast
  then have s: "set (heap_elems h) = set (heap_elems (timeheap b)) - {ev}"
    using m by (metis mset_remove1 set_mset_mset set_remove1_eq)
  have "heap_part ?b"
    using H ho s by (auto simp: heap_part_def E flag_simps is_common_timeout_def)
  moreover have "act_part ?b = act_part b" by (rule act_part_cong) (simp_all add: E flag_simps)
  moreover have "ins_part ?b = ins_part b" by (rule ins_part_cong) (simp_all add: E flag_simps)
  moreover have "common_part ?b"
    using ok nc by (auto simp: core_ok_def common_part_def common_queue_ok_def E flag_simps is_common_timeout_def)
  moreover have "flag_part ?b" by (rule flag_part_retag [OF _ R]) (use ok in \<open>auto simp: core_ok_def flag_simps\<close>)
  moreover have "count_part ?b"
  proof (rule count_left)
    show "count_part b" using ok by (simp add: core_ok_def)
    show "queued ?b = queued b - {#ev#}" "ev \<in># queued b" using m hin by (simp_all add: queued_parts)
    show "event_count_active ?b = int (length (concat (activequeues ?b)))"
      using ok by (simp add: core_ok_def count_part_def)
  qed (simp_all add: internal_bit E flag_simps)
  ultimately show ?thesis using step R m ok by (auto simp: core_ok_def)
qed

lemma sorted_wrt_remove1: "sorted_wrt P xs \<Longrightarrow> sorted_wrt P (remove1 x xs)"
  by (induction xs) (auto dest: set_remove1_subset [THEN subsetD])

lemma remove_common_ok:
  assumes ok: "core_ok b" and tmo: "is_tmo (evs b ev)"
    and c: "is_common_timeout (ev_timeout (evs b ev)) b"
  shows "\<exists>b'. event_queue_remove_timeout b ev = Some b' \<and> core_ok b' \<and> retag b b' ev (\<lambda>f. f AND NOT 1) \<and>
           b' = put_common_timeout_list (left b ev 1) (ev_timeout (evs b ev))
                  (remove1 ev (ctl_events (common_timeout_queues b ! COMMON_TIMEOUT_IDX (ev_timeout (evs b ev)))))"
proof -
  let ?tv = "ev_timeout (evs b ev)" and ?qs = "common_timeout_queues b"
  let ?i = "COMMON_TIMEOUT_IDX ?tv"
  let ?q = "ctl_events (?qs ! ?i)"
  let ?b = "put_common_timeout_list (left b ev 1) ?tv (remove1 ev ?q)"
  note D = retagD [OF retag_left [of b ev 1]]
  have b: "?b = (left b ev 1)\<lparr>common_timeout_queues := ?qs[?i := (?qs ! ?i)\<lparr>ctl_events := remove1 ev ?q\<rparr>]\<rparr>"
    by (simp add: put_common_timeout_list_def)
  have i: "?i < length ?qs" using c by (simp add: is_common_timeout_def)
  have C: "common_part b" using ok by (simp add: core_ok_def)
  then have q: "ev \<in> set ?q" using i c tmo by (auto simp: common_part_def common_queue_ok_def)
  have R: "retag b ?b ev (\<lambda>f. f AND NOT 1)" using retag_left [of b ev 1] by (simp add: retag_def b)
  have step: "event_queue_remove_timeout b ev = Some ?b"
    unfolding event_queue_remove_timeout_def
    using c i q by (simp add: queue_leave_eq tmo flag_simps D Let_def get_common_timeout_list_def tailq_remove_in)
  have L: "is_common_timeout t ?b = is_common_timeout t b" for t
    using i by (simp add: is_common_timeout_def b)
  have "common_part ?b"
    unfolding common_part_def
  proof (intro allI impI)
    fix j assume j: "j < length (common_timeout_queues ?b)"
    then have cq: "common_queue_ok b j (?qs ! j)" using C by (simp add: common_part_def b)
    show "common_queue_ok ?b j (common_timeout_queues ?b ! j)"
    proof (cases "j = ?i")
      case True
      have "sorted_wrt (\<lambda>x y. ev_timeout (evs b x) \<le> ev_timeout (evs b y)) (remove1 ev ?q)"
        using cq True by (intro sorted_wrt_remove1) (simp add: common_queue_ok_def)
      then show ?thesis
        using cq True i L q by (auto simp: common_queue_ok_def b D flag_simps notin_set_remove1)
    next
      case False
      then show ?thesis
        using cq i L q tmo c by (auto simp: common_queue_ok_def b D flag_simps)
    qed
  qed
  moreover have "act_part ?b = act_part b" by (rule act_part_cong) (simp_all add: b D flag_simps)
  moreover have "ins_part ?b = ins_part b" by (rule ins_part_cong) (simp_all add: b D flag_simps)
  moreover have "heap_part ?b"
  proof -
    have "heap_ok (timeheap b) (evs ?b) = heap_ok (timeheap b) (evs b)"
      by (rule heap_ok_cong) (simp_all add: b D left_idx)
    then have "heap_ok (timeheap ?b) (evs ?b)" using ok by (simp add: core_ok_def heap_part_def b)
    moreover have "e \<in> set (heap_elems (timeheap ?b)) \<longleftrightarrow>
        is_tmo (evs ?b e) \<and> \<not> is_common_timeout (ev_timeout (evs ?b e)) ?b" for e
    proof -
      have "e \<in> set (heap_elems (timeheap b)) \<longleftrightarrow> is_tmo (evs b e) \<and> \<not> is_common_timeout (ev_timeout (evs b e)) b"
        using ok unfolding core_ok_def heap_part_def by blast
      then show ?thesis unfolding L using c by (cases "e = ev") (simp_all add: b D flag_simps)
    qed
    ultimately show ?thesis unfolding heap_part_def by blast
  qed
  moreover have "flag_part ?b" by (rule flag_part_retag [OF _ R]) (use ok in \<open>auto simp: core_ok_def flag_simps\<close>)
  moreover have "count_part ?b"
  proof (rule count_left)
    show "count_part b" using ok by (simp add: core_ok_def)
    have "mset (concat (map ctl_events ?qs)) =
        add_mset ev (mset (concat (map ctl_events (common_timeout_queues ?b))))"
      using concat_remove1 [of ?i "map ctl_events ?qs" ev] i q by (simp add: b map_update)
    then show "queued ?b = queued b - {#ev#}" "ev \<in># queued b" by (simp_all add: queued_parts b)
    show "event_count_active ?b = int (length (concat (activequeues ?b)))"
      using ok by (simp add: core_ok_def count_part_def b)
  qed (simp_all add: internal_bit b D flag_simps)
  ultimately show ?thesis using step R ok by (simp add: core_ok_def)
qed

end
