(* ===== verification/EventOps.thy ===== *)
theory EventOps
  imports EventInv
begin

text \<open>
  Deleting, activating and adding an event keep the invariant of the base, and what each of them
  does to the queues. The back ends' \<open>del\<close> is assumed not to fail where that is needed: an event
  whose descriptor it refuses to forget stays in the map.
\<close>

section \<open>Frames\<close>

text \<open>Only the three queue flags of \<open>ev\<close>, and heap indices, changed.\<close>

definition touched :: "'b event_base \<Rightarrow> 'b event_base \<Rightarrow> nat \<Rightarrow> bool" where
  "touched b b' ev \<longleftrightarrow> (\<exists>g. retag b b' ev g \<and> (\<forall>f n. n \<notin> {0, 1, 3} \<longrightarrow> bit (g f) n = bit f n))"

lemma retag_refl: "retag b b ev (\<lambda>f. f)"
  by (simp add: retag_def)

lemma retag_same_evs: "evs b' = evs b \<Longrightarrow> retag b b' ev (\<lambda>f. f)"
  by (simp add: retag_def)

lemma touched_same_evs: "evs b' = evs b \<Longrightarrow> touched b b' ev"
  unfolding touched_def using retag_same_evs [of b' b ev] by blast

lemma retag_trans: "retag a b ev g \<Longrightarrow> retag b c ev h \<Longrightarrow> retag a c ev (\<lambda>f. h (g f))"
  unfolding retag_def
proof
  fix x
  assume ab: "\<forall>x. evs b x = (evs a x)\<lparr>ev_flags := if x = ev then g (ev_flags (evs a x)) else ev_flags (evs a x),
      min_heap_idx := min_heap_idx (evs b x)\<rparr>"
    and bc: "\<forall>x. evs c x = (evs b x)\<lparr>ev_flags := if x = ev then h (ev_flags (evs b x)) else ev_flags (evs b x),
      min_heap_idx := min_heap_idx (evs c x)\<rparr>"
  obtain i where b: "evs b x = (evs a x)\<lparr>ev_flags := if x = ev then g (ev_flags (evs a x)) else ev_flags (evs a x),
      min_heap_idx := i\<rparr>" using ab by blast
  obtain j where c: "evs c x = (evs b x)\<lparr>ev_flags := if x = ev then h (ev_flags (evs b x)) else ev_flags (evs b x),
      min_heap_idx := j\<rparr>" using bc by blast
  show "evs c x = (evs a x)\<lparr>ev_flags := if x = ev then h (g (ev_flags (evs a x))) else ev_flags (evs a x),
      min_heap_idx := min_heap_idx (evs c x)\<rparr>"
    unfolding c b by simp
qed

lemma touched_trans: "touched a b ev \<Longrightarrow> touched b c ev \<Longrightarrow> touched a c ev"
  unfolding touched_def by (metis (no_types, lifting) retag_trans)

lemma touchedI: "retag b b' ev g \<Longrightarrow> (\<And>f n. n \<notin> {0, 1, 3} \<Longrightarrow> bit (g f) n = bit f n) \<Longrightarrow> touched b b' ev"
  by (auto simp: touched_def)

lemma touched_retag [intro]:
  "retag b b' ev (\<lambda>f. f AND NOT 1) \<Longrightarrow> touched b b' ev" "retag b b' ev (\<lambda>f. f AND NOT 2) \<Longrightarrow> touched b b' ev"
  "retag b b' ev (\<lambda>f. f AND NOT 8) \<Longrightarrow> touched b b' ev" "retag b b' ev (\<lambda>f. f OR 1) \<Longrightarrow> touched b b' ev"
  "retag b b' ev (\<lambda>f. f OR 2) \<Longrightarrow> touched b b' ev" "retag b b' ev (\<lambda>f. f OR 8) \<Longrightarrow> touched b b' ev"
  by (erule touchedI, simp add: flag_simps)+

lemma touchedD:
  assumes "touched b b' ev"
  shows "ev_timeout (evs b' x) = ev_timeout (evs b x)" "ev_pri (evs b' x) = ev_pri (evs b x)"
    "ev_fd (evs b' x) = ev_fd (evs b x)" "ev_events (evs b' x) = ev_events (evs b x)"
    "ev_base (evs b' x) = ev_base (evs b x)" "ev_res (evs b' x) = ev_res (evs b x)"
    "ev_io_timeout (evs b' x) = ev_io_timeout (evs b x)" "ev_closure (evs b' x) = ev_closure (evs b x)"
    "ev_callback (evs b' x) = ev_callback (evs b x)" "ev_ncalls (evs b' x) = ev_ncalls (evs b x)"
    "ev_pncalls (evs b' x) = ev_pncalls (evs b x)" "internal (evs b' x) = internal (evs b x)"
    "x \<noteq> ev \<Longrightarrow> ev_flags (evs b' x) = ev_flags (evs b x)"
proof -
  obtain g where g: "retag b b' ev g" "\<And>f n. n \<notin> {0, 1, 3} \<Longrightarrow> bit (g f) n = bit f n"
    using assms unfolding touched_def by blast
  note D = retagD [OF g(1)]
  show "ev_timeout (evs b' x) = ev_timeout (evs b x)" "ev_pri (evs b' x) = ev_pri (evs b x)"
    "ev_fd (evs b' x) = ev_fd (evs b x)" "ev_events (evs b' x) = ev_events (evs b x)"
    "ev_base (evs b' x) = ev_base (evs b x)" "ev_res (evs b' x) = ev_res (evs b x)"
    "ev_io_timeout (evs b' x) = ev_io_timeout (evs b x)" "ev_closure (evs b' x) = ev_closure (evs b x)"
    "ev_callback (evs b' x) = ev_callback (evs b x)" "ev_ncalls (evs b' x) = ev_ncalls (evs b x)"
    "ev_pncalls (evs b' x) = ev_pncalls (evs b x)" "internal (evs b' x) = internal (evs b x)"
    "x \<noteq> ev \<Longrightarrow> ev_flags (evs b' x) = ev_flags (evs b x)"
    by (simp_all add: D g(2) internal_bit)
qed

text \<open>The fields that queue operations do not touch.\<close>

definition apart :: "'b event_base \<Rightarrow> 'b event_base \<Rightarrow> bool" where
  "apart b b' \<longleftrightarrow> evbase b' = evbase b \<and> io b' = io b \<and> sigmap b' = sigmap b"

definition steady :: "'b event_base \<Rightarrow> 'b event_base \<Rightarrow> bool" where
  "steady b b' \<longleftrightarrow> tv_cache b' = tv_cache b \<and> event_running_priority b' = event_running_priority b \<and>
     nactivequeues b' = nactivequeues b \<and>
     map duration (common_timeout_queues b') = map duration (common_timeout_queues b) \<and>
     map timeout_event (common_timeout_queues b') = map timeout_event (common_timeout_queues b) \<and>
     sig_frame b' = sig_frame b"

lemma steady_refl: "steady b b"
  by (simp add: steady_def)

lemma steady_trans: "steady a b \<Longrightarrow> steady b c \<Longrightarrow> steady a c"
  by (simp add: steady_def)

lemma steady_common: "steady b b' \<Longrightarrow> is_common_timeout t b' = is_common_timeout t b"
  unfolding steady_def is_common_timeout_def by (metis length_map)

lemma steady_left: "steady b (left b ev f)"
  by (simp add: steady_def left_def nactivequeues_def)

text \<open>Events on the heap, the timers that \<open>timeout_process\<close> looks at.\<close>

definition pending :: "'b event_base \<Rightarrow> nat multiset" where
  "pending b = mset (heap_elems (timeheap b))"

definition off_heap :: "'b event_base \<Rightarrow> nat \<Rightarrow> nat multiset" where
  "off_heap b ev = (if is_tmo (evs b ev) \<and> \<not> is_common_timeout (ev_timeout (evs b ev)) b then {#ev#} else {#})"

lemma map_update_same: "i < length xs \<Longrightarrow> (map f xs)[i := f (xs ! i)] = map f xs"
  by (metis list_update_id nth_map)

lemma remove_timeout_ok:
  assumes ok: "core_ok b" and tmo: "is_tmo (evs b ev)"
  shows "\<exists>b'. event_queue_remove_timeout b ev = Some b' \<and> core_ok b' \<and> retag b b' ev (\<lambda>f. f AND NOT 1) \<and>
           apart b b' \<and> steady b b' \<and> pending b' = pending b - off_heap b ev \<and>
           activequeues b' = activequeues b"
proof (cases "is_common_timeout (ev_timeout (evs b ev)) b")
  case True
  let ?i = "COMMON_TIMEOUT_IDX (ev_timeout (evs b ev))"
  from remove_common_ok [OF ok tmo True] obtain b' where b': "event_queue_remove_timeout b ev = Some b'" "core_ok b'"
      "retag b b' ev (\<lambda>f. f AND NOT 1)"
      "b' = put_common_timeout_list (left b ev 1) (ev_timeout (evs b ev)) (remove1 ev (ctl_events (common_timeout_queues b ! ?i)))"
    by blast
  have "map duration (common_timeout_queues b') = map duration (common_timeout_queues b)"
    "map timeout_event (common_timeout_queues b') = map timeout_event (common_timeout_queues b)"
    unfolding b'(4) using True
    by (simp_all add: put_common_timeout_list_def map_update is_common_timeout_def map_update_same)
  then show ?thesis
    using b' True by (auto simp: apart_def steady_def put_common_timeout_list_def left_def nactivequeues_def pending_def off_heap_def)
next
  case False
  from remove_heap_ok [OF ok tmo False] obtain b' h es where b': "event_queue_remove_timeout b ev = Some b'" "core_ok b'"
      "retag b b' ev (\<lambda>f. f AND NOT 1)" "b' = (left b ev 1)\<lparr>timeheap := h, evs := es\<rparr>"
      "mset (heap_elems h) = mset (heap_elems (timeheap b)) - {#ev#}"
    by blast
  show ?thesis
    using b' False tmo by (auto simp: apart_def steady_def left_def nactivequeues_def pending_def off_heap_def)
qed

section \<open>Forgetting a descriptor\<close>

definition del_works :: "'b eventop \<Rightarrow> bool" where
  "del_works eo \<longleftrightarrow> (\<forall>s fd old e. snd (eo_del eo s fd old e) \<noteq> -1)"

definition add_works :: "'b eventop \<Rightarrow> bool" where
  "add_works eo \<longleftrightarrow> (\<forall>s fd old e. snd (eo_add eo s fd old e) \<noteq> -1)"

lemma length_filter_remove1:
  "x \<in> set xs \<Longrightarrow> length (filter P xs) = length (filter P (remove1 x xs)) + (if P x then 1 else 0)"
  by (induction xs) auto

lemma filter_pos: "x \<in> set xs \<Longrightarrow> P x \<Longrightarrow> 0 < length (filter P xs)"
  by (induction xs) auto

lemma io_del_ok:
  assumes I: "io_part b0" and ins: "is_ins (evs b0 ev)" and w: "rw (evs b0 ev)"
    and R: "retag b0 b ev (\<lambda>f. f AND NOT 2)" and io: "io b = io b0" and nf: "del_works (evsel env)"
  shows "\<exists>b' r. evmap_io_del env b (ev_fd (evs b0 ev)) ev = Some (b', r) \<and> r \<in> {0, 1} \<and> io_part b' \<and>
           b' = b\<lparr>evbase := evbase b', io := io b'\<rparr>"
proof (cases "ev_fd (evs b0 ev) < 0")
  case True
  have "io_part b"
    using I True by (auto simp: io_part_def io_entry_ok_def io retagD(1,4,5) [OF R] flag_simps)
  then show ?thesis using True by (auto simp: evmap_io_del_def)
next
  case False
  note D = retagD(1,4,5) [OF R]
  let ?fd = "ev_fd (evs b0 ev)" and ?e = "ev_events (evs b0 ev)"
  define i where "i = nat ?fd"
  have fd: "?fd = int i" using False by (simp add: i_def)
  obtain c where c: "i < length (io b0)" "io b0 ! i = Some c" "io_entry_ok b0 (int i) c"
  proof -
    have "i < length (io b0) \<and> io b0 ! i \<noteq> None"
      using I ins w False unfolding io_part_def i_def by (meson not_less)
    then show ?thesis using that I unfolding io_part_def by blast
  qed
  have q: "ev \<in> set (io_events c)" using c(3) ins w fd by (simp add: io_entry_ok_def)
  let ?nr = "nread c - (if has ?e EV_READ then 1 else 0)" and ?nw = "nwrite c - (if has ?e EV_WRITE then 1 else 0)"
  let ?res = "rw_flags (has ?e EV_READ \<and> ?nr = 0) (has ?e EV_WRITE \<and> ?nw = 0)"
  let ?old = "rw_flags (nread c \<noteq> 0) (nwrite c \<noteq> 0)"
  let ?s = "if ?res \<noteq> 0 then fst (eo_del (evsel env) (evbase b) ?fd ?old ?res) else evbase b"
  let ?c = "\<lparr>io_events = remove1 ev (io_events c), nread = ?nr, nwrite = ?nw\<rparr>"
  let ?b = "b\<lparr>evbase := ?s, io := (io b)[i := Some ?c]\<rparr>"
  have pos: "has ?e EV_READ \<Longrightarrow> nread c > 0" "has ?e EV_WRITE \<Longrightarrow> nwrite c > 0"
    using c(3) filter_pos [OF q, of "\<lambda>e. has (ev_events (evs b0 e)) EV_READ"]
      filter_pos [OF q, of "\<lambda>e. has (ev_events (evs b0 e)) EV_WRITE"]
    unfolding io_entry_ok_def by simp_all
  obtain s1 r1 where d: "eo_del (evsel env) (evbase b) ?fd ?old ?res = (s1, r1)" "r1 \<noteq> -1"
    using nf by (metis del_works_def prod.collapse)
  have step: "evmap_io_del env b ?fd ev = Some (?b, if ?res \<noteq> 0 then 1 else 0)"
    using fd c pos q d io
    by (cases "?res = 0") (simp_all add: evmap_io_del_def D get_slot_def evutil_assert_def tailq_remove_in Let_def)
  have "io_entry_ok ?b (int i) ?c"
    using c(3) q fd w ins length_filter_remove1 [OF q, of "\<lambda>e. has (ev_events (evs b0 e)) EV_READ"]
      length_filter_remove1 [OF q, of "\<lambda>e. has (ev_events (evs b0 e)) EV_WRITE"]
    by (auto simp: io_entry_ok_def D flag_simps)
  moreover have "io_entry_ok ?b (int j) c'" if "j < length (io b0)" "io b0 ! j = Some c'" "j \<noteq> i" for j c'
    using I that fd by (auto simp: io_part_def io_entry_ok_def D flag_simps)
  ultimately have "io_part ?b"
    using I c(1) fd unfolding io_part_def by (auto simp: io D flag_simps nth_list_update)
  then show ?thesis using step by auto
qed

lemma sig_del_ok:
  assumes S: "sig_part b0" and ins: "is_ins (evs b0 ev)" and w: "\<not> rw (evs b0 ev)"
    and R: "retag b0 b ev (\<lambda>f. f AND NOT 2)" and sg: "sigmap b = sigmap b0" and nf: "del_works (evsigsel env)"
  shows "\<exists>b'. evmap_signal_del env b (ev_fd (evs b0 ev)) ev = Some (b', 1) \<and> sig_part b' \<and>
           b' = b\<lparr>evbase := evbase b', sigmap := sigmap b'\<rparr>"
proof -
  note D = retagD(1,4,5) [OF R]
  let ?fd = "ev_fd (evs b0 ev)"
  define i where "i = nat ?fd"
  have P: "0 \<le> ?fd \<and> i < length (sigmap b0) \<and> sigmap b0 ! i \<noteq> None"
    using S ins w unfolding sig_part_def i_def by blast
  then have fd: "?fd = int i" by (simp add: i_def)
  obtain q where q: "sigmap b0 ! i = Some q" using P by blast
  have Q: "distinct q" "\<And>e. e \<in> set q \<longleftrightarrow> is_ins (evs b0 e) \<and> \<not> rw (evs b0 e) \<and> ev_fd (evs b0 e) = int i"
    using S P q unfolding sig_part_def by blast+
  have m: "ev \<in> set q" using Q(2) ins w fd by simp
  define lone where "lone \<longleftrightarrow> q = [] \<or> hd q = last q"
  define s where "s = (if lone then fst (eo_del (evsigsel env) (evbase b) ?fd 0 EV_SIGNAL) else evbase b)"
  let ?b = "b\<lparr>evbase := s, sigmap := (sigmap b)[i := Some (remove1 ev q)]\<rparr>"
  obtain s1 r1 where d: "eo_del (evsigsel env) (evbase b) ?fd 0 EV_SIGNAL = (s1, r1)" "r1 \<noteq> -1"
    using nf by (metis del_works_def prod.collapse)
  have step: "evmap_signal_del env b ?fd ev = Some (?b, 1)"
    unfolding evmap_signal_del_def s_def
    using P fd q m sg d by (cases lone) (simp_all add: get_slot_def tailq_remove_in Let_def D lone_def split: prod.splits)
  have "sig_part ?b"
    using S P q Q fd unfolding sig_part_def
    by (auto simp: sg D flag_simps nth_list_update)
  then show ?thesis using step by auto
qed

text \<open>No signal closure was interrupted: no event points into one.\<close>

definition quiet :: "'b event_base \<Rightarrow> bool" where
  "quiet b \<longleftrightarrow> (\<forall>e. ev_pncalls (evs b e) = None)"

lemma quiet_abort: "quiet b \<Longrightarrow> abort_calls b ev = Some b"
  by (simp add: quiet_def abort_calls_def)

section \<open>Deleting\<close>

text \<open>Other queues than the one left are the same.\<close>

lemma maps_retag:
  assumes "io_part b" "sig_part b" "apart b b'" "retag b b' ev g" "\<And>f. bit (g f) 1 = bit f 1"
  shows "io_part b' \<and> sig_part b'"
proof -
  have "io_part b' = io_part b"
    by (rule io_part_cong) (use assms in \<open>simp_all add: apart_def retagD [OF assms(4)]\<close>)
  moreover have "sig_part b' = sig_part b"
    by (rule sig_part_cong) (use assms in \<open>simp_all add: apart_def retagD [OF assms(4)]\<close>)
  ultimately show ?thesis using assms by simp
qed

lemma leave_timeout:
  assumes ok: "base_ok b"
  shows "\<exists>b'. (if is_tmo (evs b ev) then event_queue_remove_timeout b ev else Some b) = Some b' \<and>
           base_ok b' \<and> touched b b' ev \<and> steady b b' \<and> pending b' = pending b - off_heap b ev \<and>
           \<not> is_tmo (evs b' ev) \<and> (\<forall>x. is_ins (evs b' x) = is_ins (evs b x) \<and> is_act (evs b' x) = is_act (evs b x)) \<and>
           activequeues b' = activequeues b"
proof (cases "is_tmo (evs b ev)")
  case True
  obtain b' where b': "event_queue_remove_timeout b ev = Some b'" "core_ok b'"
      "retag b b' ev (\<lambda>f. f AND NOT 1)" "apart b b'" "steady b b'" "pending b' = pending b - off_heap b ev"
      "activequeues b' = activequeues b"
    using remove_timeout_ok [OF _ True] ok by (auto simp: base_ok_def)
  moreover have "io_part b' \<and> sig_part b'"
    by (rule maps_retag [OF _ _ b'(4,3)]) (use ok in \<open>simp_all add: base_ok_def flag_simps\<close>)
  moreover have "\<not> is_tmo (evs b' ev)" "is_ins (evs b' x) = is_ins (evs b x)" "is_act (evs b' x) = is_act (evs b x)" for x
    using retagD(1) [OF b'(3)] by (simp_all add: flag_simps)
  ultimately show ?thesis using True by (auto simp: base_ok_def)
next
  case False
  then show ?thesis using ok by (simp add: touched_same_evs steady_refl off_heap_def)
qed

text \<open>An event is on one active queue at most, so taking it off is taking it off all of them.\<close>

lemma active_elsewhere:
  assumes "act_part b" "p < nactivequeues b" "p \<noteq> ev_pri (evs b ev) \<or> \<not> is_act (evs b ev)"
  shows "ev \<notin> set (activequeues b ! p)"
  using assms by (auto simp: act_part_def)

lemma take_off_all:
  assumes "act_part b"
  shows "map (remove1 ev) (activequeues b) =
    (if is_act (evs b ev) then (activequeues b)[ev_pri (evs b ev) := remove1 ev (activequeues b ! ev_pri (evs b ev))]
     else activequeues b)"
proof (rule nth_equalityI)
  fix i assume "i < length (map (remove1 ev) (activequeues b))"
  then show "map (remove1 ev) (activequeues b) ! i =
      (if is_act (evs b ev) then (activequeues b)[ev_pri (evs b ev) := remove1 ev (activequeues b ! ev_pri (evs b ev))]
       else activequeues b) ! i"
    using active_elsewhere [OF assms, of i ev]
    by (cases "ev_pri (evs b ev) = i") (auto simp: nactivequeues_def remove1_idem)
qed simp

lemma leave_active:
  assumes ok: "base_ok b"
  shows "\<exists>b'. (if is_act (evs b ev) then event_queue_remove_active b ev else Some b) = Some b' \<and>
           base_ok b' \<and> touched b b' ev \<and> steady b b' \<and> pending b' = pending b \<and>
           \<not> is_act (evs b' ev) \<and> (\<forall>x. is_ins (evs b' x) = is_ins (evs b x) \<and> is_tmo (evs b' x) = is_tmo (evs b x)) \<and>
           activequeues b' = map (remove1 ev) (activequeues b)"
proof (cases "is_act (evs b ev)")
  case True
  obtain b' where b': "event_queue_remove_active b ev = Some b'" "core_ok b'" "retag b b' ev (\<lambda>f. f AND NOT 8)"
      "b' = (left b ev 8)\<lparr>event_count_active := event_count_active b - 1,
                  activequeues := (activequeues b)[ev_pri (evs b ev) :=
                    remove1 ev (activequeues b ! ev_pri (evs b ev))]\<rparr>"
    using remove_active_ok [OF _ True] ok by (auto simp: base_ok_def)
  have ap: "apart b b'" unfolding b'(4) by (simp add: apart_def)
  have st: "steady b b'" unfolding b'(4) by (simp add: steady_def left_def nactivequeues_def)
  have pe: "pending b' = pending b" unfolding b'(4) by (simp add: pending_def)
  have "io_part b' \<and> sig_part b'"
    by (rule maps_retag [OF _ _ ap b'(3)]) (use ok in \<open>simp_all add: base_ok_def flag_simps\<close>)
  moreover have "\<not> is_act (evs b' ev)" "is_ins (evs b' x) = is_ins (evs b x)" "is_tmo (evs b' x) = is_tmo (evs b x)" for x
    using retagD(1) [OF b'(3)] by (simp_all add: flag_simps)
  moreover have "activequeues b' = map (remove1 ev) (activequeues b)"
    unfolding b'(4) using take_off_all [of b ev] ok True by (simp add: base_ok_def core_ok_def)
  ultimately show ?thesis using True b'(1,2,3) st pe by (auto simp: base_ok_def)
next
  case False
  then show ?thesis using ok take_off_all [of b ev]
    by (simp add: touched_same_evs steady_refl base_ok_def core_ok_def)
qed

text \<open>Fields that only the maps and the back end read.\<close>

lemma core_ok_maps: "core_ok (b\<lparr>evbase := s, io := m\<rparr>) = core_ok b" "core_ok (b\<lparr>evbase := s, sigmap := g\<rparr>) = core_ok b"
  by (simp_all add: core_ok_def heap_part_def common_part_def common_queue_ok_def ins_part_def act_part_def
      count_part_def queued_def flag_part_def is_common_timeout_def nactivequeues_def)

lemma leave_inserted:
  assumes ok: "base_ok b" and nf: "del_works (evsel env)" "del_works (evsigsel env)" and ins: "is_ins (evs b ev)"
  shows "\<exists>b1 b' r. event_queue_remove_inserted b ev = Some b1 \<and>
           (if rw (evs b1 ev) then evmap_io_del env b1 (ev_fd (evs b1 ev)) ev
            else evmap_signal_del env b1 (ev_fd (evs b1 ev)) ev) = Some (b', r) \<and> r \<in> {0, 1} \<and>
           base_ok b' \<and> touched b b' ev \<and> steady b b' \<and> pending b' = pending b \<and>
           \<not> is_ins (evs b' ev) \<and> (\<forall>x. is_tmo (evs b' x) = is_tmo (evs b x) \<and> is_act (evs b' x) = is_act (evs b x)) \<and>
           activequeues b' = activequeues b"
proof -
  obtain b1 where b1: "event_queue_remove_inserted b ev = Some b1" "core_ok b1" "retag b b1 ev (\<lambda>f. f AND NOT 2)"
      "b1 = (left b ev 2)\<lparr>eventqueue := remove1 ev (eventqueue b)\<rparr>"
    using remove_inserted_ok [OF _ ins] ok by (auto simp: base_ok_def)
  note D = retagD [OF b1(3)]
  have st: "steady b b1" unfolding b1(4) by (simp add: steady_def left_def nactivequeues_def)
  have pe: "pending b1 = pending b" unfolding b1(4) by (simp add: pending_def)
  have aq: "activequeues b1 = activequeues b" unfolding b1(4) by simp
  have mp: "io b1 = io b" "sigmap b1 = sigmap b" unfolding b1(4) by simp_all
  have fl: "\<not> is_ins (evs b1 ev)" "\<And>x. is_tmo (evs b1 x) = is_tmo (evs b x)" "\<And>x. is_act (evs b1 x) = is_act (evs b x)"
    by (simp_all add: D flag_simps)
  show ?thesis
  proof (cases "rw (evs b ev)")
    case True
    obtain b' r where b': "evmap_io_del env b1 (ev_fd (evs b ev)) ev = Some (b', r)" "r \<in> {0, 1}" "io_part b'"
        "b' = b1\<lparr>evbase := evbase b', io := io b'\<rparr>"
      using io_del_ok [OF _ ins True b1(3) mp(1) nf(1)] ok unfolding base_ok_def by blast
    define s where "s = evbase b'"
    define m where "m = io b'"
    have e: "b' = b1\<lparr>evbase := s, io := m\<rparr>" using b'(4) by (simp add: s_def m_def)
    have "core_ok b'" unfolding e core_ok_maps using b1(2) .
    moreover have "sig_part b'"
      using ok True unfolding e base_ok_def sig_part_def by (auto simp: mp D flag_simps)
    moreover have "touched b b' ev" using b1(3) unfolding e by (intro touched_retag(2)) (simp add: retag_def)
    moreover have "steady b b'" "pending b' = pending b" using st pe unfolding e by (simp_all add: steady_def pending_def nactivequeues_def)
    moreover have "evs b' = evs b1" "activequeues b' = activequeues b" unfolding e using aq by simp_all
    ultimately show ?thesis using b1(1) b'(1-3) True fl by (auto simp: base_ok_def D)
  next
    case False
    obtain b' where b': "evmap_signal_del env b1 (ev_fd (evs b ev)) ev = Some (b', 1)" "sig_part b'"
        "b' = b1\<lparr>evbase := evbase b', sigmap := sigmap b'\<rparr>"
      using sig_del_ok [OF _ ins False b1(3) mp(2) nf(2)] ok unfolding base_ok_def by blast
    define s where "s = evbase b'"
    define m where "m = sigmap b'"
    have e: "b' = b1\<lparr>evbase := s, sigmap := m\<rparr>" using b'(3) by (simp add: s_def m_def)
    have "core_ok b'" unfolding e core_ok_maps using b1(2) .
    moreover have "io_part b'"
      using ok False unfolding e base_ok_def io_part_def io_entry_ok_def by (auto simp: mp D flag_simps)
    moreover have "touched b b' ev" using b1(3) unfolding e by (intro touched_retag(2)) (simp add: retag_def)
    moreover have "steady b b'" "pending b' = pending b" using st pe unfolding e by (simp_all add: steady_def pending_def nactivequeues_def)
    moreover have "evs b' = evs b1" "activequeues b' = activequeues b" unfolding e using aq by simp_all
    ultimately show ?thesis using b1(1) b'(1,2) False fl by (auto simp: base_ok_def D)
  qed
qed

text \<open>\<open>unqueued b b' ev\<close>: all queues, and only them, forgot the event.\<close>

definition unqueued :: "'b event_base \<Rightarrow> 'b event_base \<Rightarrow> nat \<Rightarrow> bool" where
  "unqueued b b' ev \<longleftrightarrow> touched b b' ev \<and> steady b b' \<and> pending b' = pending b - off_heap b ev \<and>
     \<not> is_tmo (evs b' ev) \<and> \<not> is_act (evs b' ev) \<and> \<not> is_ins (evs b' ev) \<and>
     activequeues b' = map (remove1 ev) (activequeues b)"

lemma flags_ok: "core_ok b \<Longrightarrow> ev_flags (evs b ev) AND NOT EVLIST_ALL = 0"
  unfolding core_ok_def flag_part_def flags_valid_def by blast

lemma del_ok:
  assumes ok: "base_ok b" and bs: "ev_base (evs b ev)" and ab: "abort_calls b ev = Some b"
    and nf: "del_works (evsel env)" "del_works (evsigsel env)"
  shows "\<exists>b'. event_del_internal env b ev = Some (b', 0) \<and> base_ok b' \<and> unqueued b b' ev"
proof -
  obtain b1 where b1: "(if is_tmo (evs b ev) then event_queue_remove_timeout b ev else Some b) = Some b1"
      "base_ok b1" "touched b b1 ev" "steady b b1" "pending b1 = pending b - off_heap b ev" "\<not> is_tmo (evs b1 ev)"
      "is_act (evs b1 ev) = is_act (evs b ev)" "activequeues b1 = activequeues b"
    using leave_timeout [OF ok, of ev] by blast
  obtain b2 where b2: "(if is_act (evs b1 ev) then event_queue_remove_active b1 ev else Some b1) = Some b2"
      "base_ok b2" "touched b1 b2 ev" "steady b1 b2" "pending b2 = pending b1" "\<not> is_act (evs b2 ev)" "\<not> is_tmo (evs b2 ev)"
      "activequeues b2 = map (remove1 ev) (activequeues b1)"
    using leave_active [OF b1(2), of ev] b1(6) by blast
  have fl: "ev_flags (evs b ev) AND NOT EVLIST_ALL = 0" using ok flags_ok by (auto simp: base_ok_def)
  have t: "touched b b2 ev" "steady b b2" "pending b2 = pending b - off_heap b ev"
    using b1(3-5) b2(3-5) touched_trans steady_trans by auto
  note E = event_del_internal_def bs ab evutil_assert_def fl b1(1) b2(1) has_flags
  show ?thesis
  proof (cases "is_ins (evs b2 ev)")
    case True
    obtain b3 b' r where b': "event_queue_remove_inserted b2 ev = Some b3"
        "(if rw (evs b3 ev) then evmap_io_del env b3 (ev_fd (evs b3 ev)) ev
          else evmap_signal_del env b3 (ev_fd (evs b3 ev)) ev) = Some (b', r)" "r \<in> {0, 1}"
        "base_ok b'" "touched b2 b' ev" "steady b2 b'" "pending b' = pending b2"
        "\<not> is_ins (evs b' ev)" "is_tmo (evs b' ev) = is_tmo (evs b2 ev)" "is_act (evs b' ev) = is_act (evs b2 ev)"
        "activequeues b' = activequeues b2"
      using leave_inserted [OF b2(2) nf True] by blast
    have "event_del_internal env b ev = Some (b', 0)"
      unfolding E using True b'(1-3) by (auto simp: E)
    then show ?thesis
      using b' t b1(8) b2(6-8) touched_trans steady_trans by (auto simp: unqueued_def)
  next
    case False
    have "event_del_internal env b ev = Some (b2, 0)"
      unfolding E using False by (auto simp: E)
    then show ?thesis using b1(8) b2 t False by (auto simp: unqueued_def)
  qed
qed

section \<open>Activating\<close>

definition woken_event :: "event \<Rightarrow> u16 \<Rightarrow> int \<Rightarrow> event" where
  "woken_event e res n = e\<lparr>ev_res := res, ev_flags := ev_flags e OR 8,
     ev_ncalls := (if has (ev_events e) EV_SIGNAL then n else ev_ncalls e),
     ev_pncalls := (if has (ev_events e) EV_SIGNAL then None else ev_pncalls e)\<rparr>"

text \<open>The base after an event that was not active is activated.\<close>

definition woken :: "'b event_base \<Rightarrow> nat \<Rightarrow> u16 \<Rightarrow> int \<Rightarrow> 'b event_base" where
  "woken b ev res n =
     b\<lparr>evs := (evs b)(ev := woken_event (evs b ev) res n),
       event_count := (if internal (evs b ev) then event_count b else event_count b + 1),
       event_count_active := event_count_active b + 1,
       event_continue := (event_continue b \<or> int (ev_pri (evs b ev)) < event_running_priority b),
       activequeues := (activequeues b)[ev_pri (evs b ev) := activequeues b ! ev_pri (evs b ev) @ [ev]]\<rparr>"

lemma woken_fields:
  "ev_timeout (evs (woken b ev res n) x) = ev_timeout (evs b x)" "ev_pri (evs (woken b ev res n) x) = ev_pri (evs b x)"
  "ev_fd (evs (woken b ev res n) x) = ev_fd (evs b x)" "ev_events (evs (woken b ev res n) x) = ev_events (evs b x)"
  "ev_base (evs (woken b ev res n) x) = ev_base (evs b x)" "min_heap_idx (evs (woken b ev res n) x) = min_heap_idx (evs b x)"
  "ev_flags (evs (woken b ev res n) x) = (if x = ev then ev_flags (evs b x) OR 8 else ev_flags (evs b x))"
  "internal (evs (woken b ev res n) x) = internal (evs b x)"
  "timeheap (woken b ev res n) = timeheap b" "common_timeout_queues (woken b ev res n) = common_timeout_queues b"
  "eventqueue (woken b ev res n) = eventqueue b" "io (woken b ev res n) = io b" "sigmap (woken b ev res n) = sigmap b"
  "event_count_active (woken b ev res n) = event_count_active b + 1"
  "activequeues (woken b ev res n) = (activequeues b)[ev_pri (evs b ev) := activequeues b ! ev_pri (evs b ev) @ [ev]]"
  "nactivequeues (woken b ev res n) = nactivequeues b"
  by (simp_all add: woken_def woken_event_def internal_bit flag_simps nactivequeues_def)

lemma active_eq:
  assumes "\<not> is_act (evs b ev)" "ev_pri (evs b ev) < nactivequeues b"
  shows "event_active_nolock b ev res n = Some (woken b ev res n)"
  using assms
  by (simp add: event_active_nolock_def event_queue_insert_active_def queue_join_def has_flags internal_bit
      active_queue_def nactivequeues_def upd_event_def Let_def)
    (auto simp: woken_def woken_event_def internal_bit has_flags fun_eq_iff
      intro!: event_base.equality event.equality)

lemma count_joined:
  assumes "count_part b" "queued b' = add_mset ev (queued b)"
    "event_count b' = (if internal (evs b ev) then event_count b else event_count b + 1)"
    "\<And>x. internal (evs b' x) = internal (evs b x)"
    "event_count_active b' = int (length (concat (activequeues b')))"
  shows "count_part b'"
proof -
  have "event_count b = int (size (filter_mset (\<lambda>e. \<not> internal (evs b e)) (queued b)))"
    using assms(1) unfolding count_part_def by blast
  then have "event_count b' = int (size (filter_mset (\<lambda>e. \<not> internal (evs b e)) (add_mset ev (queued b))))"
    unfolding assms(3) by simp
  then show ?thesis unfolding count_part_def assms(2,4) using assms(5) by simp
qed

lemma woken_ok:
  assumes ok: "base_ok b" and na: "\<not> is_act (evs b ev)" and pr: "ev_pri (evs b ev) < nactivequeues b"
    and bs: "ev_base (evs b ev)"
  shows "base_ok (woken b ev res n)"
proof -
  let ?b = "woken b ev res n" and ?p = "ev_pri (evs b ev)"
  have C: "core_ok b" and io: "io_part b" and sg: "sig_part b" using ok by (simp_all add: base_ok_def)
  have p: "?p < length (activequeues b)" using pr by (simp add: nactivequeues_def)
  have A: "act_part b" using C by (simp add: core_ok_def)
  then have nin: "ev \<notin> set (activequeues b ! ?p)" using na p by (auto simp: act_part_def nactivequeues_def)
  note W = woken_fields flag_simps
  have "act_part ?b"
    using A p nin na unfolding act_part_def by (auto simp: W nactivequeues_def nth_list_update)
  moreover have "ins_part ?b = ins_part b" by (rule ins_part_cong) (simp_all add: W)
  moreover have "common_part ?b = common_part b" by (rule common_part_cong) (simp_all add: W)
  moreover have "heap_part ?b = heap_part b" by (rule heap_part_cong) (simp_all add: W)
  moreover have "flag_part ?b" using C bs by (auto simp: core_ok_def flag_part_def W)
  moreover have "count_part ?b"
  proof (rule count_joined)
    show "count_part b" using C by (simp add: core_ok_def)
    have m: "mset (concat (activequeues ?b)) = add_mset ev (mset (concat (activequeues b)))"
      using concat_insert [OF p, of "activequeues b ! ?p @ [ev]" ev] by (simp add: W)
    then show "queued ?b = add_mset ev (queued b)" by (simp add: queued_parts W)
    have "length (concat (activequeues ?b)) = Suc (length (concat (activequeues b)))"
      using m by (metis size_mset size_add_mset)
    then show "event_count_active ?b = int (length (concat (activequeues ?b)))"
      using C by (simp add: core_ok_def count_part_def woken_fields(14))
  qed (simp_all add: W, simp add: woken_def)
  moreover have "io_part ?b = io_part b" by (rule io_part_cong) (simp_all add: W)
  moreover have "sig_part ?b = sig_part b" by (rule sig_part_cong) (simp_all add: W)
  ultimately show ?thesis using C io sg by (simp add: base_ok_def core_ok_def)
qed

end
