(* ===== verification/EventAdd.thy ===== *)
theory EventAdd
  imports EventOps
begin

text \<open>
  Adding an event keeps the invariant: the maps of descriptors and signals grow as needed, the
  event joins its queues, and a timeout goes to the heap or to its common timeout queue, whose
  own event is scheduled when it has become the first.
\<close>

section \<open>Growing a map\<close>

declare grow_nentries.simps [simp del]

lemma grow_ok:
  assumes "0 < n" "slot < 2 ^ 27"
  shows "\<exists>n'. grow_nentries slot n = Some n' \<and> slot < n' \<and> n \<le> n' \<and> (n \<le> slot \<longrightarrow> n' \<le> 2 * slot)"
  using assms
proof (induction slot n rule: grow_nentries.induct)
  case (1 slot n)
  show ?case
  proof (cases "n \<le> slot")
    case True
    then have g: "0 < n \<and> n * 2 < 2 ^ 31" using 1(2,3) by simp
    then obtain n' where "grow_nentries slot (n * 2) = Some n'" "slot < n'" "n * 2 \<le> n'"
        "n * 2 \<le> slot \<longrightarrow> n' \<le> 2 * slot"
      using 1(1) [OF True g] 1(3) by auto
    moreover have "n' \<le> 2 * slot" if "\<not> n * 2 \<le> slot"
    proof -
      have "grow_nentries slot (n * 2) = Some (n * 2)" using that by (simp add: grow_nentries.simps)
      then show ?thesis using calculation(1) True by simp
    qed
    ultimately show ?thesis using True g by (subst grow_nentries.simps) auto
  next
    case False
    then show ?thesis by (subst grow_nentries.simps) simp
  qed
qed

lemma make_space_ok:
  assumes "slot < 2 ^ 27"
  shows "\<exists>m' r. evmap_make_space al m slot = Some (m', r) \<and>
           (r = -1 \<and> m' = m \<or> r = 0 \<and> slot < int (length m') \<and> (\<exists>k. m' = m @ replicate k None))"
proof (cases "int (length m) \<le> slot")
  case True
  let ?n0 = "if m \<noteq> [] then int (length m) else 32"
  obtain n where n: "grow_nentries slot ?n0 = Some n" "slot < n" "?n0 \<le> n" "?n0 \<le> slot \<longrightarrow> n \<le> 2 * slot"
    using grow_ok [of ?n0 slot] assms by (cases "m = []") auto
  have "n * 8 < 2 ^ 31"
  proof (cases "?n0 \<le> slot")
    case True
    then show ?thesis using n(4) assms by simp
  next
    case False
    then have "?n0 = 32" using True by (auto split: if_splits)
    moreover have "grow_nentries slot ?n0 = Some ?n0" using False by (subst grow_nentries.simps) simp
    ultimately show ?thesis using n(1) by simp
  qed
  then show ?thesis
    using True n by (auto simp: evmap_make_space_def evutil_assert_def)
next
  case False
  then show ?thesis by (auto simp: evmap_make_space_def)
qed

lemma nth_grown: "i < length (m @ replicate k None) \<Longrightarrow> (m @ replicate k None) ! i = (if i < length m then m ! i else None)"
  by (simp add: nth_append)

section \<open>A descriptor or signal joins its map\<close>

lemma retag_cong: "evs b1 = evs b \<Longrightarrow> retag b1 b' ev f = retag b b' ev f"
  by (simp only: retag_def)

text \<open>An empty entry, or empty slots, tell nothing new.\<close>

lemma io_part_grown:
  assumes I: "io_part b" and m: "m = io b @ replicate k None"
  shows "io_part (b\<lparr>io := m\<rparr>)"
  using I unfolding io_part_def m by (auto simp: nth_append io_entry_ok_def)

lemma io_part_entry:
  assumes I: "io_part b" and i: "i < length (io b)" "io b ! i = None"
  shows "io_part (b\<lparr>io := (io b)[i := Some evmap_io_init]\<rparr>)"
proof -
  have "\<not> (is_ins (evs b e) \<and> rw (evs b e) \<and> ev_fd (evs b e) = int i)" for e
    using I i unfolding io_part_def by fastforce
  then show ?thesis
    using I i unfolding io_part_def by (auto simp: nth_list_update io_entry_ok_def evmap_io_init_def)
qed

lemma io_part_join:
  assumes I: "io_part b" and i: "i < length (io b)" "io b ! i = Some c" and fd: "ev_fd (evs b ev) = int i"
    and w: "rw (evs b ev)" and ni: "\<not> is_ins (evs b ev)"
    and R: "retag b b' ev (\<lambda>f. f OR 2)"
    and io': "io b' = (io b)[i := Some \<lparr>io_events = io_events c @ [ev],
                nread = nread c + (if has (ev_events (evs b ev)) EV_READ then 1 else 0),
                nwrite = nwrite c + (if has (ev_events (evs b ev)) EV_WRITE then 1 else 0)\<rparr>]"
  shows "io_part b'"
proof -
  note D = retagD(1,4,5) [OF R]
  have c: "io_entry_ok b (int i) c" using I i unfolding io_part_def by blast
  then have "ev \<notin> set (io_events c)" using ni by (simp add: io_entry_ok_def)
  then have "io_entry_ok b' (int i) \<lparr>io_events = io_events c @ [ev],
                nread = nread c + (if has (ev_events (evs b ev)) EV_READ then 1 else 0),
                nwrite = nwrite c + (if has (ev_events (evs b ev)) EV_WRITE then 1 else 0)\<rparr>"
    using c fd w by (auto simp: io_entry_ok_def D flag_simps)
  moreover have "io_entry_ok b' (int j) c'" if "j < length (io b)" "io b ! j = Some c'" "j \<noteq> i" for j c'
    using I that fd unfolding io_part_def by (auto simp: io_entry_ok_def D flag_simps)
  ultimately show ?thesis
    using I i fd unfolding io_part_def io' by (auto simp: D flag_simps nth_list_update)
qed

lemma register_ok:
  assumes I: "io_part b" and i: "i < length (io b)" "io b ! i = Some c" and fd: "ev_fd (evs b ev) = int i"
    and w: "rw (evs b ev)" and ni: "\<not> is_ins (evs b ev)"
  shows "\<exists>b' r. io_register env b ev i c = (b', r) \<and> b' = b\<lparr>evbase := evbase b', io := io b'\<rparr> \<and>
           (r = -1 \<and> io_part b' \<or>
            r \<in> {0, 1} \<and> (\<forall>b''. retag b' b'' ev (\<lambda>f. f OR 2) \<longrightarrow> io b'' = io b' \<longrightarrow> io_part b''))"
proof -
  have I': "io_part (b\<lparr>evbase := s\<rparr>)" for s using I by (simp add: io_part_def io_entry_ok_def)
  define nr where "nr = nread c + (if has (ev_events (evs b ev)) EV_READ then 1 else 0)"
  define nw where "nw = nwrite c + (if has (ev_events (evs b ev)) EV_WRITE then 1 else 0)"
  define e where "e = \<lparr>io_events = io_events c @ [ev], nread = nr, nwrite = nw\<rparr>"
  have J: "io_part b''" if R: "retag (b\<lparr>evbase := s, io := (io b)[i := Some e]\<rparr>) b'' ev (\<lambda>f. f OR 2)"
      and io'': "io b'' = (io b)[i := Some e]" for s b''
  proof (rule io_part_join [OF I i fd w ni])
    show "retag b b'' ev (\<lambda>f. f OR 2)" by (rule retag_cong [THEN iffD1, OF _ R]) simp
  qed (use io'' in \<open>simp add: e_def nr_def nw_def\<close>)
  define res where "res = rw_flags (has (ev_events (evs b ev)) EV_READ \<and> nr = 1) (has (ev_events (evs b ev)) EV_WRITE \<and> nw = 1)"
  define Z where "Z \<longleftrightarrow> res \<noteq> 0"
  define p where "p = (if Z then eo_add (evsel env) (evbase b) (ev_fd (evs b ev))
      (rw_flags (nread c \<noteq> 0) (nwrite c \<noteq> 0)) ((ev_events (evs b ev) AND EV_ET) OR res) else (evbase b, 0))"
  define X where "X \<longleftrightarrow> nr > 0xffff \<or> nw > 0xffff"
  define Y where "Y \<longleftrightarrow> debug_mode env \<and> io_events c \<noteq> [] \<and>
      ev_events (evs b (hd (io_events c))) AND EV_ET \<noteq> ev_events (evs b ev) AND EV_ET"
  have eq: "io_register env b ev i c =
      (if X then (b, -1) else if Y then (b, -1)
       else if Z \<and> snd p = -1 then (b\<lparr>evbase := fst p\<rparr>, -1)
       else (b\<lparr>evbase := fst p, io := (io b)[i := Some e]\<rparr>, if Z then 1 else 0))"
    unfolding io_register_def Let_def nr_def [symmetric] nw_def [symmetric] e_def [symmetric] res_def [symmetric]
      Z_def [symmetric] p_def [symmetric] X_def [symmetric] Y_def [symmetric] case_prod_beta
    by (rule refl)
  show ?thesis
  proof (cases "X \<or> Y")
    case True
    then have "io_register env b ev i c = (b, -1)" unfolding eq by auto
    then show ?thesis using I by simp
  next
    case no: False
    show ?thesis
    proof (cases "Z \<and> snd p = -1")
      case True
      then have "io_register env b ev i c = (b\<lparr>evbase := fst p\<rparr>, -1)" unfolding eq using no by auto
      then show ?thesis using I' by simp
    next
      case False
      then have "io_register env b ev i c = (b\<lparr>evbase := fst p, io := (io b)[i := Some e]\<rparr>, if Z then 1 else 0)"
        unfolding eq using no by auto
      then show ?thesis using J [of "fst p"] by simp
    qed
  qed
qed

text \<open>
  \<open>evmap_io_add\<close>: when it answers -1 the maps are in order with nothing new in them; otherwise
  they are once the event is marked inserted.
\<close>

lemma io_add_ok:
  assumes I: "io_part b" and w: "rw (evs b ev)" and ni: "\<not> is_ins (evs b ev)" and sm: "ev_fd (evs b ev) < 2 ^ 27"
  shows "\<exists>b' r. evmap_io_add env b (ev_fd (evs b ev)) ev = Some (b', r) \<and>
           b' = b\<lparr>evbase := evbase b', io := io b'\<rparr> \<and>
           (r = -1 \<and> io_part b' \<or>
            r \<in> {0, 1} \<and> (\<forall>b''. retag b' b'' ev (\<lambda>f. f OR 2) \<longrightarrow> io b'' = io b' \<longrightarrow> io_part b''))"
proof (cases "ev_fd (evs b ev) < 0")
  case True
  have "io_part b''" if R: "retag b b'' ev (\<lambda>f. f OR 2)" and "io b'' = io b" for b''
    using I True that(2) unfolding io_part_def by (auto simp: io_entry_ok_def retagD(1,4,5) [OF R] flag_simps)
  then show ?thesis using True by (auto simp: evmap_io_add_def evutil_assert_def)
next
  case False
  let ?fd = "ev_fd (evs b ev)" and ?e = "ev_events (evs b ev)"
  define i where "i = nat ?fd"
  have fd: "?fd = int i" using False by (simp add: i_def)
  obtain m r0 where m: "(if ?fd \<ge> int (length (io b)) then evmap_make_space (alloc env) (io b) ?fd else Some (io b, 0)) = Some (m, r0)"
      and mc: "r0 = -1 \<and> m = io b \<or> r0 = 0 \<and> ?fd < int (length m) \<and> (\<exists>k. m = io b @ replicate k None)"
    using make_space_ok [OF sm, of "alloc env" "io b"] by (cases "?fd \<ge> int (length (io b))") auto
  show ?thesis
  proof (cases "r0 = -1")
    case True
    then show ?thesis using m mc False I by (auto simp: evmap_io_add_def evutil_assert_def)
  next
    case f0: False
    then obtain k where mk: "m = io b @ replicate k None" "i < length m" using mc fd by auto
    define b1 where "b1 = b\<lparr>io := m\<rparr>"
    have I1: "io_part b1" unfolding b1_def by (rule io_part_grown [OF I mk(1)])
    show ?thesis
    proof (cases "m ! i = None \<and> \<not> alloc env io_entry_size")
      case True
      then have gs: "get_slot_and_ctor (alloc env) io_entry_size evmap_io_init m ?fd = Some (Inl m)"
        using mk(2) fd by (simp add: get_slot_and_ctor_def)
      have "evmap_io_add env b ?fd ev = Some (b1, -1)"
        unfolding evmap_io_add_def evutil_assert_def m
        using False f0 fd by (simp add: gs [unfolded fd] b1_def)
      then show ?thesis using I1 by (auto simp: b1_def)
    next
      case al: False
      define c where "c = (case m ! i of Some c \<Rightarrow> c | None \<Rightarrow> evmap_io_init)"
      define m1 where "m1 = m[i := Some c]"
      have gs: "get_slot_and_ctor (alloc env) io_entry_size evmap_io_init m ?fd = Some (Inr (m1, c))"
      proof -
        have "m[i := Some y] = m" if "m ! i = Some y" for y using that by (metis list_update_id)
        then show ?thesis using al mk(2) fd by (auto simp: get_slot_and_ctor_def c_def m1_def split: option.splits)
      qed
      define b2 where "b2 = b\<lparr>io := m1\<rparr>"
      have I2: "io_part b2"
      proof (cases "m ! i")
        case None
        then show ?thesis
          using io_part_entry [OF I1, of i] mk(2) by (simp add: b1_def b2_def m1_def c_def)
      next
        case (Some c')
        then have "m1 = m" by (simp add: m1_def c_def) (metis list_update_id)
        then show ?thesis using I1 by (simp add: b1_def b2_def)
      qed
      have "evmap_io_add env b ?fd ev = Some (io_register env b2 ev i c)"
        unfolding evmap_io_add_def evutil_assert_def m
        using False f0 by (simp add: gs b2_def i_def)
      moreover have "i < length (io b2)" "io b2 ! i = Some c" using mk(2) by (simp_all add: b2_def m1_def)
      ultimately show ?thesis
        using register_ok [OF I2, of i c ev env] fd w ni by (simp add: b2_def)
    qed
  qed
qed

lemma sig_part_join:
  assumes S: "sig_part b" and i: "i < length m" and m: "m = sigmap b @ replicate k None"
    and q: "q = (case m ! i of Some q \<Rightarrow> q | None \<Rightarrow> [])"
    and fd: "ev_fd (evs b ev) = int i" and w: "\<not> rw (evs b ev)" and ni: "\<not> is_ins (evs b ev)"
    and R: "retag b b' ev (\<lambda>f. f OR 2)" and s': "sigmap b' = m[i := Some (q @ [ev])]"
  shows "sig_part b'"
proof -
  note D = retagD(1,4,5) [OF R]
  have A: "\<And>j p. j < length m \<Longrightarrow> m ! j = Some p \<Longrightarrow> distinct p \<and>
        (\<forall>e. e \<in> set p \<longleftrightarrow> is_ins (evs b e) \<and> \<not> rw (evs b e) \<and> ev_fd (evs b e) = int j)"
    using S unfolding sig_part_def m by (auto simp: nth_append split: if_splits)
  have B: "\<And>e. is_ins (evs b e) \<Longrightarrow> \<not> rw (evs b e) \<Longrightarrow> 0 \<le> ev_fd (evs b e) \<and>
        nat (ev_fd (evs b e)) < length m \<and> m ! nat (ev_fd (evs b e)) \<noteq> None"
    using S unfolding sig_part_def m by (auto simp: nth_append)
  have Q: "distinct q" "\<And>e. e \<in> set q \<longleftrightarrow> is_ins (evs b e) \<and> \<not> rw (evs b e) \<and> ev_fd (evs b e) = int i"
    using A [OF i] B q by (cases "m ! i", fastforce, simp)+
  then have "ev \<notin> set q" using ni by simp
  then show ?thesis
    unfolding sig_part_def s' using A B Q i fd w
    by (auto simp: D flag_simps nth_list_update)
qed

lemma sig_add_ok:
  assumes S: "sig_part b" and w: "\<not> rw (evs b ev)" and ni: "\<not> is_ins (evs b ev)"
    and sm: "0 \<le> ev_fd (evs b ev)" "ev_fd (evs b ev) < 2 ^ 27"
  shows "\<exists>b' r. evmap_signal_add env b (ev_fd (evs b ev)) ev = Some (b', r) \<and>
           b' = b\<lparr>evbase := evbase b', sigmap := sigmap b'\<rparr> \<and>
           (r = -1 \<and> sig_part b' \<or>
            r = 1 \<and> (\<forall>b''. retag b' b'' ev (\<lambda>f. f OR 2) \<longrightarrow> sigmap b'' = sigmap b' \<longrightarrow> sig_part b''))"
proof -
  let ?fd = "ev_fd (evs b ev)"
  define i where "i = nat ?fd"
  have fd: "?fd = int i" using sm by (simp add: i_def)
  obtain m r0 where m: "(if ?fd \<ge> int (length (sigmap b)) then evmap_make_space (alloc env) (sigmap b) ?fd else Some (sigmap b, 0)) = Some (m, r0)"
      and mc: "r0 = -1 \<and> m = sigmap b \<or> r0 = 0 \<and> ?fd < int (length m) \<and> (\<exists>k. m = sigmap b @ replicate k None)"
    using make_space_ok [OF sm(2), of "alloc env" "sigmap b"] by (cases "?fd \<ge> int (length (sigmap b))") auto
  have grown: "sig_part (b\<lparr>evbase := s, sigmap := sigmap b @ replicate k None\<rparr>)" for s k
    using S unfolding sig_part_def by (auto simp: nth_append split: if_splits)
  show ?thesis
  proof (cases "r0 = -1")
    case True
    then show ?thesis unfolding evmap_signal_add_def m using mc S by auto
  next
    case False
    then obtain k where mk: "m = sigmap b @ replicate k None" "i < length m" using mc fd by auto
    define q where "q = (case m ! i of Some q \<Rightarrow> q | None \<Rightarrow> [])"
    obtain s r1 where d: "(if q = [] then eo_add (evsigsel env) (evbase b) ?fd 0 EV_SIGNAL else (evbase b, 0)) = (s, r1)"
      by (meson surj_pair)
    let ?m1 = "m[i := Some q]"
    have gs: "get_slot_and_ctor (alloc env) signal_entry_size [] m ?fd =
        (if m ! i = None \<and> \<not> alloc env signal_entry_size then Some (Inl m) else Some (Inr (?m1, q)))"
    proof -
      have "m[i := Some y] = m" if "m ! i = Some y" for y using that by (metis list_update_id)
      then show ?thesis using mk(2) fd by (auto simp: get_slot_and_ctor_def q_def split: option.splits)
    qed
    have res: "evmap_signal_add env b ?fd ev =
        (if m ! i = None \<and> \<not> alloc env signal_entry_size then Some (b\<lparr>sigmap := m\<rparr>, -1)
         else if r1 = -1 \<and> q = [] then Some (b\<lparr>evbase := s, sigmap := ?m1\<rparr>, -1)
         else Some (b\<lparr>evbase := s, sigmap := ?m1[i := Some (q @ [ev])]\<rparr>, 1))"
      unfolding evmap_signal_add_def m using False d gs fd by (auto simp: Let_def split: if_splits)
    have N: "sig_part (b\<lparr>evbase := s', sigmap := m\<rparr>)" for s' unfolding mk(1) by (rule grown)
    have F: "sig_part (b\<lparr>evbase := s, sigmap := ?m1\<rparr>)"
    proof (cases "m ! i")
      case None
      have "\<not> (is_ins (evs b e) \<and> \<not> rw (evs b e) \<and> ev_fd (evs b e) = int i)" for e
        using N [of s] None unfolding sig_part_def by fastforce
      then show ?thesis
        using N [of s] None mk(2) unfolding sig_part_def by (auto simp: nth_list_update q_def)
    next
      case (Some p)
      then have "?m1 = m" by (simp add: q_def) (metis list_update_id)
      then show ?thesis using N by simp
    qed
    have J: "sig_part b''" if "retag (b\<lparr>evbase := s, sigmap := ?m1[i := Some (q @ [ev])]\<rparr>) b'' ev (\<lambda>f. f OR 2)"
        "sigmap b'' = ?m1[i := Some (q @ [ev])]" for b''
    proof (rule sig_part_join [OF S mk(2,1) q_def fd w ni])
      show "retag b b'' ev (\<lambda>f. f OR 2)" by (rule retag_cong [THEN iffD1, OF _ that(1)]) simp
    qed (use that(2) in simp)
    have N2: "sig_part (b\<lparr>sigmap := m\<rparr>)" using N [of "evbase b"] by simp
    show ?thesis unfolding res using N2 F J by auto
  qed
qed

section \<open>Joining a queue\<close>

definition joined :: "'b event_base \<Rightarrow> nat \<Rightarrow> u16 \<Rightarrow> 'b event_base" where
  "joined b ev f = b\<lparr>event_count := (if internal (evs b ev) then event_count b else event_count b + 1),
                     evs := (evs b)(ev := (evs b ev)\<lparr>ev_flags := ev_flags (evs b ev) OR f\<rparr>)\<rparr>"

lemma queue_join_eq: "\<not> has (ev_flags (evs b ev)) f \<Longrightarrow> queue_join b ev f = Some (Some (joined b ev f))"
  by (simp add: queue_join_def joined_def upd_event_def)

lemma joined_simps [simp]:
  "eventqueue (joined b ev f) = eventqueue b" "activequeues (joined b ev f) = activequeues b"
  "common_timeout_queues (joined b ev f) = common_timeout_queues b" "timeheap (joined b ev f) = timeheap b"
  "event_count_active (joined b ev f) = event_count_active b" "io (joined b ev f) = io b"
  "sigmap (joined b ev f) = sigmap b" "evbase (joined b ev f) = evbase b"
  "nactivequeues (joined b ev f) = nactivequeues b"
  "event_count (joined b ev f) = (if internal (evs b ev) then event_count b else event_count b + 1)"
  "is_common_timeout t (joined b ev f) = is_common_timeout t b"
  by (simp_all add: joined_def nactivequeues_def is_common_timeout_def)

lemma retag_joined: "retag b (joined b ev f) ev (\<lambda>x. x OR f)"
  by (simp add: retag_def joined_def)

lemma joined_idx: "min_heap_idx (evs (joined b ev f) x) = min_heap_idx (evs b x)"
  by (simp add: joined_def)

lemma join_inserted_ok:
  assumes ok: "core_ok b" and ni: "\<not> is_ins (evs b ev)" and bs: "ev_base (evs b ev)"
  shows "\<exists>b'. event_queue_insert_inserted b ev = Some b' \<and> core_ok b' \<and> retag b b' ev (\<lambda>f. f OR 2) \<and>
           b' = (joined b ev 2)\<lparr>eventqueue := eventqueue b @ [ev]\<rparr>"
proof -
  let ?b = "(joined b ev 2)\<lparr>eventqueue := eventqueue b @ [ev]\<rparr>"
  have p: "ev \<notin> set (eventqueue b)" and I: "ins_part b"
    using ok ni by (auto simp: core_ok_def ins_part_def)
  have R: "retag b ?b ev (\<lambda>f. f OR 2)" using retag_joined [of b ev 2] by (simp add: retag_def)
  note D = retagD [OF retag_joined [of b ev 2]]
  have step: "event_queue_insert_inserted b ev = Some ?b"
    unfolding event_queue_insert_inserted_def using ni by (simp add: queue_join_eq flag_simps)
  have "ins_part ?b" using I p by (auto simp: ins_part_def D(1) flag_simps)
  moreover have "act_part ?b = act_part b" by (rule act_part_cong) (simp_all add: D flag_simps)
  moreover have "common_part ?b = common_part b" by (rule common_part_cong) (simp_all add: D flag_simps)
  moreover have "heap_part ?b = heap_part b" by (rule heap_part_cong) (simp_all add: D flag_simps joined_idx)
  moreover have "flag_part ?b" using ok bs by (auto simp: core_ok_def flag_part_def D flag_simps)
  moreover have "count_part ?b"
  proof (rule count_joined)
    show "count_part b" using ok by (simp add: core_ok_def)
    show "queued ?b = add_mset ev (queued b)" by (simp add: queued_parts)
    show "event_count_active ?b = int (length (concat (activequeues ?b)))"
      using ok by (simp add: core_ok_def count_part_def)
  qed (simp_all add: internal_bit D flag_simps)
  ultimately show ?thesis using step R ok by (simp add: core_ok_def)
qed

text \<open>Timeouts join the heap: there is room on it, or room can be made.\<close>

lemma join_heap_ok:
  assumes ok: "core_ok b" and nt: "\<not> is_tmo (evs b ev)" and bs: "ev_base (evs b ev)"
    and nc: "\<not> is_common_timeout (ev_timeout (evs b ev)) b"
    and room: "hn (timeheap b) < 2 ^ 31 - 1" "snd (min_heap_reserve (alloc env) (timeheap b) (hn (timeheap b) + 1)) = 0"
  shows "\<exists>b' h es. event_queue_insert_timeout env b ev = Some b' \<and> core_ok b' \<and> retag b b' ev (\<lambda>f. f OR 1) \<and>
           b' = (joined b ev 1)\<lparr>timeheap := h, evs := es\<rparr> \<and>
           mset (heap_elems h) = add_mset ev (mset (heap_elems (timeheap b)))"
proof -
  note D = retagD [OF retag_joined [of b ev 1]]
  have H: "heap_part b" using ok by (simp add: core_ok_def)
  then have hin: "ev \<notin> set (heap_elems (timeheap b))" and h0: "heap_ok (timeheap b) (evs b)"
    using nt by (auto simp: heap_part_def)
  have h1: "heap_ok (timeheap b) (evs (joined b ev 1))" using h0 heap_ok_cong [of "evs (joined b ev 1)" "evs b"]
    by (simp add: D joined_idx)
  obtain h es where pu: "min_heap_push (alloc env) (timeheap b) (evs (joined b ev 1)) ev = Some (h, es, 0)"
      and ho: "heap_ok h es" and m: "mset (heap_elems h) = add_mset ev (mset (heap_elems (timeheap b)))"
      and ri: "reindexed (evs (joined b ev 1)) es (insert ev (set (heap_elems (timeheap b))))"
    using push_ok [OF h1 hin room] by blast
  let ?b = "(joined b ev 1)\<lparr>timeheap := h, evs := es\<rparr>"
  have es: "es x = (evs (joined b ev 1) x)\<lparr>min_heap_idx := min_heap_idx (es x)\<rparr>" for x
    using ri by (simp add: reindexed_def)
  have R: "retag b ?b ev (\<lambda>f. f OR 1)"
    unfolding retag_def
  proof
    fix x show "evs ?b x = (evs b x)\<lparr>ev_flags := if x = ev then ev_flags (evs b x) OR 1 else ev_flags (evs b x),
        min_heap_idx := min_heap_idx (evs ?b x)\<rparr>"
      using es [of x] by (simp add: joined_def split: if_splits)
  qed
  note E = retagD [OF R, simplified]
  have step: "event_queue_insert_timeout env b ev = Some ?b"
    unfolding event_queue_insert_timeout_def
    using nc pu nt by (simp add: queue_join_eq flag_simps D Let_def)
  have s: "set (heap_elems h) = insert ev (set (heap_elems (timeheap b)))"
    using m by (metis set_mset_mset set_mset_add_mset_insert)
  have "heap_part ?b"
    using H ho s nc by (auto simp: heap_part_def E flag_simps is_common_timeout_def)
  moreover have "act_part ?b = act_part b" by (rule act_part_cong) (simp_all add: E flag_simps)
  moreover have "ins_part ?b = ins_part b" by (rule ins_part_cong) (simp_all add: E flag_simps)
  moreover have "common_part ?b"
    using ok nc by (auto simp: core_ok_def common_part_def common_queue_ok_def E flag_simps is_common_timeout_def)
  moreover have "flag_part ?b" using ok bs by (auto simp: core_ok_def flag_part_def E flag_simps)
  moreover have "count_part ?b"
  proof (rule count_joined)
    show "count_part b" using ok by (simp add: core_ok_def)
    show "queued ?b = add_mset ev (queued b)" using m by (simp add: queued_parts)
    show "event_count_active ?b = int (length (concat (activequeues ?b)))"
      using ok by (simp add: core_ok_def count_part_def)
  qed (simp_all add: internal_bit E flag_simps)
  ultimately show ?thesis using step R m ok by (auto simp: core_ok_def)
qed

text \<open>Timeouts join the queue of their duration, in order.\<close>

lemma insert_rev_ok:
  "\<forall>e \<in> set q. is_same_common_timeout (ev_timeout (es e)) (ev_timeout (es ev)) \<Longrightarrow>
     \<exists>q'. insert_rev es q ev = Some q' \<and> mset q' = add_mset ev (mset q) \<and>
       (sorted_wrt (\<lambda>a b. ev_timeout (es b) \<le> ev_timeout (es a)) q \<longrightarrow>
        sorted_wrt (\<lambda>a b. ev_timeout (es b) \<le> ev_timeout (es a)) q')"
proof (induction q)
  case Nil
  then show ?case by simp
next
  case (Cons e q)
  then obtain q' where q': "insert_rev es q ev = Some q'" "mset q' = add_mset ev (mset q)"
      "sorted_wrt (\<lambda>a b. ev_timeout (es b) \<le> ev_timeout (es a)) q \<longrightarrow>
       sorted_wrt (\<lambda>a b. ev_timeout (es b) \<le> ev_timeout (es a)) q'"
    by auto
  have s: "set q' = insert ev (set q)" using q'(2) by (metis set_mset_mset set_mset_add_mset_insert)
  show ?case
  proof (cases "ev_timeout (es e) \<le> ev_timeout (es ev)")
    case True
    then show ?thesis using Cons.prems by (auto simp: evutil_assert_def timer_simps intro: order_trans)
  next
    case False
    then show ?thesis using Cons.prems q' s by (auto simp: evutil_assert_def timer_simps)
  qed
qed

lemma insert_inorder_ok:
  assumes "\<forall>e \<in> set q. is_same_common_timeout (ev_timeout (es e)) (ev_timeout (es ev))"
    and "sorted_wrt (\<lambda>a b. ev_timeout (es a) \<le> ev_timeout (es b)) q"
  shows "\<exists>q'. insert_common_timeout_inorder es q ev = Some q' \<and> mset q' = add_mset ev (mset q) \<and>
           sorted_wrt (\<lambda>a b. ev_timeout (es a) \<le> ev_timeout (es b)) q'"
proof -
  have "sorted_wrt (\<lambda>a b. ev_timeout (es b) \<le> ev_timeout (es a)) (rev q)"
    using assms(2) by (simp add: sorted_wrt_rev)
  then obtain q' where "insert_rev es (rev q) ev = Some q'" "mset q' = add_mset ev (mset q)"
      "sorted_wrt (\<lambda>a b. ev_timeout (es b) \<le> ev_timeout (es a)) q'"
    using insert_rev_ok [of "rev q" es ev] assms(1) by auto
  then show ?thesis by (auto simp: insert_common_timeout_inorder_def sorted_wrt_rev)
qed

lemma join_common_ok:
  assumes ok: "core_ok b" and nt: "\<not> is_tmo (evs b ev)" and bs: "ev_base (evs b ev)"
    and c: "is_common_timeout (ev_timeout (evs b ev)) b"
    and same: "is_same_common_timeout (ev_timeout (evs b ev))
        (duration (common_timeout_queues b ! COMMON_TIMEOUT_IDX (ev_timeout (evs b ev))))"
  shows "\<exists>b' q. event_queue_insert_timeout env b ev = Some b' \<and> core_ok b' \<and> retag b b' ev (\<lambda>f. f OR 1) \<and>
           b' = put_common_timeout_list (joined b ev 1) (ev_timeout (evs b ev)) q"
proof -
  let ?tv = "ev_timeout (evs b ev)" and ?qs = "common_timeout_queues b"
  let ?i = "COMMON_TIMEOUT_IDX ?tv"
  let ?q = "ctl_events (?qs ! ?i)"
  note D = retagD [OF retag_joined [of b ev 1]]
  have i: "?i < length ?qs" using c by (simp add: is_common_timeout_def)
  have C: "common_part b" using ok by (simp add: core_ok_def)
  then have cq0: "common_queue_ok b ?i (?qs ! ?i)" using i by (simp add: common_part_def)
  then have nin: "ev \<notin> set ?q" using nt by (simp add: common_queue_ok_def)
  have "\<forall>e \<in> set ?q. is_same_common_timeout (ev_timeout (evs (joined b ev 1) e)) (ev_timeout (evs (joined b ev 1) ev))"
    using cq0 same by (simp add: common_queue_ok_def D is_same_common_timeout_def)
  then obtain q' where q': "insert_common_timeout_inorder (evs (joined b ev 1)) ?q ev = Some q'"
      "mset q' = add_mset ev (mset ?q)"
      "sorted_wrt (\<lambda>x y. ev_timeout (evs b x) \<le> ev_timeout (evs b y)) q'"
    using insert_inorder_ok [of ?q "evs (joined b ev 1)" ev] cq0 by (auto simp: common_queue_ok_def D)
  have sq: "set q' = insert ev (set ?q)" using q'(2) by (metis set_mset_mset set_mset_add_mset_insert)
  have dq: "distinct q'" using q'(2) nin cq0
    by (metis common_queue_ok_def distinct.simps(2) mset.simps(2) mset_eq_imp_distinct_iff)
  let ?b = "put_common_timeout_list (joined b ev 1) ?tv q'"
  have b: "?b = (joined b ev 1)\<lparr>common_timeout_queues := ?qs[?i := (?qs ! ?i)\<lparr>ctl_events := q'\<rparr>]\<rparr>"
    by (simp add: put_common_timeout_list_def)
  have R: "retag b ?b ev (\<lambda>f. f OR 1)" using retag_joined [of b ev 1] by (simp add: retag_def b)
  have step: "event_queue_insert_timeout env b ev = Some ?b"
    unfolding event_queue_insert_timeout_def
    using c i nt q'(1) by (simp add: queue_join_eq flag_simps D Let_def get_common_timeout_list_def)
  have L: "is_common_timeout t ?b = is_common_timeout t b" for t
    using i by (simp add: is_common_timeout_def b)
  have "common_part ?b"
    unfolding common_part_def
  proof (intro allI impI)
    fix j assume j: "j < length (common_timeout_queues ?b)"
    then have cq: "common_queue_ok b j (?qs ! j)" using C by (simp add: common_part_def b)
    show "common_queue_ok ?b j (common_timeout_queues ?b ! j)"
    proof (cases "j = ?i")
      case True
      then show ?thesis
        using cq i L q' sq dq c same by (auto simp: common_queue_ok_def b D flag_simps)
    next
      case False
      then show ?thesis
        using cq i L nin c by (auto simp: common_queue_ok_def b D flag_simps)
    qed
  qed
  moreover have "act_part ?b = act_part b" by (rule act_part_cong) (simp_all add: b D flag_simps)
  moreover have "ins_part ?b = ins_part b" by (rule ins_part_cong) (simp_all add: b D flag_simps)
  moreover have "heap_part ?b"
  proof -
    have "heap_ok (timeheap b) (evs ?b) = heap_ok (timeheap b) (evs b)"
      by (rule heap_ok_cong) (simp_all add: b D joined_idx)
    then have "heap_ok (timeheap ?b) (evs ?b)" using ok by (simp add: core_ok_def heap_part_def b)
    moreover have "e \<in> set (heap_elems (timeheap ?b)) \<longleftrightarrow>
        is_tmo (evs ?b e) \<and> \<not> is_common_timeout (ev_timeout (evs ?b e)) ?b" for e
    proof -
      have "e \<in> set (heap_elems (timeheap b)) \<longleftrightarrow> is_tmo (evs b e) \<and> \<not> is_common_timeout (ev_timeout (evs b e)) b"
        using ok unfolding core_ok_def heap_part_def by blast
      then show ?thesis unfolding L using c nt by (cases "e = ev") (simp_all add: b D flag_simps)
    qed
    ultimately show ?thesis unfolding heap_part_def by blast
  qed
  moreover have "flag_part ?b" using ok bs by (auto simp: core_ok_def flag_part_def b D flag_simps)
  moreover have "count_part ?b"
  proof (rule count_joined)
    show "count_part b" using ok by (simp add: core_ok_def)
    have "mset (concat (map ctl_events (common_timeout_queues ?b))) = add_mset ev (mset (concat (map ctl_events ?qs)))"
      using concat_insert [of ?i "map ctl_events ?qs" q' ev] i q'(2) by (simp add: b map_update)
    then show "queued ?b = add_mset ev (queued b)" by (simp add: queued_parts b)
    show "event_count_active ?b = int (length (concat (activequeues ?b)))"
      using ok by (simp add: core_ok_def count_part_def b)
  qed (simp_all add: internal_bit b D flag_simps)
  ultimately show ?thesis using step R ok by (auto simp: core_ok_def)
qed

section \<open>The bits of a common timeout\<close>

lemma small_and:
  fixes u :: int
  assumes "0 \<le> u" "u < 2 ^ 20"
  shows "u AND NOT MICROSECONDS_MASK = 0" "u AND COMMON_TIMEOUT_MASK = 0"
proof -
  have u: "take_bit 20 u = u" using assms by (simp add: take_bit_int_eq_self_iff)
  have m: "MICROSECONDS_MASK = mask 20" by (simp add: mask_numeral)
  have c: "COMMON_TIMEOUT_MASK = push_bit 28 (mask 4)" by (simp add: mask_numeral push_bit_eq_mult)
  show z: "u AND NOT MICROSECONDS_MASK = 0"
    unfolding m by (subst u [symmetric]) (rule bit_eqI, auto simp: bit_simps)
  show "u AND COMMON_TIMEOUT_MASK = 0"
    unfolding c by (subst u [symmetric]) (rule bit_eqI, auto simp: bit_simps)
qed

lemma masked_small: "0 \<le> v AND MICROSECONDS_MASK" "v AND MICROSECONDS_MASK < 2 ^ 20" for v :: int
proof -
  have m: "MICROSECONDS_MASK = mask 20" by (simp add: mask_numeral)
  show "0 \<le> v AND MICROSECONDS_MASK" unfolding m by (simp flip: take_bit_eq_mask)
  show "v AND MICROSECONDS_MASK < 2 ^ 20"
    unfolding m using take_bit_int_less_exp [of 20 v] by (simp only: take_bit_eq_mask)
qed

lemma same_common_bits:
  assumes "is_same_common_timeout a c"
  shows "tv_usec a AND COMMON_TIMEOUT_MASK = tv_usec c AND COMMON_TIMEOUT_MASK"
    "COMMON_TIMEOUT_IDX a = COMMON_TIMEOUT_IDX c"
proof -
  have s: "tv_usec a AND NOT MICROSECONDS_MASK = tv_usec c AND NOT MICROSECONDS_MASK"
    using assms by (simp add: is_same_common_timeout_def)
  have "x AND (NOT MICROSECONDS_MASK AND COMMON_TIMEOUT_MASK) = x AND COMMON_TIMEOUT_MASK"
    "x AND (NOT MICROSECONDS_MASK AND COMMON_TIMEOUT_IDX_MASK) = x AND COMMON_TIMEOUT_IDX_MASK" for x :: int
    by simp_all
  then have k: "(x AND NOT MICROSECONDS_MASK) AND COMMON_TIMEOUT_MASK = x AND COMMON_TIMEOUT_MASK"
    "(x AND NOT MICROSECONDS_MASK) AND COMMON_TIMEOUT_IDX_MASK = x AND COMMON_TIMEOUT_IDX_MASK" for x :: int
    by (simp_all only: and.assoc)
  show "tv_usec a AND COMMON_TIMEOUT_MASK = tv_usec c AND COMMON_TIMEOUT_MASK" using s k(1) by metis
  have "tv_usec a AND COMMON_TIMEOUT_IDX_MASK = tv_usec c AND COMMON_TIMEOUT_IDX_MASK" using s k(2) by metis
  then show "COMMON_TIMEOUT_IDX a = COMMON_TIMEOUT_IDX c" by (simp only: COMMON_TIMEOUT_IDX_def)
qed

lemma same_common_is: "is_same_common_timeout a c \<Longrightarrow> is_common_timeout a b = is_common_timeout c b"
  using same_common_bits [of a c] by (simp only: is_common_timeout_def)

lemma not_common_small: "0 \<le> tv_usec t \<Longrightarrow> tv_usec t < 2 ^ 20 \<Longrightarrow> \<not> is_common_timeout t b"
  using small_and(2) [of "tv_usec t"] by (simp add: is_common_timeout_def)

lemma mask_not_common: "\<not> is_common_timeout (mask_usec t) b"
  by (rule not_common_small) (simp_all add: mask_usec_def masked_small [simplified])

lemma normal_not_common: "normal_tv t \<Longrightarrow> \<not> is_common_timeout t b"
  by (rule not_common_small) (simp_all add: normal_tv_def)

text \<open>The time at which an event added at \<open>now\<close> is due.\<close>

definition due_at :: "timeval \<Rightarrow> 'b event_base \<Rightarrow> timeval \<Rightarrow> bool \<Rightarrow> timeval" where
  "due_at now b tv absolute =
     (if absolute then tv
      else if is_common_timeout tv b then
        let t = timeradd now (mask_usec tv)
        in Timeval (tv_sec t) (tv_usec t OR (tv_usec tv AND NOT MICROSECONDS_MASK))
      else timeradd now tv)"

lemma usec_range: "normal_tv now \<Longrightarrow> 0 \<le> tv_usec (timeradd now (mask_usec tv)) \<and> tv_usec (timeradd now (mask_usec tv)) < 2 ^ 20"
proof -
  assume n: "normal_tv now"
  define m where "m = tv_usec tv AND MICROSECONDS_MASK"
  have "0 \<le> m" "m < 2 ^ 20" unfolding m_def by (rule masked_small)+
  moreover have "mask_usec tv = Timeval (tv_sec tv) m" by (simp only: mask_usec_def m_def)
  ultimately show ?thesis using n by (simp add: normal_tv_def timeradd_def Let_def)
qed

lemma due_at_same:
  assumes "normal_tv now" "is_common_timeout tv b"
  shows "is_same_common_timeout (due_at now b tv absolute) tv"
proof (cases absolute)
  case True
  then show ?thesis by (simp add: due_at_def is_same_common_timeout_def)
next
  case False
  let ?u = "tv_usec (timeradd now (mask_usec tv))"
  have "?u AND NOT MICROSECONDS_MASK = 0" using usec_range [OF assms(1), of tv] by (intro small_and(1)) auto
  then have "(?u OR (tv_usec tv AND NOT MICROSECONDS_MASK)) AND NOT MICROSECONDS_MASK =
      tv_usec tv AND NOT MICROSECONDS_MASK"
    by (simp only: bit.conj_disj_distrib2 and.assoc and.idem or.left_neutral)
  then show ?thesis using False assms(2) by (simp add: due_at_def is_same_common_timeout_def Let_def)
qed

lemma due_at_common:
  assumes "normal_tv now" "normal_tv tv \<or> is_common_timeout tv b"
  shows "is_common_timeout (due_at now b tv absolute) b = is_common_timeout tv b"
proof (cases "is_common_timeout tv b")
  case True
  show ?thesis by (rule same_common_is [OF due_at_same [OF assms(1) True]])
next
  case False
  then have "normal_tv (due_at now b tv absolute)"
    using assms normal_timeradd [of now tv] by (simp add: due_at_def)
  then show ?thesis using False normal_not_common by blast
qed

section \<open>Adding\<close>

text \<open>Fields of events that no operation but assigning writes.\<close>

definition static :: "'b event_base \<Rightarrow> 'b event_base \<Rightarrow> bool" where
  "static b b' \<longleftrightarrow> (\<forall>x. ev_base (evs b' x) = ev_base (evs b x) \<and> ev_events (evs b' x) = ev_events (evs b x) \<and>
     ev_fd (evs b' x) = ev_fd (evs b x) \<and> ev_pri (evs b' x) = ev_pri (evs b x))"

lemma static_trans: "static a b \<Longrightarrow> static b c \<Longrightarrow> static a c"
  by (simp add: static_def)

lemma touched_static: "touched b b' ev \<Longrightarrow> static b b'"
  using touchedD(2-5) [of b b' ev] by (simp add: static_def)

lemma touched_quiet: "touched b b' ev \<Longrightarrow> (\<forall>e. ev_pncalls (evs b e) = None) \<Longrightarrow> \<forall>e. ev_pncalls (evs b' e) = None"
  using touchedD(11) [of b b' ev] by simp

lemma upd_event_simps [simp]:
  "timeheap (upd_event b ev f) = timeheap b" "common_timeout_queues (upd_event b ev f) = common_timeout_queues b"
  "eventqueue (upd_event b ev f) = eventqueue b" "activequeues (upd_event b ev f) = activequeues b"
  "io (upd_event b ev f) = io b" "sigmap (upd_event b ev f) = sigmap b" "event_count (upd_event b ev f) = event_count b"
  "event_count_active (upd_event b ev f) = event_count_active b" "tv_cache (upd_event b ev f) = tv_cache b"
  "nactivequeues (upd_event b ev f) = nactivequeues b" "sig_frame (upd_event b ev f) = sig_frame b"
  "event_running_priority (upd_event b ev f) = event_running_priority b"
  "is_common_timeout t (upd_event b ev f) = is_common_timeout t b"
  "evs (upd_event b ev f) x = (if x = ev then f (evs b ev) else evs b x)"
  by (simp_all add: upd_event_def nactivequeues_def is_common_timeout_def)

lemma queued_upd [simp]: "queued (upd_event b ev f) = queued b"
  by (simp add: queued_def)

lemma base_ok_io_timeout: "base_ok b \<Longrightarrow> base_ok (upd_event b ev (\<lambda>e. e\<lparr>ev_io_timeout := t\<rparr>))"
  (is "_ \<Longrightarrow> base_ok ?b")
proof -
  assume ok: "base_ok b"
  have E: "ev_flags (evs ?b x) = ev_flags (evs b x)" "ev_timeout (evs ?b x) = ev_timeout (evs b x)"
    "ev_pri (evs ?b x) = ev_pri (evs b x)" "ev_fd (evs ?b x) = ev_fd (evs b x)" "ev_base (evs ?b x) = ev_base (evs b x)"
    "ev_events (evs ?b x) = ev_events (evs b x)" "min_heap_idx (evs ?b x) = min_heap_idx (evs b x)" for x
    by simp_all
  have "heap_part ?b = heap_part b" by (rule heap_part_cong) (simp_all add: E del: upd_event_simps(14))
  moreover have "common_part ?b = common_part b" by (rule common_part_cong) (simp_all add: E del: upd_event_simps(14))
  moreover have "ins_part ?b = ins_part b" by (rule ins_part_cong) (simp_all add: E del: upd_event_simps(14))
  moreover have "act_part ?b = act_part b" by (rule act_part_cong) (simp_all add: E del: upd_event_simps(14))
  moreover have "io_part ?b = io_part b" by (rule io_part_cong) (simp_all add: E del: upd_event_simps(14))
  moreover have "sig_part ?b = sig_part b" by (rule sig_part_cong) (simp_all add: E del: upd_event_simps(14))
  moreover have "flag_part ?b = flag_part b" by (simp add: flag_part_def E del: upd_event_simps(14))
  moreover have "count_part ?b = count_part b" by (simp add: count_part_def internal_bit E del: upd_event_simps(14))
  ultimately show ?thesis using ok by (simp add: base_ok_def core_ok_def)
qed

text \<open>The timeout of an event that is on no timeout queue can be set.\<close>

lemma heap_ok_set_timeout:
  assumes "heap_ok s es" "ev \<notin> set (heap_elems s)"
  shows "heap_ok s (es(ev := (es ev)\<lparr>ev_timeout := t\<rparr>))"
proof -
  let ?es = "es(ev := (es ev)\<lparr>ev_timeout := t\<rparr>)"
  have idx: "min_heap_idx (?es x) = min_heap_idx (es x)" for x by simp
  have k: "ev_timeout (?es (heap_elems s ! i)) = ev_timeout (es (heap_elems s ! i))" if "i < length (heap_elems s)" for i
    using that assms(2) nth_mem [OF that] by auto
  have "heap_order (\<lambda>x. ev_timeout (?es x)) (heap_elems s)"
    unfolding heap_order_def
  proof (intro allI impI)
    fix i assume i: "i < length (heap_elems s)" "0 < i"
    then have "par i < length (heap_elems s)" using par_less [of i] by simp
    then show "ev_timeout (?es (heap_elems s ! par i)) \<le> ev_timeout (?es (heap_elems s ! i))"
      using assms(1) i unfolding k [OF i(1)] heap_ok_def heap_order_def by (metis k)
  qed
  then show ?thesis using assms(1) by (simp add: heap_ok_def holed_def idx del: fun_upd_apply)
qed

lemma base_ok_set_timeout:
  assumes ok: "base_ok b" and nt: "\<not> is_tmo (evs b ev)"
  shows "base_ok (upd_event b ev (\<lambda>e. e\<lparr>ev_timeout := t\<rparr>))" (is "base_ok ?b")
proof -
  have E: "ev_flags (evs ?b x) = ev_flags (evs b x)"
    "ev_pri (evs ?b x) = ev_pri (evs b x)" "ev_fd (evs ?b x) = ev_fd (evs b x)" "ev_base (evs ?b x) = ev_base (evs b x)"
    "ev_events (evs ?b x) = ev_events (evs b x)" "min_heap_idx (evs ?b x) = min_heap_idx (evs b x)" for x
    by simp_all
  have T: "ev_timeout (evs ?b x) = ev_timeout (evs b x)" if "is_tmo (evs b x)" for x using nt that by auto
  have H: "heap_part b" and C: "common_part b" using ok by (simp_all add: base_ok_def core_ok_def)
  have "heap_part ?b"
  proof -
    have "ev \<notin> set (heap_elems (timeheap b))" using H nt by (auto simp: heap_part_def)
    then have "heap_ok (timeheap b) (evs ?b)"
      using H heap_ok_set_timeout by (simp add: heap_part_def upd_event_def)
    then show ?thesis using H T nt unfolding heap_part_def by auto
  qed
  moreover have "common_part ?b"
    unfolding common_part_def
  proof (intro allI impI)
    fix i assume "i < length (common_timeout_queues ?b)"
    then have cq: "common_queue_ok b i (common_timeout_queues b ! i)" using C by (simp add: common_part_def)
    then have q: "\<And>e. e \<in> set (ctl_events (common_timeout_queues b ! i)) \<Longrightarrow> is_tmo (evs b e)"
      by (simp add: common_queue_ok_def)
    have "sorted_wrt (\<lambda>x y. ev_timeout (evs ?b x) \<le> ev_timeout (evs ?b y)) (ctl_events (common_timeout_queues b ! i))"
      by (rule sorted_wrt_mono_rel [of _ "\<lambda>x y. ev_timeout (evs b x) \<le> ev_timeout (evs b y)"])
        (use cq q T in \<open>simp_all add: common_queue_ok_def\<close>)
    then show "common_queue_ok ?b i (common_timeout_queues ?b ! i)"
      using cq q T nt by (auto simp: common_queue_ok_def)
  qed
  moreover have "ins_part ?b = ins_part b" by (rule ins_part_cong) (simp_all add: E del: upd_event_simps(14))
  moreover have "act_part ?b = act_part b" by (rule act_part_cong) (simp_all add: E del: upd_event_simps(14))
  moreover have "io_part ?b = io_part b" by (rule io_part_cong) (simp_all add: E del: upd_event_simps(14))
  moreover have "sig_part ?b = sig_part b" by (rule sig_part_cong) (simp_all add: E del: upd_event_simps(14))
  moreover have "flag_part ?b = flag_part b" by (simp add: flag_part_def E del: upd_event_simps(14))
  moreover have "count_part ?b = count_part b" by (simp add: count_part_def internal_bit E del: upd_event_simps(14))
  ultimately show ?thesis using ok by (simp add: base_ok_def core_ok_def)
qed

text \<open>
  What may be asked for: an ordinary time or the magic duration of a common timeout queue; and
  the queues' own events, which have no descriptor.
\<close>

definition good_tv :: "'b event_base \<Rightarrow> timeval \<Rightarrow> bool \<Rightarrow> bool" where
  "good_tv b tv absolute \<longleftrightarrow>
     (if is_common_timeout tv b
      then is_same_common_timeout tv (duration (common_timeout_queues b ! COMMON_TIMEOUT_IDX tv))
      else absolute \<or> normal_tv tv)"

definition ctl_events_ok :: "'b event_base \<Rightarrow> bool" where
  "ctl_events_ok b \<longleftrightarrow> (\<forall>te \<in> set (map timeout_event (common_timeout_queues b)).
     ev_base (evs b te) \<and> ev_events (evs b te) = 0)"

lemma steady_duration: "steady b b' \<Longrightarrow> i < length (common_timeout_queues b) \<Longrightarrow>
    duration (common_timeout_queues b' ! i) = duration (common_timeout_queues b ! i)"
  unfolding steady_def by (metis length_map nth_map)

lemma steady_now: "steady b b' \<Longrightarrow> gettime env b' = gettime env b"
  by (simp add: steady_def gettime_def)

lemma heap_size: "core_ok b \<Longrightarrow> hn (timeheap b) = size (pending b)"
  unfolding core_ok_def heap_part_def pending_def using length_heap_elems [of "timeheap b" "evs b"] by simp

lemma join_timeout_ok:
  assumes ok: "base_ok b" and nt: "\<not> is_tmo (evs b ev)" and bs: "ev_base (evs b ev)"
    and same: "is_common_timeout (ev_timeout (evs b ev)) b \<Longrightarrow> is_same_common_timeout (ev_timeout (evs b ev))
        (duration (common_timeout_queues b ! COMMON_TIMEOUT_IDX (ev_timeout (evs b ev))))"
    and al: "\<And>k. alloc env k" and room: "size (pending b) < 2 ^ 31 - 1"
  shows "\<exists>b'. event_queue_insert_timeout env b ev = Some b' \<and> base_ok b' \<and> touched b b' ev \<and> steady b b' \<and>
           is_tmo (evs b' ev) \<and> size (pending b') \<le> Suc (size (pending b)) \<and>
           (\<forall>x. is_act (evs b' x) = is_act (evs b x) \<and> is_ins (evs b' x) = is_ins (evs b x))"
proof -
  have C: "core_ok b" using ok by (simp add: base_ok_def)
  have "\<exists>b'. event_queue_insert_timeout env b ev = Some b' \<and> core_ok b' \<and> retag b b' ev (\<lambda>f. f OR 1) \<and>
      apart b b' \<and> steady b b' \<and> size (pending b') \<le> Suc (size (pending b))"
  proof (cases "is_common_timeout (ev_timeout (evs b ev)) b")
    case True
    let ?tv = "ev_timeout (evs b ev)"
    obtain b' q where b': "event_queue_insert_timeout env b ev = Some b'" "core_ok b'" "retag b b' ev (\<lambda>f. f OR 1)"
        "b' = put_common_timeout_list (joined b ev 1) ?tv q"
      using join_common_ok [OF C nt bs True same [OF True]] by blast
    have "map duration (common_timeout_queues b') = map duration (common_timeout_queues b)"
      "map timeout_event (common_timeout_queues b') = map timeout_event (common_timeout_queues b)"
      unfolding b'(4) using True
      by (simp_all add: put_common_timeout_list_def map_update is_common_timeout_def map_update_same)
    then show ?thesis
      using b' by (auto simp: apart_def steady_def put_common_timeout_list_def joined_def nactivequeues_def pending_def)
  next
    case False
    obtain b' h es where b': "event_queue_insert_timeout env b ev = Some b'" "core_ok b'" "retag b b' ev (\<lambda>f. f OR 1)"
        "b' = (joined b ev 1)\<lparr>timeheap := h, evs := es\<rparr>"
        "mset (heap_elems h) = add_mset ev (mset (heap_elems (timeheap b)))"
      using join_heap_ok [OF C nt bs False _ reserve_alloc [of "alloc env", OF al]] room heap_size [OF C] by auto
    moreover have "length (heap_elems h) = Suc (length (heap_elems (timeheap b)))"
      using b'(5) by (metis size_mset size_add_mset)
    ultimately show ?thesis
      by (auto simp: apart_def steady_def joined_def nactivequeues_def pending_def)
  qed
  then obtain b' where b': "event_queue_insert_timeout env b ev = Some b'" "core_ok b'" "retag b b' ev (\<lambda>f. f OR 1)"
      "apart b b'" "steady b b'" "size (pending b') \<le> Suc (size (pending b))" by blast
  have "io_part b' \<and> sig_part b'"
    by (rule maps_retag [OF _ _ b'(4,3)]) (use ok in \<open>simp_all add: base_ok_def flag_simps\<close>)
  moreover have "is_tmo (evs b' ev)" "is_act (evs b' x) = is_act (evs b x)" "is_ins (evs b' x) = is_ins (evs b x)" for x
    using retagD(1) [OF b'(3)] by (simp_all add: flag_simps)
  ultimately show ?thesis using b' by (auto simp: base_ok_def)
qed

lemma add_timeout_ok:
  assumes ok: "base_ok b" and qu: "quiet b" and bs: "ev_base (evs b ev)" and tv: "good_tv b tv absolute"
    and now: "gettime env b = Some now" "normal_tv now"
    and al: "\<And>k. alloc env k" and room: "size (pending b) < 2 ^ 31 - 1"
  shows "\<exists>b' sched. add_timeout env b ev tv absolute = Some (b', sched) \<and> base_ok b' \<and> quiet b' \<and> static b b' \<and>
           steady b b' \<and> is_tmo (evs b' ev) \<and> ev_timeout (evs b' ev) = due_at now b tv absolute \<and>
           (\<forall>x. x \<noteq> ev \<longrightarrow> ev_timeout (evs b' x) = ev_timeout (evs b x) \<and> is_tmo (evs b' x) = is_tmo (evs b x)) \<and>
           (\<forall>x. is_ins (evs b' x) = is_ins (evs b x)) \<and> size (pending b') \<le> Suc (size (pending b)) \<and>
           (\<forall>te t. sched = Some (te, t) \<longrightarrow> is_common_timeout tv b \<and>
              te \<in> set (map timeout_event (common_timeout_queues b)) \<and> (\<exists>u. t = mask_usec u))"
proof -
  define b0 where "b0 = (if ev_closure (evs b ev) = EV_CLOSURE_PERSIST \<and> \<not> absolute
      then upd_event b ev (\<lambda>e. e\<lparr>ev_io_timeout := tv\<rparr>) else b)"
  have s0: "base_ok b0" "quiet b0" "static b b0" "steady b b0" "pending b0 = pending b"
      "\<And>x. ev_timeout (evs b0 x) = ev_timeout (evs b x)" "\<And>x. ev_flags (evs b0 x) = ev_flags (evs b x)"
    using ok qu base_ok_io_timeout [OF ok]
    by (auto simp: b0_def quiet_def static_def steady_def pending_def)
  obtain b1 where b1: "(if is_tmo (evs b0 ev) then event_queue_remove_timeout b0 ev else Some b0) = Some b1"
      "base_ok b1" "touched b0 b1 ev" "steady b0 b1" "pending b1 = pending b0 - off_heap b0 ev" "\<not> is_tmo (evs b1 ev)"
      "\<And>x. is_ins (evs b1 x) = is_ins (evs b0 x)"
    using leave_timeout [OF s0(1), of ev] by blast
  have q1: "quiet b1" using s0(2) touched_quiet [OF b1(3)] by (simp add: quiet_def)
  obtain b2 where b2: "(if is_act (evs b1 ev) \<and> has (ev_res (evs b1 ev)) EV_TIMEOUT then event_queue_remove_active b1 ev else Some b1) = Some b2"
      "base_ok b2" "touched b1 b2 ev" "steady b1 b2" "pending b2 = pending b1" "\<not> is_tmo (evs b2 ev)"
      "\<And>x. is_ins (evs b2 x) = is_ins (evs b1 x)"
  proof (cases "is_act (evs b1 ev) \<and> has (ev_res (evs b1 ev)) EV_TIMEOUT")
    case True
    then show ?thesis using leave_active [OF b1(2), of ev] that b1(6) by auto
  next
    case False
    then show ?thesis using that [of b1] b1(2,6) by (auto simp: touched_same_evs steady_refl)
  qed
  have q2: "quiet b2" using q1 touched_quiet [OF b2(3)] by (simp add: quiet_def)
  define b3 where "b3 = upd_event b2 ev (\<lambda>e. e\<lparr>ev_timeout := due_at now b tv absolute\<rparr>)"
  have st2: "steady b b2" using s0(4) b1(4) b2(4) steady_trans by blast
  have st3: "steady b b3" using st2 by (simp add: b3_def steady_def)
  have T2: "static b b2" using s0(3) touched_static [OF b1(3)] touched_static [OF b2(3)] static_trans by blast
  have T3: "static b b3" using T2 by (simp add: b3_def static_def)
  have ok3: "base_ok b3" unfolding b3_def by (rule base_ok_set_timeout [OF b2(2,6)])
  have nt3: "\<not> is_tmo (evs b3 ev)" and tm3: "ev_timeout (evs b3 ev) = due_at now b tv absolute"
    using b2(6) by (simp_all add: b3_def)
  have oth: "ev_timeout (evs b3 x) = ev_timeout (evs b x) \<and> is_tmo (evs b3 x) = is_tmo (evs b x)" if "x \<noteq> ev" for x
    using that s0(6,7) touchedD(1,13) [OF b1(3)] touchedD(1,13) [OF b2(3)] by (simp add: b3_def)
  have q3: "quiet b3" using q2 by (simp add: b3_def quiet_def)
  have bs3: "ev_base (evs b3 ev)" using T3 bs by (simp add: static_def)
  have cm: "is_common_timeout (due_at now b tv absolute) b = is_common_timeout tv b"
    using tv due_at_common [OF now(2), of tv b absolute] by (cases absolute) (auto simp: good_tv_def due_at_def)
  have com: "is_common_timeout t b3 = is_common_timeout t b" for t using steady_common [OF st3] .
  have "pending b3 = pending b - off_heap b0 ev" using b1(5) b2(5) s0(5) by (simp add: b3_def pending_def)
  then have sz: "size (pending b3) \<le> size (pending b)" by (simp add: size_mset_mono)
  have same3: "is_same_common_timeout (ev_timeout (evs b3 ev))
        (duration (common_timeout_queues b3 ! COMMON_TIMEOUT_IDX (ev_timeout (evs b3 ev))))"
    if c: "is_common_timeout (ev_timeout (evs b3 ev)) b3"
  proof -
    have ct: "is_common_timeout tv b" using c cm com tm3 by simp
    then have sd: "is_same_common_timeout tv (duration (common_timeout_queues b ! COMMON_TIMEOUT_IDX tv))"
      using tv by (simp add: good_tv_def)
    have ds: "is_same_common_timeout (due_at now b tv absolute) tv" by (rule due_at_same [OF now(2) ct])
    have "COMMON_TIMEOUT_IDX tv < length (common_timeout_queues b)" using ct by (simp add: is_common_timeout_def)
    then show ?thesis
      using sd ds same_common_bits(2) [OF ds] steady_duration [OF st3] by (simp add: tm3 is_same_common_timeout_def)
  qed
  obtain b4 where b4: "event_queue_insert_timeout env b3 ev = Some b4" "base_ok b4" "touched b3 b4 ev" "steady b3 b4"
      "is_tmo (evs b4 ev)" "size (pending b4) \<le> Suc (size (pending b3))"
      "\<And>x. is_act (evs b4 x) = is_act (evs b3 x)" "\<And>x. is_ins (evs b4 x) = is_ins (evs b3 x)"
    using join_timeout_ok [OF ok3 nt3 bs3 same3 al] sz room by force
  have st4: "steady b b4" using st3 b4(4) steady_trans by blast
  have T4: "static b b4" using T3 touched_static [OF b4(3)] static_trans by blast
  have tm4: "ev_timeout (evs b4 ev) = due_at now b tv absolute" using tm3 touchedD(1) [OF b4(3)] by simp
  define sched where "sched = (if is_common_timeout tv b then
      (let ctl = common_timeout_queues b4 ! COMMON_TIMEOUT_IDX (ev_timeout (evs b4 ev))
       in if ctl_events ctl \<noteq> [] \<and> ev = hd (ctl_events ctl)
          then Some (timeout_event ctl, mask_usec (ev_timeout (evs b4 ev))) else None) else None)"
  have idx: "COMMON_TIMEOUT_IDX (ev_timeout (evs b4 ev)) < length (common_timeout_queues b4)" if "is_common_timeout tv b"
  proof -
    have "is_common_timeout (ev_timeout (evs b4 ev)) b4" using that cm tm4 steady_common [OF st4] by simp
    then show ?thesis by (simp add: is_common_timeout_def)
  qed
  have n2: "gettime env b2 = Some now" using now(1) steady_now [OF st2] by simp
  have c2: "is_common_timeout t b2 = is_common_timeout t b" for t using steady_common [OF st2] .
  have B1: "(if has (ev_flags (evs b0 ev)) EVLIST_TIMEOUT then event_queue_remove_timeout b0 ev else Some b0) = Some b1"
    using b1(1) by (simp add: has_flags)
  have B2: "(if has (ev_flags (evs b1 ev)) EVLIST_ACTIVE \<and> has (ev_res (evs b1 ev)) EV_TIMEOUT
      then do { base \<leftarrow> abort_calls b1 ev; event_queue_remove_active base ev } else Some b1) = Some b2"
    using b2(1) quiet_abort [OF q1, of ev] by (auto simp: has_flags split: if_splits)
  have B4: "event_queue_insert_timeout env (upd_event b2 ev (\<lambda>e. e\<lparr>ev_timeout := due_at now b tv absolute\<rparr>)) ev = Some b4"
    using b4(1) by (simp add: b3_def)
  have D: "due_at now b tv absolute = (if absolute then tv else if is_common_timeout tv b then
      Timeval (tv_sec (timeradd now (mask_usec tv))) (tv_usec (timeradd now (mask_usec tv)) OR (tv_usec tv AND NOT MICROSECONDS_MASK))
      else timeradd now tv)"
    by (simp add: due_at_def Let_def)
  have "add_timeout env b ev tv absolute = (if is_common_timeout tv b then do {
       ctl \<leftarrow> get_common_timeout_list b4 (ev_timeout (evs b4 ev));
       Some (b4, if ctl_events ctl \<noteq> [] \<and> ev = hd (ctl_events ctl)
                 then Some (timeout_event ctl, mask_usec (ev_timeout (evs b4 ev))) else None)
     } else Some (b4, None))"
    unfolding add_timeout_def Let_def b0_def [symmetric] B1 Option.bind.simps B2 n2 c2 D [symmetric] B4 by (rule refl)
  then have step: "add_timeout env b ev tv absolute = Some (b4, sched)"
    using idx by (simp add: sched_def get_common_timeout_list_def Let_def)
  have tes: "is_common_timeout tv b \<and> te \<in> set (map timeout_event (common_timeout_queues b)) \<and> (\<exists>u. t = mask_usec u)"
    if s: "sched = Some (te, t)" for te t
  proof -
    have ct: "is_common_timeout tv b" using s by (simp add: sched_def split: if_splits)
    then have "te = timeout_event (common_timeout_queues b4 ! COMMON_TIMEOUT_IDX (ev_timeout (evs b4 ev)))"
        "t = mask_usec (ev_timeout (evs b4 ev))" using s by (simp_all add: sched_def Let_def split: if_splits)
    moreover have "map timeout_event (common_timeout_queues b4) = map timeout_event (common_timeout_queues b)"
      using st4 by (simp add: steady_def)
    ultimately show ?thesis using ct idx [OF ct] by (metis length_map nth_map nth_mem)
  qed
  have "quiet b4" using q3 touched_quiet [OF b4(3)] by (simp add: quiet_def)
  moreover have "\<forall>x. x \<noteq> ev \<longrightarrow> ev_timeout (evs b4 x) = ev_timeout (evs b x) \<and> is_tmo (evs b4 x) = is_tmo (evs b x)"
    using oth touchedD(1,13) [OF b4(3)] by simp
  moreover have "\<forall>x. is_ins (evs b4 x) = is_ins (evs b x)"
    using b4(8) b2(7) b1(7) s0(7) by (simp add: b3_def)
  moreover have "size (pending b4) \<le> Suc (size (pending b))" using b4(6) sz by simp
  ultimately show ?thesis using step b4(2,5) T4 st4 tm4 tes by blast
qed

lemma has_or: "has x (a OR b) \<longleftrightarrow> has x a \<or> has x b" for x a b :: u16
  by (simp add: bit.conj_disj_distrib or_eq_0_iff)

text \<open>A descriptor or a signal number that the maps can be grown to.\<close>

definition fd_ok :: "event \<Rightarrow> bool" where
  "fd_ok e \<longleftrightarrow> ev_fd e < 2 ^ 27 \<and> (rw e \<or> 0 \<le> ev_fd e)"

definition insert_part :: "'b env \<Rightarrow> 'b event_base \<Rightarrow> nat \<Rightarrow> ('b event_base \<times> int) option" where
  "insert_part env b ev = do {
     (b, r) \<leftarrow> (if rw (evs b ev) then evmap_io_add env b (ev_fd (evs b ev)) ev
               else evmap_signal_add env b (ev_fd (evs b ev)) ev);
     b \<leftarrow> (if r \<noteq> -1 then event_queue_insert_inserted b ev else Some b);
     Some (b, if r = 1 then 0 else r)
   }"

lemma join_after_map:
  assumes C: "core_ok b1" and ni: "\<not> is_ins (evs b1 ev)" and bs: "ev_base (evs b1 ev)"
  shows "\<exists>b2. event_queue_insert_inserted b1 ev = Some b2 \<and> core_ok b2 \<and> retag b1 b2 ev (\<lambda>f. f OR 2) \<and>
           io b2 = io b1 \<and> sigmap b2 = sigmap b1 \<and> steady b1 b2 \<and> pending b2 = pending b1"
proof -
  obtain b2 where b2: "event_queue_insert_inserted b1 ev = Some b2" "core_ok b2" "retag b1 b2 ev (\<lambda>f. f OR 2)"
      "b2 = (joined b1 ev 2)\<lparr>eventqueue := eventqueue b1 @ [ev]\<rparr>"
    using join_inserted_ok [OF C ni bs] by blast
  have "steady b1 b2" "pending b2 = pending b1" "io b2 = io b1" "sigmap b2 = sigmap b1"
    unfolding b2(4) by (simp_all add: steady_def pending_def joined_def nactivequeues_def)
  then show ?thesis using b2(1-3) by blast
qed

lemma insert_part_ok:
  assumes ok: "base_ok b" and ni: "\<not> is_ins (evs b ev)" and bs: "ev_base (evs b ev)" and fd: "fd_ok (evs b ev)"
  shows "\<exists>b' r. insert_part env b ev = Some (b', r) \<and> r \<in> {0, -1} \<and> base_ok b' \<and> touched b b' ev \<and> steady b b' \<and>
           pending b' = pending b \<and> (r = 0 \<longleftrightarrow> is_ins (evs b' ev)) \<and>
           (\<forall>x. is_tmo (evs b' x) = is_tmo (evs b x) \<and> is_act (evs b' x) = is_act (evs b x))"
proof -
  have C: "core_ok b" and I: "io_part b" and S: "sig_part b" using ok by (simp_all add: base_ok_def)
  have fl: "is_tmo (evs b2 x) = is_tmo (evs b x) \<and> is_act (evs b2 x) = is_act (evs b x) \<and> is_ins (evs b2 ev)"
    if "retag b b2 ev (\<lambda>f. f OR 2)" for b2 x
    using retagD(1) [OF that] by (simp add: flag_simps)
  show ?thesis
  proof (cases "rw (evs b ev)")
    case True
    obtain b1 r where b1: "evmap_io_add env b (ev_fd (evs b ev)) ev = Some (b1, r)" "b1 = b\<lparr>evbase := evbase b1, io := io b1\<rparr>"
        "r = -1 \<and> io_part b1 \<or> r \<in> {0, 1} \<and> (\<forall>b''. retag b1 b'' ev (\<lambda>f. f OR 2) \<longrightarrow> io b'' = io b1 \<longrightarrow> io_part b'')"
      using io_add_ok [OF I True ni] fd unfolding fd_ok_def by blast
    define s where "s = evbase b1"
    define m where "m = io b1"
    have e: "b1 = b\<lparr>evbase := s, io := m\<rparr>" using b1(2) by (simp add: s_def m_def)
    have c1: "core_ok b1" unfolding e core_ok_maps by (rule C)
    have st: "steady b b1" "pending b1 = pending b" "evs b1 = evs b" "sigmap b1 = sigmap b"
      unfolding e by (simp_all add: steady_def pending_def nactivequeues_def)
    have sg: "sig_part b1" using S unfolding e by (simp add: sig_part_def)
    from b1(3) show ?thesis
    proof
      assume "r = -1 \<and> io_part b1"
      then show ?thesis
        using b1(1) True c1 sg st ni by (auto simp: insert_part_def base_ok_def touched_same_evs)
    next
      assume r: "r \<in> {0, 1} \<and> (\<forall>b''. retag b1 b'' ev (\<lambda>f. f OR 2) \<longrightarrow> io b'' = io b1 \<longrightarrow> io_part b'')"
      obtain b2 where b2: "event_queue_insert_inserted b1 ev = Some b2" "core_ok b2" "retag b1 b2 ev (\<lambda>f. f OR 2)"
          "io b2 = io b1" "sigmap b2 = sigmap b1" "steady b1 b2" "pending b2 = pending b1"
        using join_after_map [OF c1] ni bs st(3) by auto
      have R: "retag b b2 ev (\<lambda>f. f OR 2)" by (rule retag_cong [THEN iffD1, OF st(3) b2(3)])
      have "sig_part b2"
        using S True unfolding sig_part_def by (auto simp: b2(5) st(4) retagD(1,4,5) [OF R] flag_simps)
      then have "base_ok b2" using b2 r by (simp add: base_ok_def)
      moreover have "insert_part env b ev = Some (b2, 0)" using b1(1) True b2(1) r by (auto simp: insert_part_def)
      ultimately show ?thesis
        using fl [OF R] steady_trans [OF st(1) b2(6)] touched_retag(5) [OF R] st(2) b2(7) by auto
    qed
  next
    case False
    obtain b1 r where b1: "evmap_signal_add env b (ev_fd (evs b ev)) ev = Some (b1, r)"
        "b1 = b\<lparr>evbase := evbase b1, sigmap := sigmap b1\<rparr>"
        "r = -1 \<and> sig_part b1 \<or> r = 1 \<and> (\<forall>b''. retag b1 b'' ev (\<lambda>f. f OR 2) \<longrightarrow> sigmap b'' = sigmap b1 \<longrightarrow> sig_part b'')"
      using sig_add_ok [OF S False ni] fd False unfolding fd_ok_def by blast
    define s where "s = evbase b1"
    define m where "m = sigmap b1"
    have e: "b1 = b\<lparr>evbase := s, sigmap := m\<rparr>" using b1(2) by (simp add: s_def m_def)
    have c1: "core_ok b1" unfolding e core_ok_maps by (rule C)
    have st: "steady b b1" "pending b1 = pending b" "evs b1 = evs b" "io b1 = io b"
      unfolding e by (simp_all add: steady_def pending_def nactivequeues_def)
    have sg: "io_part b1" using I unfolding e by (simp add: io_part_def io_entry_ok_def)
    from b1(3) show ?thesis
    proof
      assume "r = -1 \<and> sig_part b1"
      then show ?thesis
        using b1(1) False c1 sg st ni by (auto simp: insert_part_def base_ok_def touched_same_evs)
    next
      assume r: "r = 1 \<and> (\<forall>b''. retag b1 b'' ev (\<lambda>f. f OR 2) \<longrightarrow> sigmap b'' = sigmap b1 \<longrightarrow> sig_part b'')"
      obtain b2 where b2: "event_queue_insert_inserted b1 ev = Some b2" "core_ok b2" "retag b1 b2 ev (\<lambda>f. f OR 2)"
          "io b2 = io b1" "sigmap b2 = sigmap b1" "steady b1 b2" "pending b2 = pending b1"
        using join_after_map [OF c1] ni bs st(3) by auto
      have R: "retag b b2 ev (\<lambda>f. f OR 2)" by (rule retag_cong [THEN iffD1, OF st(3) b2(3)])
      have "io_part b2"
        using I False unfolding io_part_def io_entry_ok_def
        by (auto simp: b2(4) st(4) retagD(1,4,5) [OF R] flag_simps)
      then have "base_ok b2" using b2 r by (simp add: base_ok_def)
      moreover have "insert_part env b ev = Some (b2, 0)" using b1(1) False b2(1) r by (auto simp: insert_part_def)
      ultimately show ?thesis
        using fl [OF R] steady_trans [OF st(1) b2(6)] touched_retag(5) [OF R] st(2) b2(7) by auto
    qed
  qed
qed

text \<open>Room reserved in the heap: nothing else changes.\<close>

lemma reserve_heap:
  assumes "heap_ok s es" "min_heap_reserve al s n = (h, r)" "n < 2 ^ 32"
  shows "heap_ok h es \<and> heap_elems h = heap_elems s"
proof -
  have hp: "length (hp s) = ha s" "hn s \<le> ha s" using assms(1) by (simp_all add: heap_ok_def)
  have "r = -1 \<and> h = s \<or> r = 0 \<and> hn h = hn s \<and> length (hp h) = ha h \<and> n \<le> ha h \<and> ha s \<le> ha h \<and> take (ha s) (hp h) = hp s"
    using reserve_ok [OF hp(1) assms(3), of al] assms(2) by simp
  then show ?thesis
  proof
    assume "r = -1 \<and> h = s"
    then show ?thesis using assms(1) by simp
  next
    assume h: "r = 0 \<and> hn h = hn s \<and> length (hp h) = ha h \<and> n \<le> ha h \<and> ha s \<le> ha h \<and> take (ha s) (hp h) = hp s"
    have t: "take (hn h) (hp h) = take (hn s) (hp s)"
      using h hp by (metis min.absorb1 take_take)
    then have e: "heap_elems h = heap_elems s" by (simp add: heap_elems_def h)
    have at: "hp h ! i = hp s ! i" if "i < hn s" for i
      using t that h by (metis nth_take)
    have "length (heap_elems s) = hn s" using assms(1) by (rule length_heap_elems)
    then have "heap_ok h es"
      using assms(1) h hp at by (auto simp: heap_ok_def holed_def e)
    then show ?thesis using e by simp
  qed
qed

lemma base_ok_set_heap:
  assumes ok: "base_ok b" and h: "heap_ok h (evs b)" "heap_elems h = heap_elems (timeheap b)"
  shows "base_ok (b\<lparr>timeheap := h\<rparr>)" (is "base_ok ?b")
proof -
  have "heap_part ?b" using ok h by (simp add: base_ok_def core_ok_def heap_part_def is_common_timeout_def)
  moreover have "common_part ?b = common_part b" by (rule common_part_cong) simp_all
  moreover have "ins_part ?b = ins_part b" by (rule ins_part_cong) simp_all
  moreover have "act_part ?b = act_part b" by (rule act_part_cong) simp_all
  moreover have "io_part ?b = io_part b" by (rule io_part_cong) simp_all
  moreover have "sig_part ?b = sig_part b" by (rule sig_part_cong) simp_all
  moreover have "flag_part ?b = flag_part b" by (simp add: flag_part_def)
  moreover have "count_part ?b = count_part b" by (simp add: count_part_def queued_def h)
  ultimately show ?thesis using ok by (simp add: base_ok_def core_ok_def)
qed

text \<open>Whether \<open>event_add_internal\<close> puts the event into the maps.\<close>

definition wants_map :: "event \<Rightarrow> bool" where
  "wants_map e \<longleftrightarrow> has (ev_events e) (EV_READ OR EV_WRITE OR EV_SIGNAL) \<and> \<not> is_ins e \<and> \<not> is_act e"

definition map_stage :: "'b env \<Rightarrow> 'b event_base \<Rightarrow> nat \<Rightarrow> ('b event_base \<times> int) option" where
  "map_stage env b ev = (if wants_map (evs b ev) then insert_part env b ev else Some (b, 0))"

lemma map_stage_ok:
  assumes ok: "base_ok b" and qu: "quiet b" and bs: "ev_base (evs b ev)"
    and fd: "has (ev_events (evs b ev)) (EV_READ OR EV_WRITE OR EV_SIGNAL) \<Longrightarrow> fd_ok (evs b ev)"
  shows "\<exists>b' r. map_stage env b ev = Some (b', r) \<and> r \<in> {0, -1} \<and> base_ok b' \<and> quiet b' \<and> static b b' \<and> steady b b' \<and>
           pending b' = pending b \<and> (r = 0 \<longrightarrow> wants_map (evs b ev) \<longrightarrow> is_ins (evs b' ev)) \<and>
           (\<forall>x. x \<noteq> ev \<longrightarrow> is_ins (evs b' x) = is_ins (evs b x)) \<and>
           (\<forall>x. ev_timeout (evs b' x) = ev_timeout (evs b x) \<and> is_tmo (evs b' x) = is_tmo (evs b x))"
proof (cases "wants_map (evs b ev)")
  case True
  have "has (ev_events (evs b ev)) (EV_READ OR EV_WRITE OR EV_SIGNAL)" "\<not> is_ins (evs b ev)"
    using True by (simp_all add: wants_map_def)
  then obtain b' r where b': "insert_part env b ev = Some (b', r)" "r \<in> {0, -1}" "base_ok b'" "touched b b' ev"
      "steady b b'" "pending b' = pending b" "(r = 0) = is_ins (evs b' ev)"
      "\<And>x. is_tmo (evs b' x) = is_tmo (evs b x) \<and> is_act (evs b' x) = is_act (evs b x)"
    using insert_part_ok [OF ok _ bs fd, of env] by blast
  have "quiet b'" using qu touched_quiet [OF b'(4)] b'(5) by (simp add: quiet_def steady_def)
  then show ?thesis
    using True b' touched_static [OF b'(4)] touchedD(1,13) [OF b'(4)] by (auto simp: map_stage_def)
next
  case False
  then show ?thesis using ok qu by (auto simp: map_stage_def static_def steady_refl)
qed

lemma add_front_eq:
  assumes ok: "core_ok b" and al: "\<And>k. alloc env k"
    and h: "h = (if tv \<noteq> None \<and> \<not> is_tmo (evs b ev)
      then fst (min_heap_reserve (alloc env) (timeheap b) ((1 + min_heap_size (timeheap b)) mod 2 ^ 32)) else timeheap b)"
  shows "add_front env b ev tv absolute = do {
     (b1, r) \<leftarrow> map_stage env (b\<lparr>timeheap := h\<rparr>) ev;
     case tv of
       Some t \<Rightarrow> if r \<noteq> -1 then do { (b2, sched) \<leftarrow> add_timeout env b1 ev t absolute; Some (b2, r, sched) }
                 else Some (b1, r, None)
     | None \<Rightarrow> Some (b1, r, None) }"
proof -
  define q where "q = (if tv \<noteq> None \<and> \<not> has (ev_flags (evs b ev)) EVLIST_TIMEOUT
     then min_heap_reserve (alloc env) (timeheap b) ((1 + min_heap_size (timeheap b)) mod 2 ^ 32) else (timeheap b, 0))"
  have q: "q = (h, 0)"
    using h reserve_alloc [of "alloc env" "timeheap b" "(1 + min_heap_size (timeheap b)) mod 2 ^ 32", OF al]
    unfolding q_def has_flags by (auto simp: prod_eq_iff)
  have a: "evutil_assert (ev_flags (evs b ev) AND NOT EVLIST_ALL = 0) = Some ()"
    using flags_ok [OF ok, of ev] by (simp add: evutil_assert_def)
  have w: "has (ev_events (evs c ev)) (EV_READ OR EV_WRITE OR EV_SIGNAL) \<and> \<not> has (ev_flags (evs c ev)) (EVLIST_INSERTED OR EVLIST_ACTIVE)
     \<longleftrightarrow> wants_map (evs c ev)" for c :: "'a event_base"
    unfolding wants_map_def has_or has_flags by blast
  show ?thesis
    unfolding add_front_def a q_def [symmetric] q Let_def Option.bind.simps prod.case w map_stage_def insert_part_def
    by (simp add: w)
qed

lemma add_front_ok:
  assumes ok: "base_ok b" and qu: "quiet b" and bs: "ev_base (evs b ev)"
    and fd: "has (ev_events (evs b ev)) (EV_READ OR EV_WRITE OR EV_SIGNAL) \<Longrightarrow> fd_ok (evs b ev)"
    and tv: "\<And>t. tv = Some t \<Longrightarrow> good_tv b t absolute"
    and now: "gettime env b = Some now" "normal_tv now"
    and al: "\<And>k. alloc env k" and room: "size (pending b) < 2 ^ 31 - 1"
  shows "\<exists>b' r sched. add_front env b ev tv absolute = Some (b', r, sched) \<and> r \<in> {0, -1} \<and> base_ok b' \<and> quiet b' \<and>
           static b b' \<and> steady b b' \<and> size (pending b') \<le> Suc (size (pending b)) \<and>
           (\<forall>x. x \<noteq> ev \<longrightarrow> is_ins (evs b' x) = is_ins (evs b x)) \<and>
           (\<forall>x. x \<noteq> ev \<longrightarrow> ev_timeout (evs b' x) = ev_timeout (evs b x) \<and> is_tmo (evs b' x) = is_tmo (evs b x)) \<and>
           (r = 0 \<longrightarrow> (wants_map (evs b ev) \<longrightarrow> is_ins (evs b' ev)) \<and>
              (\<forall>t. tv = Some t \<longrightarrow> is_tmo (evs b' ev) \<and> ev_timeout (evs b' ev) = due_at now b t absolute)) \<and>
           (tv = None \<or> r = -1 \<longrightarrow> sched = None \<and> ev_timeout (evs b' ev) = ev_timeout (evs b ev) \<and>
              is_tmo (evs b' ev) = is_tmo (evs b ev)) \<and>
           (\<forall>te t. sched = Some (te, t) \<longrightarrow> (\<exists>u. tv = Some u \<and> is_common_timeout u b) \<and>
              te \<in> set (map timeout_event (common_timeout_queues b)) \<and> (\<exists>u. t = mask_usec u))"
proof -
  have C: "core_ok b" using ok by (simp add: base_ok_def)
  define h where "h = (if tv \<noteq> None \<and> \<not> is_tmo (evs b ev)
      then fst (min_heap_reserve (alloc env) (timeheap b) ((1 + min_heap_size (timeheap b)) mod 2 ^ 32)) else timeheap b)"
  define b0 where "b0 = b\<lparr>timeheap := h\<rparr>"
  have hb: "heap_ok (timeheap b) (evs b)" using C by (simp add: core_ok_def heap_part_def)
  have h: "heap_ok h (evs b) \<and> heap_elems h = heap_elems (timeheap b)"
    using hb reserve_heap [OF hb prod.collapse [symmetric]] by (simp add: h_def)
  have b0: "base_ok b0" "quiet b0" "steady b b0" "pending b0 = pending b" "evs b0 = evs b"
    using base_ok_set_heap [OF ok] h qu by (simp_all add: b0_def quiet_def steady_def pending_def nactivequeues_def)
  have c0: "is_common_timeout t b0 = is_common_timeout t b" for t using steady_common [OF b0(3)] .
  have g0: "good_tv b0 t absolute = good_tv b t absolute" for t by (simp add: good_tv_def c0) (simp add: b0_def)
  obtain b1 r where b1: "map_stage env b0 ev = Some (b1, r)" "r \<in> {0, -1}" "base_ok b1" "quiet b1" "static b0 b1" "steady b0 b1"
      "pending b1 = pending b0" "r = 0 \<longrightarrow> wants_map (evs b0 ev) \<longrightarrow> is_ins (evs b1 ev)"
      "\<And>x. ev_timeout (evs b1 x) = ev_timeout (evs b0 x) \<and> is_tmo (evs b1 x) = is_tmo (evs b0 x)"
      "\<And>x. x \<noteq> ev \<Longrightarrow> is_ins (evs b1 x) = is_ins (evs b0 x)"
    using map_stage_ok [OF b0(1,2), of ev env] bs fd unfolding b0(5) by blast
  have st1: "steady b b1" using b0(3) b1(6) steady_trans by blast
  have T1: "static b b1" using b1(5) b0(5) by (simp add: static_def)
  note eq = add_front_eq [where tv = tv and ev = ev and absolute = absolute and env = env, OF C al h_def, folded b0_def, unfolded b1(1), simplified]
  show ?thesis
  proof (cases "tv = None \<or> r = -1")
    case True
    then have "add_front env b ev tv absolute = Some (b1, r, None)" using eq by (auto split: option.splits)
    moreover have "wants_map (evs b ev) \<longrightarrow> is_ins (evs b1 ev)" if "r = 0" using b1(8) b0(5) that by simp
    moreover have "ev_timeout (evs b1 x) = ev_timeout (evs b x) \<and> is_tmo (evs b1 x) = is_tmo (evs b x)" for x
      using b1(9) b0(5) by simp
    moreover have "size (pending b1) \<le> Suc (size (pending b))" using b1(7) b0(4) by simp
    moreover have "r = 0 \<longrightarrow> (\<forall>t. tv = Some t \<longrightarrow> is_tmo (evs b1 ev) \<and> ev_timeout (evs b1 ev) = due_at now b t absolute)"
      using True by auto
    moreover have "is_ins (evs b1 x) = is_ins (evs b x)" if "x \<noteq> ev" for x using b1(10) [OF that] b0(5) by simp
    ultimately show ?thesis using b1(2-4) T1 st1
      by (intro exI [of _ b1] exI [of _ r] exI [of _ None] conjI) simp_all
  next
    case False
    then obtain t where t: "tv = Some t" and r: "r = 0" using b1(2) by auto
    have c1: "is_common_timeout u b1 = is_common_timeout u b" for u using steady_common [OF st1] .
    have g: "good_tv b1 t absolute"
      using tv [OF t] steady_duration [OF st1, of "COMMON_TIMEOUT_IDX t"] by (auto simp: good_tv_def c1 is_common_timeout_def [of t b])
    have n1: "gettime env b1 = Some now" using now(1) steady_now [OF st1] by simp
    have D: "due_at now b1 t absolute = due_at now b t absolute" by (simp add: due_at_def c1)
    have te: "map timeout_event (common_timeout_queues b1) = map timeout_event (common_timeout_queues b)"
      using st1 by (simp add: steady_def)
    have bs1: "ev_base (evs b1 ev)" using bs T1 by (simp add: static_def)
    have rm: "size (pending b1) < 2 ^ 31 - 1" using room b1(7) b0(4) by simp
    obtain b2 sched where b2: "add_timeout env b1 ev t absolute = Some (b2, sched)" "base_ok b2" "quiet b2" "static b1 b2"
        "steady b1 b2" "is_tmo (evs b2 ev)" "ev_timeout (evs b2 ev) = due_at now b1 t absolute"
        "\<And>x. x \<noteq> ev \<Longrightarrow> ev_timeout (evs b2 x) = ev_timeout (evs b1 x) \<and> is_tmo (evs b2 x) = is_tmo (evs b1 x)"
        "\<And>x. is_ins (evs b2 x) = is_ins (evs b1 x)" "size (pending b2) \<le> Suc (size (pending b1))"
        "\<And>te u. sched = Some (te, u) \<Longrightarrow> is_common_timeout t b1 \<and>
           te \<in> set (map timeout_event (common_timeout_queues b1)) \<and> (\<exists>v. u = mask_usec v)"
      using add_timeout_ok [OF b1(3,4) bs1 g n1 now(2) al rm] by blast
    have "add_front env b ev tv absolute = Some (b2, 0, sched)" using eq t r b2(1) by simp
    moreover have "static b b2" "steady b b2" using T1 b2(4) st1 b2(5) static_trans steady_trans by blast+
    moreover have "ev_timeout (evs b2 x) = ev_timeout (evs b x) \<and> is_tmo (evs b2 x) = is_tmo (evs b x)" if "x \<noteq> ev" for x
      using b1(9) b2(8) [OF that] b0(5) by simp
    moreover have "size (pending b2) \<le> Suc (size (pending b))" using b1(7) b0(4) b2(10) by simp
    moreover have "wants_map (evs b ev) \<longrightarrow> is_ins (evs b2 ev)" using b1(8) b2(9) b0(5) r by simp
    moreover have "\<forall>u. tv = Some u \<longrightarrow> is_tmo (evs b2 ev) \<and> ev_timeout (evs b2 ev) = due_at now b u absolute"
      using t b2(6,7) D by simp
    moreover have "is_ins (evs b2 x) = is_ins (evs b x)" if "x \<noteq> ev" for x using b1(10) [OF that] b2(9) b0(5) by simp
    ultimately show ?thesis using b2(2,3,11) t unfolding te c1
      by (intro exI [of _ b2] exI [of _ "0 :: int"] exI [of _ sched] conjI) simp_all
  qed
qed

text \<open>
  Adding: the event is in its map and on the timer queue with the time it is due at, or, when the
  back end refuses it (-1), as it was. The recursion, for the timer of a common timeout queue, is
  one level deep.
\<close>

lemma add_internal_ok:
  assumes ok: "base_ok b" and qu: "quiet b" and ce: "ctl_events_ok b" and bs: "ev_base (evs b ev)"
    and fd: "has (ev_events (evs b ev)) (EV_READ OR EV_WRITE OR EV_SIGNAL) \<Longrightarrow> fd_ok (evs b ev)"
    and tv: "\<And>t. tv = Some t \<Longrightarrow> good_tv b t absolute"
    and own: "ev \<notin> set (map timeout_event (common_timeout_queues b))"
    and now: "gettime env b = Some now" "normal_tv now"
    and al: "\<And>k. alloc env k" and room: "size (pending b) < 2 ^ 31 - 2"
  shows "\<exists>b' r. event_add_internal env b ev tv absolute = Some (b', r) \<and> r \<in> {0, -1} \<and> base_ok b' \<and> quiet b' \<and>
           static b b' \<and> steady b b' \<and>
           (\<forall>x. x \<noteq> ev \<longrightarrow> x \<notin> set (map timeout_event (common_timeout_queues b)) \<longrightarrow>
              ev_timeout (evs b' x) = ev_timeout (evs b x) \<and> is_tmo (evs b' x) = is_tmo (evs b x)) \<and>
           (r = 0 \<longrightarrow> (wants_map (evs b ev) \<longrightarrow> is_ins (evs b' ev)) \<and>
              (\<forall>t. tv = Some t \<longrightarrow> is_tmo (evs b' ev) \<and> ev_timeout (evs b' ev) = due_at now b t absolute)) \<and>
           (tv = None \<or> r = -1 \<longrightarrow> ev_timeout (evs b' ev) = ev_timeout (evs b ev) \<and> is_tmo (evs b' ev) = is_tmo (evs b ev))"
proof -
  have room0: "size (pending b) < 2 ^ 31 - 1" using room by simp
  obtain b1 r sched where b1: "add_front env b ev tv absolute = Some (b1, r, sched)" "r \<in> {0, -1}" "base_ok b1" "quiet b1"
      "static b b1" "steady b b1" "size (pending b1) \<le> Suc (size (pending b))"
      "\<And>x. x \<noteq> ev \<Longrightarrow> ev_timeout (evs b1 x) = ev_timeout (evs b x) \<and> is_tmo (evs b1 x) = is_tmo (evs b x)"
      "r = 0 \<longrightarrow> (wants_map (evs b ev) \<longrightarrow> is_ins (evs b1 ev)) \<and>
         (\<forall>t. tv = Some t \<longrightarrow> is_tmo (evs b1 ev) \<and> ev_timeout (evs b1 ev) = due_at now b t absolute)"
      "tv = None \<or> r = -1 \<longrightarrow> sched = None \<and> ev_timeout (evs b1 ev) = ev_timeout (evs b ev) \<and>
         is_tmo (evs b1 ev) = is_tmo (evs b ev)"
      "\<And>te t. sched = Some (te, t) \<Longrightarrow> te \<in> set (map timeout_event (common_timeout_queues b)) \<and> (\<exists>u. t = mask_usec u)"
    using add_front_ok [OF ok qu bs fd tv now al room0] by blast
  show ?thesis
  proof (cases sched)
    case None
    have "event_add_internal env b ev tv absolute = Some (b1, r)"
      by (subst event_add_internal.simps) (simp add: b1(1) None)
    then show ?thesis using b1(2-6,8-10) by (intro exI [of _ b1] exI [of _ r] conjI) simp_all
  next
    case (Some p)
    then obtain te t where s: "sched = Some (te, t)" by (cases p) simp
    obtain u where te: "te \<in> set (map timeout_event (common_timeout_queues b))" and t: "t = mask_usec u"
      using b1(11) [OF s] by blast
    have ne: "te \<noteq> ev" using te own by blast
    have e0: "ev_base (evs b1 te)" "ev_events (evs b1 te) = 0"
      using ce te b1(5) by (auto simp: ctl_events_ok_def static_def)
    have nw: "\<not> wants_map (evs b1 te)" by (simp add: wants_map_def e0)
    have nc: "\<not> is_common_timeout t b1" by (simp add: t mask_not_common)
    have n1: "gettime env b1 = Some now" using now(1) steady_now [OF b1(6)] by simp
    have room1: "size (pending b1) < 2 ^ 31 - 1" using room b1(7) by simp
    have fd1: "fd_ok (evs b1 te)" if "has (ev_events (evs b1 te)) (EV_READ OR EV_WRITE OR EV_SIGNAL)"
      using that e0(2) by simp
    have g1: "good_tv b1 v True" if "Some t = Some v" for v using that nc by (simp add: good_tv_def)
    obtain b2 r2 sched2 where b2: "add_front env b1 te (Some t) True = Some (b2, r2, sched2)" "base_ok b2" "quiet b2"
        "static b1 b2" "steady b1 b2"
        "\<And>x. x \<noteq> te \<Longrightarrow> ev_timeout (evs b2 x) = ev_timeout (evs b1 x) \<and> is_tmo (evs b2 x) = is_tmo (evs b1 x)"
        "\<And>x. x \<noteq> te \<Longrightarrow> is_ins (evs b2 x) = is_ins (evs b1 x)"
        "\<And>y z. sched2 = Some (y, z) \<Longrightarrow> is_common_timeout t b1"
      using add_front_ok [of b1 te "Some t" True env now, OF b1(3,4) e0(1) fd1 g1 n1 now(2) al room1] by blast
    have s2: "sched2 = None" using b2(8) nc by (cases sched2) auto
    have c2: "event_add_internal env b1 te (Some t) True = Some (b2, r2)"
      by (subst event_add_internal.simps) (simp add: b2(1) s2)
    have "event_add_internal env b ev tv absolute = Some (b2, r)"
      by (subst event_add_internal.simps) (simp add: b1(1) s c2)
    moreover have "static b b2" "steady b b2" using b1(5,6) b2(4,5) static_trans steady_trans by blast+
    moreover have "r = 0" "tv \<noteq> None" using b1(2,10) s by auto
    moreover have "ev_timeout (evs b2 x) = ev_timeout (evs b x) \<and> is_tmo (evs b2 x) = is_tmo (evs b x)"
      if "x \<noteq> ev" "x \<notin> set (map timeout_event (common_timeout_queues b))" for x
    proof -
      have "x \<noteq> te" using that(2) te by blast
      then show ?thesis using b1(8) [OF that(1)] b2(6) by simp
    qed
    moreover have "ev_timeout (evs b2 ev) = ev_timeout (evs b1 ev)" "is_tmo (evs b2 ev) = is_tmo (evs b1 ev)"
      "is_ins (evs b2 ev) = is_ins (evs b1 ev)"
      using b2(6,7) ne by simp_all
    ultimately show ?thesis
      using b1(9) b2(2,3) by (intro exI [of _ b2] exI [of _ r] conjI) (simp_all, blast?)
  qed
qed

end
