(* ===== verification/TimerQueue.thy ===== *)
theory TimerQueue
  imports EventAdd
begin

text \<open>
  What a loop that runs timers relies on, as an interface: a source of timers with one that is due first, and an operation that takes a timer out. \<open>run_timers\<close> is the loop:
  it takes the timers that are due, and returns them in the order it took them. Two sources
  provide the interface: the heap of \<open>minheap-internal.h\<close> with \<open>min_heap_erase\<close>, and the whole
  event base with the body of the loop in \<open>timeout_process\<close>.
\<close>

partial_function (option) run_timers ::
  "('b \<Rightarrow> nat option option) \<Rightarrow> ('b \<Rightarrow> nat \<Rightarrow> timeval) \<Rightarrow> ('b \<Rightarrow> nat \<Rightarrow> 'b option) \<Rightarrow> timeval \<Rightarrow> 'b \<Rightarrow>
     (nat list \<times> 'b) option" where
  "run_timers next_timer key fire now b = do {
     t \<leftarrow> next_timer b;
     case t of
       None \<Rightarrow> Some ([], b)
     | Some e \<Rightarrow>
         if now < key b e then Some ([], b)
         else do {
           b' \<leftarrow> fire b e;
           (es, b'') \<leftarrow> run_timers next_timer key fire now b';
           Some (e # es, b'')
         }
   }"

locale timer_source =
  fixes ok :: "'b \<Rightarrow> bool"
    and pend :: "'b \<Rightarrow> nat multiset"
    and key :: "'b \<Rightarrow> nat \<Rightarrow> timeval"
    and next_timer :: "'b \<Rightarrow> nat option option"
    and fire :: "'b \<Rightarrow> nat \<Rightarrow> 'b option"
    and view :: "'b \<Rightarrow> 'v"
    and fired :: "'v \<Rightarrow> nat \<Rightarrow> 'v"
  assumes next_law: "ok b \<Longrightarrow>
      pend b = {#} \<and> next_timer b = Some None \<or>
      (\<exists>e. next_timer b = Some (Some e) \<and> e \<in># pend b \<and> (\<forall>x. x \<in># pend b \<longrightarrow> key b e \<le> key b x))"
    and fire_law: "ok b \<Longrightarrow> e \<in># pend b \<Longrightarrow>
      \<exists>b'. fire b e = Some b' \<and> ok b' \<and> pend b' = pend b - {#e#} \<and> key b' = key b \<and>
        view b' = fired (view b) e"
begin

text \<open>
  The loop ends; it took exactly the timers that were due, one that is due earlier before one
  that is due later, and left exactly the others.
\<close>

lemma run_timers_law:
  "ok b \<Longrightarrow>
     \<exists>es b'. run_timers next_timer key fire now b = Some (es, b') \<and> ok b' \<and> key b' = key b \<and>
       mset es = filter_mset (\<lambda>e. key b e \<le> now) (pend b) \<and>
       sorted_wrt (\<lambda>x y. key b x \<le> key b y) es \<and>
       pend b' = filter_mset (\<lambda>e. now < key b e) (pend b) \<and> view b' = foldl fired (view b) es"
proof (induction "size (pend b)" arbitrary: b rule: less_induct)
  case less
  note ok = less.prems
  show ?case
  proof (cases "\<exists>e. next_timer b = Some (Some e) \<and> e \<in># pend b \<and> (\<forall>x. x \<in># pend b \<longrightarrow> key b e \<le> key b x)")
    case False
    then have "pend b = {#}" "next_timer b = Some None" using next_law [OF ok] by auto
    then show ?thesis using ok by (subst run_timers.simps) simp
  next
    case True
    then obtain e where e: "next_timer b = Some (Some e)" "e \<in># pend b" "\<And>x. x \<in># pend b \<Longrightarrow> key b e \<le> key b x"
      by blast
    show ?thesis
    proof (cases "now < key b e")
      case True
      then have l: "now < key b x" if "x \<in># pend b" for x using e(3) [OF that] by (rule less_le_trans)
      have "filter_mset (\<lambda>e. key b e \<le> now) (pend b) = {#}" "filter_mset (\<lambda>e. now < key b e) (pend b) = pend b"
        using l by (auto simp: filter_mset_eq_conv not_le)
      then show ?thesis using ok e(1) True by (subst run_timers.simps) simp
    next
      case False
      obtain b1 where b1: "fire b e = Some b1" "ok b1" "pend b1 = pend b - {#e#}" "key b1 = key b"
          "view b1 = fired (view b) e"
        using fire_law [OF ok e(2)] by blast
      obtain M where M: "pend b = add_mset e M" using e(2) by (metis insert_DiffM)
      have "size (pend b1) < size (pend b)" by (simp add: b1(3) M)
      then obtain es b' where b': "run_timers next_timer key fire now b1 = Some (es, b')" "ok b'" "key b' = key b1"
          "mset es = filter_mset (\<lambda>e. key b1 e \<le> now) (pend b1)" "sorted_wrt (\<lambda>x y. key b1 x \<le> key b1 y) es"
          "pend b' = filter_mset (\<lambda>e. now < key b1 e) (pend b1)" "view b' = foldl fired (view b1) es"
        using less.hyps [OF _ b1(2)] by blast
      have "key b e \<le> key b x" if "x \<in> set es" for x
      proof -
        have "x \<in># mset es" using that by simp
        then have "x \<in># M" unfolding b'(4) by (simp add: b1(3) M)
        then show ?thesis using e(3) [of x] by (simp add: M)
      qed
      then have "sorted_wrt (\<lambda>x y. key b x \<le> key b y) (e # es)" using b'(5) b1(4) by simp
      moreover have "run_timers next_timer key fire now b = Some (e # es, b')"
        using e(1) False b1(1) b'(1) by (subst run_timers.simps) simp
      moreover have "mset (e # es) = filter_mset (\<lambda>e. key b e \<le> now) (pend b)"
        using b'(4) False by (simp add: b1 M not_less)
      moreover have "pend b' = filter_mset (\<lambda>e. now < key b e) (pend b)"
        using b'(6) False by (simp add: b1 M)
      moreover have "view b' = foldl fired (view b) (e # es)" using b'(7) b1(5) by simp
      ultimately show ?thesis using b'(2,3) b1(4) by auto
    qed
  qed
qed

text \<open>Afterwards nothing is due: running again at the same time takes nothing.\<close>

lemma run_timers_idle:
  assumes "ok b" "run_timers next_timer key fire now b = Some (es, b')"
  shows "run_timers next_timer key fire now b' = Some ([], b')"
proof -
  have p: "pend b' = filter_mset (\<lambda>e. now < key b e) (pend b)" "ok b'" "key b' = key b"
    using run_timers_law [OF assms(1), of now] assms(2) by auto
  show ?thesis
    using next_law [OF p(2)]
  proof
    assume "\<exists>e. next_timer b' = Some (Some e) \<and> e \<in># pend b' \<and> (\<forall>x. x \<in># pend b' \<longrightarrow> key b' e \<le> key b' x)"
    then obtain e where e: "next_timer b' = Some (Some e)" "e \<in># pend b'" by blast
    then have "now < key b' e" using p by simp
    then show ?thesis using e(1) by (subst run_timers.simps) simp
  qed (subst run_timers.simps, simp)
qed

end

section \<open>The heap as a source of timers\<close>

definition heap_top :: "min_heap \<times> events \<Rightarrow> nat option option" where
  "heap_top q = min_heap_top (fst q)"

definition heap_fire :: "min_heap \<times> events \<Rightarrow> nat \<Rightarrow> (min_heap \<times> events) option" where
  "heap_fire q e = do { (s, es, _) \<leftarrow> min_heap_erase (fst q) (snd q) e; Some (s, es) }"

definition heap_good :: "min_heap \<times> events \<Rightarrow> bool" where
  "heap_good q \<longleftrightarrow> heap_ok (fst q) (snd q)"

definition heap_key :: "min_heap \<times> events \<Rightarrow> nat \<Rightarrow> timeval" where
  "heap_key q e = ev_timeout (snd q e)"

definition heap_pend :: "min_heap \<times> events \<Rightarrow> nat multiset" where
  "heap_pend q = mset (heap_elems (fst q))"

lemma heap_top_law:
  assumes "heap_ok s es"
  shows "mset (heap_elems s) = {#} \<and> min_heap_top s = Some None \<or>
    (\<exists>e. min_heap_top s = Some (Some e) \<and> e \<in># mset (heap_elems s) \<and>
       (\<forall>x. x \<in># mset (heap_elems s) \<longrightarrow> ev_timeout (es e) \<le> ev_timeout (es x)))"
  using top_ok(1) [OF assms] top_ok(2) [OF assms] by (cases "heap_elems s") auto

lemma reindexed_timeout: "reindexed es es' A \<Longrightarrow> ev_timeout (es' x) = ev_timeout (es x)"
proof -
  assume "reindexed es es' A"
  then have *: "es' x = (es x)\<lparr>min_heap_idx := min_heap_idx (es' x)\<rparr>" by (simp add: reindexed_def)
  show ?thesis by (subst *) simp
qed

interpretation hq: timer_source heap_good heap_pend heap_key heap_top heap_fire "\<lambda>_. ()" "\<lambda>_ _. ()"
proof
  show "heap_pend q = {#} \<and> heap_top q = Some None \<or>
      (\<exists>e. heap_top q = Some (Some e) \<and> e \<in># heap_pend q \<and> (\<forall>x. x \<in># heap_pend q \<longrightarrow> heap_key q e \<le> heap_key q x))"
    if "heap_good q" for q
    using heap_top_law [of "fst q" "snd q"] that
    by (simp add: heap_good_def heap_pend_def heap_top_def heap_key_def)
next
  fix q e assume "heap_good q" "e \<in># heap_pend q"
  then obtain s es where "min_heap_erase (fst q) (snd q) e = Some (s, es, 0)" "heap_ok s es"
      "mset (heap_elems s) = mset (heap_elems (fst q)) - {#e#}" "reindexed (snd q) es (set (heap_elems (fst q)))"
    using erase_ok [of "fst q" "snd q" e] by (auto simp: heap_good_def heap_pend_def)
  then show "\<exists>b'. heap_fire q e = Some b' \<and> heap_good b' \<and> heap_pend b' = heap_pend q - {#e#} \<and>
      heap_key b' = heap_key q \<and> () = ()"
    by (auto simp: heap_fire_def heap_good_def heap_pend_def heap_key_def fun_eq_iff reindexed_timeout)
qed

section \<open>The event base as a source of timers\<close>

text \<open>
  A base in order, with no signal closure interrupted and every event of a priority that the
  base has; and back ends that do forget what they are told to forget.
\<close>

definition base_inv :: "'b event_base \<Rightarrow> bool" where
  "base_inv b \<longleftrightarrow> base_ok b \<and> quiet b \<and> ctl_events_ok b \<and> 0 < nactivequeues b \<and>
     (\<forall>e. ev_pri (evs b e) < nactivequeues b) \<and> normal_tv (tv_cache b)"

definition timers_ok :: "'b env \<Rightarrow> 'b event_base \<Rightarrow> bool" where
  "timers_ok env b \<longleftrightarrow> del_works (evsel env) \<and> del_works (evsigsel env) \<and> base_inv b"

definition base_next :: "'b event_base \<Rightarrow> nat option option" where
  "base_next b = min_heap_top (timeheap b)"

definition base_key :: "'b event_base \<Rightarrow> nat \<Rightarrow> timeval" where
  "base_key b e = ev_timeout (evs b e)"

text \<open>What an expiry shows: the event goes to the end of the active queue of its priority.\<close>

definition queues_view :: "'b event_base \<Rightarrow> nat list list \<times> (nat \<Rightarrow> nat)" where
  "queues_view b = (activequeues b, \<lambda>e. ev_pri (evs b e))"

definition to_back :: "nat list list \<times> (nat \<Rightarrow> nat) \<Rightarrow> nat \<Rightarrow> nat list list \<times> (nat \<Rightarrow> nat)" where
  "to_back v e =
     (let q = map (remove1 e) (fst v); p = snd v e in (q[p := q ! p @ [e]], snd v))"

lemma pending_tmo:
  assumes "base_ok b" "e \<in># pending b"
  shows "is_tmo (evs b e)" "\<not> is_common_timeout (ev_timeout (evs b e)) b" "ev_base (evs b e)"
  using assms by (auto simp: base_ok_def core_ok_def heap_part_def flag_part_def pending_def)

lemma fire_timeout_ok:
  assumes ok: "timers_ok env b" and e: "e \<in># pending b"
  shows "\<exists>b'. fire_timeout env b e = Some b' \<and> timers_ok env b' \<and> pending b' = pending b - {#e#} \<and>
           base_key b' = base_key b \<and> queues_view b' = to_back (queues_view b) e"
proof -
  have B: "base_ok b" "quiet b" "base_inv b" "del_works (evsel env)" "del_works (evsigsel env)"
    using ok by (simp_all add: timers_ok_def base_inv_def)
  note T = pending_tmo [OF B(1) e]
  obtain b1 where b1: "event_del_internal env b e = Some (b1, 0)" "base_ok b1" "unqueued b b1 e"
    using del_ok [OF B(1) T(3) quiet_abort [OF B(2)] B(4,5)] by blast
  have U: "touched b b1 e" "steady b b1" "pending b1 = pending b - {#e#}" "\<not> is_tmo (evs b1 e)" "\<not> is_act (evs b1 e)"
      "activequeues b1 = map (remove1 e) (activequeues b)"
    using b1(3) T by (simp_all add: unqueued_def off_heap_def)
  note D = touchedD [OF U(1)]
  have n: "nactivequeues b1 = nactivequeues b" "tv_cache b1 = tv_cache b"
      "map timeout_event (common_timeout_queues b1) = map timeout_event (common_timeout_queues b)"
    using U(2) by (simp_all add: steady_def)
  have p: "ev_pri (evs b1 e) < nactivequeues b1" using B(3) n by (simp add: base_inv_def D)
  let ?b = "woken b1 e EV_TIMEOUT 1"
  have act: "event_active_nolock b1 e EV_TIMEOUT 1 = Some ?b" by (rule active_eq [OF U(5) p])
  have "base_ok ?b" using woken_ok [OF b1(2) U(5) p] T(3) by (simp add: D)
  moreover have "quiet ?b" using B(2) by (simp add: quiet_def woken_def woken_event_def D)
  moreover have "ctl_events_ok ?b"
    using B(3) by (simp add: base_inv_def ctl_events_ok_def woken_fields D n(3) del: set_map)
  moreover have "tv_cache ?b = tv_cache b" by (simp add: woken_def n)
  ultimately have inv: "base_inv ?b" using B(3) by (simp add: base_inv_def woken_fields D n)
  have "pending ?b = pending b - {#e#}" using U(3) by (simp add: pending_def woken_fields)
  moreover have "base_key ?b = base_key b" by (rule ext) (simp add: base_key_def woken_fields D)
  moreover have "queues_view ?b = to_back (queues_view b) e"
    by (simp add: queues_view_def to_back_def Let_def woken_fields D U(6) fun_eq_iff)
  ultimately show ?thesis using B(4,5) b1(1) act inv by (auto simp: fire_timeout_def timers_ok_def)
qed

interpretation bq: timer_source "timers_ok env" pending base_key base_next "fire_timeout env" queues_view to_back
  for env :: "'b env"
proof
  show "pending b = {#} \<and> base_next b = Some None \<or>
      (\<exists>e. base_next b = Some (Some e) \<and> e \<in># pending b \<and> (\<forall>x. x \<in># pending b \<longrightarrow> base_key b e \<le> base_key b x))"
    if "timers_ok env b" for b :: "'b event_base"
    using heap_top_law [of "timeheap b" "evs b"] that
    by (simp add: timers_ok_def base_inv_def base_ok_def core_ok_def heap_part_def pending_def base_next_def base_key_def)
qed (rule fire_timeout_ok)

text \<open>The loop of \<open>timeout_process\<close> is the loop of the interface.\<close>

lemma timeout_process_loop_eq:
  assumes "timers_ok env b"
  shows "timeout_process_loop env now b = map_option snd (run_timers base_next base_key (fire_timeout env) now b)"
  using assms
proof (induction "size (pending b)" arbitrary: b rule: less_induct)
  case less
  consider "base_next b = Some None" | e where "base_next b = Some (Some e)" "e \<in># pending b"
    using bq.next_law [OF less.prems] by blast
  then show ?case
  proof cases
    case 1
    then show ?thesis by (subst timeout_process_loop.simps, subst run_timers.simps) (simp add: base_next_def)
  next
    case 2
    obtain b1 where b1: "fire_timeout env b e = Some b1" "timers_ok env b1" "pending b1 = pending b - {#e#}"
      using fire_timeout_ok [OF less.prems 2(2)] by blast
    have sz: "size (pending b1) < size (pending b)" using b1(3) 2(2) by (simp add: size_Diff1_less)
    show ?thesis
      using less.hyps [OF sz b1(2)] b1(1) 2(1)
      by (subst timeout_process_loop.simps, subst run_timers.simps)
        (simp add: base_next_def base_key_def timer_simps option.map_comp o_def split_def map_option_case split: option.splits)
  qed
qed

end
