(* ===== verification/EvChar.thy ===== *)
theory EvChar
  imports Prelude
begin

text \<open>
  The character classes of \<open>evutil.c\<close>: bit tables with 256 entries, the two case tables, and the
  comparison of strings up to case. A string is the list of its bytes without the final zero; a
  \<open>char\<close> is signed, so two characters are compared as signed numbers.
\<close>

type_synonym ctype_table = "u32 list"

definition ISALPHA_TABLE :: ctype_table where "ISALPHA_TABLE = [0, 0, 0x7fffffe, 0x7fffffe, 0, 0, 0, 0]"
definition ISALNUM_TABLE :: ctype_table where "ISALNUM_TABLE = [0, 0x3ff0000, 0x7fffffe, 0x7fffffe, 0, 0, 0, 0]"
definition ISSPACE_TABLE :: ctype_table where "ISSPACE_TABLE = [0x3e00, 0x1, 0, 0, 0, 0, 0, 0]"
definition ISXDIGIT_TABLE :: ctype_table where "ISXDIGIT_TABLE = [0, 0x3ff0000, 0x7e, 0x7e, 0, 0, 0, 0]"
definition ISDIGIT_TABLE :: ctype_table where "ISDIGIT_TABLE = [0, 0x3ff0000, 0, 0, 0, 0, 0, 0]"
definition ISPRINT_TABLE :: ctype_table where "ISPRINT_TABLE = [0, 0xffffffff, 0xffffffff, 0x7fffffff, 0, 0, 0, 0x0]"
definition ISUPPER_TABLE :: ctype_table where "ISUPPER_TABLE = [0, 0, 0x7fffffe, 0, 0, 0, 0, 0]"
definition ISLOWER_TABLE :: ctype_table where "ISLOWER_TABLE = [0, 0, 0, 0x7fffffe, 0, 0, 0, 0]"

definition TOUPPER_TABLE :: bytes where
  "TOUPPER_TABLE = map word_of_nat ([0..<97] @ [65..<91] @ [123..<256])"

definition TOLOWER_TABLE :: bytes where
  "TOLOWER_TABLE = map word_of_nat ([0..<65] @ [97..<123] @ [91..<256])"

definition ctype :: "ctype_table \<Rightarrow> u8 \<Rightarrow> bool" where
  "ctype tbl u = bit (tbl ! unat (drop_bit 5 u AND 7)) (unat (u AND 31))"

definition ISALPHA :: "u8 \<Rightarrow> bool" where "ISALPHA c = ctype ISALPHA_TABLE c"
definition ISALNUM :: "u8 \<Rightarrow> bool" where "ISALNUM c = ctype ISALNUM_TABLE c"
definition ISSPACE :: "u8 \<Rightarrow> bool" where "ISSPACE c = ctype ISSPACE_TABLE c"
definition ISDIGIT :: "u8 \<Rightarrow> bool" where "ISDIGIT c = ctype ISDIGIT_TABLE c"
definition ISXDIGIT :: "u8 \<Rightarrow> bool" where "ISXDIGIT c = ctype ISXDIGIT_TABLE c"
definition ISPRINT :: "u8 \<Rightarrow> bool" where "ISPRINT c = ctype ISPRINT_TABLE c"
definition ISLOWER :: "u8 \<Rightarrow> bool" where "ISLOWER c = ctype ISLOWER_TABLE c"
definition ISUPPER :: "u8 \<Rightarrow> bool" where "ISUPPER c = ctype ISUPPER_TABLE c"

definition TOLOWER :: "u8 \<Rightarrow> u8" where "TOLOWER c = TOLOWER_TABLE ! unat c"
definition TOUPPER :: "u8 \<Rightarrow> u8" where "TOUPPER c = TOUPPER_TABLE ! unat c"

text \<open>\<open>evutil_ascii_strcasecmp\<close>: the end of a string is a zero.\<close>

definition hd0 :: "bytes \<Rightarrow> u8" where
  "hd0 s = (case s of [] \<Rightarrow> 0 | c # _ \<Rightarrow> c)"

function ascii_strcasecmp :: "bytes \<Rightarrow> bytes \<Rightarrow> int" where
  "ascii_strcasecmp s1 s2 =
     (let c1 = TOLOWER (hd0 s1); c2 = TOLOWER (hd0 s2)
      in if sint c1 < sint c2 then -1 else if sint c1 > sint c2 then 1
         else if s1 = [] \<or> c1 = 0 then 0 else ascii_strcasecmp (tl s1) (tl s2))"
  by pat_completeness auto

termination by (relation "measure (\<lambda>(a, b). length a)") (auto simp: length_greater_0_conv)

primrec ascii_strncasecmp :: "bytes \<Rightarrow> bytes \<Rightarrow> nat \<Rightarrow> int" where
  "ascii_strncasecmp s1 s2 0 = 0"
| "ascii_strncasecmp s1 s2 (Suc n) =
     (let c1 = TOLOWER (hd0 s1); c2 = TOLOWER (hd0 s2)
      in if sint c1 < sint c2 then -1 else if sint c1 > sint c2 then 1
         else if c1 = 0 then 0 else ascii_strncasecmp (tl s1) (tl s2) n)"

declare ascii_strcasecmp.simps [simp del]

text \<open>A literal of the source as bytes, and the decimal digits that \<open>%d\<close> prints.\<close>

definition bytes_of :: "string \<Rightarrow> bytes" where
  "bytes_of s = map of_char s"

fun dec :: "nat \<Rightarrow> bytes" where
  "dec n = (if n < 10 then [48 + word_of_nat n] else dec (n div 10) @ [48 + word_of_nat (n mod 10)])"

declare dec.simps [simp del]

section \<open>What the tables say\<close>

lemma unat_byte: "unat (c :: u8) < 256"
  using unsigned_less [of c, where 'a = nat] by simp

lemma ctype_nat: "ctype tbl c = bit (tbl ! (unat c div 32)) (unat c mod 32)"
proof -
  have "drop_bit 5 c AND 7 = take_bit 3 (drop_bit 5 c)" "c AND 31 = take_bit 5 c"
    by (simp_all add: take_bit_eq_mask mask_eq_exp_minus_1)
  moreover have "unat (take_bit 3 (drop_bit 5 c)) = unat c div 32" "unat (take_bit 5 c) = unat c mod 32"
    using unat_byte [of c] unfolding unsigned_take_bit_eq unat_drop_bit_eq
    by (simp_all add: take_bit_eq_mod drop_bit_eq_div)
  ultimately show ?thesis by (simp add: ctype_def)
qed

lemma all_bytes:
  assumes "list_all (\<lambda>n. (uint (tbl ! (n div 32)) div 2 ^ (n mod 32)) mod 2 = 1 \<longleftrightarrow> P n) [0..<256]"
  shows "ctype tbl c \<longleftrightarrow> P (unat c)"
proof -
  have "bit w n \<longleftrightarrow> (uint w div 2 ^ n) mod 2 = 1" for w :: u32 and n
  proof -
    have "bit w n \<longleftrightarrow> bit (uint w) n" by (auto simp: bit_uint_iff dest: bit_imp_le_length)
    then show ?thesis by (simp only: bit_iff_odd [of "uint w"] odd_iff_mod_2_eq_one)
  qed
  moreover have "unat c \<in> set [0..<256]" using unat_byte [of c] by simp
  ultimately show ?thesis using assms unfolding list_all_iff ctype_nat by blast
qed

lemma ISDIGIT_iff: "ISDIGIT c \<longleftrightarrow> 48 \<le> unat c \<and> unat c \<le> 57"
  unfolding ISDIGIT_def ISDIGIT_TABLE_def by (rule all_bytes) code_simp

lemma ISXDIGIT_iff: "ISXDIGIT c \<longleftrightarrow> 48 \<le> unat c \<and> unat c \<le> 57 \<or> 65 \<le> unat c \<and> unat c \<le> 70 \<or> 97 \<le> unat c \<and> unat c \<le> 102"
  unfolding ISXDIGIT_def ISXDIGIT_TABLE_def by (rule all_bytes) code_simp

lemma ISUPPER_iff: "ISUPPER c \<longleftrightarrow> 65 \<le> unat c \<and> unat c \<le> 90"
  unfolding ISUPPER_def ISUPPER_TABLE_def by (rule all_bytes) code_simp

lemma ISLOWER_iff: "ISLOWER c \<longleftrightarrow> 97 \<le> unat c \<and> unat c \<le> 122"
  unfolding ISLOWER_def ISLOWER_TABLE_def by (rule all_bytes) code_simp

lemma ISALPHA_iff: "ISALPHA c \<longleftrightarrow> 65 \<le> unat c \<and> unat c \<le> 90 \<or> 97 \<le> unat c \<and> unat c \<le> 122"
  unfolding ISALPHA_def ISALPHA_TABLE_def by (rule all_bytes) code_simp

lemma ISALNUM_iff: "ISALNUM c \<longleftrightarrow> 48 \<le> unat c \<and> unat c \<le> 57 \<or> 65 \<le> unat c \<and> unat c \<le> 90 \<or> 97 \<le> unat c \<and> unat c \<le> 122"
  unfolding ISALNUM_def ISALNUM_TABLE_def by (rule all_bytes) code_simp

lemma ISSPACE_iff: "ISSPACE c \<longleftrightarrow> 9 \<le> unat c \<and> unat c \<le> 13 \<or> unat c = 32"
  unfolding ISSPACE_def ISSPACE_TABLE_def by (rule all_bytes) code_simp

lemma ISPRINT_iff: "ISPRINT c \<longleftrightarrow> 32 \<le> unat c \<and> unat c \<le> 126"
  unfolding ISPRINT_def ISPRINT_TABLE_def by (rule all_bytes) code_simp

lemma word_of_nat_unat: "n = unat c + k \<Longrightarrow> word_of_nat n = c + word_of_nat k" for c :: u8
  by simp

lemma TOLOWER_iff: "TOLOWER c = (if ISUPPER c then c + 32 else c)"
proof -
  have l: "unat c < 256" using unsigned_less [of c, where 'a = nat] by simp
  then show ?thesis
    by (auto simp: TOLOWER_def TOLOWER_TABLE_def ISUPPER_iff nth_append simp del: upt_rec_numeral
        intro: word_of_nat_unat [of _ _ 0, simplified] word_of_nat_unat [of _ _ 32, simplified])
qed

lemma TOUPPER_iff: "TOUPPER c = (if ISLOWER c then c - 32 else c)"
proof -
  have l: "unat c < 256" using unsigned_less [of c, where 'a = nat] by simp
  show ?thesis
  proof (cases "ISLOWER c")
    case True
    then have "unat c - 97 < 26" "65 + (unat c - 97) = unat c - 32" by (auto simp: ISLOWER_iff)
    then have "TOUPPER c = word_of_nat (unat c - 32)"
      using True l by (simp add: TOUPPER_def TOUPPER_TABLE_def ISLOWER_iff nth_append del: upt_rec_numeral)
    then show ?thesis using True by (simp add: ISLOWER_iff of_nat_diff)
  next
    case False
    then show ?thesis
      using l by (auto simp: TOUPPER_def TOUPPER_TABLE_def ISLOWER_iff nth_append simp del: upt_rec_numeral)
  qed
qed

end
