(* ===== verification/EventNew.thy ===== *)
theory EventNew
  imports EventLoop EvChar
begin

text \<open>
  \<open>event.c\<close>: configurations, the choice of a back end and the new base, and events that run once.
  The list of compiled-in back ends and the process environment are parameters: a back end is its
  name, its features and the state its \<open>init\<close> gives (\<open>None\<close> when it fails). No locking, so no
  internal event to wake another thread.
\<close>

section \<open>Configurations\<close>

record event_config =
  avoid_methods :: "bytes list"
  require_features :: u32
  n_cpus_hint :: int
  cfg_flags :: u32

abbreviation EVENT_BASE_FLAG_IGNORE_ENV :: u32 where "EVENT_BASE_FLAG_IGNORE_ENV \<equiv> 0x02"

definition event_config_new :: event_config where
  "event_config_new = \<lparr>avoid_methods = [], require_features = 0, n_cpus_hint = 0, cfg_flags = 0\<rparr>"

definition event_config_set_flag :: "event_config \<Rightarrow> u32 \<Rightarrow> event_config" where
  "event_config_set_flag cfg flag = cfg\<lparr>cfg_flags := cfg_flags cfg OR flag\<rparr>"

text \<open>Two allocations: the entry and the copy of the name.\<close>

definition event_config_avoid_method :: "(nat \<Rightarrow> bool) \<Rightarrow> event_config \<Rightarrow> bytes \<Rightarrow> event_config \<times> int" where
  "event_config_avoid_method al cfg meth =
     (if \<not> al 24 then (cfg, -1)
      else if \<not> al (length meth + 1) then (cfg, -1)
      else (cfg\<lparr>avoid_methods := avoid_methods cfg @ [meth]\<rparr>, 0))"

definition event_config_require_features :: "event_config \<Rightarrow> u32 \<Rightarrow> event_config" where
  "event_config_require_features cfg f = cfg\<lparr>require_features := f\<rparr>"

definition event_config_set_num_cpus_hint :: "event_config \<Rightarrow> int \<Rightarrow> event_config" where
  "event_config_set_num_cpus_hint cfg n = cfg\<lparr>n_cpus_hint := n\<rparr>"

definition event_config_is_avoided_method :: "event_config \<Rightarrow> bytes \<Rightarrow> bool" where
  "event_config_is_avoided_method cfg meth \<longleftrightarrow> meth \<in> set (avoid_methods cfg)"

section \<open>The choice of a back end\<close>

text \<open>The variable \<open>EVENT_NO\<close> and the name in capitals, cut to a buffer of 64 bytes.\<close>

definition EVENT_NO :: bytes where
  "EVENT_NO = [69, 86, 69, 78, 84, 95, 78, 79]"

definition event_is_method_disabled :: "(bytes \<Rightarrow> bool) \<Rightarrow> bytes \<Rightarrow> bool" where
  "event_is_method_disabled getenv name =
     (let environment = take 63 (EVENT_NO @ name)
      in getenv (take 8 environment @ map TOUPPER (drop 8 environment)))"

record 'b backend =
  be_name :: bytes
  be_features :: u32
  be_init :: "'b option"

definition usable :: "(bytes \<Rightarrow> bool) \<Rightarrow> event_config option \<Rightarrow> 'b backend \<Rightarrow> bool" where
  "usable getenv cfg be =
     (let avoid = (case cfg of None \<Rightarrow> False
                   | Some c \<Rightarrow> event_config_is_avoided_method c (be_name be) \<or>
                       be_features be AND require_features c \<noteq> require_features c);
          check_env = (case cfg of None \<Rightarrow> True | Some c \<Rightarrow> cfg_flags c AND EVENT_BASE_FLAG_IGNORE_ENV = 0)
      in \<not> avoid \<and> \<not> (check_env \<and> event_is_method_disabled getenv (be_name be)))"

fun choose_backend ::
  "(bytes \<Rightarrow> bool) \<Rightarrow> event_config option \<Rightarrow> 'b backend list \<Rightarrow> ('b backend \<times> 'b) option" where
  "choose_backend getenv cfg [] = None"
| "choose_backend getenv cfg (be # bes) =
     (if \<not> usable getenv cfg be then choose_backend getenv cfg bes
      else case be_init be of None \<Rightarrow> choose_backend getenv cfg bes | Some s \<Rightarrow> Some (be, s))"

section \<open>The new base\<close>

text \<open>
  \<open>event_base_new_with_config\<close>: the memory of the events is given. \<open>None\<close>: no base. A clock that
  fails leaves the zeroed time.
\<close>

definition blank_base :: "events \<Rightarrow> timeval \<Rightarrow> 'b \<Rightarrow> 'b event_base" where
  "blank_base es now s =
     \<lparr>evs = es, evbase = s, event_count = 0, event_count_active = 0, virtual_event_count = 0,
      event_gotterm = False, event_break = False, event_continue = False, event_running_priority = 0,
      running_loop = False, activequeues = [], common_timeout_queues = [], n_common_timeouts_allocated = 0,
      deferred_cb_list = [], deferred_queued = (\<lambda>_. False), deferred_active_count = 0, io = [], sigmap = [],
      eventqueue = [], event_tv = now, timeheap = min_heap_ctor, tv_cache = Timeval 0 0,
      sig_frame = None, sig_frames = 0\<rparr>"

definition event_base_new_with_config ::
  "'b env \<Rightarrow> (bytes \<Rightarrow> bool) \<Rightarrow> 'b backend list \<Rightarrow> event_config option \<Rightarrow> events \<Rightarrow>
     (bytes \<times> 'b event_base) option" where
  "event_base_new_with_config env getenv bes cfg es =
     (if \<not> alloc env 728 then None
      else do {
        let now = (case clk env of None \<Rightarrow> Timeval 0 0 | Some t \<Rightarrow> t);
        (be, s) \<leftarrow> choose_backend getenv cfg bes;
        let (base, r) = event_base_priority_init env (blank_base es now s) 1;
        if r < 0 then None else Some (be_name be, base)
      })"

section \<open>Events that run once\<close>

text \<open>
  \<open>event_base_once\<close>: \<open>ev\<close> is the event inside the new storage.
\<close>

definition event_base_once ::
  "'b env \<Rightarrow> 'b event_base \<Rightarrow> nat \<Rightarrow> int \<Rightarrow> u16 \<Rightarrow> callback \<Rightarrow> timeval option \<Rightarrow> ('b event_base \<times> int) option" where
  "event_base_once env base ev fd events cb tv =
     (if has events (EV_SIGNAL OR EV_PERSIST) then Some (base, -1)
      else if \<not> alloc env 144 then Some (base, -1)
      else if events = EV_TIMEOUT then
        event_add env (fst (event_assign base ev (-1) 0 (Event_once_cb cb))) ev
          (Some (case tv of None \<Rightarrow> timerclear | Some t \<Rightarrow> t))
      else if has events (EV_READ OR EV_WRITE) then
        event_add env (fst (event_assign base ev fd (events AND (EV_READ OR EV_WRITE)) (Event_once_cb cb))) ev tv
      else Some (base, -1))"

definition event_base_loopexit ::
  "'b env \<Rightarrow> 'b event_base \<Rightarrow> nat \<Rightarrow> timeval option \<Rightarrow> ('b event_base \<times> int) option" where
  "event_base_loopexit env base ev tv =
     event_base_once env base ev (-1) EV_TIMEOUT Event_loopexit_cb tv"

section \<open>What is chosen\<close>

text \<open>The first back end that may be used and that starts, and only such a one.\<close>

lemma choose_backend_first:
  "choose_backend getenv cfg bes = Some (be, s) \<longleftrightarrow>
     (\<exists>xs ys. bes = xs @ be # ys \<and> usable getenv cfg be \<and> be_init be = Some s \<and>
        (\<forall>x \<in> set xs. usable getenv cfg x \<longrightarrow> be_init x = None))"
proof (induction bes)
  case Nil
  then show ?case by simp
next
  case (Cons b bes)
  show ?case
  proof (cases "usable getenv cfg b \<and> be_init b \<noteq> None")
    case True
    then have "choose_backend getenv cfg (b # bes) = Some (be, s) \<longleftrightarrow> b = be \<and> be_init b = Some s" by auto
    moreover have "(\<exists>xs ys. b # bes = xs @ be # ys \<and> usable getenv cfg be \<and> be_init be = Some s \<and>
        (\<forall>x \<in> set xs. usable getenv cfg x \<longrightarrow> be_init x = None)) \<longleftrightarrow> b = be \<and> be_init b = Some s" (is "?l = ?r")
    proof
      assume ?l then show ?r using True by (auto simp: Cons_eq_append_conv)
    next
      assume ?r
      then show ?l using True by - (rule exI [of _ "[]"], rule exI [of _ bes], auto)
    qed
    ultimately show ?thesis by simp
  next
    case False
    then have "choose_backend getenv cfg (b # bes) = choose_backend getenv cfg bes" by auto
    moreover have "(\<exists>xs ys. b # bes = xs @ be # ys \<and> usable getenv cfg be \<and> be_init be = Some s \<and>
        (\<forall>x \<in> set xs. usable getenv cfg x \<longrightarrow> be_init x = None)) \<longleftrightarrow>
      (\<exists>xs ys. bes = xs @ be # ys \<and> usable getenv cfg be \<and> be_init be = Some s \<and>
        (\<forall>x \<in> set xs. usable getenv cfg x \<longrightarrow> be_init x = None))" (is "?l = ?r")
    proof
      assume ?l then show ?r using False by (force simp: Cons_eq_append_conv)
    next
      assume ?r
      then obtain xs ys where "bes = xs @ be # ys" "usable getenv cfg be" "be_init be = Some s"
        "\<forall>x \<in> set xs. usable getenv cfg x \<longrightarrow> be_init x = None" by blast
      then show ?l using False by (intro exI [of _ "b # xs"] exI [of _ ys]) auto
    qed
    ultimately show ?thesis using Cons.IH by simp
  qed
qed

end
