(* ===== verification/EventRun.thy ===== *)
theory EventRun
  imports TimerQueue EventNew
begin

text \<open>
  What a program does to an event base, as operations that can be sequenced, the base it starts
  from, and the invariant that every operation keeps. An operation that is allowed never reaches
  a failed assertion, a queue the event is not on, or a cell outside an array.
\<close>

datatype op =
    Op_assign nat int u16 callback
  | Op_priority nat int
  | Op_add nat "timeval option"
  | Op_del nat
  | Op_active nat u16 int
  | Op_io int u16
  | Op_signal int int
  | Op_expire

fun run_op :: "'b env \<Rightarrow> 'b event_base \<Rightarrow> op \<Rightarrow> 'b event_base option" where
  "run_op env b (Op_assign ev fd events cb) = Some (fst (event_assign b ev fd events cb))"
| "run_op env b (Op_priority ev p) = Some (fst (event_priority_set b ev p))"
| "run_op env b (Op_add ev tv) = map_option fst (event_add env b ev tv)"
| "run_op env b (Op_del ev) = map_option fst (event_del env b ev)"
| "run_op env b (Op_active ev res n) = event_active b ev res n"
| "run_op env b (Op_io fd events) = evmap_io_active b fd events"
| "run_op env b (Op_signal sig n) = evmap_signal_active b sig n"
| "run_op env b Op_expire = timeout_process env b"

definition slot_set :: "'s option list \<Rightarrow> int \<Rightarrow> bool" where
  "slot_set m i \<longleftrightarrow> 0 \<le> i \<and> nat i < length m \<and> m ! nat i \<noteq> None"

abbreviation ctl_event :: "'b event_base \<Rightarrow> nat \<Rightarrow> bool" where
  "ctl_event b ev \<equiv> ev \<in> set (map timeout_event (common_timeout_queues b))"

text \<open>
  When an operation may be used: an event is not assigned while it is on a queue, its descriptor
  fits the maps, its timeout is an ordinary time or a magic duration of this base; back ends
  report only descriptors that something listens on.
\<close>

fun op_ok :: "'b event_base \<Rightarrow> op \<Rightarrow> bool" where
  "op_ok b (Op_assign ev fd events cb) \<longleftrightarrow>
     \<not> is_tmo (evs b ev) \<and> \<not> is_ins (evs b ev) \<and> \<not> is_act (evs b ev) \<and> \<not> ctl_event b ev"
| "op_ok b (Op_priority ev p) \<longleftrightarrow> True"
| "op_ok b (Op_add ev tv) \<longleftrightarrow>
     (has (ev_events (evs b ev)) (EV_READ OR EV_WRITE OR EV_SIGNAL) \<longrightarrow> fd_ok (evs b ev)) \<and>
     (case tv of None \<Rightarrow> True | Some t \<Rightarrow> good_tv b t False) \<and> \<not> ctl_event b ev \<and>
     size (pending b) < 2 ^ 31 - 2"
| "op_ok b (Op_del ev) \<longleftrightarrow> True"
| "op_ok b (Op_active ev res n) \<longleftrightarrow> True"
| "op_ok b (Op_io fd events) \<longleftrightarrow> slot_set (io b) fd"
| "op_ok b (Op_signal sig n) \<longleftrightarrow> slot_set (sigmap b) sig"
| "op_ok b Op_expire \<longleftrightarrow> True"

text \<open>What the environment does: allocations succeed and back ends forget what they are told to.\<close>

definition good_env :: "'b env \<Rightarrow> bool" where
  "good_env env \<longleftrightarrow> (\<forall>k. alloc env k) \<and> del_works (evsel env) \<and> del_works (evsigsel env) \<and>
     (case clk env of None \<Rightarrow> False | Some t \<Rightarrow> normal_tv t)"

lemma good_time:
  "good_env env \<Longrightarrow> base_inv b \<Longrightarrow> \<exists>now. gettime env b = Some now \<and> normal_tv now"
  by (auto simp: good_env_def base_inv_def gettime_def split: option.splits)

lemma base_invI:
  assumes "base_inv b" "base_ok b'" "quiet b'" "static b b'" "steady b b'"
  shows "base_inv b'"
proof -
  have "map timeout_event (common_timeout_queues b') = map timeout_event (common_timeout_queues b)"
      "nactivequeues b' = nactivequeues b" "tv_cache b' = tv_cache b"
    using assms(5) by (simp_all add: steady_def)
  then show ?thesis using assms(1-4) by (simp add: base_inv_def ctl_events_ok_def static_def)
qed

section \<open>Writing fields of an event\<close>

text \<open>An event that is on no queue may be overwritten.\<close>

lemma base_ok_idle:
  assumes ok: "base_ok b" and idle: "\<not> is_tmo (evs b ev)" "\<not> is_ins (evs b ev)" "\<not> is_act (evs b ev)"
    and f: "\<not> is_tmo (f (evs b ev))" "\<not> is_ins (f (evs b ev))" "\<not> is_act (f (evs b ev))"
      "flags_valid (ev_flags (f (evs b ev)))"
  shows "base_ok (upd_event b ev f)" (is "base_ok ?b")
proof -
  have C: "core_ok b" using ok by (simp add: base_ok_def)
  have off: "ev \<notin> set (heap_elems (timeheap b))" "ev \<notin> set (eventqueue b)"
    using C idle by (auto simp: core_ok_def heap_part_def ins_part_def)
  have offc: "ev \<notin> set (ctl_events c)" if c: "c \<in> set (common_timeout_queues b)" for c
  proof -
    obtain i where "i < length (common_timeout_queues b)" "c = common_timeout_queues b ! i"
      using c by (auto simp: in_set_conv_nth)
    then have "common_queue_ok b i c" using C by (simp add: core_ok_def common_part_def)
    then show ?thesis using idle(1) by (simp add: common_queue_ok_def)
  qed
  have offa: "ev \<notin> set q" if q: "q \<in> set (activequeues b)" for q
  proof -
    obtain p where "p < nactivequeues b" "q = activequeues b ! p"
      using q by (auto simp: in_set_conv_nth nactivequeues_def)
    then show ?thesis using C idle(3) by (simp add: core_ok_def act_part_def)
  qed
  have sm: "evs ?b x = evs b x" if "x \<noteq> ev" for x using that by simp
  have "heap_part ?b"
  proof -
    have "heap_ok (timeheap b) (evs ?b)"
    proof -
      have H: "heap_ok (timeheap b) (evs b)" using C by (simp add: core_ok_def heap_part_def)
      have at: "evs ?b (heap_elems (timeheap b) ! i) = evs b (heap_elems (timeheap b) ! i)"
        if "i < length (heap_elems (timeheap b))" for i
        using off(1) nth_mem [OF that] by (intro sm) auto
      have "heap_order (\<lambda>x. ev_timeout (evs ?b x)) (heap_elems (timeheap b))"
        unfolding heap_order_def
      proof (intro allI impI)
        fix i assume i: "i < length (heap_elems (timeheap b))" "0 < i"
        then have "par i < length (heap_elems (timeheap b))" using par_less [of i] by simp
        then show "ev_timeout (evs ?b (heap_elems (timeheap b) ! par i)) \<le> ev_timeout (evs ?b (heap_elems (timeheap b) ! i))"
          using H i at by (simp add: heap_ok_def heap_order_def del: upd_event_simps(14))
      qed
      then show ?thesis using H at by (simp add: heap_ok_def holed_def del: upd_event_simps(14))
    qed
    then show ?thesis using C idle f by (auto simp: core_ok_def heap_part_def)
  qed
  moreover have "common_part ?b"
    unfolding common_part_def
  proof (intro allI impI)
    fix i assume i: "i < length (common_timeout_queues ?b)"
    let ?c = "common_timeout_queues b ! i"
    have cq: "common_queue_ok b i ?c" using C i by (simp add: core_ok_def common_part_def)
    have no: "ev \<notin> set (ctl_events ?c)" using offc i by simp
    have "sorted_wrt (\<lambda>x y. ev_timeout (evs ?b x) \<le> ev_timeout (evs ?b y)) (ctl_events ?c)"
      by (rule sorted_wrt_mono_rel [of _ "\<lambda>x y. ev_timeout (evs b x) \<le> ev_timeout (evs b y)"])
        (use cq no in \<open>auto simp: common_queue_ok_def\<close>)
    then show "common_queue_ok ?b i (common_timeout_queues ?b ! i)"
      using cq no idle f by (auto simp: common_queue_ok_def)
  qed
  moreover have "ins_part ?b" using C idle f by (auto simp: core_ok_def ins_part_def)
  moreover have "act_part ?b" using C idle f by (auto simp: core_ok_def act_part_def)
  moreover have "flag_part ?b" using C f by (auto simp: core_ok_def flag_part_def)
  moreover have "count_part ?b"
  proof -
    have "ev \<notin># queued b" using off offc offa by (auto simp: queued_def)
    then have "filter_mset (\<lambda>e. \<not> internal (evs ?b e)) (queued b) = filter_mset (\<lambda>e. \<not> internal (evs b e)) (queued b)"
      by (intro filter_mset_cong refl) auto
    then show ?thesis using C by (simp add: core_ok_def count_part_def del: upd_event_simps(14))
  qed
  moreover have "io_part ?b"
  proof -
    have I: "io_part b" using ok by (simp add: base_ok_def)
    have "io_entry_ok ?b (int i) c" if "i < length (io b)" "io b ! i = Some c" for i c
    proof -
      have e: "io_entry_ok b (int i) c" using I that by (simp add: io_part_def)
      then have "ev \<notin> set (io_events c)" using idle by (auto simp: io_entry_ok_def)
      then have "filter (\<lambda>e. has (ev_events (evs ?b e)) m) (io_events c) = filter (\<lambda>e. has (ev_events (evs b e)) m) (io_events c)"
        for m by (intro filter_cong refl) auto
      then show ?thesis using e idle f by (auto simp: io_entry_ok_def)
    qed
    then show ?thesis using I f idle unfolding io_part_def by auto
  qed
  moreover have "sig_part ?b" using ok f idle unfolding base_ok_def sig_part_def by auto
  ultimately show ?thesis by (simp add: base_ok_def core_ok_def)
qed

text \<open>
  The result and the priority of an event are not part of the invariant, the latter as long as
  the event is not active.
\<close>

lemma base_ok_static:
  assumes ok: "base_ok b"
    and f: "ev_flags (f (evs b ev)) = ev_flags (evs b ev)" "ev_timeout (f (evs b ev)) = ev_timeout (evs b ev)"
      "ev_fd (f (evs b ev)) = ev_fd (evs b ev)" "ev_base (f (evs b ev)) = ev_base (evs b ev)"
      "ev_events (f (evs b ev)) = ev_events (evs b ev)" "min_heap_idx (f (evs b ev)) = min_heap_idx (evs b ev)"
    and p: "is_act (evs b ev) \<Longrightarrow> ev_pri (f (evs b ev)) = ev_pri (evs b ev)"
  shows "base_ok (upd_event b ev f)" (is "base_ok ?b")
proof -
  have E: "ev_flags (evs ?b x) = ev_flags (evs b x)" "ev_timeout (evs ?b x) = ev_timeout (evs b x)"
    "ev_fd (evs ?b x) = ev_fd (evs b x)" "ev_base (evs ?b x) = ev_base (evs b x)"
    "ev_events (evs ?b x) = ev_events (evs b x)" "min_heap_idx (evs ?b x) = min_heap_idx (evs b x)" for x
    by (simp_all add: f)
  have P: "ev_pri (evs ?b x) = ev_pri (evs b x)" if "is_act (evs b x)" for x using p that by auto
  have "heap_part ?b = heap_part b" by (rule heap_part_cong) (simp_all add: E del: upd_event_simps(14))
  moreover have "common_part ?b = common_part b" by (rule common_part_cong) (simp_all add: E del: upd_event_simps(14))
  moreover have "ins_part ?b = ins_part b" by (rule ins_part_cong) (simp_all add: E del: upd_event_simps(14))
  moreover have "io_part ?b = io_part b" by (rule io_part_cong) (simp_all add: E del: upd_event_simps(14))
  moreover have "sig_part ?b = sig_part b" by (rule sig_part_cong) (simp_all add: E del: upd_event_simps(14))
  moreover have "flag_part ?b = flag_part b" by (simp add: flag_part_def E del: upd_event_simps(14))
  moreover have "count_part ?b = count_part b" by (simp add: count_part_def internal_bit E del: upd_event_simps(14))
  moreover have "act_part ?b"
  proof -
    have "(is_act (evs ?b x) \<and> ev_pri (evs ?b x) = p) = (is_act (evs b x) \<and> ev_pri (evs b x) = p)" for x p
      using P [of x] E(1) [of x] by (auto simp del: upd_event_simps(14))
    moreover have "is_act (evs ?b x) \<longrightarrow> ev_pri (evs ?b x) < n \<longleftrightarrow> is_act (evs b x) \<longrightarrow> ev_pri (evs b x) < n" for x n
      using P [of x] E(1) [of x] by (auto simp del: upd_event_simps(14))
    moreover have "act_part b" using ok by (simp add: base_ok_def core_ok_def)
    ultimately show ?thesis by (simp add: act_part_def E(1) del: upd_event_simps(14))
  qed
  ultimately show ?thesis using ok by (simp add: base_ok_def core_ok_def)
qed

lemma inv_static:
  assumes "base_inv b" "base_ok (upd_event b ev f)" "ev_pncalls (f (evs b ev)) = None"
    "ev_pri (f (evs b ev)) < nactivequeues b" "ctl_event b ev \<Longrightarrow> ev_base (f (evs b ev)) \<and> ev_events (f (evs b ev)) = 0"
  shows "base_inv (upd_event b ev f)"
  using assms by (auto simp: base_inv_def quiet_def ctl_events_ok_def)

section \<open>Each operation\<close>

lemma assign_ok:
  assumes inv: "base_inv b" and ok: "op_ok b (Op_assign ev fd events cb)"
  shows "base_inv (fst (event_assign b ev fd events cb))"
proof -
  define f where "f = (\<lambda>e :: event. e\<lparr>ev_base := True, ev_callback := cb, ev_fd := fd, ev_events := events, ev_res := 0,
     ev_flags := EVLIST_INIT, ev_ncalls := 0, ev_pncalls := None\<rparr>)"
  define g where "g = (\<lambda>e :: event. (f e)\<lparr>ev_closure := (if has events EV_SIGNAL then EV_CLOSURE_SIGNAL
        else if has events EV_PERSIST then EV_CLOSURE_PERSIST else EV_CLOSURE_NONE),
     ev_io_timeout := (if \<not> has events EV_SIGNAL \<and> has events EV_PERSIST then timerclear else ev_io_timeout (f e)),
     min_heap_idx := -1, ev_pri := (nactivequeues b div 2) mod 256\<rparr>)"
  have a: "fst (event_assign b ev fd events cb) = upd_event b ev f \<or> fst (event_assign b ev fd events cb) = upd_event b ev g"
    by (simp add: event_assign_def Let_def f_def g_def upd_event_def nactivequeues_def)
  have v: "flags_valid EVLIST_INIT" "\<not> bit EVLIST_INIT 0" "\<not> bit EVLIST_INIT 1" "\<not> bit EVLIST_INIT 3"
    unfolding flags_valid_def by (code_simp)+
  have n: "(nactivequeues b div 2) mod 256 < nactivequeues b"
  proof -
    have "0 < nactivequeues b" using inv by (simp add: base_inv_def)
    then have "nactivequeues b div 2 < nactivequeues b" by simp
    then show ?thesis using mod_less_eq_dividend [of "nactivequeues b div 2" 256] by (rule le_less_trans [rotated])
  qed
  have "base_inv (upd_event b ev f)"
    by (rule inv_static [OF inv base_ok_idle]) (use inv ok v n in \<open>simp_all add: base_inv_def f_def\<close>)
  moreover have "base_inv (upd_event b ev g)"
    by (rule inv_static [OF inv base_ok_idle]) (use inv ok v n in \<open>simp_all add: base_inv_def f_def g_def\<close>)
  moreover note a
  ultimately show ?thesis by auto
qed

lemma priority_ok: "base_inv b \<Longrightarrow> base_inv (fst (event_priority_set b ev p))"
proof -
  assume inv: "base_inv b"
  show ?thesis
  proof (cases "is_act (evs b ev) \<or> p < 0 \<or> p \<ge> int (nactivequeues b)")
    case True
    then show ?thesis using inv by (auto simp: event_priority_set_def has_flags)
  next
    case False
    have "nat p mod 256 < nactivequeues b" using False mod_less_eq_dividend [of "nat p" 256] by linarith
    moreover have "base_ok (upd_event b ev (\<lambda>e. e\<lparr>ev_pri := nat p mod 256\<rparr>))"
      by (rule base_ok_static) (use inv False in \<open>auto simp: base_inv_def\<close>)
    ultimately show ?thesis
      using False inv by (auto simp: event_priority_set_def has_flags base_inv_def quiet_def ctl_events_ok_def)
  qed
qed

lemma active_op_ok:
  assumes inv: "base_inv b" and bs: "ev_base (evs b ev)"
  shows "\<exists>b'. event_active_nolock b ev res n = Some b' \<and> base_inv b' \<and>
     (\<forall>e. ev_base (evs b' e) = ev_base (evs b e)) \<and> io b' = io b \<and> sigmap b' = sigmap b"
proof (cases "is_act (evs b ev)")
  case True
  have "base_ok (upd_event b ev (\<lambda>e. e\<lparr>ev_res := ev_res e OR res\<rparr>))"
    by (rule base_ok_static) (use inv in \<open>auto simp: base_inv_def\<close>)
  then have "base_inv (upd_event b ev (\<lambda>e. e\<lparr>ev_res := ev_res e OR res\<rparr>))"
    using inv by (auto simp: base_inv_def quiet_def ctl_events_ok_def)
  then show ?thesis using True by (auto simp: event_active_nolock_def has_flags)
next
  case False
  have p: "ev_pri (evs b ev) < nactivequeues b" using inv by (simp add: base_inv_def)
  have "base_ok (woken b ev res n)" using woken_ok [OF _ False p bs] inv by (simp add: base_inv_def)
  moreover have "quiet (woken b ev res n)" using inv by (simp add: base_inv_def quiet_def woken_def woken_event_def)
  moreover have "ev_events (evs (woken b ev res n) e) = ev_events (evs b e)" for e by (simp add: woken_def woken_event_def)
  moreover have "tv_cache (woken b ev res n) = tv_cache b" by (simp add: woken_def)
  ultimately show ?thesis
    using inv by (simp add: active_eq [OF False p] base_inv_def ctl_events_ok_def woken_fields)
qed

lemma active_loops_ok:
  assumes "base_inv b" "\<forall>e \<in> set q. ev_base (evs b e)"
  shows "\<exists>b'. io_active_loop b events q = Some b' \<and> base_inv b'"
    "\<exists>b'. signal_active_loop b n q = Some b' \<and> base_inv b'"
  using assms
proof (induction q arbitrary: b)
  case Nil
  {
    case 1
    then show ?case by simp
  next
    case 2
    then show ?case by simp
  }
next
  case (Cons ev q)
  {
    case 1
    obtain b1 where b1: "(if has (ev_events (evs b ev)) events
        then event_active_nolock b ev (ev_events (evs b ev) AND events) 1 else Some b) = Some b1"
        "base_inv b1" "\<forall>e. ev_base (evs b1 e) = ev_base (evs b e)"
      using active_op_ok [OF 1(1), of ev "ev_events (evs b ev) AND events" 1] 1
      by (cases "has (ev_events (evs b ev)) events") auto
    then show ?case using Cons.IH(1) [OF b1(2)] 1(2) by simp
  next
    case 2
    obtain b1 where b1: "event_active_nolock b ev EV_SIGNAL n = Some b1"
        "base_inv b1" "\<forall>e. ev_base (evs b1 e) = ev_base (evs b e)"
      using active_op_ok [OF 2(1), of ev EV_SIGNAL n] 2 by auto
    then show ?case using Cons.IH(2) [OF b1(2)] 2(2) by simp
  }
qed

lemma listeners_base:
  assumes "base_inv b"
  shows "i < length (io b) \<Longrightarrow> io b ! i = Some c \<Longrightarrow> e \<in> set (io_events c) \<Longrightarrow> ev_base (evs b e)"
    "i < length (sigmap b) \<Longrightarrow> sigmap b ! i = Some q \<Longrightarrow> e \<in> set q \<Longrightarrow> ev_base (evs b e)"
proof -
  have B: "io_part b" "sig_part b" "flag_part b" using assms by (simp_all add: base_inv_def base_ok_def core_ok_def)
  show "ev_base (evs b e)" if "i < length (io b)" "io b ! i = Some c" "e \<in> set (io_events c)"
    using B that by (simp add: io_part_def io_entry_ok_def flag_part_def)
  show "ev_base (evs b e)" if "i < length (sigmap b)" "sigmap b ! i = Some q" "e \<in> set q"
    using B that by (simp add: sig_part_def flag_part_def)
qed

lemma report_ok:
  assumes "base_inv b"
  shows "slot_set (io b) fd \<Longrightarrow> \<exists>b'. evmap_io_active b fd events = Some b' \<and> base_inv b'"
    "slot_set (sigmap b) fd \<Longrightarrow> \<exists>b'. evmap_signal_active b fd n = Some b' \<and> base_inv b'"
proof -
  assume "slot_set (io b) fd"
  then obtain i c where i: "fd = int i" "i < length (io b)" "io b ! i = Some c"
    by (auto simp: slot_set_def) (metis nonneg_int_cases nat_int)
  then show "\<exists>b'. evmap_io_active b fd events = Some b' \<and> base_inv b'"
    using active_loops_ok(1) [OF assms, of "io_events c" events] listeners_base(1) [OF assms i(2,3)]
    by (auto simp: evmap_io_active_def evutil_assert_def get_slot_def)
next
  assume "slot_set (sigmap b) fd"
  then obtain i c where i: "fd = int i" "i < length (sigmap b)" "sigmap b ! i = Some c"
    by (auto simp: slot_set_def) (metis nonneg_int_cases nat_int)
  then show "\<exists>b'. evmap_signal_active b fd n = Some b' \<and> base_inv b'"
    using active_loops_ok(2) [OF assms, of c n] listeners_base(2) [OF assms i(2,3)]
    by (auto simp: evmap_signal_active_def evutil_assert_def get_slot_def)
qed

lemma inv_timers: "good_env env \<Longrightarrow> base_inv b \<Longrightarrow> timers_ok env b"
  by (simp add: timers_ok_def good_env_def)

lemma timeout_process_inv:
  assumes env: "good_env env" and inv: "base_inv b"
  shows "\<exists>b'. timeout_process env b = Some b' \<and> base_inv b'"
proof (cases "min_heap_empty (timeheap b)")
  case True
  then show ?thesis using inv by (simp add: timeout_process_def)
next
  case False
  obtain now where now: "gettime env b = Some now" using good_time [OF env inv] by blast
  note T = inv_timers [OF env inv]
  obtain es b' where "run_timers base_next base_key (fire_timeout env) now b = Some (es, b')" "timers_ok env b'"
    using bq.run_timers_law [OF T, of now] by blast
  then show ?thesis
    using False now timeout_process_loop_eq [OF T, of now] by (simp add: timeout_process_def timers_ok_def)
qed

lemma run_op_inv:
  assumes env: "good_env env" and inv: "base_inv b" and ok: "op_ok b op"
  shows "\<exists>b'. run_op env b op = Some b' \<and> base_inv b'"
proof (cases op)
  case (Op_assign ev fd events cb)
  then show ?thesis using assign_ok [OF inv] ok by simp
next
  case (Op_priority ev p)
  then show ?thesis using priority_ok [OF inv] by simp
next
  case (Op_add ev tv)
  show ?thesis
  proof (cases "ev_base (evs b ev)")
    case False
    then show ?thesis using Op_add inv by (simp add: event_add_def)
  next
    case True
    obtain now where now: "gettime env b = Some now" "normal_tv now" using good_time [OF env inv] by blast
    have I: "base_ok b" "quiet b" "ctl_events_ok b" using inv by (simp_all add: base_inv_def)
    have al: "alloc env k" for k using env by (simp add: good_env_def)
    have A: "fd_ok (evs b ev)" if "has (ev_events (evs b ev)) (EV_READ OR EV_WRITE OR EV_SIGNAL)"
      using ok that Op_add by simp
    have B: "good_tv b t False" if "tv = Some t" for t using ok that Op_add by simp
    have C: "\<not> ctl_event b ev" "size (pending b) < 2 ^ 31 - 2" using ok Op_add by simp_all
    obtain b' r where "event_add_internal env b ev tv False = Some (b', r)" "base_ok b'" "quiet b'" "static b b'" "steady b b'"
      using add_internal_ok [OF I True A B C(1) now al C(2)] by blast
    then show ?thesis using True Op_add base_invI [OF inv] by (simp add: event_add_def)
  qed
next
  case (Op_del ev)
  show ?thesis
  proof (cases "ev_base (evs b ev)")
    case False
    then show ?thesis using Op_del inv by (simp add: event_del_def)
  next
    case True
    have I: "base_ok b" "quiet b" using inv by (simp_all add: base_inv_def)
    obtain b' where b': "event_del_internal env b ev = Some (b', 0)" "base_ok b'" "unqueued b b' ev"
      using del_ok [OF I(1) True quiet_abort [OF I(2)]] env by (auto simp: good_env_def)
    then have T: "touched b b' ev" "steady b b'" by (simp_all add: unqueued_def)
    have "quiet b'" using I(2) touched_quiet [OF T(1)] by (simp add: quiet_def)
    then show ?thesis
      using True Op_del b' base_invI [OF inv b'(2) _ touched_static [OF T(1)] T(2)] by (simp add: event_del_def)
  qed
next
  case (Op_active ev res n)
  then show ?thesis using active_op_ok [OF inv, of ev res n] inv by (auto simp: event_active_def)
next
  case (Op_io fd events)
  then show ?thesis using report_ok(1) [OF inv] ok by simp
next
  case (Op_signal sig n)
  then show ?thesis using report_ok(2) [OF inv] ok by simp
next
  case Op_expire
  then show ?thesis using timeout_process_inv [OF env inv] by simp
qed

section \<open>From a new base on\<close>

text \<open>Memory no event lives in yet is zero.\<close>

definition zeroed :: "events \<Rightarrow> bool" where
  "zeroed es \<longleftrightarrow> (\<forall>e. ev_flags (es e) = 0 \<and> ev_pncalls (es e) = None \<and> ev_pri (es e) = 0)"

lemma new_inv:
  assumes "event_base_new_with_config env getenv bes cfg es = Some (name, b)" "zeroed es"
  shows "base_inv b"
proof -
  obtain now s where b: "b = (blank_base es now s)\<lparr>activequeues := [[]]\<rparr>"
    using assms(1)
    by (auto simp: event_base_new_with_config_def event_base_priority_init_def N_ACTIVE_CALLBACKS_def blank_base_def
        nactivequeues_def Let_def split: if_splits Option.bind_splits prod.splits)
  have z: "ev_flags (es e) = 0" "ev_pncalls (es e) = None" "ev_pri (es e) = 0" for e using assms(2) by (simp_all add: zeroed_def)
  have F: "evs b = es" "timeheap b = min_heap_ctor" "eventqueue b = []" "activequeues b = [[]]" "common_timeout_queues b = []"
      "io b = []" "sigmap b = []" "event_count b = 0" "event_count_active b = 0" "tv_cache b = Timeval 0 0"
    by (simp_all add: b blank_base_def)
  have "heap_part b" using heap_ok_ctor [of es] by (simp add: heap_part_def F z)
  moreover have "common_part b" "ins_part b" "act_part b" "flag_part b" "io_part b" "sig_part b"
    by (simp_all add: common_part_def ins_part_def act_part_def flag_part_def io_part_def sig_part_def F z nactivequeues_def
        flags_valid_def)
  moreover have "count_part b" using heap_ok_ctor [of es] by (simp add: count_part_def queued_def F)
  ultimately show ?thesis
    by (simp add: base_inv_def base_ok_def core_ok_def quiet_def ctl_events_ok_def F z nactivequeues_def normal_tv_def)
qed

text \<open>The bases that a program can get to with one environment after another.\<close>

inductive reachable :: "'b event_base \<Rightarrow> bool" where
  new: "event_base_new_with_config env getenv bes cfg es = Some (name, b) \<Longrightarrow> zeroed es \<Longrightarrow> reachable b"
| op: "reachable b \<Longrightarrow> good_env env \<Longrightarrow> op_ok b op \<Longrightarrow> run_op env b op = Some b' \<Longrightarrow> reachable b'"

lemma reachable_inv: "reachable b \<Longrightarrow> base_inv b"
proof (induction rule: reachable.induct)
  case (new env getenv bes cfg es name b)
  then show ?case by (rule new_inv)
next
  case (op b env op b')
  then show ?case using run_op_inv [of env b op] by auto
qed

end
