(* ===== verification/EventSamples.thy ===== *)
theory EventSamples
  imports EventRun
begin

text \<open>Concrete bases and environments, on which the properties of the event core are applied.\<close>

definition plain_backend :: "unit eventop" where
  "plain_backend = \<lparr>eo_add = (\<lambda>s fd old e. (s, 0)), eo_del = (\<lambda>s fd old e. (s, 0))\<rparr>"

definition sample_env :: "int \<Rightarrow> unit env" where
  "sample_env t = \<lparr>evsel = plain_backend, evsigsel = plain_backend, alloc = (\<lambda>_. True),
     clk = Some (Timeval t 0), use_monotonic = True, debug_mode = False\<rparr>"

definition blank_event :: event where
  "blank_event = \<lparr>min_heap_idx = 0, ev_fd = 0, ev_base = False, ev_io_timeout = Timeval 0 0, ev_ncalls = 0,
     ev_pncalls = None, ev_events = 0, ev_res = 0, ev_flags = 0, ev_pri = 0, ev_closure = EV_CLOSURE_NONE,
     ev_timeout = Timeval 0 0, ev_callback = User 0\<rparr>"

definition fresh_base :: "unit event_base" where
  "fresh_base = (blank_base (\<lambda>_. blank_event) (Timeval 100 0) ())\<lparr>activequeues := [[]]\<rparr>"

text \<open>Operations one after the other, as long as they are allowed.\<close>

fun run_ops :: "'b env \<Rightarrow> 'b event_base \<Rightarrow> op list \<Rightarrow> 'b event_base option" where
  "run_ops env b [] = Some b"
| "run_ops env b (op # ops) =
     (if op_ok b op then do { b \<leftarrow> run_op env b op; run_ops env b ops } else None)"

lemma run_ops_inv: "good_env env \<Longrightarrow> base_inv b \<Longrightarrow> run_ops env b ops = Some b' \<Longrightarrow> base_inv b'"
proof (induction env b ops arbitrary: b' rule: run_ops.induct)
  case (2 env b op ops)
  then obtain b1 where b1: "op_ok b op" "run_op env b op = Some b1" "run_ops env b1 ops = Some b'"
    by (auto split: if_splits Option.bind_splits)
  then have "base_inv b1" using run_op_inv [OF 2(2,3) b1(1)] by simp
  then show ?case using 2(1) [OF b1(1,2) 2(2)] b1(3) by blast
qed simp

lemma run_ops_reachable: "good_env env \<Longrightarrow> reachable b \<Longrightarrow> run_ops env b ops = Some b' \<Longrightarrow> reachable b'"
proof (induction env b ops arbitrary: b' rule: run_ops.induct)
  case (2 env b op ops)
  then obtain b1 where b1: "op_ok b op" "run_op env b op = Some b1" "run_ops env b1 ops = Some b'"
    by (auto split: if_splits Option.bind_splits)
  then have "reachable b1" using 2(2,3) by (auto intro: reachable.op)
  then show ?case using 2(1) [OF b1(1,2) 2(2)] b1(3) by blast
qed simp

lemma sample_new:
  "event_base_new_with_config (sample_env 100) (\<lambda>_. False) [\<lparr>be_name = [120], be_features = 0, be_init = Some ()\<rparr>]
     None (\<lambda>_. blank_event) = Some ([120], fresh_base)"
proof -
  have "choose_backend (\<lambda>_. False) None [\<lparr>be_name = [120], be_features = 0, be_init = Some ()\<rparr>] =
      Some (\<lparr>be_name = [120], be_features = 0, be_init = Some ()\<rparr>, ())"
    by (simp add: usable_def event_is_method_disabled_def)
  moreover have "event_base_priority_init (sample_env 100) (blank_base (\<lambda>_. blank_event) (Timeval 100 0) ()) 1 = (fresh_base, 0)"
    by (simp add: event_base_priority_init_def fresh_base_def blank_base_def N_ACTIVE_CALLBACKS_def nactivequeues_def sample_env_def)
  ultimately show ?thesis by (simp add: event_base_new_with_config_def sample_env_def)
qed

lemma sample_env_good: "0 \<le> t \<Longrightarrow> good_env (sample_env t)"
  by (simp add: good_env_def sample_env_def plain_backend_def del_works_def normal_tv_def)

lemma fresh_reachable: "reachable fresh_base"
  by (rule reachable.new [OF sample_new]) (simp add: zeroed_def blank_event_def)

text \<open>Two timers at 100 seconds, due after 5 and after 2.5.\<close>

definition two_timers :: "op list" where
  "two_timers = [Op_assign 2 (-1) 0 (User 2), Op_assign 3 (-1) 0 (User 3),
     Op_add 2 (Some (Timeval 5 0)), Op_add 3 (Some (Timeval 2 500000))]"

definition assigned :: "nat \<Rightarrow> event" where
  "assigned n = blank_event\<lparr>min_heap_idx := -1, ev_fd := -1, ev_base := True, ev_flags := 0x80, ev_callback := User n\<rparr>"

definition scheduled :: "nat \<Rightarrow> timeval \<Rightarrow> int \<Rightarrow> event" where
  "scheduled n t i = (assigned n)\<lparr>min_heap_idx := i, ev_flags := 0x81, ev_timeout := t\<rparr>"

definition base_of :: "(nat \<Rightarrow> event) \<Rightarrow> nat list \<Rightarrow> unit event_base" where
  "base_of es q = fresh_base\<lparr>evs := es, event_count := int (length q),
     timeheap := (if q = [] then min_heap_ctor
                  else \<lparr>hp = map Some q @ replicate (8 - length q) None, hn = length q, ha = 8\<rparr>)\<rparr>"

definition timer_base :: "unit event_base" where
  "timer_base = base_of ((\<lambda>_. blank_event)(2 := scheduled 2 (Timeval 105 0) 1, 3 := scheduled 3 (Timeval 102 500000) 0)) [3, 2]"

lemma event_add_plain:
  "ev_base (evs b ev) \<Longrightarrow> add_front env b ev tv False = Some (b', r, None) \<Longrightarrow> event_add env b ev tv = Some (b', r)"
  unfolding event_add_def by (subst event_add_internal.simps) simp

lemmas op_defs = add_front_def upd_event_def evutil_assert_def Let_def min_heap_reserve_def min_heap_size_def
  queue_join_def event_queue_insert_inserted_def add_timeout_def gettime_def is_common_timeout_def timeradd_def
  event_queue_insert_timeout_def min_heap_push_def min_heap_shift_up.simps p_at_def p_put_def internal_def
  event_assign_def nactivequeues_def parent_of_def min_heap_elem_greater_def timercmp_def

lemmas sample_defs = base_of_def fresh_base_def blank_base_def sample_env_def plain_backend_def blank_event_def min_heap_ctor_def
  assigned_def scheduled_def

lemma pad: "replicate 8 None = [None, None, None, None, None, None, None, None]"
  "replicate 7 None = [None, None, None, None, None, None, None]" "replicate 6 None = [None, None, None, None, None, None]"
  by (simp_all add: numeral_eq_Suc)

lemma timers_assign:
  "run_op (sample_env 100) fresh_base (Op_assign 2 (-1) 0 (User 2)) = Some (base_of ((\<lambda>_. blank_event)(2 := assigned 2)) [])"
  "run_op (sample_env 100) (base_of ((\<lambda>_. blank_event)(2 := assigned 2)) []) (Op_assign 3 (-1) 0 (User 3)) =
     Some (base_of ((\<lambda>_. blank_event)(2 := assigned 2, 3 := assigned 3)) [])"
  by (simp_all add: op_defs sample_defs)

lemma timers_add_2:
  "event_add (sample_env 100) (base_of ((\<lambda>_. blank_event)(2 := assigned 2, 3 := assigned 3)) []) 2 (Some (Timeval 5 0)) =
     Some (base_of ((\<lambda>_. blank_event)(2 := scheduled 2 (Timeval 105 0) 0, 3 := assigned 3)) [2], 0)"
  by (rule event_add_plain) (simp_all add: op_defs sample_defs pad fun_eq_iff idx_of_def)

lemma timers_add_3:
  "event_add (sample_env 100) (base_of ((\<lambda>_. blank_event)(2 := scheduled 2 (Timeval 105 0) 0, 3 := assigned 3)) [2]) 3
     (Some (Timeval 2 500000)) = Some (timer_base, 0)"
  by (rule event_add_plain) (simp_all add: timer_base_def op_defs sample_defs pad fun_eq_iff idx_of_def)

lemma timers_run: "run_ops (sample_env 100) fresh_base two_timers = Some timer_base"
proof -
  have "op_ok fresh_base (Op_assign 2 (-1) 0 (User 2))"
      "op_ok (base_of ((\<lambda>_. blank_event)(2 := assigned 2)) []) (Op_assign 3 (-1) 0 (User 3))"
      "op_ok (base_of ((\<lambda>_. blank_event)(2 := assigned 2, 3 := assigned 3)) []) (Op_add 2 (Some (Timeval 5 0)))"
      "op_ok (base_of ((\<lambda>_. blank_event)(2 := scheduled 2 (Timeval 105 0) 0, 3 := assigned 3)) [2])
         (Op_add 3 (Some (Timeval 2 500000)))"
    by (simp_all add: sample_defs pending_def good_tv_def is_common_timeout_def normal_tv_def heap_elems_def)
  then show ?thesis
    by (simp add: two_timers_def timers_assign timers_add_2 timers_add_3 del: op_ok.simps run_op.simps)
      (simp add: timers_add_2 timers_add_3)
qed

lemma timer_base_inv: "base_inv timer_base" and timer_base_reachable: "reachable timer_base"
  using run_ops_inv [OF sample_env_good _ timers_run] run_ops_reachable [OF sample_env_good fresh_reachable timers_run]
    reachable_inv [OF fresh_reachable] by simp_all

lemma timer_base_pending: "pending timer_base = {#2, 3#}"
  by (simp add: pending_def heap_elems_def timer_base_def sample_defs)

end
