(* ===== verification/EventProps.thy ===== *)
theory EventProps
  imports EventSamples
begin

text \<open>The properties of the event core, over the lemmas of \<open>EventRun\<close>, \<open>TimerQueue\<close> and \<open>MinHeapProofs\<close>.\<close>

section \<open>Bases\<close>

lemma common_queue_common:
  assumes "core_ok b" "c \<in> set (common_timeout_queues b)" "e \<in> set (ctl_events c)"
  shows "is_tmo (evs b e) \<and> is_common_timeout (ev_timeout (evs b e)) b"
proof -
  obtain i where "i < length (common_timeout_queues b)" "c = common_timeout_queues b ! i"
    using assms(2) by (auto simp: in_set_conv_nth)
  then have "common_queue_ok b i c" using assms(1) by (simp add: core_ok_def common_part_def)
  then show ?thesis using assms(3) by (simp add: common_queue_ok_def)
qed

lemma common_queue_in:
  assumes "core_ok b" "is_tmo (evs b e)" "is_common_timeout (ev_timeout (evs b e)) b"
  shows "\<exists>c \<in> set (common_timeout_queues b). e \<in> set (ctl_events c)"
proof -
  let ?i = "COMMON_TIMEOUT_IDX (ev_timeout (evs b e))"
  have i: "?i < length (common_timeout_queues b)" using assms(3) by (simp add: is_common_timeout_def)
  then have "common_queue_ok b ?i (common_timeout_queues b ! ?i)" using assms(1) by (simp add: core_ok_def common_part_def)
  then have "e \<in> set (ctl_events (common_timeout_queues b ! ?i))" using assms(2,3) by (simp add: common_queue_ok_def)
  then show ?thesis using i nth_mem by blast
qed

text \<open>
  Property C3: every operation a program performs on an event base (assigning an event, setting
  its priority, adding, deleting and activating it, the back end's report of a descriptor or
  signal, expiring the timers), used as allowed and with allocations and back ends that succeed,
  returns without a failed assertion or an access outside a queue or array, and keeps the
  invariant: the flags of every event name exactly the queues it is on, no queue has duplicates,
  every heap index is right, and \<open>event_count\<close> and \<open>event_count_active\<close> count what is queued.
\<close>

theorem operations_keep_invariant:
  assumes "good_env env" "base_inv b" "op_ok b op"
  shows "\<exists>b'. run_op env b op = Some b' \<and> base_inv b'"
  using assms by (rule run_op_inv)

theorem operations_keep_invariant_witness:
  "\<exists>b'. run_op (sample_env 103) timer_base (Op_del 3) = Some b' \<and> base_inv b'"
  using operations_keep_invariant [OF sample_env_good timer_base_inv, of 103 "Op_del 3"] by simp



section \<open>Timers\<close>

text \<open>
  Property C5: \<open>timeout_process\<close> returns. It takes off the heap exactly the timers that are due
  by now, one that was due earlier before one that was due later, and puts each at the end of the
  active queue of its priority (off any active queue it was on); the others stay pending.
\<close>

theorem due_timers_fire:
  assumes "good_env env" "base_inv b" "gettime env b = Some now"
  shows "\<exists>es b'. timeout_process env b = Some b' \<and> base_inv b' \<and>
      mset es = filter_mset (\<lambda>e. ev_timeout (evs b e) \<le> now) (pending b) \<and>
      sorted_wrt (\<lambda>x y. ev_timeout (evs b x) \<le> ev_timeout (evs b y)) es \<and>
      pending b' = filter_mset (\<lambda>e. now < ev_timeout (evs b e)) (pending b) \<and>
      queues_view b' = foldl to_back (queues_view b) es"
proof -
  note T = inv_timers [OF assms(1,2)]
  obtain es b' where r: "run_timers base_next base_key (fire_timeout env) now b = Some (es, b')" "timers_ok env b'"
      "mset es = filter_mset (\<lambda>e. base_key b e \<le> now) (pending b)"
      "sorted_wrt (\<lambda>x y. base_key b x \<le> base_key b y) es"
      "pending b' = filter_mset (\<lambda>e. now < base_key b e) (pending b)" "queues_view b' = foldl to_back (queues_view b) es"
    using bq.run_timers_law [OF T, of now] by blast
  have "timeout_process env b = Some b'"
  proof (cases "min_heap_empty (timeheap b)")
    case True
    then have "min_heap_top (timeheap b) = Some None" by (simp add: min_heap_empty_def min_heap_top_def)
    then have "run_timers base_next base_key (fire_timeout env) now b = Some ([], b)"
      by (subst run_timers.simps) (simp add: base_next_def)
    then show ?thesis using r(1) True by (simp add: timeout_process_def)
  next
    case False
    then show ?thesis using timeout_process_loop_eq [OF T, of now] r(1) assms(3) by (simp add: timeout_process_def)
  qed
  then show ?thesis using r by (auto simp: timers_ok_def base_key_def)
qed

theorem due_timers_fire_witness:
  "\<exists>b'. timeout_process (sample_env 103) timer_base = Some b' \<and> pending b' = {#2#} \<and> activequeues b' = [[3]]"
proof -
  have "gettime (sample_env 103) timer_base = Some (Timeval 103 0)"
    by (simp add: gettime_def timer_base_def sample_defs)
  from due_timers_fire [OF sample_env_good timer_base_inv this]
  obtain es b' where b': "timeout_process (sample_env 103) timer_base = Some b'"
      "mset es = filter_mset (\<lambda>e. ev_timeout (evs timer_base e) \<le> Timeval 103 0) (pending timer_base)"
      "pending b' = filter_mset (\<lambda>e. Timeval 103 0 < ev_timeout (evs timer_base e)) (pending timer_base)"
      "queues_view b' = foldl to_back (queues_view timer_base) es"
    by auto
  have t: "ev_timeout (evs timer_base 2) = Timeval 105 0" "ev_timeout (evs timer_base 3) = Timeval 102 500000"
      "activequeues timer_base = [[]]" "ev_pri (evs timer_base 3) = 0"
    by (simp_all add: timer_base_def sample_defs)
  have "mset es = {#3#}" using b'(2) by (simp add: timer_base_pending t less_eq_timeval_def)
  then have "es = [3]" by simp
  then have "activequeues b' = [[3]]" using b'(4) by (simp add: queues_view_def to_back_def t)
  moreover have "pending b' = {#2#}" using b'(3) by (simp add: timer_base_pending t less_timeval_def)
  ultimately show ?thesis using b'(1) by blast
qed



section \<open>The heap\<close>

text \<open>
  Property C7: on a heap in order, whose indices in the events are right, pushing a new event
  succeeds and popping then answers with an event due no later than any other; both leave a heap
  in order with right indices, holding exactly the event more or less.
\<close>

theorem heap_push_pop:
  assumes "heap_ok s es" "e \<notin> set (heap_elems s)" "hn s < 2 ^ 31 - 1" "\<And>k. al k"
  shows "\<exists>s1 es1 s2 es2 t. min_heap_push al s es e = Some (s1, es1, 0) \<and> heap_ok s1 es1 \<and>
      mset (heap_elems s1) = add_mset e (mset (heap_elems s)) \<and>
      min_heap_pop s1 es1 = Some (s2, es2, Some t) \<and> heap_ok s2 es2 \<and> t \<in># mset (heap_elems s1) \<and>
      mset (heap_elems s2) = mset (heap_elems s1) - {#t#} \<and>
      (\<forall>x \<in># mset (heap_elems s1). ev_timeout (es1 t) \<le> ev_timeout (es1 x))"
proof -
  obtain s1 es1 where p: "min_heap_push al s es e = Some (s1, es1, 0)" "heap_ok s1 es1"
      "mset (heap_elems s1) = add_mset e (mset (heap_elems s))"
    using push_ok [OF assms(1-3) reserve_alloc [of al, OF assms(4)]] by blast
  obtain t ts where t: "heap_elems s1 = t # ts" using p(3) by (cases "heap_elems s1") auto
  obtain s2 es2 where d: "min_heap_erase s1 es1 t = Some (s2, es2, 0)" "heap_ok s2 es2"
      "mset (heap_elems s2) = mset (heap_elems s1) - {#t#}"
    using erase_ok [OF p(2), of t] t by auto
  have "ev_timeout (es1 t) \<le> ev_timeout (es1 x)" if "x \<in># mset (heap_elems s1)" for x
    using top_ok(2) [OF p(2), of x] that t by simp
  then show ?thesis using p d t pop_erase [OF p(2) t] by auto
qed

theorem heap_push_pop_witness:
  "\<exists>s1 es1. min_heap_push (\<lambda>_. True) min_heap_ctor (\<lambda>_. blank_event) 7 = Some (s1, es1, 0) \<and>
     mset (heap_elems s1) = {#7#}"
  using heap_push_pop [of min_heap_ctor "\<lambda>_. blank_event" 7 "\<lambda>_. True"] heap_ok_ctor [of "\<lambda>_. blank_event"]
  by (auto simp: min_heap_ctor_def)

section \<open>Signal closures\<close>

lemma del_abort:
  assumes inv: "base_inv b0" and env: "good_env env" and bs: "ev_base (evs b0 ev)"
    and sg: "has (ev_events (evs b0 ev)) EV_SIGNAL"
    and f: "\<And>e. ev_flags (f e) = ev_flags e \<and> ev_timeout (f e) = ev_timeout e \<and> ev_fd (f e) = ev_fd e \<and> ev_base (f e) = ev_base e \<and>
        ev_events (f e) = ev_events e \<and> min_heap_idx (f e) = min_heap_idx e \<and> ev_pri (f e) = ev_pri e"
    and n: "ev_ncalls (f (evs b0 ev)) \<noteq> 0" "ev_pncalls (f (evs b0 ev)) = Some fr"
    and b: "b = (upd_event b0 ev f)\<lparr>sig_frame := Some (fr, k), sig_frames := m\<rparr>"
  shows "\<exists>b'. event_del env b ev = Some (b', 0) \<and> base_ok b' \<and> sig_frame b' = Some (fr, 0) \<and>
      ev_base (evs b' ev) \<and> ev_events (evs b' ev) = ev_events (evs b0 ev) \<and>
      ev_ncalls (evs b' ev) = ev_ncalls (f (evs b0 ev)) \<and> ev_pncalls (evs b' ev) = Some fr"
proof -
  define c where "c = b\<lparr>sig_frame := Some (fr, 0)\<rparr>"
  have u: "base_ok (upd_event b0 ev f)" by (rule base_ok_static) (use inv f in \<open>auto simp: base_inv_def\<close>)
  have ok: "base_ok c"
    using u by (simp add: c_def b base_ok_def core_ok_def heap_part_def common_part_def common_queue_ok_def ins_part_def
        act_part_def count_part_def flag_part_def io_part_def sig_part_def io_entry_ok_def is_common_timeout_def
        nactivequeues_def queued_def)
  have E: "evs b ev = f (evs b0 ev)" "evs c = evs b" by (simp_all add: c_def b)
  have bs1: "ev_base (evs b ev)" "ev_base (evs c ev)" using bs f by (simp_all add: E)
  have a: "abort_calls b ev = Some c" "abort_calls c ev = Some c"
    using n sg f by (simp_all add: abort_calls_def E c_def b)
  have d: "event_del_internal env b ev = event_del_internal env c ev"
    unfolding event_del_internal_def a E(2) using bs1 by simp
  obtain b' where b': "event_del_internal env c ev = Some (b', 0)" "base_ok b'" "unqueued c b' ev"
    using del_ok [OF ok bs1(2) a(2)] env by (auto simp: good_env_def)
  note D = touchedD [of c b' ev]
  have "touched c b' ev" "sig_frame b' = Some (fr, 0)" using b'(3) by (simp_all add: unqueued_def steady_def c_def)
  then show ?thesis using b'(1,2) d bs1 D(4,5,10,11) E n f by (simp add: event_del_def)
qed

text \<open>
  Property C8: a defect. A signal event whose callback is to run twice or more and deletes the
  event keeps \<open>ev_pncalls\<close> pointing at the local variable of \<open>event_signal_closure\<close> after that
  function has returned; deleting the event again writes through the pointer.
\<close>

theorem deleted_signal_event_dangles:
  assumes "good_env env" "base_inv b" "ev_base (evs b ev)" "has (ev_events (evs b ev)) EV_SIGNAL"
    and "1 < ev_ncalls (evs b ev)" "ev_callback (evs b ev) = User u"
    and "\<And>fd res c. user app u fd res c = map_option fst (event_del env c ev)"
  shows "\<exists>b'. event_signal_closure env app b ev = Some b' \<and>
      ev_pncalls (evs b' ev) = Some (sig_frames b) \<and> sig_frame b' = None \<and> event_del env b' ev = None"
proof -
  let ?fr = "sig_frames b" and ?n = "ev_ncalls (evs b ev)"
  define f where "f = (\<lambda>e :: event. e\<lparr>ev_ncalls := ?n - 1, ev_pncalls := Some ?fr\<rparr>)"
  define c where "c = (upd_event b ev f)\<lparr>sig_frame := Some (?fr, ?n - 1), sig_frames := ?fr + 1\<rparr>"
  have fx: "ev_flags (f e) = ev_flags e \<and> ev_timeout (f e) = ev_timeout e \<and> ev_fd (f e) = ev_fd e \<and> ev_base (f e) = ev_base e \<and>
      ev_events (f e) = ev_events e \<and> min_heap_idx (f e) = min_heap_idx e \<and> ev_pri (f e) = ev_pri e" for e
    by (simp add: f_def)
  have n1: "ev_ncalls (f (evs b ev)) \<noteq> 0" and n2: "ev_pncalls (f (evs b ev)) = Some ?fr"
    using assms(5) by (simp_all add: f_def)
  obtain b1 where b1: "event_del env c ev = Some (b1, 0)" "base_ok b1" "sig_frame b1 = Some (?fr, 0)"
      "ev_base (evs b1 ev)" "ev_events (evs b1 ev) = ev_events (evs b ev)" "ev_ncalls (evs b1 ev) = ?n - 1"
      "ev_pncalls (evs b1 ev) = Some ?fr"
    using del_abort [OF assms(2,1,3,4) fx n1 n2 c_def] by (simp add: f_def) blast
  define b0 where "b0 = upd_event ((set_frame b ?fr ?n)\<lparr>sig_frames := ?fr + 1\<rparr>) ev (\<lambda>e. e\<lparr>ev_pncalls := Some ?fr\<rparr>)"
  have st: "upd_event (set_frame b0 ?fr (?n - 1)) ev
      (\<lambda>e. e\<lparr>ev_ncalls := ?n - 1, ev_pncalls := (if ?n - 1 = 0 then None else ev_pncalls e)\<rparr>) = c"
    using assms(5) by (intro event_base.equality) (auto simp: b0_def c_def f_def upd_event_def set_frame_def intro!: ext event.equality)
  have "frame_ncalls b0 = ?n" by (simp add: b0_def frame_ncalls_def set_frame_def upd_event_def)
  moreover have "run_callback env app c ev = Some b1"
    using assms(6,7) b1(1) by (simp add: run_callback_def Let_def c_def f_def)
  moreover have "frame_ncalls b1 = 0" using b1(3) by (simp add: frame_ncalls_def)
  then have "signal_calls env app ?fr ev b1 = Some b1" by (subst signal_calls.simps) simp
  ultimately have "signal_calls env app ?fr ev b0 = Some b1"
    using assms(5) st \<open>frame_ncalls b1 = 0\<close> by (subst signal_calls.simps) (simp add: Let_def)
  then have cl: "event_signal_closure env app b ev = Some (b1\<lparr>sig_frame := None\<rparr>)"
    using assms(5) by (simp add: event_signal_closure_def Let_def b0_def)
  have "abort_calls (b1\<lparr>sig_frame := None\<rparr>) ev = None"
    using b1(5-7) assms(4,5) by (simp add: abort_calls_def)
  moreover have "ev_flags (evs b1 ev) AND NOT EVLIST_ALL = 0" using b1(2) unfolding base_ok_def by (blast intro: flags_ok)
  ultimately have "event_del env (b1\<lparr>sig_frame := None\<rparr>) ev = None"
    using b1(4) by (simp add: event_del_def event_del_internal_def evutil_assert_def)
  then show ?thesis using cl b1(7) by auto
qed

definition signal_event :: event where
  "signal_event = blank_event\<lparr>min_heap_idx := -1, ev_fd := 10, ev_base := True, ev_events := 0x18, ev_flags := 0x80,
     ev_ncalls := 2, ev_closure := EV_CLOSURE_SIGNAL\<rparr>"

theorem deleted_signal_event_dangles_witness:
  "\<exists>b b'. event_signal_closure (sample_env 0)
       \<lparr>user = (\<lambda>u fd res c. map_option fst (event_del (sample_env 0) c 4)), deferred = (\<lambda>_. Some), dispatch = (\<lambda>b _. Some (b, 0))\<rparr>
       b 4 = Some b' \<and> event_del (sample_env 0) b' 4 = None"
proof -
  have "base_inv (upd_event fresh_base 4 (\<lambda>_. signal_event))"
    by (rule inv_static [OF reachable_inv [OF fresh_reachable] base_ok_idle])
      (use reachable_inv [OF fresh_reachable] in \<open>simp_all add: base_inv_def signal_event_def sample_defs flags_valid_def nactivequeues_def\<close>)
  from deleted_signal_event_dangles [OF sample_env_good this, of 0 4 0
      "\<lparr>user = (\<lambda>u fd res c. map_option fst (event_del (sample_env 0) c 4)), deferred = (\<lambda>_. Some), dispatch = (\<lambda>b _. Some (b, 0))\<rparr>"]
  show ?thesis by (simp add: signal_event_def blank_event_def) blast
qed

section \<open>Priorities\<close>

text \<open>
  Nothing stops a program from asking for fewer priorities while an event has a higher one;
  activating the event then indexes the array of active queues past its end.
\<close>

lemma fewer_priorities:
  assumes "N_ACTIVE_CALLBACKS b = 0" "alloc env (16 * nat n)" "1 \<le> n" "n < 256" "n \<le> int (ev_pri (evs b ev))"
    and "ev_pri (evs b ev) < nactivequeues b" "\<not> is_act (evs b ev)" "ev_base (evs b ev)"
  shows "event_active (fst (event_base_priority_init env b n)) ev res k = None"
  using assms
  by (simp add: event_base_priority_init_def event_active_def event_active_nolock_def event_queue_insert_active_def
      queue_join_def has_flags active_queue_def nactivequeues_def upd_event_def Let_def mult.commute)

end
