(* ===== verification/EvdnsCodec.thy ===== *)
theory EvdnsCodec
  imports EvChar "HOL-Library.Monad_Syntax"
begin

text \<open>
  \<open>evdns.c\<close>: DNS packets. Names are parsed out of a packet and turned into labels, with the table
  that compresses them; requests are built, replies and requests parsed, and a server's response
  formatted. A packet is the memory it lies in and the number of bytes received; a read or write
  outside the memory is \<open>None\<close>. A string is the list of its bytes without the final zero, and the
  length that is passed beside a name is always its length.
\<close>

section \<open>Reading a packet\<close>

text \<open>\<open>GET8\<close>, \<open>GET16\<close> and \<open>GET32\<close>: \<open>None\<close> goes to the label \<open>err\<close>.\<close>

definition be16 :: "u16 \<Rightarrow> bytes" where
  "be16 x = [hi8 x, lo8 x]"

definition be32 :: "u32 \<Rightarrow> bytes" where
  "be32 x = be16 (ucast (drop_bit 16 x)) @ be16 (ucast x)"

definition GET8 :: "bytes \<Rightarrow> nat \<Rightarrow> nat \<Rightarrow> (u8 \<times> nat) option" where
  "GET8 p n j = (if n \<le> j then None else Some (p ! j, j + 1))"

definition GET16 :: "bytes \<Rightarrow> nat \<Rightarrow> nat \<Rightarrow> (u16 \<times> nat) option" where
  "GET16 p n j = (if n < j + 2 then None else Some (le16 (p ! (j + 1)) (p ! j), j + 2))"

definition GET32 :: "bytes \<Rightarrow> nat \<Rightarrow> nat \<Rightarrow> (u32 \<times> nat) option" where
  "GET32 p n j =
     (if n < j + 4 then None
      else Some (push_bit 16 (ucast (le16 (p ! (j + 1)) (p ! j))) OR ucast (le16 (p ! (j + 3)) (p ! (j + 2))), j + 4))"

text \<open>
  \<open>name_parse\<close>: the loop has read \<open>out\<close>, jumped \<open>pc\<close> times and first jumped at \<open>ne\<close>. The inner
  \<open>None\<close> is the error -1; a label is copied without a look at the end of the packet.
\<close>

function name_loop ::
  "bytes \<Rightarrow> nat \<Rightarrow> nat \<Rightarrow> nat \<Rightarrow> nat \<Rightarrow> nat option \<Rightarrow> bytes \<Rightarrow> (bytes \<times> nat) option option" where
  "name_loop p n out_len j pc ne out =
     (case GET8 p n j of
        None \<Rightarrow> Some None
      | Some (label_len, j1) \<Rightarrow>
          if label_len = 0 then
            Some (if out_len \<le> length out then None else Some (out, case ne of None \<Rightarrow> j1 | Some e \<Rightarrow> e))
          else if label_len AND 0xc0 \<noteq> 0 then
            (case GET8 p n j1 of
               None \<Rightarrow> Some None
             | Some (ptr_low, j2) \<Rightarrow>
                 let ne = (case ne of None \<Rightarrow> Some j2 | Some e \<Rightarrow> Some e);
                     j3 = unat (label_len AND 0x3f) * 256 + unat ptr_low
                 in if n \<le> j3 \<or> n < pc + 1 then Some None else name_loop p n out_len j3 (pc + 1) ne out)
          else if unat label_len > 63 then Some None
          else
            let dot = (if out = [] then [] else [46]); k = unat label_len
            in if out \<noteq> [] \<and> out_len \<le> length out + 1 then Some None
               else if out_len \<le> length (out @ dot) + k then Some None
               else do {
                 lab \<leftarrow> mem_read p j1 k;
                 name_loop p n out_len (j1 + k) pc ne (out @ dot @ lab)
               })"
  by pat_completeness auto

termination
  by (relation "measures [\<lambda>(p, n, out_len, j, pc, ne, out). n + 1 - pc, \<lambda>(p, n, out_len, j, pc, ne, out). n - j]")
    (auto simp: GET8_def split: if_splits)

declare name_loop.simps [simp del]

definition name_parse :: "bytes \<Rightarrow> nat \<Rightarrow> nat \<Rightarrow> nat \<Rightarrow> (bytes \<times> nat) option option" where
  "name_parse p n idx out_len = name_loop p n out_len idx 0 None []"

section \<open>Writing names\<close>

type_synonym dnslabel_table = "(bytes \<times> nat) list"

abbreviation MAX_LABELS :: nat where "MAX_LABELS \<equiv> 128"

fun dnslabel_table_get_pos :: "dnslabel_table \<Rightarrow> bytes \<Rightarrow> int" where
  "dnslabel_table_get_pos [] label = -1"
| "dnslabel_table_get_pos ((v, pos) # table) label = (if label = v then int pos else dnslabel_table_get_pos table label)"

definition dnslabel_table_add :: "(nat \<Rightarrow> bool) \<Rightarrow> dnslabel_table \<Rightarrow> bytes \<Rightarrow> nat \<Rightarrow> dnslabel_table \<times> int" where
  "dnslabel_table_add alloc table label pos =
     (if length table = MAX_LABELS then (table, -1)
      else if \<not> alloc (length label + 1) then (table, -1)
      else (table @ [(label, pos)], 0))"

text \<open>
  \<open>APPEND16\<close> and \<open>APPEND32\<close>, a row of them: the writes stop at the first that does not fit
  (\<open>False\<close>, the label \<open>overflow\<close>).
\<close>

fun append_words :: "nat \<Rightarrow> bytes \<Rightarrow> nat \<Rightarrow> bytes list \<Rightarrow> (bytes \<times> nat \<times> bool) option" where
  "append_words buf_len buf j [] = Some (buf, j, True)"
| "append_words buf_len buf j (w # ws) =
     (if buf_len < j + length w then Some (buf, j, False)
      else do {
        buf' \<leftarrow> mem_write buf j w;
        append_words buf_len buf' (j + length w) ws
      })"

text \<open>
  \<open>dnsname_to_labels\<close>: the buffer, the index after the name or a negative error, and the table.
\<close>

definition end_labels :: "bytes \<Rightarrow> nat \<Rightarrow> dnslabel_table option \<Rightarrow> (bytes \<times> int \<times> dnslabel_table option) option" where
  "end_labels buf j table =
     (if j = 0 \<or> buf ! (j - 1) \<noteq> 0 then do { buf' \<leftarrow> mem_write buf j [0]; Some (buf', int (j + 1), table) }
      else Some (buf, int j, table))"

lemma dropWhile_shorter: "dropWhile P xs = y # ys \<Longrightarrow> length ys < length xs"
  by (metis Suc_le_lessD length_Cons length_dropWhile_le)

function labels_loop ::
  "(nat \<Rightarrow> bool) \<Rightarrow> nat \<Rightarrow> bytes \<Rightarrow> nat \<Rightarrow> bytes \<Rightarrow> dnslabel_table option \<Rightarrow>
     (bytes \<times> int \<times> dnslabel_table option) option" where
  "labels_loop alloc buf_len buf j name table =
     (let ref = (case table of None \<Rightarrow> -1 | Some t \<Rightarrow> dnslabel_table_get_pos t name)
      in if ref \<ge> 0 then do {
           (buf', j', ok) \<leftarrow> append_words buf_len buf j [be16 (word_of_int ref OR 0xc000)];
           Some (buf', if ok then int j' else -2, table)
         } else
           let label = takeWhile (\<lambda>c. c \<noteq> 46) name; rest = dropWhile (\<lambda>c. c \<noteq> 46) name; k = length label
           in if k > 63 then Some (buf, -1, table)
              else if j + k + 1 > buf_len then Some (buf, -2, table)
              else do {
                let table' = map_option (\<lambda>t. fst (dnslabel_table_add alloc t name j)) table;
                buf' \<leftarrow> mem_write buf j (word_of_nat k # label);
                case rest of
                  [] \<Rightarrow> end_labels buf' (j + k + 1) table'
                | _ # name' \<Rightarrow> labels_loop alloc buf_len buf' (j + k + 1) name' table'
              })"
  by pat_completeness auto

termination
  by (relation "measure (\<lambda>(alloc, buf_len, buf, j, name, table). length name)") (auto dest: dropWhile_shorter [OF sym])

declare labels_loop.simps [simp del]

definition dnsname_to_labels ::
  "(nat \<Rightarrow> bool) \<Rightarrow> bytes \<Rightarrow> nat \<Rightarrow> nat \<Rightarrow> bytes \<Rightarrow> dnslabel_table option \<Rightarrow>
     (bytes \<times> int \<times> dnslabel_table option) option" where
  "dnsname_to_labels alloc buf buf_len j name table =
     (if length name > 255 then Some (buf, -2, table) else labels_loop alloc buf_len buf j name table)"

definition evdns_request_len :: "nat \<Rightarrow> nat" where
  "evdns_request_len name_len = 96 + name_len + 2 + 4"

text \<open>\<open>evdns_request_data_build\<close>: the length used, or a negative error.\<close>

definition evdns_request_data_build ::
  "(nat \<Rightarrow> bool) \<Rightarrow> bytes \<Rightarrow> u16 \<Rightarrow> u16 \<Rightarrow> u16 \<Rightarrow> bytes \<Rightarrow> nat \<Rightarrow> (bytes \<times> int) option" where
  "evdns_request_data_build alloc name trans_id ty class buf buf_len = do {
     (buf, j, ok) \<leftarrow> append_words buf_len buf 0 (map be16 [trans_id, 0x0100, 1, 0, 0, 0]);
     if \<not> ok then Some (buf, -1) else do {
       (buf, r, _) \<leftarrow> dnsname_to_labels alloc buf buf_len j name None;
       if r < 0 then Some (buf, r) else do {
         (buf, j, ok) \<leftarrow> append_words buf_len buf (nat r) (map be16 [ty, class]);
         Some (buf, if ok then int j else -1)
       }
     }
   }"

end
