(* ===== verification/EvdnsPacket.thy ===== *)
theory EvdnsPacket
  imports EvdnsCodec
begin

text \<open>
  \<open>evdns.c\<close>: replies from a nameserver, requests to a server port, and the response to them.
  What a parser hands on is its value: the call of \<open>reply_handle\<close> or of the user's callback.
  \<open>HOST_NAME_MAX\<close> is what \<open>evdns.c\<close> sets it to where the system does not define it.
\<close>

abbreviation TYPE_A :: u16 where "TYPE_A \<equiv> 1"
abbreviation TYPE_CNAME :: u16 where "TYPE_CNAME \<equiv> 5"
abbreviation TYPE_SOA :: u16 where "TYPE_SOA \<equiv> 6"
abbreviation TYPE_PTR :: u16 where "TYPE_PTR \<equiv> 12"
abbreviation TYPE_AAAA :: u16 where "TYPE_AAAA \<equiv> 28"
abbreviation CLASS_INET :: u16 where "CLASS_INET \<equiv> 1"
abbreviation MAX_ADDRS :: nat where "MAX_ADDRS \<equiv> 32"
abbreviation HOST_NAME_MAX :: nat where "HOST_NAME_MAX \<equiv> 255"

text \<open>One read after another: the inner \<open>None\<close> ends in \<open>err\<close>.\<close>

definition ok_then :: "'a option option \<Rightarrow> ('a \<Rightarrow> 'b option option) \<Rightarrow> 'b option option" where
  "ok_then x f = (case x of None \<Rightarrow> None | Some None \<Rightarrow> Some None | Some (Some a) \<Rightarrow> f a)"

definition c_string :: "bytes \<Rightarrow> bytes" where
  "c_string s = takeWhile (\<lambda>c. c \<noteq> 0) s"

section \<open>Replies\<close>

record dns_request =
  rq_request :: bytes
  rq_len :: nat
  rq_type :: u16

text \<open>\<open>put_cname_in_ptr\<close>: whether there is a place for a canonical name, and whether it is taken.\<close>

record dns_reply =
  rp_have_answer :: bool
  rp_addrs :: "bytes list"
  rp_ptr :: bytes
  rp_ttl :: u32
  rp_cname_wanted :: bool
  rp_cname :: "bytes option"

definition min_ttl :: "dns_reply \<Rightarrow> u32 \<Rightarrow> dns_reply" where
  "min_ttl rp ttl = rp\<lparr>rp_ttl := (if rp_ttl rp < ttl then rp_ttl rp else ttl)\<rparr>"

text \<open>The questions: each must parse, and one has to be the name that was asked for.\<close>

primrec question_loop ::
  "bool \<Rightarrow> dns_request \<Rightarrow> bytes \<Rightarrow> nat \<Rightarrow> nat \<Rightarrow> nat \<Rightarrow> bool \<Rightarrow> (nat \<times> bool) option option" where
  "question_loop rand rq p n 0 j name_matches = Some (Some (j, name_matches))"
| "question_loop rand rq p n (Suc i) j name_matches =
     ok_then (name_parse p n j 256) (\<lambda>(tmp_name, j1).
     ok_then (name_parse (rq_request rq) (rq_len rq) j 256) (\<lambda>(cmp_name, _).
       let same = (if rand then c_string tmp_name = c_string cmp_name
                   else ascii_strcasecmp (c_string tmp_name) (c_string cmp_name) = 0);
           j2 = j1 + 4
       in if n < j2 then Some None else question_loop rand rq p n i j2 (name_matches \<or> same)))"

text \<open>The fixed part of a record.\<close>

definition rr_header :: "bytes \<Rightarrow> nat \<Rightarrow> nat \<Rightarrow> (u16 \<times> u16 \<times> u32 \<times> nat \<times> nat) option" where
  "rr_header p n j = do {
     (ty, j) \<leftarrow> GET16 p n j;
     (class, j) \<leftarrow> GET16 p n j;
     (ttl, j) \<leftarrow> GET32 p n j;
     (datalength, j) \<leftarrow> GET16 p n j;
     Some (ty, class, ttl, unat datalength, j)
   }"

text \<open>Addresses of \<open>w\<close> bytes; as many as the reply has room for.\<close>

definition take_addrs :: "nat \<Rightarrow> bytes \<Rightarrow> nat \<Rightarrow> nat \<Rightarrow> nat \<Rightarrow> dns_reply \<Rightarrow> (dns_reply \<times> nat) option option" where
  "take_addrs w p n j datalength rp =
     (if datalength mod w \<noteq> 0 then Some None
      else let k = min (MAX_ADDRS - length (rp_addrs rp)) (datalength div w)
           in if n < j + w * k then Some None
              else do {
                bs \<leftarrow> mem_read p j (w * k);
                Some (Some (rp\<lparr>rp_addrs := rp_addrs rp @ map (\<lambda>i. take w (drop (w * i) bs)) [0..<k],
                               rp_have_answer := True\<rparr>, j + w * k))
              })"

text \<open>An answer: the reply, the place after it and whether to go on.\<close>

definition one_answer :: "(nat \<Rightarrow> bool) \<Rightarrow> dns_request \<Rightarrow> bytes \<Rightarrow> nat \<Rightarrow> nat \<Rightarrow> dns_reply \<Rightarrow> (dns_reply \<times> nat \<times> bool) option option" where
  "one_answer al rq p n j rp =
     ok_then (name_parse p n j 256) (\<lambda>(_, j).
     ok_then (Some (rr_header p n j)) (\<lambda>(ty, class, ttl, datalength, j).
       if ty = TYPE_A \<and> class = CLASS_INET then
         if rq_type rq \<noteq> TYPE_A then Some (Some (rp, j + datalength, True))
         else ok_then (take_addrs 4 p n j datalength (min_ttl rp ttl)) (\<lambda>(rp, j).
                Some (Some (rp, j, length (rp_addrs rp) \<noteq> MAX_ADDRS)))
       else if ty = TYPE_PTR \<and> class = CLASS_INET then
         if rq_type rq \<noteq> TYPE_PTR then Some (Some (rp, j + datalength, True))
         else ok_then (name_parse p n j HOST_NAME_MAX) (\<lambda>(name, j).
                Some (Some ((min_ttl rp ttl)\<lparr>rp_ptr := name, rp_have_answer := True\<rparr>, j, False)))
       else if ty = TYPE_CNAME then
         if \<not> rp_cname_wanted rp \<or> rp_cname rp \<noteq> None then Some (Some (rp, j + datalength, True))
         else ok_then (name_parse p n j HOST_NAME_MAX) (\<lambda>(cname, j).
                Some (Some (if al (length (c_string cname) + 1) then rp\<lparr>rp_cname := Some (c_string cname)\<rparr> else rp, j, True)))
       else if ty = TYPE_AAAA \<and> class = CLASS_INET then
         if rq_type rq \<noteq> TYPE_AAAA then Some (Some (rp, j + datalength, True))
         else ok_then (take_addrs 16 p n j datalength (min_ttl rp ttl)) (\<lambda>(rp, j).
                Some (Some (rp, j, length (rp_addrs rp) \<noteq> MAX_ADDRS)))
       else Some (Some (rp, j + datalength, True))))"

text \<open>
  All of them. An error keeps the canonical name an earlier answer gave, which is written
  through a pointer of the request.
\<close>

primrec answer_loop ::
  "(nat \<Rightarrow> bool) \<Rightarrow> dns_request \<Rightarrow> bytes \<Rightarrow> nat \<Rightarrow> nat \<Rightarrow> nat \<Rightarrow> dns_reply \<Rightarrow> (bytes option + dns_reply \<times> nat) option" where
  "answer_loop al rq p n 0 j rp = Some (Inr (rp, j))"
| "answer_loop al rq p n (Suc i) j rp =
     (case one_answer al rq p n j rp of
        None \<Rightarrow> None
      | Some None \<Rightarrow> Some (Inl (rp_cname rp))
      | Some (Some (rp, j, go)) \<Rightarrow> if go then answer_loop al rq p n i j rp else Some (Inr (rp, j)))"

text \<open>The authority section, for the lifetime of a negative answer.\<close>

primrec authority_loop :: "bytes \<Rightarrow> nat \<Rightarrow> nat \<Rightarrow> nat \<Rightarrow> dns_reply \<Rightarrow> dns_reply option option" where
  "authority_loop p n 0 j rp = Some (Some rp)"
| "authority_loop p n (Suc i) j rp =
     ok_then (name_parse p n j 256) (\<lambda>(_, j).
     ok_then (Some (rr_header p n j)) (\<lambda>(ty, class, ttl, datalength, j).
       if ty = TYPE_SOA \<and> class = CLASS_INET then
         ok_then (name_parse p n j 256) (\<lambda>(_, j).
         ok_then (name_parse p n j 256) (\<lambda>(_, j).
         ok_then (Some (do {
           (_, j) \<leftarrow> GET32 p n j; (_, j) \<leftarrow> GET32 p n j; (_, j) \<leftarrow> GET32 p n j; (_, j) \<leftarrow> GET32 p n j;
           GET32 p n j })) (\<lambda>(minimum, j).
           authority_loop p n i j (min_ttl (min_ttl rp ttl) minimum))))
       else authority_loop p n i (j + datalength) rp))"

text \<open>
  What \<open>reply_parse\<close> does: nothing, or \<open>reply_handle\<close> with an error or with the reply. The
  request is the one found for the transaction. An error comes with the canonical name that was
  written before it.
\<close>

datatype reply_outcome = No_reply | Reply_failed u16 "bytes option" | Reply_ok u16 dns_reply

definition reply_body ::
  "(nat \<Rightarrow> bool) \<Rightarrow> bool \<Rightarrow> dns_request \<Rightarrow> bool \<Rightarrow> bytes \<Rightarrow> nat \<Rightarrow> nat \<Rightarrow> nat \<Rightarrow> nat \<Rightarrow> nat \<Rightarrow>
     (bytes option + dns_reply) option" where
  "reply_body al rand rq cname_wanted p n j questions answers authority =
     (case question_loop rand rq p n questions j False of
        None \<Rightarrow> None
      | Some None \<Rightarrow> Some (Inl None)
      | Some (Some (j, name_matches)) \<Rightarrow>
          if \<not> name_matches then Some (Inl None)
          else (case answer_loop al rq p n answers j
                  \<lparr>rp_have_answer = False, rp_addrs = [], rp_ptr = [], rp_ttl = 0xffffffff,
                   rp_cname_wanted = cname_wanted, rp_cname = None\<rparr> of
                  None \<Rightarrow> None
                | Some (Inl cname) \<Rightarrow> Some (Inl cname)
                | Some (Inr (rp, j)) \<Rightarrow>
                    (case (if rp_have_answer rp then Some (Some rp) else authority_loop p n authority j rp) of
                       None \<Rightarrow> None
                     | Some None \<Rightarrow> Some (Inl (rp_cname rp))
                     | Some (Some rp) \<Rightarrow> Some (Inr (if rp_ttl rp = 0xffffffff then rp\<lparr>rp_ttl := 0\<rparr> else rp)))))"

definition reply_parse ::
  "(nat \<Rightarrow> bool) \<Rightarrow> bool \<Rightarrow> (u16 \<Rightarrow> (dns_request \<times> bool) option) \<Rightarrow> bytes \<Rightarrow> nat \<Rightarrow> reply_outcome option" where
  "reply_parse al rand requests p n =
     (case (do {
        (trans_id, j) \<leftarrow> GET16 p n 0; (flags, j) \<leftarrow> GET16 p n j; (questions, j) \<leftarrow> GET16 p n j;
        (answers, j) \<leftarrow> GET16 p n j; (authority, j) \<leftarrow> GET16 p n j; (additional, j) \<leftarrow> GET16 p n j;
        rq \<leftarrow> requests trans_id;
        Some (rq, flags, questions, answers, authority, j) }) of
        None \<Rightarrow> Some No_reply
      | Some ((rq, cname_wanted), flags, questions, answers, authority, j) \<Rightarrow>
          if flags AND 0x8000 = 0 then Some No_reply
          else if flags AND 0x020f \<noteq> 0 \<and> flags AND 0x020f \<noteq> 3 then Some (Reply_failed flags None)
          else (case reply_body al rand rq cname_wanted p n j (unat questions) (unat answers) (unat authority) of
                  None \<Rightarrow> None
                | Some (Inl cname) \<Rightarrow> Some (Reply_failed flags cname)
                | Some (Inr rp) \<Rightarrow> Some (Reply_ok flags rp)))"

section \<open>The server\<close>

record dns_question =
  q_name :: bytes
  q_type :: u16
  q_class :: u16

text \<open>\<open>ri_data\<close>: \<open>None\<close> is a null pointer.\<close>

record reply_item =
  ri_name :: bytes
  ri_type :: u16
  ri_class :: u16
  ri_ttl :: u32
  ri_is_name :: bool
  ri_datalen :: u16
  ri_data :: "bytes option"

record server_request =
  sr_trans_id :: u16
  sr_flags :: u16
  sr_questions :: "dns_question list"
  sr_answer :: "reply_item list"
  sr_authority :: "reply_item list"
  sr_additional :: "reply_item list"
  sr_response :: "bytes option"

primrec request_questions ::
  "(nat \<Rightarrow> bool) \<Rightarrow> bytes \<Rightarrow> nat \<Rightarrow> nat \<Rightarrow> nat \<Rightarrow> dns_question list \<Rightarrow> dns_question list option option" where
  "request_questions al p n 0 j qs = Some (Some qs)"
| "request_questions al p n (Suc i) j qs =
     ok_then (name_parse p n j 256) (\<lambda>(tmp_name, j).
     ok_then (Some (do { (ty, j) \<leftarrow> GET16 p n j; (class, j) \<leftarrow> GET16 p n j; Some (ty, class, j) })) (\<lambda>(ty, class, j).
       let name = c_string tmp_name
       in if \<not> al (16 + length name) then Some None
          else request_questions al p n i j (qs @ [\<lparr>q_name = name, q_type = ty, q_class = class\<rparr>])))"

text \<open>
  \<open>request_parse\<close>: a request is dropped, answered at once with an error code, or passed to the
  user's callback.
\<close>

datatype request_outcome = Request_dropped | Request_refused int server_request | Request_passed server_request

definition request_parse :: "(nat \<Rightarrow> bool) \<Rightarrow> bytes \<Rightarrow> nat \<Rightarrow> request_outcome option" where
  "request_parse al p n =
     (case (do {
        (trans_id, j) \<leftarrow> GET16 p n 0; (flags, j) \<leftarrow> GET16 p n j; (questions, j) \<leftarrow> GET16 p n j;
        (answers, j) \<leftarrow> GET16 p n j; (authority, j) \<leftarrow> GET16 p n j; (additional, j) \<leftarrow> GET16 p n j;
        Some (trans_id, flags, questions, j) }) of
        None \<Rightarrow> Some Request_dropped
      | Some (trans_id, flags0, questions, j) \<Rightarrow>
          if flags0 AND 0x8000 \<noteq> 0 then Some Request_dropped
          else
            let flags = flags0 AND 0x0110
            in if \<not> al 328 \<or> \<not> al (8 * unat questions) then Some Request_dropped
               else (case request_questions al p n (unat questions) j [] of
                       None \<Rightarrow> None
                     | Some None \<Rightarrow> Some Request_dropped
                     | Some (Some qs) \<Rightarrow>
                         let req = \<lparr>sr_trans_id = trans_id, sr_flags = flags, sr_questions = qs, sr_answer = [],
                                    sr_authority = [], sr_additional = [], sr_response = None\<rparr>
                         in Some (if flags AND 0x7800 \<noteq> 0 then Request_refused 4 req else Request_passed req)))"

text \<open>
  \<open>evdns_server_request_add_reply\<close> and its callers. The address of a pointer record is given in host
  order, as \<open>ntohl\<close> has it.
\<close>

definition evdns_server_request_add_reply ::
  "(nat \<Rightarrow> bool) \<Rightarrow> server_request \<Rightarrow> int \<Rightarrow> bytes \<Rightarrow> u16 \<Rightarrow> u16 \<Rightarrow> u32 \<Rightarrow> int \<Rightarrow> bool \<Rightarrow> bytes option \<Rightarrow>
     server_request \<times> int" where
  "evdns_server_request_add_reply al req sec name ty class ttl datalen is_name data =
     (if sr_response req \<noteq> None \<or> sec \<notin> {0, 1, 2} then (req, -1)
      else if \<not> al 48 \<or> \<not> al (length name + 1) then (req, -1)
      else
        let item = \<lparr>ri_name = name, ri_type = ty, ri_class = class, ri_ttl = ttl, ri_is_name = is_name,
                    ri_datalen = (case data of None \<Rightarrow> 0 | Some d \<Rightarrow> if is_name then 0xffff else word_of_int datalen),
                    ri_data = data\<rparr>;
            size = (case data of None \<Rightarrow> 0 | Some d \<Rightarrow> if is_name then length d + 1 else nat datalen)
        in if data \<noteq> None \<and> \<not> al size then (req, -1)
           else (if sec = 0 then req\<lparr>sr_answer := sr_answer req @ [item]\<rparr>
                 else if sec = 1 then req\<lparr>sr_authority := sr_authority req @ [item]\<rparr>
                 else req\<lparr>sr_additional := sr_additional req @ [item]\<rparr>, 0))"

definition evdns_server_request_add_a_reply ::
  "(nat \<Rightarrow> bool) \<Rightarrow> server_request \<Rightarrow> bytes \<Rightarrow> int \<Rightarrow> bytes option \<Rightarrow> u32 \<Rightarrow> server_request \<times> int" where
  "evdns_server_request_add_a_reply al req name n addrs ttl =
     evdns_server_request_add_reply al req 0 name TYPE_A CLASS_INET ttl (n * 4) False addrs"

definition evdns_server_request_add_aaaa_reply ::
  "(nat \<Rightarrow> bool) \<Rightarrow> server_request \<Rightarrow> bytes \<Rightarrow> int \<Rightarrow> bytes option \<Rightarrow> u32 \<Rightarrow> server_request \<times> int" where
  "evdns_server_request_add_aaaa_reply al req name n addrs ttl =
     evdns_server_request_add_reply al req 0 name TYPE_AAAA CLASS_INET ttl (n * 16) False addrs"

definition evdns_server_request_add_ptr_reply ::
  "(nat \<Rightarrow> bool) \<Rightarrow> server_request \<Rightarrow> u32 option \<Rightarrow> bytes option \<Rightarrow> bytes option \<Rightarrow> u32 \<Rightarrow> server_request \<times> int" where
  "evdns_server_request_add_ptr_reply al req addr inaddr_name hostname ttl =
     (case (addr, inaddr_name) of
        (None, None) \<Rightarrow> (req, -1)
      | (Some _, Some _) \<Rightarrow> (req, -1)
      | (Some a, None) \<Rightarrow>
          evdns_server_request_add_reply al req 0
            (concat (map (\<lambda>s. dec (unat (drop_bit s a AND 0xff)) @ [46]) [0, 8, 16, 24]) @ bytes_of ''in-addr.arpa'')
            TYPE_PTR CLASS_INET ttl (-1) True hostname
      | (None, Some name) \<Rightarrow> evdns_server_request_add_reply al req 0 name TYPE_PTR CLASS_INET ttl (-1) True hostname)"

definition evdns_server_request_add_cname_reply ::
  "(nat \<Rightarrow> bool) \<Rightarrow> server_request \<Rightarrow> bytes \<Rightarrow> bytes option \<Rightarrow> u32 \<Rightarrow> server_request \<times> int" where
  "evdns_server_request_add_cname_reply al req name cname ttl =
     evdns_server_request_add_reply al req 0 name TYPE_CNAME CLASS_INET ttl (-1) True cname"

definition evdns_server_request_set_flags :: "server_request \<Rightarrow> u16 \<Rightarrow> server_request" where
  "evdns_server_request_set_flags req flags =
     req\<lparr>sr_flags := (sr_flags req AND NOT (0x400 OR 0x080)) OR flags\<rparr>"

text \<open>
  \<open>evdns_server_request_format_response\<close>: the buffer is on the stack and not initialised, its
  bytes are given. A part that does not fit, or a name that has no labels, ends the packet.
\<close>

fun format_questions ::
  "(nat \<Rightarrow> bool) \<Rightarrow> bytes \<Rightarrow> nat \<Rightarrow> dnslabel_table \<Rightarrow> dns_question list \<Rightarrow>
     (bytes \<times> int \<times> dnslabel_table \<times> bool) option" where
  "format_questions al buf j table [] = Some (buf, int j, table, True)"
| "format_questions al buf j table (q # qs) = do {
     (buf, r, t) \<leftarrow> dnsname_to_labels al buf 1500 j (q_name q) (Some table);
     if r < 0 then Some (buf, r, the t, False) else do {
       (buf, j, ok) \<leftarrow> append_words 1500 buf (nat r) (map be16 [q_type q, q_class q]);
       if ok then format_questions al buf j (the t) qs else Some (buf, 512, the t, False)
     }
   }"

text \<open>The data of an item: a name behind its length, or bytes; \<open>False\<close> is \<open>overflow\<close>.\<close>

definition format_data ::
  "(nat \<Rightarrow> bool) \<Rightarrow> bytes \<Rightarrow> nat \<Rightarrow> dnslabel_table \<Rightarrow> reply_item \<Rightarrow>
     (bytes \<times> nat \<times> dnslabel_table \<times> bool) option" where
  "format_data al buf j table item =
     (if ri_is_name item then do {
        d \<leftarrow> ri_data item;
        (buf, r, t) \<leftarrow> dnsname_to_labels al buf 1500 (j + 2) d (Some table);
        if r < 0 then Some (buf, j + 2, the t, False) else do {
          buf \<leftarrow> mem_write buf j (be16 (word_of_int (r - int (j + 2))));
          Some (buf, nat r, the t, True)
        }
      } else do {
        (buf, j, ok) \<leftarrow> append_words 1500 buf j [be16 (ri_datalen item)];
        if \<not> ok \<or> 1500 < j + unat (ri_datalen item) then Some (buf, j, table, False)
        else do {
          bs \<leftarrow> (case ri_data item of None \<Rightarrow> Some [] | Some d \<Rightarrow> mem_read d 0 (unat (ri_datalen item)));
          buf \<leftarrow> mem_write buf j bs;
          Some (buf, j + unat (ri_datalen item), table, True)
        }
      })"

fun format_items ::
  "(nat \<Rightarrow> bool) \<Rightarrow> bytes \<Rightarrow> nat \<Rightarrow> dnslabel_table \<Rightarrow> reply_item list \<Rightarrow> (bytes \<times> nat \<times> bool) option" where
  "format_items al buf j table [] = Some (buf, j, True)"
| "format_items al buf j table (item # items) = do {
     (buf, r, t) \<leftarrow> dnsname_to_labels al buf 1500 j (ri_name item) (Some table);
     if r < 0 then Some (buf, j, False) else do {
       (buf, j, ok) \<leftarrow> append_words 1500 buf (nat r) [be16 (ri_type item), be16 (ri_class item), be32 (ri_ttl item)];
       if \<not> ok then Some (buf, j, False) else do {
         (buf, j, t', ok) \<leftarrow> format_data al buf j (the t) item;
         if ok then format_items al buf j t' items else Some (buf, j, False)
       }
     }
   }"

text \<open>What is kept of the buffer: all of it up to 512 bytes, or 512 bytes with the truncated bit.\<close>

definition finish_response :: "(nat \<Rightarrow> bool) \<Rightarrow> server_request \<Rightarrow> bytes \<Rightarrow> nat \<Rightarrow> bool \<Rightarrow> server_request \<times> int" where
  "finish_response al req buf j ok =
     (let cut = \<not> ok \<or> 512 < j; len = (if cut then 512 else j);
          buf = (if cut then buf[2 := buf ! 2 OR 0x02] else buf);
          req = req\<lparr>sr_answer := [], sr_authority := [], sr_additional := []\<rparr>
      in if \<not> al len then (req, -1) else (req\<lparr>sr_response := Some (take len buf)\<rparr>, 0))"

definition evdns_server_request_format_response ::
  "(nat \<Rightarrow> bool) \<Rightarrow> bytes \<Rightarrow> server_request \<Rightarrow> int \<Rightarrow> (server_request \<times> int) option" where
  "evdns_server_request_format_response al stack req err =
     (if err < 0 \<or> 15 < err then Some (req, -1)
      else do {
        let flags = sr_flags req OR 0x8000 OR word_of_int err;
        (buf, j, ok) \<leftarrow> append_words 1500 stack 0 (map be16 [sr_trans_id req, flags,
           word_of_nat (length (sr_questions req)), word_of_nat (length (sr_answer req)),
           word_of_nat (length (sr_authority req)), word_of_nat (length (sr_additional req))]);
        (buf, r, t, ok) \<leftarrow> format_questions al buf j [] (sr_questions req);
        if r < 0 then Some (req, r)
        else if \<not> ok then Some (finish_response al req buf 512 False)
        else do {
          (buf, j, ok) \<leftarrow> format_items al buf (nat r) t (sr_answer req @ sr_authority req @ sr_additional req);
          Some (finish_response al req buf j ok)
        }
      })"

end
