(* ===== verification/EvdnsProofs.thy ===== *)
theory EvdnsProofs
  imports EvdnsPacket
begin

text \<open>
  Names in packets: what it means that a packet holds a name at a place, that \<open>name_parse\<close> reads
  it there, and that \<open>dnsname_to_labels\<close> puts it there, with any table of names put before.
\<close>

section \<open>A name in a packet\<close>

text \<open>
  \<open>holds p n j ls e k\<close>: among the first \<open>n\<close> bytes of \<open>p\<close> there are at \<open>j\<close> the labels \<open>ls\<close>, up to
  \<open>e\<close>, by way of \<open>k\<close> pointers.
\<close>

inductive holds :: "bytes \<Rightarrow> nat \<Rightarrow> nat \<Rightarrow> bytes list \<Rightarrow> nat \<Rightarrow> nat \<Rightarrow> bool" for p n where
  root: "j < n \<Longrightarrow> p ! j = 0 \<Longrightarrow> holds p n j [] (j + 1) 0"
| label: "l \<noteq> [] \<Longrightarrow> length l \<le> 63 \<Longrightarrow> j + 1 + length l \<le> n \<Longrightarrow> p ! j = word_of_nat (length l) \<Longrightarrow>
    take (length l) (drop (j + 1) p) = l \<Longrightarrow> holds p n (j + 1 + length l) ls e k \<Longrightarrow> holds p n j (l # ls) e k"
| jump: "j + 2 \<le> n \<Longrightarrow> t < j \<Longrightarrow> t < 0x4000 \<Longrightarrow> p ! j = hi8 (word_of_nat t OR 0xc000) \<Longrightarrow>
    p ! (j + 1) = lo8 (word_of_nat t OR 0xc000) \<Longrightarrow> holds p n t ls e k \<Longrightarrow> holds p n j ls (j + 2) (Suc k)"

fun join :: "bytes list \<Rightarrow> bytes" where
  "join [] = []"
| "join [l] = l"
| "join (l # ls) = l @ 46 # join ls"

definition label_ok :: "bytes \<Rightarrow> bool" where
  "label_ok l \<longleftrightarrow> l \<noteq> [] \<and> length l \<le> 63 \<and> 46 \<notin> set l \<and> 0 \<notin> set l"

text \<open>The text after what has been read.\<close>

definition joined_to :: "bytes \<Rightarrow> bytes list \<Rightarrow> bytes" where
  "joined_to out ls = (if out = [] then join ls else if ls = [] then out else out @ 46 # join ls)"

lemma joined_to_Cons: "l \<noteq> [] \<Longrightarrow> joined_to out (l # ls) = joined_to (out @ (if out = [] then [] else [46]) @ l) ls"
  by (cases ls) (auto simp: joined_to_def)

lemma pointer_bytes:
  assumes "t < 0x4000"
  shows "hi8 (word_of_nat t OR 0xc000 :: u16) AND 0xc0 \<noteq> 0"
    "unat (hi8 (word_of_nat t OR 0xc000 :: u16) AND 0x3f) * 256 + unat (lo8 (word_of_nat t OR 0xc000 :: u16)) = t"
proof -
  define w where "w = (word_of_nat t OR 0xc000 :: u16)"
  have tw: "unat (word_of_nat t :: u16) = t" using assms by (simp add: unsigned_of_nat take_bit_nat_eq_self)
  have "t AND 0xc000 = 0"
  proof -
    have "(0xc000 :: nat) = push_bit 14 3" by simp
    moreover have "take_bit 14 t = t" using assms by (simp add: take_bit_nat_eq_self)
    moreover have "take_bit 14 t AND push_bit 14 3 = 0"
      by (rule bit_eqI) (simp only: bit_and_iff bit_take_bit_iff bit_push_bit_iff_nat bit_0_eq bot_apply, auto)
    ultimately show ?thesis by metis
  qed
  then have w: "unat w = t + 0xc000"
    unfolding w_def unsigned_or_eq tw by (simp add: disjunctive_add_eq_or)
  have h: "unat (hi8 w) = unat w div 256" "unat (lo8 w) = unat w mod 256"
    using unsigned_less [of w, where 'a = nat] unfolding hi8_def lo8_def unsigned_ucast_eq unat_drop_bit_eq
    by (simp_all add: drop_bit_eq_div take_bit_eq_mod)
  have m: "hi8 w AND 0x3f = take_bit 6 (hi8 w)" by (simp add: take_bit_eq_mask mask_eq_exp_minus_1)
  have "unat (hi8 w AND 0x3f) = unat (hi8 w) mod 64" unfolding m unsigned_take_bit_eq by (simp add: take_bit_eq_mod)
  moreover have "(0xc000 :: nat) = 192 * 256" by simp
  then have "(t + 0xc000) mod 256 = t mod 256" by (metis mod_mult_self1)
  moreover have "(t + 0xc000) div 256 = t div 256 + 3 * 64" by simp
  moreover have "(t div 256 + 3 * 64) mod 64 = t div 256" using assms by (simp only: mod_mult_self1) simp
  ultimately show "unat (hi8 (word_of_nat t OR 0xc000 :: u16) AND 0x3f) * 256 + unat (lo8 (word_of_nat t OR 0xc000 :: u16)) = t"
    unfolding w_def [symmetric] h w by simp
  have "bit w 15" by (simp add: w_def bit_simps)
  then have "bit (hi8 w AND 0xc0) 7" by (simp add: hi8_def bit_simps)
  then show "hi8 (word_of_nat t OR 0xc000 :: u16) AND 0xc0 \<noteq> 0" unfolding w_def [symmetric] by (metis bit_0_eq bot_apply bot_bool_def)
qed

lemma take_bit_and_high: "take_bit 6 x AND 0xc0 = 0" for x :: u8
proof -
  have "(0xc0 :: u8) = push_bit 6 3" by simp
  moreover have "take_bit 6 x AND push_bit 6 3 = 0"
    by (rule bit_word_eqI) (simp only: bit_and_iff bit_take_bit_iff bit_push_bit_iff bit_0_eq bot_apply, auto)
  ultimately show ?thesis by metis
qed

lemma label_byte:
  assumes "k \<le> 63"
  shows "(word_of_nat k :: u8) AND 0xc0 = 0" "unat (word_of_nat k :: u8) = k" "0 < k \<Longrightarrow> (word_of_nat k :: u8) \<noteq> 0"
proof -
  show u: "unat (word_of_nat k :: u8) = k" using assms by (simp add: unsigned_of_nat take_bit_nat_eq_self)
  show "0 < k \<Longrightarrow> (word_of_nat k :: u8) \<noteq> 0" using u by (metis less_numeral_extra(3) unsigned_0)
  have "k = take_bit 6 k" using assms by (simp add: take_bit_nat_eq_self)
  then have "(word_of_nat k :: u8) = take_bit 6 (word_of_nat k)" by (metis take_bit_of_nat)
  then show "(word_of_nat k :: u8) AND 0xc0 = 0"
    by (metis take_bit_and_high)
qed

text \<open>\<open>name_parse\<close> reads a name that is there, when it is short enough for the buffer given.\<close>

lemma parse_holds:
  assumes "holds p n j ls e k" "n \<le> length p" "pc + k \<le> n" "length (joined_to out ls) < out_len"
  shows "name_loop p n out_len j pc ne out =
    Some (Some (joined_to out ls, case ne of None \<Rightarrow> e | Some e' \<Rightarrow> e'))"
  using assms
proof (induction arbitrary: pc out ne rule: holds.induct)
  case (root j)
  then show ?case by (subst name_loop.simps) (auto simp: GET8_def joined_to_def split: option.splits)
next
  case (label l j ls e k)
  let ?k = "length l" and ?dot = "if out = [] then [] else [46 :: u8]"
  have b: "p ! j AND 0xc0 = 0" "unat (p ! j) = ?k" "p ! j \<noteq> 0"
    using label_byte [of ?k] label.hyps by simp_all
  have g: "GET8 p n j = Some (p ! j, j + 1)" using label.hyps by (simp add: GET8_def)
  have J: "joined_to out (l # ls) = joined_to (out @ ?dot @ l) ls" using joined_to_Cons [OF label.hyps(1)] .
  have "length (out @ ?dot) + ?k \<le> length (joined_to (out @ ?dot @ l) ls)"
    using label.hyps(1) by (auto simp: joined_to_def)
  then have fit: "length (out @ ?dot) + ?k < out_len" using label.prems(3) J by simp
  have IH: "name_loop p n out_len (j + 1 + ?k) pc ne (out @ ?dot @ l) =
      Some (Some (joined_to (out @ ?dot @ l) ls, case ne of None \<Rightarrow> e | Some e' \<Rightarrow> e'))"
    by (rule label.IH) (use label.prems J in simp_all)
  have m: "mem_read p (j + 1) ?k = Some l" using label.hyps label.prems(1) by (simp add: mem_read_def)
  show ?case
    by (subst name_loop.simps)
      (use b g m fit IH J label.hyps in \<open>auto simp: Let_def\<close>)
next
  case (jump j t ls e k)
  note P = pointer_bytes [OF jump.hyps(3)]
  have g: "GET8 p n j = Some (p ! j, j + 1)" "GET8 p n (j + 1) = Some (p ! (j + 1), j + 2)"
    using jump.hyps by (simp_all add: GET8_def)
  have a: "p ! j AND 0xc0 \<noteq> 0" "unat (p ! j AND 0x3f) * 256 + unat (p ! (j + 1)) = t" "p ! j \<noteq> 0"
    using P jump.hyps by auto
  have IH: "name_loop p n out_len t (pc + 1) (case ne of None \<Rightarrow> Some (j + 2) | Some e \<Rightarrow> Some e) out =
      Some (Some (joined_to out ls, case ne of None \<Rightarrow> j + 2 | Some e' \<Rightarrow> e'))"
    using jump.IH [of "pc + 1" out "case ne of None \<Rightarrow> Some (j + 2) | Some e \<Rightarrow> Some e"] jump.prems
    by (auto split: option.splits)
  show ?case
    by (subst name_loop.simps)
      (use a g IH jump.hyps jump.prems in \<open>cases ne; simp add: Let_def\<close>)
qed

lemma name_parse_holds:
  assumes "holds p n j ls e k" "n \<le> length p" "k \<le> n" "length (join ls) < out_len"
  shows "name_parse p n j out_len = Some (Some (join ls, e))"
  using parse_holds [OF assms(1,2), of 0 "[]" out_len None] assms(3,4) by (simp add: name_parse_def joined_to_def)

text \<open>A name stays where it is when the packet grows.\<close>

lemma holds_extend:
  assumes "holds p n j ls e k" "n \<le> m" "\<And>i. i < n \<Longrightarrow> q ! i = p ! i" "n \<le> length p" "n \<le> length q"
  shows "holds q m j ls e k"
  using assms
proof (induction rule: holds.induct)
  case (root j)
  then show ?case by (intro holds.root) auto
next
  case (label l j ls e k)
  have "take (length l) (drop (j + 1) q) = take (length l) (drop (j + 1) p)"
    using label.hyps(3) label.prems by (intro nth_equalityI) auto
  then show ?case using label by (intro holds.label) auto
next
  case (jump j t ls e k)
  then show ?case by (intro holds.jump [of _ _ t]) auto
qed

section \<open>Putting a name\<close>

text \<open>What a table of names says about the first \<open>n\<close> bytes of a packet.\<close>

definition entry_ok :: "bytes \<Rightarrow> nat \<Rightarrow> nat \<Rightarrow> bytes \<times> nat \<Rightarrow> bool" where
  "entry_ok p n m v \<longleftrightarrow> (\<exists>ls e k. fst v = join ls \<and> holds p n (snd v) ls e k \<and> k \<le> m \<and> snd v < n)"

definition table_ok :: "bytes \<Rightarrow> nat \<Rightarrow> dnslabel_table \<Rightarrow> bool" where
  "table_ok p n T \<longleftrightarrow> (\<forall>v \<in> set T. entry_ok p n (snd v) v)"

lemma same_below: "take n q = take n p \<Longrightarrow> i < n \<Longrightarrow> q ! i = p ! i"
  by (metis nth_take)

lemma entry_ok_extend:
  assumes "entry_ok p n m v" "n \<le> n'" "take n q = take n p" "n \<le> length p" "n \<le> length q"
  shows "entry_ok q n' m v"
proof -
  have "q ! i = p ! i" if "i < n" for i using assms(3) that by (rule same_below)
  then show ?thesis using assms holds_extend [of p n "snd v" _ _ _ n' q] unfolding entry_ok_def by fastforce
qed

lemma holds_nonempty: "holds p n j ls e k \<Longrightarrow> [] \<notin> set ls"
  by (induction rule: holds.induct) auto

lemma join_empty: "[] \<notin> set ls \<Longrightarrow> join ls = [] \<longleftrightarrow> ls = []"
  by (cases ls rule: join.cases) auto

lemma join_Cons: "join (l # ls) = (if ls = [] then l else l @ 46 # join ls)"
  by (cases ls) auto

lemma get_pos_found: "0 \<le> dnslabel_table_get_pos T v \<Longrightarrow> (v, nat (dnslabel_table_get_pos T v)) \<in> set T"
  by (induction T v rule: dnslabel_table_get_pos.induct) (auto split: if_splits)

lemma add_label: "\<exists>S'. fst (dnslabel_table_add al T v pos) = T @ S' \<and> set S' \<subseteq> {(v, pos)}"
  by (cases "length T = MAX_LABELS"; cases "al (length v + 1)") (auto simp: dnslabel_table_add_def)

lemma split_label:
  assumes "46 \<notin> set l"
  shows "takeWhile (\<lambda>c. c \<noteq> 46) (l @ 46 # r) = l" "dropWhile (\<lambda>c. c \<noteq> 46) (l @ 46 # r) = 46 # r"
    "takeWhile (\<lambda>c. c \<noteq> 46) l = l" "dropWhile (\<lambda>c. c \<noteq> 46) l = ([] :: bytes)"
  using assms by (induction l) auto

text \<open>One label written.\<close>

lemma written:
  assumes "mem_write buf j bs = Some buf'"
  shows "length buf' = length buf" "take j buf' = take j buf" "take (length bs) (drop j buf') = bs"
    "i < length bs \<Longrightarrow> buf' ! (j + i) = bs ! i"
proof -
  have b: "buf' = take j buf @ bs @ drop (j + length bs) buf" "j + length bs \<le> length buf"
    using assms by (auto simp: mem_write_def split: if_splits)
  show "length buf' = length buf" "take j buf' = take j buf" "take (length bs) (drop j buf') = bs"
    "i < length bs \<Longrightarrow> buf' ! (j + i) = bs ! i"
    using b(2) by (simp_all add: b(1) nth_append)
qed

lemma take_shorter: "take m q = take m p \<Longrightarrow> n \<le> m \<Longrightarrow> take n q = take n p"
  by (metis min.absorb1 take_take)

text \<open>
  The loop of \<open>dnsname_to_labels\<close>: \<open>T\<close> is what was known before this name, which began at \<open>m\<close>,
  and \<open>S\<close> what was added since.
\<close>

definition put_ok :: "bytes \<Rightarrow> nat \<Rightarrow> nat \<Rightarrow> bytes \<Rightarrow> dnslabel_table \<Rightarrow> (bytes \<times> int \<times> dnslabel_table option) option \<Rightarrow> bool" where
  "put_ok buf m j name TS res \<longleftrightarrow>
     (\<exists>buf' r T2 ls k. res = Some (buf', int r, Some (TS @ T2)) \<and> length buf' = length buf \<and> take j buf' = take j buf \<and>
        j < r \<and> r \<le> j + length name + 2 \<and> join ls = name \<and> holds buf' r j ls r k \<and> k \<le> m \<and>
        (\<forall>v \<in> set T2. entry_ok buf' r m v \<and> j \<le> snd v))"

lemma put_pointer:
  assumes T: "table_ok buf m T" and S: "\<forall>v \<in> set S. length name < length (fst v)" and mj: "m \<le> j"
    and room: "j + length name + 2 \<le> bl" "bl \<le> length buf" "bl \<le> 0x4000"
    and ref: "0 \<le> dnslabel_table_get_pos (T @ S) name"
  shows "put_ok buf m j name (T @ S) (labels_loop al bl buf j name (Some (T @ S)))"
proof -
  define t where "t = nat (dnslabel_table_get_pos (T @ S) name)"
  have "(name, t) \<in> set (T @ S)" using get_pos_found [OF ref] by (simp add: t_def)
  then have "(name, t) \<in> set T" using S by auto
  then obtain ls e k where h: "name = join ls" "holds buf m t ls e k" "k \<le> t" "t < m"
    using T by (auto simp: table_ok_def entry_ok_def)
  let ?w = "word_of_nat t OR 0xc000 :: u16"
  have wi: "(word_of_int (dnslabel_table_get_pos (T @ S) name) :: u16) = word_of_nat t"
    using ref by (simp add: t_def)
  obtain buf' where w: "mem_write buf j (be16 ?w) = Some buf'" using room by (simp add: mem_write_def be16_def)
  note W = written [OF w]
  have at: "buf' ! j = hi8 ?w" "buf' ! (j + 1) = lo8 ?w" using W(4) [of 0] W(4) [of 1] by (simp_all add: be16_def)
  have "labels_loop al bl buf j name (Some (T @ S)) = Some (buf', int (j + 2), Some (T @ S))"
    using ref room w by (subst labels_loop.simps) (simp add: wi be16_def)
  moreover have "holds buf' (j + 2) t ls e k"
  proof (rule holds_extend [OF h(2)])
    show "buf' ! i = buf ! i" if "i < m" for i using same_below [OF W(2), of i] that mj by simp
  qed (use mj room W(1) in simp_all)
  then have "holds buf' (j + 2) j ls (j + 2) (Suc k)"
    using h(4) mj room at by (intro holds.jump [of _ _ t]) simp_all
  ultimately show ?thesis
    using W(1,2) h unfolding put_ok_def by (intro exI [of _ buf'] exI [of _ "j + 2"] exI [of _ "[]"] exI [of _ ls] exI [of _ "Suc k"]) auto
qed

lemma put_last:
  assumes l: "l = [] \<or> label_ok l" and mj: "m \<le> j"
    and room: "j + length l + 2 \<le> bl" "bl \<le> length buf"
    and ref: "\<not> 0 \<le> dnslabel_table_get_pos T l"
  shows "put_ok buf m j l T (labels_loop al bl buf j l (Some T))"
proof -
  obtain S' where S': "fst (dnslabel_table_add al T l j) = T @ S'" "set S' \<subseteq> {(l, j)}" using add_label by blast
  have no: "46 \<notin> set l" "length l \<le> 63" using l by (auto simp: label_ok_def)
  obtain b1 where w1: "mem_write buf j (word_of_nat (length l) # l) = Some b1" using room by (simp add: mem_write_def)
  note W = written [OF w1]
  have step: "labels_loop al bl buf j l (Some T) = end_labels b1 (j + length l + 1) (Some (T @ S'))"
    using ref room w1 no S'(1) by (subst labels_loop.simps) (simp add: split_label)
  show ?thesis
  proof (cases "l = []")
    case True
    have "b1 ! j = 0" using W(4) [of 0] True by simp
    then have "end_labels b1 (j + length l + 1) (Some (T @ S')) = Some (b1, int (j + 1), Some (T @ S'))" "holds b1 (j + 1) j [] (j + 1) 0"
      using True holds.root [of j "j + 1" b1] by (simp_all add: end_labels_def)
    moreover have "\<forall>v \<in> set S'. entry_ok b1 (j + 1) m v \<and> j \<le> snd v"
    proof
      fix v assume "v \<in> set S'"
      then have "v = ([], j)" using S'(2) True by auto
      moreover have "entry_ok b1 (j + 1) m ([], j)"
        unfolding entry_ok_def using calculation \<open>holds b1 (j + 1) j [] (j + 1) 0\<close>
        by (intro exI [of _ "[]"] exI [of _ "j + 1"] exI [of _ 0]) simp
      ultimately show "entry_ok b1 (j + 1) m v \<and> j \<le> snd v" by simp
    qed
    ultimately show ?thesis
      unfolding step put_ok_def using W(1,2) True by (intro exI [of _ b1] exI [of _ "j + 1"] exI [of _ S'] exI [of _ "[]"] exI [of _ 0]) simp
  next
    case False
    then have lk: "label_ok l" using l by simp
    let ?e = "j + length l + 1"
    have "b1 ! (?e - 1) = l ! (length l - 1)" using W(4) [of "length l"] False by (simp add: nth_Cons')
    moreover have "l ! (length l - 1) \<noteq> 0" using lk False unfolding label_ok_def by (metis last_conv_nth last_in_set)
    ultimately have nz: "b1 ! (?e - 1) \<noteq> 0" by simp
    obtain b2 where w2: "mem_write b1 ?e [0] = Some b2" using room W(1) by (simp add: mem_write_def)
    note V = written [OF w2]
    have en: "end_labels b1 ?e (Some (T @ S')) = Some (b2, int (?e + 1), Some (T @ S'))"
      using nz w2 by (simp add: end_labels_def)
    have z: "holds b2 (?e + 1) ?e [] (?e + 1) 0" using V(4) [of 0] by (intro holds.root) simp_all
    have tk: "take j b2 = take j buf" using V(2) W(2) by (metis Suc_eq_plus1 add.assoc le_add1 take_shorter)
    have at: "b2 ! j = word_of_nat (length l)"
    proof -
      have "b2 ! j = b1 ! j" using same_below [OF V(2), of j] by simp
      then show ?thesis using W(4) [of 0] by simp
    qed
    have "take (length l) (drop (j + 1) b2) = take (length l) (drop (j + 1) b1)"
    proof -
      have "take (length l) (drop (j + 1) b) = drop (j + 1) (take ?e b)" for b :: bytes by (simp add: take_drop add.commute)
      then show ?thesis using V(2) by simp
    qed
    moreover have "take (length l) (drop (j + 1) b1) = l"
    proof -
      have "take (length l + 1) (drop j b1) = word_of_nat (length l) # l" using W(3) by simp
      then have "drop 1 (take (length l + 1) (drop j b1)) = l" by simp
      then show ?thesis by (simp add: drop_take)
    qed
    ultimately have bytes_l: "take (length l) (drop (j + 1) b2) = l" by simp
    have h: "holds b2 (?e + 1) j [l] (?e + 1) 0"
    proof (rule holds.label)
      show "holds b2 (?e + 1) (j + 1 + length l) [] (?e + 1) 0" using z by (simp add: add.commute add.left_commute)
    qed (use lk at bytes_l in \<open>auto simp: label_ok_def\<close>)
    have "\<forall>v \<in> set S'. entry_ok b2 (?e + 1) m v \<and> j \<le> snd v"
    proof
      fix v assume "v \<in> set S'"
      then have "v = (l, j)" using S'(2) by auto
      then show "entry_ok b2 (?e + 1) m v \<and> j \<le> snd v"
        unfolding entry_ok_def using h by (auto intro!: exI [of _ "[l]"])
    qed
    then show ?thesis
      unfolding step en put_ok_def using V(1) W(1) tk h
      by (intro exI [of _ b2] exI [of _ "?e + 1"] exI [of _ S'] exI [of _ "[l]"] exI [of _ 0]) simp
  qed
qed

lemma labels_put:
  assumes "\<forall>l \<in> set ls. label_ok l" "table_ok buf m T" "\<forall>v \<in> set S. length (join ls) < length (fst v)" "m \<le> j"
    and "j + length (join ls) + 2 \<le> bl" "bl \<le> length buf" "bl \<le> 0x4000"
  shows "put_ok buf m j (join ls) (T @ S) (labels_loop al bl buf j (join ls) (Some (T @ S)))"
  using assms
proof (induction ls arbitrary: buf j S)
  case Nil
  then show ?case
    using put_pointer [of buf m T S "join []" j bl al] put_last [of "[]" m j bl buf "T @ S" al]
    by (cases "0 \<le> dnslabel_table_get_pos (T @ S) (join [])") simp_all
next
  case (Cons l ls)
  show ?case
  proof (cases "0 \<le> dnslabel_table_get_pos (T @ S) (join (l # ls))")
    case True
    show ?thesis by (rule put_pointer [OF Cons.prems(2-7) True])
  next
    case F: False
    show ?thesis
    proof (cases "ls = []")
      case True
      then show ?thesis using put_last [of l m j bl buf "T @ S" al] F Cons.prems by simp
    next
      case False
      let ?name = "join (l # ls)" and ?j = "j + length l + 1"
      have nm: "?name = l @ 46 # join ls" using False by (simp add: join_Cons)
      have lk: "label_ok l" using Cons.prems(1) by simp
      obtain S' where S': "fst (dnslabel_table_add al (T @ S) ?name j) = (T @ S) @ S'" "set S' \<subseteq> {(?name, j)}"
        using add_label by blast
      obtain b1 where w: "mem_write buf j (word_of_nat (length l) # l) = Some b1"
        using Cons.prems(5,6) nm by (simp add: mem_write_def)
      note W = written [OF w]
      have step: "labels_loop al bl buf j ?name (Some (T @ S)) = labels_loop al bl b1 ?j (join ls) (Some (T @ (S @ S')))"
        using F Cons.prems(5) w S'(1) lk nm
        by (subst labels_loop.simps) (simp add: split_label label_ok_def)
      have T1: "table_ok b1 m T"
        unfolding table_ok_def
      proof
        fix v assume "v \<in> set T"
        then have "entry_ok buf m (snd v) v" using Cons.prems(2) unfolding table_ok_def by blast
        moreover have "m \<le> length buf" using Cons.prems(4-6) by linarith
        ultimately show "entry_ok b1 m (snd v) v"
          using entry_ok_extend [OF _ order_refl take_shorter [OF W(2) Cons.prems(4)]] W(1) by simp
      qed
      have "put_ok b1 m ?j (join ls) (T @ (S @ S')) (labels_loop al bl b1 ?j (join ls) (Some (T @ (S @ S'))))"
        by (rule Cons.IH) (use Cons.prems T1 S'(2) W(1) nm in auto)
      then obtain buf' r T2 ls' k where r: "labels_loop al bl b1 ?j (join ls) (Some (T @ (S @ S'))) = Some (buf', int r, Some ((T @ (S @ S')) @ T2))"
          "length buf' = length b1" "take ?j buf' = take ?j b1" "?j < r" "r \<le> ?j + length (join ls) + 2" "join ls' = join ls"
          "holds buf' r ?j ls' r k" "k \<le> m" "\<forall>v \<in> set T2. entry_ok buf' r m v \<and> ?j \<le> snd v"
        unfolding put_ok_def by blast
      have lr: "r \<le> length buf'" using r(2,5) W(1) Cons.prems(5,6) nm by simp
      have "ls' \<noteq> []"
        using r(6) False Cons.prems(1) join_empty [of ls] join_empty [OF holds_nonempty [OF r(7)]] by (auto simp: label_ok_def)
      then have jn: "join (l # ls') = ?name" using r(6) nm by (simp add: join_Cons)
      have at: "buf' ! j = word_of_nat (length l)"
      proof -
        have "buf' ! j = b1 ! j" using same_below [OF r(3), of j] by simp
        then show ?thesis using W(4) [of 0] by simp
      qed
      have bytes_l: "take (length l) (drop (j + 1) buf') = l"
      proof -
        have "take (length l) (drop (j + 1) b) = drop (j + 1) (take ?j b)" for b :: bytes by (simp add: take_drop add.commute)
        then have "take (length l) (drop (j + 1) buf') = take (length l) (drop (j + 1) b1)" using r(3) by simp
        also have "\<dots> = drop 1 (take (length l + 1) (drop j b1))" by (simp add: drop_take)
        finally show ?thesis using W(3) by simp
      qed
      have h: "holds buf' r j (l # ls') r k"
      proof (rule holds.label)
        show "holds buf' r (j + 1 + length l) ls' r k" using r(7) by (simp add: add.commute add.left_commute)
      qed (use lk at bytes_l r(4) in \<open>auto simp: label_ok_def\<close>)
      have "\<forall>v \<in> set (S' @ T2). entry_ok buf' r m v \<and> j \<le> snd v"
      proof
        fix v assume v: "v \<in> set (S' @ T2)"
        show "entry_ok buf' r m v \<and> j \<le> snd v"
        proof (cases "v \<in> set T2")
          case True
          then show ?thesis using r(9) by auto
        next
          case False
          then have "v = (?name, j)" using v S'(2) by auto
          then show ?thesis
            using h jn r(4,8) unfolding entry_ok_def
            by (intro conjI exI [of _ "l # ls'"] exI [of _ r] exI [of _ k]) simp_all
        qed
      qed
      moreover have "take j buf' = take j buf" using take_shorter [OF r(3), of j] W(2) by simp
      ultimately show ?thesis
        unfolding step put_ok_def using r(1,2,4,5,8) h jn W(1) nm
        by (intro exI [of _ buf'] exI [of _ r] exI [of _ "S' @ T2"] exI [of _ "l # ls'"] exI [of _ k]) simp
    qed
  qed
qed

text \<open>The whole function, on a name of at most 255 bytes and with room for it.\<close>

lemma dnsname_put:
  assumes "\<forall>l \<in> set ls. label_ok l" "table_ok buf j T" "length (join ls) \<le> 255"
    and "j + length (join ls) + 2 \<le> bl" "bl \<le> length buf" "bl \<le> 0x4000"
  shows "\<exists>buf' r T'. dnsname_to_labels al buf bl j (join ls) (Some T) = Some (buf', int r, Some T') \<and>
      length buf' = length buf \<and> take j buf' = take j buf \<and> j < r \<and> r \<le> j + length (join ls) + 2 \<and> table_ok buf' r T' \<and>
      (\<exists>ls' k. join ls' = join ls \<and> holds buf' r j ls' r k \<and> k \<le> j)"
proof -
  have "put_ok buf j j (join ls) (T @ []) (labels_loop al bl buf j (join ls) (Some (T @ [])))"
    by (rule labels_put) (use assms in simp_all)
  then obtain buf' r T2 ls' k where r: "labels_loop al bl buf j (join ls) (Some T) = Some (buf', int r, Some (T @ T2))"
      "length buf' = length buf" "take j buf' = take j buf" "j < r" "r \<le> j + length (join ls) + 2" "join ls' = join ls"
      "holds buf' r j ls' r k" "k \<le> j" "\<forall>v \<in> set T2. entry_ok buf' r j v \<and> j \<le> snd v"
    unfolding put_ok_def by auto
  have "table_ok buf' r (T @ T2)"
    unfolding table_ok_def
  proof
    fix v assume v: "v \<in> set (T @ T2)"
    show "entry_ok buf' r (snd v) v"
    proof (cases "v \<in> set T2")
      case True
      then have "entry_ok buf' r j v" "j \<le> snd v" using r(9) by auto
      then show ?thesis unfolding entry_ok_def by (meson le_trans)
    next
      case False
      then have "entry_ok buf j (snd v) v" using v assms(2) by (auto simp: table_ok_def)
      moreover have "j \<le> length buf" using assms(4,5) by linarith
      ultimately show ?thesis using entry_ok_extend [OF _ _ r(3)] r(2,4) by simp
    qed
  qed
  then show ?thesis
    using r assms(3) by (intro exI [of _ buf'] exI [of _ r] exI [of _ "T @ T2"]) (auto simp: dnsname_to_labels_def)
qed

text \<open>Names put one after the other with one table, and where each begins.\<close>

fun put_names ::
  "(nat \<Rightarrow> bool) \<Rightarrow> bytes \<Rightarrow> nat \<Rightarrow> nat \<Rightarrow> dnslabel_table \<Rightarrow> bytes list \<Rightarrow> (nat list \<times> bytes \<times> nat) option" where
  "put_names al buf bl j table [] = Some ([], buf, j)"
| "put_names al buf bl j table (name # names) = do {
     (buf, r, t) \<leftarrow> dnsname_to_labels al buf bl j name (Some table);
     if r < 0 then None else do {
       (ps, buf, j') \<leftarrow> put_names al buf bl (nat r) (the t) names;
       Some (j # ps, buf, j')
     }
   }"

definition dns_name :: "bytes \<Rightarrow> bool" where
  "dns_name name \<longleftrightarrow> length name \<le> 255 \<and> (\<exists>ls. name = join ls \<and> (\<forall>l \<in> set ls. label_ok l))"

lemma put_names_parse:
  assumes "\<forall>name \<in> set names. dns_name name" "table_ok buf j T"
    and "j + sum_list (map (\<lambda>name. length name + 2) names) \<le> bl" "bl \<le> length buf" "bl \<le> 0x4000"
  shows "\<exists>ps buf' j'. put_names al buf bl j T names = Some (ps, buf', j') \<and> length buf' = length buf \<and>
      take j buf' = take j buf \<and> j \<le> j' \<and> j' \<le> bl \<and> length ps = length names \<and>
      (\<forall>i < length names. \<exists>e. name_parse buf' j' (ps ! i) 256 = Some (Some (names ! i, e)))"
  using assms
proof (induction names arbitrary: buf j T)
  case Nil
  then show ?case by simp
next
  case (Cons name names)
  obtain ls where ls: "name = join ls" "\<forall>l \<in> set ls. label_ok l" "length name \<le> 255"
    using Cons.prems(1) by (auto simp: dns_name_def)
  obtain b1 r T1 ls' k where r: "dnsname_to_labels al buf bl j name (Some T) = Some (b1, int r, Some T1)" "length b1 = length buf"
      "take j b1 = take j buf" "j < r" "r \<le> j + length name + 2" "table_ok b1 r T1" "join ls' = name" "holds b1 r j ls' r k" "k \<le> j"
    using dnsname_put [of ls buf j T bl al] ls Cons.prems by auto
  obtain ps b2 j' where i: "put_names al b1 bl r T1 names = Some (ps, b2, j')" "length b2 = length b1" "take r b2 = take r b1"
      "r \<le> j'" "j' \<le> bl" "length ps = length names"
      "\<forall>i < length names. \<exists>e. name_parse b2 j' (ps ! i) 256 = Some (Some (names ! i, e))"
    using Cons.IH [of b1 r T1] Cons.prems r by auto
  have jb: "j' \<le> length b2" using i(2,5) r(2) Cons.prems(4) by simp
  have "holds b2 j' j ls' r k"
    using same_below [OF i(3)] i(2,4) jb by (intro holds_extend [OF r(8)]) simp_all
  then have "name_parse b2 j' j 256 = Some (Some (name, r))"
    using name_parse_holds [of b2 j' j ls' r k 256] jb r(4,7,9) i(4) ls(3) by simp
  then have "\<forall>i < length (name # names). \<exists>e. name_parse b2 j' ((j # ps) ! i) 256 = Some (Some ((name # names) ! i, e))"
    using i(7) by (auto simp: nth_Cons split: nat.split)
  moreover have "take j b2 = take j buf" using take_shorter [OF i(3), of j] r(3,4) by simp
  ultimately show ?case using r i by simp
qed

end
