(* ===== verification/EvdnsProps.thy ===== *)
theory EvdnsProps
  imports EvdnsProofs
begin

text \<open>The properties of the DNS packet code, over the lemmas of \<open>EvdnsProofs\<close>.\<close>

text \<open>
  Property C15: names (of nonempty labels of at most 63 bytes, 255 bytes in all) that
  \<open>dnsname_to_labels\<close> puts one after the other into a packet that has room for them, with the
  table that compresses a name to a pointer to where its end was put before, are all read back by
  \<open>name_parse\<close> from where each begins; what was in the packet before is unchanged.
\<close>

theorem names_roundtrip:
  assumes "\<forall>name \<in> set names. dns_name name" "length buf \<le> 0x4000"
    and "j + sum_list (map (\<lambda>name. length name + 2) names) \<le> length buf"
  shows "\<exists>ps buf' j'. put_names al buf (length buf) j [] names = Some (ps, buf', j') \<and> take j buf' = take j buf \<and>
      length ps = length names \<and>
      (\<forall>i < length names. \<exists>e. name_parse buf' j' (ps ! i) 256 = Some (Some (names ! i, e)))"
  using put_names_parse [of names buf j "[]" "length buf" al] assms by (auto simp: table_ok_def)

text \<open>The names are a.b and b: the second is a pointer to the end of the first.\<close>

theorem names_roundtrip_witness:
  "\<exists>ps buf' j'. put_names (\<lambda>_. True) (replicate 40 7) 40 12 [] [[97, 46, 98], [98]] = Some (ps, buf', j') \<and>
     (\<exists>e. name_parse buf' j' (ps ! 1) 256 = Some (Some ([98], e)))"
proof -
  have "dns_name [97, 46, 98]" unfolding dns_name_def by (intro conjI exI [of _ "[[97], [98]]"]) (simp_all add: label_ok_def)
  moreover have "dns_name [98]" unfolding dns_name_def by (intro conjI exI [of _ "[[98]]"]) (simp_all add: label_ok_def)
  ultimately obtain ps buf' j' where
      "put_names (\<lambda>_. True) (replicate 40 7) 40 12 [] [[97, 46, 98], [98]] = Some (ps, buf', j')"
      "\<forall>i < 2. \<exists>e. name_parse buf' j' (ps ! i) 256 = Some (Some ([[97, 46, 98], [98]] ! i, e))"
    using names_roundtrip [of "[[97, 46, 98], [98]]" "replicate 40 7" 12 "\<lambda>_. True"]
    by (auto simp: numeral_2_eq_2 simp del: put_names.simps)
  moreover from this(2) obtain e where "name_parse buf' j' (ps ! 1) 256 = Some (Some ([[97, 46, 98], [98]] ! 1, e))"
    by (metis one_less_numeral_iff semiring_norm(76))
  ultimately show ?thesis by (intro exI [of _ ps] exI [of _ buf'] exI [of _ j'] conjI exI [of _ e]) simp_all
qed

text \<open>
  Property C16: a defect. A label whose length byte points past the end of the packet's memory is
  copied all the same: \<open>name_parse\<close> reads outside the memory.
\<close>

theorem name_parse_overreads:
  assumes "j < length p" "p ! j \<noteq> 0" "unat (p ! j) \<le> 63" "length p < j + 1 + unat (p ! j)"
  shows "name_parse p (length p) j 256 = None"
proof -
  have b: "p ! j AND 0xc0 = 0" using label_byte(1) [OF assms(3)] by simp
  show ?thesis
    using assms b unfolding name_parse_def by (subst name_loop.simps) (simp add: GET8_def mem_read_def)
qed

theorem name_parse_overreads_witness:
  "name_parse [0, 0, 63, 97] 4 2 256 = None"
proof -
  have l: "length [0, 0, 63, 97 :: u8] = 4" by simp
  show ?thesis using name_parse_overreads [of 2 "[0, 0, 63, 97]", unfolded l] by simp
qed


text \<open>A request without questions, answered with the address of a name of one label of 64 bytes.\<close>

definition long_name_request :: server_request where
  "long_name_request =
     \<lparr>sr_trans_id = 7, sr_flags = 0x0100, sr_questions = [],
      sr_answer = [\<lparr>ri_name = replicate 64 97, ri_type = TYPE_A, ri_class = CLASS_INET, ri_ttl = 60, ri_is_name = False,
                     ri_datalen = 4, ri_data = Some [127, 0, 0, 1]\<rparr>],
      sr_authority = [], sr_additional = [], sr_response = None\<rparr>"


end
