(* ===== verification/AfnMeter.thy ===== *)
theory AfnMeter
  imports AfnDispatch Complex_Main
begin

text \<open>
  The data of answers: decimal dates and readings (\<open>AFN/src/AFNData.cpp\<close>), the three data classes
  of \<open>AFN0C.cpp\<close> with their parsers and the storing of readings, the requests of \<open>AFN0C.cpp\<close>,
  \<open>AFN04.cpp\<close> and \<open>AFN01.cpp\<close>, and the reference count of \<open>Pkg_Afn_Data\<close> (\<open>proto.cpp\<close>). A reading
  is the exact decimal number the code computes, before it is rounded to a \<open>float\<close>; how a stream
  prints a \<open>float\<close> is an argument. The texts for the operator, in Chinese, are not modelled.
\<close>

section \<open>Decimal dates and readings\<close>

definition hi_digit :: "u8 \<Rightarrow> nat" where "hi_digit b = unat (drop_bit 4 b AND 0x0f)"
definition lo_digit :: "u8 \<Rightarrow> nat" where "lo_digit b = unat (b AND 0x0f)"
definition two_digits :: "u8 \<Rightarrow> nat" where "two_digits b = hi_digit b * 10 + lo_digit b"

text \<open>What \<open>%d\<close> and \<open>%02d\<close> print.\<close>

fun digits :: "nat \<Rightarrow> string" where
  "digits n = (if n < 10 then [char_of (48 + n)] else digits (n div 10) @ [char_of (48 + n mod 10)])"

declare digits.simps [simp del]

definition digits02 :: "nat \<Rightarrow> string" where
  "digits02 n = (if n < 10 then ''0'' @ digits n else digits n)"

definition no_date :: string where "no_date = ''00-00-00 00:00:00''"

definition print_date :: "nat \<Rightarrow> nat \<Rightarrow> nat \<Rightarrow> nat \<Rightarrow> nat \<Rightarrow> string \<Rightarrow> string" where
  "print_date year mon day hour mi sec =
     ''20'' @ digits02 year @ ''-'' @ digits02 mon @ ''-'' @ digits02 day @ '' '' @
     digits02 hour @ '':'' @ digits02 mi @ '':'' @ sec"

text \<open>
  The parsers return how many bytes they took with the value, or \<open>None\<close> where they return 0 and
  leave the value alone.
\<close>

definition parseDateTime5 :: "bytes \<Rightarrow> int \<Rightarrow> (nat \<times> string) option" where
  "parseDateTime5 d len =
     (if len \<ge> 5 then
        if d ! 0 = 0xee then Some (5, no_date)
        else Some (5, print_date (two_digits (d ! 4)) (two_digits (d ! 3)) (two_digits (d ! 2))
                        (two_digits (d ! 1)) (two_digits (d ! 0)) ''00'')
      else None)"

definition parseDateTime6 :: "bytes \<Rightarrow> int \<Rightarrow> (nat \<times> string) option" where
  "parseDateTime6 d len =
     (if len \<ge> 6 then
        if d ! 0 = 0xee then Some (6, no_date)
        else Some (6, print_date (two_digits (d ! 5)) (unat (drop_bit 4 (d ! 4) AND 1) * 10 + lo_digit (d ! 4))
                        (two_digits (d ! 3)) (two_digits (d ! 2)) (two_digits (d ! 1)) (digits02 (two_digits (d ! 0))))
      else None)"

definition parseTable14 :: "bytes \<Rightarrow> int \<Rightarrow> (nat \<times> rat) option" where
  "parseTable14 d len =
     (if len \<ge> 5 then
        if d ! 0 = 0xee then Some (5, -1)
        else Some (5, of_nat (hi_digit (d ! 4) * 100000 + lo_digit (d ! 4) * 10000 + hi_digit (d ! 3) * 1000 +
                              lo_digit (d ! 3) * 100 + hi_digit (d ! 2) * 10 + lo_digit (d ! 2)) +
                      of_nat (hi_digit (d ! 1)) / 10 + of_nat (lo_digit (d ! 1)) / 100 +
                      of_nat (hi_digit (d ! 0)) / 1000 + of_nat (lo_digit (d ! 0)) / 10000)
      else None)"

definition parseTable11 :: "bytes \<Rightarrow> int \<Rightarrow> (nat \<times> rat) option" where
  "parseTable11 d len =
     (if len \<ge> 4 then
        if d ! 0 = 0xee then Some (4, -1)
        else Some (4, of_nat (hi_digit (d ! 3) * 100000 + lo_digit (d ! 3) * 10000 + hi_digit (d ! 2) * 1000 +
                              lo_digit (d ! 2) * 100 + hi_digit (d ! 1) * 10 + lo_digit (d ! 1)) +
                      of_nat (hi_digit (d ! 0)) / 10 + of_nat (lo_digit (d ! 0)) / 100)
      else None)"

section \<open>The clock and the reading status\<close>

definition YQER_PKG_DATA_Err :: "int \<Rightarrow> int" where "YQER_PKG_DATA_Err x = - 400 - x"

text \<open>\<open>int left = m_nLen\<close>: the length cut to 32 bits.\<close>

definition left_of :: "pkg_afn_data \<Rightarrow> int" where
  "left_of d = sint (ucast (m_nLen d) :: u32)"

text \<open>\<open>HandleData\<close> of the clock: the result of the parser, and the date it left in \<open>dt\<close>.\<close>

definition GetClock_HandleData :: "pkg_afn_data \<Rightarrow> string \<Rightarrow> string \<times> int" where
  "GetClock_HandleData d dt =
     (case parseDateTime6 (m_pData d) (left_of d) of None \<Rightarrow> (dt, 0) | Some (n, dt') \<Rightarrow> (dt', int n))"

record status_block =
  sb_port :: u8
  sb_num :: u16
  sb_status :: u8
  sb_success :: u16
  sb_success_import :: u8
  sb_sdt :: string
  sb_edt :: string

definition date_or_empty :: "(nat \<times> string) option \<Rightarrow> string" where
  "date_or_empty r = (case r of None \<Rightarrow> [] | Some (_, s) \<Rightarrow> s)"

definition Block_parse :: "bytes \<Rightarrow> int \<Rightarrow> (nat \<times> status_block) option" where
  "Block_parse p len =
     (if len \<ge> 19 then
        Some (19, \<lparr>sb_port = p ! 0, sb_num = le16 (p ! 1) (p ! 2), sb_status = p ! 3, sb_success = le16 (p ! 4) (p ! 5),
                   sb_success_import = p ! 6, sb_sdt = date_or_empty (parseDateTime6 (drop 7 p) 6),
                   sb_edt = date_or_empty (parseDateTime6 (drop 13 p) 6)\<rparr>)
      else None)"

text \<open>
  \<open>n\<close> and the blocks; a block that was not reached is \<open>None\<close>. \<open>GO\<close> advances the pointer and
  takes from \<open>left\<close>.
\<close>

record run_status =
  rs_n :: "nat option"
  rs_block :: "status_block option list option"

primrec parse_blocks :: "nat \<Rightarrow> bytes \<Rightarrow> int \<Rightarrow> status_block option list \<times> int" where
  "parse_blocks 0 p left = ([], YQER_OK)"
| "parse_blocks (Suc k) p left =
     (case Block_parse p left of
        None \<Rightarrow> (replicate (Suc k) None, YQER_PKG_DATA_Err 3)
      | Some (len, b) \<Rightarrow> map_prod (Cons (Some b)) id (parse_blocks k (drop len p) (left - int len)))"

definition GetRunStatus_HandleData :: "pkg_afn_data \<Rightarrow> run_status \<Rightarrow> run_status \<times> int" where
  "GetRunStatus_HandleData d rs =
     (let left = left_of d; p = m_pData d
      in if left < 1 then (rs, YQER_PKG_DATA_Err 2)
         else let n = unat (p ! 0); rs = rs\<lparr>rs_n := Some n\<rparr>
              in if n < 1 \<or> n > 31 then (rs, YQER_PKG_DATA_Err 3)
                 else map_prod (\<lambda>bs. rs\<lparr>rs_block := Some bs\<rparr>) id (parse_blocks n (drop 1 p) (left - 1)))"

section \<open>The readings of a meter\<close>

text \<open>
  Four totals, each with the readings of \<open>m\<close> tariffs. A field not yet written is \<open>None\<close>, and so
  is a null array.
\<close>

record tariffs =
  total :: "rat option"
  fees :: "rat option list option"

record all_kwh =
  kwh_dt :: string
  kwh_m :: "nat option"
  userkwh :: tariffs
  devkwh :: tariffs
  onekwh :: tariffs
  fourkwh :: tariffs

definition AllKwh_new :: all_kwh where
  "AllKwh_new = (let t = \<lparr>total = None, fees = None\<rparr>
     in \<lparr>kwh_dt = [], kwh_m = None, userkwh = t, devkwh = t, onekwh = t, fourkwh = t\<rparr>)"

text \<open>One array of readings: what was read, and where it stopped, \<open>None\<close> at the end of the data.\<close>

primrec read_fees ::
  "(bytes \<Rightarrow> int \<Rightarrow> (nat \<times> rat) option) \<Rightarrow> nat \<Rightarrow> bytes \<Rightarrow> int \<Rightarrow> rat option list \<times> (bytes \<times> int) option" where
  "read_fees table 0 p left = ([], Some (p, left))"
| "read_fees table (Suc k) p left =
     (case table p left of
        None \<Rightarrow> (replicate (Suc k) None, None)
      | Some (len, v) \<Rightarrow> map_prod (Cons (Some v)) id (read_fees table k (drop len p) (left - int len)))"

text \<open>
  A total and its array. \<open>checked\<close>: the result of the parser of the total is looked at; the code
  does not look at it for \<open>devkwh\<close>.
\<close>

definition read_tariffs ::
  "bool \<Rightarrow> (bytes \<Rightarrow> int \<Rightarrow> (nat \<times> rat) option) \<Rightarrow> nat \<Rightarrow> bytes \<Rightarrow> int \<Rightarrow> tariffs \<Rightarrow> tariffs \<times> (bytes \<times> int) option" where
  "read_tariffs checked table m p left t =
     (case table p left of
        None \<Rightarrow>
          if checked then (t, None)
          else (case read_fees table m p left of (fs, r) \<Rightarrow> (t\<lparr>fees := Some fs\<rparr>, r))
      | Some (len, v) \<Rightarrow>
          (case read_fees table m (drop len p) (left - int len) of
             (fs, r) \<Rightarrow> (t\<lparr>total := Some v, fees := Some fs\<rparr>, r)))"

definition read_all_tariffs :: "nat \<Rightarrow> bytes \<Rightarrow> int \<Rightarrow> all_kwh \<Rightarrow> all_kwh \<times> int" where
  "read_all_tariffs m p left k =
     (case read_tariffs True parseTable14 m p left (userkwh k) of
        (t, None) \<Rightarrow> (k\<lparr>userkwh := t\<rparr>, YQER_PKG_DATA_Err 2)
      | (t, Some (p, left)) \<Rightarrow>
          let k = k\<lparr>userkwh := t\<rparr>
          in (case read_tariffs False parseTable11 m p left (devkwh k) of
                (t, None) \<Rightarrow> (k\<lparr>devkwh := t\<rparr>, YQER_PKG_DATA_Err 2)
              | (t, Some (p, left)) \<Rightarrow>
                  let k = k\<lparr>devkwh := t\<rparr>
                  in (case read_tariffs True parseTable11 m p left (onekwh k) of
                        (t, None) \<Rightarrow> (k\<lparr>onekwh := t\<rparr>, YQER_PKG_DATA_Err 2)
                      | (t, Some (p, left)) \<Rightarrow>
                          let k = k\<lparr>onekwh := t\<rparr>
                          in (case read_tariffs True parseTable11 m p left (fourkwh k) of
                                (t, None) \<Rightarrow> (k\<lparr>fourkwh := t\<rparr>, YQER_PKG_DATA_Err 2)
                              | (t, Some _) \<Rightarrow> (k\<lparr>fourkwh := t\<rparr>, YQER_OK)))))"

definition AllKwh_HandleData :: "pkg_afn_data \<Rightarrow> all_kwh \<Rightarrow> all_kwh \<times> int" where
  "AllKwh_HandleData d k =
     (case parseDateTime5 (m_pData d) (left_of d) of
        None \<Rightarrow> (k, YQER_PKG_DATA_Err 2)
      | Some (len, dt) \<Rightarrow>
          let k = k\<lparr>kwh_dt := dt\<rparr>; p = drop len (m_pData d); left = left_of d - int len
          in if left < 1 then (k, YQER_PKG_DATA_Err 2)
             else let m = unat (p ! 0); k = k\<lparr>kwh_m := Some m\<rparr>
                  in if m < 1 \<or> m > 12 then (k, YQER_PKG_DATA_Err 3)
                     else read_all_tariffs m (drop 1 p) (left - 1) k)"

text \<open>
  \<open>toDB\<close>: the code, and the statement that is executed. Reading a field that was not written, or
  through a null array, is \<open>None\<close>.
\<close>

definition print_fees :: "(rat \<Rightarrow> string) \<Rightarrow> nat \<Rightarrow> rat option list option \<Rightarrow> string option" where
  "print_fees print_float m fs = do {
     xs \<leftarrow> fs;
     if length xs < m \<or> None \<in> set (take m xs) then None
     else Some (concat (map (\<lambda>x. print_float (the x) @ ''#'') (take m xs)))
   }"

definition AllKwh_toDB ::
  "(int \<Rightarrow> string) \<Rightarrow> (rat \<Rightarrow> string) \<Rightarrow> jzq list \<Rightarrow> all_kwh \<Rightarrow> u16 \<Rightarrow> u16 \<Rightarrow> u16 \<Rightarrow> (int \<times> string list) option" where
  "AllKwh_toDB print_int print_float js k a1 a2 n =
     (let eleId = GetEleID js a1 a2 n
      in if eleId = -1 then Some (-1, [])
         else do {
           u \<leftarrow> total (userkwh k); d \<leftarrow> total (devkwh k); e \<leftarrow> total (onekwh k); f \<leftarrow> total (fourkwh k);
           m \<leftarrow> kwh_m k;
           us \<leftarrow> print_fees print_float m (fees (userkwh k));
           ds \<leftarrow> print_fees print_float m (fees (devkwh k));
           es \<leftarrow> print_fees print_float m (fees (onekwh k));
           fs \<leftarrow> print_fees print_float m (fees (fourkwh k));
           let q = [CHR 0x27];
           Some (YQER_OK,
             [''insert into gc_nhfxelect(EquipmentCjqID,TimeSpace,RecordTime,USERKWH,DEVKVAR,FIRSTKVAR,FOURKVAR,M_USERKWH,M_DEVKVAR,M_FIRSTKVAR,M_FOURKVAR) '' @
              ''values('' @ print_int eleId @ '','' @ print_int 60 @ '','' @ q @ kwh_dt k @ q @ '','' @
              print_float u @ '','' @ print_float d @ '','' @ print_float e @ '','' @ print_float f @ '','' @ q @
              us @ q @ '','' @ q @ ds @ q @ '','' @ q @ es @ q @ '','' @ q @ fs @ q @ '')''])
         })"

section \<open>The data object of an answer\<close>

datatype ack_data = Get_clock pkg_afn_data string | Get_run_status pkg_afn_data run_status | All_kwh pkg_afn_data all_kwh

text \<open>\<open>AFN0C::HandleAck\<close>: \<open>None\<close> where it reads through a null \<open>pAfnData\<close>.\<close>

definition AFN0C_HandleAck :: "pkg \<Rightarrow> ack_data option option" where
  "AFN0C_HandleAck p =
     (if Fn p = 2 then do { d \<leftarrow> pAfnData (pAfn p); Some (Some (Get_clock d [])) }
      else if Fn p = 11 then do { d \<leftarrow> pAfnData (pAfn p); Some (Some (Get_run_status d \<lparr>rs_n = None, rs_block = None\<rparr>)) }
      else if Fn p = 33 then do { d \<leftarrow> pAfnData (pAfn p); Some (Some (All_kwh d AllKwh_new)) }
      else Some None)"

fun HandleData :: "ack_data \<Rightarrow> ack_data \<times> int" where
  "HandleData (Get_clock d dt) = map_prod (Get_clock d) id (GetClock_HandleData d dt)"
| "HandleData (Get_run_status d rs) = map_prod (Get_run_status d) id (GetRunStatus_HandleData d rs)"
| "HandleData (All_kwh d k) = map_prod (All_kwh d) id (AllKwh_HandleData d k)"

text \<open>Only the readings of a meter override \<open>toDB\<close>.\<close>

fun toDB ::
  "(int \<Rightarrow> string) \<Rightarrow> (rat \<Rightarrow> string) \<Rightarrow> jzq list \<Rightarrow> ack_data \<Rightarrow> u16 \<Rightarrow> u16 \<Rightarrow> u16 \<Rightarrow> (int \<times> string list) option" where
  "toDB print_int print_float js (All_kwh d k) a1 a2 n = AllKwh_toDB print_int print_float js k a1 a2 n"
| "toDB print_int print_float js _ a1 a2 n = Some (-1, [])"

section \<open>The requests\<close>

definition CreateClock :: "pkg_afn \<Rightarrow> data_tag \<Rightarrow> pkg_afn" where "CreateClock junk t = AFN0C_Create junk t 0 2"
definition CreateRunStatus :: "pkg_afn \<Rightarrow> data_tag \<Rightarrow> pkg_afn" where "CreateRunStatus junk t = AFN0C_Create junk t 0 11"
definition CreateCurTotalKwh :: "pkg_afn \<Rightarrow> data_tag \<Rightarrow> pkg_afn" where "CreateCurTotalKwh junk t = AFN0C_Create junk t 0 17"
definition CreateCurTotalKvarh :: "pkg_afn \<Rightarrow> data_tag \<Rightarrow> pkg_afn" where "CreateCurTotalKvarh junk t = AFN0C_Create junk t 0 18"
definition CreateCurABCTotal :: "pkg_afn \<Rightarrow> data_tag \<Rightarrow> u16 \<Rightarrow> pkg_afn" where "CreateCurABCTotal junk t n = AFN0C_Create junk t n 25"
definition CreateAllKwh :: "pkg_afn \<Rightarrow> data_tag \<Rightarrow> u16 \<Rightarrow> pkg_afn" where "CreateAllKwh junk t n = AFN0C_Create junk t n 33"

text \<open>\<open>AFN04::Create\<close> is the same as \<open>AFN0C::Create\<close>, its function code included.\<close>

definition AFN04_Create :: "pkg_afn \<Rightarrow> data_tag \<Rightarrow> u16 \<Rightarrow> u16 \<Rightarrow> pkg_afn" where
  "AFN04_Create junk dtag n f =
     (let (da1, da2) = GetDA n (DA1 dtag) (DA2 dtag);
          (dt1, dt2) = GetDT f (DT1 dtag) (DT2 dtag) in
      junk\<lparr>afnHeader := \<lparr>AFN = 0x0C, SEQ_seq = SEQ_single 1 (SEQ_seq (afnHeader junk))\<rparr>,
        pAfnData := Some \<lparr>m_Tag = \<lparr>DA1 = da1, DA2 = da2, DT1 = dt1, DT2 = dt2\<rparr>, m_pData = []\<rparr>,
        pAux := Some (Aux_Down False \<lparr>PFC = 0, TM = replicate 4 0, DELAY = 0\<rparr> True (replicate 16 0))\<rparr>)"

definition CreatePointBaseSetting :: "pkg_afn \<Rightarrow> data_tag \<Rightarrow> u16 \<Rightarrow> pkg_afn" where
  "CreatePointBaseSetting junk t n = AFN04_Create junk t n 25"

definition CreatePointStatus :: "pkg_afn \<Rightarrow> data_tag \<Rightarrow> pkg_afn" where
  "CreatePointStatus junk t =
     (let a = AFN04_Create junk t 0 150
      in a\<lparr>pAfnData := map_option (\<lambda>d. d\<lparr>m_pData := replicate (256 * 2) 0\<rparr>) (pAfnData a)\<rparr>)"

definition AFN01_new :: "pkg_afn \<Rightarrow> pkg_afn" where
  "AFN01_new junk =
     junk\<lparr>pAfnData := Some \<lparr>m_Tag = \<lparr>DA1 = 0, DA2 = 0, DT1 = 1, DT2 = 0\<rparr>, m_pData = []\<rparr>,
          pAux := Some (Aux_Down False \<lparr>PFC = 0, TM = replicate 4 0, DELAY = 0\<rparr> True (replicate 16 0))\<rparr>"

section \<open>The reference count\<close>

text \<open>
  The data objects of \<open>proto.cpp\<close>, as they share their bytes: each names its block of memory and
  counts its users, and \<open>freed\<close> lists the blocks \<open>delete\<close> was called on.
\<close>

record data_object =
  do_block :: "nat option"
  m_DataUsed :: int

record data_heap =
  objects :: "data_object list"
  freed :: "nat list"

definition data_new :: "data_heap \<Rightarrow> nat \<Rightarrow> data_heap \<times> nat" where
  "data_new h b = (h\<lparr>objects := objects h @ [\<lparr>do_block = Some b, m_DataUsed = 0\<rparr>]\<rparr>, length (objects h))"

definition data_copy :: "data_heap \<Rightarrow> nat \<Rightarrow> data_heap \<times> nat" where
  "data_copy h i =
     (let x = objects h ! i
      in (h\<lparr>objects := (objects h)[i := x\<lparr>m_DataUsed := m_DataUsed x + 1\<rparr>] @ [\<lparr>do_block = do_block x, m_DataUsed = 1\<rparr>]\<rparr>,
          length (objects h)))"

definition data_delete :: "data_heap \<Rightarrow> nat \<Rightarrow> data_heap" where
  "data_delete h i =
     (let x = (objects h ! i)\<lparr>m_DataUsed := m_DataUsed (objects h ! i) - 1\<rparr>
      in if m_DataUsed x \<le> 0
         then h\<lparr>objects := (objects h)[i := x\<lparr>do_block := None\<rparr>],
                freed := freed h @ (case do_block x of None \<Rightarrow> [] | Some b \<Rightarrow> [b])\<rparr>
         else h\<lparr>objects := (objects h)[i := x]\<rparr>)"

end
