(* ===== verification/AfnCalls.thy ===== *)
theory AfnCalls
  imports AfnMeter
begin

text \<open>
  The list of connections and the calls of the operator: \<open>AFN/src/ConnectionList.cpp\<close>,
  \<open>ConnectionListWater.cpp\<close>, \<open>Water.cpp\<close>, and the part of \<open>AFNPackageBuilder.cpp\<close> that sends a
  request, handles the answers and hands them to the thread that waits for them. The data base is
  a list of rows and the statements executed on it; the transport is the identity of the
  \<open>bufferevent\<close> with the bytes written to it.
\<close>

section \<open>Connections and concentrators\<close>

text \<open>
  A power connection with its address (not initialised before the first frame) and the frames it
  keeps; a water connection.
\<close>

datatype connection =
  Power_con (con_bev: nat) (pc_area: u16) (pc_number: u16) (pc_pkgs: "(nat \<times> pkg) list")
| Water_con (con_bev: nat)

record water =
  w_name :: string
  w_heartTimer :: u64
  w_getTimer :: u64

record station =
  st_jzq :: jzq_list
  st_cons :: "connection list"
  st_water :: "water list"

definition getConnection :: "station \<Rightarrow> nat \<Rightarrow> connection option" where
  "getConnection st b = find (\<lambda>c. con_bev c = b) (st_cons st)"

text \<open>A power connection logs its concentrator out when it is deleted.\<close>

definition delete_connection :: "u64 \<Rightarrow> station \<Rightarrow> connection \<Rightarrow> station" where
  "delete_connection now st c =
     (case c of
        Power_con _ area number _ \<Rightarrow>
          st\<lparr>st_jzq := (st_jzq st)\<lparr>m_jzqList := update_first (is_jzq area number) (\<lambda>j. LoginState now j 2 0) (m_jzqList (st_jzq st))\<rparr>\<rparr>
      | Water_con _ \<Rightarrow> st)"

fun remove_first :: "('a \<Rightarrow> bool) \<Rightarrow> 'a list \<Rightarrow> 'a list" where
  "remove_first P [] = []"
| "remove_first P (x # xs) = (if P x then xs else x # remove_first P xs)"

definition delConnection :: "u64 \<Rightarrow> station \<Rightarrow> nat \<Rightarrow> station" where
  "delConnection now st b =
     (case getConnection st b of
        None \<Rightarrow> st
      | Some c \<Rightarrow> delete_connection now (st\<lparr>st_cons := remove_first (\<lambda>c. con_bev c = b) (st_cons st)\<rparr>) c)"

text \<open>The callback of the end of a connection, whatever ended it.\<close>

definition conn_eventcb :: "u64 \<Rightarrow> station \<Rightarrow> nat \<Rightarrow> station" where
  "conn_eventcb now st b = delConnection now st b"

text \<open>A new connection; the socket's \<open>bufferevent\<close> may not be made. The address is what the memory holds.\<close>

definition newJzqConnection :: "station \<Rightarrow> u16 \<Rightarrow> u16 \<Rightarrow> nat option \<Rightarrow> station \<times> int" where
  "newJzqConnection st junk_area junk_number b =
     (case b of
        None \<Rightarrow> (st, - 200 - 1)
      | Some b \<Rightarrow> (st\<lparr>st_cons := st_cons st @ [Power_con b junk_area junk_number []]\<rparr>, YQER_OK))"

definition newWaterConnection :: "station \<Rightarrow> nat option \<Rightarrow> station \<times> int" where
  "newWaterConnection st b =
     (case b of None \<Rightarrow> (st, - 200 - 1) | Some b \<Rightarrow> (st\<lparr>st_cons := st_cons st @ [Water_con b]\<rparr>, YQER_OK))"

definition getJzqConnection :: "station \<Rightarrow> u16 \<Rightarrow> u16 \<Rightarrow> connection option" where
  "getJzqConnection st area number =
     find (\<lambda>c. case c of Power_con _ a n _ \<Rightarrow> a = area \<and> n = number | Water_con _ \<Rightarrow> False) (st_cons st)"

definition getJzqConnection_name :: "station \<Rightarrow> string \<Rightarrow> connection option" where
  "getJzqConnection_name st name =
     (case getJzq_name (m_jzqList (st_jzq st)) name of
        None \<Rightarrow> None
      | Some j \<Rightarrow> getJzqConnection st (m_areacode j) (m_number j))"

section \<open>Checks and printing\<close>

definition Jzq_printInfo :: "jzq \<Rightarrow> string" where
  "Jzq_printInfo j =
     ''totalEle('' @ digits (length (eleLst j)) @ ''),name('' @ m_name j @ ''),areacode('' @ digits (unat (m_areacode j)) @
     ''),address('' @ digits (unat (m_number j)) @ ''),state('' @
     (if m_tag j AND 1 \<noteq> 0 then ''config:yes,'' else ''config:no,'') @
     (if m_tag j AND 2 \<noteq> 0 then ''online:yes)'' else ''online:no)'') @
     [CHR 0x0D, CHR 0x0A] @ ''-------------------------------------------------------------------------------'' @ [CHR 0x0D, CHR 0x0A]"

definition Water_printInfo :: "water \<Rightarrow> string" where "Water_printInfo w = ''no ele''"

definition Water_CheckTimeout :: "u64 \<Rightarrow> water \<Rightarrow> water \<times> bool" where
  "Water_CheckTimeout now w =
     (if TimeElapse now (w_heartTimer w) > 180000 then (w\<lparr>w_heartTimer := now\<rparr>, True) else (w, False))"

definition Print :: "station \<Rightarrow> string" where
  "Print st = concat (map Jzq_printInfo (m_jzqList (st_jzq st))) @ concat (map Water_printInfo (st_water st))"

definition CheckConnection :: "u64 \<Rightarrow> station \<Rightarrow> station \<times> string" where
  "CheckConnection now st =
     (st\<lparr>st_jzq := (st_jzq st)\<lparr>m_jzqList := map (\<lambda>j. fst (CheckTimeout now j)) (m_jzqList (st_jzq st))\<rparr>,
         st_water := map (\<lambda>w. fst (Water_CheckTimeout now w)) (st_water st)\<rparr>, Print st)"

section \<open>Loading\<close>

text \<open>
  \<open>LoadJzq\<close> with the rows of the two tables: area, address and name of a concentrator; number and
  id of a meter, by area and address. The meters of all concentrators in the list are added, also
  of those that were there before.
\<close>

definition load_meters :: "(u16 \<Rightarrow> u16 \<Rightarrow> (int \<times> int) list) \<Rightarrow> jzq \<Rightarrow> jzq" where
  "load_meters meters j = j\<lparr>eleLst := eleLst j @ meters (m_areacode j) (m_number j)\<rparr>"

definition LoadJzq :: "(int \<times> int \<times> string) list \<Rightarrow> (u16 \<Rightarrow> u16 \<Rightarrow> (int \<times> int) list) \<Rightarrow> station \<Rightarrow> station" where
  "LoadJzq rows meters st =
     (let js = m_jzqList (st_jzq st) @ map (\<lambda>(area, address, name). Jzq_new name (word_of_int area) (word_of_int address) 1) rows
      in st\<lparr>st_jzq := (st_jzq st)\<lparr>m_jzqList := map (load_meters meters) js\<rparr>\<rparr>)"

definition Load :: "(int \<times> int \<times> string) list \<Rightarrow> (u16 \<Rightarrow> u16 \<Rightarrow> (int \<times> int) list) \<Rightarrow> station \<Rightarrow> station" where
  "Load rows meters st = LoadJzq rows meters (st\<lparr>st_jzq := (st_jzq st)\<lparr>m_jzqList := []\<rparr>, st_water := []\<rparr>)"

section \<open>Sending a request\<close>

datatype app_call = App_call (ca_area: u16) (ca_number: u16) (ca_AFN: u8) (ca_fn: u16) (ca_pn: u16)

text \<open>\<open>SendPkg\<close> with its result: what \<open>bufferevent_write\<close> returns, or that of \<open>Serialize\<close>.\<close>

definition SendPkg_result :: "surroundings \<Rightarrow> int \<Rightarrow> pkg \<Rightarrow> (bytes list \<times> int) option" where
  "SendPkg_result env wr p =
     (case Serialize p (junk_buf env) (word_of_nat BUF_SIZE) of
        None \<Rightarrow> None
      | Some (b, n) \<Rightarrow> Some (if 0 < n \<and> n < int BUF_SIZE then ([take (nat n) b], wr) else ([], n)))"

text \<open>The whole macro \<open>REQUEST_DATA\<close>: the bytes sent, \<open>ret\<close> and \<open>call\<close>.\<close>

definition request_data ::
  "surroundings \<Rightarrow> int \<Rightarrow> station \<Rightarrow> connection \<Rightarrow> pkg_afn \<Rightarrow> u8 \<Rightarrow> (station \<times> bytes list \<times> int \<times> app_call) option" where
  "request_data env wr st con a fun_code =
     (let (jl, k) = REQUEST_DATA (junk_pkg env) (st_jzq st) (pc_area con) (pc_number con) a fun_code
      in do {
        k \<leftarrow> k;
        (out, ret) \<leftarrow> SendPkg_result env wr k;
        d \<leftarrow> pAfnData (pAfn k);
        let t = m_Tag d;
        Some (st\<lparr>st_jzq := jl\<rparr>, out, ret,
          App_call (pc_area con) (pc_number con) (AFN (afnHeader (pAfn k))) (GetFn (DT1 t) (DT2 t)) (Getpn (DA1 t) (DA2 t)))
      })"

definition YQER_JZQ_NOTOK :: int where "YQER_JZQ_NOTOK = - 97"

text \<open>\<open>LOCK_CONNECTION\<close>: the connection by its concentrator's name, the frames it kept deleted.\<close>

definition lock_connection :: "station \<Rightarrow> string \<Rightarrow> (station \<times> connection \<times> nat list) option" where
  "lock_connection st name =
     (case getJzqConnection_name st name of
        Some (Power_con b area number pkgs) \<Rightarrow>
          let c = Power_con b area number []
          in Some (st\<lparr>st_cons := update_first (\<lambda>x. x = Power_con b area number pkgs) (\<lambda>_. c) (st_cons st)\<rparr>, c, map fst pkgs)
      | _ \<Rightarrow> None)"

text \<open>
  A call up to \<open>Wait\<close>: not connected, or the station, the bytes sent, \<open>ret\<close> and the call that is
  waited for.
\<close>

datatype 'a sent = Not_ok int | Sent 'a

definition send_call ::
  "surroundings \<Rightarrow> int \<Rightarrow> station \<Rightarrow> string \<Rightarrow> pkg_afn \<Rightarrow> u8 \<Rightarrow> (station \<times> bytes list \<times> int \<times> app_call) sent option" where
  "send_call env wr st name a fun_code =
     (case lock_connection st name of
        None \<Rightarrow> Some (Not_ok YQER_JZQ_NOTOK)
      | Some (st, con, _) \<Rightarrow> map_option Sent (request_data env wr st con a fun_code))"

definition new_afn :: "surroundings \<Rightarrow> pkg_afn" where
  "new_afn env = (pAfn (junk_pkg env))\<lparr>pAfnData := None, pAux := None\<rparr>"

definition setpointparams where "setpointparams env wr st name n = send_call env wr st name (CreatePointBaseSetting (new_afn env) (junk_tag env) n) 11"
definition setpointstatus where "setpointstatus env wr st name = send_call env wr st name (CreatePointStatus (new_afn env) (junk_tag env)) 10"
definition getclock where "getclock env wr st name = send_call env wr st name (CreateClock (new_afn env) (junk_tag env)) 10"
definition getstatus where "getstatus env wr st name = send_call env wr st name (CreateRunStatus (new_afn env) (junk_tag env)) 10"
definition getallkwh where "getallkwh env wr st name n = send_call env wr st name (CreateAllKwh (new_afn env) (junk_tag env) n) 10"

text \<open>The calls that do not wait: all meters of a concentrator, or one.\<close>

primrec request_meters ::
  "surroundings \<Rightarrow> int \<Rightarrow> connection \<Rightarrow> (int \<times> int) list \<Rightarrow> station \<Rightarrow> int \<Rightarrow> (station \<times> bytes list \<times> int) option" where
  "request_meters env wr con [] st ret = Some (st, [], ret)"
| "request_meters env wr con (e # es) st ret = do {
     (st, out, ret, _) \<leftarrow> request_data env wr st con (CreateAllKwh (new_afn env) (junk_tag env) (word_of_int (fst e))) 10;
     (st, out', ret) \<leftarrow> request_meters env wr con es st ret;
     Some (st, out @ out', ret)
   }"

definition getallkwh_async_all :: "surroundings \<Rightarrow> int \<Rightarrow> station \<Rightarrow> jzq \<Rightarrow> (station \<times> bytes list \<times> int) option" where
  "getallkwh_async_all env wr st j =
     (case lock_connection st (m_name j) of
        None \<Rightarrow> Some (st, [], YQER_JZQ_NOTOK)
      | Some (st, con, _) \<Rightarrow> request_meters env wr con (eleLst j) st YQER_OK)"

definition getallkwh_async :: "surroundings \<Rightarrow> int \<Rightarrow> station \<Rightarrow> string \<Rightarrow> u16 \<Rightarrow> (station \<times> bytes list \<times> int) option" where
  "getallkwh_async env wr st name n =
     (case lock_connection st name of
        None \<Rightarrow> Some (st, [], YQER_JZQ_NOTOK)
      | Some (st, con, _) \<Rightarrow> do {
          (st, out, ret, _) \<leftarrow> request_data env wr st con (CreateAllKwh (new_afn env) (junk_tag env) n) 10;
          Some (st, out, ret)
        })"

text \<open>
  \<open>AutoGetAllKwh\<close>: every concentrator whose last collection was more than a minute ago, by its
  index in the list.
\<close>

primrec auto_get :: "surroundings \<Rightarrow> int \<Rightarrow> u64 \<Rightarrow> nat list \<Rightarrow> station \<Rightarrow> (station \<times> bytes list) option" where
  "auto_get env wr now [] st = Some (st, [])"
| "auto_get env wr now (i # is) st =
     (let j = m_jzqList (st_jzq st) ! i
      in if TimeElapse now (m_getTimer j) > 60000 then do {
           let j = j\<lparr>m_getTimer := now\<rparr>;
           let st = st\<lparr>st_jzq := (st_jzq st)\<lparr>m_jzqList := (m_jzqList (st_jzq st))[i := j]\<rparr>\<rparr>;
           (st, out, _) \<leftarrow> getallkwh_async_all env wr st j;
           (st, out') \<leftarrow> auto_get env wr now is st;
           Some (st, out @ out')
         } else auto_get env wr now is st)"

definition AutoGetAllKwh :: "surroundings \<Rightarrow> int \<Rightarrow> u64 \<Rightarrow> station \<Rightarrow> (station \<times> bytes list) option" where
  "AutoGetAllKwh env wr now st = auto_get env wr now [0..<length (m_jzqList (st_jzq st))] st"

definition AutoGetAllWater :: "u64 \<Rightarrow> station \<Rightarrow> station" where
  "AutoGetAllWater now st =
     st\<lparr>st_water := map (\<lambda>w. if TimeElapse now (w_getTimer w) > 60000 then w\<lparr>w_getTimer := now\<rparr> else w) (st_water st)\<rparr>"

end
