(* ===== verification/AfnAnswers.thy ===== *)
theory AfnAnswers
  imports AfnCalls "HOL-Library.Product_Lexorder"
begin

text \<open>
  Answers and the threads that wait for them: \<open>AppCall\<close>, \<open>DoHandleAck\<close>, \<open>notify\<close> and \<open>Wait\<close> of
  \<open>AFN/src/AFNPackageBuilder.cpp\<close>. The two sides run under one critical section, so what each does
  between entering and leaving it, or the wait inside it, is one step. \<open>HandlePkg\<close> does not reach
  this \<open>DoHandleAck\<close> (see \<open>AfnDispatch\<close>), because the method is not virtual.
\<close>

section \<open>The order of calls\<close>

text \<open>\<open>operator <\<close>, the order of the keys of \<open>cmdMap\<close>.\<close>

definition AppCall_less :: "app_call \<Rightarrow> app_call \<Rightarrow> bool" where
  "AppCall_less x y =
     (if ca_area x < ca_area y then True else if ca_area x > ca_area y then False
      else if ca_number x < ca_number y then True else if ca_number x > ca_number y then False
      else if ca_AFN x < ca_AFN y then True else if ca_AFN x > ca_AFN y then False
      else if ca_fn x < ca_fn y then True else if ca_fn x > ca_fn y then False
      else if ca_pn x < ca_pn y then True else if ca_pn x > ca_pn y then False
      else False)"

definition AppCall_eq :: "app_call \<Rightarrow> app_call \<Rightarrow> bool" where
  "AppCall_eq x y \<longleftrightarrow> ca_area x = ca_area y \<and> ca_number x = ca_number y \<and> ca_AFN x = ca_AFN y \<and>
     ca_fn x = ca_fn y \<and> ca_pn x = ca_pn y"

text \<open>It is the lexicographic order of the five numbers.\<close>

definition call_key :: "app_call \<Rightarrow> u16 \<times> u16 \<times> u8 \<times> u16 \<times> u16" where
  "call_key x = (ca_area x, ca_number x, ca_AFN x, ca_fn x, ca_pn x)"

lemma call_key_less: "AppCall_less x y \<longleftrightarrow> call_key x < call_key y"
  by (auto simp: AppCall_less_def call_key_def less_prod_def')

lemma call_key_inject: "call_key x = call_key y \<longleftrightarrow> x = y"
  by (cases x, cases y) (simp add: call_key_def)

instantiation app_call :: linorder
begin

definition less_app_call :: "app_call \<Rightarrow> app_call \<Rightarrow> bool" where "less_app_call x y = AppCall_less x y"
definition less_eq_app_call :: "app_call \<Rightarrow> app_call \<Rightarrow> bool" where "less_eq_app_call x y = (\<not> AppCall_less y x)"

instance
  by standard (auto simp: less_app_call_def less_eq_app_call_def call_key_less not_less call_key_inject [symmetric])

end

text \<open>Keys that neither precedes are equal calls.\<close>

lemma AppCall_less_total: "AppCall_eq x y \<longleftrightarrow> \<not> AppCall_less x y \<and> \<not> AppCall_less y x"
  using antisym_conv3 [of x y] unfolding less_app_call_def [symmetric] AppCall_eq_def by (cases x, cases y) auto

section \<open>Handling answers\<close>

type_synonym ack_handler = "pkg \<Rightarrow> ack_data option option"
type_synonym chain = "(nat \<times> ack_data) list"

text \<open>The object the handlers make of an answer: the last one registered for its function code.\<close>

primrec ack_object :: "(int \<times> ack_handler pkg_handler) list \<Rightarrow> pkg \<Rightarrow> ack_data option \<Rightarrow> ack_data option option" where
  "ack_object [] p d = Some d"
| "ack_object (h # hs) p d =
     (case ackHandler (snd h) of
        Some f \<Rightarrow>
          if fst h = int (unat (AFN (afnHeader (pAfn p)))) then do { d \<leftarrow> f p; ack_object hs p d }
          else ack_object hs p d
      | None \<Rightarrow> ack_object hs p d)"

text \<open>
  The chain of objects, named by their allocation; their data is parsed and the result of
  \<open>HandleData\<close> not looked at.
\<close>

primrec ack_chain :: "(int \<times> ack_handler pkg_handler) list \<Rightarrow> pkg list \<Rightarrow> nat \<Rightarrow> (chain \<times> nat) option" where
  "ack_chain hs [] k = Some ([], k)"
| "ack_chain hs (p # ps) k =
     (if C_FUN (C_c (userHeader p)) = 8 then do {
        d \<leftarrow> ack_object hs p None;
        case d of
          None \<Rightarrow> ack_chain hs ps k
        | Some d \<Rightarrow> do { (c, k') \<leftarrow> ack_chain hs ps (Suc k); Some ((k, fst (HandleData d)) # c, k') }
      } else ack_chain hs ps k)"

definition call_of :: "pkg \<Rightarrow> app_call" where
  "call_of p = App_call (A1 (userHeader p)) (A2 (userHeader p)) (AFN (afnHeader (pAfn p))) (Fn p) (pn p)"

section \<open>Notify and wait\<close>

text \<open>
  \<open>cmdMap\<close>, what was stored and deleted, the threads inside the loop of \<open>Wait\<close> and what \<open>Wait\<close>
  returned to which thread. A null pointer is \<open>None\<close>, an object is the chain it heads.
\<close>

record call_state =
  cmdMap :: "app_call \<Rightarrow> chain option option"
  db :: "string list"
  gone :: "nat list"
  waiting :: "(nat \<times> app_call) list"
  returned :: "(nat \<times> chain option) list"

definition calls_init :: call_state where
  "calls_init = \<lparr>cmdMap = \<lambda>_. None, db = [], gone = [], waiting = [], returned = []\<rparr>"

text \<open>What storing takes from outside.\<close>

record db_env =
  d_int :: "int \<Rightarrow> string"
  d_float :: "rat \<Rightarrow> string"
  d_jzq :: "jzq list"

definition saveResultToDB :: "db_env \<Rightarrow> app_call \<Rightarrow> chain option \<Rightarrow> call_state \<Rightarrow> call_state option" where
  "saveResultToDB env call data s =
     (case data of
        Some ((_, d) # _) \<Rightarrow>
          if ca_AFN call = 0x0C then do {
            (_, sql) \<leftarrow> toDB (d_int env) (d_float env) (d_jzq env) d (ca_area call) (ca_number call) (ca_pn call);
            Some (s\<lparr>db := db s @ sql\<rparr>)
          } else Some s
      | _ \<Rightarrow> Some s)"

definition head_id :: "chain option \<Rightarrow> nat list" where
  "head_id data = (case data of Some ((i, _) # _) \<Rightarrow> [i] | _ \<Rightarrow> [])"

definition notify :: "db_env \<Rightarrow> app_call \<Rightarrow> chain option \<Rightarrow> call_state \<Rightarrow> call_state option" where
  "notify env call data s =
     (if cmdMap s call \<noteq> None
      then saveResultToDB env call data (s\<lparr>cmdMap := (cmdMap s)(call \<mapsto> data)\<rparr>)
      else do {
        s \<leftarrow> saveResultToDB env call data s;
        Some (s\<lparr>gone := gone s @ head_id data\<rparr>)
      })"

definition AFN_DoHandleAck ::
  "db_env \<Rightarrow> (int \<times> ack_handler pkg_handler) list \<Rightarrow> pkg list \<Rightarrow> nat \<Rightarrow> call_state \<Rightarrow> (call_state \<times> nat \<times> int) option" where
  "AFN_DoHandleAck env hs acks k s =
     (if acks = [] then Some (s, k, -1)
      else do {
        (c, k') \<leftarrow> ack_chain hs acks k;
        s \<leftarrow> notify env (call_of (last acks)) (if c = [] then None else Some c) s;
        Some (s, k', YQER_OK)
      })"

text \<open>
  \<open>Wait\<close>: a thread enters and finds its place empty; it wakes and looks at its place, which
  \<open>operator[]\<close> makes when it is gone; or its time is over and it takes what is there.
\<close>

definition wait_enter :: "nat \<Rightarrow> app_call \<Rightarrow> call_state \<Rightarrow> call_state" where
  "wait_enter t call s = s\<lparr>cmdMap := (cmdMap s)(call \<mapsto> None), waiting := (t, call) # waiting s\<rparr>"

definition wait_return :: "nat \<Rightarrow> app_call \<Rightarrow> chain option \<Rightarrow> call_state \<Rightarrow> call_state" where
  "wait_return t call p s =
     s\<lparr>cmdMap := (cmdMap s)(call := None), waiting := filter (\<lambda>w. fst w \<noteq> t) (waiting s), returned := (t, p) # returned s\<rparr>"

definition place :: "app_call \<Rightarrow> call_state \<Rightarrow> chain option" where
  "place call s = (case cmdMap s call of None \<Rightarrow> None | Some p \<Rightarrow> p)"

definition wait_wake :: "nat \<Rightarrow> app_call \<Rightarrow> call_state \<Rightarrow> call_state" where
  "wait_wake t call s =
     (case place call s of
        None \<Rightarrow> s\<lparr>cmdMap := (cmdMap s)(call \<mapsto> None)\<rparr>
      | Some p \<Rightarrow> wait_return t call (Some p) s)"

definition wait_timeout :: "nat \<Rightarrow> app_call \<Rightarrow> call_state \<Rightarrow> call_state" where
  "wait_timeout t call s = wait_return t call (place call s) s"

text \<open>The steps of all threads. The receiving thread allocates its objects one after the other.\<close>

inductive call_step :: "db_env \<Rightarrow> call_state \<times> nat \<Rightarrow> call_state \<times> nat \<Rightarrow> bool" for env where
  enter: "t \<notin> fst ` set (waiting s) \<Longrightarrow> call_step env (s, k) (wait_enter t call s, k)"
| wake: "(t, call) \<in> set (waiting s) \<Longrightarrow> call_step env (s, k) (wait_wake t call s, k)"
| timeout: "(t, call) \<in> set (waiting s) \<Longrightarrow> call_step env (s, k) (wait_timeout t call s, k)"
| answer: "AFN_DoHandleAck env hs acks k s = Some (s', k', r) \<Longrightarrow> call_step env (s, k) (s', k')"

inductive_cases call_stepE: "call_step env sk sk'"

definition calls_reachable :: "db_env \<Rightarrow> call_state \<times> nat \<Rightarrow> bool" where
  "calls_reachable env sk \<longleftrightarrow> (call_step env)\<^sup>*\<^sup>* (calls_init, 0) sk"

end
