(* ===== verification/AfnMeterProofs.thy ===== *)
theory AfnMeterProofs
  imports AfnMeter
begin

text \<open>
  What a terminal sends for dates and readings, as binary coded decimals, and that the parsers of
  \<open>AfnMeter\<close> read it back.
\<close>

section \<open>Binary coded decimals\<close>

definition bcd :: "nat \<Rightarrow> u8" where
  "bcd n = word_of_nat (n div 10 * 16 + n mod 10)"

lemma bcd_digits:
  assumes "n < 100"
  shows "hi_digit (bcd n) = n div 10" "lo_digit (bcd n) = n mod 10" "two_digits (bcd n) = n" "bcd n \<noteq> 0xee"
proof -
  have "list_all (\<lambda>n. hi_digit (bcd n) = n div 10 \<and> lo_digit (bcd n) = n mod 10 \<and> bcd n \<noteq> 0xee) [0..<100]"
    by code_simp
  moreover have "n \<in> set [0..<100]" using assms by simp
  ultimately show "hi_digit (bcd n) = n div 10" "lo_digit (bcd n) = n mod 10" "bcd n \<noteq> 0xee"
    unfolding list_all_iff by blast+
  then show "two_digits (bcd n) = n" by (simp add: two_digits_def)
qed

text \<open>A date, and a number in units of the last decimal place, least significant byte first.\<close>

definition date5_bytes :: "nat \<Rightarrow> nat \<Rightarrow> nat \<Rightarrow> nat \<Rightarrow> nat \<Rightarrow> bytes" where
  "date5_bytes year mon day hour mi = map bcd [mi, hour, day, mon, year]"

definition table14_bytes :: "nat \<Rightarrow> bytes" where
  "table14_bytes n = map (\<lambda>k. bcd (n div k mod 100)) [1, 100, 10000, 1000000, 100000000]"

definition table11_bytes :: "nat \<Rightarrow> bytes" where
  "table11_bytes n = map (\<lambda>k. bcd (n div k mod 100)) [1, 100, 10000, 1000000]"

lemma table_bytes_length [simp]: "length (table14_bytes n) = 5" "length (table11_bytes n) = 4"
  by (simp_all add: table14_bytes_def table11_bytes_def)

lemma parse_date5:
  assumes "\<forall>x \<in> {year, mon, day, hour, mi}. x < 100" "5 \<le> left"
  shows "parseDateTime5 (date5_bytes year mon day hour mi @ rest) left = Some (5, print_date year mon day hour mi ''00'')"
  using assms by (simp add: parseDateTime5_def date5_bytes_def bcd_digits)

lemma collect14:
  fixes a1 a0 b1 b0 c1 c0 d1 d0 e1 e0 :: nat
  shows "(a1 * 10 + a0) * 100000000 + (b1 * 10 + b0) * 1000000 + (c1 * 10 + c0) * 10000 + (d1 * 10 + d0) * 100 + (e1 * 10 + e0) =
    (a1 * 100000 + a0 * 10000 + b1 * 1000 + b0 * 100 + c1 * 10 + c0) * 10000 + d1 * 1000 + d0 * 100 + e1 * 10 + e0"
  by simp

lemma collect11:
  fixes b1 b0 c1 c0 d1 d0 e1 e0 :: nat
  shows "(b1 * 10 + b0) * 1000000 + (c1 * 10 + c0) * 10000 + (d1 * 10 + d0) * 100 + (e1 * 10 + e0) =
    (b1 * 100000 + b0 * 10000 + c1 * 1000 + c0 * 100 + d1 * 10 + d0) * 100 + e1 * 10 + e0"
  by simp

lemma parse_table14:
  assumes "n < 10 ^ 10" "5 \<le> left"
  shows "parseTable14 (table14_bytes n @ rest) left = Some (5, of_nat n / 10 ^ 4)"
proof -
  define a b c d e where dig: "a = n div 100000000 mod 100" "b = n div 1000000 mod 100" "c = n div 10000 mod 100"
    "d = n div 100 mod 100" "e = n mod 100"
  have n: "n = a * 100000000 + b * 1000000 + c * 10000 + d * 100 + e"
    using assms(1) mod_mult2_eq [of n 100000000 100] mod_mult2_eq [of n 1000000 100] mod_mult2_eq [of n 10000 100]
      mod_mult2_eq [of n 100 100] unfolding dig by simp
  have lt: "a < 100" "b < 100" "c < 100" "d < 100" "e < 100" unfolding dig by simp_all
  define A where "A = a div 10 * 100000 + a mod 10 * 10000 + b div 10 * 1000 + b mod 10 * 100 + c div 10 * 10 + c mod 10"
  have A: "n = A * 10000 + d div 10 * 1000 + d mod 10 * 100 + e div 10 * 10 + e mod 10"
    unfolding n A_def using collect14 [of "a div 10" "a mod 10" "b div 10" "b mod 10" "c div 10" "c mod 10" "d div 10" "d mod 10"
      "e div 10" "e mod 10"] by (simp only: div_mult_mod_eq)
  have "table14_bytes n = map bcd [e, d, c, b, a]" by (simp add: table14_bytes_def dig)
  then have t: "parseTable14 (table14_bytes n @ rest) left = Some (5, of_nat A + of_nat (d div 10) / 10 + of_nat (d mod 10) / 100 +
      of_nat (e div 10) / 1000 + of_nat (e mod 10) / 10000)"
    using assms(2) bcd_digits [OF lt(1)] bcd_digits [OF lt(2)] bcd_digits [OF lt(3)] bcd_digits [OF lt(4)] bcd_digits [OF lt(5)]
    by (simp add: parseTable14_def A_def)
  have "(of_nat n :: rat) / 10 ^ 4 = of_nat A + of_nat (d div 10) / 10 + of_nat (d mod 10) / 100 +
      of_nat (e div 10) / 1000 + of_nat (e mod 10) / 10000"
    unfolding A of_nat_add of_nat_mult add_divide_distrib by simp
  then show ?thesis using t by simp
qed

lemma parse_table11:
  assumes "n < 10 ^ 8" "4 \<le> left"
  shows "parseTable11 (table11_bytes n @ rest) left = Some (4, of_nat n / 10 ^ 2)"
proof -
  define b c d e where dig: "b = n div 1000000 mod 100" "c = n div 10000 mod 100" "d = n div 100 mod 100" "e = n mod 100"
  have "n mod 1000000 = c * 10000 + d * 100 + e" "b = n div 1000000"
    using assms(1) mod_mult2_eq [of n 10000 100] mod_mult2_eq [of n 100 100] by (simp_all add: dig div_less_iff_less_mult)
  then have n: "n = b * 1000000 + c * 10000 + d * 100 + e" using div_mult_mod_eq [of n 1000000] by linarith
  have lt: "b < 100" "c < 100" "d < 100" "e < 100" unfolding dig by simp_all
  define A where "A = b div 10 * 100000 + b mod 10 * 10000 + c div 10 * 1000 + c mod 10 * 100 + d div 10 * 10 + d mod 10"
  have A: "n = A * 100 + e div 10 * 10 + e mod 10"
    unfolding n A_def using collect11 [of "b div 10" "b mod 10" "c div 10" "c mod 10" "d div 10" "d mod 10"
      "e div 10" "e mod 10"] by (simp only: div_mult_mod_eq)
  have "table11_bytes n = map bcd [e, d, c, b]" by (simp add: table11_bytes_def dig)
  then have t: "parseTable11 (table11_bytes n @ rest) left = Some (4, of_nat A + of_nat (e div 10) / 10 + of_nat (e mod 10) / 100)"
    using assms(2) bcd_digits [OF lt(1)] bcd_digits [OF lt(2)] bcd_digits [OF lt(3)] bcd_digits [OF lt(4)]
    by (simp add: parseTable11_def A_def)
  have "(of_nat n :: rat) / 10 ^ 2 = of_nat A + of_nat (e div 10) / 10 + of_nat (e mod 10) / 100"
    unfolding A of_nat_add of_nat_mult add_divide_distrib by simp
  then show ?thesis using t by simp
qed

section \<open>The readings\<close>

text \<open>A way to write readings that a table's parser reads back.\<close>

definition reads :: "(bytes \<Rightarrow> int \<Rightarrow> (nat \<times> rat) option) \<Rightarrow> nat \<Rightarrow> nat \<Rightarrow> rat \<Rightarrow> (nat \<Rightarrow> bytes) \<Rightarrow> bool" where
  "reads table w bound unit enc \<longleftrightarrow>
     (\<forall>n left rest. n < bound \<longrightarrow> int w \<le> left \<longrightarrow> table (enc n @ rest) left = Some (w, of_nat n / unit)) \<and>
     (\<forall>n. length (enc n) = w)"

lemma reads_tables: "reads parseTable14 5 (10 ^ 10) (10 ^ 4) table14_bytes" "reads parseTable11 4 (10 ^ 8) (10 ^ 2) table11_bytes"
  unfolding reads_def using parse_table14 parse_table11 by auto

lemma reads_one:
  assumes "reads table w bound unit enc" "n < bound" "int w \<le> left"
  shows "table (enc n @ rest) left = Some (w, of_nat n / unit)"
  using assms unfolding reads_def by blast

lemma room_for_one: "int (w * Suc k) \<le> left \<Longrightarrow> int w \<le> left"
  by (metis mult_Suc_right of_nat_mono le_add1 order_trans)

lemma read_fees_enc:
  assumes "reads table w bound unit enc" "\<forall>n \<in> set ns. n < bound" "int (w * length ns) \<le> left"
  shows "read_fees table (length ns) (concat (map enc ns) @ rest) left =
      (map (\<lambda>n. Some (of_nat n / unit)) ns, Some (rest, left - int (w * length ns)))"
  using assms(2,3)
proof (induction ns arbitrary: left)
  case (Cons n ns)
  have l: "length (enc n) = w" using assms(1) by (simp add: reads_def)
  have t: "table (enc n @ concat (map enc ns) @ rest) left = Some (w, of_nat n / unit)"
    by (rule reads_one [OF assms(1)]) (use Cons.prems room_for_one in auto)
  have "int (w * length ns) \<le> left - int w" using Cons.prems(2) by (simp add: algebra_simps)
  from Cons.IH [OF _ this] Cons.prems(1) show ?case using l t by (simp add: algebra_simps)
qed simp

text \<open>A total with its array, as it is sent.\<close>

definition tariffs_bytes :: "(nat \<Rightarrow> bytes) \<Rightarrow> nat \<times> nat list \<Rightarrow> bytes" where
  "tariffs_bytes enc t = enc (fst t) @ concat (map enc (snd t))"

definition tariffs_of :: "rat \<Rightarrow> nat \<times> nat list \<Rightarrow> tariffs" where
  "tariffs_of unit t = \<lparr>total = Some (of_nat (fst t) / unit), fees = Some (map (\<lambda>n. Some (of_nat n / unit)) (snd t))\<rparr>"

definition tariffs_below :: "nat \<Rightarrow> nat \<Rightarrow> nat \<times> nat list \<Rightarrow> bool" where
  "tariffs_below m bound t \<longleftrightarrow> length (snd t) = m \<and> fst t < bound \<and> (\<forall>n \<in> set (snd t). n < bound)"

lemma read_tariffs_enc:
  assumes "reads table w bound unit enc" "tariffs_below m bound t" "int (w * Suc m) \<le> left"
  shows "read_tariffs checked table m (tariffs_bytes enc t @ rest) left old =
      (tariffs_of unit t, Some (rest, left - int (w * Suc m)))"
proof -
  have l: "length (enc (fst t)) = w" using assms(1) by (simp add: reads_def)
  have tb: "table (enc (fst t) @ concat (map enc (snd t)) @ rest) left = Some (w, of_nat (fst t) / unit)"
    by (rule reads_one [OF assms(1)]) (use assms(2,3) room_for_one in \<open>auto simp: tariffs_below_def\<close>)
  have "int (w * length (snd t)) \<le> left - int w" using assms(2,3) by (simp add: tariffs_below_def algebra_simps)
  from read_fees_enc [OF assms(1) _ this, of rest] show ?thesis
    using assms(2) l tb by (simp add: read_tariffs_def tariffs_bytes_def tariffs_of_def tariffs_below_def algebra_simps)
qed

lemma tariffs_bytes_length:
  "reads table w bound unit enc \<Longrightarrow> length (tariffs_bytes enc t) = w * Suc (length (snd t))"
proof -
  assume "reads table w bound unit enc"
  then have "length (concat (map enc ns)) = w * length ns" for ns by (induction ns) (simp_all add: reads_def)
  with \<open>reads table w bound unit enc\<close> show ?thesis by (simp add: tariffs_bytes_def reads_def)
qed

text \<open>The whole answer.\<close>

definition kwh_bytes :: "bytes \<Rightarrow> nat \<Rightarrow> nat \<times> nat list \<Rightarrow> nat \<times> nat list \<Rightarrow> nat \<times> nat list \<Rightarrow> nat \<times> nat list \<Rightarrow> bytes" where
  "kwh_bytes date m u d e f = date @ [word_of_nat m] @ tariffs_bytes table14_bytes u @ tariffs_bytes table11_bytes d @
     tariffs_bytes table11_bytes e @ tariffs_bytes table11_bytes f"

lemma left_of_small:
  assumes "length (m_pData d) < 2 ^ 31"
  shows "left_of d = int (length (m_pData d))"
proof -
  have "uint (ucast (m_nLen d) :: u32) = int (length (m_pData d))"
    using assms by (simp add: m_nLen_def unsigned_ucast_eq unsigned_of_nat take_bit_nat_eq_self take_bit_int_eq_self)
  then show ?thesis
    using assms by (simp add: left_of_def sint_uint signed_take_bit_int_eq_self)
qed

section \<open>The whole answer\<close>

definition kwh_of :: "string \<Rightarrow> nat \<Rightarrow> nat \<times> nat list \<Rightarrow> nat \<times> nat list \<Rightarrow> nat \<times> nat list \<Rightarrow> nat \<times> nat list \<Rightarrow> all_kwh" where
  "kwh_of dt m u d e f = \<lparr>kwh_dt = dt, kwh_m = Some m, userkwh = tariffs_of (10 ^ 4) u, devkwh = tariffs_of (10 ^ 2) d,
     onekwh = tariffs_of (10 ^ 2) e, fourkwh = tariffs_of (10 ^ 2) f\<rparr>"

lemma tariffs_lengths:
  "length (tariffs_bytes table14_bytes t) = 5 * Suc (length (snd t))" "length (tariffs_bytes table11_bytes t) = 4 * Suc (length (snd t))"
  by (simp_all add: tariffs_bytes_length [OF reads_tables(1)] tariffs_bytes_length [OF reads_tables(2)])

lemma read_all_enc:
  assumes "tariffs_below m (10 ^ 10) u" "\<forall>t \<in> {d, e, f}. tariffs_below m (10 ^ 8) t" "int (5 * Suc m + 3 * (4 * Suc m)) \<le> left"
  shows "read_all_tariffs m (tariffs_bytes table14_bytes u @ tariffs_bytes table11_bytes d @
      tariffs_bytes table11_bytes e @ tariffs_bytes table11_bytes f @ rest) left k =
    (k\<lparr>userkwh := tariffs_of (10 ^ 4) u, devkwh := tariffs_of (10 ^ 2) d, onekwh := tariffs_of (10 ^ 2) e,
       fourkwh := tariffs_of (10 ^ 2) f\<rparr>, YQER_OK)"
proof -
  have u: "read_tariffs True parseTable14 m (tariffs_bytes table14_bytes u @ tl) left t =
      (tariffs_of (10 ^ 4) u, Some (tl, left - int (5 * Suc m)))" for tl t
    by (rule read_tariffs_enc [OF reads_tables(1) assms(1)]) (use assms(3) in simp)
  have "read_tariffs c parseTable11 m (tariffs_bytes table11_bytes x @ tl) l t =
      (tariffs_of (10 ^ 2) x, Some (tl, l - int (4 * Suc m)))" if "x \<in> {d, e, f}" "int (4 * Suc m) \<le> l" for c x tl l t
    by (rule read_tariffs_enc [OF reads_tables(2)]) (use assms(2) that in auto)
  then show ?thesis using assms(3) by (simp add: read_all_tariffs_def u)
qed

lemma HandleData_kwh:
  assumes "1 \<le> m" "m \<le> 12" "parseDateTime5 (m_pData data) (left_of data) = Some (5, dt)" "length date = 5"
    and "tariffs_below m (10 ^ 10) u" "\<forall>t \<in> {d, e, f}. tariffs_below m (10 ^ 8) t"
    and "m_pData data = kwh_bytes date m u d e f @ rest" "length (m_pData data) < 2 ^ 31"
  shows "AllKwh_HandleData data k = (kwh_of dt m u d e f, YQER_OK)"
proof -
  have left: "int (5 * Suc m + 3 * (4 * Suc m)) \<le> left_of data - 6"
    using assms(4-7) left_of_small [OF assms(8)] by (simp add: kwh_bytes_def tariffs_lengths tariffs_below_def)
  have p: "drop 5 (m_pData data) ! 0 = word_of_nat m" "drop 6 (m_pData data) = tariffs_bytes table14_bytes u @
      tariffs_bytes table11_bytes d @ tariffs_bytes table11_bytes e @ tariffs_bytes table11_bytes f @ rest"
    using assms(4,7) by (simp_all add: kwh_bytes_def)
  have m: "unat (word_of_nat m :: u8) = m" using assms(2) by (simp add: unsigned_of_nat take_bit_nat_eq_self)
  show ?thesis
    using assms(1,2,3) left by (simp add: AllKwh_HandleData_def Let_def p m kwh_of_def read_all_enc [OF assms(5,6) left])
qed

end
