(* ===== verification/AfnAnswersProofs.thy ===== *)
theory AfnAnswersProofs
  imports AfnAnswers AfnMeterProofs
begin

text \<open>
  The answers of a concentrator: each object made of one is handed to at most one waiting thread or
  deleted, never both; and a well formed answer with the readings of a meter is stored.
\<close>

section \<open>Objects are handed over once\<close>

definition handed :: "call_state \<Rightarrow> nat list" where
  "handed s = concat (map (\<lambda>r. head_id (snd r)) (returned s))"

text \<open>The object in the place of a call.\<close>

definition held :: "call_state \<Rightarrow> app_call \<Rightarrow> nat set" where
  "held s c = set (head_id (place c s))"

definition used :: "call_state \<Rightarrow> nat set" where
  "used s = set (gone s) \<union> set (handed s)"

definition once_ok :: "call_state \<times> nat \<Rightarrow> bool" where
  "once_ok sk \<longleftrightarrow> (case sk of (s, k) \<Rightarrow> distinct (gone s @ handed s) \<and> used s \<subseteq> {..<k} \<and>
     (\<forall>c. held s c \<subseteq> {..<k} - used s) \<and> (\<forall>c c'. c \<noteq> c' \<longrightarrow> held s c \<inter> held s c' = {}))"

lemma head_id_simps [simp]: "head_id None = []" "head_id (Some (x # c)) = [fst x]"
  by (auto simp: head_id_def split: prod.splits)

lemma distinct_head_id [simp]: "distinct (head_id p)"
  by (auto simp: head_id_def split: option.splits list.splits)

lemma once_ok_same:
  assumes "once_ok (s, k)" "gone s' = gone s" "handed s' = handed s" "\<And>c. held s' c \<subseteq> held s c"
  shows "once_ok (s', k)"
proof -
  have u: "used s' = used s" using assms(2,3) by (simp add: used_def)
  have "distinct (gone s @ handed s)" "used s \<subseteq> {..<k}" "\<forall>c. held s c \<subseteq> {..<k} - used s"
    "\<forall>c c'. c \<noteq> c' \<longrightarrow> held s c \<inter> held s c' = {}"
    using assms(1) unfolding once_ok_def by simp_all
  with assms(4) show ?thesis unfolding once_ok_def prod.case assms(2,3) u by blast
qed

lemma once_ok_enter: "once_ok (s, k) \<Longrightarrow> once_ok (wait_enter t c s, k)"
  by (rule once_ok_same) (auto simp: wait_enter_def handed_def held_def place_def split: if_splits)

lemma once_ok_return:
  assumes "once_ok (s, k)" "p = place c s"
  shows "once_ok (wait_return t c p s, k)"
proof -
  let ?s = "wait_return t c p s"
  have h: "gone ?s = gone s" "handed ?s = head_id p @ handed s" by (simp_all add: wait_return_def handed_def)
  have m: "held ?s c' = (if c' = c then {} else held s c')" for c' by (simp add: wait_return_def held_def place_def)
  have p: "set (head_id p) = held s c" by (simp add: held_def assms(2))
  have u: "used ?s = used s \<union> held s c" using p by (auto simp: used_def h)
  have o: "distinct (gone s @ handed s)" "used s \<subseteq> {..<k}" "held s c' \<subseteq> {..<k} - used s"
      "c' \<noteq> c'' \<Longrightarrow> held s c' \<inter> held s c'' = {}" for c' c''
    using assms(1) unfolding once_ok_def by simp_all
  have "distinct (gone ?s @ handed ?s)" using o(1) o(3) [of c] p by (auto simp: h used_def)
  moreover have "used ?s \<subseteq> {..<k}" using o(2) o(3) [of c] u by blast
  moreover have "held ?s c' \<subseteq> {..<k} - used ?s" for c' using o(3) [of c'] o(4) [of c' c] unfolding m u by auto
  moreover have "held ?s c' \<inter> held ?s c'' = {}" if "c' \<noteq> c''" for c' c'' using o(4) [OF that] unfolding m by auto
  ultimately show ?thesis unfolding once_ok_def prod.case by blast
qed

lemma once_ok_wake:
  assumes "once_ok (s, k)"
  shows "once_ok (wait_wake t c s, k)"
proof (cases "place c s")
  case None
  have "once_ok (s\<lparr>cmdMap := (cmdMap s)(c \<mapsto> None)\<rparr>, k)"
    by (rule once_ok_same [OF assms]) (auto simp: handed_def held_def place_def split: if_splits)
  with None show ?thesis by (simp add: wait_wake_def)
next
  case (Some p)
  then show ?thesis using once_ok_return [OF assms Some [symmetric]] by (simp add: wait_wake_def)
qed

lemma ack_chain_ids:
  "ack_chain hs ps k = Some (c, k') \<Longrightarrow> k \<le> k' \<and> (\<forall>x \<in> set c. k \<le> fst x \<and> fst x < k')"
proof (induction ps arbitrary: k c k')
  case (Cons p ps)
  show ?case
  proof (cases "C_FUN (C_c (userHeader p)) = 8")
    case True
    with Cons.prems obtain d where d: "ack_object hs p None = Some d" by (auto split: bind_splits)
    show ?thesis
    proof (cases d)
      case None
      with Cons True d show ?thesis by simp
    next
      case (Some e)
      with Cons.prems True d obtain c0 where c: "ack_chain hs ps (Suc k) = Some (c0, k')" "c = (k, fst (HandleData e)) # c0"
        by (auto split: bind_splits)
      from Cons.IH [OF c(1)] show ?thesis by (auto simp: c(2))
    qed
  next
    case False
    with Cons show ?thesis by simp
  qed
qed simp

lemma saveResult_only_db: "saveResultToDB env call data s = Some s' \<Longrightarrow> \<exists>x. s' = s\<lparr>db := x\<rparr>"
proof -
  assume "saveResultToDB env call data s = Some s'"
  then have "s' = s \<or> (\<exists>x. s' = s\<lparr>db := x\<rparr>)"
    by (auto simp: saveResultToDB_def split: option.splits list.splits if_splits bind_splits)
  moreover have "s = s\<lparr>db := db s\<rparr>" by simp
  ultimately show ?thesis by blast
qed

lemma once_ok_notify:
  assumes "once_ok (s, k)" "notify env c data s = Some s'" "k \<le> k'" "set (head_id data) \<subseteq> {k..<k'}"
  shows "once_ok (s', k')"
proof -
  define K K' where K: "K = {..<k}" "K' = {..<k'}"
  have o: "distinct (gone s @ handed s)" "used s \<subseteq> K" "held s c' \<subseteq> K - used s"
      "c' \<noteq> c'' \<Longrightarrow> held s c' \<inter> held s c'' = {}" for c' c''
    using assms(1) unfolding once_ok_def K by simp_all
  have "{k..<k'} \<inter> K = {}" "{k..<k'} \<subseteq> K'" and up: "K \<subseteq> K'" using assms(3) by (auto simp: K)
  then have f: "set (head_id data) \<inter> K = {}" "set (head_id data) \<subseteq> K'" using assms(4) by auto
  have new: "set (head_id data) \<inter> used s = {}" "set (head_id data) \<inter> held s c' = {}" for c'
    using f(1) o(2) o(3) [of c'] by blast+
  show ?thesis
  proof (cases "cmdMap s c")
    case None
    then obtain x where s': "s' = s\<lparr>db := x, gone := gone s @ head_id data\<rparr>"
      using assms(2) by (auto simp: notify_def dest: saveResult_only_db split: bind_splits)
    have h: "gone s' = gone s @ head_id data" "handed s' = handed s" "held s' = held s"
      by (simp_all add: s' handed_def held_def place_def fun_eq_iff)
    have u: "used s' = used s \<union> set (head_id data)" by (auto simp: used_def h)
    have "distinct (gone s' @ handed s')" using o(1) new(1) by (auto simp: h used_def)
    moreover have "used s' \<subseteq> K'" using o(2) up f(2) unfolding u by blast
    moreover have "held s' c' \<subseteq> K' - used s'" for c' using o(3) [of c'] new(2) [of c'] up unfolding u h by blast
    ultimately show ?thesis using o(4) unfolding once_ok_def prod.case h(3) K by blast
  next
    case (Some p)
    then obtain x where s': "s' = s\<lparr>cmdMap := (cmdMap s)(c \<mapsto> data), db := x\<rparr>"
      using assms(2) saveResult_only_db [of env c data "s\<lparr>cmdMap := (cmdMap s)(c \<mapsto> data)\<rparr>" s'] by (auto simp: notify_def)
    have h: "gone s' = gone s" "handed s' = handed s" "used s' = used s" by (simp_all add: s' handed_def used_def)
    have m: "held s' c' = (if c' = c then set (head_id data) else held s c')" for c' by (simp add: s' held_def place_def)
    have "held s' c' \<subseteq> K' - used s'" for c' using o(3) [of c'] new(1) up f(2) unfolding m h by (cases "c' = c") auto
    moreover have "held s' c' \<inter> held s' c'' = {}" if "c' \<noteq> c''" for c' c'' using o(4) [OF that] new(2) that unfolding m by auto
    moreover have "used s \<subseteq> K'" using o(2) up by blast
    ultimately show ?thesis using o(1) unfolding once_ok_def prod.case h K by blast
  qed
qed

lemma once_ok_answer:
  assumes "once_ok (s, k)" "AFN_DoHandleAck env hs acks k s = Some (s', k', r)"
  shows "once_ok (s', k')"
proof (cases "acks = []")
  case False
  then obtain c where c: "ack_chain hs acks k = Some (c, k')"
      "notify env (call_of (last acks)) (if c = [] then None else Some c) s = Some s'"
    using assms(2) by (auto simp: AFN_DoHandleAck_def split: bind_splits)
  have "set (head_id (if c = [] then None else Some c)) \<subseteq> {k..<k'}"
    using ack_chain_ids [OF c(1)] by (cases c) auto
  then show ?thesis using once_ok_notify [OF assms(1) c(2)] ack_chain_ids [OF c(1)] by blast
qed (use assms in \<open>simp add: AFN_DoHandleAck_def\<close>)

lemma once_ok_step: "call_step env sk sk' \<Longrightarrow> once_ok sk \<Longrightarrow> once_ok sk'"
  by (induction rule: call_step.induct) (auto simp: once_ok_enter once_ok_wake once_ok_return wait_timeout_def dest: once_ok_answer)

lemma once_ok_init: "once_ok (calls_init, 0)"
  by (simp add: once_ok_def calls_init_def handed_def held_def used_def place_def)

lemma reachable_once_ok: "calls_reachable env sk \<Longrightarrow> once_ok sk"
  unfolding calls_reachable_def by (induction rule: rtranclp_induct) (use once_ok_init once_ok_step in blast)+

section \<open>The readings of a meter\<close>

lemma print_fees_all: "length ns = m \<Longrightarrow> \<exists>x. print_fees pf m (Some (map (\<lambda>n. Some (of_nat n / unit)) ns)) = Some x"
  by (auto simp: print_fees_def)

lemma toDB_kwh:
  assumes "\<forall>t \<in> {u, d, e, f}. length (snd t) = m" "GetEleID js a1 a2 n \<noteq> -1"
  shows "\<exists>sql. toDB pint pf js (All_kwh x (kwh_of dt m u d e f)) a1 a2 n = Some (YQER_OK, [sql])"
proof -
  obtain us ds es fs where
    "print_fees pf m (Some (map (\<lambda>n. Some (of_nat n / 10 ^ 4)) (snd u))) = Some us"
    "print_fees pf m (Some (map (\<lambda>n. Some (of_nat n / 10 ^ 2)) (snd d))) = Some ds"
    "print_fees pf m (Some (map (\<lambda>n. Some (of_nat n / 10 ^ 2)) (snd e))) = Some es"
    "print_fees pf m (Some (map (\<lambda>n. Some (of_nat n / 10 ^ 2)) (snd f))) = Some fs"
    using assms(1) print_fees_all [of "snd u" m] print_fees_all [of "snd d" m] print_fees_all [of "snd e" m]
      print_fees_all [of "snd f" m] by (metis insertCI)
  then show ?thesis using assms(2) by (simp add: AllKwh_toDB_def kwh_of_def tariffs_of_def Let_def)
qed

abbreviation ack_handlers :: "(int \<times> ack_handler pkg_handler) list" where
  "ack_handlers \<equiv> power_handlers AFN0C_HandleAck"

lemma ack_object_0C: "AFN (afnHeader (pAfn p)) = 0x0C \<Longrightarrow> ack_object ack_handlers p None = AFN0C_HandleAck p"
  by (auto simp: power_handlers_def Register_def split: option.splits bind_splits)

text \<open>
  Property C37: in every reachable state of the waiting threads and the receiving thread, an
  object made of an answer was deleted by the receiver at most once, was handed to at most one
  waiting thread, and not both.
\<close>

theorem answers_handed_once:
  assumes "calls_reachable env (s, k)"
  shows "distinct (gone s @ concat (map (\<lambda>r. head_id (snd r)) (returned s)))"
  using reachable_once_ok [OF assms] by (simp add: once_ok_def handed_def)

lemma read_fees_short: "read_fees table m p left = (fs, None) \<Longrightarrow> length fs = m \<and> None \<in> set fs"
proof (induction m arbitrary: p left fs)
  case (Suc m)
  show ?case
  proof (cases "table p left")
    case None
    with Suc.prems show ?thesis by auto
  next
    case (Some a)
    then obtain len v where a: "table p left = Some (len, v)" by (cases a) auto
    obtain fs' r where f: "read_fees table m (drop len p) (left - int len) = (fs', r)" by fastforce
    with a Suc.prems have "fs = Some v # fs'" "r = None" by auto
    with Suc.IH [of "drop len p" "left - int len" fs'] f show ?thesis by auto
  qed
qed simp

lemma read_tariffs_short:
  assumes "read_tariffs True table m p left t = (t', None)" "fees t = None"
  shows "print_fees pf m (fees t') = None"
proof (cases "table p left")
  case None
  with assms show ?thesis by (simp add: read_tariffs_def print_fees_def)
next
  case (Some a)
  then obtain len v where a: "table p left = Some (len, v)" by (cases a) auto
  obtain fs r where f: "read_fees table m (drop len p) (left - int len) = (fs, r)" by fastforce
  with a assms(1) have "fees t' = Some fs" "r = None" by (auto simp: read_tariffs_def)
  with read_fees_short f show ?thesis by (fastforce simp: print_fees_def)
qed

lemma read_all_short:
  assumes "read_all_tariffs m p left k = (k', r)" "r \<noteq> YQER_OK" "fees (fourkwh k) = None" "kwh_m k = Some m"
  shows "kwh_m k' = Some m \<and> print_fees pf m (fees (fourkwh k')) = None"
proof -
  obtain t1 r1 where 1: "read_tariffs True parseTable14 m p left (userkwh k) = (t1, r1)" by fastforce
  show ?thesis
  proof (cases r1)
    case None
    with 1 assms show ?thesis by (auto simp: read_all_tariffs_def print_fees_def)
  next
    case (Some q1)
    then obtain p1 l1 where q1: "r1 = Some (p1, l1)" by (cases q1) auto
    obtain t2 r2 where 2: "read_tariffs False parseTable11 m p1 l1 (devkwh k) = (t2, r2)" by fastforce
    show ?thesis
    proof (cases r2)
      case None
      with 1 2 q1 assms show ?thesis by (auto simp: read_all_tariffs_def print_fees_def)
    next
      case (Some q2)
      then obtain p2 l2 where q2: "r2 = Some (p2, l2)" by (cases q2) auto
      obtain t3 r3 where 3: "read_tariffs True parseTable11 m p2 l2 (onekwh k) = (t3, r3)" by fastforce
      show ?thesis
      proof (cases r3)
        case None
        with 1 2 3 q1 q2 assms show ?thesis by (auto simp: read_all_tariffs_def print_fees_def)
      next
        case (Some q3)
        then obtain p3 l3 where q3: "r3 = Some (p3, l3)" by (cases q3) auto
        obtain t4 r4 where 4: "read_tariffs True parseTable11 m p3 l3 (fourkwh k) = (t4, r4)" by fastforce
        have "r4 = None" using 1 2 3 4 q1 q2 q3 assms(1,2) by (auto simp: read_all_tariffs_def Let_def split: option.splits)
        moreover from this have "print_fees pf m (fees t4) = None" using read_tariffs_short 4 assms(3) by blast
        ultimately show ?thesis using 1 2 3 4 q1 q2 q3 assms by (auto simp: read_all_tariffs_def)
      qed
    qed
  qed
qed

lemma rejected_not_stored:
  assumes "AllKwh_HandleData data AllKwh_new = (k, r)" "r \<noteq> YQER_OK" "GetEleID js a1 a2 n \<noteq> -1"
  shows "AllKwh_toDB pint pf js k a1 a2 n = None"
proof -
  have "kwh_m k = None \<or> (\<exists>m. kwh_m k = Some m \<and> print_fees pf m (fees (fourkwh k)) = None)"
  proof (cases "parseDateTime5 (m_pData data) (left_of data)")
    case None
    with assms(1) show ?thesis by (auto simp: AllKwh_HandleData_def AllKwh_new_def Let_def)
  next
    case (Some q)
    then obtain len dt where q: "parseDateTime5 (m_pData data) (left_of data) = Some (len, dt)" by (cases q) auto
    define m where "m = unat (drop len (m_pData data) ! 0)"
    define k1 where "k1 = AllKwh_new\<lparr>kwh_dt := dt, kwh_m := Some m\<rparr>"
    have k1: "fees (fourkwh k1) = None" "kwh_m k1 = Some m" by (simp_all add: k1_def AllKwh_new_def Let_def)
    consider "left_of data - int len < 1" | "1 \<le> left_of data - int len" "m < 1 \<or> m > 12"
      | "1 \<le> left_of data - int len" "\<not> (m < 1 \<or> m > 12)" by linarith
    then show ?thesis
    proof cases
      case 1
      with q assms(1) show ?thesis by (auto simp: AllKwh_HandleData_def AllKwh_new_def Let_def)
    next
      case 2
      with q assms(1) have "k = k1" by (auto simp: AllKwh_HandleData_def k1_def m_def Let_def)
      with k1 show ?thesis by (simp add: print_fees_def)
    next
      case 3
      with q assms(1) have "read_all_tariffs m (drop 1 (drop len (m_pData data))) (left_of data - int len - 1) k1 = (k, r)"
        by (simp add: AllKwh_HandleData_def k1_def m_def Let_def)
      from read_all_short [OF this assms(2) k1] show ?thesis by blast
    qed
  qed
  with assms(3) show ?thesis by (auto simp: AllKwh_toDB_def Let_def split: bind_splits)
qed



section \<open>Samples\<close>

text \<open>A concentrator with one meter, its answer with the readings of one tariff, and its answer with its clock.\<close>

definition sample_env :: db_env where
  "sample_env = \<lparr>d_int = \<lambda>_. ''9'', d_float = \<lambda>_. ''1.5'', d_jzq = [(Jzq_new ''a'' 17 34 1)\<lparr>eleLst := [(1, 9)]\<rparr>]\<rparr>"

definition kwh_data :: pkg_afn_data where
  "kwh_data = \<lparr>m_Tag = \<lparr>DA1 = 1, DA2 = 1, DT1 = 1, DT2 = 4\<rparr>,
     m_pData = kwh_bytes (date5_bytes 24 5 17 10 30) 1 (1234567, [1000000]) (250, [150]) (0, [0]) (99999999, [7]) @ []\<rparr>"

definition answer_pkg :: "u16 \<Rightarrow> u16 \<Rightarrow> pkg_afn_data \<Rightarrow> pkg" where
  "answer_pkg f n data = blank_pkg\<lparr>userHeader := \<lparr>C_c = 8, A1 = 17, A2 = 34, A3_a3 = 0\<rparr>,
     pAfn := \<lparr>afnHeader = \<lparr>AFN = 0x0C, SEQ_seq = 0x60\<rparr>, pAfnData = Some data, pAux = None\<rparr>, Fn := f, pn := n\<rparr>"

lemma answer_pkg_simps [simp]:
  "C_FUN (C_c (userHeader (answer_pkg f n d))) = 8" "AFN (afnHeader (pAfn (answer_pkg f n d))) = 0x0C"
  "Fn (answer_pkg f n d) = f" "pn (answer_pkg f n d) = n" "pAfnData (pAfn (answer_pkg f n d)) = Some d"
  "A1 (userHeader (answer_pkg f n d)) = 17" "A2 (userHeader (answer_pkg f n d)) = 34"
proof -
  have "C_FUN 8 = 8" by code_simp
  then show "C_FUN (C_c (userHeader (answer_pkg f n d))) = 8" by (simp add: answer_pkg_def)
qed (simp_all add: answer_pkg_def)

lemma sample_meter: "GetEleID (d_jzq sample_env) 17 34 1 \<noteq> -1"
  by (simp add: sample_env_def Jzq_new_def is_jzq_def)



text \<open>Thread 7 waits for the clock and gets the object of the answer.\<close>

definition clock_wait :: call_state where
  "clock_wait = wait_enter 7 (call_of (answer_pkg 2 0 clock_data)) calls_init"

definition clock_got :: call_state where
  "clock_got = wait_wake 7 (call_of (answer_pkg 2 0 clock_data))
     (clock_wait\<lparr>cmdMap := (cmdMap clock_wait)(call_of (answer_pkg 2 0 clock_data) \<mapsto> Some [(0, Get_clock clock_data [])])\<rparr>)"

lemma clock_got_reachable: "calls_reachable sample_env (clock_got, 1)"
proof -
  let ?p = "answer_pkg 2 0 clock_data"
  let ?s = "clock_wait\<lparr>cmdMap := (cmdMap clock_wait)(call_of ?p \<mapsto> Some [(0, Get_clock clock_data [])])\<rparr>"
  have "ack_chain ack_handlers [?p] 0 = Some ([(0, Get_clock clock_data [])], Suc 0)"
    using ack_object_0C [of ?p]
    by (simp add: AFN0C_HandleAck_def GetClock_HandleData_def parseDateTime6_def left_of_def m_nLen_def clock_data_def)
  then have "AFN_DoHandleAck sample_env ack_handlers [?p] 0 clock_wait = Some (?s, 1, YQER_OK)"
    by (simp add: AFN_DoHandleAck_def notify_def saveResultToDB_def clock_wait_def wait_enter_def call_of_def del: ack_chain.simps)
  then have "call_step sample_env (clock_wait, 0) (?s, 1)" by (rule call_step.answer)
  moreover have "call_step sample_env (?s, 1) (clock_got, 1)"
    unfolding clock_got_def by (rule call_step.wake) (simp add: clock_wait_def wait_enter_def)
  moreover have "call_step sample_env (calls_init, 0) (clock_wait, 0)"
    unfolding clock_wait_def by (rule call_step.enter) (simp add: calls_init_def)
  ultimately show ?thesis unfolding calls_reachable_def by (meson rtranclp.rtrancl_into_rtrancl rtranclp.rtrancl_refl)
qed

theorem answers_handed_once_witness:
  "returned clock_got = [(7, Some [(0, Get_clock clock_data [])])] \<and>
     distinct (gone clock_got @ concat (map (\<lambda>r. head_id (snd r)) (returned clock_got)))"
  using answers_handed_once [OF clock_got_reachable]
  by (simp add: clock_got_def wait_wake_def wait_return_def place_def clock_wait_def wait_enter_def calls_init_def)

text \<open>
  An answer that comes after the request was sent and before the thread has entered \<open>Wait\<close> is
  deleted; the thread returns without it when its time is over.
\<close>

lemma early_answer_lost:
  assumes "cmdMap s c = None" "notify env c data s = Some s'"
  shows "gone s' = gone s @ head_id data" "returned (wait_timeout t c (wait_enter t c s')) = (t, None) # returned s'"
  using assms by (auto simp: notify_def wait_timeout_def wait_return_def wait_enter_def place_def
      dest!: saveResult_only_db split: bind_splits)

end
