(* ===== verification/AfnTelnet.thy ===== *)
theory AfnTelnet
  imports AfnAnswers
begin

text \<open>
  The operator's port, \<open>AFN/src/TelnetServer.cpp\<close>: splitting, the line that is built up from what
  is received, and the commands. One line is shared by all operators. A text received is the list
  of its characters; a write outside a buffer on the stack, or a read outside what was received,
  is \<open>None\<close>. The help text, which has Chinese parts, is an argument.
\<close>

section \<open>Splitting\<close>

definition is_blank :: "char \<Rightarrow> bool" where
  "is_blank c \<longleftrightarrow> c = CHR '' '' \<or> c = CHR 0x09 \<or> c = CHR 0x0D \<or> c = CHR 0x0A"

text \<open>The parameters of a line: runs of characters that are not blank, each ended by a blank.\<close>

primrec split_params :: "string \<Rightarrow> string \<Rightarrow> string list \<Rightarrow> string list" where
  "split_params [] tmp ps = ps"
| "split_params (c # cs) tmp ps =
     (if is_blank c then split_params cs [] (if tmp \<noteq> [] then ps @ [tmp] else ps)
      else split_params cs (tmp @ [c]) ps)"

text \<open>
  \<open>split\<close>: \<open>find_first_not_of\<close> takes any character of the separator, \<open>find\<close> the whole of it. An
  empty separator makes it run for ever, which is \<open>None\<close>.
\<close>

fun find_sep :: "string \<Rightarrow> string \<Rightarrow> nat option" where
  "find_sep sep s = (if take (length sep) s = sep then Some 0
     else case s of [] \<Rightarrow> None | _ # s' \<Rightarrow> map_option Suc (find_sep sep s'))"

declare find_sep.simps [simp del]

function split_loop :: "string \<Rightarrow> string \<Rightarrow> string list" where
  "split_loop sep s =
     (case find_sep sep s of
        None \<Rightarrow> if s = [] then [] else [s]
      | Some k \<Rightarrow>
          let tmp = take k s; rest = drop (k + length sep) s
          in (if tmp = [] then [] else [tmp]) @ (if sep = [] \<or> s = [] then [] else split_loop sep rest))"
  by pat_completeness auto

termination
  by (relation "measure (\<lambda>(sep, s). length s)") auto

declare split_loop.simps [simp del]

definition split_string :: "string \<Rightarrow> string \<Rightarrow> string list option" where
  "split_string str sep =
     (let s = dropWhile (\<lambda>c. c \<in> set sep) str
      in if s = [] then Some [] else if sep = [] then None else Some (split_loop sep s))"

section \<open>The commands\<close>

text \<open>What a line makes the server do. \<open>atoi\<close> is that of the C library, its result cut to a \<open>WORD\<close>.\<close>

datatype command =
  Cmd_ls | Cmd_quit | Cmd_setpointparams string u16 | Cmd_setpointstatus string | Cmd_getclock string
| Cmd_getstatus string | Cmd_getallkwh string u16 | Cmd_freshjzq | Cmd_param_error | Cmd_unknown

fun digits_value :: "string \<Rightarrow> int \<Rightarrow> int" where
  "digits_value [] v = v"
| "digits_value (c # cs) v = (let d = of_char c :: int in if 48 \<le> d \<and> d \<le> 57 then digits_value cs (v * 10 + (d - 48)) else v)"

definition atoi :: "string \<Rightarrow> int" where
  "atoi s = (let s = dropWhile (\<lambda>c. of_char c = (32 :: nat) \<or> (9 \<le> (of_char c :: nat) \<and> (of_char c :: nat) \<le> 13)) s
     in case s of
          [] \<Rightarrow> 0
        | c # cs \<Rightarrow> if c = CHR ''-'' then - digits_value cs 0 else if c = CHR ''+'' then digits_value cs 0 else digits_value s 0)"

definition parse_command :: "string list \<Rightarrow> command" where
  "parse_command ps =
     (let c = ps ! 0; n = length ps
      in if c = ''ls'' then Cmd_ls
         else if c = ''quit'' then Cmd_quit
         else if c = ''setpointparams'' then if n < 3 then Cmd_param_error else Cmd_setpointparams (ps ! 1) (word_of_int (atoi (ps ! 2)))
         else if c = ''setpointstatus'' then if n < 2 then Cmd_param_error else Cmd_setpointstatus (ps ! 1)
         else if c = ''getclock'' then if n < 2 then Cmd_param_error else Cmd_getclock (ps ! 1)
         else if c = ''getstatus'' then if n < 2 then Cmd_param_error else Cmd_getstatus (ps ! 1)
         else if c = ''getallkwh'' then if n < 3 then Cmd_param_error else Cmd_getallkwh (ps ! 1) (word_of_int (atoi (ps ! 2)))
         else if c = ''freshjzq'' then Cmd_freshjzq
         else Cmd_unknown)"

definition eol :: string where "eol = [CHR 0x0D, CHR 0x0A]"

text \<open>
  The operator's port: the line, what was written to the connection, whether it was closed, and
  the station. A call that waits is the argument \<open>wait\<close>: what \<open>Wait\<close> returned, as text.
\<close>

record telnet =
  g_cmd :: string
  t_out :: "string list"
  t_closed :: bool
  t_station :: station
  t_sent :: "bytes list"

record telnet_env =
  te_env :: surroundings
  te_write :: int
  te_int :: "int \<Rightarrow> string"
  te_wait :: "app_call \<Rightarrow> string option"
  te_rows :: "(int \<times> int \<times> string) list"
  te_meters :: "u16 \<Rightarrow> u16 \<Rightarrow> (int \<times> int) list"
  te_help :: string

definition answer_call :: "telnet_env \<Rightarrow> telnet \<Rightarrow> string \<Rightarrow> (station \<times> bytes list \<times> int \<times> app_call) sent \<Rightarrow> telnet" where
  "answer_call e t name r =
     (case r of
        Not_ok code \<Rightarrow> t\<lparr>t_out := t_out t @ [name @ '' return '' @ te_int e code @ eol @ ''$'']\<rparr>
      | Sent (st, out, ret, call) \<Rightarrow>
          t\<lparr>t_station := st, t_sent := t_sent t @ out,
            t_out := t_out t @ [name @ '' return '' @ te_int e ret @ eol @
              (case te_wait e call of None \<Rightarrow> ''$'' | Some s \<Rightarrow> s @ eol @ ''$'')]\<rparr>)"

definition run_command :: "telnet_env \<Rightarrow> telnet \<Rightarrow> command \<Rightarrow> telnet option" where
  "run_command e t c =
     (let call = (\<lambda>name r. map_option (answer_call e t name) r); env = te_env e; wr = te_write e; st = t_station t
      in case c of
           Cmd_ls \<Rightarrow> Some (t\<lparr>t_out := t_out t @ [Print st @ ''$'']\<rparr>)
         | Cmd_quit \<Rightarrow> Some (t\<lparr>t_closed := True\<rparr>)
         | Cmd_setpointparams name n \<Rightarrow> call ''setpointparams'' (setpointparams env wr st name n)
         | Cmd_setpointstatus name \<Rightarrow> call ''setpointstatus'' (setpointstatus env wr st name)
         | Cmd_getclock name \<Rightarrow> call ''getclock'' (getclock env wr st name)
         | Cmd_getstatus name \<Rightarrow> call ''getstatus'' (getstatus env wr st name)
         | Cmd_getallkwh name n \<Rightarrow> call ''getallkwh'' (getallkwh env wr st name n)
         | Cmd_freshjzq \<Rightarrow>
             let st = LoadJzq (te_rows e) (te_meters e) st
             in Some (t\<lparr>t_station := st, t_out := t_out t @ [Print st @ eol @ ''$'']\<rparr>)
         | Cmd_param_error \<Rightarrow> Some (t\<lparr>t_out := t_out t @ [''param error'' @ eol @ ''$'']\<rparr>)
         | Cmd_unknown \<Rightarrow> Some (t\<lparr>t_out := t_out t @ [''not support command'' @ eol, te_help e]\<rparr>))"

text \<open>
  \<open>conn_readcb\<close>: at most 511 bytes are read. A backspace at the end takes the last character of the
  line, without adding what came before it, and prints the line into a buffer of 512 bytes.
\<close>

definition until_zero :: "string \<Rightarrow> string" where
  "until_zero s = takeWhile (\<lambda>c. c \<noteq> CHR 0x00) s"

definition conn_readcb :: "telnet_env \<Rightarrow> telnet \<Rightarrow> string \<Rightarrow> telnet option" where
  "conn_readcb e t input =
     (let cmd = take 511 input
      in if cmd = [] then None
         else if last cmd = CHR 0x08 then
           let line = butlast (g_cmd t); msg = eol @ ''$'' @ until_zero line
           in if length msg + 1 > 512 then None else Some (t\<lparr>g_cmd := line, t_out := t_out t @ [msg]\<rparr>)
         else
           let line = g_cmd t @ until_zero cmd; t = t\<lparr>g_cmd := line\<rparr>
           in if CHR 0x0A \<in> set line then
                let params = split_params line [] []
                in if params = [] then Some t
                   else do { t \<leftarrow> run_command e t (parse_command params); Some (t\<lparr>g_cmd := []\<rparr>) }
              else Some t)"

text \<open>A new connection is sent the help text; the end of one does nothing to it.\<close>

definition telnet_listener_cb :: "telnet_env \<Rightarrow> telnet \<Rightarrow> bool \<Rightarrow> telnet" where
  "telnet_listener_cb e t made = (if made then t\<lparr>t_out := t_out t @ [te_help e]\<rparr> else t)"

section \<open>A line longer than the buffer\<close>

text \<open>
  Property C39: a defect. After two pieces of text without an end of line and without a zero, of 300
  characters each, one backspace makes the server print a line of more than 512 bytes into a buffer
  of 512 bytes on the stack.
\<close>

theorem backspace_overflows:
  assumes "length a = 300" "length b = 300" "set a \<inter> {CHR 0x00, CHR 0x08, CHR 0x0A} = {}"
    "set b \<inter> {CHR 0x00, CHR 0x08, CHR 0x0A} = {}" "g_cmd t = []"
  shows "\<exists>t1 t2. conn_readcb e t a = Some t1 \<and> conn_readcb e t1 b = Some t2 \<and> g_cmd t2 = a @ b \<and>
      conn_readcb e t2 [CHR 0x08] = None"
proof -
  have z: "until_zero s = s" if "CHR 0x00 \<notin> set s" for s
    using that unfolding until_zero_def by (induction s) auto
  have "a \<noteq> []" "b \<noteq> []" using assms(1,2) by auto
  then have "last a \<in> set a" "last b \<in> set b" by simp_all
  then have l: "last a \<noteq> CHR 0x08" "last b \<noteq> CHR 0x08" using assms(3,4) by fastforce+
  have 1: "conn_readcb e t a = Some (t\<lparr>g_cmd := a\<rparr>)"
    using assms \<open>a \<noteq> []\<close> l z [of a] by (auto simp: conn_readcb_def Let_def)
  have 2: "conn_readcb e (t\<lparr>g_cmd := a\<rparr>) b = Some (t\<lparr>g_cmd := a @ b\<rparr>)"
    using assms \<open>b \<noteq> []\<close> l z [of b] by (auto simp: conn_readcb_def Let_def)
  have "CHR 0x00 \<notin> set (butlast (a @ b))" using assms(3,4) by (auto dest: in_set_butlastD)
  then have "conn_readcb e (t\<lparr>g_cmd := a @ b\<rparr>) [CHR 0x08] = None"
    using assms(1,2) z [of "butlast (a @ b)"] by (simp add: conn_readcb_def Let_def eol_def)
  with 1 2 show ?thesis by (intro exI [of _ "t\<lparr>g_cmd := a\<rparr>"] exI [of _ "t\<lparr>g_cmd := a @ b\<rparr>"]) simp
qed

definition idle_telnet :: telnet where
  "idle_telnet = \<lparr>g_cmd = [], t_out = [], t_closed = False,
     t_station = \<lparr>st_jzq = \<lparr>m_jzqList = [], noneTag = 1\<rparr>, st_cons = [], st_water = []\<rparr>, t_sent = []\<rparr>"

theorem backspace_overflows_witness:
  "\<forall>e. \<exists>t1 t2. conn_readcb e idle_telnet (replicate 300 CHR ''a'') = Some t1 \<and>
     conn_readcb e t1 (replicate 300 CHR ''b'') = Some t2 \<and> conn_readcb e t2 [CHR 0x08] = None"
proof -
  have "set (replicate 300 CHR ''a'') \<inter> {CHR 0x00, CHR 0x08, CHR 0x0A} = {}"
    "set (replicate 300 CHR ''b'') \<inter> {CHR 0x00, CHR 0x08, CHR 0x0A} = {}" by simp_all
  from backspace_overflows [OF _ _ this, of idle_telnet] show ?thesis by (fastforce simp: idle_telnet_def)
qed

end
