(* ===== verification/AfnWater.thy ===== *)
theory AfnWater
  imports AfnCalls
begin

text \<open>
  The water meters' protocol, as far as it is written: \<open>AFN/src/WaterPackage.cpp\<close>,
  \<open>WaterPackageBuilder.cpp\<close>, \<open>ConnectionWater.cpp\<close> and \<open>protoWater.h\<close>. Every package is valid and
  takes all bytes that were received.
\<close>

record pkg_water =
  pw_header :: u8
  pw_factoryCode :: bytes
  pw_length :: bytes
  pw_code :: bytes
  pw_cs :: u8
  pw_tail :: u8
  pw_data :: bytes

definition WaterPackage_valid :: "pkg_water \<Rightarrow> bool" where "WaterPackage_valid p = True"

text \<open>The code and the length taken. An unsigned length is never below 0.\<close>

definition WaterPackage_ParseProto :: "pkg_water \<Rightarrow> u64 \<Rightarrow> int \<times> u64" where
  "WaterPackage_ParseProto p dataLen =
     (if dataLen < 0 then (YQER_PKG_Err 1, 0)
      else if sint (ucast dataLen :: u32) < 0 then (YQER_PKG_Err 1, 0)
      else if \<not> WaterPackage_valid p then (YQER_PKG_Err 2, 0)
      else (YQER_OK, dataLen))"

definition WaterPackage_Serialize :: "pkg_water \<Rightarrow> bytes \<Rightarrow> bytes \<times> int" where "WaterPackage_Serialize p buf = (buf, 0)"
definition WaterPackage_CreateCS :: "pkg_water \<Rightarrow> pkg_water" where "WaterPackage_CreateCS p = p"
definition WaterPackage_SetL :: "pkg_water \<Rightarrow> pkg_water" where "WaterPackage_SetL p = p"

definition WaterPackage_okPkg :: "pkg_water \<Rightarrow> pkg_water" where
  "WaterPackage_okPkg p = WaterPackage_CreateCS (WaterPackage_SetL p)"

definition WaterPackage_isRequest :: "pkg_water \<Rightarrow> bool" where "WaterPackage_isRequest p = True"
definition WaterPackage_GetCode :: "pkg_water \<Rightarrow> int" where "WaterPackage_GetCode p = 1"

text \<open>The builder answers nothing; the connection deletes the package it is given.\<close>

definition Water_CreateAck :: "pkg_water \<Rightarrow> pkg_water option" where "Water_CreateAck req = None"

definition Water_DoHandleAck :: "pkg_water list \<Rightarrow> int" where
  "Water_DoHandleAck acks = (if length acks = 0 then -1 else YQER_OK)"

definition Water_handlePackage :: "nat \<Rightarrow> nat list \<Rightarrow> nat list \<times> int" where
  "Water_handlePackage p ds = (ds @ [p], YQER_OK)"

text \<open>A received piece of up to 2 GB is one package.\<close>

lemma water_takes_all: "n < 2 ^ 31 \<Longrightarrow> WaterPackage_ParseProto p (word_of_nat n) = (YQER_OK, word_of_nat n)"
proof -
  assume n: "n < 2 ^ 31"
  have "uint (ucast (word_of_nat n :: u64) :: u32) = int n"
    using n by (simp add: unsigned_ucast_eq unsigned_of_nat take_bit_nat_eq_self take_bit_int_eq_self)
  then have "sint (ucast (word_of_nat n :: u64) :: u32) = int n" using n by (simp add: sint_uint signed_take_bit_int_eq_self)
  then show ?thesis by (simp add: WaterPackage_ParseProto_def WaterPackage_valid_def)
qed

end
