(* ===== verification/EvAddr.thy ===== *)
theory EvAddr
  imports EvChar "HOL-Library.Monad_Syntax"
begin

text \<open>
  Addresses in \<open>evutil.c\<close>: their text form in both directions, with and without a port, and their
  comparison. A string is the list of its bytes without the final zero. \<open>junk\<close> is what memory
  holds that is not initialised; \<open>ovf\<close> is what \<open>scanf\<close> and \<open>atoi\<close> make of a number that is no \<open>int\<close>.
\<close>

section \<open>Numbers in the C library\<close>

text \<open>\<open>%x\<close>.\<close>

definition hex_digit :: "nat \<Rightarrow> u8" where
  "hex_digit d = (if d < 10 then 48 + word_of_nat d else 87 + word_of_nat d)"

fun hex :: "nat \<Rightarrow> bytes" where
  "hex n = (if n < 16 then [hex_digit n] else hex (n div 16) @ [hex_digit (n mod 16)])"

declare hex.simps [simp del]

definition is_space :: "u8 \<Rightarrow> bool" where
  "is_space c \<longleftrightarrow> c = 32 \<or> 9 \<le> unat c \<and> unat c \<le> 13"

definition is_digit :: "u8 \<Rightarrow> bool" where
  "is_digit c \<longleftrightarrow> 48 \<le> unat c \<and> unat c \<le> 57"

definition dec_value :: "bytes \<Rightarrow> nat" where
  "dec_value ds = foldl (\<lambda>v c. v * 10 + (unat c - 48)) 0 ds"

definition to_c_int :: "(int \<Rightarrow> int) \<Rightarrow> int \<Rightarrow> int" where
  "to_c_int ovf n = (if - (2 ^ 31) \<le> n \<and> n < 2 ^ 31 then n else ovf n)"

text \<open>\<open>%d\<close>: blanks, a sign, digits; the value and what follows.\<close>

definition scan_int :: "(int \<Rightarrow> int) \<Rightarrow> bytes \<Rightarrow> (int \<times> bytes) option" where
  "scan_int ovf s =
     (let s = dropWhile is_space s;
          neg = (s \<noteq> [] \<and> hd s = 45);
          s = (if s \<noteq> [] \<and> (hd s = 45 \<or> hd s = 43) then tl s else s);
          ds = takeWhile is_digit s
      in if ds = [] then None
         else Some (to_c_int ovf (if neg then - int (dec_value ds) else int (dec_value ds)), dropWhile is_digit s))"

text \<open>\<open>sscanf(s, "%d.%d.%d.%d%c", ...) == 4\<close>.\<close>

definition scan_dot :: "bytes \<Rightarrow> bytes option" where
  "scan_dot s = (case s of [] \<Rightarrow> None | c # s' \<Rightarrow> if c = 46 then Some s' else None)"

definition scan_quad :: "(int \<Rightarrow> int) \<Rightarrow> bytes \<Rightarrow> (int \<times> int \<times> int \<times> int) option" where
  "scan_quad ovf s = do {
     (a, s) \<leftarrow> scan_int ovf s; s \<leftarrow> scan_dot s;
     (b, s) \<leftarrow> scan_int ovf s; s \<leftarrow> scan_dot s;
     (c, s) \<leftarrow> scan_int ovf s; s \<leftarrow> scan_dot s;
     (d, s) \<leftarrow> scan_int ovf s;
     if s = [] then Some (a, b, c, d) else None
   }"

definition is_byte :: "int \<Rightarrow> bool" where "is_byte n \<longleftrightarrow> 0 \<le> n \<and> n \<le> 255"

definition c_atoi :: "(int \<Rightarrow> int) \<Rightarrow> bytes \<Rightarrow> int" where
  "c_atoi ovf s = (case scan_int ovf s of None \<Rightarrow> 0 | Some (n, _) \<Rightarrow> n)"

text \<open>\<open>strtol(s, &next, 16)\<close> of a text that begins with a hexadecimal digit: the value and how many bytes.\<close>

definition hex_value :: "bytes \<Rightarrow> nat" where
  "hex_value ds = foldl (\<lambda>v c. v * 16 + (let n = unat c in if n \<le> 57 then n - 48 else if n \<le> 70 then n - 55 else n - 87)) 0 ds"

definition strtol16 :: "bytes \<Rightarrow> nat \<times> nat" where
  "strtol16 s =
     (if length s > 2 \<and> s ! 0 = 48 \<and> (s ! 1 = 120 \<or> s ! 1 = 88) \<and> ISXDIGIT (s ! 2) then
        let ds = takeWhile ISXDIGIT (drop 2 s) in (hex_value ds, length ds + 2)
      else let ds = takeWhile ISXDIGIT s in (hex_value ds, length ds))"

text \<open>Byte order.\<close>

definition ntohl :: "u32 \<Rightarrow> u32" where
  "ntohl x = push_bit 24 x OR (push_bit 8 x AND 0xff0000) OR (drop_bit 8 x AND 0xff00) OR drop_bit 24 x"

definition ntohs :: "u16 \<Rightarrow> u16" where
  "ntohs x = push_bit 8 x OR drop_bit 8 x"

section \<open>From an address to text\<close>

definition quad_text :: "nat \<Rightarrow> nat \<Rightarrow> nat \<Rightarrow> nat \<Rightarrow> bytes" where
  "quad_text a b c d = dec a @ [46] @ dec b @ [46] @ dec c @ [46] @ dec d"

text \<open>The four bytes of an address, from the highest.\<close>

definition addr_byte :: "nat \<Rightarrow> u32 \<Rightarrow> nat" where
  "addr_byte k a = unat (ucast (drop_bit (8 * k) a AND 0xff) :: u8)"

definition inet_ntop4 :: "u32 \<Rightarrow> nat \<Rightarrow> bytes option" where
  "inet_ntop4 s_addr len =
     (let a = ntohl s_addr; t = quad_text (addr_byte 3 a) (addr_byte 2 a) (addr_byte 1 a) (addr_byte 0 a)
      in if len \<le> length t then None else Some t)"

definition words_of :: "bytes \<Rightarrow> u16 list" where
  "words_of s6 = map (\<lambda>i. push_bit 8 (ucast (s6 ! (2 * i))) + ucast (s6 ! (2 * i + 1))) [0..<8]"

text \<open>The longest run of zeros: the first of the longest, from index \<open>i\<close> on with the best so far.\<close>

definition zeros_at :: "u16 list \<Rightarrow> nat \<Rightarrow> nat" where
  "zeros_at ws i = length (takeWhile (\<lambda>w. w = 0) (drop i ws))"

function gap_loop :: "u16 list \<Rightarrow> nat \<Rightarrow> int \<Rightarrow> nat \<Rightarrow> int \<times> nat" where
  "gap_loop ws i pos len =
     (if 8 \<le> i then (pos, len)
      else if ws ! i = 0 then
        let n = 1 + length (takeWhile (\<lambda>w. w = 0) (take (8 - Suc i) (drop (Suc i) ws)))
        in gap_loop ws (i + n) (if n > len then int i else pos) (max n len)
      else gap_loop ws (Suc i) pos len)"
  by pat_completeness auto

termination by (relation "measure (\<lambda>(ws, i, pos, len). 8 - i)") auto

declare gap_loop.simps [simp del]

definition longest_gap :: "u16 list \<Rightarrow> int" where
  "longest_gap ws = (let (pos, len) = gap_loop ws 0 (-1) 0 in if len \<le> 1 then -1 else pos)"

function words_text :: "u16 list \<Rightarrow> int \<Rightarrow> nat \<Rightarrow> bytes" where
  "words_text ws gap i =
     (if 8 \<le> i then []
      else if ws ! i = 0 \<and> gap = int i then
        (if i = 0 then [58] else []) @ [58] @ words_text ws gap (i + max 1 (zeros_at ws i))
      else hex (unat (ws ! i)) @ (if i \<noteq> 7 then [58] else []) @ words_text ws gap (Suc i))"
  by pat_completeness auto

termination by (relation "measure (\<lambda>(ws, gap, i). 8 - i)") auto

declare words_text.simps [simp del]

definition is_v4_in_v6 :: "u16 list \<Rightarrow> bool" where
  "is_v4_in_v6 ws \<longleftrightarrow> (\<forall>i < 5. ws ! i = 0) \<and> (ws ! 5 = 0 \<and> ws ! 6 \<noteq> 0 \<and> ws ! 7 \<noteq> 0 \<or> ws ! 5 = 0xffff)"

definition inet6_text :: "bytes \<Rightarrow> bytes" where
  "inet6_text s6 =
     (let ws = words_of s6; quad = quad_text (unat (s6 ! 12)) (unat (s6 ! 13)) (unat (s6 ! 14)) (unat (s6 ! 15))
      in if is_v4_in_v6 ws then
           if ws ! 5 = 0 then [58, 58] @ quad else [58, 58] @ hex (unat (ws ! 5)) @ [58] @ quad
         else words_text ws (longest_gap ws) 0)"

definition strlcpy_text :: "bytes \<Rightarrow> nat \<Rightarrow> bytes" where
  "strlcpy_text s n = take (n - 1) s"

text \<open>A text as long as \<open>len\<close> is cut by one: the test is on \<open>strlen(buf) > len\<close>.\<close>

definition inet_ntop6 :: "bytes \<Rightarrow> nat \<Rightarrow> bytes option" where
  "inet_ntop6 s6 len = (let t = inet6_text s6 in if len < length t then None else Some (strlcpy_text t len))"

section \<open>From text to an address\<close>

definition inet_pton4 :: "(int \<Rightarrow> int) \<Rightarrow> bytes \<Rightarrow> u32 option" where
  "inet_pton4 ovf src =
     (case scan_quad ovf src of
        None \<Rightarrow> None
      | Some (a, b, c, d) \<Rightarrow>
          if \<not> is_byte a \<or> \<not> is_byte b \<or> \<not> is_byte c \<or> \<not> is_byte d then None
          else Some (ntohl (push_bit 24 (word_of_int a) OR push_bit 16 (word_of_int b) OR push_bit 8 (word_of_int c) OR word_of_int d)))"

text \<open>
  \<open>ch s i\<close> is the character at an index, the final zero included. The loop over the words has the
  position, the index of the next word, the words, the gap and how many words are set; \<open>None\<close> is
  the result 0.
\<close>

definition ch :: "bytes \<Rightarrow> nat \<Rightarrow> u8" where
  "ch s i = (if i < length s then s ! i else 0)"

function pton_loop ::
  "bytes \<Rightarrow> nat \<Rightarrow> nat \<Rightarrow> nat \<Rightarrow> u16 list \<Rightarrow> int \<Rightarrow> nat \<Rightarrow> (u16 list \<times> int \<times> nat) option" where
  "pton_loop s eow pos i ws gap set_words =
     (if eow \<le> pos then Some (ws, gap, set_words)
      else if i > 7 then None
      else if ISXDIGIT (ch s pos) then
        let (r, n) = strtol16 (drop pos s)
        in if n > 4 then None
           else if n = 0 then None
           else if r > 65536 then None
           else if ch s (pos + n) \<noteq> 58 \<and> pos + n \<noteq> eow then None
           else pton_loop s eow (pos + n + 1) (Suc i) (ws[i := word_of_nat r]) gap (Suc set_words)
      else if ch s pos = 58 \<and> i > 0 \<and> gap = -1 then pton_loop s eow (pos + 1) i ws (int i) set_words
      else if ch s pos = 58 \<and> i = 0 \<and> ch s (pos + 1) = 58 \<and> gap = -1 then pton_loop s eow (pos + 2) i ws (int i) set_words
      else None)"
  by pat_completeness auto

termination by (relation "measure (\<lambda>(s, eow, pos, i, ws, gap, sw). eow - pos)") auto

declare pton_loop.simps [simp del]

text \<open>The move of the words behind the gap to the end; -1 where there are fewer than none.\<close>

definition spread :: "u16 list \<Rightarrow> int \<Rightarrow> nat \<Rightarrow> bool \<Rightarrow> u16 list option" where
  "spread ws gap set_words dot =
     (if gap \<ge> 0 then
        let g = nat gap; n = int set_words - (if dot then 2 else 0) - gap; gap_len = 8 - set_words
        in if n < 0 then None
           else Some (take g ws @ replicate gap_len 0 @ take (nat n) (drop g ws) @ drop (g + gap_len + nat n) ws)
      else Some ws)"

definition words_bytes :: "u16 list \<Rightarrow> bytes" where
  "words_bytes ws = concat (map (\<lambda>w. [ucast (drop_bit 8 w), ucast (w AND 0xff)]) ws)"

text \<open>Where the words end: at the digits before the first dot.\<close>

definition words_end :: "bytes \<Rightarrow> nat option \<Rightarrow> nat" where
  "words_end src dot =
     (case dot of None \<Rightarrow> length src | Some k \<Rightarrow> k - length (takeWhile ISDIGIT (rev (take k src))))"

definition first_dot :: "bytes \<Rightarrow> nat option" where
  "first_dot src = (let k = length (takeWhile (\<lambda>c. c \<noteq> 46) src) in if k < length src then Some k else None)"

text \<open>\<open>evutil_inet_pton(AF_INET6, ...)\<close>: the bytes, or its result other than 1.\<close>

definition inet_pton6 :: "(int \<Rightarrow> int) \<Rightarrow> u16 list \<Rightarrow> bytes \<Rightarrow> int + bytes" where
  "inet_pton6 ovf junk src =
     (let dot = first_dot src; eow = words_end src dot
      in if dot = Some 0 then Inl 0
         else case (case dot of
                      None \<Rightarrow> Some (junk, 0)
                    | Some _ \<Rightarrow>
                        (case scan_quad ovf (drop eow src) of
                           None \<Rightarrow> None
                         | Some (a, b, c, d) \<Rightarrow>
                             if \<not> is_byte a \<or> \<not> is_byte b \<or> \<not> is_byte c \<or> \<not> is_byte d then None
                             else Some (junk[6 := push_bit 8 (word_of_int a) OR word_of_int b,
                                             7 := push_bit 8 (word_of_int c) OR word_of_int d], 2))) of
                None \<Rightarrow> Inl 0
              | Some (ws, set_words) \<Rightarrow>
                  (case pton_loop src eow 0 0 ws (-1) set_words of
                     None \<Rightarrow> Inl 0
                   | Some (ws, gap, set_words) \<Rightarrow>
                       if set_words > 8 \<or> (set_words = 8 \<and> gap \<noteq> -1) \<or> (set_words < 8 \<and> gap = -1) then Inl 0
                       else (case spread ws gap set_words (dot \<noteq> None) of
                               None \<Rightarrow> Inl (-1)
                             | Some ws \<Rightarrow> Inr (words_bytes ws))))"

section \<open>Socket addresses\<close>

text \<open>The address of IPv4 and the ports are as they lie in memory, in network order.\<close>

datatype sockaddr = Sin (sin_addr: u32) (sin_port: u16) | Sin6 (sin6_addr: bytes) (sin6_port: u16) | Sother (sa_family: int)

abbreviation AF_INET :: int where "AF_INET \<equiv> 2"
abbreviation AF_INET6 :: int where "AF_INET6 \<equiv> 10"

fun family :: "sockaddr \<Rightarrow> int" where
  "family (Sin _ _) = AF_INET"
| "family (Sin6 _ _) = AF_INET6"
| "family (Sother f) = f"

text \<open>
  \<open>evutil_parse_sockaddr_port\<close>: the address with its length, or -1. The length of what stands in
  brackets is an \<open>int\<close>; a negative one makes \<open>memcpy\<close> run over everything, which is \<open>None\<close>.
\<close>

definition find_char :: "u8 \<Rightarrow> bytes \<Rightarrow> nat option" where
  "find_char c s = (let k = length (takeWhile (\<lambda>x. x \<noteq> c) s) in if k < length s then Some k else None)"

definition split_port :: "bytes \<Rightarrow> (bytes \<times> bytes option \<times> bool) option option" where
  "split_port s =
     (if ch s 0 = 91 then
        (case find_char 93 s of
           None \<Rightarrow> Some None
         | Some k \<Rightarrow>
             let len = sint (word_of_nat (k - 1) :: u32)
             in if len > 127 then Some None
                else if len < 0 then None
                else Some (Some (take (nat len) (drop 1 s), if ch s (k + 1) = 58 then Some (drop (k + 2) s) else None, True)))
      else
        (case find_char 58 s of
           None \<Rightarrow> Some (Some (s, None, False))
         | Some k \<Rightarrow>
             if find_char 58 (drop (k + 1) s) \<noteq> None then Some (Some (s, None, True))
             else if k > 127 then Some None
             else Some (Some (take k s, Some (drop (k + 1) s), False))))"

definition evutil_parse_sockaddr_port ::
  "(int \<Rightarrow> int) \<Rightarrow> u16 list \<Rightarrow> bytes \<Rightarrow> int \<Rightarrow> (sockaddr \<times> int) option option" where
  "evutil_parse_sockaddr_port ovf junk s outlen =
     (case split_port s of
        None \<Rightarrow> None
      | Some None \<Rightarrow> Some None
      | Some (Some (addr_part, port_part, is_ipv6)) \<Rightarrow>
          let port = (case port_part of None \<Rightarrow> 0 | Some t \<Rightarrow> c_atoi ovf t)
          in if port_part \<noteq> None \<and> (port \<le> 0 \<or> port > 65535) then Some None
             else if is_ipv6 then
               (case inet_pton6 ovf junk addr_part of
                  Inl _ \<Rightarrow> Some None
                | Inr a \<Rightarrow> if 28 > outlen then Some None else Some (Some (Sin6 a (ntohs (word_of_int port)), 28)))
             else
               (case inet_pton4 ovf addr_part of
                  None \<Rightarrow> Some None
                | Some a \<Rightarrow> if 16 > outlen then Some None else Some (Some (Sin a (ntohs (word_of_int port)), 16))))"

text \<open>\<open>evutil_format_sockaddr_port\<close>; \<open>evutil_snprintf\<close> cuts what does not fit.\<close>

definition print_int :: "int \<Rightarrow> bytes" where
  "print_int n = (if n < 0 then [45] @ dec (nat (- n)) else dec (nat n))"

definition other_text :: "int \<Rightarrow> bytes" where
  "other_text f = bytes_of ''<addr with socktype '' @ print_int f @ [62]"

definition evutil_format_sockaddr_port :: "sockaddr \<Rightarrow> nat \<Rightarrow> bytes" where
  "evutil_format_sockaddr_port sa outlen =
     take (outlen - 1)
       (case sa of
          Sin a port \<Rightarrow>
            (case inet_ntop4 a 128 of
               Some b \<Rightarrow> b @ [58] @ dec (unat (ntohs port))
             | None \<Rightarrow> other_text AF_INET)
        | Sin6 a port \<Rightarrow>
            (case inet_ntop6 a 128 of
               Some b \<Rightarrow> [91] @ b @ [93, 58] @ dec (unat (ntohs port))
             | None \<Rightarrow> other_text AF_INET6)
        | Sother f \<Rightarrow> other_text f)"

text \<open>\<open>evutil_sockaddr_cmp\<close>. \<open>memcmp\<close> gives a negative or positive number; here the sign.\<close>

fun memcmp_sign :: "bytes \<Rightarrow> bytes \<Rightarrow> int" where
  "memcmp_sign (x # xs) (y # ys) = (if x < y then -1 else if y < x then 1 else memcmp_sign xs ys)"
| "memcmp_sign _ _ = 0"

definition evutil_sockaddr_cmp :: "sockaddr \<Rightarrow> sockaddr \<Rightarrow> bool \<Rightarrow> int" where
  "evutil_sockaddr_cmp sa1 sa2 include_port =
     (if family sa1 - family sa2 \<noteq> 0 then family sa1 - family sa2
      else case (sa1, sa2) of
          (Sin a1 p1, Sin a2 p2) \<Rightarrow>
            if a1 < a2 then -1 else if a1 > a2 then 1
            else if include_port \<and> uint p1 - uint p2 \<noteq> 0 then uint p1 - uint p2 else 0
        | (Sin6 a1 p1, Sin6 a2 p2) \<Rightarrow>
            if memcmp_sign a1 a2 \<noteq> 0 then memcmp_sign a1 a2
            else if include_port \<and> uint p1 - uint p2 \<noteq> 0 then uint p1 - uint p2 else 0
        | _ \<Rightarrow> 1)"

definition evutil_sockaddr_is_loopback :: "sockaddr \<Rightarrow> bool" where
  "evutil_sockaddr_is_loopback sa =
     (case sa of
        Sin a _ \<Rightarrow> ntohl a AND 0xff000000 = 0x7f000000
      | Sin6 a _ \<Rightarrow> memcmp_sign (replicate 15 0 @ [1]) a = 0
      | Sother _ \<Rightarrow> False)"

definition evutil_hex_char_to_int :: "u8 \<Rightarrow> int" where
  "evutil_hex_char_to_int c =
     (let n = int (unat c)
      in if 48 \<le> n \<and> n \<le> 57 then n - 48
         else if 65 \<le> n \<and> n \<le> 70 then n - 55
         else if 97 \<le> n \<and> n \<le> 102 then n - 87
         else -1)"

end
