(* ===== verification/EvAddrProofs.thy ===== *)
theory EvAddrProofs
  imports EvAddr
begin

text \<open>What is printed as an address is read back as the same address.\<close>

section \<open>Decimal numbers\<close>

definition ends_digits :: "(u8 \<Rightarrow> bool) \<Rightarrow> bytes \<Rightarrow> bool" where
  "ends_digits P rest \<longleftrightarrow> (rest = [] \<or> \<not> P (hd rest))"

lemma span_append:
  assumes "list_all P xs" "ends_digits P rest"
  shows "takeWhile P (xs @ rest) = xs" "dropWhile P (xs @ rest) = rest"
proof -
  have "takeWhile P rest = []" "dropWhile P rest = rest" using assms(2) by (cases rest; simp add: ends_digits_def)+
  then show "takeWhile P (xs @ rest) = xs" "dropWhile P (xs @ rest) = rest"
    using assms(1) by (simp_all add: takeWhile_append2 dropWhile_append2 list_all_iff)
qed

lemma unat_digit: "d < 10 \<Longrightarrow> unat (48 + word_of_nat d :: u8) = 48 + d"
  by (simp add: unat_word_ariths unsigned_of_nat take_bit_nat_eq_self)

lemma dec_digits: "list_all is_digit (dec n)"
proof (induction n rule: dec.induct)
  case (1 n)
  have "is_digit (48 + word_of_nat d)" if "d < 10" for d using that by (simp add: is_digit_def unat_digit)
  with 1 show ?case by (subst dec.simps) simp
qed

lemma dec_nonempty [simp]: "dec n \<noteq> []"
  by (subst dec.simps) simp

lemma dec_value_snoc: "dec_value (ds @ [c]) = dec_value ds * 10 + (unat c - 48)"
  by (simp add: dec_value_def)

lemma dec_value_dec [simp]: "dec_value (dec n) = n"
proof (induction n rule: dec.induct)
  case (1 n)
  show ?case
  proof (cases "n < 10")
    case True
    then show ?thesis by (subst dec.simps) (simp add: dec_value_def unat_digit)
  next
    case False
    with 1 show ?thesis by (subst dec.simps) (simp add: dec_value_snoc unat_digit)
  qed
qed

lemma scan_dec_any:
  assumes "ends_digits is_digit rest"
  shows "scan_int ovf (dec n @ rest) = Some (to_c_int ovf (int n), rest)"
proof -
  obtain c cs where c: "dec n = c # cs" by (cases "dec n") auto
  have d: "is_digit c" using dec_digits [of n] by (simp add: c)
  then have "\<not> is_space c" "c \<noteq> 45" "c \<noteq> 43" by (auto simp: is_digit_def is_space_def)
  then have "dropWhile is_space (dec n @ rest) = dec n @ rest" "hd (dec n @ rest) \<noteq> 45" "hd (dec n @ rest) \<noteq> 43"
    by (simp_all add: c)
  then show ?thesis
    using span_append [OF dec_digits assms] by (simp add: scan_int_def Let_def)
qed

lemma scan_dec:
  assumes "n < 2 ^ 31" "ends_digits is_digit rest"
  shows "scan_int ovf (dec n @ rest) = Some (int n, rest)"
  using scan_dec_any [OF assms(2)] assms(1) by (simp add: to_c_int_def)

lemma scan_quad_text:
  assumes "a < 256" "b < 256" "c < 256" "d < 256"
  shows "scan_quad ovf (quad_text a b c d) = Some (int a, int b, int c, int d)"
proof -
  have dot: "ends_digits is_digit (46 # s)" "ends_digits is_digit []" for s by (simp_all add: ends_digits_def is_digit_def)
  have s: "scan_int ovf (dec n @ 46 # s) = Some (int n, 46 # s)" "scan_int ovf (dec n) = Some (int n, [])" if "n < 256" for n s
    using scan_dec [OF _ dot(1)] scan_dec [OF _ dot(2), of n ovf] that by simp_all
  show ?thesis using assms by (simp add: scan_quad_def quad_text_def scan_dot_def s)
qed

section \<open>The bytes of an address\<close>

lemma upt32: "[0..<32] = [0, 1, 2, 3, 4, 5, 6, 7, 8, 9, 10, 11, 12, 13, 14, 15, 16, 17, 18, 19, 20, 21, 22, 23, 24, 25, 26, 27,
    28, 29, 30, 31]"
  by code_simp

lemma upt16: "[0..<16] = [0, 1, 2, 3, 4, 5, 6, 7, 8, 9, 10, 11, 12, 13, 14, 15]"
  by code_simp

lemma not_bit_beyond: "LENGTH('a::len) \<le> n \<Longrightarrow> \<not> bit (x :: 'a word) n"
  by (auto dest: bit_imp_le_length)

lemma ntohl_ntohl [simp]: "ntohl (ntohl x) = x"
proof (rule bit_word_eqI)
  fix n assume "n < LENGTH(32)"
  then have "n \<in> set [0..<32]" by simp
  moreover have "list_all (\<lambda>n. bit (ntohl (ntohl x)) n = bit x n) [0..<32]"
    unfolding upt32 by (simp add: ntohl_def bit_simps not_bit_beyond)
  ultimately show "bit (ntohl (ntohl x)) n = bit x n" by (simp add: list_all_iff)
qed

lemma ntohs_ntohs [simp]: "ntohs (ntohs x) = x"
proof (rule bit_word_eqI)
  fix n assume "n < LENGTH(16)"
  then have "n \<in> set [0..<16]" by simp
  moreover have "list_all (\<lambda>n. bit (ntohs (ntohs x)) n = bit x n) [0..<16]"
    unfolding upt16 by (simp add: ntohs_def bit_simps not_bit_beyond)
  ultimately show "bit (ntohs (ntohs x)) n = bit x n" by (simp add: list_all_iff)
qed

text \<open>The four bytes of an address make it up.\<close>

lemma addr_byte_less [simp]: "addr_byte k a < 256"
  unfolding addr_byte_def by (rule unat_byte)

lemma addr_bytes_join:
  "push_bit 24 (word_of_nat (addr_byte 3 a)) OR push_bit 16 (word_of_nat (addr_byte 2 a)) OR
     push_bit 8 (word_of_nat (addr_byte 1 a)) OR word_of_nat (addr_byte 0 a) = (a :: u32)"
proof -
  have m: "(0xff :: u32) = mask 8" by (simp add: mask_eq_exp_minus_1)
  have w: "word_of_nat (addr_byte k a) = drop_bit (8 * k) a AND 0xff" for k
    unfolding addr_byte_def m by (rule bit_word_eqI) (auto simp: bit_simps m)
  define b where "b = (push_bit 24 (word_of_nat (addr_byte 3 a)) OR push_bit 16 (word_of_nat (addr_byte 2 a)) OR
     push_bit 8 (word_of_nat (addr_byte 1 a)) OR word_of_nat (addr_byte 0 a) :: u32)"
  have "b = a"
  proof (rule bit_word_eqI)
    fix n assume "n < LENGTH(32)"
    then have "n \<in> set [0..<32]" by simp
    moreover have "list_all (\<lambda>n. bit b n = bit a n) [0..<32]"
      unfolding upt32 b_def w m by (simp add: bit_simps not_bit_beyond)
    ultimately show "bit b n = bit a n" by (simp add: list_all_iff)
  qed
  then show ?thesis by (simp only: b_def)
qed

lemma pton4_quad:
  assumes "a = ntohl x"
  shows "inet_pton4 ovf (quad_text (addr_byte 3 a) (addr_byte 2 a) (addr_byte 1 a) (addr_byte 0 a)) = Some x"
proof -
  have b: "is_byte (int (addr_byte k a))" for k using addr_byte_less [of k a] unfolding is_byte_def by linarith
  show ?thesis 
    by (simp add: inet_pton4_def scan_quad_text b [simplified assms] addr_bytes_join assms del: One_nat_def)
qed


section \<open>Hexadecimal numbers\<close>

lemma unat_hex_digit: "d < 16 \<Longrightarrow> unat (hex_digit d) = (if d < 10 then 48 + d else 87 + d)"
  by (simp add: hex_digit_def unat_word_ariths unsigned_of_nat take_bit_nat_eq_self)

lemma hex_digits: "list_all ISXDIGIT (hex n)"
proof (induction n rule: hex.induct)
  case (1 n)
  have "ISXDIGIT (hex_digit d)" if "d < 16" for d using that by (simp add: ISXDIGIT_iff unat_hex_digit)
  with 1 show ?case by (subst hex.simps) simp
qed

lemma hex_nonempty [simp]: "hex n \<noteq> []"
  by (subst hex.simps) simp

lemma hex_value_snoc:
  "hex_value (ds @ [c]) = hex_value ds * 16 + (let n = unat c in if n \<le> 57 then n - 48 else if n \<le> 70 then n - 55 else n - 87)"
  by (simp add: hex_value_def)

lemma hex_value_hex [simp]: "hex_value (hex n) = n"
proof (induction n rule: hex.induct)
  case (1 n)
  show ?case
  proof (cases "n < 16")
    case True
    then show ?thesis by (subst hex.simps) (simp add: hex_value_def unat_hex_digit)
  next
    case False
    with 1 show ?thesis by (subst hex.simps) (simp add: hex_value_snoc unat_hex_digit)
  qed
qed

lemma hex_length: "n < 16 ^ Suc k \<Longrightarrow> length (hex n) \<le> Suc k"
proof (induction k arbitrary: n)
  case 0
  then show ?case by (subst hex.simps) simp
next
  case (Suc k)
  then have "n div 16 < 16 ^ Suc k" by (simp add: less_mult_imp_div_less)
  then show ?case using Suc.IH [of "n div 16"] by (subst hex.simps) simp
qed

lemma word_hex_length: "length (hex (unat (w :: u16))) \<le> 4"
proof -
  have "unat w < 65536" using unsigned_less [of w, where 'a = nat] by simp
  then show ?thesis using hex_length [of "unat w" 3] by simp
qed

text \<open>No 16-bit number is printed with an \<open>x\<close>, so \<open>strtol\<close> reads what was printed.\<close>

lemma strtol16_hex:
  assumes "ends_digits (\<lambda>c. ISXDIGIT c \<or> c = 120 \<or> c = 88) rest"
  shows "strtol16 (hex n @ rest) = (n, length (hex n))"
proof -
  have e: "ends_digits ISXDIGIT rest" using assms by (auto simp: ends_digits_def)
  have "\<not> ((hex n @ rest) ! 1 = 120 \<or> (hex n @ rest) ! 1 = 88)" if "length (hex n @ rest) > 2"
  proof (cases "length (hex n) > 1")
    case True
    then have "ISXDIGIT (hex n ! 1)" using hex_digits [of n] by (simp add: list_all_length)
    then show ?thesis using True by (auto simp: nth_append ISXDIGIT_iff)
  next
    case False
    then have "length (hex n) = 1" using hex_nonempty [of n] by (cases "hex n") auto
    then show ?thesis using that assms by (cases rest) (auto simp: nth_append ends_digits_def)
  qed
  then show ?thesis using span_append (1) [OF hex_digits e] by (auto simp: strtol16_def Let_def)
qed

section \<open>The words of an IPv6 address\<close>

definition seg :: "u16 list \<Rightarrow> bytes" where
  "seg vs = concat (map (\<lambda>w. hex (unat w) @ [58]) vs)"

definition joined :: "u16 list \<Rightarrow> bytes" where
  "joined vs = (if vs = [] then [] else seg (butlast vs) @ hex (unat (last vs)))"

definition put_at :: "nat \<Rightarrow> u16 list \<Rightarrow> u16 list \<Rightarrow> u16 list" where
  "put_at i vs ws = take i ws @ vs @ drop (i + length vs) ws"

lemma seg_simps [simp]: "seg [] = []" "seg (v # vs) = hex (unat v) @ 58 # seg vs"
  by (simp_all add: seg_def)

lemma joined_text_simps [simp]: "joined [] = []" "joined [v] = hex (unat v)"
    "vs \<noteq> [] \<Longrightarrow> joined (v # vs) = hex (unat v) @ 58 # joined vs"
  by (simp_all add: joined_def)

lemma put_at_step:
  "i + Suc (length vs) \<le> length ws \<Longrightarrow> put_at (Suc i) vs (ws[i := v]) = put_at i (v # vs) ws"
  by (simp add: put_at_def take_Suc_conv_app_nth list_update_append drop_update_swap)

lemma put_at_Nil [simp]: "put_at i [] ws = ws"
  by (simp add: put_at_def)

lemma put_at_length [simp]: "i + length vs \<le> length ws \<Longrightarrow> length (put_at i vs ws) = length ws"
  by (simp add: put_at_def)

text \<open>One word of the loop, followed by a colon or standing at the end.\<close>

lemma hex_hd: "ISXDIGIT (hd (hex n))"
  using hex_digits [of n] by (cases "hex n") auto

lemma pton_word:
  assumes s: "s = p @ hex (unat (v :: u16)) @ rest" and "length p < eow" "i \<le> 7"
    and rest: "rest \<noteq> [] \<and> hd rest = 58 \<or> rest = [] \<and> eow = length s"
  shows "pton_loop s eow (length p) i ws gap sw =
    pton_loop s eow (length p + length (hex (unat v)) + 1) (Suc i) (ws[i := v]) gap (Suc sw)"
proof -
  have "strtol16 (hex (unat v) @ rest) = (unat v, length (hex (unat v)))"
    by (rule strtol16_hex) (use rest in \<open>auto simp: ends_digits_def ISXDIGIT_iff\<close>)
  moreover have "ISXDIGIT (ch s (length p))"
    using hex_hd [of "unat v"] by (simp add: ch_def s nth_append hd_conv_nth)
  moreover have "ch s (length p + length (hex (unat v))) = 58 \<or> length p + length (hex (unat v)) = eow"
    using rest by (cases rest) (auto simp: ch_def s nth_append)
  moreover have "unat v < 65536" using unsigned_less [of v, where 'a = nat] by simp
  ultimately show ?thesis
    using assms(2,3) word_hex_length [of v] by (subst pton_loop.simps) (auto simp: s)
qed

lemma pton_seg:
  "length (p @ seg vs) \<le> eow \<Longrightarrow> i + length vs \<le> 8 \<Longrightarrow> length ws = 8 \<Longrightarrow>
   pton_loop (p @ seg vs @ rest) eow (length p) i ws gap sw =
     pton_loop (p @ seg vs @ rest) eow (length (p @ seg vs)) (i + length vs) (put_at i vs ws) gap (sw + length vs)"
proof (induction vs arbitrary: p i ws sw)
  case (Cons v vs)
  let ?p = "p @ hex (unat v) @ [58]" and ?s = "p @ seg (v # vs) @ rest"
  have "pton_loop ?s eow (length p) i ws gap sw = pton_loop ?s eow (length p + length (hex (unat v)) + 1) (Suc i) (ws[i := v]) gap (Suc sw)"
    by (rule pton_word [where rest = "58 # seg vs @ rest"]) (use Cons.prems in auto)
  also have "... = pton_loop (?p @ seg vs @ rest) eow (length ?p) (Suc i) (ws[i := v]) gap (Suc sw)" by simp
  also have "... = pton_loop (?p @ seg vs @ rest) eow (length (?p @ seg vs)) (Suc i + length vs) (put_at (Suc i) vs (ws[i := v])) gap (Suc sw + length vs)"
    by (rule Cons.IH) (use Cons.prems in auto)
  finally show ?case using Cons.prems by (simp add: put_at_step)
qed simp

lemma pton_joined:
  "i + length vs \<le> 8 \<Longrightarrow> length ws = 8 \<Longrightarrow> s = p @ joined vs \<Longrightarrow> eow = length s \<Longrightarrow>
   pton_loop s eow (length p) i ws gap sw = Some (put_at i vs ws, gap, sw + length vs)"
proof (cases vs rule: rev_cases)
  case Nil
  assume "s = p @ joined vs" "eow = length s"
  with Nil show ?thesis by (subst pton_loop.simps) simp
next
  case (snoc us v)
  assume a: "i + length vs \<le> 8" "length ws = 8" "s = p @ joined vs" "eow = length s"
  then have s: "s = p @ seg us @ hex (unat v)" by (simp add: snoc joined_def)
  have "pton_loop s eow (length p) i ws gap sw = pton_loop s eow (length (p @ seg us)) (i + length us) (put_at i us ws) gap (sw + length us)"
    unfolding s by (rule pton_seg) (use a snoc s in \<open>auto simp: joined_def\<close>)
  also have "... = pton_loop s eow (length (p @ seg us) + length (hex (unat v)) + 1) (Suc (i + length us)) ((put_at i us ws)[i + length us := v]) gap (Suc (sw + length us))"
    by (rule pton_word [where rest = "[]"]) (use a snoc s in \<open>auto simp: joined_def\<close>)
  also have "... = Some ((put_at i us ws)[i + length us := v], gap, sw + length vs)"
    by (subst pton_loop.simps) (use a s in \<open>simp add: snoc joined_def\<close>)
  also have "(put_at i us ws)[i + length us := v] = put_at i vs ws"
    using a by (simp add: put_at_def snoc list_update_append Cons_nth_drop_Suc [symmetric])
  finally show ?thesis .
qed


section \<open>The text of the words\<close>

lemma words_text_rest:
  "i \<le> 8 \<Longrightarrow> length ws = 8 \<Longrightarrow> \<forall>j. i \<le> j \<and> j < 8 \<longrightarrow> gap \<noteq> int j \<Longrightarrow> words_text ws gap i = joined (drop i ws)"
proof (induction "8 - i" arbitrary: i)
  case 0
  then show ?case by (subst words_text.simps) simp
next
  case (Suc k)
  then have d: "drop i ws = ws ! i # drop (Suc i) ws" by (simp add: Cons_nth_drop_Suc)
  have "words_text ws gap (Suc i) = joined (drop (Suc i) ws)" by (rule Suc.hyps(1)) (use Suc in auto)
  moreover have "gap \<noteq> int i" "i < 8" using Suc by auto
  ultimately show ?case using Suc.prems d by (subst words_text.simps) (cases "i = 7"; simp)
qed

lemma words_text_before:
  "i \<le> p \<Longrightarrow> p < 8 \<Longrightarrow> length ws = 8 \<Longrightarrow> words_text ws (int p) i = seg (take (p - i) (drop i ws)) @ words_text ws (int p) p"
proof (induction "p - i" arbitrary: i)
  case (Suc k)
  then have "take (p - i) (drop i ws) = ws ! i # take (p - Suc i) (drop (Suc i) ws)"
    by (simp add: take_Cons' Cons_nth_drop_Suc [symmetric])
  moreover have "words_text ws (int p) (Suc i) = seg (take (p - Suc i) (drop (Suc i) ws)) @ words_text ws (int p) p"
    by (rule Suc.hyps(1)) (use Suc in auto)
  moreover have "i \<noteq> p" "i \<noteq> 7" "\<not> 8 \<le> i" using Suc by auto
  ultimately show ?case by (subst words_text.simps) simp
qed simp

lemma zeros_at_split:
  assumes "p < length ws" "ws ! p = 0"
  shows "0 < zeros_at ws p" "p + zeros_at ws p \<le> length ws" "drop p ws = replicate (zeros_at ws p) 0 @ drop (p + zeros_at ws p) ws"
proof -
  have d: "drop p ws = 0 # drop (Suc p) ws" using assms by (metis Cons_nth_drop_Suc)
  show "0 < zeros_at ws p" by (simp add: zeros_at_def d)
  show "p + zeros_at ws p \<le> length ws"
    using length_takeWhile_le [of "\<lambda>w. w = 0" "drop p ws"] assms(1) by (simp add: zeros_at_def)
  have "takeWhile (\<lambda>w. w = 0) xs = replicate (length (takeWhile (\<lambda>w. w = 0) xs)) 0" for xs :: "u16 list"
    by (induction xs) auto
  then have "takeWhile (\<lambda>w. w = 0) (drop p ws) = replicate (zeros_at ws p) 0" unfolding zeros_at_def .
  moreover have "dropWhile (\<lambda>w. w = 0) (drop p ws) = drop (p + zeros_at ws p) ws"
    by (simp add: zeros_at_def dropWhile_eq_drop add.commute)
  ultimately show "drop p ws = replicate (zeros_at ws p) 0 @ drop (p + zeros_at ws p) ws"
    using takeWhile_dropWhile_id [of "\<lambda>w. w = 0" "drop p ws"] by simp
qed

lemma gap_loop_zero:
  "(\<exists>p < 8. pos = int p \<and> ws ! p = 0) \<or> pos = -1 \<and> len = 0 \<Longrightarrow> gap_loop ws i pos len = (q, n) \<Longrightarrow>
   (\<exists>p < 8. q = int p \<and> ws ! p = 0) \<or> q = -1 \<and> n = 0"
proof (induction ws i pos len rule: gap_loop.induct)
  case (1 ws i pos len)
  show ?case
  proof (cases "8 \<le> i")
    case True
    then show ?thesis using 1 by (subst (asm) gap_loop.simps) simp
  next
    case False
    note gap_loop.simps [of ws i pos len, simp]
    show ?thesis
    proof (cases "ws ! i = 0")
      case True
      define k where "k = 1 + length (takeWhile (\<lambda>w. w = 0) (take (8 - Suc i) (drop (Suc i) ws)))"
      have "gap_loop ws (i + k) (if k > len then int i else pos) (max k len) = (q, n)"
        using 1(4) False True by (simp add: k_def Let_def)
      moreover have "(\<exists>p < 8. (if k > len then int i else pos) = int p \<and> ws ! p = 0)"
        using 1(3) True False by (cases "k > len") (auto simp: k_def intro: exI [of _ i])
      ultimately show ?thesis using 1(1) [OF False True k_def] by blast
    next
      case nz: False
      then show ?thesis using 1(2) [OF False nz] 1(3,4) False by simp
    qed
  qed
qed

lemma longest_gap_zero: "longest_gap ws = -1 \<or> (\<exists>p < 8. longest_gap ws = int p \<and> ws ! p = 0)"
  using gap_loop_zero [of "-1" ws 0 0] by (cases "gap_loop ws 0 (-1) 0") (auto simp: longest_gap_def)

lemma words_text_gap:
  assumes "p < 8" "ws ! p = 0" "length ws = 8"
  shows "words_text ws (int p) 0 =
    seg (take p ws) @ (if p = 0 then [58, 58] else [58]) @ joined (drop (p + zeros_at ws p) ws)"
proof -
  have z: "0 < zeros_at ws p" "p + zeros_at ws p \<le> 8" using zeros_at_split [of p ws] assms by auto
  then have "words_text ws (int p) (p + zeros_at ws p) = joined (drop (p + zeros_at ws p) ws)"
    using assms by (intro words_text_rest) auto
  moreover have "max 1 (zeros_at ws p) = zeros_at ws p" using z by simp
  ultimately have "words_text ws (int p) p = (if p = 0 then [58, 58] else [58]) @ joined (drop (p + zeros_at ws p) ws)"
    using assms by (subst words_text.simps) simp
  then show ?thesis using words_text_before [of 0 p ws] assms by simp
qed


lemma pton_gap:
  assumes "p < 8" "p < q" "q \<le> 8" "length ws = 8" "length W = 8"
    and t: "t = seg (take p ws) @ (if p = 0 then [58, 58] else [58]) @ joined (drop q ws)"
  shows "pton_loop t (length t) 0 0 W (-1) 0 =
    Some (put_at p (drop q ws) (put_at 0 (take p ws) W), int p, p + (8 - q))"
proof (cases "p = 0")
  case True
  then have t: "t = [58, 58] @ joined (drop q ws)" using t by simp
  have "pton_loop t (length t) 0 0 W (-1) 0 = pton_loop t (length t) (length [58 :: u8, 58]) 0 W (int 0) 0"
    by (subst pton_loop.simps) (simp add: t ch_def ISXDIGIT_iff)
  also have "... = Some (put_at 0 (drop q ws) W, int 0, 0 + length (drop q ws))"
    by (rule pton_joined) (use t assms in auto)
  finally show ?thesis using True assms by simp
next
  case False
  let ?W = "put_at 0 (take p ws) W" and ?r = "joined (drop q ws)"
  have t: "t = seg (take p ws) @ 58 # ?r" using False t by simp
  have "pton_loop ([] @ seg (take p ws) @ 58 # ?r) (length t) (length ([] :: bytes)) 0 W (-1) 0 =
    pton_loop ([] @ seg (take p ws) @ 58 # ?r) (length t) (length ([] @ seg (take p ws))) (0 + length (take p ws)) ?W (-1) (0 + length (take p ws))"
    by (rule pton_seg) (use assms t in auto)
  also have "... = pton_loop t (length t) (length (seg (take p ws) @ [58 :: u8])) p ?W (int p) p"
    using False assms(1,4) by (subst pton_loop.simps) (simp add: t ch_def ISXDIGIT_iff nth_append)
  also have "... = Some (put_at p (drop q ws) ?W, int p, p + length (drop q ws))"
    by (rule pton_joined) (use t assms in auto)
  finally show ?thesis using assms by (simp add: t)
qed

lemma spread_back:
  assumes "p < q" "q \<le> 8" "length ws = 8" "length W = 8" "drop p ws = replicate (q - p) 0 @ drop q ws"
  shows "spread (put_at p (drop q ws) (put_at 0 (take p ws) W)) (int p) (p + (8 - q)) False = Some ws"
proof -
  have "ws = take p ws @ replicate (q - p) 0 @ drop q ws" using assms(5) append_take_drop_id [of p ws] by simp
  then show ?thesis using assms by (simp add: spread_def put_at_def nat_diff_distrib)
qed

lemma no_dot: "list_all (\<lambda>c. c \<noteq> 46) s \<Longrightarrow> first_dot s = None"
  by (simp add: first_dot_def takeWhile_eq_all_conv [THEN iffD2] list_all_iff)

lemma hex_no_dot: "list_all (\<lambda>c. c \<noteq> 46) (hex n)" "list_all (\<lambda>c. c \<noteq> 93) (hex n)"
  using hex_digits [of n] by (auto simp: list_all_iff ISXDIGIT_iff)

lemma seg_no_dot: "list_all (\<lambda>c. c \<noteq> 46) (seg vs)" "list_all (\<lambda>c. c \<noteq> 93) (seg vs)"
  by (induction vs) (simp_all add: hex_no_dot)

lemma joined_no_dot: "list_all (\<lambda>c. c \<noteq> 46) (joined vs)" "list_all (\<lambda>c. c \<noteq> 93) (joined vs)"
  by (simp_all add: joined_def seg_no_dot hex_no_dot)

lemma pton6_words_text:
  assumes "length ws = 8" "length junk = 8"
  shows "inet_pton6 ovf junk (words_text ws (longest_gap ws) 0) = Inr (words_bytes ws)"
proof (cases "longest_gap ws = -1")
  case True
  then have t: "words_text ws (longest_gap ws) 0 = joined ws"
    using words_text_rest [of 0 ws "-1"] assms by simp
  have "pton_loop (joined ws) (length (joined ws)) (length ([] :: bytes)) 0 junk (-1) 0 = Some (put_at 0 ws junk, -1, 0 + length ws)"
    by (rule pton_joined) (use assms in auto)
  then show ?thesis
    using assms unfolding t by (simp add: inet_pton6_def no_dot joined_no_dot words_end_def put_at_def spread_def)
next
  case False
  then obtain p where p: "longest_gap ws = int p" "p < 8" "ws ! p = 0" using longest_gap_zero [of ws] by auto
  define q where "q = p + zeros_at ws p"
  note z = zeros_at_split [of p ws, folded q_def]
  have q: "p < q" "q \<le> 8" "drop p ws = replicate (q - p) 0 @ drop q ws" using z p assms by (auto simp: q_def)
  define t where "t = words_text ws (longest_gap ws) 0"
  have t: "t = seg (take p ws) @ (if p = 0 then [58, 58] else [58]) @ joined (drop q ws)"
    using words_text_gap p assms by (simp add: q_def t_def)
  have "first_dot t = None" by (rule no_dot) (simp add: t seg_no_dot joined_no_dot)
  moreover have "p + (8 - q) < 8" using q by simp
  ultimately show ?thesis
    using pton_gap [OF p(2) q(1,2) assms t] spread_back [OF q(1,2) assms q(3)]
    unfolding t_def [symmetric] 
    by (simp add: inet_pton6_def words_end_def del: Nat.add_diff_assoc Nat.add_diff_assoc2)
qed


section \<open>Addresses with an IPv4 part\<close>

lemma dec_no: "list_all (\<lambda>c. c \<noteq> 46) (dec n)" "list_all (\<lambda>c. c \<noteq> 58) (dec n)" "list_all (\<lambda>c. c \<noteq> 93) (dec n)"
  using dec_digits [of n] by (auto simp: list_all_iff is_digit_def)

lemma first_dot_quad:
  assumes "list_all (\<lambda>c. c \<noteq> 46) pre"
  shows "first_dot (pre @ quad_text a b c d) = Some (length (pre @ dec a))"
proof -
  have "takeWhile (\<lambda>c. c \<noteq> 46) ((pre @ dec a) @ 46 # s) = pre @ dec a" for s
    by (rule span_append (1)) (simp_all add: assms dec_no ends_digits_def)
  then show ?thesis by (simp add: first_dot_def quad_text_def)
qed

lemma words_end_quad:
  assumes "pre \<noteq> []" "last pre = 58"
  shows "words_end (pre @ quad_text a b c d) (Some (length (pre @ dec a))) = length pre"
proof -
  have "ISDIGIT = is_digit" by (auto simp: ISDIGIT_iff is_digit_def)
  moreover have "takeWhile is_digit (rev (dec a) @ rev pre) = rev (dec a)"
    by (rule span_append (1)) (use assms dec_digits [of a] in \<open>auto simp: list_all_iff ends_digits_def hd_rev is_digit_def\<close>)
  ultimately show ?thesis by (simp add: words_end_def quad_text_def)
qed

lemma pton6_quad:
  fixes a b c d :: u8
  assumes pre: "pre \<noteq> []" "last pre = 58" "list_all (\<lambda>c. c \<noteq> 46) pre" and W: "length junk = 8"
    and loop: "pton_loop (pre @ quad_text (unat a) (unat b) (unat c) (unat d)) (length pre) 0 0
      (junk[6 := push_bit 8 (ucast a) OR ucast b, 7 := push_bit 8 (ucast c) OR ucast d]) (-1) 2 = Some (ws, gap, sw)"
    and "sw < 8" "gap \<noteq> -1" "spread ws gap sw True = Some ws'"
  shows "inet_pton6 ovf junk (pre @ quad_text (unat a) (unat b) (unat c) (unat d)) = Inr (words_bytes ws')"
proof -
  have b: "is_byte (int (unat x))" "word_of_int (int (unat x)) = (ucast x :: u16)" for x :: u8
    using unsigned_less [of x, where 'a = int] by (simp_all add: is_byte_def unsigned_of_nat)
  define t where "t = pre @ quad_text (unat a) (unat b) (unat c) (unat d)"
  have "first_dot t = Some (length (pre @ dec (unat a)))" "words_end t (Some (length (pre @ dec (unat a)))) = length pre"
    "drop (length pre) t = quad_text (unat a) (unat b) (unat c) (unat d)" "length (pre @ dec (unat a)) \<noteq> 0"
    unfolding t_def by (simp_all add: first_dot_quad [OF pre(3)] words_end_quad [OF pre(1,2), simplified])
  then show ?thesis
    using assms(5-8) unfolding t_def [symmetric] by (simp add: inet_pton6_def Let_def scan_quad_text unat_byte b b (1) [simplified])
qed

lemma word_join:
  fixes x y :: u8
  defines "w \<equiv> push_bit 8 (ucast x) + ucast y :: u16"
  shows "w = push_bit 8 (ucast x) OR ucast y" "ucast (drop_bit 8 w) = x" "ucast (w AND 0xff) = y"
proof -
  have m: "(0xff :: u16) = mask 8" by (simp add: mask_eq_exp_minus_1)
  show w: "w = push_bit 8 (ucast x) OR ucast y"
    unfolding w_def by (rule disjunctive_add) (auto simp: bit_simps dest: bit_imp_le_length)
  show "ucast (drop_bit 8 w) = x" unfolding w by (rule bit_word_eqI) (auto simp: bit_simps dest: bit_imp_le_length)
  show "ucast (w AND 0xff) = y" unfolding w m by (rule bit_word_eqI) (auto simp: bit_simps)
qed

lemma words_of_length [simp]: "length (words_of s6) = 8"
  by (simp add: words_of_def)

lemma upt8: "[0..<8] = [0, 1, 2, 3, 4, 5, 6, 7]"
  by code_simp

lemma words_of_nth: "i < 8 \<Longrightarrow> words_of s6 ! i = push_bit 8 (ucast (s6 ! (2 * i))) + ucast (s6 ! (2 * i + 1))"
  by (simp add: words_of_def)

lemma words_bytes_of:
  assumes "length s6 = 16"
  shows "words_bytes (words_of s6) = s6"
proof -
  have "map ((!) s6) [0..<16] = s6" using map_nth [of s6] assms by simp
  then show ?thesis unfolding upt16 by (simp add: words_bytes_def words_of_def upt8 word_join(2,3))
qed


lemma eight: "length ws = 8 \<Longrightarrow> ws = [ws ! 0, ws ! 1, ws ! 2, ws ! 3, ws ! 4, ws ! 5, ws ! 6, ws ! 7]"
  using map_nth [of ws] by (simp only: upt8) simp

lemma v4_words:
  assumes "is_v4_in_v6 ws" "length ws = 8"
  shows "ws = replicate 5 0 @ [ws ! 5, ws ! 6, ws ! 7]" "ws ! 5 = 0 \<or> ws ! 5 = 0xffff"
proof -
  have "\<forall>i < 5. ws ! i = 0" using assms(1) by (simp add: is_v4_in_v6_def)
  then have "ws ! 0 = 0" "ws ! 1 = 0" "ws ! 2 = 0" "ws ! 3 = 0" "ws ! 4 = 0" by simp_all
  then show "ws = replicate 5 0 @ [ws ! 5, ws ! 6, ws ! 7]" using eight [OF assms(2)] by (simp add: numeral_eq_Suc)
  show "ws ! 5 = 0 \<or> ws ! 5 = 0xffff" using assms(1) by (auto simp: is_v4_in_v6_def)
qed

lemma not_hex_colon [simp]: "\<not> ISXDIGIT 58"
  by (simp add: ISXDIGIT_iff)

lemma pton_two_colons:
  assumes "2 \<le> eow"
  shows "pton_loop ([58, 58] @ r) eow 0 0 W (-1) sw = pton_loop ([58, 58] @ r) eow 2 0 W 0 sw"
  using assms by (subst pton_loop.simps) (simp add: ch_def not_hex_colon flip: numeral_2_eq_2)

lemma replicate_small: "replicate 5 x = [x, x, x, x, x]" "replicate 6 x = [x, x, x, x, x, x]"
  by (simp_all add: numeral_eq_Suc)

lemma pton6_v4_text:
  assumes "length s6 = 16" "length junk = 8" "is_v4_in_v6 (words_of s6)"
  shows "inet_pton6 ovf junk (inet6_text s6) = Inr s6"
proof -
  define ws W where "ws = words_of s6"
    and "W = junk[6 := push_bit 8 (ucast (s6 ! 12)) OR ucast (s6 ! 13), 7 := push_bit 8 (ucast (s6 ! 14)) OR ucast (s6 ! 15)]"
  define quad where "quad = quad_text (unat (s6 ! 12)) (unat (s6 ! 13)) (unat (s6 ! 14)) (unat (s6 ! 15))"
  have "ws ! 6 = W ! 6" "ws ! 7 = W ! 7"
    using assms(2) by (simp_all add: ws_def W_def words_of_nth word_join(1))
  then have d: "drop 6 W = [ws ! 6, ws ! 7]"
    using assms(2) by (simp add: W_def Cons_nth_drop_Suc [symmetric] drop_update_swap)
  have len: "length W = 8" using assms(2) by (simp add: W_def)
  note v4 = v4_words [OF assms(3) words_of_length, folded ws_def]
  have s6: "s6 = words_bytes ws" by (simp add: ws_def words_bytes_of assms(1))
  show ?thesis
  proof (cases "ws ! 5 = 0")
    case True
    have l: "pton_loop ([58, 58] @ quad) (length [58 :: u8, 58]) 0 0 W (-1) 2 = Some (W, 0, 2)"
      using pton_two_colons [of 2 quad W 2] pton_loop.simps [of "[58, 58] @ quad" 2 2] by (simp flip: numeral_2_eq_2)
    have "spread W 0 2 True = Some ws"
      using v4(1) True d by (simp add: spread_def replicate_small)
    then have "inet_pton6 ovf junk ([58, 58] @ quad) = Inr (words_bytes ws)"
      unfolding quad_def by (intro pton6_quad [OF _ _ _ assms(2) l [unfolded W_def quad_def]]) (simp_all add: W_def)
    then show ?thesis using True assms(3) by (simp add: inet6_text_def Let_def ws_def [symmetric] quad_def s6 [symmetric])
  next
    case False
    then have f: "ws ! 5 = 0xffff" using v4(2) by simp
    define pre where "pre = [58, 58] @ seg [0xffff]"
    have "pton_loop (pre @ quad) (length pre) 0 0 W (-1) 2 = pton_loop ([58, 58] @ seg [0xffff] @ quad) (length pre) (length [58 :: u8, 58]) 0 W 0 2"
      using pton_two_colons [of "length pre" "seg [0xffff] @ quad" W 2] by (simp add: pre_def flip: numeral_2_eq_2)
    also have "... = pton_loop ([58, 58] @ seg [0xffff] @ quad) (length pre) (length ([58, 58] @ seg [0xffff])) (0 + length [0xffff :: u16]) (put_at 0 [0xffff] W) 0 (2 + length [0xffff :: u16])"
      by (rule pton_seg) (simp_all add: pre_def len)
    also have "... = Some (W[0 := 0xffff], 0, 3)"
      using len by (subst pton_loop.simps) (simp add: pre_def put_at_def upd_conv_take_nth_drop)
    finally have l: "pton_loop (pre @ quad) (length pre) 0 0 W (-1) 2 = Some (W[0 := 0xffff], 0, 3)" .
    have "spread (W[0 := 0xffff]) 0 3 True = Some ws"
      using v4(1) f d len by (cases W) (simp_all add: spread_def replicate_small)
    then have "inet_pton6 ovf junk (pre @ quad) = Inr (words_bytes ws)"
      unfolding quad_def
      by (intro pton6_quad [OF _ _ _ assms(2) l [unfolded W_def quad_def]]) (simp_all add: W_def pre_def hex_no_dot)
    then show ?thesis using f assms(3) by (simp add: inet6_text_def Let_def ws_def [symmetric] quad_def s6 [symmetric] pre_def)
  qed
qed

lemma pton6_text:
  assumes "length s6 = 16" "length junk = 8"
  shows "inet_pton6 ovf junk (inet6_text s6) = Inr s6"
proof (cases "is_v4_in_v6 (words_of s6)")
  case True
  then show ?thesis using pton6_v4_text assms by simp
next
  case False
  then show ?thesis
    using pton6_words_text [of "words_of s6" junk ovf] assms by (simp add: inet6_text_def Let_def words_bytes_of)
qed


section \<open>Addresses with a port\<close>

lemma dec_length: "n < 10 ^ Suc k \<Longrightarrow> length (dec n) \<le> Suc k"
proof (induction k arbitrary: n)
  case 0
  then show ?case by (subst dec.simps) simp
next
  case (Suc k)
  then have "n div 10 < 10 ^ Suc k" by (simp add: less_mult_imp_div_less)
  then show ?case using Suc.IH [of "n div 10"] by (subst dec.simps) simp
qed

lemma quad_length:
  assumes "a < 256" "b < 256" "c < 256" "d < 256"
  shows "length (quad_text a b c d) \<le> 15"
proof -
  have "length (dec n) \<le> 3" if "n < 256" for n using dec_length [of n 2] that by simp
  from this [OF assms(1)] this [OF assms(2)] this [OF assms(3)] this [OF assms(4)] show ?thesis by (simp add: quad_text_def)
qed

lemma seg_length: "length (seg vs) \<le> 5 * length vs"
proof (induction vs)
  case (Cons v vs)
  then show ?case using word_hex_length [of v] by simp
qed simp

lemma joined_length: "length (joined vs) \<le> 5 * length vs"
proof (cases vs rule: rev_cases)
  case (snoc us v)
  then show ?thesis using seg_length [of us] word_hex_length [of v] by (simp add: joined_def)
qed simp

lemma inet6_text_shape:
  assumes "length s6 = 16"
  shows "length (inet6_text s6) \<le> 42" "list_all (\<lambda>c. c \<noteq> 93) (inet6_text s6)"
proof -
  let ?ws = "words_of s6"
  have q: "list_all (\<lambda>c. c \<noteq> 93) (quad_text a b c d)" for a b c d by (simp add: quad_text_def dec_no)
  have "length (hex (unat (?ws ! 5))) \<le> 4" by (rule word_hex_length)
  moreover have "length (quad_text (unat (s6 ! 12)) (unat (s6 ! 13)) (unat (s6 ! 14)) (unat (s6 ! 15))) \<le> 15"
    by (rule quad_length) (rule unat_byte)+
  moreover have "length (words_text ?ws (longest_gap ?ws) 0) \<le> 42 \<and> list_all (\<lambda>c. c \<noteq> 93) (words_text ?ws (longest_gap ?ws) 0)"
  proof (cases "longest_gap ?ws = -1")
    case True
    then show ?thesis using words_text_rest [of 0 ?ws "-1"] joined_length [of ?ws] by (simp add: joined_no_dot)
  next
    case False
    then obtain p where p: "longest_gap ?ws = int p" "p < 8" "?ws ! p = 0" using longest_gap_zero [of ?ws] by auto
    have "length (seg (take p ?ws)) \<le> 5 * p" using seg_length [of "take p ?ws"] p by simp
    moreover have "length (joined (drop (p + zeros_at ?ws p) ?ws)) \<le> 5 * (8 - p)"
      using joined_length [of "drop (p + zeros_at ?ws p) ?ws"] by simp
    moreover have "5 * p + 5 * (8 - p) = 40" using p(2) by simp
    ultimately have "length (seg (take p ?ws)) + length (joined (drop (p + zeros_at ?ws p) ?ws)) \<le> 40" by linarith
    then show ?thesis
      unfolding p(1) words_text_gap [OF p(2,3) words_of_length] by (cases "p = 0") (simp_all add: seg_no_dot joined_no_dot)
  qed
  ultimately show "length (inet6_text s6) \<le> 42" "list_all (\<lambda>c. c \<noteq> 93) (inet6_text s6)"
    by (auto simp: inet6_text_def Let_def q hex_no_dot)
qed

lemma find_char_after:
  assumes "list_all (\<lambda>x. x \<noteq> c) s"
  shows "find_char c (s @ c # r) = Some (length s)" "find_char c s = None"
  using span_append (1) [OF assms, of "c # r"] takeWhile_eq_all_conv [of "\<lambda>x. x \<noteq> c" s] assms
  by (simp_all add: find_char_def Let_def ends_digits_def list_all_iff del: takeWhile_eq_all_conv)

lemma atoi_dec: "n < 65536 \<Longrightarrow> c_atoi ovf (dec n) = int n"
  using scan_dec [of n "[]" ovf] by (simp add: c_atoi_def ends_digits_def)

lemma port_back: "ntohs (word_of_int (int (unat (ntohs p)))) = p"
  by simp

lemma port_uint: "0 < unat (p :: u16) \<Longrightarrow> 0 < uint p" "uint (p :: u16) \<le> 65535"
proof -
  show "uint p \<le> 65535" using unsigned_less [of p, where 'a = int] by simp
  show "0 < uint p" if "0 < unat p" using that unfolding nat_uint_eq [symmetric] by linarith
qed

lemma port_range: "unat (p :: u16) < 65536"
  using unsigned_less [of p, where 'a = nat] by simp

lemma ntohs_zero [simp]: "ntohs p = 0 \<longleftrightarrow> p = 0"
  by (metis ntohs_ntohs ntohs_def bit.disj_zero_right drop_bit_of_0 push_bit_of_0)


lemma parse_sin:
  assumes "p \<noteq> 0" "16 \<le> outlen"
  shows "evutil_parse_sockaddr_port ovf junk (evutil_format_sockaddr_port (Sin x p) (64 + n)) outlen = Some (Some (Sin x p, 16))"
proof -
  let ?a = "ntohl x" and ?port = "dec (unat (ntohs p))"
  define q where "q = quad_text (addr_byte 3 ?a) (addr_byte 2 ?a) (addr_byte 1 ?a) (addr_byte 0 ?a)"
  have l: "length q \<le> 15" unfolding q_def by (rule quad_length) simp_all
  have "length ?port \<le> 5" using dec_length [of "unat (ntohs p)" 4] port_range [of "ntohs p"] by simp
  then have t: "evutil_format_sockaddr_port (Sin x p) (64 + n) = q @ 58 # ?port"
    using l by (simp add: evutil_format_sockaddr_port_def inet_ntop4_def Let_def q_def)
  have c: "list_all (\<lambda>c. c \<noteq> 58) q" "q \<noteq> []" by (simp_all add: q_def quad_text_def dec_no)
  have "is_digit (hd q)" using dec_digits [of "addr_byte 3 ?a"] by (cases "dec (addr_byte 3 ?a)") (auto simp: q_def quad_text_def)
  then have "ch (q @ 58 # ?port) 0 \<noteq> 91" using c(2) by (cases q) (auto simp: ch_def is_digit_def)
  then have "split_port (q @ 58 # ?port) = Some (Some (q, Some ?port, False))"
    using l by (simp add: split_port_def find_char_after [OF c(1)] find_char_after [OF dec_no(2)])
  moreover have "c_atoi ovf ?port = int (unat (ntohs p))" by (rule atoi_dec [OF port_range])
  moreover have "inet_pton4 ovf q = Some x" unfolding q_def by (rule pton4_quad) simp
  moreover have "0 < unat (ntohs p)" using assms(1) by (simp add: unat_gt_0)
  ultimately show ?thesis
    using assms port_uint [of "ntohs p"] unfolding t evutil_parse_sockaddr_port_def by (simp add: Let_def)
qed

lemma parse_sin6:
  assumes "length a = 16" "length junk = 8" "p \<noteq> 0" "28 \<le> outlen"
  shows "evutil_parse_sockaddr_port ovf junk (evutil_format_sockaddr_port (Sin6 a p) (64 + n)) outlen = Some (Some (Sin6 a p, 28))"
proof -
  let ?port = "dec (unat (ntohs p))"
  define q where "q = inet6_text a"
  have l: "length q \<le> 42" and c: "list_all (\<lambda>c. c \<noteq> 93) q" unfolding q_def by (rule inet6_text_shape [OF assms(1)])+
  have "length ?port \<le> 5" using dec_length [of "unat (ntohs p)" 4] port_range [of "ntohs p"] by simp
  then have t: "evutil_format_sockaddr_port (Sin6 a p) (64 + n) = (91 # q) @ 93 # 58 # ?port"
    using l by (simp add: evutil_format_sockaddr_port_def inet_ntop6_def strlcpy_text_def Let_def q_def [symmetric])
  have "find_char 93 ((91 # q) @ 93 # 58 # ?port) = Some (length (91 # q))" by (rule find_char_after (1)) (simp add: c)
  moreover have "sint (word_of_nat (length q) :: u32) = int (length q)"
    using l by (simp add: signed_of_nat signed_take_bit_int_eq_self)
  ultimately have "split_port ((91 # q) @ 93 # 58 # ?port) = Some (Some (q, Some ?port, True))"
    using l by (simp add: split_port_def ch_def nth_append)
  moreover have "c_atoi ovf ?port = int (unat (ntohs p))" by (rule atoi_dec [OF port_range])
  moreover have "inet_pton6 ovf junk q = Inr a" unfolding q_def by (rule pton6_text [OF assms(1,2)])
  moreover have "0 < unat (ntohs p)" using assms(3) by (simp add: unat_gt_0)
  ultimately show ?thesis
    using assms port_uint [of "ntohs p"] unfolding t evutil_parse_sockaddr_port_def by (simp add: Let_def)
qed

definition addr_length :: "sockaddr \<Rightarrow> int" where
  "addr_length sa = (case sa of Sin _ _ \<Rightarrow> 16 | Sin6 _ _ \<Rightarrow> 28 | Sother _ \<Rightarrow> 0)"

definition printable :: "sockaddr \<Rightarrow> bool" where
  "printable sa \<longleftrightarrow> (case sa of Sin _ p \<Rightarrow> p \<noteq> 0 | Sin6 a p \<Rightarrow> length a = 16 \<and> p \<noteq> 0 | Sother _ \<Rightarrow> False)"



end
