(* ===== verification/EvAddrinfo.thy ===== *)
theory EvAddrinfo
  imports EvAddrProofs "HOL-Library.Signed_Division"
begin

text \<open>
  The part of \<open>getaddrinfo\<close> in \<open>evutil.c\<close> that needs no resolver: service names, guesses from the
  hints, and nodes that are absent or written as addresses. \<open>getservbyname\<close> and \<open>getprotobynumber\<close>
  belong to the C library: \<open>serv\<close> gives the port in network order, \<open>proto\<close> the name. \<open>mem\<close> is the
  list of outcomes of the allocations to come; what it says is used up from the front. The error codes
  and flags are those \<open>util.h\<close> has where the system defines none.
\<close>

section \<open>Hints and results\<close>

record hints =
  ai_flags :: u32
  ai_family :: int
  ai_socktype :: int
  ai_protocol :: int

record addrinfo = hints +
  ai_addr :: sockaddr
  ai_addrlen :: int

abbreviation PF_UNSPEC :: int where "PF_UNSPEC \<equiv> 0"
abbreviation SOCK_STREAM :: int where "SOCK_STREAM \<equiv> 1"
abbreviation SOCK_DGRAM :: int where "SOCK_DGRAM \<equiv> 2"
abbreviation IPPROTO_TCP :: int where "IPPROTO_TCP \<equiv> 6"
abbreviation IPPROTO_UDP :: int where "IPPROTO_UDP \<equiv> 17"
abbreviation IPPROTO_SCTP :: int where "IPPROTO_SCTP \<equiv> 132"

definition EVUTIL_AI_PASSIVE :: u32 where "EVUTIL_AI_PASSIVE = 0x1000"
definition EVUTIL_AI_NUMERICHOST :: u32 where "EVUTIL_AI_NUMERICHOST = 0x4000"
definition EVUTIL_AI_NUMERICSERV :: u32 where "EVUTIL_AI_NUMERICSERV = 0x8000"
definition EVUTIL_AI_ADDRCONFIG :: u32 where "EVUTIL_AI_ADDRCONFIG = 0x40000"
definition EVUTIL_AI_LIBEVENT_ALLOCATED :: u32 where "EVUTIL_AI_LIBEVENT_ALLOCATED = 0x80000000"

datatype eai = EAI_OK | EAI_FAMILY | EAI_MEMORY | EAI_NONAME | EAI_NEED_RESOLVE

section \<open>Operations\<close>

text \<open>\<open>take_mem\<close> is one allocation; a list that has run out stands for success.\<close>

definition take_mem :: "bool list \<Rightarrow> bool \<times> bool list" where
  "take_mem mem = (case mem of [] \<Rightarrow> (True, []) | ok # mem' \<Rightarrow> (ok, mem'))"

definition one_addrinfo :: "sockaddr \<Rightarrow> int \<Rightarrow> hints \<Rightarrow> bool list \<Rightarrow> addrinfo list option \<times> bool list" where
  "one_addrinfo sa socklen h mem =
     (case take_mem mem of
        (False, mem') \<Rightarrow> (None, mem')
      | (True, mem') \<Rightarrow>
          (Some [\<lparr>ai_flags = EVUTIL_AI_LIBEVENT_ALLOCATED, ai_family = family sa, ai_socktype = ai_socktype h,
                  ai_protocol = ai_protocol h, ai_addr = sa, ai_addrlen = socklen\<rparr>], mem'))"

definition evutil_new_addrinfo :: "sockaddr \<Rightarrow> int \<Rightarrow> hints \<Rightarrow> bool list \<Rightarrow> addrinfo list option \<times> bool list" where
  "evutil_new_addrinfo sa socklen h mem =
     (if ai_socktype h = 0 \<and> ai_protocol h = 0 then
        (case one_addrinfo sa socklen (h\<lparr>ai_socktype := SOCK_STREAM, ai_protocol := IPPROTO_TCP\<rparr>) mem of
           (None, mem) \<Rightarrow> (None, mem)
         | (Some r1, mem) \<Rightarrow>
             (case one_addrinfo sa socklen (h\<lparr>ai_socktype := SOCK_DGRAM, ai_protocol := IPPROTO_UDP\<rparr>) mem of
                (None, mem) \<Rightarrow> (None, mem)
              | (Some r2, mem) \<Rightarrow> (Some (r1 @ r2), mem)))
      else one_addrinfo sa socklen h mem)"

text \<open>\<open>strtol(s, &end, 10)\<close> with 64 bits: out of range gives the nearest bound; then the cast to \<open>int\<close>.\<close>

definition strtol10 :: "bytes \<Rightarrow> int \<times> bytes" where
  "strtol10 s = (case scan_int (\<lambda>n. max (- (2 ^ 63)) (min (2 ^ 63 - 1) n)) s of None \<Rightarrow> (0, s) | Some r \<Rightarrow> r)"

definition parse_numeric_servname :: "bytes \<Rightarrow> int" where
  "parse_numeric_servname s =
     (let (l, rest) = strtol10 s; n = sint (word_of_int l :: u32)
      in if 0 \<le> n \<and> n \<le> 65535 \<and> ch s 0 \<noteq> 0 \<and> rest = [] then n else -1)"

definition evutil_parse_servname ::
  "(bytes \<Rightarrow> bytes option \<Rightarrow> u16 option) \<Rightarrow> bytes \<Rightarrow> bytes option \<Rightarrow> hints \<Rightarrow> int" where
  "evutil_parse_servname serv s pname h =
     (let n = parse_numeric_servname s
      in if n \<ge> 0 then n
         else if ai_flags h AND EVUTIL_AI_NUMERICSERV = 0 then
           (case serv s pname of Some p \<Rightarrow> uint (ntohs p) | None \<Rightarrow> -1)
         else -1)"

definition evutil_unparse_protoname :: "(int \<Rightarrow> bytes option) \<Rightarrow> int \<Rightarrow> bytes option" where
  "evutil_unparse_protoname proto n =
     (if n = 0 then None
      else if n = IPPROTO_TCP then Some (bytes_of ''tcp'')
      else if n = IPPROTO_UDP then Some (bytes_of ''udp'')
      else if n = IPPROTO_SCTP then Some (bytes_of ''sctp'')
      else proto n)"

definition infer_protocols :: "hints \<Rightarrow> hints" where
  "infer_protocols h =
     (let h = (if ai_protocol h = 0 \<and> ai_socktype h \<noteq> 0 then
                 if ai_socktype h = SOCK_DGRAM then h\<lparr>ai_protocol := IPPROTO_UDP\<rparr>
                 else if ai_socktype h = SOCK_STREAM then h\<lparr>ai_protocol := IPPROTO_TCP\<rparr> else h
               else h)
      in if ai_socktype h = 0 \<and> ai_protocol h \<noteq> 0 then
           if ai_protocol h = IPPROTO_UDP then h\<lparr>ai_socktype := SOCK_DGRAM\<rparr>
           else if ai_protocol h = IPPROTO_TCP then h\<lparr>ai_socktype := SOCK_STREAM\<rparr>
           else if ai_protocol h = IPPROTO_SCTP then h\<lparr>ai_socktype := SOCK_STREAM\<rparr> else h
         else h)"

text \<open>\<open>nodename == NULL\<close>: the wildcard or the loopback address of each family that is wanted.\<close>

definition any_or_loopback6 :: "hints \<Rightarrow> bytes" where
  "any_or_loopback6 h = replicate 15 0 @ [if ai_flags h AND EVUTIL_AI_PASSIVE \<noteq> 0 then 0 else 1]"

definition any_or_loopback4 :: "hints \<Rightarrow> u32" where
  "any_or_loopback4 h = (if ai_flags h AND EVUTIL_AI_PASSIVE \<noteq> 0 then 0 else ntohl 0x7f000001)"

definition no_node :: "hints \<Rightarrow> int \<Rightarrow> bool list \<Rightarrow> eai \<times> addrinfo list" where
  "no_node h port mem =
     (let p = ntohs (word_of_int port);
          (res6, mem) = (if ai_family h \<noteq> AF_INET then evutil_new_addrinfo (Sin6 (any_or_loopback6 h) p) 28 h mem else (Some [], mem))
      in case res6 of
           None \<Rightarrow> (EAI_MEMORY, [])
         | Some r6 \<Rightarrow>
             let (res4, mem) = (if ai_family h \<noteq> AF_INET6 then evutil_new_addrinfo (Sin (any_or_loopback4 h) p) 16 h mem else (Some [], mem))
             in case res4 of None \<Rightarrow> (EAI_MEMORY, []) | Some r4 \<Rightarrow> (EAI_OK, r4 @ r6))"

text \<open>
  The result of \<open>evutil_getaddrinfo_common\<close>: the code, what \<open>*res\<close> is set to, the hints as they are
  afterwards, and \<open>*portnum\<close> where it is set.
\<close>

definition one_result :: "addrinfo list option \<Rightarrow> eai \<times> addrinfo list" where
  "one_result r = (case r of None \<Rightarrow> (EAI_MEMORY, []) | Some l \<Rightarrow> (EAI_OK, l))"

definition try_node ::
  "(int \<Rightarrow> int) \<Rightarrow> u16 list \<Rightarrow> hints \<Rightarrow> bytes \<Rightarrow> int \<Rightarrow> bool list \<Rightarrow> eai \<times> addrinfo list" where
  "try_node ovf junk h node port mem =
     (let p = ntohs (word_of_int port);
          a6 = (if ai_family h = AF_INET6 \<or> ai_family h = PF_UNSPEC then inet_pton6 ovf junk node else Inl 0);
          a4 = (if ai_family h = AF_INET \<or> ai_family h = PF_UNSPEC then inet_pton4 ovf node else None)
      in case a6 of
           Inr a \<Rightarrow> one_result (fst (evutil_new_addrinfo (Sin6 a p) 28 h mem))
         | Inl _ \<Rightarrow>
             (case a4 of
                Some a \<Rightarrow> one_result (fst (evutil_new_addrinfo (Sin a p) 16 h mem))
              | None \<Rightarrow> (if ai_flags h AND EVUTIL_AI_NUMERICHOST \<noteq> 0 then EAI_NONAME else EAI_NEED_RESOLVE, [])))"

definition evutil_getaddrinfo_common ::
  "(bytes \<Rightarrow> bytes option \<Rightarrow> u16 option) \<Rightarrow> (int \<Rightarrow> bytes option) \<Rightarrow> (int \<Rightarrow> int) \<Rightarrow> u16 list \<Rightarrow> bool list \<Rightarrow>
   bytes option \<Rightarrow> bytes option \<Rightarrow> hints \<Rightarrow> eai \<times> addrinfo list \<times> hints \<times> int option" where
  "evutil_getaddrinfo_common serv proto ovf junk mem nodename servname h =
     (if nodename = None \<and> servname = None then (EAI_NONAME, [], h, None)
      else if ai_family h \<noteq> PF_UNSPEC \<and> ai_family h \<noteq> AF_INET \<and> ai_family h \<noteq> AF_INET6 then (EAI_FAMILY, [], h, None)
      else let h = infer_protocols h;
               pname = evutil_unparse_protoname proto (ai_protocol h);
               port = (case servname of None \<Rightarrow> 0 | Some s \<Rightarrow> evutil_parse_servname serv s pname h)
           in if port < 0 then (EAI_NONAME, [], h, None)
              else case nodename of
                  None \<Rightarrow> (let (e, res) = no_node h port mem in (e, res, h, None))
                | Some node \<Rightarrow>
                    (let (e, res) = try_node ovf junk h node port mem
                     in (e, res, h, if e = EAI_NEED_RESOLVE then Some port else None)))"

text \<open>\<open>evutil_adjust_hints_for_addrconfig\<close>, with what is known of the interfaces.\<close>

definition evutil_adjust_hints_for_addrconfig :: "bool \<Rightarrow> bool \<Rightarrow> hints \<Rightarrow> hints" where
  "evutil_adjust_hints_for_addrconfig had4 had6 h =
     (if ai_flags h AND EVUTIL_AI_ADDRCONFIG = 0 then h
      else if ai_family h \<noteq> PF_UNSPEC then h
      else if had4 \<and> \<not> had6 then h\<lparr>ai_family := AF_INET\<rparr>
      else if \<not> had4 \<and> had6 then h\<lparr>ai_family := AF_INET6\<rparr>
      else h)"

text \<open>\<open>evutil_tv_to_msec\<close> with a \<open>long\<close> of 64 bits.\<close>

definition evutil_tv_to_msec :: "int \<Rightarrow> int \<Rightarrow> int" where
  "evutil_tv_to_msec tv_sec tv_usec =
     (if tv_usec > 1000000 \<or> tv_sec > (2 ^ 63 - 1 - 999) div 1000 then -1
      else tv_sec * 1000 + (tv_usec + 999) sdiv 1000)"


section \<open>What it gives\<close>

lemma scan_dec_long: "scan_int ovf (dec n) = Some (to_c_int ovf (int n), [])"
  using scan_dec_any [of "[]" ovf n] by (simp add: ends_digits_def)

lemma dec_ch0: "ch (dec n) 0 \<noteq> 0"
proof -
  have "is_digit (hd (dec n))" using dec_digits [of n] by (cases "dec n") auto
  then show ?thesis by (auto simp: ch_def is_digit_def hd_conv_nth)
qed

text \<open>A number is taken modulo \<open>2 ^ 32\<close> before it is compared with the greatest port.\<close>

lemma servname_dec:
  assumes "n < 2 ^ 63"
  shows "parse_numeric_servname (dec n) = (let m = sint (word_of_nat n :: u32) in if 0 \<le> m \<and> m \<le> 65535 then m else -1)"
  using assms by (simp add: parse_numeric_servname_def strtol10_def scan_dec_long to_c_int_def dec_ch0)

lemma servname_wraps: "parse_numeric_servname (dec (2 ^ 32 + 80)) = 80"
  by (subst servname_dec) (simp_all add: Let_def)

lemma servname_port:
  assumes "n \<le> 65535"
  shows "parse_numeric_servname (dec n) = int n"
  using assms by (simp add: servname_dec Let_def signed_of_nat signed_take_bit_int_eq_self)

lemma tv_to_msec_rounds_up:
  assumes "0 \<le> s" "0 \<le> u" "u \<le> 1000000" "s \<le> (2 ^ 63 - 1 - 999) div 1000"
  shows "evutil_tv_to_msec s u < 2 ^ 63" "1000 * evutil_tv_to_msec s u \<ge> 1000000 * s + u"
    "1000 * evutil_tv_to_msec s u < 1000000 * s + u + 1000"
proof -
  have "evutil_tv_to_msec s u = s * 1000 + (u + 999) div 1000"
    using assms by (simp add: evutil_tv_to_msec_def sgn_if signed_divide_int_def)
  then show "evutil_tv_to_msec s u < 2 ^ 63" "1000 * evutil_tv_to_msec s u \<ge> 1000000 * s + u"
    "1000 * evutil_tv_to_msec s u < 1000000 * s + u + 1000"
    using assms by simp_all
qed

lemma pton6_not_quad:
  assumes "a < 256" "b < 256" "c < 256" "d < 256"
  shows "inet_pton6 ovf junk (quad_text a b c d) = Inl 0"
proof -
  let ?t = "quad_text a b c d"
  have "ISDIGIT = is_digit" by (auto simp: ISDIGIT_iff is_digit_def)
  moreover have "takeWhile is_digit (rev (dec a)) = rev (dec a)"
    using span_append (1) [of is_digit "rev (dec a)" "[]"] dec_digits [of a]
    by (simp add: ends_digits_def del: takeWhile_eq_all_conv)
  ultimately have e: "words_end ?t (Some (length (dec a))) = 0"
    by (simp add: words_end_def quad_text_def del: takeWhile_eq_all_conv)
  have "first_dot ?t = Some (length (dec a))" using first_dot_quad [of "[]" a b c d] by simp
  moreover have "pton_loop ?t 0 0 0 ws (-1) 2 = Some (ws, -1, 2)" for ws by (subst pton_loop.simps) simp
  ultimately show ?thesis
    using assms by (simp add: inet_pton6_def e Let_def scan_quad_text is_byte_def)
qed

definition node_text :: "sockaddr \<Rightarrow> bytes" where
  "node_text sa =
     (case sa of Sin a _ \<Rightarrow> the (inet_ntop4 a 128) | Sin6 a _ \<Rightarrow> the (inet_ntop6 a 128) | Sother _ \<Rightarrow> [])"

definition has_port :: "nat \<Rightarrow> sockaddr \<Rightarrow> bool" where
  "has_port n sa \<longleftrightarrow> (case sa of Sin _ p \<Rightarrow> p = ntohs (word_of_nat n) | Sin6 a p \<Rightarrow> length a = 16 \<and> p = ntohs (word_of_nat n) | Sother _ \<Rightarrow> False)"

definition kinds :: "hints \<Rightarrow> (int \<times> int) list" where
  "kinds h = (if ai_socktype h = 0 \<and> ai_protocol h = 0 then [(SOCK_STREAM, IPPROTO_TCP), (SOCK_DGRAM, IPPROTO_UDP)]
     else [(ai_socktype h, ai_protocol h)])"

definition result_of :: "sockaddr \<Rightarrow> int \<times> int \<Rightarrow> addrinfo" where
  "result_of sa k = \<lparr>ai_flags = EVUTIL_AI_LIBEVENT_ALLOCATED, ai_family = family sa, ai_socktype = fst k, ai_protocol = snd k,
     ai_addr = sa, ai_addrlen = addr_length sa\<rparr>"

lemma new_addrinfo:
  "list_all id mem \<Longrightarrow> fst (evutil_new_addrinfo sa (addr_length sa) h mem) = Some (map (result_of sa) (kinds h))"
  by (cases mem rule: remdups_adj.cases)
     (auto simp: evutil_new_addrinfo_def one_addrinfo_def take_mem_def kinds_def result_of_def split: list.splits)

lemma infer_family [simp]: "ai_family (infer_protocols h) = ai_family h" "ai_flags (infer_protocols h) = ai_flags h"
  by (simp_all add: infer_protocols_def Let_def)

lemma node_text_read:
  assumes "has_port n sa" "length junk = 8"
  shows "case sa of Sin a _ \<Rightarrow> inet_pton6 ovf junk (node_text sa) = Inl 0 \<and> inet_pton4 ovf (node_text sa) = Some a
    | Sin6 a _ \<Rightarrow> inet_pton6 ovf junk (node_text sa) = Inr a | Sother _ \<Rightarrow> True"
proof (cases sa)
  case (Sin a p)
  have "length (quad_text (addr_byte 3 (ntohl a)) (addr_byte 2 (ntohl a)) (addr_byte 1 (ntohl a)) (addr_byte 0 (ntohl a))) \<le> 15"
    by (rule quad_length) simp_all
  then have "node_text sa = quad_text (addr_byte 3 (ntohl a)) (addr_byte 2 (ntohl a)) (addr_byte 1 (ntohl a)) (addr_byte 0 (ntohl a))"
    by (simp add: Sin node_text_def inet_ntop4_def Let_def)
  moreover have "addr_byte k (ntohl a) < 256" for k by simp
  ultimately show ?thesis
    using pton6_not_quad [of "addr_byte 3 (ntohl a)" "addr_byte 2 (ntohl a)" "addr_byte 1 (ntohl a)" "addr_byte 0 (ntohl a)" ovf junk]
      pton4_quad [of "ntohl a" a ovf] by (simp add: Sin del: One_nat_def)
next
  case (Sin6 a p)
  then have "length a = 16" using assms(1) by (simp add: has_port_def)
  then have "node_text sa = inet6_text a"
    using inet6_text_shape(1) [of a] by (simp add: Sin6 node_text_def inet_ntop6_def Let_def strlcpy_text_def)
  with \<open>length a = 16\<close> show ?thesis using pton6_text [of a junk ovf] assms(2) by (simp add: Sin6)
qed simp

text \<open>
  Property C33: a node written as the address that libevent itself prints needs no resolver: the result is the
  address with the port that the service name writes, once for each kind of socket that the hints
  allow, and \<open>*portnum\<close> is left alone. The C library's tables are not asked.
\<close>

theorem numeric_node_resolved:
  assumes "has_port n sa" "n \<le> 65535" "ai_family h = PF_UNSPEC \<or> ai_family h = family sa" "list_all id mem" "length junk = 8"
  shows "evutil_getaddrinfo_common serv proto ovf junk mem (Some (node_text sa)) (Some (dec n)) h =
    (EAI_OK, map (result_of sa) (kinds (infer_protocols h)), infer_protocols h, None)"
proof -
  let ?h = "infer_protocols h"
  have port: "evutil_parse_servname serv (dec n) pname ?h = int n" for pname
    by (simp add: evutil_parse_servname_def servname_port [OF assms(2)] Let_def)
  have "try_node ovf junk ?h (node_text sa) (int n) mem = (EAI_OK, map (result_of sa) (kinds ?h))"
    using assms(1,3) node_text_read [OF assms(1,5), of ovf] new_addrinfo [OF assms(4), of sa ?h]
    by (cases sa) (auto simp: try_node_def has_port_def one_result_def addr_length_def Let_def)
  then show ?thesis
    using assms(1,3) by (auto simp: evutil_getaddrinfo_common_def port Let_def has_port_def split: sockaddr.splits)
qed

theorem numeric_node_resolved_witness:
  "\<forall>serv proto ovf. evutil_getaddrinfo_common serv proto ovf (replicate 8 0) [] (Some (node_text (Sin 0x0100007f 0x5000)))
     (Some (dec 80)) \<lparr>ai_flags = 0, ai_family = 0, ai_socktype = 0, ai_protocol = 0\<rparr> =
   (EAI_OK, map (result_of (Sin 0x0100007f 0x5000)) [(1, 6), (2, 17)],
    \<lparr>ai_flags = 0, ai_family = 0, ai_socktype = 0, ai_protocol = 0\<rparr>, None)"
  using numeric_node_resolved [of 80 "Sin 0x0100007f 0x5000" "\<lparr>ai_flags = 0, ai_family = 0, ai_socktype = 0, ai_protocol = 0\<rparr>" "[]"
    "replicate 8 0"]
  by (simp add: has_port_def kinds_def infer_protocols_def ntohs_def)

end
