(* ===== verification/EvRateLimit.thy ===== *)
theory EvRateLimit
  imports Prelude "HOL-Library.Signed_Division" "HOL-Library.Monad_Syntax"
begin

text \<open>
  Rate limits of \<open>bufferevent_ratelim.c\<close>: token buckets, bufferevents that stop reading and writing
  while their bucket is empty, and groups of bufferevents with a common bucket. Where the source has a
  function for reading and its copy for writing, here is one with the flag \<open>w\<close> of the macros \<open>LIM\<close> and
  \<open>GROUP_SUSPENDED\<close>. A bufferevent and a group are known by a number. Of the implementation behind
  a bufferevent there is whether it was last told to read, and to write (\<open>be_ops\<close>). Every
  operation holds the lock of its bufferevent; \<open>tryl\<close> says which other bufferevents can be locked.
\<close>

section \<open>Buckets\<close>

type_synonym tval = "int \<times> int"

record bucket =
  read_limit :: u64
  write_limit :: u64
  last_updated :: u32

record bucket_cfg =
  read_rate :: u64
  read_maximum :: u64
  write_rate :: u64
  write_maximum :: u64
  tick_timeout :: tval
  msec_per_tick :: u32

definition lim_of :: "bool \<Rightarrow> bucket \<Rightarrow> u64" where
  "lim_of w b = (if w then write_limit b else read_limit b)"

definition set_lim_of :: "bool \<Rightarrow> u64 \<Rightarrow> bucket \<Rightarrow> bucket" where
  "set_lim_of w v b = (if w then b\<lparr>write_limit := v\<rparr> else b\<lparr>read_limit := v\<rparr>)"

definition rate :: "bool \<Rightarrow> bucket_cfg \<Rightarrow> u64" where
  "rate w c = (if w then write_rate c else read_rate c)"

definition maximum :: "bool \<Rightarrow> bucket_cfg \<Rightarrow> u64" where
  "maximum w c = (if w then write_maximum c else read_maximum c)"

text \<open>The limits are signed, the rates and maxima are not; here both are words and \<open>sint\<close> reads a limit.\<close>

definition clip_limit :: "bool \<Rightarrow> bucket_cfg \<Rightarrow> bucket \<Rightarrow> bucket" where
  "clip_limit w c b = (if sint (lim_of w b) > sint (maximum w c) then set_lim_of w (maximum w c) b else b)"

definition ev_token_bucket_init :: "bucket \<Rightarrow> bucket_cfg \<Rightarrow> u32 \<Rightarrow> bool \<Rightarrow> bucket" where
  "ev_token_bucket_init b c tick reinit =
     (if reinit then clip_limit True c (clip_limit False c b)
      else \<lparr>read_limit = read_rate c, write_limit = write_rate c, last_updated = tick\<rparr>)"

text \<open>The arithmetic is that of \<open>size_t\<close>: the difference and the product wrap.\<close>

definition refill_limit :: "bool \<Rightarrow> bucket_cfg \<Rightarrow> u32 \<Rightarrow> bucket \<Rightarrow> bucket" where
  "refill_limit w c n b =
     (if (maximum w c - lim_of w b) div ucast n < rate w c then set_lim_of w (maximum w c) b
      else set_lim_of w (lim_of w b + ucast n * rate w c) b)"

definition ev_token_bucket_update :: "bucket \<Rightarrow> bucket_cfg \<Rightarrow> u32 \<Rightarrow> bucket \<times> bool" where
  "ev_token_bucket_update b c tick =
     (let n = tick - last_updated b
      in if n = 0 \<or> unat n > 2 ^ 31 - 1 then (b, False)
         else ((refill_limit True c n (refill_limit False c n b))\<lparr>last_updated := tick\<rparr>, True))"

text \<open>\<open>None\<close> is a division by zero.\<close>

definition ev_token_bucket_get_tick :: "tval \<Rightarrow> bucket_cfg \<Rightarrow> u32 option" where
  "ev_token_bucket_get_tick tv c =
     (let msec = word_of_int (fst tv) * 1000 + word_of_int (snd tv sdiv 1000) :: u64
      in if msec_per_tick c = 0 then None else Some (ucast (msec div ucast (msec_per_tick c))))"

definition EV_RATE_LIMIT_MAX :: u64 where "EV_RATE_LIMIT_MAX = 2 ^ 63 - 1"

definition ev_token_bucket_cfg_new :: "u64 \<Rightarrow> u64 \<Rightarrow> u64 \<Rightarrow> u64 \<Rightarrow> tval option \<Rightarrow> bool \<Rightarrow> bucket_cfg option" where
  "ev_token_bucket_cfg_new r_rate r_burst w_rate w_burst tick_len mem =
     (let tl = (case tick_len of None \<Rightarrow> (1, 0) | Some t \<Rightarrow> t)
      in if r_rate > r_burst \<or> w_rate > w_burst \<or> r_rate < 1 \<or> w_rate < 1 then None
         else if r_rate > EV_RATE_LIMIT_MAX \<or> w_rate > EV_RATE_LIMIT_MAX \<or> r_burst > EV_RATE_LIMIT_MAX \<or>
                 w_burst > EV_RATE_LIMIT_MAX then None
         else if \<not> mem then None
         else Some \<lparr>read_rate = r_rate, read_maximum = r_burst, write_rate = w_rate, write_maximum = w_burst, tick_timeout = tl,
                    msec_per_tick = word_of_int (fst tl * 1000 + (snd tl AND 0x000fffff) div 1000)\<rparr>)"

section \<open>Bufferevents and groups\<close>

definition BEV_SUSPEND_BW :: u16 where "BEV_SUSPEND_BW = 0x02"
definition BEV_SUSPEND_BW_GROUP :: u16 where "BEV_SUSPEND_BW_GROUP = 0x04"

text \<open>A configuration is shared: it is known by its address.\<close>

record rate_limiting =
  group :: "nat option"
  limit :: bucket
  cfg :: "(nat \<times> bucket_cfg) option"
  refill_event :: "tval option"

record bev =
  read_enabled :: bool
  write_enabled :: bool
  read_suspended :: u16
  write_suspended :: u16
  reading :: bool
  writing :: bool
  rl :: "rate_limiting option"

record rl_group =
  members :: "nat list"
  rate_limit :: bucket
  rate_limit_cfg :: bucket_cfg
  g_read_suspended :: bool
  g_write_suspended :: bool
  pending_unsuspend_read :: bool
  pending_unsuspend_write :: bool
  total_read :: u64
  total_written :: u64
  n_members :: int
  min_share :: u64
  configured_min_share :: u64
  master_refill :: tval

record rl_world =
  bevs :: "nat \<Rightarrow> bev"
  groups :: "nat \<Rightarrow> rl_group"
  time :: tval

definition suspended :: "bool \<Rightarrow> bev \<Rightarrow> u16" where
  "suspended w b = (if w then write_suspended b else read_suspended b)"

definition enabled :: "bool \<Rightarrow> bev \<Rightarrow> bool" where
  "enabled w b = (if w then write_enabled b else read_enabled b)"

definition running :: "bool \<Rightarrow> bev \<Rightarrow> bool" where
  "running w b = (if w then writing b else reading b)"

definition set_suspended :: "bool \<Rightarrow> u16 \<Rightarrow> bev \<Rightarrow> bev" where
  "set_suspended w v b = (if w then b\<lparr>write_suspended := v\<rparr> else b\<lparr>read_suspended := v\<rparr>)"

definition set_running :: "bool \<Rightarrow> bool \<Rightarrow> bev \<Rightarrow> bev" where
  "set_running w v b = (if w then b\<lparr>writing := v\<rparr> else b\<lparr>reading := v\<rparr>)"

text \<open>\<open>bufferevent_suspend_read\<close>, \<open>bufferevent_suspend_write\<close> and their opposites.\<close>

definition bev_suspend :: "bool \<Rightarrow> u16 \<Rightarrow> bev \<Rightarrow> bev" where
  "bev_suspend w what b =
     (let b = (if suspended w b = 0 then set_running w False b else b) in set_suspended w (suspended w b OR what) b)"

definition bev_unsuspend :: "bool \<Rightarrow> u16 \<Rightarrow> bev \<Rightarrow> bev" where
  "bev_unsuspend w what b =
     (let b = set_suspended w (suspended w b AND NOT what) b
      in if suspended w b = 0 \<and> enabled w b then set_running w True b else b)"

definition upd_bev :: "nat \<Rightarrow> (bev \<Rightarrow> bev) \<Rightarrow> rl_world \<Rightarrow> rl_world" where
  "upd_bev i f s = s\<lparr>bevs := (bevs s)(i := f (bevs s i))\<rparr>"

definition upd_group :: "nat \<Rightarrow> (rl_group \<Rightarrow> rl_group) \<Rightarrow> rl_world \<Rightarrow> rl_world" where
  "upd_group g f s = s\<lparr>groups := (groups s)(g := f (groups s g))\<rparr>"

definition upd_rl :: "(rate_limiting \<Rightarrow> rate_limiting) \<Rightarrow> bev \<Rightarrow> bev" where
  "upd_rl f b = b\<lparr>rl := map_option f (rl b)\<rparr>"

text \<open>The bucket of a bufferevent is brought up to a tick.\<close>

definition refresh :: "bucket_cfg \<Rightarrow> u32 \<Rightarrow> bev \<Rightarrow> bev" where
  "refresh c tick = upd_rl (\<lambda>r. r\<lparr>limit := fst (ev_token_bucket_update (limit r) c tick)\<rparr>)"

definition g_suspended :: "bool \<Rightarrow> rl_group \<Rightarrow> bool" where
  "g_suspended w g = (if w then g_write_suspended g else g_read_suspended g)"

definition pending_unsuspend :: "bool \<Rightarrow> rl_group \<Rightarrow> bool" where
  "pending_unsuspend w g = (if w then pending_unsuspend_write g else pending_unsuspend_read g)"

definition set_g_flags :: "bool \<Rightarrow> bool \<Rightarrow> bool \<Rightarrow> rl_group \<Rightarrow> rl_group" where
  "set_g_flags w susp pend g =
     (if w then g\<lparr>g_write_suspended := susp, pending_unsuspend_write := pend\<rparr>
      else g\<lparr>g_read_suspended := susp, pending_unsuspend_read := pend\<rparr>)"

section \<open>A group stops and goes on\<close>

definition bev_group_suspend :: "bool \<Rightarrow> (nat \<Rightarrow> bool) \<Rightarrow> nat \<Rightarrow> rl_world \<Rightarrow> rl_world" where
  "bev_group_suspend w tryl g s =
     foldl (\<lambda>s i. if tryl i then upd_bev i (bev_suspend w BEV_SUSPEND_BW_GROUP) s else s)
       (upd_group g (set_g_flags w True False) s) (members (groups s g))"

text \<open>
  The members from one at random to the last, then the others. \<open>rnd\<close> is what \<open>_evutil_weakrand\<close>
  answers; the number of members is that of the list.
\<close>

definition random_order :: "nat \<Rightarrow> rl_group \<Rightarrow> nat list" where
  "random_order rnd g =
     (if n_members g = 0 then members g
      else let which = rnd mod nat (n_members g) in drop which (members g) @ take which (members g))"

definition bev_group_unsuspend :: "bool \<Rightarrow> (nat \<Rightarrow> bool) \<Rightarrow> nat \<Rightarrow> nat \<Rightarrow> rl_world \<Rightarrow> rl_world" where
  "bev_group_unsuspend w tryl rnd g s =
     (let order = random_order rnd (groups s g);
          s = foldl (\<lambda>s i. if tryl i then upd_bev i (bev_unsuspend w BEV_SUSPEND_BW_GROUP) s else s) s order
      in upd_group g (set_g_flags w False (list_ex (\<lambda>i. \<not> tryl i) order)) s)"

definition bev_group_refill_callback :: "(nat \<Rightarrow> bool) \<Rightarrow> (nat \<Rightarrow> bool) \<Rightarrow> nat \<Rightarrow> nat \<Rightarrow> nat \<Rightarrow> rl_world \<Rightarrow> rl_world option" where
  "bev_group_refill_callback tryr tryw rnd1 rnd2 g s = do {
     tick \<leftarrow> ev_token_bucket_get_tick (time s) (rate_limit_cfg (groups s g));
     let s = upd_group g (\<lambda>x. x\<lparr>rate_limit := fst (ev_token_bucket_update (rate_limit x) (rate_limit_cfg x) tick)\<rparr>) s;
     let x = groups s g;
     let s = (if pending_unsuspend_read x \<or> g_read_suspended x \<and> sint (read_limit (rate_limit x)) \<ge> sint (min_share x)
              then bev_group_unsuspend False tryr rnd1 g s else s);
     let x = groups s g;
     Some (if pending_unsuspend_write x \<or> g_write_suspended x \<and> sint (write_limit (rate_limit x)) \<ge> sint (min_share x)
           then bev_group_unsuspend True tryw rnd2 g s else s)
   }"

section \<open>How much may be read or written\<close>

definition bufferevent_update_buckets :: "nat \<Rightarrow> rl_world \<Rightarrow> rl_world option" where
  "bufferevent_update_buckets i s =
     (case rl (bevs s i) of
        Some r \<Rightarrow> (case cfg r of
            Some (_, c) \<Rightarrow> do {
              tick \<leftarrow> ev_token_bucket_get_tick (time s) c;
              Some (if tick \<noteq> last_updated (limit r)
                    then upd_bev i (refresh c tick) s else s)
            }
          | None \<Rightarrow> None)
      | None \<Rightarrow> None)"

definition MAX_TO_READ_EVER :: int where "MAX_TO_READ_EVER = 16384"

text \<open>The limit of the bufferevent itself replaces the constant; the share of its group is a bound.\<close>

definition group_share :: "bool \<Rightarrow> rl_group \<Rightarrow> int" where
  "group_share w g = max (sint (lim_of w (rate_limit g)) sdiv n_members g) (sint (min_share g))"

definition own_max :: "nat \<Rightarrow> bool \<Rightarrow> rate_limiting \<Rightarrow> rl_world \<Rightarrow> (int \<times> rl_world) option" where
  "own_max i w r s =
     (if cfg r = None then Some (MAX_TO_READ_EVER, s)
      else do {
        s \<leftarrow> bufferevent_update_buckets i s;
        Some (sint (lim_of w (limit (the (rl (bevs s i))))), s)
      })"

definition group_max :: "nat \<Rightarrow> bool \<Rightarrow> rate_limiting \<Rightarrow> int \<Rightarrow> rl_world \<Rightarrow> (int \<times> rl_world) option" where
  "group_max i w r m s =
     (case group r of
        None \<Rightarrow> Some (m, s)
      | Some g \<Rightarrow>
          if g_suspended w (groups s g) then Some (min m 0, upd_bev i (bev_suspend w BEV_SUSPEND_BW_GROUP) s)
          else if n_members (groups s g) = 0 then None
          else Some (min m (group_share w (groups s g)), s))"

definition bufferevent_get_rlim_max :: "nat \<Rightarrow> bool \<Rightarrow> rl_world \<Rightarrow> (int \<times> rl_world) option" where
  "bufferevent_get_rlim_max i w s =
     (case rl (bevs s i) of
        None \<Rightarrow> Some (MAX_TO_READ_EVER, s)
      | Some r \<Rightarrow> do {
          (m, s) \<leftarrow> own_max i w r s;
          (m, s) \<leftarrow> group_max i w r m s;
          Some (max m 0, s)
        })"

section \<open>What was read or written is taken away\<close>

text \<open>\<open>add_ok\<close> is whether \<open>event_add\<close> succeeds.\<close>

definition add_refill :: "bool \<Rightarrow> nat \<Rightarrow> rl_world \<Rightarrow> rl_world" where
  "add_refill add_ok i s =
     (if add_ok then upd_bev i (upd_rl (\<lambda>r. r\<lparr>refill_event := map_option (tick_timeout \<circ> snd) (cfg r)\<rparr>)) s else s)"

definition del_refill :: "nat \<Rightarrow> rl_world \<Rightarrow> rl_world" where
  "del_refill i s = upd_bev i (upd_rl (\<lambda>r. r\<lparr>refill_event := None\<rparr>)) s"

definition take_from_bucket :: "bool \<Rightarrow> nat \<Rightarrow> u64 \<Rightarrow> rl_world \<Rightarrow> rl_world" where
  "take_from_bucket w i n s = upd_bev i (upd_rl (\<lambda>r. r\<lparr>limit := set_lim_of w (lim_of w (limit r) - n) (limit r)\<rparr>)) s"

definition own_limit :: "bool \<Rightarrow> nat \<Rightarrow> rl_world \<Rightarrow> int" where
  "own_limit w i s = (case rl (bevs s i) of None \<Rightarrow> 0 | Some r \<Rightarrow> sint (lim_of w (limit r)))"

definition decrement_own :: "bool \<Rightarrow> bool \<Rightarrow> nat \<Rightarrow> u64 \<Rightarrow> rl_world \<Rightarrow> int \<times> rl_world" where
  "decrement_own w add_ok i n s =
     (let s = take_from_bucket w i n s
      in if own_limit w i s \<le> 0 then
           (if add_ok then 0 else -1, add_refill add_ok i (upd_bev i (bev_suspend w BEV_SUSPEND_BW) s))
         else if suspended w (bevs s i) AND BEV_SUSPEND_BW \<noteq> 0 then
           (0, upd_bev i (bev_unsuspend w BEV_SUSPEND_BW)
                (if suspended (\<not> w) (bevs s i) AND BEV_SUSPEND_BW = 0 then del_refill i s else s))
         else (0, s))"

definition take_from_group :: "bool \<Rightarrow> u64 \<Rightarrow> rl_group \<Rightarrow> rl_group" where
  "take_from_group w n g = g\<lparr>rate_limit := set_lim_of w (lim_of w (rate_limit g) - n) (rate_limit g)\<rparr>"

definition count_total :: "bool \<Rightarrow> u64 \<Rightarrow> rl_group \<Rightarrow> rl_group" where
  "count_total w n g = (if w then g\<lparr>total_written := total_written g + n\<rparr> else g\<lparr>total_read := total_read g + n\<rparr>)"

definition decrement_group :: "bool \<Rightarrow> (nat \<Rightarrow> bool) \<Rightarrow> nat \<Rightarrow> nat \<Rightarrow> u64 \<Rightarrow> rl_world \<Rightarrow> rl_world" where
  "decrement_group w tryl rnd g n s =
     (let s = upd_group g (\<lambda>x. count_total w n (take_from_group w n x)) s
      in if sint (lim_of w (rate_limit (groups s g))) \<le> 0 then bev_group_suspend w tryl g s
         else if g_suspended w (groups s g) then bev_group_unsuspend w tryl rnd g s
         else s)"

definition bufferevent_decrement_buckets ::
  "bool \<Rightarrow> bool \<Rightarrow> (nat \<Rightarrow> bool) \<Rightarrow> nat \<Rightarrow> nat \<Rightarrow> u64 \<Rightarrow> rl_world \<Rightarrow> int \<times> rl_world" where
  "bufferevent_decrement_buckets w add_ok tryl rnd i n s =
     (case rl (bevs s i) of
        None \<Rightarrow> (0, s)
      | Some r \<Rightarrow>
          let (res, s) = (if cfg r = None then (0, s) else decrement_own w add_ok i n s)
          in (res, case group r of None \<Rightarrow> s | Some g \<Rightarrow> decrement_group w tryl rnd g n s))"

text \<open>
  The timer of a bufferevent: it is no longer pending when its callback runs. \<open>resume\<close> goes on with
  one direction or notes that the timer is needed again.
\<close>

definition resume :: "bool \<Rightarrow> nat \<Rightarrow> rl_world \<times> bool \<Rightarrow> rl_world \<times> bool" where
  "resume w i sa =
     (let (s, again) = sa
      in if suspended w (bevs s i) AND BEV_SUSPEND_BW = 0 then (s, again)
         else if own_limit w i s > 0 then (upd_bev i (bev_unsuspend w BEV_SUSPEND_BW) s, again)
         else (s, True))"

definition bev_refill_callback :: "bool \<Rightarrow> nat \<Rightarrow> rl_world \<Rightarrow> rl_world option" where
  "bev_refill_callback add_ok i s =
     (let s = del_refill i s
      in case rl (bevs s i) of
           None \<Rightarrow> Some s
         | Some r \<Rightarrow> (case cfg r of
               None \<Rightarrow> Some s
             | Some (_, c) \<Rightarrow> do {
                 tick \<leftarrow> ev_token_bucket_get_tick (time s) c;
                 let (s, again) = resume True i (resume False i (upd_bev i (refresh c tick) s, False));
                 Some (if again then add_refill add_ok i s else s)
               }))"

section \<open>Settings\<close>

definition no_limits :: rate_limiting where
  "no_limits = \<lparr>group = None, limit = \<lparr>read_limit = 0, write_limit = 0, last_updated = 0\<rparr>, cfg = None, refill_event = None\<rparr>"

definition suspend_by_limit :: "bool \<Rightarrow> nat \<Rightarrow> rl_world \<Rightarrow> rl_world \<times> bool" where
  "suspend_by_limit w i s =
     (if own_limit w i s > 0 then (upd_bev i (bev_unsuspend w BEV_SUSPEND_BW) s, False)
      else (upd_bev i (bev_suspend w BEV_SUSPEND_BW) s, True))"

definition with_limit :: "nat \<Rightarrow> bucket_cfg \<Rightarrow> u32 \<Rightarrow> rate_limiting \<Rightarrow> rate_limiting" where
  "with_limit a c tick r = r\<lparr>limit := ev_token_bucket_init (limit r) c tick (cfg r \<noteq> None), cfg := Some (a, c), refill_event := None\<rparr>"

definition apply_limit :: "bool \<Rightarrow> nat \<Rightarrow> nat \<Rightarrow> bucket_cfg \<Rightarrow> u32 \<Rightarrow> rl_world \<Rightarrow> rl_world" where
  "apply_limit add_ok i a c tick s =
     (let (s, sr) = suspend_by_limit False i (upd_bev i (upd_rl (with_limit a c tick)) s);
          (s, sw) = suspend_by_limit True i s
      in if sr \<or> sw then add_refill add_ok i s else s)"

definition bufferevent_set_rate_limit :: "bool \<Rightarrow> bool \<Rightarrow> nat \<Rightarrow> (nat \<times> bucket_cfg) option \<Rightarrow> rl_world \<Rightarrow> (int \<times> rl_world) option" where
  "bufferevent_set_rate_limit mem add_ok i c s =
     (case c of
        None \<Rightarrow> Some (0,
          if rl (bevs s i) = None then s
          else del_refill i (upd_bev i (bev_unsuspend True BEV_SUSPEND_BW \<circ> bev_unsuspend False BEV_SUSPEND_BW \<circ>
                 upd_rl (\<lambda>r. r\<lparr>cfg := None\<rparr>)) s))
      | Some (a, c) \<Rightarrow> do {
          tick \<leftarrow> ev_token_bucket_get_tick (time s) c;
          if (case rl (bevs s i) of None \<Rightarrow> False | Some r \<Rightarrow> map_option fst (cfg r) = Some a) then Some (0, s)
          else if rl (bevs s i) = None \<and> \<not> mem then Some (-1, s)
          else Some (0, apply_limit add_ok i a c tick
                 (if rl (bevs s i) = None then upd_bev i (\<lambda>b. b\<lparr>rl := Some no_limits\<rparr>) s else s))
        })"

definition share_for :: "u64 \<Rightarrow> bucket_cfg \<Rightarrow> u64" where
  "share_for share c = (let share = (if share > read_rate c then read_rate c else share)
     in if share > write_rate c then write_rate c else share)"

definition group_set_min_share :: "u64 \<Rightarrow> rl_group \<Rightarrow> int \<times> rl_group" where
  "group_set_min_share share g =
     (if share > 2 ^ 63 - 1 then (-1, g)
      else (0, g\<lparr>configured_min_share := share, min_share := share_for share (rate_limit_cfg g)\<rparr>))"

definition rate_limit_group_new :: "tval \<Rightarrow> bucket_cfg \<Rightarrow> rl_group option" where
  "rate_limit_group_new now c = do {
     tick \<leftarrow> ev_token_bucket_get_tick now c;
     let b = \<lparr>read_limit = 0, write_limit = 0, last_updated = 0\<rparr>;
     Some (snd (group_set_min_share 64
       \<lparr>members = [], rate_limit = ev_token_bucket_init b c tick False, rate_limit_cfg = c, g_read_suspended = False,
        g_write_suspended = False, pending_unsuspend_read = False, pending_unsuspend_write = False, total_read = 0,
        total_written = 0, n_members = 0, min_share = 0, configured_min_share = 0, master_refill = tick_timeout c\<rparr>))
   }"

definition group_set_cfg :: "bucket_cfg \<Rightarrow> rl_group \<Rightarrow> rl_group" where
  "group_set_cfg c g =
     (let same_tick = (tick_timeout (rate_limit_cfg g) = tick_timeout c);
          g = g\<lparr>rate_limit_cfg := c, rate_limit := clip_limit True c (clip_limit False c (rate_limit g))\<rparr>;
          g = (if same_tick then g else g\<lparr>master_refill := tick_timeout c\<rparr>)
      in snd (group_set_min_share (configured_min_share g) g))"

definition remove_from_group :: "nat \<Rightarrow> bool \<Rightarrow> rl_world \<Rightarrow> rl_world" where
  "remove_from_group i unsuspend s =
     (let s = (case rl (bevs s i) of
                 Some r \<Rightarrow> (case group r of
                     Some g \<Rightarrow> upd_group g (\<lambda>x. x\<lparr>n_members := n_members x - 1, members := remove1 i (members x)\<rparr>)
                                 (upd_bev i (upd_rl (\<lambda>r. r\<lparr>group := None\<rparr>)) s)
                   | None \<Rightarrow> s)
               | None \<Rightarrow> s)
      in if unsuspend then upd_bev i (bev_unsuspend True BEV_SUSPEND_BW_GROUP \<circ> bev_unsuspend False BEV_SUSPEND_BW_GROUP) s
         else s)"

definition join_group :: "nat \<Rightarrow> nat \<Rightarrow> rl_world \<Rightarrow> rl_world" where
  "join_group i g s =
     (let s = upd_group g (\<lambda>x. x\<lparr>n_members := n_members x + 1, members := members x @ [i]\<rparr>)
                (upd_bev i (upd_rl (\<lambda>r. r\<lparr>group := Some g\<rparr>)) s);
          s = (if g_suspended False (groups s g) then upd_bev i (bev_suspend False BEV_SUSPEND_BW_GROUP) s else s)
      in if g_suspended True (groups s g) then upd_bev i (bev_suspend True BEV_SUSPEND_BW_GROUP) s else s)"

definition add_to_group :: "bool \<Rightarrow> nat \<Rightarrow> nat \<Rightarrow> rl_world \<Rightarrow> int \<times> rl_world" where
  "add_to_group mem i g s =
     (if rl (bevs s i) = None \<and> \<not> mem then (-1, s)
      else let s = (if rl (bevs s i) = None then upd_bev i (\<lambda>b. b\<lparr>rl := Some no_limits\<rparr>) s else s)
           in case group (the (rl (bevs s i))) of
                Some g' \<Rightarrow>
                  if g' = g then (0, s) else (0, join_group i g (remove_from_group i True s))
              | None \<Rightarrow> (0, join_group i g s))"


section \<open>The interface for programs\<close>

definition bufferevent_get_limit :: "bool \<Rightarrow> nat \<Rightarrow> rl_world \<Rightarrow> (int \<times> rl_world) option" where
  "bufferevent_get_limit w i s =
     (case rl (bevs s i) of
        Some r \<Rightarrow> if cfg r = None then Some (2 ^ 63 - 1, s)
          else do { s \<leftarrow> bufferevent_update_buckets i s; Some (own_limit w i s, s) }
      | None \<Rightarrow> Some (2 ^ 63 - 1, s))"

text \<open>\<open>None\<close> is the failed assertion that there is a limit.\<close>

definition bufferevent_decrement_limit :: "bool \<Rightarrow> bool \<Rightarrow> nat \<Rightarrow> u64 \<Rightarrow> rl_world \<Rightarrow> (int \<times> rl_world) option" where
  "bufferevent_decrement_limit w add_ok i n s =
     (case rl (bevs s i) of
        None \<Rightarrow> None
      | Some r \<Rightarrow>
          if cfg r = None then None
          else let old = own_limit w i s; s = take_from_bucket w i n s; new = own_limit w i s
               in Some (if old > 0 \<and> new \<le> 0 then
                          (if add_ok then 0 else -1, add_refill add_ok i (upd_bev i (bev_suspend w BEV_SUSPEND_BW) s))
                        else if old \<le> 0 \<and> new > 0 then
                          (0, upd_bev i (bev_unsuspend w BEV_SUSPEND_BW)
                               (if suspended (\<not> w) (bevs s i) AND BEV_SUSPEND_BW = 0 then del_refill i s else s))
                        else (0, s)))"

definition group_decrement :: "bool \<Rightarrow> (nat \<Rightarrow> bool) \<Rightarrow> nat \<Rightarrow> nat \<Rightarrow> u64 \<Rightarrow> rl_world \<Rightarrow> rl_world" where
  "group_decrement w tryl rnd g n s =
     (let old = sint (lim_of w (rate_limit (groups s g)));
          s = upd_group g (take_from_group w n) s;
          new = sint (lim_of w (rate_limit (groups s g)))
      in if old > 0 \<and> new \<le> 0 then bev_group_suspend w tryl g s
         else if old \<le> 0 \<and> new > 0 then bev_group_unsuspend w tryl rnd g s
         else s)"

definition group_reset_totals :: "rl_group \<Rightarrow> rl_group" where
  "group_reset_totals g = g\<lparr>total_read := 0, total_written := 0\<rparr>"

text \<open>\<open>bufferevent_enable\<close> and \<open>bufferevent_disable\<close> of \<open>bufferevent.c\<close>, for reading and writing.\<close>

definition enable_one :: "bool \<Rightarrow> bev \<Rightarrow> bev" where
  "enable_one w b =
     (let b = (if suspended w b = 0 then set_running w True b else b)
      in if w then b\<lparr>write_enabled := True\<rparr> else b\<lparr>read_enabled := True\<rparr>)"

definition disable_one :: "bool \<Rightarrow> bev \<Rightarrow> bev" where
  "disable_one w b = set_running w False (if w then b\<lparr>write_enabled := False\<rparr> else b\<lparr>read_enabled := False\<rparr>)"

definition bufferevent_enable :: "bool \<Rightarrow> bool \<Rightarrow> bev \<Rightarrow> bev" where
  "bufferevent_enable r w b = (let b = (if r then enable_one False b else b) in if w then enable_one True b else b)"

definition bufferevent_disable :: "bool \<Rightarrow> bool \<Rightarrow> bev \<Rightarrow> bev" where
  "bufferevent_disable r w b = (let b = (if r then disable_one False b else b) in if w then disable_one True b else b)"

end
