(* ===== verification/EvRateLimitProofs.thy ===== *)
theory EvRateLimitProofs
  imports EvRateLimit
begin

text \<open>
  Buckets refill as the comment in the source says they should, without its overflow; who is stopped
  has something that wakes it up.
\<close>

section \<open>Buckets\<close>

definition sound_cfg :: "bucket_cfg \<Rightarrow> bool" where
  "sound_cfg c \<longleftrightarrow> (\<forall>w. 1 \<le> uint (rate w c) \<and> uint (rate w c) \<le> uint (maximum w c) \<and> uint (maximum w c) < 2 ^ 63)"

lemma cfg_new_sound: "ev_token_bucket_cfg_new r rb w wb tlen mem = Some c \<Longrightarrow> sound_cfg c"
  by (auto simp: ev_token_bucket_cfg_new_def sound_cfg_def rate_def maximum_def EV_RATE_LIMIT_MAX_def Let_def word_le_def
      word_less_def not_less split: if_splits)

lemma lim_set [simp]:
  "lim_of w (set_lim_of w v b) = v" "w \<noteq> w' \<Longrightarrow> lim_of w (set_lim_of w' v b) = lim_of w b"
  "last_updated (set_lim_of w v b) = last_updated b" "lim_of w (b\<lparr>last_updated := t\<rparr>) = lim_of w b"
  by (auto simp: lim_of_def set_lim_of_def)

lemma lim_refill_other [simp]: "w \<noteq> w' \<Longrightarrow> lim_of w (refill_limit w' c n b) = lim_of w b"
  by (auto simp: refill_limit_def)

text \<open>The limit as a number, however large the debt, and the difference to the maximum.\<close>

lemma diff_to_maximum:
  fixes l m :: u64
  assumes "uint m < 2 ^ 63"
  shows "uint (m - l) = (uint m - sint l) mod 2 ^ 64"
proof -
  have "m - l = word_of_int (uint m - sint l)" by simp
  then show ?thesis by (simp only: uint_word_of_int) simp
qed

lemma uint_ucast32: "uint (ucast (n :: u32) :: u64) = uint n"
  by (simp add: uint_up_ucast is_up_def source_size_def target_size_def word_size)

lemma sint_range: "- (2 ^ 63) \<le> sint (l :: u64)" "sint (l :: u64) < 2 ^ 63"
  using sint_ge [of l] sint_lt [of l] by simp_all

lemma sint_of_range: "- (2 ^ 63) \<le> k \<Longrightarrow> k < 2 ^ 63 \<Longrightarrow> sint (word_of_int k :: u64) = k"
  by (simp add: signed_of_int signed_take_bit_int_eq_self)

lemma sint_small: "uint m < 2 ^ 63 \<Longrightarrow> sint (m :: u64) = uint m"
  using sint_of_range [of "uint m"] uint_nonnegative [of m] by simp

lemma mod_pos_pos_trivial_shift:
  assumes "- k \<le> a" "a < 0"
  shows "a mod k = a + (k :: int)"
proof -
  have "(a + k) mod k = a + k" using assms by (intro mod_pos_pos_trivial) auto
  then show ?thesis by simp
qed

lemma sum_word: "l + ucast n * r = (word_of_int (sint l + uint n * uint r) :: u64)" for n :: u32
  by simp

lemma div_less_int:
  assumes "0 < n"
  shows "a div n < r \<longleftrightarrow> a < n * (r :: int)"
proof -
  define q where "q = a div n"
  have "a = n * q + a mod n" "0 \<le> a mod n" "a mod n < n" using assms by (simp_all add: q_def)
  moreover have "q < r \<longleftrightarrow> n * q < n * r" "q < r \<Longrightarrow> n * q + n \<le> n * r"
    using assms mult_left_mono [of "q + 1" r n] by (simp_all add: algebra_simps)
  ultimately show ?thesis unfolding q_def [symmetric] by linarith
qed

lemma refill_exact:
  assumes "0 < n" "uint (maximum w c) < 2 ^ 63" "sint (lim_of w b) \<le> uint (maximum w c)"
  shows "sint (lim_of w (refill_limit w c n b)) = min (sint (lim_of w b) + uint n * uint (rate w c)) (uint (maximum w c))"
proof -
  let ?m = "uint (maximum w c)" and ?l = "sint (lim_of w b)" and ?r = "uint (rate w c)" and ?n = "uint n"
  have n: "0 < ?n" "0 \<le> ?n * ?r" using assms(1) by (simp_all add: word_less_def)
  have "0 \<le> ?m - ?l" "?m - ?l < 2 ^ 64" using assms sint_range [of "lim_of w b"] by simp_all
  then have d: "uint (maximum w c - lim_of w b) = ?m - ?l" using assms(2) by (simp only: diff_to_maximum) simp
  have q: "(maximum w c - lim_of w b) div ucast n < rate w c \<longleftrightarrow> (?m - ?l) div ?n < ?r"
    by (simp only: word_less_def uint_div_distrib d uint_ucast32)
  have e: "(?m - ?l) div ?n < ?r \<longleftrightarrow> ?m < ?l + ?n * ?r"
    using div_less_int [OF n(1), of "?m - ?l" ?r] by auto
  show ?thesis
  proof (cases "?m < ?l + ?n * ?r")
    case True
    then show ?thesis using assms(2) by (simp add: refill_limit_def q e sint_small)
  next
    case False
    have "sint (lim_of w b + ucast n * rate w c) = ?l + ?n * ?r"
      unfolding sum_word by (rule sint_of_range) (use False assms(2) n sint_range [of "lim_of w b"] in linarith)+
    then show ?thesis using False by (simp add: refill_limit_def q e)
  qed
qed


text \<open>
  What the comment in the source calls naive, on numbers without bounds, is what the code computes in
  64 bits: after \<open>n\<close> ticks a bucket has \<open>n\<close> times its rate more, and no more than its maximum.
\<close>

definition naive_refill :: "bucket_cfg \<Rightarrow> int \<Rightarrow> bool \<Rightarrow> int \<Rightarrow> int" where
  "naive_refill c n w l = min (l + n * uint (rate w c)) (uint (maximum w c))"

lemma unat_int_le: "uint x \<le> int k \<Longrightarrow> unat x \<le> k" for x :: u32
  by (metis int_nat_eq nat_le_iff unat_eq_nat_uint)

lemma bucket_refill_sound:
  assumes "sound_cfg c"
    and "0 < tick - last_updated b" "uint (tick - last_updated b) \<le> 2 ^ 31 - 1"
    and "\<forall>w. sint (lim_of w b) \<le> uint (maximum w c)"
  shows "\<exists>b'. ev_token_bucket_update b c tick = (b', True) \<and> last_updated b' = tick \<and>
    (\<forall>w. sint (lim_of w b') = naive_refill c (uint (tick - last_updated b)) w (sint (lim_of w b)))"
proof -
  let ?n = "tick - last_updated b"
  have m: "uint (maximum w c) < 2 ^ 63" for w using assms(1) by (simp add: sound_cfg_def)
  have "\<not> unat ?n > 2 ^ 31 - 1" "?n \<noteq> 0" using assms(2,3) unat_int_le [of ?n "2 ^ 31 - 1"] by (auto simp: not_less)
  then have "ev_token_bucket_update b c tick =
      ((refill_limit True c ?n (refill_limit False c ?n b))\<lparr>last_updated := tick\<rparr>, True)"
    by (simp add: ev_token_bucket_update_def Let_def)
  moreover have "sint (lim_of w (refill_limit True c ?n (refill_limit False c ?n b))) =
      naive_refill c (uint ?n) w (sint (lim_of w b))" for w
  proof (cases w)
    case True
    then show ?thesis
      using refill_exact [OF assms(2) m, where b = "refill_limit False c ?n b"] assms(4) by (simp add: naive_refill_def)
  next
    case False
    then show ?thesis using refill_exact [OF assms(2) m, where b = b] assms(4) by (simp add: naive_refill_def)
  qed
  ultimately show ?thesis by simp
qed

text \<open>
  Property C14: a bucket that is not above its maximum, however deep in debt, is refilled exactly as the
  naive sum says, for reading and for writing, for every configuration that
  \<open>ev_token_bucket_cfg_new\<close> makes and every number of ticks up to \<open>INT_MAX\<close>, the wrap of the tick
  counter included; no step on the way overflows in a way that shows.
\<close>

theorem bucket_refill_exact:
  assumes "ev_token_bucket_cfg_new r rb w wb tlen mem = Some c"
    and "0 < tick - last_updated b" "uint (tick - last_updated b) \<le> 2 ^ 31 - 1"
    and "\<forall>w. sint (lim_of w b) \<le> uint (maximum w c)"
  shows "\<exists>b'. ev_token_bucket_update b c tick = (b', True) \<and> last_updated b' = tick \<and>
    (\<forall>w. sint (lim_of w b') = naive_refill c (uint (tick - last_updated b)) w (sint (lim_of w b)))"
  by (rule bucket_refill_sound [OF cfg_new_sound [OF assms(1)] assms(2-4)])

text \<open>Debt of 1000, five ticks of 300 over the wrap of the counter.\<close>

theorem bucket_refill_exact_witness:
  "\<exists>c b'. ev_token_bucket_cfg_new 300 400 10 20 None True = Some c \<and>
     ev_token_bucket_update \<lparr>read_limit = - 1000, write_limit = 5, last_updated = 0xfffffffe\<rparr> c 3 = (b', True) \<and>
     sint (lim_of False b') = 400 \<and> sint (lim_of True b') = 20"
proof -
  define c where "c = \<lparr>read_rate = 300, read_maximum = 400, write_rate = 10, write_maximum = 20, tick_timeout = (1, 0), msec_per_tick = 1000\<rparr>"
  have c: "ev_token_bucket_cfg_new 300 400 10 20 None True = Some c"
    by (simp add: ev_token_bucket_cfg_new_def c_def EV_RATE_LIMIT_MAX_def)
  have five: "- 4294967291 = (5 :: u32)" by (simp flip: uint_word_arith_bintrs add: word_uint_eq_iff)
  show ?thesis
    using c bucket_refill_exact [OF c, of 3 "\<lparr>read_limit = - 1000, write_limit = 5, last_updated = 0xfffffffe\<rparr>"]
    by (auto simp: all_bool_eq lim_of_def maximum_def rate_def naive_refill_def c_def five)
qed

text \<open>A bucket above its maximum: the difference wraps, nothing is clipped and the bucket grows.\<close>

lemma above_maximum_grows:
  assumes "0 < n" "uint (maximum w c) < sint (lim_of w b)"
    and "sint (lim_of w b) + uint n * uint (rate w c) < 2 ^ 63"
  shows "sint (lim_of w (refill_limit w c n b)) = sint (lim_of w b) + uint n * uint (rate w c)"
proof -
  let ?m = "uint (maximum w c)" and ?l = "sint (lim_of w b)" and ?r = "uint (rate w c)" and ?n = "uint n"
  have n: "0 < ?n" "0 \<le> ?r" "0 \<le> ?m" using assms(1) by (simp_all add: word_less_def)
  then have nr: "0 \<le> ?n * ?r" by (intro mult_nonneg_nonneg) auto
  have "?m < 2 ^ 63" using assms(2) sint_range [of "lim_of w b"] by linarith
  then have "uint (maximum w c - lim_of w b) = (?m - ?l) mod 2 ^ 64" by (rule diff_to_maximum)
  also have "... = ?m - ?l + 2 ^ 64"
  proof (rule mod_pos_pos_trivial_shift)
    have "sint (lim_of w b) < 9223372036854775808" using sint_range [of "lim_of w b"] by simp
    then have "- 18446744073709551616 \<le> ?m - ?l" using n(3) by linarith
    then show "- (2 ^ 64) \<le> ?m - ?l" by simp
    show "?m - ?l < 0" using assms(2) by simp
  qed
  finally have d: "uint (maximum w c - lim_of w b) = ?m - ?l + 2 ^ 64" .
  have "?l + ?n * ?r < 9223372036854775808" using assms(3) by simp
  then have "\<not> ?m - ?l + 18446744073709551616 < ?n * ?r" using n by linarith
  then have "\<not> (maximum w c - lim_of w b) div ucast n < rate w c"
    by (simp only: word_less_def uint_div_distrib d uint_ucast32 div_less_int [OF n(1)]) simp
  moreover have "sint (lim_of w b + ucast n * rate w c) = ?l + ?n * ?r"
    unfolding sum_word by (rule sint_of_range) (use assms n nr in linarith)+
  ultimately show ?thesis by (simp add: refill_limit_def)
qed


text \<open>The configuration keeps a bufferevent above the constant that no single read is to exceed.\<close>

lemma rlim_max_above_constant:
  "\<exists>s m s'. bufferevent_get_rlim_max 0 False s = Some (m, s') \<and> m > MAX_TO_READ_EVER"
proof -
  define c where "c = \<lparr>read_rate = 100000, read_maximum = 100000, write_rate = 1, write_maximum = 1, tick_timeout = (1, 0), msec_per_tick = 1000\<rparr>"
  define b where "b = \<lparr>read_enabled = True, write_enabled = True, read_suspended = 0, write_suspended = 0, reading = False, writing = False,
    rl = Some \<lparr>group = None, limit = \<lparr>read_limit = 100000, write_limit = 1, last_updated = 0\<rparr>, cfg = Some (0, c), refill_event = None\<rparr>\<rparr>"
  have "bufferevent_get_rlim_max 0 False \<lparr>bevs = \<lambda>_. b, groups = \<lambda>_. undefined, time = (0, 0)\<rparr> =
      Some (100000, \<lparr>bevs = \<lambda>_. b, groups = \<lambda>_. undefined, time = (0, 0)\<rparr>)"
    by (simp add: bufferevent_get_rlim_max_def own_max_def group_max_def bufferevent_update_buckets_def ev_token_bucket_get_tick_def
        b_def c_def lim_of_def signed_divide_int_def)
  moreover have "MAX_TO_READ_EVER < 100000" by (simp add: MAX_TO_READ_EVER_def)
  ultimately show ?thesis by blast
qed

text \<open>A tick shorter than a millisecond gives a configuration with which every tick divides by zero.\<close>

lemma short_tick_divides_by_zero:
  "\<exists>c. ev_token_bucket_cfg_new 1 1 1 1 (Some (0, 999)) True = Some c \<and> (\<forall>tv. ev_token_bucket_get_tick tv c = None)"
  by (simp add: ev_token_bucket_cfg_new_def EV_RATE_LIMIT_MAX_def ev_token_bucket_get_tick_def Let_def)

section \<open>Who is stopped can go on\<close>

definition flagged :: "u16 \<Rightarrow> bool \<Rightarrow> bev \<Rightarrow> bool" where
  "flagged k w b \<longleftrightarrow> suspended w b AND k \<noteq> 0"

definition member_of :: "nat \<Rightarrow> bev \<Rightarrow> bool" where
  "member_of g b \<longleftrightarrow> (\<exists>r. rl b = Some r \<and> group r = Some g)"

definition group_wakes :: "rl_world \<Rightarrow> bool \<Rightarrow> bev \<Rightarrow> bool" where
  "group_wakes s w b \<longleftrightarrow> (\<exists>g. member_of g b \<and> (g_suspended w (groups s g) \<or> pending_unsuspend w (groups s g)))"

definition timer_wakes :: "bev \<Rightarrow> bool" where
  "timer_wakes b \<longleftrightarrow> (\<exists>r. rl b = Some r \<and> cfg r \<noteq> None \<and> refill_event r \<noteq> None)"

definition sound_group :: "rl_world \<Rightarrow> nat \<Rightarrow> bool" where
  "sound_group s g \<longleftrightarrow> distinct (members (groups s g)) \<and> n_members (groups s g) = int (length (members (groups s g))) \<and>
     (\<forall>i. i \<in> set (members (groups s g)) \<longleftrightarrow> member_of g (bevs s i))"

definition runs_ok :: "bev \<Rightarrow> bool" where
  "runs_ok b \<longleftrightarrow> (\<forall>w. running w b \<longrightarrow> suspended w b = 0)"

definition sound_bev :: "rl_world \<Rightarrow> bev \<Rightarrow> bool" where
  "sound_bev s b \<longleftrightarrow> runs_ok b \<and> (\<forall>w. flagged BEV_SUSPEND_BW w b \<longrightarrow> timer_wakes b) \<and>
     (\<forall>w. flagged BEV_SUSPEND_BW_GROUP w b \<longrightarrow> group_wakes s w b)"

definition rl_inv :: "rl_world \<Rightarrow> bool" where
  "rl_inv s \<longleftrightarrow> (\<forall>g. sound_group s g) \<and> (\<forall>i. sound_bev s (bevs s i))"

text \<open>The fields.\<close>

lemma bev_fields [simp]:
  "suspended w (set_suspended w v b) = v" "w \<noteq> w' \<Longrightarrow> suspended w (set_suspended w' v b) = suspended w b"
  "running w (set_suspended w' v b) = running w b" "enabled w (set_suspended w' v b) = enabled w b"
  "suspended w (set_running w' x b) = suspended w b" "running w (set_running w x b) = x"
  "w \<noteq> w' \<Longrightarrow> running w (set_running w' x b) = running w b" "enabled w (set_running w' x b) = enabled w b"
  "rl (set_suspended w' v b) = rl b" "rl (set_running w' x b) = rl b"
  "suspended w (upd_rl f b) = suspended w b" "running w (upd_rl f b) = running w b" "enabled w (upd_rl f b) = enabled w b"
  "rl (upd_rl f b) = map_option f (rl b)"
  by (auto simp: suspended_def set_suspended_def running_def set_running_def enabled_def upd_rl_def)

lemma world_fields [simp]:
  "bevs (upd_bev i f s) = (bevs s)(i := f (bevs s i))" "groups (upd_bev i f s) = groups s" "time (upd_bev i f s) = time s"
  "groups (upd_group g h s) = (groups s)(g := h (groups s g))" "bevs (upd_group g h s) = bevs s" "time (upd_group g h s) = time s"
  by (simp_all add: upd_bev_def upd_group_def)

lemma group_flags [simp]:
  "g_suspended w (set_g_flags w a p x) = a" "pending_unsuspend w (set_g_flags w a p x) = p"
  "w \<noteq> w' \<Longrightarrow> g_suspended w (set_g_flags w' a p x) = g_suspended w x"
  "w \<noteq> w' \<Longrightarrow> pending_unsuspend w (set_g_flags w' a p x) = pending_unsuspend w x"
  "members (set_g_flags w a p x) = members x" "n_members (set_g_flags w a p x) = n_members x"
  by (auto simp: g_suspended_def pending_unsuspend_def set_g_flags_def)

lemma suspend_unsuspend_fields [simp]:
  "rl (bev_suspend w k b) = rl b" "rl (bev_unsuspend w k b) = rl b"
  "w \<noteq> w' \<Longrightarrow> suspended w (bev_suspend w' k b) = suspended w b" "w \<noteq> w' \<Longrightarrow> suspended w (bev_unsuspend w' k b) = suspended w b"
  "w \<noteq> w' \<Longrightarrow> running w (bev_suspend w' k b) = running w b" "w \<noteq> w' \<Longrightarrow> running w (bev_unsuspend w' k b) = running w b"
  "suspended w (bev_suspend w k b) = suspended w b OR k" "suspended w (bev_unsuspend w k b) = suspended w b AND NOT k"
  by (auto simp: bev_suspend_def bev_unsuspend_def Let_def)

text \<open>The two flags are bits of their own.\<close>

lemma flag_bits: "x AND BEV_SUSPEND_BW \<noteq> 0 \<longleftrightarrow> bit x 1" "x AND BEV_SUSPEND_BW_GROUP \<noteq> 0 \<longleftrightarrow> bit x 2"
  using and_exp_eq_0_iff_not_bit [of x 1] and_exp_eq_0_iff_not_bit [of x 2]
  by (simp_all add: BEV_SUSPEND_BW_def BEV_SUSPEND_BW_GROUP_def)

lemma flagged_bits:
  "flagged BEV_SUSPEND_BW w b \<longleftrightarrow> bit (suspended w b) 1" "flagged BEV_SUSPEND_BW_GROUP w b \<longleftrightarrow> bit (suspended w b) 2"
  by (simp_all add: flagged_def flag_bits)

lemma flag_consts:
  "bit BEV_SUSPEND_BW 1" "\<not> bit BEV_SUSPEND_BW 2" "bit BEV_SUSPEND_BW_GROUP 2" "\<not> bit BEV_SUSPEND_BW_GROUP 1"
  by (simp_all add: BEV_SUSPEND_BW_def BEV_SUSPEND_BW_GROUP_def bit_numeral_rec) 

lemma flagged_simps [simp]:
  "flagged BEV_SUSPEND_BW w (bev_suspend w BEV_SUSPEND_BW b)"
  "flagged BEV_SUSPEND_BW_GROUP w (bev_suspend w BEV_SUSPEND_BW b) = flagged BEV_SUSPEND_BW_GROUP w b"
  "flagged BEV_SUSPEND_BW w (bev_suspend w BEV_SUSPEND_BW_GROUP b) = flagged BEV_SUSPEND_BW w b"
  "flagged BEV_SUSPEND_BW_GROUP w (bev_suspend w BEV_SUSPEND_BW_GROUP b)"
  "\<not> flagged BEV_SUSPEND_BW w (bev_unsuspend w BEV_SUSPEND_BW b)"
  "flagged BEV_SUSPEND_BW_GROUP w (bev_unsuspend w BEV_SUSPEND_BW b) = flagged BEV_SUSPEND_BW_GROUP w b"
  "flagged BEV_SUSPEND_BW w (bev_unsuspend w BEV_SUSPEND_BW_GROUP b) = flagged BEV_SUSPEND_BW w b"
  "\<not> flagged BEV_SUSPEND_BW_GROUP w (bev_unsuspend w BEV_SUSPEND_BW_GROUP b)"
  by (simp_all add: flagged_bits bit_simps flag_consts del: One_nat_def)

lemma flagged_other [simp]:
  "w \<noteq> w' \<Longrightarrow> flagged k w (bev_suspend w' k' b) = flagged k w b" "w \<noteq> w' \<Longrightarrow> flagged k w (bev_unsuspend w' k' b) = flagged k w b"
  "flagged k w (upd_rl f b) = flagged k w b"
  by (simp_all add: flagged_def)

lemma member_of_fields [simp]:
  "member_of g (bev_suspend w k b) = member_of g b" "member_of g (bev_unsuspend w k b) = member_of g b"
  by (simp_all add: member_of_def)

lemma timer_wakes_fields [simp]:
  "timer_wakes (bev_suspend w k b) = timer_wakes b" "timer_wakes (bev_unsuspend w k b) = timer_wakes b"
  by (simp_all add: timer_wakes_def)

lemma group_wakes_fields [simp]:
  "group_wakes s w (bev_suspend w' k b) = group_wakes s w b" "group_wakes s w (bev_unsuspend w' k b) = group_wakes s w b"
  "group_wakes (upd_bev i f s) w b = group_wakes s w b"
  by (simp_all add: group_wakes_def)

text \<open>Only what is not suspended runs.\<close>

lemma running_suspend: "running w (bev_suspend w k b) \<longleftrightarrow> running w b \<and> suspended w b \<noteq> 0"
  by (simp add: bev_suspend_def Let_def)

lemma running_unsuspend:
  "running w (bev_unsuspend w k b) \<longleftrightarrow> suspended w b AND NOT k = 0 \<and> enabled w b \<or> running w b"
  by (auto simp: bev_unsuspend_def Let_def)

lemma runs_ok_suspend [simp]: "runs_ok b \<Longrightarrow> runs_ok (bev_suspend w k b)"
  unfolding runs_ok_def
proof (intro allI impI)
  fix w' assume a: "\<forall>w. running w b \<longrightarrow> suspended w b = 0" and r: "running w' (bev_suspend w k b)"
  show "suspended w' (bev_suspend w k b) = 0" using a r by (cases "w' = w") (auto simp: running_suspend)
qed

lemma runs_ok_unsuspend [simp]: "runs_ok b \<Longrightarrow> runs_ok (bev_unsuspend w k b)"
  unfolding runs_ok_def
proof (intro allI impI)
  fix w' assume a: "\<forall>w. running w b \<longrightarrow> suspended w b = 0" and r: "running w' (bev_unsuspend w k b)"
  show "suspended w' (bev_unsuspend w k b) = 0" using a r by (cases "w' = w") (auto simp: running_unsuspend)
qed

lemma runs_ok_upd_rl [simp]: "runs_ok (upd_rl f b) = runs_ok b"
  by (simp add: runs_ok_def)


section \<open>One bufferevent changes\<close>

definition only_bev :: "nat \<Rightarrow> rl_world \<Rightarrow> rl_world \<Rightarrow> bool" where
  "only_bev i s s' \<longleftrightarrow> groups s' = groups s \<and> (\<forall>j. j \<noteq> i \<longrightarrow> bevs s' j = bevs s j) \<and>
     (\<forall>g. member_of g (bevs s' i) = member_of g (bevs s i))"

lemma group_wakes_groups: "groups s' = groups s \<Longrightarrow> group_wakes s' = group_wakes s"
  by (intro ext) (simp add: group_wakes_def)

lemma sound_bev_groups: "groups s' = groups s \<Longrightarrow> sound_bev s' = sound_bev s"
  by (intro ext) (simp only: sound_bev_def group_wakes_groups [of s' s])

lemma only_bev_inv:
  assumes "rl_inv s" "only_bev i s s'" "sound_bev s (bevs s' i)"
  shows "rl_inv s'"
proof -
  have g: "groups s' = groups s" using assms(2) by (simp add: only_bev_def)
  have "member_of h (bevs s' j) = member_of h (bevs s j)" for h j using assms(2) by (cases "j = i") (auto simp: only_bev_def)
  then have "sound_group s' h = sound_group s h" for h by (simp add: sound_group_def g)
  moreover have "sound_bev s (bevs s' j)" for j
    using assms by (cases "j = i") (auto simp: only_bev_def rl_inv_def)
  ultimately show ?thesis using assms(1) by (simp add: rl_inv_def sound_bev_groups [OF g])
qed

lemma only_bev_refl [simp]: "only_bev i s s"
  by (simp add: only_bev_def)

lemma only_bev_upd [simp]:
  "only_bev i s (upd_bev i f s') \<longleftrightarrow> groups s' = groups s \<and> (\<forall>j. j \<noteq> i \<longrightarrow> bevs s' j = bevs s j) \<and>
     (\<forall>g. member_of g (f (bevs s' i)) = member_of g (bevs s i))"
proof -
  have "bevs (upd_bev i f s') j = (if j = i then f (bevs s' i) else bevs s' j)" for j by (simp add: upd_bev_def)
  then show ?thesis unfolding only_bev_def by (simp only: world_fields(2) if_True simp_thms if_False cong: imp_cong)
qed

lemma member_of_upd_rl [simp]: "(\<And>r. group (f r) = group r) \<Longrightarrow> member_of g (upd_rl f b) = member_of g b"
  by (auto simp: member_of_def)

lemma timer_wakes_upd_rl [simp]:
  "(\<And>r. cfg (f r) = cfg r) \<Longrightarrow> (\<And>r. refill_event (f r) = refill_event r) \<Longrightarrow> timer_wakes (upd_rl f b) = timer_wakes b"
  by (auto simp: timer_wakes_def)

lemma group_wakes_upd_rl [simp]: "(\<And>r. group (f r) = group r) \<Longrightarrow> group_wakes s w (upd_rl f b) = group_wakes s w b"
  by (simp add: group_wakes_def)

lemma sound_bev_same:
  assumes "sound_bev s b" "\<And>r. cfg (f r) = cfg r" "\<And>r. refill_event (f r) = refill_event r" "\<And>r. group (f r) = group r"
  shows "sound_bev s (upd_rl f b)"
  using assms by (auto simp: sound_bev_def)

lemma take_from_bucket_inv:
  assumes "rl_inv s"
  shows "rl_inv (take_from_bucket w i n s)"
proof (rule only_bev_inv [OF assms])
  show "only_bev i s (take_from_bucket w i n s)" by (simp add: take_from_bucket_def)
  show "sound_bev s (bevs (take_from_bucket w i n s) i)"
    using assms unfolding take_from_bucket_def by (simp add: sound_bev_same rl_inv_def)
qed

lemma update_buckets_inv:
  assumes "rl_inv s" "bufferevent_update_buckets i s = Some s'"
  shows "rl_inv s'" "map_option cfg (rl (bevs s' i)) = map_option cfg (rl (bevs s i))"
    "map_option group (rl (bevs s' i)) = map_option group (rl (bevs s i))"
proof -
  have "s' = s \<or> (\<exists>c t. s' = upd_bev i (refresh c t) s)"
    using assms(2) by (auto simp: bufferevent_update_buckets_def bind_eq_Some_conv split: option.splits if_splits) blast
  then obtain c t where s': "s' = s \<or> s' = upd_bev i (refresh c t) s" by blast
  have "sound_bev s (refresh c t (bevs s i))"
    using assms(1) by (simp add: refresh_def sound_bev_same rl_inv_def)
  then have "rl_inv (upd_bev i (refresh c t) s)" by (intro only_bev_inv [OF assms(1), of i]) (auto simp: refresh_def)
  then show "rl_inv s'" using s' assms(1) by auto
  show "map_option cfg (rl (bevs s' i)) = map_option cfg (rl (bevs s i))"
    "map_option group (rl (bevs s' i)) = map_option group (rl (bevs s i))"
    using s' by (auto simp: refresh_def option.map_comp comp_def)
qed

text \<open>Where the timer runs, where nothing is stopped by the bucket, and in between.\<close>

lemma add_refill_fields [simp]:
  "groups (add_refill ok i s) = groups s" "j \<noteq> i \<Longrightarrow> bevs (add_refill ok i s) j = bevs s j"
  "member_of g (bevs (add_refill ok i s) i) = member_of g (bevs s i)" "runs_ok (bevs (add_refill ok i s) i) = runs_ok (bevs s i)"
  "flagged k w (bevs (add_refill ok i s) i) = flagged k w (bevs s i)"
  "group_wakes s' w (bevs (add_refill ok i s) i) = group_wakes s' w (bevs s i)"
  "rl (bevs s i) = Some r \<Longrightarrow> cfg r \<noteq> None \<Longrightarrow> timer_wakes (bevs (add_refill True i s) i)"
  by (auto simp: add_refill_def timer_wakes_def)

lemma del_refill_fields [simp]:
  "groups (del_refill i s) = groups s" "j \<noteq> i \<Longrightarrow> bevs (del_refill i s) j = bevs s j"
  "member_of g (bevs (del_refill i s) i) = member_of g (bevs s i)" "runs_ok (bevs (del_refill i s) i) = runs_ok (bevs s i)"
  "flagged k w (bevs (del_refill i s) i) = flagged k w (bevs s i)"
  "group_wakes s' w (bevs (del_refill i s) i) = group_wakes s' w (bevs s i)"
  by (simp_all add: del_refill_def)

lemma sound_bevD:
  assumes "rl_inv s"
  shows "runs_ok (bevs s i)" "flagged BEV_SUSPEND_BW w (bevs s i) \<Longrightarrow> timer_wakes (bevs s i)"
    "flagged BEV_SUSPEND_BW_GROUP w (bevs s i) \<Longrightarrow> group_wakes s w (bevs s i)"
  using assms by (auto simp: rl_inv_def sound_bev_def)

lemma suspended_flagged: "suspended w b AND BEV_SUSPEND_BW = 0 \<longleftrightarrow> \<not> flagged BEV_SUSPEND_BW w b"
  by (simp add: flagged_def)

lemma suspend_own_inv:
  assumes "rl_inv s" "rl (bevs s i) = Some r" "cfg r \<noteq> None"
  shows "rl_inv (add_refill True i (upd_bev i (bev_suspend w BEV_SUSPEND_BW) s))" (is "rl_inv ?s'")
proof (rule only_bev_inv [OF assms(1)])
  show "only_bev i s ?s'" by (simp add: only_bev_def)
  have "timer_wakes (bevs ?s' i)" using assms(2,3) by (intro add_refill_fields(7)) auto
  moreover have "flagged BEV_SUSPEND_BW_GROUP w' (bevs ?s' i) = flagged BEV_SUSPEND_BW_GROUP w' (bevs s i)" for w'
    by (cases "w' = w") auto
  ultimately show "sound_bev s (bevs ?s' i)" using sound_bevD [OF assms(1)] by (auto simp: sound_bev_def)
qed

lemma unsuspend_own_inv:
  assumes "rl_inv s"
  shows "rl_inv (upd_bev i (bev_unsuspend w BEV_SUSPEND_BW)
    (if suspended (\<not> w) (bevs s i) AND BEV_SUSPEND_BW = 0 then del_refill i s else s))" (is "rl_inv ?s'")
proof (rule only_bev_inv [OF assms])
  show "only_bev i s ?s'" by simp
  have f: "flagged BEV_SUSPEND_BW w' (bevs ?s' i) \<longleftrightarrow> w' = (\<not> w) \<and> flagged BEV_SUSPEND_BW w' (bevs s i)" for w'
    by (cases "w' = w") auto
  have "timer_wakes (bevs ?s' i)" if "flagged BEV_SUSPEND_BW (\<not> w) (bevs s i)"
    using sound_bevD(2) [OF assms that] that by (simp add: suspended_flagged)
  moreover have "flagged BEV_SUSPEND_BW_GROUP w' (bevs ?s' i) = flagged BEV_SUSPEND_BW_GROUP w' (bevs s i)" for w'
    by (cases "w' = w") auto
  ultimately show "sound_bev s (bevs ?s' i)" using sound_bevD [OF assms] f by (auto simp: sound_bev_def)
qed


section \<open>A group stops and goes on\<close>

lemma foldl_bevs:
  "distinct xs \<Longrightarrow>
   bevs (foldl (\<lambda>s i. if t i then upd_bev i f s else s) s xs) j = (if j \<in> set xs \<and> t j then f (bevs s j) else bevs s j) \<and>
   groups (foldl (\<lambda>s i. if t i then upd_bev i f s else s) s xs) = groups s"
  by (induction xs arbitrary: s) auto

lemma random_order_set [simp]: "set (random_order rnd x) = set (members x)"
  by (auto simp: random_order_def Let_def set_drop_subset set_take_subset dest: in_set_dropD in_set_takeD)
     (metis UnE append_take_drop_id set_append)

lemma random_order_distinct: "distinct (members x) \<Longrightarrow> distinct (random_order rnd x)"
  using set_take_disj_set_drop_if_distinct [of "members x" "rnd mod nat (n_members x)" "rnd mod nat (n_members x)"]
  by (auto simp: random_order_def Let_def)

lemma group_suspend_fields:
  assumes "distinct (members (groups s g))"
  shows "groups (bev_group_suspend w t g s) = (groups s)(g := set_g_flags w True False (groups s g))"
    "bevs (bev_group_suspend w t g s) j =
       (if j \<in> set (members (groups s g)) \<and> t j then bev_suspend w BEV_SUSPEND_BW_GROUP (bevs s j) else bevs s j)"
  using foldl_bevs [OF assms, of t "bev_suspend w BEV_SUSPEND_BW_GROUP" "upd_group g (set_g_flags w True False) s"]
  by (simp_all add: bev_group_suspend_def)

lemma group_unsuspend_fields:
  assumes "distinct (members (groups s g))"
  shows "groups (bev_group_unsuspend w t rnd g s) =
      (groups s)(g := set_g_flags w False (list_ex (\<lambda>i. \<not> t i) (random_order rnd (groups s g))) (groups s g))"
    "bevs (bev_group_unsuspend w t rnd g s) j =
       (if j \<in> set (members (groups s g)) \<and> t j then bev_unsuspend w BEV_SUSPEND_BW_GROUP (bevs s j) else bevs s j)"
  using foldl_bevs [OF random_order_distinct [OF assms], of t "bev_unsuspend w BEV_SUSPEND_BW_GROUP" s rnd]
  by (simp_all add: bev_group_unsuspend_def Let_def)

lemma sound_groupD:
  assumes "rl_inv s"
  shows "distinct (members (groups s g))" "n_members (groups s g) = int (length (members (groups s g)))"
    "i \<in> set (members (groups s g)) \<longleftrightarrow> member_of g (bevs s i)"
  using assms by (auto simp: rl_inv_def sound_group_def)

lemma member_of_unique: "member_of g b \<Longrightarrow> member_of h b \<Longrightarrow> g = h"
  by (auto simp: member_of_def)

lemma group_suspend_inv:
  assumes "rl_inv s"
  shows "rl_inv (bev_group_suspend w t g s)" (is "rl_inv ?s'")
proof -
  note f = group_suspend_fields [OF sound_groupD(1) [OF assms], of w t g]
  have m: "member_of h (bevs ?s' i) = member_of h (bevs s i)" for h i by (simp add: f)
  have "sound_group ?s' h" for h
    using assms sound_groupD [OF assms] by (auto simp: sound_group_def f m)
  moreover have "sound_bev ?s' (bevs ?s' i)" for i
  proof -
    have gw: "group_wakes ?s' w' (bevs ?s' i)" if gs: "group_wakes s w' (bevs s i)" for w'
    proof -
      obtain h where "member_of h (bevs s i)" "g_suspended w' (groups s h) \<or> pending_unsuspend w' (groups s h)"
        using gs by (auto simp: group_wakes_def)
      then show ?thesis by (cases "w' = w") (auto simp: group_wakes_def m f)
    qed
    have "group_wakes ?s' w (bevs ?s' i)" if "member_of g (bevs s i)"
      using that by (auto simp: group_wakes_def m f)
    then have "group_wakes ?s' w' (bevs ?s' i)" if "flagged BEV_SUSPEND_BW_GROUP w' (bevs ?s' i)" for w'
      using that gw sound_bevD(3) [OF assms, of w' i] sound_groupD(3) [OF assms]
      by (cases "w' = w") (auto simp: f split: if_splits)
    moreover have "timer_wakes (bevs ?s' i)" if "flagged BEV_SUSPEND_BW w' (bevs ?s' i)" for w'
      using that sound_bevD(2) [OF assms, of w' i] by (cases "w' = w") (auto simp: f split: if_splits)
    moreover have "runs_ok (bevs ?s' i)" using sound_bevD(1) [OF assms, of i] by (simp add: f)
    ultimately show ?thesis by (simp add: sound_bev_def)
  qed
  ultimately show ?thesis by (simp add: rl_inv_def)
qed

lemma group_unsuspend_inv:
  assumes "rl_inv s"
  shows "rl_inv (bev_group_unsuspend w t rnd g s)" (is "rl_inv ?s'")
proof -
  note f = group_unsuspend_fields [OF sound_groupD(1) [OF assms], of w t rnd g]
  have m: "member_of h (bevs ?s' i) = member_of h (bevs s i)" for h i by (simp add: f)
  have "sound_group ?s' h" for h
    using assms sound_groupD [OF assms] by (auto simp: sound_group_def f m)
  moreover have "sound_bev ?s' (bevs ?s' i)" for i
  proof -
    have "group_wakes ?s' w' (bevs ?s' i)" if fl: "flagged BEV_SUSPEND_BW_GROUP w' (bevs ?s' i)" for w'
    proof -
      have "flagged BEV_SUSPEND_BW_GROUP w' (bevs s i)" using fl by (cases "w' = w") (auto simp: f split: if_splits)
      then obtain h where h: "member_of h (bevs s i)" "g_suspended w' (groups s h) \<or> pending_unsuspend w' (groups s h)"
        using sound_bevD(3) [OF assms] by (auto simp: group_wakes_def)
      show ?thesis
      proof (cases "w' = w \<and> h = g")
        case True
        then have "i \<in> set (members (groups s g))" using h sound_groupD(3) [OF assms] by auto
        moreover from this have "\<not> t i" using fl True by (auto simp: f)
        ultimately have "list_ex (\<lambda>i. \<not> t i) (random_order rnd (groups s g))" by (auto simp: list_ex_iff)
        then show ?thesis using h True by (auto simp: group_wakes_def m f)
      next
        case False
        then show ?thesis using h by (auto simp: group_wakes_def m f)
      qed
    qed
    moreover have "timer_wakes (bevs ?s' i)" if "flagged BEV_SUSPEND_BW w' (bevs ?s' i)" for w'
      using that sound_bevD(2) [OF assms, of w' i] by (cases "w' = w") (auto simp: f split: if_splits)
    moreover have "runs_ok (bevs ?s' i)" using sound_bevD(1) [OF assms, of i] by (simp add: f)
    ultimately show ?thesis by (simp add: sound_bev_def)
  qed
  ultimately show ?thesis by (simp add: rl_inv_def)
qed

text \<open>What leaves members and flags of a group alone.\<close>

definition same_flags :: "rl_group \<Rightarrow> rl_group \<Rightarrow> bool" where
  "same_flags x y \<longleftrightarrow> members x = members y \<and> n_members x = n_members y \<and>
     (\<forall>w. g_suspended w x = g_suspended w y \<and> pending_unsuspend w x = pending_unsuspend w y)"

lemma same_flags_intro:
  "members x = members y \<Longrightarrow> n_members x = n_members y \<Longrightarrow> g_read_suspended x = g_read_suspended y \<Longrightarrow>
   g_write_suspended x = g_write_suspended y \<Longrightarrow> pending_unsuspend_read x = pending_unsuspend_read y \<Longrightarrow>
   pending_unsuspend_write x = pending_unsuspend_write y \<Longrightarrow> same_flags x y"
  by (simp add: same_flags_def g_suspended_def pending_unsuspend_def)

lemma same_flags_inv:
  assumes "rl_inv s" "same_flags (h (groups s g)) (groups s g)"
  shows "rl_inv (upd_group g h s)"
proof -
  let ?s' = "upd_group g h s"
  have f: "members (groups ?s' k) = members (groups s k)" "n_members (groups ?s' k) = n_members (groups s k)"
    "g_suspended w (groups ?s' k) = g_suspended w (groups s k)" "pending_unsuspend w (groups ?s' k) = pending_unsuspend w (groups s k)" for k w
    using assms(2) by (auto simp: same_flags_def)
  have b: "bevs ?s' = bevs s" by simp
  have "sound_group ?s' k = sound_group s k" for k by (simp only: sound_group_def f b)
  moreover have "group_wakes ?s' = group_wakes s" by (intro ext) (simp only: group_wakes_def f)
  then have "sound_bev ?s' = sound_bev s" by (intro ext) (simp only: sound_bev_def)
  ultimately show ?thesis using assms(1) by (simp only: rl_inv_def b) blast
qed


section \<open>Every operation keeps the invariant\<close>

lemma take_from_bucket_rl:
  "rl (bevs s i) = Some r \<Longrightarrow> \<exists>r'. rl (bevs (take_from_bucket w i n s) i) = Some r' \<and> cfg r' = cfg r \<and> group r' = group r"
  by (simp add: take_from_bucket_def)

lemma decrement_own_inv:
  assumes "rl_inv s" "rl (bevs s i) = Some r" "cfg r \<noteq> None"
  shows "rl_inv (snd (decrement_own w True i n s))"
proof -
  let ?s = "take_from_bucket w i n s"
  obtain r' where "rl (bevs ?s i) = Some r'" "cfg r' \<noteq> None" using take_from_bucket_rl [OF assms(2)] assms(3) by metis
  note inv = take_from_bucket_inv [OF assms(1), of w i n]
  show ?thesis
    using inv suspend_own_inv [OF inv, of i r' w] unsuspend_own_inv [OF inv, of i w] \<open>rl (bevs ?s i) = Some r'\<close> \<open>cfg r' \<noteq> None\<close>
    unfolding decrement_own_def Let_def by (simp split del: if_split split: if_split_asm) (auto split: if_splits)
qed

lemma take_from_group_same: "same_flags (take_from_group w n x) x" "same_flags (count_total w n (take_from_group w n x)) x"
  by (rule same_flags_intro; simp add: take_from_group_def count_total_def)+

lemma decrement_group_inv:
  assumes "rl_inv s"
  shows "rl_inv (decrement_group w t rnd g n s)"
proof -
  have "rl_inv (upd_group g (\<lambda>x. count_total w n (take_from_group w n x)) s)"
    by (rule same_flags_inv [OF assms]) (rule take_from_group_same(2))
  then show ?thesis by (simp add: decrement_group_def Let_def group_suspend_inv group_unsuspend_inv)
qed

lemma decrement_buckets_inv:
  assumes "rl_inv s"
  shows "rl_inv (snd (bufferevent_decrement_buckets w True t rnd i n s))"
proof (cases "rl (bevs s i)")
  case None
  then show ?thesis using assms by (simp add: bufferevent_decrement_buckets_def)
next
  case (Some r)
  have "rl_inv (snd (if cfg r = None then (0, s) else decrement_own w True i n s))"
    using assms decrement_own_inv [OF assms Some] by simp
  then show ?thesis
    using Some by (auto simp: bufferevent_decrement_buckets_def split: prod.splits option.splits intro: decrement_group_inv)
qed

lemma suspend_group_flag_inv:
  assumes "rl_inv s" "member_of g (bevs s i)" "g_suspended w (groups s g)"
  shows "rl_inv (upd_bev i (bev_suspend w BEV_SUSPEND_BW_GROUP) s)"
proof (rule only_bev_inv [OF assms(1)])
  let ?b = "bev_suspend w BEV_SUSPEND_BW_GROUP (bevs s i)"
  show "only_bev i s (upd_bev i (bev_suspend w BEV_SUSPEND_BW_GROUP) s)" by simp
  have "group_wakes s w (bevs s i)" using assms(2,3) by (auto simp: group_wakes_def)
  then have "group_wakes s w' ?b" if "flagged BEV_SUSPEND_BW_GROUP w' ?b" for w'
    using that sound_bevD(3) [OF assms(1)] by (cases "w' = w") auto
  moreover have "timer_wakes ?b" if "flagged BEV_SUSPEND_BW w' ?b" for w'
    using that sound_bevD(2) [OF assms(1), of w' i] by (cases "w' = w") auto
  ultimately show "sound_bev s (bevs (upd_bev i (bev_suspend w BEV_SUSPEND_BW_GROUP) s) i)"
    using sound_bevD(1) [OF assms(1)] by (simp add: sound_bev_def)
qed

lemma rlim_max_inv:
  assumes "rl_inv s" "bufferevent_get_rlim_max i w s = Some (m, s')"
  shows "rl_inv s'"
proof (cases "rl (bevs s i)")
  case None
  then show ?thesis using assms by (simp add: bufferevent_get_rlim_max_def)
next
  case (Some r)
  obtain m1 s1 m2 where own: "own_max i w r s = Some (m1, s1)" and grp: "group_max i w r m1 s1 = Some (m2, s')"
    using assms(2) Some by (auto simp: bufferevent_get_rlim_max_def bind_eq_Some_conv)
  have s1: "rl_inv s1" "map_option group (rl (bevs s1 i)) = Some (group r)"
    using own assms(1) Some update_buckets_inv(1) [OF assms(1), of i s1] update_buckets_inv(3) [OF assms(1), of i s1]
    by (auto simp: own_max_def bind_eq_Some_conv split: if_splits)
  then have "member_of g (bevs s1 i)" if "group r = Some g" for g using that by (auto simp: member_of_def)
  then show ?thesis
    using grp s1(1) by (auto simp: group_max_def intro: suspend_group_flag_inv split: option.splits if_splits)
qed

lemma get_limit_inv:
  assumes "rl_inv s" "bufferevent_get_limit w i s = Some (m, s')"
  shows "rl_inv s'"
  using assms update_buckets_inv(1) [OF assms(1)]
  by (auto simp: bufferevent_get_limit_def bind_eq_Some_conv split: option.splits if_splits)

lemma decrement_limit_inv:
  assumes "rl_inv s" "bufferevent_decrement_limit w True i n s = Some (res, s')"
  shows "rl_inv s'"
proof -
  let ?s = "take_from_bucket w i n s"
  obtain r where r: "rl (bevs s i) = Some r" "cfg r \<noteq> None"
    using assms(2) by (auto simp: bufferevent_decrement_limit_def split: option.splits if_splits)
  obtain r' where r': "rl (bevs ?s i) = Some r'" "cfg r' \<noteq> None" using take_from_bucket_rl [OF r(1)] r(2) by metis
  note inv = take_from_bucket_inv [OF assms(1), of w i n]
  have "s' = ?s \<or> s' = add_refill True i (upd_bev i (bev_suspend w BEV_SUSPEND_BW) ?s) \<or>
      s' = upd_bev i (bev_unsuspend w BEV_SUSPEND_BW) (if suspended (\<not> w) (bevs ?s i) AND BEV_SUSPEND_BW = 0 then del_refill i ?s else ?s)"
    using assms(2) r by (simp only: bufferevent_decrement_limit_def Let_def option.case if_False) (simp split: if_split_asm)
  then show ?thesis using inv suspend_own_inv [OF inv r', of w] unsuspend_own_inv [OF inv, of i w] by metis
qed

lemma group_decrement_inv:
  assumes "rl_inv s"
  shows "rl_inv (group_decrement w t rnd g n s)"
proof -
  have "rl_inv (upd_group g (take_from_group w n) s)"
    by (rule same_flags_inv [OF assms]) (rule take_from_group_same(1))
  then show ?thesis by (simp add: group_decrement_def Let_def group_suspend_inv group_unsuspend_inv)
qed

lemma min_share_same: "same_flags (snd (group_set_min_share v x)) x"
  by (rule same_flags_intro; simp add: group_set_min_share_def)

lemma set_cfg_same: "same_flags (group_set_cfg c x) x"
  by (rule same_flags_intro; simp add: group_set_cfg_def Let_def group_set_min_share_def)

lemma reset_totals_same: "same_flags (group_reset_totals x) x"
  by (rule same_flags_intro; simp add: group_reset_totals_def)

lemma group_refill_inv:
  assumes "rl_inv s" "bev_group_refill_callback tr tw rnd1 rnd2 g s = Some s'"
  shows "rl_inv s'"
proof -
  obtain tick where "s' = (let s = upd_group g (\<lambda>x. x\<lparr>rate_limit := fst (ev_token_bucket_update (rate_limit x) (rate_limit_cfg x) tick)\<rparr>) s;
       x = groups s g;
       s = (if pending_unsuspend_read x \<or> g_read_suspended x \<and> sint (read_limit (rate_limit x)) \<ge> sint (min_share x)
              then bev_group_unsuspend False tr rnd1 g s else s);
       x = groups s g
     in if pending_unsuspend_write x \<or> g_write_suspended x \<and> sint (write_limit (rate_limit x)) \<ge> sint (min_share x)
           then bev_group_unsuspend True tw rnd2 g s else s)"
    using assms(2) by (auto simp: bev_group_refill_callback_def bind_eq_Some_conv Let_def)
  moreover have "rl_inv (upd_group g (\<lambda>x. x\<lparr>rate_limit := fst (ev_token_bucket_update (rate_limit x) (rate_limit_cfg x) tick)\<rparr>) s)"
    by (rule same_flags_inv [OF assms(1)]) (rule same_flags_intro; simp)
  ultimately show ?thesis by (simp add: Let_def group_unsuspend_inv)
qed


lemma no_flags_or_timer:
  assumes "rl_inv s" "timer_wakes (bevs s i) \<Longrightarrow> False"
  shows "\<not> flagged BEV_SUSPEND_BW w (bevs s i)"
  using assms sound_bevD(2) [OF assms(1)] by blast

lemma sound_bevI:
  assumes "rl_inv s" "runs_ok b" "\<And>w. flagged BEV_SUSPEND_BW w b \<Longrightarrow> timer_wakes b"
    and "\<And>w. flagged BEV_SUSPEND_BW_GROUP w b = flagged BEV_SUSPEND_BW_GROUP w (bevs s i)" "\<And>g. member_of g b = member_of g (bevs s i)"
  shows "sound_bev s b"
  using assms sound_bevD(3) [OF assms(1)] by (auto simp: sound_bev_def group_wakes_def)

lemma resume_fields:
  assumes "resume w i (s, a) = (s', a')"
  shows "groups s' = groups s" "j \<noteq> i \<Longrightarrow> bevs s' j = bevs s j" "rl (bevs s' i) = rl (bevs s i)"
    "runs_ok (bevs s i) \<Longrightarrow> runs_ok (bevs s' i)" "flagged BEV_SUSPEND_BW_GROUP v (bevs s' i) = flagged BEV_SUSPEND_BW_GROUP v (bevs s i)"
    "flagged BEV_SUSPEND_BW w (bevs s' i) \<Longrightarrow> a'" "v \<noteq> w \<Longrightarrow> flagged BEV_SUSPEND_BW v (bevs s' i) = flagged BEV_SUSPEND_BW v (bevs s i)"
    "a \<Longrightarrow> a'"
proof -
  have c: "s' = s \<and> a' = a \<and> \<not> flagged BEV_SUSPEND_BW w (bevs s i) \<or> s' = s \<and> a' \<or> s' = upd_bev i (bev_unsuspend w BEV_SUSPEND_BW) s \<and> a' = a"
    using assms by (auto simp: resume_def flagged_def split: if_splits)
  then show "groups s' = groups s" "j \<noteq> i \<Longrightarrow> bevs s' j = bevs s j" "rl (bevs s' i) = rl (bevs s i)"
    "runs_ok (bevs s i) \<Longrightarrow> runs_ok (bevs s' i)" "flagged BEV_SUSPEND_BW w (bevs s' i) \<Longrightarrow> a'"
    "v \<noteq> w \<Longrightarrow> flagged BEV_SUSPEND_BW v (bevs s' i) = flagged BEV_SUSPEND_BW v (bevs s i)" "a \<Longrightarrow> a'"
    by auto
  show "flagged BEV_SUSPEND_BW_GROUP v (bevs s' i) = flagged BEV_SUSPEND_BW_GROUP v (bevs s i)"
    using c by (cases "v = w") auto
qed

lemma refresh_fields [simp]:
  "runs_ok (refresh c t b) = runs_ok b" "flagged k w (refresh c t b) = flagged k w b" "member_of g (refresh c t b) = member_of g b"
  "rl (refresh c t b) = map_option (\<lambda>r. r\<lparr>limit := fst (ev_token_bucket_update (limit r) c t)\<rparr>) (rl b)"
  by (simp_all add: refresh_def)

lemma rl_del_refill: "rl (bevs (del_refill i s) i) = map_option (\<lambda>r. r\<lparr>refill_event := None\<rparr>) (rl (bevs s i))"
  by (simp add: del_refill_def)

lemma del_refill_inv:
  assumes "rl_inv s" "\<not> timer_wakes (bevs s i) \<or> (\<forall>w. \<not> flagged BEV_SUSPEND_BW w (bevs s i))"
  shows "rl_inv (del_refill i s)"
proof (rule only_bev_inv [OF assms(1)])
  show "only_bev i s (del_refill i s)" by (simp add: only_bev_def)
  show "sound_bev s (bevs (del_refill i s) i)"
    by (rule sound_bevI [OF assms(1), of _ i]) (use assms sound_bevD [OF assms(1)] in auto)
qed

lemma bev_refill_inv:
  assumes "rl_inv s" "bev_refill_callback True i s = Some s'"
  shows "rl_inv s'"
proof (cases "\<exists>r c. rl (bevs s i) = Some r \<and> cfg r = Some c")
  case False
  then have "\<not> timer_wakes (bevs s i)" by (auto simp: timer_wakes_def)
  moreover have "s' = del_refill i s"
    using False assms(2) by (auto simp: bev_refill_callback_def rl_del_refill Let_def split: option.splits)
  ultimately show ?thesis using del_refill_inv [OF assms(1)] by simp
next
  case True
  then obtain r a c where r: "rl (bevs s i) = Some r" "cfg r = Some (a, c)" by auto
  then obtain tick where "(case resume True i (resume False i (upd_bev i (refresh c tick) (del_refill i s), False)) of
      (s, again) \<Rightarrow> Some (if again then add_refill True i s else s)) = Some s'"
    using assms(2) by (auto simp: bev_refill_callback_def rl_del_refill Let_def bind_eq_Some_conv)
  moreover define s1 where "s1 = upd_bev i (refresh c tick) (del_refill i s)"
  moreover obtain s2 a2 where 2: "resume False i (s1, False) = (s2, a2)" by (cases "resume False i (s1, False)")
  moreover obtain s3 a3 where 3: "resume True i (s2, a2) = (s3, a3)" by (cases "resume True i (s2, a2)")
  ultimately have s': "s' = (if a3 then add_refill True i s3 else s3)" by simp
  note f2 = resume_fields [OF 2] and f3 = resume_fields [OF 3]
  have f1: "groups s1 = groups s" "j \<noteq> i \<Longrightarrow> bevs s1 j = bevs s j" "runs_ok (bevs s1 i)"
    "flagged k w (bevs s1 i) = flagged k w (bevs s i)" for j k w
    using sound_bevD(1) [OF assms(1)] by (simp_all add: s1_def)
  obtain r3 where r3: "rl (bevs s3 i) = Some r3" "cfg r3 = cfg r" "group r3 = group r"
    using r by (simp add: f3(3) f2(3) s1_def rl_del_refill)
  have flag: "flagged BEV_SUSPEND_BW w (bevs s3 i) \<Longrightarrow> a3" for w
    using f3(6) f3(7) [of False] f2(6) f3(8) by (cases w) auto
  show ?thesis
  proof (rule only_bev_inv [OF assms(1)])
    have "member_of g (bevs s' i) = member_of g (bevs s i)" for g
      using r r3 by (auto simp: s' member_of_def add_refill_def)
    moreover have "groups s' = groups s" using f1 f2 f3 by (auto simp: s')
    moreover have "bevs s' j = bevs s j" if "j \<noteq> i" for j using f1 f2 f3 that by (auto simp: s')
    ultimately show "only_bev i s s'" by (simp add: only_bev_def)
    have "timer_wakes (bevs s' i)" if "flagged BEV_SUSPEND_BW w (bevs s' i)" for w
      using that flag [of w] r r3 by (auto simp: s' split: if_splits intro: add_refill_fields(7))
    then show "sound_bev s (bevs s' i)"
      using f1 f2 f3 \<open>\<And>g. member_of g (bevs s' i) = member_of g (bevs s i)\<close>
      by (intro sound_bevI [OF assms(1), of _ i]) (auto simp: s')
  qed
qed


lemma suspend_by_limit_fields:
  assumes "suspend_by_limit w i s = (s', a)"
  shows "groups s' = groups s" "j \<noteq> i \<Longrightarrow> bevs s' j = bevs s j" "rl (bevs s' i) = rl (bevs s i)"
    "runs_ok (bevs s i) \<Longrightarrow> runs_ok (bevs s' i)" "flagged BEV_SUSPEND_BW_GROUP v (bevs s' i) = flagged BEV_SUSPEND_BW_GROUP v (bevs s i)"
    "flagged BEV_SUSPEND_BW w (bevs s' i) = a" "v \<noteq> w \<Longrightarrow> flagged BEV_SUSPEND_BW v (bevs s' i) = flagged BEV_SUSPEND_BW v (bevs s i)"
proof -
  have c: "s' = upd_bev i (bev_unsuspend w BEV_SUSPEND_BW) s \<and> \<not> a \<or> s' = upd_bev i (bev_suspend w BEV_SUSPEND_BW) s \<and> a"
    using assms by (auto simp: suspend_by_limit_def split: if_splits)
  then show "groups s' = groups s" "j \<noteq> i \<Longrightarrow> bevs s' j = bevs s j" "rl (bevs s' i) = rl (bevs s i)"
    "runs_ok (bevs s i) \<Longrightarrow> runs_ok (bevs s' i)" "flagged BEV_SUSPEND_BW w (bevs s' i) = a"
    "v \<noteq> w \<Longrightarrow> flagged BEV_SUSPEND_BW v (bevs s' i) = flagged BEV_SUSPEND_BW v (bevs s i)"
    by auto
  show "flagged BEV_SUSPEND_BW_GROUP v (bevs s' i) = flagged BEV_SUSPEND_BW_GROUP v (bevs s i)"
    using c by (cases "v = w") auto
qed

lemma rl_set [simp]:
  "flagged k w (b\<lparr>rl := x\<rparr>) = flagged k w b" "runs_ok (b\<lparr>rl := x\<rparr>) = runs_ok b"
  by (simp_all add: flagged_def suspended_def runs_ok_def running_def)

lemma new_rl_inv:
  assumes "rl_inv s" "rl (bevs s i) = None"
  shows "rl_inv (upd_bev i (\<lambda>b. b\<lparr>rl := Some no_limits\<rparr>) s)"
proof (rule only_bev_inv [OF assms(1)])
  show "only_bev i s (upd_bev i (\<lambda>b. b\<lparr>rl := Some no_limits\<rparr>) s)"
    using assms(2) by (simp add: member_of_def no_limits_def)
  have "\<not> timer_wakes (bevs s i)" "\<not> group_wakes s w (bevs s i)" for w
    using assms(2) by (auto simp: timer_wakes_def group_wakes_def member_of_def)
  then have "\<not> flagged BEV_SUSPEND_BW w (bevs s i)" "\<not> flagged BEV_SUSPEND_BW_GROUP w (bevs s i)" for w
    using sound_bevD(2,3) [OF assms(1)] by blast+
  then show "sound_bev s (bevs (upd_bev i (\<lambda>b. b\<lparr>rl := Some no_limits\<rparr>) s) i)"
    using sound_bevD(1) [OF assms(1), of i]
    by (simp add: sound_bev_def)
qed

lemma clear_limit_inv:
  assumes "rl_inv s"
  shows "rl_inv (del_refill i (upd_bev i (bev_unsuspend True BEV_SUSPEND_BW \<circ> bev_unsuspend False BEV_SUSPEND_BW \<circ>
    upd_rl (\<lambda>r. r\<lparr>cfg := None\<rparr>)) s))" (is "rl_inv ?s'")
proof (rule only_bev_inv [OF assms])
  show "only_bev i s ?s'" by (simp add: only_bev_def)
  have "\<not> flagged BEV_SUSPEND_BW w (bevs ?s' i)" "flagged BEV_SUSPEND_BW_GROUP w (bevs ?s' i) = flagged BEV_SUSPEND_BW_GROUP w (bevs s i)" for w
    by (cases w; simp)+
  then show "sound_bev s (bevs ?s' i)"
    using sound_bevD(1) [OF assms] by (intro sound_bevI [OF assms, of _ i]) auto
qed

lemma set_limit_inv:
  assumes "rl_inv s" "rl (bevs s i) = Some r"
    and "suspend_by_limit False i (upd_bev i (upd_rl (with_limit a c tick)) s) = (s1, sr)" "suspend_by_limit True i s1 = (s2, sw)"
  shows "rl_inv (if sr \<or> sw then add_refill True i s2 else s2)" (is "rl_inv ?s'")
proof (rule only_bev_inv [OF assms(1)])
  note f1 = suspend_by_limit_fields [OF assms(3)] and f2 = suspend_by_limit_fields [OF assms(4)]
  have r2: "rl (bevs s2 i) = Some (with_limit a c tick r)" using assms(2) by (simp add: f2(3) f1(3))
  then have "member_of g (bevs ?s' i) = member_of g (bevs s i)" for g
    using assms(2) by (auto simp: member_of_def with_limit_def add_refill_def)
  then show "only_bev i s ?s'" using f1 f2 by (auto simp: only_bev_def)
  have flag: "flagged BEV_SUSPEND_BW w (bevs s2 i) \<longleftrightarrow> (if w then sw else sr)" for w
    using f1(6) f2(6) f2(7) [of False] by (cases w) auto
  have "timer_wakes (bevs ?s' i)" if "flagged BEV_SUSPEND_BW w (bevs ?s' i)" for w
    using that flag [of w] r2 by (auto simp: with_limit_def split: if_splits intro: add_refill_fields(7))
  then show "sound_bev s (bevs ?s' i)"
    using f1 f2 sound_bevD(1) [OF assms(1)] \<open>\<And>g. member_of g (bevs ?s' i) = member_of g (bevs s i)\<close>
    by (intro sound_bevI [OF assms(1), of _ i]) auto
qed

lemma set_rate_limit_inv:
  assumes "rl_inv s" "bufferevent_set_rate_limit mem True i c s = Some (res, s')"
  shows "rl_inv s'"
proof (cases c)
  case None
  then show ?thesis using assms clear_limit_inv [OF assms(1)] by (auto simp: bufferevent_set_rate_limit_def)
next
  case (Some ac)
  obtain a d where d: "ac = (a, d)" by (cases ac)
  define s0 where "s0 = (if rl (bevs s i) = None then upd_bev i (\<lambda>b. b\<lparr>rl := Some no_limits\<rparr>) s else s)"
  have s0: "rl_inv s0" "\<exists>r. rl (bevs s0 i) = Some r"
    using assms(1) new_rl_inv [OF assms(1)] by (auto simp: s0_def)
  then obtain r where r: "rl (bevs s0 i) = Some r" by auto
  have "rl_inv (apply_limit True i a d tick s0)" for tick
    using set_limit_inv [OF s0(1) r, of a d tick] by (simp add: apply_limit_def split: prod.split)
  then show ?thesis
    using assms unfolding Some d s0_def
    by (cases "rl (bevs s i)") (auto simp: bufferevent_set_rate_limit_def bind_eq_Some_conv split: if_split_asm)
qed

section \<open>Members come and go\<close>

lemma enable_disable_inv:
  assumes "rl_inv s"
  shows "rl_inv (upd_bev i (bufferevent_enable r w) s)" "rl_inv (upd_bev i (bufferevent_disable r w) s)"
proof -
  have one: "rl (enable_one v b) = rl b" "rl (disable_one v b) = rl b" "suspended u (enable_one v b) = suspended u b"
    "suspended u (disable_one v b) = suspended u b" "runs_ok b \<Longrightarrow> runs_ok (enable_one v b)" "runs_ok b \<Longrightarrow> runs_ok (disable_one v b)" for u v b
    by (auto simp: enable_one_def disable_one_def Let_def suspended_def set_running_def runs_ok_def running_def all_bool_eq)
  have same: "rl (bufferevent_enable r w b) = rl b" "rl (bufferevent_disable r w b) = rl b"
    "suspended u (bufferevent_enable r w b) = suspended u b" "suspended u (bufferevent_disable r w b) = suspended u b"
    "runs_ok b \<Longrightarrow> runs_ok (bufferevent_enable r w b)" "runs_ok b \<Longrightarrow> runs_ok (bufferevent_disable r w b)" for u b
    by (simp_all add: bufferevent_enable_def bufferevent_disable_def Let_def one)
  have "member_of g (h b) = member_of g b" "flagged k u (h b) = flagged k u b" "timer_wakes (h b) = timer_wakes b"
    if "h = bufferevent_enable r w \<or> h = bufferevent_disable r w" for g k u b h
    using that same by (auto simp: member_of_def flagged_def timer_wakes_def)
  then show "rl_inv (upd_bev i (bufferevent_enable r w) s)" "rl_inv (upd_bev i (bufferevent_disable r w) s)"
    using sound_bevD(1,2) [OF assms] same
    by (auto intro!: only_bev_inv [OF assms, of i] sound_bevI [OF assms, of _ i])
qed


lemma remove_from_group_fields:
  assumes "rl_inv s" "s' = remove_from_group i True s"
  shows "j \<noteq> i \<Longrightarrow> bevs s' j = bevs s j" "\<not> member_of g (bevs s' i)" "timer_wakes (bevs s' i) = timer_wakes (bevs s i)"
    "runs_ok (bevs s' i)" "\<not> flagged BEV_SUSPEND_BW_GROUP w (bevs s' i)" "flagged BEV_SUSPEND_BW w (bevs s' i) = flagged BEV_SUSPEND_BW w (bevs s i)"
    "members (groups s' g) = remove1 i (members (groups s g))"
    "n_members (groups s' g) = (if i \<in> set (members (groups s g)) then n_members (groups s g) - 1 else n_members (groups s g))"
    "g_suspended w (groups s' g) = g_suspended w (groups s g)" "pending_unsuspend w (groups s' g) = pending_unsuspend w (groups s g)"
    "rl (bevs s i) = Some r \<Longrightarrow> rl (bevs s' i) = Some (r\<lparr>group := None\<rparr>)"
proof -
  have m: "i \<in> set (members (groups s g)) \<longleftrightarrow> member_of g (bevs s i)" for g by (rule sound_groupD [OF assms(1)])
  have rm: "remove1 i (members (groups s g)) = members (groups s g)" if "\<not> member_of g (bevs s i)" for g
    using that m by (simp add: remove1_idem)
  show "j \<noteq> i \<Longrightarrow> bevs s' j = bevs s j"
    unfolding assms(2) by (auto simp: remove_from_group_def Let_def split: option.splits)
  show "\<not> member_of g (bevs s' i)" "timer_wakes (bevs s' i) = timer_wakes (bevs s i)"
    unfolding assms(2) by (auto simp: remove_from_group_def Let_def member_of_def timer_wakes_def split: option.splits)
  show "runs_ok (bevs s' i)" using sound_bevD(1) [OF assms(1), of i]
    unfolding assms(2) by (auto simp: remove_from_group_def Let_def split: option.splits)
  show "\<not> flagged BEV_SUSPEND_BW_GROUP w (bevs s' i)" "flagged BEV_SUSPEND_BW w (bevs s' i) = flagged BEV_SUSPEND_BW w (bevs s i)"
    unfolding assms(2) by (cases w; simp add: remove_from_group_def Let_def split: option.split)+
  show "members (groups s' g) = remove1 i (members (groups s g))"
    "n_members (groups s' g) = (if i \<in> set (members (groups s g)) then n_members (groups s g) - 1 else n_members (groups s g))"
    using rm [of g] m [of g] unfolding assms(2)
    by (auto simp: remove_from_group_def Let_def member_of_def split: option.splits)
  show "g_suspended w (groups s' g) = g_suspended w (groups s g)" "pending_unsuspend w (groups s' g) = pending_unsuspend w (groups s g)"
    unfolding assms(2) by (auto simp: remove_from_group_def Let_def g_suspended_def pending_unsuspend_def split: option.splits)
  show "rl (bevs s i) = Some r \<Longrightarrow> rl (bevs s' i) = Some (r\<lparr>group := None\<rparr>)"
    unfolding assms(2) by (cases r) (auto simp: remove_from_group_def Let_def split: option.splits)
qed

lemma remove_from_group_inv:
  assumes "rl_inv s"
  shows "rl_inv (remove_from_group i True s)" (is "rl_inv ?s'")
proof -
  note f = remove_from_group_fields [OF assms refl, where i = i]
  have m: "member_of g (bevs ?s' j) \<longleftrightarrow> j \<noteq> i \<and> member_of g (bevs s j)" for g j
    using f(1) f(2) by (cases "j = i") auto
  have "int (length (members (groups s g)) - 1) = int (length (members (groups s g))) - 1" if "member_of g (bevs s i)" for g
    using that sound_groupD(3) [OF assms, of i g] by (cases "members (groups s g)") auto
  then have "sound_group ?s' g" for g
    using sound_groupD [OF assms, where g = g] by (auto simp: sound_group_def f(7,8) m length_remove1)
  moreover have "sound_bev ?s' (bevs ?s' j)" for j
  proof (cases "j = i")
    case True
    then show ?thesis using f sound_bevD [OF assms, where i = i] by (auto simp: sound_bev_def)
  next
    case False
    then show ?thesis
      using f(1) [OF False] sound_bevD [OF assms, where i = j] by (auto simp: sound_bev_def group_wakes_def f(9,10))
  qed
  ultimately show ?thesis by (simp add: rl_inv_def)
qed


lemma join_group_inv:
  assumes "rl_inv s" "\<forall>h. \<not> member_of h (bevs s i)" "rl (bevs s i) = Some r"
  shows "rl_inv (join_group i g s)"
proof -
  define s1 where "s1 = upd_group g (\<lambda>x. x\<lparr>n_members := n_members x + 1, members := members x @ [i]\<rparr>)
    (upd_bev i (upd_rl (\<lambda>r. r\<lparr>group := Some g\<rparr>)) s)"
  have m: "member_of h (bevs s1 j) \<longleftrightarrow> (if j = i then h = g else member_of h (bevs s j))" for h j
    using assms(3) by (auto simp: s1_def member_of_def)
  have gf: "members (groups s1 h) = members (groups s h) @ (if h = g then [i] else [])"
    "n_members (groups s1 h) = n_members (groups s h) + (if h = g then 1 else 0)"
    "g_suspended w (groups s1 h) = g_suspended w (groups s h)" "pending_unsuspend w (groups s1 h) = pending_unsuspend w (groups s h)" for h w
    by (simp_all add: s1_def g_suspended_def pending_unsuspend_def)
  have "sound_group s1 h" for h
    using sound_groupD [OF assms(1), where g = h] assms(2) by (auto simp: sound_group_def gf m)
  moreover have "sound_bev s1 (bevs s1 j)" for j
  proof (cases "j = i")
    case True
    have "\<not> flagged BEV_SUSPEND_BW_GROUP w (bevs s i)" for w
      using sound_bevD(3) [OF assms(1), of w i] assms(2) by (auto simp: group_wakes_def)
    moreover have "timer_wakes (bevs s1 i) = timer_wakes (bevs s i)" using assms(3) by (simp add: s1_def timer_wakes_def)
    ultimately show ?thesis
      using True sound_bevD(1,2) [OF assms(1)] by (auto simp: sound_bev_def s1_def)
  next
    case False
    then have "bevs s1 j = bevs s j" by (simp add: s1_def)
    then show ?thesis using sound_bevD [OF assms(1), where i = j] by (auto simp: sound_bev_def group_wakes_def gf)
  qed
  ultimately have inv: "rl_inv s1" by (simp add: rl_inv_def)
  define s2 where "s2 = (if g_suspended False (groups s1 g) then upd_bev i (bev_suspend False BEV_SUSPEND_BW_GROUP) s1 else s1)"
  have "member_of g (bevs s1 i)" by (simp add: m)
  then have "rl_inv s2" "member_of g (bevs s2 i)" "groups s2 = groups s1"
    using suspend_group_flag_inv [OF inv] inv by (auto simp: s2_def)
  then have "rl_inv (if g_suspended True (groups s2 g) then upd_bev i (bev_suspend True BEV_SUSPEND_BW_GROUP) s2 else s2)"
    using suspend_group_flag_inv [of s2 g i True] by simp
  then show ?thesis by (simp only: join_group_def Let_def s1_def [symmetric] s2_def [symmetric])
qed

lemma add_to_group_inv:
  assumes "rl_inv s"
  shows "rl_inv (snd (add_to_group mem i g s))"
proof -
  define s0 where "s0 = (if rl (bevs s i) = None then upd_bev i (\<lambda>b. b\<lparr>rl := Some no_limits\<rparr>) s else s)"
  have s0: "rl_inv s0" "\<exists>r. rl (bevs s0 i) = Some r"
    using assms new_rl_inv [OF assms] by (auto simp: s0_def)
  then obtain r where r: "rl (bevs s0 i) = Some r" by auto
  have "rl_inv (join_group i g s0)" if "group r = None"
    by (rule join_group_inv [OF s0(1) _ r]) (use r that in \<open>auto simp: member_of_def\<close>)
  moreover have "rl_inv (join_group i g (remove_from_group i True s0))"
    by (rule join_group_inv [OF remove_from_group_inv [OF s0(1)]])
      (use remove_from_group_fields(2,11) [OF s0(1) refl, where i = i] r in auto)
  ultimately have "rl_inv (snd (case group r of None \<Rightarrow> (0 :: int, join_group i g s0)
      | Some g' \<Rightarrow> if g' = g then (0, s0) else (0, join_group i g (remove_from_group i True s0))))"
    using s0(1) by (cases "group r") auto
  then show ?thesis using assms r by (auto simp: add_to_group_def Let_def s0_def [symmetric])
qed

section \<open>Every run\<close>

text \<open>
  What programs and the event loop do to bufferevents and groups; \<open>event_add\<close> succeeds. The timer of
  a bufferevent runs only where it is pending; a group is made anew only where it has no members.
\<close>

inductive rl_step :: "rl_world \<Rightarrow> rl_world \<Rightarrow> bool" where
  tick: "rl_step s (s\<lparr>time := t\<rparr>)"
| set_limit: "bufferevent_set_rate_limit mem True i c s = Some (res, s') \<Longrightarrow> rl_step s s'"
| get_max: "bufferevent_get_rlim_max i w s = Some (m, s') \<Longrightarrow> rl_step s s'"
| get_limit: "bufferevent_get_limit w i s = Some (m, s') \<Longrightarrow> rl_step s s'"
| used: "rl_step s (snd (bufferevent_decrement_buckets w True t rnd i n s))"
| used_limit: "bufferevent_decrement_limit w True i n s = Some (res, s') \<Longrightarrow> rl_step s s'"
| used_group: "rl_step s (group_decrement w t rnd g n s)"
| timer: "timer_wakes (bevs s i) \<Longrightarrow> bev_refill_callback True i s = Some s' \<Longrightarrow> rl_step s s'"
| group_timer: "bev_group_refill_callback tr tw rnd1 rnd2 g s = Some s' \<Longrightarrow> rl_step s s'"
| new_group: "members (groups s g) = [] \<Longrightarrow> rate_limit_group_new (time s) c = Some x \<Longrightarrow> rl_step s (upd_group g (\<lambda>_. x) s)"
| group_cfg: "rl_step s (upd_group g (group_set_cfg c) s)"
| group_share: "rl_step s (upd_group g (snd \<circ> group_set_min_share v) s)"
| reset_totals: "rl_step s (upd_group g group_reset_totals s)"
| join: "rl_step s (snd (add_to_group mem i g s))"
| leave: "rl_step s (remove_from_group i True s)"
| enable: "rl_step s (upd_bev i (bufferevent_enable r w) s)"
| disable: "rl_step s (upd_bev i (bufferevent_disable r w) s)"

definition rl_start :: "rl_world \<Rightarrow> bool" where
  "rl_start s \<longleftrightarrow> (\<forall>i. rl (bevs s i) = None \<and> read_suspended (bevs s i) = 0 \<and> write_suspended (bevs s i) = 0) \<and>
     (\<forall>g. members (groups s g) = [] \<and> n_members (groups s g) = 0)"

inductive rl_reachable :: "rl_world \<Rightarrow> bool" where
  start: "rl_start s \<Longrightarrow> rl_reachable s"
| step: "rl_reachable s \<Longrightarrow> rl_step s s' \<Longrightarrow> rl_reachable s'"

lemma rl_start_inv: "rl_start s \<Longrightarrow> rl_inv s"
  by (auto simp: rl_start_def rl_inv_def sound_group_def sound_bev_def runs_ok_def flagged_def suspended_def member_of_def)

lemma new_group_inv:
  assumes "rl_inv s" "members (groups s g) = []" "members x = []" "n_members x = 0"
  shows "rl_inv (upd_group g (\<lambda>_. x) s)" (is "rl_inv ?s'")
proof -
  have none: "\<not> member_of g (bevs s i)" for i using sound_groupD(3) [OF assms(1), of i g] assms(2) by simp
  have "sound_group ?s' h" for h using sound_groupD [OF assms(1), where g = h] assms(3,4) none by (auto simp: sound_group_def)
  moreover have "group_wakes ?s' w (bevs s i) = group_wakes s w (bevs s i)" for w i
    unfolding group_wakes_def using none by (metis fun_upd_other world_fields(4))
  then have "sound_bev ?s' (bevs ?s' i)" for i using sound_bevD [OF assms(1), where i = i] by (auto simp: sound_bev_def)
  ultimately show ?thesis by (simp add: rl_inv_def)
qed

lemma rl_step_inv:
  assumes "rl_step s s'" "rl_inv s"
  shows "rl_inv s'"
  using assms
proof cases
  case (tick t)
  have "rl_inv (s\<lparr>time := t\<rparr>) = rl_inv s"
    by (simp add: rl_inv_def sound_group_def sound_bev_def group_wakes_def)
  then show ?thesis using assms(2) tick by simp
next
  case (new_group g c x)
  have "members x = []" "n_members x = 0"
    using new_group(3) by (auto simp: rate_limit_group_new_def bind_eq_Some_conv group_set_min_share_def Let_def split: if_splits)
  then show ?thesis using new_group assms(2) new_group_inv by blast
next
  case (group_cfg g c)
  then show ?thesis using assms(2) set_cfg_same by (auto intro!: same_flags_inv)
next
  case (group_share g v)
  then show ?thesis using assms(2) min_share_same by (auto intro!: same_flags_inv)
next
  case (reset_totals g)
  then show ?thesis using assms(2) reset_totals_same by (auto intro!: same_flags_inv)
next
  case set_limit then show ?thesis using set_rate_limit_inv assms(2) by blast
next
  case get_max then show ?thesis using rlim_max_inv assms(2) by blast
next
  case get_limit then show ?thesis using get_limit_inv assms(2) by blast
next
  case used then show ?thesis using decrement_buckets_inv assms(2) by simp
next
  case used_limit then show ?thesis using decrement_limit_inv assms(2) by blast
next
  case used_group then show ?thesis using group_decrement_inv assms(2) by simp
next
  case timer then show ?thesis using bev_refill_inv assms(2) by blast
next
  case group_timer then show ?thesis using group_refill_inv assms(2) by blast
next
  case join then show ?thesis using add_to_group_inv assms(2) by simp
next
  case leave then show ?thesis using remove_from_group_inv assms(2) by simp
next
  case enable then show ?thesis using enable_disable_inv(1) assms(2) by simp
next
  case disable then show ?thesis using enable_disable_inv(2) assms(2) by simp
qed

lemma rl_reachable_inv: "rl_reachable s \<Longrightarrow> rl_inv s"
  by (induction rule: rl_reachable.induct) (auto intro: rl_start_inv rl_step_inv)


text \<open>
  Property C12: who is stopped has something that wakes it up. In every state that the operations reach,
  no bufferevent reads or writes while a reason to stop is set; one that is stopped by its own bucket
  has its refill timer pending; one that is stopped by its group is a member of that group, which is
  suspended itself, so that its next tick resumes it, or remembers that it must try again; and the
  number of members a group keeps, by which the shares are computed, is that of its list.
\<close>

theorem stopped_can_go_on:
  assumes "rl_reachable s"
  shows "\<forall>i w. let b = bevs s i in
      (running w b \<longrightarrow> suspended w b = 0) \<and>
      (suspended w b AND BEV_SUSPEND_BW \<noteq> 0 \<longrightarrow> (\<exists>r. rl b = Some r \<and> cfg r \<noteq> None \<and> refill_event r \<noteq> None)) \<and>
      (suspended w b AND BEV_SUSPEND_BW_GROUP \<noteq> 0 \<longrightarrow>
         (\<exists>g. i \<in> set (members (groups s g)) \<and> (g_suspended w (groups s g) \<or> pending_unsuspend w (groups s g)))) \<and>
      (\<forall>g. n_members (groups s g) = int (length (members (groups s g))) \<and> distinct (members (groups s g)))"
proof -
  note inv = rl_reachable_inv [OF assms]
  have "running w (bevs s i) \<Longrightarrow> suspended w (bevs s i) = 0"
    "suspended w (bevs s i) AND BEV_SUSPEND_BW \<noteq> 0 \<Longrightarrow> \<exists>r. rl (bevs s i) = Some r \<and> cfg r \<noteq> None \<and> refill_event r \<noteq> None"
    "suspended w (bevs s i) AND BEV_SUSPEND_BW_GROUP \<noteq> 0 \<Longrightarrow>
       \<exists>g. i \<in> set (members (groups s g)) \<and> (g_suspended w (groups s g) \<or> pending_unsuspend w (groups s g))" for i w
    using sound_bevD(1) [OF inv, where i = i] sound_bevD(2,3) [OF inv, where i = i and w = w] sound_groupD(3) [OF inv]
    by (auto simp: runs_ok_def flagged_def timer_wakes_def group_wakes_def)
  then show ?thesis using sound_groupD(1,2) [OF inv] unfolding Let_def by blast
qed

definition idle_group :: rl_group where
  "idle_group = \<lparr>members = [], rate_limit = \<lparr>read_limit = 0, write_limit = 0, last_updated = 0\<rparr>,
     rate_limit_cfg = \<lparr>read_rate = 100, read_maximum = 200, write_rate = 100, write_maximum = 200, tick_timeout = (1, 0), msec_per_tick = 1000\<rparr>,
     g_read_suspended = False, g_write_suspended = False, pending_unsuspend_read = False, pending_unsuspend_write = False,
     total_read = 0, total_written = 0, n_members = 0, min_share = 64, configured_min_share = 64, master_refill = (1, 0)\<rparr>"

definition idle_world :: rl_world where
  "idle_world = \<lparr>bevs = (\<lambda>_. \<lparr>read_enabled = True, write_enabled = True, read_suspended = 0, write_suspended = 0,
     reading = True, writing = False, rl = None\<rparr>), groups = (\<lambda>_. idle_group), time = (0, 0)\<rparr>"

lemma idle_reachable: "rl_reachable idle_world"
  by (rule rl_reachable.start) (simp add: rl_start_def idle_world_def idle_group_def)

text \<open>A group of one gets 200 bytes and gives 300: its member is stopped for reading.\<close>

definition busy_world :: rl_world where
  "busy_world = group_decrement False (\<lambda>_. True) 0 0 300
     (group_decrement False (\<lambda>_. True) 0 0 (- 200) (snd (add_to_group True 7 0 idle_world)))"

lemma busy_reachable: "rl_reachable busy_world"
  unfolding busy_world_def
  by (rule rl_reachable.step [OF _ rl_step.used_group], rule rl_reachable.step [OF _ rl_step.used_group],
      rule rl_reachable.step [OF _ rl_step.join], rule idle_reachable)

lemma busy_stopped: "suspended False (bevs busy_world 7) AND BEV_SUSPEND_BW_GROUP \<noteq> 0"
  by code_simp

theorem stopped_can_go_on_witness:
  "suspended False (bevs busy_world 7) AND BEV_SUSPEND_BW_GROUP \<noteq> 0 \<and> \<not> running False (bevs busy_world 7) \<and>
   (\<exists>g. 7 \<in> set (members (groups busy_world g)) \<and> (g_suspended False (groups busy_world g) \<or> pending_unsuspend False (groups busy_world g)))"
proof -
  note t = stopped_can_go_on [OF busy_reachable, rule_format, of 7 False]
  have "suspended False (bevs busy_world 7) \<noteq> 0" using busy_stopped by auto
  then show ?thesis using t busy_stopped unfolding Let_def by blast
qed

section \<open>A suspended group goes on\<close>

lemma share_for_le: "share_for v c \<le> rate w c"
  by (auto simp: share_for_def rate_def Let_def not_less)

lemma share_small:
  assumes "sound_cfg c"
  shows "sint (share_for v c) = uint (share_for v c)" "uint (share_for v c) \<le> uint (maximum w c)"
proof -
  have "uint (share_for v c) \<le> uint (rate w c)" for w using share_for_le by (simp add: word_le_def)
  moreover have "uint (rate w c) \<le> uint (maximum w c)" "uint (maximum w c) < 2 ^ 63" for w
    using assms by (auto simp: sound_cfg_def)
  ultimately show "uint (share_for v c) \<le> uint (maximum w c)" "sint (share_for v c) = uint (share_for v c)"
    by (meson order_trans order_le_less_trans sint_small)+
qed

lemma unsuspend_all:
  assumes "rl_inv s"
  shows "\<not> g_suspended w (groups (bev_group_unsuspend w (\<lambda>_. True) rnd g s) g)"
    "\<not> pending_unsuspend w (groups (bev_group_unsuspend w (\<lambda>_. True) rnd g s) g)"
  using group_unsuspend_fields [OF sound_groupD(1) [OF assms], of w "\<lambda>_. True" rnd g] by (simp_all add: list_ex_iff)

lemma group_wakes_member:
  assumes "rl_inv s" "i \<in> set (members (groups s g))" "\<not> g_suspended w (groups s g)" "\<not> pending_unsuspend w (groups s g)"
  shows "\<not> flagged BEV_SUSPEND_BW_GROUP w (bevs s i)"
  using assms sound_bevD(3) [OF assms(1), of w i] sound_groupD(3) [OF assms(1), of i g]
  by (auto simp: group_wakes_def dest: member_of_unique)

text \<open>
  Property C13: a group that is suspended goes on. When its master timer runs after so many ticks that
  the bucket of the group has at least its smallest share again, and all members can be locked, the
  group is no longer suspended, nothing is left to try again, and no member is stopped by the group,
  for reading and for writing. The share is one that \<open>bufferevent_rate_limit_group_set_min_share\<close>
  made, so the maximum never lies below it and enough ticks always exist.
\<close>

theorem group_resumes:
  assumes "rl_reachable s" "x = groups s g"
    and "ev_token_bucket_cfg_new r rb w wb tlen mem = Some (rate_limit_cfg x)" "min_share x = share_for v (rate_limit_cfg x)"
    and "ev_token_bucket_get_tick (time s) (rate_limit_cfg x) = Some tick" "n = tick - last_updated (rate_limit x)"
    and "0 < n" "uint n \<le> 2 ^ 31 - 1"
    and "\<forall>w. sint (lim_of w (rate_limit x)) \<le> uint (maximum w (rate_limit_cfg x))"
    and "\<forall>w. uint (min_share x) \<le> sint (lim_of w (rate_limit x)) + uint n * uint (rate w (rate_limit_cfg x))"
  shows "\<exists>s'. bev_group_refill_callback (\<lambda>_. True) (\<lambda>_. True) rnd1 rnd2 g s = Some s' \<and>
    (\<forall>w. \<not> g_suspended w (groups s' g) \<and> \<not> pending_unsuspend w (groups s' g) \<and>
       (\<forall>i \<in> set (members x). suspended w (bevs s' i) AND BEV_SUSPEND_BW_GROUP = 0))"
proof -
  let ?c = "rate_limit_cfg x"
  define s1 where "s1 = upd_group g (\<lambda>x. x\<lparr>rate_limit := fst (ev_token_bucket_update (rate_limit x) (rate_limit_cfg x) tick)\<rparr>) s"
  define s2 where "s2 = (if pending_unsuspend False (groups s1 g) \<or> g_suspended False (groups s1 g) then bev_group_unsuspend False (\<lambda>_. True) rnd1 g s1 else s1)"
  define s3 where "s3 = (if pending_unsuspend True (groups s2 g) \<or> g_suspended True (groups s2 g) then bev_group_unsuspend True (\<lambda>_. True) rnd2 g s2 else s2)"
  have inv: "rl_inv s1"
    unfolding s1_def by (rule same_flags_inv [OF rl_reachable_inv [OF assms(1)]]) (rule same_flags_intro; simp)
  have inv2: "rl_inv s2" using inv by (simp add: s2_def group_unsuspend_inv)
  have inv3: "rl_inv s3" using inv2 by (simp add: s3_def group_unsuspend_inv)
  have sound: "sound_cfg ?c" by (rule cfg_new_sound [OF assms(3)])
  have m: "uint (maximum w ?c) < 2 ^ 63" for w using sound by (simp add: sound_cfg_def)
  obtain b' where "ev_token_bucket_update (rate_limit x) ?c tick = (b', True)"
    "\<forall>w. sint (lim_of w b') = naive_refill ?c (uint n) w (sint (lim_of w (rate_limit x)))"
    using bucket_refill_sound [OF sound] assms(6-9) by blast
  moreover have "uint (min_share x) \<le> naive_refill ?c (uint n) w (sint (lim_of w (rate_limit x)))" for w
    using assms(10) share_small(2) [OF sound, of v w] by (simp add: naive_refill_def assms(4))
  ultimately have enough: "sint (min_share (groups s1 g)) \<le> sint (lim_of w (rate_limit (groups s1 g)))" for w
    using share_small(1) [OF sound, of v] by (simp add: s1_def assms(2) [symmetric] assms(4))
  have same: "min_share (groups s2 g) = min_share (groups s1 g)" "rate_limit (groups s2 g) = rate_limit (groups s1 g)"
    using group_unsuspend_fields(1) [OF sound_groupD(1) [OF inv], of False "\<lambda>_. True" rnd1]
    by (simp_all add: s2_def set_g_flags_def)
  have s2: "s2 = (if pending_unsuspend_read (groups s1 g) \<or> g_read_suspended (groups s1 g) \<and>
      sint (read_limit (rate_limit (groups s1 g))) \<ge> sint (min_share (groups s1 g)) then bev_group_unsuspend False (\<lambda>_. True) rnd1 g s1 else s1)"
    using enough [of False] by (simp add: s2_def g_suspended_def pending_unsuspend_def lim_of_def)
  have s3: "s3 = (if pending_unsuspend_write (groups s2 g) \<or> g_write_suspended (groups s2 g) \<and>
      sint (write_limit (rate_limit (groups s2 g))) \<ge> sint (min_share (groups s2 g)) then bev_group_unsuspend True (\<lambda>_. True) rnd2 g s2 else s2)"
    using enough [of True] same by (simp add: s3_def g_suspended_def pending_unsuspend_def lim_of_def)
  have "bev_group_refill_callback (\<lambda>_. True) (\<lambda>_. True) rnd1 rnd2 g s = Some s3"
    unfolding bev_group_refill_callback_def assms(2) [symmetric] assms(5)
    by (simp only: bind.bind_lunit Let_def s1_def [symmetric] s2 [symmetric] s3 [symmetric])
  moreover have "\<not> g_suspended w (groups s3 g) \<and> \<not> pending_unsuspend w (groups s3 g)" for w
  proof -
    have "\<not> g_suspended False (groups s2 g) \<and> \<not> pending_unsuspend False (groups s2 g)"
      using unsuspend_all [OF inv, of False rnd1 g] by (simp add: s2_def)
    moreover have "g_suspended False (groups s3 g) = g_suspended False (groups s2 g)"
      "pending_unsuspend False (groups s3 g) = pending_unsuspend False (groups s2 g)"
      using group_unsuspend_fields(1) [OF sound_groupD(1) [OF inv2], of True "\<lambda>_. True" rnd2] by (simp_all add: s3_def)
    ultimately show ?thesis using unsuspend_all [OF inv2, of True rnd2 g] by (cases w) (simp_all add: s3_def)
  qed
  moreover have "members (groups s3 g) = members x"
    using group_unsuspend_fields(1) [OF sound_groupD(1) [OF inv], of False "\<lambda>_. True" rnd1]
      group_unsuspend_fields(1) [OF sound_groupD(1) [OF inv2], of True "\<lambda>_. True" rnd2]
    by (auto simp: s3_def s2_def s1_def assms(2))
  ultimately show ?thesis using group_wakes_member [OF inv3, of _ g] by (auto simp: flagged_def)
qed

text \<open>After three ticks the group that gave 300 bytes goes on.\<close>

theorem group_resumes_witness:
  "\<exists>s'. bev_group_refill_callback (\<lambda>_. True) (\<lambda>_. True) 0 0 0 (busy_world\<lparr>time := (3, 0)\<rparr>) = Some s' \<and>
     suspended False (bevs s' 7) AND BEV_SUSPEND_BW_GROUP = 0"
proof -
  let ?s = "busy_world\<lparr>time := (3, 0)\<rparr>"
  have r: "rl_reachable ?s" by (rule rl_reachable.step [OF busy_reachable rl_step.tick])
  have c: "ev_token_bucket_cfg_new 100 200 100 200 (Some (1, 0)) True = Some (rate_limit_cfg (groups ?s 0))" by code_simp
  have m: "min_share (groups ?s 0) = share_for 64 (rate_limit_cfg (groups ?s 0))" by code_simp
  have t: "ev_token_bucket_get_tick (time ?s) (rate_limit_cfg (groups ?s 0)) = Some 3" by code_simp
  have n: "(3 :: u32) = 3 - last_updated (rate_limit (groups ?s 0))" by code_simp
  have l: "\<forall>w. sint (lim_of w (rate_limit (groups ?s 0))) \<le> uint (maximum w (rate_limit_cfg (groups ?s 0)))" by code_simp
  have e: "\<forall>w. uint (min_share (groups ?s 0)) \<le>
      sint (lim_of w (rate_limit (groups ?s 0))) + uint (3 :: u32) * uint (rate w (rate_limit_cfg (groups ?s 0)))" by code_simp
  obtain s' where "bev_group_refill_callback (\<lambda>_. True) (\<lambda>_. True) 0 0 0 ?s = Some s'"
    "\<forall>i \<in> set (members (groups ?s 0)). suspended False (bevs s' i) AND BEV_SUSPEND_BW_GROUP = 0"
    using group_resumes [OF r refl c m t n _ _ l e, of 0 0] by auto
  moreover have "7 \<in> set (members (groups ?s 0))" by code_simp
  ultimately show ?thesis by auto
qed

end
