(* ===== verification/AfnConfig.thy ===== *)
theory AfnConfig
  imports EvAddrProofs
begin

text \<open>
  The configuration file, \<open>AFN/common/YQConfig.cpp\<close>: sections in brackets, lines \<open>key=value\<close> in
  them, remarks that begin with \<open>#\<close>. A line is what \<open>fgets\<close> reads into 100 bytes, up to a zero byte if
  it has one. The branches of the source for values continued on the next line never run, since
  \<open>getkeyvalue\<close> never answers with a number below 1. \<open>None\<close> is a write or read outside an array on
  the stack, or the exception of \<open>std::string::replace\<close> that nothing catches.
\<close>

section \<open>Lines\<close>

fun fgets_take :: "nat \<Rightarrow> bytes \<Rightarrow> bytes" where
  "fgets_take 0 s = []"
| "fgets_take (Suc n) [] = []"
| "fgets_take (Suc n) (c # s) = (if c = 10 then [10] else c # fgets_take n s)"

definition next_line :: "bytes \<Rightarrow> bytes" where
  "next_line s = fgets_take 99 s"

text \<open>\<open>feof\<close> after a line was read: \<open>fgets\<close> looked behind the last byte.\<close>

definition at_eof :: "bytes \<Rightarrow> bytes \<Rightarrow> bool" where
  "at_eof chunk rest \<longleftrightarrow> rest = [] \<and> last chunk \<noteq> 10 \<and> length chunk < 99"

definition cstr :: "bytes \<Rightarrow> bytes" where
  "cstr s = takeWhile (\<lambda>c. c \<noteq> 0) s"

definition isgraph :: "u8 \<Rightarrow> bool" where
  "isgraph c \<longleftrightarrow> 33 \<le> unat c \<and> unat c \<le> 126"

definition isremark :: "bytes \<Rightarrow> bool" where
  "isremark line = (case dropWhile (\<lambda>c. \<not> isgraph c) line of [] \<Rightarrow> True | c # _ \<Rightarrow> c = 35)"

text \<open>\<open>isjoint\<close>: blanks, then one backslash.\<close>

fun isjoint_loop :: "nat \<Rightarrow> bytes \<Rightarrow> nat option" where
  "isjoint_loop sign [] = Some sign"
| "isjoint_loop sign (c # s) =
     (if c = 32 \<or> c = 9 then isjoint_loop (if sign < 1 then sign + 1 else sign) s
      else if c = 92 then (if sign > 0 then isjoint_loop (sign + 1) s else None)
      else None)"

definition isjoint :: "bytes \<Rightarrow> bool" where
  "isjoint line \<longleftrightarrow> isjoint_loop 0 line = Some 2"

text \<open>The name between the brackets; \<open>None\<close> is the result 0, and the array has \<open>seclen\<close> bytes.\<close>

definition last_graph :: "bytes \<Rightarrow> nat" where
  "last_graph line = length line - length (takeWhile (\<lambda>c. \<not> isgraph c) (rev line)) - 1"

definition getsection :: "bytes \<Rightarrow> nat \<Rightarrow> bytes option" where
  "getsection line seclen =
     (let start = length (takeWhile (\<lambda>c. \<not> isgraph c) line); fin = last_graph line
      in if start \<ge> length line then None
         else if line ! start \<noteq> 91 then None
         else if fin \<le> 1 then None
         else if line ! fin \<noteq> 93 then None
         else if fin - start < 2 then None
         else Some (take (seclen - 1) (take (fin - start - 1) (drop (start + 1) line))))"

definition getkeyname :: "bytes \<Rightarrow> nat \<Rightarrow> bytes" where
  "getkeyname line keylen = take (keylen - 1) (filter isgraph (takeWhile (\<lambda>c. c \<noteq> 61) line))"

text \<open>The value and the answer.\<close>

definition getkeyvalue :: "bytes \<Rightarrow> nat \<Rightarrow> bytes \<times> nat" where
  "getkeyvalue line valen =
     (let start = length (takeWhile (\<lambda>c. c \<noteq> 61) line)
      in if start = length line - 1 then ([], 1)
         else let v = take (valen - 1) (filter isgraph (drop (start + 1) line)) in (v, max 1 (length v)))"

text \<open>\<open>getkeyadd\<close>: the first word of a line that goes on with a value; negative where it is joined again.\<close>

definition getkeyadd :: "bytes \<Rightarrow> nat \<Rightarrow> bytes \<times> int" where
  "getkeyadd line valen =
     (let w = dropWhile (\<lambda>c. \<not> isgraph c) line; v = takeWhile (\<lambda>c. c \<noteq> 32 \<and> c \<noteq> 9) w; rest = drop (length v) w; k = take (valen - 1) v
      in if w = [] then ([], 0)
         else if rest = [] then (k, int (length k))
         else (k, if isjoint rest then - int (length k) else int (length k)))"

section \<open>Looking up a key\<close>

datatype conf = Failed int | Found (found_value: bytes) (line_pos: nat) (line_cnt: nat)

abbreviation LINE_LEN :: nat where "LINE_LEN \<equiv> 128"

lemma next_line_nonempty: "s \<noteq> [] \<Longrightarrow> next_line s \<noteq> []"
  by (cases s) (simp_all add: next_line_def numeral_eq_Suc)

function getconfig :: "bytes \<Rightarrow> bytes \<Rightarrow> bool \<Rightarrow> nat \<Rightarrow> bytes \<Rightarrow> conf" where
  "getconfig section key inside pos s =
     (if s = [] then Failed 3
      else let chunk = next_line s; line = cstr chunk; rest = drop (length chunk) s;
               inside' = (if isremark line then inside else inside \<or> getsection line LINE_LEN = Some section)
           in if \<not> isremark line \<and> inside \<and> getsection line LINE_LEN \<noteq> None then Failed 5
              else if \<not> isremark line \<and> inside \<and> getkeyname line LINE_LEN \<noteq> [] \<and> getkeyname line LINE_LEN = key then
                Found (fst (getkeyvalue line LINE_LEN)) (pos + length chunk - length line) (length line)
              else if at_eof chunk rest then Failed 5
              else getconfig section key inside' (pos + length chunk) rest)"
  by pat_completeness auto

termination
  by (relation "measure (\<lambda>(a, b, c, d, s). length s)") (auto simp: next_line_nonempty)

declare getconfig.simps [simp del]

text \<open>\<open>GetSectionItem\<close>: all keys of a section with their values, in order.\<close>

function section_items :: "bytes \<Rightarrow> bool \<Rightarrow> bytes \<Rightarrow> (bytes \<times> bytes) list" where
  "section_items section inside s =
     (if s = [] then []
      else let chunk = next_line s; line = cstr chunk; rest = drop (length chunk) s;
               inside' = (if isremark line then inside else inside \<or> getsection line LINE_LEN = Some section);
               more = (if at_eof chunk rest then [] else section_items section inside' rest)
           in if \<not> isremark line \<and> inside then
                if getsection line LINE_LEN \<noteq> None then []
                else if getkeyname line LINE_LEN \<noteq> [] then (getkeyname line LINE_LEN, fst (getkeyvalue line LINE_LEN)) # more
                else more
              else more)"
  by pat_completeness auto

termination
  by (relation "measure (\<lambda>(a, b, s). length s)") (auto simp: next_line_nonempty)

declare section_items.simps [simp del]

section \<open>The object\<close>

text \<open>\<open>stream\<close>, as what can be read from it, and \<open>FileData\<close>. Lines are appended to \<open>FileData\<close> as C strings.\<close>

record ini =
  stream :: "bytes option"
  file_data :: bytes

function file_lines :: "bytes \<Rightarrow> bytes" where
  "file_lines s = (if s = [] then [] else cstr (next_line s) @ file_lines (drop (length (next_line s)) s))"
  by pat_completeness auto

termination by (relation "measure length") (auto simp: next_line_nonempty)

declare file_lines.simps [simp del]

definition ini_load :: "bytes option \<Rightarrow> bytes \<Rightarrow> ini" where
  "ini_load f data =
     \<lparr>stream = f, file_data = (case f of None \<Rightarrow> data | Some s \<Rightarrow> if data = [] then file_lines s else data)\<rparr>"

definition TIniFile_new :: "bytes option \<Rightarrow> ini" where
  "TIniFile_new f = ini_load f []"

text \<open>\<open>Save\<close>: \<open>writable\<close> is whether the file can be opened for writing.\<close>

definition ini_save :: "bool \<Rightarrow> ini \<Rightarrow> ini" where
  "ini_save writable i = ini_load (if writable then Some (file_data i) else stream i) (file_data i)"

definition getconfigstr :: "bytes \<Rightarrow> bytes \<Rightarrow> ini \<Rightarrow> conf" where
  "getconfigstr section key i = (case stream i of None \<Rightarrow> Failed 2 | Some s \<Rightarrow> getconfig section key False 0 s)"

definition ReadString :: "ini \<Rightarrow> bytes \<Rightarrow> bytes \<Rightarrow> bytes \<Rightarrow> bytes" where
  "ReadString i section key defaultVal =
     (case getconfigstr section key i of Found v _ _ \<Rightarrow> v | Failed _ \<Rightarrow> defaultVal)"

text \<open>\<open>getconfigint\<close> has 32 bytes: a longer value has no zero at its end, and \<open>atoi\<close> may run on.\<close>

definition atoi32 :: "(int \<Rightarrow> int) \<Rightarrow> bytes \<Rightarrow> int option" where
  "atoi32 ovf v =
     (if length v < 32 then Some (c_atoi ovf v)
      else let w = take 32 v; d = (if hd w = 45 \<or> hd w = 43 then tl w else w)
           in if list_all is_digit d then None else Some (c_atoi ovf w))"

definition ReadInteger :: "(int \<Rightarrow> int) \<Rightarrow> ini \<Rightarrow> bytes \<Rightarrow> bytes \<Rightarrow> int \<Rightarrow> int option" where
  "ReadInteger ovf i section key defaultVal =
     (case getconfigstr section key i of Found v _ _ \<Rightarrow> atoi32 ovf v | Failed _ \<Rightarrow> Some defaultVal)"

abbreviation VALUE_LEN :: nat where "VALUE_LEN \<equiv> 512"

definition key_line :: "bytes \<Rightarrow> bytes \<Rightarrow> bytes" where
  "key_line key val = key @ [61] @ val @ [13, 10]"

definition string_replace :: "nat \<Rightarrow> nat \<Rightarrow> bytes \<Rightarrow> bytes \<Rightarrow> bytes option" where
  "string_replace pos n new s = (if pos > length s then None else Some (take pos s @ new @ drop (pos + n) s))"

definition WriteString :: "bool \<Rightarrow> ini \<Rightarrow> bytes \<Rightarrow> bytes \<Rightarrow> bytes \<Rightarrow> (bool \<times> ini) option" where
  "WriteString writable i section key val =
     (case getconfigstr section key i of
        Failed _ \<Rightarrow> Some (False, i)
      | Found _ pos n \<Rightarrow>
          if length (key_line key val) \<ge> VALUE_LEN then None
          else map_option (\<lambda>d. (True, ini_save writable (i\<lparr>file_data := d\<rparr>))) (string_replace pos n (key_line key val) (file_data i)))"

definition WriteInteger :: "bool \<Rightarrow> ini \<Rightarrow> bytes \<Rightarrow> bytes \<Rightarrow> int \<Rightarrow> (bool \<times> ini) option" where
  "WriteInteger writable i section key val = WriteString writable i section key (print_int val)"

definition GetSectionItem :: "ini \<Rightarrow> bytes \<Rightarrow> (bytes \<times> bytes) list \<Rightarrow> bool \<times> (bytes \<times> bytes) list" where
  "GetSectionItem i section ret =
     (case stream i of None \<Rightarrow> (False, ret) | Some s \<Rightarrow> (True, ret @ section_items section False s))"

end
