(* ===== verification/AfnConfigProofs.thy ===== *)
theory AfnConfigProofs
  imports AfnConfig
begin

text \<open>
  The configuration file as a map from sections and keys to values. The file is cut into the pieces
  \<open>fgets\<close> reads, looking a key up is a walk over the pieces, and replacing the piece that was found
  by the line \<open>WriteString\<close> writes changes the answer for that sec and key and for no other.
\<close>

section \<open>Pieces of a file\<close>

function chunks :: "bytes \<Rightarrow> bytes list" where
  "chunks s = (if s = [] then [] else next_line s # chunks (drop (length (next_line s)) s))"
  by pat_completeness auto

termination by (relation "measure length") (auto simp: next_line_nonempty)

declare chunks.simps [simp del]

definition complete :: "bytes \<Rightarrow> bool" where
  "complete c \<longleftrightarrow> c \<noteq> [] \<and> (\<forall>x. next_line (c @ x) = c)"

lemma fgets_take_prefix: "fgets_take n s @ drop (length (fgets_take n s)) s = s"
  by (induction n s rule: fgets_take.induct) auto

lemma next_line_prefix [simp]: "next_line s @ drop (length (next_line s)) s = s"
  unfolding next_line_def by (rule fgets_take_prefix)

lemma fgets_take_again:
  "length (fgets_take n s) < length s \<Longrightarrow> fgets_take n (fgets_take n s @ x) = fgets_take n s"
  by (induction n s rule: fgets_take.induct) (auto split: if_splits)

lemma fgets_take_same: "fgets_take n (fgets_take n s) = fgets_take n s"
  by (induction n s rule: fgets_take.induct) auto

lemma fgets_take_line:
  "10 \<notin> set l \<Longrightarrow> length l < n \<Longrightarrow> fgets_take n (l @ 10 # x) = l @ [10]"
proof (induction l arbitrary: n)
  case Nil then show ?case by (cases n) auto
next
  case (Cons a l) then show ?case by (cases n) auto
qed

lemma complete_line: "10 \<notin> set l \<Longrightarrow> length l < 99 \<Longrightarrow> complete (l @ [10])"
  by (simp add: complete_def next_line_def fgets_take_line)

lemma complete_next_line:
  assumes "drop (length (next_line s)) s \<noteq> []"
  shows "complete (next_line s)"
  using assms next_line_nonempty [of s] fgets_take_again [of 99 s]
  by (cases "s = []") (auto simp: complete_def next_line_def)

lemma concat_chunks [simp]: "concat (chunks s) = s"
proof (induction s rule: chunks.induct)
  case (1 s)
  then show ?case by (cases "s = []") (simp_all add: chunks.simps [of s] chunks.simps [of "[]"])
qed

lemma chunks_Nil [simp]: "chunks [] = []"
  by (simp add: chunks.simps)

lemma chunks_complete: "complete c \<Longrightarrow> chunks (c @ x) = c # chunks x"
  by (simp add: chunks.simps [of "c @ x"] complete_def)

lemma chunks_concat: "list_all complete cs \<Longrightarrow> chunks (concat cs @ x) = cs @ chunks x"
  by (induction cs) (auto simp: chunks_complete)

lemma chunks_eq_Cons:
  assumes "chunks s = c # ds"
  shows "c = next_line s" "ds = chunks (drop (length (next_line s)) s)" "s \<noteq> []"
  using assms by (auto simp: chunks.simps [of s] split: if_splits)

lemma chunks_before:
  "chunks s = cs @ ds \<Longrightarrow> ds \<noteq> [] \<Longrightarrow> list_all complete cs \<and> chunks (concat ds) = ds"
proof (induction cs arbitrary: s)
  case Nil
  then show ?case using concat_chunks [of s] by simp
next
  case (Cons c cs)
  let ?r = "drop (length (next_line s)) s"
  have r: "chunks ?r = cs @ ds" "c = next_line s"
    using chunks_eq_Cons [of s c "cs @ ds"] Cons.prems(1) by simp_all
  then have "?r \<noteq> []" using Cons.prems(2) by auto
  then show ?case using Cons.IH [OF r(1) Cons.prems(2)] complete_next_line [of s] r(2) by simp
qed

lemma chunks_last:
  assumes "chunks s = cs @ line # ds"
  shows "list_all complete cs" "chunks (concat ds) = ds"
proof -
  show "list_all complete cs" using chunks_before [OF assms] by simp
  show "chunks (concat ds) = ds"
  proof (cases "ds = []")
    case False
    then show ?thesis using chunks_before [of s "cs @ [line]" ds] assms by simp
  qed simp
qed

lemma chunks_replace:
  assumes "chunks s = cs @ line # ds" "complete new"
  shows "chunks (concat cs @ new @ concat ds) = cs @ new # ds"
  using chunks_last [OF assms(1)] assms(2) by (simp add: chunks_concat chunks_complete)

lemma chunk_subset: "set (next_line s) \<subseteq> set s"
  using next_line_prefix [of s] by (metis Un_upper1 set_append)

section \<open>Looking up in the pieces\<close>

definition heading :: "bytes \<Rightarrow> bytes option" where
  "heading line = (if isremark line then None else getsection line LINE_LEN)"

definition named :: "bytes \<Rightarrow> bytes \<Rightarrow> bool" where
  "named key line \<longleftrightarrow> \<not> isremark line \<and> getkeyname line LINE_LEN \<noteq> [] \<and> getkeyname line LINE_LEN = key"

abbreviation value_of :: "bytes \<Rightarrow> bytes" where
  "value_of line \<equiv> fst (getkeyvalue line LINE_LEN)"

fun find_value :: "bytes \<Rightarrow> bytes \<Rightarrow> bool \<Rightarrow> bytes list \<Rightarrow> bytes option" where
  "find_value sec key inside [] = None"
| "find_value sec key inside (line # ls) =
     (if inside \<and> heading line \<noteq> None then None
      else if inside \<and> named key line then Some (value_of line)
      else find_value sec key (inside \<or> heading line = Some sec) ls)"

fun hit :: "bytes \<Rightarrow> bytes \<Rightarrow> bool \<Rightarrow> bytes list \<Rightarrow> bytes \<Rightarrow> bool" where
  "hit sec key inside [] line \<longleftrightarrow> inside \<and> heading line = None \<and> named key line"
| "hit sec key inside (c # cs) line \<longleftrightarrow>
     \<not> (inside \<and> (heading c \<noteq> None \<or> named key c)) \<and> hit sec key (inside \<or> heading c = Some sec) cs line"

definition conf_value :: "conf \<Rightarrow> bytes option" where
  "conf_value c = (case c of Found v _ _ \<Rightarrow> Some v | Failed _ \<Rightarrow> None)"

lemma getconfig_step:
  "s \<noteq> [] \<Longrightarrow> getconfig sec key inside pos s =
     (let chunk = next_line s; line = cstr chunk; rest = drop (length chunk) s
      in if inside \<and> heading line \<noteq> None then Failed 5
         else if inside \<and> named key line then Found (value_of line) (pos + length chunk - length line) (length line)
         else if at_eof chunk rest then Failed 5
         else getconfig sec key (inside \<or> heading line = Some sec) (pos + length chunk) rest)"
  by (subst getconfig.simps) (auto simp: heading_def named_def Let_def)

lemma getconfig_value:
  "conf_value (getconfig sec key inside pos s) = find_value sec key inside (map cstr (chunks s))"
proof (induction sec key inside pos s rule: getconfig.induct)
  case (1 sec key inside pos s)
  show ?case
  proof (cases "s = []")
    case True then show ?thesis by (simp add: conf_value_def getconfig.simps)
  next
    case False
    let ?c = "next_line s" and ?r = "drop (length (next_line s)) s"
    have e: "at_eof ?c ?r \<Longrightarrow> ?r = []" by (simp add: at_eof_def)
    have IH: "\<not> (inside \<and> heading (cstr ?c) \<noteq> None) \<Longrightarrow> \<not> (inside \<and> named key (cstr ?c)) \<Longrightarrow> \<not> at_eof ?c ?r \<Longrightarrow>
       conf_value (getconfig sec key (inside \<or> heading (cstr ?c) = Some sec) (pos + length ?c) ?r)
         = find_value sec key (inside \<or> heading (cstr ?c) = Some sec) (map cstr (chunks ?r))"
      using 1 [OF False refl refl refl refl] unfolding heading_def named_def by (auto split: if_splits)
    show ?thesis
      using IH e False by (auto simp: getconfig_step [OF False] chunks.simps [of s] Let_def conf_value_def)
  qed
qed

lemma cstr_id [simp]: "0 \<notin> set s \<Longrightarrow> cstr s = s"
  by (auto simp: cstr_def takeWhile_eq_all_conv)

lemma getconfig_hit:
  assumes "getconfig sec key inside pos s = Found v p n" "0 \<notin> set s"
  shows "\<exists>cs line ds. chunks s = cs @ line # ds \<and> p = pos + length (concat cs) \<and> n = length line \<and> hit sec key inside cs line"
  using assms
proof (induction sec key inside pos s rule: getconfig.induct)
  case (1 sec key inside pos s)
  have s: "s \<noteq> []" using "1.prems"(1) by (auto simp: getconfig.simps)
  let ?c = "next_line s" and ?r = "drop (length (next_line s)) s"
  have z: "0 \<notin> set ?c" "0 \<notin> set ?r"
    using "1.prems"(2) chunk_subset [of s] by (auto dest: in_set_dropD)
  have ch: "chunks s = ?c # chunks ?r" using s by (simp add: chunks.simps [of s])
  show ?case
  proof (cases "inside \<and> named key ?c")
    case True
    then have "hit sec key inside [] ?c" "p = pos" "n = length ?c"
      using "1.prems"(1) z(1) by (auto simp: getconfig_step [OF s] Let_def split: if_splits)
    then show ?thesis using ch by (intro exI [of _ "[]"] exI [of _ ?c] exI [of _ "chunks ?r"]) simp
  next
    case False
    then have f: "\<not> (inside \<and> heading ?c \<noteq> None)" "\<not> at_eof ?c ?r"
      "getconfig sec key (inside \<or> heading ?c = Some sec) (pos + length ?c) ?r = Found v p n"
      using "1.prems"(1) z(1) by (auto simp: getconfig_step [OF s] Let_def split: if_splits)
    have "\<exists>cs line ds. chunks ?r = cs @ line # ds \<and> p = pos + length ?c + length (concat cs) \<and> n = length line \<and>
        hit sec key (inside \<or> heading ?c = Some sec) cs line"
      using "1.IH" [OF s refl refl refl refl] f False z unfolding heading_def named_def by (auto split: if_splits)
    then obtain cs line ds where "chunks ?r = cs @ line # ds" "p = pos + length ?c + length (concat cs)" "n = length line"
        "hit sec key (inside \<or> heading ?c = Some sec) cs line"
      by blast
    then show ?thesis using ch f(1) False
      by (intro exI [of _ "?c # cs"] exI [of _ line] exI [of _ ds]) auto
  qed
qed

lemma hit_named: "hit sec key inside cs line \<Longrightarrow> named key line \<and> heading line = None"
  by (induction cs arbitrary: inside) auto

lemma find_value_at_hit:
  "hit sec key inside cs line \<Longrightarrow> heading new = None \<Longrightarrow> named key new \<Longrightarrow>
     find_value sec key inside (cs @ new # ds) = Some (value_of new)"
  by (induction cs arbitrary: inside) auto

lemma find_value_elsewhere:
  "hit sec key inside cs line \<Longrightarrow> heading new = None \<Longrightarrow> named key new \<Longrightarrow> named key line \<Longrightarrow> heading line = None \<Longrightarrow>
     (sec', key') \<noteq> (sec, key) \<Longrightarrow> (inside \<and> inside' \<longrightarrow> sec' = sec) \<Longrightarrow>
     find_value sec' key' inside' (cs @ new # ds) = find_value sec' key' inside' (cs @ line # ds)"
proof (induction cs arbitrary: inside inside')
  case Nil
  then show ?case by (auto simp: named_def)
next
  case (Cons c cs)
  let ?in = "inside \<or> heading c = Some sec" and ?in' = "inside' \<or> heading c = Some sec'"
  have h: "hit sec key ?in cs line" "\<not> (inside \<and> heading c \<noteq> None)" using Cons.prems(1) by auto
  show ?case
  proof (cases "inside' \<and> heading c \<noteq> None")
    case False
    then have "?in \<and> ?in' \<longrightarrow> sec' = sec" using Cons.prems(7) h(2) by auto
    then show ?thesis using Cons.IH [OF h(1) Cons.prems(2-6)] False by auto
  qed simp
qed

section \<open>Writing a value\<close>

lemma getkeyvalue_positive: "0 < snd (getkeyvalue line n)"
  unfolding getkeyvalue_def Let_def by (auto simp: less_max_iff_disj)

lemma isgraph_not_blank: "isgraph c \<Longrightarrow> c \<noteq> 0 \<and> c \<noteq> 10 \<and> c \<noteq> 13"
  by (auto simp: isgraph_def)

lemma eq_is_graph [simp]: "isgraph 61" "\<not> isgraph 13" "\<not> isgraph 10"
  by (simp_all add: isgraph_def)

lemma filter_all [simp]: "list_all P xs \<Longrightarrow> filter P xs = xs"
  by (induction xs) auto

lemma takeWhile_until: "a \<notin> set xs \<Longrightarrow> takeWhile (\<lambda>c. c \<noteq> a) (xs @ a # ys) = xs"
  by (induction xs) auto

lemma named_key:
  assumes "named key line"
  shows "key \<noteq> []" "list_all isgraph key" "61 \<notin> set key" "length key < 128"
proof -
  have k: "key = take 127 (filter isgraph (takeWhile (\<lambda>c. c \<noteq> 61) line))" "key \<noteq> []"
    using assms by (auto simp: named_def getkeyname_def)
  show "key \<noteq> []" by (rule k(2))
  show "list_all isgraph key" using k(1) by (auto simp: list_all_iff dest!: in_set_takeD)
  show "61 \<notin> set key" using k(1) by (auto dest!: in_set_takeD set_takeWhileD)
  have "length key \<le> 127" by (subst k(1)) simp
  then show "length key < 128" by simp
qed

lemma named_not_remark:
  assumes "named key line"
  shows "hd key \<noteq> 35"
proof -
  obtain c w where w: "dropWhile (\<lambda>c. \<not> isgraph c) line = c # w" "c \<noteq> 35"
    using assms by (auto simp: named_def isremark_def split: list.splits)
  have c: "isgraph c" using w(1) by (metis dropWhile_eq_Cons_conv)
  have l: "line = takeWhile (\<lambda>c. \<not> isgraph c) line @ c # w"
    using w(1) by (metis takeWhile_dropWhile_id)
  have n: "\<forall>x \<in> set (takeWhile (\<lambda>c. \<not> isgraph c) line). x \<noteq> 61 \<and> \<not> isgraph x"
    by (metis eq_is_graph(1) set_takeWhileD)
  have "filter isgraph (takeWhile (\<lambda>c. c \<noteq> 61) line) = filter isgraph (takeWhile (\<lambda>c. c \<noteq> 61) (c # w))"
    by (subst l) (use n in \<open>simp add: takeWhile_append2\<close>)
  then have "key = [] \<or> hd key = c"
    using assms c by (auto simp: named_def getkeyname_def take_Cons' split: if_splits)
  then show ?thesis using w(2) named_key(1) [OF assms] by auto
qed

lemma new_line:
  assumes key: "key \<noteq> []" "list_all isgraph key" "61 \<notin> set key" "hd key \<noteq> 35" "hd key \<noteq> 91"
    and val: "list_all isgraph val" "length key + length val \<le> 96"
  shows "named key (key_line key val)" "heading (key_line key val) = None" "value_of (key_line key val) = val"
    "complete (key_line key val)"
proof -
  obtain c w where c: "key = c # w" "isgraph c" using key by (cases key) auto
  have name: "takeWhile (\<lambda>c. c \<noteq> 61) (key_line key val) = key"
    using takeWhile_until [OF key(3), of "val @ [13, 10]"] by (simp add: key_line_def)
  show "named key (key_line key val)"
    using name key val(2) c by (simp add: named_def getkeyname_def isremark_def) (simp add: key_line_def)
  show "heading (key_line key val) = None"
    using c key by (simp add: heading_def getsection_def key_line_def)
  show "value_of (key_line key val) = val"
    using name val by (simp add: getkeyvalue_def Let_def) (simp add: key_line_def)
  have "list_all (\<lambda>c. c \<noteq> 10) (key @ [61] @ val @ [13])"
    using key(2) val(1) by (auto simp: list_all_iff dest: isgraph_not_blank)
  then show "complete (key_line key val)"
    using complete_line [of "key @ [61] @ val @ [13]"] val(2) by (auto simp: key_line_def list_all_iff)
qed

definition ini_sound :: "ini \<Rightarrow> bool" where
  "ini_sound i \<longleftrightarrow> stream i = Some (file_data i) \<and> 0 \<notin> set (file_data i)"

lemma file_lines_id: "0 \<notin> set s \<Longrightarrow> file_lines s = s"
proof (induction s rule: file_lines.induct)
  case (1 s)
  have "0 \<notin> set (next_line s)" "0 \<notin> set (drop (length (next_line s)) s)"
    using chunk_subset [of s] "1.prems" by (auto dest: in_set_dropD)
  then show ?case using "1.IH"
    by (cases "s = []") (simp_all add: file_lines.simps [of s] file_lines.simps [of "[]"])
qed

lemma TIniFile_new_sound: "0 \<notin> set s \<Longrightarrow> ini_sound (TIniFile_new (Some s)) \<and> file_data (TIniFile_new (Some s)) = s"
  by (simp add: ini_sound_def TIniFile_new_def ini_load_def file_lines_id)

definition lookup_key :: "ini \<Rightarrow> bytes \<Rightarrow> bytes \<Rightarrow> bytes option" where
  "lookup_key i sec key = conf_value (getconfigstr sec key i)"

lemma ReadString_lookup: "ReadString i sec key d = (case lookup_key i sec key of Some v \<Rightarrow> v | None \<Rightarrow> d)"
  by (simp add: ReadString_def lookup_key_def conf_value_def split: conf.splits)

lemma lookup_key_sound:
  assumes "ini_sound i"
  shows "lookup_key i sec key = find_value sec key False (chunks (file_data i))"
proof -
  have "map cstr (chunks (file_data i)) = chunks (file_data i)"
  proof (rule map_idI)
    fix c assume "c \<in> set (chunks (file_data i))"
    then have "set c \<subseteq> set (file_data i)" using concat_chunks [of "file_data i"] by (metis UN_upper set_concat)
    then show "cstr c = c" using assms by (intro cstr_id) (auto simp: ini_sound_def)
  qed
  then show ?thesis using assms
    by (simp add: lookup_key_def getconfigstr_def ini_sound_def getconfig_value)
qed

lemma WriteString_updates:
  assumes i: "ini_sound i" and found: "lookup_key i sec key \<noteq> None"
    and new: "list_all isgraph val" "length key + length val \<le> 96" "hd key \<noteq> 91"
  shows "\<exists>i'. WriteString True i sec key val = Some (True, i') \<and> ini_sound i' \<and>
           (\<forall>sec' key'. lookup_key i' sec' key' = (if (sec', key') = (sec, key) then Some val else lookup_key i sec' key'))"
proof -
  let ?s = "file_data i" and ?new = "key_line key val"
  obtain v p n where f: "getconfigstr sec key i = Found v p n"
    using found by (auto simp: lookup_key_def conf_value_def split: conf.splits)
  then obtain cs line ds where c: "chunks ?s = cs @ line # ds" "p = length (concat cs)" "n = length line" "hit sec key False cs line"
    using getconfig_hit [of sec key False 0 ?s v p n] i by (auto simp: getconfigstr_def ini_sound_def)
  have l: "named key line" "heading line = None" using hit_named [OF c(4)] by simp_all
  have k: "key \<noteq> []" "list_all isgraph key" "61 \<notin> set key" "hd key \<noteq> 35"
    using named_key [OF l(1)] named_not_remark [OF l(1)] by simp_all
  note nl = new_line [OF k new(3) new(1,2)]
  let ?t = "concat cs @ ?new @ concat ds"
  have s: "?s = concat cs @ line @ concat ds" using concat_chunks [of ?s] c(1) by simp
  have z: "0 \<notin> set ?new" using k(2) new(1) by (auto simp: key_line_def list_all_iff dest: isgraph_not_blank)
  have t: "?t \<noteq> []" "0 \<notin> set ?t" using z i s by (auto simp: key_line_def ini_sound_def)
  let ?i' = "\<lparr>stream = Some ?t, file_data = ?t\<rparr>"
  have w: "WriteString True i sec key val = Some (True, ?i')"
    using f c(2,3) new(2) s t by (simp add: WriteString_def string_replace_def ini_save_def ini_load_def) (simp add: key_line_def)
  have snd: "ini_sound ?i'" using t by (simp add: ini_sound_def)
  have look: "lookup_key ?i' sec' key' = find_value sec' key' False (cs @ ?new # ds)"
    "lookup_key i sec' key' = find_value sec' key' False (cs @ line # ds)" for sec' key'
    using lookup_key_sound [OF snd] chunks_replace [OF c(1) nl(4)] lookup_key_sound [OF i] c(1) by simp_all
  have "lookup_key ?i' sec' key' = (if (sec', key') = (sec, key) then Some val else lookup_key i sec' key')" for sec' key'
    using find_value_at_hit [OF c(4) nl(2,1)] nl(3)
      find_value_elsewhere [OF c(4) nl(2,1) l, of sec' key' False] look
    by auto
  then show ?thesis using w snd by blast
qed

text \<open>
  Property C34: writing a value and reading the configuration file. Where the key is found, the value has
  graph characters only and the line is short enough for one \<open>fgets\<close>, reading that section and
  key then gives the value, every other section and key reads as before, and the file in memory and on disk
  still agree, so it can go on being written.
\<close>

theorem config_write_read:
  assumes "ini_sound i" "lookup_key i sec key \<noteq> None" "list_all isgraph val" "length key + length val \<le> 96" "hd key \<noteq> 91"
  shows "\<exists>i'. WriteString True i sec key val = Some (True, i') \<and> ini_sound i' \<and>
           (\<forall>sec' key' d. ReadString i' sec' key' d = (if sec' = sec \<and> key' = key then val else ReadString i sec' key' d))"
  using WriteString_updates [OF assms] by (fastforce simp: ReadString_lookup)

definition sample_ini :: ini where
  "sample_ini = TIniFile_new (Some (bytes_of (''[DB]'' @ [CHR 0x0A] @ ''Host = h'' @ [CHR 0x0A] @ ''Port=1'')))"

lemma sample_ini_found:
  "ini_sound sample_ini" "lookup_key sample_ini (bytes_of ''DB'') (bytes_of ''Host'') \<noteq> None"
  by code_simp+

theorem config_write_read_witness:
  "\<exists>i'. WriteString True sample_ini (bytes_of ''DB'') (bytes_of ''Host'') (bytes_of ''db1'') = Some (True, i') \<and>
     ReadString i' (bytes_of ''DB'') (bytes_of ''Host'') [] = bytes_of ''db1'' \<and>
     ReadString i' (bytes_of ''DB'') (bytes_of ''Port'') [] = bytes_of ''1''"
proof -
  have v: "list_all isgraph (bytes_of ''db1'')" "length (bytes_of ''Host'') + length (bytes_of ''db1'') \<le> 96"
    "hd (bytes_of ''Host'') \<noteq> 91" "bytes_of ''Host'' \<noteq> bytes_of ''Port''"
    "ReadString sample_ini (bytes_of ''DB'') (bytes_of ''Port'') [] = bytes_of ''1''"
    by code_simp+
  show ?thesis using config_write_read [OF sample_ini_found v(1-3)] v(4,5) by (auto simp del: bytes_of_def)
qed

text \<open>A value loses its inner blanks when it is read: \<open>Password = my word\<close> reads as \<open>myword\<close>.\<close>

lemma config_value_loses_blanks:
  "value_of (bytes_of ''Password = my word'') = bytes_of ''myword''"
  by code_simp

text \<open>A line without an equals sign counts as a key of its own, although the source clears such a name at its end.\<close>

lemma config_line_without_value:
  "getkeyname (bytes_of ''some words'') LINE_LEN = bytes_of ''somewords''"
  "snd (getkeyvalue (bytes_of ''some words'') LINE_LEN) = 1"
  by code_simp+

text \<open>A heading followed by anything, even a comment, is no heading: what comes after it still belongs to the section before.\<close>

lemma config_heading_with_remark:
  "heading (bytes_of ''[DB] # the database'') = None"
  by code_simp

end
