(* ===== verification/EvdnsResolver.thy ===== *)
theory EvdnsResolver
  imports EvdnsPacket EvAddr
begin

text \<open>
  The resolver of \<open>evdns.c\<close>: name servers, requests in flight and waiting, transmission, timeouts,
  probes of servers that are down, replies and the callbacks they schedule. Objects of the heap have
  numbers, and a number without an object is freed memory; circular lists are lists that begin
  with their head. \<open>None\<close> is undefined behaviour: freed memory is used, an assertion fails, an object is
  not in the list it is taken from. \<open>transaction_id_pick\<close> may also go on for ever.

  What is outside: the allocator, which answers the next question with \<open>env_alloc\<close>; the bytes of the
  random number generator; and what \<open>sendto\<close> returns. The event loop is seen through the events a
  resolver has pending with it: \<open>event_add\<close> is taken to succeed, and a deferred callback is put at the
  end of the queue. Only \<open>evdns_getaddrinfo\<close> sets \<open>put_cname_in_ptr\<close>, so it is null here.
\<close>

section \<open>The state\<close>

datatype send_result = Sent nat | Send_again | Send_error

record dns_env =
  env_alloc :: "nat \<Rightarrow> bool"
  env_random :: "nat \<Rightarrow> u8"
  env_send :: "nat \<Rightarrow> send_result"

text \<open>Whose callback a request has: one of the user's, or \<open>nameserver_probe_callback\<close> for a server.\<close>

datatype dns_callback = User nat | Probe nat

type_synonym dns_time = "int \<times> int"

record nameserver =
  ns_address :: sockaddr
  failed_times :: int
  timedout :: int
  ns_timer :: "dns_time option"
  probe_request :: "nat option"
  ns_state :: bool
  choked :: bool
  write_waiting :: bool

record request =
  packet :: bytes
  request_len :: nat
  request_type :: u16
  reissue_count :: int
  tx_count :: int
  user_callback :: dns_callback
  req_ns :: "nat option"
  req_timer :: bool
  trans_id :: u16
  transmit_me :: bool
  req_handle :: "nat option"

record dns_handle =
  current_req :: "nat option"
  pending_cb :: bool
  search_index :: int
  search_state :: "nat option"
  search_origname :: "bytes option"
  search_flags :: int

record search_list =
  refcount :: int
  ndots :: int
  num_domains :: int
  domains :: "bytes list"

record dns_deferred =
  d_type :: u16
  d_ttl :: u32
  d_err :: int
  d_callback :: dns_callback
  d_handle :: "nat option"
  d_reply :: "dns_reply option"

record dns_result =
  res_tag :: nat
  res_err :: int
  res_type :: u16
  res_ttl :: u32
  res_reply :: "dns_reply option"

record dns_base =
  req_heads :: "nat list list"
  req_waiting :: "nat list"
  server_ring :: "nat list"
  good_nameservers :: int
  requests_inflight :: int
  requests_waiting :: int
  max_requests_inflight :: int
  global_timeout :: dns_time
  max_reissues :: int
  max_retransmits :: int
  max_nameserver_timeout :: int
  randomize_case :: bool
  probe_initial_timeout :: dns_time
  global_search_state :: "nat option"
  outgoing_address :: "sockaddr option"
  requests :: "nat \<rightharpoonup> request"
  nameservers :: "nat \<rightharpoonup> nameserver"
  handles :: "nat \<rightharpoonup> dns_handle"
  searches :: "nat \<rightharpoonup> search_list"
  deferreds :: "dns_deferred list"
  serial :: nat
  randoms :: nat
  sent :: "(nat \<times> bytes) list"
  delivered :: "dns_result list"

abbreviation DNS_ERR_NONE :: int where "DNS_ERR_NONE \<equiv> 0"
abbreviation DNS_ERR_FORMAT :: int where "DNS_ERR_FORMAT \<equiv> 1"
abbreviation DNS_ERR_SERVERFAILED :: int where "DNS_ERR_SERVERFAILED \<equiv> 2"
abbreviation DNS_ERR_NOTEXIST :: int where "DNS_ERR_NOTEXIST \<equiv> 3"
abbreviation DNS_ERR_NOTIMPL :: int where "DNS_ERR_NOTIMPL \<equiv> 4"
abbreviation DNS_ERR_REFUSED :: int where "DNS_ERR_REFUSED \<equiv> 5"
abbreviation DNS_ERR_TRUNCATED :: int where "DNS_ERR_TRUNCATED \<equiv> 65"
abbreviation DNS_ERR_UNKNOWN :: int where "DNS_ERR_UNKNOWN \<equiv> 66"
abbreviation DNS_ERR_TIMEOUT :: int where "DNS_ERR_TIMEOUT \<equiv> 67"
abbreviation DNS_ERR_SHUTDOWN :: int where "DNS_ERR_SHUTDOWN \<equiv> 68"
abbreviation DNS_ERR_CANCEL :: int where "DNS_ERR_CANCEL \<equiv> 69"
abbreviation DNS_ERR_NODATA :: int where "DNS_ERR_NODATA \<equiv> 70"

abbreviation NO_ID :: u16 where "NO_ID \<equiv> 0xffff"

text \<open>One after another, and changes to objects, which must exist.\<close>

fun each :: "('a \<Rightarrow> 's \<Rightarrow> 's option) \<Rightarrow> 'a list \<Rightarrow> 's \<Rightarrow> 's option" where
  "each f [] s = Some s"
| "each f (x # xs) s = do { s \<leftarrow> f x s; each f xs s }"

definition assert_that :: "bool \<Rightarrow> unit option" where
  "assert_that b = (if b then Some () else None)"

definition upd_req :: "nat \<Rightarrow> (request \<Rightarrow> request) \<Rightarrow> dns_base \<Rightarrow> dns_base option" where
  "upd_req r f s = do { q \<leftarrow> requests s r; Some (s\<lparr>requests := (requests s)(r \<mapsto> f q)\<rparr>) }"

definition upd_ns :: "nat \<Rightarrow> (nameserver \<Rightarrow> nameserver) \<Rightarrow> dns_base \<Rightarrow> dns_base option" where
  "upd_ns n f s = do { ns \<leftarrow> nameservers s n; Some (s\<lparr>nameservers := (nameservers s)(n \<mapsto> f ns)\<rparr>) }"

definition upd_handle :: "nat \<Rightarrow> (dns_handle \<Rightarrow> dns_handle) \<Rightarrow> dns_base \<Rightarrow> dns_base option" where
  "upd_handle h f s = do { hn \<leftarrow> handles s h; Some (s\<lparr>handles := (handles s)(h \<mapsto> f hn)\<rparr>) }"

definition upd_search :: "nat \<Rightarrow> (search_list \<Rightarrow> search_list) \<Rightarrow> dns_base \<Rightarrow> dns_base option" where
  "upd_search i f s = do { l \<leftarrow> searches s i; Some (s\<lparr>searches := (searches s)(i \<mapsto> f l)\<rparr>) }"

text \<open>An allocation: a new number, or none. The number is that of the question to the allocator.\<close>

definition allocate :: "dns_env \<Rightarrow> dns_base \<Rightarrow> nat option \<times> dns_base" where
  "allocate e s = (if env_alloc e (serial s) then Some (serial s) else None, s\<lparr>serial := serial s + 1\<rparr>)"

definition get_bytes :: "dns_env \<Rightarrow> nat \<Rightarrow> dns_base \<Rightarrow> bytes \<times> dns_base" where
  "get_bytes e n s = (map (env_random e) [randoms s..<randoms s + n], s\<lparr>randoms := randoms s + n\<rparr>)"

text \<open>\<open>ASSERT_VALID_REQUEST\<close>\<close>

definition valid_request :: "dns_base \<Rightarrow> nat \<Rightarrow> bool" where
  "valid_request s r \<longleftrightarrow>
     (case requests s r of
        None \<Rightarrow> False
      | Some q \<Rightarrow> (case req_handle q of None \<Rightarrow> False
                  | Some h \<Rightarrow> (case handles s h of None \<Rightarrow> False | Some hn \<Rightarrow> current_req hn = Some r)))"

section \<open>The lists of requests\<close>

text \<open>\<open>REQ_HEAD\<close>: dividing by no heads is undefined.\<close>

definition head_of :: "dns_base \<Rightarrow> u16 \<Rightarrow> nat option" where
  "head_of s tid = (if req_heads s = [] then None else Some (unat tid mod length (req_heads s)))"

fun find_id :: "dns_base \<Rightarrow> u16 \<Rightarrow> nat list \<Rightarrow> nat option option" where
  "find_id s tid [] = Some None"
| "find_id s tid (r # rs) =
     (case requests s r of None \<Rightarrow> None | Some q \<Rightarrow> if trans_id q = tid then Some (Some r) else find_id s tid rs)"

definition request_find_from_trans_id :: "dns_base \<Rightarrow> u16 \<Rightarrow> nat option option" where
  "request_find_from_trans_id s tid = do { i \<leftarrow> head_of s tid; find_id s tid (req_heads s ! i) }"

text \<open>The head of a list: in flight, by transaction, or waiting.\<close>

datatype head = Head nat | Waiting

definition list_at :: "head \<Rightarrow> dns_base \<Rightarrow> nat list" where
  "list_at hn s = (case hn of Head i \<Rightarrow> req_heads s ! i | Waiting \<Rightarrow> req_waiting s)"

definition set_list_at :: "head \<Rightarrow> nat list \<Rightarrow> dns_base \<Rightarrow> dns_base" where
  "set_list_at hn l s = (case hn of Head i \<Rightarrow> s\<lparr>req_heads := (req_heads s)[i := l]\<rparr> | Waiting \<Rightarrow> s\<lparr>req_waiting := l\<rparr>)"

definition evdns_request_remove :: "nat \<Rightarrow> head \<Rightarrow> dns_base \<Rightarrow> dns_base option" where
  "evdns_request_remove r hn s = do {
     assert_that (valid_request s r);
     assert_that (r \<in> set (list_at hn s));
     Some (set_list_at hn (remove1 r (list_at hn s)) s)
   }"

definition evdns_request_insert :: "nat \<Rightarrow> head \<Rightarrow> dns_base \<Rightarrow> dns_base option" where
  "evdns_request_insert r hn s = do {
     assert_that (valid_request s r);
     Some (set_list_at hn (list_at hn s @ [r]) s)
   }"

section \<open>Choosing\<close>

partial_function (option) transaction_id_pick :: "dns_env \<Rightarrow> dns_base \<Rightarrow> (u16 \<times> dns_base) option" where
  "transaction_id_pick e s =
     (case get_bytes e 2 s of (b, s) \<Rightarrow>
        if le16 (b ! 0) (b ! 1) = NO_ID then transaction_id_pick e s
        else do {
          found \<leftarrow> request_find_from_trans_id s (le16 (b ! 0) (b ! 1));
          if found = None then Some (le16 (b ! 0) (b ! 1), s) else transaction_id_pick e s
        })"

declare transaction_id_pick.simps [code]

text \<open>
  The walk around the ring for a server that is up: what was passed, what is ahead. At the start
  again, the code asserts that no server counts as good, which is tested before.
\<close>

fun pick_walk :: "dns_base \<Rightarrow> nat list \<Rightarrow> nat list \<Rightarrow> (nat \<times> nat list) option" where
  "pick_walk s passed [] = None"
| "pick_walk s passed (n # ns) =
     (case nameservers s n of
        None \<Rightarrow> None
      | Some v \<Rightarrow> if ns_state v then Some (n, ns @ passed @ [n]) else pick_walk s (passed @ [n]) ns)"

definition nameserver_pick :: "dns_base \<Rightarrow> (nat option \<times> dns_base) option" where
  "nameserver_pick s =
     (if server_ring s = [] then Some (None, s)
      else if good_nameservers s = 0 then do {
        v \<leftarrow> nameservers s (hd (server_ring s));
        Some (Some (hd (rotate1 (server_ring s))), s\<lparr>server_ring := rotate1 (server_ring s)\<rparr>)
      }
      else do {
        (n, ring) \<leftarrow> pick_walk s [] (server_ring s);
        Some (Some n, s\<lparr>server_ring := ring\<rparr>)
      })"

section \<open>Name servers up and down\<close>

text \<open>The wait before the next probe: three times as long for each failure, about an hour at most.\<close>

abbreviation MAX_PROBE_TIMEOUT :: int where "MAX_PROBE_TIMEOUT \<equiv> 3600"

fun backoff :: "nat \<Rightarrow> dns_time \<Rightarrow> dns_time" where
  "backoff 0 t = t"
| "backoff (Suc i) (sec, usec) =
     (if sec < MAX_PROBE_TIMEOUT then
        let sec = sec * 3; usec = usec * 3
        in backoff i (if usec > 1000000 then (sec + usec div 1000000, usec mod 1000000) else (sec, usec))
      else (sec, usec))"

definition probe_timeout :: "int \<Rightarrow> dns_time \<Rightarrow> dns_time" where
  "probe_timeout failures initial =
     (let t = backoff (nat failures) initial in if fst t > MAX_PROBE_TIMEOUT then (MAX_PROBE_TIMEOUT, 0) else t)"

definition nameserver_probe_failed :: "nat \<Rightarrow> dns_base \<Rightarrow> dns_base option" where
  "nameserver_probe_failed n s = do {
     s \<leftarrow> upd_ns n (ns_timer_update (\<lambda>_. None)) s;
     v \<leftarrow> nameservers s n;
     if ns_state v then Some s
     else upd_ns n (\<lambda>v. v\<lparr>ns_timer := Some (probe_timeout (failed_times v) (probe_initial_timeout s)),
                         failed_times := failed_times v + 1\<rparr>) s
   }"

text \<open>A request that has not gone out yet is given to another server.\<close>

definition reassign :: "nat \<Rightarrow> nat \<Rightarrow> dns_base \<Rightarrow> dns_base option" where
  "reassign n r s = do {
     q \<leftarrow> requests s r;
     if tx_count q = 0 \<and> req_ns q = Some n then do {
       (picked, s) \<leftarrow> nameserver_pick s;
       upd_req r (req_ns_update (\<lambda>_. picked)) s
     } else Some s
   }"

definition nameserver_failed :: "nat \<Rightarrow> dns_base \<Rightarrow> dns_base option" where
  "nameserver_failed n s = do {
     v \<leftarrow> nameservers s n;
     if \<not> ns_state v then Some s
     else do {
       assert_that (good_nameservers s - 1 \<ge> 0);
       s \<leftarrow> upd_ns n (\<lambda>v. v\<lparr>ns_state := False, failed_times := 1, ns_timer := Some (probe_initial_timeout s)\<rparr>)
              (s\<lparr>good_nameservers := good_nameservers s - 1\<rparr>);
       if good_nameservers s = 0 then Some s else each (reassign n) (concat (req_heads s)) s
     }
   }"

section \<open>Transmission\<close>

definition evdns_request_transmit_to :: "dns_env \<Rightarrow> nat \<Rightarrow> nat \<Rightarrow> dns_base \<Rightarrow> (nat \<times> dns_base) option" where
  "evdns_request_transmit_to e r n s = do {
     assert_that (valid_request s r);
     q \<leftarrow> requests s r;
     v \<leftarrow> nameservers s n;
     let res = env_send e (length (sent s));
     let s = s\<lparr>sent := sent s @ [(n, take (request_len q) (packet q))]\<rparr>;
     case res of
       Send_again \<Rightarrow> Some (1, s)
     | Send_error \<Rightarrow> do { m \<leftarrow> req_ns q; s \<leftarrow> nameserver_failed m s; Some (2, s) }
     | Sent k \<Rightarrow> Some (if k \<noteq> request_len q then 1 else 0, s)
   }"

definition nameserver_write_waiting :: "nat \<Rightarrow> bool \<Rightarrow> dns_base \<Rightarrow> dns_base option" where
  "nameserver_write_waiting n waiting s = upd_ns n (write_waiting_update (\<lambda>_. waiting)) s"

definition evdns_request_transmit :: "dns_env \<Rightarrow> nat \<Rightarrow> dns_base \<Rightarrow> (nat \<times> dns_base) option" where
  "evdns_request_transmit e r s = do {
     assert_that (valid_request s r);
     s \<leftarrow> upd_req r (transmit_me_update (\<lambda>_. True)) s;
     q \<leftarrow> requests s r;
     assert_that (trans_id q \<noteq> NO_ID);
     case req_ns q of
       None \<Rightarrow> Some (1, s)
     | Some n \<Rightarrow> do {
         v \<leftarrow> nameservers s n;
         if choked v then Some (1, s)
         else do {
           (res, s) \<leftarrow> evdns_request_transmit_to e r n s;
           if res = 1 then do {
             q \<leftarrow> requests s r;
             m \<leftarrow> req_ns q;
             s \<leftarrow> upd_ns m (choked_update (\<lambda>_. True)) s;
             s \<leftarrow> nameserver_write_waiting m True s;
             Some (1, s)
           } else do {
             s \<leftarrow> upd_req r (\<lambda>q. q\<lparr>req_timer := True, tx_count := tx_count q + 1, transmit_me := False\<rparr>) s;
             Some (if res = 2 then 1 else 0, s)
           }
         }
       }
   }"

definition transmit_one :: "dns_env \<Rightarrow> nat \<Rightarrow> bool \<times> dns_base \<Rightarrow> (bool \<times> dns_base) option" where
  "transmit_one e r ts = do {
     q \<leftarrow> requests (snd ts) r;
     if transmit_me q then do { (_, s) \<leftarrow> evdns_request_transmit e r (snd ts); Some (True, s) } else Some ts
   }"

definition evdns_transmit :: "dns_env \<Rightarrow> dns_base \<Rightarrow> (bool \<times> dns_base) option" where
  "evdns_transmit e s = each (transmit_one e) (concat (req_heads s)) (False, s)"

section \<open>Moving and finishing requests\<close>

text \<open>\<open>request_trans_id_set\<close>: also in the first two bytes of the packet, most significant first.\<close>

definition request_trans_id_set :: "nat \<Rightarrow> u16 \<Rightarrow> dns_base \<Rightarrow> dns_base option" where
  "request_trans_id_set r tid s = upd_req r (\<lambda>q. q\<lparr>trans_id := tid, packet := (packet q)[0 := hi8 tid, 1 := lo8 tid]\<rparr>) s"

text \<open>One round of \<open>evdns_requests_pump_waiting_queue\<close>; whether there is to be another.\<close>

definition pump_one :: "dns_env \<Rightarrow> dns_base \<Rightarrow> (bool \<times> dns_base) option" where
  "pump_one e s =
     (case req_waiting s of
        [] \<Rightarrow> None
      | r # _ \<Rightarrow> do {
          (picked, s) \<leftarrow> nameserver_pick s;
          s \<leftarrow> upd_req r (req_ns_update (\<lambda>_. picked)) s;
          if picked = None then Some (False, s)
          else do {
            s \<leftarrow> evdns_request_remove r Waiting s;
            let s = s\<lparr>requests_waiting := requests_waiting s - 1, requests_inflight := requests_inflight s + 1\<rparr>;
            (tid, s) \<leftarrow> transaction_id_pick e s;
            s \<leftarrow> request_trans_id_set r tid s;
            i \<leftarrow> head_of s tid;
            s \<leftarrow> evdns_request_insert r (Head i) s;
            (_, s) \<leftarrow> evdns_request_transmit e r s;
            (_, s) \<leftarrow> evdns_transmit e s;
            Some (True, s)
          }
        })"

partial_function (option) evdns_requests_pump_waiting_queue :: "dns_env \<Rightarrow> dns_base \<Rightarrow> dns_base option" where
  "evdns_requests_pump_waiting_queue e s =
     (if requests_inflight s < max_requests_inflight s \<and> requests_waiting s \<noteq> 0 then do {
        (more, s) \<leftarrow> pump_one e s;
        if more then evdns_requests_pump_waiting_queue e s else Some s
      } else Some s)"

declare evdns_requests_pump_waiting_queue.simps [code]

definition search_state_decref :: "nat option \<Rightarrow> dns_base \<Rightarrow> dns_base option" where
  "search_state_decref st s =
     (case st of
        None \<Rightarrow> Some s
      | Some i \<Rightarrow> do {
          s \<leftarrow> upd_search i (\<lambda>l. l\<lparr>refcount := refcount l - 1\<rparr>) s;
          l \<leftarrow> searches s i;
          Some (if refcount l = 0 then s\<lparr>searches := (searches s)(i := None)\<rparr> else s)
        })"

definition search_request_finished :: "nat \<Rightarrow> dns_base \<Rightarrow> dns_base option" where
  "search_request_finished h s = do {
     hn \<leftarrow> handles s h;
     s \<leftarrow> search_state_decref (search_state hn) s;
     upd_handle h (\<lambda>hn. hn\<lparr>search_state := None, search_origname := None\<rparr>) s
   }"

text \<open>The handle of a request that is finished.\<close>

definition release_handle :: "nat \<Rightarrow> nat option \<Rightarrow> bool \<Rightarrow> dns_base \<Rightarrow> dns_base option" where
  "release_handle r h free_handle s =
     (case h of
        None \<Rightarrow> Some s
      | Some h \<Rightarrow> do {
          hn \<leftarrow> handles s h;
          assert_that (current_req hn = Some r);
          if free_handle then do {
            s \<leftarrow> search_request_finished h s;
            s \<leftarrow> upd_handle h (current_req_update (\<lambda>_. None)) s;
            hn \<leftarrow> handles s h;
            Some (if pending_cb hn then s else s\<lparr>handles := (handles s)(h := None)\<rparr>)
          } else upd_handle h (current_req_update (\<lambda>_. None)) s
        })"

definition request_finished :: "dns_env \<Rightarrow> nat \<Rightarrow> head \<Rightarrow> bool \<Rightarrow> dns_base \<Rightarrow> dns_base option" where
  "request_finished e r hn free_handle s = do {
     q \<leftarrow> requests s r;
     assert_that (valid_request s r);
     s \<leftarrow> evdns_request_remove r hn s;
     let s = (if hn \<noteq> Waiting then s\<lparr>requests_inflight := requests_inflight s - 1\<rparr>
              else s\<lparr>requests_waiting := requests_waiting s - 1\<rparr>);
     s \<leftarrow> release_handle r (req_handle q) free_handle s;
     evdns_requests_pump_waiting_queue e (s\<lparr>requests := (requests s)(r := None)\<rparr>)
   }"

definition reply_schedule_callback :: "dns_env \<Rightarrow> nat \<Rightarrow> u32 \<Rightarrow> int \<Rightarrow> dns_reply option \<Rightarrow> dns_base \<Rightarrow> dns_base option" where
  "reply_schedule_callback e r ttl err reply s =
     (case allocate e s of
        (None, s) \<Rightarrow> Some s
      | (Some _, s) \<Rightarrow> do {
          q \<leftarrow> requests s r;
          s \<leftarrow> (case req_handle q of None \<Rightarrow> Some s | Some h \<Rightarrow> upd_handle h (pending_cb_update (\<lambda>_. True)) s);
          Some (s\<lparr>deferreds := deferreds s @ [\<lparr>d_type = request_type q, d_ttl = ttl, d_err = err,
                   d_callback = user_callback q, d_handle = req_handle q, d_reply = reply\<rparr>]\<rparr>)
        })"

definition head_of_req :: "dns_base \<Rightarrow> nat \<Rightarrow> head option" where
  "head_of_req s r = do { q \<leftarrow> requests s r; i \<leftarrow> head_of s (trans_id q); Some (Head i) }"

definition evdns_cancel_request :: "dns_env \<Rightarrow> nat \<Rightarrow> dns_base \<Rightarrow> dns_base option" where
  "evdns_cancel_request e h s = do {
     hn \<leftarrow> handles s h;
     case current_req hn of
       None \<Rightarrow> Some s
     | Some r \<Rightarrow>
         if pending_cb hn then Some s
         else do {
           assert_that (valid_request s r);
           s \<leftarrow> reply_schedule_callback e r 0 DNS_ERR_CANCEL None s;
           q \<leftarrow> requests s r;
           if req_ns q \<noteq> None then do { hn \<leftarrow> head_of_req s r; request_finished e r hn True s }
           else request_finished e r Waiting True s
         }
   }"

definition nameserver_up :: "dns_env \<Rightarrow> nat \<Rightarrow> dns_base \<Rightarrow> dns_base option" where
  "nameserver_up e n s = do {
     v \<leftarrow> nameservers s n;
     if ns_state v then Some s
     else do {
       s \<leftarrow> upd_ns n (ns_timer_update (\<lambda>_. None)) s;
       s \<leftarrow> (case probe_request v of
               None \<Rightarrow> Some s
             | Some h \<Rightarrow> do {
                 s \<leftarrow> evdns_cancel_request e h s;
                 upd_ns n (probe_request_update (\<lambda>_. None)) s
               });
       s \<leftarrow> upd_ns n (\<lambda>v. v\<lparr>ns_state := True, failed_times := 0, timedout := 0\<rparr>) s;
       Some (s\<lparr>good_nameservers := good_nameservers s + 1\<rparr>)
     }
   }"

end
