(* ===== verification/EvdnsLookup.thy ===== *)
theory EvdnsLookup
  imports EvdnsResolver
begin

text \<open>
  \<open>evdns.c\<close>, continued: new requests and the search through domains, replies, timeouts, probes,
  callbacks, the events of a name server's socket, and the functions a program calls. A string has no
  zero byte in it.
\<close>

section \<open>New requests\<close>

definition is_alpha :: "u8 \<Rightarrow> bool" where
  "is_alpha c \<longleftrightarrow> 65 \<le> unat c \<and> unat c \<le> 90 \<or> 97 \<le> unat c \<and> unat c \<le> 122"

definition random_case :: "bytes \<Rightarrow> bytes \<Rightarrow> bytes" where
  "random_case randbits name =
     map (\<lambda>i. let c = name ! i in
            if is_alpha c then if bit (randbits ! (i div 8)) (i mod 8) then c OR 0x20 else c AND NOT 0x20 else c)
       [0..<length name]"

text \<open>\<open>request_new\<close>. No more than the bytes that are built are read of the memory for the packet.\<close>

definition request_new :: "dns_env \<Rightarrow> nat option \<Rightarrow> u16 \<Rightarrow> bytes \<Rightarrow> dns_callback \<Rightarrow> dns_base \<Rightarrow> (nat option \<times> dns_base) option" where
  "request_new e handle ty name cb s =
     (let issuing_now = requests_inflight s < max_requests_inflight s
      in do {
        (tid, s) \<leftarrow> (if issuing_now then transaction_id_pick e s else Some (NO_ID, s));
        case allocate e s of
          (None, s) \<Rightarrow> Some (None, s)
        | (Some r, s) \<Rightarrow>
            if length name \<ge> 256 then Some (None, s)
            else do {
              let (b, s) = (if randomize_case s then get_bytes e ((length name + 7) div 8) s else ([], s));
              let name = (if randomize_case s then random_case b name else name);
              (buf, rlen) \<leftarrow> evdns_request_data_build (\<lambda>_. True) name tid ty CLASS_INET
                (replicate (evdns_request_len (length name)) 0) (evdns_request_len (length name));
              if rlen < 0 then Some (None, s)
              else do {
                (ns, s) \<leftarrow> (if issuing_now then nameserver_pick s else Some (None, s));
                let s = s\<lparr>requests := (requests s)(r \<mapsto>
                  \<lparr>packet = buf, request_len = nat rlen, request_type = ty, reissue_count = 0, tx_count = 0,
                   user_callback = cb, req_ns = ns, req_timer = False, trans_id = tid, transmit_me = False,
                   req_handle = handle\<rparr>)\<rparr>;
                s \<leftarrow> (case handle of None \<Rightarrow> Some s | Some h \<Rightarrow> upd_handle h (current_req_update (\<lambda>_. Some r)) s);
                Some (Some r, s)
              }
            }
      })"

definition request_submit :: "dns_env \<Rightarrow> nat \<Rightarrow> dns_base \<Rightarrow> dns_base option" where
  "request_submit e r s = do {
     assert_that (valid_request s r);
     q \<leftarrow> requests s r;
     if req_ns q \<noteq> None then do {
       i \<leftarrow> head_of s (trans_id q);
       s \<leftarrow> evdns_request_insert r (Head i) s;
       (_, s) \<leftarrow> evdns_request_transmit e r (s\<lparr>requests_inflight := requests_inflight s + 1\<rparr>);
       Some s
     } else do {
       s \<leftarrow> evdns_request_insert r Waiting s;
       Some (s\<lparr>requests_waiting := requests_waiting s + 1\<rparr>)
     }
   }"

section \<open>Searching through domains\<close>

definition string_num_dots :: "bytes \<Rightarrow> int" where
  "string_num_dots name = int (length (filter (\<lambda>c. c = 46) name))"

text \<open>\<open>search_state_new\<close>, for the base.\<close>

definition search_state_new :: "dns_env \<Rightarrow> dns_base \<Rightarrow> dns_base" where
  "search_state_new e s =
     (case allocate e s of
        (None, s) \<Rightarrow> s\<lparr>global_search_state := None\<rparr>
      | (Some i, s) \<Rightarrow> s\<lparr>global_search_state := Some i,
          searches := (searches s)(i \<mapsto> \<lparr>refcount = 1, ndots = 1, num_domains = 0, domains = []\<rparr>)\<rparr>)"

definition evdns_base_search_clear :: "dns_env \<Rightarrow> dns_base \<Rightarrow> dns_base option" where
  "evdns_base_search_clear e s = do { s \<leftarrow> search_state_decref (global_search_state s) s; Some (search_state_new e s) }"

definition evdns_base_search_add :: "dns_env \<Rightarrow> bytes \<Rightarrow> dns_base \<Rightarrow> dns_base option" where
  "evdns_base_search_add e domain s =
     (let domain = dropWhile (\<lambda>c. c = 46) domain;
          s = (if global_search_state s = None then search_state_new e s else s)
      in case global_search_state s of
           None \<Rightarrow> Some s
         | Some i \<Rightarrow> do {
             s \<leftarrow> upd_search i (\<lambda>l. l\<lparr>num_domains := num_domains l + 1\<rparr>) s;
             case allocate e s of
               (None, s) \<Rightarrow> Some s
             | (Some _, s) \<Rightarrow> upd_search i (\<lambda>l. l\<lparr>domains := domain # domains l\<rparr>) s
           })"

definition search_reverse :: "dns_base \<Rightarrow> dns_base option" where
  "search_reverse s = do { i \<leftarrow> global_search_state s; upd_search i (\<lambda>l. l\<lparr>domains := rev (domains l)\<rparr>) s }"

definition evdns_base_search_ndots_set :: "dns_env \<Rightarrow> int \<Rightarrow> dns_base \<Rightarrow> dns_base option" where
  "evdns_base_search_ndots_set e n s =
     (let s = (if global_search_state s = None then search_state_new e s else s)
      in case global_search_state s of None \<Rightarrow> Some s | Some i \<Rightarrow> upd_search i (\<lambda>l. l\<lparr>ndots := n\<rparr>) s)"

text \<open>\<open>search_make_new\<close>: the byte before an empty name is read; past the last domain is an assertion.\<close>

definition search_make_new :: "dns_env \<Rightarrow> search_list \<Rightarrow> int \<Rightarrow> bytes \<Rightarrow> dns_base \<Rightarrow> (bytes option \<times> dns_base) option" where
  "search_make_new e l n base_name s =
     (if base_name = [] \<or> n < 0 \<or> n \<ge> int (length (domains l)) then None
      else let new_name = base_name @ (if last base_name = 46 then [] else [46]) @ domains l ! nat n
           in case allocate e s of (None, s) \<Rightarrow> Some (None, s) | (Some _, s) \<Rightarrow> Some (Some new_name, s))"

text \<open>\<open>search_request_new\<close>. When the name cannot be copied, the request is freed while the handle points to it.\<close>

definition search_request_new :: "dns_env \<Rightarrow> nat \<Rightarrow> u16 \<Rightarrow> bytes \<Rightarrow> int \<Rightarrow> dns_callback \<Rightarrow> dns_base \<Rightarrow> dns_base option" where
  "search_request_new e handle ty name flags cb s = do {
     assert_that (ty = TYPE_A \<or> ty = TYPE_AAAA);
     hn \<leftarrow> handles s handle;
     assert_that (current_req hn = None);
     l \<leftarrow> (case global_search_state s of None \<Rightarrow> Some None | Some i \<Rightarrow> map_option Some (searches s i));
     case l of
       Some l \<Rightarrow>
         if even flags \<and> num_domains l \<noteq> 0 then do {
           (new_name, index, s) \<leftarrow>
             (if string_num_dots name \<ge> ndots l then Some (Some name, -1, s)
              else do { (nm, s) \<leftarrow> search_make_new e l 0 name s; Some (nm, 0, s) });
           case new_name of
             None \<Rightarrow> Some s
           | Some new_name \<Rightarrow> do {
               (r, s) \<leftarrow> request_new e (Some handle) ty new_name cb s;
               case r of
                 None \<Rightarrow> Some s
               | Some r \<Rightarrow> do {
                   s \<leftarrow> upd_handle handle (search_index_update (\<lambda>_. index)) s;
                   hn \<leftarrow> handles s handle;
                   assert_that (search_origname hn = None);
                   case allocate e s of
                     (None, s) \<Rightarrow> Some (s\<lparr>requests := (requests s)(r := None)\<rparr>)
                   | (Some _, s) \<Rightarrow> do {
                       s \<leftarrow> upd_handle handle (\<lambda>hn. hn\<lparr>search_origname := Some name,
                              search_state := global_search_state s, search_flags := flags\<rparr>) s;
                       i \<leftarrow> global_search_state s;
                       s \<leftarrow> upd_search i (\<lambda>l. l\<lparr>refcount := refcount l + 1\<rparr>) s;
                       request_submit e r s
                     }
                 }
             }
         } else do {
           (r, s) \<leftarrow> request_new e (Some handle) ty name cb s;
           case r of None \<Rightarrow> Some s | Some r \<Rightarrow> request_submit e r s
         }
     | None \<Rightarrow> do {
         (r, s) \<leftarrow> request_new e (Some handle) ty name cb s;
         case r of None \<Rightarrow> Some s | Some r \<Rightarrow> request_submit e r s
       }
   }"

text \<open>The end of \<open>search_try_next\<close>: the new request takes the place of the old one.\<close>

definition submit_next :: "dns_env \<Rightarrow> nat \<Rightarrow> nat \<Rightarrow> nat \<Rightarrow> dns_base \<Rightarrow> dns_base option" where
  "submit_next e handle r newreq s = do {
     hn \<leftarrow> head_of_req s r;
     s \<leftarrow> request_finished e r hn False s;
     s \<leftarrow> upd_handle handle (current_req_update (\<lambda>_. Some newreq)) s;
     s \<leftarrow> upd_req newreq (req_handle_update (\<lambda>_. Some handle)) s;
     request_submit e newreq s
   }"

text \<open>The result 0 is \<open>True\<close>: another request was submitted.\<close>

definition search_try_next :: "dns_env \<Rightarrow> nat \<Rightarrow> dns_base \<Rightarrow> (bool \<times> dns_base) option" where
  "search_try_next e handle s = do {
     hn \<leftarrow> handles s handle;
     r \<leftarrow> current_req hn;
     q \<leftarrow> requests s r;
     case search_state hn of
       None \<Rightarrow> Some (False, s)
     | Some i \<Rightarrow> do {
         l \<leftarrow> searches s i;
         orig \<leftarrow> search_origname hn;
         s \<leftarrow> upd_handle handle (\<lambda>hn. hn\<lparr>search_index := search_index hn + 1\<rparr>) s;
         let index = search_index hn + 1;
         if index \<ge> num_domains l then
           if string_num_dots orig < ndots l then do {
             (newreq, s) \<leftarrow> request_new e None (request_type q) orig (user_callback q) s;
             case newreq of
               None \<Rightarrow> Some (False, s)
             | Some newreq \<Rightarrow> do {
                 s \<leftarrow> search_request_finished handle s;
                 s \<leftarrow> submit_next e handle r newreq s;
                 Some (True, s)
               }
           } else Some (False, s)
         else do {
           (new_name, s) \<leftarrow> search_make_new e l index orig s;
           case new_name of
             None \<Rightarrow> Some (False, s)
           | Some new_name \<Rightarrow> do {
               (newreq, s) \<leftarrow> request_new e None (request_type q) new_name (user_callback q) s;
               case newreq of
                 None \<Rightarrow> Some (False, s)
               | Some newreq \<Rightarrow> do { s \<leftarrow> submit_next e handle r newreq s; Some (True, s) }
             }
         }
       }
   }"

section \<open>Replies\<close>

text \<open>\<open>request_reissue\<close>: the result 0 is \<open>True\<close>.\<close>

definition request_reissue :: "nat \<Rightarrow> dns_base \<Rightarrow> (bool \<times> dns_base) option" where
  "request_reissue r s = do {
     assert_that (valid_request s r);
     q \<leftarrow> requests s r;
     (picked, s) \<leftarrow> nameserver_pick s;
     s \<leftarrow> upd_req r (req_ns_update (\<lambda>_. picked)) s;
     if picked = req_ns q then Some (False, s)
     else do {
       s \<leftarrow> upd_req r (\<lambda>q. q\<lparr>reissue_count := reissue_count q + 1, tx_count := 0, transmit_me := True\<rparr>) s;
       Some (True, s)
     }
   }"

definition reply_error :: "u16 \<Rightarrow> bool \<Rightarrow> int" where
  "reply_error flags have_reply =
     (if flags AND 0x0200 \<noteq> 0 then DNS_ERR_TRUNCATED
      else if flags AND 0x000f \<noteq> 0 then
        let code = unat (flags AND 0x000f) - 1
        in if code > 4 then DNS_ERR_UNKNOWN
           else [DNS_ERR_FORMAT, DNS_ERR_SERVERFAILED, DNS_ERR_NOTEXIST, DNS_ERR_NOTIMPL, DNS_ERR_REFUSED] ! code
      else if have_reply then DNS_ERR_NODATA
      else DNS_ERR_UNKNOWN)"

text \<open>A good reply: the server is up, and its probe is not to be cancelled if this was it.\<close>

definition good_reply :: "dns_env \<Rightarrow> nat \<Rightarrow> dns_base \<Rightarrow> dns_base option" where
  "good_reply e r s = do {
     q \<leftarrow> requests s r;
     n \<leftarrow> req_ns q;
     v \<leftarrow> nameservers s n;
     s \<leftarrow> (if req_handle q = probe_request v then upd_ns n (probe_request_update (\<lambda>_. None)) s else Some s);
     nameserver_up e n s
   }"

text \<open>The user is told, and the request is finished.\<close>

definition finish_with :: "dns_env \<Rightarrow> nat \<Rightarrow> u32 \<Rightarrow> int \<Rightarrow> dns_base \<Rightarrow> dns_base option" where
  "finish_with e r ttl err s = do {
     s \<leftarrow> reply_schedule_callback e r ttl err None s;
     hn \<leftarrow> head_of_req s r;
     request_finished e r hn True s
   }"

definition reply_failed :: "dns_env \<Rightarrow> nat \<Rightarrow> u32 \<Rightarrow> int \<Rightarrow> dns_base \<Rightarrow> dns_base option" where
  "reply_failed e r ttl err s = do {
     q \<leftarrow> requests s r;
     h \<leftarrow> req_handle q;
     hn \<leftarrow> handles s h;
     if search_state hn \<noteq> None \<and> request_type q \<noteq> TYPE_PTR then do {
       (more, s) \<leftarrow> search_try_next e h s;
       if more then Some s else finish_with e r ttl err s
     } else finish_with e r ttl err s
   }"

definition reply_handle :: "dns_env \<Rightarrow> nat \<Rightarrow> u16 \<Rightarrow> u32 \<Rightarrow> dns_reply option \<Rightarrow> dns_base \<Rightarrow> dns_base option" where
  "reply_handle e r flags ttl reply s = do {
     assert_that (valid_request s r);
     q \<leftarrow> requests s r;
     n \<leftarrow> req_ns q;
     if flags AND 0x020f \<noteq> 0 \<or> (case reply of None \<Rightarrow> True | Some rp \<Rightarrow> \<not> rp_have_answer rp) then
       let err = reply_error flags (reply \<noteq> None)
       in if err = DNS_ERR_NOTIMPL \<or> err = DNS_ERR_REFUSED then
            if reissue_count q < max_reissues s then do {
              s \<leftarrow> nameserver_failed n s;
              (again, s) \<leftarrow> request_reissue r s;
              if again then Some s else reply_failed e r ttl err s
            } else reply_failed e r ttl err s
          else if err = DNS_ERR_SERVERFAILED then reply_failed e r ttl err s
          else do { s \<leftarrow> good_reply e r s; reply_failed e r ttl err s }
     else do {
       s \<leftarrow> reply_schedule_callback e r ttl 0 reply s;
       s \<leftarrow> good_reply e r s;
       hn \<leftarrow> head_of_req s r;
       request_finished e r hn True s
     }
   }"

text \<open>\<open>reply_parse\<close>, with the request it finds: the packet's memory \<open>p\<close> and the bytes received.\<close>

definition asked :: "dns_base \<Rightarrow> nat \<Rightarrow> dns_request option" where
  "asked s r = map_option (\<lambda>q. \<lparr>rq_request = packet q, rq_len = request_len q, rq_type = request_type q\<rparr>) (requests s r)"

definition receive_reply :: "dns_env \<Rightarrow> bytes \<Rightarrow> nat \<Rightarrow> dns_base \<Rightarrow> dns_base option" where
  "receive_reply e p n s =
     (if n < 12 then Some s
      else do {
        found \<leftarrow> request_find_from_trans_id s (le16 (p ! 1) (p ! 0));
        case found of
          None \<Rightarrow> Some s
        | Some r \<Rightarrow> do {
            rq \<leftarrow> asked s r;
            outcome \<leftarrow> reply_parse (\<lambda>_. True) (randomize_case s) (\<lambda>_. Some (rq, False)) p n;
            case outcome of
              No_reply \<Rightarrow> Some s
            | Reply_failed flags _ \<Rightarrow> reply_handle e r flags 0 None s
            | Reply_ok flags rp \<Rightarrow> reply_handle e r flags (rp_ttl rp) (Some rp) s
          }
      })"

end
