(* ===== verification/EvdnsEvents.thy ===== *)
theory EvdnsEvents
  imports EvdnsLookup
begin

text \<open>
  The resolver of \<open>evdns.c\<close>, the rest: what the event loop calls (timeouts, probes, deferred
  callbacks, a socket that can be read or written) and what the program calls. A timer that fires
  is no longer pending when its callback runs.
\<close>

section \<open>Timeouts and probes\<close>

definition evdns_request_timeout_callback :: "dns_env \<Rightarrow> nat \<Rightarrow> dns_base \<Rightarrow> dns_base option" where
  "evdns_request_timeout_callback e r s = do {
     s \<leftarrow> upd_req r (req_timer_update (\<lambda>_. False)) s;
     q \<leftarrow> requests s r;
     n \<leftarrow> req_ns q;
     s \<leftarrow> upd_ns n (\<lambda>v. v\<lparr>timedout := timedout v + 1\<rparr>) s;
     v \<leftarrow> nameservers s n;
     s \<leftarrow> (if timedout v > max_nameserver_timeout s then do {
             s \<leftarrow> upd_ns n (timedout_update (\<lambda>_. 0)) s;
             nameserver_failed n s
           } else Some s);
     q \<leftarrow> requests s r;
     if tx_count q \<ge> max_retransmits s then finish_with e r 0 DNS_ERR_TIMEOUT s
     else do {
       (new_ns, s) \<leftarrow> nameserver_pick s;
       s \<leftarrow> (if new_ns = None then Some s else upd_req r (req_ns_update (\<lambda>_. new_ns)) s);
       (_, s) \<leftarrow> evdns_request_transmit e r s;
       Some s
     }
   }"

definition probe_name :: bytes where
  "probe_name = bytes_of ''google.com''"

definition nameserver_send_probe :: "dns_env \<Rightarrow> nat \<Rightarrow> dns_base \<Rightarrow> dns_base option" where
  "nameserver_send_probe e n s =
     (case allocate e s of
        (None, s) \<Rightarrow> Some s
      | (Some h, s) \<Rightarrow> do {
          let s = s\<lparr>handles := (handles s)(h \<mapsto> \<lparr>current_req = None, pending_cb = False, search_index = 0,
                    search_state = None, search_origname = None, search_flags = 0\<rparr>)\<rparr>;
          (r, s) \<leftarrow> request_new e (Some h) TYPE_A probe_name (Probe n) s;
          case r of
            None \<Rightarrow> Some (s\<lparr>handles := (handles s)(h := None)\<rparr>)
          | Some r \<Rightarrow> do {
              s \<leftarrow> upd_ns n (probe_request_update (\<lambda>_. Some h)) s;
              (tid, s) \<leftarrow> transaction_id_pick e s;
              s \<leftarrow> request_trans_id_set r tid s;
              s \<leftarrow> upd_req r (req_ns_update (\<lambda>_. Some n)) s;
              request_submit e r s
            }
        })"

definition nameserver_prod_callback :: "dns_env \<Rightarrow> nat \<Rightarrow> dns_base \<Rightarrow> dns_base option" where
  "nameserver_prod_callback e n s = do {
     s \<leftarrow> upd_ns n (ns_timer_update (\<lambda>_. None)) s;
     nameserver_send_probe e n s
   }"

definition nameserver_probe_callback :: "dns_env \<Rightarrow> int \<Rightarrow> nat \<Rightarrow> dns_base \<Rightarrow> dns_base option" where
  "nameserver_probe_callback e result n s =
     (if result = DNS_ERR_CANCEL then Some s
      else do {
        s \<leftarrow> upd_ns n (probe_request_update (\<lambda>_. None)) s;
        if result = DNS_ERR_NONE \<or> result = DNS_ERR_NOTEXIST then nameserver_up e n s
        else nameserver_probe_failed n s
      })"

section \<open>Deferred callbacks\<close>

text \<open>\<open>reply_run_callback\<close>, for the first deferred callback of the queue. What the user is told is recorded.\<close>

definition reply_run_callback :: "dns_env \<Rightarrow> dns_base \<Rightarrow> dns_base option" where
  "reply_run_callback e s =
     (case deferreds s of
        [] \<Rightarrow> None
      | d # ds \<Rightarrow> do {
          assert_that (d_type d = TYPE_A \<or> d_type d = TYPE_PTR \<or> d_type d = TYPE_AAAA);
          let s = s\<lparr>deferreds := ds\<rparr>;
          let result = (if d_reply d \<noteq> None then DNS_ERR_NONE else d_err d);
          s \<leftarrow> (case d_callback d of
                  User tag \<Rightarrow> Some (s\<lparr>delivered := delivered s @ [\<lparr>res_tag = tag, res_err = result, res_type = d_type d,
                                   res_ttl = d_ttl d, res_reply = d_reply d\<rparr>]\<rparr>)
                | Probe n \<Rightarrow> nameserver_probe_callback e result n s);
          case d_handle d of
            None \<Rightarrow> Some s
          | Some h \<Rightarrow> do {
              hn \<leftarrow> handles s h;
              Some (if pending_cb hn then s\<lparr>handles := (handles s)(h := None)\<rparr> else s)
            }
        })"

section \<open>The socket of a name server\<close>

datatype recv = Packet sockaddr bytes nat | Recv_again | Recv_error

fun nameserver_read :: "dns_env \<Rightarrow> nat \<Rightarrow> recv list \<Rightarrow> dns_base \<Rightarrow> dns_base option" where
  "nameserver_read e n [] s = Some s"
| "nameserver_read e n (Recv_again # rs) s = Some s"
| "nameserver_read e n (Recv_error # rs) s = nameserver_failed n s"
| "nameserver_read e n (Packet from p len # rs) s = do {
     v \<leftarrow> nameservers s n;
     if evutil_sockaddr_cmp from (ns_address v) False \<noteq> 0 then Some s
     else do {
       s \<leftarrow> upd_ns n (timedout_update (\<lambda>_. 0)) s;
       s \<leftarrow> receive_reply e p len s;
       nameserver_read e n rs s
     }
   }"

definition nameserver_ready_callback :: "dns_env \<Rightarrow> nat \<Rightarrow> bool \<Rightarrow> bool \<Rightarrow> recv list \<Rightarrow> dns_base \<Rightarrow> dns_base option" where
  "nameserver_ready_callback e n writable readable rs s = do {
     s \<leftarrow> (if writable then do {
             s \<leftarrow> upd_ns n (choked_update (\<lambda>_. False)) s;
             (tried, s) \<leftarrow> evdns_transmit e s;
             if tried then Some s else nameserver_write_waiting n False s
           } else Some s);
     if readable then nameserver_read e n rs s else Some s
   }"

section \<open>Name servers added and removed\<close>

definition evdns_base_count_nameservers :: "dns_base \<Rightarrow> int" where
  "evdns_base_count_nameservers s = int (length (server_ring s))"

fun known_server :: "dns_base \<Rightarrow> sockaddr \<Rightarrow> nat list \<Rightarrow> bool option" where
  "known_server s a [] = Some False"
| "known_server s a (n # ns) =
     (case nameservers s n of
        None \<Rightarrow> None
      | Some v \<Rightarrow> if evutil_sockaddr_cmp (ns_address v) a True = 0 then Some True else known_server s a ns)"

text \<open>\<open>_evdns_nameserver_add_impl\<close>: whether a socket can be had and bound to the outgoing address is outside.\<close>

definition evdns_nameserver_add_impl :: "dns_env \<Rightarrow> bool \<Rightarrow> bool \<Rightarrow> sockaddr \<Rightarrow> dns_base \<Rightarrow> (int \<times> dns_base) option" where
  "evdns_nameserver_add_impl e can_open can_bind a s = do {
     known \<leftarrow> known_server s a (server_ring s);
     if known then Some (3, s)
     else (case allocate e s of
        (None, s) \<Rightarrow> Some (-1, s)
      | (Some n, s) \<Rightarrow>
          if \<not> can_open then Some (1, s)
          else if outgoing_address s \<noteq> None \<and> \<not> evutil_sockaddr_is_loopback a \<and> \<not> can_bind then Some (2, s)
          else Some (0, s\<lparr>nameservers := (nameservers s)(n \<mapsto>
              \<lparr>ns_address = a, failed_times = 0, timedout = 0, ns_timer = None, probe_request = None, ns_state = True,
               choked = False, write_waiting = False\<rparr>),
            server_ring := (case server_ring s of [] \<Rightarrow> [n] | m # ms \<Rightarrow> m # n # ms),
            good_nameservers := good_nameservers s + 1\<rparr>))
   }"

fun setport :: "sockaddr \<Rightarrow> u16 \<Rightarrow> sockaddr" where
  "setport (Sin a _) p = Sin a p"
| "setport (Sin6 a _) p = Sin6 a p"
| "setport (Sother f) p = Sother f"

fun getport :: "sockaddr \<Rightarrow> u16" where
  "getport (Sin _ p) = p"
| "getport (Sin6 _ p) = p"
| "getport (Sother _) = 0"

text \<open>\<open>evdns_base_clear_nameservers_and_suspend\<close>. The ring keeps the servers that were freed until the end.\<close>

definition clear_server :: "dns_env \<Rightarrow> nat \<Rightarrow> dns_base \<Rightarrow> dns_base option" where
  "clear_server e n s = do {
     s \<leftarrow> upd_ns n (ns_timer_update (\<lambda>_. None)) s;
     v \<leftarrow> nameservers s n;
     s \<leftarrow> (case probe_request v of
             None \<Rightarrow> Some s
           | Some h \<Rightarrow> do { s \<leftarrow> evdns_cancel_request e h s; upd_ns n (probe_request_update (\<lambda>_. None)) s });
     Some (s\<lparr>nameservers := (nameservers s)(n := None)\<rparr>)
   }"

definition suspend_request :: "nat \<Rightarrow> dns_base \<Rightarrow> dns_base option" where
  "suspend_request r s = do {
     s \<leftarrow> upd_req r (\<lambda>q. q\<lparr>tx_count := 0, reissue_count := 0, req_ns := None, req_timer := False, trans_id := 0, transmit_me := False\<rparr>) s;
     assert_that (valid_request s r);
     Some (s\<lparr>requests_waiting := requests_waiting s + 1, req_waiting := r # req_waiting s\<rparr>)
   }"

definition evdns_base_clear_nameservers_and_suspend :: "dns_env \<Rightarrow> dns_base \<Rightarrow> dns_base option" where
  "evdns_base_clear_nameservers_and_suspend e s =
     (if server_ring s = [] then Some s
      else do {
        s \<leftarrow> each (clear_server e) (server_ring s) s;
        s \<leftarrow> each suspend_request (concat (req_heads s)) (s\<lparr>server_ring := [], good_nameservers := 0\<rparr>);
        Some (s\<lparr>req_heads := map (\<lambda>_. []) (req_heads s), requests_inflight := 0\<rparr>)
      })"

definition evdns_base_resume :: "dns_env \<Rightarrow> dns_base \<Rightarrow> dns_base option" where
  "evdns_base_resume e s = evdns_requests_pump_waiting_queue e s"

section \<open>The program's calls\<close>

definition new_handle :: dns_handle where
  "new_handle = \<lparr>current_req = None, pending_cb = False, search_index = 0, search_state = None, search_origname = None, search_flags = 0\<rparr>"

text \<open>What the functions below have in common: a handle, a request made with it, and the handle freed without one.\<close>

definition with_handle :: "dns_env \<Rightarrow> (nat \<Rightarrow> dns_base \<Rightarrow> dns_base option) \<Rightarrow> dns_base \<Rightarrow> (nat option \<times> dns_base) option" where
  "with_handle e ask s =
     (case allocate e s of
        (None, s) \<Rightarrow> Some (None, s)
      | (Some h, s) \<Rightarrow> do {
          s \<leftarrow> ask h (s\<lparr>handles := (handles s)(h \<mapsto> new_handle)\<rparr>);
          hn \<leftarrow> handles s h;
          Some (if current_req hn = None then (None, s\<lparr>handles := (handles s)(h := None)\<rparr>) else (Some h, s))
        })"

definition ask_once :: "dns_env \<Rightarrow> u16 \<Rightarrow> bytes \<Rightarrow> nat \<Rightarrow> nat \<Rightarrow> dns_base \<Rightarrow> dns_base option" where
  "ask_once e ty name tag h s = do {
     (r, s) \<leftarrow> request_new e (Some h) ty name (User tag) s;
     case r of None \<Rightarrow> Some s | Some r \<Rightarrow> request_submit e r s
   }"

text \<open>\<open>evdns_base_resolve_ipv4\<close> and \<open>evdns_base_resolve_ipv6\<close>, for the two types.\<close>

definition evdns_base_resolve :: "dns_env \<Rightarrow> u16 \<Rightarrow> bytes \<Rightarrow> int \<Rightarrow> nat \<Rightarrow> dns_base \<Rightarrow> (nat option \<times> dns_base) option" where
  "evdns_base_resolve e ty name flags tag =
     with_handle e (\<lambda>h. if odd flags then ask_once e ty name tag h else search_request_new e h ty name flags (User tag))"

definition reverse_name :: "u32 \<Rightarrow> bytes" where
  "reverse_name s_addr =
     (let a = ntohl s_addr; part = (\<lambda>k. dec (unat (drop_bit k a AND 0xff)))
      in part 0 @ [46] @ part 8 @ [46] @ part 16 @ [46] @ part 24 @ bytes_of ''.in-addr.arpa'')"

definition reverse_name6 :: "bytes \<Rightarrow> bytes" where
  "reverse_name6 a = concat (map (\<lambda>b. [hex_digit (unat b mod 16), 46, hex_digit (unat b div 16), 46]) (rev (take 16 a))) @ bytes_of ''ip6.arpa''"

definition evdns_base_resolve_reverse :: "dns_env \<Rightarrow> u32 \<Rightarrow> nat \<Rightarrow> dns_base \<Rightarrow> (nat option \<times> dns_base) option" where
  "evdns_base_resolve_reverse e a tag = with_handle e (ask_once e TYPE_PTR (reverse_name a) tag)"

definition evdns_base_resolve_reverse_ipv6 :: "dns_env \<Rightarrow> bytes \<Rightarrow> nat \<Rightarrow> dns_base \<Rightarrow> (nat option \<times> dns_base) option" where
  "evdns_base_resolve_reverse_ipv6 e a tag = with_handle e (ask_once e TYPE_PTR (reverse_name6 a) tag)"

section \<open>The base\<close>

text \<open>A request in flight put into the head it has among \<open>n\<close>.\<close>

definition rehash :: "nat \<Rightarrow> nat \<Rightarrow> dns_base \<Rightarrow> dns_base option" where
  "rehash n r s = do {
     assert_that (valid_request s r);
     q \<leftarrow> requests s r;
     let i = unat (trans_id q) mod n;
     Some (s\<lparr>req_heads := (req_heads s)[i := req_heads s ! i @ [r]]\<rparr>)
   }"

definition evdns_base_set_max_requests_inflight :: "dns_env \<Rightarrow> int \<Rightarrow> dns_base \<Rightarrow> (int \<times> dns_base) option" where
  "evdns_base_set_max_requests_inflight e maxinflight s =
     (let maxinflight = max 1 maxinflight; n_heads = nat ((maxinflight + 4) div 5)
      in case allocate e s of
           (None, s) \<Rightarrow> Some (-1, s)
         | (Some _, s) \<Rightarrow> do {
             s \<leftarrow> each (rehash n_heads) (concat (req_heads s)) (s\<lparr>req_heads := replicate n_heads []\<rparr>);
             Some (0, s\<lparr>max_requests_inflight := maxinflight\<rparr>)
           })"

text \<open>\<open>evdns_base_new\<close>, without name servers. What the first heads could not be allocated for is not tested.\<close>

definition empty_base :: dns_base where
  "empty_base = \<lparr>req_heads = [], req_waiting = [], server_ring = [], good_nameservers = 0, requests_inflight = 0,
     requests_waiting = 0, max_requests_inflight = 0, global_timeout = (5, 0), max_reissues = 1, max_retransmits = 3,
     max_nameserver_timeout = 3, randomize_case = True, probe_initial_timeout = (10, 0), global_search_state = None,
     outgoing_address = None, requests = (\<lambda>_. None), nameservers = (\<lambda>_. None), handles = (\<lambda>_. None), searches = (\<lambda>_. None),
     deferreds = [], serial = 0, randoms = 0, sent = [], delivered = []\<rparr>"

definition evdns_base_new :: "dns_env \<Rightarrow> dns_base option" where
  "evdns_base_new e =
     (case allocate e empty_base of
        (None, s) \<Rightarrow> None
      | (Some _, s) \<Rightarrow> map_option snd (evdns_base_set_max_requests_inflight e 64 s))"

text \<open>\<open>evdns_base_free\<close>: what is left are the callbacks that were scheduled.\<close>

definition free_server :: "dns_env \<Rightarrow> nat \<Rightarrow> dns_base \<Rightarrow> dns_base option" where
  "free_server e n s = do {
     v \<leftarrow> nameservers s n;
     s \<leftarrow> (case probe_request v of
             None \<Rightarrow> Some s
           | Some h \<Rightarrow> do { s \<leftarrow> evdns_cancel_request e h s; upd_ns n (probe_request_update (\<lambda>_. None)) s });
     Some (s\<lparr>nameservers := (nameservers s)(n := None)\<rparr>)
   }"

text \<open>The walk around the ring ends when the next server is the head, which the cancelled probes may have moved.\<close>

fun free_servers :: "dns_env \<Rightarrow> nat \<Rightarrow> nat list \<Rightarrow> dns_base \<Rightarrow> dns_base option" where
  "free_servers e first [] s = None"
| "free_servers e first (n # ns) s = do {
     s \<leftarrow> free_server e n s;
     if (case ns of [] \<Rightarrow> first | m # _ \<Rightarrow> m) = hd (server_ring s) then Some s else free_servers e first ns s
   }"

partial_function (option) fail_list :: "dns_env \<Rightarrow> bool \<Rightarrow> head \<Rightarrow> dns_base \<Rightarrow> dns_base option" where
  "fail_list e fail_requests hn s =
     (case list_at hn s of
        [] \<Rightarrow> Some s
      | r # _ \<Rightarrow> do {
          s \<leftarrow> (if fail_requests then reply_schedule_callback e r 0 DNS_ERR_SHUTDOWN None s else Some s);
          hr \<leftarrow> (if hn = Waiting then Some Waiting else head_of_req s r);
          s \<leftarrow> request_finished e r hr True s;
          fail_list e fail_requests hn s
        })"

declare fail_list.simps [code]

definition evdns_base_free :: "dns_env \<Rightarrow> bool \<Rightarrow> dns_base \<Rightarrow> dns_deferred list option" where
  "evdns_base_free e fail_requests s = do {
     s \<leftarrow> (if server_ring s = [] then Some s else free_servers e (hd (server_ring s)) (server_ring s) s);
     let s = s\<lparr>server_ring := [], good_nameservers := 0\<rparr>;
     s \<leftarrow> each (\<lambda>i. fail_list e fail_requests (Head i)) [0..<length (req_heads s)] s;
     s \<leftarrow> fail_list e fail_requests Waiting s;
     Some (deferreds s)
   }"

end
