(* ===== verification/EvdnsNet.thy ===== *)
theory EvdnsNet
  imports EvdnsEvents "HOL-Library.Multiset"
begin

text \<open>
  The invariant of the resolver's lists and name servers, and that choosing a server, marking one as
  down, transmitting and moving waiting requests into flight return and keep it. \<open>returns m P\<close> says
  that \<open>m\<close> is defined and its result satisfies \<open>P\<close>; one rule per construct takes it through a function.
\<close>

section \<open>Returning\<close>

definition returns :: "'a option \<Rightarrow> ('a \<Rightarrow> bool) \<Rightarrow> bool" where
  "returns m P \<longleftrightarrow> (\<exists>x. m = Some x \<and> P x)"

named_theorems ret

lemma returns_Some [simp, ret]: "returns (Some x) P \<longleftrightarrow> P x"
  by (simp add: returns_def)

lemma returns_None [simp, ret]: "\<not> returns None P"
  by (simp add: returns_def)

lemma returns_bind [simp, ret]: "returns (Option.bind m f) P \<longleftrightarrow> returns m (\<lambda>x. returns (f x) P)"
  by (cases m) (auto simp: returns_def)

lemma returns_if [ret]: "returns (if b then m else n) P \<longleftrightarrow> (b \<longrightarrow> returns m P) \<and> (\<not> b \<longrightarrow> returns n P)"
  by simp

lemma returns_assert [simp, ret]: "returns (assert_that b) P \<longleftrightarrow> b \<and> P ()"
  by (simp add: assert_that_def)

lemma returns_mono: "returns m P \<Longrightarrow> (\<And>x. P x \<Longrightarrow> Q x) \<Longrightarrow> returns m Q"
  by (auto simp: returns_def)

lemma returns_pair: "returns m (\<lambda>(a, s). P a s) \<Longrightarrow> (\<And>a s. P a s \<Longrightarrow> Q (a, s)) \<Longrightarrow> returns m Q"
  by (auto simp: returns_def)

lemma returns_each:
  assumes "\<And>x s. x \<in> set xs \<Longrightarrow> P s \<Longrightarrow> returns (f x s) P" "P s"
  shows "returns (each f xs s) P"
  using assms by (induction xs arbitrary: s) (auto intro: returns_mono)

section \<open>The invariant of the lists\<close>

definition inflight :: "dns_base \<Rightarrow> nat list" where
  "inflight s = concat (req_heads s)"

definition listed :: "dns_base \<Rightarrow> nat set" where
  "listed s = set (inflight s) \<union> set (req_waiting s)"

definition ns_up :: "dns_base \<Rightarrow> nat \<Rightarrow> bool" where
  "ns_up s n \<longleftrightarrow> (case nameservers s n of None \<Rightarrow> False | Some v \<Rightarrow> ns_state v)"

definition someone_writes :: "dns_base \<Rightarrow> bool" where
  "someone_writes s \<longleftrightarrow> (\<exists>n \<in> set (server_ring s). \<exists>v. nameservers s n = Some v \<and> write_waiting v)"

text \<open>A request in flight has a server, and a timer or somebody who will send it; unless it is exempt.\<close>

definition flying :: "nat set \<Rightarrow> dns_base \<Rightarrow> nat \<Rightarrow> nat \<Rightarrow> bool" where
  "flying X s i r \<longleftrightarrow> valid_request s r \<and>
     (\<exists>q. requests s r = Some q \<and> unat (trans_id q) mod length (req_heads s) = i \<and> trans_id q \<noteq> NO_ID \<and>
        (\<exists>n \<in> set (server_ring s). req_ns q = Some n) \<and> (r \<in> X \<or> req_timer q \<or> transmit_me q \<and> someone_writes s))"

definition resting :: "dns_base \<Rightarrow> nat \<Rightarrow> bool" where
  "resting s r \<longleftrightarrow> valid_request s r \<and> (\<exists>q. requests s r = Some q \<and> req_ns q = None \<and> \<not> req_timer q)"

definition server_ok :: "dns_base \<Rightarrow> nat \<Rightarrow> bool" where
  "server_ok s n \<longleftrightarrow> (\<exists>v. nameservers s n = Some v \<and> (choked v \<longrightarrow> write_waiting v))"

definition net :: "nat set \<Rightarrow> dns_base \<Rightarrow> bool" where
  "net X s \<longleftrightarrow> req_heads s \<noteq> [] \<and> distinct (inflight s @ req_waiting s) \<and> distinct (server_ring s) \<and>
     (\<forall>n \<in> set (server_ring s). server_ok s n) \<and>
     good_nameservers s = int (length (filter (ns_up s) (server_ring s))) \<and>
     requests_inflight s = int (length (inflight s)) \<and> requests_waiting s = int (length (req_waiting s)) \<and>
     (\<forall>i < length (req_heads s). \<forall>r \<in> set (req_heads s ! i). flying X s i r) \<and>
     (\<forall>r \<in> set (req_waiting s). resting s r)"

lemma netD:
  assumes "net X s"
  shows "req_heads s \<noteq> []" "distinct (inflight s @ req_waiting s)" "distinct (server_ring s)"
    "n \<in> set (server_ring s) \<Longrightarrow> server_ok s n"
    "good_nameservers s = int (length (filter (ns_up s) (server_ring s)))"
    "requests_inflight s = int (length (inflight s))" "requests_waiting s = int (length (req_waiting s))"
    "i < length (req_heads s) \<Longrightarrow> r \<in> set (req_heads s ! i) \<Longrightarrow> flying X s i r"
    "r \<in> set (req_waiting s) \<Longrightarrow> resting s r"
  using assms by (auto simp: net_def)

lemma netI:
  assumes "req_heads s \<noteq> []" "distinct (inflight s @ req_waiting s)" "distinct (server_ring s)"
    "\<And>n. n \<in> set (server_ring s) \<Longrightarrow> server_ok s n"
    "good_nameservers s = int (length (filter (ns_up s) (server_ring s)))"
    "requests_inflight s = int (length (inflight s))" "requests_waiting s = int (length (req_waiting s))"
    "\<And>i r. i < length (req_heads s) \<Longrightarrow> r \<in> set (req_heads s ! i) \<Longrightarrow> flying X s i r"
    "\<And>r. r \<in> set (req_waiting s) \<Longrightarrow> resting s r"
  shows "net X s"
  using assms by (auto simp: net_def)

lemma inflight_head: "r \<in> set (inflight s) \<longleftrightarrow> (\<exists>i < length (req_heads s). r \<in> set (req_heads s ! i))"
  by (simp add: inflight_def) (metis in_set_conv_nth)

lemma inflight_listed: "r \<in> set (inflight s) \<Longrightarrow> r \<in> listed s"
  by (simp add: listed_def)

lemma net_inflight: "net X s \<Longrightarrow> r \<in> set (inflight s) \<Longrightarrow> \<exists>i < length (req_heads s). r \<in> set (req_heads s ! i) \<and> flying X s i r"
  by (auto simp: inflight_head dest: netD(8))

lemma net_listed_valid: "net X s \<Longrightarrow> r \<in> listed s \<Longrightarrow> valid_request s r"
  using net_inflight [of X s r] netD(9) [of X s r] by (auto simp: listed_def flying_def resting_def)

lemma valid_request_iff:
  "valid_request s r \<longleftrightarrow> (\<exists>q h hn. requests s r = Some q \<and> req_handle q = Some h \<and> handles s h = Some hn \<and> current_req hn = Some r)"
  by (auto simp: valid_request_def split: option.splits)

lemma net_cong:
  assumes "req_heads t = req_heads s" "req_waiting t = req_waiting s" "server_ring t = server_ring s"
    "nameservers t = nameservers s" "good_nameservers t = good_nameservers s" "requests_inflight t = requests_inflight s"
    "requests_waiting t = requests_waiting s" "requests t = requests s" "handles t = handles s"
  shows "net X t = net X s"
proof -
  have "valid_request t r = valid_request s r" "ns_up t = ns_up s" "server_ok t n = server_ok s n"
    "someone_writes t = someone_writes s" for r n
    using assms by (auto simp: valid_request_iff ns_up_def [abs_def] server_ok_def someone_writes_def)
  then have "flying X t i r = flying X s i r" "resting t r = resting s r" "ns_up t = ns_up s" "server_ok t n = server_ok s n" for i r n
    using assms by (auto simp: flying_def resting_def)
  then show ?thesis using assms by (simp add: net_def inflight_def)
qed

text \<open>What these functions do not change, and that a server they take down gets a timer.\<close>

definition core :: "request \<Rightarrow> dns_callback \<times> nat option \<times> u16" where
  "core q = (user_callback q, req_handle q, request_type q)"

definition same_objects :: "dns_base \<Rightarrow> dns_base \<Rightarrow> bool" where
  "same_objects s s' \<longleftrightarrow> handles s' = handles s \<and> searches s' = searches s \<and> global_search_state s' = global_search_state s \<and>
     deferreds s' = deferreds s \<and> delivered s' = delivered s \<and> serial s' = serial s \<and>
     (\<forall>r. map_option core (requests s' r) = map_option core (requests s r)) \<and>
     set (server_ring s') = set (server_ring s) \<and> max_requests_inflight s' = max_requests_inflight s \<and>
     length (req_heads s') = length (req_heads s)"

definition server_step :: "nameserver option \<Rightarrow> nameserver option \<Rightarrow> bool" where
  "server_step v v' \<longleftrightarrow> (case (v, v') of
       (None, None) \<Rightarrow> True
     | (Some v, Some v') \<Rightarrow> probe_request v' = probe_request v \<and> (ns_state v' \<longrightarrow> ns_state v) \<and>
         (ns_state v' \<or> ns_timer v' \<noteq> None \<or> \<not> ns_state v \<and> ns_timer v' = ns_timer v)
     | _ \<Rightarrow> False)"

definition quiet :: "dns_base \<Rightarrow> dns_base \<Rightarrow> bool" where
  "quiet s s' \<longleftrightarrow> same_objects s s' \<and> listed s' = listed s \<and> (\<forall>n. server_step (nameservers s n) (nameservers s' n)) \<and>
     (\<forall>r. r \<notin> listed s \<longrightarrow> requests s' r = requests s r)"

lemma server_step_refl [simp]: "server_step v v"
  by (auto simp: server_step_def split: option.splits)

lemma server_step_trans: "server_step a b \<Longrightarrow> server_step b c \<Longrightarrow> server_step a c"
  by (auto simp: server_step_def split: option.splits)

lemma quiet_refl [simp]: "quiet s s"
  by (simp add: quiet_def same_objects_def)

lemma quiet_trans: "quiet s t \<Longrightarrow> quiet t u \<Longrightarrow> quiet s u"
  unfolding quiet_def same_objects_def using server_step_trans by (metis (no_types, lifting))

lemma valid_request_core:
  "handles s' = handles s \<Longrightarrow> map_option core (requests s' r) = map_option core (requests s r) \<Longrightarrow>
     valid_request s' r = valid_request s r"
  by (auto simp: valid_request_def core_def split: option.splits)

lemma same_valid: "same_objects s s' \<Longrightarrow> valid_request s' r = valid_request s r"
  by (rule valid_request_core) (auto simp: same_objects_def)

lemma upd_req_Some: "requests s r = Some q \<Longrightarrow> upd_req r f s = Some (s\<lparr>requests := (requests s)(r \<mapsto> f q)\<rparr>)"
  by (simp add: upd_req_def)

lemma upd_ns_Some: "nameservers s n = Some v \<Longrightarrow> upd_ns n f s = Some (s\<lparr>nameservers := (nameservers s)(n \<mapsto> f v)\<rparr>)"
  by (simp add: upd_ns_def)

lemma upd_handle_Some: "handles s h = Some hn \<Longrightarrow> upd_handle h f s = Some (s\<lparr>handles := (handles s)(h \<mapsto> f hn)\<rparr>)"
  by (simp add: upd_handle_def)

lemma upd_search_Some: "searches s i = Some l \<Longrightarrow> upd_search i f s = Some (s\<lparr>searches := (searches s)(i \<mapsto> f l)\<rparr>)"
  by (simp add: upd_search_def)

section \<open>Choosing a server\<close>

lemma net_ring:
  assumes "net X s" "mset ring = mset (server_ring s)"
  shows "net X (s\<lparr>server_ring := ring\<rparr>)" "quiet s (s\<lparr>server_ring := ring\<rparr>)"
proof -
  let ?t = "s\<lparr>server_ring := ring\<rparr>"
  have set: "set ring = set (server_ring s)" using assms(2) by (metis set_mset_mset)
  have d: "distinct ring" using netD(3) [OF assms(1)] assms(2) by (metis distinct_count_atmost_1 set_mset_mset)
  have len: "length (filter (ns_up ?t) ring) = length (filter (ns_up s) (server_ring s))"
    using arg_cong [OF assms(2), of "\<lambda>m. size (filter_mset (ns_up s) m)"]
    by (simp add: ns_up_def [abs_def] flip: size_mset mset_filter)
  have f: "flying X ?t i r = flying X s i r" "resting ?t r = resting s r" "server_ok ?t n = server_ok s n" for i r n
    by (simp_all add: flying_def resting_def server_ok_def someone_writes_def valid_request_iff set)
  show "net X ?t"
    using assms(1) d len set unfolding net_def f by (simp add: inflight_def)
  show "quiet s ?t"
    by (simp add: quiet_def same_objects_def listed_def inflight_def set)
qed

lemma pick_walk_finds:
  "(\<exists>n \<in> set ns. ns_up s n) \<Longrightarrow> (\<forall>n \<in> set ns. server_ok s n) \<Longrightarrow>
     \<exists>n ring. pick_walk s passed ns = Some (n, ring) \<and> n \<in> set ns \<and> ns_up s n \<and> mset ring = mset (passed @ ns)"
proof (induction ns arbitrary: passed)
  case (Cons a ns)
  then obtain v where v: "nameservers s a = Some v" by (auto simp: server_ok_def)
  show ?case
  proof (cases "ns_state v")
    case True then show ?thesis using v by (simp add: ns_up_def)
  next
    case False
    then have "\<exists>n \<in> set ns. ns_up s n" using Cons.prems(1) v by (auto simp: ns_up_def)
    from Cons.IH [OF this, of "passed @ [a]"] Cons.prems(2) v False show ?thesis by fastforce
  qed
qed simp

lemma good_positive: "net X s \<Longrightarrow> good_nameservers s \<noteq> 0 \<Longrightarrow> \<exists>n \<in> set (server_ring s). ns_up s n"
  using netD(5) [of X s] filter_False [of "server_ring s" "ns_up s"] by fastforce

lemma up_is_good: "net X s \<Longrightarrow> n \<in> set (server_ring s) \<Longrightarrow> ns_up s n \<Longrightarrow> 1 \<le> good_nameservers s"
  using netD(5) [of X s] by (metis (mono_tags, lifting) One_nat_def Suc_leI filter_empty_conv length_greater_0_conv of_nat_1 of_nat_le_iff)

lemma pick_ok:
  assumes "net X s"
  shows "returns (nameserver_pick s) (\<lambda>(p, s'). net X s' \<and> quiet s s' \<and>
           (\<exists>ring. s' = s\<lparr>server_ring := ring\<rparr> \<and> mset ring = mset (server_ring s)) \<and>
           (p = None \<longleftrightarrow> server_ring s = []) \<and> (\<forall>n. p = Some n \<longrightarrow> n \<in> set (server_ring s)))"
proof (cases "server_ring s = []")
  case True
  then show ?thesis using assms by (auto simp: nameserver_pick_def intro!: exI [of _ "[]"])
next
  case ring: False
  show ?thesis
  proof (cases "good_nameservers s = 0")
    case True
    obtain v where v: "nameservers s (hd (server_ring s)) = Some v"
      using netD(4) [OF assms hd_in_set [OF ring]] by (auto simp: server_ok_def)
    have m: "mset (rotate1 (server_ring s)) = mset (server_ring s)"
      by (cases "server_ring s") simp_all
    have "hd (rotate1 (server_ring s)) \<in> set (server_ring s)"
      using ring by (metis hd_in_set rotate1_is_Nil_conv set_rotate1)
    then show ?thesis using net_ring [OF assms m] m ring True v by (auto simp: nameserver_pick_def)
  next
    case False
    from pick_walk_finds [OF good_positive [OF assms False], of "[]"] netD(4) [OF assms]
    obtain n r where p: "pick_walk s [] (server_ring s) = Some (n, r)" "n \<in> set (server_ring s)" "mset r = mset (server_ring s)"
      by auto
    then show ?thesis using net_ring [OF assms p(3)] ring False by (auto simp: nameserver_pick_def)
  qed
qed

section \<open>Choosing a transaction\<close>

text \<open>Every number comes up again, wherever the reading of random bytes has got to.\<close>

definition fair_random :: "dns_env \<Rightarrow> bool" where
  "fair_random e \<longleftrightarrow> (\<forall>c tid. \<exists>k. le16 (env_random e (c + 2 * k)) (env_random e (c + 2 * k + 1)) = tid)"

definition room :: "dns_base \<Rightarrow> bool" where
  "room s \<longleftrightarrow> card (listed s) < 65500"

lemma find_id_total:
  "\<forall>r \<in> set rs. requests s r \<noteq> None \<Longrightarrow>
     \<exists>f. find_id s tid rs = Some f \<and> (f = None \<longleftrightarrow> (\<forall>r \<in> set rs. trans_id (the (requests s r)) \<noteq> tid)) \<and> (\<forall>r. f = Some r \<longrightarrow> r \<in> set rs)"
proof (induction rs)
  case (Cons a rs)
  then obtain q where q: "requests s a = Some q" by auto
  show ?case using Cons q by (cases "trans_id q = tid") auto
qed simp

text \<open>What choosing a number needs of the lists.\<close>

definition ids_ok :: "dns_base \<Rightarrow> bool" where
  "ids_ok s \<longleftrightarrow> req_heads s \<noteq> [] \<and> (\<forall>r \<in> set (inflight s). requests s r \<noteq> None)"

lemma net_ids_ok: "net X s \<Longrightarrow> ids_ok s"
  using netD(1) [of X s] by (auto simp: ids_ok_def flying_def dest!: net_inflight)

lemma find_total:
  assumes "ids_ok s"
  shows "\<exists>f. request_find_from_trans_id s tid = Some f \<and>
           ((\<forall>r \<in> set (inflight s). trans_id (the (requests s r)) \<noteq> tid) \<longrightarrow> f = None) \<and> (\<forall>r. f = Some r \<longrightarrow> r \<in> set (inflight s))"
proof -
  let ?i = "unat tid mod length (req_heads s)"
  have i: "?i < length (req_heads s)" using assms by (simp add: ids_ok_def)
  have "\<forall>r \<in> set (req_heads s ! ?i). requests s r \<noteq> None" using assms i by (auto simp: ids_ok_def inflight_head)
  from find_id_total [OF this, of tid] obtain f where
    f: "find_id s tid (req_heads s ! ?i) = Some f" "f = None \<longleftrightarrow> (\<forall>r \<in> set (req_heads s ! ?i). trans_id (the (requests s r)) \<noteq> tid)"
      "\<forall>r. f = Some r \<longrightarrow> r \<in> set (req_heads s ! ?i)"
    by blast
  have "set (req_heads s ! ?i) \<subseteq> set (inflight s)" using i by (auto simp: inflight_head)
  then show ?thesis using f assms
    by (intro exI [of _ f]) (auto simp: request_find_from_trans_id_def head_of_def ids_ok_def)
qed

lemma net_randoms [simp]: "net X (s\<lparr>randoms := k\<rparr>) = net X s" "listed (s\<lparr>randoms := k\<rparr>) = listed s"
  by (rule net_cong, simp_all) (simp add: listed_def inflight_def)

lemma quiet_randoms [simp]: "quiet s (s\<lparr>randoms := k\<rparr>)"
  by (simp add: quiet_def same_objects_def)

lemma free_id:
  assumes "finite (A :: nat set)" "card A < 65535"
  shows "\<exists>t :: u16. t \<noteq> NO_ID \<and> (\<forall>r \<in> A. f r \<noteq> t)"
proof (rule ccontr)
  assume "\<not> ?thesis"
  then have "UNIV \<subseteq> insert NO_ID (f ` A)" by auto
  moreover have "card (insert NO_ID (f ` A)) < 65536"
    using assms card_image_le [OF assms(1), of f] by (simp add: card_insert_if)
  moreover have "card (UNIV :: u16 set) = 65536" by (simp add: card_word)
  ultimately show False using assms(1) by (metis card_mono finite_imageI finite_insert not_less)
qed

lemma get_two: "get_bytes e 2 s = ([env_random e (randoms s), env_random e (randoms s + 1)], s\<lparr>randoms := randoms s + 2\<rparr>)"
  by (simp add: get_bytes_def upt_rec numeral_2_eq_2)

lemma ids_ok_randoms [simp]: "ids_ok (s\<lparr>randoms := k\<rparr>) = ids_ok s"
  by (simp add: ids_ok_def inflight_def)

lemma transaction_id_pick_finds:
  assumes "ids_ok s" "t \<noteq> NO_ID" "\<forall>r \<in> set (inflight s). trans_id (the (requests s r)) \<noteq> t"
    and "le16 (env_random e (randoms s + 2 * k)) (env_random e (randoms s + 2 * k + 1)) = t"
  shows "\<exists>t' c. transaction_id_pick e s = Some (t', s\<lparr>randoms := c\<rparr>) \<and> t' \<noteq> NO_ID"
  using assms
proof (induction k arbitrary: s)
  case 0
  have n: "ids_ok (s\<lparr>randoms := randoms s + 2\<rparr>)" using 0 by simp
  from find_total [OF n, of t] 0(2-4) show ?case
    by (subst transaction_id_pick.simps) (auto simp: get_two inflight_def)
next
  case (Suc k)
  let ?s = "s\<lparr>randoms := randoms s + 2\<rparr>"
  let ?t = "le16 (env_random e (randoms s)) (env_random e (randoms s + 1))"
  have n: "ids_ok ?s" using Suc.prems by simp
  obtain f where f: "request_find_from_trans_id ?s ?t = Some f" using find_total [OF n] by blast
  have "\<exists>t' c. transaction_id_pick e ?s = Some (t', ?s\<lparr>randoms := c\<rparr>) \<and> t' \<noteq> NO_ID"
    using Suc.IH [OF n Suc.prems(2)] Suc.prems(3,4) by (simp add: inflight_def add.assoc)
  then show ?case using f by (subst transaction_id_pick.simps) (auto simp: get_two)
qed

lemma finite_inflight [simp]: "finite (set (inflight s))" "finite (listed s)"
  by (simp_all add: listed_def)

lemma transaction_id_pick_ok:
  assumes "ids_ok s" "fair_random e" "card (set (inflight s)) < 65535"
  shows "\<exists>t c. transaction_id_pick e s = Some (t, s\<lparr>randoms := c\<rparr>) \<and> t \<noteq> NO_ID"
proof -
  obtain t where t: "t \<noteq> NO_ID" "\<forall>r \<in> set (inflight s). trans_id (the (requests s r)) \<noteq> t"
    using free_id [OF finite_inflight(1) assms(3), of "\<lambda>r. trans_id (the (requests s r))"] by blast
  obtain k where "le16 (env_random e (randoms s + 2 * k)) (env_random e (randoms s + 2 * k + 1)) = t"
    using assms(2) unfolding fair_random_def by blast
  from transaction_id_pick_finds [OF assms(1) t this] show ?thesis .
qed

section \<open>Servers down\<close>

lemma someone_writes_mono:
  "someone_writes s \<Longrightarrow> server_ring t = server_ring s \<Longrightarrow>
     (\<And>m v. nameservers s m = Some v \<Longrightarrow> write_waiting v \<Longrightarrow> \<exists>v'. nameservers t m = Some v' \<and> write_waiting v') \<Longrightarrow> someone_writes t"
  unfolding someone_writes_def by fastforce

lemma net_upd_req:
  assumes s: "net X s" and q: "requests s r = Some q" and core: "core q' = core q" and tid: "trans_id q' = trans_id q"
    and fly: "r \<in> set (inflight s) \<Longrightarrow> (\<exists>n \<in> set (server_ring s). req_ns q' = Some n) \<and>
                (r \<in> Y \<or> req_timer q' \<or> transmit_me q' \<and> someone_writes s)"
    and rest: "r \<in> set (req_waiting s) \<Longrightarrow> req_ns q' = None \<and> \<not> req_timer q'"
    and Y: "X - {r} \<subseteq> Y"
  shows "net Y (s\<lparr>requests := (requests s)(r \<mapsto> q')\<rparr>)" "r \<in> listed s \<Longrightarrow> quiet s (s\<lparr>requests := (requests s)(r \<mapsto> q')\<rparr>)"
proof -
  let ?t = "s\<lparr>requests := (requests s)(r \<mapsto> q')\<rparr>"
  have v: "valid_request ?t p = valid_request s p" for p
    by (rule valid_request_core) (auto simp: q core)
  have a: "ns_up ?t = ns_up s" "server_ok ?t n = server_ok s n" "someone_writes ?t = someone_writes s" "inflight ?t = inflight s" for n
    by (auto simp: ns_up_def [abs_def] server_ok_def someone_writes_def inflight_def)
  have f: "flying Y ?t i p" if "i < length (req_heads s)" "p \<in> set (req_heads s ! i)" for i p
    using netD(8) [OF s that] fly that q tid Y unfolding flying_def v a by (auto simp: inflight_head)
  have g: "resting ?t p" if "p \<in> set (req_waiting s)" for p
    using netD(9) [OF s that] rest that q unfolding resting_def v by auto
  show "net Y ?t" using s f g unfolding net_def a by simp
  show "quiet s ?t" if "r \<in> listed s" using that q core by (auto simp: quiet_def same_objects_def listed_def a)
qed

lemma net_upd_ns:
  assumes s: "net X s" and v: "nameservers s n = Some v" and st: "ns_state v' = ns_state v"
    and ok: "n \<in> set (server_ring s) \<Longrightarrow> choked v' \<Longrightarrow> write_waiting v'" and w: "write_waiting v \<Longrightarrow> write_waiting v'"
  shows "net X (s\<lparr>nameservers := (nameservers s)(n \<mapsto> v')\<rparr>)"
proof -
  let ?t = "s\<lparr>nameservers := (nameservers s)(n \<mapsto> v')\<rparr>"
  have a: "ns_up ?t = ns_up s" "inflight ?t = inflight s" "valid_request ?t p = valid_request s p" for p
    using st v by (auto simp: ns_up_def [abs_def] inflight_def valid_request_iff)
  have "someone_writes s \<Longrightarrow> someone_writes ?t" by (rule someone_writes_mono) (use v w in auto)
  then have f: "flying X s i p \<Longrightarrow> flying X ?t i p" "resting s p \<Longrightarrow> resting ?t p" for i p
    by (auto simp: flying_def resting_def a)
  have o: "m \<in> set (server_ring s) \<Longrightarrow> server_ok ?t m" for m
    using netD(4) [OF s] ok v by (auto simp: server_ok_def)
  show ?thesis using s f o unfolding net_def a by simp
qed

lemma quiet_upd_ns:
  assumes "nameservers s n = Some v" "server_step (Some v) (Some v')"
  shows "quiet s (s\<lparr>nameservers := (nameservers s)(n \<mapsto> v')\<rparr>)"
  using assms by (auto simp: quiet_def same_objects_def listed_def inflight_def)

lemma filter_flip:
  assumes "distinct xs" "n \<in> set xs" "P n" "\<And>m. m \<noteq> n \<Longrightarrow> Q m = P m" "\<not> Q n"
  shows "length (filter P xs) = Suc (length (filter Q xs))"
proof -
  obtain as bs where x: "xs = as @ n # bs" using assms(2) by (auto dest: split_list)
  then have "n \<notin> set as" "n \<notin> set bs" using assms(1) by auto
  then have "filter Q as = filter P as" "filter Q bs = filter P bs" using assms(4) by (metis (mono_tags, lifting) filter_cong)+
  then show ?thesis using x assms(3,5) by simp
qed

lemma net_server_down:
  assumes s: "net X s" and n: "n \<in> set (server_ring s)" and v: "nameservers s n = Some v" and up: "ns_state v"
  shows "net X (s\<lparr>good_nameservers := good_nameservers s - 1, nameservers := (nameservers s)(n \<mapsto> v\<lparr>ns_state := False, failed_times := 1, ns_timer := Some t\<rparr>)\<rparr>)"
proof -
  let ?v = "v\<lparr>ns_state := False, failed_times := 1, ns_timer := Some t\<rparr>"
  let ?t = "s\<lparr>good_nameservers := good_nameservers s - 1, nameservers := (nameservers s)(n \<mapsto> ?v)\<rparr>"
  have len: "length (filter (ns_up s) (server_ring s)) = Suc (length (filter (ns_up ?t) (server_ring s)))"
    by (rule filter_flip [OF netD(3) [OF s] n]) (auto simp: ns_up_def v up)
  have "someone_writes s \<Longrightarrow> someone_writes ?t" "someone_writes ?t \<Longrightarrow> someone_writes s"
    by (erule someone_writes_mono; use v in \<open>auto split: if_splits\<close>)+
  then have a: "inflight ?t = inflight s" "valid_request ?t p = valid_request s p" "someone_writes ?t = someone_writes s"
    "server_ok ?t m = server_ok s m" for p m
    using v by (auto simp: inflight_def valid_request_iff server_ok_def)
  have f: "flying X ?t i p = flying X s i p" "resting ?t p = resting s p" for i p
    by (simp_all add: flying_def resting_def a)
  show ?thesis using s len unfolding net_def a f by simp
qed

lemma reassign_ok:
  assumes "net X s" "server_ring s \<noteq> []" "r \<in> set (inflight s)"
  shows "returns (reassign n r s) (\<lambda>t. net X t \<and> quiet s t \<and> inflight t = inflight s)"
proof -
  obtain i q where i: "i < length (req_heads s)" "r \<in> set (req_heads s ! i)" "flying X s i r" "requests s r = Some q"
    using net_inflight [OF assms(1,3)] by (auto simp: flying_def)
  have w: "r \<notin> set (req_waiting s)" using netD(2) [OF assms(1)] assms(3) by auto
  show ?thesis
  proof (cases "tx_count q = 0 \<and> req_ns q = Some n")
    case True
    obtain p t ring where t: "nameserver_pick s = Some (p, t)" "net X t" "quiet s t" "t = s\<lparr>server_ring := ring\<rparr>"
        "mset ring = mset (server_ring s)" "p \<noteq> None" "\<forall>m. p = Some m \<longrightarrow> m \<in> set (server_ring s)"
      using pick_ok [OF assms(1)] assms(2) by (auto simp: returns_def)
    obtain m where m: "p = Some m" "m \<in> set (server_ring t)" using t(3,6,7) by (auto simp: quiet_def same_objects_def)
    have q: "requests t r = Some q" "r \<notin> set (req_waiting t)" using i(4) t(4) w by simp_all
    have rl: "r \<in> listed t" using assms(3) t(4) by (simp add: listed_def inflight_def)
    have "r \<in> X \<or> req_timer q \<or> transmit_me q \<and> someone_writes t"
      using netD(8) [OF t(2), of i r] i(1,2) q(1) t(4) by (auto simp: flying_def)
    then have u: "net X (t\<lparr>requests := (requests t)(r \<mapsto> q\<lparr>req_ns := p\<rparr>)\<rparr>)" "quiet t (t\<lparr>requests := (requests t)(r \<mapsto> q\<lparr>req_ns := p\<rparr>)\<rparr>)"
      using net_upd_req [OF t(2) q(1), of "q\<lparr>req_ns := p\<rparr>" X] m q(2) rl by (auto simp: core_def)
    show ?thesis using True i(4) t(1) u quiet_trans [OF t(3) u(2)] q(1) t(4)
      by (simp add: reassign_def upd_req_def inflight_def)
  qed (use i(4) assms(1) in \<open>auto simp: reassign_def\<close>)
qed

lemma nameserver_failed_ok:
  assumes s: "net X s" and n: "n \<in> set (server_ring s)"
  shows "returns (nameserver_failed n s) (\<lambda>t. net X t \<and> quiet s t \<and> inflight t = inflight s)"
proof -
  obtain v where v: "nameservers s n = Some v" using netD(4) [OF s n] by (auto simp: server_ok_def)
  show ?thesis
  proof (cases "ns_state v")
    case False then show ?thesis using s v by (simp add: nameserver_failed_def)
  next
    case True
    let ?v = "v\<lparr>ns_state := False, failed_times := 1, ns_timer := Some (probe_initial_timeout s)\<rparr>"
    let ?t = "s\<lparr>good_nameservers := good_nameservers s - 1, nameservers := (nameservers s)(n \<mapsto> ?v)\<rparr>"
    have g: "1 \<le> good_nameservers s" by (rule up_is_good [OF s n]) (simp add: ns_up_def v True)
    have t: "net X ?t" by (rule net_server_down [OF s n v True])
    have "server_step (Some v) (Some ?v)" by (simp add: server_step_def)
    then have q: "quiet s ?t" using v by (auto simp: quiet_def same_objects_def listed_def inflight_def)
    have "returns (each (reassign n) (inflight s) ?t) (\<lambda>t. net X t \<and> quiet s t \<and> inflight t = inflight s \<and> server_ring t \<noteq> [])"
    proof (rule returns_each)
      fix r t assume r: "r \<in> set (inflight s)" and h: "net X t \<and> quiet s t \<and> inflight t = inflight s \<and> server_ring t \<noteq> []"
      have "returns (reassign n r t) (\<lambda>u. net X u \<and> quiet t u \<and> inflight u = inflight t)"
        using reassign_ok [of X t r n] h r by simp
      then show "returns (reassign n r t) (\<lambda>t. net X t \<and> quiet s t \<and> inflight t = inflight s \<and> server_ring t \<noteq> [])"
        by (rule returns_mono) (use h quiet_trans in \<open>auto simp: quiet_def same_objects_def\<close>)
    qed (use t q n in \<open>auto simp: inflight_def\<close>)
    then show ?thesis using v True g t q
      by (auto simp: nameserver_failed_def upd_ns_def inflight_def elim: returns_mono)
  qed
qed

section \<open>Transmitting\<close>

lemma net_drop:
  assumes "net X s" "requests s r = Some q" "req_timer q \<or> transmit_me q \<and> someone_writes s"
  shows "net (X - {r}) s"
proof -
  have "r \<in> set (inflight s) \<Longrightarrow> \<exists>n \<in> set (server_ring s). req_ns q = Some n"
    using net_inflight [OF assms(1), of r] assms(2) by (auto simp: flying_def)
  moreover have "r \<in> set (req_waiting s) \<Longrightarrow> req_ns q = None \<and> \<not> req_timer q"
    using netD(9) [OF assms(1), of r] assms(2) by (auto simp: resting_def)
  ultimately show ?thesis
    using net_upd_req(1) [OF assms(1,2), of q "X - {r}"] assms(2,3) by (simp add: fun_upd_idem)
qed

lemma flying_mono: "flying X s i r \<Longrightarrow> X \<subseteq> Y \<Longrightarrow> flying Y s i r"
  by (auto simp: flying_def)

lemma net_mono: "net X s \<Longrightarrow> X \<subseteq> Y \<Longrightarrow> net Y s"
  by (simp add: net_def) (meson flying_mono)

lemma net_sent [simp]: "net X (s\<lparr>sent := l\<rparr>) = net X s" "quiet s (s\<lparr>sent := l\<rparr>)" "listed (s\<lparr>sent := l\<rparr>) = listed s"
  "inflight (s\<lparr>sent := l\<rparr>) = inflight s"
  by (rule net_cong, simp_all) (simp_all add: quiet_def same_objects_def listed_def inflight_def)

lemma inflight_upd [simp]:
  "inflight (s\<lparr>requests := f\<rparr>) = inflight s" "inflight (s\<lparr>nameservers := g\<rparr>) = inflight s"
  "inflight (s\<lparr>handles := h\<rparr>) = inflight s" "inflight (s\<lparr>server_ring := l\<rparr>) = inflight s"
  "inflight (s\<lparr>randoms := k\<rparr>) = inflight s" "inflight (s\<lparr>serial := k\<rparr>) = inflight s"
  "inflight (s\<lparr>deferreds := ds\<rparr>) = inflight s" "inflight (s\<lparr>searches := sl\<rparr>) = inflight s"
  "inflight (s\<lparr>good_nameservers := i\<rparr>) = inflight s" "inflight (s\<lparr>requests_inflight := i\<rparr>) = inflight s"
  "inflight (s\<lparr>requests_waiting := i\<rparr>) = inflight s" "inflight (s\<lparr>req_waiting := l\<rparr>) = inflight s"
  by (simp_all add: inflight_def)

lemma net_choke:
  assumes "net X s" "n \<in> set (server_ring s)" "nameservers s n = Some v"
  shows "\<exists>t. (do { s \<leftarrow> upd_ns n (choked_update (\<lambda>_. True)) s; nameserver_write_waiting n True s }) = Some t \<and>
           net X t \<and> quiet s t \<and> inflight t = inflight s \<and> someone_writes t \<and> requests t = requests s"
proof -
  let ?v = "v\<lparr>choked := True, write_waiting := True\<rparr>"
  let ?t = "s\<lparr>nameservers := (nameservers s)(n \<mapsto> ?v)\<rparr>"
  have "net X ?t" by (rule net_upd_ns [OF assms(1,3)]) simp_all
  moreover have "quiet s ?t" by (rule quiet_upd_ns [OF assms(3)]) (auto simp: server_step_def)
  moreover have "someone_writes ?t" using assms(2) by (auto simp: someone_writes_def)
  ultimately show ?thesis
    by (intro exI [of _ ?t]) (simp add: upd_ns_def nameserver_write_waiting_def assms(3))
qed

lemma transmit_ok:
  assumes s: "net (insert r X) s" and r: "r \<in> set (inflight s)"
  shows "returns (evdns_request_transmit e r s) (\<lambda>(c, t). net (X - {r}) t \<and> quiet s t \<and> inflight t = inflight s)"
proof -
  obtain i q n where i: "flying (insert r X) s i r" "requests s r = Some q" "trans_id q \<noteq> NO_ID" "req_ns q = Some n" "n \<in> set (server_ring s)"
    using net_inflight [OF s r] by (auto simp: flying_def)
  have val: "valid_request s r" using i(1) by (simp add: flying_def)
  have w: "r \<notin> set (req_waiting s)" using netD(2) [OF s] r by auto
  obtain v where v: "nameservers s n = Some v" "choked v \<longrightarrow> write_waiting v" using netD(4) [OF s i(5)] by (auto simp: server_ok_def)
  let ?q = "q\<lparr>transmit_me := True\<rparr>"
  let ?s = "s\<lparr>requests := (requests s)(r \<mapsto> ?q)\<rparr>"
  have s1: "net (insert r X) ?s" "quiet s ?s"
    using net_upd_req [OF s i(2), of ?q "insert r X"] i w inflight_listed [OF r] by (auto simp: core_def)
  show ?thesis
  proof (cases "choked v")
    case True
    then have "someone_writes ?s" using v i(5) by (auto simp: someone_writes_def)
    then have "net (X - {r}) ?s" using net_drop [OF s1(1), of r ?q] by simp
    then show ?thesis using True val i v s1(2) by (simp add: evdns_request_transmit_def upd_req_def)
  next
    case False
    let ?u = "?s\<lparr>sent := sent s @ [(n, take (request_len q) (packet q))]\<rparr>"
    have u: "net (insert r X) ?u" "quiet s ?u" "inflight ?u = inflight s" "nameservers ?u n = Some v" "requests ?u r = Some ?q"
      using s1 v(1) quiet_trans [OF s1(2) net_sent(2)] by simp_all
    have timer: "returns (upd_req r (\<lambda>q. q\<lparr>req_timer := True, tx_count := tx_count q + 1, transmit_me := False\<rparr>) t)
        (\<lambda>t. net (X - {r}) t \<and> quiet s t \<and> inflight t = inflight s)"
      if t: "net (insert r X) t" "quiet s t" "inflight t = inflight s" for t
    proof -
      obtain p m where p: "requests t r = Some p" "req_ns p = Some m" "m \<in> set (server_ring t)"
        using net_inflight [OF t(1), of r] r t(3) by (auto simp: flying_def)
      let ?p = "p\<lparr>req_timer := True, tx_count := tx_count p + 1, transmit_me := False\<rparr>"
      have "r \<notin> set (req_waiting t)" using netD(2) [OF t(1)] r t(3) by auto
      then have "net (X - {r}) (t\<lparr>requests := (requests t)(r \<mapsto> ?p)\<rparr>)" "quiet t (t\<lparr>requests := (requests t)(r \<mapsto> ?p)\<rparr>)"
        using net_upd_req [OF t(1) p(1), of ?p "X - {r}"] p inflight_listed [of r t] r t(3) by (auto simp: core_def)
      then show ?thesis using t p(1) quiet_trans by (auto simp: upd_req_def)
    qed
    have again: "returns (do { q \<leftarrow> requests ?u r; m \<leftarrow> req_ns q; s \<leftarrow> upd_ns m (choked_update (\<lambda>_. True)) ?u; s \<leftarrow> nameserver_write_waiting m True s; Some (1 :: nat, s) })
        (\<lambda>(c, t). net (X - {r}) t \<and> quiet s t \<and> inflight t = inflight s)"
    proof -
      obtain t where t: "(do { s \<leftarrow> upd_ns n (choked_update (\<lambda>_. True)) ?u; nameserver_write_waiting n True s }) = Some t"
          "net (insert r X) t" "quiet ?u t" "inflight t = inflight ?u" "someone_writes t" "requests t = requests ?u"
        using net_choke [OF u(1) _ u(4)] i(5) by auto
      have "net (X - {r}) t" using net_drop [OF t(2), of r ?q] t(5,6) by simp
      then show ?thesis using t(1,3,4) i(4) quiet_trans [OF u(2) t(3)]
        by (auto simp: bind_eq_Some_conv upd_ns_def nameserver_write_waiting_def)
    qed
    have down: "returns (nameserver_failed n ?u) (\<lambda>t. net (insert r X) t \<and> quiet ?u t \<and> inflight t = inflight ?u)"
      by (rule nameserver_failed_ok [OF u(1)]) (use i(5) in simp)
    have down2: "returns (nameserver_failed n ?u) (\<lambda>t. returns (upd_req r (\<lambda>q. q\<lparr>req_timer := True, tx_count := tx_count q + 1, transmit_me := False\<rparr>) t)
        (\<lambda>t. net (X - {r}) t \<and> quiet s t \<and> inflight t = inflight s))"
      by (rule returns_mono [OF down]) (rule timer; use quiet_trans [OF u(2)] in simp)
    have val': "valid_request ?s r" using same_valid [of s ?s r] s1(2) val by (simp add: quiet_def)
    show ?thesis
      using again down2 timer [OF u(1-3)] val val' i v False
      by (simp add: evdns_request_transmit_def evdns_request_transmit_to_def Let_def upd_req_Some split: send_result.split)
  qed
qed

lemma evdns_transmit_ok:
  assumes "net {} s"
  shows "returns (evdns_transmit e s) (\<lambda>(b, t). net {} t \<and> quiet s t \<and> inflight t = inflight s)"
proof -
  have "returns (each (transmit_one e) (inflight s) (False, s)) (\<lambda>(b, t). net {} t \<and> quiet s t \<and> inflight t = inflight s)"
  proof (rule returns_each)
    fix r and bt :: "bool \<times> dns_base"
    assume r: "r \<in> set (inflight s)" and "case bt of (b, t) \<Rightarrow> net {} t \<and> quiet s t \<and> inflight t = inflight s"
    then obtain b t where t: "bt = (b, t)" "net {} t" "quiet s t" "inflight t = inflight s" by (cases bt) auto
    obtain q where q: "requests t r = Some q" using net_inflight [OF t(2), of r] r t(4) by (auto simp: flying_def)
    have "returns (evdns_request_transmit e r t) (\<lambda>(c, u). net {} u \<and> quiet t u \<and> inflight u = inflight t)"
      using transmit_ok [of r "{}" t e] net_mono [OF t(2), of "{r}"] r t(4) by simp
    then show "returns (transmit_one e r bt) (\<lambda>(b, t). net {} t \<and> quiet s t \<and> inflight t = inflight s)"
      using t q quiet_trans [OF t(3)] by (auto simp: transmit_one_def split: prod.splits elim!: returns_mono)
  qed (use assms in simp)
  then show ?thesis by (simp add: evdns_transmit_def inflight_def)
qed

text \<open>When nothing was tried, no request in flight is to be sent, and nothing has changed.\<close>

lemma each_transmit_nothing:
  "each (transmit_one e) rs (b, s) = Some (False, t) \<Longrightarrow> \<not> b \<and> t = s \<and> (\<forall>r \<in> set rs. \<forall>q. requests s r = Some q \<longrightarrow> \<not> transmit_me q)"
proof (induction rs arbitrary: b s)
  case (Cons r rs)
  obtain b' s' where 1: "transmit_one e r (b, s) = Some (b', s')" "each (transmit_one e) rs (b', s') = Some (False, t)"
    using Cons.prems by (auto simp: bind_eq_Some_conv)
  from Cons.IH [OF 1(2)] have IH: "\<not> b'" "t = s'" "\<forall>r \<in> set rs. \<forall>q. requests s' r = Some q \<longrightarrow> \<not> transmit_me q" by auto
  have "s' = s \<and> \<not> b \<and> (\<forall>q. requests s r = Some q \<longrightarrow> \<not> transmit_me q)"
    using 1(1) IH(1) by (auto simp: transmit_one_def bind_eq_Some_conv split: if_splits)
  then show ?case using IH by auto
qed simp

lemma evdns_transmit_nothing:
  "evdns_transmit e s = Some (False, t) \<Longrightarrow> t = s \<and> (\<forall>r \<in> set (inflight s). \<forall>q. requests s r = Some q \<longrightarrow> \<not> transmit_me q)"
  using each_transmit_nothing [of e "concat (req_heads s)" False s t] by (auto simp: evdns_transmit_def inflight_def)

section \<open>Waiting requests put into flight\<close>

lemma mset_heads_update:
  "i < length hs \<Longrightarrow> mset (concat (hs[i := hs ! i @ l])) = mset (concat hs) + mset l"
proof (induction hs arbitrary: i)
  case (Cons h hs) then show ?case by (cases i) (auto simp: ac_simps)
qed simp

lemma mset_heads_remove:
  "i < length hs \<Longrightarrow> r \<in> set (hs ! i) \<Longrightarrow> mset (concat hs) = add_mset r (mset (concat (hs[i := remove1 r (hs ! i)])))"
proof (induction hs arbitrary: i)
  case (Cons h hs)
  show ?case
  proof (cases i)
    case 0
    then have "mset h = add_mset r (mset (remove1 r h))" using Cons.prems by simp
    then show ?thesis using 0 by simp
  qed (use Cons in auto)
qed simp

lemma distinct_add:
  "mset xs = add_mset r (mset ys) \<Longrightarrow> distinct xs \<longleftrightarrow> r \<notin> set ys \<and> distinct ys"
  using mset_eq_imp_distinct_iff [of xs "r # ys"] by simp

lemma net_same_lists:
  assumes "requests t = requests s" "handles t = handles s" "server_ring t = server_ring s" "nameservers t = nameservers s"
    "length (req_heads t) = length (req_heads s)"
  shows "flying X t = flying X s" "resting t = resting s" "server_ok t = server_ok s" "ns_up t = ns_up s"
proof -
  have v: "valid_request t r = valid_request s r" "someone_writes t = someone_writes s" for r
    using assms by (auto simp: valid_request_iff someone_writes_def)
  show "flying X t = flying X s" "resting t = resting s" "server_ok t = server_ok s" "ns_up t = ns_up s"
    using assms v by (auto simp: flying_def resting_def server_ok_def ns_up_def intro!: ext)
qed

lemma net_upd_unlisted:
  assumes s: "net X s" and r: "r \<notin> listed s"
  shows "net X (s\<lparr>requests := (requests s)(r := x)\<rparr>)" "listed (s\<lparr>requests := (requests s)(r := x)\<rparr>) = listed s"
proof -
  let ?t = "s\<lparr>requests := (requests s)(r := x)\<rparr>"
  have f: "p \<noteq> r \<Longrightarrow> flying X ?t i p = flying X s i p" "p \<noteq> r \<Longrightarrow> resting ?t p = resting s p" for p i
    by (auto simp: flying_def resting_def valid_request_iff someone_writes_def)
  have n: "i < length (req_heads s) \<Longrightarrow> p \<in> set (req_heads s ! i) \<Longrightarrow> p \<noteq> r" "p \<in> set (req_waiting s) \<Longrightarrow> p \<noteq> r" for i p
    using r by (auto simp: listed_def inflight_head)
  have o: "ns_up ?t = ns_up s" "server_ok ?t = server_ok s" by (auto simp: ns_up_def server_ok_def intro!: ext)
  show "net X ?t"
    by (rule netI) (use netD [OF s] n f in \<open>auto simp: o\<close>)
  show "listed ?t = listed s" by (simp add: listed_def)
qed

lemma net_insert_flying:
  assumes s: "net X s" and r: "r \<notin> listed s" and i: "i < length (req_heads s)" and f: "flying (insert r X) s i r"
  shows "net (insert r X) (s\<lparr>req_heads := (req_heads s)[i := req_heads s ! i @ [r]], requests_inflight := requests_inflight s + 1\<rparr>)"
    "listed (s\<lparr>req_heads := (req_heads s)[i := req_heads s ! i @ [r]], requests_inflight := requests_inflight s + 1\<rparr>) = insert r (listed s)"
    "set (inflight (s\<lparr>req_heads := (req_heads s)[i := req_heads s ! i @ [r]], requests_inflight := requests_inflight s + 1\<rparr>)) = insert r (set (inflight s))"
proof -
  let ?t = "s\<lparr>req_heads := (req_heads s)[i := req_heads s ! i @ [r]], requests_inflight := requests_inflight s + 1\<rparr>"
  have m: "mset (inflight ?t) = add_mset r (mset (inflight s))" using mset_heads_update [OF i, of "[r]"] by (simp add: inflight_def)
  have set: "set (inflight ?t) = insert r (set (inflight s))" using arg_cong [OF m, of set_mset] by simp
  have len: "length (inflight ?t) = Suc (length (inflight s))" using arg_cong [OF m, of size] by simp
  have d: "distinct (inflight ?t)" using distinct_add [OF m] netD(2) [OF s] r by (simp add: listed_def)
  have l: "flying X ?t = flying X s" "resting ?t = resting s" "server_ok ?t = server_ok s" "ns_up ?t = ns_up s" for X
    using net_same_lists [of ?t s] by simp_all
  have "flying (insert r X) s j p" if "j < length (req_heads s)" "p \<in> set (req_heads ?t ! j)" for j p
    using that f flying_mono [OF netD(8) [OF s that(1)], of p "insert r X"] i by (cases "j = i") auto
  then show "net (insert r X) ?t"
    using s d set len r unfolding net_def l by (auto simp: listed_def)
  show "listed ?t = insert r (listed s)" "set (inflight ?t) = insert r (set (inflight s))" using set by (auto simp: listed_def)
qed

lemma net_insert_waiting:
  assumes s: "net X s" and r: "r \<notin> listed s" and f: "resting s r" and w: "mset w = add_mset r (mset (req_waiting s))"
  shows "net X (s\<lparr>req_waiting := w, requests_waiting := requests_waiting s + 1\<rparr>)"
    "listed (s\<lparr>req_waiting := w, requests_waiting := requests_waiting s + 1\<rparr>) = insert r (listed s)"
proof -
  let ?t = "s\<lparr>req_waiting := w, requests_waiting := requests_waiting s + 1\<rparr>"
  have set: "set w = insert r (set (req_waiting s))" using arg_cong [OF w, of set_mset] by simp
  have len: "length w = Suc (length (req_waiting s))" using arg_cong [OF w, of size] by simp
  have d: "distinct w" using distinct_add [OF w] netD(2) [OF s] r by (simp add: listed_def)
  have l: "flying X ?t = flying X s" "resting ?t = resting s" "server_ok ?t = server_ok s" "ns_up ?t = ns_up s"
    using net_same_lists [of ?t s] by simp_all
  show "net X ?t" using s d set len r f unfolding net_def l by (auto simp: listed_def)
  show "listed ?t = insert r (listed s)" using set by (auto simp: listed_def)
qed

lemma net_remove_waiting:
  assumes s: "net X s" and r: "r \<in> set (req_waiting s)"
  shows "net X (s\<lparr>req_waiting := remove1 r (req_waiting s), requests_waiting := requests_waiting s - 1\<rparr>)"
    "listed (s\<lparr>req_waiting := remove1 r (req_waiting s), requests_waiting := requests_waiting s - 1\<rparr>) = listed s - {r}"
proof -
  let ?t = "s\<lparr>req_waiting := remove1 r (req_waiting s), requests_waiting := requests_waiting s - 1\<rparr>"
  have l: "flying X ?t = flying X s" "resting ?t = resting s" "server_ok ?t = server_ok s" "ns_up ?t = ns_up s"
    using net_same_lists [of ?t s] by simp_all
  have len: "int (length (remove1 r (req_waiting s))) = int (length (req_waiting s)) - 1"
    using r by (simp add: length_remove1) (metis One_nat_def Suc_leI length_pos_if_in_set of_nat_1 of_nat_diff)
  have set: "set (remove1 r (req_waiting s)) = set (req_waiting s) - {r}" using netD(2) [OF s] by simp
  show "net X ?t" using s len set unfolding net_def l by auto
  show "listed ?t = listed s - {r}" using set netD(2) [OF s] r by (auto simp: listed_def)
qed

lemma net_remove_flying:
  assumes s: "net X s" and i: "i < length (req_heads s)" and r: "r \<in> set (req_heads s ! i)"
  shows "net X (s\<lparr>req_heads := (req_heads s)[i := remove1 r (req_heads s ! i)], requests_inflight := requests_inflight s - 1\<rparr>)"
    "listed (s\<lparr>req_heads := (req_heads s)[i := remove1 r (req_heads s ! i)], requests_inflight := requests_inflight s - 1\<rparr>) = listed s - {r}"
proof -
  let ?t = "s\<lparr>req_heads := (req_heads s)[i := remove1 r (req_heads s ! i)], requests_inflight := requests_inflight s - 1\<rparr>"
  have l: "flying X ?t = flying X s" "resting ?t = resting s" "server_ok ?t = server_ok s" "ns_up ?t = ns_up s"
    using net_same_lists [of ?t s] by simp_all
  have m: "mset (inflight s) = add_mset r (mset (inflight ?t))" using mset_heads_remove [OF i r] by (simp add: inflight_def)
  have set: "set (inflight s) = insert r (set (inflight ?t))" using arg_cong [OF m, of set_mset] by simp
  have len: "length (inflight s) = Suc (length (inflight ?t))" using arg_cong [OF m, of size] by simp
  have d: "distinct (inflight ?t)" "r \<notin> set (inflight ?t)"
    using distinct_add [OF m] netD(2) [OF s] by simp_all
  have "flying X s j p" if "j < length (req_heads s)" "p \<in> set (req_heads ?t ! j)" for j p
    using that netD(8) [OF s that(1), of p] i by (cases "j = i") (auto dest: notin_set_remove1)
  note f = this
  have set': "set (inflight ?t) = set (inflight s) - {r}" using set d(2) by blast
  show "net X ?t"
  proof (rule netI)
    show "distinct (inflight ?t @ req_waiting ?t)" using netD(2) [OF s] d(1) set' by simp blast
    show "requests_inflight ?t = int (length (inflight ?t))" using netD(6) [OF s] len by simp
  qed (use netD(1,3,4,5,7,9) [OF s] f in \<open>simp_all add: l\<close>)
  have "r \<notin> set (req_waiting s)" using netD(2) [OF s] set by auto
  then show "listed ?t = listed s - {r}" using set' by (auto simp: listed_def)
qed

lemma card_inflight: "card (set (inflight s)) \<le> card (listed s)"
  by (rule card_mono) (auto simp: listed_def)

lemma quiet_room: "quiet s t \<Longrightarrow> room t = room s"
  by (simp add: quiet_def room_def)

lemma send_rest:
  assumes "net {r} s" "r \<in> set (inflight s)"
  shows "returns (do { (_, s) \<leftarrow> evdns_request_transmit e r s; (_, s) \<leftarrow> evdns_transmit e s; Some (True, s) })
           (\<lambda>(m, t). net {} t \<and> quiet s t \<and> inflight t = inflight s)"
proof -
  obtain c t where t: "evdns_request_transmit e r s = Some (c, t)" "net {} t" "quiet s t" "inflight t = inflight s"
    using transmit_ok [of r "{}" s e] assms by (auto simp: returns_def)
  obtain d u where u: "evdns_transmit e t = Some (d, u)" "net {} u" "quiet t u" "inflight u = inflight t"
    using evdns_transmit_ok [OF t(2), of e] by (auto simp: returns_def)
  show ?thesis using t u quiet_trans [OF t(3) u(3)] by simp
qed

lemma pump_one_ok:
  assumes s: "net {} s" and e: "fair_random e" "room s" and w: "req_waiting s = r # rs"
  shows "returns (pump_one e s) (\<lambda>(more, t). net {} t \<and> quiet s t \<and> set (inflight s) \<subseteq> set (inflight t) \<and> (more \<longrightarrow> length (req_waiting t) < length (req_waiting s)))"
proof -
  obtain q where q: "requests s r = Some q" "req_ns q = None" "\<not> req_timer q" and val: "valid_request s r"
    using netD(9) [OF s, of r] w by (auto simp: resting_def)
  have r: "r \<in> listed s" using w by (simp add: listed_def)
  obtain p s1 ring where p: "nameserver_pick s = Some (p, s1)" "net {} s1" "quiet s s1" "s1 = s\<lparr>server_ring := ring\<rparr>"
      "p = None \<longleftrightarrow> server_ring s = []" "\<forall>n. p = Some n \<longrightarrow> n \<in> set (server_ring s)"
    using pick_ok [OF s] by (auto simp: returns_def)
  have q1: "requests s1 r = Some q" "req_waiting s1 = r # rs" using q p(4) w by simp_all
  show ?thesis
  proof (cases p)
    case None
    have "s1\<lparr>requests := (requests s1)(r \<mapsto> q\<lparr>req_ns := None\<rparr>)\<rparr> = s1"
      using q1 q(2) by (cases q) (simp add: fun_upd_idem)
    moreover have "inflight s1 = inflight s" by (simp add: p(4))
    ultimately show ?thesis using None p(1-3) q1 w by (simp add: pump_one_def upd_req_Some [OF q1(1)])
  next
    case (Some n)
    let ?rest = "s1\<lparr>req_waiting := rs, requests_waiting := requests_waiting s1 - 1\<rparr>"
    let ?q = "q\<lparr>req_ns := Some n\<rparr>"
    let ?a = "?rest\<lparr>requests := (requests s1)(r \<mapsto> ?q)\<rparr>"
    have rest: "net {} ?rest" "listed ?rest = listed s1 - {r}" using net_remove_waiting [OF p(2), of r] q1(2) by simp_all
    have a: "net {} ?a" "listed ?a = listed s - {r}"
      using net_upd_req(1) [OF rest(1), of r q ?q "{}"] q1 rest(2) p(3) by (auto simp: core_def listed_def quiet_def)
    have n: "n \<in> set ring" using p(3,4,6) Some by (auto simp: quiet_def same_objects_def)
    have b0: "ids_ok (?a\<lparr>requests_inflight := requests_inflight s + 1\<rparr>)"
      using net_ids_ok [OF a(1)] by (simp add: ids_ok_def)
    have "card (set (inflight (?a\<lparr>requests_inflight := requests_inflight s + 1\<rparr>))) < 65535"
      using card_inflight [of s] e(2) p(4) by (simp add: room_def)
    then obtain tid c where tid: "transaction_id_pick e (?a\<lparr>requests_inflight := requests_inflight s + 1\<rparr>)
          = Some (tid, ?a\<lparr>requests_inflight := requests_inflight s + 1, randoms := c\<rparr>)" "tid \<noteq> NO_ID"
      using transaction_id_pick_ok [OF b0 e(1)] by auto
    let ?i = "unat tid mod length (req_heads s)"
    let ?q2 = "?q\<lparr>trans_id := tid, packet := (packet q)[0 := hi8 tid, 1 := lo8 tid]\<rparr>"
    let ?b = "?a\<lparr>randoms := c, requests := (requests s1)(r \<mapsto> ?q2)\<rparr>"
    have b: "net {} ?b" "listed ?b = listed s - {r}"
      using net_upd_unlisted [of "{}" "?rest\<lparr>randoms := c\<rparr>" r "Some ?q2"] rest p(3) by (simp_all add: quiet_def)
    have i: "?i < length (req_heads s)" using netD(1) [OF s] by simp
    have val': "valid_request ?b r" using val q(1) p(4) by (auto simp: valid_request_iff)
    have fly: "flying (insert r {}) ?b ?i r" using val' tid(2) n p(4) by (auto simp: flying_def)
    let ?c = "?b\<lparr>req_heads := (req_heads s)[?i := req_heads s ! ?i @ [r]], requests_inflight := requests_inflight s + 1\<rparr>"
    have c: "net {r} ?c" "listed ?c = listed s" "r \<in> set (inflight ?c)" "set (inflight s) \<subseteq> set (inflight ?c)"
      using net_insert_flying [OF b(1) _ _ fly] b(2) i r p(4) by auto
    have qc: "quiet s ?c"
      using c(2) p(3,4) q(1) r by (auto simp: quiet_def same_objects_def core_def)
    have l: "length (req_waiting t) < length (req_waiting s)" if "net {} t" "quiet ?c t" "inflight t = inflight ?c" for t
    proof -
      have "set (req_waiting t) = listed t - set (inflight t)" "set rs = listed ?c - set (inflight ?c)"
        using netD(2) [OF that(1)] netD(2) [OF c(1)] by (auto simp: listed_def)
      then have eq: "set (req_waiting t) = set rs" using that(2,3) by (simp add: quiet_def)
      have "distinct (req_waiting t)" "distinct rs" using netD(2) [OF that(1)] netD(2) [OF s] w by auto
      then have "length (req_waiting t) = length rs" using eq by (metis distinct_card)
      then show ?thesis using w by simp
    qed
    have "pump_one e s = (do { (_, s) \<leftarrow> evdns_request_transmit e r ?c; (_, s) \<leftarrow> evdns_transmit e s; Some (True, s) })"
    proof -
      obtain h hn where h: "req_handle q = Some h" "handles s h = Some hn" "current_req hn = Some r"
        using val q(1) by (auto simp: valid_request_iff)
      have eq: "s\<lparr>server_ring := ring, requests := f, req_waiting := rs, requests_waiting := k, requests_inflight := m\<rparr>
          = s\<lparr>server_ring := ring, req_waiting := rs, requests_waiting := k, requests := f, requests_inflight := m\<rparr>" for f k m
        by simp
      have eq2: "s\<lparr>server_ring := ring, req_waiting := rs, requests_waiting := k, requests_inflight := m, randoms := c, requests := f, req_heads := hs\<rparr>
          = s\<lparr>server_ring := ring, req_waiting := rs, requests_waiting := k, randoms := c, requests := f, req_heads := hs, requests_inflight := m\<rparr>" for f k m hs
        by simp
      show ?thesis
        using w p(1) Some q1 h tid(1) p(4) netD(1) [OF s]
        by (simp add: pump_one_def upd_req_def evdns_request_remove_def evdns_request_insert_def list_at_def set_list_at_def assert_that_def
            request_trans_id_set_def Let_def eq eq2 valid_request_iff head_of_def)
    qed
    then show ?thesis
      by (simp only:) (rule returns_mono [OF send_rest [OF c(1,3)]], use qc l c(4) quiet_trans in auto)
  qed
qed

lemma pump_ok:
  assumes "net {} s" "fair_random e" "room s"
  shows "returns (evdns_requests_pump_waiting_queue e s) (\<lambda>t. net {} t \<and> quiet s t \<and> set (inflight s) \<subseteq> set (inflight t))"
  using assms
proof (induction "length (req_waiting s)" arbitrary: s rule: less_induct)
  case less
  show ?case
  proof (cases "requests_inflight s < max_requests_inflight s \<and> requests_waiting s \<noteq> 0")
    case True
    then obtain r rs where w: "req_waiting s = r # rs" using netD(7) [OF less.prems(1)] by (cases "req_waiting s") auto
    obtain more t where t: "pump_one e s = Some (more, t)" "net {} t" "quiet s t" "set (inflight s) \<subseteq> set (inflight t)" "more \<longrightarrow> length (req_waiting t) < length (req_waiting s)"
      using pump_one_ok [OF less.prems w] by (auto simp: returns_def)
    show ?thesis
    proof (cases more)
      case more: True
      have "returns (evdns_requests_pump_waiting_queue e t) (\<lambda>u. net {} u \<and> quiet t u \<and> set (inflight t) \<subseteq> set (inflight u))"
        using less.hyps [of t] t more less.prems(2,3) quiet_room [OF t(3)] by simp
      then show ?thesis
        using True t more by (subst evdns_requests_pump_waiting_queue.simps) (auto elim!: returns_mono intro: quiet_trans)
    next
      case False
      then show ?thesis using True t by (subst evdns_requests_pump_waiting_queue.simps) simp
    qed
  next
    case False
    then show ?thesis using less.prems(1) by (subst evdns_requests_pump_waiting_queue.simps) auto
  qed
qed

end
