(* ===== verification/EvdnsObjects.thy ===== *)
theory EvdnsObjects
  imports EvdnsNet
begin

text \<open>
  The invariant of the resolver's objects: who holds a handle, which callbacks are scheduled, the counts of
  references to search lists, the outstanding probes, and what a server that is down waits for. A request in
  \<open>K\<close> has had its callback scheduled and is about to be finished; the servers in \<open>M\<close> are exempt for the moment.
\<close>

section \<open>The invariant\<close>

definition type_ok :: "u16 \<Rightarrow> bool" where
  "type_ok ty \<longleftrightarrow> ty = TYPE_A \<or> ty = TYPE_PTR \<or> ty = TYPE_AAAA"

definition cb_ok :: "dns_base \<Rightarrow> dns_callback \<Rightarrow> bool" where
  "cb_ok s cb \<longleftrightarrow> (\<forall>n. cb = Probe n \<longrightarrow> n \<in> set (server_ring s))"

definition request_held :: "nat set \<Rightarrow> dns_base \<Rightarrow> nat \<Rightarrow> bool" where
  "request_held K s r \<longleftrightarrow> (\<exists>q h hn. requests s r = Some q \<and> req_handle q = Some h \<and> handles s h = Some hn \<and>
     (pending_cb hn \<longleftrightarrow> r \<in> K) \<and> type_ok (request_type q) \<and> cb_ok s (user_callback q) \<and>
     (search_state hn \<noteq> None \<longrightarrow> (\<exists>tag. user_callback q = User tag)))"

definition deferred_held :: "nat set \<Rightarrow> dns_base \<Rightarrow> dns_deferred \<Rightarrow> bool" where
  "deferred_held K s d \<longleftrightarrow> (\<exists>h hn. d_handle d = Some h \<and> handles s h = Some hn \<and> pending_cb hn \<and>
     (\<forall>r. current_req hn = Some r \<longrightarrow> r \<in> K \<and> (\<exists>q. requests s r = Some q \<and> req_handle q = Some h)) \<and>
     (current_req hn = None \<longrightarrow> search_state hn = None) \<and> type_ok (d_type d) \<and> cb_ok s (d_callback d))"

definition held :: "nat set \<Rightarrow> dns_base \<Rightarrow> bool" where
  "held K s \<longleftrightarrow> (\<forall>r \<in> listed s. request_held K s r) \<and> K \<subseteq> listed s \<and>
     (\<forall>d \<in> set (deferreds s). deferred_held K s d) \<and> distinct (map d_handle (deferreds s))"

definition fresh :: "dns_base \<Rightarrow> bool" where
  "fresh s \<longleftrightarrow> (\<forall>x \<ge> serial s. requests s x = None \<and> handles s x = None \<and> nameservers s x = None \<and> searches s x = None)"

definition searchers :: "dns_base \<Rightarrow> nat \<Rightarrow> nat set" where
  "searchers s i = {h. \<exists>hn. handles s h = Some hn \<and> search_state hn = Some i}"

definition handle_search_ok :: "dns_base \<Rightarrow> dns_handle \<Rightarrow> bool" where
  "handle_search_ok s hn \<longleftrightarrow>
     (case search_state hn of
        None \<Rightarrow> search_origname hn = None
      | Some i \<Rightarrow> searches s i \<noteq> None \<and> (\<exists>name. search_origname hn = Some name \<and> name \<noteq> []) \<and> search_index hn \<ge> -1)"

definition search_ok :: "dns_base \<Rightarrow> bool" where
  "search_ok s \<longleftrightarrow> (\<forall>h hn. handles s h = Some hn \<longrightarrow> handle_search_ok s hn) \<and>
     (\<forall>i. global_search_state s = Some i \<longrightarrow> searches s i \<noteq> None) \<and>
     (\<forall>i l. searches s i = Some l \<longrightarrow> num_domains l = int (length (domains l)) \<and>
        refcount l = (if global_search_state s = Some i then 1 else 0) + int (card (searchers s i)))"

text \<open>A probe of server \<open>n\<close> that is still to come to an end, with handle \<open>h\<close>.\<close>

definition probing :: "nat set \<Rightarrow> dns_base \<Rightarrow> nat \<Rightarrow> nat \<Rightarrow> bool" where
  "probing K s n h \<longleftrightarrow>
     (\<exists>r \<in> listed s - K. \<exists>q. requests s r = Some q \<and> req_handle q = Some h \<and> user_callback q = Probe n) \<or>
     (\<exists>d \<in> set (deferreds s). d_handle d = Some h \<and> d_callback d = Probe n \<and> d_err d \<noteq> DNS_ERR_CANCEL)"

definition probes_ok :: "nat set \<Rightarrow> nat set \<Rightarrow> dns_base \<Rightarrow> bool" where
  "probes_ok M K s \<longleftrightarrow>
     (\<forall>n \<in> set (server_ring s) - M. \<forall>v h. nameservers s n = Some v \<longrightarrow> probe_request v = Some h \<longrightarrow> probing K s n h)"

definition lively :: "nat set \<Rightarrow> nat set \<Rightarrow> dns_base \<Rightarrow> bool" where
  "lively M K s \<longleftrightarrow>
     (\<forall>n \<in> set (server_ring s) - M. \<forall>v. nameservers s n = Some v \<longrightarrow> ns_state v \<or> ns_timer v \<noteq> None \<or> (\<exists>h. probing K s n h))"

definition objs :: "nat set \<Rightarrow> nat set \<Rightarrow> dns_base \<Rightarrow> bool" where
  "objs M K s \<longleftrightarrow> held K s \<and> fresh s \<and> search_ok s \<and> probes_ok M K s \<and> lively M K s"

definition dns_inv :: "nat set \<Rightarrow> nat set \<Rightarrow> nat set \<Rightarrow> dns_base \<Rightarrow> bool" where
  "dns_inv X M K s \<longleftrightarrow> net X s \<and> objs M K s"

text \<open>The user's callbacks that are owed, scheduled or done.\<close>

fun tag_of :: "dns_callback \<Rightarrow> nat multiset" where
  "tag_of (User t) = {#t#}"
| "tag_of (Probe n) = {#}"

definition req_tag :: "dns_base \<Rightarrow> nat \<Rightarrow> nat multiset" where
  "req_tag s r = (case requests s r of None \<Rightarrow> {#} | Some q \<Rightarrow> tag_of (user_callback q))"

definition ledger :: "nat set \<Rightarrow> dns_base \<Rightarrow> nat multiset" where
  "ledger K s = (\<Sum>r \<in> listed s - K. req_tag s r) + (\<Sum>d \<leftarrow> deferreds s. tag_of (d_callback d)) + mset (map res_tag (delivered s))"

section \<open>What leaves it alone\<close>

lemma quietD:
  assumes "quiet s t"
  shows "handles t = handles s" "searches t = searches s" "global_search_state t = global_search_state s"
    "deferreds t = deferreds s" "delivered t = delivered s" "serial t = serial s"
    "map_option core (requests t r) = map_option core (requests s r)" "set (server_ring t) = set (server_ring s)"
    "max_requests_inflight t = max_requests_inflight s" "listed t = listed s" "server_step (nameservers s n) (nameservers t n)"
    "r \<notin> listed s \<Longrightarrow> requests t r = requests s r"
  using assms by (auto simp: quiet_def same_objects_def)

lemma quiet_request:
  assumes "quiet s t" "requests s r = Some q"
  shows "\<exists>p. requests t r = Some p \<and> user_callback p = user_callback q \<and> req_handle p = req_handle q \<and> request_type p = request_type q"
  using quietD(7) [OF assms(1), of r] assms(2) by (auto simp: core_def)

lemma quiet_None: "quiet s t \<Longrightarrow> requests t r = None \<longleftrightarrow> requests s r = None"
  using quietD(7) [of s t r] by (metis option.map_disc_iff)

lemma quiet_request':
  assumes "quiet s t" "requests t r = Some q"
  shows "\<exists>p. requests s r = Some p \<and> user_callback p = user_callback q \<and> req_handle p = req_handle q \<and> request_type p = request_type q"
  using quietD(7) [OF assms(1), of r] assms(2) by (cases "requests s r") (auto simp: core_def)

lemma quiet_server:
  assumes "quiet s t" "nameservers t n = Some v'"
  shows "\<exists>v. nameservers s n = Some v \<and> probe_request v' = probe_request v \<and> (ns_state v' \<longrightarrow> ns_state v) \<and> (ns_state v' \<or> ns_timer v' \<noteq> None \<or> \<not> ns_state v \<and> ns_timer v' = ns_timer v)"
  using quietD(11) [OF assms(1), of n] assms(2) by (auto simp: server_step_def split: option.splits)

lemma quiet_server_None: "quiet s t \<Longrightarrow> nameservers t n = None \<longleftrightarrow> nameservers s n = None"
  using quietD(11) [of s t n] by (auto simp: server_step_def split: option.splits)

lemma quiet_probing: "quiet s t \<Longrightarrow> probing K t n h = probing K s n h"
proof -
  assume q: "quiet s t"
  have "(\<exists>q. requests t r = Some q \<and> req_handle q = Some h \<and> user_callback q = Probe n) \<longleftrightarrow>
        (\<exists>q. requests s r = Some q \<and> req_handle q = Some h \<and> user_callback q = Probe n)" for r
    using quiet_request [OF q, of r] quiet_request' [OF q, of r] by fastforce
  then show ?thesis using quietD(4,10) [OF q] by (simp add: probing_def)
qed

lemma handle_search_cong: "searches t = searches s \<Longrightarrow> handle_search_ok t = handle_search_ok s"
  by (auto simp: handle_search_ok_def intro!: ext split: option.splits)

lemma objs_cong:
  assumes "requests t = requests s" "handles t = handles s" "searches t = searches s" "global_search_state t = global_search_state s"
    "deferreds t = deferreds s" "listed t = listed s" "serial t = serial s" "server_ring t = server_ring s" "nameservers t = nameservers s"
  shows "objs M K t = objs M K s"
  using assms handle_search_cong [of t s]
  by (simp add: objs_def held_def request_held_def deferred_held_def cb_ok_def fresh_def search_ok_def searchers_def probes_ok_def
      lively_def probing_def)

lemma ledger_cong:
  "requests t = requests s \<Longrightarrow> deferreds t = deferreds s \<Longrightarrow> delivered t = delivered s \<Longrightarrow> listed t = listed s \<Longrightarrow> ledger K t = ledger K s"
  by (simp add: ledger_def req_tag_def)

lemma quiet_objs:
  assumes q: "quiet s t" and s: "objs M K s"
  shows "objs M K t"
proof -
  note D = quietD [OF q]
  have cb: "cb_ok t c = cb_ok s c" for c by (simp add: cb_ok_def D(8))
  have "request_held K t r" if "request_held K s r" for r
    using that quiet_request [OF q] unfolding request_held_def cb D(1) by metis
  moreover have "deferred_held K t d" if "deferred_held K s d" for d
    using that quiet_request [OF q] unfolding deferred_held_def cb D(1) by metis
  ultimately have "held K t" using s D(4,10) by (auto simp: objs_def held_def)
  moreover have "fresh t" using s quiet_None [OF q] quiet_server_None [OF q] D(1,2,6) by (auto simp: objs_def fresh_def)
  moreover have "search_ok t" using s D(1-3) handle_search_cong [OF D(2)] by (simp add: objs_def search_ok_def searchers_def)
  moreover have "probes_ok M K t"
    using s quiet_server [OF q] D(1,8) unfolding objs_def probes_ok_def quiet_probing [OF q] by (metis Diff_iff)
  moreover have "lively M K t"
    using s quiet_server [OF q] D(8) unfolding objs_def lively_def quiet_probing [OF q] by (metis Diff_iff)
  ultimately show ?thesis by (simp add: objs_def)
qed

lemma quiet_req_tag: "quiet s t \<Longrightarrow> req_tag t r = req_tag s r"
  using quietD(7) [of s t r] by (auto simp: req_tag_def core_def split: option.splits)

lemma quiet_ledger: "quiet s t \<Longrightarrow> ledger K t = ledger K s"
  by (simp add: ledger_def quietD(4,5,10) quiet_req_tag)

lemma invI: "net X s \<Longrightarrow> objs M K s \<Longrightarrow> dns_inv X M K s" by (simp add: dns_inv_def)

lemma inv_quiet: "net Y t \<Longrightarrow> quiet s t \<Longrightarrow> dns_inv X M K s \<Longrightarrow> dns_inv Y M K t \<and> ledger K t = ledger K s"
  by (simp add: dns_inv_def quiet_objs quiet_ledger)

lemma inv_pump:
  assumes "dns_inv {} M K s" "fair_random e" "room s"
  shows "returns (evdns_requests_pump_waiting_queue e s)
           (\<lambda>t. dns_inv {} M K t \<and> ledger K t = ledger K s \<and> quiet s t \<and> set (inflight s) \<subseteq> set (inflight t))"
  using pump_ok [of s e] assms by (auto simp: dns_inv_def intro: quiet_objs quiet_ledger elim!: returns_mono)

lemma inv_failed:
  assumes "dns_inv X M K s" "n \<in> set (server_ring s)"
  shows "returns (nameserver_failed n s) (\<lambda>t. dns_inv X M K t \<and> ledger K t = ledger K s \<and> quiet s t \<and> inflight t = inflight s)"
  using nameserver_failed_ok [of X s n] assms by (auto simp: dns_inv_def intro: quiet_objs quiet_ledger elim!: returns_mono)

lemma probes_mono:
  assumes "probes_ok M K s" "server_ring t = server_ring s" "nameservers t = nameservers s"
    "\<And>n b. n \<notin> M \<Longrightarrow> probing K s n b \<Longrightarrow> probing K' t n b"
  shows "probes_ok M K' t"
  using assms(1,4) unfolding probes_ok_def assms(2,3) by blast

lemma lively_mono:
  assumes "lively M K s" "server_ring t = server_ring s" "nameservers t = nameservers s"
    "\<And>n b. n \<notin> M \<Longrightarrow> probing K s n b \<Longrightarrow> probing K' t n b"
  shows "lively M K' t"
  using assms(1,4) unfolding lively_def assms(2,3) by blast

section \<open>Scheduling a callback\<close>

lemma net_handles:
  assumes s: "net X s" and v: "\<And>r. r \<in> listed s \<Longrightarrow> valid_request t r"
    and "req_heads t = req_heads s" "req_waiting t = req_waiting s" "server_ring t = server_ring s" "nameservers t = nameservers s"
      "good_nameservers t = good_nameservers s" "requests_inflight t = requests_inflight s" "requests_waiting t = requests_waiting s"
      "requests t = requests s"
  shows "net X t" "listed t = listed s"
proof -
  note same = assms(3-10)
  have i: "inflight t = inflight s" by (simp add: inflight_def same)
  have o: "ns_up t = ns_up s" "server_ok t = server_ok s" "someone_writes t = someone_writes s"
    by (auto simp: ns_up_def server_ok_def someone_writes_def same intro!: ext)
  show "net X t"
  proof (rule netI)
    show "flying X t j r" if "j < length (req_heads t)" "r \<in> set (req_heads t ! j)" for j r
    proof -
      have "r \<in> listed s" using that by (auto simp: listed_def inflight_head same)
      then show ?thesis using netD(8) [OF s, of j r] that v [of r] by (auto simp: flying_def same o)
    qed
    show "resting t r" if "r \<in> set (req_waiting t)" for r
      using netD(9) [OF s, of r] that v [of r] by (auto simp: resting_def same listed_def)
  qed (use netD(1-7) [OF s] in \<open>simp_all add: same i o\<close>)
  show "listed t = listed s" by (simp add: listed_def i same)
qed

lemma valid_handle:
  assumes "valid_request s p" "requests t = requests s" "handles t = (handles s)(h \<mapsto> hn')"
    "\<And>hn. handles s h = Some hn \<Longrightarrow> current_req hn = Some p \<Longrightarrow> current_req hn' = Some p"
  shows "valid_request t p"
proof -
  obtain q b bn where b: "requests s p = Some q" "req_handle q = Some b" "handles s b = Some bn" "current_req bn = Some p"
    using assms(1) by (auto simp: valid_request_iff)
  show ?thesis
  proof (cases "b = h")
    case True
    then show ?thesis using b assms by (simp add: valid_request_iff)
  next
    case False
    then show ?thesis using b assms by (simp add: valid_request_iff)
  qed
qed

lemma held_handle:
  assumes "dns_inv X M K s" "r \<in> listed s"
  obtains q h hn where "requests s r = Some q" "req_handle q = Some h" "handles s h = Some hn" "current_req hn = Some r"
    "pending_cb hn \<longleftrightarrow> r \<in> K" "type_ok (request_type q)" "cb_ok s (user_callback q)"
    "search_state hn \<noteq> None \<longrightarrow> (\<exists>tag. user_callback q = User tag)"
proof -
  have "request_held K s r" "valid_request s r"
    using assms net_listed_valid [of X s r] by (auto simp: dns_inv_def objs_def held_def)
  then show ?thesis using that by (auto simp: request_held_def valid_request_iff)
qed

text \<open>Two requests of the lists have different handles.\<close>

lemma handle_owner:
  assumes "dns_inv X M K s" "r \<in> listed s" "requests s r = Some q" "req_handle q = Some h" "handles s h = Some hn"
  shows "current_req hn = Some r"
  by (rule held_handle [OF assms(1,2)]) (use assms(3-5) in simp)

lemma searchers_same:
  assumes "handles s h = Some hn" "search_state hn' = search_state hn"
  shows "searchers (s\<lparr>handles := (handles s)(h \<mapsto> hn')\<rparr>) i = searchers s i"
  using assms by (auto simp: searchers_def)

lemma finite_searchers: "fresh s \<Longrightarrow> finite (searchers s i)"
proof -
  assume "fresh s"
  have "h < serial s" if "handles s h = Some hn" for h hn
    using \<open>fresh s\<close> that by (cases "serial s \<le> h") (auto simp: fresh_def)
  then have "searchers s i \<subseteq> {..<serial s}" by (auto simp: searchers_def)
  then show ?thesis by (rule finite_subset) simp
qed

lemma search_ok_handle:
  assumes s: "search_ok s" and h: "handles s h = Some hn" "search_state hn' = search_state hn" "search_origname hn' = search_origname hn"
      "search_index hn' = search_index hn"
    and t: "handles t = (handles s)(h \<mapsto> hn')" "searches t = searches s" "global_search_state t = global_search_state s"
  shows "search_ok t"
proof -
  have "searchers t i = searchers s i" for i
    using searchers_same [OF h(1,2), of i] t(1) by (simp add: searchers_def)
  moreover have "handle_search_ok t = handle_search_ok s" by (rule handle_search_cong [OF t(2)])
  moreover have "handle_search_ok s hn' = handle_search_ok s hn" by (cases "search_state hn") (simp_all add: handle_search_ok_def h)
  ultimately show ?thesis using s h(1) t unfolding search_ok_def by auto
qed

lemma schedule_ok:
  assumes s: "dns_inv X M K s" and r: "r \<in> listed s" "r \<notin> K" and al: "env_alloc e (serial s)"
    and q: "requests s r = Some q" and c: "\<And>n. err = DNS_ERR_CANCEL \<Longrightarrow> user_callback q = Probe n \<Longrightarrow> n \<in> M"
  obtains t h hn d where "reply_schedule_callback e r ttl err rep s = Some t" "dns_inv X M (insert r K) t" "ledger (insert r K) t = ledger K s"
    "t = s\<lparr>serial := serial s + 1, handles := (handles s)(h \<mapsto> hn\<lparr>pending_cb := True\<rparr>), deferreds := deferreds s @ [d]\<rparr>"
    "req_handle q = Some h" "handles s h = Some hn" "listed t = listed s" "d_callback d = user_callback q"
proof -
  obtain h hn where h: "req_handle q = Some h" "handles s h = Some hn" "current_req hn = Some r" "\<not> pending_cb hn"
      "type_ok (request_type q)" "cb_ok s (user_callback q)" "search_state hn \<noteq> None \<longrightarrow> (\<exists>tag. user_callback q = User tag)"
    by (rule held_handle [OF s r(1)]) (use q r(2) in simp)
  define d where "d = \<lparr>d_type = request_type q, d_ttl = ttl, d_err = err, d_callback = user_callback q, d_handle = req_handle q, d_reply = rep\<rparr>"
  define t where "t = s\<lparr>serial := serial s + 1, handles := (handles s)(h \<mapsto> hn\<lparr>pending_cb := True\<rparr>), deferreds := deferreds s @ [d]\<rparr>"
  have eq: "reply_schedule_callback e r ttl err rep s = Some t"
    using al q h(1,2) by (simp add: reply_schedule_callback_def allocate_def upd_handle_def t_def d_def)
  have N: "net X s" and O: "held K s" "fresh s" "search_ok s" "probes_ok M K s" "lively M K s"
    using s by (auto simp: dns_inv_def objs_def)
  have val: "valid_request t p" if "p \<in> listed s" for p
    by (rule valid_handle [OF net_listed_valid [OF N that], of t h "hn\<lparr>pending_cb := True\<rparr>"]) (use h(2) in \<open>auto simp: t_def\<close>)
  have net: "net X t" "listed t = listed s" using net_handles [OF N val] by (simp_all add: t_def)
  have cb: "cb_ok t = cb_ok s" by (auto simp: cb_ok_def t_def intro!: ext)
  have others: "req_handle p \<noteq> Some h" if "p' \<in> listed s" "p' \<noteq> r" "requests s p' = Some p" for p p'
    using handle_owner [OF s that(1,3) _ h(2)] h(3) that(2) by auto
  have "request_held (insert r K) t p" if mem: "p \<in> listed s" for p
  proof (cases "p = r")
    case True then show ?thesis using q h by (simp add: request_held_def t_def cb_ok_def)
  next
    case False
    obtain a b where "requests s p = Some a" "req_handle a = Some b" using held_handle [OF s mem] by metis
    then show ?thesis using O(1) mem False others [OF mem False]
      unfolding held_def request_held_def cb by (fastforce simp: t_def)
  qed
  moreover have old: "deferred_held (insert r K) t x \<and> d_handle x \<noteq> Some h" if mem: "x \<in> set (deferreds s)" for x
  proof -
    have "deferred_held K s x" using O(1) mem by (simp add: held_def)
    then obtain b bn where b: "d_handle x = Some b" "handles s b = Some bn" "pending_cb bn" "current_req bn = None \<longrightarrow> search_state bn = None"
        "\<forall>p. current_req bn = Some p \<longrightarrow> p \<in> K \<and> (\<exists>q. requests s p = Some q \<and> req_handle q = Some b)" "type_ok (d_type x)" "cb_ok s (d_callback x)"
      by (auto simp: deferred_held_def)
    then have "b \<noteq> h" using h(2,4) by auto
    then show ?thesis using b unfolding deferred_held_def cb by (auto simp: t_def)
  qed
  moreover have "deferred_held (insert r K) t d" using h q by (simp add: deferred_held_def cb) (simp add: d_def t_def)
  moreover have dt: "deferreds t = deferreds s @ [d]" "d_handle d = Some h" using h(1) by (simp_all add: t_def d_def)
  moreover have "Some h \<notin> d_handle ` set (deferreds s)" using old by force
  ultimately have held: "held (insert r K) t"
    using O(1) r(1) unfolding held_def net(2) dt(1) by auto
  have fresh: "fresh t" using O(2) h(2) by (auto simp: fresh_def t_def)
  have search: "search_ok t" by (rule search_ok_handle [OF O(3) h(2), of "hn\<lparr>pending_cb := True\<rparr>"]) (simp_all add: t_def)
  have probing: "probing (insert r K) t n b" if "probing K s n b" "n \<notin> M" for n b
    using that c [of n] q h(1) unfolding probing_def net(2) by (auto simp: t_def d_def)
  have "probes_ok M (insert r K) t"
    by (rule probes_mono [OF O(4)]) (use probing in \<open>auto simp: t_def\<close>)
  moreover have "lively M (insert r K) t"
    by (rule lively_mono [OF O(5)]) (use probing in \<open>auto simp: t_def\<close>)
  ultimately have inv: "dns_inv X M (insert r K) t" using net held fresh search by (simp add: dns_inv_def objs_def)
  have split: "listed s - K = insert r (listed s - insert r K)" using r by auto
  have "(\<Sum>r \<in> listed s - K. req_tag s r) = req_tag s r + (\<Sum>r \<in> listed s - insert r K. req_tag s r)"
    by (subst split, subst sum.insert) auto
  moreover have "req_tag t = req_tag s" by (auto simp: req_tag_def t_def intro!: ext)
  moreover have "req_tag s r = tag_of (d_callback d)" using q by (simp add: req_tag_def d_def)
  moreover have "delivered t = delivered s" by (simp add: t_def)
  ultimately have "ledger (insert r K) t = ledger K s"
    unfolding ledger_def net(2) dt(1) by (simp add: ac_simps)
  then show ?thesis using that [OF eq inv _ t_def h(1,2) net(2)] by (simp add: d_def)
qed

section \<open>Finishing a request\<close>

fun place :: "dns_base \<Rightarrow> nat \<Rightarrow> head \<Rightarrow> bool" where
  "place s r (Head i) \<longleftrightarrow> i < length (req_heads s) \<and> r \<in> set (req_heads s ! i)"
| "place s r Waiting \<longleftrightarrow> r \<in> set (req_waiting s)"

fun unlist :: "nat \<Rightarrow> head \<Rightarrow> dns_base \<Rightarrow> dns_base" where
  "unlist r (Head i) s = s\<lparr>req_heads := (req_heads s)[i := remove1 r (req_heads s ! i)], requests_inflight := requests_inflight s - 1\<rparr>"
| "unlist r Waiting s = s\<lparr>req_waiting := remove1 r (req_waiting s), requests_waiting := requests_waiting s - 1\<rparr>"

lemma net_unlist: "net X s \<Longrightarrow> place s r w \<Longrightarrow> net X (unlist r w s) \<and> listed (unlist r w s) = listed s - {r}"
  by (cases w) (simp_all add: net_remove_flying net_remove_waiting)

lemma place_listed: "place s r w \<Longrightarrow> r \<in> listed s"
  by (cases w) (auto simp: listed_def inflight_head)

lemma unlist_fields [simp]:
  "handles (unlist r w s) = handles s" "searches (unlist r w s) = searches s" "requests (unlist r w s) = requests s"
  "global_search_state (unlist r w s) = global_search_state s" "deferreds (unlist r w s) = deferreds s"
  "delivered (unlist r w s) = delivered s" "serial (unlist r w s) = serial s" "nameservers (unlist r w s) = nameservers s"
  "server_ring (unlist r w s) = server_ring s" "max_requests_inflight (unlist r w s) = max_requests_inflight s"
  by (cases w; simp)+

lemma decref_unlist: "search_state_decref st (unlist r w s) = map_option (\<lambda>t. (unlist r w s)\<lparr>searches := searches t\<rparr>) (search_state_decref st s)"
  by (cases w; cases st; cases "searches s (the st)") (simp_all add: search_state_decref_def upd_search_def)

lemma remove_unlist:
  assumes "valid_request s r" "place s r w"
  shows "evdns_request_remove r w s = Some (set_list_at w (remove1 r (list_at w s)) s)"
  using assms by (cases w) (simp_all add: evdns_request_remove_def assert_that_def list_at_def)

lemma unlist_count:
  "(if w \<noteq> Waiting then (set_list_at w (remove1 r (list_at w s)) s)\<lparr>requests_inflight := requests_inflight (set_list_at w (remove1 r (list_at w s)) s) - 1\<rparr>
    else (set_list_at w (remove1 r (list_at w s)) s)\<lparr>requests_waiting := requests_waiting (set_list_at w (remove1 r (list_at w s)) s) - 1\<rparr>)
   = unlist r w s"
  by (cases w) (simp_all add: set_list_at_def list_at_def)

lemma searchers_other:
  assumes "handles t = (handles s)(h \<mapsto> hn')" "search_state hn' = None"
  shows "searchers t i = searchers s i - {h}"
  using assms by (auto simp: searchers_def)

lemma decref_ok:
  assumes s: "search_ok s" "fresh s" and h: "handles s h = Some hn"
  obtains S where "search_state_decref (search_state hn) s = Some (s\<lparr>searches := S\<rparr>)" "\<And>x. searches s x = None \<Longrightarrow> S x = None"
    "\<And>hn' t. search_state hn' = None \<Longrightarrow> search_origname hn' = None \<Longrightarrow> handles t = (handles s)(h \<mapsto> hn') \<Longrightarrow> searches t = S \<Longrightarrow>
       global_search_state t = global_search_state s \<Longrightarrow> search_ok t"
proof (cases "search_state hn")
  case None
  have "search_ok t" if "search_state hn' = None" "search_origname hn' = None" "handles t = (handles s)(h \<mapsto> hn')" "searches t = searches s"
      "global_search_state t = global_search_state s" for hn' t
  proof -
    have "h \<notin> searchers s i" for i using h None by (simp add: searchers_def)
    then have "searchers t i = searchers s i" for i using searchers_other [OF that(3,1)] by simp
    moreover have "handle_search_ok t = handle_search_ok s" by (rule handle_search_cong [OF that(4)])
    moreover have "handle_search_ok s hn'" using that by (simp add: handle_search_ok_def)
    ultimately show ?thesis using s(1) that unfolding search_ok_def by auto
  qed
  then show ?thesis using that [of "searches s"] None by (simp add: search_state_decref_def)
next
  case (Some i)
  obtain l where l: "searches s i = Some l" using s(1) h Some by (fastforce simp: search_ok_def handle_search_ok_def)
  define S where "S = (if refcount l - 1 = 0 then (searches s)(i := None) else (searches s)(i \<mapsto> l\<lparr>refcount := refcount l - 1\<rparr>))"
  have hi: "h \<in> searchers s i" using h Some by (simp add: searchers_def)
  have fin: "finite (searchers s j)" for j by (rule finite_searchers [OF s(2)])
  have pos: "0 < card (searchers s i)" using hi fin [of i] by (auto simp: card_gt_0_iff)
  have ref: "refcount l = (if global_search_state s = Some i then 1 else 0) + int (card (searchers s i))"
    "num_domains l = int (length (domains l))"
    using s(1) l by (auto simp: search_ok_def)
  have "search_ok t" if t: "search_state hn' = None" "search_origname hn' = None" "handles t = (handles s)(h \<mapsto> hn')" "searches t = S"
      "global_search_state t = global_search_state s" for hn' t
  proof -
    have st: "searchers t j = searchers s j - {h}" for j by (rule searchers_other [OF t(3,1)])
    have ci: "int (card (searchers t i)) = int (card (searchers s i)) - 1"
      using hi fin [of i] by (simp add: st card_Diff_singleton) (metis One_nat_def Suc_leI card_gt_0_iff empty_iff of_nat_1 of_nat_diff)
    have cj: "card (searchers t j) = card (searchers s j)" if "j \<noteq> i" for j
    proof -
      have "h \<notin> searchers s j" using h Some that by (simp add: searchers_def)
      then show ?thesis by (simp add: st)
    qed
    have gone: "global_search_state s \<noteq> Some i \<and> searchers t i = {}" if "refcount l - 1 = 0"
      using that ref(1) ci fin [of i] by (auto simp: st split: if_splits)
    have "handle_search_ok t bn" if b: "handles t b = Some bn" for b bn
    proof (cases "b = h")
      case True then show ?thesis using b t(1-3) by (simp add: handle_search_ok_def)
    next
      case False
      then have bs: "handles s b = Some bn" using b t(3) by simp
      then have ok: "handle_search_ok s bn" using s(1) by (auto simp: search_ok_def)
      have "S j \<noteq> None" if "search_state bn = Some j" for j
      proof -
        have "b \<in> searchers t j" using b that by (auto simp: searchers_def)
        then show ?thesis using ok that gone by (auto simp: S_def handle_search_ok_def)
      qed
      then show ?thesis using ok t(4) by (auto simp: handle_search_ok_def split: option.splits)
    qed
    moreover have "S j \<noteq> None" if "global_search_state s = Some j" for j
      using s(1) that gone l pos by (auto simp: S_def search_ok_def)
    moreover have "num_domains k = int (length (domains k)) \<and> refcount k = (if global_search_state s = Some j then 1 else 0) + int (card (searchers t j))"
      if "S j = Some k" for j k
      using that s(1) ref ci cj [of j] by (cases "j = i") (auto simp: S_def search_ok_def split: if_splits)
    ultimately show ?thesis unfolding search_ok_def t(4,5) by blast
  qed
  moreover have "search_state_decref (search_state hn) s = Some (s\<lparr>searches := S\<rparr>)"
    using Some l by (simp add: search_state_decref_def upd_search_def S_def)
  moreover have "searches s x = None \<Longrightarrow> S x = None" for x using l by (auto simp: S_def)
  ultimately show ?thesis using that by blast
qed

text \<open>What the handle becomes, and the state before the waiting requests are looked at.\<close>

definition released :: "dns_handle \<Rightarrow> dns_handle" where
  "released hn = hn\<lparr>search_state := None, search_origname := None, current_req := None\<rparr>"

lemma net_forget: "net X s \<Longrightarrow> r \<notin> listed s \<Longrightarrow> net (X - {r}) s"
proof -
  assume s: "net X s" and r: "r \<notin> listed s"
  have "flying (X - {r}) s i p" if "i < length (req_heads s)" "p \<in> set (req_heads s ! i)" for i p
    using netD(8) [OF s that] r that by (auto simp: flying_def listed_def inflight_head)
  then show ?thesis using s by (simp add: net_def)
qed

lemma taken_out:
  assumes s: "dns_inv X M K s" and r: "place s r w" and q: "requests s r = Some q" "req_handle q = Some h" "handles s h = Some hn"
    and hn': "pending_cb hn' = pending_cb hn" "pending_cb hn \<Longrightarrow> search_state hn' = None" "current_req hn' = None"
    and c: "r \<in> K \<or> (\<exists>tag. user_callback q = User tag)" and X: "X \<subseteq> {r}" and S: "\<And>x. searches s x = None \<Longrightarrow> S x = None"
    and t: "t = (unlist r w s)\<lparr>searches := S, handles := (handles s)(h \<mapsto> hn'), requests := (requests s)(r := None)\<rparr>"
    and search: "search_ok t"
  shows "dns_inv {} M (K - {r}) t \<and> listed t = listed s - {r} \<and> ledger (K - {r}) t + (if r \<in> K then {#} else req_tag s r) = ledger K s"
proof -
  have rl: "r \<in> listed s" by (rule place_listed [OF r])
  have N: "net X s" and O: "held K s" "fresh s" "search_ok s" "probes_ok M K s" "lively M K s"
    using s by (auto simp: dns_inv_def objs_def)
  have hr: "current_req hn = Some r" by (rule handle_owner [OF s rl q])
  have others: "req_handle p \<noteq> Some h" if "p' \<in> listed s" "p' \<noteq> r" "requests s p' = Some p" for p p'
    using handle_owner [OF s that(1,3) _ q(3)] hr that(2) by auto
  have net: "net {} t" "listed t = listed s - {r}"
  proof -
    let ?u = "(unlist r w s)\<lparr>requests := (requests s)(r := None)\<rparr>"
    have u: "net X ?u" "listed ?u = listed s - {r}" using net_upd_unlisted [of X "unlist r w s" r None] net_unlist [OF N r] by simp_all
    have "valid_request t p" if "p \<in> listed ?u" for p
      by (rule valid_handle [OF net_listed_valid [OF u(1) that], of t h hn'])
        (use q(3) hr that u(2) in \<open>auto simp: t\<close>)
    from net_handles [OF u(1) this] have "net X t" "listed t = listed s - {r}" using u(2) by (auto simp: t)
    then show "net {} t" "listed t = listed s - {r}" using net_forget [of X t r] X by (auto simp: Diff_eq_empty_iff [THEN iffD2])
  qed
  have cb: "cb_ok t = cb_ok s" by (auto simp: cb_ok_def t intro!: ext)
  have "request_held (K - {r}) t p" if mem: "p \<in> listed s - {r}" for p
  proof -
    have "request_held K s p" using O(1) mem by (simp add: held_def)
    then show ?thesis using mem others [of p] unfolding request_held_def cb by (fastforce simp: t)
  qed
  moreover have "deferred_held (K - {r}) t d" if mem: "d \<in> set (deferreds s)" for d
  proof -
    have "deferred_held K s d" using O(1) mem by (simp add: held_def)
    then obtain b bn where b: "d_handle d = Some b" "handles s b = Some bn" "pending_cb bn" "current_req bn = None \<longrightarrow> search_state bn = None"
        "\<forall>p. current_req bn = Some p \<longrightarrow> p \<in> K \<and> (\<exists>q. requests s p = Some q \<and> req_handle q = Some b)" "type_ok (d_type d)" "cb_ok s (d_callback d)"
      by (auto simp: deferred_held_def)
    show ?thesis
    proof (cases "b = h")
      case True
      then show ?thesis using b q(3) hn' unfolding deferred_held_def cb by (auto simp: t)
    next
      case False
      then have "current_req bn \<noteq> Some r" using b(5) q(1,2) by auto
      then show ?thesis using b False unfolding deferred_held_def cb by (auto simp: t)
    qed
  qed
  moreover have td: "deferreds t = deferreds s" by (simp add: t)
  ultimately have held: "held (K - {r}) t" using O(1) net(2) by (auto simp: held_def)
  have fresh: "fresh t" using O(2) q(3) S by (auto simp: fresh_def t)
  have probing: "probing (K - {r}) t n b" if "probing K s n b" for n b
    using that c q(1) unfolding probing_def net(2) td by (auto simp: t)
  have "probes_ok M (K - {r}) t"
    by (rule probes_mono [OF O(4)]) (use probing in \<open>auto simp: t\<close>)
  moreover have "lively M (K - {r}) t"
    by (rule lively_mono [OF O(5)]) (use probing in \<open>auto simp: t\<close>)
  ultimately have inv: "dns_inv {} M (K - {r}) t" using net held fresh search by (simp add: dns_inv_def objs_def)
  have "(\<Sum>p \<in> A - {r}. req_tag t p) = (\<Sum>p \<in> A - {r}. req_tag s p)" for A
    by (rule sum.cong) (auto simp: req_tag_def t)
  note same = this [of "listed s - K"]
  have "listed t - (K - {r}) = listed s - K - {r}" using net(2) by auto
  moreover have "r \<in> K \<Longrightarrow> listed s - K - {r} = listed s - K" by auto
  moreover have "r \<notin> K \<Longrightarrow> sum (req_tag s) (listed s - K) = req_tag s r + sum (req_tag s) (listed s - K - {r})"
    by (rule sum.remove) (use rl in auto)
  ultimately have "(\<Sum>p \<in> listed t - (K - {r}). req_tag t p) + (if r \<in> K then {#} else req_tag s r) = (\<Sum>p \<in> listed s - K. req_tag s p)"
    using same by (cases "r \<in> K") (simp_all add: ac_simps)
  moreover have "delivered t = delivered s" by (simp add: t)
  ultimately have "ledger (K - {r}) t + (if r \<in> K then {#} else req_tag s r) = ledger K s"
    unfolding ledger_def td by (simp add: ac_simps)
  then show ?thesis using inv net(2) by blast
qed

text \<open>
  What finishing requests and moving waiting ones into flight does to the rest: servers do not come up,
  requests do not go back to waiting, and only requests \<open>p\<close> of \<open>R\<close> leave the lists.
\<close>

definition shrinks :: "nat set \<Rightarrow> dns_base \<Rightarrow> dns_base \<Rightarrow> bool" where
  "shrinks R s t \<longleftrightarrow> listed t \<subseteq> listed s \<and> listed s - R \<subseteq> listed t \<and> set (inflight s) - R \<subseteq> set (inflight t) \<and>
     set (server_ring t) = set (server_ring s) \<and> (\<forall>n. server_step (nameservers s n) (nameservers t n)) \<and>
     (\<forall>p \<in> listed t. map_option core (requests t p) = map_option core (requests s p)) \<and>
     max_requests_inflight t = max_requests_inflight s"

lemma shrinksD:
  assumes "shrinks R s t"
  shows "listed t \<subseteq> listed s" "listed s - R \<subseteq> listed t" "set (inflight s) - R \<subseteq> set (inflight t)" "set (server_ring t) = set (server_ring s)"
    "server_step (nameservers s n) (nameservers t n)"
  using assms by (auto simp: shrinks_def)

lemma shrinks_trans: "shrinks R s t \<Longrightarrow> shrinks R t u \<Longrightarrow> shrinks R s u"
proof -
  assume s: "shrinks R s t" and t: "shrinks R t u"
  have "server_step (nameservers s n) (nameservers u n)" for n
    using s t server_step_trans [of "nameservers s n" "nameservers t n"] by (simp add: shrinks_def)
  moreover have "map_option core (requests u p) = map_option core (requests s p)" if "p \<in> listed u" for p
    using s t that by (auto simp: shrinks_def)
  moreover have "listed u \<subseteq> listed s" "listed s - R \<subseteq> listed u" using shrinksD(1,2) [OF s] shrinksD(1,2) [OF t] by blast+
  moreover have "set (inflight s) - R \<subseteq> set (inflight u)" using shrinksD(3) [OF s] shrinksD(3) [OF t] by blast
  ultimately show ?thesis using s t by (simp add: shrinks_def)
qed

lemma shrinks_quiet: "quiet s t \<Longrightarrow> set (inflight s) \<subseteq> set (inflight t) \<Longrightarrow> shrinks R s t"
  by (auto simp: shrinks_def quiet_def same_objects_def)

lemma after_quiet: "shrinks R s t \<Longrightarrow> quiet t u \<and> set (inflight t) \<subseteq> set (inflight u) \<Longrightarrow> shrinks R s u"
  by (blast intro: shrinks_trans shrinks_quiet)

lemma after_pump:
  assumes "dns_inv {} M K t" "fair_random e" "room t" "shrinks R s t"
  shows "returns (evdns_requests_pump_waiting_queue e t)
           (\<lambda>u. dns_inv {} M K u \<and> ledger K u = ledger K t \<and> listed u = listed t \<and> serial u = serial t \<and> quiet t u \<and> shrinks R s u)"
  by (rule returns_mono [OF inv_pump [OF assms(1-3)]]) (use quietD(6,10) [of t] after_quiet [OF assms(4)] in blast)

lemma shrinks_room: "shrinks R s t \<Longrightarrow> room s \<Longrightarrow> room t"
  using card_mono [of "listed s" "listed t"] by (simp add: shrinks_def room_def)

lemma unlist_inflight:
  assumes "net X s" "place s r w"
  shows "set (inflight s) - {r} \<subseteq> set (inflight (unlist r w s))"
proof (cases w)
  case (Head i)
  then have "mset (inflight s) = add_mset r (mset (inflight (unlist r w s)))"
    using mset_heads_remove [of i "req_heads s" r] assms(2) by (simp add: inflight_def)
  then have "set (inflight s) = insert r (set (inflight (unlist r w s)))" by (metis set_mset_add_mset_insert set_mset_mset)
  then show ?thesis by blast
qed (simp add: inflight_def)

lemma finish_ok:
  assumes s: "dns_inv X M K s" and r: "r \<in> K" "place s r w" and e: "fair_random e" "room s" and X: "X \<subseteq> {r}"
  shows "returns (request_finished e r w True s)
           (\<lambda>t. dns_inv {} M (K - {r}) t \<and> ledger (K - {r}) t = ledger K s \<and> listed t = listed s - {r} \<and> shrinks {r} s t \<and> serial t = serial s)"
proof -
  have rl: "r \<in> listed s" by (rule place_listed [OF r(2)])
  obtain q h hn where q: "requests s r = Some q" and h: "req_handle q = Some h" "handles s h = Some hn" "current_req hn = Some r" "pending_cb hn"
    by (rule held_handle [OF s rl]) (use r(1) in simp)
  have N: "net X s" and O: "fresh s" "search_ok s" using s by (auto simp: dns_inv_def objs_def)
  obtain S where S: "search_state_decref (search_state hn) s = Some (s\<lparr>searches := S\<rparr>)" "\<And>x. searches s x = None \<Longrightarrow> S x = None"
    and so: "\<And>hn' t. search_state hn' = None \<Longrightarrow> search_origname hn' = None \<Longrightarrow> handles t = (handles s)(h \<mapsto> hn') \<Longrightarrow> searches t = S \<Longrightarrow>
       global_search_state t = global_search_state s \<Longrightarrow> search_ok t"
    by (rule decref_ok [OF O(2,1) h(2)]) blast
  define t where "t = (unlist r w s)\<lparr>searches := S, handles := (handles s)(h \<mapsto> released hn), requests := (requests s)(r := None)\<rparr>"
  have search: "search_ok t" by (rule so [of "released hn"]) (simp_all add: t_def released_def)
  have t: "dns_inv {} M (K - {r}) t" "listed t = listed s - {r}" "ledger (K - {r}) t = ledger K s"
    using taken_out [OF s r(2) q h(1,2) _ _ _ _ X S(2) t_def search] r(1) by (auto simp: released_def)
  have room: "room t"
    using e(2) t(2) card_mono [of "listed s" "listed s - {r}"] by (simp add: room_def)
  have "request_finished e r w True s = evdns_requests_pump_waiting_queue e t"
  proof -
    have "search_state_decref (search_state hn) (unlist r w s) = Some ((unlist r w s)\<lparr>searches := S\<rparr>)"
      using S(1) by (simp add: decref_unlist)
    moreover have "handles t = (handles s)(h \<mapsto> hn\<lparr>search_state := None, search_origname := None\<rparr>, h \<mapsto> released hn)"
      by (simp add: t_def)
    ultimately show ?thesis
      using q h net_listed_valid [OF N rl] remove_unlist [OF net_listed_valid [OF N rl] r(2)]
      by (simp add: request_finished_def release_handle_def search_request_finished_def upd_handle_def released_def t_def unlist_count assert_that_def)
  qed
  moreover have "serial t = serial s" by (simp add: t_def)
  moreover have "shrinks {r} s t"
    using unlist_inflight [OF N r(2)] t(2) by (auto simp: shrinks_def t_def)
  ultimately show ?thesis
    by (simp only:) (rule returns_mono [OF after_pump [OF t(1) e(1) room]], assumption, simp add: t(2,3))
qed

lemma finish_keep_ok:
  assumes s: "dns_inv X M K s" and r: "r \<notin> K" "place s r w" and e: "fair_random e" "room s" and X: "X \<subseteq> {r}"
    and q: "requests s r = Some q" "req_handle q = Some h" "handles s h = Some hn" and c: "user_callback q = User tag"
  shows "returns (request_finished e r w False s)
           (\<lambda>t. \<exists>t'. quiet t' t \<and> t' = (unlist r w s)\<lparr>handles := (handles s)(h \<mapsto> hn\<lparr>current_req := None\<rparr>), requests := (requests s)(r := None)\<rparr> \<and>
              dns_inv {} M K t \<and> ledger K t + {#tag#} = ledger K s \<and> listed t = listed s - {r} \<and> shrinks {r} s t)"
proof -
  have rl: "r \<in> listed s" by (rule place_listed [OF r(2)])
  have N: "net X s" and O: "search_ok s" using s by (auto simp: dns_inv_def objs_def)
  have h: "current_req hn = Some r" "\<not> pending_cb hn" by (rule held_handle [OF s rl], use q r in simp)+
  define t where "t = (unlist r w s)\<lparr>handles := (handles s)(h \<mapsto> hn\<lparr>current_req := None\<rparr>), requests := (requests s)(r := None)\<rparr>"
  have td: "t = (unlist r w s)\<lparr>searches := searches s, handles := (handles s)(h \<mapsto> hn\<lparr>current_req := None\<rparr>), requests := (requests s)(r := None)\<rparr>"
    by (cases w) (simp_all add: t_def)
  have search: "search_ok t" by (rule search_ok_handle [OF O q(3), of "hn\<lparr>current_req := None\<rparr>"]) (simp_all add: t_def)
  have t: "dns_inv {} M K t" "listed t = listed s - {r}" "ledger K t + {#tag#} = ledger K s"
    using taken_out [OF s r(2) q _ _ _ _ X _ td search] r(1) h c q(1) by (auto simp: req_tag_def)
  have room: "room t"
    using e(2) t(2) card_mono [of "listed s" "listed s - {r}"] by (simp add: room_def)
  have "request_finished e r w False s = evdns_requests_pump_waiting_queue e t"
    using q h net_listed_valid [OF N rl] remove_unlist [OF net_listed_valid [OF N rl] r(2)]
    by (simp add: request_finished_def release_handle_def upd_handle_def t_def unlist_count assert_that_def)
  moreover have "shrinks {r} s t"
    using unlist_inflight [OF N r(2)] t(2) by (auto simp: shrinks_def t_def)
  ultimately show ?thesis
    by (simp only:) (rule returns_mono [OF after_pump [OF t(1) e(1) room]], assumption, use t(2,3) t_def in auto)
qed

section \<open>Cancelling\<close>

lemma inflight_place:
  assumes "net X s" "r \<in> set (inflight s)"
  obtains i where "head_of_req s r = Some (Head i)" "place s r (Head i)"
proof -
  obtain i q where "i < length (req_heads s)" "r \<in> set (req_heads s ! i)" "requests s r = Some q"
      "unat (trans_id q) mod length (req_heads s) = i"
    using net_inflight [OF assms] by (auto simp: flying_def)
  then show ?thesis using that [of i] netD(1) [OF assms(1)] by (simp add: head_of_req_def head_of_def)
qed

lemma head_of_req_cong: "requests t = requests s \<Longrightarrow> req_heads t = req_heads s \<Longrightarrow> head_of_req t r = head_of_req s r"
  by (simp add: head_of_req_def head_of_def cong: if_cong)

lemma waiting_ns: "net X s \<Longrightarrow> r \<in> listed s \<Longrightarrow> requests s r = Some q \<Longrightarrow> req_ns q = None \<longleftrightarrow> r \<in> set (req_waiting s)"
  using net_inflight [of X s r] netD(2) [of X s] netD(9) [of X s r] by (auto simp: listed_def flying_def resting_def)

text \<open>The callback is scheduled and the request finished.\<close>

lemma schedule_finish_ok:
  assumes s: "dns_inv X M K s" and r: "place s r w" "r \<notin> K" and X: "X \<subseteq> {r}" and e: "fair_random e" "room s" "env_alloc e (serial s)"
    and c: "\<And>q n. err = DNS_ERR_CANCEL \<Longrightarrow> requests s r = Some q \<Longrightarrow> user_callback q = Probe n \<Longrightarrow> n \<in> M"
  shows "\<exists>t. reply_schedule_callback e r ttl err rep s = Some t \<and> requests t = requests s \<and> req_heads t = req_heads s \<and>
           returns (request_finished e r w True t) (\<lambda>u. dns_inv {} M K u \<and> ledger K u = ledger K s \<and> listed u = listed s - {r} \<and> shrinks {r} s u)"
proof -
  have rl: "r \<in> listed s" by (rule place_listed [OF r(1)])
  obtain q where q: "requests s r = Some q" by (rule held_handle [OF s rl]) blast
  obtain t h hn d where t: "reply_schedule_callback e r ttl err rep s = Some t" "dns_inv X M (insert r K) t" "ledger (insert r K) t = ledger K s"
      "t = s\<lparr>serial := serial s + 1, handles := (handles s)(h \<mapsto> hn\<lparr>pending_cb := True\<rparr>), deferreds := deferreds s @ [d]\<rparr>" "listed t = listed s"
    by (rule schedule_ok [OF s rl r(2) e(3) q, of err ttl rep]) (use c [OF _ q] in auto)
  have p: "place t r w" "room t" using r(1) e(2) t(4,5) by (cases w, simp_all add: room_def)
  have st: "shrinks R s t" for R using t(5) by (simp add: shrinks_def t(4) inflight_def)
  have K: "insert r K - {r} = K" using r(2) by auto
  have "returns (request_finished e r w True t) (\<lambda>u. dns_inv {} M K u \<and> ledger K u = ledger K s \<and> listed u = listed s - {r} \<and> shrinks {r} s u)"
    using finish_ok [OF t(2) _ p(1) e(1) p(2) X] t(3,5) shrinks_trans [OF st] unfolding K by (auto elim!: returns_mono)
  then show ?thesis using t(1,4) by auto
qed

lemma finish_with_ok:
  assumes s: "dns_inv X M K s" and r: "r \<in> set (inflight s)" "r \<notin> K" and X: "X \<subseteq> {r}" and e: "fair_random e" "room s" "env_alloc e (serial s)"
    and c: "err \<noteq> DNS_ERR_CANCEL"
  shows "returns (finish_with e r ttl err s) (\<lambda>u. dns_inv {} M K u \<and> ledger K u = ledger K s \<and> listed u = listed s - {r} \<and> shrinks {r} s u)"
proof -
  have N: "net X s" using s by (simp add: dns_inv_def)
  obtain i where i: "head_of_req s r = Some (Head i)" "place s r (Head i)" by (rule inflight_place [OF N r(1)])
  obtain t where t: "reply_schedule_callback e r ttl err None s = Some t" "requests t = requests s" "req_heads t = req_heads s"
      "returns (request_finished e r (Head i) True t) (\<lambda>u. dns_inv {} M K u \<and> ledger K u = ledger K s \<and> listed u = listed s - {r} \<and> shrinks {r} s u)"
    using schedule_finish_ok [OF s i(2) r(2) X e, of err ttl None] c by auto
  then show ?thesis using i(1) head_of_req_cong [OF t(2,3)] by (simp add: finish_with_def)
qed

text \<open>A handle that may be cancelled: of a request in the lists, or of a callback that is scheduled.\<close>

definition live_handle :: "nat set \<Rightarrow> dns_base \<Rightarrow> nat \<Rightarrow> bool" where
  "live_handle K s h \<longleftrightarrow> (\<exists>r \<in> listed s - K. \<exists>q. requests s r = Some q \<and> req_handle q = Some h) \<or> (\<exists>d \<in> set (deferreds s). d_handle d = Some h)"

definition requests_of :: "dns_base \<Rightarrow> nat \<Rightarrow> nat set" where
  "requests_of s h = {r. \<exists>q. requests s r = Some q \<and> req_handle q = Some h}"

lemma probing_live: "probing K s n h \<Longrightarrow> live_handle K s h"
  by (auto simp: probing_def live_handle_def)

lemma cancel_ok:
  assumes s: "dns_inv {} M K s" and h: "live_handle K s h" and e: "fair_random e" "room s" "env_alloc e (serial s)"
    and c: "\<And>r q n. r \<in> listed s \<Longrightarrow> r \<notin> K \<Longrightarrow> requests s r = Some q \<Longrightarrow> req_handle q = Some h \<Longrightarrow> user_callback q = Probe n \<Longrightarrow> n \<in> M"
  shows "returns (evdns_cancel_request e h s) (\<lambda>u. dns_inv {} M K u \<and> ledger K u = ledger K s \<and> shrinks (requests_of s h) s u)"
proof -
  have N: "net {} s" and O: "held K s" using s by (auto simp: dns_inv_def objs_def)
  have refl: "shrinks R s s" for R by (rule shrinks_quiet) simp_all
  show ?thesis
  proof (cases "\<exists>d \<in> set (deferreds s). d_handle d = Some h")
    case True
    then obtain hn where "handles s h = Some hn" "pending_cb hn" using O by (auto simp: held_def deferred_held_def)
    then show ?thesis using s refl by (simp add: evdns_cancel_request_def split: option.splits)
  next
    case False
    then obtain r q where r: "r \<in> listed s" "r \<notin> K" "requests s r = Some q" "req_handle q = Some h"
      using h by (auto simp: live_handle_def)
    obtain hn where hn: "handles s h = Some hn" "current_req hn = Some r" "\<not> pending_cb hn"
      by (rule held_handle [OF s r(1)]) (use r in auto)
    have val: "valid_request s r" by (rule net_listed_valid [OF N r(1)])
    have sub: "shrinks {r} s u \<Longrightarrow> shrinks (requests_of s h) s u" for u
      using r(3,4) unfolding shrinks_def requests_of_def by blast
    define w where "w = (if req_ns q = None then Waiting else the (head_of_req s r))"
    have w: "place s r w" "req_ns q \<noteq> None \<Longrightarrow> head_of_req s r = Some w"
    proof -
      have "r \<in> set (inflight s)" if "req_ns q \<noteq> None" using waiting_ns [OF N r(1,3)] that r(1) by (auto simp: listed_def)
      then show "req_ns q \<noteq> None \<Longrightarrow> head_of_req s r = Some w" using inflight_place [OF N, of r] by (metis w_def option.sel)
      show "place s r w"
      proof (cases "req_ns q = None")
        case True then show ?thesis using waiting_ns [OF N r(1,3)] by (simp add: w_def)
      next
        case f: False
        then have "r \<in> set (inflight s)" using waiting_ns [OF N r(1,3)] r(1) by (auto simp: listed_def)
        then show ?thesis using inflight_place [OF N, of r] f by (metis w_def option.sel)
      qed
    qed
    obtain t where t: "reply_schedule_callback e r 0 DNS_ERR_CANCEL None s = Some t" "requests t = requests s" "req_heads t = req_heads s"
        "returns (request_finished e r w True t) (\<lambda>u. dns_inv {} M K u \<and> ledger K u = ledger K s \<and> listed u = listed s - {r} \<and> shrinks {r} s u)"
      using schedule_finish_ok [OF s w(1) r(2) _ e, of DNS_ERR_CANCEL 0 None] c [OF r(1,2)] r(3,4) by auto
    have "evdns_cancel_request e h s = request_finished e r w True t"
      using hn val t(1,2) r(3) w(2) head_of_req_cong [OF t(2,3), of r]
      by (cases "req_ns q"; cases "head_of_req s r") (auto simp add: evdns_cancel_request_def assert_that_def w_def)
    then show ?thesis using t(4) sub by (auto elim!: returns_mono)
  qed
qed

end
