(* ===== verification/EvdnsServers.thy ===== *)
theory EvdnsServers
  imports EvdnsObjects
begin

text \<open>
  Servers that come up, timeouts of requests, and requests given to another server: each keeps the invariant.
\<close>

section \<open>A server changes\<close>

definition keeps :: "nat set \<Rightarrow> dns_base \<Rightarrow> dns_base \<Rightarrow> bool" where
  "keeps R s t \<longleftrightarrow> listed t \<subseteq> listed s \<and> listed s - R \<subseteq> listed t \<and> set (inflight s) - R \<subseteq> set (inflight t) \<and>
     set (server_ring t) = set (server_ring s) \<and> (\<forall>p \<in> listed t. map_option core (requests t p) = map_option core (requests s p))"

lemma keepsD:
  assumes "keeps R s t"
  shows "listed t \<subseteq> listed s" "listed s - R \<subseteq> listed t" "set (inflight s) - R \<subseteq> set (inflight t)" "set (server_ring t) = set (server_ring s)"
    "p \<in> listed t \<Longrightarrow> map_option core (requests t p) = map_option core (requests s p)"
  using assms by (auto simp: keeps_def)

lemma keeps_refl [simp]: "keeps R s s"
  by (simp add: keeps_def)

lemma keeps_shrinks: "shrinks R s t \<Longrightarrow> keeps R s t"
  by (simp add: keeps_def shrinks_def)

lemma keeps_quiet: "quiet s t \<Longrightarrow> set (inflight s) \<subseteq> set (inflight t) \<Longrightarrow> keeps R s t"
  by (rule keeps_shrinks) (rule shrinks_quiet)

lemma keeps_trans: "keeps R s t \<Longrightarrow> keeps R t u \<Longrightarrow> keeps R s u"
proof -
  assume s: "keeps R s t" and t: "keeps R t u"
  have "map_option core (requests u p) = map_option core (requests s p)" if "p \<in> listed u" for p
    using keepsD(5) [OF s, of p] keepsD(5) [OF t, of p] keepsD(1) [OF t] that by auto
  moreover have "listed u \<subseteq> listed s" "listed s - R \<subseteq> listed u" using keepsD(1,2) [OF s] keepsD(1,2) [OF t] by blast+
  moreover have "set (inflight s) - R \<subseteq> set (inflight u)" using keepsD(3) [OF s] keepsD(3) [OF t] by blast
  ultimately show ?thesis using keepsD(4) [OF s] keepsD(4) [OF t] by (simp add: keeps_def)
qed

lemma keeps_room: "keeps R s t \<Longrightarrow> room s \<Longrightarrow> room t"
  using card_mono [of "listed s" "listed t"] by (simp add: keeps_def room_def)

lemma ns_update:
  assumes "nameservers s n = Some v"
  shows "probing K (s\<lparr>nameservers := (nameservers s)(n \<mapsto> v')\<rparr>) = probing K s"
    "ledger K (s\<lparr>nameservers := (nameservers s)(n \<mapsto> v')\<rparr>) = ledger K s"
    "listed (s\<lparr>nameservers := (nameservers s)(n \<mapsto> v')\<rparr>) = listed s"
    "keeps R s (s\<lparr>nameservers := (nameservers s)(n \<mapsto> v')\<rparr>)"
  by (auto simp: probing_def ledger_def listed_def req_tag_def keeps_def intro!: ext)

lemma objs_ns:
  assumes s: "objs M K s" and n: "n \<in> M" and v: "nameservers s n = Some v"
  shows "objs M K (s\<lparr>nameservers := (nameservers s)(n \<mapsto> v')\<rparr>)"
proof -
  let ?t = "s\<lparr>nameservers := (nameservers s)(n \<mapsto> v')\<rparr>"
  have "held K ?t" using s by (simp add: objs_def held_def request_held_def deferred_held_def cb_ok_def listed_def)
  moreover have "fresh ?t" using s v by (auto simp: objs_def fresh_def)
  moreover have "search_ok ?t" using s handle_search_cong [of ?t s] by (simp add: objs_def search_ok_def searchers_def)
  moreover have "probes_ok M K ?t" "lively M K ?t"
    using s n unfolding objs_def probes_ok_def lively_def ns_update(1) [OF v] by auto
  ultimately show ?thesis by (simp add: objs_def)
qed

lemma exempt: "dns_inv X M K s \<Longrightarrow> M \<subseteq> N \<Longrightarrow> dns_inv X N K s"
  unfolding dns_inv_def objs_def probes_ok_def lively_def by blast

lemma unexempt:
  assumes "dns_inv X (insert n M) K s" "nameservers s n = Some v"
    "\<And>h. probe_request v = Some h \<Longrightarrow> probing K s n h" "ns_state v \<or> ns_timer v \<noteq> None \<or> (\<exists>h. probing K s n h)"
  shows "dns_inv X M K s"
proof -
  have "probes_ok M K s" using assms(1-3) unfolding dns_inv_def objs_def probes_ok_def by (metis Diff_iff insert_iff option.inject)
  moreover have "lively M K s" using assms(1,2,4) unfolding dns_inv_def objs_def lively_def by (metis Diff_iff insert_iff option.inject)
  ultimately show ?thesis using assms(1) by (simp add: dns_inv_def objs_def)
qed

text \<open>What is counted of a server, and who sends: nothing is asked of the timers of servers.\<close>

lemma inv_ns:
  assumes s: "dns_inv X M K s" and n: "n \<in> M" and v: "nameservers s n = Some v" and st: "ns_state v' = ns_state v"
    and ok: "choked v' \<Longrightarrow> write_waiting v'" and w: "write_waiting v \<Longrightarrow> write_waiting v'"
  shows "dns_inv X M K (s\<lparr>nameservers := (nameservers s)(n \<mapsto> v')\<rparr>)"
  using s net_upd_ns [of X s n v v'] objs_ns [OF _ n v] v st ok w by (simp add: dns_inv_def)

lemma net_server_up:
  assumes s: "net X s" and n: "n \<in> set (server_ring s)" and v: "nameservers s n = Some v" and up: "\<not> ns_state v"
  shows "net X (s\<lparr>nameservers := (nameservers s)(n \<mapsto> v\<lparr>ns_state := True, failed_times := 0, timedout := 0\<rparr>), good_nameservers := good_nameservers s + 1\<rparr>)"
proof -
  let ?v = "v\<lparr>ns_state := True, failed_times := 0, timedout := 0\<rparr>"
  let ?t = "s\<lparr>nameservers := (nameservers s)(n \<mapsto> ?v), good_nameservers := good_nameservers s + 1\<rparr>"
  have len: "length (filter (ns_up ?t) (server_ring s)) = Suc (length (filter (ns_up s) (server_ring s)))"
    by (rule filter_flip [OF netD(3) [OF s] n]) (auto simp: ns_up_def v up)
  have "someone_writes s \<Longrightarrow> someone_writes ?t" "someone_writes ?t \<Longrightarrow> someone_writes s"
    by (erule someone_writes_mono; use v in \<open>auto split: if_splits\<close>)+
  then have a: "inflight ?t = inflight s" "valid_request ?t p = valid_request s p" "someone_writes ?t = someone_writes s"
    "server_ok ?t m = server_ok s m" for p m
    using v by (auto simp: inflight_def valid_request_iff server_ok_def)
  have f: "flying X ?t i p = flying X s i p" "resting ?t p = resting s p" for i p
    by (simp_all add: flying_def resting_def a)
  show ?thesis using s len unfolding net_def a f by simp
qed

lemma net_server: "net X s \<Longrightarrow> n \<in> set (server_ring s) \<Longrightarrow> \<exists>v. nameservers s n = Some v \<and> (choked v \<longrightarrow> write_waiting v)"
  using netD(4) [of X s n] by (auto simp: server_ok_def)

text \<open>The request, if there is one, that is a server's probe.\<close>

definition probes_of :: "dns_base \<Rightarrow> nat \<Rightarrow> nat set" where
  "probes_of s n = {r. \<exists>q v h. requests s r = Some q \<and> nameservers s n = Some v \<and> probe_request v = Some h \<and> req_handle q = Some h}"

lemma probing_only:
  assumes s: "dns_inv X M K s" and p: "probing K s n h" and r: "r \<in> listed s" "r \<notin> K" "requests s r = Some q" "req_handle q = Some h"
    and c: "user_callback q = Probe m"
  shows "m = n"
proof -
  obtain hn where hn: "handles s h = Some hn" "current_req hn = Some r" "\<not> pending_cb hn"
    by (rule held_handle [OF s r(1)]) (use r in auto)
  have "\<not> (\<exists>d \<in> set (deferreds s). d_handle d = Some h)"
    using s hn by (auto simp: dns_inv_def objs_def held_def deferred_held_def)
  then obtain p a where "p \<in> listed s" "requests s p = Some a" "req_handle a = Some h" "user_callback a = Probe n"
    using p by (auto simp: probing_def)
  moreover from this have "p = r" using handle_owner [OF s _ _ _ hn(1)] hn(2) by fastforce
  ultimately show ?thesis using r(3) c by simp
qed

lemma good_same:
  "objs M K (x\<lparr>good_nameservers := g\<rparr>) = objs M K x" "ledger K (x\<lparr>good_nameservers := g\<rparr>) = ledger K x"
  "keeps R s (x\<lparr>good_nameservers := g\<rparr>) = keeps R s x"
proof -
  show "objs M K (x\<lparr>good_nameservers := g\<rparr>) = objs M K x" by (rule objs_cong) (simp_all add: listed_def)
  show "ledger K (x\<lparr>good_nameservers := g\<rparr>) = ledger K x" by (rule ledger_cong) (simp_all add: listed_def)
  show "keeps R s (x\<lparr>good_nameservers := g\<rparr>) = keeps R s x" by (simp add: keeps_def listed_def)
qed

lemma nameserver_up_ok:
  assumes s: "dns_inv {} {n} K s" and n: "n \<in> set (server_ring s)" and e: "fair_random e" "room s" "\<And>k. env_alloc e k"
    and p: "\<And>v h. nameservers s n = Some v \<Longrightarrow> probe_request v = Some h \<Longrightarrow> probing K s n h"
  shows "returns (nameserver_up e n s) (\<lambda>u. dns_inv {} {} K u \<and> ledger K u = ledger K s \<and> keeps (probes_of s n) s u)"
proof -
  have N: "net {} s" using s by (simp add: dns_inv_def)
  obtain v where v: "nameservers s n = Some v" "choked v \<longrightarrow> write_waiting v" using net_server [OF N n] by blast
  show ?thesis
  proof (cases "ns_state v")
    case True
    then show ?thesis using unexempt [OF s v(1)] p [OF v(1)] v by (simp add: nameserver_up_def)
  next
    case False
    let ?v = "v\<lparr>ns_timer := None\<rparr>"
    let ?s = "s\<lparr>nameservers := (nameservers s)(n \<mapsto> ?v)\<rparr>"
    have s1: "dns_inv {} {n} K ?s" by (rule inv_ns [OF s _ v(1)]) (use v(2) in auto)
    have k1: "keeps R s ?s" for R by (rule ns_update [OF v(1)])
    have "\<exists>u vu. (case probe_request v of None \<Rightarrow> Some ?s
                | Some h \<Rightarrow> do { s \<leftarrow> evdns_cancel_request e h ?s; upd_ns n (probe_request_update (\<lambda>_. None)) s }) = Some u \<and>
            dns_inv {} {n} K u \<and> ledger K u = ledger K s \<and> keeps (probes_of s n) s u \<and>
            nameservers u n = Some vu \<and> \<not> ns_state vu \<and> probe_request vu = None"
    proof (cases "probe_request v")
      case None
      then show ?thesis using s1 k1 ns_update(2) [OF v(1)] False by auto
    next
      case (Some h)
      have pr: "probing K ?s n h" using p [OF v(1) Some] by (simp add: ns_update(1) [OF v(1)])
      have room: "room ?s" using keeps_room [OF k1 e(2)] .
      obtain t where t: "evdns_cancel_request e h ?s = Some t" "dns_inv {} {n} K t" "ledger K t = ledger K ?s" "shrinks (requests_of ?s h) ?s t"
        using cancel_ok [OF s1 probing_live [OF pr] e(1) room e(3)] probing_only [OF s1 pr] by (auto simp: returns_def)
      obtain vt where vt: "nameservers t n = Some vt" "\<not> ns_state vt" "choked vt \<longrightarrow> write_waiting vt"
      proof -
        have "n \<in> set (server_ring t)" using shrinksD(4) [OF t(4)] n by simp
        then obtain vt where "nameservers t n = Some vt" "choked vt \<longrightarrow> write_waiting vt"
          using net_server [of "{}" t n] t(2) by (auto simp: dns_inv_def)
        moreover have "\<not> ns_state vt"
          using shrinksD(5) [OF t(4), of n] False calculation by (simp add: server_step_def)
        ultimately show ?thesis using that by blast
      qed
      let ?u = "t\<lparr>nameservers := (nameservers t)(n \<mapsto> vt\<lparr>probe_request := None\<rparr>)\<rparr>"
      have "dns_inv {} {n} K ?u" by (rule inv_ns [OF t(2) _ vt(1)]) (use vt(3) in auto)
      moreover have "ledger K ?u = ledger K s" using ns_update(2) [OF vt(1)] t(3) ns_update(2) [OF v(1)] by simp
      moreover have "requests_of ?s h = probes_of s n" using v Some by (auto simp: requests_of_def probes_of_def)
      then have "keeps (probes_of s n) s ?u"
        using keeps_trans [OF k1] keeps_trans [OF keeps_shrinks [OF t(4)] ns_update(4) [OF vt(1)]] by simp
      ultimately show ?thesis using Some t(1) vt by (simp add: upd_ns_def)
    qed
    then obtain u vu where u: "(case probe_request v of None \<Rightarrow> Some ?s
                | Some h \<Rightarrow> do { s \<leftarrow> evdns_cancel_request e h ?s; upd_ns n (probe_request_update (\<lambda>_. None)) s }) = Some u"
            "dns_inv {} {n} K u" "ledger K u = ledger K s" "keeps (probes_of s n) s u" "nameservers u n = Some vu" "\<not> ns_state vu" "probe_request vu = None"
      by blast
    let ?w = "u\<lparr>nameservers := (nameservers u)(n \<mapsto> vu\<lparr>ns_state := True, failed_times := 0, timedout := 0\<rparr>), good_nameservers := good_nameservers u + 1\<rparr>"
    have nu: "n \<in> set (server_ring u)" using keepsD(4) [OF u(4)] n by simp
    have net: "net {} ?w" by (rule net_server_up [OF _ nu u(5,6)]) (use u(2) in \<open>simp add: dns_inv_def\<close>)
    have "objs {n} K ?w" unfolding good_same using objs_ns [OF _ _ u(5)] u(2) by (simp add: dns_inv_def)
    then have "dns_inv {} {n} K ?w" using net by (simp add: dns_inv_def)
    then have "dns_inv {} {} K ?w" 
      by (rule unexempt [where v = "vu\<lparr>ns_state := True, failed_times := 0, timedout := 0\<rparr>"]) (use u(7) in simp_all)
    moreover have "ledger K ?w = ledger K s" unfolding good_same using ns_update(2) [OF u(5)] u(3) by simp
    moreover have "keeps (probes_of s n) s ?w" unfolding good_same using keeps_trans [OF u(4) ns_update(4) [OF u(5)]] .
    ultimately show ?thesis using v(1) False u(1,5) by (simp add: nameserver_up_def upd_ns_def)
  qed
qed


lemma keeps_mono: "keeps R s t \<Longrightarrow> R \<subseteq> R' \<Longrightarrow> keeps R' s t"
  unfolding keeps_def by blast

lemma flying_server:
  assumes "net X s" "r \<in> set (inflight s)"
  obtains q n where "requests s r = Some q" "req_ns q = Some n" "n \<in> set (server_ring s)" "trans_id q \<noteq> NO_ID" "r \<notin> set (req_waiting s)"
    "r \<in> X \<or> req_timer q \<or> transmit_me q \<and> someone_writes s"
  using net_inflight [OF assms] netD(2) [OF assms(1)] assms(2) by (auto simp: flying_def)

lemma good_reply_ok:
  assumes s: "dns_inv {} {} K s" and r: "r \<in> set (inflight s)" and e: "fair_random e" "room s" "\<And>k. env_alloc e k"
  shows "returns (good_reply e r s) (\<lambda>u. dns_inv {} {} K u \<and> ledger K u = ledger K s \<and> keeps (- {r}) s u)"
proof -
  have N: "net {} s" using s by (simp add: dns_inv_def)
  obtain q n where q: "requests s r = Some q" "req_ns q = Some n" "n \<in> set (server_ring s)" by (rule flying_server [OF N r])
  obtain v where v: "nameservers s n = Some v" "choked v \<longrightarrow> write_waiting v" using net_server [OF N q(3)] by blast
  have sn: "dns_inv {} {n} K s" by (rule exempt [OF s]) simp
  show ?thesis
  proof (cases "req_handle q = probe_request v")
    case True
    let ?v = "v\<lparr>probe_request := None\<rparr>"
    let ?s = "s\<lparr>nameservers := (nameservers s)(n \<mapsto> ?v)\<rparr>"
    have s1: "dns_inv {} {n} K ?s" by (rule inv_ns [OF sn _ v(1)]) (use v(2) in auto)
    have k: "keeps R s ?s" for R by (rule ns_update [OF v(1)])
    have "returns (nameserver_up e n ?s) (\<lambda>u. dns_inv {} {} K u \<and> ledger K u = ledger K ?s \<and> keeps (probes_of ?s n) ?s u)"
      by (rule nameserver_up_ok [OF s1 _ e(1) keeps_room [OF k e(2)] e(3)]) (use q(3) in auto)
    moreover have "probes_of ?s n = {}" by (simp add: probes_of_def)
    moreover have "good_reply e r s = nameserver_up e n ?s" using q v True by (simp add: good_reply_def upd_ns_def)
    moreover have "keeps (- {r}) s u" if "keeps {} ?s u" for u using keeps_trans [OF k keeps_mono [OF that]] by simp
    ultimately show ?thesis using ns_update(2) [OF v(1)] by (auto elim!: returns_mono)
  next
    case False
    have "returns (nameserver_up e n s) (\<lambda>u. dns_inv {} {} K u \<and> ledger K u = ledger K s \<and> keeps (probes_of s n) s u)"
      by (rule nameserver_up_ok [OF sn q(3) e]) (use s q(3) in \<open>simp add: dns_inv_def objs_def probes_ok_def\<close>)
    moreover have "probes_of s n \<subseteq> - {r}" using q v False by (auto simp: probes_of_def)
    moreover have "good_reply e r s = nameserver_up e n s" using q v False by (simp add: good_reply_def)
    ultimately show ?thesis using keeps_mono by (auto elim!: returns_mono)
  qed
qed

section \<open>Another server, another time\<close>

lemma request_reissue_ok:
  assumes s: "dns_inv X M K s" and r: "r \<in> set (inflight s)"
  shows "returns (request_reissue r s) (\<lambda>(b, u). dns_inv X M K u \<and> ledger K u = ledger K s \<and> quiet s u \<and> inflight u = inflight s)"
proof -
  have N: "net X s" using s by (simp add: dns_inv_def)
  obtain q n where q: "requests s r = Some q" "req_ns q = Some n" "n \<in> set (server_ring s)" "r \<notin> set (req_waiting s)"
      "r \<in> X \<or> req_timer q \<or> transmit_me q \<and> someone_writes s"
    by (rule flying_server [OF N r])
  have val: "valid_request s r" using net_listed_valid [OF N] r by (simp add: listed_def)
  obtain p t ring where t: "nameserver_pick s = Some (p, t)" "net X t" "quiet s t" "t = s\<lparr>server_ring := ring\<rparr>"
      "mset ring = mset (server_ring s)" "p = None \<longleftrightarrow> server_ring s = []" "\<forall>m. p = Some m \<longrightarrow> m \<in> set (server_ring s)"
    using pick_ok [OF N] by (auto simp: returns_def)
  have ring: "set ring = set (server_ring s)" using t(5) by (metis set_mset_mset)
  obtain m where m: "p = Some m" "m \<in> set (server_ring t)" using t(4,6,7) q(3) ring by (cases p) auto
  have qt: "requests t r = Some q" "inflight t = inflight s" "r \<notin> set (req_waiting t)" "someone_writes t = someone_writes s"
    using q t(4) ring by (simp_all add: someone_writes_def)
  define q' where "q' = (if p = req_ns q then q\<lparr>req_ns := p\<rparr>
      else q\<lparr>req_ns := p, reissue_count := reissue_count q + 1, tx_count := 0, transmit_me := True\<rparr>)"
  let ?u = "t\<lparr>requests := (requests t)(r \<mapsto> q')\<rparr>"
  have u: "net X ?u" "quiet t ?u"
  proof -
    have "core q' = core q" "trans_id q' = trans_id q" "req_ns q' = Some m" "r \<in> X \<or> req_timer q' \<or> transmit_me q' \<and> someone_writes t"
      using q(5) m(1) qt(4) by (auto simp: q'_def core_def)
    then show "net X ?u" "quiet t ?u" using net_upd_req [OF t(2) qt(1), of q' X] m(2) qt(2,3) inflight_listed [of r t] r by auto
  qed
  have "request_reissue r s = Some (p \<noteq> req_ns q, ?u)"
    using val q(1) t(1) qt(1) by (auto simp: request_reissue_def assert_that_def upd_req_def q'_def)
  then show ?thesis using inv_quiet [OF u(1) quiet_trans [OF t(3) u(2)] s] quiet_trans [OF t(3) u(2)] qt(2) by simp
qed

lemma timeout_ok:
  assumes s: "dns_inv {} M {} s" and r: "r \<in> set (inflight s)" and e: "fair_random e" "room s" "\<And>k. env_alloc e k"
  shows "returns (evdns_request_timeout_callback e r s) (\<lambda>u. dns_inv {} M {} u \<and> ledger {} u = ledger {} s \<and> keeps {r} s u)"
proof -
  have N: "net {} s" using s by (simp add: dns_inv_def)
  obtain q n where q: "requests s r = Some q" "req_ns q = Some n" "n \<in> set (server_ring s)" "r \<notin> set (req_waiting s)"
    by (rule flying_server [OF N r])
  obtain v where v: "nameservers s n = Some v" "choked v \<longrightarrow> write_waiting v" using net_server [OF N q(3)] by blast
  let ?s = "s\<lparr>requests := (requests s)(r \<mapsto> q\<lparr>req_timer := False\<rparr>)\<rparr>"
  have s1: "net {r} ?s" "quiet s ?s" using net_upd_req [OF N q(1), of "q\<lparr>req_timer := False\<rparr>" "{r}"] q inflight_listed [OF r] by (auto simp: core_def)
  have down: "\<exists>t qt. (do { s \<leftarrow> upd_ns n (\<lambda>v. v\<lparr>timedout := timedout v + 1\<rparr>) ?s; v \<leftarrow> nameservers s n;
      if timedout v > max_nameserver_timeout s then do { s \<leftarrow> upd_ns n (timedout_update (\<lambda>_. 0)) s; nameserver_failed n s } else Some s }) = Some t \<and>
      net {r} t \<and> quiet s t \<and> inflight t = inflight s \<and> requests t r = Some qt"
  proof -
    have ns: "net {r} (?s\<lparr>nameservers := (nameservers s)(n \<mapsto> v\<lparr>timedout := k\<rparr>)\<rparr>)"
        "quiet s (?s\<lparr>nameservers := (nameservers s)(n \<mapsto> v\<lparr>timedout := k\<rparr>)\<rparr>)" for k
      using net_upd_ns [OF s1(1), of n v "v\<lparr>timedout := k\<rparr>"] v quiet_trans [OF s1(2) quiet_upd_ns [of ?s n v "v\<lparr>timedout := k\<rparr>"]]
      by (auto simp add: server_step_def)
    have some: "\<exists>qt. requests t r = Some qt" if "quiet s t" for t using quiet_request [OF that q(1)] by auto
    show ?thesis
    proof (cases "timedout v + 1 > max_nameserver_timeout s")
      case True
      obtain t where t: "nameserver_failed n (?s\<lparr>nameservers := (nameservers s)(n \<mapsto> v\<lparr>timedout := 0\<rparr>)\<rparr>) = Some t"
          "net {r} t" "quiet (?s\<lparr>nameservers := (nameservers s)(n \<mapsto> v\<lparr>timedout := 0\<rparr>)\<rparr>) t" "inflight t = inflight s"
        using nameserver_failed_ok [OF ns(1) [of 0], of n] q(3) by (auto simp: returns_def)
      have "quiet s t" by (rule quiet_trans [OF ns(2) t(3)])
      then show ?thesis using t True v(1) some by (simp add: upd_ns_def)
    next
      case False
      then show ?thesis using ns [of "timedout v + 1"] v(1) by (simp add: upd_ns_def)
    qed
  qed
  then obtain t qt where t: "(do { s \<leftarrow> upd_ns n (\<lambda>v. v\<lparr>timedout := timedout v + 1\<rparr>) ?s; v \<leftarrow> nameservers s n;
      if timedout v > max_nameserver_timeout s then do { s \<leftarrow> upd_ns n (timedout_update (\<lambda>_. 0)) s; nameserver_failed n s } else Some s }) = Some t"
      "net {r} t" "quiet s t" "inflight t = inflight s" "requests t r = Some qt"
    by blast
  have tinv: "dns_inv {r} M {} t" "ledger {} t = ledger {} s" using inv_quiet [OF t(2,3) s] by simp_all
  have kt: "keeps R s t" for R by (rule keeps_quiet [OF t(3)]) (simp add: t(4))
  have eq: "evdns_request_timeout_callback e r s = (if tx_count qt \<ge> max_retransmits t then finish_with e r 0 DNS_ERR_TIMEOUT t
      else do { (new_ns, s) \<leftarrow> nameserver_pick t; s \<leftarrow> (if new_ns = None then Some s else upd_req r (req_ns_update (\<lambda>_. new_ns)) s);
                (_, s) \<leftarrow> evdns_request_transmit e r s; Some s })"
    using q(1,2) t(1,5) v(1)
    by (cases "max_nameserver_timeout s \<le> timedout v") (auto simp: evdns_request_timeout_callback_def upd_req_def upd_ns_def)
  show ?thesis
  proof (cases "tx_count qt \<ge> max_retransmits t")
    case True
    have "returns (finish_with e r 0 DNS_ERR_TIMEOUT t) (\<lambda>u. dns_inv {} M {} u \<and> ledger {} u = ledger {} t \<and> listed u = listed t - {r} \<and> shrinks {r} t u)"
      by (rule finish_with_ok [OF tinv(1)]) (use r t(4) e keeps_room [OF kt e(2)] in auto)
    then show ?thesis using True tinv(2) keeps_trans [OF kt keeps_shrinks] unfolding eq by (auto elim!: returns_mono)
  next
    case False
    obtain p w ring where w: "nameserver_pick t = Some (p, w)" "net {r} w" "quiet t w" "w = t\<lparr>server_ring := ring\<rparr>"
        "p = None \<longleftrightarrow> server_ring t = []" "\<forall>m. p = Some m \<longrightarrow> m \<in> set (server_ring t)"
      using pick_ok [OF t(2)] by (auto simp: returns_def)
    obtain m where m: "p = Some m" "m \<in> set (server_ring w)"
      using w(3,5,6) quietD(8) [OF w(3)] quietD(8) [OF t(3)] q(3) by (cases p) auto
    have qw: "requests w r = Some qt" "r \<in> set (inflight w)" using t(4,5) w(4) r by simp_all
    have wr: "r \<notin> set (req_waiting w)" using netD(2) [OF w(2)] qw(2) by auto
    let ?w = "w\<lparr>requests := (requests w)(r \<mapsto> qt\<lparr>req_ns := Some m\<rparr>)\<rparr>"
    have w1: "net {r} ?w" "quiet w ?w" using net_upd_req [OF w(2) qw(1), of "qt\<lparr>req_ns := Some m\<rparr>" "{r}"] m wr inflight_listed [OF qw(2)] by (auto simp: core_def)
    have "returns (evdns_request_transmit e r ?w) (\<lambda>(c, u). net {} u \<and> quiet ?w u \<and> inflight u = inflight ?w)"
      using transmit_ok [of r "{}" ?w e] w1(1) qw(2) by simp
    then obtain c u where u: "evdns_request_transmit e r ?w = Some (c, u)" "net {} u" "quiet ?w u" "inflight u = inflight ?w"
      by (auto simp: returns_def)
    have qu: "quiet s u" using quiet_trans [OF t(3) quiet_trans [OF w(3) quiet_trans [OF w1(2) u(3)]]] .
    have iu: "inflight u = inflight s" using u(4) w(4) t(4) by simp
    have "evdns_request_timeout_callback e r s = Some u"
      using False w(1) m(1) qw(1) u(1) unfolding eq by (simp add: upd_req_def)
    then show ?thesis using inv_quiet [OF u(2) qu s] keeps_quiet [OF qu] iu by simp
  qed
qed

end
