(* ===== verification/EvdnsAsk.thy ===== *)
theory EvdnsAsk
  imports EvdnsServers
begin

text \<open>
  New requests: building the question returns, and a request that is submitted joins the invariant.
\<close>

section \<open>Building the question\<close>

lemma append_words_total:
  "length buf = n \<Longrightarrow> \<exists>buf' j' ok. append_words n buf j ws = Some (buf', j', ok) \<and> length buf' = n \<and>
     (j + length (concat ws) \<le> n \<longrightarrow> ok)"
proof (induction ws arbitrary: buf j)
  case (Cons w ws)
  show ?case
  proof (cases "n < j + length w")
    case True
    then show ?thesis using Cons.prems by (intro exI [of _ buf] exI [of _ j] exI [of _ False]) simp
  next
    case False
    then obtain b where b: "mem_write buf j w = Some b" "length b = n" using Cons.prems by (simp add: mem_write_def)
    from Cons.IH [OF b(2), of "j + length w"] show ?thesis using b(1) False by auto
  qed
qed auto

lemma labels_total:
  assumes "length buf = n" "j + length name + 2 \<le> n"
  shows "\<exists>buf' r. labels_loop al n buf j name None = Some (buf', r, None) \<and> length buf' = n \<and>
           (length name \<le> 63 \<longrightarrow> 0 \<le> r \<and> r \<le> int (j + length name + 2))"
  using assms
proof (induction "length name" arbitrary: buf j name rule: less_induct)
  case less
  let ?l = "takeWhile (\<lambda>c. c \<noteq> 46) name" and ?r = "dropWhile (\<lambda>c. c \<noteq> 46) name"
  have len: "length ?l + length ?r = length name" by (metis length_append takeWhile_dropWhile_id)
  show ?case
  proof (cases "length ?l > 63 \<or> j + length ?l + 1 > n")
    case True
    then show ?thesis using less.prems len by (subst labels_loop.simps) (auto simp: Let_def)
  next
    case False
    obtain b where b: "mem_write buf j (word_of_nat (length ?l) # ?l) = Some b" "length b = n"
      using False less.prems(1) by (simp add: mem_write_def)
    show ?thesis
    proof (cases ?r)
      case Nil
      have "j + length ?l + 1 < n" using len less.prems(2) Nil by simp
      then have "\<exists>b' r. end_labels b (j + length ?l + 1) None = Some (b', r, None) \<and> length b' = n \<and> 0 \<le> r \<and> r \<le> int (j + length name + 2)"
        using len Nil b(2) by (auto simp: end_labels_def mem_write_def)
      then show ?thesis using False b(1) Nil by (subst labels_loop.simps) (simp add: Let_def del: dropWhile_eq_Nil_conv, blast)
    next
      case (Cons c rest)
      have "length rest < length name" "j + length ?l + 1 + length rest + 2 \<le> n" using len less.prems(2) Cons by simp_all
      from less.hyps [OF this(1) b(2) this(2)] obtain b' r where
        "labels_loop al n b (j + length ?l + 1) rest None = Some (b', r, None)" "length b' = n"
        "length rest \<le> 63 \<longrightarrow> 0 \<le> r \<and> r \<le> int (j + length ?l + 1 + length rest + 2)"
        by blast
      moreover have "length name = length ?l + 1 + length rest" using len Cons by simp
      ultimately show ?thesis
        using False b(1) Cons by (subst labels_loop.simps) (simp add: Let_def)
    qed
  qed
qed

lemma question_total:
  assumes "n = evdns_request_len (length name)"
  shows "\<exists>buf r. evdns_request_data_build al name tid ty c (replicate n 0) n = Some (buf, r) \<and> (length name \<le> 63 \<longrightarrow> 0 \<le> r)"
proof -
  obtain b j ok where b: "append_words n (replicate n 0) 0 (map be16 [tid, 0x0100, 1, 0, 0, 0]) = Some (b, j, ok)" "length b = n"
    using append_words_total [of "replicate n 0" n 0 "map be16 [tid, 0x0100, 1, 0, 0, 0]"] by auto
  have j: "j \<le> 12" and ok: "ok"
    using b(1) assms by (auto simp: be16_def bind_eq_Some_conv evdns_request_len_def split: if_splits)
  have "j + length name + 2 \<le> n" using j assms by (simp add: evdns_request_len_def)
  from labels_total [OF b(2) this, of al] obtain b' r where b': "labels_loop al n b j name None = Some (b', r, None)" "length b' = n"
      "length name \<le> 63 \<longrightarrow> 0 \<le> r \<and> r \<le> int (j + length name + 2)"
    by blast
  obtain c1 k ok' where c: "append_words n b' (nat r) (map be16 [ty, c]) = Some (c1, k, ok')"
      "nat r + length (concat (map be16 [ty, c])) \<le> n \<longrightarrow> ok'"
    using append_words_total [OF b'(2)] by blast
  have "length name \<le> 63 \<Longrightarrow> ok'" using b'(3) c(2) j assms by (auto simp: evdns_request_len_def be16_def)
  then show ?thesis using b b' c ok by (simp add: evdns_request_data_build_def dnsname_to_labels_def)
qed

section \<open>A new request\<close>

definition startable :: "dns_base \<Rightarrow> request \<Rightarrow> bool" where
  "startable s q \<longleftrightarrow> \<not> req_timer q \<and> (\<forall>n. req_ns q = Some n \<longrightarrow> n \<in> set (server_ring s) \<and> trans_id q \<noteq> NO_ID)"

definition owned :: "nat option \<Rightarrow> nat \<Rightarrow> dns_base \<Rightarrow> (nat \<rightharpoonup> dns_handle)" where
  "owned handle r s = (case handle of None \<Rightarrow> handles s | Some h \<Rightarrow> (handles s)(h \<mapsto> (the (handles s h))\<lparr>current_req := Some r\<rparr>))"

lemma owned_simps [simp]: "owned None r s = handles s"
  "owned (Some h) r s = (handles s)(h \<mapsto> (the (handles s h))\<lparr>current_req := Some r\<rparr>)"
  by (simp_all add: owned_def)

lemma net_serial [simp]: "net X (s\<lparr>serial := k\<rparr>) = net X s" "listed (s\<lparr>serial := k\<rparr>) = listed s"
  by (rule net_cong) (simp_all add: listed_def)

lemma length_random_case [simp]: "length (random_case b name) = length name"
  by (simp add: random_case_def)

lemma request_new_ok:
  assumes N: "net X s" and e: "fair_random e" "room s" "\<And>k. env_alloc e k" and h: "\<And>h. handle = Some h \<Longrightarrow> handles s h \<noteq> None"
  shows "returns (request_new e handle ty name cb s) (\<lambda>(ro, t). \<exists>c ring. mset ring = mset (server_ring s) \<and> (length name \<le> 63 \<longrightarrow> ro \<noteq> None) \<and>
           (case ro of
              None \<Rightarrow> t = s\<lparr>serial := serial s + 1, randoms := c, server_ring := ring\<rparr>
            | Some r \<Rightarrow> r = serial s \<and> (\<exists>q. startable s q \<and> req_handle q = handle \<and> user_callback q = cb \<and> request_type q = ty \<and>
                t = s\<lparr>serial := serial s + 1, randoms := c, server_ring := ring, requests := (requests s)(r \<mapsto> q), handles := owned handle r s\<rparr>)))"
proof -
  let ?now = "requests_inflight s < max_requests_inflight s"
  have "card (set (inflight s)) < 65535" using card_inflight [of s] e(2) by (simp add: room_def)
  from transaction_id_pick_ok [OF net_ids_ok [OF N] e(1) this]
  obtain tid c where tid: "?now \<Longrightarrow> transaction_id_pick e s = Some (tid, s\<lparr>randoms := c\<rparr>)" "?now \<Longrightarrow> tid \<noteq> NO_ID"
      "\<not> ?now \<Longrightarrow> tid = NO_ID \<and> c = randoms s"
    by (cases ?now) auto
  show ?thesis
  proof (cases "length name \<ge> 256")
    case True
    then have "request_new e handle ty name cb s = Some (None, s\<lparr>serial := serial s + 1, randoms := c\<rparr>)"
      using tid e(3) by (cases ?now) (simp_all add: request_new_def allocate_def Let_def)
    then show ?thesis using True by (auto intro!: exI [of _ c] exI [of _ "server_ring s"])
  next
    case len: False
    define name' where "name' = (if randomize_case s then random_case (fst (get_bytes e ((length name + 7) div 8) (s\<lparr>randoms := c\<rparr>))) name else name)"
    define c' where "c' = (if randomize_case s then c + (length name + 7) div 8 else c)"
    let ?s = "s\<lparr>serial := serial s + 1, randoms := c'\<rparr>"
    have name': "length name' = length name" by (simp add: name'_def)
    obtain buf rlen where b: "evdns_request_data_build (\<lambda>_. True) name' tid ty CLASS_INET (replicate (evdns_request_len (length name)) 0)
        (evdns_request_len (length name)) = Some (buf, rlen)" "length name \<le> 63 \<longrightarrow> 0 \<le> rlen"
      using question_total [of "evdns_request_len (length name)" name' "\<lambda>_. True" tid ty CLASS_INET] name' by auto
    have N': "net X ?s" using N by simp
    obtain p ring where p: "?now \<Longrightarrow> nameserver_pick ?s = Some (p, ?s\<lparr>server_ring := ring\<rparr>)" "mset ring = mset (server_ring s)"
        "\<forall>n. p = Some n \<longrightarrow> ?now \<and> n \<in> set (server_ring s)" "\<not> ?now \<Longrightarrow> p = None \<and> ring = server_ring s"
    proof (cases ?now)
      case True
      obtain p ring where "nameserver_pick ?s = Some (p, ?s\<lparr>server_ring := ring\<rparr>)" "mset ring = mset (server_ring s)"
          "\<forall>n. p = Some n \<longrightarrow> n \<in> set (server_ring s)"
        using pick_ok [OF N'] by (auto simp: returns_def)
      then show ?thesis using True that [of p ring] by simp
    next
      case False
      then show ?thesis using that [of None "server_ring s"] by simp
    qed
    let ?q = "\<lparr>packet = buf, request_len = nat rlen, request_type = ty, reissue_count = 0, tx_count = 0, user_callback = cb, req_ns = p,
       req_timer = False, trans_id = tid, transmit_me = False, req_handle = handle\<rparr>"
    have q: "startable s ?q" using p(3) tid(2) by (simp add: startable_def)
    have new: "request_new e handle ty name cb s = (if rlen < 0 then Some (None, ?s)
        else Some (Some (serial s), s\<lparr>serial := serial s + 1, randoms := c', server_ring := ring,
               requests := (requests s)(serial s \<mapsto> ?q), handles := owned handle (serial s) s\<rparr>))"
    proof -
      have "\<exists>hn. handles s h = Some hn" if "handle = Some h" for h using h [OF that] by auto
      moreover have swap: "s\<lparr>randoms := x, serial := y\<rparr> = s\<lparr>serial := y, randoms := x\<rparr>" for x y by simp
      ultimately show ?thesis
        using tid e(3) len b(1) p(1,4) unfolding name'_def c'_def
        by (cases ?now; cases handle; cases "randomize_case s") (auto simp add: request_new_def allocate_def Let_def get_bytes_def upd_handle_def swap)
    qed
    show ?thesis
    proof (cases "rlen < 0")
      case True
      then show ?thesis using b(2) unfolding new by (auto intro!: exI [of _ c'] exI [of _ "server_ring s"])
    next
      case False
      then show ?thesis using q p(2) unfolding new by (auto intro!: exI [of _ c'] exI [of _ ring])
    qed
  qed
qed

section \<open>Submitting it\<close>

lemma objs_insert:
  assumes s: "objs (M \<union> N) K s" and same: "requests t = requests s" "handles t = handles s" "searches t = searches s"
      "global_search_state t = global_search_state s" "deferreds t = deferreds s" "delivered t = delivered s" "serial t = serial s"
      "server_ring t = server_ring s" "nameservers t = nameservers s" "listed t = insert r (listed s)"
    and r: "r \<notin> listed s" "r \<notin> K" "request_held K s r" and q: "requests s r = Some q" "req_handle q = Some h"
    and N: "\<And>n. n \<in> N \<Longrightarrow> user_callback q = Probe n" "\<And>n v b. n \<in> N \<Longrightarrow> nameservers s n = Some v \<Longrightarrow> probe_request v = Some b \<Longrightarrow> b = h"
  shows "objs M K t" "ledger K t = ledger K s + tag_of (user_callback q)"
proof -
  have held_eq: "request_held K t = request_held K s" "deferred_held K t = deferred_held K s"
    by (auto simp: request_held_def deferred_held_def cb_ok_def same intro!: ext)
  have "held K t" using s r(3) unfolding objs_def held_def held_eq same by auto
  moreover have "fresh t" using s by (simp add: objs_def fresh_def same)
  moreover have "search_ok t" using s handle_search_cong [OF same(3)] by (simp add: objs_def search_ok_def searchers_def same)
  moreover have p: "probing K t n b" if "probing K s n b" for n b
    using that unfolding probing_def same by blast
  moreover have pn: "probing K t n h" if "n \<in> N" for n
    using q N(1) [OF that] r(2) unfolding probing_def same by blast
  moreover have "probes_ok M K t"
    using s p pn N(2) unfolding objs_def probes_ok_def same by (metis Diff_iff UnE)
  moreover have "lively M K t"
    using s p pn unfolding objs_def lively_def same by (metis Diff_iff UnE)
  ultimately show "objs M K t" by (simp add: objs_def)
  have "listed t - K = insert r (listed s - K)" using r same(10) by auto
  moreover have "req_tag t = req_tag s" by (auto simp: req_tag_def same intro!: ext)
  moreover have "req_tag s r = tag_of (user_callback q)" using q by (simp add: req_tag_def)
  ultimately have "(\<Sum>p \<in> listed t - K. req_tag t p) = tag_of (user_callback q) + (\<Sum>p \<in> listed s - K. req_tag s p)"
    using r(1) by simp
  then show "ledger K t = ledger K s + tag_of (user_callback q)" by (simp add: ledger_def same ac_simps)
qed

lemma submit_ok:
  assumes s: "dns_inv {} (M \<union> N) K s" and r: "r \<notin> listed s" "r \<notin> K" "request_held K s r" "valid_request s r"
    and q: "requests s r = Some q" "req_handle q = Some h" "startable s q"
    and N: "\<And>n. n \<in> N \<Longrightarrow> user_callback q = Probe n" "\<And>n v b. n \<in> N \<Longrightarrow> nameservers s n = Some v \<Longrightarrow> probe_request v = Some b \<Longrightarrow> b = h"
  shows "returns (request_submit e r s)
           (\<lambda>u. dns_inv {} M K u \<and> ledger K u = ledger K s + tag_of (user_callback q) \<and> listed u = insert r (listed s) \<and> handles u = handles s \<and>
              set (server_ring u) = set (server_ring s))"
proof (cases "req_ns q")
  case None
  let ?t = "s\<lparr>req_waiting := req_waiting s @ [r], requests_waiting := requests_waiting s + 1\<rparr>"
  have net: "net {} s" using s by (simp add: dns_inv_def)
  have "resting s r" using r(4) q None by (simp add: resting_def startable_def)
  from net_insert_waiting [OF net r(1) this, of "req_waiting s @ [r]"]
  have t: "net {} ?t" "listed ?t = insert r (listed s)" by simp_all
  have "objs M K ?t" "ledger K ?t = ledger K s + tag_of (user_callback q)"
    by (rule objs_insert [of M N K s ?t r q h]; use s r q N t(2) in \<open>simp add: dns_inv_def\<close>)+
  moreover have "request_submit e r s = Some ?t"
    using r(4) q None by (simp add: request_submit_def assert_that_def evdns_request_insert_def set_list_at_def list_at_def)
  ultimately show ?thesis using t by (simp add: dns_inv_def)
next
  case (Some n)
  have net: "net {} s" using s by (simp add: dns_inv_def)
  let ?i = "unat (trans_id q) mod length (req_heads s)"
  let ?t = "s\<lparr>req_heads := (req_heads s)[?i := req_heads s ! ?i @ [r]], requests_inflight := requests_inflight s + 1\<rparr>"
  have i: "?i < length (req_heads s)" "req_heads s \<noteq> []" using netD(1) [OF net] by simp_all
  have "flying (insert r {}) s ?i r" using r(4) q Some by (auto simp: flying_def startable_def)
  from net_insert_flying [OF net r(1) i(1) this]
  have t: "net {r} ?t" "listed ?t = insert r (listed s)" "r \<in> set (inflight ?t)" by simp_all
  have o: "objs M K ?t" "ledger K ?t = ledger K s + tag_of (user_callback q)"
    by (rule objs_insert [of M N K s ?t r q h]; use s r q N t(2) in \<open>simp add: dns_inv_def\<close>)+
  have "returns (evdns_request_transmit e r ?t) (\<lambda>(c, u). net {} u \<and> quiet ?t u)"
    using transmit_ok [of r "{}" ?t e] t(1,3) by (auto elim!: returns_mono)
  then obtain c u where u: "evdns_request_transmit e r ?t = Some (c, u)" "net {} u" "quiet ?t u" by (auto simp: returns_def)
  have "dns_inv {r} M K ?t" using t(1) o(1) by (simp add: dns_inv_def)
  from inv_quiet [OF u(2,3) this] have "dns_inv {} M K u \<and> ledger K u = ledger K s + tag_of (user_callback q)" using o(2) by simp
  moreover have "listed u = insert r (listed s)" "handles u = handles s" "set (server_ring u) = set (server_ring s)"
    using quietD(1,8,10) [OF u(3)] t(2) by simp_all
  moreover have "request_submit e r s = Some u"
    using r(4) q Some i(2) u(1) by (simp add: request_submit_def assert_that_def evdns_request_insert_def set_list_at_def list_at_def head_of_def)
  ultimately show ?thesis by simp
qed

end
