(* ===== verification/EvdnsSearch.thy ===== *)
theory EvdnsSearch
  imports EvdnsAsk
begin

text \<open>
  Handles and the search through domains: a lookup that begins, the next domain when one gave nothing,
  and a probe that is sent keep the invariant.
\<close>

section \<open>Changes to what no list holds\<close>

lemma unlisted_new: "dns_inv X M K s \<Longrightarrow> requests s r = None \<Longrightarrow> r \<notin> listed s"
  using net_listed_valid [of X s r] by (auto simp: dns_inv_def valid_request_iff)

lemma inv_serial: "dns_inv X M K s \<Longrightarrow> serial s \<le> k \<Longrightarrow> dns_inv X M K (s\<lparr>serial := k, randoms := c\<rparr>)"
proof -
  let ?t = "s\<lparr>serial := k, randoms := c\<rparr>"
  assume s: "dns_inv X M K s" and k: "serial s \<le> k"
  have "held K ?t = held K s" by (simp add: held_def request_held_def deferred_held_def cb_ok_def listed_def)
  moreover have "search_ok ?t = search_ok s" by (simp add: search_ok_def searchers_def handle_search_cong [of ?t s])
  moreover have "probes_ok M K ?t = probes_ok M K s" "lively M K ?t = lively M K s"
    by (simp_all add: probes_ok_def lively_def probing_def listed_def)
  moreover have "fresh s \<Longrightarrow> fresh ?t" using k by (auto simp: fresh_def)
  moreover have "net X ?t = net X s" by (rule net_cong) simp_all
  ultimately show ?thesis using s by (simp add: dns_inv_def objs_def)
qed

lemma ledger_serial [simp]: "ledger K (s\<lparr>serial := k, randoms := c\<rparr>) = ledger K s" "listed (s\<lparr>serial := k, randoms := c\<rparr>) = listed s"
  "ledger K (s\<lparr>serial := k\<rparr>) = ledger K s"
  by (simp_all add: ledger_def listed_def req_tag_def)

lemma inv_request:
  assumes s: "dns_inv X M K s" and r: "r \<notin> listed s" "r < serial s"
  shows "dns_inv X M K (s\<lparr>requests := (requests s)(r := x)\<rparr>)" "ledger K (s\<lparr>requests := (requests s)(r := x)\<rparr>) = ledger K s"
    "listed (s\<lparr>requests := (requests s)(r := x)\<rparr>) = listed s"
proof -
  let ?t = "s\<lparr>requests := (requests s)(r := x)\<rparr>"
  have O: "held K s" "fresh s" "search_ok s" "probes_ok M K s" "lively M K s" "net X s" using s by (auto simp: dns_inv_def objs_def)
  have net: "net X ?t" "listed ?t = listed s" using net_upd_unlisted [OF O(6) r(1)] by simp_all
  have "request_held K ?t p = request_held K s p" if "p \<in> listed s" for p
    using that r(1) by (auto simp: request_held_def cb_ok_def)
  moreover have "deferred_held K ?t d" if "d \<in> set (deferreds s)" for d
    using O(1) that r(1) unfolding held_def deferred_held_def cb_ok_def by fastforce
  ultimately have "held K ?t" using O(1) by (simp add: held_def net(2))
  moreover have "fresh ?t" using O(2) r(2) by (auto simp: fresh_def)
  moreover have "search_ok ?t" using O(3) handle_search_cong [of ?t s] by (simp add: search_ok_def searchers_def)
  moreover have "probing K s n b \<Longrightarrow> probing K ?t n b" for n b using r(1) by (fastforce simp: probing_def net(2))
  then have "probes_ok M K ?t" "lively M K ?t" using probes_mono [OF O(4), of ?t K] lively_mono [OF O(5), of ?t K] by simp_all
  ultimately show "dns_inv X M K ?t" using net by (simp add: dns_inv_def objs_def)
  have "(\<Sum>p \<in> listed s - K. req_tag ?t p) = (\<Sum>p \<in> listed s - K. req_tag s p)"
    by (rule sum.cong) (use r(1) in \<open>auto simp: req_tag_def\<close>)
  then show "ledger K ?t = ledger K s" by (simp add: ledger_def net(2))
  show "listed ?t = listed s" by (rule net)
qed

text \<open>A handle that no request of the lists and no scheduled callback has.\<close>

definition free_handle :: "dns_base \<Rightarrow> nat \<Rightarrow> bool" where
  "free_handle s h \<longleftrightarrow> h < serial s \<and> (\<forall>hn. handles s h = Some hn \<longrightarrow> current_req hn = None \<and> \<not> pending_cb hn)"

lemma free_unowned:
  assumes s: "dns_inv X M K s" and h: "free_handle s h"
  shows "r \<in> listed s \<Longrightarrow> requests s r = Some q \<Longrightarrow> req_handle q \<noteq> Some h" "d \<in> set (deferreds s) \<Longrightarrow> d_handle d \<noteq> Some h"
proof -
  show "req_handle q \<noteq> Some h" if r: "r \<in> listed s" "requests s r = Some q"
  proof
    assume "req_handle q = Some h"
    then obtain hn where "handles s h = Some hn" "current_req hn = Some r"
      using held_handle [OF s r(1)] r(2) by (metis option.inject)
    then show False using h by (simp add: free_handle_def)
  qed
  have "held K s" using s by (simp add: dns_inv_def objs_def)
  then show "d_handle d \<noteq> Some h" if "d \<in> set (deferreds s)"
    using that h by (fastforce simp: held_def deferred_held_def free_handle_def)
qed

lemma inv_unowned:
  assumes s: "dns_inv X M K s" and h: "h < serial s"
    and unowned: "\<And>r q. r \<in> listed s \<Longrightarrow> requests s r = Some q \<Longrightarrow> req_handle q \<noteq> Some h" "\<And>d. d \<in> set (deferreds s) \<Longrightarrow> d_handle d \<noteq> Some h"
    and S: "\<And>y. serial s \<le> y \<Longrightarrow> S y = None"
    and t: "t = s\<lparr>handles := (handles s)(h := x), searches := S\<rparr>" and search: "search_ok t"
  shows "dns_inv X M K t" "ledger K t = ledger K s" "listed t = listed s"
proof -
  have O: "held K s" "fresh s" "probes_ok M K s" "lively M K s" "net X s" using s by (auto simp: dns_inv_def objs_def)
  have val: "valid_request t p" if p: "p \<in> listed s" for p
  proof -
    have "valid_request s p" by (rule net_listed_valid [OF O(5) p])
    then show ?thesis using unowned(1) [OF p] by (fastforce simp: valid_request_iff t)
  qed
  have net: "net X t" "listed t = listed s" using net_handles [OF O(5) val] by (simp_all add: t)
  have "request_held K t p" if p: "p \<in> listed s" for p
  proof -
    have "request_held K s p" using O(1) p by (simp add: held_def)
    then show ?thesis using unowned(1) [OF p] unfolding request_held_def cb_ok_def by (fastforce simp: t)
  qed
  moreover have "deferred_held K t d" if d: "d \<in> set (deferreds s)" for d
  proof -
    have "deferred_held K s d" using O(1) d by (simp add: held_def)
    then show ?thesis using unowned(2) [OF d] unfolding deferred_held_def cb_ok_def by (fastforce simp: t)
  qed
  ultimately have "held K t" using O(1) net(2) by (simp add: held_def t)
  moreover have "fresh t" using O(2) S h by (auto simp: fresh_def t)
  moreover have "probing K t = probing K s" using net(2) by (auto simp: probing_def t intro!: ext)
  then have "probes_ok M K t" "lively M K t" using probes_mono [OF O(3), of t K] lively_mono [OF O(4), of t K] by (simp_all add: t)
  ultimately show "dns_inv X M K t" using net search by (simp add: dns_inv_def objs_def)
  show "ledger K t = ledger K s" by (rule ledger_cong) (simp_all add: t net(2) [unfolded t])
  show "listed t = listed s" by (rule net)
qed

lemma inv_handle:
  assumes s: "dns_inv X M K s" and h: "free_handle s h" and S: "\<And>y. serial s \<le> y \<Longrightarrow> S y = None"
    and t: "t = s\<lparr>handles := (handles s)(h := x), searches := S\<rparr>" and search: "search_ok t"
  shows "dns_inv X M K t" "ledger K t = ledger K s" "listed t = listed s"
  by (rule inv_unowned [OF s _ free_unowned [OF s h] S t search]; use h in \<open>simp add: free_handle_def\<close>)+

text \<open>The handles of searches: one that is not in a search changes, or goes; one that joins the search.\<close>

lemma search_ok_plain:
  assumes s: "search_ok s" and h: "\<And>hn. handles s h = Some hn \<Longrightarrow> search_state hn = None"
    and x: "\<And>hn'. x = Some hn' \<Longrightarrow> search_state hn' = None \<and> search_origname hn' = None"
    and t: "handles t = (handles s)(h := x)" "searches t = searches s" "global_search_state t = global_search_state s"
  shows "search_ok t"
proof -
  have "searchers t i = searchers s i" for i using h x t(1) by (auto simp: searchers_def)
  moreover have "handle_search_ok t = handle_search_ok s" by (rule handle_search_cong [OF t(2)])
  moreover have "handle_search_ok s hn'" if "x = Some hn'" for hn' using x [OF that] by (simp add: handle_search_ok_def)
  ultimately show ?thesis using s t unfolding search_ok_def by auto
qed

lemma search_ok_join:
  assumes s: "search_ok s" "fresh s" and h: "handles s h = Some hn" "search_state hn = None"
    and i: "global_search_state s = Some i" "searches s i = Some l"
    and hn': "search_state hn' = Some i" "search_origname hn' = Some name" "name \<noteq> []" "search_index hn' \<ge> -1"
    and t: "handles t = (handles s)(h \<mapsto> hn')" "searches t = (searches s)(i \<mapsto> l\<lparr>refcount := refcount l + 1\<rparr>)"
      "global_search_state t = global_search_state s"
  shows "search_ok t"
proof -
  have ti: "searchers t i = insert h (searchers s i)" "j \<noteq> i \<Longrightarrow> searchers t j = searchers s j" for j
    using h hn'(1) t(1) by (auto simp: searchers_def)
  have "h \<notin> searchers s i" using h by (simp add: searchers_def)
  then have "int (card (searchers t i)) = int (card (searchers s i)) + 1"
    using finite_searchers [OF s(2)] by (simp add: ti(1))
  moreover have "handle_search_ok t bn" if "handle_search_ok s bn" for bn
    using that t(2) by (auto simp: handle_search_ok_def split: option.splits)
  moreover have "handle_search_ok t hn'" using hn' t(2) by (simp add: handle_search_ok_def)
  ultimately show ?thesis using s(1) i t ti(2) unfolding search_ok_def by (auto split: if_splits)
qed

section \<open>A request made with a handle\<close>

lemma inv_ring: "dns_inv X M K s \<Longrightarrow> mset ring = mset (server_ring s) \<Longrightarrow>
    dns_inv X M K (s\<lparr>server_ring := ring\<rparr>) \<and> ledger K (s\<lparr>server_ring := ring\<rparr>) = ledger K s \<and> listed (s\<lparr>server_ring := ring\<rparr>) = listed s"
  using net_ring [of X s ring] inv_quiet [of X "s\<lparr>server_ring := ring\<rparr>" s X M K] by (auto simp: dns_inv_def listed_def)

lemma inv_unasked:
  assumes s: "dns_inv X M K s" and ring: "mset ring = mset (server_ring s)" and k: "serial s \<le> k"
  shows "dns_inv X M K (s\<lparr>serial := k, randoms := c, server_ring := ring\<rparr>)" "ledger K (s\<lparr>serial := k, randoms := c, server_ring := ring\<rparr>) = ledger K s"
    "listed (s\<lparr>serial := k, randoms := c, server_ring := ring\<rparr>) = listed s"
  using inv_ring [OF inv_serial [OF s k, of c], of ring] ring by simp_all

lemma inv_new:
  assumes s: "dns_inv X M K s" and ring: "mset ring = mset (server_ring s)" and k: "serial s < k"
    and t: "t = s\<lparr>serial := k, randoms := c, server_ring := ring, requests := (requests s)(serial s \<mapsto> q)\<rparr>"
  shows "dns_inv X M K t" "ledger K t = ledger K s" "listed t = listed s" "serial s \<notin> listed s" "serial s \<notin> K"
proof -
  let ?a = "s\<lparr>serial := k, randoms := c, server_ring := ring\<rparr>"
  have "requests s (serial s) = None" using s by (simp add: dns_inv_def objs_def fresh_def)
  then show r: "serial s \<notin> listed s" using unlisted_new [OF s] by simp
  then show "serial s \<notin> K" using s by (auto simp: dns_inv_def objs_def held_def)
  note a = inv_unasked [OF s ring less_imp_le [OF k], of c]
  have "serial s \<notin> listed ?a" "serial s < serial ?a" using r k a(3) by simp_all
  from inv_request [OF a(1) this, of "Some q"] show "dns_inv X M K t" "ledger K t = ledger K s" "listed t = listed s"
    using a(2,3) by (simp_all add: t)
qed

lemma listed_handles [simp]: "listed (s\<lparr>handles := f\<rparr>) = listed s" "listed (s\<lparr>handles := f, searches := g\<rparr>) = listed s"
  by (simp_all add: listed_def)

text \<open>A request whose handle is as it is to be, and which is submitted.\<close>

lemma submit_new:
  assumes s: "dns_inv {} (M \<union> N) K s" and ring: "mset ring = mset (server_ring s)" and k: "serial s < k"
    and q: "startable s q" "req_handle q = Some h" "type_ok (request_type q)" "cb_ok s (user_callback q)"
    and h: "free_handle s h" "\<not> pending_cb hn" "current_req hn = Some (serial s)" "search_state hn \<noteq> None \<longrightarrow> (\<exists>tag. user_callback q = User tag)"
    and S: "\<And>y. serial s \<le> y \<Longrightarrow> S y = None"
    and t: "t = s\<lparr>serial := k, randoms := c, server_ring := ring, requests := (requests s)(serial s \<mapsto> q), handles := (handles s)(h \<mapsto> hn), searches := S\<rparr>"
    and search: "search_ok t"
    and N: "\<And>n. n \<in> N \<Longrightarrow> user_callback q = Probe n" "\<And>n v b. n \<in> N \<Longrightarrow> nameservers s n = Some v \<Longrightarrow> probe_request v = Some b \<Longrightarrow> b = h"
  shows "returns (request_submit e (serial s) t)
           (\<lambda>u. dns_inv {} M K u \<and> ledger K u = ledger K s + tag_of (user_callback q) \<and> listed u = insert (serial s) (listed s) \<and> handles u h = Some hn \<and>
              set (server_ring u) = set (server_ring s))"
proof -
  let ?a = "s\<lparr>serial := k, randoms := c, server_ring := ring, requests := (requests s)(serial s \<mapsto> q)\<rparr>"
  note a = inv_new [where c = c and q = q, OF s ring k refl]
  have "free_handle ?a h" using h(1) k by (simp add: free_handle_def)
  note b = inv_handle [OF a(1) this, of S t "Some hn", OF _ _ search]
  have b: "dns_inv {} (M \<union> N) K t" "ledger K t = ledger K s" "listed t = listed s" using b a(2,3) S k by (simp_all add: t)
  have set: "set ring = set (server_ring s)" using ring by (metis set_mset_mset)
  have "request_held K t (serial s)" "valid_request t (serial s)"
    using q(2-4) h(2-4) a(5) set by (auto simp: request_held_def cb_ok_def valid_request_iff t)
  moreover have "startable t q" "requests t (serial s) = Some q" using q(1) set by (simp_all add: startable_def t)
  ultimately have "returns (request_submit e (serial s) t)
           (\<lambda>u. dns_inv {} M K u \<and> ledger K u = ledger K t + tag_of (user_callback q) \<and> listed u = insert (serial s) (listed t) \<and> handles u = handles t \<and>
              set (server_ring u) = set (server_ring t))"
    using submit_ok [OF b(1), of "serial s" q h] a(4,5) b(3) q(2) N by (simp add: t)
  then show ?thesis using b(2,3) set by (auto elim!: returns_mono simp: t)
qed

text \<open>What is left of a handle that was asked for: a request is made for its callback, or none was.\<close>

definition asked_for :: "nat set \<Rightarrow> nat multiset \<Rightarrow> nat \<Rightarrow> dns_base \<Rightarrow> dns_base \<Rightarrow> bool" where
  "asked_for K tags h s u \<longleftrightarrow> (\<exists>hn. handles u h = Some hn \<and>
     (if current_req hn = None then free_handle u h \<and> search_state hn = None \<and> search_origname hn = None \<and> ledger K u = ledger K s
      else ledger K u = ledger K s + tags))"

text \<open>A handle in no search is asked for.\<close>

lemma ask_ok:
  assumes s: "dns_inv {} M K s" and e: "fair_random e" "room s" "\<And>k. env_alloc e k"
    and h: "free_handle s h" "handles s h = Some hn" "search_state hn = None" "search_origname hn = None"
    and q: "type_ok ty" "cb_ok s cb"
  shows "returns (do { (r, s) \<leftarrow> request_new e (Some h) ty name cb s; case r of None \<Rightarrow> Some s | Some r \<Rightarrow> request_submit e r s })
           (\<lambda>u. dns_inv {} M K u \<and> asked_for K (tag_of cb) h s u)"
proof -
  have N: "net {} s" using s by (simp add: dns_inv_def)
  obtain ro t c ring where t: "request_new e (Some h) ty name cb s = Some (ro, t)" "mset ring = mset (server_ring s)"
      "(case ro of None \<Rightarrow> t = s\<lparr>serial := serial s + 1, randoms := c, server_ring := ring\<rparr>
            | Some r \<Rightarrow> r = serial s \<and> (\<exists>q. startable s q \<and> req_handle q = Some h \<and> user_callback q = cb \<and> request_type q = ty \<and>
                t = s\<lparr>serial := serial s + 1, randoms := c, server_ring := ring, requests := (requests s)(r \<mapsto> q), handles := owned (Some h) r s\<rparr>))"
    using request_new_ok [OF N e, of "Some h" ty name cb] h(2) by (auto simp: returns_def)
  show ?thesis
  proof (cases ro)
    case None
    then have "t = s\<lparr>serial := serial s + 1, randoms := c, server_ring := ring\<rparr>" using t(3) by simp
    then show ?thesis using None t(1) h inv_unasked [OF s t(2), of "serial s + 1" c] by (auto simp: asked_for_def free_handle_def)
  next
    case (Some r)
    then obtain q where r: "r = serial s" and q': "startable s q" "req_handle q = Some h" "user_callback q = cb" "request_type q = ty" and
        tt: "t = s\<lparr>serial := serial s + 1, randoms := c, server_ring := ring, requests := (requests s)(r \<mapsto> q), handles := owned (Some h) r s\<rparr>"
      using t(3) by auto
    let ?hn = "hn\<lparr>current_req := Some r\<rparr>"
    have t2: "t = s\<lparr>serial := serial s + 1, randoms := c, server_ring := ring, requests := (requests s)(serial s \<mapsto> q),
        handles := (handles s)(h \<mapsto> ?hn), searches := searches s\<rparr>"
      using h(2) r by (simp add: tt)
    have O: "search_ok s" "fresh s" using s by (simp_all add: dns_inv_def objs_def)
    have search: "search_ok t"
      by (rule search_ok_plain [OF O(1), of h "Some ?hn"]) (use h(2-4) in \<open>auto simp: t2\<close>)
    have "returns (request_submit e (serial s) t)
           (\<lambda>u. dns_inv {} M K u \<and> ledger K u = ledger K s + tag_of (user_callback q) \<and> listed u = insert (serial s) (listed s) \<and> handles u h = Some ?hn \<and>
              set (server_ring u) = set (server_ring s))"
      by (rule submit_new [where N = "{}", OF _ t(2) _ q'(1,2) _ _ h(1) _ _ _ _ t2 search])
        (use s q q' h r O(2) in \<open>auto simp: free_handle_def fresh_def\<close>)
    then show ?thesis using Some t(1) r q'(3) by (auto simp: asked_for_def elim!: returns_mono)
  qed
qed

end
