(* ===== verification/EvdnsLookups.thy ===== *)
theory EvdnsLookups
  imports EvdnsSearch
begin

text \<open>
  Lookups from their beginning, probes, and the next name of a search, each keeping the invariant.
\<close>

section \<open>Lookups\<close>

lemma inv_new_handle:
  assumes s: "dns_inv X M K s" and t: "t = s\<lparr>serial := serial s + 1, handles := (handles s)(serial s \<mapsto> new_handle)\<rparr>"
  shows "dns_inv X M K t" "ledger K t = ledger K s" "listed t = listed s" "free_handle t (serial s)" "handles t (serial s) = Some new_handle"
proof -
  let ?a = "s\<lparr>serial := serial s + 1\<rparr>"
  have a: "dns_inv X M K ?a" "listed ?a = listed s" "ledger K ?a = ledger K s"
    using inv_serial [OF s, of "serial s + 1" "randoms s"] by simp_all
  have O: "fresh s" "search_ok ?a" using s a(1) by (simp_all add: dns_inv_def objs_def)
  have none: "handles s (serial s) = None" "\<And>y. serial s \<le> y \<Longrightarrow> searches s y = None" using O(1) by (simp_all add: fresh_def)
  have f: "free_handle ?a (serial s)" using none by (simp add: free_handle_def)
  have tt: "t = ?a\<lparr>handles := (handles ?a)(serial s := Some new_handle), searches := searches ?a\<rparr>" by (simp add: t)
  have search: "search_ok t" by (rule search_ok_plain [OF O(2), of "serial s" "Some new_handle"]) (use none in \<open>auto simp: t new_handle_def\<close>)
  have "searches ?a y = None" if "serial ?a \<le> y" for y using none(2) that by simp
  from inv_handle [OF a(1) f this tt search] a(2,3)
  show "dns_inv X M K t" "ledger K t = ledger K s" "listed t = listed s" by simp_all
  show "free_handle t (serial s)" "handles t (serial s) = Some new_handle" by (simp_all add: t free_handle_def new_handle_def)
qed

lemma inv_drop_handle:
  assumes s: "dns_inv X M K s" and h: "free_handle s h" "\<And>hn. handles s h = Some hn \<Longrightarrow> search_state hn = None"
  shows "dns_inv X M K (s\<lparr>handles := (handles s)(h := None)\<rparr>)" "ledger K (s\<lparr>handles := (handles s)(h := None)\<rparr>) = ledger K s"
proof -
  let ?t = "s\<lparr>handles := (handles s)(h := None)\<rparr>"
  have O: "fresh s" "search_ok s" using s by (simp_all add: dns_inv_def objs_def)
  have search: "search_ok ?t" by (rule search_ok_plain [OF O(2) h(2), where x = None]) simp_all
  have eq: "?t = s\<lparr>handles := (handles s)(h := None), searches := searches s\<rparr>" by simp
  have "searches s y = None" if "serial s \<le> y" for y using O(1) that by (simp add: fresh_def)
  from inv_handle [OF s h(1) this eq search] show "dns_inv X M K ?t" "ledger K ?t = ledger K s" by simp_all
qed

lemma with_handle_ok:
  assumes s: "dns_inv {} M K s" and e: "\<And>k. env_alloc e k"
    and ask: "\<And>h t. dns_inv {} M K t \<Longrightarrow> free_handle t h \<Longrightarrow> handles t h = Some new_handle \<Longrightarrow> listed t = listed s \<Longrightarrow>
      server_ring t = server_ring s \<Longrightarrow> returns (ask h t) (\<lambda>u. dns_inv {} M K u \<and> asked_for K tags h t u)"
  shows "returns (with_handle e ask s) (\<lambda>(p, u). dns_inv {} M K u \<and> ledger K u = ledger K s + (if p = None then {#} else tags))"
proof -
  let ?t = "s\<lparr>serial := serial s + 1, handles := (handles s)(serial s \<mapsto> new_handle)\<rparr>"
  note t = inv_new_handle [OF s refl]
  obtain u where u: "ask (serial s) ?t = Some u" "dns_inv {} M K u" "asked_for K tags (serial s) ?t u"
    using ask [OF t(1,4,5,3)] by (auto simp: returns_def)
  obtain hn where hn: "handles u (serial s) = Some hn"
      "if current_req hn = None then free_handle u (serial s) \<and> search_state hn = None \<and> search_origname hn = None \<and> ledger K u = ledger K ?t
       else ledger K u = ledger K ?t + tags"
    using u(3) by (auto simp: asked_for_def)
  show ?thesis
  proof (cases "current_req hn = None")
    case True
    then have "dns_inv {} M K (u\<lparr>handles := (handles u)(serial s := None)\<rparr>)" "ledger K (u\<lparr>handles := (handles u)(serial s := None)\<rparr>) = ledger K u"
      using inv_drop_handle [OF u(2), of "serial s"] hn by auto
    then show ?thesis using e u(1) hn True t(2) by (simp add: with_handle_def allocate_def)
  next
    case False
    then show ?thesis using e u(1,2) hn t(2) by (auto simp: with_handle_def allocate_def)
  qed
qed

lemma ask_once_ok:
  assumes s: "dns_inv {} M K s" and e: "fair_random e" "room s" "\<And>k. env_alloc e k"
    and h: "free_handle s h" "handles s h = Some new_handle" and ty: "type_ok ty"
  shows "returns (ask_once e ty name tag h s) (\<lambda>u. dns_inv {} M K u \<and> asked_for K {#tag#} h s u)"
  using ask_ok [OF s e h(1,2) _ _ ty, of "User tag" name] by (simp add: ask_once_def new_handle_def cb_ok_def)

text \<open>The end of \<open>search_request_new\<close>, for a name that is searched.\<close>

definition join_search :: "dns_env \<Rightarrow> nat \<Rightarrow> bytes \<Rightarrow> int \<Rightarrow> int \<Rightarrow> nat \<Rightarrow> dns_base \<Rightarrow> dns_base option" where
  "join_search e handle name flags index r s = do {
     s \<leftarrow> upd_handle handle (search_index_update (\<lambda>_. index)) s;
     hn \<leftarrow> handles s handle;
     assert_that (search_origname hn = None);
     case allocate e s of
       (None, s) \<Rightarrow> Some (s\<lparr>requests := (requests s)(r := None)\<rparr>)
     | (Some _, s) \<Rightarrow> do {
         s \<leftarrow> upd_handle handle (\<lambda>hn. hn\<lparr>search_origname := Some name, search_state := global_search_state s, search_flags := flags\<rparr>) s;
         i \<leftarrow> global_search_state s;
         s \<leftarrow> upd_search i (\<lambda>l. l\<lparr>refcount := refcount l + 1\<rparr>) s;
         request_submit e r s
       }
   }"

lemma probe_joined_ok:
  assumes s: "dns_inv {} M K s" and e: "fair_random e" "room s" "\<And>k. env_alloc e k"
    and h: "free_handle s h" "handles s h = Some new_handle" and i: "global_search_state s = Some i" "searches s i = Some l"
    and index: "-1 \<le> index" and ty: "type_ok ty" and name: "name \<noteq> []" and led: "ledger K s = ledger K s0"
  shows "returns (do { (r, s) \<leftarrow> request_new e (Some h) ty new_name (User tag) s;
                       case r of None \<Rightarrow> Some s | Some r \<Rightarrow> join_search e h name flags index r s })
           (\<lambda>u. dns_inv {} M K u \<and> asked_for K {#tag#} h s0 u)"
proof -
  have N: "net {} s" using s by (simp add: dns_inv_def)
  obtain ro t c ring where t: "request_new e (Some h) ty new_name (User tag) s = Some (ro, t)" "mset ring = mset (server_ring s)"
      "(case ro of None \<Rightarrow> t = s\<lparr>serial := serial s + 1, randoms := c, server_ring := ring\<rparr>
            | Some r \<Rightarrow> r = serial s \<and> (\<exists>q. startable s q \<and> req_handle q = Some h \<and> user_callback q = User tag \<and> request_type q = ty \<and>
                t = s\<lparr>serial := serial s + 1, randoms := c, server_ring := ring, requests := (requests s)(r \<mapsto> q), handles := owned (Some h) r s\<rparr>))"
    using request_new_ok [OF N e, of "Some h" ty new_name "User tag"] h(2) by (auto simp: returns_def)
  show ?thesis
  proof (cases ro)
    case None
    then have "t = s\<lparr>serial := serial s + 1, randoms := c, server_ring := ring\<rparr>" using t(3) by simp
    then show ?thesis using None t(1) h led inv_unasked [OF s t(2), of "serial s + 1" c]
      by (auto simp: asked_for_def free_handle_def new_handle_def)
  next
    case (Some r)
    then obtain q where r: "r = serial s" and q: "startable s q" "req_handle q = Some h" "user_callback q = User tag" "request_type q = ty" and
        tt: "t = s\<lparr>serial := serial s + 1, randoms := c, server_ring := ring, requests := (requests s)(r \<mapsto> q), handles := owned (Some h) r s\<rparr>"
      using t(3) by auto
    let ?hn = "new_handle\<lparr>current_req := Some r, search_index := index, search_origname := Some name, search_state := Some i, search_flags := flags\<rparr>"
    let ?S = "(searches s)(i \<mapsto> l\<lparr>refcount := refcount l + 1\<rparr>)"
    define u where "u = s\<lparr>randoms := c, server_ring := ring, requests := (requests s)(serial s \<mapsto> q), serial := serial s + 2,
        handles := (handles s)(h \<mapsto> ?hn), searches := ?S\<rparr>"
    have u: "u = s\<lparr>serial := serial s + 2, randoms := c, server_ring := ring, requests := (requests s)(serial s \<mapsto> q),
        handles := (handles s)(h \<mapsto> ?hn), searches := ?S\<rparr>"
      by (simp add: u_def)
    have O: "search_ok s" "fresh s" using s by (simp_all add: dns_inv_def objs_def)
    have search: "search_ok u"
      by (rule search_ok_join [OF O h(2) _ i, of ?hn name]) (use name index in \<open>simp_all add: u_def new_handle_def\<close>)
    have sub: "returns (request_submit e (serial s) u)
           (\<lambda>u. dns_inv {} M K u \<and> ledger K u = ledger K s + tag_of (user_callback q) \<and> listed u = insert (serial s) (listed s) \<and> handles u h = Some ?hn \<and>
              set (server_ring u) = set (server_ring s))"
    proof (rule submit_new [where N = "{}", OF _ t(2) _ q(1,2) _ _ h(1) _ _ _ _ u search])
      show "?S y = None" if "serial s \<le> y" for y using O(2) i(2) that by (auto simp: fresh_def)
    qed (use s q h r ty in \<open>auto simp: cb_ok_def new_handle_def\<close>)
    have "join_search e h name flags index r t = request_submit e (serial s) u"
    proof -
      have "t\<lparr>handles := (handles s)(h \<mapsto> x), serial := y\<rparr> = t\<lparr>serial := y, handles := (handles s)(h \<mapsto> x)\<rparr>" for x y by simp
      then show ?thesis
        using h(2) i e(3) r
        by (simp add: join_search_def tt upd_handle_def assert_that_def new_handle_def allocate_def upd_search_def u_def)
    qed
    then show ?thesis using sub Some t(1) q(3) led by (auto simp: asked_for_def elim!: returns_mono)
  qed
qed

lemma search_request_new_ok:
  assumes s: "dns_inv {} M K s" and e: "fair_random e" "room s" "\<And>k. env_alloc e k"
    and h: "free_handle s h" "handles s h = Some new_handle" and ty: "ty = TYPE_A \<or> ty = TYPE_AAAA" and name: "name \<noteq> []"
  shows "returns (search_request_new e h ty name flags (User tag) s) (\<lambda>u. dns_inv {} M K u \<and> asked_for K {#tag#} h s u)"
proof -
  have plain: "returns (do { (r, s) \<leftarrow> request_new e (Some h) ty name (User tag) s; case r of None \<Rightarrow> Some s | Some r \<Rightarrow> request_submit e r s })
      (\<lambda>u. dns_inv {} M K u \<and> asked_for K {#tag#} h s u)"
    using ask_ok [OF s e h, of ty "User tag" name] ty by (auto simp: new_handle_def cb_ok_def type_ok_def)
  have O: "fresh s" "search_ok s" "net {} s" using s by (simp_all add: dns_inv_def objs_def)
  have cur: "assert_that (ty = TYPE_A \<or> ty = TYPE_AAAA) = Some ()" "assert_that (current_req new_handle = None) = Some ()"
    using ty by (simp_all add: assert_that_def new_handle_def)
  show ?thesis
  proof (cases "global_search_state s")
    case None
    then show ?thesis using plain h(2) cur by (simp add: search_request_new_def)
  next
    case (Some i)
    then obtain l where l: "searches s i = Some l" "num_domains l = int (length (domains l))" using O(2) by (fastforce simp: search_ok_def)
    show ?thesis
    proof (cases "even flags \<and> num_domains l \<noteq> 0")
      case False
      then have "\<not> (\<not> odd flags \<and> num_domains l \<noteq> 0)" by simp
      then show ?thesis using plain unfolding search_request_new_def cur h(2) Some
        by (simp add: l(1) cur if_not_P [OF False] del: returns_bind)
    next
      case True
      have make: "\<exists>new_name index k. (if string_num_dots name \<ge> ndots l then Some (Some name, -1 :: int, s)
              else do { (nm, s) \<leftarrow> search_make_new e l 0 name s; Some (nm, 0, s) }) = Some (Some new_name, index, s\<lparr>serial := k\<rparr>) \<and>
            -1 \<le> index \<and> serial s \<le> k"
      proof (cases "string_num_dots name \<ge> ndots l")
        case f: False
        have "search_make_new e l 0 name s = Some (Some (name @ (if last name = 46 then [] else [46]) @ domains l ! 0), s\<lparr>serial := serial s + 1\<rparr>)"
          using name True l(2) e(3) by (auto simp: search_make_new_def allocate_def)
        then show ?thesis using f by (auto intro!: exI [of _ "serial s + 1"])
      qed (auto intro!: exI [of _ "serial s"])
      then obtain new_name index k where mk: "(if string_num_dots name \<ge> ndots l then Some (Some name, -1 :: int, s)
              else do { (nm, s) \<leftarrow> search_make_new e l 0 name s; Some (nm, 0, s) }) = Some (Some new_name, index, s\<lparr>serial := k\<rparr>)"
          "-1 \<le> index" "serial s \<le> k"
        by blast
      let ?s = "s\<lparr>serial := k\<rparr>"
      have eq: "search_request_new e h ty name flags (User tag) s =
          do { (r, s) \<leftarrow> request_new e (Some h) ty new_name (User tag) ?s;
               case r of None \<Rightarrow> Some s | Some r \<Rightarrow> join_search e h name flags index r s }"
        unfolding search_request_new_def cur h(2) Some l(1) join_search_def by (simp add: True l(1) mk(1) cur cong: option.case_cong)
      have s1: "dns_inv {} M K ?s" "ledger K ?s = ledger K s" "listed ?s = listed s"
        using inv_serial [OF s mk(3), of "randoms s"] by (simp_all add: listed_def)
      show ?thesis unfolding eq
      proof (rule probe_joined_ok [OF s1(1) e(1) _ e(3)])
        show "room ?s" using e(2) s1(3) by (simp add: room_def)
      qed (use h Some l mk(2,3) ty name s1(2) in \<open>auto simp: free_handle_def type_ok_def\<close>)
    qed
  qed
qed

section \<open>Probes\<close>

lemma probe_name_length: "length probe_name = 10"
  by (simp add: probe_name_def bytes_of_def)

lemma send_probe_ok:
  assumes s: "dns_inv {} {n} K s" and n: "n \<in> set (server_ring s)" and e: "fair_random e" "room s" "\<And>k. env_alloc e k"
  shows "returns (nameserver_send_probe e n s) (\<lambda>u. dns_inv {} {} K u \<and> ledger K u = ledger K s \<and> set (server_ring u) = set (server_ring s))"
proof -
  obtain v where v: "nameservers s n = Some v" "choked v \<longrightarrow> write_waiting v" using net_server [of "{}" s n] s n by (auto simp: dns_inv_def)
  define h where "h = serial s"
  define s1 where "s1 = s\<lparr>serial := serial s + 1, handles := (handles s)(serial s \<mapsto> new_handle)\<rparr>"
  note s1 = inv_new_handle [OF s s1_def]
  have N1: "net {} s1" using s1(1) by (simp add: dns_inv_def)
  have room: "room s1" using e(2) s1(3) by (simp add: room_def)
  obtain ro t c ring where t: "request_new e (Some h) TYPE_A probe_name (Probe n) s1 = Some (ro, t)" "mset ring = mset (server_ring s1)" "ro \<noteq> None"
      "(case ro of None \<Rightarrow> t = s1\<lparr>serial := serial s1 + 1, randoms := c, server_ring := ring\<rparr>
            | Some r \<Rightarrow> r = serial s1 \<and> (\<exists>q. startable s1 q \<and> req_handle q = Some h \<and> user_callback q = Probe n \<and> request_type q = TYPE_A \<and>
                t = s1\<lparr>serial := serial s1 + 1, randoms := c, server_ring := ring, requests := (requests s1)(r \<mapsto> q), handles := owned (Some h) r s1\<rparr>))"
    using request_new_ok [OF N1 e(1) room e(3), of "Some h" TYPE_A probe_name "Probe n"] s1(5) probe_name_length
    by (auto simp: returns_def h_def)
  then obtain r q where r: "ro = Some r" "r = serial s1" and q: "startable s1 q" "req_handle q = Some h" "user_callback q = Probe n" "request_type q = TYPE_A" and
      tt: "t = s1\<lparr>serial := serial s1 + 1, randoms := c, server_ring := ring, requests := (requests s1)(r \<mapsto> q), handles := owned (Some h) r s1\<rparr>"
    by auto
  have n1: "server_ring s1 = server_ring s" "nameservers s1 = nameservers s" by (simp_all add: s1_def)
  define s2 where "s2 = s1\<lparr>nameservers := (nameservers s1)(n \<mapsto> v\<lparr>probe_request := Some h\<rparr>)\<rparr>"
  have s2: "dns_inv {} {n} K s2" "ledger K s2 = ledger K s1" "listed s2 = listed s1"
    unfolding s2_def using inv_ns [OF s1(1), of n v "v\<lparr>probe_request := Some h\<rparr>"] ns_update(2,3) [of s1 n v] v n1 by simp_all
  define w where "w = t\<lparr>nameservers := (nameservers t)(n \<mapsto> v\<lparr>probe_request := Some h\<rparr>)\<rparr>"
  have w: "upd_ns n (probe_request_update (\<lambda>_. Some h)) t = Some w" using v(1) by (simp add: upd_ns_def w_def tt n1)
  have iw: "inflight w = inflight s1" "req_heads w = req_heads s1" by (simp_all add: w_def tt inflight_def)
  have "ids_ok w" using net_ids_ok [OF N1] iw by (auto simp: ids_ok_def w_def tt)
  moreover have "card (set (inflight w)) < 65535" using card_inflight [of s1] room iw(1) by (simp add: room_def)
  ultimately obtain tid c2 where tid: "transaction_id_pick e w = Some (tid, w\<lparr>randoms := c2\<rparr>)" "tid \<noteq> NO_ID"
    using transaction_id_pick_ok [OF _ e(1)] by blast
  let ?q = "q\<lparr>trans_id := tid, packet := (packet q)[0 := hi8 tid, 1 := lo8 tid], req_ns := Some n\<rparr>"
  let ?hn = "new_handle\<lparr>current_req := Some r\<rparr>"
  define u where "u = s1\<lparr>serial := serial s1 + 1, server_ring := ring, handles := (handles s1)(h \<mapsto> ?hn),
      nameservers := (nameservers s1)(n \<mapsto> v\<lparr>probe_request := Some h\<rparr>), randoms := c2, requests := (requests s1)(r \<mapsto> ?q)\<rparr>"
  have u: "u = s2\<lparr>serial := serial s2 + 1, randoms := c2, server_ring := ring, requests := (requests s2)(serial s2 \<mapsto> ?q),
      handles := (handles s2)(h \<mapsto> ?hn), searches := searches s2\<rparr>"
    using r(2) by (simp add: u_def s2_def)
  have O: "search_ok s2" "fresh s2" using s2(1) by (simp_all add: dns_inv_def objs_def)
  have h2: "free_handle s2 h" "handles s2 h = Some new_handle" using s1(4,5) by (simp_all add: s2_def h_def free_handle_def)
  have search: "search_ok u"
    by (rule search_ok_plain [OF O(1), of h "Some ?hn"]) (use h2(2) in \<open>auto simp: u new_handle_def\<close>)
  have "returns (request_submit e (serial s2) u)
           (\<lambda>x. dns_inv {} {} K x \<and> ledger K x = ledger K s2 + tag_of (user_callback ?q) \<and> listed x = insert (serial s2) (listed s2) \<and> handles x h = Some ?hn \<and>
              set (server_ring x) = set (server_ring s2))"
  proof (rule submit_new [where N = "{n}", OF _ _ _ _ _ _ _ h2(1) _ _ _ _ u search])
    show "searches s2 y = None" if "serial s2 \<le> y" for y using O(2) that by (simp add: fresh_def)
    show "b = h" if "m \<in> {n}" "nameservers s2 m = Some v'" "probe_request v' = Some b" for m v' b
      using that v(1) by (auto simp: s2_def)
    show "startable s2 ?q" using q(1) tid(2) n n1 by (simp add: startable_def s2_def)
    show "mset ring = mset (server_ring s2)" using t(2) by (simp add: s2_def)
  qed (use s2 q n n1 r in \<open>auto simp: cb_ok_def new_handle_def type_ok_def s2_def\<close>)
  moreover have "nameserver_send_probe e n s = request_submit e r u"
  proof -
    have al: "allocate e s = (Some h, s\<lparr>serial := serial s + 1\<rparr>)" using e(3) by (simp add: allocate_def h_def)
    have new: "s\<lparr>serial := Suc (serial s), handles := (handles s)(h \<mapsto> \<lparr>current_req = None, pending_cb = False, search_index = 0,
                    search_state = None, search_origname = None, search_flags = 0\<rparr>)\<rparr> = s1"
      by (simp add: s1_def h_def new_handle_def)
    have x: "(do { s \<leftarrow> request_trans_id_set r tid (w\<lparr>randoms := c2\<rparr>); s \<leftarrow> upd_req r (req_ns_update (\<lambda>_. Some n)) s; request_submit e r s }) = request_submit e r u"
      using s1(5) by (simp add: request_trans_id_set_def upd_req_def w_def tt u_def h_def)
    show ?thesis unfolding nameserver_send_probe_def al by (simp add: Let_def new t(1) r(1) w tid(1) x del: fun_upd_apply)
  qed
  moreover have "serial s2 = r" using r(2) by (simp add: s2_def)
  ultimately show ?thesis using q(3) s1(2) s2(2) n1 by (auto simp: s2_def elim!: returns_mono)
qed

lemma prod_ok:
  assumes s: "dns_inv {} {} K s" and n: "n \<in> set (server_ring s)" and e: "fair_random e" "room s" "\<And>k. env_alloc e k"
  shows "returns (nameserver_prod_callback e n s) (\<lambda>u. dns_inv {} {} K u \<and> ledger K u = ledger K s \<and> set (server_ring u) = set (server_ring s))"
proof -
  obtain v where v: "nameservers s n = Some v" "choked v \<longrightarrow> write_waiting v" using net_server [of "{}" s n] s n by (auto simp: dns_inv_def)
  let ?s = "s\<lparr>nameservers := (nameservers s)(n \<mapsto> v\<lparr>ns_timer := None\<rparr>)\<rparr>"
  have "dns_inv {} {n} K ?s" by (rule inv_ns [OF exempt [OF s] _ v(1)]) (use v in auto)
  moreover have "room ?s" using e(2) ns_update(3) [OF v(1)] by (simp add: room_def)
  ultimately have "returns (nameserver_send_probe e n ?s) (\<lambda>u. dns_inv {} {} K u \<and> ledger K u = ledger K ?s \<and> set (server_ring u) = set (server_ring ?s))"
    using send_probe_ok [of n K ?s e] n e by simp
  then show ?thesis using v(1) ns_update(2) [OF v(1)] by (simp add: nameserver_prod_callback_def upd_ns_def)
qed

end
