(* ===== verification/EvdnsReplies.thy ===== *)
theory EvdnsReplies
  imports EvdnsLookups
begin

text \<open>
  Replies: the next name of a search, requests that failed or were answered, and what a packet does.
\<close>

section \<open>The next name of a search\<close>

lemma inv_same_handle:
  assumes s: "dns_inv X M K s" and h: "handles s h = Some hn" "current_req hn' = current_req hn" "pending_cb hn' = pending_cb hn"
      "search_state hn = None \<Longrightarrow> search_state hn' = None"
    and S: "\<And>y. serial s \<le> y \<Longrightarrow> S y = None" and t: "t = s\<lparr>handles := (handles s)(h \<mapsto> hn'), searches := S\<rparr>" and search: "search_ok t"
  shows "dns_inv X M K t" "ledger K t = ledger K s" "listed t = listed s" "inflight t = inflight s"
proof -
  have O: "held K s" "fresh s" "probes_ok M K s" "lively M K s" "net X s" using s by (auto simp: dns_inv_def objs_def)
  have val: "valid_request t p" if p: "p \<in> listed s" for p
    by (rule valid_handle [OF net_listed_valid [OF O(5) p], of t h hn']) (use h(1,2) in \<open>simp_all add: t\<close>)
  show "listed t = listed s" "inflight t = inflight s" using net_handles [OF O(5) val] by (simp_all add: t inflight_def)
  have net: "net X t" "listed t = listed s" using net_handles [OF O(5) val] by (simp_all add: t)
  have "request_held K t p" if p: "p \<in> listed s" for p
  proof -
    have "request_held K s p" using O(1) p by (simp add: held_def)
    then obtain q b bn where b: "requests s p = Some q" "req_handle q = Some b" "handles s b = Some bn" "pending_cb bn \<longleftrightarrow> p \<in> K"
        "type_ok (request_type q)" "cb_ok s (user_callback q)" "search_state bn \<noteq> None \<longrightarrow> (\<exists>tag. user_callback q = User tag)"
      unfolding request_held_def by blast
    then show ?thesis using h unfolding request_held_def cb_ok_def by (cases "b = h") (auto simp: t)
  qed
  moreover have "deferred_held K t d" if d: "d \<in> set (deferreds s)" for d
  proof -
    have "deferred_held K s d" using O(1) d by (simp add: held_def)
    then obtain b bn where b: "d_handle d = Some b" "handles s b = Some bn" "pending_cb bn" "current_req bn = None \<longrightarrow> search_state bn = None"
        "\<forall>r. current_req bn = Some r \<longrightarrow> r \<in> K \<and> (\<exists>q. requests s r = Some q \<and> req_handle q = Some b)"
        "type_ok (d_type d)" "cb_ok s (d_callback d)"
      by (auto simp: deferred_held_def)
    then show ?thesis using h unfolding deferred_held_def cb_ok_def by (cases "b = h") (auto simp: t)
  qed
  ultimately have "held K t" using O(1) net(2) by (simp add: held_def t)
  moreover have "h < serial s" using O(2) h(1) by (metis fresh_def not_less option.distinct(1))
  then have "fresh t" using O(2) S by (auto simp: fresh_def t)
  moreover have "probing K t = probing K s" using net(2) by (auto simp: probing_def t intro!: ext)
  then have "probes_ok M K t" "lively M K t" using probes_mono [OF O(3), of t K] lively_mono [OF O(4), of t K] by (simp_all add: t)
  ultimately show "dns_inv X M K t" using net search by (simp add: dns_inv_def objs_def)
  show "ledger K t = ledger K s" by (rule ledger_cong) (simp_all add: t net(2) [unfolded t])
qed

lemma submit_next_ok:
  assumes s: "dns_inv {} M K s" and r: "r \<in> set (inflight s)" "r \<notin> K" and e: "fair_random e" "room s"
    and q: "requests s r = Some q" "req_handle q = Some h" "handles s h = Some hn" "user_callback q = User tag"
    and new: "rn \<notin> listed s" "rn < serial s" "requests s rn = Some qn" "startable s qn" "user_callback qn = User tag" "type_ok (request_type qn)"
  shows "returns (submit_next e h r rn s)
           (\<lambda>u. dns_inv {} M K u \<and> ledger K u = ledger K s \<and> listed u = insert rn (listed s - {r}) \<and> set (server_ring u) = set (server_ring s))"
proof -
  have N: "net {} s" and O: "fresh s" using s by (simp_all add: dns_inv_def objs_def)
  have rl: "r \<in> listed s" by (rule inflight_listed [OF r(1)])
  have hn: "\<not> pending_cb hn" "search_state hn \<noteq> None \<longrightarrow> (\<exists>tag. user_callback q = User tag)"
    by (rule held_handle [OF s rl], use q r in simp)+
  have hs: "h < serial s" using O q(3) by (metis fresh_def not_less option.distinct(1))
  obtain i where i: "head_of_req s r = Some (Head i)" "place s r (Head i)" by (rule inflight_place [OF N r(1)])
  define t' where "t' = (unlist r (Head i) s)\<lparr>handles := (handles s)(h \<mapsto> hn\<lparr>current_req := None\<rparr>), requests := (requests s)(r := None)\<rparr>"
  obtain t where t: "request_finished e r (Head i) False s = Some t" "quiet t' t" "dns_inv {} M K t" "ledger K t + {#tag#} = ledger K s"
      "listed t = listed s - {r}" "shrinks {r} s t"
    using finish_keep_ok [OF s r(2) i(2) e _ q] by (auto simp: returns_def t'_def)
  have rnr: "rn \<noteq> r" using new(1) rl by blast
  have lt': "listed t' = listed t" using quietD(10) [OF t(2)] by simp
  have ht: "handles t h = Some (hn\<lparr>current_req := None\<rparr>)" "serial t = serial s" "requests t rn = Some qn"
    using quietD(1,6) [OF t(2)] quietD(12) [OF t(2), of rn] new(1,3) rnr lt' t(5) by (simp_all add: t'_def)
  have ring: "set (server_ring t) = set (server_ring s)" by (rule shrinksD(4) [OF t(6)])
  let ?a = "t\<lparr>requests := (requests t)(rn \<mapsto> qn\<lparr>req_handle := Some h\<rparr>)\<rparr>"
  have "rn \<notin> listed t" "rn < serial t" using new(1,2) t(5) ht(2) by simp_all
  note a = inv_request [OF t(3) this, of "Some (qn\<lparr>req_handle := Some h\<rparr>)"]
  let ?hn = "hn\<lparr>current_req := Some rn\<rparr>"
  define b where "b = ?a\<lparr>handles := (handles ?a)(h \<mapsto> ?hn), searches := searches ?a\<rparr>"
  have Oa: "search_ok ?a" "fresh ?a" using a(1) by (simp_all add: dns_inv_def objs_def)
  have "free_handle ?a h" using ht hs hn(1) by (simp add: free_handle_def)
  moreover have "search_ok b" by (rule search_ok_handle [OF Oa(1), of h "hn\<lparr>current_req := None\<rparr>" ?hn]) (use ht in \<open>simp_all add: b_def\<close>)
  moreover have "searches ?a y = None" if "serial ?a \<le> y" for y using Oa(2) that by (simp add: fresh_def)
  ultimately have b: "dns_inv {} M K b" "ledger K b = ledger K ?a" "listed b = listed ?a"
    using inv_handle [OF a(1), of h "searches ?a" b "Some ?hn"] by (auto simp: b_def)
  have kn: "rn \<notin> K" using s new(1) by (auto simp: dns_inv_def objs_def held_def)
  have "returns (request_submit e rn b)
           (\<lambda>u. dns_inv {} M K u \<and> ledger K u = ledger K b + tag_of (user_callback (qn\<lparr>req_handle := Some h\<rparr>)) \<and> listed u = insert rn (listed b) \<and>
              handles u = handles b \<and> set (server_ring u) = set (server_ring b))"
  proof (rule submit_ok [where N = "{}"])
    show "request_held K b rn" using new(5,6) hn kn by (auto simp: request_held_def b_def cb_ok_def)
    show "valid_request b rn" by (simp add: valid_request_iff b_def)
    show "rn \<notin> listed b" using new(1) a(3) b(3) t(5) by simp
    show "startable b (qn\<lparr>req_handle := Some h\<rparr>)" using new(4) ring by (simp add: startable_def b_def)
  qed (use b kn in \<open>simp_all add: b_def\<close>)
  moreover have "submit_next e h r rn s = request_submit e rn b"
  proof -
    have eq: "t\<lparr>handles := x, requests := y\<rparr> = t\<lparr>requests := y, handles := x\<rparr>" for x y by simp
    show ?thesis using i(1) t(1) ht by (simp add: submit_next_def upd_handle_def upd_req_def b_def eq)
  qed
  ultimately show ?thesis
    using a(2,3) b(2,3) t(4,5) new(5) ring by (auto elim!: returns_mono simp: b_def)
qed

lemma search_ok_index:
  assumes s: "search_ok s" and h: "handles s h = Some hn" "-1 \<le> k"
    and t: "handles t = (handles s)(h \<mapsto> hn\<lparr>search_index := k\<rparr>)" "searches t = searches s" "global_search_state t = global_search_state s"
  shows "search_ok t"
proof -
  have "searchers t i = searchers s i" for i using h t(1) by (auto simp: searchers_def)
  moreover have "handle_search_ok t = handle_search_ok s" by (rule handle_search_cong [OF t(2)])
  moreover have "handle_search_ok s hn \<Longrightarrow> handle_search_ok s (hn\<lparr>search_index := k\<rparr>)"
    using h(2) by (cases "search_state hn") (simp_all add: handle_search_ok_def)
  ultimately show ?thesis using s h(1) t unfolding search_ok_def by auto
qed

lemma search_try_next_ok:
  assumes s: "dns_inv {} M K s" and r: "r \<in> set (inflight s)" "r \<notin> K" and e: "fair_random e" "room s" "\<And>k. env_alloc e k"
    and q: "requests s r = Some q" "req_handle q = Some h" "handles s h = Some hn"
  shows "returns (search_try_next e h s)
           (\<lambda>(more, u). dns_inv {} M K u \<and> ledger K u = ledger K s \<and> set (server_ring u) = set (server_ring s) \<and> card (listed u) \<le> card (listed s) \<and>
              (\<not> more \<longrightarrow> keeps {} s u))"
proof -
  have N: "net {} s" and O: "fresh s" "search_ok s" using s by (simp_all add: dns_inv_def objs_def)
  have rl: "r \<in> listed s" by (rule inflight_listed [OF r(1)])
  have hn: "current_req hn = Some r" "\<not> pending_cb hn" "type_ok (request_type q)" "search_state hn \<noteq> None \<longrightarrow> (\<exists>tag. user_callback q = User tag)"
    by (rule held_handle [OF s rl], use q r in simp)+
  show ?thesis
  proof (cases "search_state hn")
    case None
    then show ?thesis using s q hn(1) by (simp add: search_try_next_def)
  next
    case (Some i)
    obtain tag where tag: "user_callback q = User tag" using hn(4) Some by auto
    obtain l orig where l: "searches s i = Some l" "num_domains l = int (length (domains l))" "search_origname hn = Some orig" "orig \<noteq> []" "-1 \<le> search_index hn"
    proof -
      have "handle_search_ok s hn" using O(2) q(3) by (auto simp: search_ok_def)
      then show ?thesis using O(2) Some that by (fastforce simp: handle_search_ok_def search_ok_def)
    qed
    define index where "index = search_index hn + 1"
    define hn1 where "hn1 = hn\<lparr>search_index := index\<rparr>"
    define s1 where "s1 = s\<lparr>handles := (handles s)(h \<mapsto> hn1)\<rparr>"
    have i0: "0 \<le> index" using l(5) by (simp add: index_def)
    have search: "search_ok s1" by (rule search_ok_index [OF O(2) q(3), of index]) (use i0 in \<open>simp_all add: s1_def hn1_def\<close>)
    have s1eq: "s1 = s\<lparr>handles := (handles s)(h \<mapsto> hn1), searches := searches s\<rparr>" by (simp add: s1_def)
    have "searches s y = None" if "serial s \<le> y" for y using O(1) that by (simp add: fresh_def)
    from inv_same_handle [OF s q(3) _ _ _ this s1eq search]
    have s1: "dns_inv {} M K s1" "ledger K s1 = ledger K s" "listed s1 = listed s" "inflight s1 = inflight s" by (simp_all add: hn1_def)
    have N1: "net {} s1" and room1: "room s1" using s1 e(2) by (simp_all add: dns_inv_def room_def)
    have keep1: "keeps {} s s1" using s1(3,4) by (simp add: keeps_def s1_def)
    text \<open>A request that was made, to take the place of the old one.\<close>
    have asked: "\<exists>ro t. request_new e None (request_type q) name (user_callback q) (s1\<lparr>serial := k\<rparr>) = Some (ro, t) \<and> dns_inv {} M K t \<and> ledger K t = ledger K s \<and>
        inflight t = inflight s \<and> handles t = handles s1 \<and> searches t = searches s \<and> global_search_state t = global_search_state s \<and> keeps {} s t \<and> room t \<and>
        requests t r = Some q \<and>
        (\<forall>rn. ro = Some rn \<longrightarrow> rn \<notin> listed t \<and> rn < serial t \<and>
           (\<exists>qn. requests t rn = Some qn \<and> startable t qn \<and> user_callback qn = User tag \<and> type_ok (request_type qn)))"
      if k: "serial s1 \<le> k" for name k
    proof -
      let ?s = "s1\<lparr>serial := k\<rparr>"
      have s2: "dns_inv {} M K ?s" "net {} ?s" "listed ?s = listed s" "ledger K ?s = ledger K s"
        using inv_serial [OF s1(1) k, of "randoms s1"] N1 s1 by simp_all
      have i2: "inflight ?s = inflight s" using s1(4) by simp
      obtain ro t c ring where t: "request_new e None (request_type q) name (user_callback q) ?s = Some (ro, t)" "mset ring = mset (server_ring ?s)"
          "(case ro of None \<Rightarrow> t = ?s\<lparr>serial := serial ?s + 1, randoms := c, server_ring := ring\<rparr>
            | Some r \<Rightarrow> r = serial ?s \<and> (\<exists>qn. startable ?s qn \<and> req_handle qn = None \<and> user_callback qn = user_callback q \<and> request_type qn = request_type q \<and>
                t = ?s\<lparr>serial := serial ?s + 1, randoms := c, server_ring := ring, requests := (requests ?s)(r \<mapsto> qn), handles := owned None r ?s\<rparr>))"
        using request_new_ok [OF s2(2) e(1) _ e(3), of None "request_type q" name "user_callback q"] room1 by (auto simp: returns_def room_def)
      have rk: "r \<noteq> serial ?s" using O(1) q(1) k by (auto simp: fresh_def s1_def)
      have set: "set ring = set (server_ring s)" using t(2) by (simp add: s1_def) (metis set_mset_mset)
      show ?thesis
      proof (cases ro)
        case None
        then have tt: "t = ?s\<lparr>serial := serial ?s + 1, randoms := c, server_ring := ring\<rparr>" using t(3) by simp
        note u = inv_unasked [OF s2(1) t(2), of "serial ?s + 1" c, folded tt]
        have "inflight t = inflight s" using s1(4) by (simp add: tt)
        then show ?thesis using None t(1) u s2(3,4) q(1) set e(2) by (simp add: keeps_def room_def) (simp add: tt s1_def)
      next
        case (Some rn)
        then obtain qn where rn: "rn = serial ?s" and qn: "startable ?s qn" "user_callback qn = user_callback q" "request_type qn = request_type q"
          and tt: "t = ?s\<lparr>serial := serial ?s + 1, randoms := c, server_ring := ring, requests := (requests ?s)(serial ?s \<mapsto> qn)\<rparr>"
          using t(3) by auto
        note u = inv_new [OF s2(1) t(2) _ tt]
        have "inflight t = inflight s" using s1(4) by (simp add: tt)
        moreover have "startable t qn" using qn(1) set by (simp add: startable_def tt s1_def)
        moreover have "\<forall>p \<in> listed s. requests t p = requests s p" using u(4) s2(3) by (auto simp: tt s1_def)
        ultimately show ?thesis using Some t(1) u s2(3,4) rn qn q(1) rl set e(2) hn(3) tag by (simp add: keeps_def room_def) (simp add: tt s1_def)
      qed
    qed
    have eq: "search_try_next e h s =
       (if num_domains l \<le> index then
          if string_num_dots orig < ndots l then do {
            (newreq, s) \<leftarrow> request_new e None (request_type q) orig (user_callback q) s1;
            case newreq of
              None \<Rightarrow> Some (False, s)
            | Some newreq \<Rightarrow> do { s \<leftarrow> search_request_finished h s; s \<leftarrow> submit_next e h r newreq s; Some (True, s) }
          } else Some (False, s1)
        else do {
          (new_name, s) \<leftarrow> search_make_new e l index orig s1;
          case new_name of
            None \<Rightarrow> Some (False, s)
          | Some new_name \<Rightarrow> do {
              (newreq, s) \<leftarrow> request_new e None (request_type q) new_name (user_callback q) s;
              case newreq of
                None \<Rightarrow> Some (False, s)
              | Some newreq \<Rightarrow> do { s \<leftarrow> submit_next e h r newreq s; Some (True, s) }
            }
        })"
      using q hn(1) Some l(1,3) by (simp add: search_try_next_def upd_handle_def index_def s1_def hn1_def add.commute Let_def)
    have nxt: "returns (submit_next e h r rn t)
           (\<lambda>u. dns_inv {} M K u \<and> ledger K u = ledger K s \<and> set (server_ring u) = set (server_ring s) \<and> card (listed u) \<le> card (listed s))"
      if "dns_inv {} M K t" "ledger K t = ledger K s" "inflight t = inflight s" "handles t h = Some hn'" "keeps {} s t" "room t" "requests t r = Some q"
        "rn \<notin> listed t" "rn < serial t" "requests t rn = Some qn" "startable t qn" "user_callback qn = User tag" "type_ok (request_type qn)" for t rn qn hn'
    proof -
      have lt: "listed t = listed s" using keepsD(1,2) [OF that(5)] by blast
      have "card (insert rn (listed s - {r})) \<le> Suc (card (listed s - {r}))" by (simp add: card_insert_if)
      moreover have "Suc (card (listed s - {r})) = card (listed s)" by (rule card_Suc_Diff1) (use rl in simp_all)
      ultimately have c: "card (insert rn (listed s - {r})) \<le> card (listed s)" by simp
      have "r \<in> set (inflight t)" using r(1) that(3) by simp
      from submit_next_ok [OF that(1) this r(2) e(1) that(6,7) q(2) that(4) tag that(8-13)]
      show ?thesis by (rule returns_mono) (use c lt that(2) keepsD(4) [OF that(5)] in simp)
    qed
    show ?thesis
    proof (cases "num_domains l \<le> index")
      case top: True
      show ?thesis
      proof (cases "string_num_dots orig < ndots l")
        case True
        obtain ro t where t: "request_new e None (request_type q) orig (user_callback q) s1 = Some (ro, t)" "dns_inv {} M K t" "ledger K t = ledger K s"
            "inflight t = inflight s" "handles t = handles s1" "keeps {} s t" "room t" "requests t r = Some q"
            "\<forall>rn. ro = Some rn \<longrightarrow> rn \<notin> listed t \<and> rn < serial t \<and>
               (\<exists>qn. requests t rn = Some qn \<and> startable t qn \<and> user_callback qn = User tag \<and> type_ok (request_type qn))"
          using asked [of "serial s1" orig] by auto
        show ?thesis
        proof (cases ro)
          case None
          then show ?thesis using t True top keepsD(4) [OF t(6)] by (auto simp: eq keeps_def)
        next
          case ro: (Some rn)
          have Ot: "search_ok t" "fresh t" using t(2) by (simp_all add: dns_inv_def objs_def)
          have h1: "handles t h = Some hn1" using t(5) by (simp add: s1_def)
          obtain S where S: "search_state_decref (search_state hn1) t = Some (t\<lparr>searches := S\<rparr>)" "\<And>x. searches t x = None \<Longrightarrow> S x = None"
            and so: "\<And>hn' u. search_state hn' = None \<Longrightarrow> search_origname hn' = None \<Longrightarrow> handles u = (handles t)(h \<mapsto> hn') \<Longrightarrow> searches u = S \<Longrightarrow>
               global_search_state u = global_search_state t \<Longrightarrow> search_ok u"
            by (rule decref_ok [OF Ot h1]) blast
          let ?hn = "hn1\<lparr>search_state := None, search_origname := None\<rparr>"
          define u where "u = t\<lparr>handles := (handles t)(h \<mapsto> ?hn), searches := S\<rparr>"
          have search: "search_ok u" by (rule so [of ?hn]) (simp_all add: u_def)
          have "S y = None" if "serial t \<le> y" for y using S(2) Ot(2) that by (simp add: fresh_def)
          from inv_same_handle [OF t(2) h1 _ _ _ this u_def search]
          have u: "dns_inv {} M K u" "ledger K u = ledger K t" "listed u = listed t" "inflight u = inflight t" by simp_all
          have "search_request_finished h t = Some u"
          proof -
            have sw: "t\<lparr>searches := x, handles := y\<rparr> = t\<lparr>handles := y, searches := x\<rparr>" for x y by simp
            show ?thesis using h1 S(1) by (simp add: search_request_finished_def upd_handle_def u_def sw)
          qed
          moreover have "returns (submit_next e h r rn u)
              (\<lambda>u. dns_inv {} M K u \<and> ledger K u = ledger K s \<and> set (server_ring u) = set (server_ring s) \<and> card (listed u) \<le> card (listed s))"
          proof -
            obtain qn where qn: "rn \<notin> listed t" "rn < serial t" "requests t rn = Some qn" "startable t qn" "user_callback qn = User tag" "type_ok (request_type qn)"
              using t(9) ro by auto
            have k: "keeps {} s u" using t(6) u(3,4) by (simp add: keeps_def) (simp add: u_def)
            show ?thesis
              by (rule nxt [OF u(1) _ _ _ k]) (use t qn u in \<open>simp_all add: u_def room_def startable_def\<close>)
          qed
          ultimately show ?thesis using t(1) True top ro by (auto simp: eq elim!: returns_mono)
        qed
      next
        case False
        then show ?thesis using top s1 keep1 by (simp add: eq) (simp add: s1_def)
      qed
    next
      case False
      have n: "nat index < length (domains l)" using False l(2) i0 by simp
      define nm where "nm = orig @ (if last orig = 46 then [] else [46]) @ domains l ! nat index"
      have mk: "search_make_new e l index orig s1 = Some (Some nm, s1\<lparr>serial := serial s1 + 1\<rparr>)"
        using l(2,4) i0 n e(3) by (auto simp: search_make_new_def allocate_def nm_def)
      obtain ro t where t: "request_new e None (request_type q) nm (user_callback q) (s1\<lparr>serial := serial s1 + 1\<rparr>) = Some (ro, t)" "dns_inv {} M K t" "ledger K t = ledger K s"
          "inflight t = inflight s" "handles t = handles s1" "keeps {} s t" "room t" "requests t r = Some q"
          "\<forall>rn. ro = Some rn \<longrightarrow> rn \<notin> listed t \<and> rn < serial t \<and>
             (\<exists>qn. requests t rn = Some qn \<and> startable t qn \<and> user_callback qn = User tag \<and> type_ok (request_type qn))"
        using asked [of "serial s1 + 1" nm] by auto
      show ?thesis
      proof (cases ro)
        case None
        then show ?thesis using t False mk keepsD(4) [OF t(6)] by (auto simp: eq keeps_def)
      next
        case ro: (Some rn)
        obtain qn where qn: "rn \<notin> listed t" "rn < serial t" "requests t rn = Some qn" "startable t qn" "user_callback qn = User tag" "type_ok (request_type qn)"
          using t(9) ro by auto
        have "returns (submit_next e h r rn t)
            (\<lambda>u. dns_inv {} M K u \<and> ledger K u = ledger K s \<and> set (server_ring u) = set (server_ring s) \<and> card (listed u) \<le> card (listed s))"
          by (rule nxt [OF t(2,3,4) _ t(6,7,8) qn]) (simp add: t(5) s1_def)
        then show ?thesis using t(1) mk False ro by (auto simp: eq elim!: returns_mono)
      qed
    qed
  qed
qed

end
