(* ===== verification/EvdnsHandlers.thy ===== *)
theory EvdnsHandlers
  imports EvdnsReplies
begin

text \<open>
  What the event loop calls, each keeping the invariant: packets, deferred callbacks and sockets.
\<close>

section \<open>Replies\<close>

text \<open>What a handler leaves: the invariant, the user's callbacks, the servers, and no more requests than before.\<close>

definition served :: "dns_base \<Rightarrow> dns_base \<Rightarrow> bool" where
  "served s u \<longleftrightarrow> dns_inv {} {} {} u \<and> ledger {} u = ledger {} s \<and> set (server_ring u) = set (server_ring s) \<and> card (listed u) \<le> card (listed s)"

lemma served_trans: "served s t \<Longrightarrow> served t u \<Longrightarrow> served s u"
  by (auto simp: served_def)

lemma served_refl: "dns_inv {} {} {} s \<Longrightarrow> served s s"
  by (simp add: served_def)

lemma served_keeps: "dns_inv {} {} {} u \<Longrightarrow> ledger {} u = ledger {} s \<Longrightarrow> keeps R s u \<Longrightarrow> served s u"
  using card_mono [of "listed s" "listed u"] by (simp add: served_def keeps_def)

lemma served_quiet: "net {} u \<Longrightarrow> quiet s u \<Longrightarrow> dns_inv {} {} {} s \<Longrightarrow> served s u"
  using inv_quiet [of "{}" u s "{}" "{}" "{}"] quietD(8,10) [of s u] by (simp add: served_def)

lemma served_room: "served s u \<Longrightarrow> room s \<Longrightarrow> room u"
  by (simp add: served_def room_def)

lemma served_after: "returns m (\<lambda>t. served s t \<and> returns (f t) (served t)) \<Longrightarrow> returns (do { t \<leftarrow> m; f t }) (served s)"
  by (auto elim!: returns_mono intro: served_trans)

lemma reply_error_cancel: "reply_error flags b \<noteq> DNS_ERR_CANCEL"
proof -
  have "[DNS_ERR_FORMAT, DNS_ERR_SERVERFAILED, DNS_ERR_NOTEXIST, DNS_ERR_NOTIMPL, DNS_ERR_REFUSED] ! k \<noteq> DNS_ERR_CANCEL" if "k \<le> 4" for k
    using that by (auto simp: le_Suc_eq numeral_eq_Suc)
  then show ?thesis by (simp add: reply_error_def Let_def)
qed

lemma reply_failed_ok:
  assumes s: "dns_inv {} {} {} s" and r: "r \<in> set (inflight s)" and e: "fair_random e" "room s" "\<And>k. env_alloc e k" and err: "err \<noteq> DNS_ERR_CANCEL"
  shows "returns (reply_failed e r ttl err s) (served s)"
proof -
  have finish: "returns (finish_with e r ttl err t) (served s)" if "dns_inv {} {} {} t" "ledger {} t = ledger {} s" "keeps {} s t" for t
  proof -
    have "r \<in> set (inflight t)" using keepsD(3) [OF that(3)] r by blast
    from finish_with_ok [OF that(1) this _ _ e(1) keeps_room [OF that(3) e(2)] e(3) err]
    have "returns (finish_with e r ttl err t) (\<lambda>u. dns_inv {} {} {} u \<and> ledger {} u = ledger {} t \<and> listed u = listed t - {r} \<and> shrinks {r} t u)"
      by simp
    then show ?thesis
      by (rule returns_mono) (use that served_keeps [of t s "{}"] served_trans keeps_shrinks served_keeps in metis)
  qed
  obtain q h hn where q: "requests s r = Some q" "req_handle q = Some h" "handles s h = Some hn"
    by (rule held_handle [OF s inflight_listed [OF r]]) blast
  show ?thesis
  proof (cases "search_state hn \<noteq> None \<and> request_type q \<noteq> TYPE_PTR")
    case True
    obtain more t where t: "search_try_next e h s = Some (more, t)" "dns_inv {} {} {} t" "ledger {} t = ledger {} s"
        "set (server_ring t) = set (server_ring s)" "card (listed t) \<le> card (listed s)" "\<not> more \<longrightarrow> keeps {} s t"
      using search_try_next_ok [OF s r _ e q] by (auto simp: returns_def)
    then show ?thesis using q True finish [OF t(2,3)] by (cases more) (auto simp: reply_failed_def served_def)
  next
    case False
    then have "reply_failed e r ttl err s = finish_with e r ttl err s" using q by (auto simp: reply_failed_def)
    then show ?thesis using finish [OF s] by simp
  qed
qed

lemma reply_handle_ok:
  assumes s: "dns_inv {} {} {} s" and r: "r \<in> set (inflight s)" and e: "fair_random e" "room s" "\<And>k. env_alloc e k"
  shows "returns (reply_handle e r flags ttl reply s) (served s)"
proof -
  have N: "net {} s" using s by (simp add: dns_inv_def)
  have val: "valid_request s r" by (rule net_listed_valid [OF N inflight_listed [OF r]])
  obtain q n where q: "requests s r = Some q" "req_ns q = Some n" "n \<in> set (server_ring s)" by (rule flying_server [OF N r])
  have failed: "returns (reply_failed e r ttl (reply_error flags b) t) (served s)"
    if "served s t" "r \<in> set (inflight t)" for t b
  proof -
    have "returns (reply_failed e r ttl (reply_error flags b) t) (served t)"
      by (rule reply_failed_ok [OF _ that(2) e(1) served_room [OF that(1) e(2)] e(3) reply_error_cancel]) (use that(1) in \<open>simp add: served_def\<close>)
    then show ?thesis by (rule returns_mono) (rule served_trans [OF that(1)])
  qed
  let ?bad = "flags AND 0x020f \<noteq> 0 \<or> (case reply of None \<Rightarrow> True | Some rp \<Rightarrow> \<not> rp_have_answer rp)"
  let ?err = "reply_error flags (reply \<noteq> None)"
  show ?thesis
  proof (cases ?bad)
    case bad: True
    consider "(?err = DNS_ERR_NOTIMPL \<or> ?err = DNS_ERR_REFUSED) \<and> reissue_count q < max_reissues s"
      | "(?err = DNS_ERR_NOTIMPL \<or> ?err = DNS_ERR_REFUSED) \<and> \<not> reissue_count q < max_reissues s \<or> ?err = DNS_ERR_SERVERFAILED"
      | "\<not> (?err = DNS_ERR_NOTIMPL \<or> ?err = DNS_ERR_REFUSED)" "?err \<noteq> DNS_ERR_SERVERFAILED" by blast
    then show ?thesis
    proof cases
      case 1
      obtain t where t: "nameserver_failed n s = Some t" "dns_inv {} {} {} t" "quiet s t" "inflight t = inflight s"
        using inv_failed [OF s q(3)] by (auto simp: returns_def)
      obtain again u where u: "request_reissue r t = Some (again, u)" "dns_inv {} {} {} u" "quiet t u" "inflight u = inflight t"
        using request_reissue_ok [OF t(2), of r] r t(4) by (auto simp: returns_def)
      have su: "served s u" by (rule served_quiet [OF _ quiet_trans [OF t(3) u(3)] s]) (use u(2) in \<open>simp add: dns_inv_def\<close>)
      have "reply_handle e r flags ttl reply s = (if again then Some u else reply_failed e r ttl ?err u)"
        using val q bad 1 t(1) u(1) by (simp add: reply_handle_def assert_that_def Let_def)
      then show ?thesis using failed [OF su, of "reply \<noteq> None"] r t(4) u(4) su by simp
    next
      case 2
      then have "reply_handle e r flags ttl reply s = reply_failed e r ttl ?err s"
        using val q bad by (auto simp add: reply_handle_def assert_that_def Let_def)
      then show ?thesis using failed [OF served_refl [OF s] r] by simp
    next
      case 3
      obtain u where u: "good_reply e r s = Some u" "dns_inv {} {} {} u" "ledger {} u = ledger {} s" "keeps (- {r}) s u"
        using good_reply_ok [OF s r e] by (auto simp: returns_def)
      have "reply_handle e r flags ttl reply s = reply_failed e r ttl ?err u"
        using val q bad 3 u(1) by (auto simp add: reply_handle_def assert_that_def Let_def)
      moreover have "r \<in> set (inflight u)" using keepsD(3) [OF u(4)] r by blast
      ultimately show ?thesis using failed [OF served_keeps [OF u(2-4)]] by simp
    qed
  next
    case good: False
    obtain t h hn d where t: "reply_schedule_callback e r ttl 0 reply s = Some t" "dns_inv {} {} {r} t" "ledger {r} t = ledger {} s"
        "t = s\<lparr>serial := serial s + 1, handles := (handles s)(h \<mapsto> hn\<lparr>pending_cb := True\<rparr>), deferreds := deferreds s @ [d]\<rparr>" "listed t = listed s"
      by (rule schedule_ok [OF s inflight_listed [OF r] _ e(3) q(1), of 0 ttl reply]) auto
    have rt: "r \<in> set (inflight t)" "room t" using r e(2) t(5) by (simp_all add: t(4) inflight_def room_def)
    obtain u where u: "good_reply e r t = Some u" "dns_inv {} {} {r} u" "ledger {r} u = ledger {r} t" "keeps (- {r}) t u"
      using good_reply_ok [OF t(2) rt(1) e(1) rt(2) e(3)] by (auto simp: returns_def)
    have ru: "r \<in> set (inflight u)" using keepsD(3) [OF u(4)] rt(1) by blast
    have Nu: "net {} u" using u(2) by (simp add: dns_inv_def)
    obtain i where i: "head_of_req u r = Some (Head i)" "place u r (Head i)" by (rule inflight_place [OF Nu ru])
    have "returns (request_finished e r (Head i) True u)
        (\<lambda>x. dns_inv {} {} ({r} - {r}) x \<and> ledger ({r} - {r}) x = ledger {r} u \<and> listed x = listed u - {r} \<and> shrinks {r} u x \<and> serial x = serial u)"
      by (rule finish_ok [OF u(2) _ i(2) e(1) keeps_room [OF u(4) rt(2)]]) simp_all
    moreover have "served s x" if "dns_inv {} {} {} x" "ledger {} x = ledger {r} u" "shrinks {r} u x" for x
    proof (rule served_keeps [OF that(1)])
      show "ledger {} x = ledger {} s" using that(2) u(3) t(3) by simp
      have "keeps UNIV s t" using t(5) by (simp add: keeps_def t(4))
      then show "keeps UNIV s x" using keeps_trans keeps_mono [OF u(4)] keeps_mono [OF keeps_shrinks [OF that(3)]] by (meson subset_UNIV)
    qed
    moreover have "reply_handle e r flags ttl reply s = request_finished e r (Head i) True u"
      using val q good t(1) u(1) i(1) by (simp add: reply_handle_def assert_that_def)
    ultimately show ?thesis by (auto elim!: returns_mono)
  qed
qed

text \<open>A packet whose bytes \<open>reply_parse\<close> can read, whatever was asked.\<close>

definition safe_packet :: "bytes \<Rightarrow> nat \<Rightarrow> bool" where
  "safe_packet p n \<longleftrightarrow> n < 12 \<or> (\<forall>rc rq. reply_parse (\<lambda>_. True) rc (\<lambda>_. Some (rq, False)) p n \<noteq> None)"

lemma receive_reply_ok:
  assumes s: "dns_inv {} {} {} s" and e: "fair_random e" "room s" "\<And>k. env_alloc e k" and p: "safe_packet p n"
  shows "returns (receive_reply e p n s) (served s)"
proof (cases "n < 12")
  case True
  then show ?thesis using served_refl [OF s] by (simp add: receive_reply_def)
next
  case False
  have N: "net {} s" using s by (simp add: dns_inv_def)
  obtain f where f: "request_find_from_trans_id s (le16 (p ! 1) (p ! 0)) = Some f" "\<forall>r. f = Some r \<longrightarrow> r \<in> set (inflight s)"
    using find_total [OF net_ids_ok [OF N]] by blast
  show ?thesis
  proof (cases f)
    case None
    then show ?thesis using False f(1) served_refl [OF s] by (simp add: receive_reply_def)
  next
    case (Some r)
    have r: "r \<in> set (inflight s)" using f(2) Some by simp
    obtain q where q: "requests s r = Some q" by (rule flying_server [OF N r]) blast
    obtain rq where rq: "asked s r = Some rq" using q by (simp add: asked_def)
    obtain outcome where "reply_parse (\<lambda>_. True) (randomize_case s) (\<lambda>_. Some (rq, False)) p n = Some outcome"
      using p False by (auto simp: safe_packet_def)
    then show ?thesis
      using False f(1) Some rq served_refl [OF s] reply_handle_ok [OF s r e]
      by (simp add: receive_reply_def split: reply_outcome.split)
  qed
qed

section \<open>The socket of a server\<close>

lemma inv_ns_field:
  assumes s: "dns_inv X M K s" and v: "nameservers s n = Some v" and st: "server_step (Some v) (Some v')" "ns_state v' = ns_state v"
    and ok: "choked v' \<Longrightarrow> write_waiting v'" and w: "write_waiting v \<Longrightarrow> write_waiting v'"
  shows "dns_inv X M K (s\<lparr>nameservers := (nameservers s)(n \<mapsto> v')\<rparr>)" "quiet s (s\<lparr>nameservers := (nameservers s)(n \<mapsto> v')\<rparr>)"
proof -
  let ?t = "s\<lparr>nameservers := (nameservers s)(n \<mapsto> v')\<rparr>"
  have "net X ?t" by (rule net_upd_ns [OF _ v]) (use s st ok w in \<open>simp_all add: dns_inv_def\<close>)
  moreover show "quiet s ?t" by (rule quiet_upd_ns [OF v st(1)])
  ultimately show "dns_inv X M K ?t" using inv_quiet [of X ?t s X M K] s by blast
qed

lemma nameserver_read_ok:
  assumes "dns_inv {} {} {} s" "n \<in> set (server_ring s)" and e: "fair_random e" "room s" "\<And>k. env_alloc e k"
    and "\<And>a p k. Packet a p k \<in> set rs \<Longrightarrow> safe_packet p k"
  shows "returns (nameserver_read e n rs s) (served s)"
  using assms(1,2,4,6)
proof (induction rs arbitrary: s)
  case Nil
  then show ?case using served_refl by simp
next
  case (Cons x rs)
  have s: "dns_inv {} {} {} s" and n: "n \<in> set (server_ring s)" and room: "room s" using Cons.prems(1-3) .
  obtain v where v: "nameservers s n = Some v" "choked v \<longrightarrow> write_waiting v" using net_server [of "{}" s n] s n by (auto simp: dns_inv_def)
  show ?case
  proof (cases x)
    case (Packet sender p k)
    show ?thesis
    proof (cases "evutil_sockaddr_cmp sender (ns_address v) False = 0")
      case True
      let ?s = "s\<lparr>nameservers := (nameservers s)(n \<mapsto> v\<lparr>timedout := 0\<rparr>)\<rparr>"
      have s1: "dns_inv {} {} {} ?s" "quiet s ?s"
        using inv_ns_field [OF s v(1), of "v\<lparr>timedout := 0\<rparr>"] v(2) by (auto simp: server_step_def)
      have ss: "served s ?s" by (rule served_quiet [OF _ s1(2) s]) (use s1(1) in \<open>simp add: dns_inv_def\<close>)
      have "safe_packet p k" using Cons.prems(4) [of sender p k] Packet by simp
      from receive_reply_ok [OF s1(1) e(1) served_room [OF ss room] e(3) this]
      obtain t where t: "receive_reply e p k ?s = Some t" "served ?s t" by (auto simp: returns_def)
      have st: "served s t" by (rule served_trans [OF ss t(2)])
      have "returns (nameserver_read e n rs t) (served t)"
        by (rule Cons.IH) (use st served_room [OF st room] n Cons.prems(4) in \<open>auto simp: served_def\<close>)
      then show ?thesis using Packet True v(1) t(1) served_trans [OF st] by (auto simp: upd_ns_def elim!: returns_mono)
    next
      case False
      then show ?thesis using Packet v(1) served_refl [OF s] by simp
    qed
  next
    case Recv_again
    then show ?thesis using served_refl [OF s] by simp
  next
    case Recv_error
    have "returns (nameserver_failed n s) (served s)"
      by (rule returns_mono [OF inv_failed [OF s n]]) (use served_quiet [OF _ _ s] in \<open>auto simp: dns_inv_def\<close>)
    then show ?thesis using Recv_error by simp
  qed
qed

lemma net_stop_writing:
  assumes s: "net {} s" and v: "nameservers s n = Some v" "\<not> choked v"
    and t: "\<forall>r \<in> set (inflight s). \<forall>q. requests s r = Some q \<longrightarrow> \<not> transmit_me q"
  shows "net {} (s\<lparr>nameservers := (nameservers s)(n \<mapsto> v\<lparr>write_waiting := False\<rparr>)\<rparr>)"
proof -
  let ?t = "s\<lparr>nameservers := (nameservers s)(n \<mapsto> v\<lparr>write_waiting := False\<rparr>)\<rparr>"
  have a: "ns_up ?t = ns_up s" "inflight ?t = inflight s" "valid_request ?t p = valid_request s p" for p
    using v by (auto simp: ns_up_def [abs_def] valid_request_iff)
  have f: "flying {} ?t i r" if "i < length (req_heads s)" "r \<in> set (req_heads s ! i)" for i r
  proof -
    have "r \<in> set (inflight s)" using that by (auto simp: inflight_head)
    then show ?thesis using netD(8) [OF s that] t by (auto simp: flying_def a)
  qed
  have "resting s p \<Longrightarrow> resting ?t p" for p by (auto simp: resting_def a)
  moreover have "m \<in> set (server_ring s) \<Longrightarrow> server_ok ?t m" for m using netD(4) [OF s] v by (auto simp: server_ok_def)
  ultimately show ?thesis using s f unfolding net_def a by simp
qed

lemma ready_ok:
  assumes s: "dns_inv {} {} {} s" and n: "n \<in> set (server_ring s)" and e: "fair_random e" "room s" "\<And>k. env_alloc e k"
    and rs: "\<And>a p k. Packet a p k \<in> set rs \<Longrightarrow> safe_packet p k"
  shows "returns (nameserver_ready_callback e n writable readable rs s) (served s)"
proof -
  obtain v where v: "nameservers s n = Some v" using net_server [of "{}" s n] s n by (auto simp: dns_inv_def)
  let ?s = "s\<lparr>nameservers := (nameservers s)(n \<mapsto> v\<lparr>choked := False\<rparr>)\<rparr>"
  have s1: "dns_inv {} {} {} ?s" "quiet s ?s"
    using inv_ns_field [OF s v, of "v\<lparr>choked := False\<rparr>"] by (auto simp: server_step_def)
  have N1: "net {} ?s" using s1(1) by (simp add: dns_inv_def)
  obtain tried t where t: "evdns_transmit e ?s = Some (tried, t)" "net {} t" "quiet ?s t" using evdns_transmit_ok [OF N1, of e] by (auto simp: returns_def)
  have written: "returns (if tried then Some t else nameserver_write_waiting n False t) (served s)"
  proof (cases tried)
    case True
    then show ?thesis using served_quiet [OF t(2) quiet_trans [OF s1(2) t(3)] s] by simp
  next
    case False
    then have tt: "t = ?s" "\<forall>r \<in> set (inflight ?s). \<forall>q. requests ?s r = Some q \<longrightarrow> \<not> transmit_me q"
      using evdns_transmit_nothing [of e ?s t] t(1) by auto
    let ?v = "v\<lparr>choked := False, write_waiting := False\<rparr>"
    let ?u = "s\<lparr>nameservers := (nameservers s)(n \<mapsto> ?v)\<rparr>"
    have "net {} ?u" using net_stop_writing [OF N1 _ _ tt(2), of n "v\<lparr>choked := False\<rparr>"] by simp
    moreover have "quiet s ?u" by (rule quiet_upd_ns [OF v]) (auto simp: server_step_def)
    ultimately have "served s ?u" using served_quiet [OF _ _ s] by blast
    then show ?thesis using False by (simp add: nameserver_write_waiting_def upd_ns_def tt(1))
  qed
  have read: "returns (if readable then nameserver_read e n rs t else Some t) (served s)" if st: "served s t" for t
  proof -
    have "returns (nameserver_read e n rs t) (served t)"
      by (rule nameserver_read_ok [OF _ _ e(1) served_room [OF st e(2)] e(3) rs]) (use st n in \<open>simp_all add: served_def\<close>)
    then show ?thesis using st served_trans [OF st] by (auto elim!: returns_mono)
  qed
  show ?thesis
  proof (cases writable)
    case True
    obtain u where u: "(if tried then Some t else nameserver_write_waiting n False t) = Some u" "served s u" using written by (auto simp: returns_def)
    have "nameserver_ready_callback e n writable readable rs s = (if readable then nameserver_read e n rs u else Some u)"
      using True v t(1) u(1) by (simp add: nameserver_ready_callback_def upd_ns_def)
    then show ?thesis using read [OF u(2)] by simp
  next
    case False
    then show ?thesis using read [OF served_refl [OF s]] by (simp add: nameserver_ready_callback_def)
  qed
qed

section \<open>Deferred callbacks\<close>

lemma sum_list_Cons_mset: "(\<Sum>d \<leftarrow> x # xs. f d) = f x + (\<Sum>d \<leftarrow> xs. (f d :: nat multiset))"
  by simp

text \<open>The first callback leaves the queue; it may have been the end of a probe of \<open>n\<close>.\<close>

lemma inv_pop:
  assumes s: "dns_inv X {} {} s" and d: "deferreds s = d # ds"
    and M: "\<And>n. d_callback d = Probe n \<Longrightarrow> d_err d \<noteq> DNS_ERR_CANCEL \<Longrightarrow> n \<in> M"
  shows "dns_inv X M {} (s\<lparr>deferreds := ds\<rparr>)" "ledger {} (s\<lparr>deferreds := ds\<rparr>) + tag_of (d_callback d) = ledger {} s"
proof -
  let ?t = "s\<lparr>deferreds := ds\<rparr>"
  have O: "held {} s" "fresh s" "search_ok s" "probes_ok {} {} s" "lively {} {} s" "net X s" using s by (auto simp: dns_inv_def objs_def)
  have l: "listed ?t = listed s" by (simp add: listed_def)
  have "request_held {} ?t = request_held {} s" "deferred_held {} ?t = deferred_held {} s"
    by (auto simp: request_held_def deferred_held_def cb_ok_def intro!: ext)
  then have "held {} ?t" using O(1) d by (simp add: held_def l)
  moreover have "fresh ?t" "search_ok ?t" using O(2,3) handle_search_cong [of ?t s] by (simp_all add: fresh_def search_ok_def searchers_def)
  moreover have pr: "probing {} ?t n b" if "probing {} s n b" "n \<notin> M" for n b
    using that M [of n] d by (auto simp: probing_def l)
  moreover have "probes_ok M {} ?t" using O(4) pr unfolding probes_ok_def by simp
  moreover have "lively M {} ?t" using O(5) pr unfolding lively_def by (auto, blast)
  moreover have "net X ?t = net X s" by (rule net_cong) simp_all
  ultimately show "dns_inv X M {} ?t" using O(6) by (simp add: dns_inv_def objs_def)
  have "req_tag ?t = req_tag s" by (auto simp: req_tag_def intro!: ext)
  then show "ledger {} ?t + tag_of (d_callback d) = ledger {} s" by (simp add: ledger_def l d ac_simps)
qed

lemma inv_delivered: "dns_inv X M K (s\<lparr>delivered := l\<rparr>) = dns_inv X M K s"
proof -
  have "objs M K (s\<lparr>delivered := l\<rparr>) = objs M K s" by (rule objs_cong) (simp_all add: listed_def inflight_def)
  moreover have "net X (s\<lparr>delivered := l\<rparr>) = net X s" by (rule net_cong) simp_all
  ultimately show ?thesis by (simp add: dns_inv_def)
qed

lemma probe_failed_ok:
  assumes s: "dns_inv {} {n} K s" and n: "n \<in> set (server_ring s)" and v: "nameservers s n = Some v" "probe_request v = None"
  shows "returns (nameserver_probe_failed n s) (\<lambda>u. dns_inv {} {} K u \<and> ledger K u = ledger K s \<and> keeps {} s u \<and> handles u = handles s \<and> deferreds u = deferreds s \<and> serial u = serial s)"
proof -
  have w: "choked v \<longrightarrow> write_waiting v" using net_server [of "{}" s n] s n v(1) by (auto simp: dns_inv_def)
  define v' where "v' = (if ns_state v then v\<lparr>ns_timer := None\<rparr>
      else v\<lparr>ns_timer := Some (probe_timeout (failed_times v) (probe_initial_timeout s)), failed_times := failed_times v + 1\<rparr>)"
  let ?s = "s\<lparr>nameservers := (nameservers s)(n \<mapsto> v')\<rparr>"
  have same: "choked v' = choked v" "write_waiting v' = write_waiting v" "ns_state v' = ns_state v" by (simp_all add: v'_def)
  have "dns_inv {} {n} K ?s" by (rule inv_ns [OF s _ v(1)]) (use w in \<open>simp_all add: same\<close>)
  then have "dns_inv {} {} K ?s" by (rule unexempt [where v = v']) (use v(2) in \<open>auto simp: v'_def\<close>)
  moreover have "nameserver_probe_failed n s = Some ?s"
    using v(1) by (simp add: nameserver_probe_failed_def upd_ns_def v'_def)
  ultimately show ?thesis using ns_update(2,4) [OF v(1)] by simp
qed

lemma nameserver_up_plain:
  assumes s: "dns_inv {} {n} K s" and n: "n \<in> set (server_ring s)" and v: "nameservers s n = Some v" "probe_request v = None"
    and e: "fair_random e" "room s" "\<And>k. env_alloc e k"
  shows "returns (nameserver_up e n s) (\<lambda>u. dns_inv {} {} K u \<and> ledger K u = ledger K s \<and> keeps {} s u \<and> handles u = handles s \<and> deferreds u = deferreds s \<and> serial u = serial s)"
proof -
  have "returns (nameserver_up e n s) (\<lambda>u. dns_inv {} {} K u \<and> ledger K u = ledger K s \<and> keeps (probes_of s n) s u)"
    by (rule nameserver_up_ok [OF s n e]) (use v in simp)
  moreover have "probes_of s n = {}" using v by (simp add: probes_of_def)
  moreover have "\<exists>u. nameserver_up e n s = Some u \<and> handles u = handles s \<and> deferreds u = deferreds s \<and> serial u = serial s"
    using v by (simp add: nameserver_up_def upd_ns_def)
  ultimately show ?thesis by (auto simp: returns_def)
qed

lemma probe_callback_ok:
  assumes s: "dns_inv {} (if result = DNS_ERR_CANCEL then {} else {n}) K s" and n: "n \<in> set (server_ring s)"
    and e: "fair_random e" "room s" "\<And>k. env_alloc e k"
  shows "returns (nameserver_probe_callback e result n s)
           (\<lambda>u. dns_inv {} {} K u \<and> ledger K u = ledger K s \<and> keeps {} s u \<and> handles u = handles s \<and> deferreds u = deferreds s \<and> serial u = serial s)"
proof (cases "result = DNS_ERR_CANCEL")
  case True
  then show ?thesis using s by (simp add: nameserver_probe_callback_def)
next
  case False
  then have s: "dns_inv {} {n} K s" using s by simp
  obtain v where v: "nameservers s n = Some v" "choked v \<longrightarrow> write_waiting v" using net_server [of "{}" s n] s n by (auto simp: dns_inv_def)
  let ?s = "s\<lparr>nameservers := (nameservers s)(n \<mapsto> v\<lparr>probe_request := None\<rparr>)\<rparr>"
  have s1: "dns_inv {} {n} K ?s" by (rule inv_ns [OF s _ v(1)]) (use v(2) in auto)
  have k: "keeps R s ?s" for R by (rule ns_update [OF v(1)])
  have "returns (if result = DNS_ERR_NONE \<or> result = DNS_ERR_NOTEXIST then nameserver_up e n ?s else nameserver_probe_failed n ?s)
     (\<lambda>u. dns_inv {} {} K u \<and> ledger K u = ledger K ?s \<and> keeps {} ?s u \<and> handles u = handles ?s \<and> deferreds u = deferreds ?s \<and> serial u = serial ?s)"
    using nameserver_up_plain [OF s1, of "v\<lparr>probe_request := None\<rparr>" e] probe_failed_ok [OF s1, of "v\<lparr>probe_request := None\<rparr>"]
      n e keeps_room [OF k e(2)] by simp
  then show ?thesis
    using False v(1) ns_update(2) [OF v(1)] keeps_trans [OF k [of "{}"]]
    by (auto simp: nameserver_probe_callback_def upd_ns_def elim!: returns_mono)
qed

lemma reply_run_callback_ok:
  assumes s: "dns_inv {} {} {} s" and ne: "deferreds s \<noteq> []" and e: "fair_random e" "room s" "\<And>k. env_alloc e k"
  shows "returns (reply_run_callback e s) (served s)"
proof -
  obtain d ds where d: "deferreds s = d # ds" using ne by (cases "deferreds s") auto
  have O: "held {} s" "fresh s" "search_ok s" using s by (auto simp: dns_inv_def objs_def)
  have "deferred_held {} s d" using O(1) d by (simp add: held_def)
  then obtain h hn where h: "d_handle d = Some h" "handles s h = Some hn" "pending_cb hn" "current_req hn = None" "search_state hn = None"
      "type_ok (d_type d)" "cb_ok s (d_callback d)"
    by (auto simp: deferred_held_def)
  define result where "result = (if d_reply d \<noteq> None then DNS_ERR_NONE else d_err d)"
  let ?s = "s\<lparr>deferreds := ds\<rparr>"
  let ?call = "case d_callback d of
                 User tag \<Rightarrow> Some (?s\<lparr>delivered := delivered ?s @ [\<lparr>res_tag = tag, res_err = result, res_type = d_type d,
                                   res_ttl = d_ttl d, res_reply = d_reply d\<rparr>]\<rparr>)
               | Probe n \<Rightarrow> nameserver_probe_callback e result n ?s"
  have called: "returns ?call (\<lambda>u. dns_inv {} {} {} u \<and> ledger {} u = ledger {} s \<and> keeps {} s u \<and> handles u = handles s \<and> deferreds u = ds \<and> serial u = serial s)"
  proof (cases "d_callback d")
    case (User tag)
    have p: "dns_inv {} {} {} ?s" "ledger {} ?s + {#tag#} = ledger {} s" using inv_pop [OF s d, of "{}"] User by auto
    let ?u = "?s\<lparr>delivered := delivered ?s @ [\<lparr>res_tag = tag, res_err = result, res_type = d_type d, res_ttl = d_ttl d, res_reply = d_reply d\<rparr>]\<rparr>"
    have "dns_inv {} {} {} ?u" unfolding inv_delivered by (rule p(1))
    moreover have l: "listed ?u = listed s" "inflight ?u = inflight s" by (simp_all add: listed_def inflight_def)
    moreover have "ledger {} ?u = ledger {} ?s + {#tag#}"
    proof -
      have "req_tag ?u = req_tag ?s" by (auto simp: req_tag_def intro!: ext)
      then show ?thesis by (simp add: ledger_def l(1) ac_simps) (simp add: listed_def inflight_def)
    qed
    moreover have "keeps {} s ?u" using l by (simp add: keeps_def)
    ultimately show ?thesis using User p(2) by simp
  next
    case (Probe n)
    have n: "n \<in> set (server_ring s)" using h(7) Probe by (simp add: cb_ok_def)
    have p: "dns_inv {} (if result = DNS_ERR_CANCEL then {} else {n}) {} ?s" "ledger {} ?s = ledger {} s"
      using inv_pop [OF s d, of "if result = DNS_ERR_CANCEL then {} else {n}"] Probe by (auto simp: result_def split: if_splits)
    have k: "keeps {} s ?s" by (simp add: keeps_def listed_def)
    have "returns (nameserver_probe_callback e result n ?s)
       (\<lambda>u. dns_inv {} {} {} u \<and> ledger {} u = ledger {} ?s \<and> keeps {} ?s u \<and> handles u = handles ?s \<and> deferreds u = deferreds ?s \<and> serial u = serial ?s)"
      by (rule probe_callback_ok [OF p(1) _ e(1) keeps_room [OF k e(2)] e(3)]) (use n in simp)
    then show ?thesis using Probe p(2) keeps_trans [OF k] by (auto elim!: returns_mono)
  qed
  then obtain u where u: "?call = Some u" "dns_inv {} {} {} u" "ledger {} u = ledger {} s" "keeps {} s u" "handles u = handles s" "deferreds u = ds" "serial u = serial s"
    by (auto simp: returns_def)
  let ?u = "u\<lparr>handles := (handles u)(h := None)\<rparr>"
  have "h < serial s" using O(2) h(2) by (metis fresh_def not_less option.distinct(1))
  then have hs: "h < serial u" using u(7) by simp
  have uo: "req_handle q \<noteq> Some h" if "r \<in> listed u" "requests u r = Some q" for r q
  proof
    assume "req_handle q = Some h"
    then have "\<not> pending_cb hn" using held_handle [OF u(2) that(1)] that(2) h(2) u(5) by (metis empty_iff option.inject)
    then show False using h(3) by simp
  qed
  have ud: "d_handle x \<noteq> Some h" if "x \<in> set (deferreds u)" for x
  proof
    assume "d_handle x = Some h"
    then have "d_handle d \<in> d_handle ` set ds" using that u(6) h(1) by force
    then show False using O(1) d by (simp add: held_def)
  qed
  have Ou: "search_ok u" "fresh u" using u(2) by (simp_all add: dns_inv_def objs_def)
  have search: "search_ok ?u"
    by (rule search_ok_plain [OF Ou(1), of h None]) (use h u(5) in simp_all)
  have "searches u y = None" if "serial u \<le> y" for y using Ou(2) that by (simp add: fresh_def)
  note x = inv_unowned [OF u(2) hs uo ud this _ search]
  have "dns_inv {} {} {} ?u" "ledger {} ?u = ledger {} u" "listed ?u = listed u" by (rule x, assumption+, simp)+
  then have "served s ?u"
    using u(3,4) card_mono [of "listed s" "listed u"] by (simp add: served_def keeps_def)
  moreover have "reply_run_callback e s = Some ?u"
  proof -
    have "assert_that (d_type d = TYPE_A \<or> d_type d = TYPE_PTR \<or> d_type d = TYPE_AAAA) = Some ()" using h(6) by (simp add: assert_that_def type_ok_def)
    then have "reply_run_callback e s = Option.bind ?call (\<lambda>u. do { hn \<leftarrow> handles u h; Some (if pending_cb hn then u\<lparr>handles := (handles u)(h := None)\<rparr> else u) })"
      using h(1-3) by (cases "d_callback d"; cases "d_reply d") (simp_all add: reply_run_callback_def d result_def Let_def)
    then show ?thesis unfolding u(1) using h(2,3) u(5) by simp
  qed
  ultimately show ?thesis by simp
qed

end
