(* ===== verification/EvdnsConfig.thy ===== *)
theory EvdnsConfig
  imports EvdnsHandlers
begin

text \<open>
  The calls that configure a base, each keeping the invariant: servers, search domains, the limit of
  requests in flight; and a new base.
\<close>

section \<open>Search domains\<close>

lemma inv_globals:
  assumes s: "dns_inv X M K s" and k: "serial s \<le> k" and S: "\<And>y. k \<le> y \<Longrightarrow> S y = None"
    and t: "t = s\<lparr>serial := k, searches := S, global_search_state := g\<rparr>" and search: "search_ok t"
  shows "dns_inv X M K t" "ledger K t = ledger K s" "server_ring t = server_ring s" "listed t = listed s"
proof -
  have l: "listed t = listed s" by (simp add: t listed_def inflight_def)
  have "request_held K t = request_held K s" "deferred_held K t = deferred_held K s"
    by (auto simp: t request_held_def deferred_held_def cb_ok_def intro!: ext)
  then have "held K t = held K s" by (simp add: held_def l) (simp add: t)
  moreover have "fresh s \<Longrightarrow> fresh t" using k S by (auto simp: t fresh_def)
  moreover have "probing K t = probing K s" by (auto simp: probing_def l intro!: ext) (auto simp: t)
  then have "probes_ok M K t = probes_ok M K s" "lively M K t = lively M K s" by (simp_all add: probes_ok_def lively_def) (simp_all add: t)
  moreover have "net X t = net X s" by (rule net_cong) (simp_all add: t)
  ultimately show "dns_inv X M K t" using s search by (simp add: dns_inv_def objs_def)
  show "ledger K t = ledger K s" by (rule ledger_cong) (simp_all add: l, simp_all add: t)
  show "server_ring t = server_ring s" "listed t = listed s" using l by (simp_all add: t)
qed

lemma search_ok_list:
  assumes s: "search_ok s" and l: "searches s i = Some l" "refcount l' = refcount l" "num_domains l' = int (length (domains l'))"
    and t: "handles t = handles s" "searches t = (searches s)(i \<mapsto> l')" "global_search_state t = global_search_state s"
  shows "search_ok t"
proof -
  have "searchers t j = searchers s j" for j by (simp add: searchers_def t)
  moreover have "handle_search_ok t hn" if "handle_search_ok s hn" for hn
    using that t(2) by (auto simp: handle_search_ok_def split: option.splits)
  ultimately show ?thesis using s l t unfolding search_ok_def by (auto split: if_splits)
qed

text \<open>The first list, or a new one when the old one was given up.\<close>

lemma search_new_ok:
  assumes s: "dns_inv X M K s" and e: "\<And>k. env_alloc e k" and S: "\<And>y. serial s \<le> y \<Longrightarrow> S y = None"
    and old: "\<And>t. handles t = handles s \<Longrightarrow> searches t = S \<Longrightarrow> global_search_state t = None \<Longrightarrow> search_ok t"
  shows "\<exists>t. search_state_new e (s\<lparr>searches := S\<rparr>) = t \<and> dns_inv X M K t \<and> ledger K t = ledger K s \<and> server_ring t = server_ring s \<and> listed t = listed s \<and>
    global_search_state t = Some (serial s) \<and> searches t = S(serial s \<mapsto> \<lparr>refcount = 1, ndots = 1, num_domains = 0, domains = []\<rparr>)"
proof -
  let ?l = "\<lparr>refcount = 1, ndots = 1, num_domains = 0, domains = []\<rparr>"
  define t where "t = s\<lparr>serial := serial s + 1, searches := S(serial s \<mapsto> ?l), global_search_state := Some (serial s)\<rparr>"
  let ?o = "s\<lparr>searches := S, global_search_state := None\<rparr>"
  have o: "search_ok ?o" by (rule old) simp_all
  have none: "S (serial s) = None" using S by simp
  have "searchers ?o (serial s) = {}"
  proof (rule ccontr)
    assume "searchers ?o (serial s) \<noteq> {}"
    then obtain h hn where "handles s h = Some hn" "search_state hn = Some (serial s)" by (auto simp: searchers_def)
    then have "handle_search_ok ?o hn" using o by (auto simp: search_ok_def)
    then show False using \<open>search_state hn = _\<close> none by (simp add: handle_search_ok_def)
  qed
  moreover have st: "searchers t j = searchers ?o j" for j by (simp add: searchers_def t_def)
  moreover have "handle_search_ok t hn" if "handle_search_ok ?o hn" for hn
    using that by (auto simp: handle_search_ok_def t_def split: option.splits)
  moreover have "k = serial s \<and> l = ?l \<or> k \<noteq> serial s \<and> S k = Some l" if "searches t k = Some l" for k l
    using that by (auto simp: t_def split: if_splits)
  ultimately have "search_ok t" using o unfolding search_ok_def st by (fastforce simp: t_def)
  moreover have "(S(serial s \<mapsto> ?l)) y = None" if "serial s + 1 \<le> y" for y using S that by simp
  ultimately have "dns_inv X M K t" "ledger K t = ledger K s" "server_ring t = server_ring s" "listed t = listed s"
    using inv_globals [OF s, of "serial s + 1" "S(serial s \<mapsto> ?l)" t "Some (serial s)"] by (simp_all add: t_def)
  moreover have "search_state_new e (s\<lparr>searches := S\<rparr>) = t" using e by (simp add: search_state_new_def allocate_def t_def)
  ultimately show ?thesis by (simp add: t_def)
qed

lemma global_dropped:
  assumes s: "search_ok s" "fresh s"
  obtains S where "search_state_decref (global_search_state s) s = Some (s\<lparr>searches := S\<rparr>)" "\<And>x. searches s x = None \<Longrightarrow> S x = None"
    "\<And>t. handles t = handles s \<Longrightarrow> searches t = S \<Longrightarrow> global_search_state t = None \<Longrightarrow> search_ok t"
proof (cases "global_search_state s")
  case None
  have "search_ok t" if "handles t = handles s" "searches t = searches s" "global_search_state t = None" for t
    using s(1) None that handle_search_cong [OF that(2)] by (simp add: search_ok_def searchers_def)
  then show ?thesis using that [of "searches s"] None by (simp add: search_state_decref_def)
next
  case (Some i)
  obtain l where l: "searches s i = Some l" using s(1) Some by (auto simp: search_ok_def)
  have ref: "refcount l = 1 + int (card (searchers s i))" "num_domains l = int (length (domains l))"
    using s(1) l Some by (auto simp: search_ok_def)
  define S where "S = (if refcount l - 1 = 0 then (searches s)(i := None) else (searches s)(i \<mapsto> l\<lparr>refcount := refcount l - 1\<rparr>))"
  have "search_ok t" if t: "handles t = handles s" "searches t = S" "global_search_state t = None" for t
  proof -
    have st: "searchers t j = searchers s j" for j by (simp add: searchers_def t)
    have "handle_search_ok t hn" if h: "handles s h = Some hn" for h hn
    proof -
      have ok: "handle_search_ok s hn" using s(1) h by (auto simp: search_ok_def)
      have "S j \<noteq> None" if j: "search_state hn = Some j" for j
      proof -
        have "h \<in> searchers s j" using h j by (simp add: searchers_def)
        moreover have "refcount l - 1 = 0 \<Longrightarrow> searchers s i = {}" using ref(1) finite_searchers [OF s(2), of i] by simp
        ultimately show ?thesis using ok j by (auto simp: S_def handle_search_ok_def)
      qed
      then show ?thesis using ok t(2) by (auto simp: handle_search_ok_def split: option.splits)
    qed
    moreover have "num_domains k = int (length (domains k)) \<and> refcount k = int (card (searchers s j))" if "S j = Some k" for j k
      using that s(1) ref Some by (cases "j = i") (auto simp: S_def search_ok_def split: if_splits)
    ultimately show ?thesis unfolding search_ok_def st by (simp add: t)
  qed
  moreover have "search_state_decref (global_search_state s) s = Some (s\<lparr>searches := S\<rparr>)"
    using Some l by (simp add: search_state_decref_def upd_search_def S_def)
  moreover have "searches s x = None \<Longrightarrow> S x = None" for x using l by (auto simp: S_def)
  ultimately show ?thesis using that by blast
qed

lemma search_clear_ok:
  assumes s: "dns_inv {} {} {} s" and e: "\<And>k. env_alloc e k"
  shows "returns (evdns_base_search_clear e s) (served s)"
proof -
  have O: "search_ok s" "fresh s" using s by (simp_all add: dns_inv_def objs_def)
  obtain S where S: "search_state_decref (global_search_state s) s = Some (s\<lparr>searches := S\<rparr>)" "\<And>x. searches s x = None \<Longrightarrow> S x = None"
    "\<And>t. handles t = handles s \<Longrightarrow> searches t = S \<Longrightarrow> global_search_state t = None \<Longrightarrow> search_ok t"
    by (rule global_dropped [OF O]) blast
  have "S y = None" if "serial s \<le> y" for y using S(2) O(2) that by (simp add: fresh_def)
  then have "\<exists>t. search_state_new e (s\<lparr>searches := S\<rparr>) = t \<and> dns_inv {} {} {} t \<and> ledger {} t = ledger {} s \<and> server_ring t = server_ring s \<and> listed t = listed s"
    using search_new_ok [OF s e, of S] S(3) by blast
  then obtain t where t: "search_state_new e (s\<lparr>searches := S\<rparr>) = t" "dns_inv {} {} {} t" "ledger {} t = ledger {} s" "server_ring t = server_ring s" "listed t = listed s"
    by metis
  have "evdns_base_search_clear e s = Some t" unfolding evdns_base_search_clear_def S(1) by (simp add: t(1))
  then show ?thesis using t(2-5) by (simp add: served_def)
qed

lemma first_list_ok:
  assumes s: "dns_inv {} {} {} s" and e: "\<And>k. env_alloc e k"
  shows "\<exists>t i l. (if global_search_state s = None then search_state_new e s else s) = t \<and> dns_inv {} {} {} t \<and> served s t \<and>
           global_search_state t = Some i \<and> searches t i = Some l \<and> num_domains l = int (length (domains l))"
proof (cases "global_search_state s")
  case None
  have O: "search_ok s" "fresh s" using s by (simp_all add: dns_inv_def objs_def)
  have "searches s y = None" if "serial s \<le> y" for y using O(2) that by (simp add: fresh_def)
  moreover have "search_ok t" if "handles t = handles s" "searches t = searches s" "global_search_state t = None" for t
    using O(1) None that handle_search_cong [OF that(2)] by (simp add: search_ok_def searchers_def)
  ultimately show ?thesis using search_new_ok [OF s e, of "searches s"] None by (auto simp: served_def)
next
  case (Some i)
  have "search_ok s" using s by (simp add: dns_inv_def objs_def)
  then obtain l where "searches s i = Some l" "num_domains l = int (length (domains l))" using Some by (fastforce simp: search_ok_def)
  then show ?thesis using Some s served_refl by auto
qed

lemma list_changed:
  assumes s: "dns_inv {} {} {} s" and i: "searches s i = Some l" and l': "refcount l' = refcount l" "num_domains l' = int (length (domains l'))"
    and k: "serial s \<le> k"
  shows "served s (s\<lparr>serial := k, searches := (searches s)(i \<mapsto> l')\<rparr>)"
proof -
  let ?t = "s\<lparr>serial := k, searches := (searches s)(i \<mapsto> l')\<rparr>"
  have O: "search_ok s" "fresh s" using s by (simp_all add: dns_inv_def objs_def)
  have search: "search_ok ?t" by (rule search_ok_list [OF O(1) i l']) simp_all
  have "i < serial s" using O(2) i by (metis fresh_def not_less option.distinct(1))
  then have "((searches s)(i \<mapsto> l')) y = None" if "k \<le> y" for y using O(2) k that by (simp add: fresh_def)
  moreover have "?t = s\<lparr>serial := k, searches := (searches s)(i \<mapsto> l'), global_search_state := global_search_state s\<rparr>" by simp
  ultimately have "dns_inv {} {} {} ?t" by (rule inv_globals(1) [OF s k _ _ search])
  moreover have "listed ?t = listed s" by (simp add: listed_def inflight_def)
  moreover from this have "ledger {} ?t = ledger {} s" by (intro ledger_cong) simp_all
  ultimately show ?thesis by (simp add: served_def)
qed

lemma search_add_ok:
  assumes s: "dns_inv {} {} {} s" and e: "\<And>k. env_alloc e k"
  shows "returns (evdns_base_search_add e domain s) (served s)"
proof -
  obtain t i l where t: "(if global_search_state s = None then search_state_new e s else s) = t" "dns_inv {} {} {} t" "served s t"
      "global_search_state t = Some i" "searches t i = Some l" "num_domains l = int (length (domains l))"
    using first_list_ok [OF s e] by blast
  let ?l = "l\<lparr>num_domains := num_domains l + 1, domains := dropWhile (\<lambda>c. c = 46) domain # domains l\<rparr>"
  have "served t (t\<lparr>serial := serial t + 1, searches := (searches t)(i \<mapsto> ?l)\<rparr>)" by (rule list_changed [OF t(2,5)]) (simp_all add: t(6))
  moreover have "evdns_base_search_add e domain s = Some (t\<lparr>serial := serial t + 1, searches := (searches t)(i \<mapsto> ?l)\<rparr>)"
  proof -
    have sw: "t\<lparr>searches := x, serial := y\<rparr> = t\<lparr>serial := y, searches := x\<rparr>" for x y by simp
    show ?thesis unfolding evdns_base_search_add_def Let_def t(1) using t(4,5) e by (simp add: upd_search_def allocate_def sw)
  qed
  ultimately show ?thesis using served_trans [OF t(3)] by simp
qed

lemma search_ndots_ok:
  assumes s: "dns_inv {} {} {} s" and e: "\<And>k. env_alloc e k"
  shows "returns (evdns_base_search_ndots_set e n s) (served s)"
proof -
  obtain t i l where t: "(if global_search_state s = None then search_state_new e s else s) = t" "dns_inv {} {} {} t" "served s t"
      "global_search_state t = Some i" "searches t i = Some l" "num_domains l = int (length (domains l))"
    using first_list_ok [OF s e] by blast
  have "served t (t\<lparr>serial := serial t, searches := (searches t)(i \<mapsto> l\<lparr>ndots := n\<rparr>)\<rparr>)" by (rule list_changed [OF t(2,5)]) (simp_all add: t(6))
  then have "served s (t\<lparr>searches := (searches t)(i \<mapsto> l\<lparr>ndots := n\<rparr>)\<rparr>)" using served_trans [OF t(3)] by simp
  then show ?thesis unfolding evdns_base_search_ndots_set_def Let_def t(1) using t(4,5) by (simp add: upd_search_def)
qed

lemma search_reverse_ok:
  assumes s: "dns_inv {} {} {} s" and g: "global_search_state s \<noteq> None"
  shows "returns (search_reverse s) (served s)"
proof -
  obtain i where i: "global_search_state s = Some i" using g by auto
  have "search_ok s" using s by (simp add: dns_inv_def objs_def)
  then obtain l where l: "searches s i = Some l" "num_domains l = int (length (domains l))" using i by (fastforce simp: search_ok_def)
  have "served s (s\<lparr>serial := serial s, searches := (searches s)(i \<mapsto> l\<lparr>domains := rev (domains l)\<rparr>)\<rparr>)" by (rule list_changed [OF s l(1)]) (simp_all add: l(2))
  then show ?thesis using i l(1) by (simp add: search_reverse_def upd_search_def)
qed

section \<open>Servers and limits\<close>

lemma known_total: "\<forall>n \<in> set ns. nameservers s n \<noteq> None \<Longrightarrow> known_server s a ns \<noteq> None"
  by (induction ns) auto

lemma add_server_ok:
  assumes s: "dns_inv {} {} {} s" and e: "\<And>k. env_alloc e k"
  shows "returns (evdns_nameserver_add_impl e can_open can_bind a s) (\<lambda>(c, t). dns_inv {} {} {} t \<and> ledger {} t = ledger {} s)"
proof -
  have N: "net {} s" and O: "held {} s" "fresh s" "search_ok s" "probes_ok {} {} s" "lively {} {} s" using s by (auto simp: dns_inv_def objs_def)
  have ok: "\<forall>n \<in> set (server_ring s). server_ok s n" using netD(4) [OF N] by simp
  then obtain known where known: "known_server s a (server_ring s) = Some known"
    using known_total [of "server_ring s" s a] by (auto simp: server_ok_def)
  let ?s = "s\<lparr>serial := serial s + 1\<rparr>"
  have s1: "dns_inv {} {} {} ?s" "ledger {} ?s = ledger {} s" using inv_serial [OF s, of "serial s + 1" "randoms s"] by simp_all
  define n where "n = serial s"
  let ?v = "\<lparr>ns_address = a, failed_times = 0, timedout = 0, ns_timer = None, probe_request = None, ns_state = True, choked = False, write_waiting = False\<rparr>"
  let ?ring = "case server_ring s of [] \<Rightarrow> [n] | m # ms \<Rightarrow> m # n # ms"
  define t where "t = ?s\<lparr>nameservers := (nameservers s)(n \<mapsto> ?v), server_ring := ?ring, good_nameservers := good_nameservers s + 1\<rparr>"
  have none: "nameservers s n = None" using O(2) by (simp add: fresh_def n_def)
  have new: "n \<notin> set (server_ring s)" using ok none by (auto simp: server_ok_def)
  have m: "mset ?ring = add_mset n (mset (server_ring s))" by (cases "server_ring s") simp_all
  have set: "set (server_ring t) = insert n (set (server_ring s))" using arg_cong [OF m, of set_mset] by (simp add: t_def)
  have same: "listed t = listed s" "inflight t = inflight s" "valid_request t p = valid_request s p" for p
    by (simp_all add: t_def listed_def inflight_def valid_request_iff)
  have up: "ns_up t p = (p = n \<or> ns_up s p)" for p by (simp add: ns_up_def t_def)
  have "length (filter (ns_up t) ?ring) = Suc (length (filter (ns_up s) (server_ring s)))"
  proof -
    have "size (filter_mset (ns_up t) (mset ?ring)) = Suc (size (filter_mset (ns_up t) (mset (server_ring s))))" unfolding m by (simp add: up)
    moreover have "filter (ns_up t) (server_ring s) = filter (ns_up s) (server_ring s)" by (rule filter_cong) (use new up in auto)
    ultimately show ?thesis by (simp flip: size_mset mset_filter)
  qed
  moreover have "distinct ?ring" using distinct_add [of ?ring n "server_ring s"] m netD(3) [OF N] new by simp
  moreover have "someone_writes s \<Longrightarrow> someone_writes t"
    unfolding someone_writes_def set using new none by (fastforce simp: t_def)
  then have "flying {} s i p \<Longrightarrow> flying {} t i p" "resting s p \<Longrightarrow> resting t p" for i p
    unfolding flying_def resting_def same set by (auto simp: t_def)
  moreover have "\<forall>p \<in> set (server_ring t). server_ok t p" using ok new unfolding set by (auto simp: server_ok_def t_def)
  ultimately have net: "net {} t" using N unfolding net_def same by (simp add: t_def)
  have "held {} t" using O(1) unfolding held_def same by (auto simp: request_held_def deferred_held_def cb_ok_def set) (auto simp: t_def)
  moreover have "fresh t" using O(2) by (auto simp: fresh_def t_def n_def)
  moreover have "search_ok t" using O(3) handle_search_cong [of t s] by (simp add: search_ok_def searchers_def t_def)
  moreover have pr: "probing {} t = probing {} s" by (auto simp: probing_def same intro!: ext) (auto simp: t_def)
  have "probes_ok {} {} t" using O(4) new unfolding probes_ok_def pr set by (auto simp: t_def)
  moreover have "lively {} {} t" using O(5) new unfolding lively_def pr set by (auto simp: t_def)
  ultimately have "dns_inv {} {} {} t" using net by (simp add: dns_inv_def objs_def)
  moreover have "ledger {} t = ledger {} s" by (rule ledger_cong) (simp_all add: same, simp_all add: t_def)
  moreover have "evdns_nameserver_add_impl e can_open can_bind a s \<in> {Some (3, s), Some (1, ?s), Some (2, ?s), Some (0, t)}"
    using known e by (cases "server_ring s") (auto simp: evdns_nameserver_add_impl_def allocate_def t_def n_def)
  ultimately show ?thesis using s s1 by auto
qed

lemma rehash_each:
  assumes "\<forall>r \<in> set rs. valid_request s r" "length hs = n" "0 < n"
  shows "\<exists>hs'. each (rehash n) rs (s\<lparr>req_heads := hs\<rparr>) = Some (s\<lparr>req_heads := hs'\<rparr>) \<and> length hs' = n \<and> mset (concat hs') = mset (concat hs) + mset rs \<and>
     (\<forall>i < n. \<forall>r \<in> set (hs' ! i). r \<in> set (hs ! i) \<or> r \<in> set rs \<and> (\<exists>q. requests s r = Some q \<and> unat (trans_id q) mod n = i))"
  using assms
proof (induction rs arbitrary: hs)
  case (Cons r rs)
  obtain q where q: "requests s r = Some q" using Cons.prems(1) by (auto simp: valid_request_iff)
  let ?i = "unat (trans_id q) mod n"
  let ?hs = "hs[?i := hs ! ?i @ [r]]"
  have i: "?i < length hs" using Cons.prems(2,3) by simp
  obtain hs' where hs': "each (rehash n) rs (s\<lparr>req_heads := ?hs\<rparr>) = Some (s\<lparr>req_heads := hs'\<rparr>)" "length hs' = n" "mset (concat hs') = mset (concat ?hs) + mset rs"
      "\<forall>i < n. \<forall>r \<in> set (hs' ! i). r \<in> set (?hs ! i) \<or> r \<in> set rs \<and> (\<exists>q. requests s r = Some q \<and> unat (trans_id q) mod n = i)"
    using Cons.IH [of ?hs] Cons.prems by auto
  have "valid_request (s\<lparr>req_heads := hs\<rparr>) r" using Cons.prems(1) by (simp add: valid_request_iff)
  then have "rehash n r (s\<lparr>req_heads := hs\<rparr>) = Some (s\<lparr>req_heads := ?hs\<rparr>)" using q by (simp add: rehash_def assert_that_def Let_def)
  moreover have "mset (concat hs') = mset (concat hs) + mset (r # rs)" using hs'(3) mset_heads_update [OF i, of "[r]"] by simp
  moreover have "r' \<in> set (hs ! j) \<or> r' \<in> set (r # rs) \<and> (\<exists>q. requests s r' = Some q \<and> unat (trans_id q) mod n = j)"
    if "j < n" "r' \<in> set (hs' ! j)" for j r'
  proof -
    have "r' \<in> set (?hs ! j) \<or> r' \<in> set rs \<and> (\<exists>q. requests s r' = Some q \<and> unat (trans_id q) mod n = j)" using hs'(4) that by blast
    then show ?thesis using q i by (cases "j = ?i") (simp, blast, simp, blast)
  qed
  ultimately show ?case using hs'(1,2) by auto
qed auto

lemma set_max_ok:
  assumes s: "dns_inv {} {} {} s" and e: "\<And>k. env_alloc e k"
  shows "returns (evdns_base_set_max_requests_inflight e m s) (\<lambda>(c, t). served s t)"
proof -
  have N: "net {} s" using s by (simp add: dns_inv_def)
  define n where "n = nat ((max 1 m + 4) div 5)"
  have n: "0 < n" by (simp add: n_def)
  let ?s = "s\<lparr>serial := serial s + 1\<rparr>"
  have s1: "dns_inv {} {} {} ?s" "ledger {} ?s = ledger {} s" using inv_serial [OF s, of "serial s + 1" "randoms s"] by simp_all
  have N1: "net {} ?s" using s1(1) by (simp add: dns_inv_def)
  have val: "\<forall>r \<in> set (inflight s). valid_request ?s r"
    using net_listed_valid [OF N1] by (simp add: listed_def)
  obtain hs where hs: "each (rehash n) (inflight s) (?s\<lparr>req_heads := replicate n []\<rparr>) = Some (?s\<lparr>req_heads := hs\<rparr>)" "length hs = n" "mset (concat hs) = mset (inflight s)"
      "\<forall>i < n. \<forall>r \<in> set (hs ! i). r \<in> set (inflight s) \<and> (\<exists>q. requests s r = Some q \<and> unat (trans_id q) mod n = i)"
    using rehash_each [OF val, of "replicate n []" n] n by (auto simp: concat_replicate_trivial)
  define t where "t = ?s\<lparr>req_heads := hs, max_requests_inflight := max 1 m\<rparr>"
  have it: "inflight t = concat hs" by (simp add: inflight_def t_def)
  have set: "set (concat hs) = set (inflight s)" using hs(3) by (metis set_mset_mset)
  have fields: "requests t = requests s" "handles t = handles s" "nameservers t = nameservers s" "server_ring t = server_ring s"
      "req_waiting t = req_waiting s" "req_heads t = hs"
    by (simp_all add: t_def)
  have same: "listed t = listed s" "valid_request t p = valid_request s p" "someone_writes t = someone_writes s" "ns_up t = ns_up s" for p
  proof -
    note f = fields
    show "listed t = listed s" using set by (simp add: listed_def it f)
    show "valid_request t p = valid_request s p" "someone_writes t = someone_writes s" "ns_up t = ns_up s"
      by (auto simp: valid_request_iff someone_writes_def ns_up_def f intro!: ext)
  qed
  have net: "net {} t"
  proof (rule netI)
    show "req_heads t \<noteq> []" using hs(2) n by (auto simp: t_def)
    show "distinct (inflight t @ req_waiting t)" using netD(2) [OF N] hs(3) set mset_eq_imp_distinct_iff [OF hs(3)] by (simp add: it) (simp add: t_def)
    show "requests_inflight t = int (length (inflight t))" using netD(6) [OF N] mset_eq_length [OF hs(3)] by (simp add: it) (simp add: t_def)
    show "flying {} t i r" if "i < length (req_heads t)" "r \<in> set (req_heads t ! i)" for i r
    proof -
      have "i < n" "r \<in> set (hs ! i)" using that hs(2) by (simp_all add: t_def)
      then obtain q where q: "r \<in> set (inflight s)" "requests s r = Some q" "unat (trans_id q) mod n = i" using hs(4) by blast
      obtain i where "flying {} s i r" using net_inflight [OF N q(1)] by blast
      then show ?thesis using q hs(2) unfolding flying_def same fields by auto
    qed
    show "resting t r" if "r \<in> set (req_waiting t)" for r
      using netD(9) [OF N, of r] that unfolding resting_def same fields by simp
  qed (use netD [OF N] in \<open>simp_all add: same, simp_all add: t_def server_ok_def\<close>)
  have "objs {} {} t = objs {} {} ?s" by (rule objs_cong) (simp_all add: same, simp_all add: t_def)
  then have "dns_inv {} {} {} t" using net s1(1) by (simp add: dns_inv_def)
  moreover have "ledger {} t = ledger {} s" by (rule ledger_cong) (simp_all add: same, simp_all add: t_def)
  moreover have "evdns_base_set_max_requests_inflight e m s = Some (0, t)"
    using hs(1) e unfolding evdns_base_set_max_requests_inflight_def Let_def n_def [symmetric]
    by (simp add: allocate_def t_def inflight_def)
  ultimately show ?thesis using same(1) by (simp add: served_def) (simp add: t_def)
qed

definition first_base :: dns_base where
  "first_base = empty_base\<lparr>serial := 2, req_heads := replicate 13 [], max_requests_inflight := 64\<rparr>"

lemma first_base_inv: "dns_inv {} {} {} first_base" "ledger {} first_base = {#}" "server_ring first_base = []" "listed first_base = {}"
proof -
  have i: "inflight first_base = []" by (simp add: inflight_def first_base_def)
  have l: "listed first_base = {}" by (simp add: listed_def i) (simp add: first_base_def empty_base_def)
  have "net {} first_base"
    by (rule netI) (simp_all add: i, simp_all add: first_base_def empty_base_def)
  moreover have "objs {} {} first_base"
    by (simp add: objs_def held_def l fresh_def search_ok_def probes_ok_def lively_def) (simp add: first_base_def empty_base_def)
  ultimately show "dns_inv {} {} {} first_base" by (simp add: dns_inv_def)
  show "ledger {} first_base = {#}" by (simp add: ledger_def l) (simp add: first_base_def empty_base_def)
  show "server_ring first_base = []" by (simp add: first_base_def empty_base_def)
  show "listed first_base = {}" by (rule l)
qed

lemma base_new: "(\<And>k. env_alloc e k) \<Longrightarrow> evdns_base_new e = Some first_base"
  by (simp add: evdns_base_new_def allocate_def evdns_base_set_max_requests_inflight_def Let_def first_base_def)
    (simp add: empty_base_def)

end
