(* ===== verification/EvdnsRun.thy ===== *)
theory EvdnsRun
  imports EvdnsConfig
begin

text \<open>
  The resolver at work: what the program and the event loop may do to a base, one thing after another, and
  what then always holds. Three assumptions are made of what is outside: the allocator never fails,
  every transaction number comes up again, and a packet can be parsed within its bytes. The program does
  not ask for an empty name, and it cancels only what it was not answered yet; it does not clear the
  servers. The last section of \<open>EvdnsRunProps\<close> shows what clearing the servers may lead to.
\<close>

section \<open>Events\<close>

datatype dns_event =
    Resolve u16 bytes int nat
  | Resolve_reverse u32 nat
  | Resolve_reverse_ipv6 bytes nat
  | Cancel nat
  | Add_server bool bool sockaddr
  | Set_max int
  | Search_clear
  | Search_add bytes
  | Search_ndots int
  | Search_reverse
  | Resume
  | Request_timeout nat
  | Probe_timer nat
  | Socket_ready nat bool bool "recv list"
  | Run_callback

text \<open>What an event does; and the callbacks it makes the resolver owe.\<close>

definition asks :: "nat \<Rightarrow> (nat option \<times> dns_base) option \<Rightarrow> (nat multiset \<times> dns_base) option" where
  "asks tag m = map_option (\<lambda>(h, s). (if h = None then {#} else {#tag#}, s)) m"

fun happen :: "dns_env \<Rightarrow> dns_event \<Rightarrow> dns_base \<Rightarrow> (nat multiset \<times> dns_base) option" where
  "happen e (Resolve ty name flags tag) s = asks tag (evdns_base_resolve e ty name flags tag s)"
| "happen e (Resolve_reverse a tag) s = asks tag (evdns_base_resolve_reverse e a tag s)"
| "happen e (Resolve_reverse_ipv6 a tag) s = asks tag (evdns_base_resolve_reverse_ipv6 e a tag s)"
| "happen e (Cancel h) s = map_option (Pair {#}) (evdns_cancel_request e h s)"
| "happen e (Add_server op bi a) s = map_option (Pair {#} \<circ> snd) (evdns_nameserver_add_impl e op bi a s)"
| "happen e (Set_max m) s = map_option (Pair {#} \<circ> snd) (evdns_base_set_max_requests_inflight e m s)"
| "happen e Search_clear s = map_option (Pair {#}) (evdns_base_search_clear e s)"
| "happen e (Search_add d) s = map_option (Pair {#}) (evdns_base_search_add e d s)"
| "happen e (Search_ndots n) s = map_option (Pair {#}) (evdns_base_search_ndots_set e n s)"
| "happen e Search_reverse s = map_option (Pair {#}) (search_reverse s)"
| "happen e Resume s = map_option (Pair {#}) (evdns_base_resume e s)"
| "happen e (Request_timeout r) s = map_option (Pair {#}) (evdns_request_timeout_callback e r s)"
| "happen e (Probe_timer n) s = map_option (Pair {#}) (nameserver_prod_callback e n s)"
| "happen e (Socket_ready n w rd rs) s = map_option (Pair {#}) (nameserver_ready_callback e n w rd rs s)"
| "happen e Run_callback s = map_option (Pair {#}) (reply_run_callback e s)"

text \<open>A user's request that was not answered yet, with its handle.\<close>

definition waits_for :: "dns_base \<Rightarrow> nat \<Rightarrow> bool" where
  "waits_for s h \<longleftrightarrow> (\<exists>r \<in> listed s. \<exists>q tag. requests s r = Some q \<and> req_handle q = Some h \<and> user_callback q = User tag) \<or>
     (\<exists>d \<in> set (deferreds s). \<exists>tag. d_handle d = Some h \<and> d_callback d = User tag)"

fun may_happen :: "dns_base \<Rightarrow> dns_event \<Rightarrow> bool" where
  "may_happen s (Resolve ty name flags tag) \<longleftrightarrow> (ty = TYPE_A \<or> ty = TYPE_AAAA) \<and> name \<noteq> []"
| "may_happen s (Cancel h) \<longleftrightarrow> waits_for s h"
| "may_happen s Search_reverse \<longleftrightarrow> global_search_state s \<noteq> None"
| "may_happen s (Request_timeout r) \<longleftrightarrow> r \<in> set (inflight s) \<and> (\<exists>q. requests s r = Some q \<and> req_timer q)"
| "may_happen s (Probe_timer n) \<longleftrightarrow> n \<in> set (server_ring s) \<and> (\<exists>v. nameservers s n = Some v \<and> ns_timer v \<noteq> None)"
| "may_happen s (Socket_ready n w rd rs) \<longleftrightarrow> n \<in> set (server_ring s) \<and> (\<forall>a p k. Packet a p k \<in> set rs \<longrightarrow> safe_packet p k)"
| "may_happen s Run_callback \<longleftrightarrow> deferreds s \<noteq> []"
| "may_happen s _ \<longleftrightarrow> True"

definition good_env :: "dns_env \<Rightarrow> bool" where
  "good_env e \<longleftrightarrow> (\<forall>k. env_alloc e k) \<and> fair_random e"

inductive reachable :: "dns_env \<Rightarrow> nat multiset \<Rightarrow> dns_base \<Rightarrow> bool" for e where
  start: "evdns_base_new e = Some s \<Longrightarrow> reachable e {#} s"
| event: "reachable e owed s \<Longrightarrow> room s \<Longrightarrow> may_happen s ev \<Longrightarrow> happen e ev s = Some (tags, t) \<Longrightarrow> reachable e (owed + tags) t"

section \<open>Every event keeps the invariant\<close>

lemma resolve_ok:
  assumes s: "dns_inv {} {} {} s" and e: "fair_random e" "room s" "\<And>k. env_alloc e k" and ty: "ty = TYPE_A \<or> ty = TYPE_AAAA" "name \<noteq> []"
  shows "returns (evdns_base_resolve e ty name flags tag s) (\<lambda>(p, u). dns_inv {} {} {} u \<and> ledger {} u = ledger {} s + (if p = None then {#} else {#tag#}))"
  unfolding evdns_base_resolve_def
proof (rule with_handle_ok [OF s e(3)])
  fix h t
  assume t: "dns_inv {} {} {} t" "free_handle t h" "handles t h = Some new_handle" "listed t = listed s" "server_ring t = server_ring s"
  have "room t" using e(2) t(4) by (simp add: room_def)
  then show "returns ((if odd flags then ask_once e ty name tag h else search_request_new e h ty name flags (User tag)) t)
      (\<lambda>u. dns_inv {} {} {} u \<and> asked_for {} {#tag#} h t u)"
    using ask_once_ok [OF t(1) e(1) _ e(3) t(2,3)] search_request_new_ok [OF t(1) e(1) _ e(3) t(2,3) ty] ty by (auto simp: type_ok_def)
qed

lemma resolve_reverse_ok:
  assumes s: "dns_inv {} {} {} s" and e: "fair_random e" "room s" "\<And>k. env_alloc e k"
  shows "returns (with_handle e (ask_once e TYPE_PTR name tag) s) (\<lambda>(p, u). dns_inv {} {} {} u \<and> ledger {} u = ledger {} s + (if p = None then {#} else {#tag#}))"
proof (rule with_handle_ok [OF s e(3)])
  fix h t
  assume t: "dns_inv {} {} {} t" "free_handle t h" "handles t h = Some new_handle" "listed t = listed s" "server_ring t = server_ring s"
  have "room t" using e(2) t(4) by (simp add: room_def)
  then show "returns (ask_once e TYPE_PTR name tag h t) (\<lambda>u. dns_inv {} {} {} u \<and> asked_for {} {#tag#} h t u)"
    using ask_once_ok [OF t(1) e(1) _ e(3) t(2,3)] by (simp add: type_ok_def)
qed

lemma cancel_user_ok:
  assumes s: "dns_inv {} {} {} s" and h: "waits_for s h" and e: "fair_random e" "room s" "\<And>k. env_alloc e k"
  shows "returns (evdns_cancel_request e h s) (\<lambda>u. dns_inv {} {} {} u \<and> ledger {} u = ledger {} s)"
proof -
  have live: "live_handle {} s h" using h by (auto simp: waits_for_def live_handle_def)
  have "\<exists>tag. user_callback q = User tag" if r: "r \<in> listed s" "requests s r = Some q" "req_handle q = Some h" for r q
  proof -
    obtain hn where hn: "handles s h = Some hn" "current_req hn = Some r" "\<not> pending_cb hn"
      by (rule held_handle [OF s r(1)]) (use r in auto)
    have "\<not> (\<exists>d \<in> set (deferreds s). d_handle d = Some h)"
      using s hn by (auto simp: dns_inv_def objs_def held_def deferred_held_def)
    then obtain p a tag where p: "p \<in> listed s" "requests s p = Some a" "req_handle a = Some h" "user_callback a = User tag"
      using h by (auto simp: waits_for_def)
    have "p = r" using handle_owner [OF s p(1-3) hn(1)] hn(2) by simp
    then show ?thesis using p r by simp
  qed
  then have "returns (evdns_cancel_request e h s) (\<lambda>u. dns_inv {} {} {} u \<and> ledger {} u = ledger {} s \<and> shrinks (requests_of s h) s u)"
    by (intro cancel_ok [OF s live e]) fastforce
  then show ?thesis by (auto elim!: returns_mono)
qed

lemma happen_ok:
  assumes s: "dns_inv {} {} {} s" and e: "good_env e" and room: "room s" and may: "may_happen s ev"
  shows "returns (happen e ev s) (\<lambda>(more, t). dns_inv {} {} {} t \<and> ledger {} t = ledger {} s + more)"
proof -
  have env: "fair_random e" "\<And>k. env_alloc e k" using e by (simp_all add: good_env_def)
  have plain: "returns (map_option (Pair {#}) m) (\<lambda>(more, t). dns_inv {} {} {} t \<and> ledger {} t = ledger {} s + more)"
    if "returns m (\<lambda>t. dns_inv {} {} {} t \<and> ledger {} t = ledger {} s)" for m
    using that by (auto simp: returns_def)
  have plain2: "returns (map_option (Pair {#} \<circ> snd) m) (\<lambda>(more, t). dns_inv {} {} {} t \<and> ledger {} t = ledger {} s + more)"
    if "returns m (\<lambda>(c :: int, t). dns_inv {} {} {} t \<and> ledger {} t = ledger {} s)" for m
    using that by (auto simp: returns_def)
  have serv: "returns m (\<lambda>t. dns_inv {} {} {} t \<and> ledger {} t = ledger {} s)" if "returns m (served s)" for m
    using that by (rule returns_mono) (simp add: served_def)
  have ask: "returns (asks tag m) (\<lambda>(more, t). dns_inv {} {} {} t \<and> ledger {} t = ledger {} s + more)"
    if "returns m (\<lambda>(p, u). dns_inv {} {} {} u \<and> ledger {} u = ledger {} s + (if p = None then {#} else {#tag#}))" for m tag
    using that by (cases m) (auto simp: returns_def asks_def split: if_splits)
  show ?thesis
  proof (cases ev)
    case (Resolve ty name flags tag)
    then show ?thesis using ask [OF resolve_ok [OF s env(1) room env(2), of ty name flags tag]] may by simp
  next
    case (Resolve_reverse a tag)
    then show ?thesis using ask [OF resolve_reverse_ok [OF s env(1) room env(2), of "reverse_name a" tag]] by (simp add: evdns_base_resolve_reverse_def)
  next
    case (Resolve_reverse_ipv6 a tag)
    then show ?thesis using ask [OF resolve_reverse_ok [OF s env(1) room env(2), of "reverse_name6 a" tag]] by (simp add: evdns_base_resolve_reverse_ipv6_def)
  next
    case (Cancel h)
    then show ?thesis using plain [OF cancel_user_ok [OF s _ env(1) room env(2)]] may by simp
  next
    case (Add_server op bi a)
    then show ?thesis using plain2 [OF add_server_ok [OF s env(2)]] by simp
  next
    case (Set_max m)
    have "returns (evdns_base_set_max_requests_inflight e m s) (\<lambda>(c, t). dns_inv {} {} {} t \<and> ledger {} t = ledger {} s)"
      by (rule returns_mono [OF set_max_ok [OF s env(2)]]) (auto simp: served_def)
    then show ?thesis using plain2 Set_max by simp
  next
    case Search_clear
    then show ?thesis using plain [OF serv [OF search_clear_ok [OF s env(2)]]] by simp
  next
    case (Search_add d)
    then show ?thesis using plain [OF serv [OF search_add_ok [OF s env(2)]]] by simp
  next
    case (Search_ndots n)
    then show ?thesis using plain [OF serv [OF search_ndots_ok [OF s env(2)]]] by simp
  next
    case Search_reverse
    then show ?thesis using plain [OF serv [OF search_reverse_ok [OF s]]] may by simp
  next
    case Resume
    have "returns (evdns_base_resume e s) (\<lambda>t. dns_inv {} {} {} t \<and> ledger {} t = ledger {} s)"
      unfolding evdns_base_resume_def by (rule returns_mono [OF inv_pump [OF s env(1) room]]) simp
    then show ?thesis using plain Resume by simp
  next
    case (Request_timeout r)
    have "returns (evdns_request_timeout_callback e r s) (\<lambda>t. dns_inv {} {} {} t \<and> ledger {} t = ledger {} s)"
      by (rule returns_mono [OF timeout_ok [OF s _ env(1) room env(2)]]) (use may Request_timeout in simp_all)
    then show ?thesis using plain Request_timeout by simp
  next
    case (Probe_timer n)
    have "returns (nameserver_prod_callback e n s) (\<lambda>t. dns_inv {} {} {} t \<and> ledger {} t = ledger {} s)"
      by (rule returns_mono [OF prod_ok [OF s _ env(1) room env(2)]]) (use may Probe_timer in simp_all)
    then show ?thesis using plain Probe_timer by simp
  next
    case (Socket_ready n w rd rs)
    have "returns (nameserver_ready_callback e n w rd rs s) (served s)"
      by (rule ready_ok [OF s _ env(1) room env(2)]) (use may Socket_ready in auto)
    then show ?thesis using plain [OF serv] Socket_ready by simp
  next
    case Run_callback
    then show ?thesis using plain [OF serv [OF reply_run_callback_ok [OF s _ env(1) room env(2)]]] may by simp
  qed
qed

lemma reachable_dns_inv:
  assumes "reachable e owed s" "good_env e"
  shows "dns_inv {} {} {} s \<and> ledger {} s = owed"
  using assms
proof (induction rule: reachable.induct)
  case (start s)
  then have "s = first_base" using base_new [of e] by (simp add: good_env_def)
  then show ?case using first_base_inv by simp
next
  case (event owed s ev tags t)
  then show ?case using happen_ok [of s e ev] by (auto simp: returns_def)
qed

end
