(* ===== verification/EvdnsRunProps.thy ===== *)
theory EvdnsRunProps
  imports EvdnsRun
begin

text \<open>
  What the resolver promises, over all its reachable states, with an environment that satisfies the assumptions.
\<close>

section \<open>An environment\<close>

text \<open>All numbers in turn, from an even place on; then again from an odd place on.\<close>

definition sample_random :: "nat \<Rightarrow> u8" where
  "sample_random k =
     (let j = k mod 524288; i = (if j \<le> 262144 then j else j - 262145)
      in if even i then lo8 (word_of_nat (i div 2)) else hi8 (word_of_nat (i div 2)))"

lemma sample_random_code [code]:
  "sample_random k =
     (let j = int k mod 524288; i = (if j \<le> 262144 then j else j - 262145)
      in if even i then lo8 (word_of_int (i div 2)) else hi8 (word_of_int (i div 2)))"
proof -
  define j where "j = k mod 524288"
  define i where "i = (if j \<le> 262144 then j else j - 262145)"
  have j: "int k mod 524288 = int j" by (simp add: j_def zmod_int)
  have i: "(if int j \<le> 262144 then int j else int j - 262145) = int i" by (auto simp: i_def)
  have "word_of_int (int i div 2) = (word_of_nat (i div 2) :: u16)" 
    by (metis of_int_of_nat_eq of_nat_numeral zdiv_int)
  then show ?thesis unfolding sample_random_def Let_def j i j_def [symmetric] i_def [symmetric] by simp
qed

definition sample_env :: dns_env where
  "sample_env = \<lparr>env_alloc = (\<lambda>_. True), env_random = sample_random, env_send = (\<lambda>_. Sent 21)\<rparr>"

lemma sample_even: "t < 65536 \<Longrightarrow> sample_random (524288 * q + 2 * t) = lo8 (word_of_nat t) \<and> sample_random (524288 * q + 2 * t + 1) = hi8 (word_of_nat t)"
proof -
  assume t: "t < 65536"
  have "(524288 * q + 2 * t) mod 524288 = 2 * t" "(524288 * q + 2 * t + 1) mod 524288 = 2 * t + 1" using t by (simp_all add: mod_mult_self4)
  then show ?thesis using t by (simp add: sample_random_def)
qed

lemma sample_odd: "t < 65536 \<Longrightarrow> sample_random (524288 * q + 262145 + 2 * t) = lo8 (word_of_nat t) \<and>
    sample_random (524288 * q + 262145 + 2 * t + 1) = hi8 (word_of_nat t)"
proof -
  assume t: "t < 65536"
  have "(524288 * q + (262145 + 2 * t)) mod 524288 = 262145 + 2 * t" "(524288 * q + (262146 + 2 * t)) mod 524288 = 262146 + 2 * t"
    using t by (simp_all add: mod_mult_self4)
  then have "sample_random (524288 * q + (262145 + 2 * t)) = lo8 (word_of_nat t)" "sample_random (524288 * q + (262146 + 2 * t)) = hi8 (word_of_nat t)"
    unfolding sample_random_def Let_def by simp_all
  moreover have "524288 * q + 262145 + 2 * t = 524288 * q + (262145 + 2 * t)" "524288 * q + 262145 + 2 * t + 1 = 524288 * q + (262146 + 2 * t)" by simp_all
  ultimately show ?thesis by metis
qed

lemma sample_fair: "fair_random sample_env"
  unfolding fair_random_def
proof (intro allI)
  fix c and tid :: u16
  have t: "unat tid < 65536" by (rule order_less_le_trans [OF unsigned_less]) simp
  show "\<exists>k. le16 (env_random sample_env (c + 2 * k)) (env_random sample_env (c + 2 * k + 1)) = tid"
  proof (cases "even c")
    case True
    then obtain d where d: "c = 2 * d" by (auto elim: evenE)
    have "c + 2 * (262144 * c + unat tid - d) = 524288 * c + 2 * unat tid" using d by simp
    then show ?thesis using sample_even [OF t, of c] by (intro exI [of _ "262144 * c + unat tid - d"]) (simp add: sample_env_def)
  next
    case False
    then obtain d where d: "c = 2 * d + 1" by (auto elim: oddE)
    have "c + 2 * (262144 * c + 131072 + unat tid - d) = 524288 * c + 262145 + 2 * unat tid" using d by simp
    then show ?thesis using sample_odd [OF t, of c] by (intro exI [of _ "262144 * c + 131072 + unat tid - d"]) (simp add: sample_env_def add.assoc)
  qed
qed

lemma sample_good: "good_env sample_env"
  using sample_fair by (simp add: good_env_def) (simp add: sample_env_def)

text \<open>A row of events, and whether each may happen. The packets are looked at on their own.\<close>

fun packets_of :: "dns_event \<Rightarrow> recv list" where
  "packets_of (Socket_ready n w rd rs) = rs"
| "packets_of _ = []"

fun may_run :: "dns_base \<Rightarrow> dns_event \<Rightarrow> bool" where
  "may_run s (Resolve ty name flags tag) \<longleftrightarrow> (ty = TYPE_A \<or> ty = TYPE_AAAA) \<and> name \<noteq> []"
| "may_run s (Cancel h) \<longleftrightarrow> False"
| "may_run s Search_reverse \<longleftrightarrow> global_search_state s \<noteq> None"
| "may_run s (Request_timeout r) \<longleftrightarrow> r \<in> set (concat (req_heads s)) \<and> (case requests s r of None \<Rightarrow> False | Some q \<Rightarrow> req_timer q)"
| "may_run s (Probe_timer n) \<longleftrightarrow> n \<in> set (server_ring s) \<and> (case nameservers s n of None \<Rightarrow> False | Some v \<Rightarrow> ns_timer v \<noteq> None)"
| "may_run s (Socket_ready n w rd rs) \<longleftrightarrow> n \<in> set (server_ring s)"
| "may_run s Run_callback \<longleftrightarrow> deferreds s \<noteq> []"
| "may_run s _ \<longleftrightarrow> True"

fun run :: "dns_env \<Rightarrow> dns_event list \<Rightarrow> dns_base \<Rightarrow> dns_base option" where
  "run e [] s = Some s"
| "run e (ev # evs) s =
     (if may_run s ev \<and> int (length (concat (req_heads s)) + length (req_waiting s)) < 65500 then do {
        (_, t) \<leftarrow> happen e ev s;
        run e evs t
      } else None)"

lemma may_run_happen: "may_run s ev \<Longrightarrow> \<forall>a p k. Packet a p k \<in> set (packets_of ev) \<longrightarrow> safe_packet p k \<Longrightarrow> may_happen s ev"
  by (cases ev) (auto simp: inflight_def split: option.splits)

lemma run_reachable:
  assumes "run e evs s = Some t" "reachable e owed s" "\<forall>ev \<in> set evs. \<forall>a p k. Packet a p k \<in> set (packets_of ev) \<longrightarrow> safe_packet p k"
  shows "\<exists>owed'. reachable e owed' t"
  using assms
proof (induction evs arbitrary: s owed)
  case (Cons ev evs)
  have may: "may_run s ev" "length (concat (req_heads s)) + length (req_waiting s) < 65500" using Cons.prems(1) by (auto split: if_splits)
  obtain tags u where u: "happen e ev s = Some (tags, u)" "run e evs u = Some t"
    using Cons.prems(1) may by (auto simp: bind_eq_Some_conv)
  have "card (listed s) \<le> length (inflight s) + length (req_waiting s)"
    unfolding listed_def by (rule order_trans [OF card_Un_le]) (simp add: add_mono card_length)
  then have "room s" using may(2) by (simp add: room_def inflight_def)
  then have "reachable e (owed + tags) u"
    by (rule event [OF Cons.prems(2) _ may_run_happen [OF may(1)] u(1)]) (use Cons.prems(3) in simp)
  then show ?case using Cons.IH [OF u(2)] Cons.prems(3) by simp
qed auto

section \<open>What a program can rely on\<close>

text \<open>A lookup in flight, and a refusal from the server for it.\<close>

definition refusal :: bytes where
  "refusal = [0, 0, 0x81, 0x82, 0, 0, 0, 0, 0, 0, 0, 0]"

lemma refusal_safe: "safe_packet refusal 12"
  by (simp add: safe_packet_def reply_parse_def refusal_def GET16_def le16_def)

definition lookup_events :: "dns_event list" where
  "lookup_events = [Add_server True True (Sin 1 53), Search_add (bytes_of ''com''), Set_max 1, Resolve TYPE_A (bytes_of ''a.b'') 0 7]"

abbreviation refused :: dns_event where
  "refused \<equiv> Socket_ready 2 False True [Packet (Sin 1 53) refusal 12]"

lemma lookup_runs:
  "case run sample_env lookup_events first_base of None \<Rightarrow> False
   | Some s \<Rightarrow> length (concat (req_heads s)) = 1 \<and> req_waiting s = [] \<and> server_ring s = [2]"
  by code_simp

lemma sample_start: "reachable sample_env {#} first_base"
  using base_new [of sample_env] by (intro start) (simp add: sample_env_def)

lemma lookup_reachable: "\<exists>owed s. reachable sample_env owed s \<and> length (inflight s) = 1 \<and> req_waiting s = [] \<and> server_ring s = [2] \<and> room s"
proof -
  obtain s where s: "run sample_env lookup_events first_base = Some s" "length (concat (req_heads s)) = 1" "req_waiting s = []" "server_ring s = [2]"
    using lookup_runs by (auto split: option.splits)
  obtain owed where "reachable sample_env owed s"
    using run_reachable [OF s(1) sample_start] by (auto simp: lookup_events_def)
  moreover have "card (listed s) \<le> 1" using card_length [of "inflight s"] s(2,3) by (simp add: listed_def inflight_def)
  then have "room s" by (simp add: room_def)
  ultimately show ?thesis using s(2-4) by (auto simp: inflight_def)
qed

text \<open>
  Property C9: with an allocator that does not fail and fair random numbers, no allowed event ever makes the resolver
  use an object that was freed, take a request from a list it is not in, fail an assertion, or loop for ever: in
  every reachable state with room for more requests, every event that may happen there runs to its end.
\<close>

theorem resolver_safe:
  assumes "good_env e" "reachable e owed s" "room s" "may_happen s ev"
  shows "\<exists>tags t. happen e ev s = Some (tags, t)"
  using happen_ok [OF _ assms(1,3,4)] reachable_dns_inv [OF assms(2,1)] by (auto simp: returns_def)

theorem resolver_safe_witness:
  "\<exists>owed s. reachable sample_env owed s \<and> length (inflight s) = 1 \<and> (\<exists>tags t. happen sample_env refused s = Some (tags, t))"
proof -
  obtain owed s where s: "reachable sample_env owed s" "length (inflight s) = 1" "server_ring s = [2]" "room s"
    using lookup_reachable by blast
  have "may_happen s refused" using s(3) refusal_safe by auto
  from resolver_safe [OF sample_good s(1,4) this] show ?thesis using s(1,2) by blast
qed

text \<open>
  Property C11: nothing that was sent is forgotten: in every reachable state a request in flight has a server of the ring
  and its timer is pending, or it is to be sent and some server waits to be writable; and a server that is down
  has the timer for its next probe pending, or a probe of it is under way.
\<close>

theorem resolver_waits:
  assumes "good_env e" "reachable e owed s"
  shows "(\<forall>r \<in> set (inflight s). \<exists>q n. requests s r = Some q \<and> req_ns q = Some n \<and> n \<in> set (server_ring s) \<and>
            (req_timer q \<or> transmit_me q \<and> someone_writes s)) \<and>
         (\<forall>n \<in> set (server_ring s). \<exists>v. nameservers s n = Some v \<and> (ns_state v \<or> ns_timer v \<noteq> None \<or> (\<exists>h. probing {} s n h)))"
proof -
  have "net {} s" "lively {} {} s" using reachable_dns_inv [OF assms(2,1)] by (simp_all add: dns_inv_def objs_def)
  moreover have "\<exists>q n. requests s r = Some q \<and> req_ns q = Some n \<and> n \<in> set (server_ring s) \<and> (req_timer q \<or> transmit_me q \<and> someone_writes s)"
    if "r \<in> set (inflight s)" for r
    using flying_server [OF \<open>net {} s\<close> that] by (metis empty_iff)
  ultimately show ?thesis using net_server [of "{}" s] unfolding lively_def by (metis Diff_empty)
qed

theorem resolver_waits_witness:
  "\<exists>owed s r q. reachable sample_env owed s \<and> r \<in> set (inflight s) \<and> requests s r = Some q \<and> (req_timer q \<or> transmit_me q \<and> someone_writes s)"
proof -
  obtain owed s where s: "reachable sample_env owed s" "length (inflight s) = 1" using lookup_reachable by blast
  then obtain r where "r \<in> set (inflight s)" by (cases "inflight s") auto
  then show ?thesis using resolver_waits [OF sample_good s(1)] s(1) by blast
qed

text \<open>
  Property C10: every callback is called once: of the callbacks a program was promised (a lookup returned a handle for it),
  each is at any time in exactly one place: with a request in the lists, with a scheduled callback, or among
  the results that were delivered; searching on, timeouts, cancelling and failures included.
\<close>

theorem callbacks_accounted:
  assumes "good_env e" "reachable e owed s"
  shows "owed = (\<Sum>r \<in> listed s. req_tag s r) + (\<Sum>d \<leftarrow> deferreds s. tag_of (d_callback d)) + mset (map res_tag (delivered s))"
  using reachable_dns_inv [OF assms(2,1)] by (simp add: ledger_def)

theorem callbacks_accounted_witness:
  "\<exists>owed s. reachable sample_env owed s \<and> length (inflight s) = 1 \<and>
     owed = (\<Sum>r \<in> listed s. req_tag s r) + (\<Sum>d \<leftarrow> deferreds s. tag_of (d_callback d)) + mset (map res_tag (delivered s))"
proof -
  obtain owed s where s: "reachable sample_env owed s" "length (inflight s) = 1" using lookup_reachable by blast
  then show ?thesis using callbacks_accounted [OF sample_good s(1)] by blast
qed

section \<open>What it can not rely on\<close>

lemma stall_runs:
  "case run sample_env (lookup_events @ [refused]) first_base of None \<Rightarrow> False
   | Some s \<Rightarrow> length (req_waiting s) = 1 \<and> concat (req_heads s) = [] \<and> deferreds s = [] \<and> delivered s = [] \<and> server_ring s = [2] \<and>
       (case nameservers s 2 of None \<Rightarrow> False | Some v \<Rightarrow> ns_state v \<and> ns_timer v = None \<and> \<not> write_waiting v)"
  by code_simp


text \<open>
  Clearing the servers uses one that was freed: the first is freed, then the probe of the second is cancelled,
  which looks for a server for the request that waits, and begins with the first.
\<close>

definition clear_events :: "dns_event list" where
  "clear_events = [Add_server True True (Sin 1 53), Set_max 1, Resolve TYPE_A (bytes_of ''a.b'') 1 7, Add_server True True (Sin 2 53),
     Socket_ready 6 False True [Recv_error], Probe_timer 6, Resolve TYPE_A (bytes_of ''c.d'') 1 8, refused]"

lemma clear_uses_freed:
  "case run sample_env clear_events first_base of None \<Rightarrow> False
   | Some s \<Rightarrow> evdns_base_clear_nameservers_and_suspend sample_env s = None"
  by code_simp

end
