(* ===== verification/Spec2Isabelle.thy ===== *)
theory Spec2Isabelle
  imports AfnDispatchProofs EvbufferProps TaggingProps EventProps EvdnsProps AfnAnswersProofs AfnTelnet AfnWater EvAddrinfo EvRateLimitProofs
    AfnConfigProofs EvdnsRunProps
begin

text \<open>
  AFN is a master station for electricity (and, in part, water) meters: concentrators connect to it by
  TCP, log in, keep a heart beat and answer requests for readings; an operator talks to it over a text
  port. It runs on libevent 2.0.22, whose sources are part of the repository and carry the event loop,
  the buffers between the program and its sockets, and much that the program does not call. The
  development models both, from the source, and proves what makes each part correct, and where a part
  is not correct, what exactly goes wrong.

  How to read it. A C or C++ function is a HOL function of the state it reads, returning the state it
  leaves; classes and structs are records, tagged unions and error codes datatypes, fixed-width
  integers words or integers with the wrap-around written out. \<open>None\<close> at the outermost level is
  behaviour that C does not define (an access outside memory, a null pointer, a failed assertion, a
  division by zero); the results that the code itself returns are values below it. What is not under
  \<open>src/\<close> (sockets, clocks, the data base, allocation, callbacks of the user) is an argument.

  The station (\<open>AFN/src\<close>):

  \<^item> \<open>AfnProto\<close>, \<open>AfnCodec\<close>, \<open>AfnPackage\<close>: the frames (\<open>proto.h\<close>, \<open>proto.cpp\<close>, \<open>AFNPackage.cpp\<close>):
    headers with their bit fields, application data, check sum, serialising and parsing.
    \<open>AfnPackageProofs\<close>: a completed frame is parsed back field by field; the parser's answer on every
    input; the inputs on which it leaves its memory.
  \<^item> \<open>AfnConnection\<close>: the receive buffer and loop of a connection (\<open>EventConnection.cpp\<close>): complete frames
    are handed on in order, the rest is kept; the loop ends; what a half frame does to the next read.
  \<^item> \<open>AfnStation\<close>, \<open>AfnDispatch\<close>: concentrators and their sequence numbers (\<open>Jzq.cpp\<close>,
    \<open>ConnectionList.cpp\<close>), the table of handlers (\<open>PackageBuilder.cpp\<close>, \<open>Api.cpp\<close>), the login handler
    (\<open>AFN02.cpp\<close>) and the frame logic of a connection (\<open>ConnectionPower.cpp\<close>). \<open>AfnDispatchProofs\<close>: the
    login exchange from the received bytes to the answer's bytes, the numbers of answers, which frame
    objects are deleted, and twice.
  \<^item> \<open>AfnMeter\<close>, \<open>AfnMeterProofs\<close>: dates and readings as binary coded decimals (\<open>AFNData.cpp\<close>), the data
    of answers and requests (\<open>AFN0C.cpp\<close>, \<open>AFN04.cpp\<close>, \<open>AFN01.cpp\<close>).
  \<^item> \<open>AfnCalls\<close>, \<open>AfnAnswers\<close>, \<open>AfnAnswersProofs\<close>: connections, timers and calls of the operator; the
    threads that wait for an answer and the receiver that hands it over, as a step relation
    (\<open>AFNPackageBuilder.cpp\<close>): an answer object has one owner in every reachable state.
  \<^item> \<open>AfnTelnet\<close>: the operator's port (\<open>TelnetServer.cpp\<close>). \<open>AfnWater\<close>: the water meters' protocol as far
    as it is written.
  \<^item> \<open>AfnConfig\<close>, \<open>AfnConfigProofs\<close>: the configuration file (\<open>AFN/common/YQConfig.cpp\<close>): a written value
    is read back and no other changes, given what the format can hold.

  libevent (\<open>libevent-2.0.22-stable\<close>):

  \<^item> \<open>Evbuffer\<close>, \<open>EvbufferOps\<close>, \<open>EvbufferFront\<close>, \<open>EvbufferSpace\<close>, \<open>EvbufferSearch\<close>: all of \<open>buffer.c\<close> that
    moves or looks at bytes. A chain owns its array of memory; the list of chains is a list and
    \<open>last_with_datap\<close> an index into it. \<open>EvbufferInv\<close> has the invariant and the abstraction \<open>content\<close>;
    \<open>EvbufferProofs\<close>, \<open>EvbufferMove\<close>, \<open>EvbufferRoom\<close> and \<open>EvbufferLines\<close> prove that every operation does to
    the content what it promises; \<open>EvbufferContract\<close> states the contract as a locale and interprets it
    on the evbuffer; \<open>EvbufferProps\<close> has the properties.
  \<^item> \<open>Tagging\<close> with \<open>TaggingProofs\<close> and \<open>TaggingProps\<close>: \<open>event_tagging.c\<close>, a client of that contract:
    what is marshalled is unmarshalled, whatever follows in the buffer.
  \<^item> \<open>MinHeap\<close>, \<open>MinHeapProofs\<close>: the heap of timeouts. \<open>EvStruct\<close>, \<open>EventBase\<close>, \<open>EventCore\<close>, \<open>EventLoop\<close>,
    \<open>EventNew\<close>: events, the base with its queues and maps, adding, deleting and activating, common
    timeouts, closures and the loop (\<open>event.c\<close>, \<open>evmap.c\<close>). \<open>EventInv\<close>, \<open>EventOps\<close>, \<open>EventAdd\<close>: the
    invariant that ties the flags of events to the queues and the counters, kept by every operation;
    \<open>TimerQueue\<close>: the interface of a timer source with two interpretations, the heap and the base;
    \<open>EventRun\<close>, \<open>EventProps\<close>: sequences of operations and the properties; \<open>EventSamples\<close>: concrete bases.
  \<^item> \<open>EvRateLimit\<close>, \<open>EvRateLimitProofs\<close>: token buckets and groups of bufferevents
    (\<open>bufferevent_ratelim.c\<close>): the refill equals the naive sum; whoever is stopped has something that
    wakes it up, in every reachable state; a group goes on once its bucket allows it.
  \<^item> \<open>EvChar\<close>, \<open>EvAddr\<close>, \<open>EvAddrProofs\<close>, \<open>EvAddrinfo\<close>: characters, addresses as text, socket addresses
    with ports and the part of \<open>getaddrinfo\<close> that needs no resolver (\<open>evutil.c\<close>).
  \<^item> \<open>EvdnsCodec\<close>, \<open>EvdnsPacket\<close>, \<open>EvdnsProofs\<close>, \<open>EvdnsProps\<close>: DNS packets (\<open>evdns.c\<close>): names with
    compression in both directions, requests, replies, and a server's responses.
  \<^item> \<open>EvdnsResolver\<close>, \<open>EvdnsLookup\<close>, \<open>EvdnsEvents\<close>: the resolver around the packets: the ring of name
    servers with their states and probes, the lists of requests in flight (by transaction number) and
    waiting, searching through domains, handles, scheduled callbacks. Objects are kept in maps from
    addresses, and the use of an address that was freed is \<open>None\<close>. \<open>EvdnsNet\<close>, \<open>EvdnsObjects\<close>,
    \<open>EvdnsServers\<close>, \<open>EvdnsAsk\<close>, \<open>EvdnsSearch\<close>, \<open>EvdnsLookups\<close>, \<open>EvdnsReplies\<close>, \<open>EvdnsHandlers\<close> and
    \<open>EvdnsConfig\<close> prove, function by function, that the invariant of lists, servers, handles and timers
    is kept, with the parts of it that are broken in between as sets of exceptions. \<open>EvdnsRun\<close> has the
    events and the reachable states, \<open>EvdnsRunProps\<close> the properties: nothing faults or loops, every
    callback is called once, nothing sent is forgotten. They assume that the allocator does not fail,
    that every transaction number comes up again, fewer than 65500 requests, packets that can be parsed
    in bounds, and that servers are not cleared; two runs show a search that stalls and what clearing
    the servers may lead to.

  Bounds and fuel. Recursions that are not structural carry a measure; a loop that callbacks can keep
  going for ever is a \<open>partial_function\<close>, as are the choice of a transaction number and the walks of the
  resolver over lists that the body changes; the resolver's properties include that those return. The receive loop of a connection, the search over chains and
  the search for CR LF take fuel, and each has a theorem that the fuel given at the call is enough: one
  more than the bytes that are left. Sizes that the C code keeps in an \<open>int\<close> are kept with that width
  where it shows: the growth of the descriptor maps is defined below \<open>2 ^ 30\<close> entries and the heap below
  \<open>2 ^ 31\<close>. Sizes of structs passed to the allocator are labels without a value; unions are modelled with
  separate fields where no code reads through the other member.

  Assumptions about what is outside: \<open>int\<close> has 32 bits, \<open>long\<close> and \<open>size_t\<close> 64, byte order is little
  endian; one thread runs an event base; where libevent can use the system's \<open>inet_ntop\<close> or
  \<open>inet_pton\<close>, the versions of \<open>evutil.c\<close> are modelled.

  Not modelled. Of the station: the data base access (\<open>YQDB\<close>, \<open>TQuery\<close>, \<open>DBManager\<close>), logging, thread and
  process wrappers, the wiring of sockets in \<open>TcpServer.cpp\<close>, \<open>svr.cpp\<close> and \<open>AFN.cpp\<close>: calls of the system
  and of libraries with no logic of their own; the messages of another program in \<open>AFN/common\<close> that
  nothing here uses; third-party code under \<open>AFN/thirdparty\<close> and headers under \<open>AFN/include\<close>. Of libevent:
  the back ends (\<open>epoll.c\<close>, \<open>poll.c\<close>, \<open>select.c\<close>, \<open>kqueue.c\<close>, \<open>devpoll.c\<close>, \<open>evport.c\<close>, \<open>win32select.c\<close>,
  the IOCP files), which are system calls; locking and thread wrappers; the random number generator;
  OpenSSL bufferevents; of \<open>evdns.c\<close> the sockets of a server port, the options, the files
  \<open>resolv.conf\<close> and \<open>hosts\<close>, and \<open>getaddrinfo\<close>; the bufferevents themselves, \<open>http.c\<close>, \<open>evrpc.c\<close>,
  \<open>listener.c\<close> and \<open>signal.c\<close>, which the station reaches only through its connections.
\<close>

end
